(* ===== verification/Obsw_Prelude.thy ===== *)
theory Obsw_Prelude
  imports Main "HOL-Library.Word" "HOL-Library.Multiset"
begin

unbundle bit_operations_syntax

section \<open>Prelude: machine types, bytes, arrays and table scans\<close>

text \<open>
  What every component of the stack shares: the fixed-width integer types of
  \<^verbatim>\<open>stdint.h\<close>, the big-endian readers of \<^verbatim>\<open>include/obsw/util/bytes.h\<close> and the
  byte splits the emitters write inline, \<open>memcpy\<close> into an array, the linear scan
  over the used part of a caller-owned table, and the removal that moves the last
  used entry into the hole.

  A C pointer that the code compares with \<open>NULL\<close> is an \<open>option\<close>, \<open>None\<close> being
  \<open>NULL\<close>; a pointer into a byte buffer is the list of the bytes from there to the end
  of the buffer, so that advancing a pointer is \<open>drop\<close>.  An object a function writes
  through a pointer is an argument and a component of the result.
\<close>

type_synonym u8 = "8 word"
type_synonym u16 = "16 word"
type_synonym u32 = "32 word"
type_synonym u64 = "64 word"

named_theorems layout \<open>lengths and bytes of the headers and packets the code writes\<close>
named_theorems frame_simps \<open>what an operation leaves unchanged\<close>
named_theorems inv_intros \<open>operations keep the invariant of their component\<close>

subsection \<open>Literals that are bit masks\<close>

lemma mask_literals:
  "(3 :: 'a::len word) = mask 2" "(7 :: 'a word) = mask 3" "(15 :: 'a word) = mask 4"
  "(31 :: 'a word) = mask 5" "(63 :: 'a word) = mask 6" "(255 :: 'a word) = mask 8"
  "(2047 :: 'a word) = mask 11" "(16383 :: 'a word) = mask 14"
  by (simp_all add: mask_eq_exp_minus_1)

lemma and_literals:
  "(x :: 'a::len word) AND 1 = take_bit 1 x" "x AND 3 = take_bit 2 x" "x AND 7 = take_bit 3 x"
  "x AND 15 = take_bit 4 x" "x AND 31 = take_bit 5 x" "x AND 63 = take_bit 6 x"
  "x AND 255 = take_bit 8 x" "x AND 2047 = take_bit 11 x" "x AND 16383 = take_bit 14 x"
  by (simp_all add: take_bit_eq_mask mask_eq_exp_minus_1)

text \<open>
  Equality of words of the two small widths, bit by bit: with the bit numbers as
  literals, \<open>bit_simps\<close> decides every range condition.
\<close>

lemma u8_bitsI: "(\<And>n. n \<in> set [0, 1, 2, 3, 4, 5, 6, 7] \<Longrightarrow> bit x n = bit y n) \<Longrightarrow> x = (y :: u8)"
  by (rule bit_word_eqI) (simp, force simp: less_Suc_eq numeral_eq_Suc)

lemma u16_bitsI:
  "(\<And>n. n \<in> set [0, 1, 2, 3, 4, 5, 6, 7, 8, 9, 10, 11, 12, 13, 14, 15] \<Longrightarrow> bit x n = bit y n)
   \<Longrightarrow> x = (y :: u16)"
  by (rule bit_word_eqI) (simp, force simp: less_Suc_eq numeral_eq_Suc)

lemma not_bit_u8: "8 \<le> n \<Longrightarrow> \<not> bit (x :: u8) n"
  by (auto dest: bit_imp_le_length)

lemmas expand_bits = list.set insert_iff empty_iff

declare bit_0 [simp del] take_bit_Suc_0 [simp del]

lemma ucast_and_255 [simp]: "ucast ((x :: 'a::len word) AND 255) = (ucast x :: u8)"
  by (rule bit_word_eqI) (auto simp: bit_simps mask_literals dest: bit_imp_le_length)

subsection \<open>Big-endian integers\<close>

definition obsw_be16 :: "u8 list \<Rightarrow> u16" where
  "obsw_be16 p = push_bit 8 (ucast (p ! 0)) OR ucast (p ! 1)"

definition obsw_be32 :: "u8 list \<Rightarrow> u32" where
  "obsw_be32 p = push_bit 24 (ucast (p ! 0)) OR push_bit 16 (ucast (p ! 1))
     OR push_bit 8 (ucast (p ! 2)) OR ucast (p ! 3)"

text \<open>The two and four bytes the emitters store for a value, most significant first.\<close>

definition be_bytes16 :: "u16 \<Rightarrow> u8 list" where
  "be_bytes16 x = [ucast (drop_bit 8 x), ucast (x AND 0xFF)]"

definition be_bytes32 :: "u32 \<Rightarrow> u8 list" where
  "be_bytes32 x = [ucast (drop_bit 24 x), ucast (drop_bit 16 x), ucast (drop_bit 8 x),
     ucast (x AND 0xFF)]"

lemma length_be_bytes [simp, layout]:
  "length (be_bytes16 x) = 2" "length (be_bytes32 y) = 4"
  by (simp_all add: be_bytes16_def be_bytes32_def)

lemma be16_be_bytes16: "obsw_be16 (be_bytes16 x @ r) = x"
  by (rule bit_word_eqI) (auto simp: obsw_be16_def be_bytes16_def bit_simps)

lemma be32_be_bytes32: "obsw_be32 (be_bytes32 x @ r) = x"
proof (rule bit_word_eqI)
  fix n assume "n < LENGTH(32)"
  then consider "n < 8" | "8 \<le> n" "n < 16" | "16 \<le> n" "n < 24" | "24 \<le> n" "n < 32"
    by fastforce
  then show "bit (obsw_be32 (be_bytes32 x @ r)) n = bit x n"
    by cases (auto simp: obsw_be32_def be_bytes32_def bit_simps nth_append)
qed

lemma be16_bytes [simp]:
  "obsw_be16 (ucast (drop_bit 8 x) # ucast x # r) = (x :: u16)"
  using be16_be_bytes16 [of x r] by (simp add: be_bytes16_def)

lemma be32_bytes [simp]:
  "obsw_be32 (ucast (drop_bit 24 x) # ucast (drop_bit 16 x) # ucast (drop_bit 8 x) # ucast x # r)
    = (x :: u32)"
  using be32_be_bytes32 [of x r] by (simp add: be_bytes32_def)

lemma be_bytes16_be16: "be_bytes16 (obsw_be16 (a # b # r)) = [a, b]"
  by (auto simp: be_bytes16_def obsw_be16_def intro!: bit_word_eqI)
    (auto simp: bit_simps dest: bit_imp_le_length)

lemma be_bytes32_be32: "be_bytes32 (obsw_be32 (a # b # c # d # r)) = [a, b, c, d]"
  by (auto simp: be_bytes32_def obsw_be32_def intro!: bit_word_eqI)
    (auto simp: bit_simps dest: bit_imp_le_length)

subsection \<open>Arithmetic on the width of a word\<close>

lemma xor_word_eq_0_iff: "x XOR y = 0 \<longleftrightarrow> y = (x :: 'a::len word)"
  by (auto simp: bit_eq_iff bit_xor_iff)

lemma xor_word_cancel: "x XOR z = y XOR z \<longleftrightarrow> x = (y :: 'a::len word)"
  by (auto simp: bit_eq_iff bit_xor_iff)

lemma unat_of_nat_small: "n < 2 ^ LENGTH('a) \<Longrightarrow> unat (of_nat n :: 'a::len word) = n"
  by (simp add: unsigned_of_nat take_bit_nat_eq_self_iff)

lemma unat_ucast_small:
  "unat (x :: 'a::len word) < 2 ^ LENGTH('b) \<Longrightarrow> unat (ucast x :: 'b::len word) = unat x"
  by (simp add: unsigned_ucast_eq take_bit_nat_eq_self_iff)

text \<open>A literal below \<open>2 ^ 16\<close> has its value in every word of at least 16 bits.\<close>

lemma unat_literal:
  assumes "16 \<le> LENGTH('s)" and "(numeral k :: nat) < 65536"
  shows "unat (numeral k :: 's::len word) = numeral k"
proof -
  have "(65536::nat) \<le> 2 ^ LENGTH('s)"
    using power_increasing [OF assms(1), of "2::nat"] by simp
  with assms(2) have "(numeral k :: nat) < 2 ^ LENGTH('s)" by (rule less_le_trans)
  then show ?thesis by (simp add: unat_numeral take_bit_nat_eq_self)
qed

lemma unat_add_small:
  "unat x + unat y < 2 ^ LENGTH('a) \<Longrightarrow> unat (x + y :: 'a::len word) = unat x + unat y"
  by (simp add: unat_word_ariths)

lemma unat_Suc_word: "unat (x :: 'a::len word) + 1 < 2 ^ LENGTH('a) \<Longrightarrow> unat (x + 1) = unat x + 1"
  by (simp add: unat_word_ariths)

lemma unat_pred_word: "(x :: 'a::len word) \<noteq> 0 \<Longrightarrow> unat (x - 1) = unat x - 1"
  by (rule unat_minus_one)

lemma u8_less_256: "unat (x :: u8) < 256"
  using unsigned_less [of x] by simp

lemma u16_less_65536: "unat (x :: u16) < 65536"
  using unsigned_less [of x] by simp

lemma unat_ucast_u8: "8 \<le> LENGTH('a) \<Longrightarrow> unat (ucast (x :: u8) :: 'a::len word) = unat x"
  using u8_less_256 [of x] power_increasing [of 8 "LENGTH('a)" "2::nat"]
  by (intro unat_ucast_small) simp

lemma unat_ucast_u16: "16 \<le> LENGTH('a) \<Longrightarrow> unat (ucast (x :: u16) :: 'a::len word) = unat x"
  using u16_less_65536 [of x] power_increasing [of 16 "LENGTH('a)" "2::nat"]
  by (intro unat_ucast_small) simp

lemma less_literal:
  assumes "16 \<le> LENGTH('s)" and "(numeral k :: nat) < 65536"
  shows "(x :: 's::len word) < numeral k \<longleftrightarrow> unat x < numeral k"
  by (simp only: word_less_nat_alt unat_literal [OF assms])

lemma unat_sub_literal:
  assumes "16 \<le> LENGTH('s)" and "(numeral k :: nat) < 65536" and "numeral k \<le> unat (x :: 's::len word)"
  shows "unat (x - numeral k) = unat x - numeral k"
  using assms(3) by (simp only: unat_sub_if' unat_literal [OF assms(1,2)] if_True)

subsection \<open>Copying into an array\<close>

text \<open>
  \<open>memcpy_at dst off src n\<close> is \<open>memcpy(dst + off, src, n)\<close>: it overwrites \<open>n\<close> elements of
  \<open>dst\<close> from \<open>off\<close> on.  The result has the length of \<open>dst\<close> exactly when the copy stays
  inside both arrays; a longer result is a write past the end of \<open>dst\<close>.
\<close>

definition memcpy_at :: "'a list \<Rightarrow> nat \<Rightarrow> 'a list \<Rightarrow> nat \<Rightarrow> 'a list" where
  "memcpy_at dst off src n = take off dst @ take n src @ drop (off + n) dst"

lemma length_memcpy_at [simp]:
  "off + n \<le> length dst \<Longrightarrow> n \<le> length src \<Longrightarrow> length (memcpy_at dst off src n) = length dst"
  by (simp add: memcpy_at_def)

lemma take_memcpy_at_0: "n \<le> length src \<Longrightarrow> take n (memcpy_at dst 0 src n) = take n src"
  by (simp add: memcpy_at_def)

lemma memcpy_at_0 [simp]: "memcpy_at dst off src 0 = dst"
  by (simp add: memcpy_at_def)

lemma nth_memcpy_at:
  assumes "off + n \<le> length dst" "n \<le> length src" "i < length dst"
  shows "memcpy_at dst off src n ! i = (if off \<le> i \<and> i < off + n then src ! (i - off) else dst ! i)"
  using assms by (auto simp: memcpy_at_def nth_append min_def)

lemma length_memcpy_at_overrun:
  "off \<le> length dst \<Longrightarrow> n \<le> length src \<Longrightarrow> length dst < off + n \<Longrightarrow>
   length dst < length (memcpy_at dst off src n)"
  by (simp add: memcpy_at_def)

text \<open>A callee that is handed \<open>buf + off\<close> and writes there.\<close>

definition write_at :: "nat \<Rightarrow> ('a list \<Rightarrow> 'a list) \<Rightarrow> 'a list \<Rightarrow> 'a list" where
  "write_at off f buf = take off buf @ f (drop off buf)"

lemma write_at_append: "length a = off \<Longrightarrow> write_at off f (a @ b) = a @ f b"
  by (simp add: write_at_def)

lemma memcpy_at_middle:
  "length a = off \<Longrightarrow> length b = n \<Longrightarrow> n \<le> length src \<Longrightarrow>
   memcpy_at (a @ b @ c) off src n = a @ take n src @ c"
  by (simp add: memcpy_at_def)

lemma memcpy_at_start:
  "length b = n \<Longrightarrow> n \<le> length src \<Longrightarrow> memcpy_at (b @ c) 0 src n = take n src @ c"
  by (simp add: memcpy_at_def)

lemma split_list_at: "n \<le> length xs \<Longrightarrow> \<exists>a b. xs = a @ b \<and> length a = n"
  by (metis append_take_drop_id length_take min.absorb2)

subsection \<open>The linear scan over a table\<close>

text \<open>
  \<open>for (i = 0; i < n; i++) if (P(t[i])) return &t[i];  return NULL;\<close> with the index in place
  of the pointer; the caller passes the used part of the table, \<open>take n t\<close>.
\<close>

fun find_index :: "('a \<Rightarrow> bool) \<Rightarrow> 'a list \<Rightarrow> nat option" where
  "find_index P [] = None"
| "find_index P (x # xs) = (if P x then Some 0 else map_option Suc (find_index P xs))"

lemma find_index_None_iff: "find_index P xs = None \<longleftrightarrow> (\<forall>x \<in> set xs. \<not> P x)"
  by (induction xs) auto

lemma find_index_SomeD:
  assumes "find_index P xs = Some i"
  shows "i < length xs" "P (xs ! i)" "\<And>j. j < i \<Longrightarrow> \<not> P (xs ! j)"
proof -
  have "i < length xs \<and> P (xs ! i) \<and> (\<forall>j < i. \<not> P (xs ! j))"
    using assms
  proof (induction xs arbitrary: i)
    case (Cons x xs)
    then show ?case
      by (auto simp: nth_Cons less_Suc_eq_0_disj split: if_splits nat.splits)
  qed simp
  then show "i < length xs" "P (xs ! i)" "\<And>j. j < i \<Longrightarrow> \<not> P (xs ! j)" by auto
qed

lemma find_index_SomeI:
  assumes "i < length xs" "P (xs ! i)" "\<And>j. j < i \<Longrightarrow> \<not> P (xs ! j)"
  shows "find_index P xs = Some i"
proof (cases "find_index P xs")
  case None
  with assms show ?thesis by (auto simp: find_index_None_iff)
next
  case (Some k)
  have "k = i"
    using find_index_SomeD [OF Some] assms by (metis linorder_neqE_nat)
  with Some show ?thesis by simp
qed

lemma find_index_eq_Some_iff:
  "find_index P xs = Some i \<longleftrightarrow> i < length xs \<and> P (xs ! i) \<and> (\<forall>j < i. \<not> P (xs ! j))"
  by (blast intro: find_index_SomeI dest: find_index_SomeD)

lemma find_index_not_None: "x \<in> set xs \<Longrightarrow> P x \<Longrightarrow> \<exists>i. find_index P xs = Some i"
  by (cases "find_index P xs") (auto simp: find_index_None_iff)

lemma find_index_Some_ex: "find_index P xs = Some i \<Longrightarrow> \<exists>x \<in> set xs. P x"
  using find_index_SomeD(1,2) [of P xs i] nth_mem by blast

lemma find_index_take_SomeD:
  "find_index P (take n xs) = Some i \<Longrightarrow> i < n \<and> i < length xs \<and> P (xs ! i)"
  using find_index_SomeD(1,2) [of P "take n xs" i] by simp

text \<open>An update that keeps the key of its entry does not change what a scan finds.\<close>

lemma find_index_take_update:
  "(i < length xs \<Longrightarrow> P y = P (xs ! i)) \<Longrightarrow>
   find_index P (take n (xs[i := y])) = find_index P (take n xs)"
proof (induction xs arbitrary: n i)
  case (Cons x xs)
  show ?case
  proof (cases n)
    case (Suc m)
    show ?thesis
    proof (cases i)
      case 0
      with Suc Cons.prems show ?thesis by simp
    next
      case (Suc j)
      with \<open>n = Suc m\<close> Cons.IH [of j m] Cons.prems show ?thesis by simp
    qed
  qed simp
qed simp

text \<open>Where the keys are distinct, the scan finds the only entry with its key.\<close>

lemma find_index_key:
  assumes "distinct (map key xs)" "i < length xs"
  shows "find_index (\<lambda>x. key x = key (xs ! i)) xs = Some i"
proof (rule find_index_SomeI)
  fix j assume "j < i"
  with assms show "key (xs ! j) \<noteq> key (xs ! i)"
    using nth_eq_iff_index_eq [of "map key xs" j i] by auto
qed (use assms in simp_all)

subsection \<open>Removal that keeps a table packed\<close>

text \<open>\<open>count--; *d = t[count];\<close> for an entry \<open>d = &t[i]\<close> of the used part.\<close>

definition swap_remove :: "'a list \<Rightarrow> nat \<Rightarrow> nat \<Rightarrow> 'a list" where
  "swap_remove t i count' = t[i := t ! count']"

lemma length_swap_remove [simp]: "length (swap_remove t i n) = length t"
  by (simp add: swap_remove_def)

lemma mset_swap_remove:
  assumes "i \<le> n" "n < length t"
  shows "mset (take n (swap_remove t i n)) = mset (take (Suc n) t) - {# t ! i #}"
proof (cases "i = n")
  case True
  with assms show ?thesis by (simp add: swap_remove_def take_Suc_conv_app_nth)
next
  case False
  with assms have i: "i < n" by simp
  have "mset (take n (swap_remove t i n)) = mset ((take n t)[i := t ! n])"
    by (simp add: swap_remove_def take_update_swap)
  also have "\<dots> = add_mset (t ! n) (mset (take n t) - {# t ! i #})"
    using i assms by (subst mset_update) simp_all
  also have "\<dots> = add_mset (t ! n) (mset (take n t)) - {# t ! i #}"
  proof -
    have "t ! i \<in># mset (take n t)" using i assms by (force simp: in_set_conv_nth)
    then show ?thesis by simp
  qed
  finally show ?thesis using assms by (simp add: take_Suc_conv_app_nth)
qed

text \<open>A table with distinct keys read as a map, and what an in-place update does to it.\<close>

definition table_map :: "('e \<Rightarrow> 'k) \<Rightarrow> ('e \<Rightarrow> 'v) \<Rightarrow> 'e list \<Rightarrow> 'k \<rightharpoonup> 'v" where
  "table_map k v xs = map_of (map (\<lambda>e. (k e, v e)) xs)"

lemma table_map_Some_iff:
  "distinct (map k xs) \<Longrightarrow> table_map k v xs x = Some y \<longleftrightarrow> (\<exists>e \<in> set xs. k e = x \<and> v e = y)"
  by (auto simp: table_map_def comp_def)

lemma table_map_None_iff: "table_map k v xs x = None \<longleftrightarrow> x \<notin> k ` set xs"
  by (auto simp: table_map_def map_of_eq_None_iff image_iff)

lemma table_map_eqI:
  assumes "distinct (map k xs)"
    and "\<And>x y. m x = Some y \<longleftrightarrow> (\<exists>e \<in> set xs. k e = x \<and> v e = y)"
  shows "table_map k v xs = m"
proof
  fix x show "table_map k v xs x = m x"
    using table_map_Some_iff [OF assms(1), of v x] assms(2) [of x] by (metis not_Some_eq)
qed

lemma table_map_append:
  "k e \<notin> k ` set xs \<Longrightarrow> table_map k v (xs @ [e]) = (table_map k v xs)(k e \<mapsto> v e)"
  by (induction xs) (auto simp: table_map_def fun_upd_twist)

lemma table_map_update:
  assumes "distinct (map k xs)" "i < length xs" "k e = k (xs ! i)"
  shows "table_map k v (xs[i := e]) = (table_map k v xs)(k e \<mapsto> v e)"
proof (rule table_map_eqI)
  have "map k (xs[i := e]) = map k xs"
    using assms(2,3) by (intro nth_equalityI) (auto simp: nth_list_update)
  then show "distinct (map k (xs[i := e]))" using assms(1) by simp
  fix x y
  have xs: "set (xs[i := e]) = insert e (set xs - {xs ! i})"
    using assms(1,2) by (intro set_update_distinct) (auto simp: distinct_map)
  have other: "f \<noteq> xs ! i \<longleftrightarrow> k f \<noteq> k e" if "f \<in> set xs" for f
  proof -
    have "inj_on k (set xs)" using assms(1) by (simp add: distinct_map)
    from inj_on_eq_iff [OF this that nth_mem [OF assms(2)]] show ?thesis by (simp only: assms(3))
  qed
  show "((table_map k v xs)(k e \<mapsto> v e)) x = Some y \<longleftrightarrow> (\<exists>f \<in> set (xs[i := e]). k f = x \<and> v f = y)"
  proof (cases "x = k e")
    case True
    then show ?thesis unfolding xs using other by auto
  next
    case False
    then have "((table_map k v xs)(k e \<mapsto> v e)) x = Some y \<longleftrightarrow> (\<exists>f \<in> set xs. k f = x \<and> v f = y)"
      using table_map_Some_iff [OF assms(1), of v x y] by simp
    then show ?thesis unfolding xs using other False by auto
  qed
qed

text \<open>
  The contract of the three ground-filled tables (S11 activities, S12 and S19
  definitions): a scan by key over the used entries, and a removal that takes exactly
  one entry out.  The tables differ in their records and their keys only, so what they
  promise the ground is proved once, here.
\<close>

locale keyed_table =
  fixes used :: "'s \<Rightarrow> 'e list"
    and key :: "'e \<Rightarrow> 'k"
    and wf :: "'s \<Rightarrow> bool"
    and lookup :: "'s \<Rightarrow> 'k \<Rightarrow> nat option"
    and remove :: "'s \<Rightarrow> nat \<Rightarrow> 's"
  assumes lookup_scan: "lookup s k = find_index (\<lambda>e. key e = k) (used s)"
    and remove_used: "wf s \<Longrightarrow> i < length (used s) \<Longrightarrow>
      mset (used (remove s i)) = mset (used s) - {# used s ! i #}"
begin

lemma lookup_Some:
  "lookup s k = Some i \<Longrightarrow> i < length (used s) \<and> key (used s ! i) = k"
  by (auto simp: lookup_scan dest: find_index_SomeD)

lemma lookup_None: "lookup s k = None \<longleftrightarrow> k \<notin> key ` set (used s)"
  by (auto simp: lookup_scan find_index_None_iff)

lemma lookup_mem: "k \<in> key ` set (used s) \<longleftrightarrow> (\<exists>i. lookup s k = Some i)"
  using lookup_None [of s k] by auto

lemma remove_keys:
  assumes "wf s" "distinct (map key (used s))" "i < length (used s)"
  shows "distinct (map key (used (remove s i)))"
    and "key ` set (used (remove s i)) = key ` set (used s) - {key (used s ! i)}"
    and "set (used (remove s i)) = {e \<in> set (used s). key e \<noteq> key (used s ! i)}"
proof -
  let ?x = "used s ! i" and ?u = "used s" and ?r = "used (remove s i)"
  have mem: "?x \<in> set ?u" using assms(3) by simp
  have m: "add_mset ?x (mset ?r) = mset ?u"
    using remove_used [OF assms(1,3)] mem by simp
  then have mk: "add_mset (key ?x) (mset (map key ?r)) = mset (map key ?u)"
    by (metis image_mset_add_mset mset_map)
  with assms(2) have d: "distinct (key ?x # map key ?r)"
    by (metis mset.simps(2) mset_eq_imp_distinct_iff)
  then show "distinct (map key ?r)" by simp
  from d have nin: "key ?x \<notin> key ` set ?r" by simp
  from m have "set ?u = insert ?x (set ?r)"
    by (metis set_mset_add_mset_insert set_mset_mset)
  with nin show "key ` set ?r = key ` set ?u - {key ?x}"
    and "set ?r = {e \<in> set ?u. key e \<noteq> key ?x}" by (auto simp: image_iff)
qed

lemma remove_map:
  assumes "wf s" "distinct (map key (used s))" "i < length (used s)"
  shows "table_map key v (used (remove s i)) = (table_map key v (used s))(key (used s ! i) := None)"
  using remove_keys [OF assms] table_map_Some_iff [OF assms(2), of v]
  by (intro table_map_eqI) auto

lemma remove_lookup:
  assumes "wf s" "distinct (map key (used s))" "lookup s k = Some i"
  shows "lookup (remove s i) k = None"
proof -
  from assms(3) have i: "i < length (used s)" "key (used s ! i) = k"
    using lookup_Some by blast+
  show ?thesis
    using remove_keys(2) [OF assms(1,2) i(1)] i(2) by (simp add: lookup_None)
qed

lemma remove_count:
  assumes "wf s" "i < length (used s)"
  shows "length (used (remove s i)) = length (used s) - 1"
  using arg_cong [OF remove_used [OF assms], of size] assms(2)
  by (simp add: size_Diff_singleton)

end

end
