(* ===== verification/Space_Packet.thy ===== *)
theory Space_Packet
  imports Obsw_Prelude
begin

section \<open>CCSDS space packets\<close>

text \<open>
  \<^verbatim>\<open>src/ccsds/space_packet.c\<close> and \<^verbatim>\<open>include/obsw/ccsds/space_packet.h\<close>: the primary
  header, its encoder and decoder, and the packet parser every received telecommand
  goes through.  The type of \<open>buf_len\<close> is the target's \<open>size_t\<close>, a word of any width:
  64 bits on the host, 32 on Cortex-M, 16 on the MSP430.
\<close>

abbreviation (input) OBSW_SP_OK :: int where "OBSW_SP_OK \<equiv> 0"
abbreviation (input) OBSW_SP_ERR_NULL :: int where "OBSW_SP_ERR_NULL \<equiv> -1"
abbreviation (input) OBSW_SP_ERR_BUF_TOO_SMALL :: int where "OBSW_SP_ERR_BUF_TOO_SMALL \<equiv> -2"
abbreviation (input) OBSW_SP_ERR_BAD_VERSION :: int where "OBSW_SP_ERR_BAD_VERSION \<equiv> -3"
abbreviation (input) OBSW_SP_ERR_BAD_LENGTH :: int where "OBSW_SP_ERR_BAD_LENGTH \<equiv> -4"

abbreviation (input) OBSW_SP_PRIMARY_HEADER_LEN :: nat where "OBSW_SP_PRIMARY_HEADER_LEN \<equiv> 6"
abbreviation (input) OBSW_SP_APID_IDLE :: u16 where "OBSW_SP_APID_IDLE \<equiv> 0x7FF"
abbreviation (input) OBSW_SP_TYPE_TM :: u8 where "OBSW_SP_TYPE_TM \<equiv> 0"
abbreviation (input) OBSW_SP_TYPE_TC :: u8 where "OBSW_SP_TYPE_TC \<equiv> 1"
abbreviation (input) OBSW_SP_SEQ_UNSEGMENTED :: u8 where "OBSW_SP_SEQ_UNSEGMENTED \<equiv> 3"

record obsw_sp_primary_hdr =
  sp_version :: u8
  sp_type :: u8
  sp_sec_hdr_flag :: u8
  sp_apid :: u16
  sp_seq_flags :: u8
  sp_seq_count :: u16
  sp_data_len :: u16

record obsw_sp_packet =
  sp_hdr :: obsw_sp_primary_hdr
  sp_payload :: "u8 list option"
  sp_payload_len :: u16

subsection \<open>Encoder and decoder\<close>

text \<open>The six bytes \<open>obsw_sp_encode_primary\<close> stores.\<close>

definition sp_header_bytes :: "obsw_sp_primary_hdr \<Rightarrow> u8 list" where
  "sp_header_bytes h =
    [push_bit 5 (sp_version h AND 0x07) OR push_bit 4 (sp_type h AND 0x01)
       OR push_bit 3 (sp_sec_hdr_flag h AND 0x01) OR ucast (drop_bit 8 (sp_apid h) AND 0x07),
     ucast (sp_apid h AND 0xFF),
     push_bit 6 (sp_seq_flags h AND 0x03) OR ucast (drop_bit 8 (sp_seq_count h) AND 0x3F),
     ucast (sp_seq_count h AND 0xFF),
     ucast (drop_bit 8 (sp_data_len h)),
     ucast (sp_data_len h AND 0xFF)]"

definition obsw_sp_encode_primary ::
  "obsw_sp_primary_hdr option \<Rightarrow> u8 list option \<Rightarrow> int \<times> u8 list option" where
  "obsw_sp_encode_primary hdr buf =
    (case (hdr, buf) of
       (Some h, Some b) \<Rightarrow> (OBSW_SP_OK, Some (memcpy_at b 0 (sp_header_bytes h) 6))
     | _ \<Rightarrow> (OBSW_SP_ERR_NULL, buf))"

text \<open>The fields \<open>obsw_sp_decode_primary\<close> reads from the first six bytes.\<close>

definition sp_header_fields :: "u8 list \<Rightarrow> obsw_sp_primary_hdr" where
  "sp_header_fields b =
    \<lparr>sp_version = drop_bit 5 (b ! 0) AND 0x07,
     sp_type = drop_bit 4 (b ! 0) AND 0x01,
     sp_sec_hdr_flag = drop_bit 3 (b ! 0) AND 0x01,
     sp_apid = push_bit 8 (ucast (b ! 0 AND 0x07)) OR ucast (b ! 1),
     sp_seq_flags = drop_bit 6 (b ! 2) AND 0x03,
     sp_seq_count = push_bit 8 (ucast (b ! 2 AND 0x3F)) OR ucast (b ! 3),
     sp_data_len = push_bit 8 (ucast (b ! 4)) OR ucast (b ! 5)\<rparr>"

definition obsw_sp_decode_primary ::
  "u8 list option \<Rightarrow> 's::len word \<Rightarrow> obsw_sp_primary_hdr option
   \<Rightarrow> int \<times> obsw_sp_primary_hdr option" where
  "obsw_sp_decode_primary buf buf_len hdr =
    (case (buf, hdr) of
       (Some b, Some _) \<Rightarrow>
         if buf_len < 6 then (OBSW_SP_ERR_BUF_TOO_SMALL, hdr)
         else let h = sp_header_fields b in
           if sp_version h \<noteq> 0 then (OBSW_SP_ERR_BAD_VERSION, Some h) else (OBSW_SP_OK, Some h)
     | _ \<Rightarrow> (OBSW_SP_ERR_NULL, hdr))"

subsection \<open>Parser\<close>

definition obsw_sp_total_len :: "u16 \<Rightarrow> 's::len word" where
  "obsw_sp_total_len data_len = 6 + ucast data_len + 1"

definition obsw_sp_parse ::
  "u8 list option \<Rightarrow> 's::len word \<Rightarrow> obsw_sp_packet option \<Rightarrow> int \<times> obsw_sp_packet option" where
  "obsw_sp_parse buf buf_len pkt =
    (case (buf, pkt) of
       (Some b, Some p) \<Rightarrow>
         (case obsw_sp_decode_primary buf buf_len (Some (sp_hdr p)) of
            (rc, hdr) \<Rightarrow>
              let p1 = p\<lparr>sp_hdr := (case hdr of Some h \<Rightarrow> h | None \<Rightarrow> sp_hdr p)\<rparr> in
              if rc \<noteq> OBSW_SP_OK then (rc, Some p1)
              else if buf_len < obsw_sp_total_len (sp_data_len (sp_hdr p1))
              then (OBSW_SP_ERR_BAD_LENGTH, Some p1)
              else (OBSW_SP_OK, Some (p1\<lparr>sp_payload := Some (drop 6 b),
                                        sp_payload_len := sp_data_len (sp_hdr p1) + 1\<rparr>)))
     | _ \<Rightarrow> (OBSW_SP_ERR_NULL, pkt))"

text \<open>The contents of a packet descriptor nothing has been written to yet.\<close>

definition sp_packet_uninit :: obsw_sp_packet where
  "sp_packet_uninit =
    \<lparr>sp_hdr = \<lparr>sp_version = 0, sp_type = 0, sp_sec_hdr_flag = 0, sp_apid = 0, sp_seq_flags = 0,
               sp_seq_count = 0, sp_data_len = 0\<rparr>,
     sp_payload = None, sp_payload_len = 0\<rparr>"

subsection \<open>Header lemmas\<close>

lemma length_sp_header_bytes [simp, layout]: "length (sp_header_bytes h) = 6"
  by (simp add: sp_header_bytes_def)

text \<open>A header whose fields fit their widths on the wire.\<close>

definition sp_hdr_wf :: "obsw_sp_primary_hdr \<Rightarrow> bool" where
  "sp_hdr_wf h \<longleftrightarrow> sp_version h = take_bit 3 (sp_version h) \<and> sp_type h = take_bit 1 (sp_type h)
     \<and> sp_sec_hdr_flag h = take_bit 1 (sp_sec_hdr_flag h) \<and> sp_apid h = take_bit 11 (sp_apid h)
     \<and> sp_seq_flags h = take_bit 2 (sp_seq_flags h)
     \<and> sp_seq_count h = take_bit 14 (sp_seq_count h)"

text \<open>The header with every field cut to its width on the wire.\<close>

definition sp_hdr_trunc :: "obsw_sp_primary_hdr \<Rightarrow> obsw_sp_primary_hdr" where
  "sp_hdr_trunc h =
    h\<lparr>sp_version := take_bit 3 (sp_version h), sp_type := take_bit 1 (sp_type h),
      sp_sec_hdr_flag := take_bit 1 (sp_sec_hdr_flag h), sp_apid := take_bit 11 (sp_apid h),
      sp_seq_flags := take_bit 2 (sp_seq_flags h),
      sp_seq_count := take_bit 14 (sp_seq_count h)\<rparr>"

lemma sp_hdr_trunc_wf: "sp_hdr_wf h \<Longrightarrow> sp_hdr_trunc h = h"
  by (simp add: sp_hdr_wf_def sp_hdr_trunc_def)

text \<open>
  The two round trips: the decoder reads back every field the encoder wrote, cut to its
  width, and the encoder rebuilds every header the decoder read.
\<close>

lemma sp_header_fields_bytes: "sp_header_fields (sp_header_bytes h @ r) = sp_hdr_trunc h"
  by (rule obsw_sp_primary_hdr.equality;
      simp add: sp_header_fields_def sp_header_bytes_def sp_hdr_trunc_def and_literals;
      (rule u8_bitsI u16_bitsI, simp only: expand_bits, elim disjE; simp add: bit_simps)?)

lemma sp_header_bytes_fields:
  assumes "length b = 6"
  shows "sp_header_bytes (sp_header_fields b) = b"
proof -
  from assms obtain a0 a1 a2 a3 a4 a5 where b: "b = [a0, a1, a2, a3, a4, a5]"
    by (auto simp: length_Suc_conv numeral_eq_Suc)
  show ?thesis
    unfolding b sp_header_bytes_def sp_header_fields_def
    by (simp add: and_literals, intro conjI;
        rule u8_bitsI u16_bitsI, simp only: expand_bits, elim disjE;
        simp add: bit_simps not_bit_u8)
qed

lemma sp_header_fields_take: "6 \<le> n \<Longrightarrow> sp_header_fields (take n b) = sp_header_fields b"
  by (simp add: sp_header_fields_def)

lemma sp_header_fields_append:
  "6 \<le> length b \<Longrightarrow> sp_header_fields (b @ r) = sp_header_fields b"
  by (cases "b = []") (auto simp: sp_header_fields_def nth_append)

lemma sp_header_bytes_take:
  assumes "6 \<le> length b"
  shows "sp_header_bytes (sp_header_fields b) = take 6 b"
  using sp_header_bytes_fields [of "take 6 b"] assms by (simp add: sp_header_fields_take)

subsection \<open>Parser lemmas\<close>

text \<open>On any \<open>size_t\<close> wider than 16 bits the expected length does not wrap.\<close>

lemma unat_total_len:
  assumes "17 \<le> LENGTH('s)"
  shows "unat (obsw_sp_total_len d :: 's::len word) = unat d + 7"
proof -
  have "(2::nat) ^ 17 \<le> 2 ^ LENGTH('s)"
    using assms by (rule power_increasing) simp
  moreover have "unat (ucast d :: 's word) = unat d"
    using assms by (intro unat_ucast_u16) simp
  moreover have "7 < (2::nat) ^ LENGTH('s)"
    using calculation(1) by simp
  then have "unat (7 :: 's word) = 7"
    by (simp add: unat_numeral take_bit_nat_eq_self_iff)
  moreover have "obsw_sp_total_len d = (7 :: 's word) + ucast d"
    by (simp add: obsw_sp_total_len_def)
  ultimately show ?thesis
    using u16_less_65536 [of d] by (simp add: unat_word_ariths)
qed

lemma unat_6:
  assumes "3 \<le> LENGTH('s)"
  shows "unat (6 :: 's::len word) = 6"
proof -
  have "(2::nat) ^ 3 \<le> 2 ^ LENGTH('s)"
    using assms by (rule power_increasing) simp
  then show ?thesis by (simp add: unat_numeral take_bit_nat_eq_self_iff)
qed

lemma sp_parse_OK_iff:
  "fst (obsw_sp_parse (Some b) n (Some p)) = OBSW_SP_OK \<longleftrightarrow>
     \<not> n < 6 \<and> sp_version (sp_header_fields b) = 0
       \<and> \<not> n < obsw_sp_total_len (sp_data_len (sp_header_fields b))"
  by (simp add: obsw_sp_parse_def obsw_sp_decode_primary_def Let_def)

lemma sp_parse_OK_result:
  "obsw_sp_parse (Some b) n (Some p) = (OBSW_SP_OK, q) \<Longrightarrow>
   q = Some \<lparr>sp_hdr = sp_header_fields b, sp_payload = Some (drop 6 b),
             sp_payload_len = sp_data_len (sp_header_fields b) + 1\<rparr>"
  by (auto simp: obsw_sp_parse_def obsw_sp_decode_primary_def Let_def split: if_splits)

lemma sp_parse_null [simp]:
  "obsw_sp_parse None n pkt = (OBSW_SP_ERR_NULL, pkt)"
  "obsw_sp_parse b n None = (OBSW_SP_ERR_NULL, None)"
  by (simp_all add: obsw_sp_parse_def split: option.split)

text \<open>
  Handed \<open>n\<close> bytes of a buffer that holds them, a successful parse yields a payload that
  lies inside those bytes.
\<close>

lemma sp_parse_bounds:
  fixes n :: "'s::len word"
  assumes "17 \<le> LENGTH('s)" and "unat n \<le> length b"
    and "obsw_sp_parse (Some b) n (Some p) = (OBSW_SP_OK, Some q)"
  shows "6 + unat (sp_payload_len q) \<le> unat n"
    and "sp_payload q = Some (drop 6 b)"
    and "unat (sp_payload_len q) = (unat (sp_data_len (sp_hdr q)) + 1) mod 65536"
proof -
  from sp_parse_OK_result [OF assms(3)]
  have q: "q = \<lparr>sp_hdr = sp_header_fields b, sp_payload = Some (drop 6 b),
            sp_payload_len = sp_data_len (sp_header_fields b) + 1\<rparr>" by simp
  let ?d = "sp_data_len (sp_header_fields b)"
  have "\<not> n < obsw_sp_total_len ?d"
    using assms(3) sp_parse_OK_iff [of b n p] by simp
  then have "unat ?d + 7 \<le> unat n"
    using unat_total_len [OF assms(1), of ?d] by (simp add: word_less_nat_alt)
  moreover have "unat (?d + 1) = (unat ?d + 1) mod 65536"
    by (simp add: unat_word_ariths)
  moreover have "(unat ?d + 1) mod 65536 \<le> unat ?d + 1"
    by (rule mod_less_eq_dividend)
  ultimately show "6 + unat (sp_payload_len q) \<le> unat n"
    and "sp_payload q = Some (drop 6 b)"
    and "unat (sp_payload_len q) = (unat (sp_data_len (sp_hdr q)) + 1) mod 65536"
    by (simp_all add: q)
qed

subsection \<open>Where \<open>size_t\<close> has 16 bits\<close>

text \<open>
  On the MSP430 target \<open>size_t\<close> has 16 bits and \<open>obsw_sp_total_len\<close> wraps.  A six-byte
  buffer whose length field is \<open>0xFFFE\<close> is accepted there and its payload is announced as
  65535 bytes, past the end of the buffer: the bound above does need 17 bits.
\<close>

lemma sp_parse_size_t16_overread:
  "obsw_sp_parse (Some [0x10, 1, 0xC0, 0, 0xFF, 0xFE]) (6 :: 16 word) (Some sp_packet_uninit) =
     (OBSW_SP_OK,
      Some \<lparr>sp_hdr = sp_header_fields [0x10, 1, 0xC0, 0, 0xFF, 0xFE], sp_payload = Some [],
            sp_payload_len = 65535\<rparr>)"
  by (simp add: obsw_sp_parse_def obsw_sp_decode_primary_def obsw_sp_total_len_def Let_def
      sp_header_fields_def sp_packet_uninit_def)

subsection \<open>Properties\<close>

text \<open>
  A space packet header survives the wire, in both directions.  For a header whose
  fields fit their widths and whose version is 0, decoding the bytes
  \<open>obsw_sp_encode_primary\<close> wrote succeeds and returns the header; and encoding whatever
  \<open>obsw_sp_decode_primary\<close> read from a buffer rewrites the six bytes it was read from, so
  the encoding is unique.
\<close>

theorem sp_header_roundtrip:
  fixes n :: "'s::len word"
  assumes "6 \<le> length b" and "\<not> n < 6"
    and "sp_hdr_wf h" and "sp_version h = 0"
    and "obsw_sp_decode_primary (Some b) n (Some h0) = (rc, Some h')"
  shows "obsw_sp_decode_primary (snd (obsw_sp_encode_primary (Some h) (Some b))) n (Some h0)
        = (OBSW_SP_OK, Some h)
    \<and> obsw_sp_encode_primary (Some h') (Some b) = (OBSW_SP_OK, Some b)"
proof
  show "obsw_sp_decode_primary (snd (obsw_sp_encode_primary (Some h) (Some b))) n (Some h0)
        = (OBSW_SP_OK, Some h)"
    using assms(1-4)
    by (simp add: obsw_sp_decode_primary_def obsw_sp_encode_primary_def memcpy_at_def Let_def
        sp_header_fields_bytes sp_hdr_trunc_wf)
  have "h' = sp_header_fields b"
    using assms(2,5) by (auto simp: obsw_sp_decode_primary_def Let_def split: if_splits)
  then show "obsw_sp_encode_primary (Some h') (Some b) = (OBSW_SP_OK, Some b)"
    using assms(1) by (simp add: obsw_sp_encode_primary_def memcpy_at_def sp_header_bytes_take)
qed

lemma sp_header_roundtrip_witness:
  "obsw_sp_decode_primary
     (snd (obsw_sp_encode_primary
       (Some \<lparr>sp_version = 0, sp_type = 1, sp_sec_hdr_flag = 1, sp_apid = 0x123,
              sp_seq_flags = 3, sp_seq_count = 0x3FFF, sp_data_len = 4\<rparr>)
       (Some [0x18, 5, 0xC0, 1, 0, 2, 9]))) (7 :: 64 word) (Some (sp_hdr sp_packet_uninit))
   = (OBSW_SP_OK, Some \<lparr>sp_version = 0, sp_type = 1, sp_sec_hdr_flag = 1, sp_apid = 0x123,
              sp_seq_flags = 3, sp_seq_count = 0x3FFF, sp_data_len = 4\<rparr>)"
  by (rule sp_header_roundtrip [where h' = "sp_header_fields [0x18, 5, 0xC0, 1, 0, 2, 9]"
        and rc = OBSW_SP_OK, THEN conjunct1])
    (simp_all add: sp_hdr_wf_def obsw_sp_decode_primary_def sp_header_fields_def
       take_bit_eq_mask mask_eq_exp_minus_1)

text \<open>
  Wherever \<open>size_t\<close> has more than 16 bits the parser stays inside its buffer: of
  \<open>n\<close> bytes it is handed, a packet it accepts has its payload start after the header and
  end inside those \<open>n\<close> bytes, has version 0 and has the length its header announces.
\<close>

theorem sp_parse_in_bounds:
  fixes n :: "'s::len word"
  assumes "17 \<le> LENGTH('s)" and "unat n \<le> length b"
    and "obsw_sp_parse (Some b) n (Some p) = (OBSW_SP_OK, Some q)"
  shows "sp_payload q = Some (drop 6 b) \<and> 6 + unat (sp_payload_len q) \<le> unat n
    \<and> unat (sp_payload_len q) = (unat (sp_data_len (sp_hdr q)) + 1) mod 65536
    \<and> sp_version (sp_hdr q) = 0"
proof -
  have "sp_version (sp_hdr q) = 0"
    using sp_parse_OK_result [OF assms(3)] assms(3) sp_parse_OK_iff [of b n p] by simp
  with sp_parse_bounds [OF assms] show ?thesis by simp
qed

lemma sp_parse_in_bounds_witness:
  "6 + unat (sp_payload_len \<lparr>sp_hdr = sp_header_fields [0x18, 5, 0xC0, 1, 0, 2, 7, 8, 9],
       sp_payload = Some [7, 8, 9], sp_payload_len = 3\<rparr>) \<le> unat (9 :: 64 word)"
  by (rule sp_parse_in_bounds [where b = "[0x18, 5, 0xC0, 1, 0, 2, 7, 8, 9]"
        and p = sp_packet_uninit, THEN conjunct2, THEN conjunct1])
    (simp_all add: obsw_sp_parse_def obsw_sp_decode_primary_def obsw_sp_total_len_def Let_def
      sp_header_fields_def sp_packet_uninit_def)

end
