(* ===== verification/Tc_Frame.thy ===== *)
theory Tc_Frame
  imports Obsw_Prelude
begin

section \<open>TC transfer frames\<close>

text \<open>
  \<^verbatim>\<open>src/ccsds/tc_frame.c\<close> and \<^verbatim>\<open>include/obsw/ccsds/tc_frame.h\<close>: the CRC-16/CCITT of the
  frame error control field and the decoder of a TC transfer frame.

  The lemmas on the CRC say why the check is worth its two bytes: a bit step is injective
  and linear, the CRC of a frame followed by its own CRC is 0, and a change confined to two
  neighbouring bytes of a frame never goes unnoticed.  \<open>size_t\<close> is a word of any length
  from 16 bits, the smallest of the targets.
\<close>

abbreviation (input) OBSW_TC_FRAME_OK :: int where "OBSW_TC_FRAME_OK \<equiv> 0"
abbreviation (input) OBSW_TC_FRAME_ERR_NULL :: int where "OBSW_TC_FRAME_ERR_NULL \<equiv> -1"
abbreviation (input) OBSW_TC_FRAME_ERR_TOO_SHORT :: int where "OBSW_TC_FRAME_ERR_TOO_SHORT \<equiv> -2"
abbreviation (input) OBSW_TC_FRAME_ERR_CRC :: int where "OBSW_TC_FRAME_ERR_CRC \<equiv> -3"
abbreviation (input) OBSW_TC_FRAME_ERR_BUF_SMALL :: int where "OBSW_TC_FRAME_ERR_BUF_SMALL \<equiv> -4"

record obsw_tc_frame_header =
  tf_version :: u8
  tf_bypass_flag :: u8
  tf_ctrl_cmd_flag :: u8
  tf_spacecraft_id :: u16
  tf_virtual_channel_id :: u8
  tf_frame_len :: u16
  tf_frame_seq_num :: u8

record obsw_tc_frame =
  tf_header :: obsw_tc_frame_header
  tf_data :: "u8 list option"
  tf_data_len :: u16

subsection \<open>CRC-16/CCITT\<close>

text \<open>One round of the inner loop, the inner loop for one byte, and the loop over the buffer.\<close>

definition crc16_bit :: "u16 \<Rightarrow> u16" where
  "crc16_bit crc = (if crc AND 0x8000 \<noteq> 0 then push_bit 1 crc XOR 0x1021 else push_bit 1 crc)"

definition crc16_byte :: "u8 \<Rightarrow> u16 \<Rightarrow> u16" where
  "crc16_byte b crc = (crc16_bit ^^ 8) (crc XOR push_bit 8 (ucast b))"

definition obsw_crc16_ccitt :: "u8 list \<Rightarrow> 's::len word \<Rightarrow> u16" where
  "obsw_crc16_ccitt buf len = fold crc16_byte (take (unat len) buf) 0xFFFF"

subsection \<open>Decoder\<close>

definition tc_frame_fields :: "u8 list \<Rightarrow> obsw_tc_frame_header" where
  "tc_frame_fields b =
    \<lparr>tf_version = drop_bit 6 (b ! 0) AND 0x03,
     tf_bypass_flag = drop_bit 5 (b ! 0) AND 0x01,
     tf_ctrl_cmd_flag = drop_bit 4 (b ! 0) AND 0x01,
     tf_spacecraft_id = push_bit 8 (ucast (b ! 0 AND 0x03)) OR ucast (b ! 1),
     tf_virtual_channel_id = drop_bit 2 (b ! 2) AND 0x3F,
     tf_frame_len = push_bit 8 (ucast (b ! 2 AND 0x03)) OR ucast (b ! 3),
     tf_frame_seq_num = b ! 4\<rparr>"

definition obsw_tc_frame_decode ::
  "u8 list option \<Rightarrow> 's::len word \<Rightarrow> obsw_tc_frame option \<Rightarrow> int \<times> obsw_tc_frame option" where
  "obsw_tc_frame_decode buf len frm =
    (case (buf, frm) of
       (Some b, Some f) \<Rightarrow>
         if len < 8 then (OBSW_TC_FRAME_ERR_TOO_SHORT, frm)
         else
           let computed = obsw_crc16_ccitt b (len - 2);
               received = push_bit 8 (ucast (b ! unat (len - 2))) OR ucast (b ! unat (len - 1))
           in
           if computed \<noteq> received then (OBSW_TC_FRAME_ERR_CRC, frm)
           else
             let h = tc_frame_fields b; f1 = f\<lparr>tf_header := h\<rparr> in
             if ucast (tf_frame_len h + 1) \<noteq> len then (OBSW_TC_FRAME_ERR_TOO_SHORT, Some f1)
             else (OBSW_TC_FRAME_OK,
                   Some (f1\<lparr>tf_data := Some (drop 5 b), tf_data_len := ucast (len - 5 - 2)\<rparr>))
     | _ \<Rightarrow> (OBSW_TC_FRAME_ERR_NULL, frm))"

definition obsw_tc_frame_strerror :: "int \<Rightarrow> string" where
  "obsw_tc_frame_strerror err =
    (if err = OBSW_TC_FRAME_OK then ''OK''
     else if err = OBSW_TC_FRAME_ERR_NULL then ''NULL pointer''
     else if err = OBSW_TC_FRAME_ERR_TOO_SHORT then ''frame too short''
     else if err = OBSW_TC_FRAME_ERR_CRC then ''CRC mismatch''
     else if err = OBSW_TC_FRAME_ERR_BUF_SMALL then ''buffer too small''
     else ''unknown error'')"

subsection \<open>The CRC register\<close>

lemma crc16_bit_alt:
  "crc16_bit c = push_bit 1 c XOR (if bit c 15 then 0x1021 else 0)"
proof -
  have "c AND 0x8000 = of_bool (bit c 15) * 0x8000"
    by (rule u16_bitsI, simp only: expand_bits, elim disjE; simp add: bit_simps)
  then show ?thesis by (simp add: crc16_bit_def)
qed

lemma crc16_bit_xor: "crc16_bit (x XOR y) = crc16_bit x XOR crc16_bit y"
  by (rule bit_word_eqI) (auto simp: crc16_bit_alt bit_simps)

lemma crc16_bit_0 [simp]: "crc16_bit 0 = 0"
  by (simp add: crc16_bit_def)

lemma crc16_bits_xor: "(crc16_bit ^^ n) (x XOR y) = (crc16_bit ^^ n) x XOR (crc16_bit ^^ n) y"
  by (induction n) (simp_all add: crc16_bit_xor)

lemma crc16_bits_0 [simp]: "(crc16_bit ^^ n) 0 = 0"
  by (induction n) simp_all

lemma inj_crc16_bit: "inj crc16_bit"
proof (rule injI)
  fix x y assume eq: "crc16_bit x = crc16_bit y"
  have b0: "bit (crc16_bit z) 0 = bit z 15" for z
    unfolding crc16_bit_alt bit_xor_iff bit_push_bit_iff by (simp add: bit_0)
  have bS: "bit (push_bit 1 z) (Suc n) = bit z n" if "n < 15" for z :: u16 and n
    using that unfolding bit_push_bit_iff by simp
  from eq b0 have top: "bit x 15 = bit y 15" by metis
  with eq have "push_bit 1 x = push_bit 1 y"
    unfolding crc16_bit_alt xor_word_cancel by (simp only: xor_word_cancel)
  with bS have low: "bit x n = bit y n" if "n < 15" for n using that by metis
  show "x = y"
  proof (rule bit_word_eqI)
    fix n assume "n < LENGTH(16)"
    with top low show "bit x n = bit y n" by (cases "n = 15") auto
  qed
qed

lemma inj_crc16_bits: "inj (crc16_bit ^^ n)"
  by (induction n) (simp_all add: inj_compose inj_crc16_bit del: o_apply)

text \<open>A register whose high byte is clear is shifted up by the eight rounds, unchanged.\<close>

lemma crc16_bits_low: "(crc16_bit ^^ 8) (ucast (b :: u8)) = push_bit 8 (ucast b)"
proof -
  have "(crc16_bit ^^ n) (ucast b) = push_bit n (ucast b)" if "n \<le> 8" for n
    using that
  proof (induction n)
    case (Suc n)
    then have "\<not> bit (push_bit n (ucast b :: u16)) 15"
      by (auto simp: bit_simps not_bit_u8)
    then have "crc16_bit (push_bit n (ucast b)) = push_bit 1 (push_bit n (ucast b))"
      by (simp add: crc16_bit_alt)
    with Suc show ?case by (simp only: funpow.simps comp_apply push_bit_push_bit) simp
  qed simp
  then show ?thesis by simp
qed

lemma crc16_byte_eq_iff: "crc16_byte b c = crc16_byte b c' \<longleftrightarrow> c = c'"
  by (simp add: crc16_byte_def inj_eq [OF inj_crc16_bits] xor_word_cancel)

lemma crc16_bytes_eq_iff: "fold crc16_byte bs c = fold crc16_byte bs c' \<longleftrightarrow> c = c'"
  by (induction bs arbitrary: c c') (simp_all add: crc16_byte_eq_iff)

text \<open>Evaluation on literals.\<close>

lemma crc16_byte_unfold:
  "crc16_byte b c = crc16_bit (crc16_bit (crc16_bit (crc16_bit (crc16_bit (crc16_bit (crc16_bit
     (crc16_bit (c XOR push_bit 8 (ucast b)))))))))"
  by (simp add: crc16_byte_def eval_nat_numeral)

lemma crc16_bit_literal:
  "crc16_bit 1 = 2"
  "crc16_bit (numeral n) = (if numeral n AND (0x8000 :: u16) = 0 then numeral n * 2
     else (numeral n * 2) XOR 0x1021)"
  by (simp_all add: crc16_bit_def)

lemmas crc16_eval = crc16_byte_unfold crc16_bit_literal

text \<open>Two bytes at once: the register is combined with the 16-bit value of both.\<close>

lemma crc16_byte_byte:
  "crc16_byte b2 (crc16_byte b1 c) = (crc16_bit ^^ 16) (c XOR obsw_be16 [b1, b2])"
proof -
  have or_xor: "obsw_be16 [b1, b2] = push_bit 8 (ucast b1) XOR ucast b2"
    by (rule bit_word_eqI) (auto simp: obsw_be16_def bit_simps dest: bit_imp_le_length)
  have "(crc16_bit ^^ 8) (c XOR push_bit 8 (ucast b1)) XOR push_bit 8 (ucast b2)
     = (crc16_bit ^^ 8) (c XOR obsw_be16 [b1, b2])"
    by (simp add: or_xor crc16_bits_xor crc16_bits_low xor.assoc)
  moreover have "crc16_bit ^^ 16 = (crc16_bit ^^ 8) \<circ> (crc16_bit ^^ 8)"
    by (simp flip: funpow_add)
  ultimately show ?thesis by (simp add: crc16_byte_def)
qed

lemma crc16_two_zero_iff: "crc16_byte b2 (crc16_byte b1 c) = 0 \<longleftrightarrow> obsw_be16 [b1, b2] = c"
proof -
  have "crc16_byte b2 (crc16_byte b1 c) = 0 \<longleftrightarrow> c XOR obsw_be16 [b1, b2] = 0"
    unfolding crc16_byte_byte
    using inj_eq [OF inj_crc16_bits, of 16 "c XOR obsw_be16 [b1, b2]" 0]
    by (simp only: crc16_bits_0)
  then show ?thesis by (simp only: xor_word_eq_0_iff)
qed

lemma obsw_be16_pair_inj: "obsw_be16 [a, b] = obsw_be16 [a', b'] \<longleftrightarrow> a = a' \<and> b = b'"
  by (metis be_bytes16_be16 list.inject)

lemma crc16_bytes_residue:
  "fold crc16_byte (bs @ be_bytes16 (fold crc16_byte bs c)) c = 0"
  using be16_be_bytes16 [of "fold crc16_byte bs c" "[]"]
  by (simp add: be_bytes16_def crc16_two_zero_iff)

lemma crc16_pair_differs:
  assumes "[x, y] \<noteq> [x', y']"
  shows "fold crc16_byte (pre @ [x, y] @ post) c \<noteq> fold crc16_byte (pre @ [x', y'] @ post) c"
  using assms
  by (simp add: crc16_bytes_eq_iff crc16_byte_byte inj_eq [OF inj_crc16_bits]
      xor_word_cancel xor.commute [of "fold crc16_byte pre c"] obsw_be16_pair_inj)

subsection \<open>What the decoder accepts\<close>

lemma tc_frame_len_bound: "unat (tf_frame_len (tc_frame_fields b)) < 1024"
proof -
  have "tf_frame_len (tc_frame_fields b) = take_bit 10 (tf_frame_len (tc_frame_fields b))"
    unfolding tc_frame_fields_def
    by (simp add: and_literals, rule u16_bitsI, simp only: expand_bits, elim disjE;
        simp add: bit_simps not_bit_u8)
  then have "unat (tf_frame_len (tc_frame_fields b))
      = take_bit 10 (unat (tf_frame_len (tc_frame_fields b)))"
    by (metis unsigned_take_bit_eq)
  also have "\<dots> < 2 ^ 10" by (rule take_bit_nat_less_exp)
  finally show ?thesis by simp
qed

lemma tc_crc_check_iff:
  fixes len :: "'s::len word"
  assumes "16 \<le> LENGTH('s)" "\<not> len < 8" "unat len \<le> length b"
  shows "obsw_crc16_ccitt b (len - 2)
      = push_bit 8 (ucast (b ! unat (len - 2))) OR ucast (b ! unat (len - 1))
    \<longleftrightarrow> fold crc16_byte (take (unat len) b) 0xFFFF = 0"
proof -
  have n: "8 \<le> unat len"
    using assms(1,2) by (simp add: less_literal del: unat_numeral)
  have u2: "unat (len - 2) = unat len - 2"
    using n assms(1) by (intro unat_sub_literal) simp_all
  have u1: "unat (len - 1) = unat len - 1"
    using n by (intro unat_pred_word) auto
  define m where "m = unat len - 2"
  with n have m: "unat len = Suc (Suc m)" by simp
  have "take (unat len) b = take m b @ [b ! m, b ! Suc m]"
    using assms(3) by (simp add: m take_Suc_conv_app_nth)
  then show ?thesis
    by (auto simp: obsw_crc16_ccitt_def u2 u1 m crc16_two_zero_iff obsw_be16_def)
qed

text \<open>The decoder on a buffer that holds the \<open>len\<close> bytes it is handed.\<close>

lemma tc_decode_cases:
  fixes len :: "'s::len word"
  assumes "16 \<le> LENGTH('s)" "unat len \<le> length b"
  shows "obsw_tc_frame_decode (Some b) len (Some f) =
    (if unat len < 8 then (OBSW_TC_FRAME_ERR_TOO_SHORT, Some f)
     else if fold crc16_byte (take (unat len) b) 0xFFFF \<noteq> 0 then (OBSW_TC_FRAME_ERR_CRC, Some f)
     else if unat (tf_frame_len (tc_frame_fields b)) + 1 \<noteq> unat len
     then (OBSW_TC_FRAME_ERR_TOO_SHORT, Some (f\<lparr>tf_header := tc_frame_fields b\<rparr>))
     else (OBSW_TC_FRAME_OK,
           Some (f\<lparr>tf_header := tc_frame_fields b, tf_data := Some (drop 5 b),
                   tf_data_len := ucast (len - 5 - 2)\<rparr>)))"
proof (cases "unat len < 8")
  case True
  with assms(1) show ?thesis by (simp add: obsw_tc_frame_decode_def less_literal)
next
  case False
  then have n: "\<not> len < 8" using assms(1) by (simp add: less_literal)
  let ?l = "tf_frame_len (tc_frame_fields b)"
  have l: "unat (?l + 1) = unat ?l + 1"
    using tc_frame_len_bound [of b] by (intro unat_Suc_word) simp
  then have lw: "ucast (?l + 1) = len \<longleftrightarrow> unat ?l + 1 = unat len"
    using unat_ucast_u16 [OF assms(1), of "?l + 1"] by (metis word_unat_eq_iff)
  show ?thesis
    using False n
    by (simp add: obsw_tc_frame_decode_def Let_def tc_crc_check_iff [OF assms(1) n assms(2)] lw)
qed

lemma tc_decode_OK_iff:
  fixes len :: "'s::len word"
  assumes "16 \<le> LENGTH('s)" "unat len \<le> length b"
  shows "fst (obsw_tc_frame_decode (Some b) len (Some f)) = OBSW_TC_FRAME_OK \<longleftrightarrow>
    8 \<le> unat len \<and> fold crc16_byte (take (unat len) b) 0xFFFF = 0
      \<and> unat (tf_frame_len (tc_frame_fields b)) + 1 = unat len"
  by (simp add: tc_decode_cases [OF assms])

lemma tc_decode_null [simp]:
  "obsw_tc_frame_decode None len frm = (OBSW_TC_FRAME_ERR_NULL, frm)"
  "obsw_tc_frame_decode buf len None = (OBSW_TC_FRAME_ERR_NULL, None)"
  by (simp_all add: obsw_tc_frame_decode_def split: option.split)

lemma tc_decode_OK_result:
  fixes len :: "'s::len word"
  assumes "16 \<le> LENGTH('s)" "unat len \<le> length b"
    and "obsw_tc_frame_decode (Some b) len (Some f) = (OBSW_TC_FRAME_OK, Some g)"
  shows "tf_header g = tc_frame_fields b" "tf_data g = Some (drop 5 b)"
    "unat (tf_data_len g) + 7 = unat len" "unat len \<le> 1024" "8 \<le> unat len"
proof -
  from assms(3) have g: "8 \<le> unat len" "unat (tf_frame_len (tc_frame_fields b)) + 1 = unat len"
    "g = f\<lparr>tf_header := tc_frame_fields b, tf_data := Some (drop 5 b),
           tf_data_len := ucast (len - 5 - 2)\<rparr>"
    by (auto simp: tc_decode_cases [OF assms(1,2)] split: if_splits)
  with tc_frame_len_bound [of b] have u: "unat len \<le> 1024" by simp
  have 7: "unat (len - 7) = unat len - 7"
    using g(1) assms(1) by (intro unat_sub_literal) simp_all
  with u have "unat (ucast (len - 7) :: u16) = unat len - 7"
    by (subst unat_ucast_small) simp_all
  with g u show "tf_header g = tc_frame_fields b" "tf_data g = Some (drop 5 b)"
    "unat (tf_data_len g) + 7 = unat len" "unat len \<le> 1024" "8 \<le> unat len" by simp_all
qed

subsection \<open>The frame the ground sends\<close>

text \<open>
  The standard's layout of a frame, read the other way from the table in
  \<^verbatim>\<open>tc_frame.c\<close>: the five header bytes, the data field and the CRC of both.
\<close>

definition tc_header_bytes :: "obsw_tc_frame_header \<Rightarrow> u8 list" where
  "tc_header_bytes h =
    [push_bit 6 (tf_version h) OR push_bit 5 (tf_bypass_flag h) OR push_bit 4 (tf_ctrl_cmd_flag h)
       OR ucast (drop_bit 8 (tf_spacecraft_id h)),
     ucast (tf_spacecraft_id h),
     push_bit 2 (tf_virtual_channel_id h) OR ucast (drop_bit 8 (tf_frame_len h)),
     ucast (tf_frame_len h),
     tf_frame_seq_num h]"

definition tc_frame_bytes :: "obsw_tc_frame_header \<Rightarrow> u8 list \<Rightarrow> u8 list" where
  "tc_frame_bytes h data =
    (let body = tc_header_bytes h @ data in body @ be_bytes16 (fold crc16_byte body 0xFFFF))"

definition tc_header_wf :: "obsw_tc_frame_header \<Rightarrow> bool" where
  "tc_header_wf h \<longleftrightarrow> tf_version h = take_bit 2 (tf_version h)
     \<and> tf_bypass_flag h = take_bit 1 (tf_bypass_flag h)
     \<and> tf_ctrl_cmd_flag h = take_bit 1 (tf_ctrl_cmd_flag h)
     \<and> tf_spacecraft_id h = take_bit 10 (tf_spacecraft_id h)
     \<and> tf_virtual_channel_id h = take_bit 6 (tf_virtual_channel_id h)
     \<and> tf_frame_len h = take_bit 10 (tf_frame_len h)"

lemma length_tc_header_bytes [simp, layout]: "length (tc_header_bytes h) = 5"
  by (simp add: tc_header_bytes_def)

lemma length_tc_frame_bytes [simp, layout]: "length (tc_frame_bytes h d) = length d + 7"
  by (simp add: tc_frame_bytes_def Let_def)

text \<open>The decoder reads every field back, cut to its width on the wire.\<close>

lemma tc_frame_fields_trunc:
  "tc_frame_fields (tc_header_bytes
      \<lparr>tf_version = take_bit 2 a, tf_bypass_flag = take_bit 1 b, tf_ctrl_cmd_flag = take_bit 1 c,
       tf_spacecraft_id = take_bit 10 d, tf_virtual_channel_id = take_bit 6 e,
       tf_frame_len = take_bit 10 f, tf_frame_seq_num = g\<rparr> @ r)
   = \<lparr>tf_version = take_bit 2 a, tf_bypass_flag = take_bit 1 b, tf_ctrl_cmd_flag = take_bit 1 c,
      tf_spacecraft_id = take_bit 10 d, tf_virtual_channel_id = take_bit 6 e,
      tf_frame_len = take_bit 10 f, tf_frame_seq_num = g\<rparr>"
  by (rule obsw_tc_frame_header.equality;
      simp add: tc_frame_fields_def tc_header_bytes_def and_literals;
      (rule u8_bitsI u16_bitsI, simp only: expand_bits, elim disjE; simp add: bit_simps)?)

lemma tc_frame_fields_bytes:
  assumes "tc_header_wf h"
  shows "tc_frame_fields (tc_header_bytes h @ r) = h"
proof -
  from assms have h: "h = \<lparr>tf_version = take_bit 2 (tf_version h),
     tf_bypass_flag = take_bit 1 (tf_bypass_flag h),
     tf_ctrl_cmd_flag = take_bit 1 (tf_ctrl_cmd_flag h),
     tf_spacecraft_id = take_bit 10 (tf_spacecraft_id h),
     tf_virtual_channel_id = take_bit 6 (tf_virtual_channel_id h),
     tf_frame_len = take_bit 10 (tf_frame_len h), tf_frame_seq_num = tf_frame_seq_num h\<rparr>"
    by (intro obsw_tc_frame_header.equality) (simp_all add: tc_header_wf_def)
  show ?thesis by (subst (1 2) h) (rule tc_frame_fields_trunc)
qed

subsection \<open>Properties\<close>

text \<open>
  C15: A TC frame laid out as the standard says, with its CRC, is accepted whatever its data
  field holds, and the decoded view has the header that was sent and a data field of
  exactly the bytes that were sent: the header, the data and the CRC are neither cut short
  nor overlap.
\<close>

theorem tc_frame_roundtrip:
  fixes len :: "'s::len word"
  assumes "16 \<le> LENGTH('s)" and "tc_header_wf h" and "data \<noteq> []"
    and "unat (tf_frame_len h) + 1 = length (tc_frame_bytes h data)"
    and "unat len = length (tc_frame_bytes h data)"
  shows "\<exists>g. obsw_tc_frame_decode (Some (tc_frame_bytes h data)) len (Some f)
        = (OBSW_TC_FRAME_OK, Some g)
    \<and> tf_header g = h \<and> map_option (take (unat (tf_data_len g))) (tf_data g) = Some data"
proof -
  let ?b = "tc_frame_bytes h data"
  have fields: "tc_frame_fields ?b = h"
    using tc_frame_fields_bytes [OF assms(2)] by (simp add: tc_frame_bytes_def Let_def)
  have "0 < length data" using assms(3) by simp
  then have "obsw_tc_frame_decode (Some ?b) len (Some f) = (OBSW_TC_FRAME_OK,
      Some (f\<lparr>tf_header := h, tf_data := Some (drop 5 ?b), tf_data_len := ucast (len - 5 - 2)\<rparr>))"
      (is "_ = (_, Some ?g)")
    using assms crc16_bytes_residue [of "tc_header_bytes h @ data" "0xFFFF"]
    by (subst tc_decode_cases) (simp_all add: fields, simp add: tc_frame_bytes_def Let_def)
  moreover from this have "unat (tf_data_len ?g) + 7 = unat len"
    using assms by (intro tc_decode_OK_result(3) [of len ?b f ?g]) simp_all
  with assms(5) have "unat (tf_data_len ?g) = length data" by simp
  then have "map_option (take (unat (tf_data_len ?g))) (tf_data ?g) = Some data"
    by (simp add: tc_frame_bytes_def Let_def del: unsigned_ucast_eq)
  ultimately show ?thesis by (intro exI [of _ ?g]) simp
qed

lemma tc_frame_roundtrip_witness:
  "\<exists>g. obsw_tc_frame_decode (Some (tc_frame_bytes
        \<lparr>tf_version = 0, tf_bypass_flag = 1, tf_ctrl_cmd_flag = 0, tf_spacecraft_id = 0x1AB,
         tf_virtual_channel_id = 5, tf_frame_len = 9, tf_frame_seq_num = 42\<rparr> [1, 2, 3]))
      (10 :: 16 word) (Some undefined) = (OBSW_TC_FRAME_OK, Some g)
    \<and> tf_header g = \<lparr>tf_version = 0, tf_bypass_flag = 1, tf_ctrl_cmd_flag = 0,
         tf_spacecraft_id = 0x1AB, tf_virtual_channel_id = 5, tf_frame_len = 9,
         tf_frame_seq_num = 42\<rparr>
    \<and> map_option (take (unat (tf_data_len g))) (tf_data g) = Some [1, 2, 3]"
  by (rule tc_frame_roundtrip)
    (simp_all add: tc_header_wf_def take_bit_eq_mask mask_eq_exp_minus_1)

text \<open>
  C14: No damage confined to two neighbouring bytes gets past the frame check.  If a frame
  is accepted, the same frame with any other values in two neighbouring bytes, header, data
  or CRC, is rejected with \<open>OBSW_TC_FRAME_ERR_CRC\<close> and nothing is written to the caller's
  descriptor.
\<close>

theorem tc_frame_fault_detected:
  fixes len :: "'s::len word"
  assumes "16 \<le> LENGTH('s)" and "unat len = length (pre @ [x, y] @ post)"
    and "fst (obsw_tc_frame_decode (Some (pre @ [x, y] @ post)) len (Some f)) = OBSW_TC_FRAME_OK"
    and "[x, y] \<noteq> [x', y']"
  shows "obsw_tc_frame_decode (Some (pre @ [x', y'] @ post)) len (Some f)
    = (OBSW_TC_FRAME_ERR_CRC, Some f)"
proof -
  have l: "unat len = length (pre @ [x', y'] @ post)" using assms(2) by simp
  have "8 \<le> unat len" "fold crc16_byte (pre @ [x, y] @ post) 0xFFFF = 0"
    using assms(3) unfolding tc_decode_OK_iff [OF assms(1) eq_refl [OF assms(2)]]
    by (simp_all add: assms(2))
  with crc16_pair_differs [OF assms(4), of pre post "0xFFFF"]
  have "fold crc16_byte (take (unat len) (pre @ [x', y'] @ post)) 0xFFFF \<noteq> 0"
    unfolding l by simp
  with \<open>8 \<le> unat len\<close> show ?thesis
    unfolding tc_decode_cases [OF assms(1) eq_refl [OF l]] by simp
qed

lemma tc_frame_fault_detected_witness:
  "obsw_tc_frame_decode (Some ([0, 1] @ [4, 9] @ [42, 9, 0x59, 0xD5])) (8 :: 32 word) (Some undefined)
    = (OBSW_TC_FRAME_ERR_CRC, Some undefined)"
proof (rule tc_frame_fault_detected)
  have "tf_frame_len (tc_frame_fields [0, 1, 0, 7, 42, 9, 0x59, 0xD5]) = 7"
    by (simp add: tc_frame_fields_def)
  then show "fst (obsw_tc_frame_decode (Some ([0, 1] @ [0, 7] @ [42, 9, 0x59, 0xD5])) (8 :: 32 word)
      (Some undefined)) = OBSW_TC_FRAME_OK"
    by (subst tc_decode_OK_iff) (simp_all add: crc16_eval)
qed simp_all

end
