(* ===== verification/Tm_Frame.thy ===== *)
theory Tm_Frame
  imports Space_Packet Tc_Frame
begin

section \<open>TM transfer frames\<close>

text \<open>
  \<^verbatim>\<open>src/ccsds/tm_frame.c\<close> and \<^verbatim>\<open>include/obsw/ccsds/tm_frame.h\<close>: the builder of a TM
  transfer frame with its idle fill and its frame error control field.

  The lemmas give the frame the builder writes as a list of bytes in every case of payload
  and data field lengths, show that the CRC of a whole frame is 0, so that the receiver's
  check passes, and that an idle fill of at least seven bytes is a space packet of the idle
  APID that the parser accepts.  A fill of one to six bytes is left as it was in the
  caller's buffer.
\<close>

abbreviation (input) OBSW_TM_FRAME_OK :: int where "OBSW_TM_FRAME_OK \<equiv> 0"
abbreviation (input) OBSW_TM_FRAME_ERR_NULL :: int where "OBSW_TM_FRAME_ERR_NULL \<equiv> -1"
abbreviation (input) OBSW_TM_FRAME_ERR_BUF_SMALL :: int where "OBSW_TM_FRAME_ERR_BUF_SMALL \<equiv> -2"
abbreviation (input) OBSW_TM_FRAME_ERR_NO_DATA :: int where "OBSW_TM_FRAME_ERR_NO_DATA \<equiv> -3"

abbreviation (input) FHP_NO_PACKET :: u16 where "FHP_NO_PACKET \<equiv> 0x07FF"
abbreviation (input) FHP_START_ZERO :: u16 where "FHP_START_ZERO \<equiv> 0"

record obsw_tm_frame_config =
  fc_spacecraft_id :: u16
  fc_virtual_channel_id :: u8
  fc_master_channel_frame_count :: u8
  fc_virtual_channel_frame_count :: u8
  fc_enable_fecf :: u8
  fc_frame_data_field_len :: u16

subsection \<open>Builder\<close>

text \<open>The caller hands \<open>write_idle_packet\<close> the suffix of its buffer.\<close>

definition write_idle_packet :: "u8 list \<Rightarrow> u16 \<Rightarrow> u8 list" where
  "write_idle_packet buf len =
    (if len < 7 then buf
     else
       let buf1 = memcpy_at buf 0 (replicate (unat len) 0) (unat len);
           data_len = len - 7
       in memcpy_at buf1 0
            [0x07, 0xFF, 0xC0, 0x00, ucast (drop_bit 8 data_len), ucast (data_len AND 0xFF)] 6)"

definition tm_header_bytes :: "obsw_tm_frame_config \<Rightarrow> u16 \<Rightarrow> u8 list" where
  "tm_header_bytes cfg payload_len =
    (let fhp = (if payload_len > 0 then FHP_START_ZERO else FHP_NO_PACKET);
         dfst = push_bit 11 (3 :: u16) OR (fhp AND 0x07FF)
     in [ucast (drop_bit 4 (fc_spacecraft_id cfg) AND 0x3F),
         ucast (push_bit 4 (fc_spacecraft_id cfg AND 0x0F))
           OR push_bit 1 (fc_virtual_channel_id cfg AND 0x07),
         fc_master_channel_frame_count cfg, fc_virtual_channel_frame_count cfg,
         ucast (drop_bit 8 dfst), ucast (dfst AND 0xFF)])"

definition tm_frame_total :: "obsw_tm_frame_config \<Rightarrow> 's::len word" where
  "tm_frame_total cfg =
    6 + ucast (fc_frame_data_field_len cfg) + (if fc_enable_fecf cfg \<noteq> 0 then 2 else 0)"

text \<open>The block of the builder that fills the data field, \<open>data_zone\<close> being \<open>buf + 6\<close>.\<close>

definition tm_data_zone :: "u16 \<Rightarrow> u8 list \<Rightarrow> u16 \<Rightarrow> u8 list \<Rightarrow> u8 list" where
  "tm_data_zone zone_len payload payload_len data_zone =
    (if payload_len \<ge> zone_len then memcpy_at data_zone 0 payload (unat zone_len)
     else
       let d1 = (if payload_len > 0 then memcpy_at data_zone 0 payload (unat payload_len)
                 else data_zone);
           fill = zone_len - payload_len
       in write_at (unat payload_len) (\<lambda>d. write_idle_packet d fill) d1)"

definition obsw_tm_frame_build ::
  "obsw_tm_frame_config option \<Rightarrow> u8 list option \<Rightarrow> u16 \<Rightarrow> u8 list option \<Rightarrow> 's::len word
   \<Rightarrow> 's word option \<Rightarrow> int \<times> u8 list option \<times> 's word option" where
  "obsw_tm_frame_build cfg payload payload_len buf buf_len written =
    (case (cfg, buf, written) of
       (Some c, Some b, Some _) \<Rightarrow>
         if payload = None \<and> payload_len \<noteq> 0 then (OBSW_TM_FRAME_ERR_NULL, buf, written)
         else
           let fecf = fc_enable_fecf c \<noteq> 0; total = tm_frame_total c :: 's word in
           if buf_len < total then (OBSW_TM_FRAME_ERR_BUF_SMALL, buf, written)
           else
             let src = (case payload of Some p \<Rightarrow> p | None \<Rightarrow> []);
                 b1 = memcpy_at b 0 (tm_header_bytes c payload_len) 6;
                 zone_len = fc_frame_data_field_len c;
                 b2 = write_at 6 (\<lambda>data_zone. tm_data_zone zone_len src payload_len data_zone) b1;
                 b3 = (if fecf
                       then let crc = obsw_crc16_ccitt b2 (total - 2)
                            in memcpy_at b2 (unat (total - 2)) (be_bytes16 crc) 2
                       else b2)
             in (OBSW_TM_FRAME_OK, Some b3, Some total)
     | _ \<Rightarrow> (OBSW_TM_FRAME_ERR_NULL, buf, written))"

definition obsw_tm_frame_strerror :: "int \<Rightarrow> string" where
  "obsw_tm_frame_strerror err =
    (if err = OBSW_TM_FRAME_OK then ''OK''
     else if err = OBSW_TM_FRAME_ERR_NULL then ''NULL pointer''
     else if err = OBSW_TM_FRAME_ERR_BUF_SMALL then ''buffer too small''
     else if err = OBSW_TM_FRAME_ERR_NO_DATA then ''no data''
     else ''unknown error'')"

subsection \<open>The idle packet\<close>

text \<open>The bytes an idle fill of \<open>n\<close> bytes consists of.\<close>

definition idle_bytes :: "u16 \<Rightarrow> u8 list" where
  "idle_bytes n = [0x07, 0xFF, 0xC0, 0x00] @ be_bytes16 (n - 7) @ replicate (unat n - 6) 0"

lemma length_idle_bytes [simp, layout]: "7 \<le> unat n \<Longrightarrow> length (idle_bytes n) = unat n"
  by (simp add: idle_bytes_def)

lemma write_idle_packet_append:
  assumes "length d = unat n"
  shows "write_idle_packet (d @ r) n = (if unat n < 7 then d else idle_bytes n) @ r"
proof (cases "unat n < 7")
  case True
  then show ?thesis by (simp add: write_idle_packet_def word_less_nat_alt)
next
  case False
  then have "replicate (unat n) (0 :: u8) = replicate 6 0 @ replicate (unat n - 6) 0"
    by (simp flip: replicate_add)
  with False assms show ?thesis
    by (simp add: write_idle_packet_def word_less_nat_alt memcpy_at_def idle_bytes_def Let_def
        be_bytes16_def)
qed

lemma idle_header:
  "sp_header_fields (idle_bytes n @ r) =
    \<lparr>sp_version = 0, sp_type = 0, sp_sec_hdr_flag = 0, sp_apid = OBSW_SP_APID_IDLE,
     sp_seq_flags = OBSW_SP_SEQ_UNSEGMENTED, sp_seq_count = 0, sp_data_len = n - 7\<rparr>"
  using be16_be_bytes16 [of "n - 7" "[]"]
  by (simp add: idle_bytes_def sp_header_fields_def be_bytes16_def obsw_be16_def)

text \<open>The idle fill is one space packet of exactly the length of the fill.\<close>

lemma idle_bytes_parse:
  fixes len :: "'s::len word"
  assumes "17 \<le> LENGTH('s)" and "7 \<le> unat n" and "unat n \<le> unat len"
  shows "obsw_sp_parse (Some (idle_bytes n @ r)) len (Some p) =
    (OBSW_SP_OK, Some \<lparr>sp_hdr = \<lparr>sp_version = 0, sp_type = 0, sp_sec_hdr_flag = 0,
        sp_apid = OBSW_SP_APID_IDLE, sp_seq_flags = OBSW_SP_SEQ_UNSEGMENTED, sp_seq_count = 0,
        sp_data_len = n - 7\<rparr>,
      sp_payload = Some (replicate (unat n - 6) 0 @ r), sp_payload_len = n - 6\<rparr>)"
proof -
  have "unat (n - 7) = unat n - 7"
    using assms(2) by (intro unat_sub_literal) simp_all
  then have "\<not> len < obsw_sp_total_len (n - 7)"
    using assms by (simp add: word_less_nat_alt unat_total_len)
  moreover have "\<not> len < 6"
    using assms by (simp add: less_literal)
  moreover have "drop 6 (idle_bytes n @ r) = replicate (unat n - 6) 0 @ r"
    by (simp add: idle_bytes_def be_bytes16_def)
  ultimately show ?thesis
    by (simp add: obsw_sp_parse_def obsw_sp_decode_primary_def Let_def idle_header)
qed

subsection \<open>The frame that is built\<close>

text \<open>
  The data field of a frame: the payload, cut at the end of the field, then the idle fill;
  \<open>old\<close> is what the field held before.
\<close>

definition tm_zone :: "u16 \<Rightarrow> u8 list \<Rightarrow> u16 \<Rightarrow> u8 list \<Rightarrow> u8 list" where
  "tm_zone zone_len src payload_len old =
    (if payload_len \<ge> zone_len then take (unat zone_len) src
     else take (unat payload_len) src @
       (if unat (zone_len - payload_len) < 7 then drop (unat payload_len) old
        else idle_bytes (zone_len - payload_len)))"

definition tm_frame_bytes :: "obsw_tm_frame_config \<Rightarrow> u8 list \<Rightarrow> u16 \<Rightarrow> u8 list \<Rightarrow> u8 list" where
  "tm_frame_bytes c src payload_len old =
    (let body = tm_header_bytes c payload_len
           @ tm_zone (fc_frame_data_field_len c) src payload_len old
     in body @ (if fc_enable_fecf c \<noteq> 0 then be_bytes16 (fold crc16_byte body 0xFFFF) else []))"

lemma length_tm_header_bytes [simp, layout]: "length (tm_header_bytes c n) = 6"
  by (simp add: tm_header_bytes_def Let_def)

lemma unat_sub_u16: "\<not> b \<le> a \<Longrightarrow> unat (b - a :: u16) = unat b - unat a"
  by (simp add: unat_sub_if' word_le_nat_alt)

lemma length_tm_zone [simp, layout]:
  assumes "length old = unat zone_len" "unat payload_len \<le> length src"
  shows "length (tm_zone zone_len src payload_len old) = unat zone_len"
  using assms by (auto simp: tm_zone_def word_le_nat_alt unat_sub_u16)

lemma unat_tm_frame_total:
  assumes "17 \<le> LENGTH('s)"
  shows "unat (tm_frame_total c :: 's::len word)
    = 6 + unat (fc_frame_data_field_len c) + (if fc_enable_fecf c \<noteq> 0 then 2 else 0)"
proof -
  have "(131072::nat) \<le> 2 ^ LENGTH('s)"
    using power_increasing [OF assms, of "2::nat"] by simp
  then have no_wrap: "unat (fc_frame_data_field_len c) + 8 < 2 ^ LENGTH('s)"
    using u16_less_65536 [of "fc_frame_data_field_len c"] by linarith
  have lits: "unat (6 :: 's word) = 6" "unat (2 :: 's word) = 2"
    by (rule unat_literal; use assms in simp)+
  have "unat (ucast (fc_frame_data_field_len c) :: 's word) = unat (fc_frame_data_field_len c)"
    using assms by (intro unat_ucast_u16) simp
  with no_wrap have s6:
    "unat (6 + ucast (fc_frame_data_field_len c) :: 's word) = 6 + unat (fc_frame_data_field_len c)"
    by (subst unat_add_small) (simp_all only: lits)
  have "unat (6 + ucast (fc_frame_data_field_len c) + 2 :: 's word)
      = 6 + unat (fc_frame_data_field_len c) + 2"
    using no_wrap by (subst unat_add_small) (simp_all only: lits s6)
  with s6 show ?thesis by (simp only: tm_frame_total_def split: if_splits) simp
qed

text \<open>The data field the two branches of the builder leave behind the header.\<close>

lemma zone_written:
  assumes "length old = unat zone_len" "unat payload_len \<le> length src"
  shows "tm_data_zone zone_len src payload_len (old @ r) = tm_zone zone_len src payload_len old @ r"
proof (cases "payload_len \<ge> zone_len")
  case True
  with assms show ?thesis
    by (simp add: tm_data_zone_def tm_zone_def memcpy_at_start word_le_nat_alt)
next
  case False
  let ?p = "unat payload_len"
  from False have le: "?p \<le> unat zone_len" by (simp add: word_le_nat_alt)
  then obtain a b where old: "old = a @ b" "length a = ?p"
    using split_list_at [of ?p old] assms(1) by auto
  have d1: "(if payload_len > 0 then memcpy_at (old @ r) 0 src ?p else old @ r)
      = take ?p src @ b @ r"
    using old assms(2) by (cases "payload_len = 0") (simp_all add: memcpy_at_start word_gt_0)
  have "length b = unat (zone_len - payload_len)"
    using old assms(1) False by (simp add: unat_sub_u16)
  moreover have "tm_data_zone zone_len src payload_len (old @ r) = write_at ?p
      (\<lambda>d. write_idle_packet d (zone_len - payload_len)) (take ?p src @ b @ r)"
    using False by (simp only: tm_data_zone_def Let_def d1 if_False)
  ultimately show ?thesis
    using False old assms(2) by (simp add: write_at_append write_idle_packet_append tm_zone_def)
qed

lemma tm_frame_build_layout:
  fixes buf_len :: "'s::len word"
  assumes "17 \<le> LENGTH('s)"
    and "tm_frame_total c \<le> buf_len"
    and "length hdr = 6" "length old = unat (fc_frame_data_field_len c)"
    and "length crc = (if fc_enable_fecf c \<noteq> 0 then 2 else 0)"
    and "unat payload_len \<le> length src"
  shows "obsw_tm_frame_build (Some c) (Some src) payload_len (Some (hdr @ old @ crc @ r)) buf_len (Some w)
    = (OBSW_TM_FRAME_OK, Some (tm_frame_bytes c src payload_len old @ r),
       Some (tm_frame_total c))"
proof -
  let ?body = "tm_header_bytes c payload_len @ tm_zone (fc_frame_data_field_len c) src payload_len old"
  have body: "length ?body = 6 + unat (fc_frame_data_field_len c)"
    using assms by simp
  have nl: "\<not> buf_len < tm_frame_total c" using assms(2) by simp
  have t2: "unat (tm_frame_total c - 2 :: 's word) = length ?body" if "fc_enable_fecf c \<noteq> 0"
  proof -
    have "unat (tm_frame_total c - 2 :: 's word) = unat (tm_frame_total c :: 's word) - 2"
      using that assms(1) by (intro unat_sub_literal) (simp_all add: unat_tm_frame_total)
    with that body show ?thesis using assms(1) by (simp add: unat_tm_frame_total)
  qed
  have c2: "obsw_crc16_ccitt (?body @ crc @ r) (tm_frame_total c - 2 :: 's word)
      = fold crc16_byte ?body 0xFFFF" if "fc_enable_fecf c \<noteq> 0"
    unfolding obsw_crc16_ccitt_def t2 [OF that] by simp
  have m2: "memcpy_at (?body @ crc @ r) (unat (tm_frame_total c - 2 :: 's word)) (be_bytes16 x) 2
      = ?body @ be_bytes16 x @ r" if "fc_enable_fecf c \<noteq> 0" for x
    using that assms(5) t2 by (subst memcpy_at_middle) simp_all
  have b2: "write_at 6 (\<lambda>z. tm_data_zone (fc_frame_data_field_len c) src payload_len z)
       (memcpy_at (hdr @ old @ crc @ r) 0 (tm_header_bytes c payload_len) 6) = ?body @ crc @ r"
    using assms(3,4,6) by (simp add: memcpy_at_start write_at_append zone_written)
  show ?thesis
  proof (cases "fc_enable_fecf c = 0")
    case True
    then show ?thesis
      using nl assms(5) b2 by (simp add: obsw_tm_frame_build_def Let_def tm_frame_bytes_def)
  next
    case False
    then show ?thesis
      using nl b2 c2 [OF False] m2 [OF False]
      by (simp add: obsw_tm_frame_build_def Let_def tm_frame_bytes_def)
  qed
qed

text \<open>The same for any buffer that is long enough.\<close>

lemma tm_frame_build_OK:
  fixes buf_len :: "'s::len word"
  assumes "17 \<le> LENGTH('s)" and "tm_frame_total c \<le> buf_len" and "unat buf_len \<le> length buf"
    and "unat payload_len \<le> length src"
  defines "n \<equiv> unat (tm_frame_total c :: 's word)"
    and "old \<equiv> take (unat (fc_frame_data_field_len c)) (drop 6 buf)"
  shows "obsw_tm_frame_build (Some c) (Some src) payload_len (Some buf) buf_len (Some w)
      = (OBSW_TM_FRAME_OK, Some (tm_frame_bytes c src payload_len old @ drop n buf),
         Some (tm_frame_total c))"
    and "length (tm_frame_bytes c src payload_len old) = n"
proof -
  let ?d = "unat (fc_frame_data_field_len c)" and ?f = "if fc_enable_fecf c \<noteq> 0 then 2 else 0 :: nat"
  have n: "n = 6 + ?d + ?f" using assms(1) by (simp add: n_def unat_tm_frame_total)
  have "n \<le> unat buf_len" using assms(2) by (simp add: n_def word_le_nat_alt)
  with assms(3) have "n \<le> length buf" by simp
  then obtain a r where ar: "buf = a @ r" "length a = n" using split_list_at by metis
  obtain hdr b where hb: "a = hdr @ b" "length hdr = 6" using split_list_at [of 6 a] ar n by auto
  then obtain o' crc where oc: "b = o' @ crc" "length o' = ?d"
    using split_list_at [of ?d b] ar n by auto
  with ar hb n have crc: "length crc = ?f" by simp
  have buf: "buf = hdr @ o' @ crc @ r" using ar hb oc by simp
  have o: "old = o'" and r: "r = drop n buf"
    using ar hb oc by (simp_all add: old_def)
  show "obsw_tm_frame_build (Some c) (Some src) payload_len (Some buf) buf_len (Some w)
      = (OBSW_TM_FRAME_OK, Some (tm_frame_bytes c src payload_len old @ drop n buf),
         Some (tm_frame_total c))"
    using tm_frame_build_layout [OF assms(1,2) hb(2) oc(2) crc assms(4), of r w]
    by (simp only: o r [symmetric] buf [symmetric])
  show "length (tm_frame_bytes c src payload_len old) = n"
    using assms(4) oc(2) by (simp add: tm_frame_bytes_def Let_def o n)
qed

text \<open>
  A fill of one to six bytes, too short for an idle packet, is not written: the end of the
  data field is sent with the bytes the caller's buffer held before.
\<close>

lemma tm_short_fill_stale:
  assumes "payload_len < zone_len" and "unat zone_len < unat payload_len + 7"
  shows "tm_zone zone_len src payload_len old = take (unat payload_len) src @ drop (unat payload_len) old"
proof -
  from assms(1) have nl: "\<not> zone_len \<le> payload_len" by simp
  have "unat zone_len - unat payload_len < 7"
    using assms(2) by arith
  with nl show ?thesis by (simp add: tm_zone_def unat_sub_u16)
qed

lemma tm_frame_bytes_residue:
  "fc_enable_fecf c \<noteq> 0 \<Longrightarrow> fold crc16_byte (tm_frame_bytes c src n old) 0xFFFF = 0"
  using crc16_bytes_residue by (simp add: tm_frame_bytes_def Let_def)

text \<open>The primary header by its places in the standard: version 0, no operational control field.\<close>

lemma tm_header_layout:
  "push_bit 8 (ucast (tm_header_bytes c n ! 0)) OR ucast (tm_header_bytes c n ! 1)
    = push_bit 4 (fc_spacecraft_id c AND 0x03FF) OR push_bit 1 (ucast (fc_virtual_channel_id c) AND 0x07 :: u16)"
  "tm_header_bytes c n ! 2 = fc_master_channel_frame_count c"
  "tm_header_bytes c n ! 3 = fc_virtual_channel_frame_count c"
  "push_bit 8 (ucast (tm_header_bytes c n ! 4)) OR ucast (tm_header_bytes c n ! 5)
    = (if n = 0 then 0x1FFF else 0x1800 :: u16)"
proof -
  have "push_bit 8 (ucast (ucast (drop_bit 4 x AND 0x3F) :: u8))
      OR ucast (ucast (push_bit 4 (x AND 0x0F)) OR push_bit 1 (v AND 0x07) :: u8)
    = push_bit 4 (x AND 0x03FF) OR push_bit 1 (ucast v AND 0x07 :: u16)" for x :: u16 and v :: u8
    by (rule u16_bitsI) (simp only: expand_bits, elim disjE; simp add: bit_simps del: push_bit_Suc)
  then show "push_bit 8 (ucast (tm_header_bytes c n ! 0)) OR ucast (tm_header_bytes c n ! 1)
    = push_bit 4 (fc_spacecraft_id c AND 0x03FF) OR push_bit 1 (ucast (fc_virtual_channel_id c) AND 0x07 :: u16)"
    by (simp add: tm_header_bytes_def Let_def)
qed (simp_all add: tm_header_bytes_def Let_def word_gt_0)

subsection \<open>Properties\<close>

text \<open>
  C16: A built TM frame is well formed.  Given a buffer that holds the frame, the builder
  succeeds, writes exactly the announced number of bytes and leaves the rest of the buffer
  alone; the header has the spacecraft, the virtual channel, the two counters and the first
  header pointer (none without a payload) at their places; the receiver's CRC over the frame is
  0 when the error control field is enabled; and the data field starts with the payload, cut at
  the end of the field.  If at least seven bytes of the field are left, what follows the payload
  is a space packet of the idle APID that fills the field to its end.  If one to six are left,
  too few for a packet, nothing is written there: they are sent as the caller's buffer had them.
\<close>

theorem tm_frame_build_correct:
  fixes buf_len :: "'s::len word"
  assumes "17 \<le> LENGTH('s)" and "tm_frame_total c \<le> buf_len" and "unat buf_len \<le> length buf"
    and "unat payload_len \<le> length src"
    and "n = unat payload_len" and "d = unat (fc_frame_data_field_len c)"
  shows "\<exists>frame. obsw_tm_frame_build (Some c) (Some src) payload_len (Some buf) buf_len (Some w)
        = (OBSW_TM_FRAME_OK, Some (frame @ drop (length frame) buf), Some (tm_frame_total c))
    \<and> length frame = unat (tm_frame_total c :: 's word)
    \<and> push_bit 8 (ucast (frame ! 0)) OR ucast (frame ! 1)
        = push_bit 4 (fc_spacecraft_id c AND 0x03FF) OR push_bit 1 (ucast (fc_virtual_channel_id c) AND 0x07 :: u16)
    \<and> frame ! 2 = fc_master_channel_frame_count c \<and> frame ! 3 = fc_virtual_channel_frame_count c
    \<and> push_bit 8 (ucast (frame ! 4)) OR ucast (frame ! 5) = (if n = 0 then 0x1FFF else 0x1800 :: u16)
    \<and> (fc_enable_fecf c \<noteq> 0 \<longrightarrow> fold crc16_byte frame 0xFFFF = 0)
    \<and> take (min n d) (drop 6 frame) = take (min n d) src
    \<and> (n + 7 \<le> d \<longrightarrow> (\<exists>q. obsw_sp_parse (Some (drop (6 + n) frame)) (of_nat (d - n) :: 's word) (Some p) = (OBSW_SP_OK, Some q)
          \<and> sp_apid (sp_hdr q) = OBSW_SP_APID_IDLE \<and> n + 6 + unat (sp_payload_len q) = d))
    \<and> (n < d \<and> d < n + 7 \<longrightarrow> take (d - n) (drop (6 + n) frame) = take (d - n) (drop (6 + n) buf))"
proof -
  let ?old = "take d (drop 6 buf)"
  let ?z = "tm_zone (fc_frame_data_field_len c) src payload_len ?old"
  let ?f = "tm_frame_bytes c src payload_len ?old" and ?fill = "fc_frame_data_field_len c - payload_len"
  note ok = tm_frame_build_OK(1) [OF assms(1-4), of w] tm_frame_build_OK(2) [OF assms(1-4)]
  obtain r where f: "?f = tm_header_bytes c payload_len @ ?z @ r"
    by (simp add: tm_frame_bytes_def Let_def)
  have hd: "?f ! i = tm_header_bytes c payload_len ! i" if "i < 6" for i
    unfolding f using that by (simp add: nth_append)
  have d6: "drop 6 ?f = ?z @ r" unfolding f by simp
  have pay: "take (min n d) (?z @ r) = take (min n d) src"
    using assms(4) by (auto simp: tm_zone_def assms(5,6) word_le_nat_alt min_def)
  have fill: "unat ?fill = d - n" "\<not> fc_frame_data_field_len c \<le> payload_len" if "n < d"
    using that unat_sub_u16 [of "fc_frame_data_field_len c" payload_len] by (simp_all add: assms(5,6) word_le_nat_alt)
  have idle: "\<exists>q. obsw_sp_parse (Some (drop (6 + n) ?f)) (of_nat (d - n) :: 's word) (Some p) = (OBSW_SP_OK, Some q)
      \<and> sp_apid (sp_hdr q) = OBSW_SP_APID_IDLE \<and> n + 6 + unat (sp_payload_len q) = d" if l: "n + 7 \<le> d"
  proof -
    have lt: "n < d" using l by simp
    have z: "?z = take n src @ idle_bytes ?fill"
    proof -
      have "\<not> unat ?fill < 7" using fill(1) [OF lt] l by linarith
      then show ?thesis using fill(2) [OF lt] by (simp add: tm_zone_def assms(5))
    qed
    have "drop (6 + n) ?f = drop n (?z @ r)" by (simp add: add.commute [of 6] d6 flip: drop_drop)
    also have "\<dots> = idle_bytes ?fill @ r" using assms(4) by (simp add: z assms(5))
    finally have dr: "drop (6 + n) ?f = idle_bytes ?fill @ r" .
    have "d < 2 ^ 16" using u16_less_65536 [of "fc_frame_data_field_len c"] by (simp add: assms(6))
    moreover have "(2 :: nat) ^ 16 \<le> 2 ^ LENGTH('s)" using assms(1) by (intro power_increasing) simp_all
    ultimately have u: "unat (of_nat (d - n) :: 's word) = d - n" by (intro unat_of_nat_small) linarith
    have "unat (?fill - 6) = unat ?fill - 6"
      using fill(1) [OF lt] l by (intro unat_sub_literal) simp_all
    with idle_bytes_parse [OF assms(1), of ?fill "of_nat (d - n)" r p] u fill(1) [OF lt] l show ?thesis
      unfolding dr by auto
  qed
  have stale: "take (d - n) (drop (6 + n) ?f) = take (d - n) (drop (6 + n) buf)" if l: "n < d" "d < n + 7"
  proof -
    have z: "?z = take n src @ drop n ?old"
    proof -
      have "unat ?fill < 7" using fill(1) [OF l(1)] l by linarith
      then show ?thesis using fill(2) [OF l(1)] by (simp add: tm_zone_def assms(5))
    qed
    have len: "6 + d \<le> length buf"
    proof -
      have "unat (tm_frame_total c :: 's word) \<le> length buf" using assms(2,3) by (simp add: word_le_nat_alt)
      then show ?thesis by (simp add: unat_tm_frame_total [OF assms(1)] assms(6) split: if_splits)
    qed
    have "drop (6 + n) ?f = drop n (?z @ r)" by (simp add: add.commute [of 6] d6 flip: drop_drop)
    also have "\<dots> = drop n ?old @ r" using assms(4) by (simp add: z assms(5))
    finally show ?thesis using len l by (simp add: drop_take add.commute [of 6])
  qed
  show ?thesis
  proof (intro exI [of _ ?f] conjI)
    show "obsw_tm_frame_build (Some c) (Some src) payload_len (Some buf) buf_len (Some w)
        = (OBSW_TM_FRAME_OK, Some (?f @ drop (length ?f) buf), Some (tm_frame_total c))"
      using ok by (simp add: assms(6))
    have "?f ! 0 = tm_header_bytes c payload_len ! 0" "?f ! 1 = tm_header_bytes c payload_len ! 1" by (rule hd; simp)+
    then show "push_bit 8 (ucast (?f ! 0)) OR ucast (?f ! 1)
        = push_bit 4 (fc_spacecraft_id c AND 0x03FF) OR push_bit 1 (ucast (fc_virtual_channel_id c) AND 0x07 :: u16)"
      by (simp only: tm_header_layout)
    show "length ?f = unat (tm_frame_total c :: 's word)" using ok(2) by (simp add: assms(6))
    show "push_bit 8 (ucast (?f ! 4)) OR ucast (?f ! 5) = (if n = 0 then 0x1FFF else 0x1800 :: u16)"
      by (simp add: hd tm_header_layout assms(5) unat_eq_zero)
    show "take (min n d) (drop 6 ?f) = take (min n d) src" unfolding d6 by (rule pay)
    show "n + 7 \<le> d \<longrightarrow> (\<exists>q. obsw_sp_parse (Some (drop (6 + n) ?f)) (of_nat (d - n) :: 's word) (Some p) = (OBSW_SP_OK, Some q)
          \<and> sp_apid (sp_hdr q) = OBSW_SP_APID_IDLE \<and> n + 6 + unat (sp_payload_len q) = d)" using idle by blast
    show "n < d \<and> d < n + 7 \<longrightarrow> take (d - n) (drop (6 + n) ?f) = take (d - n) (drop (6 + n) buf)" using stale by blast
  qed (simp_all add: hd tm_header_layout tm_frame_bytes_residue)
qed

lemma tm_frame_build_correct_witness:
  "\<exists>frame. obsw_tm_frame_build
        (Some \<lparr>fc_spacecraft_id = 0x1AB, fc_virtual_channel_id = 1,
               fc_master_channel_frame_count = 7, fc_virtual_channel_frame_count = 8,
               fc_enable_fecf = 1, fc_frame_data_field_len = 12\<rparr>)
        (Some [1, 2, 3]) 3 (Some (replicate 24 0xEE)) (24 :: 64 word) (Some 0)
        = (OBSW_TM_FRAME_OK, Some (frame @ drop (length frame) (replicate 24 0xEE)),
           Some (tm_frame_total \<lparr>fc_spacecraft_id = 0x1AB, fc_virtual_channel_id = 1,
               fc_master_channel_frame_count = 7, fc_virtual_channel_frame_count = 8,
               fc_enable_fecf = 1, fc_frame_data_field_len = 12\<rparr>))"
  using tm_frame_build_correct [where c = "\<lparr>fc_spacecraft_id = 0x1AB, fc_virtual_channel_id = 1,
               fc_master_channel_frame_count = 7, fc_virtual_channel_frame_count = 8,
               fc_enable_fecf = 1, fc_frame_data_field_len = 12\<rparr>" and payload_len = 3
      and src = "[1, 2, 3]" and buf = "replicate 24 0xEE" and buf_len = "24 :: 64 word"
      and w = 0 and p = sp_packet_uninit, OF _ _ _ _ refl refl]
  by (simp add: tm_frame_total_def) blast

end
