(* ===== verification/Tm_Store.thy ===== *)
theory Tm_Store
  imports Obsw_Prelude
begin

section \<open>The telemetry store\<close>

text \<open>
  \<^verbatim>\<open>src/tm/store.c\<close> and \<^verbatim>\<open>include/obsw/tm/store.h\<close> at the default size of 32 slots of
  1024 bytes: the ring buffer between the services that produce telemetry and the task
  that sends it.

  What a store promises is the contract \<open>bounded_fifo\<close>: its contents are a list, packets
  are appended at its end while it holds fewer than its capacity and taken from its front.
  The clients' lemmas (nothing lost, duplicated or reordered over any sequence of calls;
  the drain loop empties it) are proved from the contract; the interpretation at the end
  shows that the ring buffer keeps it, with a capacity of 31.
\<close>

abbreviation (input) OBSW_TM_OK :: int where "OBSW_TM_OK \<equiv> 0"
abbreviation (input) OBSW_TM_ERR_NULL :: int where "OBSW_TM_ERR_NULL \<equiv> -1"
abbreviation (input) OBSW_TM_ERR_FULL :: int where "OBSW_TM_ERR_FULL \<equiv> -2"
abbreviation (input) OBSW_TM_ERR_EMPTY :: int where "OBSW_TM_ERR_EMPTY \<equiv> -3"
abbreviation (input) OBSW_TM_ERR_TOO_LARGE :: int where "OBSW_TM_ERR_TOO_LARGE \<equiv> -4"

abbreviation (input) OBSW_TM_MAX_PACKET_LEN :: nat where "OBSW_TM_MAX_PACKET_LEN \<equiv> 1024"
abbreviation (input) OBSW_TM_STORE_SLOTS :: nat where "OBSW_TM_STORE_SLOTS \<equiv> 32"

record obsw_tm_slot =
  sl_data :: "u8 list"
  sl_len :: u16

record obsw_tm_store =
  ts_slots :: "obsw_tm_slot list"
  ts_head :: u64
  ts_tail :: u64

subsection \<open>The contract of a bounded queue\<close>

text \<open>
  Any sequence of calls on a queue: the packets accepted and the packets handed out, in
  order.  A call that is refused leaves the queue as it is.
\<close>

datatype 'a fifo_op = Enq 'a | Deq

fun fifo_calls ::
  "('s \<Rightarrow> 'a \<Rightarrow> 's option) \<Rightarrow> ('s \<Rightarrow> ('a \<times> 's) option) \<Rightarrow> 'a fifo_op list \<Rightarrow> 's
   \<Rightarrow> 'a list \<times> 'a list \<times> 's" where
  "fifo_calls enq deq [] s = ([], [], s)"
| "fifo_calls enq deq (Enq x # ops) s =
    (case enq s x of
       Some s' \<Rightarrow> (case fifo_calls enq deq ops s' of (ins, outs, t) \<Rightarrow> (x # ins, outs, t))
     | None \<Rightarrow> fifo_calls enq deq ops s)"
| "fifo_calls enq deq (Deq # ops) s =
    (case deq s of
       Some (x, s') \<Rightarrow> (case fifo_calls enq deq ops s' of (ins, outs, t) \<Rightarrow> (ins, x # outs, t))
     | None \<Rightarrow> fifo_calls enq deq ops s)"

text \<open>The drain loop \<open>while (deq (...) == OK) send (...)\<close>, with fuel.\<close>

fun fifo_drain :: "('s \<Rightarrow> ('a \<times> 's) option) \<Rightarrow> nat \<Rightarrow> 's \<Rightarrow> 'a list \<times> 's" where
  "fifo_drain deq 0 s = ([], s)"
| "fifo_drain deq (Suc n) s =
    (case deq s of None \<Rightarrow> ([], s)
     | Some (x, s') \<Rightarrow> (case fifo_drain deq n s' of (xs, t) \<Rightarrow> (x # xs, t)))"

locale bounded_fifo =
  fixes enq :: "'s \<Rightarrow> 'a \<Rightarrow> 's option"
    and deq :: "'s \<Rightarrow> ('a \<times> 's) option"
    and contents :: "'s \<Rightarrow> 'a list"
    and inv :: "'s \<Rightarrow> bool"
    and cap :: nat
    and fits :: "'a \<Rightarrow> bool"
  assumes enq_ok: "inv s \<Longrightarrow> fits x \<Longrightarrow> length (contents s) < cap \<Longrightarrow>
      \<exists>s'. enq s x = Some s' \<and> inv s' \<and> contents s' = contents s @ [x]"
    and enq_refused: "inv s \<Longrightarrow> \<not> (fits x \<and> length (contents s) < cap) \<Longrightarrow> enq s x = None"
    and deq_empty: "inv s \<Longrightarrow> contents s = [] \<Longrightarrow> deq s = None"
    and deq_ok: "inv s \<Longrightarrow> contents s = x # xs \<Longrightarrow>
      \<exists>s'. deq s = Some (x, s') \<and> inv s' \<and> contents s' = xs"
begin

lemma enq_SomeD:
  assumes "inv s" "enq s x = Some s'"
  shows "inv s' \<and> contents s' = contents s @ [x] \<and> fits x \<and> length (contents s) < cap"
proof -
  have "fits x \<and> length (contents s) < cap"
    using enq_refused [of s x] assms by auto
  with enq_ok [of s x] assms show ?thesis by auto
qed

lemma deq_SomeD:
  assumes "inv s" "deq s = Some (x, s')"
  shows "inv s' \<and> contents s = x # contents s'"
  using deq_empty [of s] deq_ok [of s] assms by (cases "contents s") auto

lemma deq_None_iff: "inv s \<Longrightarrow> deq s = None \<longleftrightarrow> contents s = []"
  using deq_empty [of s] deq_ok [of s] by (cases "contents s") auto

lemma calls_fifo:
  assumes "inv s" "length (contents s) \<le> cap" "fifo_calls enq deq ops s = (ins, outs, t)"
  shows "inv t \<and> length (contents t) \<le> cap \<and> contents s @ ins = outs @ contents t"
  using assms
proof (induction ops arbitrary: s ins outs t)
  case (Cons op ops)
  note IH = Cons.IH and prems = Cons.prems
  show ?case
  proof (cases op)
    case (Enq x)
    show ?thesis
    proof (cases "enq s x")
      case None
      with Enq prems(3) have "fifo_calls enq deq ops s = (ins, outs, t)" by simp
      with IH [of s] prems(1,2) show ?thesis by simp
    next
      case (Some s')
      have s': "inv s'" "contents s' = contents s @ [x]" "length (contents s') \<le> cap"
        using enq_SomeD [OF prems(1) Some] by simp_all
      obtain ins' where "fifo_calls enq deq ops s' = (ins', outs, t)" "ins = x # ins'"
        using prems(3) Enq Some by (cases "fifo_calls enq deq ops s'") auto
      with IH [of s'] s' show ?thesis by simp
    qed
  next
    case Deq
    show ?thesis
    proof (cases "deq s")
      case None
      with Deq prems(3) have "fifo_calls enq deq ops s = (ins, outs, t)" by simp
      with IH [of s] prems(1,2) show ?thesis by simp
    next
      case (Some r)
      then obtain y s' where r: "deq s = Some (y, s')" by (cases r) simp
      with deq_SomeD [OF prems(1)] prems(2) have s': "inv s'" "contents s = y # contents s'"
        "length (contents s') \<le> cap" by auto
      obtain outs' where "fifo_calls enq deq ops s' = (ins, outs', t)" "outs = y # outs'"
        using prems(3) Deq r by (cases "fifo_calls enq deq ops s'") auto
      with IH [of s'] s' show ?thesis by simp
    qed
  qed
qed simp

lemma drain_all:
  assumes "inv s" "length (contents s) \<le> n"
  shows "\<exists>t. fifo_drain deq n s = (contents s, t) \<and> inv t \<and> contents t = []"
  using assms
proof (induction n arbitrary: s)
  case (Suc n)
  show ?case
  proof (cases "contents s")
    case Nil
    with Suc.prems deq_empty show ?thesis by simp
  next
    case (Cons x xs)
    with Suc.prems deq_ok obtain s' where
      s': "deq s = Some (x, s')" "inv s'" "contents s' = xs" by blast
    moreover have "length (contents s') \<le> n" using Suc.prems(2) s'(3) Cons by simp
    ultimately obtain t where "fifo_drain deq n s' = (xs, t)" "inv t" "contents t = []"
      using Suc.IH [of s'] by blast
    with s'(1) Cons show ?thesis by simp
  qed
qed simp

end

subsection \<open>The ring buffer\<close>

definition obsw_tm_store_init :: "obsw_tm_store option \<Rightarrow> int \<times> obsw_tm_store option" where
  "obsw_tm_store_init s =
    (case s of None \<Rightarrow> (OBSW_TM_ERR_NULL, None)
     | Some st \<Rightarrow> (OBSW_TM_OK, Some (st\<lparr>ts_head := 0, ts_tail := 0\<rparr>)))"

definition next_slot :: "u64 \<Rightarrow> u64" where
  "next_slot idx = (idx + 1) AND 31"

definition obsw_tm_store_enqueue ::
  "obsw_tm_store option \<Rightarrow> u8 list option \<Rightarrow> u16 \<Rightarrow> int \<times> obsw_tm_store option" where
  "obsw_tm_store_enqueue s pkt len =
    (case (s, pkt) of
       (Some st, Some p) \<Rightarrow>
         if len > 1024 then (OBSW_TM_ERR_TOO_LARGE, s)
         else if next_slot (ts_head st) = ts_tail st then (OBSW_TM_ERR_FULL, s)
         else
           let i = unat (ts_head st);
               slot = ts_slots st ! i;
               slot' = slot\<lparr>sl_data := memcpy_at (sl_data slot) 0 p (unat len), sl_len := len\<rparr>
           in (OBSW_TM_OK, Some (st\<lparr>ts_slots := (ts_slots st)[i := slot'],
                                    ts_head := next_slot (ts_head st)\<rparr>))
     | _ \<Rightarrow> (OBSW_TM_ERR_NULL, s))"

definition obsw_tm_store_dequeue ::
  "obsw_tm_store option \<Rightarrow> u8 list option \<Rightarrow> u64 \<Rightarrow> u16 option
   \<Rightarrow> int \<times> obsw_tm_store option \<times> u8 list option \<times> u16 option" where
  "obsw_tm_store_dequeue s buf buf_len out_len =
    (case (s, buf, out_len) of
       (Some st, Some b, Some _) \<Rightarrow>
         if ts_head st = ts_tail st then (OBSW_TM_ERR_EMPTY, s, buf, out_len)
         else
           let slot = ts_slots st ! unat (ts_tail st); len = sl_len slot in
           if buf_len < ucast len then (OBSW_TM_ERR_TOO_LARGE, s, buf, out_len)
           else (OBSW_TM_OK, Some (st\<lparr>ts_tail := next_slot (ts_tail st)\<rparr>),
                 Some (memcpy_at b 0 (sl_data slot) (unat len)), Some len)
     | _ \<Rightarrow> (OBSW_TM_ERR_NULL, s, buf, out_len))"

definition obsw_tm_store_empty :: "obsw_tm_store option \<Rightarrow> bool" where
  "obsw_tm_store_empty s = (case s of None \<Rightarrow> False | Some st \<Rightarrow> ts_head st = ts_tail st)"

definition obsw_tm_store_count :: "obsw_tm_store option \<Rightarrow> u64" where
  "obsw_tm_store_count s =
    (case s of None \<Rightarrow> 0 | Some st \<Rightarrow> (ts_head st - ts_tail st) AND 31)"

subsection \<open>The ring as a list of packets\<close>

definition slot_packet :: "obsw_tm_slot \<Rightarrow> u8 list" where
  "slot_packet sl = take (unat (sl_len sl)) (sl_data sl)"

definition slot_wf :: "obsw_tm_slot \<Rightarrow> bool" where
  "slot_wf sl \<longleftrightarrow> length (sl_data sl) = 1024 \<and> unat (sl_len sl) \<le> 1024"

definition store_wf :: "obsw_tm_store \<Rightarrow> bool" where
  "store_wf st \<longleftrightarrow> length (ts_slots st) = 32 \<and> list_all slot_wf (ts_slots st)
     \<and> unat (ts_head st) < 32 \<and> unat (ts_tail st) < 32"

definition store_fill :: "obsw_tm_store \<Rightarrow> nat" where
  "store_fill st = (unat (ts_head st) + 32 - unat (ts_tail st)) mod 32"

definition store_packets :: "obsw_tm_store \<Rightarrow> u8 list list" where
  "store_packets st =
    map (\<lambda>i. slot_packet (ts_slots st ! ((unat (ts_tail st) + i) mod 32))) [0..<store_fill st]"

lemma length_store_packets [simp]: "length (store_packets st) = store_fill st"
  by (simp add: store_packets_def)

lemma store_fill_less: "store_fill st < 32"
  by (simp add: store_fill_def)

lemma unat_and_31: "unat (x AND 31 :: u64) = unat x mod 32"
  unfolding and_literals unsigned_take_bit_eq by (simp add: take_bit_eq_mod)

lemma unat_next_slot: "unat i < 32 \<Longrightarrow> unat (next_slot i) = (unat i + 1) mod 32"
  by (simp add: next_slot_def unat_and_31 unat_word_ariths)

lemma ring_cases:
  assumes "h < 32" "t < (32::nat)"
  shows "(h + 32 - t) mod 32 = (if t \<le> h then h - t else h + 32 - t)"
  using assms by (auto simp: mod_if)

lemma ring_next_cases: "h < 32 \<Longrightarrow> Suc h mod 32 = (if h = 31 then 0 else Suc h)"
  by (auto simp: mod_if)

lemma ring_head:
  assumes "store_wf st"
  shows "unat (ts_head st) = (unat (ts_tail st) + store_fill st) mod 32"
  using assms by (auto simp: store_wf_def store_fill_def ring_cases mod_if)

lemma store_full_iff:
  assumes "store_wf st"
  shows "next_slot (ts_head st) = ts_tail st \<longleftrightarrow> store_fill st = 31"
proof -
  have "next_slot (ts_head st) = ts_tail st \<longleftrightarrow> (unat (ts_head st) + 1) mod 32 = unat (ts_tail st)"
    using assms by (simp add: word_unat_eq_iff unat_next_slot store_wf_def)
  then show ?thesis
    using assms by (auto simp: store_wf_def store_fill_def ring_cases ring_next_cases split: if_splits)
qed

lemma store_empty_iff:
  assumes "store_wf st"
  shows "ts_head st = ts_tail st \<longleftrightarrow> store_fill st = 0"
  using assms by (auto simp: store_wf_def store_fill_def ring_cases word_unat_eq_iff)

lemma ring_distinct:
  "i < n \<Longrightarrow> n < 32 \<Longrightarrow> t < 32 \<Longrightarrow> (t + i) mod 32 \<noteq> (t + n) mod (32::nat)"
  by (auto simp: mod_if)

text \<open>What one call of each operation does to the list.\<close>

lemma enqueue_fill:
  assumes "store_wf st" "store_fill st < 31"
  shows "store_fill (st\<lparr>ts_slots := x, ts_head := next_slot (ts_head st)\<rparr>) = store_fill st + 1"
  using assms
  by (auto simp: store_wf_def store_fill_def unat_next_slot ring_cases ring_next_cases
      split: if_splits)

lemma dequeue_fill:
  assumes "store_wf st" "store_fill st \<noteq> 0"
  shows "store_fill (st\<lparr>ts_tail := next_slot (ts_tail st)\<rparr>) = store_fill st - 1"
  using assms
  by (auto simp: store_wf_def store_fill_def unat_next_slot ring_cases ring_next_cases
      split: if_splits)

lemma store_enqueue_spec:
  assumes "store_wf st" "unat len \<le> length p" "unat len \<le> 1024" "store_fill st < 31"
  shows "\<exists>st'. obsw_tm_store_enqueue (Some st) (Some p) len = (OBSW_TM_OK, Some st')
    \<and> store_wf st' \<and> store_packets st' = store_packets st @ [take (unat len) p]"
proof -
  let ?h = "unat (ts_head st)" and ?t = "unat (ts_tail st)" and ?n = "store_fill st"
  let ?slot = "ts_slots st ! ?h"
  let ?slot' = "?slot\<lparr>sl_data := memcpy_at (sl_data ?slot) 0 p (unat len), sl_len := len\<rparr>"
  let ?st' = "st\<lparr>ts_slots := (ts_slots st)[?h := ?slot'], ts_head := next_slot (ts_head st)\<rparr>"
  have wf: "length (ts_slots st) = 32" "?h < 32" "?t < 32" "list_all slot_wf (ts_slots st)"
    using assms(1) by (simp_all add: store_wf_def)
  have slot: "slot_wf ?slot"
    using wf by (simp add: list_all_length)
  have ok: "obsw_tm_store_enqueue (Some st) (Some p) len = (OBSW_TM_OK, Some ?st')"
    using assms(3,4) store_full_iff [OF assms(1)]
    by (simp add: obsw_tm_store_enqueue_def Let_def word_less_nat_alt)
  have wf': "store_wf ?st'"
    using wf slot assms(2,3) by (auto simp: store_wf_def unat_next_slot slot_wf_def
        list_all_iff dest!: subsetD [OF set_update_subset_insert])
  have new: "slot_packet ?slot' = take (unat len) p"
    using slot assms(2,3) by (simp add: slot_packet_def slot_wf_def memcpy_at_def)
  have "store_packets ?st'
      = map (\<lambda>i. slot_packet ((ts_slots st)[?h := ?slot'] ! ((?t + i) mod 32))) [0..<?n]
        @ [slot_packet ((ts_slots st)[?h := ?slot'] ! ((?t + ?n) mod 32))]"
    unfolding store_packets_def enqueue_fill [OF assms(1,4)] by simp
  also have "map (\<lambda>i. slot_packet ((ts_slots st)[?h := ?slot'] ! ((?t + i) mod 32))) [0..<?n]
      = store_packets st"
    unfolding store_packets_def
  proof (rule map_cong)
    fix i assume "i \<in> set [0..<?n]"
    then have "(?t + i) mod 32 \<noteq> ?h"
      using ring_distinct [of i ?n ?t] ring_head [OF assms(1)] store_fill_less [of st] wf(3) by simp
    then show "slot_packet ((ts_slots st)[?h := ?slot'] ! ((?t + i) mod 32))
        = slot_packet (ts_slots st ! ((?t + i) mod 32))" by simp
  qed simp
  also have "(ts_slots st)[?h := ?slot'] ! ((?t + ?n) mod 32) = ?slot'"
    unfolding ring_head [OF assms(1), symmetric] using wf by simp
  finally have "store_packets ?st' = store_packets st @ [take (unat len) p]"
    unfolding new .
  then show ?thesis using ok wf' by blast
qed

lemma store_dequeue_spec:
  assumes "store_wf st" "store_packets st = x # xs" "length x \<le> unat n" "length x \<le> length b"
  shows "\<exists>st'. obsw_tm_store_dequeue (Some st) (Some b) n (Some l)
      = (OBSW_TM_OK, Some st', Some (memcpy_at b 0 x (length x)), Some (of_nat (length x)))
    \<and> store_wf st' \<and> store_packets st' = xs"
proof -
  let ?t = "unat (ts_tail st)" and ?n = "store_fill st"
  let ?slot = "ts_slots st ! ?t" and ?st' = "st\<lparr>ts_tail := next_slot (ts_tail st)\<rparr>"
  have wf: "length (ts_slots st) = 32" "?t < 32" "list_all slot_wf (ts_slots st)"
    using assms(1) by (simp_all add: store_wf_def)
  have n0: "?n \<noteq> 0" using length_store_packets [of st] unfolding assms(2) by auto
  have upt: "[0..<?n] = 0 # map Suc [0..<?n - 1]"
    using n0 by (simp add: map_Suc_upt upt_conv_Cons)
  have "x = slot_packet ?slot"
    and xs: "xs = map (\<lambda>i. slot_packet (ts_slots st ! ((?t + Suc i) mod 32))) [0..<?n - 1]"
    using assms(2) wf(2) unfolding store_packets_def upt by (simp_all add: comp_def)
  moreover have "slot_wf ?slot" using wf by (simp add: list_all_length)
  ultimately have x: "length x = unat (sl_len ?slot)" "x = take (length x) (sl_data ?slot)"
    by (auto simp: slot_packet_def slot_wf_def)
  have "\<not> n < ucast (sl_len ?slot)"
    using assms(3) x(1) by (simp add: word_less_nat_alt unat_ucast_u16)
  moreover have "memcpy_at b 0 (sl_data ?slot) (unat (sl_len ?slot)) = memcpy_at b 0 x (length x)"
    using x by (simp add: memcpy_at_def)
  moreover have "(of_nat (length x) :: u16) = sl_len ?slot" using x by simp
  ultimately have ok: "obsw_tm_store_dequeue (Some st) (Some b) n (Some l)
      = (OBSW_TM_OK, Some ?st', Some (memcpy_at b 0 x (length x)), Some (of_nat (length x)))"
    using n0 store_empty_iff [OF assms(1)] by (simp add: obsw_tm_store_dequeue_def Let_def)
  have "(?t + Suc i) mod 32 = ((?t + 1) mod 32 + i) mod 32" for i
    by (simp add: mod_add_left_eq)
  then have "store_packets ?st' = xs"
    unfolding store_packets_def dequeue_fill [OF assms(1) n0] xs
    using wf(2) by (simp add: unat_next_slot)
  moreover have "store_wf ?st'"
    using assms(1) by (simp add: store_wf_def unat_next_slot)
  ultimately show ?thesis using ok by blast
qed

lemma store_enqueue_refused:
  assumes "store_wf st"
  shows "1024 < unat len \<Longrightarrow>
      obsw_tm_store_enqueue (Some st) (Some p) len = (OBSW_TM_ERR_TOO_LARGE, Some st)"
    and "unat len \<le> 1024 \<Longrightarrow> store_fill st = 31 \<Longrightarrow>
      obsw_tm_store_enqueue (Some st) (Some p) len = (OBSW_TM_ERR_FULL, Some st)"
  using store_full_iff [OF assms]
  by (simp_all add: obsw_tm_store_enqueue_def word_less_nat_alt)

lemma store_enqueue_None [simp]:
  "obsw_tm_store_enqueue None p len = (OBSW_TM_ERR_NULL, None)"
  "obsw_tm_store_enqueue s None len = (OBSW_TM_ERR_NULL, s)"
  by (simp_all add: obsw_tm_store_enqueue_def split: option.split)

lemma store_dequeue_refused:
  assumes "store_wf st"
  shows "store_packets st = [] \<Longrightarrow>
      obsw_tm_store_dequeue (Some st) (Some b) n (Some l)
        = (OBSW_TM_ERR_EMPTY, Some st, Some b, Some l)"
    and "store_packets st = x # xs \<Longrightarrow> unat n < length x \<Longrightarrow>
      obsw_tm_store_dequeue (Some st) (Some b) n (Some l)
        = (OBSW_TM_ERR_TOO_LARGE, Some st, Some b, Some l)"
proof -
  show "obsw_tm_store_dequeue (Some st) (Some b) n (Some l)
      = (OBSW_TM_ERR_EMPTY, Some st, Some b, Some l)" if "store_packets st = []"
    using that length_store_packets [of st] store_empty_iff [OF assms]
    by (simp add: obsw_tm_store_dequeue_def)
  assume x: "store_packets st = x # xs" "unat n < length x"
  then have n0: "store_fill st \<noteq> 0" using length_store_packets [of st] by auto
  let ?slot = "ts_slots st ! unat (ts_tail st)"
  have "x = hd (store_packets st)" using x by simp
  also have "\<dots> = slot_packet ?slot"
    using assms n0 by (simp add: store_packets_def hd_map store_wf_def)
  finally have "length x \<le> unat (sl_len ?slot)" by (simp add: slot_packet_def)
  with x(2) have "n < ucast (sl_len ?slot)" by (simp add: word_less_nat_alt unat_ucast_u16)
  then show "obsw_tm_store_dequeue (Some st) (Some b) n (Some l)
      = (OBSW_TM_ERR_TOO_LARGE, Some st, Some b, Some l)"
    using n0 store_empty_iff [OF assms] by (simp add: obsw_tm_store_dequeue_def Let_def)
qed

lemma store_count_fill:
  assumes "store_wf st"
  shows "obsw_tm_store_count (Some st) = of_nat (store_fill st)"
proof -
  let ?h = "unat (ts_head st)" and ?t = "unat (ts_tail st)"
  have wf: "?h < 32" "?t < 32" using assms by (simp_all add: store_wf_def)
  have "unat (ts_head st - ts_tail st) mod 32 = store_fill st"
  proof (cases "?t \<le> ?h")
    case True
    with wf show ?thesis by (simp add: unat_sub_if' store_fill_def ring_cases)
  next
    case False
    with wf have "unat (ts_head st - ts_tail st) = (?h + 32 - ?t) + 32 * (2 ^ 59 - 1)"
      by (simp add: unat_sub_if')
    then show ?thesis unfolding store_fill_def by (simp only: mod_mult_self2)
  qed
  then have "unat ((ts_head st - ts_tail st) AND 31) = store_fill st"
    by (simp only: unat_and_31)
  then have "(ts_head st - ts_tail st) AND 31 = of_nat (store_fill st)"
    by (metis of_nat_unat ucast_id)
  then show ?thesis by (simp add: obsw_tm_store_count_def)
qed

lemma store_packets_length_le:
  "store_wf st \<Longrightarrow> x \<in> set (store_packets st) \<Longrightarrow> length x \<le> 1024"
  by (auto simp: store_packets_def slot_packet_def slot_wf_def store_wf_def list_all_length)

text \<open>A caller's view: enqueue a packet of up to 65535 bytes; dequeue into 1024 bytes.\<close>

definition store_enq :: "obsw_tm_store \<Rightarrow> u8 list \<Rightarrow> obsw_tm_store option" where
  "store_enq st p =
    (if 65536 \<le> length p then None
     else case obsw_tm_store_enqueue (Some st) (Some p) (of_nat (length p)) of
       (rc, st') \<Rightarrow> if rc = OBSW_TM_OK then st' else None)"

definition store_deq :: "obsw_tm_store \<Rightarrow> (u8 list \<times> obsw_tm_store) option" where
  "store_deq st =
    (case obsw_tm_store_dequeue (Some st) (Some (replicate 1024 0)) 1024 (Some 0) of
       (rc, Some st', Some b, Some l) \<Rightarrow>
         if rc = OBSW_TM_OK then Some (take (unat l) b, st') else None
     | _ \<Rightarrow> None)"

interpretation tm_fifo: bounded_fifo store_enq store_deq store_packets store_wf 31
  "\<lambda>p. length p \<le> 1024"
proof unfold_locales
  fix s and x :: "u8 list"
  assume s: "store_wf s" and x: "length x \<le> (1024::nat)" "length (store_packets s) < 31"
  have "unat (of_nat (length x) :: u16) = length x" using x(1) by (intro unat_of_nat_small) simp
  with store_enqueue_spec [OF s, of "of_nat (length x)" x] x
  show "\<exists>s'. store_enq s x = Some s' \<and> store_wf s' \<and> store_packets s' = store_packets s @ [x]"
    by (auto simp: store_enq_def)
next
  fix s and x :: "u8 list"
  assume s: "store_wf s" and x: "\<not> (length x \<le> 1024 \<and> length (store_packets s) < 31)"
  show "store_enq s x = None"
  proof (cases "length x < 65536")
    case True
    then have l: "unat (of_nat (length x) :: u16) = length x" by (intro unat_of_nat_small) simp
    show ?thesis
      using store_enqueue_refused [OF s, of "of_nat (length x)" x] x l store_fill_less [of s]
      by (cases "length x \<le> 1024") (auto simp: store_enq_def)
  qed (simp add: store_enq_def)
next
  fix s assume "store_wf s" "store_packets s = []"
  then show "store_deq s = None" by (simp add: store_deq_def store_dequeue_refused(1))
next
  fix s and x :: "u8 list" and xs
  assume s: "store_wf s" "store_packets s = x # xs"
  then have x: "length x \<le> 1024" using store_packets_length_le [of s x] by simp
  then have l: "unat (of_nat (length x) :: u16) = length x" by (intro unat_of_nat_small) simp
  have "take (length x) (memcpy_at (replicate 1024 0) 0 x (length x)) = x"
    by (simp add: memcpy_at_def)
  with store_dequeue_spec [OF s, of 1024 "replicate 1024 0" 0] x l
  show "\<exists>s'. store_deq s = Some (x, s') \<and> store_wf s' \<and> store_packets s' = xs"
    by (auto simp: store_deq_def)
qed

text \<open>The store as the loader leaves it: a static object, all zero.\<close>

definition tm_store_bss :: obsw_tm_store where
  "tm_store_bss =
    \<lparr>ts_slots = replicate 32 \<lparr>sl_data = replicate 1024 0, sl_len = 0\<rparr>, ts_head = 0, ts_tail = 0\<rparr>"

lemma tm_store_bss_wf [simp]: "store_wf tm_store_bss" "store_packets tm_store_bss = []"
  by (simp_all add: tm_store_bss_def store_wf_def slot_wf_def store_packets_def store_fill_def
      list_all_iff)

lemma store_init_wf:
  assumes "length (ts_slots st) = 32" "list_all slot_wf (ts_slots st)"
  shows "\<exists>st'. obsw_tm_store_init (Some st) = (OBSW_TM_OK, Some st') \<and> store_wf st'
    \<and> store_packets st' = []"
  using assms by (simp add: obsw_tm_store_init_def store_wf_def store_packets_def store_fill_def)

subsection \<open>Properties\<close>

text \<open>
  C17: The telemetry store is a first-in first-out queue.  Over any sequence of enqueue and
  dequeue calls, accepted or refused, the packets held at the start followed by the packets
  accepted are the packets handed out followed by those still held, in this order: no
  packet is lost, duplicated, altered or overtaken while the ring wraps, and at most 31
  packets are ever held.
\<close>

theorem store_fifo_order:
  assumes "store_wf st" and "fifo_calls store_enq store_deq ops st = (ins, outs, t)"
  shows "store_packets st @ ins = outs @ store_packets t
    \<and> store_wf t \<and> length (store_packets t) \<le> 31"
  using tm_fifo.calls_fifo [OF assms(1) _ assms(2)] store_fill_less [of st] by simp

lemma store_fifo_order_witness:
  "\<exists>ins outs t. fifo_calls store_enq store_deq [Enq [1, 2], Enq [3], Deq] tm_store_bss = (ins, outs, t)
    \<and> ins = outs @ store_packets t"
proof -
  obtain ins outs t where
    c: "fifo_calls store_enq store_deq [Enq [1, 2], Enq [3], Deq] tm_store_bss = (ins, outs, t)"
    by (metis prod_cases3)
  with store_fifo_order [OF tm_store_bss_wf(1) c] show ?thesis by auto
qed

text \<open>
  Enqueueing never fails silently and never overwrites.  A packet of more than 1024
  bytes is refused as too large, a packet for a store that holds 31 packets is refused as
  full, and either leaves the contents alone; any other packet is accepted, copied whole to
  the end of the queue, and the count the store reports is the number of packets it holds.
\<close>

theorem store_enqueue_outcome:
  assumes "store_wf st" and "unat len \<le> length p"
    and "obsw_tm_store_enqueue (Some st) (Some p) len = (rc, r)"
  shows "\<exists>t. r = Some t \<and> store_wf t
    \<and> rc = (if 1024 < unat len then OBSW_TM_ERR_TOO_LARGE
            else if length (store_packets st) = 31 then OBSW_TM_ERR_FULL else OBSW_TM_OK)
    \<and> store_packets t = store_packets st @ (if rc = OBSW_TM_OK then [take (unat len) p] else [])
    \<and> obsw_tm_store_count (Some t) = of_nat (length (store_packets t))"
proof -
  consider "1024 < unat len" | "unat len \<le> 1024" "store_fill st = 31"
    | "unat len \<le> 1024" "store_fill st < 31"
    using store_fill_less [of st] by linarith
  then show ?thesis
  proof cases
    case 3
    with store_enqueue_spec [OF assms(1,2)] assms(3) show ?thesis
      by (auto simp: store_count_fill)
  qed (use assms in \<open>auto simp: store_enqueue_refused store_count_fill\<close>)
qed

lemma store_enqueue_outcome_witness:
  "\<exists>t. snd (obsw_tm_store_enqueue (Some tm_store_bss) (Some [7, 8, 9]) 2) = Some t
    \<and> store_packets t = [[7, 8]]"
proof -
  obtain rc r where e: "obsw_tm_store_enqueue (Some tm_store_bss) (Some [7, 8, 9]) 2 = (rc, r)"
    by (metis surj_pair)
  with store_enqueue_outcome [OF tm_store_bss_wf(1) _ e] show ?thesis by auto
qed

end
