(* ===== verification/Pus_Tm.thy ===== *)
theory Pus_Tm
  imports Space_Packet Tm_Store
begin

section \<open>The PUS telemetry builder\<close>

text \<open>
  \<^verbatim>\<open>src/pus/pus_tm.c\<close>: the single entry point through which every service emits telemetry.
  The lemmas give the packet that is queued, byte for byte, on every branch, show that a
  queued packet is a space packet the receiver parses back to the same fields, and that the
  16-bit lengths wrap for 65519 or more bytes of data, where the copy overruns the local
  buffer.  No caller in the repository passes more than 1007 bytes.
\<close>

abbreviation (input) OBSW_PUS_TM_OK :: int where "OBSW_PUS_TM_OK \<equiv> 0"
abbreviation (input) OBSW_PUS_TM_ERR_NULL :: int where "OBSW_PUS_TM_ERR_NULL \<equiv> -1"
abbreviation (input) OBSW_PUS_TM_ERR_TOO_LARGE :: int where "OBSW_PUS_TM_ERR_TOO_LARGE \<equiv> -2"
abbreviation (input) OBSW_PUS_TM_ERR_STORE :: int where "OBSW_PUS_TM_ERR_STORE \<equiv> -3"
abbreviation (input) OBSW_PUS_VERSION :: u8 where "OBSW_PUS_VERSION \<equiv> 0x20"

subsection \<open>Builder\<close>

definition pus_tm_header :: "u16 \<Rightarrow> u16 \<Rightarrow> u16 \<Rightarrow> obsw_sp_primary_hdr" where
  "pus_tm_header apid seq_count pkt_data_len =
    \<lparr>sp_version = 0, sp_type = OBSW_SP_TYPE_TM, sp_sec_hdr_flag = 1, sp_apid = apid,
     sp_seq_flags = OBSW_SP_SEQ_UNSEGMENTED, sp_seq_count = seq_count, sp_data_len = pkt_data_len\<rparr>"

definition pus_tm_sec_header :: "u8 \<Rightarrow> u8 \<Rightarrow> u16 \<Rightarrow> u16 \<Rightarrow> u32 \<Rightarrow> u8 list" where
  "pus_tm_sec_header svc subsvc msg_counter dest_id timestamp =
    [OBSW_PUS_VERSION, svc, subsvc] @ be_bytes16 msg_counter @ be_bytes16 dest_id
      @ be_bytes32 timestamp"

text \<open>The local array of 1024 bytes, its unset bytes being arbitrary, as it is filled.\<close>

definition pus_tm_buf ::
  "u16 \<Rightarrow> u16 \<Rightarrow> u8 \<Rightarrow> u8 \<Rightarrow> u16 \<Rightarrow> u16 \<Rightarrow> u32 \<Rightarrow> u8 list \<Rightarrow> u16 \<Rightarrow> u16 \<Rightarrow> u8 list" where
  "pus_tm_buf apid seq_count svc subsvc msg_counter dest_id timestamp data data_len pkt_data_len =
    (let b0 = replicate 1024 0;
         b1 = (case obsw_sp_encode_primary (Some (pus_tm_header apid seq_count pkt_data_len)) (Some b0) of
                 (_, Some b) \<Rightarrow> b | (_, None) \<Rightarrow> b0);
         b2 = memcpy_at b1 6 (pus_tm_sec_header svc subsvc msg_counter dest_id timestamp) 11
     in if data_len > 0 then memcpy_at b2 17 data (unat data_len) else b2)"

definition obsw_pus_tm_build ::
  "obsw_tm_store option \<Rightarrow> u16 \<Rightarrow> u16 \<Rightarrow> u8 \<Rightarrow> u8 \<Rightarrow> u16 \<Rightarrow> u16 \<Rightarrow> u32 \<Rightarrow> u8 list option \<Rightarrow> u16
   \<Rightarrow> int \<times> obsw_tm_store option" where
  "obsw_pus_tm_build store apid seq_count svc subsvc msg_counter dest_id timestamp data data_len =
    (if store = None then (OBSW_PUS_TM_ERR_NULL, store)
     else if data_len > 0 \<and> data = None then (OBSW_PUS_TM_ERR_NULL, store)
     else
       let payload_len = 11 + data_len;
           pkt_data_len = payload_len - 1;
           total = 6 + payload_len
       in
       if total > 1024 then (OBSW_PUS_TM_ERR_TOO_LARGE, store)
       else
         let d = (case data of Some d \<Rightarrow> d | None \<Rightarrow> []);
             buf = pus_tm_buf apid seq_count svc subsvc msg_counter dest_id timestamp d data_len
                     pkt_data_len
         in case obsw_tm_store_enqueue store (Some buf) total of
              (rc, store') \<Rightarrow>
                (if rc = OBSW_TM_OK then OBSW_PUS_TM_OK else OBSW_PUS_TM_ERR_STORE, store'))"

subsection \<open>The packet that is queued\<close>

definition pus_tm_packet ::
  "u16 \<Rightarrow> u16 \<Rightarrow> u8 \<Rightarrow> u8 \<Rightarrow> u16 \<Rightarrow> u16 \<Rightarrow> u32 \<Rightarrow> u8 list \<Rightarrow> u8 list" where
  "pus_tm_packet apid seq_count svc subsvc msg_counter dest_id timestamp d =
    sp_header_bytes (pus_tm_header apid seq_count (10 + of_nat (length d)))
      @ pus_tm_sec_header svc subsvc msg_counter dest_id timestamp @ d"

lemma length_pus_tm_sec_header [simp, layout]: "length (pus_tm_sec_header a b c d e) = 11"
  by (simp add: pus_tm_sec_header_def)

lemma length_pus_tm_packet [simp, layout]: "length (pus_tm_packet a b c d e f g x) = length x + 17"
  by (simp add: pus_tm_packet_def)

lemma pus_tm_buf_bytes:
  assumes "unat data_len \<le> length d" "unat data_len \<le> 1007"
  shows "pus_tm_buf apid seq svc subsvc mc dest ts d data_len (11 + data_len - 1)
    = pus_tm_packet apid seq svc subsvc mc dest ts (take (unat data_len) d)
      @ replicate (1007 - unat data_len) 0"
proof -
  let ?h = "sp_header_bytes (pus_tm_header apid seq (11 + data_len - 1))"
  let ?s = "pus_tm_sec_header svc subsvc mc dest ts"
  have r: "replicate 1024 (0 :: u8) = replicate 6 0 @ replicate 11 0 @ replicate (unat data_len) 0
      @ replicate (1007 - unat data_len) 0"
    using assms(2) by (simp flip: replicate_add)
  have "pus_tm_buf apid seq svc subsvc mc dest ts d data_len (11 + data_len - 1)
      = ?h @ ?s @ take (unat data_len) d @ replicate (1007 - unat data_len) 0"
  proof (cases "data_len = 0")
    case True
    then show ?thesis
      unfolding pus_tm_buf_def Let_def obsw_sp_encode_primary_def r
      by (simp add: memcpy_at_start memcpy_at_middle)
  next
    case False
    have "memcpy_at ((?h @ ?s) @ replicate (unat data_len) 0 @ replicate (1007 - unat data_len) 0) 17 d
        (unat data_len) = (?h @ ?s) @ take (unat data_len) d @ replicate (1007 - unat data_len) 0"
      using assms(1) by (intro memcpy_at_middle) simp_all
    with False show ?thesis
      unfolding pus_tm_buf_def Let_def obsw_sp_encode_primary_def r
      by (simp add: memcpy_at_start memcpy_at_middle word_gt_0)
  qed
  moreover have "11 + data_len - 1 = 10 + of_nat (length (take (unat data_len) d))"
    using assms(1) by (simp add: min_absorb2)
  ultimately show ?thesis by (simp only: pus_tm_packet_def append.assoc)
qed

lemma unat_tm_total:
  fixes data_len :: u16
  assumes "unat data_len \<le> 1007"
  shows "unat (6 + (11 + data_len)) = unat data_len + 17"
proof -
  have "unat (6 + (11 + data_len)) = unat (17 + data_len)" by simp
  also have "\<dots> = unat data_len + 17"
    using assms by (subst unat_add_small) simp_all
  finally show ?thesis .
qed

text \<open>Every branch of the builder, for data that fits a packet.\<close>

lemma pus_tm_build_fits:
  assumes "store_wf st" "unat data_len \<le> length d" "unat data_len \<le> 1007" "length (store_packets st) < 31"
  shows "\<exists>st'. obsw_pus_tm_build (Some st) apid seq svc subsvc mc dest ts (Some d) data_len
      = (OBSW_PUS_TM_OK, Some st')
    \<and> store_wf st'
    \<and> store_packets st' = store_packets st
        @ [pus_tm_packet apid seq svc subsvc mc dest ts (take (unat data_len) d)]"
proof -
  let ?buf = "pus_tm_buf apid seq svc subsvc mc dest ts d data_len (11 + data_len - 1)"
  let ?total = "6 + (11 + data_len)"
  note t = unat_tm_total [OF assms(3)] and b = pus_tm_buf_bytes [OF assms(2,3)]
  have l: "length (take (unat data_len) d) = unat data_len" using assms(2) by simp
  have "unat ?total \<le> length ?buf" "unat ?total \<le> 1024"
    unfolding b t using assms(3) l by simp_all
  then obtain st' where e:
    "obsw_tm_store_enqueue (Some st) (Some ?buf) ?total = (OBSW_TM_OK, Some st')" "store_wf st'"
    "store_packets st' = store_packets st @ [take (unat ?total) ?buf]"
    using store_enqueue_spec [OF assms(1), of ?total ?buf] assms(4) by auto
  have "\<not> ?total > 1024" using assms(3) t by (simp add: word_less_nat_alt)
  with e have "obsw_pus_tm_build (Some st) apid seq svc subsvc mc dest ts (Some d) data_len
      = (OBSW_PUS_TM_OK, Some st')"
    by (simp only: obsw_pus_tm_build_def Let_def option.distinct option.case prod.case simp_thms
        if_False if_True)
  moreover have "take (unat ?total) ?buf
      = pus_tm_packet apid seq svc subsvc mc dest ts (take (unat data_len) d)"
    unfolding b t using l by simp
  ultimately show ?thesis using e by auto
qed

lemma pus_tm_build_full:
  assumes "store_wf st" "unat data_len \<le> 1007" "length (store_packets st) = 31"
  shows "obsw_pus_tm_build (Some st) apid seq svc subsvc mc dest ts (Some d) data_len
    = (OBSW_PUS_TM_ERR_STORE, Some st)"
proof -
  note t = unat_tm_total [OF assms(2)]
  have "\<not> (6 + (11 + data_len)) > 1024" "unat (6 + (11 + data_len)) \<le> 1024"
    using assms(2) t by (simp_all only: word_less_nat_alt) simp_all
  then show ?thesis
    using store_enqueue_refused(2) [OF assms(1)] assms(3)
    by (simp only: obsw_pus_tm_build_def Let_def) simp
qed

lemma pus_tm_build_NULL [simp]:
  "obsw_pus_tm_build None apid seq svc subsvc mc dest ts d n = (OBSW_PUS_TM_ERR_NULL, None)"
  by (simp add: obsw_pus_tm_build_def)

lemma pus_tm_build_no_data:
  "obsw_pus_tm_build s apid seq svc subsvc mc dest ts None 0
    = obsw_pus_tm_build s apid seq svc subsvc mc dest ts (Some []) 0"
  by (simp add: obsw_pus_tm_build_def)

subsection \<open>The store behind a pointer\<close>

text \<open>
  The services hold a pointer to the store that may be \<open>NULL\<close>; what they rely on is this
  invariant and this list of queued packets.
\<close>

definition tm_ok :: "obsw_tm_store option \<Rightarrow> bool" where
  "tm_ok s = (case s of None \<Rightarrow> True | Some st \<Rightarrow> store_wf st)"

definition tm_queue :: "obsw_tm_store option \<Rightarrow> u8 list list" where
  "tm_queue s = (case s of None \<Rightarrow> [] | Some st \<Rightarrow> store_packets st)"

text \<open>The return code of an emission into \<open>s\<close>, and what it adds to the queue.\<close>

definition tm_emit_rc :: "obsw_tm_store option \<Rightarrow> int" where
  "tm_emit_rc s =
    (if s = None then OBSW_PUS_TM_ERR_NULL
     else if length (tm_queue s) < 31 then OBSW_PUS_TM_OK else OBSW_PUS_TM_ERR_STORE)"

definition tm_emit :: "u8 list \<Rightarrow> obsw_tm_store option \<Rightarrow> u8 list list" where
  "tm_emit p s = tm_queue s @ (if tm_emit_rc s = OBSW_PUS_TM_OK then [p] else [])"

lemma tm_simps [simp]:
  "tm_ok None" "tm_queue None = []" "tm_emit_rc None = OBSW_PUS_TM_ERR_NULL"
  "tm_ok (Some st) = store_wf st" "tm_queue (Some st) = store_packets st"
  by (simp_all add: tm_ok_def tm_queue_def tm_emit_rc_def)

lemma tm_queue_length: "length (tm_queue s) \<le> 31"
  using store_fill_less [of "the s"] by (cases s) simp_all

lemma tm_build_effect:
  assumes "tm_ok s" "unat data_len \<le> length d" "unat data_len \<le> 1007"
  obtains s' where "obsw_pus_tm_build s apid seq svc subsvc mc dest ts (Some d) data_len
      = (tm_emit_rc s, s')"
    and "tm_ok s'" and "s' = None \<longleftrightarrow> s = None"
    and "tm_queue s' = tm_emit (pus_tm_packet apid seq svc subsvc mc dest ts (take (unat data_len) d)) s"
proof (cases s)
  case None
  then show ?thesis by (intro that [of None]) (simp_all add: tm_emit_def)
next
  case (Some st)
  show ?thesis
  proof (cases "length (store_packets st) < 31")
    case True
    obtain st' where "obsw_pus_tm_build (Some st) apid seq svc subsvc mc dest ts (Some d) data_len
        = (OBSW_PUS_TM_OK, Some st')" "store_wf st'"
      "store_packets st' = store_packets st
        @ [pus_tm_packet apid seq svc subsvc mc dest ts (take (unat data_len) d)]"
      using pus_tm_build_fits [OF _ assms(2,3) True, of apid seq svc subsvc mc dest ts] assms(1) Some
      by auto
    with True Some show ?thesis
      by (intro that [of "Some st'"]) (simp_all add: tm_emit_def tm_emit_rc_def)
  next
    case False
    then have "length (store_packets st) = 31" using store_fill_less [of st] by simp
    with assms Some pus_tm_build_full [of st data_len] show ?thesis
      by (intro that [of "Some st"]) (simp_all add: tm_emit_def tm_emit_rc_def)
  qed
qed

text \<open>The packet the ground receives.\<close>

lemma pus_tm_packet_parse:
  assumes "length d \<le> 1007"
  shows "obsw_sp_parse (Some (pus_tm_packet apid seq svc subsvc mc dest ts d))
      (of_nat (length d + 17) :: 64 word) (Some p) =
    (OBSW_SP_OK, Some \<lparr>sp_hdr = sp_hdr_trunc (pus_tm_header apid seq (10 + of_nat (length d))),
       sp_payload = Some (pus_tm_sec_header svc subsvc mc dest ts @ d),
       sp_payload_len = 11 + of_nat (length d)\<rparr>)"
proof -
  let ?b = "pus_tm_packet apid seq svc subsvc mc dest ts d" and ?n = "of_nat (length d + 17) :: 64 word"
  have f: "sp_header_fields ?b = sp_hdr_trunc (pus_tm_header apid seq (10 + of_nat (length d)))"
    unfolding pus_tm_packet_def by (rule sp_header_fields_bytes)
  have d: "drop 6 ?b = pus_tm_sec_header svc subsvc mc dest ts @ d"
    by (simp add: pus_tm_packet_def)
  have "unat (of_nat (length d) :: u16) = length d"
    using assms by (intro unat_of_nat_small) simp
  then have "unat (10 + of_nat (length d) :: u16) = 10 + length d"
    using assms by (subst unat_add_small) simp_all
  moreover have n: "unat ?n = length d + 17"
    using assms by (intro unat_of_nat_small) simp
  ultimately have "\<not> ?n < obsw_sp_total_len (10 + of_nat (length d))"
    by (simp add: word_less_nat_alt unat_total_len)
  moreover have "\<not> ?n < 6" using n by (simp only: word_less_nat_alt) simp
  ultimately show ?thesis
    by (simp only: obsw_sp_parse_def obsw_sp_decode_primary_def Let_def f d option.case prod.case
        if_False) (simp add: sp_hdr_trunc_def pus_tm_header_def)
qed

text \<open>
  Where the lengths wrap: from 65519 bytes of data on, the length check passes and the copy
  leaves the local array.
\<close>

lemma pus_tm_build_overrun:
  assumes "65519 \<le> unat data_len" "unat data_len \<le> length d"
  shows "\<not> 6 + (11 + data_len) > 1024
    \<and> 1024 < length (pus_tm_buf apid seq svc subsvc mc dest ts d data_len (11 + data_len - 1))"
proof
  have "unat (17 + data_len) \<le> 16"
    using assms(1) u16_less_65536 [of data_len] by (simp add: unat_plus_if')
  then show "\<not> 6 + (11 + data_len) > 1024" by (simp add: word_less_nat_alt)
  have nz: "data_len \<noteq> 0" using assms(1) by auto
  let ?b1 = "memcpy_at (replicate 1024 0) 0 (sp_header_bytes (pus_tm_header apid seq (11 + data_len - 1))) 6"
  have "length (memcpy_at ?b1 6 (pus_tm_sec_header svc subsvc mc dest ts) 11) = 1024"
    by simp
  with nz show "1024 < length (pus_tm_buf apid seq svc subsvc mc dest ts d data_len (11 + data_len - 1))"
    unfolding pus_tm_buf_def Let_def obsw_sp_encode_primary_def
    using assms length_memcpy_at_overrun [of 17 "memcpy_at ?b1 6 (pus_tm_sec_header svc subsvc mc dest ts) 11"
        "unat data_len" d]
    by (simp add: word_gt_0)
qed

text \<open>
  The bytes of a report, by their places in the standard, as numbers: version 0, telemetry,
  secondary header and the low 11 bits of the APID; unsegmented and the low 14 bits of the
  sequence count; the length of what follows, less one; PUS version 2; service and subservice;
  message counter; destination; time; data.
\<close>

definition pus_tm_layout ::
  "u16 \<Rightarrow> u16 \<Rightarrow> u8 \<Rightarrow> u8 \<Rightarrow> u16 \<Rightarrow> u16 \<Rightarrow> u32 \<Rightarrow> u8 list \<Rightarrow> u8 list \<Rightarrow> bool" where
  "pus_tm_layout apid seq svc subsvc mc dest ts d pkt \<longleftrightarrow> length pkt = 17 + length d
    \<and> push_bit 8 (ucast (pkt ! 0)) OR ucast (pkt ! 1) = (0x0800 OR (apid AND 0x07FF))
    \<and> push_bit 8 (ucast (pkt ! 2)) OR ucast (pkt ! 3) = (0xC000 OR (seq AND 0x3FFF))
    \<and> push_bit 8 (ucast (pkt ! 4)) OR ucast (pkt ! 5) = (of_nat (length d + 10) :: u16)
    \<and> pkt ! 6 = 0x20 \<and> pkt ! 7 = svc \<and> pkt ! 8 = subsvc
    \<and> push_bit 8 (ucast (pkt ! 9)) OR ucast (pkt ! 10) = mc
    \<and> push_bit 8 (ucast (pkt ! 11)) OR ucast (pkt ! 12) = dest
    \<and> push_bit 24 (ucast (pkt ! 13)) OR push_bit 16 (ucast (pkt ! 14)) OR push_bit 8 (ucast (pkt ! 15)) OR ucast (pkt ! 16) = ts
    \<and> drop 17 pkt = d"

lemma be16_split: "push_bit 8 (ucast (ucast (drop_bit 8 x) :: u8)) OR ucast (ucast (x AND 0xFF) :: u8) = (x :: u16)"
  using be16_be_bytes16 [of x "[]"] by (simp add: obsw_be16_def be_bytes16_def)

lemma pus_tm_packet_layout: "pus_tm_layout apid seq svc subsvc mc dest ts d (pus_tm_packet apid seq svc subsvc mc dest ts d)"
proof -
  have h: "push_bit 8 (ucast (0x08 OR ucast (drop_bit 8 x AND 0x07) :: u8)) OR ucast (ucast (x AND 0xFF) :: u8)
      = (0x0800 OR (x AND 0x07FF) :: u16)"
    "push_bit 8 (ucast (0xC0 OR ucast (drop_bit 8 x AND 0x3F) :: u8)) OR ucast (ucast (x AND 0xFF) :: u8)
      = (0xC000 OR (x AND 0x3FFF) :: u16)" for x :: u16
    by (simp add: and_literals; rule u16_bitsI; simp only: expand_bits; elim disjE; simp add: bit_simps)+
  have ts: "push_bit 24 (ucast (ucast (drop_bit 24 ts) :: u8)) OR push_bit 16 (ucast (ucast (drop_bit 16 ts) :: u8))
      OR push_bit 8 (ucast (ucast (drop_bit 8 ts) :: u8)) OR ucast (ucast (ts AND 0xFF) :: u8) = ts"
    using be32_be_bytes32 [of ts "[]"] by (simp add: obsw_be32_def be_bytes32_def)
  define n :: u16 where "n = of_nat (length d) + 10"
  show ?thesis
    unfolding pus_tm_layout_def pus_tm_packet_def sp_header_bytes_def pus_tm_header_def pus_tm_sec_header_def
      be_bytes16_def be_bytes32_def
    using h(1) [of apid] h(2) [of seq] be16_split [of n] be16_split [of mc] be16_split [of dest] ts
    by (simp add: n_def add.commute)
qed

lemma pus_tm_build_too_large:
  assumes "1007 < unat data_len" "unat data_len < 65519"
  shows "obsw_pus_tm_build (Some st) apid seq svc subsvc mc dest ts (Some d) data_len = (OBSW_PUS_TM_ERR_TOO_LARGE, Some st)"
proof -
  have "unat (6 + (11 + data_len)) = unat data_len + 17"
    using assms(2) unat_add_small [of 17 data_len] by simp
  then have "6 + (11 + data_len) > 1024" using assms(1) by (simp only: word_less_nat_alt) simp
  then show ?thesis by (simp only: obsw_pus_tm_build_def Let_def) simp
qed

subsection \<open>Properties\<close>

text \<open>
  C19: Telemetry reaches the ground as it was meant.  Building a report with \<open>data_len\<close> bytes of
  data, less than 65519 (from there on the 16-bit sum of the lengths wraps): over 1007 bytes it
  is refused as too large; if the store is full, as an error of the store; both leave the store
  as it was.  Otherwise one packet is queued behind the others that has each field at its
  place, byte by byte as the standard lays it out, and behind them exactly the data; and the
  space packet parser reads from it version 0, telemetry, a secondary header, the APID, the
  unsegmented sequence count and all bytes from the seventh on.
\<close>

theorem pus_tm_build_received:
  assumes "store_wf st" and "unat data_len \<le> length d" and "unat data_len < 65519"
    and "obsw_pus_tm_build (Some st) apid seq svc subsvc mc dest ts (Some d) data_len = (rc, r)"
  shows "if 1007 < unat data_len then rc = OBSW_PUS_TM_ERR_TOO_LARGE \<and> r = Some st
    else if length (store_packets st) = 31 then rc = OBSW_PUS_TM_ERR_STORE \<and> r = Some st
    else rc = OBSW_PUS_TM_OK
      \<and> (\<exists>st' pkt. r = Some st' \<and> store_wf st' \<and> store_packets st' = store_packets st @ [pkt]
           \<and> pus_tm_layout apid seq svc subsvc mc dest ts (take (unat data_len) d) pkt
           \<and> obsw_sp_parse (Some pkt) (of_nat (length pkt) :: 64 word) (Some p) =
               (OBSW_SP_OK, Some \<lparr>sp_hdr = \<lparr>sp_version = 0, sp_type = 0, sp_sec_hdr_flag = 1, sp_apid = apid AND 0x07FF,
                   sp_seq_flags = 3, sp_seq_count = seq AND 0x3FFF, sp_data_len = 10 + data_len\<rparr>,
                 sp_payload = Some (drop 6 pkt), sp_payload_len = 11 + data_len\<rparr>))"
proof -
  consider (large) "1007 < unat data_len" | (full) "unat data_len \<le> 1007" "length (store_packets st) = 31"
    | (fits) "unat data_len \<le> 1007" "length (store_packets st) < 31"
    using store_fill_less [of st] by fastforce
  then show ?thesis
  proof cases
    case large
    then show ?thesis using pus_tm_build_too_large [OF large assms(3)] assms(4) by auto
  next
    case full
    then show ?thesis using pus_tm_build_full [OF assms(1) full] assms(4) by auto
  next
    case fits
    let ?d = "take (unat data_len) d"
    let ?pkt = "pus_tm_packet apid seq svc subsvc mc dest ts ?d"
    have l: "length ?d = unat data_len" using assms(2) by simp
    obtain st' where st': "rc = OBSW_PUS_TM_OK" "r = Some st'" "store_wf st'"
      "store_packets st' = store_packets st @ [?pkt]"
      using pus_tm_build_fits [OF assms(1,2) fits, of apid seq svc subsvc mc dest ts] assms(4) by auto
    have "obsw_sp_parse (Some ?pkt) (of_nat (length ?pkt) :: 64 word) (Some p) =
        (OBSW_SP_OK, Some \<lparr>sp_hdr = sp_hdr_trunc (pus_tm_header apid seq (10 + data_len)),
          sp_payload = Some (pus_tm_sec_header svc subsvc mc dest ts @ ?d),
          sp_payload_len = 11 + data_len\<rparr>)"
      using pus_tm_packet_parse [of ?d apid seq svc subsvc mc dest ts p] fits(1) l
      by (simp only: length_pus_tm_packet l) simp
    moreover have "drop 6 ?pkt = pus_tm_sec_header svc subsvc mc dest ts @ ?d" by (simp add: pus_tm_packet_def)
    moreover have "sp_hdr_trunc (pus_tm_header apid seq (10 + data_len))
        = \<lparr>sp_version = 0, sp_type = 0, sp_sec_hdr_flag = 1, sp_apid = apid AND 0x07FF,
            sp_seq_flags = 3, sp_seq_count = seq AND 0x3FFF, sp_data_len = 10 + data_len\<rparr>"
      by (simp add: sp_hdr_trunc_def pus_tm_header_def and_literals)
    ultimately show ?thesis using st' fits pus_tm_packet_layout [of apid seq svc subsvc mc dest ts ?d] by auto
  qed
qed

lemma pus_tm_build_received_witness:
  "\<exists>st' pkt. snd (obsw_pus_tm_build (Some tm_store_bss) 0x100 5 17 2 1 0 99 (Some [1, 2]) 2) = Some st'
    \<and> store_packets st' = [pkt] \<and> pus_tm_layout 0x100 5 17 2 1 0 99 [1, 2] pkt"
proof -
  obtain rc r where b: "obsw_pus_tm_build (Some tm_store_bss) 0x100 5 17 2 1 0 99 (Some [1, 2]) 2 = (rc, r)"
    by (metis surj_pair)
  have "store_wf tm_store_bss" "unat (2 :: u16) \<le> length [1, 2 :: u8]" "unat (2 :: u16) < 65519" by simp_all
  from pus_tm_build_received [OF this b, of sp_packet_uninit] b show ?thesis by auto
qed

end
