(* ===== verification/Dispatcher.thy ===== *)
theory Dispatcher
  imports Space_Packet
begin

section \<open>The TC dispatcher\<close>

text \<open>
  \<^verbatim>\<open>src/tc/dispatcher.c\<close> and \<^verbatim>\<open>include/obsw/tc/dispatcher.h\<close>: the parsed command that the
  services receive, the routing table, the gate and the loop that picks the handler.

  Handlers, responder and gate are function pointers with an opaque context in the code;
  here they are functions on a world \<open>'w\<close> that holds all the contexts, so that a handler is
  \<open>tc \<Rightarrow> responder \<Rightarrow> 'w \<Rightarrow> int \<times> 'w\<close>.  The lemmas give the route that is chosen without the
  loop, what a handler may assume of its command, and, in the locale \<open>dispatch_inv\<close>, that
  what every handler and the responder keep is kept by any number of dispatched frames.
\<close>

abbreviation (input) OBSW_TC_OK :: int where "OBSW_TC_OK \<equiv> 0"
abbreviation (input) OBSW_TC_ERR_NULL :: int where "OBSW_TC_ERR_NULL \<equiv> -1"
abbreviation (input) OBSW_TC_ERR_NO_ROUTE :: int where "OBSW_TC_ERR_NO_ROUTE \<equiv> -2"
abbreviation (input) OBSW_TC_ERR_HANDLER :: int where "OBSW_TC_ERR_HANDLER \<equiv> -3"
abbreviation (input) OBSW_TC_ERR_PARSE :: int where "OBSW_TC_ERR_PARSE \<equiv> -4"
abbreviation (input) OBSW_TC_ERR_GATED :: int where "OBSW_TC_ERR_GATED \<equiv> -5"

abbreviation (input) OBSW_TC_ACK_REJECT :: u8 where "OBSW_TC_ACK_REJECT \<equiv> 0x80"
abbreviation (input) OBSW_TC_REJECT_SVC :: u8 where "OBSW_TC_REJECT_SVC \<equiv> 0x10"
abbreviation (input) OBSW_TC_REJECT_SUBSVC :: u8 where "OBSW_TC_REJECT_SUBSVC \<equiv> 0x20"
abbreviation (input) OBSW_TC_REJECT_GATED :: u8 where "OBSW_TC_REJECT_GATED \<equiv> 0x40"

abbreviation (input) PUS_TC_SEC_HDR_LEN :: u16 where "PUS_TC_SEC_HDR_LEN \<equiv> 5"

record obsw_tc =
  tc_apid :: u16
  tc_service :: u8
  tc_subservice :: u8
  tc_seq_count :: u16
  tc_user_data :: "u8 list option"
  tc_user_data_len :: u16

type_synonym 'w tc_responder = "u8 \<Rightarrow> obsw_tc \<Rightarrow> 'w \<Rightarrow> 'w"
type_synonym 'w tc_handler = "obsw_tc \<Rightarrow> 'w tc_responder \<Rightarrow> 'w \<Rightarrow> int \<times> 'w"
type_synonym 'w tc_gate = "obsw_tc \<Rightarrow> 'w \<Rightarrow> bool"

record 'w obsw_tc_route =
  rt_apid :: u16
  rt_service :: u8
  rt_subservice :: u8
  rt_handler :: "'w tc_handler"

record 'w obsw_tc_dispatcher =
  d_table :: "'w obsw_tc_route list"
  d_table_len :: u64
  d_responder :: "'w tc_responder"
  d_gate :: "'w tc_gate option"

subsection \<open>Operations\<close>

definition obsw_tc_dispatcher_init ::
  "'w obsw_tc_dispatcher option \<Rightarrow> 'w obsw_tc_route list option \<Rightarrow> u64 \<Rightarrow> 'w tc_responder option
   \<Rightarrow> int \<times> 'w obsw_tc_dispatcher option" where
  "obsw_tc_dispatcher_init d table table_len responder =
    (case (d, table, responder) of
       (Some _, Some t, Some r) \<Rightarrow>
         (OBSW_TC_OK,
          Some \<lparr>d_table = t, d_table_len = table_len, d_responder = r, d_gate = None\<rparr>)
     | _ \<Rightarrow> (OBSW_TC_ERR_NULL, d))"

definition obsw_tc_dispatcher_set_gate ::
  "'w obsw_tc_dispatcher option \<Rightarrow> 'w tc_gate option \<Rightarrow> int \<times> 'w obsw_tc_dispatcher option" where
  "obsw_tc_dispatcher_set_gate d gate =
    (case d of None \<Rightarrow> (OBSW_TC_ERR_NULL, None)
     | Some di \<Rightarrow> (OBSW_TC_OK, Some (di\<lparr>d_gate := gate\<rparr>)))"

text \<open>The bytes a pointer into the packet leads to; the parser never leaves it \<open>NULL\<close> on success.\<close>

definition sp_payload_bytes :: "obsw_sp_packet \<Rightarrow> u8 list" where
  "sp_payload_bytes p = (case sp_payload p of Some b \<Rightarrow> b | None \<Rightarrow> [])"

definition obsw_tc_packet_check ::
  "u8 list option \<Rightarrow> 's::len word \<Rightarrow> u8 option \<Rightarrow> int \<times> u8 option" where
  "obsw_tc_packet_check pkt len service =
    (case pkt of None \<Rightarrow> (OBSW_TC_ERR_NULL, service)
     | Some b \<Rightarrow>
         (case obsw_sp_parse (Some b) len (Some sp_packet_uninit) of
            (rc, sp') \<Rightarrow>
              let sp = (case sp' of Some s \<Rightarrow> s | None \<Rightarrow> sp_packet_uninit) in
              if rc \<noteq> OBSW_SP_OK \<or> sp_type (sp_hdr sp) \<noteq> OBSW_SP_TYPE_TC
                 \<or> sp_sec_hdr_flag (sp_hdr sp) = 0 \<or> sp_payload_len sp < PUS_TC_SEC_HDR_LEN
              then (OBSW_TC_ERR_PARSE, service)
              else (OBSW_TC_OK, map_option (\<lambda>_. sp_payload_bytes sp ! 1) service)))"

definition tc_of_packet :: "obsw_sp_packet \<Rightarrow> obsw_tc" where
  "tc_of_packet pkt =
    \<lparr>tc_apid = sp_apid (sp_hdr pkt),
     tc_service = sp_payload_bytes pkt ! 1,
     tc_subservice = sp_payload_bytes pkt ! 2,
     tc_seq_count = sp_seq_count (sp_hdr pkt),
     tc_user_data = (if sp_payload_len pkt > PUS_TC_SEC_HDR_LEN
                     then Some (drop 5 (sp_payload_bytes pkt)) else None),
     tc_user_data_len = (if sp_payload_len pkt > PUS_TC_SEC_HDR_LEN
                         then sp_payload_len pkt - PUS_TC_SEC_HDR_LEN else 0)\<rparr>"


text \<open>The lookup loop: the route it stops at, if any, and the reason for a reject so far.\<close>

fun tc_route_scan ::
  "'w obsw_tc_route list \<Rightarrow> obsw_tc \<Rightarrow> u8 \<Rightarrow> 'w obsw_tc_route option \<times> u8" where
  "tc_route_scan [] tc reason = (None, reason)"
| "tc_route_scan (r # rs) tc reason =
    (if (rt_apid r \<noteq> 0xFFFF \<and> rt_apid r \<noteq> tc_apid tc) \<or> rt_service r \<noteq> tc_service tc
     then tc_route_scan rs tc reason
     else if rt_subservice r = tc_subservice tc then (Some r, reason)
     else tc_route_scan rs tc OBSW_TC_REJECT_SUBSVC)"

definition obsw_tc_dispatcher_feed ::
  "'w obsw_tc_dispatcher option \<Rightarrow> u8 list option \<Rightarrow> 's::len word \<Rightarrow> 'w \<Rightarrow> int \<times> 'w" where
  "obsw_tc_dispatcher_feed d frame frame_len w =
    (case (d, frame) of
       (Some di, Some b) \<Rightarrow>
         (case obsw_sp_parse (Some b) frame_len (Some sp_packet_uninit) of
            (rc, pkt') \<Rightarrow>
              let pkt = (case pkt' of Some p \<Rightarrow> p | None \<Rightarrow> sp_packet_uninit) in
              if rc \<noteq> OBSW_SP_OK then (OBSW_TC_ERR_PARSE, w)
              else if sp_sec_hdr_flag (sp_hdr pkt) = 0 \<or> sp_payload_len pkt < PUS_TC_SEC_HDR_LEN
              then (OBSW_TC_ERR_PARSE, w)
              else
                let tc = tc_of_packet pkt in
                if (case d_gate di of Some g \<Rightarrow> \<not> g tc w | None \<Rightarrow> False)
                then (OBSW_TC_ERR_GATED,
                      d_responder di (OBSW_TC_ACK_REJECT OR OBSW_TC_REJECT_GATED) tc w)
                else
                  (case tc_route_scan (take (unat (d_table_len di)) (d_table di)) tc OBSW_TC_REJECT_SVC of
                     (Some r, _) \<Rightarrow>
                       (case rt_handler r tc (d_responder di) w of
                          (rc, w') \<Rightarrow> (if rc = 0 then OBSW_TC_OK else OBSW_TC_ERR_HANDLER, w'))
                   | (None, reason) \<Rightarrow>
                       (OBSW_TC_ERR_NO_ROUTE,
                        d_responder di (OBSW_TC_ACK_REJECT OR reason) tc w)))
     | _ \<Rightarrow> (OBSW_TC_ERR_NULL, w))"

subsection \<open>The route that is chosen\<close>

definition route_service :: "obsw_tc \<Rightarrow> 'w obsw_tc_route \<Rightarrow> bool" where
  "route_service tc r \<longleftrightarrow> (rt_apid r = 0xFFFF \<or> rt_apid r = tc_apid tc) \<and> rt_service r = tc_service tc"

definition route_match :: "obsw_tc \<Rightarrow> 'w obsw_tc_route \<Rightarrow> bool" where
  "route_match tc r \<longleftrightarrow> route_service tc r \<and> rt_subservice r = tc_subservice tc"

lemma route_scan_fst:
  "fst (tc_route_scan rs tc reason) = map_option ((!) rs) (find_index (route_match tc) rs)"
  by (induction rs arbitrary: reason)
    (auto simp: route_match_def route_service_def option.map_comp comp_def)

lemma route_scan_reason:
  "find_index (route_match tc) rs = None \<Longrightarrow>
   snd (tc_route_scan rs tc reason)
     = (if \<exists>r \<in> set rs. route_service tc r then OBSW_TC_REJECT_SUBSVC else reason)"
  by (induction rs arbitrary: reason)
    (auto simp: route_match_def route_service_def split: if_splits)

lemma route_scan_eq:
  "tc_route_scan rs tc OBSW_TC_REJECT_SVC =
    (case find_index (route_match tc) rs of
       Some i \<Rightarrow> (Some (rs ! i), snd (tc_route_scan rs tc OBSW_TC_REJECT_SVC))
     | None \<Rightarrow> (None, if \<exists>r \<in> set rs. route_service tc r then OBSW_TC_REJECT_SUBSVC
                     else OBSW_TC_REJECT_SVC))"
  using route_scan_fst [of rs tc OBSW_TC_REJECT_SVC] route_scan_reason [of tc rs OBSW_TC_REJECT_SVC]
  by (cases "tc_route_scan rs tc OBSW_TC_REJECT_SVC") (auto split: option.split)

subsection \<open>The command a frame carries\<close>

text \<open>The command that reaches gate and handlers, \<open>None\<close> for a frame that is dropped.\<close>

definition feed_tc :: "u8 list \<Rightarrow> 's::len word \<Rightarrow> obsw_tc option" where
  "feed_tc frame n =
    (case obsw_sp_parse (Some frame) n (Some sp_packet_uninit) of
       (rc, Some p) \<Rightarrow>
         if rc = OBSW_SP_OK \<and> sp_sec_hdr_flag (sp_hdr p) \<noteq> 0 \<and> \<not> sp_payload_len p < PUS_TC_SEC_HDR_LEN
         then Some (tc_of_packet p) else None
     | _ \<Rightarrow> None)"

text \<open>What gate, routes and responder then do with it, by the first matching route.\<close>

definition tc_dispatch :: "'w obsw_tc_dispatcher \<Rightarrow> obsw_tc \<Rightarrow> 'w \<Rightarrow> int \<times> 'w" where
  "tc_dispatch di tc w =
    (if \<exists>g. d_gate di = Some g \<and> \<not> g tc w
     then (OBSW_TC_ERR_GATED, d_responder di (OBSW_TC_ACK_REJECT OR OBSW_TC_REJECT_GATED) tc w)
     else
       let rs = take (unat (d_table_len di)) (d_table di) in
       case find_index (route_match tc) rs of
         Some i \<Rightarrow> (case rt_handler (rs ! i) tc (d_responder di) w of
                      (rc, w') \<Rightarrow> (if rc = 0 then OBSW_TC_OK else OBSW_TC_ERR_HANDLER, w'))
       | None \<Rightarrow> (OBSW_TC_ERR_NO_ROUTE,
           d_responder di (OBSW_TC_ACK_REJECT OR
             (if \<exists>r \<in> set rs. route_service tc r then OBSW_TC_REJECT_SUBSVC else OBSW_TC_REJECT_SVC))
             tc w))"

lemma sp_parse_Some: "\<exists>q. snd (obsw_sp_parse (Some b) n (Some p)) = Some q"
  by (simp add: obsw_sp_parse_def Let_def split: prod.split)

lemma feed_eq:
  "obsw_tc_dispatcher_feed (Some di) (Some frame) n w =
    (case feed_tc frame n of None \<Rightarrow> (OBSW_TC_ERR_PARSE, w) | Some tc \<Rightarrow> tc_dispatch di tc w)"
proof -
  obtain rc q where p: "obsw_sp_parse (Some frame) n (Some sp_packet_uninit) = (rc, Some q)"
    using sp_parse_Some [of frame n sp_packet_uninit] by (metis prod.collapse)
  let ?rs = "take (unat (d_table_len di)) (d_table di)" and ?tc = "tc_of_packet q"
  show ?thesis
  proof (cases "rc = OBSW_SP_OK \<and> sp_sec_hdr_flag (sp_hdr q) \<noteq> 0 \<and> \<not> sp_payload_len q < 5")
    case False
    with p show ?thesis by (auto simp: obsw_tc_dispatcher_feed_def feed_tc_def)
  next
    case True
    with p have f: "feed_tc frame n = Some ?tc" by (simp add: feed_tc_def)
    have "obsw_tc_dispatcher_feed (Some di) (Some frame) n w
      = (if (case d_gate di of Some g \<Rightarrow> \<not> g ?tc w | None \<Rightarrow> False)
         then (OBSW_TC_ERR_GATED, d_responder di (OBSW_TC_ACK_REJECT OR OBSW_TC_REJECT_GATED) ?tc w)
         else (case tc_route_scan ?rs ?tc OBSW_TC_REJECT_SVC of
                 (Some r, _) \<Rightarrow>
                   (case rt_handler r ?tc (d_responder di) w of
                      (rc, w') \<Rightarrow> (if rc = 0 then OBSW_TC_OK else OBSW_TC_ERR_HANDLER, w'))
               | (None, reason) \<Rightarrow>
                   (OBSW_TC_ERR_NO_ROUTE, d_responder di (OBSW_TC_ACK_REJECT OR reason) ?tc w)))"
      using p True by (simp add: obsw_tc_dispatcher_feed_def Let_def)
    also have "\<dots> = tc_dispatch di ?tc w"
      unfolding tc_dispatch_def Let_def by (subst route_scan_eq) (auto split: option.split)
    finally show ?thesis by (simp add: f)
  qed
qed

text \<open>What every handler may assume of the command it is given.\<close>

definition tc_wf :: "obsw_tc \<Rightarrow> bool" where
  "tc_wf tc \<longleftrightarrow>
    (case tc_user_data tc of None \<Rightarrow> tc_user_data_len tc = 0
     | Some d \<Rightarrow> 0 < tc_user_data_len tc \<and> unat (tc_user_data_len tc) \<le> length d)"

lemma feed_tc_bounds:
  fixes n :: "'s::len word"
  assumes "17 \<le> LENGTH('s)" "unat n \<le> length frame" "feed_tc frame n = Some tc"
  shows "tc_wf tc" and "unat (tc_user_data_len tc) + 11 \<le> unat n"
    and "tc_user_data tc = (if tc_user_data_len tc = 0 then None else Some (drop 11 frame))"
proof -
  from assms(3) obtain q where
    q: "obsw_sp_parse (Some frame) n (Some sp_packet_uninit) = (OBSW_SP_OK, Some q)"
    and len: "5 \<le> sp_payload_len q" and tc: "tc = tc_of_packet q"
    by (auto simp: feed_tc_def not_less split: prod.splits option.splits if_splits)
  note b = sp_parse_bounds [OF assms(1,2) q]
  then have d: "sp_payload_bytes q = drop 6 frame" by (simp add: sp_payload_bytes_def)
  have "unat (sp_payload_len q - 5) = unat (sp_payload_len q) - 5"
    using len by (intro unat_sub_literal) (simp_all add: word_le_nat_alt)
  then have l: "unat (tc_user_data_len tc) = unat (sp_payload_len q) - 5"
    using len by (auto simp: tc tc_of_packet_def word_less_nat_alt)
  have five: "5 \<le> unat (sp_payload_len q)" using len by (simp add: word_le_nat_alt)
  show "unat (tc_user_data_len tc) + 11 \<le> unat n"
    using l b(1) five by simp
  then show "tc_wf tc"
    using l assms(2) five
    by (auto simp: tc_wf_def tc tc_of_packet_def d word_less_nat_alt)
  show "tc_user_data tc = (if tc_user_data_len tc = 0 then None else Some (drop 11 frame))"
    using l five by (auto simp: tc tc_of_packet_def d word_less_nat_alt unat_eq_0 [symmetric])
qed

subsection \<open>Invariants over dispatched frames\<close>

text \<open>
  The contract between the dispatcher and the services behind it: given a well-formed
  command that passes the gate, the handler of a matching route keeps \<open>I\<close>, and so does the
  responder.
\<close>

locale dispatch_inv =
  fixes di :: "'w obsw_tc_dispatcher" and I :: "'w \<Rightarrow> bool"
  assumes responder_inv: "I w \<Longrightarrow> tc_wf tc \<Longrightarrow> I (d_responder di flags tc w)"
    and handler_inv: "r \<in> set (d_table di) \<Longrightarrow> route_match tc r \<Longrightarrow> I w \<Longrightarrow> tc_wf tc \<Longrightarrow>
      (\<forall>g. d_gate di = Some g \<longrightarrow> g tc w) \<Longrightarrow> I (snd (rt_handler r tc (d_responder di) w))"
begin

lemma dispatch_keeps:
  assumes "I w" "tc_wf tc"
  shows "I (snd (tc_dispatch di tc w))"
proof -
  let ?rs = "take (unat (d_table_len di)) (d_table di)"
  have h: "I (snd (rt_handler (?rs ! i) tc (d_responder di) w))"
    if i: "find_index (route_match tc) ?rs = Some i" and g: "\<forall>g. d_gate di = Some g \<longrightarrow> g tc w" for i
  proof (rule handler_inv)
    have "?rs ! i \<in> set ?rs" using find_index_SomeD(1) [OF i] by (rule nth_mem)
    then show "?rs ! i \<in> set (d_table di)" by (rule in_set_takeD)
    show "route_match tc (?rs ! i)" using find_index_SomeD(2) [OF i] .
  qed (use assms g in simp_all)
  show ?thesis
  proof (cases "\<exists>g. d_gate di = Some g \<and> \<not> g tc w")
    case False
    then have "\<forall>g. d_gate di = Some g \<longrightarrow> g tc w" by blast
    with h assms False show ?thesis
      unfolding tc_dispatch_def Let_def by (simp add: responder_inv split: option.split prod.split) (metis snd_conv)
  qed (use assms in \<open>simp add: tc_dispatch_def responder_inv\<close>)
qed

lemma feed_keeps:
  fixes n :: "'s::len word"
  assumes "17 \<le> LENGTH('s)" "unat n \<le> length frame" "I w"
  shows "I (snd (obsw_tc_dispatcher_feed (Some di) (Some frame) n w))"
  using assms feed_tc_bounds(1) [OF assms(1,2)] dispatch_keeps
  by (simp add: feed_eq split: option.split)

end

subsection \<open>Properties\<close>

text \<open>
  C20: Every command is answered by exactly one party, and by the right one.  For a frame that
  carries a command: if the gate refuses it, only the responder runs, with the reason
  "gated"; otherwise the first route of the table that matches its APID (or the wildcard),
  service and subservice handles it, and its return value decides the result; if there is
  none, only the responder runs, with the reason "subservice" when some route has the
  command's service and "service" when none has.  The command's data lies in the frame.
\<close>

theorem feed_first_match:
  fixes n :: "'s::len word"
  assumes "17 \<le> LENGTH('s)" and "unat n \<le> length frame" and "feed_tc frame n = Some tc"
    and "rs = take (unat (d_table_len di)) (d_table di)"
  shows "tc_wf tc
    \<and> ((\<exists>g. d_gate di = Some g \<and> \<not> g tc w) \<longrightarrow>
        obsw_tc_dispatcher_feed (Some di) (Some frame) n w
          = (OBSW_TC_ERR_GATED, d_responder di 0xC0 tc w))
    \<and> ((\<forall>g. d_gate di = Some g \<longrightarrow> g tc w) \<longrightarrow>
        (\<forall>i < length rs. route_match tc (rs ! i) \<and> (\<forall>j < i. \<not> route_match tc (rs ! j)) \<longrightarrow>
           obsw_tc_dispatcher_feed (Some di) (Some frame) n w
             = (case rt_handler (rs ! i) tc (d_responder di) w of
                  (rc, w') \<Rightarrow> (if rc = 0 then OBSW_TC_OK else OBSW_TC_ERR_HANDLER, w')))
        \<and> ((\<forall>r \<in> set rs. \<not> route_match tc r) \<longrightarrow>
           obsw_tc_dispatcher_feed (Some di) (Some frame) n w
             = (OBSW_TC_ERR_NO_ROUTE,
                d_responder di (if \<exists>r \<in> set rs. route_service tc r then 0xA0 else 0x90) tc w)))"
proof -
  have g: "(\<forall>g. d_gate di = Some g \<longrightarrow> g tc w) \<longleftrightarrow> \<not> (\<exists>g. d_gate di = Some g \<and> \<not> g tc w)" by blast
  have i: "find_index (route_match tc) rs = Some i"
    if "i < length rs" "route_match tc (rs ! i) \<and> (\<forall>j < i. \<not> route_match tc (rs ! j))" for i
    using that by (intro find_index_SomeI) auto
  show ?thesis
    unfolding feed_eq assms(3) option.case tc_dispatch_def Let_def assms(4) [symmetric] g
    using feed_tc_bounds(1) [OF assms(1-3)] i
    by (auto simp: find_index_None_iff [THEN iffD2])
qed

lemma feed_first_match_witness:
  "obsw_tc_dispatcher_feed
     (Some \<lparr>d_table = [\<lparr>rt_apid = 0xFFFF, rt_service = 17, rt_subservice = 1,
                         rt_handler = (\<lambda>tc respond w. (0, w + 1))\<rparr>],
            d_table_len = 1, d_responder = (\<lambda>flags tc w. w + unat flags), d_gate = None\<rparr>)
     (Some [0x18, 0x64, 0xC0, 0, 0, 4, 0x20, 17, 9, 0, 0]) (11 :: 64 word) (0 :: nat)
   = (OBSW_TC_ERR_NO_ROUTE, 0xA0)"
proof -
  let ?di = "\<lparr>d_table = [\<lparr>rt_apid = 0xFFFF, rt_service = 17, rt_subservice = 1,
                         rt_handler = (\<lambda>tc respond w. (0, w + 1))\<rparr>],
            d_table_len = 1, d_responder = (\<lambda>flags tc w. w + unat flags), d_gate = None\<rparr>
         :: nat obsw_tc_dispatcher"
  let ?f = "[0x18, 0x64, 0xC0, 0, 0, 4, 0x20, 17, 9, 0, 0] :: u8 list"
  let ?tc = "\<lparr>tc_apid = 0x64, tc_service = 17, tc_subservice = 9, tc_seq_count = 0,
               tc_user_data = None, tc_user_data_len = 0\<rparr>"
  have "feed_tc ?f (11 :: 64 word) = Some ?tc"
    by (simp add: feed_tc_def obsw_sp_parse_def obsw_sp_decode_primary_def obsw_sp_total_len_def
        sp_header_fields_def tc_of_packet_def sp_payload_bytes_def Let_def)
  from feed_first_match [OF _ _ this, of "take (unat (d_table_len ?di)) (d_table ?di)" ?di 0]
  show ?thesis by (simp add: route_match_def route_service_def)
qed

text \<open>
  A stored command will not be dropped later.  Whatever \<open>obsw_tc_packet_check\<close> accepts,
  as S11 and S19 do before they store a command, the dispatcher parses when it is fed the
  same bytes: the feed never returns \<open>OBSW_TC_ERR_PARSE\<close>, and the command that reaches gate
  and handlers has the service the check reported.
\<close>

theorem packet_check_dispatches:
  fixes n :: "'s::len word"
  assumes "17 \<le> LENGTH('s)" and "unat n \<le> length frame"
    and "obsw_tc_packet_check (Some frame) n (Some s0) = (OBSW_TC_OK, Some svc)"
  shows "\<exists>tc. feed_tc frame n = Some tc \<and> tc_wf tc \<and> tc_service tc = svc
    \<and> obsw_tc_dispatcher_feed (Some di) (Some frame) n w = tc_dispatch di tc w"
proof -
  obtain rc q where p: "obsw_sp_parse (Some frame) n (Some sp_packet_uninit) = (rc, Some q)"
    using sp_parse_Some [of frame n sp_packet_uninit] by (metis prod.collapse)
  with assms(3) have "feed_tc frame n = Some (tc_of_packet q)" "tc_service (tc_of_packet q) = svc"
    by (auto simp: obsw_tc_packet_check_def feed_tc_def tc_of_packet_def split: if_splits)
  then show ?thesis
    using feed_tc_bounds(1) [OF assms(1,2)] by (simp add: feed_eq)
qed

lemma packet_check_dispatches_witness:
  "\<exists>tc. feed_tc [0x18, 0x64, 0xC0, 0, 0, 4, 0x20, 17, 1, 0, 0] (11 :: 64 word) = Some tc
    \<and> tc_wf tc \<and> tc_service tc = 17"
proof -
  have "obsw_tc_packet_check (Some [0x18, 0x64, 0xC0, 0, 0, 4, 0x20, 17, 1, 0, 0]) (11 :: 64 word) (Some 0)
      = (OBSW_TC_OK, Some 17)"
    by (simp add: obsw_tc_packet_check_def obsw_sp_parse_def obsw_sp_decode_primary_def
        obsw_sp_total_len_def sp_header_fields_def sp_payload_bytes_def Let_def)
  from packet_check_dispatches [OF _ _ this, of "undefined :: unit obsw_tc_dispatcher" "()"]
  show ?thesis by auto
qed

end
