(* ===== verification/Fsm.thy ===== *)
theory Fsm
  imports Dispatcher
begin

section \<open>The mode state machine\<close>

text \<open>
  \<^verbatim>\<open>src/fdir/fsm.c\<close> and \<^verbatim>\<open>include/obsw/fdir/fsm.h\<close>: the three platform modes, their
  transitions with the enter and exit hooks of SAFE, and the TC whitelist that the
  dispatcher's gate enforces outside NOMINAL.

  A hook is an optional function on a hook state \<open>'h\<close>.  The step relation \<open>fsm_step\<close> says
  which mode changes exist and which hook each one runs; the transitions of the code
  implement it step by step, and what holds of its reachable states is then a property of
  any sequence of requests.
\<close>

datatype obsw_fsm_mode = OBSW_FSM_NOMINAL | OBSW_FSM_SAFE | OBSW_FSM_STANDBY

record obsw_fsm_tc_entry =
  wl_service :: u8
  wl_subservice :: u8

record 'h obsw_fsm_config =
  on_enter_safe :: "('h \<Rightarrow> 'h) option"
  on_exit_safe :: "('h \<Rightarrow> 'h) option"
  safe_tc_whitelist :: "obsw_fsm_tc_entry list option"
  whitelist_len :: u8

record 'h obsw_fsm_ctx =
  fsm_mode :: obsw_fsm_mode
  fsm_config :: "'h obsw_fsm_config"
  safe_entry_count :: u32

subsection \<open>Operations\<close>

definition obsw_fsm_init ::
  "'h obsw_fsm_ctx option \<Rightarrow> 'h obsw_fsm_config option \<Rightarrow> int \<times> 'h obsw_fsm_ctx option" where
  "obsw_fsm_init fsm config =
    (case (fsm, config) of
       (Some _, Some c) \<Rightarrow>
         (0, Some \<lparr>fsm_mode = OBSW_FSM_STANDBY, fsm_config = c, safe_entry_count = 0\<rparr>)
     | _ \<Rightarrow> (-1, fsm))"

definition run_hook :: "('h \<Rightarrow> 'h) option \<Rightarrow> 'h \<Rightarrow> 'h" where
  "run_hook hook h = (case hook of Some f \<Rightarrow> f h | None \<Rightarrow> h)"

definition obsw_fsm_to_standby :: "'h obsw_fsm_ctx option \<Rightarrow> 'h obsw_fsm_ctx option" where
  "obsw_fsm_to_standby fsm =
    (case fsm of None \<Rightarrow> None
     | Some f \<Rightarrow> if fsm_mode f = OBSW_FSM_STANDBY then fsm
               else Some (f\<lparr>fsm_mode := OBSW_FSM_STANDBY\<rparr>))"

definition obsw_fsm_to_safe ::
  "'h obsw_fsm_ctx option \<Rightarrow> 'h \<Rightarrow> 'h obsw_fsm_ctx option \<times> 'h" where
  "obsw_fsm_to_safe fsm h =
    (case fsm of None \<Rightarrow> (None, h)
     | Some f \<Rightarrow> if fsm_mode f = OBSW_FSM_SAFE then (fsm, h)
               else (Some (f\<lparr>fsm_mode := OBSW_FSM_SAFE, safe_entry_count := safe_entry_count f + 1\<rparr>),
                     run_hook (on_enter_safe (fsm_config f)) h))"

definition obsw_fsm_to_nominal ::
  "'h obsw_fsm_ctx option \<Rightarrow> 'h \<Rightarrow> 'h obsw_fsm_ctx option \<times> 'h" where
  "obsw_fsm_to_nominal fsm h =
    (case fsm of None \<Rightarrow> (None, h)
     | Some f \<Rightarrow> if fsm_mode f = OBSW_FSM_NOMINAL then (fsm, h)
               else (Some (f\<lparr>fsm_mode := OBSW_FSM_NOMINAL\<rparr>),
                     if fsm_mode f = OBSW_FSM_SAFE then run_hook (on_exit_safe (fsm_config f)) h
                     else h))"

definition obsw_fsm_tc_allowed :: "'h obsw_fsm_ctx option \<Rightarrow> u8 \<Rightarrow> u8 \<Rightarrow> bool" where
  "obsw_fsm_tc_allowed fsm svc subsvc =
    (case fsm of None \<Rightarrow> True
     | Some f \<Rightarrow>
         if fsm_mode f = OBSW_FSM_NOMINAL then True
         else
           (case safe_tc_whitelist (fsm_config f) of None \<Rightarrow> False
            | Some wl \<Rightarrow>
                if whitelist_len (fsm_config f) = 0 then False
                else list_ex (\<lambda>e. wl_service e = svc \<and> wl_subservice e = subsvc)
                       (take (unat (whitelist_len (fsm_config f))) wl)))"

definition obsw_fsm_tc_gate :: "obsw_tc option \<Rightarrow> 'h obsw_fsm_ctx option \<Rightarrow> bool" where
  "obsw_fsm_tc_gate tc fsm =
    (case tc of None \<Rightarrow> False
     | Some t \<Rightarrow> obsw_fsm_tc_allowed fsm (tc_service t) (tc_subservice t))"

definition obsw_fsm_mode :: "'h obsw_fsm_ctx option \<Rightarrow> obsw_fsm_mode" where
  "obsw_fsm_mode fsm = (case fsm of None \<Rightarrow> OBSW_FSM_NOMINAL | Some f \<Rightarrow> fsm_mode f)"

definition obsw_fsm_is_safe :: "'h obsw_fsm_ctx option \<Rightarrow> bool" where
  "obsw_fsm_is_safe fsm = (case fsm of None \<Rightarrow> False | Some f \<Rightarrow> fsm_mode f = OBSW_FSM_SAFE)"

subsection \<open>The machine as a step relation\<close>

datatype fsm_req = To_standby | To_safe | To_nominal

text \<open>
  A state of the machine: the mode and how often SAFE was entered and how often its enter
  and exit hooks ran.
\<close>

type_synonym fsm_abs = "obsw_fsm_mode \<times> nat \<times> nat \<times> nat"

inductive fsm_step :: "fsm_abs \<Rightarrow> fsm_req \<Rightarrow> fsm_abs \<Rightarrow> bool" where
  standby: "fsm_step (m, n, i, e) To_standby (OBSW_FSM_STANDBY, n, i, e)"
| enter: "m \<noteq> OBSW_FSM_SAFE \<Longrightarrow> fsm_step (m, n, i, e) To_safe (OBSW_FSM_SAFE, n + 1, i + 1, e)"
| stay: "fsm_step (OBSW_FSM_SAFE, n, i, e) To_safe (OBSW_FSM_SAFE, n, i, e)"
| recover: "fsm_step (OBSW_FSM_SAFE, n, i, e) To_nominal (OBSW_FSM_NOMINAL, n, i, e + 1)"
| start: "m \<noteq> OBSW_FSM_SAFE \<Longrightarrow> fsm_step (m, n, i, e) To_nominal (OBSW_FSM_NOMINAL, n, i, e)"

inductive_cases fsm_step_cases [elim!]:
  "fsm_step s To_standby t" "fsm_step s To_safe t" "fsm_step s To_nominal t"

inductive_simps fsm_step_simps:
  "fsm_step (m, n, i, e) To_standby t" "fsm_step (m, n, i, e) To_safe t"
  "fsm_step (m, n, i, e) To_nominal t"

inductive fsm_reach :: "fsm_abs \<Rightarrow> bool" where
  init: "fsm_reach (OBSW_FSM_STANDBY, 0, 0, 0)"
| step: "fsm_reach s \<Longrightarrow> fsm_step s r t \<Longrightarrow> fsm_reach t"

lemma fsm_step_deterministic: "fsm_step s r t \<Longrightarrow> fsm_step s r t' \<Longrightarrow> t = t'"
  by (cases r) auto

text \<open>
  The hooks balance: the enter hook ran once per counted entry, the exit hook at most once
  per entry, and strictly less often while the platform is in SAFE.
\<close>

lemma fsm_reach_hooks:
  "fsm_reach s \<Longrightarrow> case s of (m, n, i, e) \<Rightarrow>
     i = n \<and> e \<le> i \<and> (m = OBSW_FSM_SAFE \<longrightarrow> e < i)"
  by (induction rule: fsm_reach.induct) (auto elim!: fsm_step.cases)

subsection \<open>The code implements the relation\<close>

text \<open>The transition functions by request, with both hooks counted in the hook state.\<close>

definition fsm_apply ::
  "fsm_req \<Rightarrow> 'h obsw_fsm_ctx option \<times> 'h \<Rightarrow> 'h obsw_fsm_ctx option \<times> 'h" where
  "fsm_apply r s = (case s of (fsm, h) \<Rightarrow>
    (case r of
       To_standby \<Rightarrow> (obsw_fsm_to_standby fsm, h)
     | To_safe \<Rightarrow> obsw_fsm_to_safe fsm h
     | To_nominal \<Rightarrow> obsw_fsm_to_nominal fsm h))"

definition counting_config :: "(nat \<times> nat) obsw_fsm_config \<Rightarrow> bool" where
  "counting_config c \<longleftrightarrow> on_enter_safe c = Some (\<lambda>(i, e). (i + 1, e))
     \<and> on_exit_safe c = Some (\<lambda>(i, e). (i, e + 1))"

definition fsm_rel :: "(nat \<times> nat) obsw_fsm_ctx option \<times> nat \<times> nat \<Rightarrow> fsm_abs \<Rightarrow> bool" where
  "fsm_rel s a = (case s of (fsm, ie) \<Rightarrow>
    (case fsm of None \<Rightarrow> False
     | Some f \<Rightarrow> counting_config (fsm_config f) \<and>
         (case a of (m, n, i, e) \<Rightarrow> fsm_mode f = m \<and> safe_entry_count f = of_nat n \<and> ie = (i, e))))"

lemmas fsm_defs = obsw_fsm_to_standby_def obsw_fsm_to_safe_def obsw_fsm_to_nominal_def run_hook_def

lemma fsm_apply_simulates:
  assumes "fsm_rel s a"
  shows "\<exists>b. fsm_step a r b \<and> fsm_rel (fsm_apply r s) b"
  using assms
  by (cases a; cases r; cases "fst a")
    (auto simp: fsm_rel_def fsm_apply_def counting_config_def fsm_defs fsm_step_simps
      split: option.splits if_splits prod.splits)

lemma fsm_run_simulates:
  assumes "fsm_rel s a" "fsm_reach a"
  shows "\<exists>b. fsm_reach b \<and> fsm_rel (fold fsm_apply rs s) b"
  using assms
proof (induction rs arbitrary: s a)
  case (Cons r rs)
  then obtain b where "fsm_step a r b" "fsm_rel (fsm_apply r s) b"
    using fsm_apply_simulates by blast
  with Cons.IH [of "fsm_apply r s" b] fsm_reach.step [OF Cons.prems(2)] show ?case by simp
qed auto

text \<open>Which mode a request leads to, whatever the hooks are.\<close>

lemma fsm_apply_mode:
  "obsw_fsm_mode (fst (fsm_apply r (Some f, h))) =
    (case r of To_standby \<Rightarrow> OBSW_FSM_STANDBY | To_safe \<Rightarrow> OBSW_FSM_SAFE
     | To_nominal \<Rightarrow> OBSW_FSM_NOMINAL)"
  by (auto simp: fsm_apply_def fsm_defs obsw_fsm_mode_def split: fsm_req.split)

lemma fsm_to_safe_mode [simp]:
  "obsw_fsm_mode (fst (obsw_fsm_to_safe (Some f) h)) = OBSW_FSM_SAFE"
  by (simp add: obsw_fsm_to_safe_def obsw_fsm_mode_def)

lemma fsm_apply_config:
  "fst (fsm_apply r (Some f, h)) = Some g \<Longrightarrow> fsm_config g = fsm_config f"
  by (auto simp: fsm_apply_def fsm_defs split: fsm_req.splits if_splits)

subsection \<open>Properties\<close>

text \<open>
  Outside NOMINAL exactly the whitelist passes.  The dispatcher's gate lets a command
  through when there is no state machine or the mode is NOMINAL; in SAFE and in STANDBY it
  lets through the service and subservice pairs of the first \<open>whitelist_len\<close> entries of the
  whitelist, and nothing when there is no whitelist or it is empty.
\<close>

theorem fsm_gate_whitelist:
  "obsw_fsm_tc_gate (Some tc) fsm \<longleftrightarrow>
    fsm = None
    \<or> (\<exists>f. fsm = Some f \<and>
         (fsm_mode f = OBSW_FSM_NOMINAL
          \<or> (\<exists>wl e. safe_tc_whitelist (fsm_config f) = Some wl
               \<and> e \<in> set (take (unat (whitelist_len (fsm_config f))) wl)
               \<and> wl_service e = tc_service tc \<and> wl_subservice e = tc_subservice tc)))"
  by (auto simp: obsw_fsm_tc_gate_def obsw_fsm_tc_allowed_def list_ex_iff split: option.splits)

text \<open>
  C21: The state machine implements the mode diagram, over any history.  After the
  initialisation any sequence of transition requests leads to a state the step relation
  reaches; the mode is the one last asked for; SAFE entries are counted, and the hooks have
  run accordingly: the enter hook once per entry, the exit hook at most once per entry and
  strictly less often while the platform is in SAFE.  A repeated request runs no hook.
\<close>

theorem fsm_implements_diagram:
  assumes "counting_config c"
    and "fold fsm_apply rs (snd (obsw_fsm_init (Some f0) (Some c)), (0, 0)) = (fsm, (i, e))"
  shows "\<exists>f n. fsm = Some f \<and> fsm_reach (fsm_mode f, n, i, e) \<and> safe_entry_count f = of_nat n
    \<and> fsm_mode f = (if rs = [] then OBSW_FSM_STANDBY
        else case last rs of To_standby \<Rightarrow> OBSW_FSM_STANDBY | To_safe \<Rightarrow> OBSW_FSM_SAFE
             | To_nominal \<Rightarrow> OBSW_FSM_NOMINAL)
    \<and> i = n \<and> e \<le> i \<and> (fsm_mode f = OBSW_FSM_SAFE \<longrightarrow> e < i)
    \<and> (rs \<noteq> [] \<longrightarrow> fsm_apply (last rs) (fsm, (i, e)) = (fsm, (i, e)))"
proof -
  let ?s0 = "(snd (obsw_fsm_init (Some f0) (Some c)), (0 :: nat, 0 :: nat))"
  have "fsm_rel ?s0 (OBSW_FSM_STANDBY, 0, 0, 0)"
    using assms(1) by (simp add: fsm_rel_def obsw_fsm_init_def)
  from fsm_run_simulates [OF this fsm_reach.init, of rs]
  obtain b where b: "fsm_reach b" "fsm_rel (fold fsm_apply rs ?s0) b" by blast
  obtain m n i' e' where bb: "b = (m, n, i', e')" by (cases b)
  from b(2) obtain f where f: "fsm = Some f" "fsm_mode f = m" "safe_entry_count f = of_nat n"
    "i' = i" "e' = e"
    unfolding assms(2) bb by (auto simp: fsm_rel_def split: option.splits)
  have hooks: "i = n \<and> e \<le> i \<and> (m = OBSW_FSM_SAFE \<longrightarrow> e < i)"
    using fsm_reach_hooks [OF b(1)] unfolding bb prod.case f(4,5) .
  have mode: "fsm_mode f = (if rs = [] then OBSW_FSM_STANDBY
        else case last rs of To_standby \<Rightarrow> OBSW_FSM_STANDBY | To_safe \<Rightarrow> OBSW_FSM_SAFE
             | To_nominal \<Rightarrow> OBSW_FSM_NOMINAL)"
  proof (cases rs rule: rev_cases)
    case Nil
    with assms(2) f show ?thesis by (auto simp: obsw_fsm_init_def)
  next
    case (snoc rs' r)
    obtain g h where "fold fsm_apply rs' ?s0 = (g, h)" by (metis surj_pair)
    with assms(2) snoc have "fsm_apply r (g, h) = (fsm, (i, e))" by simp
    moreover from this f obtain g' where "g = Some g'"
      by (cases g) (auto simp: fsm_apply_def fsm_defs split: fsm_req.splits)
    ultimately show ?thesis
      using fsm_apply_mode [of r g' h] snoc f by (simp add: obsw_fsm_mode_def)
  qed
  have again: "fsm_apply (last rs) (fsm, (i, e)) = (fsm, (i, e))" if "rs \<noteq> []"
    using that mode f by (cases "last rs") (auto simp: fsm_apply_def fsm_defs)
  have "fsm_reach (fsm_mode f, n, i, e)" using b(1) f by (simp add: bb)
  with f(1,3) hooks mode again show ?thesis
    unfolding f(2) [symmetric] by (intro exI [of _ f] exI [of _ n]) blast
qed

lemma fsm_implements_diagram_witness:
  "\<exists>f n. fst (fold fsm_apply [To_safe, To_safe, To_nominal]
      (snd (obsw_fsm_init (Some undefined)
        (Some \<lparr>on_enter_safe = Some (\<lambda>(i, e). (i + 1, e)), on_exit_safe = Some (\<lambda>(i, e). (i, e + 1)),
               safe_tc_whitelist = None, whitelist_len = 0\<rparr>)), (0 :: nat, 0 :: nat))) = Some f
    \<and> fsm_mode f = OBSW_FSM_NOMINAL \<and> fsm_reach (OBSW_FSM_NOMINAL, n, 1, 1)"
proof -
  let ?c = "\<lparr>on_enter_safe = Some (\<lambda>(i, e). (i + 1, e)), on_exit_safe = Some (\<lambda>(i, e). (i, e + 1)),
             safe_tc_whitelist = None, whitelist_len = 0\<rparr> :: (nat \<times> nat) obsw_fsm_config"
  let ?f = "\<lparr>fsm_mode = OBSW_FSM_NOMINAL, fsm_config = ?c, safe_entry_count = 1\<rparr>"
  have run: "fold fsm_apply [To_safe, To_safe, To_nominal]
      (snd (obsw_fsm_init (Some undefined) (Some ?c)), (0, 0)) = (Some ?f, (1, 1))"
    by (simp add: fsm_apply_def fsm_defs obsw_fsm_init_def)
  have "counting_config ?c" by (simp add: counting_config_def)
  from fsm_implements_diagram [OF this run] obtain n where
    "fsm_reach (fsm_mode ?f, n, 1, 1)" by (elim exE conjE) (simp only: option.inject)
  then show ?thesis
    unfolding run fst_conv by (intro exI [of _ ?f] exI [of _ n]) simp
qed

end
