(* ===== verification/Watchdog.thy ===== *)
theory Watchdog
  imports Obsw_Prelude
begin

section \<open>The software watchdog\<close>

text \<open>
  \<^verbatim>\<open>src/fdir/watchdog.c\<close>: a countdown that every kick reloads on the next tick, and a
  callback that fires once when it reaches zero.

  The specification is about the history of ticks, each preceded by a kick or not: the
  watchdog has expired exactly when as many ticks in a row as its timeout went by without a
  kick.  \<open>wd_after\<close> is the state the code is in after a history.
\<close>

abbreviation (input) OBSW_WD_OK :: int where "OBSW_WD_OK \<equiv> 0"
abbreviation (input) OBSW_WD_ERR_NULL :: int where "OBSW_WD_ERR_NULL \<equiv> -1"
abbreviation (input) OBSW_WD_ERR_PARAM :: int where "OBSW_WD_ERR_PARAM \<equiv> -2"

record 'h obsw_wd_ctx =
  wd_timeout_ticks :: u32
  wd_countdown :: u32
  wd_kicked :: bool
  wd_expired :: bool
  wd_expire_cb :: "'h \<Rightarrow> 'h"

definition obsw_wd_init ::
  "'h obsw_wd_ctx option \<Rightarrow> u32 \<Rightarrow> ('h \<Rightarrow> 'h) option \<Rightarrow> int \<times> 'h obsw_wd_ctx option" where
  "obsw_wd_init wd timeout_ticks expire_cb =
    (case (wd, expire_cb) of
       (Some _, Some cb) \<Rightarrow>
         if timeout_ticks = 0 then (OBSW_WD_ERR_PARAM, wd)
         else (OBSW_WD_OK, Some \<lparr>wd_timeout_ticks = timeout_ticks, wd_countdown = timeout_ticks,
                                 wd_kicked = False, wd_expired = False, wd_expire_cb = cb\<rparr>)
     | _ \<Rightarrow> (OBSW_WD_ERR_NULL, wd))"

definition obsw_wd_kick :: "'h obsw_wd_ctx option \<Rightarrow> 'h obsw_wd_ctx option" where
  "obsw_wd_kick wd = (case wd of None \<Rightarrow> None | Some w \<Rightarrow> Some (w\<lparr>wd_kicked := True\<rparr>))"

definition obsw_wd_tick :: "'h obsw_wd_ctx option \<Rightarrow> 'h \<Rightarrow> 'h obsw_wd_ctx option \<times> 'h" where
  "obsw_wd_tick wd h =
    (case wd of None \<Rightarrow> (None, h)
     | Some w \<Rightarrow>
         if wd_expired w then (wd, h)
         else if wd_kicked w
         then (Some (w\<lparr>wd_countdown := wd_timeout_ticks w, wd_kicked := False\<rparr>), h)
         else
           let w1 = (if wd_countdown w > 0 then w\<lparr>wd_countdown := wd_countdown w - 1\<rparr> else w) in
           if wd_countdown w1 = 0 then (Some (w1\<lparr>wd_expired := True\<rparr>), wd_expire_cb w1 h)
           else (Some w1, h))"

definition obsw_wd_expired :: "'h obsw_wd_ctx option \<Rightarrow> bool" where
  "obsw_wd_expired wd = (case wd of None \<Rightarrow> False | Some w \<Rightarrow> wd_expired w)"

subsection \<open>Histories\<close>

text \<open>One control cycle, with a kick before its tick or without.\<close>

definition wd_cycle :: "bool \<Rightarrow> 'h obsw_wd_ctx option \<times> 'h \<Rightarrow> 'h obsw_wd_ctx option \<times> 'h" where
  "wd_cycle kick s = (case s of (wd, h) \<Rightarrow> obsw_wd_tick (if kick then obsw_wd_kick wd else wd) h)"

text \<open>How many cycles without a kick the history ends with, and whether it ever starved.\<close>

fun quiet :: "bool list \<Rightarrow> nat" where
  "quiet [] = 0"
| "quiet (k # ks) = (if k then 0 else quiet ks + 1)"

fun starved :: "nat \<Rightarrow> bool list \<Rightarrow> bool" where
  "starved n [] = False"
| "starved n (k # ks) = (n \<le> quiet (k # ks) \<or> starved n ks)"

text \<open>Both read the history backwards, the latest cycle first.\<close>

lemma quiet_ge: "n \<le> quiet ks \<longleftrightarrow> (\<exists>zs. ks = replicate n False @ zs)"
proof (induction ks arbitrary: n)
  case Nil
  then show ?case by auto
next
  case (Cons k ks)
  show ?case
  proof (cases n)
    case (Suc m)
    with Cons [of m] show ?thesis by (cases k) auto
  qed simp
qed

lemma starved_iff: "0 < n \<Longrightarrow> starved n ks \<longleftrightarrow> (\<exists>ys zs. ks = ys @ replicate n False @ zs)"
proof (induction ks)
  case Nil
  then show ?case by auto
next
  case (Cons k ks)
  show ?case
  proof
    assume "starved n (k # ks)"
    then consider "n \<le> quiet (k # ks)" | "starved n ks" by auto
    then show "\<exists>ys zs. k # ks = ys @ replicate n False @ zs"
    proof cases
      case 1
      then show ?thesis unfolding quiet_ge by (metis append_Nil)
    next
      case 2
      with Cons show ?thesis by (metis append_Cons)
    qed
  next
    assume "\<exists>ys zs. k # ks = ys @ replicate n False @ zs"
    then obtain ys zs where e: "k # ks = ys @ replicate n False @ zs" by blast
    show "starved n (k # ks)"
    proof (cases ys)
      case Nil
      with e have "n \<le> quiet (k # ks)" unfolding quiet_ge by auto
      then show ?thesis by simp
    next
      case (Cons y ys')
      with e Cons.IH [OF Cons.prems] show ?thesis by auto
    qed
  qed
qed

text \<open>
  The state after a history: while it has not starved, the countdown is the timeout less
  the current quiet cycles; once it has, it is latched.  The callback has run once or not at
  all.
\<close>

lemma wd_after:
  assumes "t \<noteq> 0"
  shows "\<exists>w. fold wd_cycle ks (snd (obsw_wd_init (Some w0) t (Some Suc)), 0)
      = (Some w, of_bool (starved (unat t) (rev ks)))
    \<and> wd_timeout_ticks w = t \<and> wd_expire_cb w = Suc \<and> wd_expired w = starved (unat t) (rev ks)
    \<and> (\<not> wd_expired w \<longrightarrow> \<not> wd_kicked w \<and> quiet (rev ks) < unat t
          \<and> unat (wd_countdown w) = unat t - quiet (rev ks))"
    (is "\<exists>w. ?R ks = (_, _) \<and> _")
proof (induction ks rule: rev_induct)
  case Nil
  with assms show ?case by (simp add: obsw_wd_init_def unat_gt_0)
next
  case (snoc k ks)
  let ?n = "unat t"
  from snoc obtain w where w: "?R ks = (Some w, of_bool (starved ?n (rev ks)))"
    "wd_timeout_ticks w = t" "wd_expire_cb w = Suc" "wd_expired w = starved ?n (rev ks)"
    "\<not> wd_expired w \<Longrightarrow> \<not> wd_kicked w \<and> quiet (rev ks) < ?n
          \<and> unat (wd_countdown w) = ?n - quiet (rev ks)" by blast
  have n0: "0 < ?n" using assms by (simp add: unat_gt_0)
  have step: "?R (ks @ [k]) = wd_cycle k (Some w, of_bool (starved ?n (rev ks)))"
    using w(1) by simp
  show ?case
  proof (cases "wd_expired w")
    case True
    with w show ?thesis
      unfolding step by (simp add: wd_cycle_def obsw_wd_kick_def obsw_wd_tick_def)
  next
    case False
    note inv = w(5) [OF False]
    show ?thesis
    proof (cases k)
      case True
      with False w inv n0 show ?thesis
        unfolding step by (simp add: wd_cycle_def obsw_wd_kick_def obsw_wd_tick_def)
    next
      case kF: False
      from inv have "0 < unat (wd_countdown w)" by simp
      then have pos: "wd_countdown w > 0" "wd_countdown w \<noteq> 0"
        by (simp_all add: word_less_nat_alt unat_gt_0)
      have pred: "unat (wd_countdown w - 1) = ?n - (quiet (rev ks) + 1)"
        using inv unat_pred_word [OF pos(2)] by simp
      have last: "wd_countdown w - 1 = 0 \<longleftrightarrow> ?n \<le> quiet (rev ks) + 1"
        using pred by (metis diff_is_0_eq unat_0 unat_eq_zero)
      show ?thesis
        using False kF w inv n0 pos(1) pred last
        unfolding step by (auto simp: wd_cycle_def obsw_wd_tick_def Let_def)
    qed
  qed
qed

subsection \<open>Properties\<close>

text \<open>
  The watchdog expires exactly when it was starved, and says so once.  After a valid
  initialisation with a timeout of \<open>t\<close> ticks and any history of control cycles, it reports
  expiry if and only if \<open>t\<close> consecutive cycles went by without a kick at some point, and
  the expiry callback has then run exactly once, and not at all otherwise.
\<close>

theorem wd_expires_iff_starved:
  assumes "t \<noteq> 0"
    and "fold wd_cycle ks (snd (obsw_wd_init (Some w0) t (Some Suc)), 0) = (wd, calls)"
  shows "(obsw_wd_expired wd \<longleftrightarrow> (\<exists>ys zs. ks = ys @ replicate (unat t) False @ zs))
    \<and> calls = (if obsw_wd_expired wd then 1 else 0)"
proof -
  have n0: "0 < unat t" using assms(1) by (simp add: unat_gt_0)
  have "starved (unat t) (rev ks) \<longleftrightarrow> (\<exists>ys zs. rev ks = ys @ replicate (unat t) False @ zs)"
    using n0 by (rule starved_iff)
  also have "\<dots> \<longleftrightarrow> (\<exists>ys zs. ks = ys @ replicate (unat t) False @ zs)"
    by (metis append.assoc rev_append rev_replicate rev_rev_ident)
  finally show ?thesis
    using wd_after [OF assms(1), of ks w0] unfolding assms(2)
    by (elim exE conjE) (simp only: prod.inject, simp add: obsw_wd_expired_def)
qed

lemma wd_expires_iff_starved_witness:
  "obsw_wd_expired (fst (fold wd_cycle [False, True, False, False, True]
     (snd (obsw_wd_init (Some undefined) 2 (Some Suc)), 0)))
   \<and> snd (fold wd_cycle [False, True, False, False, True]
     (snd (obsw_wd_init (Some undefined) 2 (Some Suc)), 0)) = 1"
proof -
  let ?r = "fold wd_cycle [False, True, False, False, True]
     (snd (obsw_wd_init (Some undefined) 2 (Some Suc)), 0)"
  have r: "?r = (fst ?r, snd ?r)" by simp
  have "[False, True, False, False, True] = [False, True] @ replicate (unat (2 :: u32)) False @ [True]"
  proof -
    have "unat (2 :: u32) = Suc (Suc 0)" by simp
    then show ?thesis by (simp only: replicate.simps append.simps)
  qed
  then have ex: "\<exists>ys zs. [False, True, False, False, True] = ys @ replicate (unat (2 :: u32)) False @ zs"
    by blast
  have "(2 :: u32) \<noteq> 0" by simp
  from wd_expires_iff_starved [OF this r] ex show ?thesis
    by (elim conjE) (simp only: if_True simp_thms)
qed

end
