(* ===== verification/Obt.thy ===== *)
theory Obt
  imports Obsw_Prelude
begin

section \<open>On-board time\<close>

text \<open>
  \<^verbatim>\<open>src/time/obt.c\<close>: seconds, 1/65536 s and a remainder of 1/1000 of that.  Read as one
  number, the clock counts units of 1/65536000 s; a millisecond is 65536 of them, so that
  advancing by milliseconds is an addition and loses nothing.
\<close>

record obsw_obt =
  obt_coarse :: u32
  obt_fine :: u16
  obt_rem :: u16

definition obsw_obt_advance :: "obsw_obt option \<Rightarrow> u32 \<Rightarrow> obsw_obt option" where
  "obsw_obt_advance obt dt_ms =
    (case obt of None \<Rightarrow> None
     | Some t \<Rightarrow>
         let scaled = dt_ms * 65536 + ucast (obt_rem t);
             new_fine = ucast (obt_fine t) + scaled div 1000
         in Some (t\<lparr>obt_rem := ucast (scaled mod 1000),
                    obt_coarse := obt_coarse t + new_fine div 65536,
                    obt_fine := ucast (new_fine mod 65536)\<rparr>))"

definition obsw_obt_set :: "obsw_obt option \<Rightarrow> u32 \<Rightarrow> u16 \<Rightarrow> obsw_obt option" where
  "obsw_obt_set obt coarse fine =
    (case obt of None \<Rightarrow> None
     | Some t \<Rightarrow> Some (t\<lparr>obt_coarse := coarse, obt_fine := fine, obt_rem := 0\<rparr>))"

definition obsw_obt_seconds :: "obsw_obt option \<Rightarrow> u32" where
  "obsw_obt_seconds obt = (case obt of None \<Rightarrow> 0 | Some t \<Rightarrow> obt_coarse t)"

subsection \<open>The clock as one number\<close>

definition obt_wf :: "obsw_obt \<Rightarrow> bool" where
  "obt_wf t \<longleftrightarrow> unat (obt_rem t) < 1000"

definition obt_units :: "obsw_obt \<Rightarrow> nat" where
  "obt_units t = unat (obt_coarse t) * 65536000 + unat (obt_fine t) * 1000 + unat (obt_rem t)"

text \<open>The period after which the clock wraps: \<open>2 ^ 32\<close> seconds.\<close>

definition obt_period :: nat where
  "obt_period = 2 ^ 32 * 65536000"

lemma mod_mult_carry: "r < k \<Longrightarrow> (a mod m) * k + r = (a * k + r) mod (m * k)" for a k m r :: nat
  using mod_mult2_eq [of "a * k + r" k m] by (simp add: mult.commute)

lemma carry_sum:
  assumes "q * 65536 + m = f + k" "k * 1000 + j = d * 65536 + r"
  shows "(c + q) * 65536000 + (m * 1000 + j) = c * 65536000 + f * 1000 + r + d * (65536 :: nat)"
proof -
  have "(q * 65536 + m) * 1000 + j = f * 1000 + (d * 65536 + r)"
    unfolding assms(1) assms(2) [symmetric] by (simp add: distrib_right)
  then show ?thesis by (simp add: distrib_right)
qed

lemma obt_advance_units:
  assumes "obt_wf t" "unat dt < 65536"
  shows "\<exists>t'. obsw_obt_advance (Some t) dt = Some t' \<and> obt_wf t'
    \<and> obt_units t' = (obt_units t + unat dt * 65536) mod obt_period"
proof -
  let ?scaled = "dt * 65536 + ucast (obt_rem t) :: u32"
  let ?new = "ucast (obt_fine t) + ?scaled div 1000 :: u32"
  let ?s = "unat dt * 65536 + unat (obt_rem t)" and ?c = "unat (obt_coarse t)"
  let ?n = "unat (obt_fine t) + ?s div 1000"
  have rem: "unat (ucast (obt_rem t) :: u32) = unat (obt_rem t)"
    and fine: "unat (ucast (obt_fine t) :: u32) = unat (obt_fine t)"
    by (simp_all add: unat_ucast_u16)
  have "unat (dt * 65536) = unat dt * 65536"
    using assms(2) by (simp add: unat_word_ariths)
  then have s: "unat ?scaled = ?s"
    using assms u16_less_65536 [of "obt_rem t"] by (subst unat_add_small) (simp_all only: rem, simp add: obt_wf_def)
  have sd: "?s div 1000 < 4294968"
    using assms by (simp add: obt_wf_def less_mult_imp_div_less)
  then have n: "unat ?new = ?n"
    using u16_less_65536 [of "obt_fine t"]
    by (subst unat_add_small) (simp_all only: fine unat_div s unat_numeral, simp_all)
  let ?t' = "t\<lparr>obt_rem := ucast (?scaled mod 1000), obt_coarse := obt_coarse t + ?new div 65536,
                obt_fine := ucast (?new mod 65536)\<rparr>"
  have r': "unat (obt_rem ?t') = ?s mod 1000"
    by (simp add: unat_ucast_small unat_mod s del: unsigned_ucast_eq)
  have f': "unat (obt_fine ?t') = ?n mod 65536"
    by (simp add: unat_ucast_small unat_mod n del: unsigned_ucast_eq)
  have c': "unat (obt_coarse ?t') = (?c + ?n div 65536) mod 2 ^ 32"
  proof -
    have "unat (?new div 65536) = ?n div 65536" unfolding unat_div n by simp
    moreover have "unat (obt_coarse ?t') = (?c + unat (?new div 65536)) mod 2 ^ 32"
      using unat_word_ariths(1) [of "obt_coarse t" "?new div 65536"] by simp
    ultimately show ?thesis by (simp only:)
  qed
  have "obt_units ?t' = ((?c + ?n div 65536) mod 2 ^ 32) * 65536000 + (?n mod 65536) * 1000 + ?s mod 1000"
    unfolding obt_units_def r' f' c' ..
  also have "\<dots> = ((?c + ?n div 65536) * 65536000 + ((?n mod 65536) * 1000 + ?s mod 1000)) mod obt_period"
  proof -
    have "?n mod 65536 < 65536" "?s mod 1000 < 1000" by simp_all
    then have "(?n mod 65536) * 1000 + ?s mod 1000 < 65536000" by linarith
    then show ?thesis unfolding obt_period_def add.assoc by (rule mod_mult_carry)
  qed
  also have "(?c + ?n div 65536) * 65536000 + ((?n mod 65536) * 1000 + ?s mod 1000)
      = obt_units t + unat dt * 65536"
  proof -
    have "?n div 65536 * 65536 + ?n mod 65536 = ?n" "?s div 1000 * 1000 + ?s mod 1000 = ?s"
      by (simp_all only: div_mult_mod_eq)
    then show ?thesis unfolding obt_units_def by (rule carry_sum)
  qed
  finally have "obt_units ?t' = (obt_units t + unat dt * 65536) mod obt_period" .
  moreover have "obt_wf ?t'" unfolding obt_wf_def r' by simp
  ultimately show ?thesis by (simp only: obsw_obt_advance_def Let_def option.case) blast
qed

text \<open>Any sequence of advances.\<close>

lemma obt_advance_all:
  assumes "obt_wf t" "\<forall>dt \<in> set dts. unat dt < 65536"
  shows "\<exists>t'. fold (\<lambda>dt clk. obsw_obt_advance clk dt) dts (Some t) = Some t' \<and> obt_wf t'
    \<and> obt_units t' mod obt_period = (obt_units t + sum_list (map unat dts) * 65536) mod obt_period"
  using assms
proof (induction dts arbitrary: t)
  case (Cons dt dts)
  then obtain t1 where t1: "obsw_obt_advance (Some t) dt = Some t1" "obt_wf t1"
    "obt_units t1 = (obt_units t + unat dt * 65536) mod obt_period"
    using obt_advance_units [of t dt] by auto
  have "(obt_units t1 + sum_list (map unat dts) * 65536) mod obt_period
      = (obt_units t + sum_list (map unat (dt # dts)) * 65536) mod obt_period"
    unfolding t1(3) by (simp add: mod_add_left_eq distrib_right add.assoc)
  with Cons.IH [OF t1(2)] Cons.prems(2) t1(1) show ?case by simp
qed simp

lemma obt_units_less: "obt_wf t \<Longrightarrow> obt_units t < obt_period"
proof -
  assume "obt_wf t"
  moreover have "unat (obt_coarse t) < 2 ^ 32" using unsigned_less [of "obt_coarse t"] by simp
  ultimately show ?thesis
    using u16_less_65536 [of "obt_fine t"] by (simp add: obt_wf_def obt_units_def obt_period_def)
qed

subsection \<open>Properties\<close>

text \<open>
  The clock does not drift.  Started from any set time and advanced by any sequence of
  steps below 65.536 s, the clock reads exactly the start plus the sum of the steps, in
  units of 1/65536000 s, until it wraps after \<open>2 ^ 32\<close> seconds: no step loses a fraction,
  however the milliseconds are split into ticks.
\<close>

theorem obt_advance_exact:
  assumes "\<forall>dt \<in> set dts. unat dt < 65536"
  shows "\<exists>t. fold (\<lambda>dt clk. obsw_obt_advance clk dt) dts (obsw_obt_set (Some t0) coarse fine) = Some t
    \<and> unat (obt_rem t) < 1000
    \<and> unat (obt_coarse t) * 65536000 + unat (obt_fine t) * 1000 + unat (obt_rem t)
      = (unat coarse * 65536000 + unat fine * 1000 + sum_list (map unat dts) * 65536)
        mod (2 ^ 32 * 65536000)"
proof -
  let ?t = "t0\<lparr>obt_coarse := coarse, obt_fine := fine, obt_rem := 0\<rparr>"
  have "obt_wf ?t" by (simp add: obt_wf_def)
  from obt_advance_all [OF this assms] obtain t where
    t: "fold (\<lambda>dt clk. obsw_obt_advance clk dt) dts (Some ?t) = Some t" "obt_wf t"
    "obt_units t mod obt_period = (obt_units ?t + sum_list (map unat dts) * 65536) mod obt_period"
    by blast
  have "obt_units t mod obt_period = obt_units t"
    using obt_units_less [OF t(2)] by simp
  with t show ?thesis
    by (simp add: obsw_obt_set_def obt_wf_def obt_units_def obt_period_def)
qed

lemma obt_advance_exact_witness:
  "\<exists>t. fold (\<lambda>dt clk. obsw_obt_advance clk dt) (replicate 10 100) (obsw_obt_set (Some undefined) 41 0) = Some t
    \<and> unat (obt_coarse t) * 65536000 + unat (obt_fine t) * 1000 + unat (obt_rem t) = 42 * 65536000"
  using obt_advance_exact [of "replicate 10 100" undefined 41 0]
  by (simp add: sum_list_replicate) blast

end
