(* ===== verification/Pus_S1.thy ===== *)
theory Pus_S1
  imports Pus_Tm Dispatcher
begin

section \<open>Service 1, TC verification\<close>

text \<open>
  \<^verbatim>\<open>src/pus/s1.c\<close>: the acceptance and completion reports every handler emits, and the
  responder the dispatcher calls for a reject.

  All services of a build share one S1 context and one TM store by pointer; the model passes
  both explicitly as a \<open>tm_env\<close>, and the contexts of the services keep only what is their
  own.  The contract between a handler and the ground is the locale \<open>s1_service\<close>: a command
  is either refused by one TM(1,2), without effect, or accepted by TM(1,1) and closed by one
  TM(1,7) or TM(1,8), whatever the handler reports in between.
\<close>

abbreviation (input) OBSW_S1_FAIL_ILLEGAL_SVC :: u16 where "OBSW_S1_FAIL_ILLEGAL_SVC \<equiv> 2"
abbreviation (input) OBSW_S1_FAIL_ILLEGAL_SUBSVC :: u16 where "OBSW_S1_FAIL_ILLEGAL_SUBSVC \<equiv> 3"
abbreviation (input) OBSW_S1_FAIL_EXEC_ERROR :: u16 where "OBSW_S1_FAIL_EXEC_ERROR \<equiv> 4"
abbreviation (input) OBSW_S1_FAIL_ILLEGAL_APP_DATA :: u16 where "OBSW_S1_FAIL_ILLEGAL_APP_DATA \<equiv> 5"
abbreviation (input) OBSW_S1_FAIL_MEM_ACCESS :: u16 where "OBSW_S1_FAIL_MEM_ACCESS \<equiv> 6"
abbreviation (input) OBSW_S1_FAIL_MODE_GATED :: u16 where "OBSW_S1_FAIL_MODE_GATED \<equiv> 7"

record obsw_s1_ctx =
  s1_apid :: u16
  s1_msg_counter :: u16
  s1_timestamp :: u32

record tm_env =
  env_s1 :: "obsw_s1_ctx option"
  env_store :: "obsw_tm_store option"

subsection \<open>Report emitters\<close>

definition encode_tc_ref :: "obsw_tc \<Rightarrow> u8 list" where
  "encode_tc_ref tc =
    (let pkt_id = push_bit 12 1 OR push_bit 11 1 OR (tc_apid tc AND 0x7FF);
         seq = push_bit 14 3 OR (tc_seq_count tc AND 0x3FFF)
     in be_bytes16 pkt_id @ be_bytes16 seq)"

text \<open>The common tail of the four emitters: take the counter, advance it, build TM(1,sub).\<close>

definition s1_emit :: "u8 \<Rightarrow> u8 list \<Rightarrow> obsw_s1_ctx \<Rightarrow> obsw_tm_store option \<Rightarrow> int \<times> tm_env" where
  "s1_emit sub data c store =
    (let seq = s1_msg_counter c in
     case obsw_pus_tm_build store (s1_apid c) seq 1 sub seq 0 (s1_timestamp c) (Some data)
            (of_nat (length data)) of
       (rc, store') \<Rightarrow>
         (rc, \<lparr>env_s1 = Some (c\<lparr>s1_msg_counter := seq + 1\<rparr>), env_store = store'\<rparr>))"

definition obsw_s1_accept_success :: "obsw_tc option \<Rightarrow> tm_env \<Rightarrow> int \<times> tm_env" where
  "obsw_s1_accept_success tc e =
    (case (env_s1 e, tc) of
       (Some c, Some t) \<Rightarrow> s1_emit 1 (encode_tc_ref t) c (env_store e)
     | _ \<Rightarrow> (OBSW_PUS_TM_ERR_NULL, e))"

definition obsw_s1_accept_failure :: "obsw_tc option \<Rightarrow> u16 \<Rightarrow> tm_env \<Rightarrow> int \<times> tm_env" where
  "obsw_s1_accept_failure tc failure_code e =
    (case (env_s1 e, tc) of
       (Some c, Some t) \<Rightarrow> s1_emit 2 (encode_tc_ref t @ be_bytes16 failure_code) c (env_store e)
     | _ \<Rightarrow> (OBSW_PUS_TM_ERR_NULL, e))"

definition obsw_s1_completion_success :: "obsw_tc option \<Rightarrow> tm_env \<Rightarrow> int \<times> tm_env" where
  "obsw_s1_completion_success tc e =
    (case (env_s1 e, tc) of
       (Some c, Some t) \<Rightarrow> s1_emit 7 (encode_tc_ref t) c (env_store e)
     | _ \<Rightarrow> (OBSW_PUS_TM_ERR_NULL, e))"

definition obsw_s1_completion_failure :: "obsw_tc option \<Rightarrow> u16 \<Rightarrow> tm_env \<Rightarrow> int \<times> tm_env" where
  "obsw_s1_completion_failure tc failure_code e =
    (case (env_s1 e, tc) of
       (Some c, Some t) \<Rightarrow> s1_emit 8 (encode_tc_ref t @ be_bytes16 failure_code) c (env_store e)
     | _ \<Rightarrow> (OBSW_PUS_TM_ERR_NULL, e))"

definition obsw_s1_dispatch_responder :: "u8 \<Rightarrow> obsw_tc \<Rightarrow> tm_env \<Rightarrow> tm_env" where
  "obsw_s1_dispatch_responder flags tc e =
    (if flags AND OBSW_TC_ACK_REJECT = 0 then e
     else
       let code = (if flags AND OBSW_TC_REJECT_GATED \<noteq> 0 then OBSW_S1_FAIL_MODE_GATED
                   else if flags AND OBSW_TC_REJECT_SUBSVC \<noteq> 0 then OBSW_S1_FAIL_ILLEGAL_SUBSVC
                   else OBSW_S1_FAIL_ILLEGAL_SVC)
       in snd (obsw_s1_accept_failure (Some tc) code e))"

subsection \<open>Emissions as a list\<close>

text \<open>
  What a component tries to send: reports of S1 on the command at hand, and other packets.
\<close>

datatype s1_report = Accepted | Refused u16 | Done | Failed u16

datatype tm_item = S1 s1_report | Pkt "u8 list"

definition s1_packet :: "obsw_s1_ctx \<Rightarrow> obsw_tc \<Rightarrow> s1_report \<Rightarrow> u8 list" where
  "s1_packet c tc r =
    (let seq = s1_msg_counter c;
         tm = (\<lambda>sub extra. pus_tm_packet (s1_apid c) seq 1 sub seq 0 (s1_timestamp c)
                 (encode_tc_ref tc @ extra))
     in case r of Accepted \<Rightarrow> tm 1 [] | Refused code \<Rightarrow> tm 2 (be_bytes16 code)
        | Done \<Rightarrow> tm 7 [] | Failed code \<Rightarrow> tm 8 (be_bytes16 code))"

text \<open>The packets of such a list, S1 counting its own, and the S1 context after them.\<close>

fun item_packets :: "obsw_s1_ctx option \<Rightarrow> obsw_tc \<Rightarrow> tm_item list \<Rightarrow> u8 list list" where
  "item_packets c tc [] = []"
| "item_packets c tc (Pkt p # xs) = p # item_packets c tc xs"
| "item_packets None tc (S1 r # xs) = item_packets None tc xs"
| "item_packets (Some c) tc (S1 r # xs) =
     s1_packet c tc r # item_packets (Some (c\<lparr>s1_msg_counter := s1_msg_counter c + 1\<rparr>)) tc xs"

fun s1_after :: "obsw_s1_ctx option \<Rightarrow> tm_item list \<Rightarrow> obsw_s1_ctx option" where
  "s1_after c [] = c"
| "s1_after c (Pkt p # xs) = s1_after c xs"
| "s1_after c (S1 r # xs) =
     s1_after (map_option (\<lambda>k. k\<lparr>s1_msg_counter := s1_msg_counter k + 1\<rparr>) c) xs"

text \<open>
  \<open>tm_offered s ps s'\<close>: the packets \<open>ps\<close> were offered to the store in this order; those that
  found room were appended, the rest was refused.
\<close>

definition tm_offered :: "obsw_tm_store option \<Rightarrow> u8 list list \<Rightarrow> obsw_tm_store option \<Rightarrow> bool" where
  "tm_offered s ps s' \<longleftrightarrow> tm_ok s' \<and> (s' = None \<longleftrightarrow> s = None)
     \<and> (s \<noteq> None \<longrightarrow> tm_queue s' = tm_queue s @ take (31 - length (tm_queue s)) ps)"

definition env_does :: "obsw_tc \<Rightarrow> tm_env \<Rightarrow> tm_item list \<Rightarrow> tm_env \<Rightarrow> bool" where
  "env_does tc e xs e' \<longleftrightarrow> env_s1 e' = s1_after (env_s1 e) xs
     \<and> tm_offered (env_store e) (item_packets (env_s1 e) tc xs) (env_store e')"

lemma tm_offered_nil: "tm_ok s \<Longrightarrow> tm_offered s [] s"
  by (simp add: tm_offered_def)

lemma tm_offered_ok: "tm_offered s ps s' \<Longrightarrow> tm_ok s'"
  by (simp add: tm_offered_def)

lemma tm_offered_append:
  assumes "tm_offered s ps t" "tm_offered t qs u"
  shows "tm_offered s (ps @ qs) u"
proof (cases "s = None")
  case False
  let ?q = "tm_queue s" and ?k = "31 - length (tm_queue s)"
  have t: "tm_queue t = ?q @ take ?k ps" "t \<noteq> None"
    using assms(1) False by (simp_all add: tm_offered_def)
  have "31 - length (tm_queue t) = ?k - length ps"
    unfolding t(1) by simp
  with assms t False show ?thesis unfolding tm_offered_def by (auto simp del: not_None_eq)
qed (use assms in \<open>simp add: tm_offered_def\<close>)

lemma s1_after_append: "s1_after c (xs @ ys) = s1_after (s1_after c xs) ys"
  by (induction c xs rule: s1_after.induct) simp_all

lemma item_packets_append:
  "item_packets c tc (xs @ ys) = item_packets c tc xs @ item_packets (s1_after c xs) tc ys"
  by (induction c tc xs rule: item_packets.induct) simp_all

lemma env_does_nil: "tm_ok (env_store e) \<Longrightarrow> env_does tc e [] e"
  by (simp add: env_does_def tm_offered_nil)

lemma env_does_ok: "env_does tc e xs e' \<Longrightarrow> tm_ok (env_store e')"
  by (auto simp: env_does_def intro: tm_offered_ok)

lemma env_does_append:
  "env_does tc e xs e1 \<Longrightarrow> env_does tc e1 ys e2 \<Longrightarrow> env_does tc e (xs @ ys) e2"
  by (auto simp: env_does_def s1_after_append item_packets_append intro: tm_offered_append)

lemma env_does_Cons:
  "env_does tc e [i] e1 \<Longrightarrow> env_does tc e1 xs e2 \<Longrightarrow> env_does tc e (i # xs) e2"
  using env_does_append [of tc e "[i]" e1 xs e2] by simp

subsection \<open>The emitters as list items\<close>

lemma tm_build_offered:
  assumes "tm_ok s" "n = of_nat (length d)" "length d \<le> 1007"
    and "obsw_pus_tm_build s apid seq svc sub mc dest ts (Some d) n = (rc, s')"
  shows "tm_offered s [pus_tm_packet apid seq svc sub mc dest ts d] s'"
proof -
  have n: "unat n = length d"
    unfolding assms(2) using assms(3) by (intro unat_of_nat_small) simp
  obtain t where "obsw_pus_tm_build s apid seq svc sub mc dest ts (Some d) n = (tm_emit_rc s, t)"
    "tm_ok t" "t = None \<longleftrightarrow> s = None"
    "tm_queue t = tm_emit (pus_tm_packet apid seq svc sub mc dest ts (take (unat n) d)) s"
    using tm_build_effect [of s n d apid seq svc sub mc dest ts] assms(1,3) n by auto
  moreover have "length (tm_queue s) \<le> 31" by (rule tm_queue_length)
  ultimately show ?thesis
    using assms(4) n by (auto simp: tm_offered_def tm_emit_def tm_emit_rc_def split: if_splits)
qed

lemma length_encode_tc_ref [simp, layout]: "length (encode_tc_ref tc) = 4"
  by (simp add: encode_tc_ref_def Let_def)

definition s1_extra :: "s1_report \<Rightarrow> u8 list" where
  "s1_extra r = (case r of Refused code \<Rightarrow> be_bytes16 code | Failed code \<Rightarrow> be_bytes16 code | _ \<Rightarrow> [])"

definition s1_sub :: "s1_report \<Rightarrow> u8" where
  "s1_sub r = (case r of Accepted \<Rightarrow> 1 | Refused code \<Rightarrow> 2 | Done \<Rightarrow> 7 | Failed code \<Rightarrow> 8)"

lemma s1_packet_alt:
  "s1_packet c tc r = pus_tm_packet (s1_apid c) (s1_msg_counter c) 1 (s1_sub r) (s1_msg_counter c) 0
     (s1_timestamp c) (encode_tc_ref tc @ s1_extra r)"
  by (cases r) (simp_all add: s1_packet_def s1_sub_def s1_extra_def Let_def)

lemma length_s1_extra [simp]: "length (s1_extra r) \<le> 2"
  by (cases r) (simp_all add: s1_extra_def)

text \<open>The four emitters by the report they make.\<close>

definition s1_report :: "s1_report \<Rightarrow> obsw_tc option \<Rightarrow> tm_env \<Rightarrow> int \<times> tm_env" where
  "s1_report r tc e =
    (case r of Accepted \<Rightarrow> obsw_s1_accept_success tc e
     | Refused code \<Rightarrow> obsw_s1_accept_failure tc code e
     | Done \<Rightarrow> obsw_s1_completion_success tc e
     | Failed code \<Rightarrow> obsw_s1_completion_failure tc code e)"

lemma s1_report_eq:
  "s1_report r (Some tc) e =
    (case env_s1 e of None \<Rightarrow> (OBSW_PUS_TM_ERR_NULL, e)
     | Some c \<Rightarrow> s1_emit (s1_sub r) (encode_tc_ref tc @ s1_extra r) c (env_store e))"
  by (cases r) (simp_all add: s1_report_def s1_sub_def s1_extra_def obsw_s1_accept_success_def
      obsw_s1_accept_failure_def obsw_s1_completion_success_def obsw_s1_completion_failure_def
      split: option.split)

lemma s1_report_does:
  assumes "tm_ok (env_store e)"
  shows "env_does tc e [S1 r] (snd (s1_report r (Some tc) e))"
proof (cases "env_s1 e")
  case None
  with assms show ?thesis by (simp add: s1_report_eq env_does_def tm_offered_nil)
next
  case (Some c)
  let ?d = "encode_tc_ref tc @ s1_extra r"
  have l: "length ?d \<le> 1007" using length_s1_extra [of r] by (simp del: length_s1_extra)
  obtain rc s' where b: "obsw_pus_tm_build (env_store e) (s1_apid c) (s1_msg_counter c) 1 (s1_sub r)
      (s1_msg_counter c) 0 (s1_timestamp c) (Some ?d) (of_nat (length ?d)) = (rc, s')"
    by (metis surj_pair)
  from tm_build_offered [OF assms refl l b] b Some show ?thesis
    by (simp add: s1_report_eq s1_emit_def Let_def env_does_def s1_packet_alt)
qed

text \<open>
  The four emitters and the builder as list items, for an environment in order; every
  handler's effect is composed from these.
\<close>

lemma s1_does [frame_simps]:
  assumes "tm_ok (env_store e)"
  shows "env_does tc e [S1 Accepted] (snd (obsw_s1_accept_success (Some tc) e))"
    and "env_does tc e [S1 (Refused code)] (snd (obsw_s1_accept_failure (Some tc) code e))"
    and "env_does tc e [S1 Done] (snd (obsw_s1_completion_success (Some tc) e))"
    and "env_does tc e [S1 (Failed code)] (snd (obsw_s1_completion_failure (Some tc) code e))"
  using s1_report_does [OF assms, of tc Accepted] s1_report_does [OF assms, of tc "Refused code"]
    s1_report_does [OF assms, of tc Done] s1_report_does [OF assms, of tc "Failed code"]
  by (simp_all add: s1_report_def)

lemma build_does:
  assumes "tm_ok (env_store e)" "n = of_nat (length d)" "length d \<le> 1007"
    and "obsw_pus_tm_build (env_store e) apid seq svc sub mc dest ts (Some d) n = (rc, s')"
  shows "env_does tc e [Pkt (pus_tm_packet apid seq svc sub mc dest ts d)] (e\<lparr>env_store := s'\<rparr>)"
  using tm_build_offered [OF assms] by (simp add: env_does_def)

subsection \<open>The contract of a handler\<close>

text \<open>The items between acceptance and completion: no report of S1 among them.\<close>

definition no_s1 :: "tm_item list \<Rightarrow> bool" where
  "no_s1 xs \<longleftrightarrow> (\<forall>x \<in> set xs. \<exists>p. x = Pkt p)"

lemma no_s1_simps [simp]:
  "no_s1 []" "no_s1 (Pkt p # xs) = no_s1 xs" "\<not> no_s1 (S1 r # xs)" "no_s1 (xs @ ys) \<longleftrightarrow> no_s1 xs \<and> no_s1 ys"
  by (auto simp: no_s1_def)

text \<open>What a command's reports may be, given the handler's return code.\<close>

definition verified :: "int \<Rightarrow> tm_item list \<Rightarrow> bool" where
  "verified rc xs \<longleftrightarrow>
    (\<exists>mid. no_s1 mid \<and>
      (rc = -1 \<and> (\<exists>code. xs = [S1 (Refused code)])
       \<or> rc = 0 \<and> xs = S1 Accepted # mid @ [S1 Done]
       \<or> rc = -1 \<and> (\<exists>code. xs = S1 Accepted # mid @ [S1 (Failed code)])))"

lemma verifiedI:
  "verified (-1) [S1 (Refused code)]"
  "verified 0 [S1 Accepted, S1 Done]"
  "no_s1 mid \<Longrightarrow> verified 0 (S1 Accepted # mid @ [S1 Done])"
  "no_s1 mid \<Longrightarrow> verified (-1) (S1 Accepted # mid @ [S1 (Failed code)])"
  by (auto simp: verified_def intro: exI [of _ "[]"])

text \<open>
  One run of a handler on the command \<open>tc\<close> and the context \<open>s\<close>: the reports are as above, the
  invariant of the context is kept, and a refused command leaves the context as it was.
\<close>

definition handled ::
  "('s \<Rightarrow> bool) \<Rightarrow> obsw_tc \<Rightarrow> tm_env \<Rightarrow> 's \<Rightarrow> int \<times> 's option \<times> tm_env \<Rightarrow> bool" where
  "handled I tc e s r \<longleftrightarrow>
    (\<exists>rc s' e' xs. r = (rc, Some s', e') \<and> I s' \<and> env_does tc e xs e' \<and> verified rc xs
       \<and> (\<forall>code. xs = [S1 (Refused code)] \<longrightarrow> s' = s))"

lemma handled_refused:
  "tm_ok (env_store e) \<Longrightarrow> I s \<Longrightarrow>
   handled I tc e s (-1, Some s, snd (obsw_s1_accept_failure (Some tc) code e))"
  unfolding handled_def using s1_does(2) [of e tc code] verifiedI(1) by blast

lemma handled_done:
  "env_does tc e (S1 Accepted # mid @ [S1 Done]) e' \<Longrightarrow> no_s1 mid \<Longrightarrow> I t \<Longrightarrow>
   handled I tc e s (0, Some t, e')"
  unfolding handled_def using verifiedI(3) [of mid] by blast

lemma handled_failed:
  "env_does tc e (S1 Accepted # mid @ [S1 (Failed code)]) e' \<Longrightarrow> no_s1 mid \<Longrightarrow> I t \<Longrightarrow>
   handled I tc e s (-1, Some t, e')"
  unfolding handled_def using verifiedI(4) [of mid code] by blast

text \<open>Composition from the back: the last emission of a handler first.\<close>

lemma does_accept:
  "tm_ok (env_store e) \<Longrightarrow> env_does tc e [S1 Accepted] (snd (obsw_s1_accept_success (Some tc) e))"
  by (rule s1_does(1))

lemma does_done:
  "env_does tc e xs e1 \<Longrightarrow>
   env_does tc e (xs @ [S1 Done]) (snd (obsw_s1_completion_success (Some tc) e1))"
  by (blast intro: env_does_append s1_does(3) env_does_ok)

lemma does_failed:
  "env_does tc e xs e1 \<Longrightarrow>
   env_does tc e (xs @ [S1 (Failed code)]) (snd (obsw_s1_completion_failure (Some tc) code e1))"
  by (blast intro: env_does_append s1_does(4) env_does_ok)

text \<open>
  \<open>(void)obsw_pus_tm_build(ctx->tm_store, ctx->apid, seq, svc, sub, seq, 0, ctx->timestamp,
  data, len)\<close>, as every service emits its own telemetry.
\<close>

definition tm_send ::
  "u16 \<Rightarrow> u16 \<Rightarrow> u8 \<Rightarrow> u8 \<Rightarrow> u32 \<Rightarrow> u8 list option \<Rightarrow> u16 \<Rightarrow> tm_env \<Rightarrow> tm_env" where
  "tm_send apid seq svc sub timestamp data len e =
    e\<lparr>env_store := snd (obsw_pus_tm_build (env_store e) apid seq svc sub seq 0 timestamp data len)\<rparr>"

lemma does_send:
  assumes "env_does tc e xs e1" "len = of_nat (length d)" "length d \<le> 1007"
  shows "env_does tc e (xs @ [Pkt (pus_tm_packet apid seq svc sub seq 0 ts d)])
    (tm_send apid seq svc sub ts (Some d) len e1)"
proof -
  obtain rc s' where b:
    "obsw_pus_tm_build (env_store e1) apid seq svc sub seq 0 ts (Some d) len = (rc, s')"
    by (metis surj_pair)
  from build_does [OF env_does_ok [OF assms(1)] assms(2,3) b] env_does_append [OF assms(1)]
  show ?thesis by (simp add: tm_send_def b)
qed

lemma tm_send_no_data: "tm_send apid seq svc sub ts None 0 e = tm_send apid seq svc sub ts (Some []) 0 e"
  by (simp add: tm_send_def pus_tm_build_no_data)

text \<open>The two shapes most handlers have: acceptance, one packet or none, completion.\<close>

lemma handled_accept_done:
  "tm_ok (env_store e) \<Longrightarrow> I t \<Longrightarrow>
   handled I tc e s (0, Some t, snd (obsw_s1_completion_success (Some tc)
     (snd (obsw_s1_accept_success (Some tc) e))))"
  using does_done [OF does_accept, of e tc] by (intro handled_done [of _ _ "[]"]) simp_all

lemma handled_accept_send_done:
  "tm_ok (env_store e) \<Longrightarrow> I t \<Longrightarrow> len = of_nat (length d) \<Longrightarrow> length d \<le> 1007 \<Longrightarrow>
   handled I tc e s (0, Some t, snd (obsw_s1_completion_success (Some tc)
     (tm_send apid seq svc sub ts (Some d) len (snd (obsw_s1_accept_success (Some tc) e)))))"
  using does_done [OF does_send [OF does_accept, of e len d tc apid seq svc sub ts]]
  by (intro handled_done [of _ _ "[Pkt (pus_tm_packet apid seq svc sub seq 0 ts d)]"]) simp_all

lemma handled_accept_send_failed:
  "tm_ok (env_store e) \<Longrightarrow> I t \<Longrightarrow> len = of_nat (length d) \<Longrightarrow> length d \<le> 1007 \<Longrightarrow>
   handled I tc e s (-1, Some t, snd (obsw_s1_completion_failure (Some tc) code
     (tm_send apid seq svc sub ts (Some d) len (snd (obsw_s1_accept_success (Some tc) e)))))"
  using does_failed [OF does_send [OF does_accept, of e len d tc apid seq svc sub ts], of code]
  by (intro handled_failed [of _ _ "[Pkt (pus_tm_packet apid seq svc sub seq 0 ts d)]" code]) simp_all

lemmas handledI = handled_refused handled_accept_done handled_accept_send_done
  handled_accept_send_failed

locale s1_service =
  fixes handler :: "obsw_tc option \<Rightarrow> 's option \<Rightarrow> tm_env \<Rightarrow> int \<times> 's option \<times> tm_env"
    and I :: "'s \<Rightarrow> bool"
  assumes null_ctx: "handler t None e = (-1, None, e)" "handler None o' e = (-1, o', e)"
    and verifies: "tm_ok (env_store e) \<Longrightarrow> tc_wf tc \<Longrightarrow> I s \<Longrightarrow>
      handled I tc e s (handler (Some tc) (Some s) e)"
begin

lemma keeps_env:
  assumes "tm_ok (env_store e)" "tc_wf tc" "I s"
  shows "\<exists>rc s' e'. handler (Some tc) (Some s) e = (rc, Some s', e') \<and> I s' \<and> tm_ok (env_store e')
    \<and> (env_store e' = None \<longleftrightarrow> env_store e = None) \<and> (env_s1 e' = None \<longleftrightarrow> env_s1 e = None)"
proof -
  have s1: "s1_after c xs = None \<longleftrightarrow> c = None" for c xs
    by (induction c xs rule: s1_after.induct) auto
  from verifies [OF assms, unfolded handled_def] obtain rc s' e' xs where
    "handler (Some tc) (Some s) e = (rc, Some s', e')" "I s'" "env_does tc e xs e'" by blast
  then show ?thesis
    using s1 [of "env_s1 e" xs] by (auto simp: env_does_def tm_offered_def)
qed

text \<open>
  What the ground sees: with an S1 context and room in the store, the first new packet is
  the acceptance report, TM(1,1) or TM(1,2), of this command.
\<close>

lemma first_report:
  assumes "tm_ok (env_store e)" "tc_wf tc" "I s" "env_s1 e = Some c"
    and "env_store e \<noteq> None" "length (tm_queue (env_store e)) < 31"
  shows "\<exists>rc s' e' rest. handler (Some tc) (Some s) e = (rc, Some s', e')
    \<and> (tm_queue (env_store e') = tm_queue (env_store e) @ s1_packet c tc Accepted # rest
       \<or> rc = -1 \<and> s' = s \<and>
         (\<exists>code. tm_queue (env_store e') = tm_queue (env_store e) @ [s1_packet c tc (Refused code)]))"
proof -
  obtain rc s' e' xs where h: "handler (Some tc) (Some s) e = (rc, Some s', e')"
    and d: "env_does tc e xs e'" and v: "verified rc xs"
    and r: "\<forall>code. xs = [S1 (Refused code)] \<longrightarrow> s' = s"
    using verifies [OF assms(1-3), unfolded handled_def] by blast
  obtain k where k: "31 - length (tm_queue (env_store e)) = Suc k"
    using assms(6) by (metis Suc_diff_Suc)
  have q: "tm_queue (env_store e') = tm_queue (env_store e) @ take (Suc k) (item_packets (Some c) tc xs)"
    using d assms(4,5) k by (simp add: env_does_def tm_offered_def)
  from v consider (refused) code where "xs = [S1 (Refused code)]" "rc = -1"
    | (accepted) ys where "xs = S1 Accepted # ys"
    unfolding verified_def by blast
  then show ?thesis
  proof cases
    case refused
    with q h r show ?thesis by auto
  next
    case accepted
    with q h show ?thesis by auto
  qed
qed

end

text \<open>What a handler leaves alone may be added to the invariant of its context.\<close>

lemma s1_service_frame:
  assumes "s1_service h I"
    and "\<And>tc s e rc s' e'. h (Some tc) (Some s) e = (rc, Some s', e') \<Longrightarrow> f s' = f s"
  shows "s1_service h (\<lambda>s. I s \<and> f s = k)"
proof unfold_locales
  show "h t None e = (-1, None, e)" "h None c e = (-1, c, e)" for t c and e :: tm_env
    by (rule s1_service.null_ctx [OF assms(1)])+
  fix e :: tm_env and tc s
  assume a: "tm_ok (env_store e)" "tc_wf tc" "I s \<and> f s = k"
  obtain rc s' e' xs where h: "h (Some tc) (Some s) e = (rc, Some s', e')" "I s'"
    "env_does tc e xs e'" "verified rc xs" "\<forall>code. xs = [S1 (Refused code)] \<longrightarrow> s' = s"
    using s1_service.verifies [OF assms(1) a(1,2)] a(3) unfolding handled_def by blast
  with assms(2) [OF h(1)] a(3) show "handled (\<lambda>s. I s \<and> f s = k) tc e s (h (Some tc) (Some s) e)"
    unfolding handled_def by fastforce
qed

end
