(* ===== verification/Pus_S5.thy ===== *)
theory Pus_S5
  imports Pus_Tm Fsm
begin

section \<open>Service 5, event reporting\<close>

text \<open>
  \<^verbatim>\<open>src/pus/s5.c\<close>: the event report with its coupling to the mode state machine and to the
  event hook (S19's in the host builds).  What the context reaches through pointers, the
  store, the state machine with its hook state, and the state the event hook acts on, is
  the record \<open>s5_env\<close>; the state machine is \<open>None\<close> for the contexts that have none.
\<close>

abbreviation (input) OBSW_S5_INFO :: u8 where "OBSW_S5_INFO \<equiv> 1"
abbreviation (input) OBSW_S5_LOW :: u8 where "OBSW_S5_LOW \<equiv> 2"
abbreviation (input) OBSW_S5_MEDIUM :: u8 where "OBSW_S5_MEDIUM \<equiv> 3"
abbreviation (input) OBSW_S5_HIGH :: u8 where "OBSW_S5_HIGH \<equiv> 4"

record 'v obsw_s5_ctx =
  s5_apid :: u16
  s5_msg_counter :: u16
  s5_timestamp :: u32
  s5_safe_trigger_ids :: "u16 list"
  s5_safe_trigger_count :: u8
  s5_on_event :: "(u16 \<Rightarrow> 'v \<Rightarrow> 'v) option"

record ('h, 'v) s5_env =
  s5_store :: "obsw_tm_store option"
  s5_fsm :: "'h obsw_fsm_ctx option"
  s5_hooks :: 'h
  s5_event_state :: 'v

definition obsw_s5_report ::
  "'v obsw_s5_ctx option \<Rightarrow> u8 \<Rightarrow> u16 \<Rightarrow> u8 list option \<Rightarrow> u8 \<Rightarrow> ('h, 'v) s5_env
   \<Rightarrow> int \<times> 'v obsw_s5_ctx option \<times> ('h, 'v) s5_env" where
  "obsw_s5_report ctx severity event_id data data_len e =
    (case ctx of None \<Rightarrow> (OBSW_PUS_TM_ERR_NULL, None, e)
     | Some s \<Rightarrow>
         if data_len > 0 \<and> data = None then (OBSW_PUS_TM_ERR_NULL, ctx, e)
         else
           let d = (case data of Some d \<Rightarrow> d | None \<Rightarrow> []);
               buf = be_bytes16 event_id @ take (unat data_len) d;
               seq = s5_msg_counter s;
               s' = s\<lparr>s5_msg_counter := seq + 1\<rparr>
           in case obsw_pus_tm_build (s5_store e) (s5_apid s) seq 5 severity seq 0 (s5_timestamp s)
                     (Some buf) (ucast data_len + 2) of
                (rc, store') \<Rightarrow>
                  let (fsm', h') =
                        (if rc = OBSW_PUS_TM_OK \<and> severity = OBSW_S5_HIGH \<and> s5_fsm e \<noteq> None
                            \<and> list_ex (\<lambda>i. i = event_id)
                                (take (unat (s5_safe_trigger_count s)) (s5_safe_trigger_ids s))
                         then obsw_fsm_to_safe (s5_fsm e) (s5_hooks e)
                         else (s5_fsm e, s5_hooks e));
                      v' = (case s5_on_event s of Some f \<Rightarrow> f event_id (s5_event_state e)
                            | None \<Rightarrow> s5_event_state e)
                  in (rc, Some s', \<lparr>s5_store = store', s5_fsm = fsm', s5_hooks = h',
                                    s5_event_state = v'\<rparr>))"

subsection \<open>Lemmas\<close>

definition s5_triggers :: "'v obsw_s5_ctx \<Rightarrow> u16 set" where
  "s5_triggers s = set (take (unat (s5_safe_trigger_count s)) (s5_safe_trigger_ids s))"

text \<open>The packet of an event report.\<close>

definition s5_packet :: "'v obsw_s5_ctx \<Rightarrow> u8 \<Rightarrow> u16 \<Rightarrow> u8 list \<Rightarrow> u8 list" where
  "s5_packet s severity event_id d =
    pus_tm_packet (s5_apid s) (s5_msg_counter s) 5 severity (s5_msg_counter s) 0 (s5_timestamp s)
      (be_bytes16 event_id @ d)"

lemma s5_report_effect:
  assumes "tm_ok (s5_store e)" "unat data_len = length d"
  obtains e' where "obsw_s5_report (Some s) severity ev (Some d) data_len e
      = (tm_emit_rc (s5_store e), Some (s\<lparr>s5_msg_counter := s5_msg_counter s + 1\<rparr>), e')"
    and "tm_ok (s5_store e')" and "s5_store e' = None \<longleftrightarrow> s5_store e = None"
    and "tm_queue (s5_store e') = tm_emit (s5_packet s severity ev d) (s5_store e)"
    and "(s5_fsm e', s5_hooks e') =
      (if tm_emit_rc (s5_store e) = OBSW_PUS_TM_OK \<and> severity = OBSW_S5_HIGH \<and> s5_fsm e \<noteq> None
          \<and> ev \<in> s5_triggers s
       then obsw_fsm_to_safe (s5_fsm e) (s5_hooks e) else (s5_fsm e, s5_hooks e))"
    and "s5_event_state e' = (case s5_on_event s of Some f \<Rightarrow> f ev (s5_event_state e)
       | None \<Rightarrow> s5_event_state e)"
proof -
  let ?buf = "be_bytes16 ev @ d"
  have dl: "length d < 256" using assms(2) u8_less_256 [of data_len] by simp
  have uc: "unat (ucast data_len :: u16) = length d"
    using unat_ucast_u8 [where 'a = 16, of data_len] assms(2) by simp
  have n: "unat (ucast data_len + 2 :: u16) = length ?buf"
    using dl by (subst unat_add_small) (simp_all only: uc, simp_all)
  obtain st where b: "obsw_pus_tm_build (s5_store e) (s5_apid s) (s5_msg_counter s) 5 severity
      (s5_msg_counter s) 0 (s5_timestamp s) (Some ?buf) (ucast data_len + 2) = (tm_emit_rc (s5_store e), st)"
    "tm_ok st" "st = None \<longleftrightarrow> s5_store e = None"
    "tm_queue st = tm_emit (s5_packet s severity ev d) (s5_store e)"
    using tm_build_effect [OF assms(1), of "ucast data_len + 2" ?buf "s5_apid s" "s5_msg_counter s" 5
        severity "s5_msg_counter s" 0 "s5_timestamp s"] dl
    unfolding n s5_packet_def by auto
  have tr: "list_ex (\<lambda>i. i = ev) (take (unat (s5_safe_trigger_count s)) (s5_safe_trigger_ids s))
      \<longleftrightarrow> ev \<in> s5_triggers s"
    by (auto simp: s5_triggers_def list_ex_iff)
  have "take (unat data_len) d = d" using assms(2) by simp
  let ?p = "if tm_emit_rc (s5_store e) = OBSW_PUS_TM_OK \<and> severity = OBSW_S5_HIGH \<and> s5_fsm e \<noteq> None
          \<and> ev \<in> s5_triggers s
       then obsw_fsm_to_safe (s5_fsm e) (s5_hooks e) else (s5_fsm e, s5_hooks e)"
  let ?e = "\<lparr>s5_store = st, s5_fsm = fst ?p, s5_hooks = snd ?p,
      s5_event_state = (case s5_on_event s of Some f \<Rightarrow> f ev (s5_event_state e) | None \<Rightarrow> s5_event_state e)\<rparr>"
  have "obsw_s5_report (Some s) severity ev (Some d) data_len e
      = (tm_emit_rc (s5_store e), Some (s\<lparr>s5_msg_counter := s5_msg_counter s + 1\<rparr>), ?e)"
    unfolding obsw_s5_report_def option.case Let_def tr \<open>take (unat data_len) d = d\<close> b(1) prod.case
    by (simp add: case_prod_beta)
  with b(2-) show thesis by (intro that [of ?e]) simp_all
qed

lemma s5_report_no_data:
  "obsw_s5_report ctx severity ev None 0 e = obsw_s5_report ctx severity ev (Some []) 0 e"
  by (cases ctx) (simp_all add: obsw_s5_report_def)

subsection \<open>Properties\<close>

text \<open>
  Which events put the platform into SAFE, and that no event passes unseen.  After a
  report the mode is SAFE if the event is of HIGH severity, is one of the triggers, the
  context has a state machine and the telemetry store had room, and is otherwise what it
  was before; in particular with a full store a trigger event does not change the mode.
  The event hook sees every event, whether its telemetry was queued or not.
\<close>

theorem s5_safe_coupling:
  assumes "tm_ok (s5_store e)" and "unat data_len = length d"
    and "obsw_s5_report (Some s) severity ev (Some d) data_len e = (rc, s', e')"
  shows "(rc = OBSW_PUS_TM_OK \<longleftrightarrow> s5_store e \<noteq> None \<and> length (tm_queue (s5_store e)) < 31)
    \<and> tm_queue (s5_store e') = tm_queue (s5_store e)
        @ (if rc = OBSW_PUS_TM_OK then [s5_packet s severity ev d] else [])
    \<and> (s5_fsm e \<noteq> None \<longrightarrow> obsw_fsm_mode (s5_fsm e') =
        (if rc = OBSW_PUS_TM_OK \<and> severity = OBSW_S5_HIGH \<and> ev \<in> s5_triggers s
         then OBSW_FSM_SAFE else obsw_fsm_mode (s5_fsm e)))
    \<and> (\<forall>f. s5_on_event s = Some f \<longrightarrow> s5_event_state e' = f ev (s5_event_state e))"
proof -
  obtain e1 where r: "obsw_s5_report (Some s) severity ev (Some d) data_len e
      = (tm_emit_rc (s5_store e), Some (s\<lparr>s5_msg_counter := s5_msg_counter s + 1\<rparr>), e1)"
    "tm_queue (s5_store e1) = tm_emit (s5_packet s severity ev d) (s5_store e)"
    "(s5_fsm e1, s5_hooks e1) =
      (if tm_emit_rc (s5_store e) = OBSW_PUS_TM_OK \<and> severity = OBSW_S5_HIGH \<and> s5_fsm e \<noteq> None
          \<and> ev \<in> s5_triggers s
       then obsw_fsm_to_safe (s5_fsm e) (s5_hooks e) else (s5_fsm e, s5_hooks e))"
    "s5_event_state e1 = (case s5_on_event s of Some f \<Rightarrow> f ev (s5_event_state e)
       | None \<Rightarrow> s5_event_state e)"
    using s5_report_effect [OF assms(1,2), of s severity ev] by metis
  have m: "obsw_fsm_mode (s5_fsm e1) = (if tm_emit_rc (s5_store e) = OBSW_PUS_TM_OK
        \<and> severity = OBSW_S5_HIGH \<and> ev \<in> s5_triggers s then OBSW_FSM_SAFE else obsw_fsm_mode (s5_fsm e))"
    if "s5_fsm e \<noteq> None"
    using that r(3) by (auto split: if_splits dest: arg_cong [of _ _ fst] simp: prod_eq_iff)
  from r(1) assms(3) have "rc = tm_emit_rc (s5_store e)" "e' = e1" by simp_all
  with r m show ?thesis by (simp add: tm_emit_def tm_emit_rc_def)
qed

lemma s5_safe_coupling_witness:
  "obsw_fsm_mode (s5_fsm (snd (snd (obsw_s5_report
      (Some \<lparr>s5_apid = 1, s5_msg_counter = 0, s5_timestamp = 0, s5_safe_trigger_ids = [1, 2, 0, 0],
             s5_safe_trigger_count = 2, s5_on_event = None\<rparr>) OBSW_S5_HIGH 2 (Some []) 0
      \<lparr>s5_store = Some tm_store_bss,
       s5_fsm = Some \<lparr>fsm_mode = OBSW_FSM_NOMINAL,
                      fsm_config = \<lparr>on_enter_safe = None, on_exit_safe = None,
                                    safe_tc_whitelist = None, whitelist_len = 0\<rparr>,
                      safe_entry_count = 0\<rparr>,
       s5_hooks = (), s5_event_state = ()\<rparr>)))) = OBSW_FSM_SAFE"
proof -
  let ?s = "\<lparr>s5_apid = 1, s5_msg_counter = 0, s5_timestamp = 0, s5_safe_trigger_ids = [1, 2, 0, 0],
             s5_safe_trigger_count = 2, s5_on_event = None\<rparr> :: unit obsw_s5_ctx"
  let ?e = "\<lparr>s5_store = Some tm_store_bss,
       s5_fsm = Some \<lparr>fsm_mode = OBSW_FSM_NOMINAL,
                      fsm_config = \<lparr>on_enter_safe = None, on_exit_safe = None,
                                    safe_tc_whitelist = None, whitelist_len = 0\<rparr>,
                      safe_entry_count = 0\<rparr>,
       s5_hooks = (), s5_event_state = ()\<rparr> :: (unit, unit) s5_env"
  obtain rc s' e' where r: "obsw_s5_report (Some ?s) OBSW_S5_HIGH 2 (Some []) 0 ?e = (rc, s', e')"
    by (metis prod_cases3)
  have "tm_ok (s5_store ?e)" "unat (0 :: u8) = length []" by simp_all
  moreover have "2 \<in> s5_triggers ?s" by (simp add: s5_triggers_def)
  ultimately show ?thesis using s5_safe_coupling [OF _ _ r] r by simp
qed

end
