(* ===== verification/Pus_S6.thy ===== *)
theory Pus_S6
  imports Pus_S1 Tc_Frame
begin

section \<open>Service 6, memory management\<close>

text \<open>
  \<^verbatim>\<open>src/pus/s6.c\<close>: load, check and dump of ground-addressable memory.  Local memory is a
  map from addresses to bytes, so that two regions may cover the same memory; a region's
  \<open>base\<close> is an address in it.  The lemmas show that no ground address leads outside a region
  granting the access, whatever 32-bit values the command carries.
\<close>

abbreviation (input) OBSW_S6_ACCESS_READ :: u8 where "OBSW_S6_ACCESS_READ \<equiv> 1"
abbreviation (input) OBSW_S6_ACCESS_WRITE :: u8 where "OBSW_S6_ACCESS_WRITE \<equiv> 2"

record obsw_s6_region =
  rg_start :: u32
  rg_size :: u32
  rg_base :: nat
  rg_access :: u8

record obsw_s6_ctx =
  s6_apid :: u16
  s6_msg_counter :: u16
  s6_timestamp :: u32
  s6_regions :: "obsw_s6_region list option"
  s6_region_count :: u8
  s6_mem :: "nat \<Rightarrow> u8"

definition s6_covers :: "u32 \<Rightarrow> u16 \<Rightarrow> u8 \<Rightarrow> obsw_s6_region \<Rightarrow> bool" where
  "s6_covers addr len acc r \<longleftrightarrow>
    \<not> (rg_access r AND acc \<noteq> acc \<or> addr < rg_start r)
    \<and> (let off = addr - rg_start r in \<not> (off > rg_size r \<or> ucast len > rg_size r - off))"

definition s6_resolve :: "obsw_s6_ctx \<Rightarrow> u32 \<Rightarrow> u16 \<Rightarrow> u8 \<Rightarrow> nat option" where
  "s6_resolve s addr len acc =
    (case s6_regions s of None \<Rightarrow> None
     | Some rs \<Rightarrow>
         (case find_index (s6_covers addr len acc) (take (unat (s6_region_count s)) rs) of
            None \<Rightarrow> None
          | Some i \<Rightarrow> Some (rg_base (rs ! i) + unat (addr - rg_start (rs ! i)))))"

text \<open>Reading and writing \<open>n\<close> bytes of local memory.\<close>

definition mem_read :: "(nat \<Rightarrow> u8) \<Rightarrow> nat \<Rightarrow> nat \<Rightarrow> u8 list" where
  "mem_read m p n = map (\<lambda>i. m (p + i)) [0..<n]"

definition mem_write :: "(nat \<Rightarrow> u8) \<Rightarrow> nat \<Rightarrow> u8 list \<Rightarrow> nat \<Rightarrow> u8" where
  "mem_write m p bs = (\<lambda>a. if p \<le> a \<and> a < p + length bs then bs ! (a - p) else m a)"

definition obsw_s6_load ::
  "obsw_tc option \<Rightarrow> obsw_s6_ctx option \<Rightarrow> tm_env \<Rightarrow> int \<times> obsw_s6_ctx option \<times> tm_env" where
  "obsw_s6_load tc ctx e =
    (case (ctx, tc) of
       (Some s, Some t) \<Rightarrow>
         (case tc_user_data t of
            None \<Rightarrow> (-1, ctx, snd (obsw_s1_accept_failure tc OBSW_S1_FAIL_ILLEGAL_APP_DATA e))
          | Some u \<Rightarrow>
              if tc_user_data_len t < 6
              then (-1, ctx, snd (obsw_s1_accept_failure tc OBSW_S1_FAIL_ILLEGAL_APP_DATA e))
              else
                let addr = obsw_be32 u; data_len = obsw_be16 (drop 4 u) in
                if (6 :: u32) + ucast data_len > ucast (tc_user_data_len t)
                then (-1, ctx, snd (obsw_s1_accept_failure tc OBSW_S1_FAIL_ILLEGAL_APP_DATA e))
                else
                  (case s6_resolve s addr data_len OBSW_S6_ACCESS_WRITE of
                     None \<Rightarrow> (-1, ctx, snd (obsw_s1_accept_failure tc OBSW_S1_FAIL_MEM_ACCESS e))
                   | Some dst \<Rightarrow>
                       let e1 = snd (obsw_s1_accept_success tc e);
                           s' = s\<lparr>s6_mem := mem_write (s6_mem s) dst (take (unat data_len) (drop 6 u))\<rparr>
                       in (0, Some s', snd (obsw_s1_completion_success tc e1))))
     | _ \<Rightarrow> (-1, ctx, e))"

definition obsw_s6_check ::
  "obsw_tc option \<Rightarrow> obsw_s6_ctx option \<Rightarrow> tm_env \<Rightarrow> int \<times> obsw_s6_ctx option \<times> tm_env" where
  "obsw_s6_check tc ctx e =
    (case (ctx, tc) of
       (Some s, Some t) \<Rightarrow>
         (case tc_user_data t of
            None \<Rightarrow> (-1, ctx, snd (obsw_s1_accept_failure tc OBSW_S1_FAIL_ILLEGAL_APP_DATA e))
          | Some u \<Rightarrow>
              if tc_user_data_len t < 9
              then (-1, ctx, snd (obsw_s1_accept_failure tc OBSW_S1_FAIL_ILLEGAL_APP_DATA e))
              else
                let addr = obsw_be32 u; len = obsw_be16 (drop 4 u); expected = obsw_be16 (drop 7 u) in
                (case s6_resolve s addr len OBSW_S6_ACCESS_READ of
                   None \<Rightarrow> (-1, ctx, snd (obsw_s1_accept_failure tc OBSW_S1_FAIL_MEM_ACCESS e))
                 | Some src \<Rightarrow>
                     let e1 = snd (obsw_s1_accept_success tc e);
                         actual = obsw_crc16_ccitt (mem_read (s6_mem s) src (unat len)) len;
                         seq = s6_msg_counter s;
                         s' = s\<lparr>s6_msg_counter := seq + 1\<rparr>;
                         d = take 4 u @ take 2 (drop 4 u)
                     in
                     if actual = expected
                     then
                       let e2 = tm_send (s6_apid s) seq 6 10 (s6_timestamp s) (Some d) 6 e1
                       in (0, Some s', snd (obsw_s1_completion_success tc e2))
                     else
                       let e2 = tm_send (s6_apid s) seq 6 11 (s6_timestamp s)
                                  (Some (d @ be_bytes16 actual)) 8 e1
                       in (-1, Some s', snd (obsw_s1_completion_failure tc OBSW_S1_FAIL_EXEC_ERROR e2))))
     | _ \<Rightarrow> (-1, ctx, e))"

definition obsw_s6_dump ::
  "obsw_tc option \<Rightarrow> obsw_s6_ctx option \<Rightarrow> tm_env \<Rightarrow> int \<times> obsw_s6_ctx option \<times> tm_env" where
  "obsw_s6_dump tc ctx e =
    (case (ctx, tc) of
       (Some s, Some t) \<Rightarrow>
         (case tc_user_data t of
            None \<Rightarrow> (-1, ctx, snd (obsw_s1_accept_failure tc OBSW_S1_FAIL_ILLEGAL_APP_DATA e))
          | Some u \<Rightarrow>
              if tc_user_data_len t < 7
              then (-1, ctx, snd (obsw_s1_accept_failure tc OBSW_S1_FAIL_ILLEGAL_APP_DATA e))
              else
                let addr = obsw_be32 u; len = obsw_be16 (drop 4 u); mem_id = u ! 6 in
                if len > 1002
                then (-1, ctx, snd (obsw_s1_accept_failure tc OBSW_S1_FAIL_ILLEGAL_APP_DATA e))
                else
                  (case s6_resolve s addr len OBSW_S6_ACCESS_READ of
                     None \<Rightarrow> (-1, ctx, snd (obsw_s1_accept_failure tc OBSW_S1_FAIL_MEM_ACCESS e))
                   | Some src \<Rightarrow>
                       let e1 = snd (obsw_s1_accept_success tc e);
                           buf = be_bytes32 addr @ [mem_id] @ mem_read (s6_mem s) src (unat len);
                           seq = s6_msg_counter s;
                           s' = s\<lparr>s6_msg_counter := seq + 1\<rparr>;
                           e2 = tm_send (s6_apid s) seq 6 6 (s6_timestamp s) (Some buf) (5 + len) e1
                       in (0, Some s', snd (obsw_s1_completion_success tc e2))))
     | _ \<Rightarrow> (-1, ctx, e))"

subsection \<open>Region lookup\<close>

text \<open>
  The overflow-free test of the code is inclusion of the range in the region, in the
  integers.
\<close>

lemma s6_covers_iff:
  "s6_covers addr len acc r \<longleftrightarrow> rg_access r AND acc = acc \<and> unat (rg_start r) \<le> unat addr
     \<and> unat addr + unat len \<le> unat (rg_start r) + unat (rg_size r)"
proof (cases "addr < rg_start r")
  case True
  then show ?thesis by (auto simp: s6_covers_def word_less_nat_alt)
next
  case False
  then have le: "unat (rg_start r) \<le> unat addr" by (simp add: word_less_nat_alt)
  then have off: "unat (addr - rg_start r) = unat addr - unat (rg_start r)"
    by (simp add: unat_sub_if')
  have l: "unat (ucast len :: u32) = unat len" by (intro unat_ucast_u16) simp
  show ?thesis
  proof (cases "addr - rg_start r > rg_size r")
    case True
    with le off show ?thesis by (auto simp: s6_covers_def Let_def word_less_nat_alt)
  next
    case F2: False
    then have "unat (rg_size r - (addr - rg_start r)) = unat (rg_size r) - (unat addr - unat (rg_start r))"
      using off by (simp add: unat_sub_if' word_less_nat_alt)
    with False F2 le off l show ?thesis
      by (auto simp: s6_covers_def Let_def word_less_nat_alt)
  qed
qed

definition s6_region_of :: "obsw_s6_ctx \<Rightarrow> obsw_s6_region \<Rightarrow> bool" where
  "s6_region_of s r \<longleftrightarrow> (\<exists>rs. s6_regions s = Some rs \<and> r \<in> set (take (unat (s6_region_count s)) rs))"

lemma s6_resolve_SomeD:
  assumes "s6_resolve s addr len acc = Some p"
  obtains r where "s6_region_of s r" "rg_access r AND acc = acc" "unat (rg_start r) \<le> unat addr"
    "unat addr + unat len \<le> unat (rg_start r) + unat (rg_size r)"
    "p = rg_base r + (unat addr - unat (rg_start r))"
proof -
  from assms obtain rs i where rs: "s6_regions s = Some rs"
    and i: "find_index (s6_covers addr len acc) (take (unat (s6_region_count s)) rs) = Some i"
    and p: "p = rg_base (rs ! i) + unat (addr - rg_start (rs ! i))"
    by (auto simp: s6_resolve_def split: option.splits)
  note d = find_index_take_SomeD [OF i]
  then have c: "s6_covers addr len acc (rs ! i)" by simp
  have "rs ! i \<in> set (take (unat (s6_region_count s)) rs)"
    using d by (auto simp: in_set_conv_nth)
  moreover have "unat (addr - rg_start (rs ! i)) = unat addr - unat (rg_start (rs ! i))"
    using c by (simp add: s6_covers_iff unat_sub_if')
  ultimately show thesis
    using rs c p by (intro that [of "rs ! i"]) (auto simp: s6_region_of_def s6_covers_iff)
qed

lemma s6_resolve_None:
  "s6_resolve s addr len acc = None \<longleftrightarrow> \<not> (\<exists>r. s6_region_of s r \<and> s6_covers addr len acc r)"
  by (auto simp: s6_resolve_def s6_region_of_def find_index_None_iff
      dest: find_index_Some_ex split: option.splits)

lemma length_mem_read [simp]: "length (mem_read m p n) = n"
  by (simp add: mem_read_def)

lemma mem_read_write: "mem_read (mem_write m p bs) p (length bs) = bs"
  by (rule nth_equalityI) (simp_all add: mem_read_def mem_write_def)

interpretation s6_load: s1_service obsw_s6_load "\<lambda>_. True"
  by unfold_locales (auto simp: obsw_s6_load_def Let_def intro!: handledI split: option.split)

interpretation s6_dump: s1_service obsw_s6_dump "\<lambda>_. True"
proof unfold_locales
  fix e :: tm_env and tc s assume e: "tm_ok (env_store e)"
  have n: "5 + len = of_nat (length (be_bytes32 addr @ [m] @ mem_read mm p (unat len)))"
    and l: "\<not> 1002 < len \<Longrightarrow> length (be_bytes32 addr @ [m] @ mem_read mm p (unat len)) \<le> 1007"
    for len :: u16 and addr m mm p
    by (simp_all add: word_less_nat_alt)
  show "handled (\<lambda>_. True) tc e s (obsw_s6_dump (Some tc) (Some s) e)"
    using e n l
    by (auto simp: obsw_s6_dump_def Let_def simp del: append.simps intro!: handledI split: option.split)
qed (auto simp: obsw_s6_dump_def split: option.split)

interpretation s6_check: s1_service obsw_s6_check "\<lambda>_. True"
proof unfold_locales
  fix e :: tm_env and tc s assume e: "tm_ok (env_store e)" and wf: "tc_wf tc"
  have "length (take 4 u @ take 2 (drop 4 u)) = 6"
    if "tc_user_data tc = Some u" "\<not> tc_user_data_len tc < 9" for u
    using wf that by (simp add: tc_wf_def word_less_nat_alt)
  with e show "handled (\<lambda>_. True) tc e s (obsw_s6_check (Some tc) (Some s) e)"
    by (auto simp: obsw_s6_check_def Let_def intro!: handledI split: option.split)
qed (auto simp: obsw_s6_check_def split: option.split)

subsection \<open>Load and dump\<close>

lemma s6_load_OK:
  assumes "tc_wf tc" "obsw_s6_load (Some tc) (Some s) e = (0, Some s', e')"
  obtains u p where "tc_user_data tc = Some u" "unat (obsw_be16 (drop 4 u)) + 6 \<le> length u"
    "s6_resolve s (obsw_be32 u) (obsw_be16 (drop 4 u)) OBSW_S6_ACCESS_WRITE = Some p"
    "s' = s\<lparr>s6_mem := mem_write (s6_mem s) p (take (unat (obsw_be16 (drop 4 u))) (drop 6 u))\<rparr>"
proof -
  from assms(2) obtain u p where u: "tc_user_data tc = Some u"
    and len: "\<not> (6 :: u32) + ucast (obsw_be16 (drop 4 u)) > ucast (tc_user_data_len tc)"
    and p: "s6_resolve s (obsw_be32 u) (obsw_be16 (drop 4 u)) OBSW_S6_ACCESS_WRITE = Some p"
      "s' = s\<lparr>s6_mem := mem_write (s6_mem s) p (take (unat (obsw_be16 (drop 4 u))) (drop 6 u))\<rparr>"
    by (auto simp: obsw_s6_load_def Let_def split: option.splits if_splits)
  let ?n = "obsw_be16 (drop 4 u)"
  have c: "unat (ucast ?n :: u32) = unat ?n" "unat (ucast (tc_user_data_len tc) :: u32) = unat (tc_user_data_len tc)"
    by (auto intro: unat_ucast_u16)
  have "unat ((6 :: u32) + ucast ?n) = 6 + unat ?n"
    using u16_less_65536 [of ?n] by (subst unat_add_small) (simp_all only: c, simp_all)
  with len have "6 + unat ?n \<le> unat (tc_user_data_len tc)"
    by (simp add: word_less_nat_alt c del: unsigned_ucast_eq)
  with assms(1) u have "unat ?n + 6 \<le> length u" by (simp add: tc_wf_def)
  with u p show thesis by (intro that [of u p]) simp_all
qed

lemma s6_load_not_OK:
  "obsw_s6_load (Some tc) (Some s) e = (rc, Some s', e') \<Longrightarrow> rc \<noteq> 0 \<Longrightarrow> s' = s"
  by (auto simp: obsw_s6_load_def Let_def split: option.splits if_splits)

lemma s6_dump_does:
  assumes "tm_ok (env_store e)" "tc_user_data tc = Some u" "7 \<le> unat (tc_user_data_len tc)"
    and "unat (obsw_be16 (drop 4 u)) \<le> 1002"
    and "s6_resolve s (obsw_be32 u) (obsw_be16 (drop 4 u)) OBSW_S6_ACCESS_READ = Some p"
  shows "\<exists>e'. obsw_s6_dump (Some tc) (Some s) e
      = (0, Some (s\<lparr>s6_msg_counter := s6_msg_counter s + 1\<rparr>), e')
    \<and> env_does tc e [S1 Accepted,
        Pkt (pus_tm_packet (s6_apid s) (s6_msg_counter s) 6 6 (s6_msg_counter s) 0 (s6_timestamp s)
          (be_bytes32 (obsw_be32 u) @ [u ! 6] @ mem_read (s6_mem s) p (unat (obsw_be16 (drop 4 u))))),
        S1 Done] e'"
proof -
  let ?len = "obsw_be16 (drop 4 u)"
  let ?d = "be_bytes32 (obsw_be32 u) @ [u ! 6] @ mem_read (s6_mem s) p (unat ?len)"
  let ?e1 = "tm_send (s6_apid s) (s6_msg_counter s) 6 6 (s6_timestamp s) (Some ?d) (5 + ?len)
      (snd (obsw_s1_accept_success (Some tc) e))"
  have "env_does tc e (([S1 Accepted] @ [Pkt (pus_tm_packet (s6_apid s) (s6_msg_counter s) 6 6
      (s6_msg_counter s) 0 (s6_timestamp s) ?d)]) @ [S1 Done])
      (snd (obsw_s1_completion_success (Some tc) ?e1))"
    using assms(4) by (intro does_done does_send does_accept assms(1)) simp_all
  moreover have "\<not> tc_user_data_len tc < 7" "\<not> ?len > 1002"
    using assms(3,4) by (simp_all add: word_less_nat_alt)
  ultimately show ?thesis
    using assms(2,5) by (simp add: obsw_s6_dump_def Let_def)
qed

subsection \<open>Properties\<close>

text \<open>
  C40: The ground cannot write outside the writable regions.  Whatever TC(6,2) carries, a
  byte of local memory differs afterwards only if the command was accepted, the whole
  ground range lies in one region that grants writing, without any wrap of the 32-bit
  addresses, and the byte lies in that region's memory, at the place the ground address
  stands for, where it now has the byte of the command.
\<close>

theorem s6_load_confined:
  assumes "tc_wf tc" and "obsw_s6_load (Some tc) (Some s) e = (rc, Some s', e')"
    and "s6_mem s' a \<noteq> s6_mem s a"
  shows "rc = 0 \<and> (\<exists>u r. tc_user_data tc = Some u \<and> s6_region_of s r
    \<and> rg_access r AND OBSW_S6_ACCESS_WRITE = OBSW_S6_ACCESS_WRITE
    \<and> unat (rg_start r) \<le> unat (obsw_be32 u)
    \<and> unat (obsw_be32 u) + unat (obsw_be16 (drop 4 u)) \<le> unat (rg_start r) + unat (rg_size r)
    \<and> rg_base r \<le> a \<and> a < rg_base r + unat (rg_size r)
    \<and> s6_mem s' a = u ! (6 + (a - rg_base r - (unat (obsw_be32 u) - unat (rg_start r)))))"
proof -
  have rc: "rc = 0" using s6_load_not_OK [OF assms(2)] assms(3) by auto
  with assms(2) have "obsw_s6_load (Some tc) (Some s) e = (0, Some s', e')" by simp
  then obtain u p where u: "tc_user_data tc = Some u" "unat (obsw_be16 (drop 4 u)) + 6 \<le> length u"
    and p: "s6_resolve s (obsw_be32 u) (obsw_be16 (drop 4 u)) OBSW_S6_ACCESS_WRITE = Some p"
    and s': "s' = s\<lparr>s6_mem := mem_write (s6_mem s) p (take (unat (obsw_be16 (drop 4 u))) (drop 6 u))\<rparr>"
    using s6_load_OK [OF assms(1)] by metis
  from p obtain r where r: "s6_region_of s r" "rg_access r AND 2 = 2" "unat (rg_start r) \<le> unat (obsw_be32 u)"
    "unat (obsw_be32 u) + unat (obsw_be16 (drop 4 u)) \<le> unat (rg_start r) + unat (rg_size r)"
    "p = rg_base r + (unat (obsw_be32 u) - unat (rg_start r))"
    by (rule s6_resolve_SomeD)
  have l: "length (take (unat (obsw_be16 (drop 4 u))) (drop 6 u)) = unat (obsw_be16 (drop 4 u))"
    using u(2) by simp
  have a: "p \<le> a" "a < p + unat (obsw_be16 (drop 4 u))"
    "s6_mem s' a = take (unat (obsw_be16 (drop 4 u))) (drop 6 u) ! (a - p)"
    using assms(3) unfolding s' by (simp_all add: mem_write_def l split: if_splits)
  then have "s6_mem s' a = u ! (6 + (a - p))" using u(2) by simp
  moreover have "a - p = a - rg_base r - (unat (obsw_be32 u) - unat (rg_start r))"
    using r(5) by simp
  ultimately show ?thesis
    using rc u(1) r a by (intro conjI exI [of _ u] exI [of _ r]) simp_all
qed

lemma s6_load_confined_witness:
  "\<exists>r. s6_region_of \<lparr>s6_apid = 1, s6_msg_counter = 0, s6_timestamp = 0,
        s6_regions = Some [\<lparr>rg_start = 0xFFFFFF00, rg_size = 0x100, rg_base = 500, rg_access = 3\<rparr>],
        s6_region_count = 1, s6_mem = (\<lambda>_. 0)\<rparr> r
    \<and> rg_access r AND OBSW_S6_ACCESS_WRITE = OBSW_S6_ACCESS_WRITE \<and> rg_base r \<le> 755
    \<and> 755 < rg_base r + unat (rg_size r)"
proof -
  let ?tc = "\<lparr>tc_apid = 1, tc_service = 6, tc_subservice = 2, tc_seq_count = 0,
      tc_user_data = Some [0xFF, 0xFF, 0xFF, 0xFF, 0, 1, 9], tc_user_data_len = 7\<rparr>"
  let ?s = "\<lparr>s6_apid = 1, s6_msg_counter = 0, s6_timestamp = 0,
        s6_regions = Some [\<lparr>rg_start = 0xFFFFFF00, rg_size = 0x100, rg_base = 500, rg_access = 3\<rparr>],
        s6_region_count = 1, s6_mem = (\<lambda>_. 0)\<rparr>"
  let ?e = "\<lparr>env_s1 = None, env_store = None\<rparr>"
  have wf: "tc_wf ?tc" by (simp add: tc_wf_def)
  have load: "obsw_s6_load (Some ?tc) (Some ?s) ?e
      = (0, Some (?s\<lparr>s6_mem := mem_write (\<lambda>_. 0) 755 [9]\<rparr>), ?e)"
    by (simp add: obsw_s6_load_def s6_resolve_def s6_covers_def obsw_be32_def obsw_be16_def
        obsw_s1_accept_success_def obsw_s1_completion_success_def)
  have "s6_mem (?s\<lparr>s6_mem := mem_write (\<lambda>_. 0) 755 [9]\<rparr>) 755 \<noteq> s6_mem ?s 755"
    by (simp add: mem_write_def)
  from s6_load_confined [OF wf load this] show ?thesis by blast
qed

text \<open>
  What was loaded is what is dumped.  After an accepted TC(6,2), a TC(6,9) for the same
  ground range reports the address, the memory ID it was given and exactly the bytes that
  were loaded, provided the range is readable through the same memory it was written to.
\<close>

theorem s6_load_then_dump:
  assumes "tc_wf tc" and "obsw_s6_load (Some tc) (Some s) e = (0, Some s', e')"
    and "tc_user_data tc = Some u" and "unat (obsw_be16 (drop 4 u)) \<le> 1002"
    and "s6_resolve s (obsw_be32 u) (obsw_be16 (drop 4 u)) OBSW_S6_ACCESS_READ
      = s6_resolve s (obsw_be32 u) (obsw_be16 (drop 4 u)) OBSW_S6_ACCESS_WRITE"
    and "tm_ok (env_store e2)" and "tc_user_data tc2 = Some (take 6 u @ [mem_id])"
    and "tc_user_data_len tc2 = 7"
  shows "\<exists>e3. obsw_s6_dump (Some tc2) (Some s') e2
      = (0, Some (s'\<lparr>s6_msg_counter := s6_msg_counter s' + 1\<rparr>), e3)
    \<and> env_does tc2 e2 [S1 Accepted,
        Pkt (pus_tm_packet (s6_apid s') (s6_msg_counter s') 6 6 (s6_msg_counter s') 0 (s6_timestamp s')
          (be_bytes32 (obsw_be32 u) @ [mem_id] @ take (unat (obsw_be16 (drop 4 u))) (drop 6 u))),
        S1 Done] e3"
proof -
  let ?n = "obsw_be16 (drop 4 u)" and ?d = "take (unat (obsw_be16 (drop 4 u))) (drop 6 u)"
    and ?u2 = "take 6 u @ [mem_id]"
  obtain p where l: "unat ?n + 6 \<le> length u"
    and p: "s6_resolve s (obsw_be32 u) ?n OBSW_S6_ACCESS_WRITE = Some p"
    and s': "s' = s\<lparr>s6_mem := mem_write (s6_mem s) p ?d\<rparr>"
    using s6_load_OK [OF assms(1,2)] assms(3) by (metis option.inject)
  have be: "obsw_be32 ?u2 = obsw_be32 u" "obsw_be16 (drop 4 ?u2) = ?n" "?u2 ! 6 = mem_id"
    using l by (simp_all add: obsw_be32_def obsw_be16_def nth_append)
  have "s6_resolve s' = s6_resolve s" by (simp add: s' s6_resolve_def fun_eq_iff split: option.split)
  with assms(5) p have res: "s6_resolve s' (obsw_be32 u) ?n OBSW_S6_ACCESS_READ = Some p" by simp
  have ld: "length ?d = unat ?n" using l by simp
  have "mem_read (s6_mem s') p (unat ?n) = ?d"
    using mem_read_write [of "s6_mem s" p ?d] unfolding ld by (simp add: s')
  with s6_dump_does [OF assms(6,7), of s' p] assms(4,8) res be show ?thesis by simp
qed

lemma s6_load_then_dump_witness:
  "\<exists>e3. obsw_s6_dump
      (Some \<lparr>tc_apid = 1, tc_service = 6, tc_subservice = 9, tc_seq_count = 1,
             tc_user_data = Some [0, 0, 0, 2, 0, 1, 7], tc_user_data_len = 7\<rparr>)
      (Some \<lparr>s6_apid = 1, s6_msg_counter = 0, s6_timestamp = 0,
             s6_regions = Some [\<lparr>rg_start = 0, rg_size = 4, rg_base = 100, rg_access = 3\<rparr>],
             s6_region_count = 1, s6_mem = mem_write (\<lambda>_. 0) 102 [9]\<rparr>)
      \<lparr>env_s1 = None, env_store = Some tm_store_bss\<rparr>
    = (0, Some \<lparr>s6_apid = 1, s6_msg_counter = 1, s6_timestamp = 0,
             s6_regions = Some [\<lparr>rg_start = 0, rg_size = 4, rg_base = 100, rg_access = 3\<rparr>],
             s6_region_count = 1, s6_mem = mem_write (\<lambda>_. 0) 102 [9]\<rparr>, e3)"
proof -
  let ?tc = "\<lparr>tc_apid = 1, tc_service = 6, tc_subservice = 2, tc_seq_count = 0,
      tc_user_data = Some [0, 0, 0, 2, 0, 1, 9], tc_user_data_len = 7\<rparr>"
  let ?s = "\<lparr>s6_apid = 1, s6_msg_counter = 0, s6_timestamp = 0,
             s6_regions = Some [\<lparr>rg_start = 0, rg_size = 4, rg_base = 100, rg_access = 3\<rparr>],
             s6_region_count = 1, s6_mem = (\<lambda>_. 0)\<rparr>"
  let ?e = "\<lparr>env_s1 = None, env_store = None\<rparr>"
  have wf: "tc_wf ?tc" by (simp add: tc_wf_def)
  have load: "obsw_s6_load (Some ?tc) (Some ?s) ?e
      = (0, Some (?s\<lparr>s6_mem := mem_write (\<lambda>_. 0) 102 [9]\<rparr>), ?e)"
    by (simp add: obsw_s6_load_def s6_resolve_def s6_covers_def obsw_be32_def obsw_be16_def
        obsw_s1_accept_success_def obsw_s1_completion_success_def)
  from s6_load_then_dump [OF wf load, of "[0, 0, 0, 2, 0, 1, 9]"
      "\<lparr>env_s1 = None, env_store = Some tm_store_bss\<rparr>"
      "\<lparr>tc_apid = 1, tc_service = 6, tc_subservice = 9, tc_seq_count = 1,
             tc_user_data = Some [0, 0, 0, 2, 0, 1, 7], tc_user_data_len = 7\<rparr>" 7]
  show ?thesis by (auto simp: s6_resolve_def s6_covers_def obsw_be32_def obsw_be16_def)
qed

end
