(* ===== verification/Pus_S8.thy ===== *)
theory Pus_S8
  imports Pus_S1
begin

section \<open>Service 8, function management\<close>

text \<open>
  \<^verbatim>\<open>src/pus/s8.c\<close>: the function table and TC(8,1).  An on-board function acts on a world
  \<open>'w\<close>, the objects behind the context pointers of the table, and may send telemetry; the
  handler's state is the S8 context together with that world.
\<close>

record 'w obsw_s8_entry =
  s8_function_id :: u16
  s8_fn :: "u8 list option \<Rightarrow> u8 \<Rightarrow> 'w \<times> tm_env \<Rightarrow> int \<times> 'w \<times> tm_env"

record 'w obsw_s8_ctx =
  s8_table :: "'w obsw_s8_entry list"
  s8_table_len :: u8

definition obsw_s8_perform ::
  "obsw_tc option \<Rightarrow> ('w obsw_s8_ctx \<times> 'w) option \<Rightarrow> tm_env
   \<Rightarrow> int \<times> ('w obsw_s8_ctx \<times> 'w) option \<times> tm_env" where
  "obsw_s8_perform tc ctx e =
    (case (ctx, tc) of
       (Some (s, w), Some t) \<Rightarrow>
         (case tc_user_data t of
            None \<Rightarrow> (-1, ctx, snd (obsw_s1_accept_failure tc OBSW_S1_FAIL_ILLEGAL_APP_DATA e))
          | Some u \<Rightarrow>
              if tc_user_data_len t < 3
              then (-1, ctx, snd (obsw_s1_accept_failure tc OBSW_S1_FAIL_ILLEGAL_APP_DATA e))
              else
                let fn_id = obsw_be16 u; args_len = u ! 2 in
                if 3 + ucast args_len > tc_user_data_len t
                then (-1, ctx, snd (obsw_s1_accept_failure tc OBSW_S1_FAIL_ILLEGAL_APP_DATA e))
                else
                  let args = (if args_len > 0 then Some (drop 3 u) else None) in
                  case find_index (\<lambda>en. s8_function_id en = fn_id)
                         (take (unat (s8_table_len s)) (s8_table s)) of
                    None \<Rightarrow> (-1, ctx, snd (obsw_s1_accept_failure tc OBSW_S1_FAIL_EXEC_ERROR e))
                  | Some i \<Rightarrow>
                      let e1 = snd (obsw_s1_accept_success tc e) in
                      case s8_fn (s8_table s ! i) args args_len (w, e1) of
                        (rc, w', e2) \<Rightarrow>
                          if rc = 0 then (0, Some (s, w'), snd (obsw_s1_completion_success tc e2))
                          else (-1, Some (s, w'),
                                snd (obsw_s1_completion_failure tc OBSW_S1_FAIL_EXEC_ERROR e2)))
     | _ \<Rightarrow> (-1, ctx, e))"

subsection \<open>Lemmas\<close>

text \<open>
  What S8 relies on: a function of the table keeps the world's invariant and sends no S1
  reports of its own.
\<close>

definition s8_fn_ok :: "('w \<Rightarrow> bool) \<Rightarrow> 'w obsw_s8_entry \<Rightarrow> bool" where
  "s8_fn_ok I en \<longleftrightarrow>
    (\<forall>args n w e tc. I w \<longrightarrow> tm_ok (env_store e) \<longrightarrow>
      (\<exists>rc w' e' mid. s8_fn en args n (w, e) = (rc, w', e') \<and> I w' \<and> no_s1 mid \<and> env_does tc e mid e'))"

definition s8_inv :: "('w \<Rightarrow> bool) \<Rightarrow> 'w obsw_s8_ctx \<times> 'w \<Rightarrow> bool" where
  "s8_inv I sw \<longleftrightarrow> I (snd sw) \<and> list_all (s8_fn_ok I) (s8_table (fst sw))"

lemma s8_handled:
  assumes "tm_ok (env_store e)" "s8_inv I s"
  shows "handled (s8_inv I) tc e s (obsw_s8_perform (Some tc) (Some s) e)"
proof -
  obtain c w where s: "s = (c, w)" by (cases s)
  have inner: "handled (s8_inv I) tc e s
      (case s8_fn (s8_table c ! i) args n (w, snd (obsw_s1_accept_success (Some tc) e)) of
         (rc, w', e2) \<Rightarrow>
           if rc = 0 then (0, Some (c, w'), snd (obsw_s1_completion_success (Some tc) e2))
           else (-1, Some (c, w'), snd (obsw_s1_completion_failure (Some tc) OBSW_S1_FAIL_EXEC_ERROR e2)))"
    if i: "find_index P (take k (s8_table c)) = Some i" for P k i args n
  proof -
    let ?e1 = "snd (obsw_s1_accept_success (Some tc) e)"
    have e1: "env_does tc e [S1 Accepted] ?e1" using assms(1) by (rule does_accept)
    have "s8_fn_ok I (s8_table c ! i)"
      using assms(2) find_index_take_SomeD [OF i] by (simp add: s8_inv_def s list_all_length)
    then obtain rc w' e' mid where f: "s8_fn (s8_table c ! i) args n (w, ?e1) = (rc, w', e')"
      "I w'" "no_s1 mid" "env_does tc ?e1 mid e'"
      using assms(2) env_does_ok [OF e1] by (fastforce simp: s8_fn_ok_def s8_inv_def s)
    have t: "s8_inv I (c, w')" using assms(2) f(2) by (simp add: s8_inv_def s)
    have "env_does tc e (S1 Accepted # mid) e'" using e1 f(4) by (rule env_does_Cons)
    then have "env_does tc e (S1 Accepted # mid @ [S1 Done]) (snd (obsw_s1_completion_success (Some tc) e'))"
      and "env_does tc e (S1 Accepted # mid @ [S1 (Failed OBSW_S1_FAIL_EXEC_ERROR)])
        (snd (obsw_s1_completion_failure (Some tc) OBSW_S1_FAIL_EXEC_ERROR e'))"
      using does_done does_failed by fastforce+
    with f t show ?thesis by (auto intro: handled_done handled_failed)
  qed
  show ?thesis
    using assms inner
    by (auto simp: obsw_s8_perform_def s Let_def intro!: handled_refused split: option.split)
qed

interpretation s8: s1_service obsw_s8_perform "s8_inv I" for I
proof unfold_locales
  show "handled (s8_inv I) tc e s (obsw_s8_perform (Some tc) (Some s) e)"
    if "tm_ok (env_store e)" "s8_inv I s" for e :: tm_env and tc s
    using that by (rule s8_handled)
qed (auto simp: obsw_s8_perform_def split: option.split)

text \<open>Which function runs: the first entry with the ID, once, with the bytes the TC carries.\<close>

lemma s8_perform_runs:
  assumes "tc_user_data tc = Some u" "3 + unat (u ! 2) \<le> unat (tc_user_data_len tc)"
    and "i < unat (s8_table_len s)" "i < length (s8_table s)"
    and "s8_function_id (s8_table s ! i) = obsw_be16 u"
    and "\<And>j. j < i \<Longrightarrow> s8_function_id (s8_table s ! j) \<noteq> obsw_be16 u"
  shows "obsw_s8_perform (Some tc) (Some (s, w)) e =
    (case s8_fn (s8_table s ! i) (if u ! 2 > 0 then Some (drop 3 u) else None) (u ! 2)
            (w, snd (obsw_s1_accept_success (Some tc) e)) of
       (rc, w', e2) \<Rightarrow>
         if rc = 0 then (0, Some (s, w'), snd (obsw_s1_completion_success (Some tc) e2))
         else (-1, Some (s, w'), snd (obsw_s1_completion_failure (Some tc) OBSW_S1_FAIL_EXEC_ERROR e2)))"
proof -
  have a: "unat (ucast (u ! 2) :: u16) = unat (u ! 2)" by (intro unat_ucast_u8) simp
  have "unat (3 + ucast (u ! 2) :: u16) = 3 + unat (u ! 2)"
    using u8_less_256 [of "u ! 2"] by (subst unat_add_small) (simp_all only: a, simp_all)
  then have "\<not> 3 + ucast (u ! 2) > tc_user_data_len tc" "\<not> tc_user_data_len tc < 3"
    using assms(2) by (simp_all add: word_less_nat_alt)
  moreover have "find_index (\<lambda>en. s8_function_id en = obsw_be16 u)
      (take (unat (s8_table_len s)) (s8_table s)) = Some i"
    using assms(3-6) by (intro find_index_SomeI) simp_all
  ultimately show ?thesis
    using assms(1) by (simp add: obsw_s8_perform_def Let_def)
qed

end
