(* ===== verification/Pus_S9.thy ===== *)
theory Pus_S9
  imports Pus_S1 Obt
begin

section \<open>Service 9, time management\<close>

text \<open>
  \<^verbatim>\<open>src/pus/s9.c\<close>: the set-time handler.  The context's clock pointer may be \<open>NULL\<close>; the
  clock is the context.
\<close>

record obsw_s9_ctx =
  s9_obt :: "obsw_obt option"

definition obsw_s9_set_obt ::
  "obsw_tc option \<Rightarrow> obsw_s9_ctx option \<Rightarrow> tm_env \<Rightarrow> int \<times> obsw_s9_ctx option \<times> tm_env" where
  "obsw_s9_set_obt tc ctx e =
    (case (ctx, tc) of
       (Some s, Some t) \<Rightarrow>
         (case tc_user_data t of
            Some u \<Rightarrow>
              if tc_user_data_len t < 6
              then (-1, ctx, snd (obsw_s1_accept_failure tc OBSW_S1_FAIL_ILLEGAL_APP_DATA e))
              else
                let coarse = obsw_be32 u; fine = obsw_be16 (drop 4 u);
                    e1 = snd (obsw_s1_accept_success tc e);
                    s' = s\<lparr>s9_obt := obsw_obt_set (s9_obt s) coarse fine\<rparr>
                in (0, Some s', snd (obsw_s1_completion_success tc e1))
          | None \<Rightarrow> (-1, ctx, snd (obsw_s1_accept_failure tc OBSW_S1_FAIL_ILLEGAL_APP_DATA e)))
     | _ \<Rightarrow> (-1, ctx, e))"

interpretation s9: s1_service obsw_s9_set_obt "\<lambda>_. True"
  by unfold_locales
    (auto simp: obsw_s9_set_obt_def Let_def intro!: handledI split: option.split)

end
