(* ===== verification/Pus_S17.thy ===== *)
theory Pus_S17
  imports Pus_S1
begin

section \<open>Service 17, are-you-alive\<close>

text \<open>\<^verbatim>\<open>src/pus/s17.c\<close>: the ping handler, and that it keeps the contract of a handler.\<close>

record obsw_s17_ctx =
  s17_apid :: u16
  s17_msg_counter :: u16
  s17_timestamp :: u32

definition obsw_s17_ping ::
  "obsw_tc option \<Rightarrow> obsw_s17_ctx option \<Rightarrow> tm_env \<Rightarrow> int \<times> obsw_s17_ctx option \<times> tm_env" where
  "obsw_s17_ping tc ctx e =
    (case (ctx, tc) of
       (Some s, Some _) \<Rightarrow>
         let e1 = snd (obsw_s1_accept_success tc e);
             seq = s17_msg_counter s;
             s' = s\<lparr>s17_msg_counter := seq + 1\<rparr>;
             e2 = tm_send (s17_apid s) seq 17 2 (s17_timestamp s) None 0 e1
         in (0, Some s', snd (obsw_s1_completion_success tc e2))
     | _ \<Rightarrow> (-1, ctx, e))"

interpretation s17: s1_service obsw_s17_ping "\<lambda>_. True"
  by unfold_locales
    (auto simp: obsw_s17_ping_def tm_send_no_data Let_def intro!: handledI split: option.split)

text \<open>
  A ping is answered.  With an S1 context and room for three packets, TC(17,1) queues
  exactly TM(1,1), TM(17,2) and TM(1,7), in this order and each with its service's counter,
  and advances both counters.
\<close>

theorem s17_ping_answers:
  assumes "tm_ok (env_store e)" and "env_s1 e = Some c" and "env_store e \<noteq> None"
    and "length (tm_queue (env_store e)) \<le> 28"
  shows "\<exists>e'. obsw_s17_ping (Some tc) (Some s) e
      = (0, Some (s\<lparr>s17_msg_counter := s17_msg_counter s + 1\<rparr>), e')
    \<and> env_s1 e' = Some (c\<lparr>s1_msg_counter := s1_msg_counter c + 2\<rparr>)
    \<and> tm_queue (env_store e') = tm_queue (env_store e) @
       [s1_packet c tc Accepted,
        pus_tm_packet (s17_apid s) (s17_msg_counter s) 17 2 (s17_msg_counter s) 0 (s17_timestamp s) [],
        s1_packet (c\<lparr>s1_msg_counter := s1_msg_counter c + 1\<rparr>) tc Done]"
proof -
  let ?r = "obsw_s17_ping (Some tc) (Some s) e"
  have "env_does tc e (([S1 Accepted] @ [Pkt (pus_tm_packet (s17_apid s) (s17_msg_counter s) 17 2
      (s17_msg_counter s) 0 (s17_timestamp s) [])]) @ [S1 Done]) (snd (snd ?r))"
    unfolding obsw_s17_ping_def Let_def option.case prod.case snd_conv tm_send_no_data
    by (intro does_done does_send does_accept) (simp_all add: assms)
  moreover have "obsw_s17_ping (Some tc) (Some s) e
      = (0, Some (s\<lparr>s17_msg_counter := s17_msg_counter s + 1\<rparr>), snd (snd ?r))"
    by (simp add: obsw_s17_ping_def Let_def)
  ultimately show ?thesis
    using assms by (intro exI [of _ "snd (snd ?r)"]) (simp add: env_does_def tm_offered_def)
qed

lemma s17_ping_answers_witness:
  "\<exists>e'. obsw_s17_ping (Some \<lparr>tc_apid = 100, tc_service = 17, tc_subservice = 1, tc_seq_count = 5,
        tc_user_data = None, tc_user_data_len = 0\<rparr>)
      (Some \<lparr>s17_apid = 1, s17_msg_counter = 65535, s17_timestamp = 7\<rparr>)
      \<lparr>env_s1 = Some \<lparr>s1_apid = 1, s1_msg_counter = 3, s1_timestamp = 7\<rparr>, env_store = Some tm_store_bss\<rparr>
    = (0, Some \<lparr>s17_apid = 1, s17_msg_counter = 0, s17_timestamp = 7\<rparr>, e')
    \<and> length (tm_queue (env_store e')) = 3"
  using s17_ping_answers [of "\<lparr>env_s1 = Some \<lparr>s1_apid = 1, s1_msg_counter = 3, s1_timestamp = 7\<rparr>,
        env_store = Some tm_store_bss\<rparr>" "\<lparr>s1_apid = 1, s1_msg_counter = 3, s1_timestamp = 7\<rparr>"
      "\<lparr>tc_apid = 100, tc_service = 17, tc_subservice = 1, tc_seq_count = 5,
        tc_user_data = None, tc_user_data_len = 0\<rparr>"
      "\<lparr>s17_apid = 1, s17_msg_counter = 65535, s17_timestamp = 7\<rparr>"]
  by auto

end
