(* ===== verification/Float32.thy ===== *)
theory Float32
  imports Obsw_Prelude
begin

section \<open>The binary32 format\<close>

text \<open>
  A \<open>float\<close> of the code is its 32 bits, as the parameter tables store it.  What S12 does with
  floats is here: the comparison, the test for a NaN and the conversions from 32-bit
  integers (round to nearest, ties to even, the default mode of IEC 60559, which the code
  never changes).  The lemmas relate the bits to the numbers they stand for, counted in
  units of the smallest subnormal, \<open>2 ^ (-149)\<close>.
\<close>

type_synonym f32 = u32

definition f32_mag :: "f32 \<Rightarrow> nat" where
  "f32_mag x = unat (x AND 0x7FFFFFFF)"

definition f32_neg :: "f32 \<Rightarrow> bool" where
  "f32_neg x \<longleftrightarrow> bit x 31"

definition f32_is_nan :: "f32 \<Rightarrow> bool" where
  "f32_is_nan x \<longleftrightarrow> f32_mag x > 0x7F800000"

text \<open>
  Sign and magnitude as an integer; the order of floats that are not NaN is that of these,
  with both zeros equal.
\<close>

definition f32_key :: "f32 \<Rightarrow> int" where
  "f32_key x = (if f32_neg x then - int (f32_mag x) else int (f32_mag x))"

definition f32_lt :: "f32 \<Rightarrow> f32 \<Rightarrow> bool" where
  "f32_lt x y \<longleftrightarrow> \<not> f32_is_nan x \<and> \<not> f32_is_nan y \<and> f32_key x < f32_key y"

subsection \<open>Conversion from integers\<close>

fun bit_length :: "nat \<Rightarrow> nat" where
  "bit_length n = (if n = 0 then 0 else Suc (bit_length (n div 2)))"

declare bit_length.simps [simp del]

text \<open>A quotient, rounded to nearest, ties to even.\<close>

definition rne_div :: "nat \<Rightarrow> nat \<Rightarrow> nat" where
  "rne_div n d =
    (let q = n div d; r = 2 * (n mod d) in if r > d \<or> (r = d \<and> odd q) then q + 1 else q)"

definition f32_of_nat :: "nat \<Rightarrow> f32" where
  "f32_of_nat n =
    (if n = 0 then 0
     else let l = bit_length n - 1;
              m = (if l \<le> 23 then n * 2 ^ (23 - l) else rne_div n (2 ^ (l - 23)))
          in of_nat ((l + 127) * 2 ^ 23 + m - 2 ^ 23))"

definition f32_of_u32 :: "u32 \<Rightarrow> f32" where
  "f32_of_u32 x = f32_of_nat (unat x)"

definition f32_of_i32 :: "u32 \<Rightarrow> f32" where
  "f32_of_i32 x = (if sint x < 0 then 0x80000000 OR f32_of_nat (nat (- sint x)) else f32_of_nat (nat (sint x)))"

subsection \<open>Values\<close>

text \<open>The absolute value of the finite float with these magnitude bits, in units of \<open>2 ^ (-149)\<close>.\<close>

definition f32_units :: "nat \<Rightarrow> nat" where
  "f32_units m = (let e = m div 2 ^ 23; f = m mod 2 ^ 23
     in if e = 0 then f else (2 ^ 23 + f) * 2 ^ (e - 1))"

definition f32_value :: "f32 \<Rightarrow> int" where
  "f32_value x = (if f32_neg x then - int (f32_units (f32_mag x)) else int (f32_units (f32_mag x)))"

lemma f32_units_strict_mono:
  assumes "m < n"
  shows "f32_units m < f32_units n"
proof -
  define e f e' f' where d: "e = m div 2 ^ 23" "f = m mod 2 ^ 23" "e' = n div 2 ^ 23" "f' = n mod 2 ^ 23"
  have f: "f < 2 ^ 23" "f' < 2 ^ 23" by (simp_all add: d)
  have mn: "m = e * 2 ^ 23 + f" "n = e' * 2 ^ 23 + f'" by (simp_all add: d)
  have le: "e \<le> e'" unfolding d using assms by (intro div_le_mono) simp
  have u: "f32_units m = (if e = 0 then f else (2 ^ 23 + f) * 2 ^ (e - 1))"
    "f32_units n = (if e' = 0 then f' else (2 ^ 23 + f') * 2 ^ (e' - 1))"
    by (simp_all add: f32_units_def d Let_def)
  show ?thesis
  proof (cases "e = e'")
    case True
    then have "f < f'" using assms mn by simp
    with True show ?thesis by (simp add: u)
  next
    case False
    with le obtain k where k: "e' = Suc k" "e \<le> k" by (cases e') auto
    have "f32_units m < 2 ^ 23 * 2 ^ k"
    proof (cases e)
      case 0
      have "f32_units m < 2 ^ 23 * 1" using f(1) 0 by (simp add: u)
      also have "\<dots> \<le> 2 ^ 23 * 2 ^ k" by (intro mult_le_mono2) simp
      finally show ?thesis .
    next
      case (Suc j)
      have "f32_units m < (2 ^ 23 + 2 ^ 23) * 2 ^ j" using f(1) Suc by (simp add: u)
      also have "\<dots> = 2 ^ 23 * 2 ^ Suc j" by simp
      also have "\<dots> \<le> 2 ^ 23 * 2 ^ k" using k(2) Suc by (intro mult_le_mono2 power_increasing) simp_all
      finally show ?thesis .
    qed
    also have "\<dots> \<le> f32_units n" by (simp add: u k(1))
    finally show ?thesis .
  qed
qed

lemma f32_units_less_iff: "f32_units m < f32_units n \<longleftrightarrow> m < n"
  using f32_units_strict_mono by (metis linorder_neqE_nat order_less_asym order_less_irrefl)

lemma f32_units_0 [simp]: "f32_units 0 = 0" by (simp add: f32_units_def)

lemma f32_units_eq_0_iff: "f32_units m = 0 \<longleftrightarrow> m = 0"
  using f32_units_less_iff [of 0 m] f32_units_0 by (metis gr0I less_nat_zero_code)

lemma sign_magnitude_less:
  fixes a b c d :: nat
  assumes "a < b \<longleftrightarrow> c < d" "b < a \<longleftrightarrow> d < c" "a = 0 \<longleftrightarrow> c = 0" "b = 0 \<longleftrightarrow> d = 0"
  shows "(if s then - int a else int a) < (if t then - int b else int b)
    \<longleftrightarrow> (if s then - int c else int c) < (if t then - int d else int d)"
proof (cases s)
  case True
  with assms show ?thesis by (cases t) (simp, presburger)
next
  case False
  with assms show ?thesis by (cases t) (presburger, simp)
qed

text \<open>The comparison of the model is the comparison of the numbers.\<close>

lemma f32_lt_value:
  assumes "\<not> f32_is_nan x" "\<not> f32_is_nan y"
  shows "f32_lt x y \<longleftrightarrow> f32_value x < f32_value y"
  unfolding f32_lt_def f32_key_def f32_value_def
  using assms by (simp only: simp_thms) (intro sign_magnitude_less f32_units_less_iff [symmetric]
    f32_units_eq_0_iff [symmetric])

lemma f32_lt_nan [simp]: "f32_is_nan x \<or> f32_is_nan y \<Longrightarrow> \<not> f32_lt x y"
  by (auto simp: f32_lt_def)

subsection \<open>Conversion is rounding to nearest\<close>

lemma bit_length_bounds:
  "0 < n \<Longrightarrow> 0 < bit_length n \<and> 2 ^ (bit_length n - 1) \<le> n \<and> n < 2 ^ bit_length n"
proof (induction n rule: bit_length.induct)
  case (1 n)
  show ?case
  proof (cases "n div 2 = 0")
    case True
    with 1 have n: "n = 1" by simp
    have "bit_length 0 = 0" by (subst bit_length.simps) simp
    then have "bit_length n = 1" by (subst bit_length.simps) (simp add: n)
    then show ?thesis by (simp add: n)
  next
    case False
    with 1 have ih: "0 < bit_length (n div 2)" "2 ^ (bit_length (n div 2) - 1) \<le> n div 2"
      "n div 2 < 2 ^ bit_length (n div 2)" by auto
    have b: "bit_length n = Suc (bit_length (n div 2))" using 1(2) by (subst bit_length.simps) simp
    obtain k where k: "bit_length (n div 2) = Suc k" using ih(1) by (cases "bit_length (n div 2)") auto
    have "2 * (n div 2) \<le> n" "n < 2 * (n div 2) + 2" by presburger+
    then show ?thesis using ih(2,3) unfolding b k diff_Suc_1 power_Suc by linarith
  qed
qed

lemma rne_div_bounds:
  assumes "0 < d"
  shows "2 * (rne_div n d * d) \<le> 2 * n + d" and "2 * n \<le> 2 * (rne_div n d * d) + d"
    and "n div d \<le> rne_div n d" and "rne_div n d \<le> n div d + 1"
proof -
  define q r where "q = n div d" and "r = n mod d"
  have n: "n = q * d + r" unfolding q_def r_def by (rule div_mult_mod_eq [symmetric])
  have r: "r < d" using assms by (simp add: r_def)
  have up: "rne_div n d = q + 1 \<Longrightarrow> d \<le> 2 * r" and down: "rne_div n d = q \<Longrightarrow> 2 * r \<le> d"
    by (auto simp: rne_div_def q_def r_def Let_def split: if_splits)
  have c: "rne_div n d = q \<or> rne_div n d = q + 1"
    by (auto simp: rne_div_def q_def Let_def)
  then show "n div d \<le> rne_div n d" "rne_div n d \<le> n div d + 1" by (auto simp: q_def)
  have lin: "2 * (x * d) \<le> 2 * n + d \<and> 2 * n \<le> 2 * (x * d) + d"
    if "x = q \<and> 2 * r \<le> d \<or> x = q + 1 \<and> d \<le> 2 * r" for x
    using that r unfolding n by auto
  show "2 * (rne_div n d * d) \<le> 2 * n + d" "2 * n \<le> 2 * (rne_div n d * d) + d"
    using lin [of "rne_div n d"] c up down by auto
qed

lemma f32_units_encode:
  assumes "2 ^ 23 \<le> m" "m \<le> 2 ^ 24"
  shows "f32_units ((e + 1) * 2 ^ 23 + m - 2 ^ 23) = m * 2 ^ e"
proof (cases "m = 2 ^ 24")
  case True
  have "(e + 1) * 2 ^ 23 + m - 2 ^ 23 = (e + 2) * 2 ^ 23" by (simp add: True)
  then show ?thesis by (simp only: f32_units_def Let_def) (simp add: True)
next
  case False
  define f where "f = m - 2 ^ 23"
  with assms False have f: "f < 2 ^ 23" "m = 2 ^ 23 + f" by simp_all
  have k: "(e + 1) * 2 ^ 23 + m - 2 ^ 23 = (e + 1) * 2 ^ 23 + f" by (simp add: f(2))
  have "((e + 1) * 2 ^ 23 + f) div 2 ^ 23 = e + 1" "((e + 1) * 2 ^ 23 + f) mod 2 ^ 23 = f"
    using f(1) by (simp_all only: div_mult_self3 div_less mod_mult_self3 mod_less power_not_zero) simp_all
  then show ?thesis unfolding k f32_units_def Let_def by (simp add: f(2))
qed

text \<open>
  The conversion is exact up to half a unit in the last place, and exact below \<open>2 ^ 24\<close>;
  for \<open>2 ^ l \<le> n < 2 ^ (l + 1)\<close> the unit in the last place is \<open>2 ^ (l - 23)\<close>.
\<close>

lemma f32_of_nat_spec:
  assumes "0 < n" "n < 2 ^ 32"
  shows "\<not> f32_neg (f32_of_nat n)" "f32_mag (f32_of_nat n) \<le> 0x4F800000"
    and "\<exists>m. f32_units (f32_mag (f32_of_nat n)) = m * 2 ^ (bit_length n + 125)
      \<and> (if bit_length n \<le> 24 then m = n * 2 ^ (24 - bit_length n)
         else 2 * (m * 2 ^ (bit_length n - 24)) \<le> 2 * n + 2 ^ (bit_length n - 24)
           \<and> 2 * n \<le> 2 * (m * 2 ^ (bit_length n - 24)) + 2 ^ (bit_length n - 24))"
proof -
  obtain l where l: "bit_length n = Suc l" "2 ^ l \<le> n" "n < 2 ^ Suc l"
    using bit_length_bounds [OF assms(1)] by (cases "bit_length n") auto
  have "(2::nat) ^ l < 2 ^ 32" using l(2) assms(2) by simp
  then have l32: "l < 32" by (simp only: power_strict_increasing_iff)
  define m where "m = (if l \<le> 23 then n * 2 ^ (23 - l) else rne_div n (2 ^ (l - 23)))"
  have m: "2 ^ 23 \<le> m" "m \<le> 2 ^ 24"
  proof -
    have "2 ^ 23 \<le> m \<and> m \<le> 2 ^ 24"
    proof (cases "l \<le> 23")
      case True
      have p: "(2::nat) ^ l * 2 ^ (23 - l) = 2 ^ 23" "(2::nat) ^ Suc l * 2 ^ (23 - l) = 2 ^ 24"
        using True by (simp_all only: power_add [symmetric]) simp_all
      have "2 ^ l * 2 ^ (23 - l) \<le> m" "m \<le> 2 ^ Suc l * 2 ^ (23 - l)"
        unfolding m_def using l(2,3) True by (simp_all only: if_True mult_le_mono1 less_imp_le)
      then show ?thesis unfolding p by simp
    next
      case False
      then obtain k where k: "l = 23 + k" by (metis le_add_diff_inverse nat_le_linear)
      have "2 ^ 23 \<le> n div 2 ^ k"
        using l(2) by (simp add: k power_add less_eq_div_iff_mult_less_eq)
      moreover have "n div 2 ^ k < 2 ^ 24"
        using l(3) by (simp add: k power_add div_less_iff_less_mult)
      ultimately show ?thesis using rne_div_bounds(3,4) [of "2 ^ k" n] False by (simp add: m_def k)
    qed
    then show "2 ^ 23 \<le> m" "m \<le> 2 ^ 24" by simp_all
  qed
  let ?b = "(l + 127) * 2 ^ 23 + m - 2 ^ 23"
  have b: "?b \<le> 0x4F800000" using l32 m by simp
  have f: "f32_of_nat n = of_nat ?b" using assms(1) by (simp add: f32_of_nat_def l(1) m_def Let_def)
  have u: "unat (of_nat ?b :: u32) = ?b" using b by (intro unat_of_nat_small) simp
  have nb: "\<not> bit (of_nat ?b :: u32) 31"
  proof -
    have "?b div 2 ^ 31 = 0" using b by (intro div_less) simp
    then have "\<not> bit ?b 31" by (simp only: bit_iff_odd) simp
    then have "\<not> bit (unat (of_nat ?b :: u32)) 31" by (simp only: u not_False_eq_True)
    then show ?thesis by (simp add: bit_unsigned_iff)
  qed
  then show "\<not> f32_neg (f32_of_nat n)" by (simp add: f32_neg_def f)
  have "(of_nat ?b :: u32) AND 0x7FFFFFFF = of_nat ?b"
  proof (rule bit_word_eqI)
    fix i assume "i < LENGTH(32)"
    moreover have "bit (0x7FFFFFFF :: u32) i \<longleftrightarrow> i < 31" if "i < 32"
    proof -
      have "(0x7FFFFFFF :: u32) = mask 31" by (simp add: mask_eq_exp_minus_1)
      then show ?thesis using that by (simp only: bit_mask_iff) simp
    qed
    ultimately show "bit ((of_nat ?b :: u32) AND 0x7FFFFFFF) i = bit (of_nat ?b :: u32) i"
      using nb by (cases "i = 31") (auto simp: bit_and_iff simp del: bit_numeral_iff)
  qed
  then have mag: "f32_mag (f32_of_nat n) = ?b" unfolding f32_mag_def f using u by simp
  then show "f32_mag (f32_of_nat n) \<le> 0x4F800000" using b by simp
  have "f32_units ?b = m * 2 ^ (l + 126)" using f32_units_encode [OF m, of "l + 126"] by (simp add: add.commute)
  then show "\<exists>m. f32_units (f32_mag (f32_of_nat n)) = m * 2 ^ (bit_length n + 125)
      \<and> (if bit_length n \<le> 24 then m = n * 2 ^ (24 - bit_length n)
         else 2 * (m * 2 ^ (bit_length n - 24)) \<le> 2 * n + 2 ^ (bit_length n - 24)
           \<and> 2 * n \<le> 2 * (m * 2 ^ (bit_length n - 24)) + 2 ^ (bit_length n - 24))"
    unfolding mag using rne_div_bounds(1,2) [of "2 ^ (l - 23)" n]
    by (intro exI [of _ m]) (auto simp: l(1) m_def)
qed

end
