(* ===== verification/Pus_S20.thy ===== *)
theory Pus_S20
  imports Pus_S1 Float32
begin

section \<open>Service 20, parameter management\<close>

text \<open>
  \<^verbatim>\<open>src/pus/s20.c\<close>: the parameter table, set and get.  A value is its 32 raw bits (the
  union of the code).  The lemmas show a set parameter is the one read back, and no other changes.
\<close>

datatype obsw_s20_type = OBSW_S20_U32 | OBSW_S20_I32 | OBSW_S20_F32

record obsw_s20_param =
  s20_param_id :: u16
  s20_value :: u32
  s20_type :: obsw_s20_type

record obsw_s20_ctx =
  s20_apid :: u16
  s20_msg_counter :: u16
  s20_timestamp :: u32
  s20_table :: "obsw_s20_param list"
  s20_table_len :: u8

definition s20_find_param :: "obsw_s20_ctx \<Rightarrow> u16 \<Rightarrow> nat option" where
  "s20_find_param s pid =
    find_index (\<lambda>p. s20_param_id p = pid) (take (unat (s20_table_len s)) (s20_table s))"

text \<open>The new context, \<open>emit_tm20_2\<close> advancing its counter, and the environment.\<close>

definition emit_tm20_2 :: "obsw_s20_ctx \<Rightarrow> u16 \<Rightarrow> u32 \<Rightarrow> tm_env \<Rightarrow> obsw_s20_ctx \<times> tm_env" where
  "emit_tm20_2 s param_id val e =
    (let body = be_bytes16 param_id @ be_bytes32 val;
         seq = s20_msg_counter s
     in (s\<lparr>s20_msg_counter := seq + 1\<rparr>,
         tm_send (s20_apid s) seq 20 2 (s20_timestamp s) (Some body) 6 e))"

definition obsw_s20_set ::
  "obsw_tc option \<Rightarrow> obsw_s20_ctx option \<Rightarrow> tm_env \<Rightarrow> int \<times> obsw_s20_ctx option \<times> tm_env" where
  "obsw_s20_set tc ctx e =
    (case (ctx, tc) of
       (Some s, Some t) \<Rightarrow>
         (case tc_user_data t of
            None \<Rightarrow> (-1, ctx, snd (obsw_s1_accept_failure tc OBSW_S1_FAIL_ILLEGAL_APP_DATA e))
          | Some u \<Rightarrow>
              if tc_user_data_len t < 6
              then (-1, ctx, snd (obsw_s1_accept_failure tc OBSW_S1_FAIL_ILLEGAL_APP_DATA e))
              else
                let param_id = obsw_be16 u; val = obsw_be32 (drop 2 u) in
                case s20_find_param s param_id of
                  None \<Rightarrow> (-1, ctx, snd (obsw_s1_accept_failure tc OBSW_S1_FAIL_EXEC_ERROR e))
                | Some i \<Rightarrow>
                    let e1 = snd (obsw_s1_accept_success tc e);
                        s' = s\<lparr>s20_table := (s20_table s)[i := (s20_table s ! i)\<lparr>s20_value := val\<rparr>]\<rparr>
                    in (0, Some s', snd (obsw_s1_completion_success tc e1)))
     | _ \<Rightarrow> (-1, ctx, e))"

definition obsw_s20_get ::
  "obsw_tc option \<Rightarrow> obsw_s20_ctx option \<Rightarrow> tm_env \<Rightarrow> int \<times> obsw_s20_ctx option \<times> tm_env" where
  "obsw_s20_get tc ctx e =
    (case (ctx, tc) of
       (Some s, Some t) \<Rightarrow>
         (case tc_user_data t of
            None \<Rightarrow> (-1, ctx, snd (obsw_s1_accept_failure tc OBSW_S1_FAIL_ILLEGAL_APP_DATA e))
          | Some u \<Rightarrow>
              if tc_user_data_len t < 2
              then (-1, ctx, snd (obsw_s1_accept_failure tc OBSW_S1_FAIL_ILLEGAL_APP_DATA e))
              else
                let param_id = obsw_be16 u in
                case s20_find_param s param_id of
                  None \<Rightarrow> (-1, ctx, snd (obsw_s1_accept_failure tc OBSW_S1_FAIL_EXEC_ERROR e))
                | Some i \<Rightarrow>
                    let e1 = snd (obsw_s1_accept_success tc e) in
                    case emit_tm20_2 s param_id (s20_value (s20_table s ! i)) e1 of
                      (s', e2) \<Rightarrow> (0, Some s', snd (obsw_s1_completion_success tc e2)))
     | _ \<Rightarrow> (-1, ctx, e))"

definition obsw_s20_find :: "obsw_s20_param list option \<Rightarrow> u8 \<Rightarrow> u16 \<Rightarrow> obsw_s20_param option" where
  "obsw_s20_find table table_len param_id =
    (case table of None \<Rightarrow> None
     | Some t \<Rightarrow> map_option ((!) t)
         (find_index (\<lambda>p. s20_param_id p = param_id) (take (unat table_len) t)))"

definition obsw_s20_as_float :: "obsw_s20_param \<Rightarrow> f32" where
  "obsw_s20_as_float p =
    (case s20_type p of OBSW_S20_F32 \<Rightarrow> s20_value p
     | OBSW_S20_I32 \<Rightarrow> f32_of_i32 (s20_value p)
     | OBSW_S20_U32 \<Rightarrow> f32_of_u32 (s20_value p))"

subsection \<open>Lemmas\<close>

interpretation s20_set: s1_service obsw_s20_set "\<lambda>_. True"
  by unfold_locales
    (auto simp: obsw_s20_set_def Let_def intro!: handledI split: option.split)

interpretation s20_get: s1_service obsw_s20_get "\<lambda>_. True"
  by unfold_locales
    (auto simp: obsw_s20_get_def emit_tm20_2_def Let_def intro!: handledI split: option.split)

text \<open>A table read by ID, as the ground sees it.\<close>

definition s20_wf :: "obsw_s20_ctx \<Rightarrow> bool" where
  "s20_wf s \<longleftrightarrow> unat (s20_table_len s) \<le> length (s20_table s)"

definition s20_read :: "obsw_s20_ctx \<Rightarrow> u16 \<Rightarrow> u32 option" where
  "s20_read s pid = map_option s20_value (obsw_s20_find (Some (s20_table s)) (s20_table_len s) pid)"

lemma s20_read_alt:
  "s20_read s pid = map_option (\<lambda>i. s20_value (s20_table s ! i)) (s20_find_param s pid)"
  by (simp add: s20_read_def obsw_s20_find_def s20_find_param_def option.map_comp comp_def)

lemma s20_find_param_SomeD:
  "s20_wf s \<Longrightarrow> s20_find_param s pid = Some i \<Longrightarrow>
   i < length (s20_table s) \<and> s20_param_id (s20_table s ! i) = pid"
  by (auto simp: s20_find_param_def dest: find_index_take_SomeD)

lemma s20_read_update:
  assumes "s20_wf s" "s20_find_param s pid = Some i"
  shows "s20_read (s\<lparr>s20_table := (s20_table s)[i := (s20_table s ! i)\<lparr>s20_value := v\<rparr>]\<rparr>)
    = (s20_read s)(pid \<mapsto> v)"
proof
  fix q
  let ?s' = "s\<lparr>s20_table := (s20_table s)[i := (s20_table s ! i)\<lparr>s20_value := v\<rparr>]\<rparr>"
  note i = s20_find_param_SomeD [OF assms]
  have f: "s20_find_param ?s' q = s20_find_param s q"
    by (simp add: s20_find_param_def find_index_take_update)
  show "s20_read ?s' q = ((s20_read s)(pid \<mapsto> v)) q"
  proof (cases "s20_find_param s q")
    case None
    with assms(2) have "q \<noteq> pid" by auto
    with None show ?thesis unfolding s20_read_alt f by (simp add: s20_read_alt)
  next
    case (Some j)
    with s20_find_param_SomeD [OF assms(1) Some] i assms(2) show ?thesis
      unfolding s20_read_alt f by (auto simp: s20_read_alt nth_list_update)
  qed
qed

lemma s20_set_OK:
  assumes "s20_wf s" "obsw_s20_set (Some tc) (Some s) e = (0, Some s', e')"
    and "tc_user_data tc = Some u"
  shows "s20_read s (obsw_be16 u) \<noteq> None
    \<and> s20_read s' = (s20_read s)(obsw_be16 u \<mapsto> obsw_be32 (drop 2 u)) \<and> s20_wf s'"
  using assms s20_read_update [OF assms(1)]
  by (auto simp: obsw_s20_set_def s20_read_alt s20_wf_def Let_def split: if_splits option.splits)

lemma s20_get_does:
  assumes "tm_ok (env_store e)" "tc_user_data tc = Some u" "\<not> tc_user_data_len tc < 2"
    and "s20_read s (obsw_be16 u) = Some v"
  shows "\<exists>e'. obsw_s20_get (Some tc) (Some s) e
      = (0, Some (s\<lparr>s20_msg_counter := s20_msg_counter s + 1\<rparr>), e')
    \<and> env_does tc e [S1 Accepted,
        Pkt (pus_tm_packet (s20_apid s) (s20_msg_counter s) 20 2 (s20_msg_counter s) 0
          (s20_timestamp s) (be_bytes16 (obsw_be16 u) @ be_bytes32 v)),
        S1 Done] e'"
proof -
  from assms(4) obtain i where i: "s20_find_param s (obsw_be16 u) = Some i"
    "s20_value (s20_table s ! i) = v" by (auto simp: s20_read_alt)
  let ?d = "be_bytes16 (obsw_be16 u) @ be_bytes32 v"
  let ?e1 = "tm_send (s20_apid s) (s20_msg_counter s) 20 2 (s20_timestamp s) (Some ?d) 6
      (snd (obsw_s1_accept_success (Some tc) e))"
  have "env_does tc e (([S1 Accepted] @ [Pkt (pus_tm_packet (s20_apid s) (s20_msg_counter s) 20 2
      (s20_msg_counter s) 0 (s20_timestamp s) ?d)]) @ [S1 Done])
      (snd (obsw_s1_completion_success (Some tc) ?e1))"
    by (intro does_done does_send does_accept assms) simp_all
  then show ?thesis
    using assms i by (simp add: obsw_s20_get_def emit_tm20_2_def Let_def)
qed

subsection \<open>Properties\<close>

text \<open>
  The parameter table is a map.  When TC(20,1) is accepted, its parameter was in the
  table and now has the value of the command, and every other parameter keeps its own; and
  TC(20,3) for any parameter of a table reports, between acceptance and completion, exactly
  the ID it was asked for and the value the table holds, here just after the set.
\<close>

theorem s20_set_then_get:
  assumes "s20_wf s" and "tc_user_data tc = Some u"
    and "obsw_s20_set (Some tc) (Some s) e = (0, Some s', e')"
    and "tm_ok (env_store e2)" and "tc_user_data tc2 = Some u2" and "\<not> tc_user_data_len tc2 < 2"
    and "obsw_be16 u2 = obsw_be16 u"
  shows "s20_read s (obsw_be16 u) \<noteq> None
    \<and> s20_read s' = (s20_read s)(obsw_be16 u \<mapsto> obsw_be32 (drop 2 u))
    \<and> (\<exists>e3. obsw_s20_get (Some tc2) (Some s') e2
          = (0, Some (s'\<lparr>s20_msg_counter := s20_msg_counter s' + 1\<rparr>), e3)
        \<and> env_does tc2 e2 [S1 Accepted,
            Pkt (pus_tm_packet (s20_apid s') (s20_msg_counter s') 20 2 (s20_msg_counter s') 0
              (s20_timestamp s') (be_bytes16 (obsw_be16 u) @ be_bytes32 (obsw_be32 (drop 2 u)))),
            S1 Done] e3)"
proof -
  note set = s20_set_OK [OF assms(1,3,2)]
  then have "s20_read s' (obsw_be16 u2) = Some (obsw_be32 (drop 2 u))"
    by (simp add: assms(7))
  from s20_get_does [OF assms(4-6) this] set show ?thesis by (simp add: assms(7))
qed

lemma s20_set_then_get_witness:
  "\<exists>e3. obsw_s20_get
      (Some \<lparr>tc_apid = 1, tc_service = 20, tc_subservice = 3, tc_seq_count = 2,
             tc_user_data = Some [0x20, 0x01], tc_user_data_len = 2\<rparr>)
      (Some \<lparr>s20_apid = 1, s20_msg_counter = 9, s20_timestamp = 0,
             s20_table = [\<lparr>s20_param_id = 0x2001, s20_value = 0x01020304, s20_type = OBSW_S20_U32\<rparr>],
             s20_table_len = 1\<rparr>)
      \<lparr>env_s1 = None, env_store = Some tm_store_bss\<rparr>
    = (0, Some \<lparr>s20_apid = 1, s20_msg_counter = 10, s20_timestamp = 0,
             s20_table = [\<lparr>s20_param_id = 0x2001, s20_value = 0x01020304, s20_type = OBSW_S20_U32\<rparr>],
             s20_table_len = 1\<rparr>, e3)"
proof -
  let ?s = "\<lparr>s20_apid = 1, s20_msg_counter = 9, s20_timestamp = 0,
             s20_table = [\<lparr>s20_param_id = 0x2001, s20_value = 7, s20_type = OBSW_S20_U32\<rparr>],
             s20_table_len = 1\<rparr>"
  let ?tc = "\<lparr>tc_apid = 1, tc_service = 20, tc_subservice = 1, tc_seq_count = 2,
             tc_user_data = Some [0x20, 0x01, 1, 2, 3, 4], tc_user_data_len = 6\<rparr>"
  let ?e = "\<lparr>env_s1 = None, env_store = Some tm_store_bss\<rparr>"
  have set: "obsw_s20_set (Some ?tc) (Some ?s) ?e = (0, Some (?s\<lparr>s20_table :=
      [\<lparr>s20_param_id = 0x2001, s20_value = 0x01020304, s20_type = OBSW_S20_U32\<rparr>]\<rparr>), ?e)"
    by (simp add: obsw_s20_set_def s20_find_param_def obsw_be16_def obsw_be32_def
        obsw_s1_accept_success_def obsw_s1_completion_success_def)
  have "s20_wf ?s" by (simp add: s20_wf_def)
  from s20_set_then_get [OF this _ set, of "[0x20, 0x01, 1, 2, 3, 4]" ?e
      "\<lparr>tc_apid = 1, tc_service = 20, tc_subservice = 3, tc_seq_count = 2,
             tc_user_data = Some [0x20, 0x01], tc_user_data_len = 2\<rparr>" "[0x20, 0x01]"]
  show ?thesis by (auto simp: obsw_be16_def)
qed

end
