(* ===== verification/Pus_S3.thy ===== *)
theory Pus_S3
  imports Pus_S20
begin

section \<open>Service 3, housekeeping\<close>

text \<open>
  \<^verbatim>\<open>src/pus/s3.c\<close>: housekeeping sets, their periodic and on-demand reports, and the commands
  that define, delete, enable and disable them.

  A parameter descriptor points to a live variable: one of the application, by its address
  in \<open>s3_vars\<close>, or the value of an entry of the S20 table.  A set's descriptors are an array
  of the caller, for the sets present at boot, or start at an offset of the shared pool, for
  those of TC(3,1); the two never are the same object.  The S20 table and the variables are
  what the pointers lead to at the time of the call.

  The lemmas show that the pool stays packed, that its compaction changes no other set's
  report, and at which ticks a set reports.
\<close>

datatype s3_ptr = App_Var nat | Param_Value nat

datatype obsw_s3_param_size = OBSW_S3_PARAM_U8 | OBSW_S3_PARAM_U16 | OBSW_S3_PARAM_U32

fun s3_size :: "obsw_s3_param_size \<Rightarrow> nat" where
  "s3_size OBSW_S3_PARAM_U8 = 1"
| "s3_size OBSW_S3_PARAM_U16 = 2"
| "s3_size OBSW_S3_PARAM_U32 = 4"

record obsw_s3_param =
  p_ptr :: s3_ptr
  p_size :: obsw_s3_param_size

datatype s3_params = Boot "obsw_s3_param list" | Pool nat

record obsw_s3_set =
  set_id :: u8
  set_params :: s3_params
  set_param_count :: u8
  set_interval :: u32
  set_countdown :: u32
  set_enabled :: bool

record obsw_s3_ctx =
  s3_apid :: u16
  s3_msg_counter :: u16
  s3_timestamp :: u32
  s3_sets :: "obsw_s3_set list"
  s3_set_count :: u8
  s3_set_capacity :: u8
  s3_param_pool :: "obsw_s3_param list option"
  s3_pool_len :: u16
  s3_pool_used :: u16
  s3_param_table :: "obsw_s20_param list"
  s3_param_table_len :: u8
  s3_vars :: "nat \<Rightarrow> u32"

subsection \<open>Helpers\<close>

definition s3_find_set :: "obsw_s3_ctx \<Rightarrow> u8 \<Rightarrow> nat option" where
  "s3_find_set s sid = find_index (\<lambda>x. set_id x = sid) (take (unat (s3_set_count s)) (s3_sets s))"

definition s3_find_param :: "obsw_s3_ctx \<Rightarrow> u16 \<Rightarrow> nat option" where
  "s3_find_param s pid =
    find_index (\<lambda>p. s20_param_id p = pid) (take (unat (s3_param_table_len s)) (s3_param_table s))"

text \<open>\<open>*ptr\<close>, as a 32-bit number.\<close>

definition s3_load :: "obsw_s3_ctx \<Rightarrow> s3_ptr \<Rightarrow> u32" where
  "s3_load s p = (case p of App_Var a \<Rightarrow> s3_vars s a | Param_Value i \<Rightarrow> s20_value (s3_param_table s ! i))"

definition put_be :: "u32 \<Rightarrow> obsw_s3_param_size \<Rightarrow> u8 list" where
  "put_be src sz =
    (let v = (case sz of OBSW_S3_PARAM_U8 \<Rightarrow> ucast (ucast src :: u8)
              | OBSW_S3_PARAM_U16 \<Rightarrow> ucast (ucast src :: u16)
              | OBSW_S3_PARAM_U32 \<Rightarrow> src);
         n = s3_size sz
     in map (\<lambda>i. ucast (drop_bit (8 * (n - 1 - i)) v)) [0..<n])"

text \<open>\<open>set->params[i]\<close>\<close>

definition s3_set_param :: "obsw_s3_ctx \<Rightarrow> obsw_s3_set \<Rightarrow> nat \<Rightarrow> obsw_s3_param" where
  "s3_set_param s x i =
    (case set_params x of Boot ps \<Rightarrow> ps ! i
     | Pool k \<Rightarrow> (case s3_param_pool s of Some pool \<Rightarrow> pool ! (k + i) | None \<Rightarrow> undefined))"

text \<open>
  The loop of \<open>serialise_set\<close> over the remaining descriptors: the byte count to return, 0 on
  overflow, and the bytes written so far.
\<close>

fun serialise_params ::
  "obsw_s3_ctx \<Rightarrow> obsw_s3_param list \<Rightarrow> u16 \<Rightarrow> u16 \<Rightarrow> u8 list \<Rightarrow> u16 \<times> u8 list" where
  "serialise_params s [] buf_len offset out = (offset, out)"
| "serialise_params s (p # ps) buf_len offset out =
    (if unat offset + s3_size (p_size p) > unat buf_len then (0, out)
     else serialise_params s ps buf_len (offset + of_nat (s3_size (p_size p)))
            (out @ put_be (s3_load s (p_ptr p)) (p_size p)))"

definition serialise_set :: "obsw_s3_ctx \<Rightarrow> obsw_s3_set \<Rightarrow> u16 \<Rightarrow> u16 \<times> u8 list" where
  "serialise_set s x buf_len =
    serialise_params s (map (s3_set_param s x) [0..<unat (set_param_count x)]) buf_len 0 []"

definition emit_hk_report :: "obsw_s3_ctx \<Rightarrow> obsw_s3_set \<Rightarrow> tm_env \<Rightarrow> int \<times> obsw_s3_ctx \<times> tm_env" where
  "emit_hk_report s x e =
    (case serialise_set s x 1023 of
       (param_len, out) \<Rightarrow>
         if param_len = 0 \<and> set_param_count x > 0 then (OBSW_PUS_TM_ERR_TOO_LARGE, s, e)
         else
           let seq = s3_msg_counter s
           in case obsw_pus_tm_build (env_store e) (s3_apid s) seq 3 25 seq 0 (s3_timestamp s)
                     (Some (set_id x # out)) (1 + param_len) of
                (rc, store') \<Rightarrow> (rc, s\<lparr>s3_msg_counter := seq + 1\<rparr>, e\<lparr>env_store := store'\<rparr>))"

subsection \<open>TC(3,1), define\<close>

definition s3_ids :: "u8 list \<Rightarrow> u8 \<Rightarrow> u16 list" where
  "s3_ids u n = map (\<lambda>i. obsw_be16 (drop (6 + 2 * i) u)) [0..<unat n]"

definition obsw_s3_define ::
  "obsw_tc option \<Rightarrow> obsw_s3_ctx option \<Rightarrow> tm_env \<Rightarrow> int \<times> obsw_s3_ctx option \<times> tm_env" where
  "obsw_s3_define tc ctx e =
    (case (ctx, tc) of
       (Some s, Some t) \<Rightarrow>
         (case tc_user_data t of
            None \<Rightarrow> (-1, ctx, snd (obsw_s1_accept_failure tc OBSW_S1_FAIL_ILLEGAL_APP_DATA e))
          | Some u \<Rightarrow>
              if tc_user_data_len t < 6
              then (-1, ctx, snd (obsw_s1_accept_failure tc OBSW_S1_FAIL_ILLEGAL_APP_DATA e))
              else
                let sid = u ! 0; interval = obsw_be32 (drop 1 u); n = u ! 5 in
                if n = 0 \<or> unat (tc_user_data_len t) \<noteq> 6 + 2 * unat n \<or> s3_find_set s sid \<noteq> None
                   \<or> 1 + 4 * unat n > 1007
                then (-1, ctx, snd (obsw_s1_accept_failure tc OBSW_S1_FAIL_ILLEGAL_APP_DATA e))
                else if \<not> list_all (\<lambda>pid. s3_find_param s pid \<noteq> None) (s3_ids u n)
                then (-1, ctx, snd (obsw_s1_accept_failure tc OBSW_S1_FAIL_ILLEGAL_APP_DATA e))
                else
                  (case s3_param_pool s of
                     None \<Rightarrow> (-1, ctx, snd (obsw_s1_accept_failure tc OBSW_S1_FAIL_EXEC_ERROR e))
                   | Some pool \<Rightarrow>
                       if s3_set_count s \<ge> s3_set_capacity s
                          \<or> uint (s3_pool_len s) - uint (s3_pool_used s) < uint n
                       then (-1, ctx, snd (obsw_s1_accept_failure tc OBSW_S1_FAIL_EXEC_ERROR e))
                       else
                         let e1 = snd (obsw_s1_accept_success tc e);
                             k = unat (s3_pool_used s);
                             new = map (\<lambda>pid. \<lparr>p_ptr = Param_Value (the (s3_find_param s pid)),
                                                p_size = OBSW_S3_PARAM_U32\<rparr>) (s3_ids u n);
                             x = \<lparr>set_id = sid, set_params = Pool k, set_param_count = n,
                                  set_interval = interval, set_countdown = interval, set_enabled = False\<rparr>
                         in (0, Some (s\<lparr>s3_param_pool := Some (memcpy_at pool k new (unat n)),
                                        s3_pool_used := s3_pool_used s + ucast n,
                                        s3_sets := (s3_sets s)[unat (s3_set_count s) := x],
                                        s3_set_count := s3_set_count s + 1\<rparr>),
                             snd (obsw_s1_completion_success tc e1))))
     | _ \<Rightarrow> (-1, ctx, e))"

subsection \<open>TC(3,3), delete\<close>

definition pool_offset :: "obsw_s3_ctx \<Rightarrow> obsw_s3_set \<Rightarrow> int" where
  "pool_offset s x =
    (case set_params x of Boot _ \<Rightarrow> -1
     | Pool k \<Rightarrow> if k < unat (s3_pool_used s) then int k else -1)"

text \<open>The set is given by its index, as its address is in the code.\<close>

definition remove_defined :: "obsw_s3_ctx \<Rightarrow> nat \<Rightarrow> obsw_s3_ctx" where
  "remove_defined s idx =
    (let x = s3_sets s ! idx;
         off = of_int (pool_offset s x) :: u16;
         n = ucast (set_param_count x) :: u16;
         end' = off + n;
         cnt = unat (s3_set_count s);
         shift = (\<lambda>i y. let o' = (if i = idx then -1 else pool_offset s y) in
                   if i < cnt \<and> o' \<ge> uint end' then y\<lparr>set_params := Pool (nat o' - unat n)\<rparr> else y);
         sets1 = map (\<lambda>i. shift i (s3_sets s ! i)) [0..<length (s3_sets s)];
         pool' = map_option (\<lambda>p. foldl (\<lambda>p k. p[k - unat n := p ! k]) p
                   [unat end'..<unat (s3_pool_used s)]) (s3_param_pool s);
         sets2 = foldl (\<lambda>t i. t[i := t ! (i + 1)]) sets1 [idx..<cnt - 1]
     in s\<lparr>s3_sets := sets2, s3_param_pool := pool', s3_pool_used := s3_pool_used s - n,
          s3_set_count := s3_set_count s - 1\<rparr>)"

text \<open>The checks of the first loop, for the identifiers of the command in order.\<close>

definition s3_delete_ok :: "obsw_s3_ctx \<Rightarrow> u8 list \<Rightarrow> bool" where
  "s3_delete_ok s ids \<longleftrightarrow>
    list_all (\<lambda>i. (case s3_find_set s (ids ! i) of None \<Rightarrow> False
        | Some k \<Rightarrow> \<not> set_enabled (s3_sets s ! k) \<and> pool_offset s (s3_sets s ! k) \<ge> 0)
      \<and> list_all (\<lambda>j. ids ! j \<noteq> ids ! i) [0..<i]) [0..<length ids]"

definition obsw_s3_delete ::
  "obsw_tc option \<Rightarrow> obsw_s3_ctx option \<Rightarrow> tm_env \<Rightarrow> int \<times> obsw_s3_ctx option \<times> tm_env" where
  "obsw_s3_delete tc ctx e =
    (case (ctx, tc) of
       (Some s, Some t) \<Rightarrow>
         let u = (case tc_user_data t of Some u \<Rightarrow> u | None \<Rightarrow> []);
             n = (if tc_user_data t \<noteq> None \<and> tc_user_data_len t \<ge> 1 then u ! 0 else 0);
             ids = take (unat n) (drop 1 u);
             ok = (n > 0 \<and> s3_param_pool s \<noteq> None \<and> tc_user_data_len t = 1 + ucast n
                   \<and> s3_delete_ok s ids)
         in if \<not> ok
            then (-1, ctx, snd (obsw_s1_accept_failure tc OBSW_S1_FAIL_ILLEGAL_APP_DATA e))
            else
              let e1 = snd (obsw_s1_accept_success tc e);
                  s' = foldl (\<lambda>s i. case s3_find_set s i of Some k \<Rightarrow> remove_defined s k | None \<Rightarrow> s) s ids
              in (0, Some s', snd (obsw_s1_completion_success tc e1))
     | _ \<Rightarrow> (-1, ctx, e))"

subsection \<open>TC(3,5) and TC(3,6), enable and disable\<close>

definition obsw_s3_enable ::
  "obsw_tc option \<Rightarrow> obsw_s3_ctx option \<Rightarrow> tm_env \<Rightarrow> int \<times> obsw_s3_ctx option \<times> tm_env" where
  "obsw_s3_enable tc ctx e =
    (case (ctx, tc) of
       (Some s, Some t) \<Rightarrow>
         (case tc_user_data t of
            None \<Rightarrow> (-1, ctx, snd (obsw_s1_accept_failure tc OBSW_S1_FAIL_ILLEGAL_APP_DATA e))
          | Some u \<Rightarrow>
              if tc_user_data_len t < 5
              then (-1, ctx, snd (obsw_s1_accept_failure tc OBSW_S1_FAIL_ILLEGAL_APP_DATA e))
              else
                let interval = obsw_be32 (drop 1 u) in
                case s3_find_set s (u ! 0) of
                  None \<Rightarrow> (-1, ctx, snd (obsw_s1_accept_failure tc OBSW_S1_FAIL_EXEC_ERROR e))
                | Some i \<Rightarrow>
                    let e1 = snd (obsw_s1_accept_success tc e);
                        x = (s3_sets s ! i)\<lparr>set_interval := interval, set_countdown := interval,
                                            set_enabled := True\<rparr>
                    in (0, Some (s\<lparr>s3_sets := (s3_sets s)[i := x]\<rparr>),
                        snd (obsw_s1_completion_success tc e1)))
     | _ \<Rightarrow> (-1, ctx, e))"

definition obsw_s3_disable ::
  "obsw_tc option \<Rightarrow> obsw_s3_ctx option \<Rightarrow> tm_env \<Rightarrow> int \<times> obsw_s3_ctx option \<times> tm_env" where
  "obsw_s3_disable tc ctx e =
    (case (ctx, tc) of
       (Some s, Some t) \<Rightarrow>
         (case tc_user_data t of
            None \<Rightarrow> (-1, ctx, snd (obsw_s1_accept_failure tc OBSW_S1_FAIL_ILLEGAL_APP_DATA e))
          | Some u \<Rightarrow>
              if tc_user_data_len t < 1
              then (-1, ctx, snd (obsw_s1_accept_failure tc OBSW_S1_FAIL_ILLEGAL_APP_DATA e))
              else
                case s3_find_set s (u ! 0) of
                  None \<Rightarrow> (-1, ctx, snd (obsw_s1_accept_failure tc OBSW_S1_FAIL_EXEC_ERROR e))
                | Some i \<Rightarrow>
                    let e1 = snd (obsw_s1_accept_success tc e);
                        x = (s3_sets s ! i)\<lparr>set_enabled := False\<rparr>
                    in (0, Some (s\<lparr>s3_sets := (s3_sets s)[i := x]\<rparr>),
                        snd (obsw_s1_completion_success tc e1)))
     | _ \<Rightarrow> (-1, ctx, e))"

subsection \<open>Layout binding\<close>

definition s3_size_of :: "u8 \<Rightarrow> obsw_s3_param_size option" where
  "s3_size_of n = (if n = 1 then Some OBSW_S3_PARAM_U8 else if n = 2 then Some OBSW_S3_PARAM_U16
     else if n = 4 then Some OBSW_S3_PARAM_U32 else None)"

text \<open>For a boot-time set: its descriptors are its own array.\<close>

definition obsw_s3_bind_sizes ::
  "obsw_s3_set option \<Rightarrow> u8 list option \<Rightarrow> u8 \<Rightarrow> bool \<times> obsw_s3_set option" where
  "obsw_s3_bind_sizes x sizes cnt =
    (case (x, sizes) of
       (Some y, Some sz) \<Rightarrow>
         (case set_params y of
            Boot ps \<Rightarrow>
              if set_param_count y \<noteq> cnt then (False, x)
              else if \<not> list_all (\<lambda>i. s3_size_of (sz ! i) \<noteq> None) [0..<unat cnt] then (False, x)
              else (True, Some (y\<lparr>set_params := Boot (foldl
                      (\<lambda>ps i. ps[i := (ps ! i)\<lparr>p_size := the (s3_size_of (sz ! i))\<rparr>]) ps [0..<unat cnt])\<rparr>))
          | Pool _ \<Rightarrow> (False, x))
     | _ \<Rightarrow> (False, x))"

subsection \<open>Tick and report\<close>

definition s3_tick_set :: "nat \<Rightarrow> obsw_s3_ctx \<times> tm_env \<Rightarrow> obsw_s3_ctx \<times> tm_env" where
  "s3_tick_set i se =
    (let s = fst se; x = s3_sets s ! i in
     if \<not> set_enabled x \<or> set_interval x = 0 then se
     else
       let c = (if set_countdown x > 0 then set_countdown x - 1 else set_countdown x);
           x1 = x\<lparr>set_countdown := c\<rparr>;
           s1 = s\<lparr>s3_sets := (s3_sets s)[i := x1]\<rparr>
       in if c = 0
          then (case emit_hk_report s1 x1 (snd se) of
                  (_, s2, e2) \<Rightarrow>
                    (s2\<lparr>s3_sets := (s3_sets s2)[i := x1\<lparr>set_countdown := set_interval x1\<rparr>]\<rparr>, e2))
          else (s1, snd se))"

definition obsw_s3_tick :: "obsw_s3_ctx option \<Rightarrow> tm_env \<Rightarrow> obsw_s3_ctx option \<times> tm_env" where
  "obsw_s3_tick ctx e =
    (case ctx of None \<Rightarrow> (None, e)
     | Some s \<Rightarrow>
         case foldl (\<lambda>se i. s3_tick_set i se) (s, e) [0..<unat (s3_set_count s)] of
           (s', e') \<Rightarrow> (Some s', e'))"

definition obsw_s3_report :: "obsw_s3_ctx option \<Rightarrow> u8 \<Rightarrow> tm_env \<Rightarrow> int \<times> obsw_s3_ctx option \<times> tm_env" where
  "obsw_s3_report ctx sid e =
    (case ctx of None \<Rightarrow> (OBSW_PUS_TM_ERR_NULL, None, e)
     | Some s \<Rightarrow>
         (case s3_find_set s sid of
            None \<Rightarrow> (OBSW_PUS_TM_ERR_NULL, ctx, e)
          | Some i \<Rightarrow> (case emit_hk_report s (s3_sets s ! i) e of (rc, s', e') \<Rightarrow> (rc, Some s', e'))))"

subsection \<open>The context in order\<close>

definition s3_used :: "obsw_s3_ctx \<Rightarrow> obsw_s3_set list" where
  "s3_used s = take (unat (s3_set_count s)) (s3_sets s)"

text \<open>
  The sets of TC(3,1) tile the used part of the pool, in table order: from offset \<open>k\<close> each
  starts where the one before ended, and the last ends at \<open>m\<close>.
\<close>

fun s3_packed :: "nat \<Rightarrow> obsw_s3_set list \<Rightarrow> nat \<Rightarrow> bool" where
  "s3_packed k [] m = (k = m)"
| "s3_packed k (x # xs) m =
    (case set_params x of Boot _ \<Rightarrow> s3_packed k xs m
     | Pool o' \<Rightarrow> o' = k \<and> 0 < set_param_count x \<and> s3_packed (k + unat (set_param_count x)) xs m)"

definition s3_descr :: "obsw_s3_ctx \<Rightarrow> obsw_s3_set \<Rightarrow> obsw_s3_param list" where
  "s3_descr s x = map (s3_set_param s x) [0..<unat (set_param_count x)]"

definition s3_report_size :: "obsw_s3_param list \<Rightarrow> nat" where
  "s3_report_size ps = sum_list (map (\<lambda>p. s3_size (p_size p)) ps)"

definition s3_set_wf :: "obsw_s3_ctx \<Rightarrow> obsw_s3_set \<Rightarrow> bool" where
  "s3_set_wf s x \<longleftrightarrow> s3_report_size (s3_descr s x) \<le> 1006 \<and>
     (case set_params x of Boot ps \<Rightarrow> unat (set_param_count x) \<le> length ps
      | Pool k \<Rightarrow> s3_param_pool s \<noteq> None)"

definition s3_wf :: "obsw_s3_ctx \<Rightarrow> bool" where
  "s3_wf s \<longleftrightarrow> unat (s3_set_count s) \<le> length (s3_sets s) \<and> unat (s3_set_capacity s) \<le> length (s3_sets s)
     \<and> s3_pool_used s \<le> s3_pool_len s
     \<and> (\<forall>p. s3_param_pool s = Some p \<longrightarrow> unat (s3_pool_len s) \<le> length p)
     \<and> distinct (map set_id (s3_used s)) \<and> s3_packed 0 (s3_used s) (unat (s3_pool_used s))
     \<and> (\<forall>x \<in> set (s3_used s). s3_set_wf s x)"

text \<open>Boot-time sets: what binding their widths leaves, and the bound on their reports.\<close>

lemma bind_sizes_Boot:
  assumes "obsw_s3_bind_sizes (Some x) (Some sz) n = (True, y)" "set_params x = Boot ps"
  obtains ps' where "y = Some (x\<lparr>set_params := Boot ps'\<rparr>)" "length ps' = length ps"
proof -
  have l: "length (foldl (\<lambda>ps i. ps[i := f ps i]) ps is) = length ps" for f :: "obsw_s3_param list \<Rightarrow> nat \<Rightarrow> obsw_s3_param" and "is"
    by (induction "is" arbitrary: ps) auto
  show thesis
    using assms that l by (auto simp: obsw_s3_bind_sizes_def split: if_splits)
qed

lemma s3_boot_descr_size: "s3_report_size (s3_descr s x) \<le> 4 * unat (set_param_count x)"
proof -
  have "s3_report_size ps \<le> 4 * length ps" for ps
  proof (induction ps)
    case (Cons p ps)
    have "s3_size (p_size p) \<le> 4" by (cases "p_size p") simp_all
    with Cons show ?case by (simp add: s3_report_size_def)
  qed (simp add: s3_report_size_def)
  from this [of "s3_descr s x"] show ?thesis by (simp add: s3_descr_def)
qed

text \<open>What a set is to the ground: everything but the place of its descriptors.\<close>

record s3_view =
  v_id :: u8
  v_descr :: "obsw_s3_param list"
  v_interval :: u32
  v_countdown :: u32
  v_enabled :: bool

definition s3_view :: "obsw_s3_ctx \<Rightarrow> obsw_s3_set \<Rightarrow> s3_view" where
  "s3_view s x = \<lparr>v_id = set_id x, v_descr = s3_descr s x, v_interval = set_interval x,
     v_countdown = set_countdown x, v_enabled = set_enabled x\<rparr>"

definition s3_views :: "obsw_s3_ctx \<Rightarrow> s3_view list" where
  "s3_views s = map (s3_view s) (s3_used s)"

lemma s3_packed_le: "s3_packed k xs m \<Longrightarrow> k \<le> m"
  by (induction k xs m rule: s3_packed.induct) (fastforce split: s3_params.splits)+

lemma s3_packed_append:
  "s3_packed k (xs @ ys) m \<longleftrightarrow> (\<exists>l. s3_packed k xs l \<and> s3_packed l ys m)"
  by (induction xs arbitrary: k) (auto split: s3_params.split)

lemma s3_packed_mem:
  assumes "s3_packed k xs m" "x \<in> set xs" "set_params x = Pool j"
  shows "k \<le> j" "0 < set_param_count x" "j + unat (set_param_count x) \<le> m"
proof -
  have "k \<le> j \<and> 0 < set_param_count x \<and> j + unat (set_param_count x) \<le> m"
    using assms
  proof (induction xs arbitrary: k)
    case (Cons y ys)
    show ?case
    proof (cases "set_params y")
      case (Boot ps)
      then show ?thesis using Cons by auto
    next
      case (Pool o')
      then have p: "o' = k" "0 < set_param_count y" "s3_packed (k + unat (set_param_count y)) ys m"
        using Cons.prems(1) by auto
      show ?thesis
      proof (cases "x = y")
        case True
        then show ?thesis using p Pool Cons.prems(3) s3_packed_le [OF p(3)] by simp
      next
        case False
        then show ?thesis using Cons.IH [OF p(3) _ Cons.prems(3)] Cons.prems(2) by auto
      qed
    qed
  qed simp
  then show "k \<le> j" "0 < set_param_count x" "j + unat (set_param_count x) \<le> m" by simp_all
qed

subsection \<open>Reports\<close>

definition s3_data :: "obsw_s3_ctx \<Rightarrow> obsw_s3_param list \<Rightarrow> u8 list" where
  "s3_data s ps = concat (map (\<lambda>p. put_be (s3_load s (p_ptr p)) (p_size p)) ps)"

lemma length_put_be [simp]: "length (put_be v z) = s3_size z"
  by (simp add: put_be_def Let_def)

lemma put_be_bytes:
  "put_be v OBSW_S3_PARAM_U32 = be_bytes32 v" "put_be v OBSW_S3_PARAM_U16 = be_bytes16 (ucast v)"
  "put_be v OBSW_S3_PARAM_U8 = [ucast v]"
  by (auto simp: put_be_def be_bytes32_def be_bytes16_def Let_def upt_rec numeral_eq_Suc
      intro!: bit_word_eqI) (auto simp: bit_simps dest: bit_imp_le_length)

lemma length_s3_data [simp]: "length (s3_data s ps) = s3_report_size ps"
  by (simp add: s3_data_def s3_report_size_def length_concat comp_def)

lemma s3_report_size_pos: "length ps \<le> s3_report_size ps"
proof (induction ps)
  case (Cons p ps)
  have "1 \<le> s3_size (p_size p)" by (cases "p_size p") simp_all
  with Cons show ?case by (simp add: s3_report_size_def)
qed (simp add: s3_report_size_def)

lemma serialise_params_eq:
  "unat off + s3_report_size ps \<le> unat buf_len \<Longrightarrow>
   serialise_params s ps buf_len off out = (off + of_nat (s3_report_size ps), out @ s3_data s ps)"
proof (induction ps arbitrary: off out)
  case Nil
  then show ?case by (simp add: s3_report_size_def s3_data_def)
next
  case (Cons p ps)
  let ?z = "s3_size (p_size p)"
  have z: "?z \<le> 4" by (cases "p_size p") simp_all
  have le: "unat off + ?z + s3_report_size ps \<le> unat buf_len"
    using Cons.prems by (simp add: s3_report_size_def)
  have u: "unat (of_nat ?z :: u16) = ?z" using z by (intro unat_of_nat_small) simp
  have "unat (off + of_nat ?z) = unat off + ?z"
    using le u16_less_65536 [of buf_len] by (subst unat_add_small) (simp_all add: u)
  then have "serialise_params s ps buf_len (off + of_nat ?z) (out @ put_be (s3_load s (p_ptr p)) (p_size p))
      = (off + of_nat ?z + of_nat (s3_report_size ps),
         (out @ put_be (s3_load s (p_ptr p)) (p_size p)) @ s3_data s ps)"
    using le by (intro Cons.IH) simp
  then show ?case using le by (simp add: s3_report_size_def s3_data_def add.assoc)
qed

definition s3_packet :: "obsw_s3_ctx \<Rightarrow> u16 \<Rightarrow> obsw_s3_set \<Rightarrow> u8 list" where
  "s3_packet s seq x = pus_tm_packet (s3_apid s) seq 3 25 seq 0 (s3_timestamp s)
     (set_id x # s3_data s (s3_descr s x))"

lemma emit_hk_effect:
  assumes "s3_set_wf s x" "tm_ok (env_store e)"
  obtains e' where "emit_hk_report s x e
      = (tm_emit_rc (env_store e), s\<lparr>s3_msg_counter := s3_msg_counter s + 1\<rparr>, e')"
    and "tm_offered (env_store e) [s3_packet s (s3_msg_counter s) x] (env_store e')"
    and "env_s1 e' = env_s1 e"
proof -
  let ?ps = "s3_descr s x" and ?c = "s3_msg_counter s"
  let ?d = "set_id x # s3_data s ?ps" and ?n = "of_nat (s3_report_size ?ps) :: u16"
  have sz: "s3_report_size ?ps \<le> 1006" using assms(1) by (simp add: s3_set_wf_def)
  have ser: "serialise_set s x 1023 = (?n, s3_data s ?ps)"
    using serialise_params_eq [of 0 ?ps 1023 s "[]"] sz by (simp add: serialise_set_def s3_descr_def)
  have un: "unat ?n = s3_report_size ?ps" using sz by (intro unat_of_nat_small) simp
  have zero: "\<not> (?n = 0 \<and> set_param_count x > 0)"
  proof
    assume a: "?n = 0 \<and> set_param_count x > 0"
    then have "s3_report_size ?ps = 0" using un by simp
    then have "?ps = []" using s3_report_size_pos [of ?ps] by simp
    with a show False by (simp add: s3_descr_def word_less_nat_alt)
  qed
  have len: "(1 :: u16) + ?n = of_nat (length ?d)" "length ?d \<le> 1007" using sz by simp_all
  have "unat (1 + ?n) = length ?d" unfolding len(1) using len(2) by (intro unat_of_nat_small) simp
  then have u: "unat (1 + ?n) \<le> length ?d" "unat (1 + ?n) \<le> 1007" using len(2) by simp_all
  obtain st where b: "obsw_pus_tm_build (env_store e) (s3_apid s) ?c 3 25 ?c 0 (s3_timestamp s) (Some ?d) (1 + ?n)
      = (tm_emit_rc (env_store e), st)"
    using tm_build_effect [OF assms(2) u] by metis
  show thesis
  proof (rule that)
    show "emit_hk_report s x e = (tm_emit_rc (env_store e), s\<lparr>s3_msg_counter := ?c + 1\<rparr>, e\<lparr>env_store := st\<rparr>)"
      using zero by (auto simp: emit_hk_report_def ser Let_def b)
    show "tm_offered (env_store e) [s3_packet s ?c x] (env_store (e\<lparr>env_store := st\<rparr>))"
      using tm_build_offered [OF assms(2) len b] by (simp add: s3_packet_def)
  qed simp
qed

subsection \<open>One tick\<close>

definition s3_due :: "obsw_s3_set \<Rightarrow> bool" where
  "s3_due x \<longleftrightarrow> set_enabled x \<and> set_interval x \<noteq> 0 \<and> set_countdown x \<le> 1"

definition s3_next :: "obsw_s3_set \<Rightarrow> obsw_s3_set" where
  "s3_next x =
    (if set_enabled x \<and> set_interval x \<noteq> 0
     then x\<lparr>set_countdown := (if set_countdown x \<le> 1 then set_interval x else set_countdown x - 1)\<rparr>
     else x)"

text \<open>The reports of these sets, in order, each taking the next value of the counter.\<close>

fun s3_packets :: "obsw_s3_ctx \<Rightarrow> u16 \<Rightarrow> obsw_s3_set list \<Rightarrow> u8 list list" where
  "s3_packets s c [] = []"
| "s3_packets s c (x # xs) = s3_packet s c x # s3_packets s (c + 1) xs"

lemma s3_packets_append:
  "s3_packets s c (xs @ ys) = s3_packets s c xs @ s3_packets s (c + of_nat (length xs)) ys"
  by (induction xs arbitrary: c) (simp_all add: add.assoc [symmetric] add.commute)

lemma s3_set_param_frame [simp]:
  "s3_set_param (s\<lparr>s3_sets := xs\<rparr>) = s3_set_param s" "s3_load (s\<lparr>s3_sets := xs\<rparr>) = s3_load s"
  "s3_set_param (s\<lparr>s3_msg_counter := c\<rparr>) = s3_set_param s" "s3_load (s\<lparr>s3_msg_counter := c\<rparr>) = s3_load s"
  by (simp_all add: fun_eq_iff s3_set_param_def s3_load_def split: s3_params.split s3_ptr.split)

lemma s3_sets_frame [simp]:
  "s3_descr (s\<lparr>s3_sets := xs\<rparr>) x = s3_descr s x" "s3_descr (s\<lparr>s3_msg_counter := c\<rparr>) x = s3_descr s x"
  "s3_data (s\<lparr>s3_sets := xs\<rparr>) ps = s3_data s ps" "s3_data (s\<lparr>s3_msg_counter := c\<rparr>) ps = s3_data s ps"
  "s3_set_wf (s\<lparr>s3_sets := xs\<rparr>) x = s3_set_wf s x" "s3_set_wf (s\<lparr>s3_msg_counter := c\<rparr>) x = s3_set_wf s x"
  "s3_packet (s\<lparr>s3_sets := xs\<rparr>) n x = s3_packet s n x" "s3_packet (s\<lparr>s3_msg_counter := c\<rparr>) n x = s3_packet s n x"
  by (simp_all add: s3_descr_def s3_data_def s3_set_wf_def s3_packet_def split: s3_params.split)

lemma s3_set_param_countdown [simp]: "s3_set_param s (x\<lparr>set_countdown := c\<rparr>) = s3_set_param s x"
  by (simp add: fun_eq_iff s3_set_param_def split: s3_params.split)

lemma s3_countdown_frame [simp]:
  "s3_descr s (x\<lparr>set_countdown := c\<rparr>) = s3_descr s x" "s3_set_wf s (x\<lparr>set_countdown := c\<rparr>) = s3_set_wf s x"
  "s3_packet s n (x\<lparr>set_countdown := c\<rparr>) = s3_packet s n x"
  by (simp_all add: s3_descr_def s3_set_wf_def s3_packet_def split: s3_params.split)

text \<open>The context after the first \<open>i\<close> rounds of the loop.\<close>

definition s3_after :: "obsw_s3_ctx \<Rightarrow> nat \<Rightarrow> obsw_s3_ctx" where
  "s3_after s i = s\<lparr>s3_sets := map s3_next (take i (s3_sets s)) @ drop i (s3_sets s),
     s3_msg_counter := s3_msg_counter s + of_nat (length (filter s3_due (take i (s3_sets s))))\<rparr>"

lemma s3_tick_set_step:
  assumes "i < length (s3_sets s)" "s3_set_wf s (s3_sets s ! i)" "tm_ok (env_store e)"
  shows "\<exists>e'. s3_tick_set i (s3_after s i, e) = (s3_after s (Suc i), e') \<and> env_s1 e' = env_s1 e
    \<and> tm_offered (env_store e) (s3_packets s (s3_msg_counter (s3_after s i))
         (filter s3_due [s3_sets s ! i])) (env_store e')"
proof -
  let ?x = "s3_sets s ! i" and ?t = "s3_after s i"
  have nth: "s3_sets ?t ! i = ?x" using assms(1) by (simp add: s3_after_def nth_append)
  have upd: "(s3_sets ?t)[i := y] = map s3_next (take i (s3_sets s)) @ y # drop (Suc i) (s3_sets s)" for y
    using assms(1) by (simp add: s3_after_def list_update_append Cons_nth_drop_Suc [symmetric])
  have suc: "take (Suc i) (s3_sets s) = take i (s3_sets s) @ [?x]"
    using assms(1) by (simp add: take_Suc_conv_app_nth)
  have wf: "s3_set_wf ?t ?x" using assms(2) by (simp add: s3_after_def)
  have keep: "(s3_sets ?t)[i := s3_next ?x] = s3_sets (s3_after s (Suc i))"
    unfolding upd by (simp add: s3_after_def suc)
  consider (off) "\<not> (set_enabled ?x \<and> set_interval ?x \<noteq> 0)"
    | (wait) "set_enabled ?x" "set_interval ?x \<noteq> 0" "\<not> set_countdown ?x \<le> 1"
    | (due) "set_enabled ?x" "set_interval ?x \<noteq> 0" "set_countdown ?x \<le> 1" by blast
  then show ?thesis
  proof cases
    case off
    then have n: "s3_next ?x = ?x" "\<not> s3_due ?x" by (auto simp: s3_next_def s3_due_def)
    have "s3_after s (Suc i) = ?t"
      using n assms(1) by (simp add: s3_after_def suc Cons_nth_drop_Suc)
    then show ?thesis
      using off n assms(3) by (auto simp: s3_tick_set_def nth Let_def tm_offered_nil)
  next
    case wait
    have c: "set_countdown ?x > 0" "set_countdown ?x - 1 \<noteq> 0"
      using wait(3) by (auto simp: not_le word_less_nat_alt)
    have n: "s3_next ?x = ?x\<lparr>set_countdown := set_countdown ?x - 1\<rparr>" "\<not> s3_due ?x"
      using wait by (auto simp: s3_next_def s3_due_def)
    have "s3_tick_set i (?t, e) = (?t\<lparr>s3_sets := (s3_sets ?t)[i := s3_next ?x]\<rparr>, e)"
      using wait c by (simp add: s3_tick_set_def nth Let_def n(1))
    moreover have "?t\<lparr>s3_sets := (s3_sets ?t)[i := s3_next ?x]\<rparr> = s3_after s (Suc i)"
      unfolding keep using n(2) by (simp add: s3_after_def suc)
    ultimately show ?thesis using n assms(3) by (simp add: tm_offered_nil)
  next
    case due
    let ?x1 = "?x\<lparr>set_countdown := 0\<rparr>"
    let ?t1 = "?t\<lparr>s3_sets := (s3_sets ?t)[i := ?x1]\<rparr>"
    have "unat (set_countdown ?x) \<le> 1" using due(3) by (simp add: word_le_nat_alt)
    then have c: "set_countdown ?x = 0 \<or> set_countdown ?x = 1"
      by (metis le_Suc_eq le_zero_eq One_nat_def unat_0 unat_1 word_unat_eq_iff)
    have n: "s3_next ?x = ?x\<lparr>set_countdown := set_interval ?x\<rparr>" and d: "s3_due ?x"
      using due by (auto simp: s3_next_def s3_due_def)
    have wf1: "s3_set_wf ?t1 ?x1" using wf by simp
    obtain e' where em: "emit_hk_report ?t1 ?x1 e
        = (tm_emit_rc (env_store e), ?t1\<lparr>s3_msg_counter := s3_msg_counter ?t1 + 1\<rparr>, e')"
      "tm_offered (env_store e) [s3_packet ?t1 (s3_msg_counter ?t1) ?x1] (env_store e')" "env_s1 e' = env_s1 e"
      by (rule emit_hk_effect [OF wf1 assms(3)])
    have "s3_tick_set i (?t, e) = (?t\<lparr>s3_sets := ((s3_sets ?t)[i := ?x1])[i := s3_next ?x],
        s3_msg_counter := s3_msg_counter ?t + 1\<rparr>, e')"
      using c
    proof
      assume "set_countdown ?x = 0"
      moreover from this have "?x1 = ?x" by simp
      ultimately show ?thesis using due(1,2) em(1) by (simp add: s3_tick_set_def nth Let_def n)
    next
      assume "set_countdown ?x = 1"
      then show ?thesis using due(1,2) em(1) by (simp add: s3_tick_set_def nth Let_def n)
    qed
    moreover have "?t\<lparr>s3_sets := ((s3_sets ?t)[i := ?x1])[i := s3_next ?x],
        s3_msg_counter := s3_msg_counter ?t + 1\<rparr> = s3_after s (Suc i)"
      unfolding list_update_overwrite keep using d by (simp add: s3_after_def suc add.assoc)
    ultimately show ?thesis using em(2,3) d by (simp add: s3_after_def)
  qed
qed

lemma s3_after_0: "s3_after s 0 = s"
  by (simp add: s3_after_def)

lemma s3_tick_prefix:
  assumes "s3_wf s" "tm_ok (env_store e)" "i \<le> unat (s3_set_count s)"
  shows "\<exists>e'. foldl (\<lambda>se i. s3_tick_set i se) (s, e) [0..<i] = (s3_after s i, e')
    \<and> env_s1 e' = env_s1 e \<and> tm_offered (env_store e)
        (s3_packets s (s3_msg_counter s) (filter s3_due (take i (s3_sets s)))) (env_store e')"
  using assms(3)
proof (induction i)
  case 0
  then show ?case using assms(2) by (simp add: s3_after_0 tm_offered_nil)
next
  case (Suc i)
  have l: "i < length (s3_sets s)" and i: "i < unat (s3_set_count s)"
    using Suc.prems assms(1) by (auto simp: s3_wf_def)
  have "s3_sets s ! i \<in> set (s3_used s)"
    using l i unfolding s3_used_def by (metis in_set_conv_nth length_take min_less_iff_conj nth_take)
  then have wf: "s3_set_wf s (s3_sets s ! i)" using assms(1) by (simp add: s3_wf_def)
  obtain e1 where e1: "foldl (\<lambda>se i. s3_tick_set i se) (s, e) [0..<i] = (s3_after s i, e1)"
    "env_s1 e1 = env_s1 e" "tm_offered (env_store e)
      (s3_packets s (s3_msg_counter s) (filter s3_due (take i (s3_sets s)))) (env_store e1)"
    using Suc by auto
  have "tm_ok (env_store e1)" using e1(3) by (rule tm_offered_ok)
  from s3_tick_set_step [OF l wf this] obtain e2 where e2:
    "s3_tick_set i (s3_after s i, e1) = (s3_after s (Suc i), e2)" "env_s1 e2 = env_s1 e1"
    "tm_offered (env_store e1) (s3_packets s (s3_msg_counter (s3_after s i))
         (filter s3_due [s3_sets s ! i])) (env_store e2)" by blast
  have "s3_packets s (s3_msg_counter s) (filter s3_due (take (Suc i) (s3_sets s)))
      = s3_packets s (s3_msg_counter s) (filter s3_due (take i (s3_sets s)))
        @ s3_packets s (s3_msg_counter (s3_after s i)) (filter s3_due [s3_sets s ! i])"
    using l by (simp add: take_Suc_conv_app_nth s3_packets_append s3_after_def)
  then show ?case
    using e1 e2 tm_offered_append [OF e1(3) e2(3)] by simp
qed

lemma s3_tick_effect:
  assumes "s3_wf s" "tm_ok (env_store e)"
  obtains e' where "obsw_s3_tick (Some s) e = (Some (s3_after s (unat (s3_set_count s))), e')"
    and "env_s1 e' = env_s1 e"
    and "tm_offered (env_store e) (s3_packets s (s3_msg_counter s) (filter s3_due (s3_used s))) (env_store e')"
  using s3_tick_prefix [OF assms order_refl] by (auto simp: obsw_s3_tick_def s3_used_def)

lemma s3_next_frame [simp]:
  "set_id (s3_next x) = set_id x" "set_params (s3_next x) = set_params x"
  "set_param_count (s3_next x) = set_param_count x" "set_interval (s3_next x) = set_interval x"
  "set_enabled (s3_next x) = set_enabled x" "s3_set_wf s (s3_next x) = s3_set_wf s x"
  "s3_descr s (s3_next x) = s3_descr s x" "s3_packet s n (s3_next x) = s3_packet s n x"
  by (simp_all add: s3_next_def)

lemma s3_packed_map:
  "(\<And>x. set_params (f x) = set_params x) \<Longrightarrow> (\<And>x. set_param_count (f x) = set_param_count x) \<Longrightarrow>
   s3_packed k (map f xs) m = s3_packed k xs m"
  by (induction xs arbitrary: k) (simp_all split: s3_params.split)

lemma s3_after_wf [inv_intros]:
  assumes "s3_wf s"
  shows "s3_wf (s3_after s (unat (s3_set_count s)))"
    and "s3_used (s3_after s (unat (s3_set_count s))) = map s3_next (s3_used s)"
proof -
  have l: "unat (s3_set_count s) \<le> length (s3_sets s)" using assms by (simp add: s3_wf_def)
  then show u: "s3_used (s3_after s (unat (s3_set_count s))) = map s3_next (s3_used s)"
    by (simp add: s3_used_def s3_after_def)
  have m: "map (set_id \<circ> s3_next) (s3_used s) = map set_id (s3_used s)" by simp
  have w: "s3_set_wf (s3_after s n) x = s3_set_wf s x" for n x by (simp add: s3_after_def)
  show "s3_wf (s3_after s (unat (s3_set_count s)))"
    using assms l unfolding s3_wf_def u by (auto simp: w m s3_packed_map) (simp_all add: s3_after_def)
qed

subsection \<open>Periods\<close>

text \<open>Between two ticks the variables and parameters change at will.\<close>

definition s3_observe :: "(nat \<Rightarrow> u32) \<times> obsw_s20_param list \<Rightarrow> obsw_s3_ctx \<Rightarrow> obsw_s3_ctx" where
  "s3_observe v s = s\<lparr>s3_vars := fst v, s3_param_table := snd v\<rparr>"

definition s3_ticks ::
  "((nat \<Rightarrow> u32) \<times> obsw_s20_param list) list \<Rightarrow> obsw_s3_ctx option \<times> tm_env \<Rightarrow> obsw_s3_ctx option \<times> tm_env" where
  "s3_ticks vs se = foldl (\<lambda>se v. obsw_s3_tick (map_option (s3_observe v) (fst se)) (snd se)) se vs"

lemma s3_observe_frame [simp]:
  "s3_used (s3_observe v s) = s3_used s" "s3_set_param (s3_observe v s) = s3_set_param s"
  "s3_descr (s3_observe v s) = s3_descr s" "s3_set_wf (s3_observe v s) = s3_set_wf s"
  "s3_wf (s3_observe v s) = s3_wf s" "s3_set_count (s3_observe v s) = s3_set_count s"
  "s3_msg_counter (s3_observe v s) = s3_msg_counter s"
proof -
  show p: "s3_set_param (s3_observe v s) = s3_set_param s"
    by (simp add: fun_eq_iff s3_set_param_def s3_observe_def split: s3_params.split)
  then show d: "s3_descr (s3_observe v s) = s3_descr s" by (simp add: fun_eq_iff s3_descr_def)
  then show w: "s3_set_wf (s3_observe v s) = s3_set_wf s"
    by (simp add: fun_eq_iff s3_set_wf_def s3_observe_def split: s3_params.split)
  show u: "s3_used (s3_observe v s) = s3_used s" by (simp add: s3_used_def s3_observe_def)
  show "s3_wf (s3_observe v s) = s3_wf s" unfolding s3_wf_def u w by (simp add: s3_observe_def)
qed (simp_all add: s3_observe_def)

lemma s3_ticks_used:
  assumes "s3_wf s" "tm_ok (env_store e)"
  shows "\<exists>s' e'. s3_ticks vs (Some s, e) = (Some s', e') \<and> s3_wf s' \<and> tm_ok (env_store e')
    \<and> s3_used s' = map (s3_next ^^ length vs) (s3_used s)"
  using assms
proof (induction vs arbitrary: s e)
  case Nil
  then show ?case by (simp add: s3_ticks_def)
next
  case (Cons v vs)
  let ?o = "s3_observe v s"
  have wf: "s3_wf ?o" using Cons.prems(1) by simp
  obtain e1 where t: "obsw_s3_tick (Some ?o) e = (Some (s3_after ?o (unat (s3_set_count ?o))), e1)"
    and f: "tm_offered (env_store e) (s3_packets ?o (s3_msg_counter ?o) (filter s3_due (s3_used ?o))) (env_store e1)"
    using s3_tick_effect [OF wf Cons.prems(2)] by metis
  have ok: "tm_ok (env_store e1)" using f by (rule tm_offered_ok)
  from Cons.IH [OF s3_after_wf(1) [OF wf] ok] obtain s' e' where
    "s3_ticks vs (Some (s3_after ?o (unat (s3_set_count ?o))), e1) = (Some s', e')" "s3_wf s'"
    "tm_ok (env_store e')" "s3_used s' = map (s3_next ^^ length vs) (map s3_next (s3_used s))"
    unfolding s3_after_wf(2) [OF wf] s3_observe_frame(1) by blast
  moreover have "(s3_next ^^ length vs) \<circ> s3_next = s3_next ^^ Suc (length vs)"
    by (simp add: funpow_Suc_right del: funpow.simps)
  ultimately show ?case using t by (simp add: s3_ticks_def del: funpow.simps)
qed

lemma s3_next_pow_frame:
  "set_enabled ((s3_next ^^ j) x) = set_enabled x" "set_interval ((s3_next ^^ j) x) = set_interval x"
  by (induction j) simp_all

text \<open>The countdown after \<open>j\<close> ticks, for a set with a period.\<close>

lemma s3_countdown_closed:
  assumes "set_enabled x" "set_interval x \<noteq> 0" "c = max 1 (unat (set_countdown x))"
  shows "unat (set_countdown ((s3_next ^^ j) x)) =
    (if j < c then unat (set_countdown x) - j
     else unat (set_interval x) - (j - c) mod unat (set_interval x))"
proof (induction j)
  case 0
  then show ?case using assms(3) by simp
next
  case (Suc j)
  let ?y = "(s3_next ^^ j) x" and ?t = "unat (set_interval x)"
  have cc: "unat (set_countdown x) = c \<or> unat (set_countdown x) = 0 \<and> c = 1" using assms(3) by auto
  have t: "0 < ?t" using assms(2) by (simp add: unat_gt_0)
  have y: "set_enabled ?y" "set_interval ?y = set_interval x" using assms(1) by (simp_all add: s3_next_pow_frame)
  have one: "set_countdown ?y \<le> 1 \<longleftrightarrow> unat (set_countdown ?y) \<le> 1" by (simp add: word_le_nat_alt)
  have dec: "unat (set_countdown ?y - 1) = unat (set_countdown ?y) - 1" if "\<not> unat (set_countdown ?y) \<le> 1"
    using that by (intro unat_pred_word) auto
  have step: "unat (set_countdown ((s3_next ^^ Suc j) x))
      = (if unat (set_countdown ?y) \<le> 1 then ?t else unat (set_countdown ?y) - 1)"
    using y assms(2) one dec by (simp add: s3_next_def)
  consider (before) "Suc j < c" | (first) "Suc j = c" | (later) "c \<le> j" by linarith
  then show ?case
  proof cases
    case before
    then show ?thesis using Suc.IH cc unfolding step by auto
  next
    case first
    then have "unat (set_countdown ?y) \<le> 1" using Suc.IH cc by auto
    then show ?thesis using first t unfolding step by simp
  next
    case later
    define k where "k = j - c"
    have k: "Suc j - c = Suc k" using later unfolding k_def by (rule Suc_diff_le)
    have c: "unat (set_countdown ?y) = ?t - k mod ?t" using Suc.IH later by (simp add: k_def)
    have m: "k mod ?t < ?t" using t by simp
    show ?thesis
    proof (cases "Suc (k mod ?t) = ?t")
      case True
      then have "Suc k mod ?t = 0" by (simp add: mod_Suc)
      moreover have "unat (set_countdown ?y) \<le> 1" using c True by simp
      ultimately show ?thesis using later k unfolding step by simp
    next
      case False
      then have "Suc k mod ?t = Suc (k mod ?t)" by (simp add: mod_Suc)
      moreover have "\<not> unat (set_countdown ?y) \<le> 1" using c m False by linarith
      ultimately show ?thesis using later k c m unfolding step by simp
    qed
  qed
qed

lemma s3_due_closed:
  assumes "set_enabled x" "set_interval x \<noteq> 0" "c = max 1 (unat (set_countdown x))"
  shows "s3_due ((s3_next ^^ j) x) \<longleftrightarrow> c \<le> Suc j \<and> (Suc j - c) mod unat (set_interval x) = 0"
proof -
  let ?t = "unat (set_interval x)"
  have t: "0 < ?t" using assms(2) by (simp add: unat_gt_0)
  have d: "s3_due ((s3_next ^^ j) x) \<longleftrightarrow> unat (set_countdown ((s3_next ^^ j) x)) \<le> 1"
    using assms(1,2) by (simp add: s3_due_def s3_next_pow_frame word_le_nat_alt)
  note u = s3_countdown_closed [OF assms, of j]
  consider (before) "Suc j < c" | (first) "Suc j = c" | (later) "c \<le> j" by linarith
  then show ?thesis
  proof cases
    case before
    then show ?thesis unfolding d u using assms(3) by auto
  next
    case first
    then show ?thesis unfolding d u using assms(3) by auto
  next
    case later
    have k: "Suc j - c = Suc (j - c)" using later by (rule Suc_diff_le)
    have "(j - c) mod ?t < ?t" using t by simp
    then have "?t - (j - c) mod ?t \<le> 1 \<longleftrightarrow> Suc ((j - c) mod ?t) = ?t" by linarith
    then show ?thesis unfolding d u k using later by (simp add: mod_Suc)
  qed
qed

subsection \<open>Removal of a defined set\<close>

lemma foldl_shift_down:
  assumes "0 < n" "n \<le> e" "m \<le> length p"
  shows "length (foldl (\<lambda>p k. p[k - n := p ! k]) p [e..<m]) = length p"
    and "j < length p \<Longrightarrow> foldl (\<lambda>p k. p[k - n := p ! k]) p [e..<m] ! j
      = (if e - n \<le> j \<and> j < m - n then p ! (j + n) else p ! j)"
proof -
  let ?f = "\<lambda>m. foldl (\<lambda>p k. p[k - n := p ! k]) p [e..<m]"
  have "length (?f m) = length p \<and> (\<forall>j < length p. ?f m ! j
      = (if e - n \<le> j \<and> j < m - n then p ! (j + n) else p ! j))"
    using assms(3)
  proof (induction m)
    case (Suc m)
    show ?case
    proof (cases "e \<le> m")
      case True
      have ih: "length (?f m) = length p" "\<forall>j < length p. ?f m ! j
          = (if e - n \<le> j \<and> j < m - n then p ! (j + n) else p ! j)"
        using Suc by simp_all
      have f: "?f (Suc m) = (?f m)[m - n := ?f m ! m]" using True by simp
      have "?f m ! m = p ! m" using ih(2) Suc.prems assms(1) by auto
      moreover have "m - n < length p" using Suc.prems by simp
      ultimately show ?thesis
        unfolding f using ih True assms(1,2) by (auto simp: nth_list_update)
    next
      case False
      then show ?thesis using assms(1,2) by auto
    qed
  qed (use assms(2) in auto)
  then show "length (?f m) = length p" "j < length p \<Longrightarrow> ?f m ! j
      = (if e - n \<le> j \<and> j < m - n then p ! (j + n) else p ! j)" by simp_all
qed

lemma foldl_shift_sets:
  "foldl (\<lambda>t i. t[i := t ! (i + 1)]) t [a..<b] = foldl (\<lambda>t k. t[k - 1 := t ! k]) t [Suc a..<Suc b]"
  by (induction b) auto

definition s3_shift :: "nat \<Rightarrow> nat \<Rightarrow> obsw_s3_set \<Rightarrow> obsw_s3_set" where
  "s3_shift e n y =
    (case set_params y of Pool k \<Rightarrow> if e \<le> k then y\<lparr>set_params := Pool (k - n)\<rparr> else y | Boot _ \<Rightarrow> y)"

lemma s3_shift_frame [simp]:
  "set_id (s3_shift e n y) = set_id y" "set_param_count (s3_shift e n y) = set_param_count y"
  "set_interval (s3_shift e n y) = set_interval y" "set_countdown (s3_shift e n y) = set_countdown y"
  "set_enabled (s3_shift e n y) = set_enabled y"
  by (auto simp: s3_shift_def split: s3_params.split)

lemma s3_packed_shift:
  "s3_packed (e + k) ys m \<Longrightarrow> n \<le> e \<Longrightarrow> s3_packed (e - n + k) (map (s3_shift e n) ys) (m - n)"
proof (induction ys arbitrary: k)
  case Nil
  then show ?case by simp
next
  case (Cons y ys)
  show ?case
  proof (cases "set_params y")
    case (Boot ps)
    then show ?thesis using Cons by (simp add: s3_shift_def)
  next
    case (Pool j)
    then have j: "j = e + k" "0 < set_param_count y" "s3_packed (e + (k + unat (set_param_count y))) ys m"
      using Cons.prems(1) by (simp_all add: add.assoc)
    have "set_params (s3_shift e n y) = Pool (e - n + k)"
      using Pool j(1) Cons.prems(2) by (simp add: s3_shift_def)
    then show ?thesis using Cons.IH [OF j(3) Cons.prems(2)] j(2) by (simp add: add.assoc)
  qed
qed

lemma s3_used_split:
  assumes "s3_wf s" "idx < length (s3_used s)" "set_params (s3_used s ! idx) = Pool off"
    and "n = unat (set_param_count (s3_used s ! idx))"
  shows "s3_packed 0 (take idx (s3_used s)) off" "s3_packed (off + n) (drop (Suc idx) (s3_used s)) (unat (s3_pool_used s))"
    "0 < n" "off + n \<le> unat (s3_pool_used s)"
proof -
  let ?u = "s3_used s" and ?m = "unat (s3_pool_used s)"
  have "?u = take idx ?u @ ?u ! idx # drop (Suc idx) ?u" using assms(2) by (rule id_take_nth_drop)
  moreover have "s3_packed 0 ?u ?m" using assms(1) by (simp add: s3_wf_def)
  ultimately have "s3_packed 0 (take idx ?u @ ?u ! idx # drop (Suc idx) ?u) ?m" by simp
  then show p: "s3_packed 0 (take idx ?u) off" "s3_packed (off + n) (drop (Suc idx) ?u) ?m" "0 < n"
    using assms(3,4) by (auto simp: s3_packed_append word_less_nat_alt)
  show "off + n \<le> ?m" using p(2) by (rule s3_packed_le)
qed

lemma remove_defined_used:
  assumes "s3_wf s" "idx < length (s3_used s)" "set_params (s3_used s ! idx) = Pool off"
    and "n = unat (set_param_count (s3_used s ! idx))"
  shows "s3_used (remove_defined s idx)
      = map (s3_shift (off + n) n) (take idx (s3_used s) @ drop (Suc idx) (s3_used s))"
    and "unat (s3_pool_used (remove_defined s idx)) = unat (s3_pool_used s) - n"
    and "s3_param_pool (remove_defined s idx) = map_option (\<lambda>p. foldl (\<lambda>p k. p[k - n := p ! k]) p
      [off + n..<unat (s3_pool_used s)]) (s3_param_pool s)"
    and "unat (s3_set_count (remove_defined s idx)) = unat (s3_set_count s) - 1"
    and "length (s3_sets (remove_defined s idx)) = length (s3_sets s)"
proof -
  let ?u = "s3_used s" and ?m = "unat (s3_pool_used s)" and ?c = "unat (s3_set_count s)"
  define x where "x = s3_sets s ! idx"
  have lu: "length ?u = ?c" "?c \<le> length (s3_sets s)" using assms(1) by (simp_all add: s3_used_def s3_wf_def)
  have xu: "?u ! idx = x" using assms(2) by (simp add: s3_used_def x_def)
  note sp = s3_used_split [OF assms]
  have pk: "s3_packed 0 ?u ?m" using assms(1) by (simp add: s3_wf_def)
  have off: "pool_offset s x = int off" using assms(3) sp(3,4) xu by (simp add: pool_offset_def)
  have un: "unat (ucast (set_param_count x) :: u16) = n" using assms(4) xu by (simp add: unat_ucast_u8)
  have m16: "?m < 65536" by (rule u16_less_65536)
  have uo: "unat (of_int (int off) :: u16) = off"
    using sp(4) m16 by (simp add: unat_of_nat_small)
  have end': "unat ((of_int (int off) :: u16) + ucast (set_param_count x)) = off + n"
    using sp(4) m16 by (subst unat_add_small) (simp_all only: un uo, simp_all)
  then have ende: "uint ((of_int (int off) :: u16) + ucast (set_param_count x)) = int (off + n)"
    by (simp only: uint_nat)
  have po: "pool_offset s y = (case set_params y of Boot _ \<Rightarrow> -1 | Pool k \<Rightarrow> int k)" if "y \<in> set ?u" for y
    using s3_packed_mem [OF pk that] by (fastforce simp: pool_offset_def word_less_nat_alt split: s3_params.split)
  define sets1 where "sets1 = map (\<lambda>i. if i < ?c \<and> (if i = idx then -1 else pool_offset s (s3_sets s ! i)) \<ge> int (off + n)
      then (s3_sets s ! i)\<lparr>set_params := Pool (nat (if i = idx then -1 else pool_offset s (s3_sets s ! i)) - n)\<rparr>
      else s3_sets s ! i) [0..<length (s3_sets s)]"
  define sets2 where "sets2 = foldl (\<lambda>t k. t[k - 1 := t ! k]) sets1 [Suc idx..<?c]"
  have c1: "0 < ?c" "Suc (?c - 1) = ?c" using assms(2) lu(1) by simp_all
  have r: "remove_defined s idx = s\<lparr>s3_sets := sets2, s3_param_pool := map_option (\<lambda>p. foldl
      (\<lambda>p k. p[k - n := p ! k]) p [off + n..<?m]) (s3_param_pool s),
      s3_pool_used := s3_pool_used s - ucast (set_param_count x), s3_set_count := s3_set_count s - 1\<rparr>"
    unfolding remove_defined_def Let_def x_def [symmetric] off end' ende un foldl_shift_sets c1(2) sets2_def sets1_def ..
  have s1n: "sets1 ! i = s3_shift (off + n) n (?u ! i)" if "i < ?c" "i \<noteq> idx" for i
  proof -
    have e: "s3_sets s ! i = ?u ! i" using that lu by (simp add: s3_used_def)
    have mem: "?u ! i \<in> set ?u" using that lu(1) by (intro nth_mem) simp
    have "sets1 ! i = (if pool_offset s (?u ! i) \<ge> int (off + n)
        then (?u ! i)\<lparr>set_params := Pool (nat (pool_offset s (?u ! i)) - n)\<rparr> else ?u ! i)"
      using that lu by (simp add: sets1_def e)
    then show ?thesis by (cases "set_params (?u ! i)") (simp_all add: po [OF mem] s3_shift_def)
  qed
  have l1: "length sets1 = length (s3_sets s)" by (simp add: sets1_def)
  have l2: "length sets2 = length (s3_sets s)"
    using foldl_shift_down(1) [of 1 "Suc idx" ?c sets1] lu l1 by (simp add: sets2_def)
  have s2n: "sets2 ! j = (if idx \<le> j \<and> j < ?c - 1 then sets1 ! (j + 1) else sets1 ! j)" if "j < length (s3_sets s)" for j
    using foldl_shift_down(2) [of 1 "Suc idx" ?c sets1 j] lu l1 that by (simp add: sets2_def)
  have "s3_set_count s \<noteq> 0" using c1(1) by auto
  then have cnt: "unat (s3_set_count s - 1) = ?c - 1" by (rule unat_pred_word)
  show "unat (s3_set_count (remove_defined s idx)) = ?c - 1" by (simp add: r cnt)
  show "length (s3_sets (remove_defined s idx)) = length (s3_sets s)" by (simp add: r l2)
  show "s3_param_pool (remove_defined s idx) = map_option (\<lambda>p. foldl (\<lambda>p k. p[k - n := p ! k]) p
      [off + n..<?m]) (s3_param_pool s)" by (simp add: r)
  show "unat (s3_pool_used (remove_defined s idx)) = ?m - n"
    using sp(4) un by (simp add: r unat_sub_if')
  have "s3_used (remove_defined s idx) = take (?c - 1) sets2" by (simp add: r s3_used_def cnt)
  also have "\<dots> = map (s3_shift (off + n) n) (take idx ?u @ drop (Suc idx) ?u)"
  proof (rule nth_equalityI)
    show "length (take (?c - 1) sets2) = length (map (s3_shift (off + n) n) (take idx ?u @ drop (Suc idx) ?u))"
      using assms(2) lu l2 by simp
    fix j assume "j < length (take (?c - 1) sets2)"
    then have j: "j < ?c - 1" "j < length (s3_sets s)" using l2 by simp_all
    have "(take idx ?u @ drop (Suc idx) ?u) ! j = (if j < idx then ?u ! j else ?u ! (j + 1))"
      using assms(2) lu(1) j by (auto simp: nth_append min_def)
    moreover have "map (s3_shift (off + n) n) (take idx ?u @ drop (Suc idx) ?u) ! j
        = s3_shift (off + n) n ((take idx ?u @ drop (Suc idx) ?u) ! j)"
      using assms(2) lu(1) j by (intro nth_map) simp
    ultimately show "take (?c - 1) sets2 ! j = map (s3_shift (off + n) n) (take idx ?u @ drop (Suc idx) ?u) ! j"
      using j s2n [OF j(2)] s1n [of j] s1n [of "j + 1"] assms(2) lu(1) by (simp del: map_append)
  qed
  finally show "s3_used (remove_defined s idx)
      = map (s3_shift (off + n) n) (take idx ?u @ drop (Suc idx) ?u)" .
qed

text \<open>The descriptors of the sets that stay are the same after the pool was compacted.\<close>

lemma remove_defined_descr:
  assumes "s3_wf s" "idx < length (s3_used s)" "set_params (s3_used s ! idx) = Pool off"
    and "n = unat (set_param_count (s3_used s ! idx))"
    and "y \<in> set (take idx (s3_used s) @ drop (Suc idx) (s3_used s))"
  shows "s3_descr (remove_defined s idx) (s3_shift (off + n) n y) = s3_descr s y"
proof -
  let ?m = "unat (s3_pool_used s)" and ?t = "remove_defined s idx"
  note sp = s3_used_split [OF assms(1-4)] and ru = remove_defined_used [OF assms(1-4)]
  have mem: "y \<in> set (s3_used s)" using assms(5) by (auto dest: in_set_takeD in_set_dropD)
  show ?thesis
  proof (cases "set_params y")
    case (Boot ps)
    then show ?thesis by (simp add: s3_descr_def s3_shift_def s3_set_param_def)
  next
    case (Pool k)
    have "s3_set_wf s y" using assms(1) mem by (simp add: s3_wf_def)
    with Pool obtain p where p: "s3_param_pool s = Some p" by (auto simp: s3_set_wf_def)
    then have lp: "?m \<le> length p" using assms(1) by (simp add: s3_wf_def word_le_nat_alt)
    let ?p' = "foldl (\<lambda>p k. p[k - n := p ! k]) p [off + n..<?m]"
    have p': "s3_param_pool ?t = Some ?p'" using ru(3) p by simp
    have nth: "?p' ! j = (if off \<le> j \<and> j < ?m - n then p ! (j + n) else p ! j)" if "j < length p" for j
      using foldl_shift_down(2) [of n "off + n" ?m p j] sp(3) lp that by simp
    from assms(5) consider (before) "y \<in> set (take idx (s3_used s))" | (behind) "y \<in> set (drop (Suc idx) (s3_used s))"
      by auto
    then show ?thesis
    proof cases
      case before
      note b = s3_packed_mem [OF sp(1) before Pool]
      have sh: "s3_shift (off + n) n y = y" using b Pool by (auto simp: s3_shift_def word_less_nat_alt)
      have "?p' ! (k + i) = p ! (k + i)" if "i < unat (set_param_count y)" for i
        using nth [of "k + i"] b(3) that sp(4) lp by simp
      then show ?thesis unfolding s3_descr_def sh using Pool p p' by (simp add: s3_set_param_def)
    next
      case behind
      note b = s3_packed_mem [OF sp(2) behind Pool]
      have sh: "s3_shift (off + n) n y = y\<lparr>set_params := Pool (k - n)\<rparr>" using b Pool by (simp add: s3_shift_def)
      have "?p' ! (k - n + i) = p ! (k + i)" if "i < unat (set_param_count y)" for i
      proof -
        have "off \<le> k - n + i" "k - n + i < ?m - n" "k - n + i + n = k + i" "k - n + i < length p"
          using b that lp by linarith+
        then show ?thesis using nth [of "k - n + i"] by simp
      qed
      then show ?thesis unfolding s3_descr_def sh using Pool p p' by (simp add: s3_set_param_def)
    qed
  qed
qed

lemma remove_defined_spec:
  assumes "s3_wf s" "idx < length (s3_used s)" "set_params (s3_used s ! idx) = Pool off"
  shows "s3_wf (remove_defined s idx)"
    and "s3_views (remove_defined s idx) = take idx (s3_views s) @ drop (Suc idx) (s3_views s)"
proof -
  define n where "n = unat (set_param_count (s3_used s ! idx))"
  let ?u = "s3_used s" and ?t = "remove_defined s idx" and ?f = "s3_shift (off + n) n"
  let ?r = "take idx ?u @ drop (Suc idx) ?u"
  note sp = s3_used_split [OF assms n_def] and ru = remove_defined_used [OF assms n_def]
  have d: "s3_descr ?t (?f y) = s3_descr s y" if "y \<in> set ?r" for y
    using remove_defined_descr [OF assms n_def that] .
  have sub: "set ?r \<subseteq> set ?u" by (auto dest: in_set_takeD in_set_dropD)
  have "s3_views ?t = map (s3_view s) ?r"
    unfolding s3_views_def ru(1) map_map using d by (intro map_cong) (simp_all add: s3_view_def)
  then show "s3_views ?t = take idx (s3_views s) @ drop (Suc idx) (s3_views s)"
    by (simp add: s3_views_def take_map drop_map)
  have ids: "distinct (map set_id (map ?f ?r))"
  proof -
    have "distinct (map set_id ?u)" using assms(1) by (simp add: s3_wf_def)
    then have "distinct (map set_id (take idx ?u @ ?u ! idx # drop (Suc idx) ?u))"
      using id_take_nth_drop [OF assms(2)] by simp
    then show ?thesis by (simp add: comp_def)
  qed
  have p1: "s3_packed 0 (map ?f (take idx ?u)) off"
  proof -
    have "?f y = y" if "y \<in> set (take idx ?u)" for y
      using s3_packed_mem [OF sp(1) that] by (auto simp: s3_shift_def word_less_nat_alt split: s3_params.split)
    then have "map ?f (take idx ?u) = take idx ?u" by (intro map_idI)
    then show ?thesis using sp(1) by simp
  qed
  have p2: "s3_packed off (map ?f (drop (Suc idx) ?u)) (unat (s3_pool_used s) - n)"
    using s3_packed_shift [of "off + n" 0 "drop (Suc idx) ?u" "unat (s3_pool_used s)" n] sp(2) by simp
  have wf: "s3_set_wf ?t (?f y)" if y: "y \<in> set ?r" for y
  proof -
    have w: "s3_set_wf s y" using assms(1) sub y by (auto simp: s3_wf_def)
    then show ?thesis using d [OF y] ru(3)
      by (auto simp: s3_set_wf_def s3_shift_def split: s3_params.splits)
  qed
  have pool: "length p' = length p" if "s3_param_pool ?t = Some p'" "s3_param_pool s = Some p" for p p'
    using that ru(3) foldl_shift_down(1) [of n "off + n" "unat (s3_pool_used s)" p] sp(3) assms(1)
    by (auto simp: s3_wf_def word_le_nat_alt)
  have fr: "s3_set_capacity ?t = s3_set_capacity s" "s3_pool_len ?t = s3_pool_len s"
    by (simp_all add: remove_defined_def Let_def)
  have pl: "unat (s3_pool_len ?t) \<le> length p'" if "s3_param_pool ?t = Some p'" for p'
    using that pool [OF that] ru(3) assms(1) by (cases "s3_param_pool s") (auto simp: s3_wf_def fr)
  have "s3_pool_used ?t \<le> s3_pool_len ?t"
    using ru(2) assms(1) by (auto simp: s3_wf_def fr word_le_nat_alt intro: le_trans [OF diff_le_self])
  moreover have "s3_packed 0 (map ?f ?r) (unat (s3_pool_used s) - n)"
    using p1 p2 by (auto simp: s3_packed_append)
  ultimately show "s3_wf ?t"
    using assms(1) ids wf pl unfolding s3_wf_def ru(1,2,4,5) fr by auto
qed

lemma remove_nth_filter:
  assumes "distinct (map f xs)" "k < length xs"
  shows "take k xs @ drop (Suc k) xs = filter (\<lambda>x. f x \<noteq> f (xs ! k)) xs"
proof -
  have xs: "xs = take k xs @ xs ! k # drop (Suc k) xs" using assms(2) by (rule id_take_nth_drop)
  have "distinct (map f (take k xs @ xs ! k # drop (Suc k) xs))" using assms(1) xs by simp
  then have "\<forall>y \<in> set (take k xs). f y \<noteq> f (xs ! k)" "\<forall>y \<in> set (drop (Suc k) xs). f y \<noteq> f (xs ! k)"
    by (force simp: image_iff)+
  then have "filter (\<lambda>x. f x \<noteq> f (xs ! k)) (take k xs @ xs ! k # drop (Suc k) xs)
      = take k xs @ drop (Suc k) xs" by simp
  then show ?thesis using xs by simp
qed

definition s3_defined :: "obsw_s3_ctx \<Rightarrow> u8 \<Rightarrow> bool" where
  "s3_defined s i \<longleftrightarrow> (\<exists>y \<in> set (s3_used s). set_id y = i \<and> (\<exists>k. set_params y = Pool k))"

lemma s3_find_set_Some:
  assumes "s3_wf s" "s3_find_set s i = Some k"
  shows "k < length (s3_used s)" "set_id (s3_used s ! k) = i" "s3_used s ! k = s3_sets s ! k"
  using find_index_SomeD(1,2) [of "\<lambda>x. set_id x = i" "s3_used s" k] assms(2)
  by (simp_all add: s3_find_set_def s3_used_def)

lemma s3_defined_find:
  assumes "s3_wf s" "s3_defined s i"
  obtains k off where "s3_find_set s i = Some k" "k < length (s3_used s)" "set_id (s3_used s ! k) = i"
    "set_params (s3_used s ! k) = Pool off"
proof -
  obtain j where j: "j < length (s3_used s)" "set_id (s3_used s ! j) = i" "\<exists>k. set_params (s3_used s ! j) = Pool k"
    using assms(2) by (auto simp: s3_defined_def in_set_conv_nth)
  have "distinct (map set_id (s3_used s))" using assms(1) by (simp add: s3_wf_def)
  from find_index_key [OF this j(1)] j(2) have "s3_find_set s i = Some j"
    by (simp add: s3_find_set_def s3_used_def)
  with j show thesis using that by blast
qed

lemma s3_delete_fold:
  assumes "s3_wf s" "distinct ids" "\<forall>i \<in> set ids. s3_defined s i"
  shows "\<exists>s'. foldl (\<lambda>s i. case s3_find_set s i of Some k \<Rightarrow> remove_defined s k | None \<Rightarrow> s) s ids = s'
    \<and> s3_wf s' \<and> s3_views s' = filter (\<lambda>v. v_id v \<notin> set ids) (s3_views s)"
  using assms
proof (induction ids arbitrary: s)
  case Nil
  then show ?case by simp
next
  case (Cons i ids)
  have di: "s3_defined s i" using Cons.prems(3) by simp
  obtain k off where k: "s3_find_set s i = Some k" "k < length (s3_used s)" "set_id (s3_used s ! k) = i"
    "set_params (s3_used s ! k) = Pool off"
    by (rule s3_defined_find [OF Cons.prems(1) di])
  let ?t = "remove_defined s k"
  note r = remove_defined_spec [OF Cons.prems(1) k(2,4)]
  have dv: "distinct (map v_id (s3_views s))"
    using Cons.prems(1) by (simp add: s3_wf_def s3_views_def comp_def s3_view_def)
  have vk: "v_id (s3_views s ! k) = i" "k < length (s3_views s)" using k(2,3) by (simp_all add: s3_views_def s3_view_def)
  have vt: "s3_views ?t = filter (\<lambda>v. v_id v \<noteq> i) (s3_views s)"
    unfolding r(2) using remove_nth_filter [OF dv vk(2)] vk(1) by simp
  have "s3_defined ?t j" if "j \<in> set ids" for j
  proof -
    have "j \<noteq> i" "s3_defined s j" using that Cons.prems(2,3) by auto
    then obtain y where y: "y \<in> set (s3_used s)" "set_id y = j" "\<exists>k. set_params y = Pool k"
      by (auto simp: s3_defined_def)
    have "s3_used s = take k (s3_used s) @ s3_used s ! k # drop (Suc k) (s3_used s)"
      using k(2) by (rule id_take_nth_drop)
    with y(1) have "y \<in> set (take k (s3_used s) @ s3_used s ! k # drop (Suc k) (s3_used s))" by simp
    moreover have "y \<noteq> s3_used s ! k" using \<open>j \<noteq> i\<close> y(2) k(3) by auto
    ultimately have "y \<in> set (take k (s3_used s) @ drop (Suc k) (s3_used s))" by auto
    then have "s3_shift (off + unat (set_param_count (s3_used s ! k))) (unat (set_param_count (s3_used s ! k))) y
        \<in> set (s3_used ?t)"
      unfolding remove_defined_used(1) [OF Cons.prems(1) k(2,4) refl] set_map by (rule imageI)
    then show ?thesis unfolding s3_defined_def
      using y(2,3) by (intro bexI) (auto simp: s3_shift_def)
  qed
  with Cons.IH [OF r(1)] Cons.prems(2) have ih: "s3_wf (foldl (\<lambda>s i. case s3_find_set s i of
      Some k \<Rightarrow> remove_defined s k | None \<Rightarrow> s) ?t ids)"
    "s3_views (foldl (\<lambda>s i. case s3_find_set s i of Some k \<Rightarrow> remove_defined s k | None \<Rightarrow> s) ?t ids)
      = filter (\<lambda>v. v_id v \<notin> set ids) (s3_views ?t)" by simp_all
  show ?case using ih by (auto simp: k(1) vt intro!: filter_cong)
qed

lemma s3_delete_ok_spec:
  assumes "s3_wf s" "s3_delete_ok s ids"
  shows "distinct ids" "\<forall>i \<in> set ids. s3_defined s i \<and> (\<forall>v \<in> set (s3_views s). v_id v = i \<longrightarrow> \<not> v_enabled v)"
proof -
  have ok: "\<forall>i < length ids. (case s3_find_set s (ids ! i) of None \<Rightarrow> False
        | Some k \<Rightarrow> \<not> set_enabled (s3_sets s ! k) \<and> pool_offset s (s3_sets s ! k) \<ge> 0)
      \<and> (\<forall>j < i. ids ! j \<noteq> ids ! i)"
    using assms(2) by (simp add: s3_delete_ok_def list_all_iff)
  then show "distinct ids"
    unfolding distinct_conv_nth by (metis linorder_neqE_nat)
  have ids: "distinct (map set_id (s3_used s))" using assms(1) by (simp add: s3_wf_def)
  show "\<forall>i \<in> set ids. s3_defined s i \<and> (\<forall>v \<in> set (s3_views s). v_id v = i \<longrightarrow> \<not> v_enabled v)"
  proof
    fix i assume "i \<in> set ids"
    then obtain n where "n < length ids" "ids ! n = i" by (auto simp: in_set_conv_nth)
    with ok obtain k where k: "s3_find_set s i = Some k" "\<not> set_enabled (s3_sets s ! k)"
      "pool_offset s (s3_sets s ! k) \<ge> 0"
      by (cases "s3_find_set s i") auto
    note f = s3_find_set_Some [OF assms(1) k(1)]
    have "s3_used s ! k \<in> set (s3_used s)" using f(1) by (rule nth_mem)
    then have "s3_defined s i"
      using k(3) f(2,3) by (auto simp: s3_defined_def pool_offset_def split: s3_params.splits)
    moreover have "\<not> v_enabled v" if v: "v \<in> set (s3_views s)" "v_id v = i" for v
    proof -
      obtain y where y: "y \<in> set (s3_used s)" "v = s3_view s y" using v(1) by (auto simp: s3_views_def)
      then have "set_id y = set_id (s3_used s ! k)" using v(2) f(2) by (simp add: s3_view_def)
      then have "y = s3_used s ! k"
        using ids y(1) \<open>s3_used s ! k \<in> set (s3_used s)\<close> by (auto simp: distinct_map dest: inj_onD)
      then show ?thesis using k(2) f(3) y(2) by (simp add: s3_view_def)
    qed
    ultimately show "s3_defined s i \<and> (\<forall>v \<in> set (s3_views s). v_id v = i \<longrightarrow> \<not> v_enabled v)" by blast
  qed
qed

subsection \<open>Command handlers\<close>

lemma s3_packed_update:
  assumes "i < length xs" "set_params x = set_params (xs ! i)" "set_param_count x = set_param_count (xs ! i)"
  shows "s3_packed k (xs[i := x]) m = s3_packed k xs m"
  using assms
proof (induction xs arbitrary: k i)
  case (Cons y ys)
  then show ?case by (cases i) (auto split: s3_params.split)
qed simp

lemma s3_update_spec [inv_intros]:
  assumes "s3_wf s" "i < length (s3_used s)" "set_id x = set_id (s3_used s ! i)"
    "set_params x = set_params (s3_used s ! i)" "set_param_count x = set_param_count (s3_used s ! i)"
  shows "s3_wf (s\<lparr>s3_sets := (s3_sets s)[i := x]\<rparr>)"
    and "s3_views (s\<lparr>s3_sets := (s3_sets s)[i := x]\<rparr>) = (s3_views s)[i := s3_view s x]"
proof -
  let ?t = "s\<lparr>s3_sets := (s3_sets s)[i := x]\<rparr>"
  have u: "s3_used ?t = (s3_used s)[i := x]" using assms(2) by (simp add: s3_used_def take_update_swap)
  have d: "s3_descr s x = s3_descr s (s3_used s ! i)" using assms(4,5) by (simp add: s3_descr_def s3_set_param_def)
  have "s3_set_wf s (s3_used s ! i)" using assms(1,2) by (simp add: s3_wf_def)
  then have w: "s3_set_wf s x" using assms(4,5) d by (simp add: s3_set_wf_def split: s3_params.splits)
  have m: "map set_id ((s3_used s)[i := x]) = map set_id (s3_used s)"
    using assms(2,3) by (intro nth_equalityI) (auto simp: nth_list_update)
  show "s3_wf ?t"
    using assms(1) w unfolding s3_wf_def u m s3_sets_frame
    by (auto simp: s3_packed_update [OF assms(2,4,5)] dest!: set_update_subset_insert [THEN subsetD])
  have "s3_view ?t = s3_view s" by (simp add: fun_eq_iff s3_view_def)
  then show "s3_views ?t = (s3_views s)[i := s3_view s x]"
    unfolding s3_views_def u by (simp add: map_update)
qed

text \<open>The context after an accepted TC(3,1), and the descriptors of the new set.\<close>

definition s3_new_descr :: "obsw_s3_ctx \<Rightarrow> u16 list \<Rightarrow> obsw_s3_param list" where
  "s3_new_descr s ids =
    map (\<lambda>pid. \<lparr>p_ptr = Param_Value (the (s3_find_param s pid)), p_size = OBSW_S3_PARAM_U32\<rparr>) ids"

definition s3_add_set :: "obsw_s3_ctx \<Rightarrow> obsw_s3_param list \<Rightarrow> u8 \<Rightarrow> u32 \<Rightarrow> u8 \<Rightarrow> obsw_s3_param list \<Rightarrow> obsw_s3_ctx" where
  "s3_add_set s pool sid interval n new =
    s\<lparr>s3_param_pool := Some (memcpy_at pool (unat (s3_pool_used s)) new (unat n)),
      s3_pool_used := s3_pool_used s + ucast n,
      s3_sets := (s3_sets s)[unat (s3_set_count s) :=
        \<lparr>set_id = sid, set_params = Pool (unat (s3_pool_used s)), set_param_count = n,
         set_interval = interval, set_countdown = interval, set_enabled = False\<rparr>],
      s3_set_count := s3_set_count s + 1\<rparr>"

lemma s3_add_set_spec:
  assumes "s3_wf s" "s3_find_set s sid = None" "0 < n" "1 + 4 * unat n \<le> 1007" "s3_param_pool s = Some pool"
    "s3_set_count s < s3_set_capacity s" "unat (s3_pool_used s) + unat n \<le> unat (s3_pool_len s)"
    "length new = unat n" "\<forall>p \<in> set new. p_size p = OBSW_S3_PARAM_U32"
  shows "s3_wf (s3_add_set s pool sid interval n new)"
    and "s3_views (s3_add_set s pool sid interval n new) = s3_views s
      @ [\<lparr>v_id = sid, v_descr = new, v_interval = interval, v_countdown = interval, v_enabled = False\<rparr>]"
proof -
  let ?t = "s3_add_set s pool sid interval n new" and ?k = "unat (s3_pool_used s)" and ?c = "unat (s3_set_count s)"
  define x where "x = \<lparr>set_id = sid, set_params = Pool ?k, set_param_count = n,
    set_interval = interval, set_countdown = interval, set_enabled = False\<rparr>"
  have lp: "unat (s3_pool_len s) \<le> length pool" using assms(1,5) by (simp add: s3_wf_def)
  have c: "?c < length (s3_sets s)" using assms(1,6) by (simp add: s3_wf_def word_less_nat_alt)
  have c1: "unat (s3_set_count s + 1) = ?c + 1"
    using assms(6) u8_less_256 [of "s3_set_capacity s"] by (intro unat_Suc_word) (simp add: word_less_nat_alt)
  have un: "unat (ucast n :: u16) = unat n" by (simp add: unat_ucast_u8)
  have k1: "unat (s3_pool_used s + ucast n) = ?k + unat n"
    using assms(7) u16_less_65536 [of "s3_pool_len s"] by (subst unat_add_small) (simp_all only: un, simp_all)
  have u: "s3_used ?t = s3_used s @ [x]"
    using c by (simp add: s3_used_def s3_add_set_def c1 take_Suc_conv_app_nth x_def)
  have pool: "s3_param_pool ?t = Some (memcpy_at pool ?k new (unat n))" by (simp add: s3_add_set_def)
  have nth: "memcpy_at pool ?k new (unat n) ! j = (if ?k \<le> j \<and> j < ?k + unat n then new ! (j - ?k) else pool ! j)"
    if "j < length pool" for j
    using assms(7,8) lp that by (intro nth_memcpy_at) simp_all
  have pk: "s3_packed 0 (s3_used s) ?k" using assms(1) by (simp add: s3_wf_def)
  have old: "s3_descr ?t y = s3_descr s y" if y: "y \<in> set (s3_used s)" for y
  proof (cases "set_params y")
    case (Boot ps)
    then show ?thesis by (simp add: s3_descr_def s3_set_param_def)
  next
    case (Pool j)
    note b = s3_packed_mem [OF pk y Pool]
    have "memcpy_at pool ?k new (unat n) ! (j + i) = pool ! (j + i)" if "i < unat (set_param_count y)" for i
      using nth [of "j + i"] b(3) that lp assms(7) by simp
    then show ?thesis using Pool pool assms(5) by (simp add: s3_descr_def s3_set_param_def)
  qed
  have newd: "s3_descr ?t x = new"
  proof (rule nth_equalityI)
    show "length (s3_descr ?t x) = length new" using assms(8) by (simp add: s3_descr_def x_def)
    fix i assume "i < length (s3_descr ?t x)"
    then have "i < unat n" by (simp add: s3_descr_def x_def)
    then show "s3_descr ?t x ! i = new ! i"
      using nth [of "?k + i"] lp assms(7) by (simp add: s3_descr_def s3_set_param_def x_def pool)
  qed
  have "s3_report_size new = 4 * length new"
    using assms(9) by (induction new) (simp_all add: s3_report_size_def)
  then have wx: "s3_set_wf ?t x" using assms(4,8) by (simp add: s3_set_wf_def newd) (simp add: x_def pool)
  have wo: "s3_set_wf ?t y" if y: "y \<in> set (s3_used s)" for y
  proof -
    have "s3_set_wf s y" using assms(1) y by (simp add: s3_wf_def)
    then show ?thesis by (simp add: s3_set_wf_def old [OF y] pool assms(5) split: s3_params.splits)
  qed
  have fr: "s3_set_capacity ?t = s3_set_capacity s" "s3_pool_len ?t = s3_pool_len s"
    "s3_set_count ?t = s3_set_count s + 1" "s3_pool_used ?t = s3_pool_used s + ucast n"
    "length (s3_sets ?t) = length (s3_sets s)" by (simp_all add: s3_add_set_def)
  have "sid \<notin> set_id ` set (s3_used s)"
    using assms(2) by (auto simp: s3_find_set_def find_index_None_iff s3_used_def)
  moreover have "set_id x = sid" by (simp add: x_def)
  moreover have "s3_packed 0 (s3_used s @ [x]) (?k + unat n)"
    using pk assms(3) by (auto simp: s3_packed_append x_def)
  moreover have "length (memcpy_at pool ?k new (unat n)) = length pool" using assms(7,8) lp by simp
  ultimately show "s3_wf ?t"
    using assms(1,7) wx wo c c1 lp k1 unfolding s3_wf_def u fr pool
    by (auto simp: word_le_nat_alt)
  have "map (s3_view ?t) (s3_used s) = map (s3_view s) (s3_used s)" using old by (simp add: s3_view_def)
  then show "s3_views ?t = s3_views s
      @ [\<lparr>v_id = sid, v_descr = new, v_interval = interval, v_countdown = interval, v_enabled = False\<rparr>]"
    unfolding s3_views_def u by (simp add: s3_view_def newd) (simp add: x_def)
qed

definition s3_define_ok :: "obsw_s3_ctx \<Rightarrow> obsw_tc \<Rightarrow> u8 list \<Rightarrow> obsw_s3_param list \<Rightarrow> bool" where
  "s3_define_ok s tc u pool \<longleftrightarrow> tc_user_data tc = Some u \<and> 6 \<le> tc_user_data_len tc \<and> 0 < u ! 5
     \<and> unat (tc_user_data_len tc) = 6 + 2 * unat (u ! 5) \<and> s3_find_set s (u ! 0) = None
     \<and> 1 + 4 * unat (u ! 5) \<le> 1007 \<and> list_all (\<lambda>pid. s3_find_param s pid \<noteq> None) (s3_ids u (u ! 5))
     \<and> s3_param_pool s = Some pool \<and> s3_set_count s < s3_set_capacity s
     \<and> unat (s3_pool_used s) + unat (u ! 5) \<le> unat (s3_pool_len s)"

lemma s3_define_cases:
  assumes "s3_wf s"
  shows "(\<exists>code. obsw_s3_define (Some tc) (Some s) e = (-1, Some s, snd (obsw_s1_accept_failure (Some tc) code e)))
    \<or> (\<exists>u pool. s3_define_ok s tc u pool \<and> obsw_s3_define (Some tc) (Some s) e
        = (0, Some (s3_add_set s pool (u ! 0) (obsw_be32 (drop 1 u)) (u ! 5) (s3_new_descr s (s3_ids u (u ! 5)))),
           snd (obsw_s1_completion_success (Some tc) (snd (obsw_s1_accept_success (Some tc) e)))))"
proof (cases "\<exists>u pool. s3_define_ok s tc u pool")
  case True
  then obtain u pool where ok: "s3_define_ok s tc u pool" by blast
  have "\<not> uint (s3_pool_len s) - uint (s3_pool_used s) < uint (u ! 5)"
    using ok unfolding s3_define_ok_def uint_nat by linarith
  then have "obsw_s3_define (Some tc) (Some s) e
        = (0, Some (s3_add_set s pool (u ! 0) (obsw_be32 (drop 1 u)) (u ! 5) (s3_new_descr s (s3_ids u (u ! 5)))),
           snd (obsw_s1_completion_success (Some tc) (snd (obsw_s1_accept_success (Some tc) e))))"
    using ok by (auto simp: obsw_s3_define_def s3_define_ok_def s3_add_set_def s3_new_descr_def Let_def)
  with ok show ?thesis by blast
next
  case False
  have d: "uint (s3_pool_len s) - uint (s3_pool_used s) < uint (n :: u8)
      \<longleftrightarrow> \<not> unat (s3_pool_used s) + unat n \<le> unat (s3_pool_len s)" for n
    unfolding uint_nat by linarith
  have "\<exists>code. obsw_s3_define (Some tc) (Some s) e
      = (-1, Some s, snd (obsw_s1_accept_failure (Some tc) code e))"
  proof (cases "tc_user_data tc")
    case None
    then show ?thesis by (auto simp: obsw_s3_define_def)
  next
    case (Some u)
    define n where "n = u ! 5"
    define bad where "bad \<longleftrightarrow> n = 0 \<or> unat (tc_user_data_len tc) \<noteq> 6 + 2 * unat n
      \<or> s3_find_set s (u ! 0) \<noteq> None \<or> 1 + 4 * unat n > 1007"
    define known where "known \<longleftrightarrow> list_all (\<lambda>pid. s3_find_param s pid \<noteq> None) (s3_ids u n)"
    note unf = obsw_s3_define_def option.case prod.case Some Let_def n_def [symmetric] bad_def [symmetric]
      known_def [symmetric]
    consider (illegal) "tc_user_data_len tc < 6 \<or> bad \<or> \<not> known"
      | (pool) "\<not> tc_user_data_len tc < 6" "\<not> bad" "known" by blast
    then show ?thesis
    proof cases
      case illegal
      show ?thesis
        unfolding unf using illegal
        by (cases "tc_user_data_len tc < 6"; cases bad; cases known; intro exI [of _ 5])
          (simp_all only: if_True if_False simp_thms)
    next
      case pool
      show ?thesis
      proof (cases "s3_param_pool s")
        case None
        with pool show ?thesis unfolding unf by (auto simp only: if_False option.case simp_thms)
      next
        case p: (Some p)
        have "6 \<le> tc_user_data_len tc" using pool(1) by (simp add: not_less)
        moreover have "0 < n" "unat (tc_user_data_len tc) = 6 + 2 * unat n" "s3_find_set s (u ! 0) = None"
          "1 + 4 * unat n \<le> 1007"
          using pool(2) by (auto simp: bad_def word_gt_0)
        ultimately have "s3_set_count s \<ge> s3_set_capacity s
            \<or> uint (s3_pool_len s) - uint (s3_pool_used s) < uint n"
          using False Some p pool(3) d [of n] by (auto simp: s3_define_ok_def n_def known_def not_le)
        with pool show ?thesis unfolding unf p by (auto simp only: if_False if_True option.case simp_thms)
      qed
    qed
  qed
  then show ?thesis by blast
qed

lemma s3_define_effect:
  assumes "s3_wf s" "s3_define_ok s tc u pool"
  shows "s3_wf (s3_add_set s pool (u ! 0) i (u ! 5) (s3_new_descr s (s3_ids u (u ! 5))))"
    and "s3_views (s3_add_set s pool (u ! 0) i (u ! 5) (s3_new_descr s (s3_ids u (u ! 5)))) = s3_views s
      @ [\<lparr>v_id = u ! 0, v_descr = s3_new_descr s (s3_ids u (u ! 5)), v_interval = i, v_countdown = i,
          v_enabled = False\<rparr>]"
  using assms s3_add_set_spec [of s "u ! 0" "u ! 5" pool "s3_new_descr s (s3_ids u (u ! 5))" i]
  by (simp_all add: s3_define_ok_def s3_new_descr_def s3_ids_def)

lemma s3_delete_cases:
  assumes "s3_wf s"
  shows "(\<exists>code. obsw_s3_delete (Some tc) (Some s) e = (-1, Some s, snd (obsw_s1_accept_failure (Some tc) code e)))
    \<or> (\<exists>u s'. tc_user_data tc = Some u \<and> s3_delete_ok s (take (unat (u ! 0)) (drop 1 u))
        \<and> obsw_s3_delete (Some tc) (Some s) e = (0, Some s',
           snd (obsw_s1_completion_success (Some tc) (snd (obsw_s1_accept_success (Some tc) e))))
        \<and> s3_wf s' \<and> s3_views s' = filter (\<lambda>v. v_id v \<notin> set (take (unat (u ! 0)) (drop 1 u))) (s3_views s))"
proof (cases "tc_user_data tc")
  case None
  then show ?thesis by (auto simp: obsw_s3_delete_def Let_def)
next
  case (Some u)
  let ?ids = "take (unat (u ! 0)) (drop 1 u)"
  let ?s' = "foldl (\<lambda>s i. case s3_find_set s i of Some k \<Rightarrow> remove_defined s k | None \<Rightarrow> s) s ?ids"
  show ?thesis
  proof (cases "1 \<le> tc_user_data_len tc \<and> u ! 0 > 0 \<and> s3_param_pool s \<noteq> None
      \<and> tc_user_data_len tc = 1 + ucast (u ! 0) \<and> s3_delete_ok s ?ids")
    case True
    then have ok: "s3_delete_ok s ?ids" by blast
    have "s3_wf ?s' \<and> s3_views ?s' = filter (\<lambda>v. v_id v \<notin> set ?ids) (s3_views s)"
      using s3_delete_fold [OF assms s3_delete_ok_spec(1) [OF assms ok]] s3_delete_ok_spec(2) [OF assms ok] by blast
    moreover have "obsw_s3_delete (Some tc) (Some s) e = (0, Some ?s',
           snd (obsw_s1_completion_success (Some tc) (snd (obsw_s1_accept_success (Some tc) e))))"
    proof -
      have "(1 :: u16) \<le> 1 + ucast (u ! 0)" using True by metis
      then show ?thesis using True Some by (simp add: obsw_s3_delete_def Let_def)
    qed
    ultimately show ?thesis using Some ok by blast
  next
    case False
    then show ?thesis using Some by (auto simp: obsw_s3_delete_def Let_def)
  qed
qed

interpretation s3_define: s1_service obsw_s3_define s3_wf
proof unfold_locales
  fix e :: tm_env and tc s assume e: "tm_ok (env_store e)" and wf: "s3_wf s"
  show "handled s3_wf tc e s (obsw_s3_define (Some tc) (Some s) e)"
    using s3_define_cases [OF wf, of tc e] s3_define_effect(1) [OF wf] e wf
    by (auto intro!: handled_refused handled_accept_done)
qed (auto simp: obsw_s3_define_def split: option.split)

interpretation s3_delete: s1_service obsw_s3_delete s3_wf
proof unfold_locales
  fix e :: tm_env and tc s assume e: "tm_ok (env_store e)" and wf: "s3_wf s"
  show "handled s3_wf tc e s (obsw_s3_delete (Some tc) (Some s) e)"
    using s3_delete_cases [OF wf, of tc e] e wf by (auto intro!: handled_refused handled_accept_done)
qed (auto simp: obsw_s3_delete_def split: option.split)

interpretation s3_enable: s1_service obsw_s3_enable s3_wf
proof unfold_locales
  fix e :: tm_env and tc s assume e: "tm_ok (env_store e)" and wf: "s3_wf s"
  have "s3_wf (s\<lparr>s3_sets := (s3_sets s)[i := (s3_sets s ! i)\<lparr>set_interval := t, set_countdown := t,
      set_enabled := True\<rparr>]\<rparr>)" if "s3_find_set s k = Some i" for k i t
    using s3_find_set_Some [OF wf that] by (intro s3_update_spec(1) wf) simp_all
  then show "handled s3_wf tc e s (obsw_s3_enable (Some tc) (Some s) e)"
    using e wf by (auto simp: obsw_s3_enable_def Let_def intro!: handledI split: option.split)
qed (auto simp: obsw_s3_enable_def split: option.split)

interpretation s3_disable: s1_service obsw_s3_disable s3_wf
proof unfold_locales
  fix e :: tm_env and tc s assume e: "tm_ok (env_store e)" and wf: "s3_wf s"
  have "s3_wf (s\<lparr>s3_sets := (s3_sets s)[i := (s3_sets s ! i)\<lparr>set_enabled := False\<rparr>]\<rparr>)"
    if "s3_find_set s k = Some i" for k i
    using s3_find_set_Some [OF wf that] by (intro s3_update_spec(1) wf) simp_all
  then show "handled s3_wf tc e s (obsw_s3_disable (Some tc) (Some s) e)"
    using e wf by (auto simp: obsw_s3_disable_def Let_def intro!: handledI split: option.split)
qed (auto simp: obsw_s3_disable_def split: option.split)

subsection \<open>Properties\<close>

text \<open>
  A tick sends exactly the reports that are due.  It offers to the TM store, in the order
  of the set table and under successive message counters, one TM(3,25) for every enabled set
  whose countdown has run out, carrying the set's ID and the current values of its
  parameters, most significant byte first; these sets start a new period, the other enabled
  sets count down by one, and nothing else changes.
\<close>

theorem s3_tick_reports:
  assumes "s3_wf s" and "tm_ok (env_store e)"
  shows "\<exists>s' e'. obsw_s3_tick (Some s) e = (Some s', e') \<and> s3_wf s' \<and> env_s1 e' = env_s1 e
    \<and> s3_used s' = map s3_next (s3_used s)
    \<and> tm_offered (env_store e) (s3_packets s (s3_msg_counter s) (filter s3_due (s3_used s))) (env_store e')"
  using s3_tick_effect [OF assms] s3_after_wf [OF assms(1)] by metis

text \<open>
  A set reports with its period.  A set that is enabled with a countdown \<open>c\<close> and an
  interval \<open>t\<close> other than zero is due at the ticks \<open>c\<close>, \<open>c + t\<close>, \<open>c + 2 t\<close> and so on (from the
  first tick on if \<open>c\<close> is zero), and at no other, whatever its variables do and whatever
  the other sets and the TM store do; TC(3,5) sets \<open>c = t\<close>.
\<close>

theorem s3_period:
  assumes "s3_wf s" and "tm_ok (env_store e)" and "i < length (s3_used s)"
    and "set_enabled (s3_used s ! i)" and "set_interval (s3_used s ! i) \<noteq> 0"
    and "n = Suc (length vs)" and "c = max 1 (unat (set_countdown (s3_used s ! i)))"
  shows "\<exists>s' e'. s3_ticks vs (Some s, e) = (Some s', e') \<and> s3_wf s' \<and> tm_ok (env_store e')
    \<and> (s3_due (s3_used s' ! i) \<longleftrightarrow> c \<le> n \<and> (n - c) mod unat (set_interval (s3_used s ! i)) = 0)"
proof -
  obtain s' e' where "s3_ticks vs (Some s, e) = (Some s', e')" "s3_wf s'" "tm_ok (env_store e')"
    "s3_used s' = map (s3_next ^^ length vs) (s3_used s)"
    using s3_ticks_used [OF assms(1,2), of vs] by blast
  with s3_due_closed [OF assms(4,5,7), of "length vs"] assms(3,6) show ?thesis by simp
qed

text \<open>
  C38: Defining and deleting sets leaves the other sets alone.  To the ground a set is its
  ID, its parameters, its period and its state.  An accepted TC(3,1) appends one set, as the
  command describes it and disabled; an accepted TC(3,3) takes out exactly the sets it names,
  all of them disabled and defined by TC(3,1); any other outcome changes nothing.  All other
  sets keep their place and their parameters although the shared descriptor pool and the
  set table are compacted, and the context stays in order.
\<close>

theorem s3_define_delete_views:
  assumes "s3_wf s"
  shows "(case obsw_s3_define (Some tc) (Some s) e of (rc, s', _) \<Rightarrow>
      rc = -1 \<and> s' = Some s \<or>
      (\<exists>u t. rc = 0 \<and> s' = Some t \<and> tc_user_data tc = Some u \<and> s3_wf t \<and> s3_views t = s3_views s
        @ [\<lparr>v_id = u ! 0, v_descr = s3_new_descr s (s3_ids u (u ! 5)), v_interval = obsw_be32 (drop 1 u),
            v_countdown = obsw_be32 (drop 1 u), v_enabled = False\<rparr>]))
    \<and> (case obsw_s3_delete (Some tc) (Some s) e of (rc, s', _) \<Rightarrow>
      rc = -1 \<and> s' = Some s \<or>
      (\<exists>u ids t. rc = 0 \<and> s' = Some t \<and> tc_user_data tc = Some u \<and> ids = set (take (unat (u ! 0)) (drop 1 u))
        \<and> s3_wf t \<and> s3_views t = filter (\<lambda>v. v_id v \<notin> ids) (s3_views s)
        \<and> (\<forall>i \<in> ids. s3_defined s i \<and> (\<forall>v \<in> set (s3_views s). v_id v = i \<longrightarrow> \<not> v_enabled v))))"
proof (rule conjI, goal_cases)
  case 1
  have "s3_wf t \<and> s3_views t = s3_views s @ [\<lparr>v_id = u ! 0,
        v_descr = s3_new_descr s (s3_ids u (u ! 5)), v_interval = obsw_be32 (drop 1 u),
        v_countdown = obsw_be32 (drop 1 u), v_enabled = False\<rparr>] \<and> tc_user_data tc = Some u"
    if "s3_define_ok s tc u pool"
      "t = s3_add_set s pool (u ! 0) (obsw_be32 (drop 1 u)) (u ! 5) (s3_new_descr s (s3_ids u (u ! 5)))"
    for u pool t
    using s3_define_effect [OF assms that(1)] that by (simp add: s3_define_ok_def)
  then show ?case using s3_define_cases [OF assms, of tc e] by fastforce
next
  case 2
  show ?case using s3_delete_cases [OF assms, of tc e] s3_delete_ok_spec(2) [OF assms] by fastforce
qed

lemma s3_define_delete_views_witness:
  "\<exists>t. fst (snd (obsw_s3_define (Some \<lparr>tc_apid = 1, tc_service = 3, tc_subservice = 1, tc_seq_count = 0,
      tc_user_data = Some [9, 0, 0, 0, 5, 1, 0, 4], tc_user_data_len = 8\<rparr>)
      (Some \<lparr>s3_apid = 1, s3_msg_counter = 0, s3_timestamp = 0,
        s3_sets = [\<lparr>set_id = 0, set_params = Boot [], set_param_count = 0, set_interval = 0,
                    set_countdown = 0, set_enabled = False\<rparr>],
        s3_set_count = 0, s3_set_capacity = 1,
        s3_param_pool = Some [\<lparr>p_ptr = App_Var 0, p_size = OBSW_S3_PARAM_U8\<rparr>], s3_pool_len = 1,
        s3_pool_used = 0, s3_param_table = [\<lparr>s20_param_id = 4, s20_value = 0, s20_type = OBSW_S20_U32\<rparr>],
        s3_param_table_len = 1, s3_vars = (\<lambda>_. 0)\<rparr>)
      \<lparr>env_s1 = None, env_store = None\<rparr>)) = Some t
    \<and> s3_views t = [\<lparr>v_id = 9, v_descr = [\<lparr>p_ptr = Param_Value 0, p_size = OBSW_S3_PARAM_U32\<rparr>],
        v_interval = 5, v_countdown = 5, v_enabled = False\<rparr>]"
proof -
  define tc where "tc = \<lparr>tc_apid = 1, tc_service = 3, tc_subservice = 1, tc_seq_count = 0,
      tc_user_data = Some [9, 0, 0, 0, 5, 1, 0, 4 :: u8], tc_user_data_len = 8\<rparr>"
  define s where "s = \<lparr>s3_apid = 1, s3_msg_counter = 0, s3_timestamp = 0,
        s3_sets = [\<lparr>set_id = 0, set_params = Boot [], set_param_count = 0, set_interval = 0,
                    set_countdown = 0, set_enabled = False\<rparr>],
        s3_set_count = 0, s3_set_capacity = 1,
        s3_param_pool = Some [\<lparr>p_ptr = App_Var 0, p_size = OBSW_S3_PARAM_U8\<rparr>], s3_pool_len = 1,
        s3_pool_used = 0, s3_param_table = [\<lparr>s20_param_id = 4, s20_value = 0, s20_type = OBSW_S20_U32\<rparr>],
        s3_param_table_len = 1, s3_vars = (\<lambda>_. 0)\<rparr>"
  define e where "e = \<lparr>env_s1 = None, env_store = None\<rparr>"
  have wf: "s3_wf s" by (simp add: s3_wf_def s_def s3_used_def)
  have ids: "s3_ids [9, 0, 0, 0, 5, 1, 0, 4] 1 = [4]" by (simp add: s3_ids_def upt_rec obsw_be16_def)
  have find: "s3_find_param s 4 = Some 0" by (simp add: s3_find_param_def s_def)
  have rc: "fst (obsw_s3_define (Some tc) (Some s) e) = 0"
  proof -
    have "s3_find_set s 9 = None" "s3_set_count s = 0" "s3_set_capacity s = 1" "s3_pool_len s = 1"
      "s3_pool_used s = 0" "s3_param_pool s = Some [\<lparr>p_ptr = App_Var 0, p_size = OBSW_S3_PARAM_U8\<rparr>]"
      by (simp_all add: s_def s3_find_set_def)
    then show ?thesis using find by (simp add: obsw_s3_define_def tc_def ids Let_def)
  qed
  have views: "s3_views s = []" by (simp add: s3_views_def s3_used_def s_def)
  obtain t where "fst (snd (obsw_s3_define (Some tc) (Some s) e)) = Some t"
    "s3_views t = [\<lparr>v_id = 9, v_descr = s3_new_descr s [4],
        v_interval = obsw_be32 [0, 0, 0, 5, 1, 0, 4], v_countdown = obsw_be32 [0, 0, 0, 5, 1, 0, 4], v_enabled = False\<rparr>]"
    using conjunct1 [OF s3_define_delete_views [OF wf, of tc e]] rc views ids by (auto simp: tc_def)
  then show ?thesis
    unfolding tc_def e_def s_def [symmetric] by (simp add: s3_new_descr_def find obsw_be32_def)
qed

text \<open>A context with one boot-time set of a 16-bit and an 8-bit variable, for the witnesses.\<close>

definition s3_example :: "u32 \<Rightarrow> obsw_s3_ctx" where
  "s3_example c =
    \<lparr>s3_apid = 100, s3_msg_counter = 0, s3_timestamp = 0,
     s3_sets = [\<lparr>set_id = 1,
        set_params = Boot [\<lparr>p_ptr = App_Var 0, p_size = OBSW_S3_PARAM_U16\<rparr>, \<lparr>p_ptr = App_Var 1, p_size = OBSW_S3_PARAM_U8\<rparr>],
        set_param_count = 2, set_interval = 3, set_countdown = c, set_enabled = True\<rparr>],
     s3_set_count = 1, s3_set_capacity = 0, s3_param_pool = None, s3_pool_len = 0, s3_pool_used = 0,
     s3_param_table = [], s3_param_table_len = 0, s3_vars = (\<lambda>a. if a = 0 then 0x0102 else 7)\<rparr>"

lemma s3_example_wf: "s3_wf (s3_example c)"
  by (simp add: s3_wf_def s3_example_def s3_used_def s3_set_wf_def s3_descr_def s3_set_param_def
      s3_report_size_def upt_rec)

lemma s3_tick_reports_witness:
  "\<exists>s' e'. obsw_s3_tick (Some (s3_example 1)) \<lparr>env_s1 = None, env_store = Some tm_store_bss\<rparr> = (Some s', e')
    \<and> tm_queue (env_store e') = [pus_tm_packet 100 0 3 25 0 0 0 [1, 1, 2, 7]]"
proof -
  define e where "e = \<lparr>env_s1 = None, env_store = Some tm_store_bss\<rparr>"
  have ok: "tm_ok (env_store e)" and q: "tm_queue (env_store e) = []"
    by (simp_all add: e_def tm_ok_def tm_queue_def tm_store_bss_wf)
  have due: "filter s3_due (s3_used (s3_example 1)) = s3_used (s3_example 1)"
    by (simp add: s3_used_def s3_example_def s3_due_def)
  have pk: "s3_packets (s3_example 1) (s3_msg_counter (s3_example 1)) (s3_used (s3_example 1))
      = [pus_tm_packet 100 0 3 25 0 0 0 [1, 1, 2, 7]]"
    by (simp add: s3_used_def s3_example_def s3_packet_def s3_data_def s3_descr_def s3_set_param_def
        s3_load_def upt_rec put_be_bytes be_bytes16_def)
  have "env_store e \<noteq> None" by (simp add: e_def)
  with s3_tick_reports [OF s3_example_wf [of 1] ok] q show ?thesis
    unfolding due pk e_def [symmetric] by (fastforce simp: tm_offered_def)
qed

lemma s3_period_witness:
  "\<exists>s' e'. s3_ticks (replicate 4 (\<lambda>_. 0, [])) (Some (s3_example 2), \<lparr>env_s1 = None, env_store = None\<rparr>)
      = (Some s', e') \<and> s3_due (s3_used s' ! 0)"
proof -
  have ok: "tm_ok (env_store \<lparr>env_s1 = None, env_store = None\<rparr>)" by (simp add: tm_ok_def)
  have x: "0 < length (s3_used (s3_example 2))" "set_enabled (s3_used (s3_example 2) ! 0)"
    "set_interval (s3_used (s3_example 2) ! 0) \<noteq> 0" "set_interval (s3_used (s3_example 2) ! 0) = 3"
    "set_countdown (s3_used (s3_example 2) ! 0) = 2"
    by (simp_all add: s3_used_def s3_example_def)
  from s3_period [OF s3_example_wf ok x(1-3) refl refl, of "replicate 4 (\<lambda>_. 0, [])"] x(4,5)
  show ?thesis by auto
qed

end
