(* ===== verification/Stored_Tc.thy ===== *)
theory Stored_Tc
  imports Dispatcher
begin

section \<open>Commands stored for later\<close>

text \<open>
  S11 and S19 keep complete TC packets in fixed arrays of 64 bytes and feed them to the
  dispatcher when their time or their event comes.  Both check a packet in the same way
  before storing it; the lemmas carry the check from the command it arrived in to the
  bytes that are fed.
\<close>

abbreviation (input) OBSW_S11_TC_MAX_LEN :: u16 where "OBSW_S11_TC_MAX_LEN \<equiv> 64"
abbreviation (input) OBSW_S19_ACTION_MAX_LEN :: u16 where "OBSW_S19_ACTION_MAX_LEN \<equiv> 64"

text \<open>
  The condition of \<open>obsw_s11_insert\<close> and of \<open>action_valid\<close> in \<^verbatim>\<open>s19.c\<close>: short enough, a PUS TC
  packet, and not of the storing service itself.
\<close>

definition stored_tc :: "u8 \<Rightarrow> u8 list \<Rightarrow> u16 \<Rightarrow> bool" where
  "stored_tc own b n \<longleftrightarrow> n \<le> 64 \<and>
    (case obsw_tc_packet_check (Some b) (ucast n :: u64) (Some 0) of
       (rc, svc) \<Rightarrow> rc = OBSW_TC_OK \<and> svc \<noteq> Some own)"

lemma unat_ucast_u64 [simp]: "unat (ucast (n :: u16) :: u64) = unat n"
  by (rule unat_ucast_u16) simp

lemma stored_tc_parse:
  assumes "stored_tc own b n" "unat n \<le> length b"
  obtains q where "obsw_sp_parse (Some b) (ucast n :: u64) (Some sp_packet_uninit) = (OBSW_SP_OK, Some q)"
    "sp_type (sp_hdr q) = OBSW_SP_TYPE_TC" "sp_sec_hdr_flag (sp_hdr q) \<noteq> 0"
    "5 \<le> sp_payload_len q" "sp_payload_bytes q = drop 6 b" "b ! 7 \<noteq> own" "11 \<le> unat n"
proof -
  obtain rc q where p: "obsw_sp_parse (Some b) (ucast n :: u64) (Some sp_packet_uninit) = (rc, Some q)"
    using sp_parse_Some [of b "ucast n :: u64" sp_packet_uninit] by (metis prod.collapse)
  with assms(1) have f: "rc = OBSW_SP_OK" "sp_type (sp_hdr q) = OBSW_SP_TYPE_TC"
    "sp_sec_hdr_flag (sp_hdr q) \<noteq> 0" "5 \<le> sp_payload_len q" "sp_payload_bytes q ! 1 \<noteq> own"
    by (auto simp: stored_tc_def obsw_tc_packet_check_def not_less split: if_splits)
  have p': "obsw_sp_parse (Some b) (ucast n :: u64) (Some sp_packet_uninit) = (OBSW_SP_OK, Some q)"
    using p f(1) by simp
  have "unat (ucast n :: u64) \<le> length b" using assms(2) by simp
  note bd = sp_parse_bounds [OF _ this p']
  then have d: "sp_payload_bytes q = drop 6 b" by (simp add: sp_payload_bytes_def)
  have "5 \<le> unat (sp_payload_len q)" using f(4) by (simp add: word_le_nat_alt)
  with bd(1) have "11 \<le> unat n" by simp
  moreover from this assms(2) have "drop 6 b ! 1 = b ! 7" by simp
  ultimately show thesis using that p' f d by simp
qed

text \<open>The check reads no further than the packet it is given.\<close>

lemma stored_tc_take:
  assumes "stored_tc own b n" "unat n \<le> length b"
  shows "stored_tc own (take (unat n) b) n"
proof -
  obtain q where q: "obsw_sp_parse (Some b) (ucast n :: u64) (Some sp_packet_uninit) = (OBSW_SP_OK, Some q)"
    "sp_type (sp_hdr q) = OBSW_SP_TYPE_TC" "sp_sec_hdr_flag (sp_hdr q) \<noteq> 0"
    "5 \<le> sp_payload_len q" "sp_payload_bytes q = drop 6 b" "b ! 7 \<noteq> own" "11 \<le> unat n"
    by (rule stored_tc_parse [OF assms])
  let ?c = "take (unat n) b"
  have h: "sp_header_fields ?c = sp_header_fields b"
    using q(7) by (intro sp_header_fields_take) simp
  have "obsw_sp_parse (Some ?c) (ucast n :: u64) (Some sp_packet_uninit)
      = (OBSW_SP_OK, Some (q\<lparr>sp_payload := Some (drop 6 ?c)\<rparr>))"
    using q(1) by (auto simp: obsw_sp_parse_def obsw_sp_decode_primary_def h Let_def split: if_splits)
  moreover have "drop 6 ?c ! 1 = b ! 7" using q(7) assms(2) by simp
  ultimately show ?thesis
    using q assms(1) by (simp add: stored_tc_def obsw_tc_packet_check_def sp_payload_bytes_def not_less)
qed

lemma stored_tc_untake:
  assumes "stored_tc own (take (unat n) b) n" "unat n \<le> length b"
  shows "stored_tc own b n"
proof -
  let ?c = "take (unat n) b"
  obtain q where q: "obsw_sp_parse (Some ?c) (ucast n :: u64) (Some sp_packet_uninit) = (OBSW_SP_OK, Some q)"
    "sp_type (sp_hdr q) = OBSW_SP_TYPE_TC" "sp_sec_hdr_flag (sp_hdr q) \<noteq> 0"
    "5 \<le> sp_payload_len q" "sp_payload_bytes q = drop 6 ?c" "?c ! 7 \<noteq> own" "11 \<le> unat n"
    using stored_tc_parse [OF assms(1)] assms(2) by auto
  have h: "sp_header_fields b = sp_header_fields ?c"
    using q(7) by (simp add: sp_header_fields_take)
  have "obsw_sp_parse (Some b) (ucast n :: u64) (Some sp_packet_uninit)
      = (OBSW_SP_OK, Some (q\<lparr>sp_payload := Some (drop 6 b)\<rparr>))"
    using q(1) by (auto simp: obsw_sp_parse_def obsw_sp_decode_primary_def h Let_def split: if_splits)
  moreover have "drop 6 b ! 1 = ?c ! 7" using q(7) assms(2) by simp
  ultimately show ?thesis
    using q assms(1) by (simp add: stored_tc_def obsw_tc_packet_check_def sp_payload_bytes_def not_less)
qed

lemma stored_tc_feed:
  assumes "stored_tc own b n" "unat n \<le> length b"
  shows "\<exists>tc. feed_tc b (ucast n :: u64) = Some tc \<and> tc_wf tc \<and> tc_service tc \<noteq> own"
proof -
  obtain q where q: "obsw_sp_parse (Some b) (ucast n :: u64) (Some sp_packet_uninit) = (OBSW_SP_OK, Some q)"
    "sp_type (sp_hdr q) = OBSW_SP_TYPE_TC" "sp_sec_hdr_flag (sp_hdr q) \<noteq> 0"
    "5 \<le> sp_payload_len q" "sp_payload_bytes q = drop 6 b" "b ! 7 \<noteq> own" "11 \<le> unat n"
    by (rule stored_tc_parse [OF assms])
  have "feed_tc b (ucast n :: u64) = Some (tc_of_packet q)"
    using q by (simp add: feed_tc_def not_less)
  moreover have "tc_service (tc_of_packet q) \<noteq> own"
    using q(5-7) assms(2) by (simp add: tc_of_packet_def)
  moreover have "tc_wf (tc_of_packet q)"
    using feed_tc_bounds(1) [OF _ _ calculation(1)] assms(2) by simp
  ultimately show ?thesis by blast
qed

text \<open>Storing the packet and reading it back.\<close>

lemma stored_tc_memcpy:
  assumes "stored_tc own b n" "unat n \<le> length b"
  shows "take (unat n) (memcpy_at a 0 b (unat n)) = take (unat n) b"
    and "stored_tc own (take (unat n) (memcpy_at a 0 b (unat n))) n"
  using stored_tc_take [OF assms] assms(2) by (simp_all add: take_memcpy_at_0)

lemma stored_tc_len: "stored_tc own b n \<Longrightarrow> unat n \<le> 64"
  by (simp add: stored_tc_def word_le_nat_alt)

text \<open>
  What a run of stored commands may rely on: feeding one leaves the part of the world that
  \<open>g\<close> reads alone, since no stored command is of the storing service.
\<close>

definition feed_spares :: "u8 \<Rightarrow> 'w obsw_tc_dispatcher \<Rightarrow> ('w \<Rightarrow> 'c) \<Rightarrow> bool" where
  "feed_spares own d g \<longleftrightarrow>
    (\<forall>tc w. tc_wf tc \<longrightarrow> tc_service tc \<noteq> own \<longrightarrow> g (snd (tc_dispatch d tc w)) = g w)"

lemma feed_spares_stored:
  assumes "feed_spares own d g" "stored_tc own b n" "unat n \<le> length b"
  shows "g (snd (obsw_tc_dispatcher_feed (Some d) (Some b) (ucast n :: u64) w)) = g w"
  using stored_tc_feed [OF assms(2,3)] assms(1) by (auto simp: feed_eq feed_spares_def)

end
