(* ===== verification/Pus_S11.thy ===== *)
theory Pus_S11
  imports Pus_S1 Obt Stored_Tc "HOL-Library.Product_Lexorder"
begin

section \<open>Service 11, time-based scheduling\<close>

text \<open>
  \<^verbatim>\<open>src/pus/s11.c\<close>: the unordered table of time-tagged commands, the handlers that fill it,
  and the run that releases what is due.  The table is the caller's array; its first
  \<open>count\<close> entries are in use.

  The run holds pointers to the context and to the dispatcher, whose handlers may reach
  the same context: the context is a part of the world \<open>'w\<close>, given by a getter and a
  setter.  The lemmas show that a run releases exactly the due activities, in the order of
  their tags, and that a command handler's effect on the table is the one announced.
\<close>

record obsw_s11_activity =
  act_request_id :: u16
  act_coarse :: u32
  act_fine :: u16
  act_tc_len :: u16
  act_tc :: "u8 list"

record obsw_s11_ctx =
  s11_acts :: "obsw_s11_activity list"
  s11_capacity :: u8
  s11_count :: u8
  s11_next_id :: u16
  s11_enabled :: bool

definition tag_key :: "u32 \<Rightarrow> u16 \<Rightarrow> u64" where
  "tag_key coarse fine = push_bit 16 (ucast coarse) OR ucast fine"

definition s11_find_act :: "obsw_s11_ctx \<Rightarrow> u16 \<Rightarrow> nat option" where
  "s11_find_act s request_id =
    find_index (\<lambda>a. act_request_id a = request_id) (take (unat (s11_count s)) (s11_acts s))"

text \<open>
  The loop of \<open>take_id\<close>.  It ends because the table has at most 255 entries: the distance
  to the next identifier that is neither zero nor in use goes down with every round.
\<close>

definition s11_id_taken :: "obsw_s11_ctx \<Rightarrow> u16 \<Rightarrow> bool" where
  "s11_id_taken s i \<longleftrightarrow> i = 0 \<or> s11_find_act s i \<noteq> None"

lemma s11_free_id_exists: "\<exists>k. \<not> s11_id_taken s (i + of_nat k)"
proof (rule ccontr)
  let ?u = "take (unat (s11_count s)) (s11_acts s)"
  assume "\<nexists>k. \<not> s11_id_taken s (i + of_nat k)"
  then have all: "s11_id_taken s (i + of_nat k)" for k by blast
  have "s11_id_taken s x" for x
    using all [of "unat (x - i)"] by simp
  then have "UNIV \<subseteq> insert 0 (act_request_id ` set ?u)"
    by (force simp: s11_id_taken_def s11_find_act_def find_index_None_iff)
  then have "card (UNIV :: u16 set) \<le> card (insert 0 (act_request_id ` set ?u))"
    by (intro card_mono) simp_all
  also have "\<dots> \<le> Suc (card (act_request_id ` set ?u))" by (rule card_insert_le_m1) simp_all
  also have "\<dots> \<le> Suc (length ?u)"
    using card_image_le [of "set ?u" act_request_id] card_length [of ?u] by simp
  also have "\<dots> \<le> 256" using u8_less_256 [of "s11_count s"] by simp
  finally show False by (simp add: card_word)
qed

definition s11_id_distance :: "obsw_s11_ctx \<Rightarrow> u16 \<Rightarrow> nat" where
  "s11_id_distance s i = (LEAST k. \<not> s11_id_taken s (i + of_nat k))"

lemma s11_id_distance_less:
  assumes "s11_id_taken s i"
  shows "s11_id_distance s (i + 1) < s11_id_distance s i"
proof -
  let ?k = "s11_id_distance s i"
  have k: "\<not> s11_id_taken s (i + of_nat ?k)"
    unfolding s11_id_distance_def by (rule LeastI_ex) (rule s11_free_id_exists)
  with assms obtain j where j: "?k = Suc j" by (cases ?k) auto
  with k have "\<not> s11_id_taken s ((i + 1) + of_nat j)" by (simp add: ac_simps)
  then have "s11_id_distance s (i + 1) \<le> j" unfolding s11_id_distance_def by (rule Least_le)
  with j show ?thesis by simp
qed

function s11_free_id :: "obsw_s11_ctx \<Rightarrow> u16 \<Rightarrow> u16" where
  "s11_free_id s i = (if i = 0 \<or> s11_find_act s i \<noteq> None then s11_free_id s (i + 1) else i)"
  by pat_completeness auto
termination s11_free_id
  by (relation "measure (\<lambda>(s, i). s11_id_distance s i)")
    (auto intro: s11_id_distance_less simp: s11_id_taken_def)

declare s11_free_id.simps [simp del]

definition s11_take_id :: "obsw_s11_ctx \<Rightarrow> u16 \<times> obsw_s11_ctx" where
  "s11_take_id s = (let i = s11_free_id s (s11_next_id s) in (i, s\<lparr>s11_next_id := i + 1\<rparr>))"

definition s11_remove_at :: "obsw_s11_ctx \<Rightarrow> nat \<Rightarrow> obsw_s11_ctx" where
  "s11_remove_at s i =
    (let c = s11_count s - 1
     in s\<lparr>s11_count := c, s11_acts := swap_remove (s11_acts s) i (unat c)\<rparr>)"

definition obsw_s11_init ::
  "obsw_s11_ctx option \<Rightarrow> obsw_s11_activity list option \<Rightarrow> u8 \<Rightarrow> obsw_s11_ctx option" where
  "obsw_s11_init ctx acts capacity =
    (case ctx of None \<Rightarrow> None
     | Some _ \<Rightarrow> Some
         \<lparr>s11_acts = (case acts of Some a \<Rightarrow> a | None \<Rightarrow> []),
          s11_capacity = (if acts \<noteq> None then capacity else 0),
          s11_count = 0, s11_next_id = 1, s11_enabled = True\<rparr>)"

subsection \<open>Handlers\<close>

definition obsw_s11_insert ::
  "obsw_tc option \<Rightarrow> obsw_s11_ctx option \<Rightarrow> tm_env \<Rightarrow> int \<times> obsw_s11_ctx option \<times> tm_env" where
  "obsw_s11_insert tc ctx e =
    (case (ctx, tc) of
       (Some s, Some t) \<Rightarrow>
         let u = (case tc_user_data t of Some u \<Rightarrow> u | None \<Rightarrow> []);
             ok = (tc_user_data t \<noteq> None \<and> tc_user_data_len t > 6);
             len = (if ok then tc_user_data_len t - 6 else 0);
             ok = (ok \<and> stored_tc 11 (drop 6 u) len)
         in if \<not> ok
            then (-1, ctx, snd (obsw_s1_accept_failure tc OBSW_S1_FAIL_ILLEGAL_APP_DATA e))
            else if s11_count s \<ge> s11_capacity s
            then (-1, ctx, snd (obsw_s1_accept_failure tc OBSW_S1_FAIL_EXEC_ERROR e))
            else
              let e1 = snd (obsw_s1_accept_success tc e);
                  k = unat (s11_count s);
                  (rid, s1) = s11_take_id s;
                  a = \<lparr>act_request_id = rid, act_coarse = obsw_be32 u, act_fine = obsw_be16 (drop 4 u),
                       act_tc_len = len,
                       act_tc = memcpy_at (act_tc (s11_acts s ! k)) 0 (drop 6 u) (unat len)\<rparr>
              in (0, Some (s1\<lparr>s11_acts := (s11_acts s1)[k := a], s11_count := s11_count s1 + 1\<rparr>),
                  snd (obsw_s1_completion_success tc e1))
     | _ \<Rightarrow> (-1, ctx, e))"

definition obsw_s11_delete ::
  "obsw_tc option \<Rightarrow> obsw_s11_ctx option \<Rightarrow> tm_env \<Rightarrow> int \<times> obsw_s11_ctx option \<times> tm_env" where
  "obsw_s11_delete tc ctx e =
    (case (ctx, tc) of
       (Some s, Some t) \<Rightarrow>
         (case (case tc_user_data t of
                  Some u \<Rightarrow> if tc_user_data_len t \<ge> 2 then s11_find_act s (obsw_be16 u) else None
                | None \<Rightarrow> None) of
            None \<Rightarrow> (-1, ctx, snd (obsw_s1_accept_failure tc OBSW_S1_FAIL_ILLEGAL_APP_DATA e))
          | Some i \<Rightarrow>
              let e1 = snd (obsw_s1_accept_success tc e)
              in (0, Some (s11_remove_at s i), snd (obsw_s1_completion_success tc e1)))
     | _ \<Rightarrow> (-1, ctx, e))"

definition obsw_s11_delete_all ::
  "obsw_tc option \<Rightarrow> obsw_s11_ctx option \<Rightarrow> tm_env \<Rightarrow> int \<times> obsw_s11_ctx option \<times> tm_env" where
  "obsw_s11_delete_all tc ctx e =
    (case (ctx, tc) of
       (Some s, Some t) \<Rightarrow>
         let e1 = snd (obsw_s1_accept_success tc e)
         in (0, Some (s\<lparr>s11_count := 0\<rparr>), snd (obsw_s1_completion_success tc e1))
     | _ \<Rightarrow> (-1, ctx, e))"

definition obsw_s11_enable ::
  "obsw_tc option \<Rightarrow> obsw_s11_ctx option \<Rightarrow> tm_env \<Rightarrow> int \<times> obsw_s11_ctx option \<times> tm_env" where
  "obsw_s11_enable tc ctx e =
    (case (ctx, tc) of
       (Some s, Some t) \<Rightarrow>
         let e1 = snd (obsw_s1_accept_success tc e)
         in (0, Some (s\<lparr>s11_enabled := True\<rparr>), snd (obsw_s1_completion_success tc e1))
     | _ \<Rightarrow> (-1, ctx, e))"

definition obsw_s11_disable ::
  "obsw_tc option \<Rightarrow> obsw_s11_ctx option \<Rightarrow> tm_env \<Rightarrow> int \<times> obsw_s11_ctx option \<times> tm_env" where
  "obsw_s11_disable tc ctx e =
    (case (ctx, tc) of
       (Some s, Some t) \<Rightarrow>
         let e1 = snd (obsw_s1_accept_success tc e)
         in (0, Some (s\<lparr>s11_enabled := False\<rparr>), snd (obsw_s1_completion_success tc e1))
     | _ \<Rightarrow> (-1, ctx, e))"

subsection \<open>Release\<close>

text \<open>
  The inner loop over the used entries from index \<open>i\<close> on: the index of the best entry so
  far, as \<open>next\<close> in the code.
\<close>

fun s11_pick :: "obsw_s11_activity list \<Rightarrow> u64 \<Rightarrow> obsw_s11_activity list \<Rightarrow> nat \<Rightarrow> nat option \<Rightarrow> nat option" where
  "s11_pick acts t_now [] i best = best"
| "s11_pick acts t_now (a # as) i best =
    (let t = tag_key (act_coarse a) (act_fine a) in
     if t > t_now then s11_pick acts t_now as (i + 1) best
     else
       s11_pick acts t_now as (i + 1)
         (case best of None \<Rightarrow> Some i
          | Some b \<Rightarrow>
              let n = acts ! b; tn = tag_key (act_coarse n) (act_fine n) in
              if t < tn \<or> (t = tn \<and> act_request_id a < act_request_id n) then Some i else best))"

definition s11_next :: "obsw_s11_ctx \<Rightarrow> u64 \<Rightarrow> nat option" where
  "s11_next s t_now = s11_pick (s11_acts s) t_now (take (unat (s11_count s)) (s11_acts s)) 0 None"

type_synonym ('c, 'w) part = "('w \<Rightarrow> 'c) \<times> ('c \<Rightarrow> 'w \<Rightarrow> 'w)"

fun s11_release ::
  "nat \<Rightarrow> (obsw_s11_ctx, 'w) part \<Rightarrow> u64 \<Rightarrow> 'w obsw_tc_dispatcher \<Rightarrow> u8 \<Rightarrow> 'w \<Rightarrow> u8 \<times> 'w" where
  "s11_release 0 p t_now d released w = (released, w)"
| "s11_release (Suc n) p t_now d released w =
    (case s11_next (fst p w) t_now of
       None \<Rightarrow> (released, w)
     | Some i \<Rightarrow>
         let s = fst p w; a = s11_acts s ! i; len = act_tc_len a;
             pkt = take (unat len) (act_tc a);
             w1 = snd p (s11_remove_at s i) w;
             w2 = snd (obsw_tc_dispatcher_feed (Some d) (Some pkt) (ucast len :: u64) w1)
         in s11_release n p t_now d (released + 1) w2)"

text \<open>The bound of the loop is \<open>limit - released\<close> rounds: \<open>limit\<close> is the count at entry.\<close>

definition obsw_s11_run ::
  "(obsw_s11_ctx, 'w) part option \<Rightarrow> obsw_obt option \<Rightarrow> 'w obsw_tc_dispatcher option \<Rightarrow> 'w \<Rightarrow> u8 \<times> 'w" where
  "obsw_s11_run ctx now dispatcher w =
    (case (ctx, now, dispatcher) of
       (Some p, Some t, Some d) \<Rightarrow>
         if \<not> s11_enabled (fst p w) then (0, w)
         else s11_release (unat (s11_count (fst p w))) p (tag_key (obt_coarse t) (obt_fine t)) d 0 w
     | _ \<Rightarrow> (0, w))"

subsection \<open>The table\<close>

definition s11_used :: "obsw_s11_ctx \<Rightarrow> obsw_s11_activity list" where
  "s11_used s = take (unat (s11_count s)) (s11_acts s)"

text \<open>The bytes a run feeds for an activity.\<close>

definition act_packet :: "obsw_s11_activity \<Rightarrow> u8 list" where
  "act_packet a = take (unat (act_tc_len a)) (act_tc a)"

definition act_wf :: "obsw_s11_activity \<Rightarrow> bool" where
  "act_wf a \<longleftrightarrow> act_request_id a \<noteq> 0 \<and> stored_tc 11 (act_packet a) (act_tc_len a)"

definition s11_wf :: "obsw_s11_ctx \<Rightarrow> bool" where
  "s11_wf s \<longleftrightarrow> s11_count s \<le> s11_capacity s \<and> unat (s11_capacity s) \<le> length (s11_acts s)
    \<and> (\<forall>a \<in> set (s11_acts s). length (act_tc a) = 64)
    \<and> distinct (map act_request_id (s11_used s)) \<and> (\<forall>a \<in> set (s11_used s). act_wf a)"

lemma s11_wf_count: "s11_wf s \<Longrightarrow> unat (s11_count s) \<le> length (s11_acts s)"
  by (auto simp: s11_wf_def word_le_nat_alt)

lemma length_s11_used: "s11_wf s \<Longrightarrow> length (s11_used s) = unat (s11_count s)"
  using s11_wf_count [of s] by (simp add: s11_used_def)

lemma s11_used_nth: "i < length (s11_used s) \<Longrightarrow> s11_used s ! i = s11_acts s ! i"
  by (simp add: s11_used_def)

lemma s11_remove_at_frame [frame_simps]:
  "s11_capacity (s11_remove_at s i) = s11_capacity s" "s11_next_id (s11_remove_at s i) = s11_next_id s"
  "s11_enabled (s11_remove_at s i) = s11_enabled s"
  "length (s11_acts (s11_remove_at s i)) = length (s11_acts s)"
  by (simp_all add: s11_remove_at_def Let_def)

lemma s11_remove_count:
  assumes "i < length (s11_used s)"
  shows "unat (s11_count s) = Suc (unat (s11_count (s11_remove_at s i)))"
proof -
  have "0 < unat (s11_count s)" using assms by (auto simp: s11_used_def)
  then have "s11_count s \<noteq> 0" by (auto simp: unat_gt_0)
  then show ?thesis using \<open>0 < unat (s11_count s)\<close>
    by (simp add: s11_remove_at_def unat_pred_word)
qed

lemma s11_remove_used:
  assumes "s11_wf s" "i < length (s11_used s)"
  shows "mset (s11_used (s11_remove_at s i)) = mset (s11_used s) - {# s11_used s ! i #}"
proof -
  let ?n = "unat (s11_count (s11_remove_at s i))"
  have n: "unat (s11_count s) = Suc ?n" using assms(2) by (rule s11_remove_count)
  have a: "s11_acts (s11_remove_at s i) = swap_remove (s11_acts s) i ?n"
    by (simp add: s11_remove_at_def Let_def)
  have "mset (take ?n (swap_remove (s11_acts s) i ?n))
      = mset (take (Suc ?n) (s11_acts s)) - {# s11_acts s ! i #}"
    using assms s11_wf_count [OF assms(1)] length_s11_used [OF assms(1)] n
    by (intro mset_swap_remove) simp_all
  then show ?thesis
    by (simp add: s11_used_def a n [symmetric] s11_used_nth [OF assms(2), unfolded s11_used_def])
qed

interpretation s11_table: keyed_table s11_used act_request_id s11_wf s11_find_act s11_remove_at
  by unfold_locales (simp_all add: s11_find_act_def s11_used_def s11_remove_used [unfolded s11_used_def])

lemma s11_remove_wf [inv_intros]:
  assumes "s11_wf s" "i < length (s11_used s)"
  shows "s11_wf (s11_remove_at s i)"
proof -
  have d: "distinct (map act_request_id (s11_used s))" using assms(1) by (simp add: s11_wf_def)
  have u: "set (s11_used (s11_remove_at s i)) \<subseteq> set (s11_used s)"
    using s11_table.remove_keys(3) [OF assms(1) d assms(2)] by blast
  have n: "unat (s11_count s) = Suc (unat (s11_count (s11_remove_at s i)))"
    using assms(2) by (rule s11_remove_count)
  have "set (s11_acts (s11_remove_at s i)) \<subseteq> set (s11_acts s)"
    using s11_wf_count [OF assms(1)] n
    by (auto simp: s11_remove_at_def swap_remove_def Let_def dest!: set_update_subset_insert [THEN subsetD])
  with u s11_table.remove_keys(1) [OF assms(1) d assms(2)] n assms(1)
  show ?thesis by (auto simp: s11_wf_def frame_simps word_le_nat_alt)
qed

text \<open>The identifier a new activity gets is not zero and not in use.\<close>

lemma s11_free_id_free: "s11_free_id s i \<noteq> 0 \<and> s11_find_act s (s11_free_id s i) = None"
proof (induction s i rule: s11_free_id.induct)
  case (1 s i)
  then show ?case by (subst (1 2) s11_free_id.simps) auto
qed

text \<open>Counting upwards, it is the first such identifier.\<close>

lemma s11_free_id_first:
  "\<exists>k. s11_free_id s i = i + of_nat k \<and> (\<forall>j < k. s11_id_taken s (i + of_nat j))"
proof (induction s i rule: s11_free_id.induct)
  case (1 s i)
  show ?case
  proof (cases "s11_id_taken s i")
    case False
    then have "s11_free_id s i = i + of_nat 0"
      by (subst s11_free_id.simps) (simp add: s11_id_taken_def)
    then show ?thesis by blast
  next
    case True
    then obtain k where k: "s11_free_id s (i + 1) = (i + 1) + of_nat k"
      "\<forall>j < k. s11_id_taken s ((i + 1) + of_nat j)"
      using 1 by (auto simp: s11_id_taken_def)
    have "s11_free_id s i = i + of_nat (Suc k)"
      using True k(1) by (subst s11_free_id.simps) (simp add: s11_id_taken_def ac_simps)
    moreover have "s11_id_taken s (i + of_nat j)" if "j < Suc k" for j
      using True k(2) that by (cases j) (auto simp: ac_simps)
    ultimately show ?thesis by blast
  qed
qed

subsection \<open>Command handlers\<close>

text \<open>The conditions under which TC(11,4) stores its command.\<close>

definition s11_insert_ok :: "obsw_tc \<Rightarrow> u8 list \<Rightarrow> bool" where
  "s11_insert_ok tc u \<longleftrightarrow> tc_user_data tc = Some u \<and> 6 < tc_user_data_len tc
     \<and> stored_tc 11 (drop 6 u) (tc_user_data_len tc - 6)"

definition s11_insert_act :: "obsw_s11_ctx \<Rightarrow> obsw_tc \<Rightarrow> u8 list \<Rightarrow> obsw_s11_activity" where
  "s11_insert_act s tc u =
    \<lparr>act_request_id = s11_free_id s (s11_next_id s), act_coarse = obsw_be32 u,
     act_fine = obsw_be16 (drop 4 u), act_tc_len = tc_user_data_len tc - 6,
     act_tc = memcpy_at (act_tc (s11_acts s ! unat (s11_count s))) 0 (drop 6 u)
       (unat (tc_user_data_len tc - 6))\<rparr>"

definition s11_add :: "obsw_s11_ctx \<Rightarrow> obsw_s11_activity \<Rightarrow> obsw_s11_ctx" where
  "s11_add s a = s\<lparr>s11_acts := (s11_acts s)[unat (s11_count s) := a], s11_count := s11_count s + 1,
     s11_next_id := act_request_id a + 1\<rparr>"

lemma s11_insert_cases:
  "obsw_s11_insert (Some tc) (Some s) e =
    (if \<not> (\<exists>u. s11_insert_ok tc u)
     then (-1, Some s, snd (obsw_s1_accept_failure (Some tc) OBSW_S1_FAIL_ILLEGAL_APP_DATA e))
     else if s11_count s \<ge> s11_capacity s
     then (-1, Some s, snd (obsw_s1_accept_failure (Some tc) OBSW_S1_FAIL_EXEC_ERROR e))
     else (0, Some (s11_add s (s11_insert_act s tc (the (tc_user_data tc)))),
           snd (obsw_s1_completion_success (Some tc) (snd (obsw_s1_accept_success (Some tc) e)))))"
  by (cases "tc_user_data tc")
    (auto simp: obsw_s11_insert_def s11_insert_ok_def s11_insert_act_def s11_add_def s11_take_id_def
      Let_def not_less)

lemma s11_add_used:
  assumes "s11_wf s" "s11_count s < s11_capacity s"
  shows "s11_used (s11_add s a) = s11_used s @ [a]" "unat (s11_count s + 1) = unat (s11_count s) + 1"
    "unat (s11_count s) < length (s11_acts s)"
proof -
  show l: "unat (s11_count s) < length (s11_acts s)"
    using assms by (simp add: s11_wf_def word_less_nat_alt)
  show n: "unat (s11_count s + 1) = unat (s11_count s) + 1"
    using assms(2) u8_less_256 [of "s11_capacity s"]
    by (intro unat_Suc_word) (simp add: word_less_nat_alt)
  show "s11_used (s11_add s a) = s11_used s @ [a]"
    using l by (simp add: s11_used_def s11_add_def n take_Suc_conv_app_nth)
qed

lemma s11_insert_act_wf:
  assumes "s11_wf s" "s11_count s < s11_capacity s" "tc_wf tc" "s11_insert_ok tc u"
  shows "act_wf (s11_insert_act s tc u)" "length (act_tc (s11_insert_act s tc u)) = 64"
    "act_packet (s11_insert_act s tc u) = take (unat (tc_user_data_len tc - 6)) (drop 6 u)"
    "act_request_id (s11_insert_act s tc u) \<notin> act_request_id ` set (s11_used s)"
proof -
  let ?n = "tc_user_data_len tc - 6"
  have n: "unat ?n = unat (tc_user_data_len tc) - 6"
    using assms(4) by (intro unat_sub_literal) (simp_all add: s11_insert_ok_def word_less_nat_alt)
  have l: "unat ?n \<le> length (drop 6 u)"
    using assms(3,4) n by (simp add: tc_wf_def s11_insert_ok_def diff_le_mono)
  have st: "stored_tc 11 (drop 6 u) ?n" using assms(4) by (simp add: s11_insert_ok_def)
  have o: "length (act_tc (s11_acts s ! unat (s11_count s))) = 64"
    using assms(1) s11_add_used(3) [OF assms(1,2)] by (simp add: s11_wf_def)
  show "length (act_tc (s11_insert_act s tc u)) = 64"
    using o l stored_tc_len [OF st] by (simp add: s11_insert_act_def)
  show p: "act_packet (s11_insert_act s tc u) = take (unat ?n) (drop 6 u)"
    using stored_tc_memcpy(1) [OF st l] by (simp add: act_packet_def s11_insert_act_def)
  have id: "act_request_id (s11_insert_act s tc u) = s11_free_id s (s11_next_id s)"
    "act_tc_len (s11_insert_act s tc u) = ?n" by (simp_all add: s11_insert_act_def)
  show "act_wf (s11_insert_act s tc u)"
    using s11_free_id_free [of s] stored_tc_take [OF st l] p id by (simp add: act_wf_def)
  show "act_request_id (s11_insert_act s tc u) \<notin> act_request_id ` set (s11_used s)"
    using s11_free_id_free [of s] by (simp add: id s11_table.lookup_None [symmetric])
qed

lemma s11_insert_wf [inv_intros]:
  assumes "s11_wf s" "s11_count s < s11_capacity s" "tc_wf tc" "s11_insert_ok tc u"
  shows "s11_wf (s11_add s (s11_insert_act s tc u))"
proof -
  note a = s11_insert_act_wf [OF assms] and k = s11_add_used [OF assms(1,2)]
  have "s11_count s + 1 \<le> s11_capacity s"
    using assms(2) k(2) by (simp add: word_le_nat_alt word_less_nat_alt)
  moreover have "length (act_tc b) = 64"
    if "b \<in> set ((s11_acts s)[unat (s11_count s) := s11_insert_act s tc u])" for b
    using that a(2) assms(1) by (auto simp: s11_wf_def dest!: set_update_subset_insert [THEN subsetD])
  ultimately show ?thesis
    using assms(1) a(1,4) unfolding s11_wf_def k(1) by (auto simp: s11_add_def)
qed

lemma s11_wf_flags [inv_intros]:
  "s11_wf s \<Longrightarrow> s11_wf (s\<lparr>s11_count := 0\<rparr>)" "s11_wf (s\<lparr>s11_enabled := b\<rparr>) = s11_wf s"
  by (simp_all add: s11_wf_def s11_used_def)

interpretation s11_insert: s1_service obsw_s11_insert s11_wf
proof unfold_locales
  fix e :: tm_env and tc s assume "tm_ok (env_store e)" "tc_wf tc" "s11_wf s"
  then show "handled s11_wf tc e s (obsw_s11_insert (Some tc) (Some s) e)"
    by (auto simp: s11_insert_cases s11_insert_ok_def not_le intro!: handledI s11_insert_wf)
qed (auto simp: obsw_s11_insert_def split: option.split)

interpretation s11_delete: s1_service obsw_s11_delete s11_wf
proof unfold_locales
  fix e :: tm_env and tc s assume "tm_ok (env_store e)" "s11_wf s"
  then show "handled s11_wf tc e s (obsw_s11_delete (Some tc) (Some s) e)"
    by (auto simp: obsw_s11_delete_def Let_def intro!: handledI s11_remove_wf
        dest: s11_table.lookup_Some split: option.split)
qed (auto simp: obsw_s11_delete_def split: option.split)

interpretation s11_delete_all: s1_service obsw_s11_delete_all s11_wf
  by unfold_locales (auto simp: obsw_s11_delete_all_def Let_def inv_intros intro!: handledI split: option.split)

interpretation s11_enable: s1_service obsw_s11_enable s11_wf
  by unfold_locales (auto simp: obsw_s11_enable_def Let_def inv_intros intro!: handledI split: option.split)

interpretation s11_disable: s1_service obsw_s11_disable s11_wf
  by unfold_locales (auto simp: obsw_s11_disable_def Let_def inv_intros intro!: handledI split: option.split)

subsection \<open>The run\<close>

definition act_due :: "u64 \<Rightarrow> obsw_s11_activity \<Rightarrow> bool" where
  "act_due t_now a \<longleftrightarrow> tag_key (act_coarse a) (act_fine a) \<le> t_now"

definition act_key :: "obsw_s11_activity \<Rightarrow> u64 \<times> u16" where
  "act_key a = (tag_key (act_coarse a) (act_fine a), act_request_id a)"

lemma s11_pick_spec:
  assumes "\<And>j. j < length as \<Longrightarrow> acts ! (i + j) = as ! j" "\<And>b. best = Some b \<Longrightarrow> act_due t (acts ! b)"
  shows "case s11_pick acts t as i best of
      None \<Rightarrow> best = None \<and> (\<forall>a \<in> set as. \<not> act_due t a)
    | Some r \<Rightarrow> (best = Some r \<or> i \<le> r \<and> r < i + length as) \<and> act_due t (acts ! r)
        \<and> (\<forall>b. best = Some b \<longrightarrow> act_key (acts ! r) \<le> act_key (acts ! b))
        \<and> (\<forall>a \<in> set as. act_due t a \<longrightarrow> act_key (acts ! r) \<le> act_key a)"
  using assms
proof (induction as arbitrary: i best)
  case Nil
  then show ?case by (cases best) auto
next
  case (Cons a as)
  have a: "acts ! i = a" using Cons.prems(1) [of 0] by simp
  have as: "acts ! (i + 1 + j) = as ! j" if "j < length as" for j
    using Cons.prems(1) [of "Suc j"] that by simp
  show ?case
  proof (cases "act_due t a")
    case False
    then have "s11_pick acts t (a # as) i best = s11_pick acts t as (i + 1) best"
      by (simp add: act_due_def Let_def not_le)
    with Cons.IH [of "i + 1" best, OF as Cons.prems(2)] False show ?thesis
      by (auto split: option.splits)
  next
    case due: True
    define best' where "best' = (if \<exists>b. best = Some b \<and> \<not> act_key a < act_key (acts ! b) then best else Some i)"
    have p: "s11_pick acts t (a # as) i best = s11_pick acts t as (i + 1) best'"
      using due by (cases best) (auto simp: act_due_def act_key_def best'_def Let_def less_prod_def)
    have "act_due t (acts ! b)" if "best' = Some b" for b
      using that due a Cons.prems(2) by (auto simp: best'_def split: if_splits)
    note ih = Cons.IH [of "i + 1" best', OF as this]
    have ka: "\<exists>b. best' = Some b \<and> act_key (acts ! b) \<le> act_key a
        \<and> (b = i \<or> best = Some b) \<and> (\<forall>c. best = Some c \<longrightarrow> act_key (acts ! b) \<le> act_key (acts ! c))"
      using a by (auto simp: best'_def not_less)
    then obtain b where b: "best' = Some b" "act_key (acts ! b) \<le> act_key a" "b = i \<or> best = Some b"
      "\<forall>c. best = Some c \<longrightarrow> act_key (acts ! b) \<le> act_key (acts ! c)" by blast
    show ?thesis
    proof (cases "s11_pick acts t as (i + 1) best'")
      case None
      with ih b(1) show ?thesis by simp
    next
      case (Some r)
      with ih b(1) have r: "b = r \<or> i + 1 \<le> r \<and> r < i + 1 + length as" "act_due t (acts ! r)"
        "act_key (acts ! r) \<le> act_key (acts ! b)"
        "\<forall>a \<in> set as. act_due t a \<longrightarrow> act_key (acts ! r) \<le> act_key a" by auto
      have "best = Some r \<or> i \<le> r \<and> r < i + length (a # as)" using r(1) b(3) by auto
      moreover have "act_key (acts ! r) \<le> act_key a" using r(3) b(2) by (rule order_trans)
      moreover have "act_key (acts ! r) \<le> act_key (acts ! c)" if "best = Some c" for c
      proof -
        have "act_key (acts ! b) \<le> act_key (acts ! c)" using b(4) that by blast
        with r(3) show ?thesis by (rule order_trans)
      qed
      ultimately show ?thesis using r(2,4) unfolding p Some by simp
    qed
  qed
qed

lemma s11_next_spec:
  shows "s11_next s t = None \<longleftrightarrow> (\<forall>a \<in> set (s11_used s). \<not> act_due t a)"
    and "s11_next s t = Some r \<Longrightarrow> r < length (s11_used s) \<and> act_due t (s11_used s ! r)
      \<and> (\<forall>a \<in> set (s11_used s). act_due t a \<longrightarrow> act_key (s11_used s ! r) \<le> act_key a)"
proof -
  have p: "s11_next s t = s11_pick (s11_acts s) t (s11_used s) 0 None"
    by (simp add: s11_next_def s11_used_def)
  note q = s11_pick_spec [of "s11_used s" "s11_acts s" 0 None t, folded p]
  have some: "r < length (s11_used s) \<and> act_due t (s11_used s ! r)
      \<and> (\<forall>a \<in> set (s11_used s). act_due t a \<longrightarrow> act_key (s11_used s ! r) \<le> act_key a)"
    if "s11_next s t = Some r" for r
    using q that s11_used_nth [of _ s] by auto
  then show "s11_next s t = Some r \<Longrightarrow> r < length (s11_used s) \<and> act_due t (s11_used s ! r)
      \<and> (\<forall>a \<in> set (s11_used s). act_due t a \<longrightarrow> act_key (s11_used s ! r) \<le> act_key a)" .
  show "s11_next s t = None \<longleftrightarrow> (\<forall>a \<in> set (s11_used s). \<not> act_due t a)"
  proof (cases "s11_next s t")
    case None
    with q s11_used_nth [of _ s] show ?thesis by auto
  next
    case (Some r)
    then show ?thesis using some [OF Some] nth_mem by fastforce
  qed
qed

text \<open>
  One release: the activity is taken out of the table, by its identifier, and its packet fed.
\<close>

definition s11_fire :: "(obsw_s11_ctx, 'w) part \<Rightarrow> 'w obsw_tc_dispatcher \<Rightarrow> 'w \<Rightarrow> obsw_s11_activity \<Rightarrow> 'w" where
  "s11_fire p d w a =
    (let s = fst p w;
         s' = s11_remove_at s (the (s11_find_act s (act_request_id a)))
     in snd (obsw_tc_dispatcher_feed (Some d) (Some (act_packet a)) (ucast (act_tc_len a) :: u64)
               (snd p s' w)))"

lemma s11_due_remove:
  assumes "s11_wf s" "i < length (s11_used s)" "act_due t (s11_used s ! i)"
  shows "mset (filter (act_due t) (s11_used s))
      = add_mset (s11_used s ! i) (mset (filter (act_due t) (s11_used (s11_remove_at s i))))"
    and "mset (filter (\<lambda>a. \<not> act_due t a) (s11_used (s11_remove_at s i)))
      = mset (filter (\<lambda>a. \<not> act_due t a) (s11_used s))"
proof -
  have "s11_used s ! i \<in># mset (s11_used s)" using assms(2) by simp
  then have "mset (s11_used s) = add_mset (s11_used s ! i) (mset (s11_used (s11_remove_at s i)))"
    using s11_remove_used [OF assms(1,2)] by simp
  with assms(3) show "mset (filter (act_due t) (s11_used s))
      = add_mset (s11_used s ! i) (mset (filter (act_due t) (s11_used (s11_remove_at s i))))"
    and "mset (filter (\<lambda>a. \<not> act_due t a) (s11_used (s11_remove_at s i)))
      = mset (filter (\<lambda>a. \<not> act_due t a) (s11_used s))"
    by (simp_all add: mset_filter)
qed

lemma inj_on_act_key:
  assumes "s11_wf s" "set as \<subseteq> set (s11_used s)"
  shows "inj_on act_key (set as)"
proof -
  have "inj_on act_request_id (set (s11_used s))" using assms(1) by (simp add: s11_wf_def distinct_map)
  then have "inj_on act_request_id (set as)" using assms(2) by (rule inj_on_subset)
  then show ?thesis by (auto simp: inj_on_def act_key_def)
qed

lemma sort_due_Cons:
  assumes "s11_wf s" "s11_next s t = Some i"
  shows "sort_key act_key (filter (act_due t) (s11_used s))
    = s11_used s ! i # sort_key act_key (filter (act_due t) (s11_used (s11_remove_at s i)))"
proof -
  let ?due = "filter (act_due t) (s11_used s)" and ?r = "filter (act_due t) (s11_used (s11_remove_at s i))"
  have i: "i < length (s11_used s)" "act_due t (s11_used s ! i)"
    and least: "\<forall>a \<in> set (s11_used s). act_due t a \<longrightarrow> act_key (s11_used s ! i) \<le> act_key a"
    using s11_next_spec(2) [OF assms(2)] by blast+
  note m = s11_due_remove(1) [OF assms(1) i]
  have "set ?r \<subseteq> set ?due" using m by (metis set_mset_add_mset_insert set_mset_mset subset_insertI)
  then have "\<forall>a \<in> set ?r. act_key (s11_used s ! i) \<le> act_key a" using least by auto
  then have "sorted (map act_key (s11_used s ! i # sort_key act_key ?r))" by simp
  moreover have "mset ?due = mset (s11_used s ! i # sort_key act_key ?r)" using m by simp
  moreover have "inj_on act_key (set ?due)" using assms(1) by (rule inj_on_act_key) simp
  ultimately show ?thesis by (intro sort_key_inj_key_eq)
qed

lemma s11_release_all:
  assumes "\<And>c w. fst p (snd p c w) = c" "feed_spares 11 d (fst p)" "s11_wf (fst p w)"
    and "length (filter (act_due t) (s11_used (fst p w))) \<le> n"
  shows "\<exists>w'. s11_release n p t d rel w
      = (rel + of_nat (length (filter (act_due t) (s11_used (fst p w)))), w')
    \<and> w' = foldl (s11_fire p d) w (sort_key act_key (filter (act_due t) (s11_used (fst p w))))
    \<and> mset (s11_used (fst p w')) = mset (filter (\<lambda>a. \<not> act_due t a) (s11_used (fst p w)))
    \<and> s11_wf (fst p w')"
  using assms(3,4)
proof (induction n arbitrary: w rel)
  case 0
  then have n: "filter (act_due t) (s11_used (fst p w)) = []" by simp
  then have "filter (\<lambda>a. \<not> act_due t a) (s11_used (fst p w)) = s11_used (fst p w)"
    by (auto simp: filter_empty_conv filter_id_conv)
  with n 0 show ?case by simp
next
  case (Suc n)
  let ?s = "fst p w"
  show ?case
  proof (cases "s11_next ?s t")
    case None
    then have n: "\<forall>a \<in> set (s11_used ?s). \<not> act_due t a" by (simp add: s11_next_spec(1))
    then have "filter (act_due t) (s11_used ?s) = []"
      "filter (\<lambda>a. \<not> act_due t a) (s11_used ?s) = s11_used ?s"
      by (simp_all add: filter_empty_conv filter_id_conv)
    with None Suc.prems show ?thesis by simp
  next
    case (Some i)
    let ?a = "s11_used ?s ! i" and ?s' = "s11_remove_at ?s i"
    have i: "i < length (s11_used ?s)" "act_due t ?a" using s11_next_spec(2) [OF Some] by blast+
    have d: "distinct (map act_request_id (s11_used ?s))" using Suc.prems(1) by (simp add: s11_wf_def)
    have find: "s11_find_act ?s (act_request_id ?a) = Some i"
      using find_index_key [OF d i(1)] by (simp add: s11_find_act_def s11_used_def)
    have a: "s11_acts ?s ! i = ?a" using s11_used_nth [OF i(1)] by simp
    have st: "stored_tc 11 (act_packet ?a) (act_tc_len ?a)" and mem: "s11_acts ?s ! i \<in> set (s11_acts ?s)"
      using Suc.prems(1) i(1) nth_mem [OF i(1)] by (auto simp: s11_wf_def act_wf_def s11_used_def)
    have "length (act_tc ?a) = 64" using Suc.prems(1) mem by (simp add: s11_wf_def a)
    then have len: "unat (act_tc_len ?a) \<le> length (act_packet ?a)"
      using stored_tc_len [OF st] by (simp add: act_packet_def)
    let ?w2 = "s11_fire p d w ?a"
    have w2: "fst p ?w2 = ?s'"
      using feed_spares_stored [OF assms(2) st len] assms(1) by (simp add: s11_fire_def find Let_def)
    have run: "s11_release (Suc n) p t d rel w = s11_release n p t d (rel + 1) ?w2"
      by (simp add: Some s11_fire_def find Let_def a act_packet_def)
    note m = s11_due_remove [OF Suc.prems(1) i]
    have l: "length (filter (act_due t) (s11_used ?s)) = Suc (length (filter (act_due t) (s11_used ?s')))"
      using arg_cong [OF m(1), of size] by (simp only: size_mset size_add_mset)
    have "s11_wf (fst p ?w2)" "length (filter (act_due t) (s11_used (fst p ?w2))) \<le> n"
      using s11_remove_wf [OF Suc.prems(1) i(1)] l Suc.prems(2) by (simp_all add: w2)
    from Suc.IH [OF this, of "rel + 1"] show ?thesis
      unfolding run w2 sort_due_Cons [OF Suc.prems(1) Some] m(2) l by simp
  qed
qed

subsection \<open>The run and the invariants of its host\<close>

text \<open>
  The contract between the schedule and the program it runs in: the dispatcher keeps an
  invariant that includes the schedule's own, and storing the schedule back keeps it.
\<close>

locale schedule_host = dispatch_inv di I for di :: "'w obsw_tc_dispatcher" and I +
  fixes p :: "(obsw_s11_ctx, 'w) part"
  assumes host_wf: "I w \<Longrightarrow> s11_wf (fst p w)"
    and host_put: "I w \<Longrightarrow> s11_wf c \<Longrightarrow> I (snd p c w)"
begin

lemma release_keeps: "I w \<Longrightarrow> I (snd (s11_release n p t di k w))"
proof (induction n arbitrary: k w)
  case (Suc n)
  show ?case
  proof (cases "s11_next (fst p w) t")
    case None
    with Suc.prems show ?thesis by simp
  next
    case (Some i)
    define s where "s = fst p w"
    have wf: "s11_wf s" and i: "i < length (s11_used s)"
      using host_wf [OF Suc.prems] s11_next_spec(2) [OF Some] by (simp_all add: s_def)
    have a: "s11_acts s ! i \<in> set (s11_used s)"
      using nth_mem [OF i] by (simp add: s11_used_nth [OF i])
    then have "unat (act_tc_len (s11_acts s ! i)) \<le> 64"
      using wf stored_tc_len by (auto simp: s11_wf_def act_wf_def)
    moreover have "length (act_tc (s11_acts s ! i)) = 64"
      using wf a by (auto simp: s11_wf_def s11_used_def dest: in_set_takeD)
    ultimately have "unat (ucast (act_tc_len (s11_acts s ! i)) :: u64)
        \<le> length (take (unat (act_tc_len (s11_acts s ! i))) (act_tc (s11_acts s ! i)))"
      by (simp add: unat_ucast_u16)
    then have "I (snd (obsw_tc_dispatcher_feed (Some di)
        (Some (take (unat (act_tc_len (s11_acts s ! i))) (act_tc (s11_acts s ! i))))
        (ucast (act_tc_len (s11_acts s ! i)) :: u64) (snd p (s11_remove_at s i) w)))"
      using host_put [OF Suc.prems s11_remove_wf [OF wf i]] by (intro feed_keeps) simp_all
    from Suc.IH [OF this] show ?thesis by (simp add: Some Let_def s_def)
  qed
qed simp

lemma run_keeps: "I w \<Longrightarrow> I (snd (obsw_s11_run (Some p) (Some t) (Some di) w))"
  by (simp add: obsw_s11_run_def release_keeps)

end

subsection \<open>Properties\<close>

text \<open>
  C36: A run releases exactly what is due, each activity once, in the order of the time
  tags, and equal tags in the order of their identifiers.  With the schedule enabled, \<open>run\<close>
  is the successive release of the due activities, sorted by tag and identifier: each is
  taken out of the table before its packet is fed.  The activities that are not due stay,
  whatever the fed commands do, as no stored command is one of service 11.  The loop bound,
  the number of activities at entry, never cuts the run short.
\<close>

theorem s11_run_order:
  assumes "\<And>c w. get (put c w) = c" and "feed_spares 11 d get"
    and "s11_wf (get w)" and "s11_enabled (get w)"
    and "due = filter (act_due (tag_key (obt_coarse now) (obt_fine now))) (s11_used (get w))"
    and "rest = filter (\<lambda>a. \<not> act_due (tag_key (obt_coarse now) (obt_fine now)) a) (s11_used (get w))"
  shows "\<exists>w'. obsw_s11_run (Some (get, put)) (Some now) (Some d) w = (of_nat (length due), w')
    \<and> w' = foldl (s11_fire (get, put) d) w (sort_key act_key due)
    \<and> mset (s11_used (get w')) = mset rest \<and> s11_wf (get w')"
proof -
  have "length due \<le> unat (s11_count (get w))"
    using length_s11_used [OF assms(3)] unfolding assms(5) by (metis length_filter_le)
  with s11_release_all [of "(get, put)" d w] assms show ?thesis
    by (simp add: obsw_s11_run_def)
qed

lemma s11_run_order_witness:
  "\<exists>w'. obsw_s11_run (Some (fst, \<lambda>c w. (c, snd w))) (Some \<lparr>obt_coarse = 9, obt_fine = 0, obt_rem = 0\<rparr>)
      (Some \<lparr>d_table = [\<lparr>rt_apid = 0xFFFF, rt_service = 17, rt_subservice = 1,
               rt_handler = (\<lambda>tc _ w. (0, fst w, snd w @ [tc_seq_count tc]))\<rparr>],
             d_table_len = 1, d_responder = (\<lambda>_ _ w. w), d_gate = None\<rparr>)
      (\<lparr>s11_acts = [\<lparr>act_request_id = 1, act_coarse = 10, act_fine = 0, act_tc_len = 11,
                      act_tc = [0x18, 1, 0xC0, 7, 0, 4, 0x20, 17, 1, 0, 0] @ replicate 53 0\<rparr>,
                     \<lparr>act_request_id = 2, act_coarse = 8, act_fine = 0, act_tc_len = 11,
                      act_tc = [0x18, 1, 0xC0, 8, 0, 4, 0x20, 17, 1, 0, 0] @ replicate 53 0\<rparr>],
        s11_capacity = 2, s11_count = 2, s11_next_id = 3, s11_enabled = True\<rparr>, [])
    = (1, w') \<and> length (s11_used (fst w')) = 1"
proof -
  let ?b = "\<lambda>n. [0x18, 1, 0xC0, n, 0, 4, 0x20, 17, 1, 0, 0] :: u8 list"
  define a1 where "a1 = \<lparr>act_request_id = 1, act_coarse = 10, act_fine = 0, act_tc_len = 11,
    act_tc = ?b 7 @ replicate 53 0\<rparr>"
  define a2 where "a2 = \<lparr>act_request_id = 2, act_coarse = 8, act_fine = 0, act_tc_len = 11,
    act_tc = ?b 8 @ replicate 53 0\<rparr>"
  define w where "w = (\<lparr>s11_acts = [a1, a2], s11_capacity = 2, s11_count = 2, s11_next_id = 3,
    s11_enabled = True\<rparr>, [] :: u16 list)"
  define d :: "(obsw_s11_ctx \<times> u16 list) obsw_tc_dispatcher"
    where "d = \<lparr>d_table = [\<lparr>rt_apid = 0xFFFF, rt_service = 17, rt_subservice = 1,
                 rt_handler = (\<lambda>tc _ w. (0, fst w, snd w @ [tc_seq_count tc]))\<rparr>],
               d_table_len = 1, d_responder = (\<lambda>_ _ w. w), d_gate = None\<rparr>"
  define put :: "obsw_s11_ctx \<Rightarrow> obsw_s11_ctx \<times> u16 list \<Rightarrow> obsw_s11_ctx \<times> u16 list"
    where "put = (\<lambda>c w. (c, snd w))"
  define now where "now = \<lparr>obt_coarse = 9, obt_fine = 0, obt_rem = 0\<rparr>"
  have st: "stored_tc 11 (?b n) 11" for n
    by (simp add: stored_tc_def obsw_tc_packet_check_def obsw_sp_parse_def obsw_sp_decode_primary_def
        obsw_sp_total_len_def sp_header_fields_def sp_payload_bytes_def Let_def)
  have wf: "s11_wf (fst w)"
    using st [of 7] st [of 8]
    by (simp add: w_def a1_def a2_def s11_wf_def s11_used_def act_wf_def act_packet_def)
  have sp: "feed_spares 11 d fst" by (simp add: d_def feed_spares_def tc_dispatch_def)
  have due: "[a2] = filter (act_due (tag_key (obt_coarse now) (obt_fine now))) (s11_used (fst w))"
    and rest: "[a1] = filter (\<lambda>a. \<not> act_due (tag_key (obt_coarse now) (obt_fine now)) a) (s11_used (fst w))"
    by (simp_all add: w_def a1_def a2_def now_def s11_used_def act_due_def tag_key_def)
  have p: "fst (put c v) = c" and en: "s11_enabled (fst w)" for c v by (simp_all add: put_def w_def)
  obtain w' where r: "obsw_s11_run (Some (fst, put)) (Some now) (Some d) w = (of_nat (length [a2]), w')"
    and m: "mset (s11_used (fst w')) = mset [a1]"
    using s11_run_order [of fst put, OF p sp wf en due rest] by blast
  have "length (s11_used (fst w')) = 1" using arg_cong [OF m, of size] by (simp only: size_mset) simp
  with r show ?thesis unfolding w_def d_def put_def now_def a1_def a2_def by auto
qed

text \<open>
  TC(11,4) adds one activity, the one the command describes, under a new identifier,
  and TC(11,5) with that identifier takes it out again.  An accepted insert leaves the other
  activities as they were and appends one whose tag and packet are those of the command and
  whose identifier is neither zero nor in use; a later delete of this identifier is accepted
  and leaves the activities that were there before.
\<close>

theorem s11_insert_then_delete:
  assumes "s11_wf s" and "tc_wf tc" and "obsw_s11_insert (Some tc) (Some s) e = (0, Some s1, e1)"
    and "tc_wf tc2" and "tc_user_data tc2 = Some u2" and "2 \<le> tc_user_data_len tc2"
    and "obsw_be16 u2 = act_request_id (last (s11_used s1))"
  shows "\<exists>u a s2. tc_user_data tc = Some u \<and> s11_used s1 = s11_used s @ [a]
    \<and> act_coarse a = obsw_be32 u \<and> act_fine a = obsw_be16 (drop 4 u)
    \<and> act_packet a = take (unat (tc_user_data_len tc - 6)) (drop 6 u)
    \<and> act_request_id a \<noteq> 0 \<and> act_request_id a \<notin> act_request_id ` set (s11_used s)
    \<and> s11_wf s1 \<and> fst (obsw_s11_delete (Some tc2) (Some s1) e2) = 0
    \<and> fst (snd (obsw_s11_delete (Some tc2) (Some s1) e2)) = Some s2
    \<and> s11_wf s2 \<and> mset (s11_used s2) = mset (s11_used s)"
proof -
  from assms(3) obtain u where ok: "s11_insert_ok tc u" and c: "s11_count s < s11_capacity s"
    and s1: "s1 = s11_add s (s11_insert_act s tc u)"
    by (auto simp: s11_insert_cases s11_insert_ok_def not_le split: if_splits)
  let ?a = "s11_insert_act s tc u"
  note a = s11_insert_act_wf [OF assms(1) c assms(2) ok]
  have used: "s11_used s1 = s11_used s @ [?a]"
    using s11_add_used(1) [OF assms(1) c] by (simp add: s1)
  have wf: "s11_wf s1" using s11_insert_wf [OF assms(1) c assms(2) ok] by (simp add: s1)
  let ?i = "length (s11_used s)"
  have d: "distinct (map act_request_id (s11_used s1))" using wf by (simp add: s11_wf_def)
  have "s11_find_act s1 (act_request_id (s11_used s1 ! ?i)) = Some ?i"
    using find_index_key [OF d, of ?i] used by (simp add: s11_table.lookup_scan)
  then have f: "s11_find_act s1 (obsw_be16 u2) = Some ?i" using assms(7) used by simp
  have i: "?i < length (s11_used s1)" using used by simp
  have "mset (s11_used (s11_remove_at s1 ?i)) = mset (s11_used s)"
    using s11_remove_used [OF wf i] by (simp add: used)
  moreover have "s11_wf (s11_remove_at s1 ?i)" using wf i by (rule s11_remove_wf)
  moreover have "fst (obsw_s11_delete (Some tc2) (Some s1) e2) = 0"
    "fst (snd (obsw_s11_delete (Some tc2) (Some s1) e2)) = Some (s11_remove_at s1 ?i)"
    using assms(5,6) f by (simp_all add: obsw_s11_delete_def Let_def)
  moreover have "act_coarse ?a = obsw_be32 u" "act_fine ?a = obsw_be16 (drop 4 u)"
    by (simp_all add: s11_insert_act_def)
  ultimately show ?thesis
    using ok used wf a by (auto simp: s11_insert_ok_def act_wf_def)
qed

lemma s11_insert_then_delete_witness:
  "\<exists>a s1. s11_used s1 = [a] \<and> act_coarse a = 5 \<and> act_request_id a = 1
    \<and> fst (obsw_s11_delete (Some \<lparr>tc_apid = 1, tc_service = 11, tc_subservice = 5, tc_seq_count = 1,
        tc_user_data = Some [0, 1], tc_user_data_len = 2\<rparr>) (Some s1)
        \<lparr>env_s1 = None, env_store = None\<rparr>) = 0"
proof -
  define p :: "u8 list" where "p = [0x18, 1, 0xC0, 7, 0, 4, 0x20, 17, 1, 0, 0]"
  define u :: "u8 list" where "u = [0, 0, 0, 5, 0, 0] @ p"
  define tc where "tc = \<lparr>tc_apid = 1, tc_service = 11, tc_subservice = 4, tc_seq_count = 0,
    tc_user_data = Some u, tc_user_data_len = 17\<rparr>"
  define tc2 where "tc2 = \<lparr>tc_apid = 1, tc_service = 11, tc_subservice = 5, tc_seq_count = 1,
    tc_user_data = Some [0, 1 :: u8], tc_user_data_len = 2\<rparr>"
  define e where "e = \<lparr>env_s1 = None, env_store = None\<rparr>"
  define s where "s = \<lparr>s11_acts = [\<lparr>act_request_id = 0, act_coarse = 0, act_fine = 0, act_tc_len = 0,
    act_tc = replicate 64 0\<rparr>], s11_capacity = 1, s11_count = 0, s11_next_id = 1, s11_enabled = True\<rparr>"
  have st: "stored_tc 11 p 11"
    by (simp add: p_def stored_tc_def obsw_tc_packet_check_def obsw_sp_parse_def obsw_sp_decode_primary_def
        obsw_sp_total_len_def sp_header_fields_def sp_payload_bytes_def Let_def)
  have wf: "s11_wf s" by (simp add: s_def s11_wf_def s11_used_def)
  have tcs: "tc_wf tc" "tc_wf tc2" by (simp_all add: tc_def tc2_def tc_wf_def u_def p_def)
  have ok: "s11_insert_ok tc u" using st by (simp add: s11_insert_ok_def tc_def u_def)
  define s1 where "s1 = s11_add s (s11_insert_act s tc u)"
  have "the (tc_user_data tc) = u" by (simp add: tc_def)
  then have ins: "obsw_s11_insert (Some tc) (Some s) e = (0, Some s1, e)"
    using ok by (auto simp: s11_insert_cases s1_def s_def e_def obsw_s1_accept_success_def
        obsw_s1_completion_success_def)
  have id: "s11_free_id s 1 = 1"
    by (subst s11_free_id.simps) (simp add: s11_find_act_def s_def)
  have "act_request_id (last (s11_used s1)) = 1"
    using id by (simp add: s1_def s11_add_def s11_used_def s11_insert_act_def s_def)
  then have k: "obsw_be16 [0, 1] = act_request_id (last (s11_used s1))"
    by (simp add: obsw_be16_def)
  have u2: "tc_user_data tc2 = Some [0, 1]" "2 \<le> tc_user_data_len tc2" by (simp_all add: tc2_def)
  obtain a where a: "s11_used s1 = s11_used s @ [a]" "act_coarse a = obsw_be32 u"
    "fst (obsw_s11_delete (Some tc2) (Some s1) e) = 0"
    using s11_insert_then_delete [OF wf tcs(1) ins tcs(2) u2 k, of e] ok
    unfolding s11_insert_ok_def by auto
  have "s11_used s = []" by (simp add: s_def s11_used_def)
  with a(1) have "s11_used s1 = [a]" by simp
  moreover have "act_request_id a = 1" using k \<open>s11_used s1 = [a]\<close> by (simp add: obsw_be16_def)
  moreover have "act_coarse a = 5" using a(2) by (simp add: u_def obsw_be32_def)
  ultimately show ?thesis using a(3) unfolding tc2_def e_def by blast
qed

end
