(* ===== verification/Pus_S12.thy ===== *)
theory Pus_S12
  imports Pus_S20 Pus_S5
begin

section \<open>Service 12, on-board monitoring\<close>

text \<open>
  \<^verbatim>\<open>src/pus/s12.c\<close>: limit checks on S20 parameters, one definition per parameter, and the
  periodic check that reports the transitions out of limit as S5 events.  \<open>s12_params\<close> is
  the array the context's pointer leads to, S20's own table, at the time of the call; the S5
  context is an argument, as S12 only points to it.

  The lemmas show that the table of definitions is a map, and that a standing violation is
  reported once, when it begins.
\<close>

record obsw_s12_def =
  mon_param_id :: u16
  mon_low :: f32
  mon_high :: f32
  mon_event_low :: u16
  mon_event_high :: u16
  mon_severity :: u8
  mon_in_low :: bool
  mon_in_high :: bool

record obsw_s12_ctx =
  s12_params :: "obsw_s20_param list option"
  s12_param_count :: u8
  s12_defs :: "obsw_s12_def list"
  s12_capacity :: u8
  s12_count :: u8
  s12_enabled :: bool

definition be_f32 :: "u8 list \<Rightarrow> f32" where
  "be_f32 p = obsw_be32 p"

definition s12_find_def :: "obsw_s12_ctx \<Rightarrow> u16 \<Rightarrow> nat option" where
  "s12_find_def s param_id =
    find_index (\<lambda>d. mon_param_id d = param_id) (take (unat (s12_count s)) (s12_defs s))"

definition obsw_s12_init ::
  "obsw_s12_ctx option \<Rightarrow> obsw_s20_param list option \<Rightarrow> u8 \<Rightarrow> obsw_s12_def list option \<Rightarrow> u8
   \<Rightarrow> obsw_s12_ctx option" where
  "obsw_s12_init ctx params param_count defs capacity =
    (case ctx of None \<Rightarrow> None
     | Some _ \<Rightarrow> Some
         \<lparr>s12_params = params, s12_param_count = param_count,
          s12_defs = (case defs of Some d \<Rightarrow> d | None \<Rightarrow> []),
          s12_capacity = (if defs \<noteq> None then capacity else 0), s12_count = 0, s12_enabled = True\<rparr>)"

definition s12_remove_at :: "obsw_s12_ctx \<Rightarrow> nat \<Rightarrow> obsw_s12_ctx" where
  "s12_remove_at s i =
    (let c = s12_count s - 1
     in s\<lparr>s12_count := c, s12_defs := swap_remove (s12_defs s) i (unat c)\<rparr>)"

subsection \<open>Handlers\<close>

definition s12_unlatch :: "obsw_s12_def \<Rightarrow> obsw_s12_def" where
  "s12_unlatch d = d\<lparr>mon_in_low := False, mon_in_high := False\<rparr>"

definition obsw_s12_enable ::
  "obsw_tc option \<Rightarrow> obsw_s12_ctx option \<Rightarrow> tm_env \<Rightarrow> int \<times> obsw_s12_ctx option \<times> tm_env" where
  "obsw_s12_enable tc ctx e =
    (case (ctx, tc) of
       (Some s, Some t) \<Rightarrow>
         let e1 = snd (obsw_s1_accept_success tc e);
             n = unat (s12_count s);
             defs = map s12_unlatch (take n (s12_defs s)) @ drop n (s12_defs s)
         in (0, Some (s\<lparr>s12_defs := defs, s12_enabled := True\<rparr>),
             snd (obsw_s1_completion_success tc e1))
     | _ \<Rightarrow> (-1, ctx, e))"

definition obsw_s12_disable ::
  "obsw_tc option \<Rightarrow> obsw_s12_ctx option \<Rightarrow> tm_env \<Rightarrow> int \<times> obsw_s12_ctx option \<times> tm_env" where
  "obsw_s12_disable tc ctx e =
    (case (ctx, tc) of
       (Some s, Some t) \<Rightarrow>
         let e1 = snd (obsw_s1_accept_success tc e)
         in (0, Some (s\<lparr>s12_enabled := False\<rparr>), snd (obsw_s1_completion_success tc e1))
     | _ \<Rightarrow> (-1, ctx, e))"

definition obsw_s12_add ::
  "obsw_tc option \<Rightarrow> obsw_s12_ctx option \<Rightarrow> tm_env \<Rightarrow> int \<times> obsw_s12_ctx option \<times> tm_env" where
  "obsw_s12_add tc ctx e =
    (case (ctx, tc) of
       (Some s, Some t) \<Rightarrow>
         (case tc_user_data t of
            None \<Rightarrow> (-1, ctx, snd (obsw_s1_accept_failure tc OBSW_S1_FAIL_ILLEGAL_APP_DATA e))
          | Some u \<Rightarrow>
              if tc_user_data_len t < 15
              then (-1, ctx, snd (obsw_s1_accept_failure tc OBSW_S1_FAIL_ILLEGAL_APP_DATA e))
              else
                let param_id = obsw_be16 u; low = be_f32 (drop 2 u); high = be_f32 (drop 6 u);
                    severity = u ! 14;
                    bad = (obsw_s20_find (s12_params s) (s12_param_count s) param_id = None
                           \<or> severity < OBSW_S5_INFO \<or> severity > OBSW_S5_HIGH
                           \<or> (\<not> f32_is_nan low \<and> \<not> f32_is_nan high \<and> f32_lt high low))
                in if bad
                   then (-1, ctx, snd (obsw_s1_accept_failure tc OBSW_S1_FAIL_ILLEGAL_APP_DATA e))
                   else
                     let d = s12_find_def s param_id in
                     if d = None \<and> s12_count s \<ge> s12_capacity s
                     then (-1, ctx, snd (obsw_s1_accept_failure tc OBSW_S1_FAIL_EXEC_ERROR e))
                     else
                       let e1 = snd (obsw_s1_accept_success tc e);
                           (i, s1) = (case d of Some i \<Rightarrow> (i, s)
                                      | None \<Rightarrow> (unat (s12_count s), s\<lparr>s12_count := s12_count s + 1\<rparr>));
                           new = \<lparr>mon_param_id = param_id, mon_low = low, mon_high = high,
                                  mon_event_low = obsw_be16 (drop 10 u),
                                  mon_event_high = obsw_be16 (drop 12 u), mon_severity = severity,
                                  mon_in_low = False, mon_in_high = False\<rparr>
                       in (0, Some (s1\<lparr>s12_defs := (s12_defs s1)[i := new]\<rparr>),
                           snd (obsw_s1_completion_success tc e1)))
     | _ \<Rightarrow> (-1, ctx, e))"

definition obsw_s12_delete ::
  "obsw_tc option \<Rightarrow> obsw_s12_ctx option \<Rightarrow> tm_env \<Rightarrow> int \<times> obsw_s12_ctx option \<times> tm_env" where
  "obsw_s12_delete tc ctx e =
    (case (ctx, tc) of
       (Some s, Some t) \<Rightarrow>
         (case tc_user_data t of
            None \<Rightarrow> (-1, ctx, snd (obsw_s1_accept_failure tc OBSW_S1_FAIL_ILLEGAL_APP_DATA e))
          | Some u \<Rightarrow>
              if tc_user_data_len t < 2
              then (-1, ctx, snd (obsw_s1_accept_failure tc OBSW_S1_FAIL_ILLEGAL_APP_DATA e))
              else
                case s12_find_def s (obsw_be16 u) of
                  None \<Rightarrow> (-1, ctx, snd (obsw_s1_accept_failure tc OBSW_S1_FAIL_ILLEGAL_APP_DATA e))
                | Some i \<Rightarrow>
                    let e1 = snd (obsw_s1_accept_success tc e)
                    in (0, Some (s12_remove_at s i), snd (obsw_s1_completion_success tc e1)))
     | _ \<Rightarrow> (-1, ctx, e))"

definition obsw_s12_delete_all ::
  "obsw_tc option \<Rightarrow> obsw_s12_ctx option \<Rightarrow> tm_env \<Rightarrow> int \<times> obsw_s12_ctx option \<times> tm_env" where
  "obsw_s12_delete_all tc ctx e =
    (case (ctx, tc) of
       (Some s, Some t) \<Rightarrow>
         let e1 = snd (obsw_s1_accept_success tc e)
         in (0, Some (s\<lparr>s12_count := 0\<rparr>), snd (obsw_s1_completion_success tc e1))
     | _ \<Rightarrow> (-1, ctx, e))"

subsection \<open>Periodic check\<close>

type_synonym ('h, 'v) s5_part = "'v obsw_s5_ctx option \<times> ('h, 'v) s5_env"

definition s12_report :: "obsw_s12_def \<Rightarrow> u16 \<Rightarrow> f32 \<Rightarrow> ('h, 'v) s5_part \<Rightarrow> ('h, 'v) s5_part" where
  "s12_report d event_id val p =
    snd (obsw_s5_report (fst p) (mon_severity d) event_id (Some (be_bytes32 val)) 4 (snd p))"

definition s12_check_def ::
  "obsw_s12_ctx \<Rightarrow> obsw_s12_def \<Rightarrow> ('h, 'v) s5_part \<Rightarrow> obsw_s12_def \<times> ('h, 'v) s5_part" where
  "s12_check_def s d p =
    (case obsw_s20_find (s12_params s) (s12_param_count s) (mon_param_id d) of
       None \<Rightarrow> (d, p)
     | Some prm \<Rightarrow>
         let v = obsw_s20_as_float prm;
             (d1, p1) = (if f32_lt v (mon_low d)
                         then if \<not> mon_in_low d
                              then let d' = d\<lparr>mon_in_low := True\<rparr>
                                   in (d', s12_report d' (mon_event_low d') v p)
                              else (d, p)
                         else (d\<lparr>mon_in_low := False\<rparr>, p))
         in if f32_lt (mon_high d1) v
            then if \<not> mon_in_high d1
                 then let d' = d1\<lparr>mon_in_high := True\<rparr>
                      in (d', s12_report d' (mon_event_high d') v p1)
                 else (d1, p1)
            else (d1\<lparr>mon_in_high := False\<rparr>, p1))"

text \<open>The loop over the used definitions; an S5 report does not reach the S12 context.\<close>

fun s12_check_defs ::
  "obsw_s12_ctx \<Rightarrow> obsw_s12_def list \<Rightarrow> ('h, 'v) s5_part \<Rightarrow> obsw_s12_def list \<times> ('h, 'v) s5_part" where
  "s12_check_defs s [] p = ([], p)"
| "s12_check_defs s (d # ds) p =
    (case s12_check_def s d p of
       (d', p1) \<Rightarrow> (case s12_check_defs s ds p1 of (ds', p2) \<Rightarrow> (d' # ds', p2)))"

definition obsw_s12_check ::
  "obsw_s12_ctx option \<Rightarrow> ('h, 'v) s5_part \<Rightarrow> obsw_s12_ctx option \<times> ('h, 'v) s5_part" where
  "obsw_s12_check ctx p =
    (case ctx of None \<Rightarrow> (None, p)
     | Some s \<Rightarrow>
         if \<not> s12_enabled s then (ctx, p)
         else
           let n = unat (s12_count s) in
           case s12_check_defs s (take n (s12_defs s)) p of
             (ds, p') \<Rightarrow> (Some (s\<lparr>s12_defs := ds @ drop n (s12_defs s)\<rparr>), p'))"

subsection \<open>The table\<close>

definition s12_used :: "obsw_s12_ctx \<Rightarrow> obsw_s12_def list" where
  "s12_used s = take (unat (s12_count s)) (s12_defs s)"

definition s12_wf :: "obsw_s12_ctx \<Rightarrow> bool" where
  "s12_wf s \<longleftrightarrow> s12_count s \<le> s12_capacity s \<and> unat (s12_capacity s) \<le> length (s12_defs s)
    \<and> distinct (map mon_param_id (s12_used s))
    \<and> (\<forall>d \<in> set (s12_used s). 1 \<le> mon_severity d \<and> mon_severity d \<le> 4
         \<and> obsw_s20_find (s12_params s) (s12_param_count s) (mon_param_id d) \<noteq> None)"

lemma s12_wf_count: "s12_wf s \<Longrightarrow> unat (s12_count s) \<le> length (s12_defs s)"
  by (auto simp: s12_wf_def word_le_nat_alt)

lemma length_s12_used: "s12_wf s \<Longrightarrow> length (s12_used s) = unat (s12_count s)"
  using s12_wf_count [of s] by (simp add: s12_used_def)

lemma s12_used_nth: "i < length (s12_used s) \<Longrightarrow> s12_used s ! i = s12_defs s ! i"
  by (simp add: s12_used_def)

lemma s12_remove_at_frame [frame_simps]:
  "s12_capacity (s12_remove_at s i) = s12_capacity s" "s12_enabled (s12_remove_at s i) = s12_enabled s"
  "s12_params (s12_remove_at s i) = s12_params s" "s12_param_count (s12_remove_at s i) = s12_param_count s"
  "length (s12_defs (s12_remove_at s i)) = length (s12_defs s)"
  by (simp_all add: s12_remove_at_def Let_def)

lemma s12_remove_count:
  assumes "i < length (s12_used s)"
  shows "unat (s12_count s) = Suc (unat (s12_count (s12_remove_at s i)))"
proof -
  have "0 < unat (s12_count s)" using assms by (auto simp: s12_used_def)
  then have "s12_count s \<noteq> 0" by (auto simp: unat_gt_0)
  then show ?thesis using \<open>0 < unat (s12_count s)\<close>
    by (simp add: s12_remove_at_def unat_pred_word)
qed

lemma s12_remove_used:
  assumes "s12_wf s" "i < length (s12_used s)"
  shows "mset (s12_used (s12_remove_at s i)) = mset (s12_used s) - {# s12_used s ! i #}"
proof -
  let ?n = "unat (s12_count (s12_remove_at s i))"
  have n: "unat (s12_count s) = Suc ?n" using assms(2) by (rule s12_remove_count)
  have a: "s12_defs (s12_remove_at s i) = swap_remove (s12_defs s) i ?n"
    by (simp add: s12_remove_at_def Let_def)
  have "mset (take ?n (swap_remove (s12_defs s) i ?n))
      = mset (take (Suc ?n) (s12_defs s)) - {# s12_defs s ! i #}"
    using assms s12_wf_count [OF assms(1)] length_s12_used [OF assms(1)] n
    by (intro mset_swap_remove) simp_all
  then show ?thesis
    by (simp add: s12_used_def a n [symmetric] s12_used_nth [OF assms(2), unfolded s12_used_def])
qed

interpretation s12_table: keyed_table s12_used mon_param_id s12_wf s12_find_def s12_remove_at
  by unfold_locales (simp_all add: s12_find_def_def s12_used_def s12_remove_used [unfolded s12_used_def])

lemma s12_remove_wf [inv_intros]:
  assumes "s12_wf s" "i < length (s12_used s)"
  shows "s12_wf (s12_remove_at s i)"
proof -
  have d: "distinct (map mon_param_id (s12_used s))" using assms(1) by (simp add: s12_wf_def)
  have u: "set (s12_used (s12_remove_at s i)) \<subseteq> set (s12_used s)"
    using s12_table.remove_keys(3) [OF assms(1) d assms(2)] by blast
  have n: "unat (s12_count s) = Suc (unat (s12_count (s12_remove_at s i)))"
    using assms(2) by (rule s12_remove_count)
  from u s12_table.remove_keys(1) [OF assms(1) d assms(2)] n assms(1)
  show ?thesis by (auto simp: s12_wf_def frame_simps word_le_nat_alt)
qed

subsection \<open>Command handlers\<close>

definition s12_new_def :: "u8 list \<Rightarrow> obsw_s12_def" where
  "s12_new_def u =
    \<lparr>mon_param_id = obsw_be16 u, mon_low = be_f32 (drop 2 u), mon_high = be_f32 (drop 6 u),
     mon_event_low = obsw_be16 (drop 10 u), mon_event_high = obsw_be16 (drop 12 u),
     mon_severity = u ! 14, mon_in_low = False, mon_in_high = False\<rparr>"

definition s12_add_ok :: "obsw_s12_ctx \<Rightarrow> obsw_tc \<Rightarrow> u8 list \<Rightarrow> bool" where
  "s12_add_ok s tc u \<longleftrightarrow> tc_user_data tc = Some u \<and> 15 \<le> tc_user_data_len tc
     \<and> obsw_s20_find (s12_params s) (s12_param_count s) (obsw_be16 u) \<noteq> None
     \<and> 1 \<le> u ! 14 \<and> u ! 14 \<le> 4 \<and> \<not> f32_lt (be_f32 (drop 6 u)) (be_f32 (drop 2 u))"

definition s12_added :: "obsw_s12_ctx \<Rightarrow> u8 list \<Rightarrow> obsw_s12_ctx" where
  "s12_added s u =
    (case s12_find_def s (obsw_be16 u) of
       Some i \<Rightarrow> s\<lparr>s12_defs := (s12_defs s)[i := s12_new_def u]\<rparr>
     | None \<Rightarrow> s\<lparr>s12_count := s12_count s + 1, s12_defs := (s12_defs s)[unat (s12_count s) := s12_new_def u]\<rparr>)"

lemma s12_add_cases:
  "obsw_s12_add (Some tc) (Some s) e =
    (if \<not> (\<exists>u. s12_add_ok s tc u)
     then (-1, Some s, snd (obsw_s1_accept_failure (Some tc) OBSW_S1_FAIL_ILLEGAL_APP_DATA e))
     else if s12_find_def s (obsw_be16 (the (tc_user_data tc))) = None \<and> s12_count s \<ge> s12_capacity s
     then (-1, Some s, snd (obsw_s1_accept_failure (Some tc) OBSW_S1_FAIL_EXEC_ERROR e))
     else (0, Some (s12_added s (the (tc_user_data tc))),
           snd (obsw_s1_completion_success (Some tc) (snd (obsw_s1_accept_success (Some tc) e)))))"
proof (cases "tc_user_data tc")
  case None
  then show ?thesis by (simp add: obsw_s12_add_def s12_add_ok_def)
next
  case (Some u)
  have bad: "(obsw_s20_find (s12_params s) (s12_param_count s) (obsw_be16 u) = None
      \<or> u ! 14 < 1 \<or> u ! 14 > 4
      \<or> (\<not> f32_is_nan (be_f32 (drop 2 u)) \<and> \<not> f32_is_nan (be_f32 (drop 6 u))
         \<and> f32_lt (be_f32 (drop 6 u)) (be_f32 (drop 2 u))))
    \<longleftrightarrow> \<not> (obsw_s20_find (s12_params s) (s12_param_count s) (obsw_be16 u) \<noteq> None
        \<and> 1 \<le> u ! 14 \<and> u ! 14 \<le> 4 \<and> \<not> f32_lt (be_f32 (drop 6 u)) (be_f32 (drop 2 u)))"
    using f32_lt_nan [of "be_f32 (drop 6 u)" "be_f32 (drop 2 u)"] by (auto simp: not_le)
  define g where "g \<longleftrightarrow> obsw_s20_find (s12_params s) (s12_param_count s) (obsw_be16 u) \<noteq> None
    \<and> 1 \<le> u ! 14 \<and> u ! 14 \<le> 4 \<and> \<not> f32_lt (be_f32 (drop 6 u)) (be_f32 (drop 2 u))"
  have "obsw_s12_add (Some tc) (Some s) e =
    (if tc_user_data_len tc < 15 \<or> \<not> g
     then (-1, Some s, snd (obsw_s1_accept_failure (Some tc) OBSW_S1_FAIL_ILLEGAL_APP_DATA e))
     else if s12_find_def s (obsw_be16 u) = None \<and> s12_count s \<ge> s12_capacity s
     then (-1, Some s, snd (obsw_s1_accept_failure (Some tc) OBSW_S1_FAIL_EXEC_ERROR e))
     else (0, Some (s12_added s u),
           snd (obsw_s1_completion_success (Some tc) (snd (obsw_s1_accept_success (Some tc) e)))))"
    unfolding obsw_s12_add_def Let_def option.case prod.case Some bad g_def [symmetric]
    by (simp add: s12_added_def s12_new_def_def split: option.split)
  moreover have "(\<exists>u. s12_add_ok s tc u) \<longleftrightarrow> \<not> (tc_user_data_len tc < 15 \<or> \<not> g)"
    unfolding s12_add_ok_def g_def Some by (simp only: option.inject) auto
  ultimately show ?thesis by (simp add: Some)
qed

lemma s12_added_wf [inv_intros]:
  assumes "s12_wf s" "s12_add_ok s tc u"
    and "s12_find_def s (obsw_be16 u) = None \<longrightarrow> s12_count s < s12_capacity s"
  shows "s12_wf (s12_added s u)"
proof -
  let ?d = "s12_new_def u"
  have id: "mon_param_id ?d = obsw_be16 u" by (simp add: s12_new_def_def)
  have new: "1 \<le> mon_severity ?d \<and> mon_severity ?d \<le> 4
      \<and> obsw_s20_find (s12_params s) (s12_param_count s) (mon_param_id ?d) \<noteq> None"
    using assms(2) by (simp add: s12_add_ok_def s12_new_def_def)
  have wf: "distinct (map mon_param_id (s12_used s))" using assms(1) by (simp add: s12_wf_def)
  show ?thesis
  proof (cases "s12_find_def s (obsw_be16 u)")
    case (Some i)
    have i: "i < length (s12_used s)" "mon_param_id (s12_used s ! i) = obsw_be16 u"
      using s12_table.lookup_Some [OF Some] by blast+
    have u: "s12_used (s12_added s u) = (s12_used s)[i := ?d]"
      using i(1) by (simp add: s12_added_def Some s12_used_def take_update_swap)
    have "map mon_param_id ((s12_used s)[i := ?d]) = map mon_param_id (s12_used s)"
      using i id by (intro nth_equalityI) (auto simp: nth_list_update)
    with assms(1) new wf show ?thesis
      unfolding s12_wf_def u by (auto simp: s12_added_def Some dest!: set_update_subset_insert [THEN subsetD])
  next
    case None
    with assms(3) have c: "s12_count s < s12_capacity s" by simp
    have l: "unat (s12_count s) < length (s12_defs s)"
      using assms(1) c by (simp add: s12_wf_def word_less_nat_alt)
    have n: "unat (s12_count s + 1) = unat (s12_count s) + 1"
      using c u8_less_256 [of "s12_capacity s"]
      by (intro unat_Suc_word) (simp add: word_less_nat_alt)
    have u: "s12_used (s12_added s u) = s12_used s @ [?d]"
      using l by (simp add: s12_added_def None s12_used_def n take_Suc_conv_app_nth)
    have "s12_count s + 1 \<le> s12_capacity s"
      using c n by (simp add: word_le_nat_alt word_less_nat_alt)
    moreover have "mon_param_id ?d \<notin> mon_param_id ` set (s12_used s)"
      using None id by (simp add: s12_table.lookup_None)
    ultimately show ?thesis
      using assms(1) new wf unfolding s12_wf_def u by (auto simp: s12_added_def None)
  qed
qed

lemma s12_used_unlatch:
  assumes "unat (s12_count s) \<le> length (s12_defs s)" "\<And>d. mon_param_id (f d) = mon_param_id d"
    "\<And>d. mon_severity (f d) = mon_severity d"
  shows "s12_used (s\<lparr>s12_defs := map f (s12_used s) @ r\<rparr>) = map f (s12_used s)"
    "map mon_param_id (map f ds) = map mon_param_id ds"
  using assms by (simp_all add: s12_used_def comp_def)

lemma s12_wf_map:
  assumes "s12_wf s" "\<And>d. mon_param_id (f d) = mon_param_id d" "\<And>d. mon_severity (f d) = mon_severity d"
    and "r = drop (unat (s12_count s)) (s12_defs s)"
  shows "s12_wf (s\<lparr>s12_defs := map f (s12_used s) @ r\<rparr>)"
proof -
  have l: "unat (s12_count s) \<le> length (s12_defs s)" using assms(1) by (rule s12_wf_count)
  have u: "s12_used (s\<lparr>s12_defs := map f (s12_used s) @ r\<rparr>) = map f (s12_used s)"
    using l by (simp add: s12_used_def)
  have d: "map (mon_param_id \<circ> f) (s12_used s) = map mon_param_id (s12_used s)" by (simp add: assms(2))
  show ?thesis
    using assms(1) l unfolding s12_wf_def u
    by (auto simp: d assms(2-4) length_s12_used [OF assms(1)])
qed

lemma s12_wf_flags [inv_intros]:
  "s12_wf s \<Longrightarrow> s12_wf (s\<lparr>s12_count := 0\<rparr>)" "s12_wf (s\<lparr>s12_enabled := b\<rparr>) = s12_wf s"
  by (simp_all add: s12_wf_def s12_used_def)

interpretation s12_add: s1_service obsw_s12_add s12_wf
proof unfold_locales
  fix e :: tm_env and tc s assume "tm_ok (env_store e)" "tc_wf tc" "s12_wf s"
  then show "handled s12_wf tc e s (obsw_s12_add (Some tc) (Some s) e)"
    by (auto simp: s12_add_cases not_le intro!: handledI s12_added_wf) (auto simp: s12_add_ok_def)
qed (auto simp: obsw_s12_add_def split: option.split)

interpretation s12_delete: s1_service obsw_s12_delete s12_wf
proof unfold_locales
  fix e :: tm_env and tc s assume "tm_ok (env_store e)" "s12_wf s"
  then show "handled s12_wf tc e s (obsw_s12_delete (Some tc) (Some s) e)"
    by (auto simp: obsw_s12_delete_def Let_def intro!: handledI s12_remove_wf
        dest: s12_table.lookup_Some split: option.split)
qed (auto simp: obsw_s12_delete_def split: option.split)

interpretation s12_delete_all: s1_service obsw_s12_delete_all s12_wf
  by unfold_locales (auto simp: obsw_s12_delete_all_def Let_def inv_intros intro!: handledI split: option.split)

interpretation s12_disable: s1_service obsw_s12_disable s12_wf
  by unfold_locales (auto simp: obsw_s12_disable_def Let_def inv_intros intro!: handledI split: option.split)

interpretation s12_enable: s1_service obsw_s12_enable s12_wf
proof unfold_locales
  fix e :: tm_env and tc s assume e: "tm_ok (env_store e)" and wf: "s12_wf s"
  have "s12_wf (s\<lparr>s12_defs := map s12_unlatch (s12_used s) @ drop (unat (s12_count s)) (s12_defs s)\<rparr>)"
    by (rule s12_wf_map [OF wf]) (simp_all add: s12_unlatch_def)
  then have "s12_wf ((s\<lparr>s12_defs := map s12_unlatch (s12_used s) @ drop (unat (s12_count s)) (s12_defs s)\<rparr>)
      \<lparr>s12_enabled := True\<rparr>)" by (simp only: s12_wf_flags(2))
  with e show "handled s12_wf tc e s (obsw_s12_enable (Some tc) (Some s) e)"
    by (auto simp: obsw_s12_enable_def Let_def s12_used_def intro!: handledI)
qed (auto simp: obsw_s12_enable_def split: option.split)

subsection \<open>Edges\<close>

text \<open>Whether a definition is out of limit under the parameter table \<open>t\<close>, and its value there.\<close>

definition mon_value :: "u8 \<Rightarrow> obsw_s20_param list \<Rightarrow> obsw_s12_def \<Rightarrow> f32" where
  "mon_value n t d = obsw_s20_as_float (the (obsw_s20_find (Some t) n (mon_param_id d)))"

definition out_low :: "u8 \<Rightarrow> obsw_s20_param list \<Rightarrow> obsw_s12_def \<Rightarrow> bool" where
  "out_low n t d \<longleftrightarrow> f32_lt (mon_value n t d) (mon_low d)"

definition out_high :: "u8 \<Rightarrow> obsw_s20_param list \<Rightarrow> obsw_s12_def \<Rightarrow> bool" where
  "out_high n t d \<longleftrightarrow> f32_lt (mon_high d) (mon_value n t d)"

text \<open>The events to report, in order, given what was out of limit before.\<close>

definition mon_events ::
  "u8 \<Rightarrow> obsw_s20_param list \<Rightarrow> (obsw_s12_def \<Rightarrow> bool) \<Rightarrow> (obsw_s12_def \<Rightarrow> bool) \<Rightarrow> obsw_s12_def
   \<Rightarrow> (u8 \<times> u16 \<times> f32) list" where
  "mon_events n t low high d =
    (if out_low n t d \<and> \<not> low d then [(mon_severity d, mon_event_low d, mon_value n t d)] else [])
    @ (if out_high n t d \<and> \<not> high d then [(mon_severity d, mon_event_high d, mon_value n t d)] else [])"

fun mon_edges ::
  "u8 \<Rightarrow> obsw_s12_def list \<Rightarrow> (obsw_s12_def \<Rightarrow> bool) \<Rightarrow> (obsw_s12_def \<Rightarrow> bool) \<Rightarrow> obsw_s20_param list list
   \<Rightarrow> (u8 \<times> u16 \<times> f32) list" where
  "mon_edges n ds low high [] = []"
| "mon_edges n ds low high (t # ts) =
    concat (map (mon_events n t low high) ds) @ mon_edges n ds (out_low n t) (out_high n t) ts"

text \<open>Reports handed to S5, one after the other.\<close>

definition s5_raise :: "(u8 \<times> u16 \<times> f32) list \<Rightarrow> ('h, 'v) s5_part \<Rightarrow> ('h, 'v) s5_part" where
  "s5_raise evs p =
    foldl (\<lambda>p (sev, ev, v). snd (obsw_s5_report (fst p) sev ev (Some (be_bytes32 v)) 4 (snd p))) p evs"

lemma s5_raise_append: "s5_raise (xs @ ys) p = s5_raise ys (s5_raise xs p)"
  by (simp add: s5_raise_def)

definition mon_latched :: "u8 \<Rightarrow> obsw_s20_param list \<Rightarrow> obsw_s12_def \<Rightarrow> obsw_s12_def" where
  "mon_latched n t d = d\<lparr>mon_in_low := out_low n t d, mon_in_high := out_high n t d\<rparr>"

lemma s12_check_def_spec:
  assumes "s12_params s = Some t" "obsw_s20_find (Some t) (s12_param_count s) (mon_param_id d) \<noteq> None"
  shows "s12_check_def s d p = (mon_latched (s12_param_count s) t d,
    s5_raise (mon_events (s12_param_count s) t mon_in_low mon_in_high d) p)"
proof -
  let ?n = "s12_param_count s"
  from assms(2) obtain prm where prm: "obsw_s20_find (Some t) ?n (mon_param_id d) = Some prm" by auto
  then have v: "obsw_s20_as_float prm = mon_value ?n t d" by (simp add: mon_value_def)
  have same: "d\<lparr>mon_in_low := True\<rparr> = d" if "mon_in_low d" using that by (cases d) simp
  have same': "d\<lparr>mon_in_high := True\<rparr> = d" if "mon_in_high d" for d :: obsw_s12_def
    using that by (cases d) simp
  show ?thesis
    unfolding s12_check_def_def assms(1) prm option.case Let_def v
    by (cases d; cases "out_low ?n t d"; cases "out_high ?n t d"; cases "mon_in_low d"; cases "mon_in_high d")
      (simp_all add: out_low_def out_high_def mon_latched_def mon_events_def s5_raise_def s12_report_def
        mon_value_def)
qed

lemma s12_check_defs_spec:
  assumes "s12_params s = Some t"
    and "\<forall>d \<in> set ds. obsw_s20_find (Some t) (s12_param_count s) (mon_param_id d) \<noteq> None"
  shows "s12_check_defs s ds p = (map (mon_latched (s12_param_count s) t) ds,
    s5_raise (concat (map (mon_events (s12_param_count s) t mon_in_low mon_in_high) ds)) p)"
  using assms(2)
proof (induction ds arbitrary: p)
  case Nil
  then show ?case by (simp add: s5_raise_def)
next
  case (Cons d ds)
  then show ?case by (simp add: s12_check_def_spec [OF assms(1)] s5_raise_append del: not_None_eq)
qed

lemma mon_edges_map:
  assumes "\<And>d. mon_param_id (f d) = mon_param_id d" "\<And>d. mon_low (f d) = mon_low d"
    "\<And>d. mon_high (f d) = mon_high d" "\<And>d. mon_event_low (f d) = mon_event_low d"
    "\<And>d. mon_event_high (f d) = mon_event_high d" "\<And>d. mon_severity (f d) = mon_severity d"
  shows "mon_edges n (map f ds) low high ts = mon_edges n ds (\<lambda>d. low (f d)) (\<lambda>d. high (f d)) ts"
proof (induction ts arbitrary: low high)
  case (Cons t ts)
  have v: "mon_value n t (f d) = mon_value n t d" for d by (simp add: mon_value_def assms)
  have o: "out_low n t (f d) = out_low n t d" "out_high n t (f d) = out_high n t d" for d
    by (simp_all add: out_low_def out_high_def v assms)
  have e: "mon_events n t low high (f d) = mon_events n t (\<lambda>d. low (f d)) (\<lambda>d. high (f d)) d" for d
    by (simp add: mon_events_def o v assms)
  show ?case by (simp add: Cons.IH o e comp_def)
qed simp

text \<open>One call of the check per control tick, with the parameter table of that tick.\<close>

definition s12_ticks ::
  "obsw_s20_param list list \<Rightarrow> obsw_s12_ctx option \<times> ('h, 'v) s5_part \<Rightarrow> obsw_s12_ctx option \<times> ('h, 'v) s5_part" where
  "s12_ticks ts cp =
    foldl (\<lambda>(c, p) t. obsw_s12_check (map_option (\<lambda>s. s\<lparr>s12_params := Some t\<rparr>) c) p) cp ts"

subsection \<open>Properties\<close>

text \<open>
  C37: A limit violation is reported when it begins and not again while it stands.  Over any
  sequence of control ticks with monitoring enabled, whatever the parameter values do, the S5
  events raised are exactly the transitions into an out-of-limit state: for each definition
  in table order, the low event when the value is below the limit and was not at the previous
  tick (or was not latched before the first), then the high event in the same way, each with
  the definition's severity and the offending value.  The used definitions change in their
  latches only, which hold the last tick's state.
\<close>

theorem s12_reports_edges:
  assumes "s12_enabled s" and "unat (s12_count s) \<le> length (s12_defs s)"
    and "\<forall>t \<in> set ts. \<forall>d \<in> set (s12_used s). obsw_s20_find (Some t) (s12_param_count s) (mon_param_id d) \<noteq> None"
  shows "\<exists>s'. s12_ticks ts (Some s, p)
      = (Some s', s5_raise (mon_edges (s12_param_count s) (s12_used s) mon_in_low mon_in_high ts) p)
    \<and> s12_used s' = (if ts = [] then s12_used s
         else map (mon_latched (s12_param_count s) (last ts)) (s12_used s))"
  using assms
proof (induction ts arbitrary: s p)
  case Nil
  then show ?case by (simp add: s12_ticks_def s5_raise_def)
next
  case (Cons t ts)
  let ?n = "s12_param_count s" and ?k = "unat (s12_count s)"
  let ?p = "s5_raise (concat (map (mon_events ?n t mon_in_low mon_in_high) (s12_used s))) p"
  define s1 where "s1 = s\<lparr>s12_params := Some t,
    s12_defs := map (mon_latched ?n t) (s12_used s) @ drop ?k (s12_defs s)\<rparr>"
  have "s12_check_defs (s\<lparr>s12_params := Some t\<rparr>) (s12_used s) p = (map (mon_latched ?n t) (s12_used s), ?p)"
    using s12_check_defs_spec [of "s\<lparr>s12_params := Some t\<rparr>" t "s12_used s" p] Cons.prems(3) by simp
  then have c: "obsw_s12_check (Some (s\<lparr>s12_params := Some t\<rparr>)) p = (Some s1, ?p)"
    using Cons.prems(1) by (simp add: obsw_s12_check_def s12_used_def Let_def s1_def)
  have u: "s12_used s1 = map (mon_latched ?n t) (s12_used s)"
    using Cons.prems(2) by (simp add: s12_used_def s1_def)
  have id: "mon_param_id (mon_latched ?n t d) = mon_param_id d" for d by (simp add: mon_latched_def)
  have n: "s12_param_count s1 = ?n" "s12_count s1 = s12_count s" by (simp_all add: s1_def)
  have pre: "s12_enabled s1" "unat (s12_count s1) \<le> length (s12_defs s1)"
    "\<forall>t \<in> set ts. \<forall>d \<in> set (s12_used s1). obsw_s20_find (Some t) (s12_param_count s1) (mon_param_id d) \<noteq> None"
    using Cons.prems unfolding u n by (auto simp: s1_def id s12_used_def)
  obtain s' where s': "s12_ticks ts (Some s1, ?p)
      = (Some s', s5_raise (mon_edges ?n (s12_used s1) mon_in_low mon_in_high ts) ?p)"
    "s12_used s' = (if ts = [] then s12_used s1 else map (mon_latched ?n (last ts)) (s12_used s1))"
    using Cons.IH [OF pre, of ?p] unfolding n by blast
  have e: "mon_edges ?n (s12_used s1) mon_in_low mon_in_high ts
      = mon_edges ?n (s12_used s) (out_low ?n t) (out_high ?n t) ts"
    unfolding u by (subst mon_edges_map) (simp_all add: mon_latched_def)
  have l: "mon_latched ?n t' (mon_latched ?n t d) = mon_latched ?n t' d" for t' d
    by (simp add: mon_latched_def out_low_def out_high_def mon_value_def)
  have "s12_ticks (t # ts) (Some s, p) = s12_ticks ts (Some s1, ?p)" by (simp add: s12_ticks_def c)
  then show ?case
    using s' by (intro exI [of _ s']) (auto simp: e [unfolded u] u l s5_raise_append)
qed

lemma s12_reports_edges_witness:
  "\<forall>p. \<exists>s'. s12_ticks [[\<lparr>s20_param_id = 9, s20_value = 0xFFFFFFFF, s20_type = OBSW_S20_I32\<rparr>],
                    [\<lparr>s20_param_id = 9, s20_value = 0xFFFFFFFE, s20_type = OBSW_S20_I32\<rparr>],
                    [\<lparr>s20_param_id = 9, s20_value = 3, s20_type = OBSW_S20_I32\<rparr>]]
      (Some \<lparr>s12_params = None, s12_param_count = 1,
        s12_defs = [\<lparr>mon_param_id = 9, mon_low = 0, mon_high = 0x3F800000, mon_event_low = 70,
          mon_event_high = 71, mon_severity = 2, mon_in_low = False, mon_in_high = False\<rparr>],
        s12_capacity = 1, s12_count = 1, s12_enabled = True\<rparr>, p)
    = (Some s', s5_raise [(2, 70, 0xBF800000), (2, 71, 0x40400000)] p)" (is "\<forall>p. ?P p")
proof
  fix p :: "('b, 'a) s5_part"
  define d where "d = \<lparr>mon_param_id = 9, mon_low = 0, mon_high = 0x3F800000, mon_event_low = 70,
    mon_event_high = 71, mon_severity = 2, mon_in_low = False, mon_in_high = False\<rparr>"
  define s where "s = \<lparr>s12_params = None, s12_param_count = 1, s12_defs = [d],
    s12_capacity = 1, s12_count = 1, s12_enabled = True\<rparr>"
  define t where "t = (\<lambda>v. [\<lparr>s20_param_id = 9, s20_value = v, s20_type = OBSW_S20_I32\<rparr>])"
  have u: "s12_used s = [d]" by (simp add: s12_used_def s_def)
  have f: "obsw_s20_find (Some (t v)) 1 (mon_param_id d)
      = Some \<lparr>s20_param_id = 9, s20_value = v, s20_type = OBSW_S20_I32\<rparr>" for v
    by (simp add: obsw_s20_find_def t_def d_def)
  have bl: "bit_length 0 = 0" "bit_length (Suc 0) = 1" "bit_length 2 = 2" "bit_length 3 = 2"
    by (simp_all add: bit_length.simps)
  have v: "mon_value 1 (t 0xFFFFFFFF) d = 0xBF800000" "mon_value 1 (t 0xFFFFFFFE) d = 0xC0000000"
    "mon_value 1 (t 3) d = 0x40400000"
    by (simp_all add: mon_value_def f obsw_s20_as_float_def f32_of_i32_def f32_of_nat_def bl Let_def)
  have k: "f32_key 0xBF800000 = -0x3F800000" "f32_key 0xC0000000 = -0x40000000" "f32_key 0 = 0"
    "f32_key 0x40400000 = 0x40400000" "f32_key 0x3F800000 = 0x3F800000"
    by (simp_all add: f32_key_def f32_neg_def f32_mag_def)
  have nn: "\<not> f32_is_nan 0xBF800000" "\<not> f32_is_nan 0xC0000000" "\<not> f32_is_nan 0" "\<not> f32_is_nan 0x40400000"
    "\<not> f32_is_nan 0x3F800000"
    by (simp_all add: f32_is_nan_def f32_mag_def)
  have lim: "mon_low d = 0" "mon_high d = 0x3F800000" "\<not> mon_in_low d" "\<not> mon_in_high d"
    "mon_severity d = 2" "mon_event_low d = 70" "mon_event_high d = 71" by (simp_all add: d_def)
  have edges: "mon_edges 1 [d] mon_in_low mon_in_high [t 0xFFFFFFFF, t 0xFFFFFFFE, t 3]
      = [(2, 70, 0xBF800000), (2, 71, 0x40400000)]"
    by (simp add: mon_events_def out_low_def out_high_def v f32_lt_def nn k lim)
  have pre: "s12_enabled s" "unat (s12_count s) \<le> length (s12_defs s)" "s12_param_count s = 1"
    by (simp_all add: s_def)
  from s12_reports_edges [OF pre(1,2), of "[t 0xFFFFFFFF, t 0xFFFFFFFE, t 3]" p]
  show "?P p"
    unfolding pre(3) u edges by (auto simp: f) (auto simp: s_def d_def t_def)
qed

end
