(* ===== verification/Pus_S19.thy ===== *)
theory Pus_S19
  imports Pus_S1 Stored_Tc
begin

section \<open>Service 19, event-action\<close>

text \<open>
  \<^verbatim>\<open>src/pus/s19.c\<close>: the table of event definitions with its handlers, the hook that queues
  the actions of reported events, and the run that feeds them to the dispatcher.  As in
  S11, the context is a part of the world the dispatched handlers act on; an action may
  raise events, which change the queue while the run is under way.

  The lemmas show that the table is a map from events to packets, that the queue is a
  bounded one that counts what it loses, and which packets a run feeds, in which order.
\<close>

abbreviation (input) OBSW_S19_QUEUE_LEN :: u8 where "OBSW_S19_QUEUE_LEN \<equiv> 4"

record obsw_s19_def =
  def_event_id :: u16
  def_action_len :: u16
  def_action :: "u8 list"

record obsw_s19_ctx =
  s19_defs :: "obsw_s19_def list"
  s19_capacity :: u8
  s19_count :: u8
  s19_enabled :: bool
  s19_queue :: "u16 list"
  s19_queued :: u8
  s19_dropped :: u16

definition s19_find_def :: "obsw_s19_ctx \<Rightarrow> u16 \<Rightarrow> nat option" where
  "s19_find_def s event_id =
    find_index (\<lambda>d. def_event_id d = event_id) (take (unat (s19_count s)) (s19_defs s))"

definition s19_action_valid :: "u8 list \<Rightarrow> u16 \<Rightarrow> bool" where
  "s19_action_valid pkt len \<longleftrightarrow> stored_tc 19 pkt len"

definition obsw_s19_init ::
  "obsw_s19_ctx option \<Rightarrow> obsw_s19_def list option \<Rightarrow> u8 \<Rightarrow> obsw_s19_ctx option" where
  "obsw_s19_init ctx defs capacity =
    (case ctx of None \<Rightarrow> None
     | Some _ \<Rightarrow> Some
         \<lparr>s19_defs = (case defs of Some d \<Rightarrow> d | None \<Rightarrow> []),
          s19_capacity = (if defs \<noteq> None then capacity else 0), s19_count = 0, s19_enabled = True,
          s19_queue = replicate 4 0, s19_queued = 0, s19_dropped = 0\<rparr>)"

definition s19_remove_at :: "obsw_s19_ctx \<Rightarrow> nat \<Rightarrow> obsw_s19_ctx" where
  "s19_remove_at s i =
    (let c = s19_count s - 1
     in s\<lparr>s19_count := c, s19_defs := swap_remove (s19_defs s) i (unat c)\<rparr>)"

subsection \<open>Handlers\<close>

definition obsw_s19_add ::
  "obsw_tc option \<Rightarrow> obsw_s19_ctx option \<Rightarrow> tm_env \<Rightarrow> int \<times> obsw_s19_ctx option \<times> tm_env" where
  "obsw_s19_add tc ctx e =
    (case (ctx, tc) of
       (Some s, Some t) \<Rightarrow>
         let u = (case tc_user_data t of Some u \<Rightarrow> u | None \<Rightarrow> []);
             len = tc_user_data_len t - 2
         in if tc_user_data t = None \<or> tc_user_data_len t < 2 \<or> \<not> s19_action_valid (drop 2 u) len
            then (-1, ctx, snd (obsw_s1_accept_failure tc OBSW_S1_FAIL_ILLEGAL_APP_DATA e))
            else
              let event_id = obsw_be16 u; d = s19_find_def s event_id in
              if d = None \<and> s19_count s \<ge> s19_capacity s
              then (-1, ctx, snd (obsw_s1_accept_failure tc OBSW_S1_FAIL_EXEC_ERROR e))
              else
                let e1 = snd (obsw_s1_accept_success tc e);
                    (i, s1) = (case d of Some i \<Rightarrow> (i, s)
                               | None \<Rightarrow> (unat (s19_count s), s\<lparr>s19_count := s19_count s + 1\<rparr>));
                    new = \<lparr>def_event_id = event_id, def_action_len = len,
                           def_action = memcpy_at (def_action (s19_defs s1 ! i)) 0 (drop 2 u) (unat len)\<rparr>
                in (0, Some (s1\<lparr>s19_defs := (s19_defs s1)[i := new]\<rparr>),
                    snd (obsw_s1_completion_success tc e1))
     | _ \<Rightarrow> (-1, ctx, e))"

definition obsw_s19_delete ::
  "obsw_tc option \<Rightarrow> obsw_s19_ctx option \<Rightarrow> tm_env \<Rightarrow> int \<times> obsw_s19_ctx option \<times> tm_env" where
  "obsw_s19_delete tc ctx e =
    (case (ctx, tc) of
       (Some s, Some t) \<Rightarrow>
         (case (case tc_user_data t of
                  Some u \<Rightarrow> if tc_user_data_len t \<ge> 2 then s19_find_def s (obsw_be16 u) else None
                | None \<Rightarrow> None) of
            None \<Rightarrow> (-1, ctx, snd (obsw_s1_accept_failure tc OBSW_S1_FAIL_ILLEGAL_APP_DATA e))
          | Some i \<Rightarrow>
              let e1 = snd (obsw_s1_accept_success tc e)
              in (0, Some (s19_remove_at s i), snd (obsw_s1_completion_success tc e1)))
     | _ \<Rightarrow> (-1, ctx, e))"

definition obsw_s19_delete_all ::
  "obsw_tc option \<Rightarrow> obsw_s19_ctx option \<Rightarrow> tm_env \<Rightarrow> int \<times> obsw_s19_ctx option \<times> tm_env" where
  "obsw_s19_delete_all tc ctx e =
    (case (ctx, tc) of
       (Some s, Some t) \<Rightarrow>
         let e1 = snd (obsw_s1_accept_success tc e)
         in (0, Some (s\<lparr>s19_count := 0\<rparr>), snd (obsw_s1_completion_success tc e1))
     | _ \<Rightarrow> (-1, ctx, e))"

definition obsw_s19_enable ::
  "obsw_tc option \<Rightarrow> obsw_s19_ctx option \<Rightarrow> tm_env \<Rightarrow> int \<times> obsw_s19_ctx option \<times> tm_env" where
  "obsw_s19_enable tc ctx e =
    (case (ctx, tc) of
       (Some s, Some t) \<Rightarrow>
         let e1 = snd (obsw_s1_accept_success tc e)
         in (0, Some (s\<lparr>s19_enabled := True\<rparr>), snd (obsw_s1_completion_success tc e1))
     | _ \<Rightarrow> (-1, ctx, e))"

definition obsw_s19_disable ::
  "obsw_tc option \<Rightarrow> obsw_s19_ctx option \<Rightarrow> tm_env \<Rightarrow> int \<times> obsw_s19_ctx option \<times> tm_env" where
  "obsw_s19_disable tc ctx e =
    (case (ctx, tc) of
       (Some s, Some t) \<Rightarrow>
         let e1 = snd (obsw_s1_accept_success tc e)
         in (0, Some (s\<lparr>s19_enabled := False, s19_queued := 0\<rparr>),
             snd (obsw_s1_completion_success tc e1))
     | _ \<Rightarrow> (-1, ctx, e))"

subsection \<open>Event hook and dispatch\<close>

definition obsw_s19_on_event :: "u16 \<Rightarrow> obsw_s19_ctx option \<Rightarrow> obsw_s19_ctx option" where
  "obsw_s19_on_event event_id ctx =
    (case ctx of None \<Rightarrow> None
     | Some s \<Rightarrow>
         if \<not> s19_enabled s \<or> s19_find_def s event_id = None then ctx
         else if s19_queued s \<ge> OBSW_S19_QUEUE_LEN then Some (s\<lparr>s19_dropped := s19_dropped s + 1\<rparr>)
         else Some (s\<lparr>s19_queue := (s19_queue s)[unat (s19_queued s) := event_id],
                      s19_queued := s19_queued s + 1\<rparr>))"

fun s19_run_batch ::
  "u16 list \<Rightarrow> ('w \<Rightarrow> obsw_s19_ctx) \<Rightarrow> 'w obsw_tc_dispatcher \<Rightarrow> u8 \<Rightarrow> 'w \<Rightarrow> u8 \<times> 'w" where
  "s19_run_batch [] get d run w = (run, w)"
| "s19_run_batch (ev # evs) get d run w =
    (case s19_find_def (get w) ev of
       None \<Rightarrow> s19_run_batch evs get d run w
     | Some i \<Rightarrow>
         let de = s19_defs (get w) ! i;
             w' = snd (obsw_tc_dispatcher_feed (Some d) (Some (def_action de))
                         (ucast (def_action_len de) :: u64) w)
         in s19_run_batch evs get d (run + 1) w')"

definition obsw_s19_run ::
  "(('w \<Rightarrow> obsw_s19_ctx) \<times> (obsw_s19_ctx \<Rightarrow> 'w \<Rightarrow> 'w)) option \<Rightarrow> 'w obsw_tc_dispatcher option \<Rightarrow> 'w
   \<Rightarrow> u8 \<times> 'w" where
  "obsw_s19_run ctx dispatcher w =
    (case (ctx, dispatcher) of
       (Some (get, put), Some d) \<Rightarrow>
         let s = get w; n = s19_queued s; batch = take (unat n) (s19_queue s)
         in s19_run_batch batch get d 0 (put (s\<lparr>s19_queued := 0\<rparr>) w)
     | _ \<Rightarrow> (0, w))"

subsection \<open>The table\<close>

definition s19_used :: "obsw_s19_ctx \<Rightarrow> obsw_s19_def list" where
  "s19_used s = take (unat (s19_count s)) (s19_defs s)"

definition s19_pending :: "obsw_s19_ctx \<Rightarrow> u16 list" where
  "s19_pending s = take (unat (s19_queued s)) (s19_queue s)"

definition def_wf :: "obsw_s19_def \<Rightarrow> bool" where
  "def_wf d \<longleftrightarrow> stored_tc 19 (def_action d) (def_action_len d)"

definition s19_wf :: "obsw_s19_ctx \<Rightarrow> bool" where
  "s19_wf s \<longleftrightarrow> s19_count s \<le> s19_capacity s \<and> unat (s19_capacity s) \<le> length (s19_defs s)
    \<and> (\<forall>d \<in> set (s19_defs s). length (def_action d) = 64)
    \<and> distinct (map def_event_id (s19_used s)) \<and> (\<forall>d \<in> set (s19_used s). def_wf d)
    \<and> length (s19_queue s) = 4 \<and> s19_queued s \<le> 4"

lemma s19_wf_count: "s19_wf s \<Longrightarrow> unat (s19_count s) \<le> length (s19_defs s)"
  by (auto simp: s19_wf_def word_le_nat_alt)

lemma length_s19_used: "s19_wf s \<Longrightarrow> length (s19_used s) = unat (s19_count s)"
  using s19_wf_count [of s] by (simp add: s19_used_def)

lemma s19_used_nth: "i < length (s19_used s) \<Longrightarrow> s19_used s ! i = s19_defs s ! i"
  by (simp add: s19_used_def)

lemma s19_remove_at_frame [frame_simps]:
  "s19_capacity (s19_remove_at s i) = s19_capacity s" "s19_enabled (s19_remove_at s i) = s19_enabled s"
  "s19_queue (s19_remove_at s i) = s19_queue s" "s19_queued (s19_remove_at s i) = s19_queued s"
  "length (s19_defs (s19_remove_at s i)) = length (s19_defs s)"
  by (simp_all add: s19_remove_at_def Let_def)

lemma s19_remove_count:
  assumes "i < length (s19_used s)"
  shows "unat (s19_count s) = Suc (unat (s19_count (s19_remove_at s i)))"
proof -
  have "0 < unat (s19_count s)" using assms by (auto simp: s19_used_def)
  then have "s19_count s \<noteq> 0" by (auto simp: unat_gt_0)
  then show ?thesis using \<open>0 < unat (s19_count s)\<close>
    by (simp add: s19_remove_at_def unat_pred_word)
qed

lemma s19_remove_used:
  assumes "s19_wf s" "i < length (s19_used s)"
  shows "mset (s19_used (s19_remove_at s i)) = mset (s19_used s) - {# s19_used s ! i #}"
proof -
  let ?n = "unat (s19_count (s19_remove_at s i))"
  have n: "unat (s19_count s) = Suc ?n" using assms(2) by (rule s19_remove_count)
  have a: "s19_defs (s19_remove_at s i) = swap_remove (s19_defs s) i ?n"
    by (simp add: s19_remove_at_def Let_def)
  have "mset (take ?n (swap_remove (s19_defs s) i ?n))
      = mset (take (Suc ?n) (s19_defs s)) - {# s19_defs s ! i #}"
    using assms s19_wf_count [OF assms(1)] length_s19_used [OF assms(1)] n
    by (intro mset_swap_remove) simp_all
  then show ?thesis
    by (simp add: s19_used_def a n [symmetric] s19_used_nth [OF assms(2), unfolded s19_used_def])
qed

interpretation s19_table: keyed_table s19_used def_event_id s19_wf s19_find_def s19_remove_at
  by unfold_locales (simp_all add: s19_find_def_def s19_used_def s19_remove_used [unfolded s19_used_def])

lemma s19_remove_wf [inv_intros]:
  assumes "s19_wf s" "i < length (s19_used s)"
  shows "s19_wf (s19_remove_at s i)"
proof -
  have d: "distinct (map def_event_id (s19_used s))" using assms(1) by (simp add: s19_wf_def)
  have u: "set (s19_used (s19_remove_at s i)) \<subseteq> set (s19_used s)"
    using s19_table.remove_keys(3) [OF assms(1) d assms(2)] by blast
  have n: "unat (s19_count s) = Suc (unat (s19_count (s19_remove_at s i)))"
    using assms(2) by (rule s19_remove_count)
  have "set (s19_defs (s19_remove_at s i)) \<subseteq> set (s19_defs s)"
    using s19_wf_count [OF assms(1)] n
    by (auto simp: s19_remove_at_def swap_remove_def Let_def dest!: set_update_subset_insert [THEN subsetD])
  with u s19_table.remove_keys(1) [OF assms(1) d assms(2)] n assms(1)
  show ?thesis by (auto simp: s19_wf_def frame_simps word_le_nat_alt)
qed

subsection \<open>Command handlers\<close>

definition def_packet :: "obsw_s19_def \<Rightarrow> u8 list" where
  "def_packet d = take (unat (def_action_len d)) (def_action d)"

text \<open>The table as the ground sees it: the packet stored for each event.\<close>

definition s19_actions :: "obsw_s19_ctx \<Rightarrow> u16 \<rightharpoonup> u8 list" where
  "s19_actions s = table_map def_event_id def_packet (s19_used s)"

definition s19_add_ok :: "obsw_tc \<Rightarrow> u8 list \<Rightarrow> bool" where
  "s19_add_ok tc u \<longleftrightarrow> tc_user_data tc = Some u \<and> 2 \<le> tc_user_data_len tc
     \<and> stored_tc 19 (drop 2 u) (tc_user_data_len tc - 2)"

definition s19_new_def :: "obsw_s19_ctx \<Rightarrow> nat \<Rightarrow> obsw_tc \<Rightarrow> u8 list \<Rightarrow> obsw_s19_def" where
  "s19_new_def s i tc u =
    \<lparr>def_event_id = obsw_be16 u, def_action_len = tc_user_data_len tc - 2,
     def_action = memcpy_at (def_action (s19_defs s ! i)) 0 (drop 2 u) (unat (tc_user_data_len tc - 2))\<rparr>"

definition s19_added :: "obsw_s19_ctx \<Rightarrow> obsw_tc \<Rightarrow> u8 list \<Rightarrow> obsw_s19_ctx" where
  "s19_added s tc u =
    (case s19_find_def s (obsw_be16 u) of
       Some i \<Rightarrow> s\<lparr>s19_defs := (s19_defs s)[i := s19_new_def s i tc u]\<rparr>
     | None \<Rightarrow> let k = unat (s19_count s) in
         s\<lparr>s19_count := s19_count s + 1, s19_defs := (s19_defs s)[k := s19_new_def s k tc u]\<rparr>)"

lemma s19_add_cases:
  "obsw_s19_add (Some tc) (Some s) e =
    (if \<not> (\<exists>u. s19_add_ok tc u)
     then (-1, Some s, snd (obsw_s1_accept_failure (Some tc) OBSW_S1_FAIL_ILLEGAL_APP_DATA e))
     else if s19_find_def s (obsw_be16 (the (tc_user_data tc))) = None \<and> s19_count s \<ge> s19_capacity s
     then (-1, Some s, snd (obsw_s1_accept_failure (Some tc) OBSW_S1_FAIL_EXEC_ERROR e))
     else (0, Some (s19_added s tc (the (tc_user_data tc))),
           snd (obsw_s1_completion_success (Some tc) (snd (obsw_s1_accept_success (Some tc) e)))))"
  by (cases "tc_user_data tc")
    (auto simp: obsw_s19_add_def s19_add_ok_def s19_action_valid_def s19_new_def_def s19_added_def
      Let_def not_less not_le split: option.split)

lemma s19_new_def_wf:
  assumes "s19_wf s" "tc_wf tc" "s19_add_ok tc u" "i < length (s19_defs s)"
  shows "def_wf (s19_new_def s i tc u)" "length (def_action (s19_new_def s i tc u)) = 64"
    "def_packet (s19_new_def s i tc u) = take (unat (tc_user_data_len tc - 2)) (drop 2 u)"
proof -
  let ?n = "tc_user_data_len tc - 2" and ?d = "s19_new_def s i tc u"
  have n: "unat ?n = unat (tc_user_data_len tc) - 2"
    using assms(3) by (intro unat_sub_literal) (simp_all add: s19_add_ok_def word_le_nat_alt)
  have l: "unat ?n \<le> length (drop 2 u)"
    using assms(2,3) n by (simp add: tc_wf_def s19_add_ok_def diff_le_mono)
  have st: "stored_tc 19 (drop 2 u) ?n" using assms(3) by (simp add: s19_add_ok_def)
  have o: "length (def_action (s19_defs s ! i)) = 64" using assms(1,4) by (simp add: s19_wf_def)
  show len: "length (def_action ?d) = 64"
    using o l stored_tc_len [OF st] by (simp add: s19_new_def_def)
  show p: "def_packet ?d = take (unat ?n) (drop 2 u)"
    using stored_tc_memcpy(1) [OF st l] by (simp add: def_packet_def s19_new_def_def)
  have k: "def_action_len ?d = ?n" by (simp add: s19_new_def_def)
  have "stored_tc 19 (take (unat ?n) (def_action ?d)) ?n"
    using p stored_tc_take [OF st l] by (simp add: def_packet_def k)
  moreover have "unat ?n \<le> length (def_action ?d)" using stored_tc_len [OF st] len by simp
  ultimately show "def_wf ?d" unfolding def_wf_def k by (rule stored_tc_untake)
qed

lemma s19_added_used:
  assumes "s19_wf s" "s19_find_def s (obsw_be16 u) = None \<longrightarrow> s19_count s < s19_capacity s"
  shows "case s19_find_def s (obsw_be16 u) of
      Some i \<Rightarrow> i < length (s19_used s) \<and> i < length (s19_defs s)
        \<and> s19_used (s19_added s tc u) = (s19_used s)[i := s19_new_def s i tc u]
        \<and> s19_count (s19_added s tc u) = s19_count s
    | None \<Rightarrow> unat (s19_count s) < length (s19_defs s)
        \<and> s19_used (s19_added s tc u) = s19_used s @ [s19_new_def s (unat (s19_count s)) tc u]
        \<and> s19_count (s19_added s tc u) \<le> s19_capacity s"
proof (cases "s19_find_def s (obsw_be16 u)")
  case (Some i)
  then have "i < length (s19_used s)" by (auto dest: s19_table.lookup_Some)
  with Some show ?thesis by (simp add: s19_added_def s19_used_def take_update_swap)
next
  case None
  with assms(2) have c: "s19_count s < s19_capacity s" by simp
  have l: "unat (s19_count s) < length (s19_defs s)"
    using assms(1) c by (simp add: s19_wf_def word_less_nat_alt)
  have n: "unat (s19_count s + 1) = unat (s19_count s) + 1"
    using c u8_less_256 [of "s19_capacity s"]
    by (intro unat_Suc_word) (simp add: word_less_nat_alt)
  show ?thesis
    using None l n c
    by (simp add: s19_added_def s19_used_def Let_def take_Suc_conv_app_nth word_le_nat_alt word_less_nat_alt)
qed

lemma s19_added_wf [inv_intros]:
  assumes "s19_wf s" "tc_wf tc" "s19_add_ok tc u"
    and "s19_find_def s (obsw_be16 u) = None \<longrightarrow> s19_count s < s19_capacity s"
  shows "s19_wf (s19_added s tc u)"
    and "s19_actions (s19_added s tc u)
      = (s19_actions s)(obsw_be16 u \<mapsto> take (unat (tc_user_data_len tc - 2)) (drop 2 u))"
proof -
  note used = s19_added_used [OF assms(1,4), of tc]
  have d: "distinct (map def_event_id (s19_used s))" using assms(1) by (simp add: s19_wf_def)
  have ev: "def_event_id (s19_new_def s i tc u) = obsw_be16 u" for i by (simp add: s19_new_def_def)
  have acts: "length (def_action a) = 64"
    if "a \<in> set ((s19_defs s)[i := s19_new_def s i tc u])" "i < length (s19_defs s)" for a i
    using that s19_new_def_wf(2) [OF assms(1-3)] assms(1)
    by (auto simp: s19_wf_def dest!: set_update_subset_insert [THEN subsetD])
  have "s19_wf (s19_added s tc u) \<and> s19_actions (s19_added s tc u)
      = (s19_actions s)(obsw_be16 u \<mapsto> take (unat (tc_user_data_len tc - 2)) (drop 2 u))"
  proof (cases "s19_find_def s (obsw_be16 u)")
    case (Some i)
    let ?d = "s19_new_def s i tc u"
    have i: "i < length (s19_used s)" "i < length (s19_defs s)" "s19_count (s19_added s tc u) = s19_count s"
      and u: "s19_used (s19_added s tc u) = (s19_used s)[i := ?d]" using used Some by simp_all
    note w = s19_new_def_wf [OF assms(1-3) i(2)]
    have k: "def_event_id ?d = def_event_id (s19_used s ! i)"
      using s19_table.lookup_Some [OF Some] ev by simp
    have "map def_event_id ((s19_used s)[i := ?d]) = map def_event_id (s19_used s)"
      using k i(1) by (intro nth_equalityI) (auto simp: nth_list_update)
    moreover have "\<forall>a \<in> set ((s19_used s)[i := ?d]). def_wf a"
      using w(1) assms(1) by (auto simp: s19_wf_def dest!: set_update_subset_insert [THEN subsetD])
    ultimately have "s19_wf (s19_added s tc u)"
      using assms(1) i(3) acts [OF _ i(2)] d unfolding s19_wf_def u by (auto simp: s19_added_def Some)
    moreover have "s19_actions (s19_added s tc u) = (s19_actions s)(obsw_be16 u \<mapsto> def_packet ?d)"
      using table_map_update [of def_event_id, OF d i(1) k] by (simp add: s19_actions_def u ev)
    ultimately show ?thesis using w(3) by simp
  next
    case None
    let ?k = "unat (s19_count s)"
    let ?d = "s19_new_def s ?k tc u"
    have i: "?k < length (s19_defs s)" "s19_count (s19_added s tc u) \<le> s19_capacity s"
      and u: "s19_used (s19_added s tc u) = s19_used s @ [?d]" using used None by simp_all
    note w = s19_new_def_wf [OF assms(1-3) i(1)]
    have k: "def_event_id ?d \<notin> def_event_id ` set (s19_used s)"
      using None ev by (simp add: s19_table.lookup_None)
    have "s19_wf (s19_added s tc u)"
      using assms(1) i(2) acts [OF _ i(1)] d k w(1) unfolding s19_wf_def u
      by (auto simp: s19_added_def None Let_def)
    moreover have "s19_actions (s19_added s tc u) = (s19_actions s)(obsw_be16 u \<mapsto> def_packet ?d)"
      using table_map_append [of def_event_id, OF k] by (simp add: s19_actions_def u ev)
    ultimately show ?thesis using w(3) by simp
  qed
  then show "s19_wf (s19_added s tc u)" "s19_actions (s19_added s tc u)
      = (s19_actions s)(obsw_be16 u \<mapsto> take (unat (tc_user_data_len tc - 2)) (drop 2 u))" by simp_all
qed

lemma s19_wf_flags [inv_intros]:
  "s19_wf s \<Longrightarrow> s19_wf (s\<lparr>s19_count := 0\<rparr>)" "s19_wf (s\<lparr>s19_enabled := b\<rparr>) = s19_wf s"
  "s19_wf s \<Longrightarrow> s19_wf (s\<lparr>s19_queued := 0\<rparr>)"
  by (simp_all add: s19_wf_def s19_used_def)

interpretation s19_add: s1_service obsw_s19_add s19_wf
proof unfold_locales
  fix e :: tm_env and tc s assume "tm_ok (env_store e)" "tc_wf tc" "s19_wf s"
  then show "handled s19_wf tc e s (obsw_s19_add (Some tc) (Some s) e)"
    by (auto simp: s19_add_cases s19_add_ok_def not_le intro!: handledI s19_added_wf(1))
qed (auto simp: obsw_s19_add_def split: option.split)

interpretation s19_delete: s1_service obsw_s19_delete s19_wf
proof unfold_locales
  fix e :: tm_env and tc s assume "tm_ok (env_store e)" "s19_wf s"
  then show "handled s19_wf tc e s (obsw_s19_delete (Some tc) (Some s) e)"
    by (auto simp: obsw_s19_delete_def Let_def intro!: handledI s19_remove_wf
        dest: s19_table.lookup_Some split: option.split)
qed (auto simp: obsw_s19_delete_def split: option.split)

interpretation s19_delete_all: s1_service obsw_s19_delete_all s19_wf
  by unfold_locales (auto simp: obsw_s19_delete_all_def Let_def inv_intros intro!: handledI split: option.split)

interpretation s19_enable: s1_service obsw_s19_enable s19_wf
  by unfold_locales (auto simp: obsw_s19_enable_def Let_def inv_intros intro!: handledI split: option.split)

interpretation s19_disable: s1_service obsw_s19_disable s19_wf
proof unfold_locales
  fix e :: tm_env and tc s assume e: "tm_ok (env_store e)" and "s19_wf s"
  then have "s19_wf (s\<lparr>s19_enabled := False, s19_queued := 0\<rparr>)"
    by (simp add: s19_wf_def s19_used_def)
  with e show "handled s19_wf tc e s (obsw_s19_disable (Some tc) (Some s) e)"
    by (auto simp: obsw_s19_disable_def Let_def intro!: handledI)
qed (auto simp: obsw_s19_disable_def split: option.split)

subsection \<open>Queue and run\<close>

lemma s19_actions_find: "s19_actions s ev = None \<longleftrightarrow> s19_find_def s ev = None"
  by (simp add: s19_actions_def table_map_None_iff s19_table.lookup_None)

text \<open>The part of the context that events do not change.\<close>

definition s19_static :: "obsw_s19_ctx \<Rightarrow> obsw_s19_def list \<times> u8 \<times> u8 \<times> bool" where
  "s19_static s = (s19_defs s, s19_capacity s, s19_count s, s19_enabled s)"

lemma s19_static_eq:
  assumes "s19_static s' = s19_static s"
  shows "s19_used s' = s19_used s" "s19_find_def s' ev = s19_find_def s ev" "s19_actions s' = s19_actions s"
    "s19_defs s' = s19_defs s" "s19_enabled s' = s19_enabled s"
  using assms by (simp_all add: s19_static_def s19_used_def s19_find_def_def s19_actions_def)

lemma s19_on_event_effect:
  assumes "s19_wf s"
  obtains s' where "obsw_s19_on_event ev (Some s) = Some s'" "s19_wf s'" "s19_static s' = s19_static s"
    "s19_pending s' = (if s19_enabled s \<and> s19_actions s ev \<noteq> None then take 4 (s19_pending s @ [ev])
       else s19_pending s)"
    "s19_dropped s' = (if s19_enabled s \<and> s19_actions s ev \<noteq> None \<and> length (s19_pending s) = 4
       then s19_dropped s + 1 else s19_dropped s)"
proof -
  have q: "length (s19_queue s) = 4" "unat (s19_queued s) \<le> 4"
    using assms by (simp_all add: s19_wf_def word_le_nat_alt)
  then have l: "length (s19_pending s) = unat (s19_queued s)" by (simp add: s19_pending_def)
  consider (skip) "\<not> (s19_enabled s \<and> s19_actions s ev \<noteq> None)"
    | (full) "s19_enabled s" "s19_actions s ev \<noteq> None" "unat (s19_queued s) = 4"
    | (room) "s19_enabled s" "s19_actions s ev \<noteq> None" "unat (s19_queued s) < 4"
    using q(2) by linarith
  then show thesis
  proof cases
    case skip
    then have "obsw_s19_on_event ev (Some s) = Some s"
      by (auto simp: obsw_s19_on_event_def s19_actions_find)
    then show thesis using skip assms by (intro that) auto
  next
    case full
    obtain y where y: "s19_actions s ev = Some y" using full(2) by blast
    then have f: "s19_find_def s ev \<noteq> None" using s19_actions_find [of s ev] by simp
    let ?t = "s\<lparr>s19_dropped := s19_dropped s + 1\<rparr>"
    have "obsw_s19_on_event ev (Some s) = Some ?t"
      using full(1,3) f by (auto simp: obsw_s19_on_event_def word_le_nat_alt)
    then show thesis
    proof (rule that)
      show "s19_wf ?t" using assms by (simp add: s19_wf_def s19_used_def)
    qed (use full(1,3) y l q(1) in \<open>simp_all add: s19_static_def s19_pending_def\<close>)
  next
    case room
    have f: "s19_find_def s ev \<noteq> None" using room(2) by (simp only: s19_actions_find simp_thms)
    have n: "unat (s19_queued s + 1) = unat (s19_queued s) + 1"
      using room(3) by (intro unat_Suc_word) simp
    let ?s = "s\<lparr>s19_queue := (s19_queue s)[unat (s19_queued s) := ev], s19_queued := s19_queued s + 1\<rparr>"
    have p: "s19_pending ?s = s19_pending s @ [ev]"
      using room(3) q(1) by (simp add: s19_pending_def n take_Suc_conv_app_nth)
    have "obsw_s19_on_event ev (Some s) = Some ?s"
      using room(1,3) f by (auto simp: obsw_s19_on_event_def word_le_nat_alt)
    then show thesis
    proof (rule that)
      show "s19_wf ?s" using assms room(3) n by (simp add: s19_wf_def s19_used_def word_le_nat_alt)
    qed (use room l p in \<open>simp_all add: s19_static_def\<close>)
  qed
qed

text \<open>The events reported between two runs, one after the other.\<close>

definition s19_events :: "u16 list \<Rightarrow> obsw_s19_ctx option \<Rightarrow> obsw_s19_ctx option" where
  "s19_events evs ctx = foldl (\<lambda>c ev. obsw_s19_on_event ev c) ctx evs"

lemma s19_run_batch_spec:
  assumes "feed_spares 19 d (\<lambda>w. s19_static (get w))" "s19_static (get w) = s19_static s" "s19_wf s"
  shows "\<exists>ds w'. s19_run_batch evs get d run w = (run + of_nat (length ds), w')
    \<and> map def_event_id ds = filter (\<lambda>ev. s19_actions s ev \<noteq> None) evs
    \<and> set ds \<subseteq> set (s19_used s)
    \<and> w' = foldl (\<lambda>w de. snd (obsw_tc_dispatcher_feed (Some d) (Some (def_action de))
             (ucast (def_action_len de) :: u64) w)) w ds
    \<and> s19_static (get w') = s19_static s"
  using assms(2)
proof (induction evs arbitrary: run w)
  case Nil
  then show ?case by simp
next
  case (Cons ev evs)
  show ?case
  proof (cases "s19_find_def s ev")
    case None
    then have "s19_run_batch (ev # evs) get d run w = s19_run_batch evs get d run w"
      using s19_static_eq(2) [OF Cons.prems] by simp
    with Cons.IH [OF Cons.prems, of run] None show ?thesis by (simp add: s19_actions_find)
  next
    case (Some i)
    let ?de = "s19_used s ! i"
    let ?w = "snd (obsw_tc_dispatcher_feed (Some d) (Some (def_action ?de)) (ucast (def_action_len ?de) :: u64) w)"
    have i: "i < length (s19_used s)" "def_event_id ?de = ev"
      using s19_table.lookup_Some [OF Some] by blast+
    have de: "?de \<in> set (s19_used s)" using i(1) by (rule nth_mem)
    then have "def_wf ?de" "length (def_action ?de) = 64"
      using assms(3) by (auto simp: s19_wf_def s19_used_def dest: in_set_takeD)
    then have st: "stored_tc 19 (def_action ?de) (def_action_len ?de)"
      "unat (def_action_len ?de) \<le> length (def_action ?de)"
      using stored_tc_len by (auto simp: def_wf_def)
    have "s19_static (get ?w) = s19_static s"
      using feed_spares_stored [OF assms(1) st] Cons.prems by simp
    from Cons.IH [OF this, of "run + 1"] obtain ds w' where
      ih: "s19_run_batch evs get d (run + 1) ?w = (run + 1 + of_nat (length ds), w')"
      "map def_event_id ds = filter (\<lambda>ev. s19_actions s ev \<noteq> None) evs" "set ds \<subseteq> set (s19_used s)"
      "w' = foldl (\<lambda>w de. snd (obsw_tc_dispatcher_feed (Some d) (Some (def_action de))
             (ucast (def_action_len de) :: u64) w)) ?w ds" "s19_static (get w') = s19_static s" by blast
    have "s19_run_batch (ev # evs) get d run w = s19_run_batch evs get d (run + 1) ?w"
      using s19_static_eq(2,4) [OF Cons.prems] Some s19_used_nth [OF i(1)] by (simp add: Let_def)
    moreover have "s19_actions s ev \<noteq> None" using Some s19_actions_find [of s ev] by simp
    ultimately show ?thesis using ih i(2) de by (intro exI [of _ "?de # ds"] exI [of _ w']) simp
  qed
qed

subsection \<open>The run and the invariants of its host\<close>

text \<open>
  The contract between the action queue and the program it runs in: the dispatcher keeps an
  invariant that includes the table's own, and storing the context back keeps it.
\<close>

locale action_host = dispatch_inv di I for di :: "'w obsw_tc_dispatcher" and I +
  fixes get :: "'w \<Rightarrow> obsw_s19_ctx" and put :: "obsw_s19_ctx \<Rightarrow> 'w \<Rightarrow> 'w"
  assumes host_wf: "I w \<Longrightarrow> s19_wf (get w)"
    and host_put: "I w \<Longrightarrow> s19_wf c \<Longrightarrow> I (put c w)"
begin

lemma batch_keeps: "I w \<Longrightarrow> I (snd (s19_run_batch evs get di k w))"
proof (induction evs arbitrary: k w)
  case (Cons ev evs)
  show ?case
  proof (cases "s19_find_def (get w) ev")
    case None
    with Cons show ?thesis by simp
  next
    case (Some i)
    define de where "de = s19_defs (get w) ! i"
    have i: "i < length (s19_used (get w))"
      using find_index_SomeD(1) [OF Some [unfolded s19_find_def_def]] by (simp add: s19_used_def)
    then have "de \<in> set (s19_used (get w))" using nth_mem [OF i] by (simp add: s19_used_nth de_def)
    then have "def_wf de" "length (def_action de) = 64"
      using host_wf [OF Cons.prems] by (auto simp: s19_wf_def s19_used_def dest: in_set_takeD)
    then have "unat (ucast (def_action_len de) :: u64) \<le> length (def_action de)"
      using stored_tc_len by (fastforce simp: def_wf_def unat_ucast_u16)
    then have "I (snd (obsw_tc_dispatcher_feed (Some di) (Some (def_action de)) (ucast (def_action_len de) :: u64) w))"
      using Cons.prems by (intro feed_keeps) simp_all
    from Cons.IH [OF this] show ?thesis by (simp add: Some Let_def de_def)
  qed
qed simp

lemma run_keeps: "I w \<Longrightarrow> I (snd (obsw_s19_run (Some (get, put)) (Some di) w))"
proof -
  assume w: "I w"
  have "s19_wf (get w\<lparr>s19_queued := 0\<rparr>)"
    using host_wf [OF w] by (simp add: s19_wf_def s19_used_def)
  with w show ?thesis by (simp add: obsw_s19_run_def Let_def batch_keeps host_put)
qed

end

subsection \<open>Properties\<close>

text \<open>A stored ping, and a table with one definition for event 5, for the witnesses.\<close>

definition ping_packet :: "u8 list" where
  "ping_packet = [0x18, 1, 0xC0, 7, 0, 4, 0x20, 17, 1, 0, 0]"

definition s19_example :: "u8 \<Rightarrow> u8 \<Rightarrow> obsw_s19_ctx" where
  "s19_example n q =
    \<lparr>s19_defs = [\<lparr>def_event_id = 5, def_action_len = 11, def_action = ping_packet @ replicate 53 0\<rparr>],
     s19_capacity = 1, s19_count = n, s19_enabled = True, s19_queue = [5, 5, 5, 5], s19_queued = q,
     s19_dropped = 0\<rparr>"

lemma ping_packet_stored: "stored_tc 19 ping_packet 11"
  by (simp add: ping_packet_def stored_tc_def obsw_tc_packet_check_def obsw_sp_parse_def
      obsw_sp_decode_primary_def obsw_sp_total_len_def sp_header_fields_def sp_payload_bytes_def Let_def)

lemma s19_example_wf: "n \<le> 1 \<Longrightarrow> q \<le> 4 \<Longrightarrow> s19_wf (s19_example n q)"
proof -
  assume n: "n \<le> 1" "q \<le> 4"
  have l: "length ping_packet = 11" by (simp add: ping_packet_def)
  have "stored_tc 19 (ping_packet @ replicate 53 0) 11"
  proof (rule stored_tc_untake)
    show "stored_tc 19 (take (unat (11 :: u16)) (ping_packet @ replicate 53 0)) 11"
      using ping_packet_stored by (simp add: l)
  qed (simp add: l)
  then have "s19_wf (s19_example 0 q)" "s19_wf (s19_example 1 q)"
    using n(2) by (simp_all add: s19_wf_def s19_example_def s19_used_def def_wf_def l)
  moreover have "unat n = 0 \<or> unat n = 1" using n(1) by (simp add: word_le_nat_alt le_Suc_eq)
  then have "n = 0 \<or> n = 1" by (metis unat_0 unat_1 word_unat_eq_iff)
  ultimately show ?thesis by auto
qed

lemma s19_example_actions: "s19_actions (s19_example 1 q) = [5 \<mapsto> ping_packet]"
  by (simp add: s19_actions_def s19_example_def s19_used_def table_map_def def_packet_def ping_packet_def)

text \<open>
  C39: The table of event-action definitions is a map from event IDs to packets.  Whatever
  its history, an accepted TC(19,1) makes the one change "this event now has this packet",
  whether the event had a definition or not; an accepted TC(19,2) takes the one event out;
  TC(19,3) empties the map.  All other definitions stay, although the table is packed by
  moving entries, and the table stays in order.
\<close>

theorem s19_table_is_map:
  assumes "s19_wf s" and "tc_wf tc" and "handler \<in> {obsw_s19_add, obsw_s19_delete, obsw_s19_delete_all}"
    and "handler (Some tc) (Some s) e = (0, Some s', e')"
  shows "s19_wf s' \<and>
    (handler = obsw_s19_add \<longrightarrow> (\<exists>u. tc_user_data tc = Some u
        \<and> s19_actions s' = (s19_actions s)(obsw_be16 u \<mapsto> take (unat (tc_user_data_len tc - 2)) (drop 2 u))))
    \<and> (handler = obsw_s19_delete \<longrightarrow> (\<exists>u. tc_user_data tc = Some u
        \<and> s19_actions s (obsw_be16 u) \<noteq> None \<and> s19_actions s' = (s19_actions s)(obsw_be16 u := None)))
    \<and> (handler = obsw_s19_delete_all \<longrightarrow> s19_actions s' = Map.empty)"
proof -
  have d: "distinct (map def_event_id (s19_used s))" using assms(1) by (simp add: s19_wf_def)
  have add: "\<exists>u. tc_user_data tc = Some u \<and> s19_wf s'
      \<and> s19_actions s' = (s19_actions s)(obsw_be16 u \<mapsto> take (unat (tc_user_data_len tc - 2)) (drop 2 u))"
    if h: "obsw_s19_add (Some tc) (Some s) e = (0, Some s', e')"
  proof -
    from h obtain u where ok: "s19_add_ok tc u" and s': "s' = s19_added s tc u"
      and c: "s19_find_def s (obsw_be16 u) = None \<longrightarrow> s19_count s < s19_capacity s"
      by (auto simp: s19_add_cases s19_add_ok_def not_le split: if_splits)
    from s19_added_wf [OF assms(1,2) ok c] ok s' show ?thesis by (auto simp: s19_add_ok_def)
  qed
  have del: "\<exists>u. tc_user_data tc = Some u \<and> s19_wf s' \<and> s19_actions s (obsw_be16 u) \<noteq> None
      \<and> s19_actions s' = (s19_actions s)(obsw_be16 u := None)"
    if h: "obsw_s19_delete (Some tc) (Some s) e = (0, Some s', e')"
  proof -
    from h obtain u i where u: "tc_user_data tc = Some u" "s19_find_def s (obsw_be16 u) = Some i"
      and s': "s' = s19_remove_at s i"
      by (auto simp: obsw_s19_delete_def Let_def split: option.splits if_splits)
    have i: "i < length (s19_used s)" "def_event_id (s19_used s ! i) = obsw_be16 u"
      using s19_table.lookup_Some [OF u(2)] by blast+
    show ?thesis
      using u s19_remove_wf [OF assms(1) i(1)] s19_table.remove_map [OF assms(1) d i(1), of def_packet] i(2)
      by (auto simp: s' s19_actions_def [symmetric] s19_actions_find)
  qed
  have all: "s19_wf s' \<and> s19_actions s' = Map.empty"
    if "obsw_s19_delete_all (Some tc) (Some s) e = (0, Some s', e')"
    using that s19_wf_flags(1) [OF assms(1)]
    by (auto simp: obsw_s19_delete_all_def Let_def s19_actions_def s19_used_def table_map_def)
  show ?thesis using assms(3,4) add del all by blast
qed

lemma s19_table_is_map_witness:
  "\<exists>s'. obsw_s19_add (Some \<lparr>tc_apid = 1, tc_service = 19, tc_subservice = 1, tc_seq_count = 0,
      tc_user_data = Some ([0, 5] @ ping_packet), tc_user_data_len = 13\<rparr>) (Some (s19_example 0 0))
      \<lparr>env_s1 = None, env_store = None\<rparr> = (0, Some s', \<lparr>env_s1 = None, env_store = None\<rparr>)
    \<and> s19_actions s' = [5 \<mapsto> ping_packet]"
proof -
  define tc where "tc = \<lparr>tc_apid = 1, tc_service = 19, tc_subservice = 1, tc_seq_count = 0,
    tc_user_data = Some ([0, 5] @ ping_packet), tc_user_data_len = 13\<rparr>"
  define e where "e = \<lparr>env_s1 = None, env_store = None\<rparr>"
  define s where "s = s19_example 0 0"
  have wf: "s19_wf s" unfolding s_def by (rule s19_example_wf) simp_all
  have t: "tc_wf tc" by (simp add: tc_def tc_wf_def ping_packet_def)
  have ok: "s19_add_ok tc ([0, 5] @ ping_packet)"
    using ping_packet_stored by (simp add: s19_add_ok_def tc_def)
  define s' where "s' = s19_added s tc ([0, 5] @ ping_packet)"
  have ex: "\<exists>u. s19_add_ok tc u" using ok by blast
  have "\<not> s19_capacity s \<le> s19_count s" "the (tc_user_data tc) = [0, 5] @ ping_packet"
    by (simp_all add: s_def s19_example_def tc_def)
  then have h: "obsw_s19_add (Some tc) (Some s) e = (0, Some s', e)"
    using ex by (simp add: s19_add_cases s'_def e_def obsw_s1_accept_success_def
        obsw_s1_completion_success_def)
  have "s19_actions s' = (s19_actions s)(5 \<mapsto> ping_packet)"
    using s19_table_is_map [where handler = obsw_s19_add, OF wf t _ h] by (auto simp: tc_def obsw_be16_def ping_packet_def)
  moreover have "s19_actions s = Map.empty"
    by (simp add: s_def s19_example_def s19_actions_def s19_used_def table_map_def)
  ultimately show ?thesis using h unfolding tc_def e_def s_def by auto
qed

text \<open>Any sequence of reported events.\<close>

lemma s19_events_fold:
  assumes "s19_wf s"
  shows "\<exists>s'. s19_events evs (Some s) = Some s' \<and> s19_wf s' \<and> s19_static s' = s19_static s
    \<and> s19_pending s' = take 4 (s19_pending s
        @ (if s19_enabled s then filter (\<lambda>ev. s19_actions s ev \<noteq> None) evs else []))
    \<and> s19_dropped s' = s19_dropped s + of_nat (length (s19_pending s
        @ (if s19_enabled s then filter (\<lambda>ev. s19_actions s ev \<noteq> None) evs else [])) - 4)"
proof -
  have l: "length (s19_pending s) \<le> 4" if "s19_wf s" for s
    using that by (simp add: s19_pending_def s19_wf_def)
  show ?thesis
    using assms
  proof (induction evs arbitrary: s)
    case Nil
    then show ?case using l by (simp add: s19_events_def)
  next
    case (Cons ev evs)
    obtain t where t: "obsw_s19_on_event ev (Some s) = Some t" "s19_wf t" "s19_static t = s19_static s"
      "s19_pending t = (if s19_enabled s \<and> s19_actions s ev \<noteq> None then take 4 (s19_pending s @ [ev])
         else s19_pending s)"
      "s19_dropped t = (if s19_enabled s \<and> s19_actions s ev \<noteq> None \<and> length (s19_pending s) = 4
         then s19_dropped s + 1 else s19_dropped s)"
      by (rule s19_on_event_effect [OF Cons.prems])
    have e: "s19_events (ev # evs) (Some s) = s19_events evs (Some t)" by (simp add: s19_events_def t(1))
    show ?case
      using Cons.IH [OF t(2)] t(3-5) s19_static_eq(3,5) [OF t(3)] l [OF Cons.prems] unfolding e
      by (cases "length (s19_pending s) = 4") (auto simp: min_def take_Cons')
  qed
qed

text \<open>
  The queue of actions is a bounded queue that counts what it loses.  After any sequence
  of reported events, with event-action enabled, the queue holds, in order of report, the
  first four of the events that have a definition, counted from what was queued already, and
  the counter has gone up by the number of those that found no room; nothing else of the
  context changed.  With event-action disabled nothing is queued and nothing is counted.
\<close>

theorem s19_events_queued:
  assumes "s19_wf s" and "relevant = (if s19_enabled s then filter (\<lambda>ev. s19_actions s ev \<noteq> None) evs else [])"
  shows "\<exists>s'. s19_events evs (Some s) = Some s' \<and> s19_wf s' \<and> s19_static s' = s19_static s
    \<and> s19_pending s' = take 4 (s19_pending s @ relevant)
    \<and> s19_dropped s' = s19_dropped s + of_nat (length (s19_pending s @ relevant) - 4)"
  using s19_events_fold [OF assms(1)] unfolding assms(2) .

lemma s19_events_queued_witness:
  "\<exists>s'. s19_events [5, 6, 5] (Some (s19_example 1 3)) = Some s'
    \<and> s19_pending s' = [5, 5, 5, 5] \<and> s19_dropped s' = 1"
proof -
  have wf: "s19_wf (s19_example 1 3)" by (rule s19_example_wf) simp_all
  have "s19_pending (s19_example 1 3) = [5, 5, 5]" "s19_dropped (s19_example 1 3) = 0"
    "s19_enabled (s19_example 1 3)"
    by (simp_all add: s19_pending_def s19_example_def)
  with s19_events_queued [OF wf refl, of "[5, 6, 5]"] show ?thesis
    by (auto simp: s19_example_actions)
qed

text \<open>
  A run feeds the queued actions, each once, in the order of their events.  The run
  empties the queue and feeds, for every queued event that still has a definition, the packet
  stored for it; the others are skipped.  No fed packet is dropped as unparsable or is a
  command of service 19, and the table is the same after the run, whatever the actions do;
  the events the actions raise wait for the next run.
\<close>

theorem s19_run_actions:
  assumes "\<And>c w. get (put c w) = c" and "feed_spares 19 d (\<lambda>w. s19_static (get w))"
    and "s19_wf (get w)" and "s = get w"
  shows "\<exists>ds w'. obsw_s19_run (Some (get, put)) (Some d) w = (of_nat (length ds), w')
    \<and> map def_event_id ds = filter (\<lambda>ev. s19_actions s ev \<noteq> None) (s19_pending s)
    \<and> (\<forall>de \<in> set ds. s19_actions s (def_event_id de) = Some (def_packet de)
         \<and> (\<exists>tc. feed_tc (def_action de) (ucast (def_action_len de) :: u64) = Some tc
              \<and> tc_service tc \<noteq> 19))
    \<and> w' = foldl (\<lambda>w de. snd (obsw_tc_dispatcher_feed (Some d) (Some (def_action de))
             (ucast (def_action_len de) :: u64) w)) (put (s\<lparr>s19_queued := 0\<rparr>) w) ds
    \<and> s19_static (get w') = s19_static s"
proof -
  have wf: "s19_wf s" using assms(3,4) by simp
  have st: "s19_static (get (put (s\<lparr>s19_queued := 0\<rparr>) w)) = s19_static s"
    by (simp add: assms(1) s19_static_def)
  have run: "obsw_s19_run (Some (get, put)) (Some d) w
      = s19_run_batch (s19_pending s) get d 0 (put (s\<lparr>s19_queued := 0\<rparr>) w)"
    by (simp add: obsw_s19_run_def s19_pending_def assms(4) Let_def)
  have d: "distinct (map def_event_id (s19_used s))" using wf by (simp add: s19_wf_def)
  have fed: "s19_actions s (def_event_id de) = Some (def_packet de)
      \<and> (\<exists>tc. feed_tc (def_action de) (ucast (def_action_len de) :: u64) = Some tc \<and> tc_service tc \<noteq> 19)"
    if de: "de \<in> set (s19_used s)" for de
  proof
    show "s19_actions s (def_event_id de) = Some (def_packet de)"
      using table_map_Some_iff [OF d, of def_packet] de unfolding s19_actions_def by blast
    have "def_wf de" "length (def_action de) = 64"
      using wf de by (auto simp: s19_wf_def s19_used_def dest: in_set_takeD)
    then show "\<exists>tc. feed_tc (def_action de) (ucast (def_action_len de) :: u64) = Some tc \<and> tc_service tc \<noteq> 19"
      using stored_tc_feed [of 19 "def_action de" "def_action_len de"] stored_tc_len
      by (fastforce simp: def_wf_def)
  qed
  from s19_run_batch_spec [OF assms(2) st wf, of "s19_pending s" 0] fed show ?thesis
    unfolding run by fastforce
qed

lemma s19_run_actions_witness:
  "\<exists>w'. obsw_s19_run (Some (fst, \<lambda>c w. (c, snd w)))
      (Some \<lparr>d_table = [\<lparr>rt_apid = 0xFFFF, rt_service = 17, rt_subservice = 1,
               rt_handler = (\<lambda>tc _ w. (0, fst w, snd w @ [tc_seq_count tc]))\<rparr>],
             d_table_len = 1, d_responder = (\<lambda>_ _ w. w), d_gate = None\<rparr>)
      (s19_example 1 1, []) = (1, w')"
proof -
  define d :: "(obsw_s19_ctx \<times> u16 list) obsw_tc_dispatcher"
    where "d = \<lparr>d_table = [\<lparr>rt_apid = 0xFFFF, rt_service = 17, rt_subservice = 1,
                 rt_handler = (\<lambda>tc _ w. (0, fst w, snd w @ [tc_seq_count tc]))\<rparr>],
               d_table_len = 1, d_responder = (\<lambda>_ _ w. w), d_gate = None\<rparr>"
  define put :: "obsw_s19_ctx \<Rightarrow> obsw_s19_ctx \<times> u16 list \<Rightarrow> obsw_s19_ctx \<times> u16 list"
    where "put = (\<lambda>c w. (c, snd w))"
  define w where "w = (s19_example 1 1, [] :: u16 list)"
  have p: "fst (put c v) = c" for c v by (simp add: put_def)
  have sp: "feed_spares 19 d (\<lambda>w. s19_static (fst w))"
    by (simp add: d_def feed_spares_def tc_dispatch_def)
  have wf: "s19_wf (fst w)" unfolding w_def fst_conv by (rule s19_example_wf) simp_all
  obtain ds :: "obsw_s19_def list" and w' where r: "obsw_s19_run (Some (fst, put)) (Some d) w = (of_nat (length ds), w')"
    and m: "map def_event_id ds = filter (\<lambda>ev. s19_actions (fst w) ev \<noteq> None) (s19_pending (fst w))"
    using s19_run_actions [of fst put, OF p sp wf refl] by blast
  have "map def_event_id ds = [5]"
    using m by (simp add: w_def s19_example_actions) (simp add: s19_pending_def s19_example_def)
  then have "length ds = 1" by (metis length_map length_Cons list.size(3) One_nat_def)
  with r show ?thesis unfolding d_def put_def w_def by auto
qed

end
