(* ===== verification/Srdb.thy ===== *)
theory Srdb
  imports Fsm
begin

section \<open>The constants of the spacecraft reference database\<close>

text \<open>
  \<^verbatim>\<open>obsw/srdb_generated.h\<close> is written by the build from the reference database, so its
  constants are no code of the repository.  They are the record \<open>srdb\<close>, an argument of the
  definitions that use them; a task of the target that is initialised with them keeps no copy.
\<close>

record srdb =
  srdb_version :: string
  srdb_apid_default :: u16
  srdb_safe_tc_whitelist :: "obsw_fsm_tc_entry list"
  srdb_safe_tc_count :: u8
  srdb_event_boot_complete :: u16
  srdb_event_safe_mode_entry :: u16
  srdb_event_nominal_entry :: u16
  srdb_event_standby_entry :: u16
  srdb_event_temperature_hard_limit :: u16
  srdb_event_power_fault_3v3 :: u16
  srdb_event_power_fault_5v :: u16
  srdb_hk_fdir_hk :: u8
  srdb_hk_aocs_bdot_hk :: u8
  srdb_hk_fdir_hk_sizes :: "u8 list"
  srdb_hk_aocs_bdot_hk_sizes :: "u8 list"
  srdb_tc_set_obt_svc :: u8
  srdb_tc_set_obt_subsvc :: u8
  srdb_param_obc_uptime :: u16
  srdb_param_safe_mode_entry_count :: u16
  srdb_param_watchdog_kick_count :: u16
  srdb_param_bdot_gain :: u16
  srdb_param_bdot_hpf_tau :: u16
  srdb_param_adcs_kp :: u16
  srdb_param_adcs_kd :: u16

end
