(* ===== verification/Mode_Task.thy ===== *)
theory Mode_Task
  imports Srdb Pus_S5 Pus_S1
begin

section \<open>The mode manager task\<close>

text \<open>
  \<^verbatim>\<open>src/task/mode.c\<close>: the task that owns the mode state machine.  Its state is the record
  \<open>mode_mgr\<close>: the state machine, the S5 context, the three request flags, and the two
  variables of the task body.  One iteration of the loop is \<open>mode_tick\<close>; the flags are set
  between two iterations by \<open>obsw_mode_request_safe\<close>, \<open>_nominal\<close> and \<open>_standby\<close>, and the
  fault responder enters SAFE directly through the state machine (\<open>Fault_safe\<close>).  The two
  hooks of SAFE do nothing, so the hook state is \<open>unit\<close>.
\<close>

abbreviation (input) STANDBY_SAFE_TIMEOUT_S :: u32 where "STANDBY_SAFE_TIMEOUT_S \<equiv> 300"

record mode_mgr =
  md_fsm :: "unit obsw_fsm_ctx"
  md_s5 :: "unit obsw_s5_ctx"
  md_req_safe :: bool
  md_req_nominal :: bool
  md_req_standby :: bool
  md_standby_ticks :: u32
  md_last :: obsw_fsm_mode

subsection \<open>Operations\<close>

definition mode_on_enter_safe :: "unit \<Rightarrow> unit" where "mode_on_enter_safe ctx = ctx"
definition mode_on_exit_safe :: "unit \<Rightarrow> unit" where "mode_on_exit_safe ctx = ctx"

definition mode_fsm_config :: "srdb \<Rightarrow> unit obsw_fsm_config" where
  "mode_fsm_config db =
    \<lparr>on_enter_safe = Some mode_on_enter_safe, on_exit_safe = Some mode_on_exit_safe,
     safe_tc_whitelist = Some (srdb_safe_tc_whitelist db), whitelist_len = srdb_safe_tc_count db\<rparr>"

text \<open>The static objects are zero before the call; \<open>last\<close> is read when the task starts.\<close>

definition obsw_mode_task_init :: "srdb \<Rightarrow> mode_mgr" where
  "obsw_mode_task_init db =
    (let fsm0 = \<lparr>fsm_mode = OBSW_FSM_NOMINAL, fsm_config = \<lparr>on_enter_safe = None, on_exit_safe = None,
                   safe_tc_whitelist = None, whitelist_len = 0\<rparr>, safe_entry_count = 0\<rparr>;
         fsm = the (snd (obsw_fsm_init (Some fsm0) (Some (mode_fsm_config db))))
     in \<lparr>md_fsm = fsm,
         md_s5 = \<lparr>s5_apid = srdb_apid_default db, s5_msg_counter = 0, s5_timestamp = 0,
                  s5_safe_trigger_ids = replicate 8 0, s5_safe_trigger_count = 0, s5_on_event = None\<rparr>,
         md_req_safe = False, md_req_nominal = False, md_req_standby = False,
         md_standby_ticks = 0, md_last = obsw_fsm_mode (Some fsm)\<rparr>)"

definition obsw_mode_request_safe :: "mode_mgr \<Rightarrow> mode_mgr" where
  "obsw_mode_request_safe m = m\<lparr>md_req_safe := True, md_req_nominal := False\<rparr>"

definition obsw_mode_request_nominal :: "mode_mgr \<Rightarrow> mode_mgr" where
  "obsw_mode_request_nominal m = m\<lparr>md_req_nominal := True\<rparr>"

definition obsw_mode_request_standby :: "mode_mgr \<Rightarrow> mode_mgr" where
  "obsw_mode_request_standby m = m\<lparr>md_req_standby := True, md_req_nominal := False\<rparr>"

definition md_to_safe :: "mode_mgr \<Rightarrow> mode_mgr" where
  "md_to_safe m = m\<lparr>md_fsm := the (fst (obsw_fsm_to_safe (Some (md_fsm m)) ()))\<rparr>"

text \<open>The pending requests, at most one of which is consumed in an iteration.\<close>

definition mode_process_requests :: "mode_mgr \<Rightarrow> mode_mgr" where
  "mode_process_requests m =
    (let cur = obsw_fsm_mode (Some (md_fsm m)) in
     if md_req_safe m then md_to_safe (m\<lparr>md_req_safe := False\<rparr>)
     else if md_req_standby m
     then m\<lparr>md_req_standby := False, md_fsm := the (obsw_fsm_to_standby (Some (md_fsm m)))\<rparr>
     else if md_req_nominal m
     then (let m' = m\<lparr>md_req_nominal := False\<rparr> in
           if cur = OBSW_FSM_SAFE
           then m'\<lparr>md_fsm := the (fst (obsw_fsm_to_nominal (Some (md_fsm m')) ()))\<rparr>
           else m')
     else m)"

definition mode_standby_timeout :: "mode_mgr \<Rightarrow> mode_mgr" where
  "mode_standby_timeout m =
    (if obsw_fsm_mode (Some (md_fsm m)) = OBSW_FSM_STANDBY
     then (let m' = m\<lparr>md_standby_ticks := md_standby_ticks m + 1\<rparr> in
           if md_standby_ticks m' \<ge> STANDBY_SAFE_TIMEOUT_S then md_to_safe m' else m')
     else m\<lparr>md_standby_ticks := 0\<rparr>)"

definition mode_report ::
  "srdb \<Rightarrow> obsw_fsm_mode \<Rightarrow> unit obsw_s5_ctx \<Rightarrow> obsw_tm_store option
   \<Rightarrow> unit obsw_s5_ctx \<times> obsw_tm_store option" where
  "mode_report db cur s5 store =
    (let (sev, ev) = (case cur of
           OBSW_FSM_SAFE \<Rightarrow> (OBSW_S5_HIGH, srdb_event_safe_mode_entry db)
         | OBSW_FSM_NOMINAL \<Rightarrow> (OBSW_S5_INFO, srdb_event_nominal_entry db)
         | OBSW_FSM_STANDBY \<Rightarrow> (OBSW_S5_INFO, srdb_event_standby_entry db));
         (rc, s5', e') = obsw_s5_report (Some s5) sev ev None 0
           (\<lparr>s5_store = store, s5_fsm = None, s5_hooks = (), s5_event_state = ()\<rparr> :: (unit, unit) s5_env)
     in (the s5', s5_store e'))"

definition mode_report_change ::
  "srdb \<Rightarrow> mode_mgr \<times> obsw_tm_store option \<Rightarrow> mode_mgr \<times> obsw_tm_store option" where
  "mode_report_change db ms =
    (let (m, store) = ms; cur = obsw_fsm_mode (Some (md_fsm m)) in
     if cur \<noteq> md_last m
     then (let (s5', store') = mode_report db cur (md_s5 m) store in
           (m\<lparr>md_s5 := s5', md_last := cur\<rparr>, store'))
     else (m, store))"

definition mode_tick ::
  "srdb \<Rightarrow> mode_mgr \<times> obsw_tm_store option \<Rightarrow> mode_mgr \<times> obsw_tm_store option" where
  "mode_tick db ms =
    (let (m, store) = ms in
     mode_report_change db (mode_standby_timeout (mode_process_requests m), store))"

text \<open>What happens to the task's state, one step at a time.\<close>

datatype mode_event = Mode_tick | Request_safe | Request_nominal | Request_standby | Fault_safe

definition mode_step ::
  "srdb \<Rightarrow> mode_event \<Rightarrow> mode_mgr \<times> obsw_tm_store option \<Rightarrow> mode_mgr \<times> obsw_tm_store option" where
  "mode_step db ev ms = (case ms of (m, store) \<Rightarrow> (case ev of
       Mode_tick \<Rightarrow> mode_tick db (m, store)
     | Request_safe \<Rightarrow> (obsw_mode_request_safe m, store)
     | Request_nominal \<Rightarrow> (obsw_mode_request_nominal m, store)
     | Request_standby \<Rightarrow> (obsw_mode_request_standby m, store)
     | Fault_safe \<Rightarrow> (md_to_safe m, store)))"

abbreviation md_mode :: "mode_mgr \<Rightarrow> obsw_fsm_mode" where
  "md_mode m \<equiv> fsm_mode (md_fsm m)"

subsection \<open>One iteration\<close>

lemmas mode_defs = mode_process_requests_def mode_standby_timeout_def md_to_safe_def
  obsw_fsm_to_standby_def obsw_fsm_to_safe_def obsw_fsm_to_nominal_def obsw_fsm_mode_def

lemma md_to_safe_frame [simp]:
  "md_mode (md_to_safe m) = OBSW_FSM_SAFE" "md_s5 (md_to_safe m) = md_s5 m"
  "md_last (md_to_safe m) = md_last m" "md_standby_ticks (md_to_safe m) = md_standby_ticks m"
  "md_req_safe (md_to_safe m) = md_req_safe m" "md_req_nominal (md_to_safe m) = md_req_nominal m"
  "md_req_standby (md_to_safe m) = md_req_standby m"
  "fsm_config (md_fsm (md_to_safe m)) = fsm_config (md_fsm m)"
  by (simp_all add: md_to_safe_def obsw_fsm_to_safe_def)

lemma mode_process_requests_frame [simp]:
  "md_s5 (mode_process_requests m) = md_s5 m" "md_last (mode_process_requests m) = md_last m"
  "md_standby_ticks (mode_process_requests m) = md_standby_ticks m"
  "fsm_config (md_fsm (mode_process_requests m)) = fsm_config (md_fsm m)"
  by (simp_all add: mode_process_requests_def obsw_fsm_to_standby_def obsw_fsm_to_nominal_def Let_def)

lemma mode_process_requests_effect:
  "md_mode (mode_process_requests m) =
    (if md_req_safe m then OBSW_FSM_SAFE else if md_req_standby m then OBSW_FSM_STANDBY
     else if md_req_nominal m \<and> md_mode m = OBSW_FSM_SAFE then OBSW_FSM_NOMINAL else md_mode m)"
  "md_req_safe (mode_process_requests m) = False"
  "md_req_standby (mode_process_requests m) = (md_req_safe m \<and> md_req_standby m)"
  "md_req_nominal (mode_process_requests m) = (md_req_nominal m \<and> (md_req_safe m \<or> md_req_standby m))"
  by (simp_all add: mode_process_requests_def obsw_fsm_to_standby_def obsw_fsm_to_nominal_def
      obsw_fsm_mode_def Let_def)

lemma mode_standby_timeout_frame [simp]:
  "md_s5 (mode_standby_timeout m) = md_s5 m" "md_last (mode_standby_timeout m) = md_last m"
  "md_req_safe (mode_standby_timeout m) = md_req_safe m"
  "md_req_nominal (mode_standby_timeout m) = md_req_nominal m"
  "md_req_standby (mode_standby_timeout m) = md_req_standby m"
  "fsm_config (md_fsm (mode_standby_timeout m)) = fsm_config (md_fsm m)"
  by (simp_all add: mode_standby_timeout_def Let_def)

lemma mode_standby_timeout_effect:
  "md_mode (mode_standby_timeout m) =
    (if md_mode m = OBSW_FSM_STANDBY \<and> md_standby_ticks m + 1 \<ge> STANDBY_SAFE_TIMEOUT_S
     then OBSW_FSM_SAFE else md_mode m)"
  "md_standby_ticks (mode_standby_timeout m) =
    (if md_mode m = OBSW_FSM_STANDBY then md_standby_ticks m + 1 else 0)"
  by (simp_all add: mode_standby_timeout_def obsw_fsm_mode_def Let_def)

lemma mode_report_change_frame [simp]:
  "md_fsm (fst (mode_report_change db ms)) = md_fsm (fst ms)"
  "md_req_safe (fst (mode_report_change db ms)) = md_req_safe (fst ms)"
  "md_req_nominal (fst (mode_report_change db ms)) = md_req_nominal (fst ms)"
  "md_req_standby (fst (mode_report_change db ms)) = md_req_standby (fst ms)"
  "md_standby_ticks (fst (mode_report_change db ms)) = md_standby_ticks (fst ms)"
  "md_last (fst (mode_report_change db ms)) = md_mode (fst ms)"
  by (cases ms; simp add: mode_report_change_def Let_def obsw_fsm_mode_def case_prod_beta)+

text \<open>The mode an iteration ends in, and what it leaves pending.\<close>

lemma mode_tick_effect:
  "md_mode (fst (mode_tick db (m, store))) =
    (let due = md_standby_ticks m + 1 \<ge> STANDBY_SAFE_TIMEOUT_S;
         standby = (if due then OBSW_FSM_SAFE else OBSW_FSM_STANDBY)
     in if md_req_safe m then OBSW_FSM_SAFE else if md_req_standby m then standby
        else if md_mode m = OBSW_FSM_STANDBY then standby
        else if md_mode m = OBSW_FSM_SAFE \<and> md_req_nominal m then OBSW_FSM_NOMINAL else md_mode m)"
  "md_req_safe (fst (mode_tick db (m, store))) = False"
  "md_req_standby (fst (mode_tick db (m, store))) = (md_req_safe m \<and> md_req_standby m)"
  "md_req_nominal (fst (mode_tick db (m, store))) = (md_req_nominal m \<and> (md_req_safe m \<or> md_req_standby m))"
  "md_standby_ticks (fst (mode_tick db (m, store))) =
    (if md_mode (mode_process_requests m) = OBSW_FSM_STANDBY then md_standby_ticks m + 1 else 0)"
  "md_last (fst (mode_tick db (m, store))) = md_mode (fst (mode_tick db (m, store)))"
  by (simp_all add: mode_tick_def mode_standby_timeout_effect mode_process_requests_effect Let_def)

lemmas mode_tick_effects =
  mode_tick_effect [where m = "fst ms" and store = "snd ms" for ms, unfolded prod.collapse]

subsection \<open>Runs\<close>

definition mode_run ::
  "srdb \<Rightarrow> mode_event list \<Rightarrow> mode_mgr \<times> obsw_tm_store option \<Rightarrow> mode_mgr \<times> obsw_tm_store option" where
  "mode_run db evs ms = fold (mode_step db) evs ms"

lemma mode_run_simps [simp]:
  "mode_run db [] ms = ms" "mode_run db (ev # evs) ms = mode_run db evs (mode_step db ev ms)"
  "mode_run db (evs @ evs') ms = mode_run db evs' (mode_run db evs ms)"
  by (simp_all add: mode_run_def)

text \<open>Reachable states; the time-out counter of a task in STANDBY is below its limit.\<close>

inductive mode_reach :: "srdb \<Rightarrow> mode_event list \<Rightarrow> mode_mgr \<times> obsw_tm_store option \<Rightarrow> bool" for db where
  init: "mode_reach db [] (obsw_mode_task_init db, store)"
| step: "mode_reach db evs ms \<Longrightarrow> mode_reach db (evs @ [ev]) (mode_step db ev ms)"

inductive_cases mode_reach_snocE: "mode_reach db (evs @ [ev]) ms"

lemma mode_init_simps [simp]:
  "md_mode (obsw_mode_task_init db) = OBSW_FSM_STANDBY" "md_req_safe (obsw_mode_task_init db) = False"
  "md_req_nominal (obsw_mode_task_init db) = False" "md_req_standby (obsw_mode_task_init db) = False"
  "md_standby_ticks (obsw_mode_task_init db) = 0" and mode_init_last:
  "md_last (obsw_mode_task_init db) = OBSW_FSM_STANDBY"
  by (simp_all add: obsw_mode_task_init_def obsw_fsm_init_def obsw_fsm_mode_def Let_def)

lemma mode_step_fst [simp]:
  "mode_step db Mode_tick ms = mode_tick db ms"
  "fst (mode_step db Request_safe ms) = obsw_mode_request_safe (fst ms)"
  "fst (mode_step db Request_nominal ms) = obsw_mode_request_nominal (fst ms)"
  "fst (mode_step db Request_standby ms) = obsw_mode_request_standby (fst ms)"
  "fst (mode_step db Fault_safe ms) = md_to_safe (fst ms)"
  by (simp_all add: mode_step_def split: prod.splits)

lemma mode_request_simps [simp]:
  "md_fsm (obsw_mode_request_safe m) = md_fsm m" "md_fsm (obsw_mode_request_nominal m) = md_fsm m"
  "md_fsm (obsw_mode_request_standby m) = md_fsm m"
  "md_standby_ticks (obsw_mode_request_safe m) = md_standby_ticks m"
  "md_standby_ticks (obsw_mode_request_nominal m) = md_standby_ticks m"
  "md_standby_ticks (obsw_mode_request_standby m) = md_standby_ticks m"
  "md_req_standby (obsw_mode_request_safe m) = md_req_standby m"
  "md_req_standby (obsw_mode_request_nominal m) = md_req_standby m"
  "md_req_nominal (obsw_mode_request_safe m) = False"
  "md_req_nominal (obsw_mode_request_standby m) = False"
  by (simp_all add: obsw_mode_request_safe_def obsw_mode_request_nominal_def obsw_mode_request_standby_def)

definition standby_timed :: "mode_mgr \<Rightarrow> bool" where
  "standby_timed m \<longleftrightarrow> (md_mode m = OBSW_FSM_STANDBY \<longrightarrow> md_standby_ticks m < STANDBY_SAFE_TIMEOUT_S)"

lemma mode_tick_timed: "standby_timed (fst (mode_tick db (m, store)))"
  by (auto simp: standby_timed_def mode_tick_effect mode_process_requests_effect Let_def not_le split: if_splits)

lemma mode_step_timed: "standby_timed (fst ms) \<Longrightarrow> standby_timed (fst (mode_step db ev ms))"
  by (cases ms; cases ev) (simp_all add: mode_tick_timed, simp_all add: standby_timed_def)

lemma mode_reach_timed: "mode_reach db evs ms \<Longrightarrow> standby_timed (fst ms)"
  by (induction rule: mode_reach.induct) (simp_all add: mode_step_timed, simp add: standby_timed_def)

subsection \<open>What the ground sees\<close>

text \<open>The modes the task sees, one per iteration, and the packets of a list of events.\<close>

fun mode_trace ::
  "srdb \<Rightarrow> mode_event list \<Rightarrow> mode_mgr \<times> obsw_tm_store option \<Rightarrow> obsw_fsm_mode list" where
  "mode_trace db [] ms = []"
| "mode_trace db (ev # evs) ms =
    (let ms' = mode_step db ev ms in
     if ev = Mode_tick then md_mode (fst ms') # mode_trace db evs ms' else mode_trace db evs ms')"

definition mode_entry_event :: "srdb \<Rightarrow> obsw_fsm_mode \<Rightarrow> u8 \<times> u16" where
  "mode_entry_event db mode = (case mode of
     OBSW_FSM_SAFE \<Rightarrow> (OBSW_S5_HIGH, srdb_event_safe_mode_entry db)
   | OBSW_FSM_NOMINAL \<Rightarrow> (OBSW_S5_INFO, srdb_event_nominal_entry db)
   | OBSW_FSM_STANDBY \<Rightarrow> (OBSW_S5_INFO, srdb_event_standby_entry db))"

fun s5_packets :: "'v obsw_s5_ctx \<Rightarrow> (u8 \<times> u16) list \<Rightarrow> u8 list list" where
  "s5_packets s [] = []"
| "s5_packets s ((sev, ev) # es) =
     s5_packet s sev ev [] # s5_packets (s\<lparr>s5_msg_counter := s5_msg_counter s + 1\<rparr>) es"

lemma mode_report_effect:
  assumes "tm_ok store" "s5_on_event s = None"
  obtains st where "mode_report db cur s store = (s\<lparr>s5_msg_counter := s5_msg_counter s + 1\<rparr>, st)"
    and "tm_offered store (s5_packets s [mode_entry_event db cur]) st"
proof -
  obtain sev ev where e: "mode_entry_event db cur = (sev, ev)" by (cases "mode_entry_event db cur")
  let ?e = "\<lparr>s5_store = store, s5_fsm = None, s5_hooks = (), s5_event_state = ()\<rparr> :: (unit, unit) s5_env"
  obtain e' where r: "obsw_s5_report (Some s) sev ev (Some []) 0 ?e
      = (tm_emit_rc (s5_store ?e), Some (s\<lparr>s5_msg_counter := s5_msg_counter s + 1\<rparr>), e')"
    "tm_ok (s5_store e')" "s5_store e' = None \<longleftrightarrow> s5_store ?e = None"
    "tm_queue (s5_store e') = tm_emit (s5_packet s sev ev []) (s5_store ?e)"
    by (rule s5_report_effect [of ?e 0 "[]" s sev ev]) (use assms in simp_all)
  have "mode_report db cur s store = (s\<lparr>s5_msg_counter := s5_msg_counter s + 1\<rparr>, s5_store e')"
    using e r(1) unfolding mode_report_def mode_entry_event_def s5_report_no_data
    by (cases cur) simp_all
  moreover have "tm_offered store (s5_packets s [mode_entry_event db cur]) (s5_store e')"
    using r(2-4) tm_queue_length [of store]
    by (auto simp: tm_offered_def e tm_emit_def tm_emit_rc_def split: if_splits)
  ultimately show thesis by (rule that)
qed

lemma mode_tick_reports:
  assumes "tm_ok store" "s5_on_event (md_s5 m) = None" "mode_tick db (m, store) = (m', store')"
  shows "s5_on_event (md_s5 m') = None"
    and "if md_mode m' = md_last m then md_s5 m' = md_s5 m \<and> store' = store
      else md_s5 m' = (md_s5 m)\<lparr>s5_msg_counter := s5_msg_counter (md_s5 m) + 1\<rparr>
        \<and> tm_offered store (s5_packets (md_s5 m) [mode_entry_event db (md_mode m')]) store'"
proof -
  define p where "p = mode_standby_timeout (mode_process_requests m)"
  have p: "md_s5 p = md_s5 m" "md_last p = md_last m" by (simp_all add: p_def)
  have t: "mode_report_change db (p, store) = (m', store')"
    using assms(3) by (simp add: mode_tick_def p_def)
  have mm: "md_mode m' = md_mode p" using arg_cong [OF t, of "\<lambda>x. md_mode (fst x)"] by simp
  have "s5_on_event (md_s5 m') = None \<and> (if md_mode m' = md_last m then md_s5 m' = md_s5 m \<and> store' = store
      else md_s5 m' = (md_s5 m)\<lparr>s5_msg_counter := s5_msg_counter (md_s5 m) + 1\<rparr>
        \<and> tm_offered store (s5_packets (md_s5 m) [mode_entry_event db (md_mode m')]) store')"
  proof (cases "md_mode p = md_last p")
    case True
    with t mm p assms(2) show ?thesis by (auto simp: mode_report_change_def obsw_fsm_mode_def Let_def)
  next
    case False
    obtain st where "mode_report db (md_mode p) (md_s5 m) store
        = ((md_s5 m)\<lparr>s5_msg_counter := s5_msg_counter (md_s5 m) + 1\<rparr>, st)"
      "tm_offered store (s5_packets (md_s5 m) [mode_entry_event db (md_mode p)]) st"
      by (rule mode_report_effect [OF assms(1,2)])
    with t mm p assms(2) False show ?thesis
      by (auto simp: mode_report_change_def obsw_fsm_mode_def Let_def)
  qed
  then show "s5_on_event (md_s5 m') = None"
    and "if md_mode m' = md_last m then md_s5 m' = md_s5 m \<and> store' = store
      else md_s5 m' = (md_s5 m)\<lparr>s5_msg_counter := s5_msg_counter (md_s5 m) + 1\<rparr>
        \<and> tm_offered store (s5_packets (md_s5 m) [mode_entry_event db (md_mode m')]) store'"
    by simp_all
qed

lemma mode_step_quiet:
  assumes "ev \<noteq> Mode_tick"
  shows "md_s5 (fst (mode_step db ev (m, store))) = md_s5 m"
    "md_last (fst (mode_step db ev (m, store))) = md_last m" "snd (mode_step db ev (m, store)) = store"
  using assms by (cases ev; simp add: mode_step_def obsw_mode_request_safe_def
    obsw_mode_request_nominal_def obsw_mode_request_standby_def)+

subsection \<open>Properties\<close>

text \<open>
  The mode reports are the mode changes.  Over any run of the task the events offered to
  the TM store are, in order and once each, the entry events of the modes it saw with adjacent
  repetitions removed, after the mode last reported; nothing else is sent and the packets
  carry consecutive counts.
\<close>

theorem mode_reports_changes:
  assumes "tm_ok store" "s5_on_event (md_s5 m) = None" "mode_run db evs (m, store) = (m', store')"
  shows "tm_offered store (s5_packets (md_s5 m)
    (map (mode_entry_event db) (tl (remdups_adj (md_last m # mode_trace db evs (m, store)))))) store'"
  using assms
proof (induction evs arbitrary: m store)
  case Nil
  then show ?case by (simp add: tm_offered_nil)
next
  case (Cons ev evs)
  obtain m1 store1 where s: "mode_step db ev (m, store) = (m1, store1)" by fastforce
  have run: "mode_run db evs (m1, store1) = (m', store')" using Cons.prems(3) s by simp
  show ?case
  proof (cases "ev = Mode_tick")
    case False
    have "md_s5 m1 = md_s5 m" "md_last m1 = md_last m" "store1 = store"
      using mode_step_quiet [OF False, of db m store] s by simp_all
    then show ?thesis using Cons.IH [of store1 m1] Cons.prems False run s by simp
  next
    case True
    have t: "mode_tick db (m, store) = (m1, store1)" using s True by simp
    have last: "md_last m1 = md_mode m1" using mode_tick_effect(6) [of db m store] t by simp
    note r = mode_tick_reports [OF Cons.prems(1,2) t]
    have "tm_ok store1" using r(2) Cons.prems(1) by (auto dest: tm_offered_ok split: if_splits)
    note ih = Cons.IH [OF this r(1) run, unfolded last]
    show ?thesis
    proof (cases "md_mode m1 = md_last m")
      case same: True
      then show ?thesis using ih r(2) s True by (simp add: Let_def)
    next
      case False
      let ?s = "md_s5 m" and ?e = "mode_entry_event db (md_mode m1)"
      have k: "s5_packets ?s (?e # es) = s5_packets ?s [?e] @ s5_packets (md_s5 m1) es" for es
        using r(2) False by (cases ?e) simp
      have tr: "mode_trace db (ev # evs) (m, store) = md_mode m1 # mode_trace db evs (m1, store1)"
        using s True by (simp add: Let_def)
      have n: "tl (remdups_adj (md_last m # mode_trace db (ev # evs) (m, store))) =
          md_mode m1 # tl (remdups_adj (md_mode m1 # mode_trace db evs (m1, store1)))"
        unfolding tr remdups_adj_Cons_alt using False by simp
      have "tm_offered store (s5_packets ?s [?e] @ s5_packets (md_s5 m1) (map (mode_entry_event db)
          (tl (remdups_adj (md_mode m1 # mode_trace db evs (m1, store1)))))) store'"
        using r(2) False ih by (auto intro: tm_offered_append)
      then show ?thesis unfolding n list.map by (subst k)
    qed
  qed
qed

text \<open>A boot, a request for SAFE and one for NOMINAL a second later: two reports.\<close>

definition mode_example_srdb :: srdb where
  "mode_example_srdb = \<lparr>srdb_version = ''1.0'', srdb_apid_default = 0x10, srdb_safe_tc_whitelist = [], srdb_safe_tc_count = 0,
     srdb_event_boot_complete = 1, srdb_event_safe_mode_entry = 2, srdb_event_nominal_entry = 3,
     srdb_event_standby_entry = 4, srdb_event_temperature_hard_limit = 5, srdb_event_power_fault_3v3 = 6,
     srdb_event_power_fault_5v = 7, srdb_hk_fdir_hk = 2, srdb_hk_aocs_bdot_hk = 7,
     srdb_hk_fdir_hk_sizes = [2, 4, 4], srdb_hk_aocs_bdot_hk_sizes = [4, 4, 4, 4, 4, 4, 1],
     srdb_tc_set_obt_svc = 9, srdb_tc_set_obt_subsvc = 128, srdb_param_obc_uptime = 1,
     srdb_param_safe_mode_entry_count = 2, srdb_param_watchdog_kick_count = 3, srdb_param_bdot_gain = 4,
     srdb_param_bdot_hpf_tau = 5, srdb_param_adcs_kp = 6, srdb_param_adcs_kd = 7\<rparr>"

lemma mode_reports_changes_witness:
  "let m = obsw_mode_task_init mode_example_srdb in
   tm_offered None (s5_packets (md_s5 m) [(4, 2), (1, 3)])
     (snd (mode_run mode_example_srdb
       [Mode_tick, Request_safe, Mode_tick, Request_nominal, Mode_tick, Mode_tick] (m, None)))"
proof -
  define db where "db = mode_example_srdb"
  define m where "m = obsw_mode_task_init db"
  define evs where "evs = [Mode_tick, Request_safe, Mode_tick, Request_nominal, Mode_tick, Mode_tick]"
  have ev: "mode_entry_event db OBSW_FSM_SAFE = (4, 2)" "mode_entry_event db OBSW_FSM_NOMINAL = (1, 3)"
    by (simp_all add: mode_entry_event_def db_def mode_example_srdb_def)
  have tr: "md_last m # mode_trace db evs (m, None)
      = [OBSW_FSM_STANDBY, OBSW_FSM_STANDBY, OBSW_FSM_SAFE, OBSW_FSM_NOMINAL, OBSW_FSM_NOMINAL]"
    by (simp add: m_def evs_def obsw_mode_request_safe_def obsw_mode_request_nominal_def
        mode_tick_effects mode_process_requests_effect Let_def mode_init_last word_le_nat_alt)
  have "tm_ok None" "s5_on_event (md_s5 m) = None"
    by (simp_all add: m_def obsw_mode_task_init_def Let_def)
  from mode_reports_changes [OF this, of db evs "fst (mode_run db evs (m, None))"
      "snd (mode_run db evs (m, None))"]
  show ?thesis unfolding tr by (simp add: ev flip: db_def m_def evs_def)
qed

text \<open>
  STANDBY ends.  Whatever the history, once the task is in STANDBY with no request for
  STANDBY pending or to come, it has entered SAFE before 300 further iterations are over,
  whatever else is requested in between.
\<close>

theorem mode_standby_times_out:
  assumes "mode_reach db hist (m, store)" "md_mode m = OBSW_FSM_STANDBY" "\<not> md_req_standby m"
    and "Request_standby \<notin> set evs" "300 \<le> count_list evs Mode_tick"
  shows "\<exists>k \<le> length evs. md_mode (fst (mode_run db (take k evs) (m, store))) = OBSW_FSM_SAFE"
proof -
  have t: "md_standby_ticks m < STANDBY_SAFE_TIMEOUT_S"
    using mode_reach_timed [OF assms(1)] assms(2) by (simp add: standby_timed_def)
  have "300 \<le> unat (md_standby_ticks m) + count_list evs Mode_tick" using assms(5) by simp
  from this t assms(2,3,4) show ?thesis
  proof (induction evs arbitrary: m store)
    case Nil
    then show ?case by (simp add: word_less_nat_alt)
  next
    case (Cons ev evs)
    obtain m1 store1 where s: "mode_step db ev (m, store) = (m1, store1)" by fastforce
    have later: "\<exists>k \<le> length (ev # evs). md_mode (fst (mode_run db (take k (ev # evs)) (m, store))) = OBSW_FSM_SAFE"
      if "\<exists>k \<le> length evs. md_mode (fst (mode_run db (take k evs) (m1, store1))) = OBSW_FSM_SAFE"
    proof -
      from that obtain k where "k \<le> length evs" "md_mode (fst (mode_run db (take k evs) (m1, store1))) = OBSW_FSM_SAFE"
        by blast
      with s show ?thesis by (intro exI [of _ "Suc k"]) simp
    qed
    have ev: "ev \<noteq> Request_standby" using Cons.prems(5) by auto
    have stay: "ev \<noteq> Mode_tick \<Longrightarrow> md_mode m1 \<noteq> OBSW_FSM_SAFE \<Longrightarrow>
        md_mode m1 = OBSW_FSM_STANDBY \<and> md_standby_ticks m1 = md_standby_ticks m \<and> \<not> md_req_standby m1"
      using s Cons.prems(3,4) ev by (cases ev) (auto simp: mode_step_def)
    have tick: "ev = Mode_tick \<Longrightarrow> md_mode m1 \<noteq> OBSW_FSM_SAFE \<Longrightarrow>
        md_mode m1 = OBSW_FSM_STANDBY \<and> md_standby_ticks m1 = md_standby_ticks m + 1 \<and> \<not> md_req_standby m1
        \<and> md_standby_ticks m1 < STANDBY_SAFE_TIMEOUT_S"
      using mode_tick_effect [of db m store] s Cons.prems(3,4)
      by (auto simp: mode_process_requests_effect Let_def not_le split: if_splits)
    show ?case
    proof (cases "md_mode m1 = OBSW_FSM_SAFE")
      case True
      with s show ?thesis by (intro exI [of _ 1]) simp
    next
      case False
      have u: "ev = Mode_tick \<Longrightarrow> unat (md_standby_ticks m + 1) = unat (md_standby_ticks m) + 1"
        using Cons.prems(2) by (subst unat_add_small) (simp_all add: word_less_nat_alt)
      show ?thesis
        using later [OF Cons.IH [of m1 store1]] stay tick u False Cons.prems by (cases "ev = Mode_tick") auto
    qed
  qed
qed

lemma mode_standby_times_out_witness:
  "\<exists>k \<le> 300. md_mode (fst (mode_run mode_example_srdb (take k (replicate 300 Mode_tick))
     (obsw_mode_task_init mode_example_srdb, None))) = OBSW_FSM_SAFE"
proof -
  have "count_list (replicate n x) x = n" for n and x :: mode_event by (induction n) simp_all
  then show ?thesis
    using mode_standby_times_out [OF mode_reach.init, of mode_example_srdb "replicate 300 Mode_tick" None] by simp
qed

text \<open>
  A request for NOMINAL that is pending was made after the last request for another mode.
\<close>

definition nominal_requested :: "mode_event list \<Rightarrow> bool" where
  "nominal_requested evs \<longleftrightarrow> (\<exists>a b. evs = a @ Request_nominal # b
     \<and> Request_safe \<notin> set b \<and> Request_standby \<notin> set b)"

lemma nominal_requested_snoc:
  "nominal_requested evs \<Longrightarrow> ev \<noteq> Request_safe \<Longrightarrow> ev \<noteq> Request_standby \<Longrightarrow> nominal_requested (evs @ [ev])"
  by (fastforce simp: nominal_requested_def)

lemma nominal_requested_now: "nominal_requested (evs @ [Request_nominal])"
  by (fastforce simp: nominal_requested_def)

lemma mode_reach_nominal:
  "mode_reach db evs ms \<Longrightarrow> md_req_nominal (fst ms) \<Longrightarrow> nominal_requested evs"
proof (induction rule: mode_reach.induct)
  case (step evs ms ev)
  then show ?case
    by (cases ev) (auto simp: mode_tick_effects intro: nominal_requested_snoc nominal_requested_now)
qed simp

text \<open>
  C35: NOMINAL only on command and only from SAFE.  In any run since boot, a step that brings
  the platform into NOMINAL is an iteration of the task that found it in SAFE, and a request
  for NOMINAL was made after which neither SAFE nor STANDBY was requested; so no fault, no
  time-out and no superseded command recovers the platform by itself.
\<close>

theorem mode_nominal_on_command:
  assumes "mode_reach db hist ms" "md_mode (fst (mode_step db ev ms)) = OBSW_FSM_NOMINAL"
    and "md_mode (fst ms) \<noteq> OBSW_FSM_NOMINAL"
  shows "ev = Mode_tick \<and> md_mode (fst ms) = OBSW_FSM_SAFE \<and> nominal_requested hist"
proof (cases ev)
  case Mode_tick
  with assms(2,3) have "md_mode (fst ms) = OBSW_FSM_SAFE" "md_req_nominal (fst ms)"
    by (auto simp: mode_tick_effects Let_def split: if_splits)
  with mode_reach_nominal [OF assms(1)] Mode_tick show ?thesis by simp
qed (use assms in simp_all)

lemma mode_nominal_on_command_witness:
  "let ms = mode_run mode_example_srdb [Fault_safe, Mode_tick, Request_nominal]
         (obsw_mode_task_init mode_example_srdb, None) in
   md_mode (fst (mode_step mode_example_srdb Mode_tick ms)) = OBSW_FSM_NOMINAL \<and>
   nominal_requested [Fault_safe, Mode_tick, Request_nominal]"
proof -
  define ms where "ms = mode_run mode_example_srdb [Fault_safe, Mode_tick, Request_nominal]
         (obsw_mode_task_init mode_example_srdb, None)"
  have r: "mode_reach mode_example_srdb [Fault_safe, Mode_tick, Request_nominal] ms"
    using mode_reach.init [THEN mode_reach.step [where ev = Fault_safe],
      THEN mode_reach.step [where ev = Mode_tick], THEN mode_reach.step [where ev = Request_nominal],
      of mode_example_srdb None] by (simp add: ms_def)
  have m: "md_mode (fst ms) = OBSW_FSM_SAFE" "md_mode (fst (mode_step mode_example_srdb Mode_tick ms)) = OBSW_FSM_NOMINAL"
    by (simp_all add: ms_def obsw_mode_request_nominal_def mode_tick_effects Let_def mode_process_requests_effect)
  with mode_nominal_on_command [OF r m(2)] show ?thesis unfolding ms_def [symmetric] Let_def by simp
qed

text \<open>
  A request for STANDBY right after the time-out is lost.  The time-out leaves its counter
  at the limit, so when the iteration after it consumes a request for STANDBY, that same
  iteration times out again: the platform is in SAFE before and after, nothing is reported,
  and the request is gone.
\<close>

theorem mode_standby_lost:
  assumes "mode_reach db hist (m, store)" "md_mode m = OBSW_FSM_STANDBY" "\<not> md_req_safe m"
    and "mode_step db Mode_tick (m, store) = (m1, store1)" "md_mode m1 = OBSW_FSM_SAFE"
    and "mode_step db Mode_tick (obsw_mode_request_standby m1, store1) = (m2, store2)"
  shows "md_mode m2 = OBSW_FSM_SAFE \<and> \<not> md_req_standby m2 \<and> md_s5 m2 = md_s5 m1 \<and> store2 = store1"
proof -
  define p where "p = mode_standby_timeout (mode_process_requests (obsw_mode_request_standby m1))"
  have ticks: "md_standby_ticks m < STANDBY_SAFE_TIMEOUT_S"
    using mode_reach_timed [OF assms(1)] assms(2) by (simp add: standby_timed_def)
  have "md_standby_ticks m + 1 \<ge> STANDBY_SAFE_TIMEOUT_S"
    using mode_tick_effect(1) [of db m store] assms(2-5) by (auto simp: Let_def split: if_splits)
  moreover have "unat (md_standby_ticks m + 1) = unat (md_standby_ticks m) + 1"
    using ticks by (subst unat_add_small) (simp_all add: word_less_nat_alt)
  ultimately have "md_standby_ticks m + 1 = STANDBY_SAFE_TIMEOUT_S"
    using ticks by (simp add: word_less_nat_alt word_le_nat_alt word_unat_eq_iff)
  then have t: "md_standby_ticks m1 = STANDBY_SAFE_TIMEOUT_S"
    using mode_tick_effect(5) [of db m store] assms(2-4) by (simp add: mode_process_requests_effect)
  have q: "\<not> md_req_safe m1" "md_last m1 = OBSW_FSM_SAFE" "\<not> md_req_nominal (obsw_mode_request_standby m1)"
    using mode_tick_effect(2,6) [of db m store] assms(4,5) by simp_all
  have p: "md_mode p = OBSW_FSM_SAFE" "md_last p = OBSW_FSM_SAFE" "\<not> md_req_standby p" "md_s5 p = md_s5 m1"
    using q t by (simp_all add: p_def mode_standby_timeout_effect mode_process_requests_effect
        obsw_mode_request_standby_def word_le_nat_alt)
  have "(m2, store2) = mode_report_change db (p, store1)"
    using assms(6) by (simp add: mode_tick_def p_def)
  then have "(m2, store2) = (p, store1)"
    using p(1,2) by (simp add: mode_report_change_def obsw_fsm_mode_def Let_def)
  with p show ?thesis by simp
qed

lemma mode_waits:
  assumes "n < 300"
  shows "mode_reach db (replicate n Mode_tick) (mode_run db (replicate n Mode_tick) (obsw_mode_task_init db, store))
    \<and> (let m = fst (mode_run db (replicate n Mode_tick) (obsw_mode_task_init db, store))
       in md_mode m = OBSW_FSM_STANDBY \<and> \<not> md_req_safe m \<and> \<not> md_req_standby m \<and> unat (md_standby_ticks m) = n)"
  using assms
proof (induction n)
  case 0
  then show ?case by (simp add: mode_reach.init)
next
  case (Suc n)
  define ms where "ms = mode_run db (replicate n Mode_tick) (obsw_mode_task_init db, store)"
  have ih: "mode_reach db (replicate n Mode_tick) ms" "md_mode (fst ms) = OBSW_FSM_STANDBY"
    "\<not> md_req_safe (fst ms)" "\<not> md_req_standby (fst ms)" "unat (md_standby_ticks (fst ms)) = n"
    using Suc by (simp_all add: ms_def Let_def)
  have u: "unat (md_standby_ticks (fst ms) + 1) = Suc n"
    using ih(5) Suc.prems by (subst unat_add_small) simp_all
  have r: "replicate (Suc n) Mode_tick = replicate n Mode_tick @ [Mode_tick]"
    by (simp add: replicate_append_same)
  show ?case
    using mode_reach.step [OF ih(1), of Mode_tick] ih(2-4) u Suc.prems
    unfolding r mode_run_simps(3) ms_def [symmetric]
    by (simp add: Let_def mode_tick_effects mode_process_requests_effect word_le_nat_alt)
qed

lemma mode_standby_lost_witness:
  "let (m1, store1) = mode_run mode_example_srdb (replicate 300 Mode_tick)
         (obsw_mode_task_init mode_example_srdb, None);
       (m2, store2) = mode_step mode_example_srdb Mode_tick (obsw_mode_request_standby m1, store1)
   in md_mode m1 = OBSW_FSM_SAFE \<and> md_mode m2 = OBSW_FSM_SAFE \<and> \<not> md_req_standby m2 \<and> md_s5 m2 = md_s5 m1"
proof -
  define db where "db = mode_example_srdb"
  define ms where "ms = mode_run db (replicate 299 Mode_tick) (obsw_mode_task_init db, None)"
  obtain m store where m: "ms = (m, store)" by (cases ms)
  have w: "mode_reach db (replicate 299 Mode_tick) (m, store)" "md_mode m = OBSW_FSM_STANDBY"
    "\<not> md_req_safe m" "\<not> md_req_standby m" "unat (md_standby_ticks m) = 299"
    using mode_waits [of 299 db None] by (simp_all add: m ms_def [symmetric] Let_def)
  obtain m1 store1 where 1: "mode_step db Mode_tick (m, store) = (m1, store1)" by fastforce
  obtain m2 store2 where 2: "mode_step db Mode_tick (obsw_mode_request_standby m1, store1) = (m2, store2)"
    by fastforce
  have "unat (md_standby_ticks m + 1) = 300" using w(5) by (subst unat_add_small) simp_all
  then have s: "md_mode m1 = OBSW_FSM_SAFE"
    using 1 w mode_tick_effect(1) [of db m store] by (simp add: Let_def word_le_nat_alt)
  have "replicate 300 Mode_tick = replicate 299 Mode_tick @ [Mode_tick]"
    using replicate_add [of 299 1 Mode_tick] by simp
  then have "mode_run db (replicate 300 Mode_tick) (obsw_mode_task_init db, None) = (m1, store1)"
    using 1 by (simp add: ms_def [symmetric] m)
  with 2 s mode_standby_lost [OF w(1-3) 1 s 2] show ?thesis by (simp add: db_def [symmetric])
qed

end
