(* ===== verification/Tmtc_Task.thy ===== *)
theory Tmtc_Task
  imports Tm_Store Pus_Tm
begin

section \<open>The TMTC task\<close>

text \<open>
  \<^verbatim>\<open>src/task/tmtc.c\<close> and \<^verbatim>\<open>include/obsw/task/tmtc.h\<close>: the task that owns the serial link.  One
  iteration of its loop, \<open>tmtc_iter\<close>, reads one type-framed unit of the uplink, hands a TC frame
  to the queue of the PUS task and sends the pending telemetry.

  The link is two byte lists, what the device has received and not yet handed over, and what
  was written to it.  Reading is blocking: an iteration that needs a byte the link does not
  have is \<open>None\<close>, the task waits.  The queue is one of FreeRTOS, so its operations are
  arguments, and what is proved relies on the contract \<open>bounded_fifo\<close> with the depth of 4
  that the task asks for.  The registers and the interrupt handler decide when the idle task
  is woken and change none of this state.
\<close>

abbreviation (input) WIRE_TC :: u8 where "WIRE_TC \<equiv> 0x01"
abbreviation (input) WIRE_TM :: u8 where "WIRE_TM \<equiv> 0x04"
abbreviation (input) WIRE_EOT :: u8 where "WIRE_EOT \<equiv> 0xFF"
abbreviation (input) OBSW_TC_FRAME_MAX :: u16 where "OBSW_TC_FRAME_MAX \<equiv> 512"
abbreviation (input) OBSW_TM_LOG_DEPTH :: u8 where "OBSW_TM_LOG_DEPTH \<equiv> 8"
abbreviation (input) TC_QUEUE_DEPTH :: nat where "TC_QUEUE_DEPTH \<equiv> 4"

text \<open>Of the 512 data bytes of an item only the first \<open>len\<close> are ever written; these are kept.\<close>

record obsw_tc_frame_item =
  item_data :: "u8 list"
  item_len :: u16

record obsw_tm_log_entry =
  log_svc :: u8
  log_subsvc :: u8

record obsw_tm_log =
  log_buf :: "obsw_tm_log_entry list"
  log_write_idx :: u8
  log_read_idx :: u8

record 'q tmtc =
  tt_store :: "obsw_tm_store option"
  tt_tm_pkt :: "u8 list"
  tt_log :: obsw_tm_log
  tt_queue :: 'q
  tt_rx :: "u8 list"
  tt_tx :: "u8 list"

subsection \<open>Operations\<close>

definition uart_getc :: "'q tmtc \<Rightarrow> (u8 \<times> 'q tmtc) option" where
  "uart_getc t = (case tt_rx t of [] \<Rightarrow> None | b # r \<Rightarrow> Some (b, t\<lparr>tt_rx := r\<rparr>))"

definition uart_write :: "u8 list \<Rightarrow> nat \<Rightarrow> 'q tmtc \<Rightarrow> 'q tmtc" where
  "uart_write buf n t = t\<lparr>tt_tx := tt_tx t @ take n buf\<rparr>"

definition tm_label :: "u8 \<Rightarrow> u8 \<Rightarrow> u8 list" where
  "tm_label svc subsvc =
    [0x23, 0x20, 0x54, 0x4D, 0x28]
    @ (if svc \<ge> 10 then [0x30 + svc div 10] else []) @ [0x30 + svc mod 10, 0x2C]
    @ (if subsvc \<ge> 10 then [0x30 + subsvc div 10] else []) @ [0x30 + subsvc mod 10, 0x29, 0x0D, 0x0A]"

definition tm_uart_label :: "u8 \<Rightarrow> u8 \<Rightarrow> 'q tmtc \<Rightarrow> 'q tmtc" where
  "tm_uart_label svc subsvc t =
    (let buf = tm_label svc subsvc in uart_write buf (length buf) t)"

definition log_tm :: "u8 \<Rightarrow> u8 \<Rightarrow> obsw_tm_log \<Rightarrow> obsw_tm_log" where
  "log_tm svc subsvc l =
    l\<lparr>log_buf := (log_buf l)[unat (log_write_idx l mod OBSW_TM_LOG_DEPTH) :=
        \<lparr>log_svc = svc, log_subsvc = subsvc\<rparr>],
      log_write_idx := log_write_idx l + 1\<rparr>"

text \<open>One round of the flush loop; \<open>None\<close> when there is nothing left to send.\<close>

definition flush_one :: "'q tmtc \<Rightarrow> u16 \<Rightarrow> ('q tmtc \<times> u16) option" where
  "flush_one t plen =
    (case obsw_tm_store_dequeue (tt_store t) (Some (tt_tm_pkt t)) 1024 (Some plen) of
       (rc, store', pkt', plen') \<Rightarrow>
         if rc \<noteq> OBSW_TM_OK then None
         else
           let pkt = the pkt'; plen = the plen';
               t1 = t\<lparr>tt_store := store', tt_tm_pkt := pkt\<rparr>;
               t2 = uart_write [WIRE_TM, ucast (drop_bit 8 plen), ucast (plen AND 0xFF)] 3 t1;
               t3 = uart_write pkt (unat plen) t2
           in Some (if plen \<ge> 9
                    then let svc = pkt ! 7; subsvc = pkt ! 8 in
                      tm_uart_label svc subsvc (t3\<lparr>tt_log := log_tm svc subsvc (tt_log t3)\<rparr>)
                    else t3, plen))"

partial_function (option) flush_loop :: "'q tmtc \<Rightarrow> u16 \<Rightarrow> 'q tmtc option" where
  "flush_loop t plen =
    (case flush_one t plen of None \<Rightarrow> Some t | Some r \<Rightarrow> flush_loop (fst r) (snd r))"

definition flush_tm :: "'q tmtc \<Rightarrow> 'q tmtc option" where
  "flush_tm t = flush_loop t 0"

text \<open>Read \<open>n\<close> bytes of a frame, one at a time.\<close>

fun uart_get_bytes :: "nat \<Rightarrow> 'q tmtc \<Rightarrow> (u8 list \<times> 'q tmtc) option" where
  "uart_get_bytes 0 t = Some ([], t)"
| "uart_get_bytes (Suc n) t =
    (case uart_getc t of None \<Rightarrow> None
     | Some (b, t1) \<Rightarrow>
         (case uart_get_bytes n t1 of None \<Rightarrow> None | Some (bs, t2) \<Rightarrow> Some (b # bs, t2)))"

definition tmtc_end_of_tick :: "'q tmtc \<Rightarrow> 'q tmtc option" where
  "tmtc_end_of_tick t = map_option (uart_write [WIRE_EOT] 1) (flush_tm t)"

definition tmtc_iter :: "('q \<Rightarrow> obsw_tc_frame_item \<Rightarrow> 'q option) \<Rightarrow> 'q tmtc \<Rightarrow> 'q tmtc option" where
  "tmtc_iter q_send t =
    (if tt_rx t = [] then flush_tm t
     else case uart_getc t of None \<Rightarrow> None | Some (ty, t1) \<Rightarrow>
       (case uart_getc t1 of None \<Rightarrow> None | Some (hi, t2) \<Rightarrow>
       (case uart_getc t2 of None \<Rightarrow> None | Some (lo, t3) \<Rightarrow>
         let flen = push_bit 8 (ucast hi) OR ucast lo :: u16 in
         if flen = 0 \<or> flen > OBSW_TC_FRAME_MAX then tmtc_end_of_tick t3
         else
           (case uart_get_bytes (unat flen) t3 of None \<Rightarrow> None
            | Some (d, t4) \<Rightarrow>
                let t5 = (if ty = WIRE_TC
                          then (case q_send (tt_queue t4) \<lparr>item_data = d, item_len = flen\<rparr> of
                                  Some q \<Rightarrow> t4\<lparr>tt_queue := q\<rparr> | None \<Rightarrow> t4)
                          else t4)
                in tmtc_end_of_tick t5))))"

text \<open>\<open>n\<close> iterations of the task.\<close>

fun tmtc_run :: "('q \<Rightarrow> obsw_tc_frame_item \<Rightarrow> 'q option) \<Rightarrow> nat \<Rightarrow> 'q tmtc \<Rightarrow> 'q tmtc option" where
  "tmtc_run q_send 0 t = Some t"
| "tmtc_run q_send (Suc n) t =
    (case tmtc_iter q_send t of None \<Rightarrow> None | Some t' \<Rightarrow> tmtc_run q_send n t')"

definition obsw_tmtc_task_init :: "obsw_tm_store option \<Rightarrow> 'q \<Rightarrow> u8 list \<Rightarrow> 'q tmtc" where
  "obsw_tmtc_task_init store queue rx =
    \<lparr>tt_store = store, tt_tm_pkt = replicate 1024 0,
     tt_log = \<lparr>log_buf = replicate 8 \<lparr>log_svc = 0, log_subsvc = 0\<rparr>, log_write_idx = 0, log_read_idx = 0\<rparr>,
     tt_queue = queue, tt_rx = rx, tt_tx = []\<rparr>"

subsection \<open>The downlink\<close>

text \<open>The frame of a packet on the link, and the log entries it leaves.\<close>

definition wire_frame :: "u8 list \<Rightarrow> u8 list" where
  "wire_frame p = [WIRE_TM] @ be_bytes16 (of_nat (length p)) @ p
     @ (if 9 \<le> length p then tm_label (p ! 7) (p ! 8) else [])"

definition log_packet :: "u8 list \<Rightarrow> obsw_tm_log \<Rightarrow> obsw_tm_log" where
  "log_packet p l = (if 9 \<le> length p then log_tm (p ! 7) (p ! 8) l else l)"

definition tmtc_ok :: "'q tmtc \<Rightarrow> bool" where
  "tmtc_ok t \<longleftrightarrow> tt_store t \<noteq> None \<and> tm_ok (tt_store t) \<and> length (tt_tm_pkt t) = 1024"

lemma flush_one_step:
  assumes "tmtc_ok t" "tm_queue (tt_store t) = p # ps"
  obtains t' plen' where "flush_one t plen = Some (t', plen')" "tmtc_ok t'"
    "tm_queue (tt_store t') = ps" "tt_tx t' = tt_tx t @ wire_frame p"
    "tt_log t' = log_packet p (tt_log t)" "tt_rx t' = tt_rx t" "tt_queue t' = tt_queue t"
proof -
  obtain st where st: "tt_store t = Some st" "store_wf st" "store_packets st = p # ps"
    using assms by (auto simp: tmtc_ok_def)
  have p: "length p \<le> 1024" using store_packets_length_le [OF st(2), of p] st(3) by simp
  have l: "unat (of_nat (length p) :: u16) = length p" using p by (intro unat_of_nat_small) simp
  let ?pkt = "memcpy_at (tt_tm_pkt t) 0 p (length p)"
  obtain st' where d: "obsw_tm_store_dequeue (Some st) (Some (tt_tm_pkt t)) 1024 (Some plen)
      = (OBSW_TM_OK, Some st', Some ?pkt, Some (of_nat (length p)))" "store_wf st'" "store_packets st' = ps"
    using store_dequeue_spec [OF st(2,3), of 1024 "tt_tm_pkt t" plen] p assms(1)
    by (auto simp: tmtc_ok_def)
  have pk: "take (length p) ?pkt = p" "length ?pkt = 1024" using p assms(1)
    by (simp_all add: memcpy_at_def tmtc_ok_def)
  have nth: "?pkt ! i = p ! i" if "i < length p" for i
    using that pk(1) by (metis nth_take)
  have nine: "(of_nat (length p) :: u16) \<ge> 9 \<longleftrightarrow> 9 \<le> length p"
    using l by (simp add: word_le_nat_alt)
  obtain r where r: "flush_one t plen = Some r" by (simp add: flush_one_def st(1) d(1) Let_def)
  have "tmtc_ok (fst r) \<and> tm_queue (tt_store (fst r)) = ps \<and> tt_tx (fst r) = tt_tx t @ wire_frame p
      \<and> tt_log (fst r) = log_packet p (tt_log t) \<and> tt_rx (fst r) = tt_rx t \<and> tt_queue (fst r) = tt_queue t"
    using r d(2,3) nth [of 7] nth [of 8] pk
    by (auto simp: flush_one_def st(1) d(1) Let_def nine l tmtc_ok_def uart_write_def tm_uart_label_def
        wire_frame_def be_bytes16_def log_packet_def)
  then show thesis using that [of "fst r" "snd r"] r by simp
qed

lemma flush_one_done:
  assumes "tmtc_ok t" "tm_queue (tt_store t) = []"
  shows "flush_one t plen = None"
  using assms store_dequeue_refused(1) by (auto simp: tmtc_ok_def flush_one_def)

text \<open>The loop ends, and everything that was queued has been sent.\<close>

lemma flush_loop_all:
  assumes "tmtc_ok t"
  shows "\<exists>t'. flush_loop t plen = Some t' \<and> tmtc_ok t' \<and> tm_queue (tt_store t') = []
    \<and> tt_tx t' = tt_tx t @ concat (map wire_frame (tm_queue (tt_store t)))
    \<and> tt_log t' = fold log_packet (tm_queue (tt_store t)) (tt_log t)
    \<and> tt_rx t' = tt_rx t \<and> tt_queue t' = tt_queue t"
proof -
  obtain ps where "tm_queue (tt_store t) = ps" by simp
  with assms show ?thesis
  proof (induction ps arbitrary: t plen)
    case Nil
    then show ?case by (subst flush_loop.simps) (simp add: flush_one_done)
  next
    case (Cons p ps)
    obtain t1 plen1 where 1: "flush_one t plen = Some (t1, plen1)" "tmtc_ok t1"
      "tm_queue (tt_store t1) = ps" "tt_tx t1 = tt_tx t @ wire_frame p"
      "tt_log t1 = log_packet p (tt_log t)" "tt_rx t1 = tt_rx t" "tt_queue t1 = tt_queue t"
      by (rule flush_one_step [OF Cons.prems])
    from Cons.IH [OF 1(2,3), of plen1] show ?case
      by (subst flush_loop.simps) (simp add: 1 Cons.prems(2))
  qed
qed

lemmas flush_tm_all = flush_loop_all [where plen = 0, folded flush_tm_def]

text \<open>
  The decoder of the ground tools, \<^verbatim>\<open>decode_tm_packets\<close> of \<^verbatim>\<open>tools/ping_uart.py\<close>: skip to the
  type byte of a TM frame, read the length, take the packet.
\<close>

function wire_decode :: "u8 list \<Rightarrow> u8 list list" where
  "wire_decode [] = []"
| "wire_decode (b # r) =
    (if b \<noteq> WIRE_TM then wire_decode r
     else if length r < 2 then []
     else let n = unat (obsw_be16 r); d = drop 2 r in
       if length d < n then [] else take n d # wire_decode (drop n d))"
  by pat_completeness auto
termination by (relation "measure length") auto

lemma wire_decode_skip: "WIRE_TM \<notin> set xs \<Longrightarrow> wire_decode (xs @ ys) = wire_decode ys"
  by (induction xs) auto

lemma tm_label_digit: "(0x30 :: u8) + x div 10 \<noteq> 4" "(0x30 :: u8) + x mod 10 \<noteq> 4"
proof -
  have b: "unat (x div 10) \<le> 25" "unat (x mod 10) < 10"
    using u8_less_256 [of x] by (simp_all add: unat_div unat_mod)
  have large: "(0x30 :: u8) + y \<noteq> 4" if "unat y \<le> 25" for y
  proof
    assume e: "0x30 + y = 4"
    have "unat (0x30 + y) = 0x30 + unat y" using that by (subst unat_add_small) simp_all
    then show False unfolding e by simp
  qed
  from b show "0x30 + x div 10 \<noteq> 4" by (intro large)
  from b show "0x30 + x mod 10 \<noteq> 4" by (intro large) simp
qed

lemma tm_label_no_type: "WIRE_TM \<notin> set (tm_label svc subsvc)"
  using tm_label_digit [symmetric] by (auto simp: tm_label_def)

lemma wire_decode_frame:
  assumes "length p < 65536"
  shows "wire_decode (wire_frame p @ ys) = p # wire_decode ys"
proof -
  let ?l = "if 9 \<le> length p then tm_label (p ! 7) (p ! 8) else []"
  have "unat (of_nat (length p) :: u16) = length p" using assms by (intro unat_of_nat_small) simp
  moreover have "WIRE_TM \<notin> set ?l" using tm_label_no_type by simp
  ultimately show ?thesis
    by (simp add: wire_frame_def be16_be_bytes16 wire_decode_skip [of ?l] del: set_simps)
qed

lemma wire_decode_frames:
  "\<forall>p \<in> set ps. length p < 65536 \<Longrightarrow> wire_decode (concat (map wire_frame ps) @ ys) = ps @ wire_decode ys"
  by (induction ps) (simp_all add: wire_decode_frame)

lemma tm_queue_small: "tm_ok s \<Longrightarrow> p \<in> set (tm_queue s) \<Longrightarrow> length p < 65536"
  using store_packets_length_le by (fastforce simp: tm_queue_def split: option.splits)

subsection \<open>The uplink\<close>

definition wire_tc :: "u8 \<times> u8 list \<Rightarrow> u8 list" where
  "wire_tc f = (case f of (ty, d) \<Rightarrow> ty # be_bytes16 (of_nat (length d)) @ d)"

lemma uart_get_bytes_append:
  "tt_rx t = d @ r \<Longrightarrow> uart_get_bytes (length d) t = Some (d, t\<lparr>tt_rx := r\<rparr>)"
  by (induction d arbitrary: t) (simp_all add: uart_getc_def)

definition tc_items :: "(u8 \<times> u8 list) list \<Rightarrow> obsw_tc_frame_item list" where
  "tc_items fs = map (\<lambda>f. \<lparr>item_data = snd f, item_len = of_nat (length (snd f))\<rparr>)
    (filter (\<lambda>f. fst f = WIRE_TC) fs)"

text \<open>One iteration on a whole frame: what the queue holds, and what was sent.\<close>

lemma tmtc_iter_frame:
  assumes q: "bounded_fifo q_send q_recv q_items q_inv TC_QUEUE_DEPTH (\<lambda>_. True)" "q_inv (tt_queue t)"
    and t: "tmtc_ok t" "tt_rx t = wire_tc (ty, d) @ r"
    and d: "1 \<le> length d" "length d \<le> 512"
  obtains t' where "tmtc_iter q_send t = Some t'" "tmtc_ok t'" "q_inv (tt_queue t')" "tt_rx t' = r"
    "q_items (tt_queue t') = q_items (tt_queue t)
      @ take (TC_QUEUE_DEPTH - length (q_items (tt_queue t))) (tc_items [(ty, d)])"
    "tm_queue (tt_store t') = []"
    "tt_tx t' = tt_tx t @ concat (map wire_frame (tm_queue (tt_store t))) @ [WIRE_EOT]"
proof -
  have n: "unat (of_nat (length d) :: u16) = length d" using d(2) by (intro unat_of_nat_small) simp
  have w: "wire_tc (ty, d) @ r = ty # ucast (drop_bit 8 (of_nat (length d) :: u16))
      # ucast (of_nat (length d) AND 0xFF :: u16) # d @ r"
    by (simp add: wire_tc_def be_bytes16_def)
  have flen: "push_bit 8 (ucast (ucast (drop_bit 8 x) :: u8)) OR ucast (ucast (x AND 0xFF) :: u8) = x" for x :: u16
    using be16_be_bytes16 [of x "[]"] by (simp add: obsw_be16_def be_bytes16_def)
  have ok: "(of_nat (length d) :: u16) \<noteq> 0" "\<not> (of_nat (length d) :: u16) > OBSW_TC_FRAME_MAX"
    using d n by (auto simp: word_less_nat_alt word_unat_eq_iff)
  let ?i = "\<lparr>item_data = d, item_len = of_nat (length d)\<rparr>"
  let ?t5 = "if ty = WIRE_TC
    then (case q_send (tt_queue t) ?i of Some q \<Rightarrow> t\<lparr>tt_rx := r, tt_queue := q\<rparr> | None \<Rightarrow> t\<lparr>tt_rx := r\<rparr>)
    else t\<lparr>tt_rx := r\<rparr>"
  have g: "uart_get_bytes (length d) (t\<lparr>tt_rx := d @ r\<rparr>) = Some (d, t\<lparr>tt_rx := r\<rparr>)"
    using uart_get_bytes_append [of "t\<lparr>tt_rx := d @ r\<rparr>" d r] by simp
  have it: "tmtc_iter q_send t = tmtc_end_of_tick ?t5"
    using t(2) unfolding w
    by (simp add: tmtc_iter_def uart_getc_def flen ok n g Let_def cong: if_cong option.case_cong
        del: ucast_and_255)
  have q5: "q_inv (tt_queue ?t5) \<and> q_items (tt_queue ?t5) = q_items (tt_queue t)
      @ take (TC_QUEUE_DEPTH - length (q_items (tt_queue t))) (tc_items [(ty, d)])"
  proof (cases "length (q_items (tt_queue t)) < TC_QUEUE_DEPTH")
    case True
    then obtain s' where "q_send (tt_queue t) ?i = Some s'" "q_inv s'"
      "q_items s' = q_items (tt_queue t) @ [?i]"
      using bounded_fifo.enq_ok [OF q(1,2), of ?i] by blast
    with True q(2) show ?thesis by (simp add: tc_items_def)
  next
    case False
    then have "q_send (tt_queue t) ?i = None"
      using bounded_fifo.enq_refused [OF q(1,2), of ?i] by blast
    with False q(2) show ?thesis by (simp add: tc_items_def)
  qed
  have t5: "tmtc_ok ?t5" "tt_store ?t5 = tt_store t" "tt_rx ?t5 = r" "tt_tx ?t5 = tt_tx t"
    using t(1) by (auto simp: tmtc_ok_def split: option.split)
  obtain t' where f: "flush_tm ?t5 = Some t'" "tmtc_ok t'" "tm_queue (tt_store t') = []"
    "tt_tx t' = tt_tx t @ concat (map wire_frame (tm_queue (tt_store t)))" "tt_rx t' = r"
    "tt_queue t' = tt_queue ?t5"
    using flush_tm_all [OF t5(1)] unfolding t5(2-4) by blast
  show thesis
  proof (rule that)
    show "tmtc_iter q_send t = Some (uart_write [WIRE_EOT] 1 t')"
      unfolding it tmtc_end_of_tick_def f(1) by simp
  qed (use f q5 in \<open>simp_all add: uart_write_def tmtc_ok_def\<close>)
qed

subsection \<open>Properties\<close>

text \<open>
  C22: The downlink loses nothing and can be decoded.  Sending the pending telemetry ends, empties
  the store, and writes bytes from which the decoder of the ground recovers exactly the packets
  that were queued, in order, whatever follows them on the link: the readable labels between
  the frames are never taken for a frame.
\<close>

theorem tmtc_downlink_decoded:
  assumes "tmtc_ok t"
  shows "\<exists>t' out. flush_tm t = Some t' \<and> tm_queue (tt_store t') = [] \<and> tt_tx t' = tt_tx t @ out
    \<and> (\<forall>rest. wire_decode (out @ rest) = tm_queue (tt_store t) @ wire_decode rest)"
proof -
  obtain t' where "flush_tm t = Some t'" "tm_queue (tt_store t') = []"
    "tt_tx t' = tt_tx t @ concat (map wire_frame (tm_queue (tt_store t)))"
    using flush_tm_all [OF assms] by blast
  moreover have "\<forall>p \<in> set (tm_queue (tt_store t)). length p < 65536"
    using assms tm_queue_small by (auto simp: tmtc_ok_def)
  ultimately show ?thesis by (auto simp: wire_decode_frames)
qed

definition tmtc_example_store :: obsw_tm_store where
  "tmtc_example_store = the (store_enq tm_store_bss [8, 4, 192, 0, 0, 3, 32, 17, 2, 4])"

lemma tmtc_example_store: "store_wf tmtc_example_store"
  "store_packets tmtc_example_store = [[8, 4, 192, 0, 0, 3, 32, 17, 2, 4]]"
  using tm_fifo.enq_ok [of tm_store_bss "[8, 4, 192, 0, 0, 3, 32, 17, 2, 4]"]
  by (auto simp: tmtc_example_store_def)

lemma tmtc_downlink_decoded_witness:
  "\<exists>t' out. flush_tm (obsw_tmtc_task_init (Some tmtc_example_store) () []) = Some t' \<and> tt_tx t' = out
    \<and> wire_decode out = [[8, 4, 192, 0, 0, 3, 32, 17, 2, 4]]"
proof -
  let ?t = "obsw_tmtc_task_init (Some tmtc_example_store) () []"
  have s: "tt_store ?t = Some tmtc_example_store" "tt_tx ?t = []" by (simp_all add: obsw_tmtc_task_init_def)
  have "tmtc_ok ?t" by (simp add: tmtc_ok_def obsw_tmtc_task_init_def tmtc_example_store)
  then obtain t' out where "flush_tm ?t = Some t'" "tt_tx t' = out"
    "wire_decode (out @ []) = tm_queue (Some tmtc_example_store) @ wire_decode []"
    using tmtc_downlink_decoded [of ?t] unfolding s append_Nil by blast
  then show ?thesis by (simp add: tmtc_example_store(2))
qed

text \<open>
  C23: The uplink delivers whole frames.  When the link carries well-formed units of 1 to 512
  bytes, the task handles each in one iteration without waiting, hands exactly the units of
  type TC to the queue of the PUS task, whole and in order, as long as the queue has room,
  drops the others, and leaves the bytes after them unread.
\<close>

theorem tmtc_uplink_queued:
  assumes "bounded_fifo q_send q_recv q_items q_inv TC_QUEUE_DEPTH (\<lambda>_. True)" "q_inv (tt_queue t)"
    and "tmtc_ok t" "tt_rx t = concat (map wire_tc fs) @ rest"
    and "\<forall>f \<in> set fs. 1 \<le> length (snd f) \<and> length (snd f) \<le> 512"
  shows "\<exists>t'. tmtc_run q_send (length fs) t = Some t' \<and> tt_rx t' = rest
    \<and> q_items (tt_queue t') = q_items (tt_queue t)
        @ take (TC_QUEUE_DEPTH - length (q_items (tt_queue t))) (tc_items fs)"
  using assms(2-5)
proof (induction fs arbitrary: t)
  case Nil
  then show ?case by (simp add: tc_items_def)
next
  case (Cons f fs)
  obtain ty d where f: "f = (ty, d)" by (cases f)
  have d: "1 \<le> length d" "length d \<le> 512" using Cons.prems(4) f by simp_all
  have rx: "tt_rx t = wire_tc (ty, d) @ concat (map wire_tc fs) @ rest" using Cons.prems(3) f by simp
  obtain t1 where 1: "tmtc_iter q_send t = Some t1" "tmtc_ok t1" "q_inv (tt_queue t1)"
    "tt_rx t1 = concat (map wire_tc fs) @ rest"
    "q_items (tt_queue t1) = q_items (tt_queue t)
      @ take (TC_QUEUE_DEPTH - length (q_items (tt_queue t))) (tc_items [(ty, d)])"
    by (rule tmtc_iter_frame [OF assms(1) Cons.prems(1,2) rx d])
  have "tc_items (f # fs) = tc_items [(ty, d)] @ tc_items fs" by (simp add: tc_items_def f)
  moreover have "(4 :: nat) - (b + min c (4 - b)) = 4 - (b + c)" for b c by (simp add: min_def)
  ultimately show ?case using Cons.IH [OF 1(3,2,4)] Cons.prems(4) 1(1,5) by auto
qed

definition tc_list_send :: "obsw_tc_frame_item list \<Rightarrow> obsw_tc_frame_item \<Rightarrow> obsw_tc_frame_item list option" where
  "tc_list_send q x = (if length q < TC_QUEUE_DEPTH then Some (q @ [x]) else None)"

definition tc_list_recv :: "obsw_tc_frame_item list \<Rightarrow> (obsw_tc_frame_item \<times> obsw_tc_frame_item list) option" where
  "tc_list_recv q = (case q of [] \<Rightarrow> None | x # r \<Rightarrow> Some (x, r))"

lemma tc_list_fifo: "bounded_fifo tc_list_send tc_list_recv id (\<lambda>_. True) TC_QUEUE_DEPTH (\<lambda>_. True)"
  by unfold_locales (simp_all add: tc_list_send_def tc_list_recv_def)

lemma tmtc_uplink_queued_witness:
  "\<exists>t'. tmtc_run tc_list_send 2 (obsw_tmtc_task_init (Some tm_store_bss) [] [1, 0, 2, 24, 7, 9, 0, 1, 5, 1]) = Some t'
    \<and> tt_rx t' = [1] \<and> tt_queue t' = [\<lparr>item_data = [24, 7], item_len = 2\<rparr>]"
proof -
  let ?t = "obsw_tmtc_task_init (Some tm_store_bss) [] [1, 0, 2, 24, 7, 9, 0, 1, 5, 1]"
  define fs :: "(u8 \<times> u8 list) list" where "fs = [(1, [24, 7]), (9, [5])]"
  have t: "tmtc_ok ?t" by (simp add: tmtc_ok_def obsw_tmtc_task_init_def)
  have rx: "tt_rx ?t = concat (map wire_tc fs) @ [1]"
    by (simp add: fs_def obsw_tmtc_task_init_def wire_tc_def be_bytes16_def)
  have l: "\<forall>f \<in> set fs. 1 \<le> length (snd f) \<and> length (snd f) \<le> 512" by (simp add: fs_def)
  have n: "length fs = 2" "tt_queue ?t = []"
    and c: "tc_items fs = [\<lparr>item_data = [24, 7], item_len = 2\<rparr>]"
    by (simp_all add: fs_def obsw_tmtc_task_init_def tc_items_def)
  from tmtc_uplink_queued [OF tc_list_fifo TrueI t rx l] show ?thesis unfolding n c by simp
qed

text \<open>A length field of 0 or above 512 is answered at once; only the three bytes read are consumed.\<close>

lemma tmtc_iter_bad_length:
  assumes "tmtc_ok t" "tt_rx t = ty # hi # lo # r"
    and "obsw_be16 [hi, lo] = 0 \<or> obsw_be16 [hi, lo] > OBSW_TC_FRAME_MAX"
  shows "\<exists>t'. tmtc_iter q_send t = Some t' \<and> tt_rx t' = r \<and> tt_queue t' = tt_queue t"
proof -
  have "push_bit 8 (ucast hi) OR ucast lo = obsw_be16 [hi, lo]" by (simp add: obsw_be16_def)
  then have "tmtc_iter q_send t = tmtc_end_of_tick (t\<lparr>tt_rx := r\<rparr>)"
    using assms(2,3) by (auto simp: tmtc_iter_def uart_getc_def Let_def)
  moreover have "tmtc_ok (t\<lparr>tt_rx := r\<rparr>)" using assms(1) by (simp add: tmtc_ok_def)
  ultimately show ?thesis
    using flush_tm_all [of "t\<lparr>tt_rx := r\<rparr>"] by (auto simp: tmtc_end_of_tick_def uart_write_def)
qed

text \<open>A unit cut short stops the task, telemetry included, until the link delivers the rest.\<close>

lemma tmtc_iter_waits:
  assumes "0 < length (tt_rx t)" "length (tt_rx t) < 3"
  shows "tmtc_iter q_send t = None"
  using assms by (cases "tt_rx t"; cases "tl (tt_rx t)"; cases "tl (tl (tt_rx t))")
    (simp_all add: tmtc_iter_def uart_getc_def)

end
