(* ===== verification/Tc_Host.thy ===== *)
theory Tc_Host
  imports Pus_S3 Pus_S8 Pus_S11 Pus_S12 Pus_S19
begin

section \<open>A program that hosts the services\<close>

text \<open>
  What the PUS task of the target and the main loop of the simulator have in common: static
  objects, of which each handler gets its own context, one S1 context and one store behind
  all of them, and a dispatcher that answers refused commands through S1.

  The locales state what such a program has to provide; inside them, once for both programs:
  a service that verifies its commands on its own context verifies them in the program, and
  every command that reaches the dispatcher is verified.
\<close>

text \<open>A part of the world is a pair of a reader and a writer.\<close>

definition host_handler ::
  "('w \<Rightarrow> tm_env) \<Rightarrow> (tm_env \<Rightarrow> 'w \<Rightarrow> 'w) \<Rightarrow> ('w \<Rightarrow> 'c) \<times> ('c \<Rightarrow> 'w \<Rightarrow> 'w)
   \<Rightarrow> (obsw_tc option \<Rightarrow> 'c option \<Rightarrow> tm_env \<Rightarrow> int \<times> 'c option \<times> tm_env) \<Rightarrow> 'w tc_handler" where
  "host_handler env set_env p h tc respond w =
    (case h (Some tc) (Some (fst p w)) (env w) of
       (rc, s', e') \<Rightarrow> (rc, set_env e' (snd p (the s') w)))"

definition host_responder :: "('w \<Rightarrow> tm_env) \<Rightarrow> (tm_env \<Rightarrow> 'w \<Rightarrow> 'w) \<Rightarrow> 'w tc_responder" where
  "host_responder env set_env flags tc w = set_env (obsw_s1_dispatch_responder flags tc (env w)) w"

text \<open>One handled command: what \<open>handled\<close> says of a context, said of the world.\<close>

definition host_handled ::
  "('w \<Rightarrow> tm_env) \<Rightarrow> (tm_env \<Rightarrow> 'w \<Rightarrow> 'w) \<Rightarrow> ('w \<Rightarrow> bool) \<Rightarrow> obsw_tc \<Rightarrow> 'w \<Rightarrow> int \<times> 'w \<Rightarrow> bool" where
  "host_handled env set_env inv_w tc w r \<longleftrightarrow> inv_w (snd r)
    \<and> (\<exists>xs. env_does tc (env w) xs (env (snd r)) \<and> verified (fst r) xs
        \<and> ((\<exists>code. xs = [S1 (Refused code)]) \<longrightarrow> snd r = set_env (env (snd r)) w))"

text \<open>What a program may replace its store by: a queue in order, and no store only where there was none.\<close>

definition tm_next :: "obsw_tm_store option \<Rightarrow> obsw_tm_store option \<Rightarrow> bool" where
  "tm_next s s' \<longleftrightarrow> tm_ok s' \<and> (s' = None \<longleftrightarrow> s = None)"

lemma tm_offered_next: "tm_offered s ps s' \<Longrightarrow> tm_next s s'"
  by (simp add: tm_offered_def tm_next_def)

lemma env_does_next: "env_does tc e xs e' \<Longrightarrow> tm_next (env_store e) (env_store e')"
  by (auto simp: env_does_def intro: tm_offered_next)

lemma tm_next_refl [simp]: "tm_ok s \<Longrightarrow> tm_next s s"
  by (simp add: tm_next_def)

locale host_world =
  fixes env :: "'w \<Rightarrow> tm_env" and set_env :: "tm_env \<Rightarrow> 'w \<Rightarrow> 'w" and inv_w :: "'w \<Rightarrow> bool"
  assumes env_set [simp]: "env (set_env e w) = e"
    and env_ok: "inv_w w \<Longrightarrow> tm_ok (env_store (env w))"
    and env_wf: "inv_w w \<Longrightarrow> tm_next (env_store (env w)) (env_store e) \<Longrightarrow> inv_w (set_env e w)"
    and env_self: "set_env (env w) w = w"
begin

text \<open>The responder refuses with one report and touches nothing else.\<close>

lemma responder_does:
  assumes "inv_w w" "flags AND OBSW_TC_ACK_REJECT \<noteq> 0"
  obtains code where "env_does tc (env w) [S1 (Refused code)] (env (host_responder env set_env flags tc w))"
    and "host_responder env set_env flags tc w = set_env (env (host_responder env set_env flags tc w)) w"
    and "code = (if flags AND OBSW_TC_REJECT_GATED \<noteq> 0 then OBSW_S1_FAIL_MODE_GATED
      else if flags AND OBSW_TC_REJECT_SUBSVC \<noteq> 0 then OBSW_S1_FAIL_ILLEGAL_SUBSVC
      else OBSW_S1_FAIL_ILLEGAL_SVC)"
  using that s1_does(2) [of "env w" tc] env_ok [OF assms(1)] assms(2)
  by (auto simp: host_responder_def obsw_s1_dispatch_responder_def Let_def)

lemma responder_wf:
  assumes "inv_w w"
  shows "inv_w (host_responder env set_env flags tc w)"
proof (cases "flags AND OBSW_TC_ACK_REJECT = 0")
  case False
  then obtain code where "env_does tc (env w) [S1 (Refused code)] (env (host_responder env set_env flags tc w))"
    and e: "host_responder env set_env flags tc w = set_env (env (host_responder env set_env flags tc w)) w"
    using assms responder_does by metis
  then show ?thesis using env_wf [OF assms] env_does_next by (subst e) blast
qed (simp add: host_responder_def obsw_s1_dispatch_responder_def assms env_self)

end

locale host_part = host_world +
  fixes p :: "('w \<Rightarrow> 'c) \<times> ('c \<Rightarrow> 'w \<Rightarrow> 'w)" and I :: "'c \<Rightarrow> bool"
  assumes part_get: "inv_w w \<Longrightarrow> I (fst p w)"
    and part_put: "inv_w w \<Longrightarrow> I c \<Longrightarrow> tm_next (env_store (env w)) (env_store e) \<Longrightarrow> inv_w (set_env e (snd p c w))"
    and part_self: "snd p (fst p w) w = w"
begin

lemma hosted:
  assumes "s1_service h I" "inv_w w" "tc_wf tc"
  shows "host_handled env set_env inv_w tc w (host_handler env set_env p h tc respond w)"
proof -
  from s1_service.verifies [OF assms(1) env_ok [OF assms(2)] assms(3) part_get [OF assms(2)], unfolded handled_def]
  obtain rc s' e' xs where h: "h (Some tc) (Some (fst p w)) (env w) = (rc, Some s', e')"
    "I s'" "env_does tc (env w) xs e'" "verified rc xs"
    "\<forall>code. xs = [S1 (Refused code)] \<longrightarrow> s' = fst p w" by blast
  have "host_handler env set_env p h tc respond w = (rc, set_env e' (snd p s' w))"
    by (simp add: host_handler_def h(1))
  moreover have "inv_w (set_env e' (snd p s' w))"
    using assms(2) h(2) env_does_next [OF h(3)] by (rule part_put)
  ultimately show ?thesis
    using h(3-5) part_self [of w] by (auto simp: host_handled_def)
qed

end

subsection \<open>The dispatcher of such a program\<close>

locale host_routes = host_world +
  fixes di :: "'w obsw_tc_dispatcher"
  assumes di_responder: "d_responder di = host_responder env set_env"
    and di_len: "unat (d_table_len di) = length (d_table di)"
    and di_routes: "inv_w w \<Longrightarrow> tc_wf tc \<Longrightarrow> r \<in> set (d_table di) \<Longrightarrow>
      host_handled env set_env inv_w tc w (rt_handler r tc (host_responder env set_env) w)"
begin

sublocale dispatch_inv di inv_w
  by unfold_locales (use di_routes in \<open>simp_all add: di_responder responder_wf host_handled_def\<close>)

lemma routed_verified:
  fixes n :: "'s::len word"
  assumes "17 \<le> LENGTH('s)" "inv_w w" "unat n \<le> length frame" "feed_tc frame n = Some tc"
  shows "\<exists>rc w' xs. obsw_tc_dispatcher_feed (Some di) (Some frame) n w = (rc, w')
    \<and> inv_w w' \<and> env_does tc (env w) xs (env w')
    \<and> verified (if rc = OBSW_TC_OK then 0 else -1) xs
    \<and> ((\<exists>code. xs = [S1 (Refused code)]) \<longrightarrow> w' = set_env (env w') w)
    \<and> ((\<exists>gate. d_gate di = Some gate \<and> \<not> gate tc w) \<longrightarrow>
        rc = OBSW_TC_ERR_GATED \<and> xs = [S1 (Refused OBSW_S1_FAIL_MODE_GATED)])"
proof -
  let ?responder = "host_responder env set_env"
  have tc: "tc_wf tc" by (rule feed_tc_bounds(1) [OF assms(1,3,4)])
  have feed: "obsw_tc_dispatcher_feed (Some di) (Some frame) n w = tc_dispatch di tc w"
    by (simp add: feed_eq assms(4))
  have refuse: "inv_w (?responder flags tc w)
      \<and> env_does tc (env w) [S1 (Refused code)] (env (?responder flags tc w))
      \<and> ?responder flags tc w = set_env (env (?responder flags tc w)) w"
    if "flags AND OBSW_TC_ACK_REJECT \<noteq> 0" "code = (if flags AND OBSW_TC_REJECT_GATED \<noteq> 0 then OBSW_S1_FAIL_MODE_GATED
      else if flags AND OBSW_TC_REJECT_SUBSVC \<noteq> 0 then OBSW_S1_FAIL_ILLEGAL_SUBSVC
      else OBSW_S1_FAIL_ILLEGAL_SVC)" for flags code
    using responder_does [OF assms(2) that(1), of tc] responder_wf [OF assms(2)] that(2) by metis
  show ?thesis
  proof (cases "\<exists>gate. d_gate di = Some gate \<and> \<not> gate tc w")
    case True
    then have "tc_dispatch di tc w = (OBSW_TC_ERR_GATED, ?responder 0xC0 tc w)"
      by (auto simp: tc_dispatch_def di_responder)
    with refuse [of "0xC0" OBSW_S1_FAIL_MODE_GATED] verifiedI(1) show ?thesis
      unfolding feed by (intro exI [of _ OBSW_TC_ERR_GATED]) auto
  next
    case False
    show ?thesis
    proof (cases "find_index (route_match tc) (d_table di)")
      case None
      define flags :: u8 where "flags = 0x80 OR (if \<exists>r \<in> set (d_table di). route_service tc r
        then OBSW_TC_REJECT_SUBSVC else OBSW_TC_REJECT_SVC)"
      have d: "tc_dispatch di tc w = (OBSW_TC_ERR_NO_ROUTE, ?responder flags tc w)"
        using False None by (auto simp: tc_dispatch_def flags_def di_responder di_len split: option.split)
      have "flags AND OBSW_TC_ACK_REJECT \<noteq> 0" by (simp add: flags_def)
      from refuse [OF this refl] verifiedI(1) False show ?thesis
        unfolding feed d by (intro exI [of _ OBSW_TC_ERR_NO_ROUTE]) auto
    next
      case (Some i)
      define r where "r = d_table di ! i"
      have "r \<in> set (d_table di)" using find_index_SomeD(1) [OF Some] by (simp add: r_def)
      from di_routes [OF assms(2) tc this]
      obtain rc w' xs where hr: "rt_handler r tc ?responder w = (rc, w')"
        and xs: "inv_w w'" "env_does tc (env w) xs (env w')" "verified rc xs"
          "(\<exists>code. xs = [S1 (Refused code)]) \<longrightarrow> w' = set_env (env w') w"
        by (cases "rt_handler r tc ?responder w") (auto simp: host_handled_def)
      have d: "tc_dispatch di tc w = (if rc = 0 then OBSW_TC_OK else OBSW_TC_ERR_HANDLER, w')"
        using False Some hr by (auto simp: tc_dispatch_def r_def di_responder di_len split: option.split)
      have "rc = 0 \<or> rc = -1" using xs(3) by (auto simp: verified_def)
      with xs False show ?thesis unfolding feed d by auto
    qed
  qed
qed

end

text \<open>A program that also has a gate.\<close>

locale host_dispatcher = host_routes +
  fixes gate :: "'w tc_gate"
  assumes di_gate: "d_gate di = Some gate"
begin

lemma command_verified:
  fixes n :: "'s::len word"
  assumes "17 \<le> LENGTH('s)" "inv_w w" "unat n \<le> length frame" "feed_tc frame n = Some tc"
  shows "\<exists>rc w' xs. obsw_tc_dispatcher_feed (Some di) (Some frame) n w = (rc, w')
    \<and> inv_w w' \<and> env_does tc (env w) xs (env w')
    \<and> verified (if rc = OBSW_TC_OK then 0 else -1) xs
    \<and> ((\<exists>code. xs = [S1 (Refused code)]) \<longrightarrow> w' = set_env (env w') w)
    \<and> (\<not> gate tc w \<longrightarrow> rc = OBSW_TC_ERR_GATED \<and> xs = [S1 (Refused OBSW_S1_FAIL_MODE_GATED)])"
  using routed_verified [OF assms] by (simp add: di_gate)

end

subsection \<open>Services next to each other\<close>

definition s20_table_ids :: "u16 list \<Rightarrow> u8 \<Rightarrow> obsw_s20_ctx \<Rightarrow> bool" where
  "s20_table_ids ids n s \<longleftrightarrow> map s20_param_id (s20_table s) = ids \<and> s20_table_len s = n"

text \<open>
  S3 and S12 reach the parameter table by pointer: what they need of it are its identifiers,
  which no command changes.
\<close>

lemma s3_wf_table [simp]: "s3_wf (s\<lparr>s3_param_table := t\<rparr>) = s3_wf s"
proof -
  have "s3_descr (s\<lparr>s3_param_table := t\<rparr>) x = s3_descr s x" for x
    by (simp add: s3_descr_def s3_set_param_def cong: s3_params.case_cong option.case_cong)
  then show ?thesis by (simp add: s3_wf_def s3_used_def s3_set_wf_def cong: s3_params.case_cong)
qed

lemma s12_wf_ids:
  assumes "map s20_param_id t = map s20_param_id t'"
  shows "s12_wf (s\<lparr>s12_params := Some t\<rparr>) = s12_wf (s\<lparr>s12_params := Some t'\<rparr>)"
proof -
  have "obsw_s20_find (Some t) n i = None \<longleftrightarrow> i \<notin> set (take n' (map s20_param_id t))"
    if "n' = unat n" for t n i n'
    unfolding that by (auto simp: obsw_s20_find_def find_index_None_iff take_map)
  then have "obsw_s20_find (Some t) n i = None \<longleftrightarrow> obsw_s20_find (Some t') n i = None" for n i
    using assms by simp
  then show ?thesis by (simp add: s12_wf_def s12_used_def)
qed

definition s12_param_ids :: "obsw_s12_ctx \<Rightarrow> u16 list option" where
  "s12_param_ids s = map_option (map s20_param_id) (s12_params s)"

interpretation s20_set_ids: s1_service obsw_s20_set "s20_table_ids ids n" for ids n
proof unfold_locales
  fix e :: tm_env and tc s
  assume e: "tm_ok (env_store e)" and s: "s20_table_ids ids n s"
  have "map s20_param_id ((s20_table s)[i := (s20_table s ! i)\<lparr>s20_value := v\<rparr>]) = map s20_param_id (s20_table s)"
    for i v by (cases "i < length (s20_table s)") (simp_all add: map_update list_update_same_conv list_update_beyond not_less)
  then show "handled (s20_table_ids ids n) tc e s (obsw_s20_set (Some tc) (Some s) e)"
    using e s by (auto simp: obsw_s20_set_def s20_table_ids_def Let_def intro!: handledI split: option.split)
qed (simp_all add: obsw_s20_set_def split: option.split)

interpretation s20_get_ids: s1_service obsw_s20_get "s20_table_ids ids n" for ids n
  by unfold_locales
    (auto simp: obsw_s20_get_def emit_tm20_2_def s20_table_ids_def Let_def intro!: handledI split: option.split)

text \<open>No command of S12 moves its pointer to the parameter table.\<close>

lemma s12_params_frame:
  "obsw_s12_enable tc (Some s) e = (rc, Some s', e') \<Longrightarrow> s12_param_ids s' = s12_param_ids s"
  "obsw_s12_disable tc (Some s) e = (rc, Some s', e') \<Longrightarrow> s12_param_ids s' = s12_param_ids s"
  "obsw_s12_add tc (Some s) e = (rc, Some s', e') \<Longrightarrow> s12_param_ids s' = s12_param_ids s"
  "obsw_s12_delete tc (Some s) e = (rc, Some s', e') \<Longrightarrow> s12_param_ids s' = s12_param_ids s"
  "obsw_s12_delete_all tc (Some s) e = (rc, Some s', e') \<Longrightarrow> s12_param_ids s' = s12_param_ids s"
  by (auto simp: obsw_s12_enable_def obsw_s12_disable_def obsw_s12_add_def obsw_s12_delete_def
      obsw_s12_delete_all_def s12_remove_at_def s12_param_ids_def Let_def
      split: option.splits if_splits prod.splits)

lemma s8_ctx_frame: "obsw_s8_perform tc (Some s) e = (rc, Some s', e') \<Longrightarrow> fst s' = fst s"
  by (cases s) (auto simp: obsw_s8_perform_def Let_def split: option.splits if_splits prod.splits)

lemma s8_framed: "s1_service obsw_s8_perform (\<lambda>s. s8_inv I s \<and> fst s = k)"
  by (rule s1_service_frame [OF s8.s1_service_axioms], erule s8_ctx_frame)

lemma s12_framed:
  "s1_service obsw_s12_enable (\<lambda>s. s12_wf s \<and> s12_param_ids s = k)"
  "s1_service obsw_s12_disable (\<lambda>s. s12_wf s \<and> s12_param_ids s = k)"
  "s1_service obsw_s12_add (\<lambda>s. s12_wf s \<and> s12_param_ids s = k)"
  "s1_service obsw_s12_delete (\<lambda>s. s12_wf s \<and> s12_param_ids s = k)"
  "s1_service obsw_s12_delete_all (\<lambda>s. s12_wf s \<and> s12_param_ids s = k)"
  by (rule s1_service_frame [OF s12_enable.s1_service_axioms] s1_service_frame [OF s12_disable.s1_service_axioms]
    s1_service_frame [OF s12_add.s1_service_axioms] s1_service_frame [OF s12_delete.s1_service_axioms]
    s1_service_frame [OF s12_delete_all.s1_service_axioms], erule s12_params_frame)+

subsection \<open>Events raised by the monitoring\<close>

text \<open>Raising events keeps the store, and hands each to the event hook.\<close>

lemma s5_raise_hooked:
  assumes "tm_ok (s5_store e)" "s5_event_state e = Some c" "s19_wf c" "s5_on_event s = Some obsw_s19_on_event"
  shows "\<exists>s' e' c'. s5_raise evs (Some s, e) = (Some s', e') \<and> tm_ok (s5_store e')
    \<and> s5_on_event s' = Some obsw_s19_on_event \<and> s5_event_state e' = Some c' \<and> s19_wf c'
    \<and> Some c' = foldl (\<lambda>c ev. obsw_s19_on_event ev c) (Some c) (map (fst \<circ> snd) evs)"
  using assms
proof (induction evs arbitrary: s e c)
  case Nil
  then show ?case by (simp add: s5_raise_def)
next
  case (Cons x evs)
  obtain sev ev v where x: "x = (sev, ev, v)" by (cases x)
  obtain c1 where c1: "obsw_s19_on_event ev (Some c) = Some c1" "s19_wf c1"
    by (rule s19_on_event_effect [OF Cons.prems(3), of ev])
  have four: "unat (4 :: u8) = length (be_bytes32 v)" by simp
  obtain e1 where r: "obsw_s5_report (Some s) sev ev (Some (be_bytes32 v)) 4 e
      = (tm_emit_rc (s5_store e), Some (s\<lparr>s5_msg_counter := s5_msg_counter s + 1\<rparr>), e1)"
    "tm_ok (s5_store e1)"
    "s5_event_state e1 = (case s5_on_event s of Some f \<Rightarrow> f ev (s5_event_state e) | None \<Rightarrow> s5_event_state e)"
    by (rule s5_report_effect [OF Cons.prems(1) four, of s sev ev])
  have st: "s5_event_state e1 = Some c1" using r(3) Cons.prems(2,4) c1(1) by simp
  let ?s1 = "s\<lparr>s5_msg_counter := s5_msg_counter s + 1\<rparr>"
  have "s5_raise (x # evs) (Some s, e) = s5_raise evs (Some ?s1, e1)"
    by (simp add: s5_raise_def x r(1))
  with Cons.IH [OF r(2) st c1(2), of ?s1] Cons.prems(4) show ?case by (simp add: x c1(1))
qed

text \<open>Whatever mode the reports lead to, the state machine keeps its configuration.\<close>

definition s5_fsm_config :: "('h, 'v) s5_env \<Rightarrow> 'h obsw_fsm_config option" where
  "s5_fsm_config e = map_option fsm_config (s5_fsm e)"

lemma s5_report_fsm_config [frame_simps]:
  "s5_fsm_config (snd (snd (obsw_s5_report s sev ev d n e))) = s5_fsm_config e"
  by (simp add: s5_fsm_config_def obsw_s5_report_def obsw_fsm_to_safe_def Let_def split: prod.split option.split)

lemma tm_build_store_None: "snd (obsw_pus_tm_build s a q v u mc dst ts d n) = None \<longleftrightarrow> s = None"
  by (auto simp: obsw_pus_tm_build_def obsw_tm_store_enqueue_def Let_def split: prod.split option.splits if_splits)

lemma s5_report_store_None: "s5_store (snd (snd (obsw_s5_report s sev ev d n e))) = None \<longleftrightarrow> s5_store e = None"
proof (cases s)
  case (Some c)
  show ?thesis
    by (simp add: Some obsw_s5_report_def Let_def case_prod_beta tm_build_store_None)
qed (simp add: obsw_s5_report_def)

lemma s5_raise_store_None: "s5_store (snd (s5_raise evs p)) = None \<longleftrightarrow> s5_store (snd p) = None"
proof (induction evs arbitrary: p)
  case (Cons x evs)
  show ?case
    using Cons.IH [of "snd (obsw_s5_report (fst p) (fst x) (fst (snd x)) (Some (be_bytes32 (snd (snd x)))) 4 (snd p))"]
    by (simp add: s5_raise_def s5_report_store_None case_prod_beta)
qed (simp add: s5_raise_def)

lemma s5_raise_fsm_config [frame_simps]: "s5_fsm_config (snd (s5_raise evs p)) = s5_fsm_config (snd p)"
proof (induction evs arbitrary: p)
  case (Cons x evs)
  show ?case
    using Cons.IH [of "snd (obsw_s5_report (fst p) (fst x) (fst (snd x)) (Some (be_bytes32 (snd (snd x)))) 4 (snd p))"]
    by (simp add: s5_raise_def s5_report_fsm_config case_prod_beta)
qed (simp add: s5_raise_def)

text \<open>One call of the check: the table latches, and the events reach store and action queue.\<close>

definition s12_events :: "obsw_s12_ctx \<Rightarrow> obsw_s20_param list \<Rightarrow> (u8 \<times> u16 \<times> f32) list" where
  "s12_events s t =
    (if s12_enabled s
     then concat (map (mon_events (s12_param_count s) t mon_in_low mon_in_high) (s12_used s))
     else [])"

lemma s12_check_hooked:
  assumes "s12_wf s" "s12_params s = Some t" "s19_wf c" "tm_ok (s5_store e)"
    "s5_event_state e = Some c" "s5_on_event s5 = Some obsw_s19_on_event"
  obtains ds s5' e' c' where "obsw_s12_check (Some s) (Some s5, e) = (Some (s\<lparr>s12_defs := ds\<rparr>), Some s5', e')"
    "s5_raise (s12_events s t) (Some s5, e) = (Some s5', e')"
    "s12_wf (s\<lparr>s12_defs := ds\<rparr>)" "tm_ok (s5_store e')" "s5_on_event s5' = Some obsw_s19_on_event"
    "s5_event_state e' = Some c'" "s19_wf c'"
    "Some c' = foldl (\<lambda>c ev. obsw_s19_on_event ev c) (Some c) (map (fst \<circ> snd) (s12_events s t))"
proof -
  have found: "\<forall>d \<in> set (s12_used s). obsw_s20_find (Some t) (s12_param_count s) (mon_param_id d) \<noteq> None"
    using assms(1,2) by (simp add: s12_wf_def)
  define ds where "ds = (if s12_enabled s then map (mon_latched (s12_param_count s) t) (s12_used s)
    else s12_used s) @ drop (unat (s12_count s)) (s12_defs s)"
  have chk: "obsw_s12_check (Some s) (Some s5, e) = (Some (s\<lparr>s12_defs := ds\<rparr>), s5_raise (s12_events s t) (Some s5, e))"
  proof (cases "s12_enabled s")
    case True
    then show ?thesis
      using s12_check_defs_spec [OF assms(2) found, of "(Some s5, e)"]
      by (simp add: obsw_s12_check_def Let_def s12_used_def ds_def s12_events_def)
  next
    case False
    then show ?thesis
      by (simp add: obsw_s12_check_def ds_def s12_used_def s12_events_def s5_raise_def)
  qed
  obtain s' e' c' where "s5_raise (s12_events s t) (Some s5, e) = (Some s', e')"
    "tm_ok (s5_store e')" "s5_on_event s' = Some obsw_s19_on_event" "s5_event_state e' = Some c'" "s19_wf c'"
    "Some c' = foldl (\<lambda>c ev. obsw_s19_on_event ev c) (Some c) (map (fst \<circ> snd) (s12_events s t))"
    using s5_raise_hooked [OF assms(4,5,3,6), of "s12_events s t"] by blast
  moreover have "s12_wf (s\<lparr>s12_defs := ds\<rparr>)"
    using s12_wf_map [OF assms(1), of "mon_latched (s12_param_count s) t"] s12_wf_map [OF assms(1), of id]
    by (simp add: ds_def mon_latched_def)
  ultimately show thesis using chk by (intro that) simp_all
qed

end
