(* ===== verification/Pus_Task.thy ===== *)
theory Pus_Task
  imports Mode_Task Tmtc_Task Tc_Host Pus_S3 Pus_S6 Pus_S8 Pus_S9 Pus_S17 Pus_S20
begin

section \<open>The PUS task\<close>

text \<open>
  \<^verbatim>\<open>src/task/pus.c\<close>: the task that owns the dispatcher and the service contexts, with its
  routing table, its S8 functions, its initialisation and one iteration of its loop.

  The static objects of the file, and what they point to outside it, are the record
  \<open>pus_world\<close>.  The parameter table is one object, the S20 context's: S12 and S3 reach it by
  pointer, which here is the table read through the world at the time of a call.  A part of
  the world is a pair of a reader and a writer; a handler on its context becomes a handler of
  the dispatcher through \<open>pus_handler\<close>.  A critical section makes the call in it one step, so
  the locked handlers are the handlers themselves.
\<close>

record pus_world =
  pw_env :: tm_env
  pw_s17 :: obsw_s17_ctx
  pw_s20 :: obsw_s20_ctx
  pw_s8 :: "mode_mgr obsw_s8_ctx"
  pw_obt :: obsw_obt
  pw_s6 :: obsw_s6_ctx
  pw_s12 :: obsw_s12_ctx
  pw_s12_s5 :: "obsw_s19_ctx option obsw_s5_ctx"
  pw_s19 :: obsw_s19_ctx
  pw_s11 :: obsw_s11_ctx
  pw_s3 :: obsw_s3_ctx
  pw_mode :: mode_mgr

subsection \<open>Parts\<close>

type_synonym 'c pw_part = "(pus_world \<Rightarrow> 'c) \<times> ('c \<Rightarrow> pus_world \<Rightarrow> pus_world)"

definition s17_part :: "obsw_s17_ctx pw_part" where
  "s17_part = (pw_s17, \<lambda>c w. w\<lparr>pw_s17 := c\<rparr>)"
definition s20_part :: "obsw_s20_ctx pw_part" where
  "s20_part = (pw_s20, \<lambda>c w. w\<lparr>pw_s20 := c\<rparr>)"
definition s8_part :: "(mode_mgr obsw_s8_ctx \<times> mode_mgr) pw_part" where
  "s8_part = (\<lambda>w. (pw_s8 w, pw_mode w), \<lambda>c w. w\<lparr>pw_s8 := fst c, pw_mode := snd c\<rparr>)"
definition s9_part :: "obsw_s9_ctx pw_part" where
  "s9_part = (\<lambda>w. \<lparr>s9_obt = Some (pw_obt w)\<rparr>,
    \<lambda>c w. case s9_obt c of Some t \<Rightarrow> w\<lparr>pw_obt := t\<rparr> | None \<Rightarrow> w)"
definition s6_part :: "obsw_s6_ctx pw_part" where
  "s6_part = (pw_s6, \<lambda>c w. w\<lparr>pw_s6 := c\<rparr>)"
definition s12_part :: "obsw_s12_ctx pw_part" where
  "s12_part = (\<lambda>w. (pw_s12 w)\<lparr>s12_params := Some (s20_table (pw_s20 w))\<rparr>,
    \<lambda>c w. w\<lparr>pw_s12 := c\<lparr>s12_params := s12_params (pw_s12 w)\<rparr>\<rparr>)"
definition s19_part :: "obsw_s19_ctx pw_part" where
  "s19_part = (pw_s19, \<lambda>c w. w\<lparr>pw_s19 := c\<rparr>)"
definition s11_part :: "obsw_s11_ctx pw_part" where
  "s11_part = (pw_s11, \<lambda>c w. w\<lparr>pw_s11 := c\<rparr>)"
definition s3_part :: "obsw_s3_ctx pw_part" where
  "s3_part = (\<lambda>w. (pw_s3 w)\<lparr>s3_param_table := s20_table (pw_s20 w)\<rparr>,
    \<lambda>c w. w\<lparr>pw_s3 := c\<lparr>s3_param_table := s3_param_table (pw_s3 w)\<rparr>\<rparr>)"

lemmas part_defs = s17_part_def s20_part_def s8_part_def s9_part_def s6_part_def s12_part_def
  s19_part_def s11_part_def s3_part_def

definition pus_set_env :: "tm_env \<Rightarrow> pus_world \<Rightarrow> pus_world" where
  "pus_set_env e w = w\<lparr>pw_env := e\<rparr>"

definition pus_handler ::
  "'c pw_part \<Rightarrow> (obsw_tc option \<Rightarrow> 'c option \<Rightarrow> tm_env \<Rightarrow> int \<times> 'c option \<times> tm_env)
   \<Rightarrow> pus_world tc_handler" where
  "pus_handler = host_handler pw_env pus_set_env"

lemmas pus_handler_defs = pus_handler_def host_handler_def pus_set_env_def

subsection \<open>S8 functions\<close>

definition fn_recover_nominal :: "u8 list option \<Rightarrow> u8 \<Rightarrow> mode_mgr \<times> tm_env \<Rightarrow> int \<times> mode_mgr \<times> tm_env" where
  "fn_recover_nominal args args_len me = (0, obsw_mode_request_nominal (fst me), snd me)"

definition fn_request_safe :: "u8 list option \<Rightarrow> u8 \<Rightarrow> mode_mgr \<times> tm_env \<Rightarrow> int \<times> mode_mgr \<times> tm_env" where
  "fn_request_safe args args_len me = (0, obsw_mode_request_safe (fst me), snd me)"

definition fn_request_standby :: "u8 list option \<Rightarrow> u8 \<Rightarrow> mode_mgr \<times> tm_env \<Rightarrow> int \<times> mode_mgr \<times> tm_env" where
  "fn_request_standby args args_len me = (0, obsw_mode_request_standby (fst me), snd me)"

definition pus_s8_table :: "mode_mgr obsw_s8_entry list" where
  "pus_s8_table =
    [\<lparr>s8_function_id = 1, s8_fn = fn_recover_nominal\<rparr>,
     \<lparr>s8_function_id = 2, s8_fn = fn_request_safe\<rparr>,
     \<lparr>s8_function_id = 3, s8_fn = fn_request_standby\<rparr>]"

definition pus_s8_ctx :: "mode_mgr obsw_s8_ctx" where
  "pus_s8_ctx = \<lparr>s8_table = pus_s8_table, s8_table_len = of_nat (length pus_s8_table)\<rparr>"

subsection \<open>Routes\<close>

definition pus_route :: "u8 \<Rightarrow> u8 \<Rightarrow> pus_world tc_handler \<Rightarrow> pus_world obsw_tc_route" where
  "pus_route svc subsvc h =
    \<lparr>rt_apid = 0xFFFF, rt_service = svc, rt_subservice = subsvc, rt_handler = h\<rparr>"

text \<open>A critical section makes its call one step of the system; it adds nothing to what the call does.\<close>

definition run_locked ::
  "(obsw_tc option \<Rightarrow> 'c option \<Rightarrow> tm_env \<Rightarrow> int \<times> 'c option \<times> tm_env)
   \<Rightarrow> obsw_tc option \<Rightarrow> 'c option \<Rightarrow> tm_env \<Rightarrow> int \<times> 'c option \<times> tm_env" where
  "run_locked h tc ctx e = h tc ctx e"

definition s9_set_obt_locked ::
  "obsw_tc option \<Rightarrow> obsw_s9_ctx option \<Rightarrow> tm_env \<Rightarrow> int \<times> obsw_s9_ctx option \<times> tm_env" where
  "s9_set_obt_locked tc ctx e = (let r = obsw_s9_set_obt tc ctx e in r)"

definition s3_define_locked ::
  "obsw_tc option \<Rightarrow> obsw_s3_ctx option \<Rightarrow> tm_env \<Rightarrow> int \<times> obsw_s3_ctx option \<times> tm_env" where
  "s3_define_locked tc ctx e = (let r = obsw_s3_define tc ctx e in r)"

definition s3_delete_locked ::
  "obsw_tc option \<Rightarrow> obsw_s3_ctx option \<Rightarrow> tm_env \<Rightarrow> int \<times> obsw_s3_ctx option \<times> tm_env" where
  "s3_delete_locked tc ctx e = (let r = obsw_s3_delete tc ctx e in r)"

lemma locked [simp]:
  "run_locked h = h" "s9_set_obt_locked = obsw_s9_set_obt"
  "s3_define_locked = obsw_s3_define" "s3_delete_locked = obsw_s3_delete"
  by (intro ext; simp add: run_locked_def s9_set_obt_locked_def s3_define_locked_def s3_delete_locked_def)+

definition pus_routes :: "srdb \<Rightarrow> pus_world obsw_tc_route list" where
  "pus_routes db =
    [pus_route 3 5 (pus_handler s3_part obsw_s3_enable),
     pus_route 3 6 (pus_handler s3_part obsw_s3_disable),
     pus_route 3 1 (pus_handler s3_part s3_define_locked),
     pus_route 3 3 (pus_handler s3_part s3_delete_locked),
     pus_route 8 1 (pus_handler s8_part obsw_s8_perform),
     pus_route 17 1 (pus_handler s17_part obsw_s17_ping),
     pus_route 20 1 (pus_handler s20_part obsw_s20_set),
     pus_route 20 3 (pus_handler s20_part obsw_s20_get),
     pus_route (srdb_tc_set_obt_svc db) (srdb_tc_set_obt_subsvc db) (pus_handler s9_part s9_set_obt_locked),
     pus_route 12 1 (pus_handler s12_part (run_locked obsw_s12_enable)),
     pus_route 12 2 (pus_handler s12_part (run_locked obsw_s12_disable)),
     pus_route 12 3 (pus_handler s12_part (run_locked obsw_s12_add)),
     pus_route 12 4 (pus_handler s12_part (run_locked obsw_s12_delete)),
     pus_route 12 5 (pus_handler s12_part (run_locked obsw_s12_delete_all)),
     pus_route 11 4 (pus_handler s11_part obsw_s11_insert),
     pus_route 11 5 (pus_handler s11_part obsw_s11_delete),
     pus_route 11 6 (pus_handler s11_part obsw_s11_delete_all),
     pus_route 11 17 (pus_handler s11_part obsw_s11_enable),
     pus_route 11 18 (pus_handler s11_part obsw_s11_disable),
     pus_route 19 1 (pus_handler s19_part (run_locked obsw_s19_add)),
     pus_route 19 2 (pus_handler s19_part (run_locked obsw_s19_delete)),
     pus_route 19 3 (pus_handler s19_part (run_locked obsw_s19_delete_all)),
     pus_route 19 4 (pus_handler s19_part (run_locked obsw_s19_enable)),
     pus_route 19 5 (pus_handler s19_part (run_locked obsw_s19_disable)),
     pus_route 6 2 (pus_handler s6_part obsw_s6_load),
     pus_route 6 5 (pus_handler s6_part obsw_s6_check),
     pus_route 6 9 (pus_handler s6_part obsw_s6_dump)]"

definition pus_responder :: "pus_world tc_responder" where
  "pus_responder = host_responder pw_env pus_set_env"

lemma pus_responder_eq:
  "pus_responder flags tc w = w\<lparr>pw_env := obsw_s1_dispatch_responder flags tc (pw_env w)\<rparr>"
  by (simp add: pus_responder_def host_responder_def pus_set_env_def)

definition pus_gate :: "pus_world tc_gate" where
  "pus_gate tc w = obsw_fsm_tc_gate (Some tc) (Some (md_fsm (pw_mode w)))"

text \<open>The dispatcher as initialised; the static object is zero before.\<close>

definition pus_dispatcher :: "srdb \<Rightarrow> pus_world obsw_tc_dispatcher" where
  "pus_dispatcher db =
    (let d0 = \<lparr>d_table = [], d_table_len = 0, d_responder = (\<lambda>_ _ w. w), d_gate = None\<rparr>;
         d1 = snd (obsw_tc_dispatcher_init (Some d0) (Some (pus_routes db))
                (of_nat (length (pus_routes db))) (Some pus_responder))
     in the (snd (obsw_tc_dispatcher_set_gate d1 (Some pus_gate))))"

subsection \<open>Initialisation\<close>

text \<open>The initial values are the bits of 10000, 15, 0.5 and 0.1.\<close>

definition pus_s20_params :: "srdb \<Rightarrow> obsw_s20_param list" where
  "pus_s20_params db =
    [\<lparr>s20_param_id = srdb_param_obc_uptime db, s20_value = 0, s20_type = OBSW_S20_U32\<rparr>,
     \<lparr>s20_param_id = srdb_param_safe_mode_entry_count db, s20_value = 0, s20_type = OBSW_S20_U32\<rparr>,
     \<lparr>s20_param_id = srdb_param_watchdog_kick_count db, s20_value = 0, s20_type = OBSW_S20_U32\<rparr>,
     \<lparr>s20_param_id = srdb_param_bdot_gain db, s20_value = 0x461C4000, s20_type = OBSW_S20_F32\<rparr>,
     \<lparr>s20_param_id = srdb_param_bdot_hpf_tau db, s20_value = 0x41700000, s20_type = OBSW_S20_F32\<rparr>,
     \<lparr>s20_param_id = srdb_param_adcs_kp db, s20_value = 0x3F000000, s20_type = OBSW_S20_F32\<rparr>,
     \<lparr>s20_param_id = srdb_param_adcs_kd db, s20_value = 0x3DCCCCCD, s20_type = OBSW_S20_F32\<rparr>]"

definition pus_s6_regions :: "nat \<Rightarrow> obsw_s6_region list" where
  "pus_s6_regions patch_ram =
    [\<lparr>rg_start = 0, rg_size = 4096, rg_base = patch_ram,
      rg_access = OBSW_S6_ACCESS_READ OR OBSW_S6_ACCESS_WRITE\<rparr>,
     \<lparr>rg_start = 0x08000000, rg_size = 0x20000, rg_base = 0x08000000,
      rg_access = OBSW_S6_ACCESS_READ\<rparr>]"

text \<open>
  The two 64-byte packet buffers of \<open>obsw_s11_activity_t\<close> and \<open>obsw_s19_def_t\<close> are static and
  zero.  \<open>patch_ram\<close> is the address of the patch memory, \<open>mem\<close> the memory.
\<close>

definition obsw_pus_task_init ::
  "srdb \<Rightarrow> obsw_tm_store option \<Rightarrow> obsw_s3_ctx \<Rightarrow> mode_mgr \<Rightarrow> nat \<Rightarrow> (nat \<Rightarrow> u8) \<Rightarrow> pus_world" where
  "obsw_pus_task_init db store s3 mode patch_ram mem =
    (let apid = srdb_apid_default db; params = pus_s20_params db;
         act0 = \<lparr>act_request_id = 0, act_coarse = 0, act_fine = 0, act_tc_len = 0, act_tc = replicate 64 0\<rparr>;
         mon0 = \<lparr>mon_param_id = 0, mon_low = 0, mon_high = 0, mon_event_low = 0, mon_event_high = 0,
                 mon_severity = 0, mon_in_low = False, mon_in_high = False\<rparr>;
         def0 = \<lparr>def_event_id = 0, def_action_len = 0, def_action = replicate 64 0\<rparr>
     in \<lparr>pw_env = \<lparr>env_s1 = Some \<lparr>s1_apid = apid, s1_msg_counter = 0, s1_timestamp = 0\<rparr>, env_store = store\<rparr>,
         pw_s17 = \<lparr>s17_apid = apid, s17_msg_counter = 0, s17_timestamp = 0\<rparr>,
         pw_s20 = \<lparr>s20_apid = apid, s20_msg_counter = 0, s20_timestamp = 0, s20_table = params,
                   s20_table_len = of_nat (length params)\<rparr>,
         pw_s8 = pus_s8_ctx,
         pw_obt = \<lparr>obt_coarse = 0, obt_fine = 0, obt_rem = 0\<rparr>,
         pw_s6 = \<lparr>s6_apid = apid, s6_msg_counter = 0, s6_timestamp = 0,
                  s6_regions = Some (pus_s6_regions patch_ram),
                  s6_region_count = of_nat (length (pus_s6_regions patch_ram)), s6_mem = mem\<rparr>,
         pw_s12 = the (obsw_s12_init (Some \<lparr>s12_params = None, s12_param_count = 0, s12_defs = [],
                    s12_capacity = 0, s12_count = 0, s12_enabled = False\<rparr>) (Some params)
                    (of_nat (length params)) (Some (replicate 8 mon0)) 8),
         pw_s12_s5 = \<lparr>s5_apid = apid, s5_msg_counter = 0, s5_timestamp = 0,
                      s5_safe_trigger_ids = replicate 8 0, s5_safe_trigger_count = 0,
                      s5_on_event = Some obsw_s19_on_event\<rparr>,
         pw_s19 = the (obsw_s19_init (Some \<lparr>s19_defs = [], s19_capacity = 0, s19_count = 0,
                    s19_enabled = False, s19_queue = replicate 4 0, s19_queued = 0, s19_dropped = 0\<rparr>)
                    (Some (replicate 4 def0)) 4),
         pw_s11 = the (obsw_s11_init (Some \<lparr>s11_acts = [], s11_capacity = 0, s11_count = 0,
                    s11_next_id = 0, s11_enabled = False\<rparr>) (Some (replicate 4 act0)) 4),
         pw_s3 = s3\<lparr>s3_param_table := params, s3_param_table_len := of_nat (length params)\<rparr>,
         pw_mode = mode\<rparr>)"

subsection \<open>One iteration\<close>

text \<open>The result tells whether the TMTC task was notified.\<close>

definition pus_iter ::
  "srdb \<Rightarrow> ('q \<Rightarrow> (obsw_tc_frame_item \<times> 'q) option) \<Rightarrow> pus_world \<times> 'q \<Rightarrow> bool \<times> pus_world \<times> 'q" where
  "pus_iter db q_receive wq =
    (let (w, q) = wq; d = pus_dispatcher db;
         (have_tc, w1, q1) = (case q_receive q of
            Some (item, q') \<Rightarrow>
              (True, snd (obsw_tc_dispatcher_feed (Some d) (Some (item_data item))
                            (ucast (item_len item) :: u32) w), q')
          | None \<Rightarrow> (False, w, q));
         now = pw_obt w1;
         (ran, w2) = obsw_s11_run (Some s11_part) (Some now) (Some d) w1;
         (ran', w3) = obsw_s19_run (Some s19_part) (Some d) w2
     in (have_tc \<or> ran + ran' > 0, w3, q1))"

subsection \<open>What other tasks call\<close>

definition obsw_pus_obt_advance :: "u32 \<Rightarrow> pus_world \<Rightarrow> pus_world" where
  "obsw_pus_obt_advance dt_ms w = w\<lparr>pw_obt := the (obsw_obt_advance (Some (pw_obt w)) dt_ms)\<rparr>"

text \<open>The events of S12 go to the store and, through the hook of its S5 context, to S19.\<close>

definition obsw_pus_s12_check :: "pus_world \<Rightarrow> pus_world" where
  "obsw_pus_s12_check w =
    (let e5 = \<lparr>s5_store = env_store (pw_env w), s5_fsm = None, s5_hooks = (),
               s5_event_state = Some (pw_s19 w)\<rparr> :: (unit, obsw_s19_ctx option) s5_env
     in case obsw_s12_check (Some (fst s12_part w)) (Some (pw_s12_s5 w), e5) of
          (c, s5', e5') \<Rightarrow>
            (snd s12_part (the c) w)
              \<lparr>pw_s12_s5 := the s5', pw_s19 := the (s5_event_state e5'),
               pw_env := (pw_env w)\<lparr>env_store := s5_store e5'\<rparr>\<rparr>)"

definition obsw_pus_s20_get_float :: "u16 \<Rightarrow> f32 \<Rightarrow> pus_world \<Rightarrow> f32" where
  "obsw_pus_s20_get_float param_id default_val w =
    (case find_index (\<lambda>p. s20_param_id p = param_id) (take 7 (s20_table (pw_s20 w))) of
       Some i \<Rightarrow> s20_value (s20_table (pw_s20 w) ! i) | None \<Rightarrow> default_val)"

subsection \<open>The invariant of the world\<close>

definition pus_wf :: "srdb \<Rightarrow> pus_world \<Rightarrow> bool" where
  "pus_wf db w \<longleftrightarrow> tm_ok (env_store (pw_env w))
    \<and> s20_table_ids (map s20_param_id (pus_s20_params db)) 7 (pw_s20 w)
    \<and> pw_s8 w = pus_s8_ctx
    \<and> s12_wf (fst s12_part w) \<and> s19_wf (pw_s19 w) \<and> s11_wf (pw_s11 w) \<and> s3_wf (fst s3_part w)"

lemmas pus_part_simps = pus_wf_def part_defs pus_set_env_def tm_next_def

interpretation pus: host_world pw_env pus_set_env "pus_wf db" for db
  by unfold_locales (simp_all add: pus_part_simps)


interpretation p17: host_part pw_env pus_set_env "pus_wf db" s17_part "\<lambda>_. True" for db
  by unfold_locales (simp_all add: pus_part_simps)
interpretation p9: host_part pw_env pus_set_env "pus_wf db" s9_part "\<lambda>_. True" for db
  by unfold_locales (simp_all add: pus_part_simps split: option.split)
interpretation p6: host_part pw_env pus_set_env "pus_wf db" s6_part "\<lambda>_. True" for db
  by unfold_locales (simp_all add: pus_part_simps)
interpretation p19: host_part pw_env pus_set_env "pus_wf db" s19_part s19_wf for db
  by unfold_locales (simp_all add: pus_part_simps)
interpretation p11: host_part pw_env pus_set_env "pus_wf db" s11_part s11_wf for db
  by unfold_locales (simp_all add: pus_part_simps)
interpretation p3: host_part pw_env pus_set_env "pus_wf db" s3_part s3_wf for db
  by unfold_locales (simp_all add: pus_part_simps)
lemma pus_s8_inv: "s8_inv (\<lambda>m. md_fsm m = f) (pus_s8_ctx, m) \<longleftrightarrow> md_fsm m = f"
  and pus_s8_inv_True [simp]: "s8_inv (\<lambda>_. True) (pus_s8_ctx, m)"
  by (auto simp: s8_inv_def pus_s8_ctx_def pus_s8_table_def s8_fn_ok_def fn_recover_nominal_def
      fn_request_safe_def fn_request_standby_def intro!: exI [of _ "[]"] env_does_nil)

interpretation p8: host_part pw_env pus_set_env "pus_wf db" s8_part "\<lambda>s. s8_inv (\<lambda>_. True) s \<and> fst s = pus_s8_ctx" for db
  by unfold_locales (simp_all add: pus_part_simps)
interpretation p12: host_part pw_env pus_set_env "pus_wf db" s12_part
  "\<lambda>s. s12_wf s \<and> s12_param_ids s = Some (map s20_param_id (pus_s20_params db))" for db
proof unfold_locales
  fix w c and e :: tm_env
  let ?ids = "map s20_param_id (pus_s20_params db)"
  assume w: "pus_wf db w" and c: "s12_wf c \<and> s12_param_ids c = Some ?ids" and e: "tm_next (env_store (pw_env w)) (env_store e)"
  then obtain t where t: "s12_params c = Some t" "map s20_param_id t = ?ids" by (auto simp: s12_param_ids_def)
  have "s12_wf (c\<lparr>s12_params := Some (s20_table (pw_s20 w))\<rparr>) = s12_wf (c\<lparr>s12_params := Some t\<rparr>)"
    using w t(2) by (intro s12_wf_ids) (simp add: pus_wf_def s20_table_ids_def)
  moreover have "c\<lparr>s12_params := Some t\<rparr> = c" using t(1) by (cases c) simp
  ultimately show "pus_wf db (pus_set_env e (snd s12_part c w))"
    using w c e by (simp add: pus_part_simps)
qed (simp_all add: pus_part_simps s12_param_ids_def s20_table_ids_def)
interpretation p20: host_part pw_env pus_set_env "pus_wf db" s20_part "s20_table_ids (map s20_param_id (pus_s20_params db)) 7" for db
proof unfold_locales
  fix w c and e :: tm_env
  let ?ids = "map s20_param_id (pus_s20_params db)"
  assume "pus_wf db w" "s20_table_ids ?ids 7 c" "tm_next (env_store (pw_env w)) (env_store e)"
  moreover from this have "s12_wf ((pw_s12 w)\<lparr>s12_params := Some (s20_table c)\<rparr>)"
    using s12_wf_ids [of "s20_table c" "s20_table (pw_s20 w)" "pw_s12 w"]
    by (simp add: pus_wf_def s20_table_ids_def s12_part_def)
  ultimately show "pus_wf db (pus_set_env e (snd s20_part c w))"
    by (simp add: pus_part_simps)
qed (simp_all add: pus_part_simps)

subsection \<open>Every route is verified\<close>

lemmas pus_services =
  p3.hosted [OF s3_enable.s1_service_axioms] p3.hosted [OF s3_disable.s1_service_axioms]
  p3.hosted [OF s3_define.s1_service_axioms] p3.hosted [OF s3_delete.s1_service_axioms]
  p8.hosted [OF s8_framed] p17.hosted [OF s17.s1_service_axioms]
  p20.hosted [OF s20_set_ids.s1_service_axioms] p20.hosted [OF s20_get_ids.s1_service_axioms]
  p9.hosted [OF s9.s1_service_axioms]
  s12_framed [THEN p12.hosted]
  p11.hosted [OF s11_insert.s1_service_axioms] p11.hosted [OF s11_delete.s1_service_axioms]
  p11.hosted [OF s11_delete_all.s1_service_axioms] p11.hosted [OF s11_enable.s1_service_axioms]
  p11.hosted [OF s11_disable.s1_service_axioms]
  p19.hosted [OF s19_add.s1_service_axioms] p19.hosted [OF s19_delete.s1_service_axioms]
  p19.hosted [OF s19_delete_all.s1_service_axioms] p19.hosted [OF s19_enable.s1_service_axioms]
  p19.hosted [OF s19_disable.s1_service_axioms]
  p6.hosted [OF s6_load.s1_service_axioms] p6.hosted [OF s6_check.s1_service_axioms]
  p6.hosted [OF s6_dump.s1_service_axioms]

lemma pus_routes_handled:
  assumes "pus_wf db w" "tc_wf tc" "r \<in> set (pus_routes db)"
  shows "host_handled pw_env pus_set_env (pus_wf db) tc w (rt_handler r tc respond w)"
  using assms(3) pus_services [OF assms(1,2)] by (auto simp: pus_routes_def pus_route_def pus_handler_def)

lemma pus_dispatcher_simps [simp]:
  "d_table (pus_dispatcher db) = pus_routes db" "d_table_len (pus_dispatcher db) = 27"
  "d_responder (pus_dispatcher db) = pus_responder" "d_gate (pus_dispatcher db) = Some pus_gate"
  by (simp_all add: pus_dispatcher_def obsw_tc_dispatcher_init_def obsw_tc_dispatcher_set_gate_def
      pus_routes_def Let_def)

lemma length_pus_routes [simp]: "length (pus_routes db) = 27"
  by (simp add: pus_routes_def)

lemma pus_wf_env: "pus_wf db w \<Longrightarrow> tm_next (env_store (pw_env w)) (env_store e) \<Longrightarrow> pus_wf db (w\<lparr>pw_env := e\<rparr>)"
  using pus.env_wf by (simp add: pus_set_env_def)

subsection \<open>The dispatcher keeps the invariant\<close>

interpretation pus_disp: host_dispatcher pw_env pus_set_env "pus_wf db" "pus_dispatcher db" pus_gate for db
  by unfold_locales (use pus_routes_handled in \<open>simp_all add: pus_responder_def [symmetric]\<close>)

lemmas pus_responder_wf = pus.responder_wf [folded pus_responder_def]

interpretation pus_sched: schedule_host "pus_dispatcher db" "pus_wf db" s11_part for db
  by unfold_locales (simp_all add: pus_wf_def part_defs)

interpretation pus_act: action_host "pus_dispatcher db" "pus_wf db" "fst s19_part" "snd s19_part" for db
  by unfold_locales (simp_all add: pus_wf_def part_defs)

subsection \<open>What commands leave alone\<close>

text \<open>Which objects each route may change besides the reports.\<close>

lemma pus_routes_frame:
  assumes "r \<in> set (pus_routes db)"
  shows "rt_service r = 11 \<or> pw_s11 (snd (rt_handler r tc respond w)) = pw_s11 w"
    and "rt_service r = 19 \<or> pw_s19 (snd (rt_handler r tc respond w)) = pw_s19 w"
    and "rt_service r = 6 \<or> pw_s6 (snd (rt_handler r tc respond w)) = pw_s6 w"
    and "pw_s12_s5 (snd (rt_handler r tc respond w)) = pw_s12_s5 w"
  using assms by (auto simp: pus_routes_def pus_route_def pus_handler_defs part_defs
    split: prod.split option.split)

lemma pus_responder_frame [simp]:
  "pw_s11 (pus_responder flags tc w) = pw_s11 w" "pw_s19 (pus_responder flags tc w) = pw_s19 w"
  "pw_s6 (pus_responder flags tc w) = pw_s6 w" "pw_s12_s5 (pus_responder flags tc w) = pw_s12_s5 w"
  "pw_mode (pus_responder flags tc w) = pw_mode w"
  by (simp_all add: pus_responder_eq)

lemma pus_routes_fsm:
  assumes "pus_wf db w" "tc_wf tc" "r \<in> set (pus_routes db)"
  shows "md_fsm (pw_mode (snd (rt_handler r tc respond w))) = md_fsm (pw_mode w)"
proof -
  have s8: "md_fsm (pw_mode (snd (pus_handler s8_part obsw_s8_perform tc respond w))) = md_fsm (pw_mode w)"
  proof -
    have "tm_ok (env_store (pw_env w))" "pw_s8 w = pus_s8_ctx" using assms(1) by (simp_all add: pus_wf_def)
    moreover have "s8_inv (\<lambda>m. md_fsm m = md_fsm (pw_mode w)) (pus_s8_ctx, pw_mode w)"
      by (simp add: pus_s8_inv)
    ultimately have "handled (s8_inv (\<lambda>m. md_fsm m = md_fsm (pw_mode w))) tc (pw_env w) (pus_s8_ctx, pw_mode w)
        (obsw_s8_perform (Some tc) (Some (pus_s8_ctx, pw_mode w)) (pw_env w))"
      by (intro s8.verifies assms(2))
    then obtain rc c m e' where "obsw_s8_perform (Some tc) (Some (pus_s8_ctx, pw_mode w)) (pw_env w) = (rc, Some (c, m), e')"
      "md_fsm m = md_fsm (pw_mode w)" by (auto simp: handled_def s8_inv_def)
    then show ?thesis using assms(1) by (simp add: pus_wf_def pus_handler_defs part_defs)
  qed
  then show ?thesis
    using assms(3) by (auto simp: pus_routes_def pus_route_def)
      (auto simp: pus_handler_defs part_defs split: prod.split option.split)
qed

end
