(* ===== verification/Pus_System.thy ===== *)
theory Pus_System
  imports Pus_Task
begin

section \<open>The PUS services together\<close>

text \<open>
  What holds of the dispatcher, the services, the schedule and the event-action table as the
  PUS task composes them: every command is verified by S1, the invariants of all services are
  kept by every step of the tasks that share the world, the schedule runs in order on the
  real dispatcher, and nothing but a change of mode unlocks the memory service.

  A step of the system is one iteration of the PUS task, a frame handed over by the TMTC
  task, or one of the calls of the FDIR task; the mode manager's own steps are in
  \<^verbatim>\<open>Mode_Task\<close>.
\<close>

subsection \<open>Events raised by the monitoring\<close>

text \<open>One call of the check: the table latches, and the events reach store and action queue.\<close>

definition pus_s12_events :: "pus_world \<Rightarrow> (u8 \<times> u16 \<times> f32) list" where
  "pus_s12_events w = s12_events (pw_s12 w) (s20_table (pw_s20 w))"

definition pus_hook_wf :: "pus_world \<Rightarrow> bool" where
  "pus_hook_wf w \<longleftrightarrow> s5_on_event (pw_s12_s5 w) = Some obsw_s19_on_event"

lemma pus_s12_check_effect:
  assumes "pus_wf db w" "pus_hook_wf w"
  shows "pus_wf db (obsw_pus_s12_check w)" and "pus_hook_wf (obsw_pus_s12_check w)"
    and "Some (pw_s19 (obsw_pus_s12_check w)) =
      foldl (\<lambda>c ev. obsw_s19_on_event ev c) (Some (pw_s19 w)) (map (fst \<circ> snd) (pus_s12_events w))"
    and "pw_s6 (obsw_pus_s12_check w) = pw_s6 w" "pw_mode (obsw_pus_s12_check w) = pw_mode w"
proof -
  define t where "t = s20_table (pw_s20 w)"
  define s where "s = (pw_s12 w)\<lparr>s12_params := Some t\<rparr>"
  define e5 where "e5 = (\<lparr>s5_store = env_store (pw_env w), s5_fsm = None, s5_hooks = (),
    s5_event_state = Some (pw_s19 w)\<rparr> :: (unit, obsw_s19_ctx option) s5_env)"
  have pre: "s12_wf s" "s12_params s = Some t" "s19_wf (pw_s19 w)" "tm_ok (s5_store e5)"
    "s5_event_state e5 = Some (pw_s19 w)" "s5_on_event (pw_s12_s5 w) = Some obsw_s19_on_event"
    using assms by (simp_all add: pus_wf_def pus_hook_wf_def s12_part_def s_def t_def e5_def)
  obtain ds s' e' c' where r:
    "obsw_s12_check (Some s) (Some (pw_s12_s5 w), e5) = (Some (s\<lparr>s12_defs := ds\<rparr>), Some s', e')"
    "s12_wf (s\<lparr>s12_defs := ds\<rparr>)" "tm_ok (s5_store e')" "s5_on_event s' = Some obsw_s19_on_event"
    "s5_event_state e' = Some c'" "s19_wf c'"
    "Some c' = foldl (\<lambda>c ev. obsw_s19_on_event ev c) (Some (pw_s19 w)) (map (fst \<circ> snd) (s12_events s t))"
    by (rule s12_check_hooked [OF pre]) blast
  have evs: "s12_events s t = pus_s12_events w"
    by (simp add: s_def t_def pus_s12_events_def s12_events_def s12_used_def)
  have w': "obsw_pus_s12_check w = (snd s12_part (s\<lparr>s12_defs := ds\<rparr>) w)
      \<lparr>pw_s12_s5 := s', pw_s19 := c', pw_env := (pw_env w)\<lparr>env_store := s5_store e'\<rparr>\<rparr>"
    using r(1,5) by (simp add: obsw_pus_s12_check_def s12_part_def s_def t_def e5_def)
  have eq: "(pw_s12 w)\<lparr>s12_defs := ds, s12_params := Some t\<rparr> = s\<lparr>s12_defs := ds\<rparr>"
    by (cases "pw_s12 w") (simp add: s_def)
  have "s12_wf ((pw_s12 w)\<lparr>s12_defs := ds, s12_params := Some t\<rparr>)" unfolding eq by (rule r(2))
  then show "pus_wf db (obsw_pus_s12_check w)"
    using assms(1) r(3,6) unfolding w' by (simp add: pus_wf_def part_defs s_def t_def)
  show "pus_hook_wf (obsw_pus_s12_check w)" using r(4) unfolding w' by (simp add: pus_hook_wf_def s12_part_def)
  show "Some (pw_s19 (obsw_pus_s12_check w)) =
      foldl (\<lambda>c ev. obsw_s19_on_event ev c) (Some (pw_s19 w)) (map (fst \<circ> snd) (pus_s12_events w))"
    using r(7) unfolding w' evs by (simp add: s12_part_def)
  show "pw_s6 (obsw_pus_s12_check w) = pw_s6 w" "pw_mode (obsw_pus_s12_check w) = pw_mode w"
    unfolding w' by (simp_all add: s12_part_def)
qed

subsection \<open>Steps of the system\<close>

datatype pus_event = Pus_iteration | Uplink obsw_tc_frame_item | Obt_step u32 | S12_step

definition item_ok :: "obsw_tc_frame_item \<Rightarrow> bool" where
  "item_ok i \<longleftrightarrow> unat (item_len i) \<le> length (item_data i)"

definition pus_step ::
  "srdb \<Rightarrow> ('q \<Rightarrow> obsw_tc_frame_item \<Rightarrow> 'q option) \<Rightarrow> ('q \<Rightarrow> (obsw_tc_frame_item \<times> 'q) option)
   \<Rightarrow> pus_event \<Rightarrow> pus_world \<times> 'q \<Rightarrow> pus_world \<times> 'q" where
  "pus_step db q_send q_receive ev wq = (case ev of
     Pus_iteration \<Rightarrow> snd (pus_iter db q_receive wq)
   | Uplink i \<Rightarrow> (fst wq, case q_send (snd wq) i of Some q \<Rightarrow> q | None \<Rightarrow> snd wq)
   | Obt_step dt \<Rightarrow> (obsw_pus_obt_advance dt (fst wq), snd wq)
   | S12_step \<Rightarrow> (obsw_pus_s12_check (fst wq), snd wq))"

text \<open>
  What every step of the system keeps: the parts of an iteration and the calls of the FDIR
  task keep \<open>J\<close>, the queue is the bounded one the task asked for, and frames are handed over
  with the bytes they announce.
\<close>

locale pus_steps =
  fixes db :: srdb and J :: "pus_world \<Rightarrow> bool"
  assumes J_feed: "J w \<Longrightarrow> unat n \<le> length d \<Longrightarrow>
      J (snd (obsw_tc_dispatcher_feed (Some (pus_dispatcher db)) (Some d) (n :: u32) w))"
    and J_s11: "J w \<Longrightarrow> J (snd (obsw_s11_run (Some s11_part) (Some t) (Some (pus_dispatcher db)) w))"
    and J_s19: "J w \<Longrightarrow> J (snd (obsw_s19_run (Some s19_part) (Some (pus_dispatcher db)) w))"
    and J_obt: "J w \<Longrightarrow> J (obsw_pus_obt_advance dt w)"
    and J_s12: "J w \<Longrightarrow> J (obsw_pus_s12_check w)"
begin

lemma step_keeps:
  assumes fifo: "bounded_fifo q_send q_receive q_items q_inv TC_QUEUE_DEPTH (\<lambda>_. True)"
    and "J (fst wq)" "q_inv (snd wq)" "\<forall>i \<in> set (q_items (snd wq)). item_ok i"
    and "\<And>i. ev = Uplink i \<Longrightarrow> item_ok i"
  defines "wq' \<equiv> pus_step db q_send q_receive ev wq"
  shows "J (fst wq') \<and> q_inv (snd wq') \<and> (\<forall>i \<in> set (q_items (snd wq')). item_ok i)"
proof -
  obtain w q where wq: "wq = (w, q)" by (cases wq)
  show ?thesis
  proof (cases ev)
    case Pus_iteration
    define r where "r = (case q_receive q of
        Some (i, q') \<Rightarrow> (True, snd (obsw_tc_dispatcher_feed (Some (pus_dispatcher db)) (Some (item_data i))
          (ucast (item_len i) :: u32) w), q')
      | None \<Rightarrow> (False, w, q))"
    obtain h w1 q1 where f: "r = (h, w1, q1)" by (cases r)
    have "J w1 \<and> q_inv q1 \<and> (\<forall>i \<in> set (q_items q1). item_ok i)"
    proof (cases "q_receive q")
      case None
      with f assms(2-4) wq show ?thesis by (simp add: r_def)
    next
      case (Some iq)
      obtain i q' where iq: "iq = (i, q')" by (cases iq)
      have d: "q_inv q'" "q_items q = i # q_items q'"
        using bounded_fifo.deq_SomeD [OF fifo, of q i q'] assms(3) Some wq iq by simp_all
      then have "unat (ucast (item_len i) :: u32) \<le> length (item_data i)"
        using assms(4) wq by (simp add: item_ok_def unat_ucast_u16)
      with J_feed f Some iq d assms(2,4) wq show ?thesis by (auto simp: r_def)
    qed
    moreover have "wq' = (snd (obsw_s19_run (Some s19_part) (Some (pus_dispatcher db))
        (snd (obsw_s11_run (Some s11_part) (Some (pw_obt w1)) (Some (pus_dispatcher db)) w1))), q1)"
      unfolding wq'_def pus_step_def Pus_iteration pus_event.case pus_iter_def wq Let_def prod.case
        r_def [symmetric] f by (simp add: case_prod_beta)
    ultimately show ?thesis using J_s11 J_s19 by simp
  next
    case (Uplink i)
    then have i: "item_ok i" using assms(5) by blast
    show ?thesis
    proof (cases "q_send q i")
      case None
      with assms(2-4) wq Uplink show ?thesis by (simp add: wq'_def pus_step_def)
    next
      case (Some q')
      with bounded_fifo.enq_SomeD [OF fifo, of q i q'] assms(2-4) wq Uplink i show ?thesis by (auto simp: wq'_def pus_step_def)
    qed
  next
    case (Obt_step dt)
    with assms(2-4) J_obt show ?thesis by (simp add: wq'_def pus_step_def)
  next
    case S12_step
    with assms(2-4) J_s12 show ?thesis by (simp add: wq'_def pus_step_def)
  qed
qed

lemma steps_keep:
  assumes "bounded_fifo q_send q_receive q_items q_inv TC_QUEUE_DEPTH (\<lambda>_. True)"
    and "J (fst wq)" "q_inv (snd wq)" "\<forall>i \<in> set (q_items (snd wq)). item_ok i"
    and "\<forall>ev \<in> set evs. \<forall>i. ev = Uplink i \<longrightarrow> item_ok i"
  shows "J (fst (fold (pus_step db q_send q_receive) evs wq))"
  using assms
proof (induction evs arbitrary: wq)
  case (Cons ev evs)
  with step_keeps [OF Cons.prems(1), of wq ev] show ?case by simp
qed simp

end

subsection \<open>What the system keeps\<close>

text \<open>
  The invariant of the world; and, as no step of this system is one of the mode manager, the
  mode; and the memory, while the mode admits no command of service 6.
\<close>

definition mem_locked :: "unit obsw_fsm_ctx \<Rightarrow> bool" where
  "mem_locked f \<longleftrightarrow> (\<forall>subsvc. \<not> obsw_fsm_tc_allowed (Some f) 6 subsvc)"

definition pus_kept :: "srdb \<Rightarrow> unit obsw_fsm_ctx \<Rightarrow> (nat \<Rightarrow> u8) \<Rightarrow> pus_world \<Rightarrow> bool" where
  "pus_kept db f m w \<longleftrightarrow> pus_wf db w \<and> pus_hook_wf w \<and> md_fsm (pw_mode w) = f
    \<and> (mem_locked f \<longrightarrow> s6_mem (pw_s6 w) = m)"

interpretation kept_disp: dispatch_inv "pus_dispatcher db" "pus_kept db f m" for db f m
proof unfold_locales
  fix r :: "pus_world obsw_tc_route" and tc and w :: pus_world
  let ?w = "snd (rt_handler r tc (d_responder (pus_dispatcher db)) w)"
  assume r: "r \<in> set (d_table (pus_dispatcher db))" "route_match tc r"
    and w: "pus_kept db f m w" "tc_wf tc" and g: "\<forall>g. d_gate (pus_dispatcher db) = Some g \<longrightarrow> g tc w"
  have "\<not> mem_locked f" if "rt_service r = 6"
    using that g r(2) w(1) by (auto simp: pus_gate_def obsw_fsm_tc_gate_def mem_locked_def
      route_match_def route_service_def pus_kept_def)
  moreover have "rt_service r = 6 \<or> pw_s6 ?w = pw_s6 w"
    using pus_routes_frame(3) r(1) by simp
  moreover have "pus_wf db ?w" using pus_disp.handler_inv [OF r _ w(2) g] w(1) by (simp add: pus_kept_def)
  moreover have "md_fsm (pw_mode ?w) = f"
    using pus_routes_fsm [of db w tc r] r(1) w by (simp add: pus_kept_def)
  moreover have "pw_s12_s5 ?w = pw_s12_s5 w" using pus_routes_frame(4) r(1) by simp
  ultimately show "pus_kept db f m ?w" using w(1) by (auto simp: pus_kept_def pus_hook_wf_def)
qed (simp add: pus_kept_def pus_hook_wf_def pus_responder_wf)

interpretation kept_sched: schedule_host "pus_dispatcher db" "pus_kept db f m" s11_part for db f m
  by unfold_locales (simp_all add: pus_kept_def pus_wf_def part_defs pus_hook_wf_def)

interpretation kept_act: action_host "pus_dispatcher db" "pus_kept db f m" "fst s19_part" "snd s19_part" for db f m
  by unfold_locales (simp_all add: pus_kept_def pus_wf_def part_defs pus_hook_wf_def)

interpretation kept: pus_steps db "pus_kept db f m" for db f m
proof unfold_locales
  fix w d and n :: u32 and dt :: u32 and t :: obsw_obt
  assume w: "pus_kept db f m w"
  show "pus_kept db f m (snd (obsw_tc_dispatcher_feed (Some (pus_dispatcher db)) (Some d) n w))"
    if "unat n \<le> length d" using kept_disp.feed_keeps [OF _ that w] by simp
  show "pus_kept db f m (snd (obsw_s11_run (Some s11_part) (Some t) (Some (pus_dispatcher db)) w))"
    using w by (rule kept_sched.run_keeps)
  show "pus_kept db f m (snd (obsw_s19_run (Some s19_part) (Some (pus_dispatcher db)) w))"
    using kept_act.run_keeps [OF w] by simp
  show "pus_kept db f m (obsw_pus_obt_advance dt w)"
    using w by (simp add: obsw_pus_obt_advance_def pus_kept_def pus_wf_def part_defs pus_hook_wf_def)
  show "pus_kept db f m (obsw_pus_s12_check w)"
    using w pus_s12_check_effect [of db w] by (simp add: pus_kept_def)
qed

subsection \<open>The initial world\<close>

lemma pus_init_wf:
  assumes "tm_ok store" "s3_wf s3"
  shows "pus_wf db (obsw_pus_task_init db store s3 mode patch_ram mem)"
    and "pus_hook_wf (obsw_pus_task_init db store s3 mode patch_ram mem)"
proof -
  have "s3_wf (s3\<lparr>s3_param_table := t, s3_param_table_len := n, s3_param_table := t'\<rparr>)" for t n t'
  proof -
    have d: "s3_descr (s3\<lparr>s3_param_table_len := n\<rparr>) x = s3_descr s3 x" for x
      by (simp add: s3_descr_def s3_set_param_def cong: s3_params.case_cong option.case_cong)
    have "s3_wf (s3\<lparr>s3_param_table_len := n\<rparr>)"
      using assms(2) d by (simp add: s3_wf_def s3_used_def s3_set_wf_def cong: s3_params.case_cong)
    moreover have "s3\<lparr>s3_param_table := t, s3_param_table_len := n, s3_param_table := t'\<rparr>
        = s3\<lparr>s3_param_table_len := n\<rparr>\<lparr>s3_param_table := t'\<rparr>" by simp
    ultimately show ?thesis by (simp only: s3_wf_table)
  qed
  then show "pus_wf db (obsw_pus_task_init db store s3 mode patch_ram mem)"
    using assms(1)
    by (simp add: pus_wf_def obsw_pus_task_init_def Let_def part_defs s20_table_ids_def pus_s20_params_def
        obsw_s12_init_def s12_wf_def s12_used_def obsw_s19_init_def s19_wf_def s19_used_def
        obsw_s11_init_def s11_wf_def s11_used_def)
  show "pus_hook_wf (obsw_pus_task_init db store s3 mode patch_ram mem)"
    by (simp add: pus_hook_wf_def obsw_pus_task_init_def Let_def)
qed

subsection \<open>The stored commands on the real dispatcher\<close>

lemma tc_dispatch_frame:
  assumes "\<And>r. r \<in> set (d_table di) \<Longrightarrow> route_match tc r \<Longrightarrow> g (snd (rt_handler r tc (d_responder di) w)) = g w"
    and "\<And>flags. g (d_responder di flags tc w) = g w"
  shows "g (snd (tc_dispatch di tc w)) = g w"
proof -
  let ?rs = "take (unat (d_table_len di)) (d_table di)"
  have "g (snd (rt_handler (?rs ! i) tc (d_responder di) w)) = g w" if i: "find_index (route_match tc) ?rs = Some i" for i
  proof (rule assms(1))
    have "?rs ! i \<in> set ?rs" using find_index_SomeD(1) [OF i] by (rule nth_mem)
    then show "?rs ! i \<in> set (d_table di)" by (rule in_set_takeD)
  qed (rule find_index_SomeD(2) [OF i])
  then show ?thesis
    unfolding tc_dispatch_def Let_def by (simp add: assms(2) split: option.split prod.split) (metis snd_conv)
qed

lemma pus_feed_spares:
  "feed_spares 11 (pus_dispatcher db) pw_s11" "feed_spares 19 (pus_dispatcher db) (\<lambda>w. s19_static (pw_s19 w))"
proof -
  have "pw_s11 (snd (tc_dispatch (pus_dispatcher db) tc w)) = pw_s11 w" if "tc_service tc \<noteq> 11" for tc w
    using that pus_routes_frame(1) [of _ db tc pus_responder w]
    by (intro tc_dispatch_frame) (force simp: route_match_def route_service_def)+
  moreover have "pw_s19 (snd (tc_dispatch (pus_dispatcher db) tc w)) = pw_s19 w" if "tc_service tc \<noteq> 19" for tc w
    using that pus_routes_frame(2) [of _ db tc pus_responder w]
    by (intro tc_dispatch_frame) (force simp: route_match_def route_service_def)+
  ultimately show "feed_spares 11 (pus_dispatcher db) pw_s11"
    "feed_spares 19 (pus_dispatcher db) (\<lambda>w. s19_static (pw_s19 w))"
    by (simp_all add: feed_spares_def)
qed

text \<open>The schedule, on the dispatcher of the task and with its commands dispatched by it.\<close>

lemma pus_schedule_runs:
  assumes "pus_wf db w" "s11_enabled (pw_s11 w)"
    and "due = filter (act_due (tag_key (obt_coarse now) (obt_fine now))) (s11_used (pw_s11 w))"
  shows "\<exists>w'. obsw_s11_run (Some s11_part) (Some now) (Some (pus_dispatcher db)) w = (of_nat (length due), w')
    \<and> w' = foldl (s11_fire s11_part (pus_dispatcher db)) w (sort_key act_key due)
    \<and> s11_wf (pw_s11 w')"
proof -
  have wf: "s11_wf (fst s11_part w)" using assms(1) by (simp add: pus_wf_def s11_part_def)
  have pg: "fst s11_part (snd s11_part c v) = c" for c v by (simp add: s11_part_def)
  have "length due \<le> unat (s11_count (fst s11_part w))"
    using length_s11_used [OF wf] unfolding assms(3) by (metis length_filter_le s11_part_def fst_conv)
  then show ?thesis
    using s11_release_all [OF pg _ wf, of "pus_dispatcher db"] pus_feed_spares(1) assms(2,3)
    by (simp add: obsw_s11_run_def s11_part_def)
qed

text \<open>A world for the examples: no housekeeping sets, an empty whitelist, an empty store.\<close>

definition pus_example_s3 :: obsw_s3_ctx where
  "pus_example_s3 = \<lparr>s3_apid = 0x10, s3_msg_counter = 0, s3_timestamp = 0, s3_sets = [], s3_set_count = 0,
     s3_set_capacity = 0, s3_param_pool = None, s3_pool_len = 0, s3_pool_used = 0, s3_param_table = [],
     s3_param_table_len = 0, s3_vars = (\<lambda>_. 0)\<rparr>"

definition pus_example :: pus_world where
  "pus_example = obsw_pus_task_init mode_example_srdb (Some tm_store_bss) pus_example_s3
     (obsw_mode_task_init mode_example_srdb) 0 (\<lambda>_. 0)"

lemma pus_example_s3_wf: "s3_wf pus_example_s3"
  by (simp add: pus_example_s3_def s3_wf_def s3_used_def)

lemma pus_example_wf: "pus_wf mode_example_srdb pus_example" "pus_hook_wf pus_example"
  unfolding pus_example_def by (rule pus_init_wf; simp add: pus_example_s3_wf)+

text \<open>The command of a ping, TC(17,1), and its bytes.\<close>

definition ping_frame :: "u8 list" where
  "ping_frame = [0x18, 0x10, 0xC0, 0, 0, 4, 0x20, 17, 1, 0, 0]"

definition ping_tc :: obsw_tc where
  "ping_tc = \<lparr>tc_apid = 0x10, tc_service = 17, tc_subservice = 1, tc_seq_count = 0,
     tc_user_data = None, tc_user_data_len = 0\<rparr>"

lemma ping_feed_tc: "feed_tc ping_frame (11 :: u32) = Some ping_tc"
  by (simp add: ping_frame_def ping_tc_def feed_tc_def obsw_sp_parse_def obsw_sp_decode_primary_def
      obsw_sp_total_len_def sp_header_fields_def tc_of_packet_def sp_payload_bytes_def Let_def)

subsection \<open>Properties\<close>

text \<open>
  C7: Every command is verified, by the whole system.  Whatever frame carries a command to a
  well-formed world, the reports of S1 on it form a proper verification: one TM(1,2), or one
  TM(1,1) closed by one TM(1,7) or TM(1,8) according to the result; a refused command, be it
  by gate, table or service, leaves everything but the telemetry as it was; a command the
  mode does not admit is refused as gated; and the invariants of all services are kept.
\<close>

theorem pus_command_verified:
  assumes "pus_wf db w" "unat (n :: u32) \<le> length frame" "feed_tc frame n = Some tc"
  shows "\<exists>rc w' xs. obsw_tc_dispatcher_feed (Some (pus_dispatcher db)) (Some frame) n w = (rc, w')
    \<and> pus_wf db w' \<and> env_does tc (pw_env w) xs (pw_env w')
    \<and> verified (if rc = OBSW_TC_OK then 0 else -1) xs
    \<and> ((\<exists>code. xs = [S1 (Refused code)]) \<longrightarrow> w' = w\<lparr>pw_env := pw_env w'\<rparr>)
    \<and> (\<not> pus_gate tc w \<longrightarrow> rc = OBSW_TC_ERR_GATED \<and> xs = [S1 (Refused OBSW_S1_FAIL_MODE_GATED)])"
using pus_disp.command_verified [OF _ assms] by (simp add: pus_set_env_def)

lemma pus_command_verified_witness:
  "\<exists>w'. obsw_tc_dispatcher_feed (Some (pus_dispatcher mode_example_srdb)) (Some ping_frame) (11 :: u32) pus_example
      = (OBSW_TC_ERR_GATED, w') \<and> w' = pus_example\<lparr>pw_env := pw_env w'\<rparr>"
proof -
  have l: "unat (11 :: u32) \<le> length ping_frame" by (simp add: ping_frame_def)
  have g: "\<not> pus_gate ping_tc pus_example"
    by (simp add: pus_gate_def obsw_fsm_tc_gate_def obsw_fsm_tc_allowed_def pus_example_def obsw_pus_task_init_def
        Let_def obsw_mode_task_init_def obsw_fsm_init_def mode_fsm_config_def mode_example_srdb_def)
  from pus_command_verified [OF pus_example_wf(1) l ping_feed_tc] g show ?thesis by blast
qed

text \<open>
  The system keeps the invariants of its services.  From the initial world, whatever the
  ground sends and whatever the other tasks call in between, every sequence of iterations
  keeps all tables well-formed (counts within capacities, keys distinct, stored commands
  parseable, pools packed), the parameter table complete and the TM store a proper queue.
\<close>

theorem pus_world_invariant:
  assumes "bounded_fifo q_send q_receive q_items q_inv TC_QUEUE_DEPTH (\<lambda>_. True)"
    and "q_inv q" "q_items q = []" "tm_ok store" "s3_wf s3"
    and "\<forall>ev \<in> set evs. \<forall>i. ev = Uplink i \<longrightarrow> item_ok i"
  shows "pus_wf db (fst (fold (pus_step db q_send q_receive) evs
    (obsw_pus_task_init db store s3 mode patch_ram mem, q)))"
proof -
  define w where "w = obsw_pus_task_init db store s3 mode patch_ram mem"
  have "pus_kept db (md_fsm (pw_mode w)) (s6_mem (pw_s6 w)) (fst (w, q))"
    using pus_init_wf [OF assms(4,5)] by (simp add: pus_kept_def w_def)
  from kept.steps_keep [OF assms(1) this _ _ assms(6)] assms(2,3)
  show ?thesis by (simp add: pus_kept_def w_def)
qed

lemma pus_world_invariant_witness:
  "pus_wf mode_example_srdb (fst (fold (pus_step mode_example_srdb tc_list_send tc_list_recv)
     [Uplink \<lparr>item_data = ping_frame, item_len = 11\<rparr>, Obt_step 1000, Pus_iteration, S12_step] (pus_example, [])))"
  using pus_world_invariant [OF tc_list_fifo, of "[]" "Some tm_store_bss" pus_example_s3
      "[Uplink \<lparr>item_data = ping_frame, item_len = 11\<rparr>, Obt_step 1000, Pus_iteration, S12_step]"
      mode_example_srdb "obsw_mode_task_init mode_example_srdb" 0 "\<lambda>_. 0"]
  by (simp add: pus_example_s3_wf item_ok_def ping_frame_def pus_example_def [symmetric])

text \<open>
  Memory is safe outside NOMINAL.  While the mode admits no command of service 6, no
  sequence of steps writes the memory: neither a command of the ground, nor one stored in
  the schedule before the mode changed, nor one an event triggers; and no step of these
  tasks changes the mode by itself.
\<close>

theorem pus_memory_locked:
  assumes "bounded_fifo q_send q_receive q_items q_inv TC_QUEUE_DEPTH (\<lambda>_. True)"
    and "q_inv q" "\<forall>i \<in> set (q_items q). item_ok i" "pus_wf db w" "pus_hook_wf w"
    and "\<forall>ev \<in> set evs. \<forall>i. ev = Uplink i \<longrightarrow> item_ok i"
    and "mem_locked (md_fsm (pw_mode w))" "w' = fst (fold (pus_step db q_send q_receive) evs (w, q))"
  shows "s6_mem (pw_s6 w') = s6_mem (pw_s6 w) \<and> md_fsm (pw_mode w') = md_fsm (pw_mode w)"
proof -
  have "pus_kept db (md_fsm (pw_mode w)) (s6_mem (pw_s6 w)) (fst (w, q))"
    using assms(4,5) by (simp add: pus_kept_def)
  from kept.steps_keep [OF assms(1) this _ _ assms(6)] assms(2,3,7,8)
  show ?thesis by (simp add: pus_kept_def)
qed

definition load_frame :: "u8 list" where
  "load_frame = [0x18, 0x10, 0xC0, 0, 0, 11, 0x20, 6, 2, 0, 0, 0, 0, 0, 0, 0, 1, 0xAA]"

lemma pus_memory_locked_witness:
  "s6_mem (pw_s6 (fst (fold (pus_step mode_example_srdb tc_list_send tc_list_recv)
     [Uplink \<lparr>item_data = load_frame, item_len = 18\<rparr>, Pus_iteration] (pus_example, [])))) = (\<lambda>_. 0)"
proof -
  have l: "mem_locked (md_fsm (pw_mode pus_example))" "s6_mem (pw_s6 pus_example) = (\<lambda>_. 0)"
    by (simp_all add: mem_locked_def obsw_fsm_tc_allowed_def pus_example_def obsw_pus_task_init_def
        Let_def obsw_mode_task_init_def obsw_fsm_init_def mode_fsm_config_def mode_example_srdb_def)
  from pus_memory_locked [OF tc_list_fifo TrueI _ pus_example_wf _ l(1) refl,
      of "[]" "[Uplink \<lparr>item_data = load_frame, item_len = 18\<rparr>, Pus_iteration]"] l(2)
  show ?thesis by (simp add: item_ok_def load_frame_def)
qed

text \<open>
  C9: From a parameter out of limits to the command it triggers.  With event-action enabled and
  no action pending, a check of the monitoring makes the next run of the action queue
  dispatch, through the gate and the routes of the task like any uplinked command, exactly
  the stored packets of the events the check raised that have an action, in the order they
  were raised, at most four; each with the bytes of its definition.
\<close>

theorem pus_monitor_triggers:
  assumes "pus_wf db w" "pus_hook_wf w" "s19_enabled (pw_s19 w)" "s19_pending (pw_s19 w) = []"
    and "w1 = obsw_pus_s12_check w"
    and "acts = filter (\<lambda>ev. s19_actions (pw_s19 w) ev \<noteq> None) (map (fst \<circ> snd) (pus_s12_events w))"
  shows "\<exists>ds w2. obsw_s19_run (Some s19_part) (Some (pus_dispatcher db)) w1 = (of_nat (length ds), w2)
    \<and> map def_event_id ds = take 4 acts
    \<and> (\<forall>de \<in> set ds. s19_actions (pw_s19 w) (def_event_id de) = Some (def_packet de))
    \<and> w2 = foldl (\<lambda>v de. snd (obsw_tc_dispatcher_feed (Some (pus_dispatcher db)) (Some (def_action de))
             (ucast (def_action_len de) :: u64) v)) (w1\<lparr>pw_s19 := (pw_s19 w1)\<lparr>s19_queued := 0\<rparr>\<rparr>) ds"
proof -
  let ?s = "pw_s19 w" and ?s1 = "pw_s19 w1" and ?evs = "map (fst \<circ> snd) (pus_s12_events w)"
  have "s19_wf ?s" using assms(1) by (simp add: pus_wf_def)
  from s19_events_fold [OF this, of ?evs] pus_s12_check_effect(3) [OF assms(1,2)]
  have 1: "s19_wf ?s1" "s19_static ?s1 = s19_static ?s" "s19_pending ?s1 = take 4 acts"
    using assms(3,4) unfolding s19_events_def assms(5,6) by auto
  note st = s19_static_eq [OF 1(2)]
  let ?v = "w1\<lparr>pw_s19 := ?s1\<lparr>s19_queued := 0\<rparr>\<rparr>"
  have "obsw_s19_run (Some s19_part) (Some (pus_dispatcher db)) w1
      = s19_run_batch (take 4 acts) pw_s19 (pus_dispatcher db) 0 ?v"
    using 1(3) by (simp add: obsw_s19_run_def s19_part_def Let_def s19_pending_def)
  moreover have "s19_static (pw_s19 ?v) = s19_static ?s1" by (simp add: s19_static_def)
  from s19_run_batch_spec [OF pus_feed_spares(2) [of db] this 1(1), where evs = "take 4 acts" and run = 0, unfolded add_0]
  obtain ds :: "obsw_s19_def list" and w2 where "s19_run_batch (take 4 acts) pw_s19 (pus_dispatcher db) 0 ?v = (of_nat (length ds), w2)"
    and m: "map def_event_id ds = filter (\<lambda>ev. s19_actions ?s1 ev \<noteq> None) (take 4 acts)"
    and u: "set ds \<subseteq> set (s19_used ?s1)"
    and "w2 = foldl (\<lambda>v de. snd (obsw_tc_dispatcher_feed (Some (pus_dispatcher db)) (Some (def_action de))
             (ucast (def_action_len de) :: u64) v)) ?v ds" by blast
  moreover have "\<forall>ev \<in> set (take 4 acts). s19_actions ?s1 ev \<noteq> None"
    unfolding st(3) by (auto simp: assms(6) dest: in_set_takeD)
  then have "map def_event_id ds = take 4 acts" using m by (simp add: filter_id_conv [THEN iffD2])
  moreover have "s19_actions ?s (def_event_id de) = Some (def_packet de)" if "de \<in> set ds" for de
  proof -
    have d: "distinct (map def_event_id (s19_used ?s1))" using 1(1) by (simp add: s19_wf_def)
    have "de \<in> set (s19_used ?s1)" using u that by blast
    then have "s19_actions ?s1 (def_event_id de) = Some (def_packet de)"
      using table_map_Some_iff [OF d, of def_packet] unfolding s19_actions_def by blast
    then show ?thesis unfolding st(3) .
  qed
  ultimately show ?thesis by (intro exI [of _ ds] exI [of _ w2] conjI ballI) simp_all
qed

text \<open>An uptime below its limit of 1 raises event 5, whose action is a ping.\<close>

definition pus_monitored :: pus_world where
  "pus_monitored = pus_example\<lparr>pw_s19 := s19_example 1 0,
     pw_s12 := (pw_s12 pus_example)\<lparr>s12_count := 1,
       s12_defs := (s12_defs (pw_s12 pus_example))[0 :=
         \<lparr>mon_param_id = 1, mon_low = 0x3F800000, mon_high = 0x40000000, mon_event_low = 5,
          mon_event_high = 6, mon_severity = 2, mon_in_low = False, mon_in_high = False\<rparr>]\<rparr>\<rparr>"

lemma pus_monitored_wf: "pus_wf mode_example_srdb pus_monitored"
  and pus_monitored_events: "map (fst \<circ> snd) (pus_s12_events pus_monitored) = [5]"
proof -
  let ?d = "\<lparr>mon_param_id = 1, mon_low = 0x3F800000, mon_high = 0x40000000, mon_event_low = 5,
          mon_event_high = 6, mon_severity = 2, mon_in_low = False, mon_in_high = False\<rparr>"
  have u: "s12_used ((pw_s12 pus_monitored)\<lparr>s12_params := p\<rparr>) = [?d]" for p
    by (simp add: s12_used_def pus_monitored_def pus_example_def obsw_pus_task_init_def Let_def obsw_s12_init_def
        take_Cons' numeral_eq_Suc)
  have t: "s20_table (pw_s20 pus_monitored) = pus_s20_params mode_example_srdb"
    by (simp add: pus_monitored_def pus_example_def obsw_pus_task_init_def Let_def)
  have f: "obsw_s20_find (Some (pus_s20_params mode_example_srdb)) 7 1
      = Some \<lparr>s20_param_id = 1, s20_value = 0, s20_type = OBSW_S20_U32\<rparr>"
    by (simp add: obsw_s20_find_def pus_s20_params_def mode_example_srdb_def)
  have c: "s12_param_count (pw_s12 pus_monitored) = 7" "s12_count (pw_s12 pus_monitored) = 1"
    "s12_capacity (pw_s12 pus_monitored) = 8" "length (s12_defs (pw_s12 pus_monitored)) = 8"
    "s12_enabled (pw_s12 pus_monitored)"
    by (simp_all add: pus_monitored_def pus_example_def obsw_pus_task_init_def Let_def obsw_s12_init_def
        pus_s20_params_def)
  have "s12_wf (fst s12_part pus_monitored)"
    using c by (simp add: s12_wf_def s12_part_def u t f del: not_None_eq)
  moreover have "s19_wf (s19_example 1 0)" by (rule s19_example_wf) simp_all
  ultimately show "pus_wf mode_example_srdb pus_monitored"
    using pus_example_wf(1) by (simp add: pus_wf_def pus_monitored_def part_defs)
  have v: "mon_value 7 (pus_s20_params mode_example_srdb) ?d = 0"
    by (simp add: mon_value_def f obsw_s20_as_float_def f32_of_u32_def f32_of_nat_def)
  have "f32_lt 0 0x3F800000" "\<not> f32_lt 0x40000000 0"
    by (simp_all add: f32_lt_def f32_is_nan_def f32_key_def f32_neg_def f32_mag_def)
  then show "map (fst \<circ> snd) (pus_s12_events pus_monitored) = [5]"
    using u [of "s12_params (pw_s12 pus_monitored)"] c
    by (simp add: pus_s12_events_def s12_events_def t mon_events_def out_low_def out_high_def v)
qed

lemma pus_monitor_triggers_witness:
  "\<exists>w2. obsw_s19_run (Some s19_part) (Some (pus_dispatcher mode_example_srdb))
     (obsw_pus_s12_check pus_monitored) = (1, w2)"
proof -
  have s: "pw_s19 pus_monitored = s19_example 1 0" "pus_hook_wf pus_monitored"
    using pus_example_wf(2) by (simp_all add: pus_monitored_def pus_hook_wf_def)
  have e: "s19_enabled (pw_s19 pus_monitored)" "s19_pending (pw_s19 pus_monitored) = []"
    by (simp_all add: s s19_example_def s19_pending_def)
  have a: "filter (\<lambda>ev. s19_actions (pw_s19 pus_monitored) ev \<noteq> None)
      (map (fst \<circ> snd) (pus_s12_events pus_monitored)) = [5]"
    unfolding pus_monitored_events s s19_example_actions by simp
  from pus_monitor_triggers [OF pus_monitored_wf s(2) e refl refl, unfolded a]
  obtain ds :: "obsw_s19_def list" and w2 where
    "obsw_s19_run (Some s19_part) (Some (pus_dispatcher mode_example_srdb)) (obsw_pus_s12_check pus_monitored)
      = (of_nat (length ds), w2)" "map def_event_id ds = take 4 [5]" by blast
  moreover from this(2) have "length ds = 1" by (metis length_map take_Cons_numeral length_Cons list.size(3) take_Nil One_nat_def)
  ultimately show ?thesis by simp
qed

end
