(* ===== verification/Float_Ops.thy ===== *)
theory Float_Ops
  imports Float32
begin

section \<open>Arithmetic of binary32\<close>

text \<open>
  The operations on \<open>float\<close> that the attitude control code uses: sum, difference, product,
  quotient and square root of IEC 60559 in the default rounding mode, on the bits of
  \<open>f32\<close>.  An operation rounds the exact result, a quotient of natural numbers in units of
  \<open>2 ^ (-149)\<close>.  The target compiles with \<^verbatim>\<open>-std=c11\<close>, so no product and sum are fused.  The
  standard leaves the sign and the payload of a NaN that an operation yields open; the model
  has one such NaN, and no lemma depends on which.
\<close>

subsection \<open>Parts\<close>

abbreviation (input) F32_INF :: nat where "F32_INF \<equiv> 0x7F800000"
abbreviation (input) f32_zero :: f32 where "f32_zero \<equiv> 0"
abbreviation (input) f32_one :: f32 where "f32_one \<equiv> 0x3F800000"

definition f32_nan :: f32 where "f32_nan = 0x7FC00000"

definition f32_make :: "bool \<Rightarrow> nat \<Rightarrow> f32" where
  "f32_make s m = of_nat ((if s then 2 ^ 31 else 0) + m)"

definition f32_is_inf :: "f32 \<Rightarrow> bool" where
  "f32_is_inf x \<longleftrightarrow> f32_mag x = F32_INF"

definition f32_is_zero :: "f32 \<Rightarrow> bool" where
  "f32_is_zero x \<longleftrightarrow> f32_mag x = 0"

definition f32_finite :: "f32 \<Rightarrow> bool" where
  "f32_finite x \<longleftrightarrow> f32_mag x < F32_INF"

definition f32_uminus :: "f32 \<Rightarrow> f32" where
  "f32_uminus x = x XOR 0x80000000"

definition f32_le :: "f32 \<Rightarrow> f32 \<Rightarrow> bool" where
  "f32_le x y \<longleftrightarrow> \<not> f32_is_nan x \<and> \<not> f32_is_nan y \<and> \<not> f32_lt y x"

subsection \<open>Rounding\<close>

text \<open>The exponent of the unit in the last place of \<open>n / d\<close>, and the float nearest to it.\<close>

definition f32_ulp :: "nat \<Rightarrow> nat \<Rightarrow> nat" where
  "f32_ulp n d = bit_length (n div d) - 24"

definition f32_round_mag :: "nat \<Rightarrow> nat \<Rightarrow> nat" where
  "f32_round_mag n d =
    (let e = f32_ulp n d in min F32_INF (e * 2 ^ 23 + rne_div n (d * 2 ^ e)))"

definition f32_round :: "bool \<Rightarrow> nat \<Rightarrow> nat \<Rightarrow> f32" where
  "f32_round s n d = f32_make s (f32_round_mag n d)"

subsection \<open>Operations\<close>

definition f32_add :: "f32 \<Rightarrow> f32 \<Rightarrow> f32" where
  "f32_add x y =
    (if f32_is_nan x \<or> f32_is_nan y then f32_nan
     else if f32_is_inf x then (if f32_is_inf y \<and> f32_neg x \<noteq> f32_neg y then f32_nan else x)
     else if f32_is_inf y then y
     else let v = f32_value x + f32_value y in
       if v = 0 then f32_make (f32_neg x \<and> f32_neg y) 0
       else f32_round (v < 0) (nat \<bar>v\<bar>) 1)"

definition f32_sub :: "f32 \<Rightarrow> f32 \<Rightarrow> f32" where
  "f32_sub x y = f32_add x (f32_uminus y)"

definition f32_mul :: "f32 \<Rightarrow> f32 \<Rightarrow> f32" where
  "f32_mul x y =
    (let s = (f32_neg x \<noteq> f32_neg y) in
     if f32_is_nan x \<or> f32_is_nan y then f32_nan
     else if f32_is_inf x \<or> f32_is_inf y
     then (if f32_is_zero x \<or> f32_is_zero y then f32_nan else f32_make s F32_INF)
     else f32_round s (f32_units (f32_mag x) * f32_units (f32_mag y)) (2 ^ 149))"

definition f32_div :: "f32 \<Rightarrow> f32 \<Rightarrow> f32" where
  "f32_div x y =
    (let s = (f32_neg x \<noteq> f32_neg y) in
     if f32_is_nan x \<or> f32_is_nan y then f32_nan
     else if f32_is_inf x then (if f32_is_inf y then f32_nan else f32_make s F32_INF)
     else if f32_is_inf y then f32_make s 0
     else if f32_is_zero y then (if f32_is_zero x then f32_nan else f32_make s F32_INF)
     else f32_round s (f32_units (f32_mag x) * 2 ^ 149) (f32_units (f32_mag y)))"

text \<open>The integer square root, two bits at a time.\<close>

fun isqrt :: "nat \<Rightarrow> nat" where
  "isqrt n = (if n = 0 then 0
     else let s = 2 * isqrt (n div 4) in if (s + 1) * (s + 1) \<le> n then s + 1 else s)"

declare isqrt.simps [simp del]

text \<open>
  The root of \<open>u\<close> units is the root of \<open>u * 2 ^ 149\<close> in units.  It is no tie unless it is a
  whole number, so one more bit, set when it is not, rounds it as the exact root.
\<close>

definition f32_sqrt :: "f32 \<Rightarrow> f32" where
  "f32_sqrt x =
    (if f32_is_nan x then f32_nan
     else if f32_is_zero x then x
     else if f32_neg x then f32_nan
     else if f32_is_inf x then x
     else let n = f32_units (f32_mag x) * 2 ^ 149; q = isqrt n
       in f32_round False (2 * q + (if q * q = n then 0 else 1)) 2)"

subsection \<open>Signs and classes\<close>

lemma f32_bits:
  assumes "m < 2 ^ 31"
  shows f32_mag_make: "f32_mag (f32_make s m) = m" and f32_neg_make: "f32_neg (f32_make s m) = s"
proof -
  have u: "unat (f32_make s m) = (if s then 2 ^ 31 else 0) + m"
    unfolding f32_make_def using assms by (intro unat_of_nat_small) auto
  have "f32_mag (f32_make s m) = take_bit 31 (unat (f32_make s m))"
  proof -
    have "(0x7FFFFFFF :: u32) = mask 31" by (simp add: mask_eq_exp_minus_1)
    then show ?thesis unfolding f32_mag_def
      by (simp only: take_bit_eq_mask [symmetric] unsigned_take_bit_eq)
  qed
  also have "\<dots> = m" unfolding u using assms by (cases s) (simp_all add: take_bit_eq_mod)
  finally show "f32_mag (f32_make s m) = m" .
  have "f32_neg (f32_make s m) \<longleftrightarrow> bit (unat (f32_make s m)) 31"
    by (simp add: f32_neg_def bit_unsigned_iff)
  also have "\<dots> = s"
  proof (cases s)
    case True
    have "(2 ^ 31 + m) div 2 ^ 31 = Suc 0" using assms by (simp add: div_eq_dividend_iff div_nat_eqI)
    then show ?thesis unfolding u using True by (simp only: bit_iff_odd) simp
  next
    case False
    have "m div 2 ^ 31 = 0" using assms by simp
    then show ?thesis unfolding u using False by (simp only: bit_iff_odd) simp
  qed
  finally show "f32_neg (f32_make s m) = s" .
qed

lemma f32_mag_less: "f32_mag x < 2 ^ 31"
proof -
  have "f32_mag x \<le> unat (0x7FFFFFFF :: u32)"
    unfolding f32_mag_def by (metis word_and_le1 word_le_nat_alt)
  then show ?thesis by simp
qed

lemma f32_uminus_parts [simp]:
  "f32_mag (f32_uminus x) = f32_mag x" "f32_neg (f32_uminus x) \<longleftrightarrow> \<not> f32_neg x"
proof -
  have "f32_uminus x AND 0x7FFFFFFF = x AND 0x7FFFFFFF"
    by (simp add: f32_uminus_def bit.conj_xor_distrib2)
  then show "f32_mag (f32_uminus x) = f32_mag x" by (simp add: f32_mag_def)
  have "bit (0x80000000 :: u32) 31" by simp
  then show "f32_neg (f32_uminus x) \<longleftrightarrow> \<not> f32_neg x"
    by (simp only: f32_neg_def f32_uminus_def bit_xor_iff) simp
qed

lemma f32_uminus_class [simp]:
  "f32_is_nan (f32_uminus x) = f32_is_nan x" "f32_is_inf (f32_uminus x) = f32_is_inf x"
  "f32_is_zero (f32_uminus x) = f32_is_zero x" "f32_finite (f32_uminus x) = f32_finite x"
  "f32_value (f32_uminus x) = - f32_value x" "f32_key (f32_uminus x) = - f32_key x"
  by (simp_all add: f32_is_nan_def f32_is_inf_def f32_is_zero_def f32_finite_def f32_value_def f32_key_def)

lemma f32_uminus_uminus [simp]: "f32_uminus (f32_uminus x) = x"
  by (simp add: f32_uminus_def xor.assoc)

lemma f32_class_cases: "f32_is_nan x \<or> f32_is_inf x \<or> f32_finite x"
  and f32_finite_not: "f32_finite x \<Longrightarrow> \<not> f32_is_nan x \<and> \<not> f32_is_inf x"
  by (auto simp: f32_is_nan_def f32_is_inf_def f32_finite_def)

lemma f32_nan_is_nan [simp]: "f32_is_nan f32_nan"
  by (simp add: f32_nan_def f32_is_nan_def f32_mag_def)

lemma f32_make_class [simp]:
  "f32_is_nan (f32_make s 0) = False" "f32_is_nan (f32_make s F32_INF) = False"
  "f32_neg (f32_make s 0) = s" "f32_neg (f32_make s F32_INF) = s"
  "f32_value (f32_make s 0) = 0"
  by (simp_all add: f32_is_nan_def f32_value_def f32_bits)

lemma f32_round_parts [simp]:
  "f32_neg (f32_round s n d) = s" "f32_mag (f32_round s n d) = f32_round_mag n d"
  "f32_is_nan (f32_round s n d) = False"
proof -
  have "f32_round_mag n d \<le> F32_INF" by (simp add: f32_round_mag_def Let_def)
  then show "f32_neg (f32_round s n d) = s" "f32_mag (f32_round s n d) = f32_round_mag n d"
    "f32_is_nan (f32_round s n d) = False"
    by (simp_all add: f32_round_def f32_bits f32_is_nan_def)
qed

subsection \<open>NaN\<close>

text \<open>An operation on a NaN yields a NaN.\<close>

lemma f32_nan_propagates [simp]:
  "f32_is_nan x \<Longrightarrow> f32_is_nan (f32_add x y)" "f32_is_nan y \<Longrightarrow> f32_is_nan (f32_add x y)"
  "f32_is_nan x \<Longrightarrow> f32_is_nan (f32_sub x y)" "f32_is_nan y \<Longrightarrow> f32_is_nan (f32_sub x y)"
  "f32_is_nan x \<Longrightarrow> f32_is_nan (f32_mul x y)" "f32_is_nan y \<Longrightarrow> f32_is_nan (f32_mul x y)"
  "f32_is_nan x \<Longrightarrow> f32_is_nan (f32_div x y)" "f32_is_nan y \<Longrightarrow> f32_is_nan (f32_div x y)"
  "f32_is_nan x \<Longrightarrow> f32_is_nan (f32_sqrt x)"
  by (simp_all add: f32_add_def f32_sub_def f32_mul_def f32_div_def f32_sqrt_def Let_def)

text \<open>The sign of a product or a quotient that is not a NaN is that of the operands.\<close>

lemma f32_mul_neg:
  "\<not> f32_is_nan (f32_mul x y) \<Longrightarrow> f32_neg (f32_mul x y) \<longleftrightarrow> f32_neg x \<noteq> f32_neg y"
  by (simp add: f32_mul_def Let_def split: if_splits)

lemma f32_div_neg:
  "\<not> f32_is_nan (f32_div x y) \<Longrightarrow> f32_neg (f32_div x y) \<longleftrightarrow> f32_neg x \<noteq> f32_neg y"
  by (simp add: f32_div_def Let_def split: if_splits)

lemma f32_value_sign:
  "f32_value x \<ge> 0 \<longleftrightarrow> \<not> f32_neg x \<or> f32_is_zero x" "f32_value x \<le> 0 \<longleftrightarrow> f32_neg x \<or> f32_is_zero x"
  using f32_units_eq_0_iff [of "f32_mag x"] by (auto simp: f32_value_def f32_is_zero_def)

lemma f32_le_value: "\<not> f32_is_nan x \<Longrightarrow> \<not> f32_is_nan y \<Longrightarrow> f32_le x y \<longleftrightarrow> f32_value x \<le> f32_value y"
  by (simp add: f32_le_def f32_lt_value not_less)

subsection \<open>Rounding is to nearest\<close>

lemma bit_length_unique:
  assumes "2 ^ l \<le> n" "n < 2 ^ Suc l"
  shows "bit_length n = Suc l"
proof -
  have "0 < n" using assms(1) by (metis gr0I le_zero_eq power_not_zero zero_neq_numeral)
  then obtain k where k: "bit_length n = Suc k" "2 ^ k \<le> n" "n < 2 ^ Suc k"
    using bit_length_bounds [of n] by (cases "bit_length n") auto
  have "(2::nat) ^ l < 2 ^ Suc k" "(2::nat) ^ k < 2 ^ Suc l" using assms k(2,3) by linarith+
  then have "l < Suc k" "k < Suc l" by (simp_all only: power_strict_increasing_iff)
  then show ?thesis using k(1) by simp
qed

lemma f32_ulp_div:
  assumes "0 < f32_ulp n d"
  shows "2 ^ 23 \<le> n div (d * 2 ^ f32_ulp n d)" "n div (d * 2 ^ f32_ulp n d) < 2 ^ 24"
proof -
  let ?e = "f32_ulp n d"
  have l: "bit_length (n div d) = ?e + 24" using assms by (simp add: f32_ulp_def)
  then have "0 < n div d" by (metis add_gr_0 bit_length.simps less_numeral_extra(3) not_gr_zero zero_less_numeral)
  then have b: "2 ^ (?e + 23) \<le> n div d" "n div d < 2 ^ (?e + 24)"
    using bit_length_bounds [of "n div d"] unfolding l by (simp_all add: add.commute)
  have q: "n div (d * 2 ^ ?e) = n div d div 2 ^ ?e" by (rule div_mult2_eq)
  show "2 ^ 23 \<le> n div (d * 2 ^ ?e)"
    unfolding q using b(1) by (simp add: less_eq_div_iff_mult_less_eq power_add mult.commute)
  show "n div (d * 2 ^ ?e) < 2 ^ 24"
    unfolding q using b(2) by (simp add: div_less_iff_less_mult power_add mult.commute)
qed

text \<open>The magnitude before the overflow check stands for the rounded multiple of the unit.\<close>

lemma f32_round_units:
  assumes "0 < d"
  shows "f32_units (f32_ulp n d * 2 ^ 23 + rne_div n (d * 2 ^ f32_ulp n d))
    = rne_div n (d * 2 ^ f32_ulp n d) * 2 ^ f32_ulp n d"
proof -
  define e m where "e = f32_ulp n d" and "m = rne_div n (d * 2 ^ e)"
  have m: "n div (d * 2 ^ e) \<le> m" "m \<le> n div (d * 2 ^ e) + 1"
    unfolding m_def by (rule rne_div_bounds; use assms in simp)+
  have enc: "f32_units (e * 2 ^ 23 + m) = m * 2 ^ e" if "2 ^ 23 \<le> m" "m \<le> 2 ^ 24"
    using f32_units_encode [OF that, of e] by (simp add: algebra_simps)
  show ?thesis
  proof (cases "e = 0")
    case True
    have "bit_length (n div d) \<le> 24" using True by (simp add: e_def f32_ulp_def)
    then have "n div d < 2 ^ 24"
      using bit_length_bounds [of "n div d"] power_increasing [of "bit_length (n div d)" 24 "2::nat"]
      by (cases "n div d = 0") auto
    with m True have "m \<le> 2 ^ 24" by simp
    moreover have "f32_units m = m" if "m < 2 ^ 23"
      using that by (simp add: f32_units_def Let_def)
    ultimately have "f32_units (e * 2 ^ 23 + m) = m * 2 ^ e"
      using enc True by (cases "m < 2 ^ 23") simp_all
    then show ?thesis by (simp only: e_def m_def)
  next
    case False
    then have "2 ^ 23 \<le> m" "m \<le> 2 ^ 24" using m f32_ulp_div [of n d] by (simp_all add: e_def)
    from enc [OF this] show ?thesis by (simp only: e_def m_def)
  qed
qed

text \<open>A result in range is within half a unit in the last place of the exact quotient.\<close>

lemma f32_round_half_ulp:
  assumes "0 < d" "f32_round_mag n d < F32_INF"
  shows "2 * \<bar>int (f32_units (f32_round_mag n d) * d) - int n\<bar> \<le> int (d * 2 ^ f32_ulp n d)"
proof -
  let ?D = "d * 2 ^ f32_ulp n d"
  have "f32_units (f32_round_mag n d) * d = rne_div n ?D * ?D"
    using assms f32_round_units [OF assms(1), of n] by (simp add: f32_round_mag_def Let_def)
  moreover have "2 * (rne_div n ?D * ?D) \<le> 2 * n + ?D" "2 * n \<le> 2 * (rne_div n ?D * ?D) + ?D"
    by (rule rne_div_bounds; use assms(1) in simp)+
  moreover have "2 * \<bar>int a - int n\<bar> \<le> int D" if "2 * a \<le> 2 * n + D" "2 * n \<le> 2 * a + D" for a D
    using that by presburger
  ultimately show ?thesis by (simp only:)
qed

text \<open>A quotient that is a float is exact.\<close>

lemma f32_round_exact:
  assumes "0 < d" "m < F32_INF"
  shows "f32_round_mag (f32_units m * d) d = m"
proof -
  define x f where "x = m div 2 ^ 23" and "f = m mod 2 ^ 23"
  have m: "m = x * 2 ^ 23 + f" and f: "f < 2 ^ 23" by (simp_all add: x_def f_def)
  have u: "f32_units m = (if x = 0 then f else (2 ^ 23 + f) * 2 ^ (x - 1))"
    by (simp add: f32_units_def x_def f_def Let_def)
  have q: "f32_units m * d div d = f32_units m" using assms(1) by simp
  have r: "rne_div (k * D) D = k" if "0 < D" for k D using that by (simp add: rne_div_def Let_def)
  show ?thesis
  proof (cases "x = 0")
    case True
    then have "bit_length f \<le> 24"
    proof (cases "f = 0")
      case False
      then have "2 ^ (bit_length f - 1) \<le> f" "0 < bit_length f" using bit_length_bounds [of f] by auto
      then have "(2::nat) ^ (bit_length f - 1) < 2 ^ 23" using f by linarith
      then have "bit_length f - 1 < 23" by (simp only: power_strict_increasing_iff)
      then show ?thesis by simp
    qed (simp add: bit_length.simps)
    then have e: "f32_ulp (f32_units m * d) d = 0" by (simp only: f32_ulp_def q) (simp add: u True)
    have "f32_round_mag (f32_units m * d) d = min F32_INF (rne_div (f * d) d)"
      unfolding f32_round_mag_def Let_def e by (simp add: u True)
    then show ?thesis using r [OF assms(1), of f] assms(2) m True by simp
  next
    case False
    then obtain k where k: "x = Suc k" by (cases x) auto
    have "2 ^ (23 + k) \<le> f32_units m" "f32_units m < 2 ^ Suc (23 + k)"
      using f by (simp_all add: u k power_add)
    then have e: "f32_ulp (f32_units m * d) d = k" by (simp add: f32_ulp_def q bit_length_unique)
    have n: "f32_units m * d = (2 ^ 23 + f) * (d * 2 ^ k)" by (simp add: u k)
    have "f32_round_mag (f32_units m * d) d = min F32_INF (k * 2 ^ 23 + rne_div (f32_units m * d) (d * 2 ^ k))"
      unfolding f32_round_mag_def Let_def e ..
    also have "rne_div (f32_units m * d) (d * 2 ^ k) = 2 ^ 23 + f"
      unfolding n using assms(1) by (intro r) simp
    finally show ?thesis using assms(2) m by (simp add: k)
  qed
qed

lemma isqrt_spec: "isqrt n * isqrt n \<le> n \<and> n < (isqrt n + 1) * (isqrt n + 1)"
proof (induction n rule: isqrt.induct)
  case (1 n)
  show ?case
  proof (cases "n = 0")
    case True then show ?thesis by (simp add: isqrt.simps)
  next
    case False
    define t where "t = isqrt (n div 4)"
    have ih: "t * t \<le> n div 4" "n div 4 < (t + 1) * (t + 1)" using 1 False by (simp_all add: t_def)
    have i: "isqrt n = (if (2 * t + 1) * (2 * t + 1) \<le> n then 2 * t + 1 else 2 * t)"
      using False by (subst isqrt.simps) (simp add: t_def Let_def)
    have "4 * (t * t) \<le> n" "n < 4 * ((t + 1) * (t + 1))" using ih by linarith+
    then show ?thesis unfolding i by (simp add: algebra_simps)
  qed
qed

lemma isqrt_square: "isqrt (k * k) = k"
proof -
  have "(isqrt (k * k)) ^ 2 \<le> k ^ 2" "k ^ 2 < (isqrt (k * k) + 1) ^ 2"
    using isqrt_spec [of "k * k"] by (simp_all add: power2_eq_square)
  then have "isqrt (k * k) \<le> k" "k < isqrt (k * k) + 1"
    using power2_nat_le_eq_le power_less_imp_less_base by blast+
  then show ?thesis by simp
qed

subsection \<open>Arrays of three, and saturation\<close>

datatype 'a vec3 = Vec3 (v0: 'a) (v1: 'a) (v2: 'a)

definition vec3_map2 :: "('a \<Rightarrow> 'b \<Rightarrow> 'c) \<Rightarrow> 'a vec3 \<Rightarrow> 'b vec3 \<Rightarrow> 'c vec3" where
  "vec3_map2 f a b = Vec3 (f (v0 a) (v0 b)) (f (v1 a) (v1 b)) (f (v2 a) (v2 b))"

abbreviation vec3_all :: "('a \<Rightarrow> bool) \<Rightarrow> 'a vec3 \<Rightarrow> bool" where
  "vec3_all P v \<equiv> P (v0 v) \<and> P (v1 v) \<and> P (v2 v)"

lemma vec3_sel [simp]:
  "v0 (vec3_map2 f a b) = f (v0 a) (v0 b)" "v1 (vec3_map2 f a b) = f (v1 a) (v1 b)"
  "v2 (vec3_map2 f a b) = f (v2 a) (v2 b)"
  "v0 (map_vec3 g a) = g (v0 a)" "v1 (map_vec3 g a) = g (v1 a)" "v2 (map_vec3 g a) = g (v2 a)"
  by (simp_all add: vec3_map2_def vec3.map_sel)

text \<open>The two tests of the saturation loops, for one element.\<close>

definition f32_saturate :: "f32 \<Rightarrow> f32 \<Rightarrow> f32" where
  "f32_saturate lim m =
    (let m1 = (if f32_lt lim m then lim else m)
     in if f32_lt m1 (f32_uminus lim) then f32_uminus lim else m1)"

text \<open>Within the limits, or not a number.\<close>

definition f32_limited :: "f32 \<Rightarrow> f32 \<Rightarrow> bool" where
  "f32_limited lim m \<longleftrightarrow> f32_is_nan m \<or> f32_le (f32_uminus lim) m \<and> f32_le m lim"

lemma f32_lt_irrefl [simp]: "\<not> f32_lt x x"
  by (simp add: f32_lt_def)

lemma f32_0 [simp]:
  "f32_mag 0 = 0" "\<not> f32_neg 0" "\<not> f32_is_nan 0" "f32_value 0 = 0" "f32_is_zero 0" "f32_finite 0"
  by (simp_all add: f32_mag_def f32_neg_def f32_is_nan_def f32_value_def f32_is_zero_def f32_finite_def)

lemma f32_le_zero:
  assumes "f32_le f32_zero x"
  shows "\<not> f32_is_nan x" "0 \<le> f32_value x" "f32_is_zero x \<or> \<not> f32_neg x"
  using assms f32_value_sign(1) [of x] by (auto simp: f32_le_def f32_lt_value)

lemma f32_saturate_limited:
  assumes "f32_le f32_zero lim"
  shows "f32_limited lim (f32_saturate lim m)"
proof (cases "f32_is_nan m")
  case True
  then show ?thesis by (simp add: f32_saturate_def f32_limited_def Let_def)
next
  case False
  then show ?thesis using f32_le_zero [OF assms]
    by (auto simp: f32_saturate_def f32_limited_def f32_le_def f32_lt_value Let_def)
qed

text \<open>Saturation keeps the sign, does nothing to what is in range, and lets a NaN pass.\<close>

lemma f32_saturate_nan [simp]: "f32_le f32_zero lim \<Longrightarrow> f32_is_nan (f32_saturate lim m) = f32_is_nan m"
  using f32_le_zero(1) [of lim] by (auto simp: f32_saturate_def Let_def)

lemma f32_saturate_id: "f32_le (f32_uminus lim) m \<Longrightarrow> f32_le m lim \<Longrightarrow> f32_saturate lim m = m"
  by (simp add: f32_saturate_def f32_le_def Let_def)

lemma f32_saturate_sign:
  assumes "f32_le f32_zero lim"
  shows "0 \<le> f32_value m \<Longrightarrow> 0 \<le> f32_value (f32_saturate lim m)"
    and "f32_value m \<le> 0 \<Longrightarrow> f32_value (f32_saturate lim m) \<le> 0"
  using f32_le_zero [OF assms] by (cases "f32_is_nan m"; auto simp: f32_saturate_def f32_lt_value Let_def)+

text \<open>A sum that is a number has the sign its operands share.\<close>

lemma f32_add_sign:
  assumes "\<not> f32_is_nan (f32_add x y)"
  shows "0 \<le> f32_value x \<Longrightarrow> 0 \<le> f32_value y \<Longrightarrow> 0 \<le> f32_value (f32_add x y)"
    and "f32_value x \<le> 0 \<Longrightarrow> f32_value y \<le> 0 \<Longrightarrow> f32_value (f32_add x y) \<le> 0"
proof -
  have "(0 \<le> f32_value x \<and> 0 \<le> f32_value y \<longrightarrow> 0 \<le> f32_value (f32_add x y))
    \<and> (f32_value x \<le> 0 \<and> f32_value y \<le> 0 \<longrightarrow> f32_value (f32_add x y) \<le> 0)"
  proof (cases "f32_is_inf x \<or> f32_is_inf y")
    case True
    with assms show ?thesis by (auto simp: f32_add_def split: if_splits)
  next
    case False
    let ?v = "f32_value x + f32_value y"
    have r: "f32_add x y = (if ?v = 0 then f32_make (f32_neg x \<and> f32_neg y) 0
        else f32_round (?v < 0) (nat \<bar>?v\<bar>) 1)"
      using False assms by (auto simp: f32_add_def Let_def split: if_splits)
    have "f32_value (f32_round t n d) \<le> 0 \<or> \<not> t" "0 \<le> f32_value (f32_round t n d) \<or> t" for t n d
      by (auto simp: f32_value_sign)
    from this(1) [of True] this(2) [of False] show ?thesis unfolding r by auto
  qed
  then show "0 \<le> f32_value x \<Longrightarrow> 0 \<le> f32_value y \<Longrightarrow> 0 \<le> f32_value (f32_add x y)"
    "f32_value x \<le> 0 \<Longrightarrow> f32_value y \<le> 0 \<Longrightarrow> f32_value (f32_add x y) \<le> 0" by auto
qed

text \<open>Two numbers of opposite signs, one of them possibly zero.\<close>

lemma f32_value_mul_sign:
  assumes "\<not> f32_is_nan (f32_mul x y)"
  shows "\<not> f32_neg x \<Longrightarrow> 0 \<le> f32_value y \<Longrightarrow> 0 \<le> f32_value (f32_mul x y)"
    and "\<not> f32_neg x \<Longrightarrow> f32_value y \<le> 0 \<Longrightarrow> f32_value (f32_mul x y) \<le> 0"
    and "f32_neg x \<Longrightarrow> 0 \<le> f32_value y \<Longrightarrow> f32_value (f32_mul x y) \<le> 0"
    and "f32_neg x \<Longrightarrow> f32_value y \<le> 0 \<Longrightarrow> 0 \<le> f32_value (f32_mul x y)"
proof -
  have z: "f32_value (f32_mul x y) = 0" if "f32_is_zero y"
    using that assms by (auto simp: f32_mul_def f32_is_zero_def f32_value_def f32_round_mag_def rne_div_def
        f32_ulp_def bit_length.simps Let_def split: if_splits)
  note n = f32_mul_neg [OF assms] and v = f32_value_sign
  show "\<not> f32_neg x \<Longrightarrow> 0 \<le> f32_value y \<Longrightarrow> 0 \<le> f32_value (f32_mul x y)"
    "\<not> f32_neg x \<Longrightarrow> f32_value y \<le> 0 \<Longrightarrow> f32_value (f32_mul x y) \<le> 0"
    "f32_neg x \<Longrightarrow> 0 \<le> f32_value y \<Longrightarrow> f32_value (f32_mul x y) \<le> 0"
    "f32_neg x \<Longrightarrow> f32_value y \<le> 0 \<Longrightarrow> 0 \<le> f32_value (f32_mul x y)"
    by (cases "f32_is_zero y"; simp add: z v n)+
qed

end
