(* ===== verification/Float_Bounds.thy ===== *)
theory Float_Bounds
  imports Float_Ops
begin

section \<open>Bounds of binary32 results\<close>

text \<open>
  Rounding is monotone and exact on floats, so a bound that is a float carries over from the
  exact result to the rounded one.  A bound is given by its magnitude bits; \<open>f32_within k x\<close>
  says that \<open>x\<close> is a finite number of at most that magnitude.
\<close>

lemma bit_length_mono:
  assumes "m \<le> n"
  shows "bit_length m \<le> bit_length n"
proof (cases "m = 0")
  case True then show ?thesis by (simp add: bit_length.simps [of 0])
next
  case False
  then have "2 ^ (bit_length m - 1) \<le> m" "n < 2 ^ bit_length n" "0 < bit_length m"
    using assms bit_length_bounds [of m] bit_length_bounds [of n] by auto
  then have "(2::nat) ^ (bit_length m - 1) < 2 ^ bit_length n" using assms by linarith
  then have "bit_length m - 1 < bit_length n" by (simp only: power_strict_increasing_iff)
  then show ?thesis by linarith
qed

lemma rne_div_mono:
  assumes "m \<le> n" "0 < d"
  shows "rne_div m d \<le> rne_div n d"
proof (cases "m div d = n div d")
  case True
  define q where "q = n div d"
  have "m = q * d + m mod d" "n = q * d + n mod d"
    using True by (metis div_mult_mod_eq q_def)+
  then have "m mod d \<le> n mod d" using assms(1) by linarith
  then show ?thesis using True by (auto simp: rne_div_def Let_def)
next
  case False
  then have "m div d < n div d" using assms(1) div_le_mono by (metis le_neq_implies_less)
  then show ?thesis using rne_div_bounds(3,4) [OF assms(2), of n] rne_div_bounds(3,4) [OF assms(2), of m]
    by linarith
qed

lemma f32_round_mag_mono:
  assumes "m \<le> n" "0 < d"
  shows "f32_round_mag m d \<le> f32_round_mag n d"
proof -
  define e e' where "e = f32_ulp m d" and "e' = f32_ulp n d"
  have le: "e \<le> e'" unfolding e_def e'_def f32_ulp_def
    using assms(1) by (intro diff_le_mono bit_length_mono div_le_mono)
  have "e * 2 ^ 23 + rne_div m (d * 2 ^ e) \<le> e' * 2 ^ 23 + rne_div n (d * 2 ^ e')"
  proof (cases "e = e'")
    case True then show ?thesis using rne_div_mono [OF assms(1)] assms(2) by simp
  next
    case False
    with le obtain k where k: "e' = Suc k" "e \<le> k" by (cases e') auto
    have "m div (d * 2 ^ e) < 2 ^ 24"
    proof (cases "0 < e")
      case True then show ?thesis using f32_ulp_div(2) [of m d] by (simp add: e_def)
    next
      case zero: False
      then have l: "bit_length (m div d) \<le> 24" by (simp add: e_def f32_ulp_def)
      show ?thesis
      proof (cases "m div d = 0")
        case False
        then have "m div d < 2 ^ bit_length (m div d)" using bit_length_bounds by blast
        also have "\<dots> \<le> 2 ^ 24" using l by (intro power_increasing) simp_all
        finally show ?thesis using zero by simp
      qed (use zero in simp)
    qed
    moreover have "rne_div m (d * 2 ^ e) \<le> m div (d * 2 ^ e) + 1"
      using assms(2) by (intro rne_div_bounds(4)) simp
    moreover have "2 ^ 23 \<le> n div (d * 2 ^ e')" using f32_ulp_div(1) [of n d] k(1) by (simp add: e'_def)
    moreover have "n div (d * 2 ^ e') \<le> rne_div n (d * 2 ^ e')"
      using assms(2) by (intro rne_div_bounds(3)) simp
    moreover have "e * 2 ^ 23 + 2 ^ 23 \<le> e' * 2 ^ 23" using k by simp
    ultimately show ?thesis by simp
  qed
  then show ?thesis by (simp add: f32_round_mag_def e_def e'_def Let_def)
qed

lemma f32_round_le: "0 < d \<Longrightarrow> k < F32_INF \<Longrightarrow> n \<le> f32_units k * d \<Longrightarrow> f32_round_mag n d \<le> k"
  using f32_round_mag_mono [of n "f32_units k * d" d] f32_round_exact [of d k] by simp

lemma f32_round_ge: "0 < d \<Longrightarrow> k < F32_INF \<Longrightarrow> f32_units k * d \<le> n \<Longrightarrow> k \<le> f32_round_mag n d"
  using f32_round_mag_mono [of "f32_units k * d" n d] f32_round_exact [of d k] by simp

lemma f32_units_mono: "m \<le> n \<Longrightarrow> f32_units m \<le> f32_units n"
  using f32_units_less_iff [of n m] by linarith

subsection \<open>Operations within bounds\<close>

definition f32_within :: "nat \<Rightarrow> f32 \<Rightarrow> bool" where
  "f32_within k x \<longleftrightarrow> f32_mag x \<le> k \<and> k < F32_INF"

lemma f32_within_class:
  "f32_within k x \<Longrightarrow> f32_finite x" "f32_within k x \<Longrightarrow> \<not> f32_is_nan x"
  "f32_within k x \<Longrightarrow> \<not> f32_is_inf x" "f32_within k x \<Longrightarrow> f32_units (f32_mag x) \<le> f32_units k"
  by (simp_all add: f32_within_def f32_finite_def f32_is_nan_def f32_is_inf_def f32_units_mono)

lemma f32_within_uminus [simp]: "f32_within k (f32_uminus x) = f32_within k x"
  by (simp add: f32_within_def)

lemma f32_within_mono: "f32_within j x \<Longrightarrow> j \<le> k \<Longrightarrow> k < F32_INF \<Longrightarrow> f32_within k x"
  by (simp add: f32_within_def)

lemma f32_within_zero [simp]: "f32_within k 0 \<longleftrightarrow> k < F32_INF"
  by (simp add: f32_within_def)

lemma f32_value_within:
  assumes "f32_within k x"
  shows "\<bar>f32_value x\<bar> \<le> int (f32_units k)"
  using f32_within_class(4) [OF assms] by (simp add: f32_value_def)

lemma f32_round_within: "0 < d \<Longrightarrow> k < F32_INF \<Longrightarrow> n \<le> f32_units k * d \<Longrightarrow> f32_within k (f32_round s n d)"
  by (simp add: f32_within_def f32_round_le)

lemma f32_add_within:
  assumes "f32_within j x" "f32_within k y" "f32_units j + f32_units k \<le> f32_units l" "l < F32_INF"
  shows "f32_within l (f32_add x y)"
proof -
  have "nat \<bar>f32_value x + f32_value y\<bar> \<le> f32_units l"
    using f32_value_within [OF assms(1)] f32_value_within [OF assms(2)] assms(3) by linarith
  then show ?thesis
    using assms f32_within_class [OF assms(1)] f32_within_class [OF assms(2)]
    by (auto simp: f32_add_def Let_def f32_within_def f32_bits intro!: f32_round_le)
qed

lemma f32_sub_within:
  "f32_within j x \<Longrightarrow> f32_within k y \<Longrightarrow> f32_units j + f32_units k \<le> f32_units l \<Longrightarrow> l < F32_INF
    \<Longrightarrow> f32_within l (f32_sub x y)"
  unfolding f32_sub_def by (rule f32_add_within) simp_all

lemma f32_mul_within:
  assumes "f32_within j x" "f32_within k y" "f32_units j * f32_units k \<le> f32_units l * 2 ^ 149" "l < F32_INF"
  shows "f32_within l (f32_mul x y)"
proof -
  have "f32_units (f32_mag x) * f32_units (f32_mag y) \<le> f32_units l * 2 ^ 149"
    using mult_le_mono [OF f32_within_class(4) [OF assms(1)] f32_within_class(4) [OF assms(2)]] assms(3)
    by linarith
  then show ?thesis
    using assms(4) f32_within_class [OF assms(1)] f32_within_class [OF assms(2)]
    by (simp add: f32_mul_def Let_def f32_round_within)
qed

text \<open>A quotient by at least the number with magnitude bits \<open>k\<close>.\<close>

lemma f32_div_within:
  assumes "f32_within j x" "k \<le> f32_mag y" "0 < k" "f32_finite y"
    "f32_units j * 2 ^ 149 \<le> f32_units l * f32_units k" "l < F32_INF"
  shows "f32_within l (f32_div x y)"
proof -
  have y: "\<not> f32_is_nan y" "\<not> f32_is_inf y" "\<not> f32_is_zero y"
    using assms(2-4) f32_finite_not by (auto simp: f32_is_zero_def)
  have u: "0 < f32_units (f32_mag y)" "f32_units k \<le> f32_units (f32_mag y)"
    using assms(2,3) f32_units_less_iff [of 0 "f32_mag y"] by (auto intro: f32_units_mono)
  have "f32_units (f32_mag x) * 2 ^ 149 \<le> f32_units j * 2 ^ 149"
    by (intro mult_le_mono1 f32_within_class(4) assms(1))
  also have "\<dots> \<le> f32_units l * f32_units (f32_mag y)"
    using assms(5) mult_le_mono2 [OF u(2), of "f32_units l"] by linarith
  finally show ?thesis
    using y u(1) assms(6) f32_within_class [OF assms(1)] by (simp add: f32_div_def Let_def f32_round_within)
qed

lemma f32_add_ge:
  assumes "f32_finite x" "f32_finite y" "\<not> f32_neg x" "\<not> f32_neg y" "0 < k" "k < F32_INF"
    "f32_units k \<le> f32_units (f32_mag x) + f32_units (f32_mag y)"
  shows "k \<le> f32_mag (f32_add x y)" "\<not> f32_neg (f32_add x y)"
proof -
  have v: "f32_value x + f32_value y = int (f32_units (f32_mag x) + f32_units (f32_mag y))"
    using assms(3,4) by (simp add: f32_value_def)
  have "0 < f32_units k" using assms(5) f32_units_less_iff [of 0 k] by simp
  with v assms(7) have "f32_value x + f32_value y \<noteq> 0" "\<not> f32_value x + f32_value y < 0" by linarith+
  then have "f32_add x y = f32_round False (nat \<bar>f32_value x + f32_value y\<bar>) 1"
    using assms(1-2) f32_finite_not by (simp add: f32_add_def Let_def)
  then show "k \<le> f32_mag (f32_add x y)" "\<not> f32_neg (f32_add x y)"
    using assms(6,7) v by (simp_all add: f32_round_ge)
qed

end
