(* ===== verification/Bdot.thy ===== *)
theory Bdot
  imports Float_Bounds
begin

section \<open>The B-dot controller\<close>

text \<open>
  \<^verbatim>\<open>src/aocs/bdot.c\<close>: the detumbling law of SAFE mode, a dipole command against the filtered
  derivative of the magnetic field.  The context and the output are records with the fields of
  \<^verbatim>\<open>include/obsw/aocs/bdot.h\<close>; the arrays of three are \<open>vec3\<close>.  A null pointer is \<open>None\<close>.

  The lemmas show that a command stays within the dipole limit and never drives the field
  change it reacts to, and what a NaN does: it passes the saturation, and in the state of the
  filter it stays until the controller is reset.
\<close>

record obsw_bdot_config =
  bd_gain :: f32
  bd_max_dipole :: f32
  bd_hpf_tau :: f32

record obsw_bdot_ctx =
  bd_config :: obsw_bdot_config
  bd_b_prev :: "f32 vec3"
  bd_dbdt_raw_prev :: "f32 vec3"
  bd_dbdt_filt :: "f32 vec3"
  bd_initialised :: bool

record obsw_bdot_output =
  bo_m_cmd :: "f32 vec3"
  bo_dbdt :: "f32 vec3"
  bo_dbdt_filt :: "f32 vec3"

abbreviation vec3_zero :: "f32 vec3" where "vec3_zero \<equiv> Vec3 0 0 0"

subsection \<open>Operations\<close>

definition obsw_bdot_init :: "obsw_bdot_ctx option \<Rightarrow> obsw_bdot_config option \<Rightarrow> obsw_bdot_ctx option" where
  "obsw_bdot_init ctx config =
    (case (ctx, config) of
       (Some s, Some c) \<Rightarrow>
         Some (s\<lparr>bd_config := c, bd_initialised := False, bd_b_prev := vec3_zero,
                 bd_dbdt_raw_prev := vec3_zero, bd_dbdt_filt := vec3_zero\<rparr>)
     | _ \<Rightarrow> ctx)"

definition obsw_bdot_reset :: "obsw_bdot_ctx option \<Rightarrow> obsw_bdot_ctx option" where
  "obsw_bdot_reset ctx =
    (case ctx of None \<Rightarrow> None
     | Some s \<Rightarrow> Some (s\<lparr>bd_initialised := False, bd_b_prev := vec3_zero,
                         bd_dbdt_raw_prev := vec3_zero, bd_dbdt_filt := vec3_zero\<rparr>))"

text \<open>The high-pass filter, with its two arrays of state; \<open>dbdt_eff\<close> is the first result.\<close>

definition bdot_filter :: "f32 vec3 \<Rightarrow> f32 \<Rightarrow> obsw_bdot_ctx \<Rightarrow> f32 vec3 \<times> obsw_bdot_ctx" where
  "bdot_filter dbdt dt s =
    (let tau = bd_hpf_tau (bd_config s) in
     if f32_lt 0 tau
     then (let alpha = f32_div tau (f32_add tau dt);
               filt = map_vec3 (f32_mul alpha)
                 (vec3_map2 f32_sub (vec3_map2 f32_add (bd_dbdt_filt s) dbdt) (bd_dbdt_raw_prev s))
           in (filt, s\<lparr>bd_dbdt_filt := filt, bd_dbdt_raw_prev := dbdt\<rparr>))
     else (dbdt, s))"

definition obsw_bdot_step ::
  "obsw_bdot_ctx option \<Rightarrow> f32 vec3 option \<Rightarrow> f32 \<Rightarrow> obsw_bdot_output option
   \<Rightarrow> obsw_bdot_ctx option \<times> obsw_bdot_output option" where
  "obsw_bdot_step ctx b dt out =
    (case (ctx, b, out) of
       (Some s, Some b, Some _) \<Rightarrow>
         if f32_le dt 0 then (ctx, out)
         else if \<not> bd_initialised s
         then (Some (s\<lparr>bd_b_prev := b, bd_initialised := True\<rparr>),
               Some \<lparr>bo_m_cmd = vec3_zero, bo_dbdt = vec3_zero, bo_dbdt_filt = vec3_zero\<rparr>)
         else
           let dbdt = vec3_map2 (\<lambda>x p. f32_div (f32_sub x p) dt) b (bd_b_prev s);
               (dbdt_eff, s1) = bdot_filter dbdt dt s;
               k = bd_gain (bd_config s1);
               m = map_vec3 (f32_mul (f32_uminus k)) dbdt_eff;
               m' = map_vec3 (f32_saturate (bd_max_dipole (bd_config s1))) m
           in (Some (s1\<lparr>bd_b_prev := b\<rparr>),
               Some \<lparr>bo_m_cmd = m', bo_dbdt = dbdt, bo_dbdt_filt = dbdt_eff\<rparr>)
     | _ \<Rightarrow> (ctx, out))"

subsection \<open>One step\<close>

lemma bdot_filter_frame [simp]:
  "bd_config (snd (bdot_filter d dt s)) = bd_config s"
  "bd_initialised (snd (bdot_filter d dt s)) = bd_initialised s"
  "bd_b_prev (snd (bdot_filter d dt s)) = bd_b_prev s"
  by (simp_all add: bdot_filter_def Let_def)

text \<open>What a running controller computes.\<close>

definition bdot_rate :: "obsw_bdot_ctx \<Rightarrow> f32 vec3 \<Rightarrow> f32 \<Rightarrow> f32 vec3" where
  "bdot_rate s b dt = vec3_map2 (\<lambda>x p. f32_div (f32_sub x p) dt) b (bd_b_prev s)"

definition bdot_command :: "obsw_bdot_config \<Rightarrow> f32 \<Rightarrow> f32" where
  "bdot_command c x = f32_saturate (bd_max_dipole c) (f32_mul (f32_uminus (bd_gain c)) x)"

lemma bdot_step_running:
  assumes "\<not> f32_le dt 0" "bd_initialised s"
  shows "obsw_bdot_step (Some s) (Some b) dt (Some out) =
    (let (d, s1) = bdot_filter (bdot_rate s b dt) dt s in
     (Some (s1\<lparr>bd_b_prev := b\<rparr>),
      Some \<lparr>bo_m_cmd = map_vec3 (bdot_command (bd_config s)) d,
            bo_dbdt = bdot_rate s b dt, bo_dbdt_filt = d\<rparr>))"
proof -
  obtain d s1 where f: "bdot_filter (bdot_rate s b dt) dt s = (d, s1)" by fastforce
  then have "bd_config s1 = bd_config s" using bdot_filter_frame(1) by (metis snd_conv)
  with f assms show ?thesis
    by (simp add: obsw_bdot_step_def bdot_rate_def [symmetric] vec3.map_comp comp_def
        bdot_command_def [abs_def] Let_def)
qed

lemma bdot_step_cases:
  obtains (idle) "f32_le dt 0" "obsw_bdot_step (Some s) (Some b) dt (Some out) = (Some s, Some out)"
  | (first) "\<not> f32_le dt 0" "\<not> bd_initialised s"
      "obsw_bdot_step (Some s) (Some b) dt (Some out) = (Some (s\<lparr>bd_b_prev := b, bd_initialised := True\<rparr>),
        Some \<lparr>bo_m_cmd = vec3_zero, bo_dbdt = vec3_zero, bo_dbdt_filt = vec3_zero\<rparr>)"
  | (running) "\<not> f32_le dt 0" "bd_initialised s"
  by (auto simp: obsw_bdot_step_def)

text \<open>A step returns a context with the same configuration and an output.\<close>

lemma bdot_step_total:
  obtains s' out' where "obsw_bdot_step (Some s) (Some b) dt (Some out) = (Some s', Some out')"
    and "bd_config s' = bd_config s" "bd_initialised s \<Longrightarrow> bd_initialised s'"
proof (cases rule: bdot_step_cases [of dt s b out])
  case running
  obtain d s1 where f: "bdot_filter (bdot_rate s b dt) dt s = (d, s1)" by fastforce
  then have "bd_config s1 = bd_config s" "bd_initialised s1 = bd_initialised s"
    using bdot_filter_frame(1,2) by (metis snd_conv)+
  with f that running(2) show thesis unfolding bdot_step_running [OF running] by simp
qed (use that in auto)

lemma bdot_command_limited: "f32_le 0 (bd_max_dipole c) \<Longrightarrow> f32_limited (bd_max_dipole c) (bdot_command c x)"
  by (simp add: bdot_command_def f32_saturate_limited)

text \<open>With a positive gain the command is against the rate.\<close>

lemma bdot_command_opposes:
  assumes "f32_le 0 (bd_max_dipole c)" "\<not> f32_neg (bd_gain c)" "\<not> f32_is_nan (bdot_command c x)"
  shows "f32_value (bdot_command c x) * f32_value x \<le> 0"
proof -
  let ?m = "f32_mul (f32_uminus (bd_gain c)) x"
  have n: "\<not> f32_is_nan ?m" using assms(1,3) by (simp add: bdot_command_def)
  show ?thesis
  proof (cases "0 \<le> f32_value x")
    case True
    with f32_value_mul_sign(3) [OF n] assms(2) have "f32_value ?m \<le> 0" by simp
    from f32_saturate_sign(2) [OF assms(1) this] True show ?thesis
      by (simp add: bdot_command_def mult_nonpos_nonneg)
  next
    case False
    with f32_value_mul_sign(4) [OF n] assms(2) have "0 \<le> f32_value ?m" by simp
    from f32_saturate_sign(1) [OF assms(1) this] False show ?thesis
      by (simp add: bdot_command_def mult_nonneg_nonpos)
  qed
qed

subsection \<open>The command\<close>

definition bdot_axis_ok :: "obsw_bdot_config \<Rightarrow> f32 \<Rightarrow> f32 \<Rightarrow> bool" where
  "bdot_axis_ok c m d \<longleftrightarrow> f32_limited (bd_max_dipole c) m
    \<and> (\<not> f32_is_nan m \<longrightarrow> f32_value m * f32_value d \<le> 0)"

text \<open>
  C33: a B-dot step with a positive time step, a dipole limit that is not negative and a
  positive gain always gives an output, and on each axis the command is a number within the
  limit that does not have the sign of the filtered field rate, so that the torque works
  against the rotation; or it is a NaN.
\<close>

theorem bdot_command_safe:
  assumes "f32_lt 0 dt" "f32_le 0 (bd_max_dipole (bd_config s))" "f32_lt 0 (bd_gain (bd_config s))"
  shows "\<exists>s' out'. obsw_bdot_step (Some s) (Some b) dt (Some out) = (Some s', Some out')
    \<and> bdot_axis_ok (bd_config s) (v0 (bo_m_cmd out')) (v0 (bo_dbdt_filt out'))
    \<and> bdot_axis_ok (bd_config s) (v1 (bo_m_cmd out')) (v1 (bo_dbdt_filt out'))
    \<and> bdot_axis_ok (bd_config s) (v2 (bo_m_cmd out')) (v2 (bo_dbdt_filt out'))"
proof (cases rule: bdot_step_cases [of dt s b out])
  case idle
  with assms(1) show ?thesis by (simp add: f32_le_def)
next
  case first
  have "f32_limited (bd_max_dipole (bd_config s)) 0"
    using f32_saturate_limited [OF assms(2), of 0] f32_le_zero [OF assms(2)]
    by (simp add: f32_limited_def f32_le_def f32_lt_value)
  with first show ?thesis by (simp add: bdot_axis_ok_def)
next
  case running
  have "\<not> f32_neg (bd_gain (bd_config s))" using assms(3) by (auto simp: f32_lt_def f32_key_def split: if_splits)
  then have "bdot_axis_ok (bd_config s) (bdot_command (bd_config s) x) x" for x
    using bdot_command_limited [OF assms(2)] bdot_command_opposes [OF assms(2)]
    by (simp add: bdot_axis_ok_def)
  then show ?thesis unfolding bdot_step_running [OF running]
    by (simp add: Let_def split: prod.split)
qed

theorem bdot_command_safe_witness:
  "\<exists>s' out'. obsw_bdot_step (Some \<lparr>bd_config = \<lparr>bd_gain = 0x461C4000, bd_max_dipole = 0x41200000,
        bd_hpf_tau = 0x41700000\<rparr>, bd_b_prev = vec3_zero, bd_dbdt_raw_prev = vec3_zero,
        bd_dbdt_filt = vec3_zero, bd_initialised = True\<rparr>)
      (Some (Vec3 0x3F800000 0 0)) 0x3DCCCCCD
      (Some \<lparr>bo_m_cmd = vec3_zero, bo_dbdt = vec3_zero, bo_dbdt_filt = vec3_zero\<rparr>) = (Some s', Some out')
    \<and> f32_limited 0x41200000 (v0 (bo_m_cmd out'))"
  using bdot_command_safe [of "0x3DCCCCCD" "\<lparr>bd_config = \<lparr>bd_gain = 0x461C4000, bd_max_dipole = 0x41200000,
        bd_hpf_tau = 0x41700000\<rparr>, bd_b_prev = vec3_zero, bd_dbdt_raw_prev = vec3_zero,
        bd_dbdt_filt = vec3_zero, bd_initialised = True\<rparr>" "Vec3 0x3F800000 0 0"
      "\<lparr>bo_m_cmd = vec3_zero, bo_dbdt = vec3_zero, bo_dbdt_filt = vec3_zero\<rparr>"]
  by (auto simp: f32_lt_def f32_le_def f32_is_nan_def f32_key_def f32_neg_def f32_mag_def bdot_axis_ok_def)

subsection \<open>A NaN in the filter\<close>

text \<open>A run of samples, each with the gain and the time constant set before it.\<close>

fun bdot_run ::
  "(f32 \<times> f32 \<times> f32 vec3) list \<Rightarrow> f32 \<Rightarrow> obsw_bdot_ctx \<Rightarrow> obsw_bdot_output
   \<Rightarrow> obsw_bdot_ctx \<times> obsw_bdot_output" where
  "bdot_run [] dt s out = (s, out)"
| "bdot_run ((k, tau, b) # bs) dt s out =
    (case obsw_bdot_step (Some (s\<lparr>bd_config := (bd_config s)\<lparr>bd_gain := k, bd_hpf_tau := tau\<rparr>\<rparr>))
            (Some b) dt (Some out) of
       (s', out') \<Rightarrow> bdot_run bs dt (the s') (the out'))"

lemma bdot_nan_step:
  assumes "f32_lt 0 dt" "bd_initialised s" "f32_lt 0 (bd_hpf_tau (bd_config s))"
    "f32_le 0 (bd_max_dipole (bd_config s))" "v \<in> {v0, v1, v2}" "f32_is_nan (v (bd_dbdt_filt s))"
    "obsw_bdot_step (Some s) (Some b) dt (Some out) = (s', out')"
  shows "bd_initialised (the s')" "bd_config (the s') = bd_config s"
    "f32_is_nan (v (bd_dbdt_filt (the s')))" "f32_is_nan (v (bo_m_cmd (the out')))"
proof -
  have dt: "\<not> f32_le dt 0" using assms(1) by (simp add: f32_le_def)
  have "bd_initialised (the s') \<and> bd_config (the s') = bd_config s
      \<and> f32_is_nan (v (bd_dbdt_filt (the s'))) \<and> f32_is_nan (v (bo_m_cmd (the out')))"
    using assms(3-7) unfolding bdot_step_running [OF dt assms(2)]
    by (auto simp: bdot_filter_def bdot_command_def Let_def assms(2))
  then show "bd_initialised (the s')" "bd_config (the s') = bd_config s"
    "f32_is_nan (v (bd_dbdt_filt (the s')))" "f32_is_nan (v (bo_m_cmd (the out')))" by auto
qed

lemma bdot_nan_run:
  assumes "f32_lt 0 dt" "bd_initialised s" "f32_le 0 (bd_max_dipole (bd_config s))"
    "\<forall>(k, tau, b) \<in> set bs. f32_lt 0 tau" "v \<in> {v0, v1, v2}"
    "f32_is_nan (v (bd_dbdt_filt s))" "f32_is_nan (v (bo_m_cmd out))"
  shows "f32_is_nan (v (bd_dbdt_filt (fst (bdot_run bs dt s out))))
    \<and> f32_is_nan (v (bo_m_cmd (snd (bdot_run bs dt s out))))"
  using assms(2-7)
proof (induction bs arbitrary: s out)
  case (Cons x bs)
  obtain k tau b where x: "x = (k, tau, b)" by (cases x)
  let ?s = "s\<lparr>bd_config := (bd_config s)\<lparr>bd_gain := k, bd_hpf_tau := tau\<rparr>\<rparr>"
  obtain s' out' where st: "obsw_bdot_step (Some ?s) (Some b) dt (Some out) = (s', out')" by fastforce
  have "f32_lt 0 tau" using Cons.prems(3) x by auto
  note nan = bdot_nan_step [OF assms(1) _ _ _ _ _ st, of v, simplified, OF Cons.prems(1) this Cons.prems(2,4,5) [simplified]]
  have "bdot_run (x # bs) dt s out = bdot_run bs dt (the s') (the out')" by (simp add: x st)
  with Cons.IH [of "the s'" "the out'"] nan Cons.prems(2-4) show ?case by simp
qed simp

text \<open>
  An infinite time constant for a single step, which the parameter service accepts like
  any other value, makes every command from then on a NaN on all three axes, whatever the
  measurements, gains and positive time constants of the following steps are; a reset of the
  controller clears the filter.
\<close>

theorem bdot_nan_latches:
  assumes "f32_lt 0 dt" "bd_initialised s" "f32_le 0 (bd_max_dipole (bd_config s))"
    "\<forall>(k, tau, b) \<in> set bs. f32_lt 0 tau"
    "bdot_run ((k, 0x7F800000, b) # bs) dt s out = (s', out')"
  shows "vec3_all f32_is_nan (bo_m_cmd out') \<and> bd_dbdt_filt (the (obsw_bdot_reset (Some s'))) = vec3_zero"
proof -
  let ?s = "s\<lparr>bd_config := (bd_config s)\<lparr>bd_gain := k, bd_hpf_tau := 0x7F800000\<rparr>\<rparr>"
  have dt: "\<not> f32_le dt 0" "\<not> f32_is_nan dt" using assms(1) by (auto simp: f32_le_def f32_lt_def)
  have inf: "f32_lt 0 0x7F800000" "f32_is_inf 0x7F800000" "\<not> f32_is_nan 0x7F800000" "\<not> f32_neg 0x7F800000"
    by (simp_all add: f32_lt_def f32_key_def f32_is_inf_def f32_is_nan_def f32_mag_def f32_neg_def)
  have "f32_neg dt \<longrightarrow> \<not> f32_is_inf dt" using assms(1) by (auto simp: f32_lt_def f32_key_def)
  then have alpha: "f32_is_nan (f32_div 0x7F800000 (f32_add 0x7F800000 dt))"
    using inf dt(2) by (simp add: f32_add_def f32_div_def Let_def)
  obtain s1 out1 where st: "obsw_bdot_step (Some ?s) (Some b) dt (Some out) = (Some s1, Some out1)"
    and c: "bd_config s1 = bd_config ?s" and i: "bd_initialised s1"
    using bdot_step_total [of ?s b dt out] assms(2) by auto
  have run: "obsw_bdot_step (Some ?s) (Some b) dt (Some out)
      = (let (d, s1) = bdot_filter (bdot_rate ?s b dt) dt ?s in
     (Some (s1\<lparr>bd_b_prev := b\<rparr>), Some \<lparr>bo_m_cmd = map_vec3 (bdot_command (bd_config ?s)) d,
            bo_dbdt = bdot_rate ?s b dt, bo_dbdt_filt = d\<rparr>))"
    using bdot_step_running [OF dt(1), of ?s b out] assms(2) by simp
  have nan: "f32_is_nan (v (bd_dbdt_filt s1))" "f32_is_nan (v (bo_m_cmd out1))"
      if "v \<in> {v0, v1, v2}" for v
    using run st that alpha inf(1) assms(3)
    by (auto simp: bdot_filter_def bdot_command_def Let_def)
  have r: "bdot_run bs dt s1 out1 = (s', out')" using assms(5) st by simp
  have "f32_is_nan (v (bo_m_cmd out'))" if "v \<in> {v0, v1, v2}" for v
    using bdot_nan_run [OF assms(1) i _ assms(4) that nan [OF that]] c assms(3) r by simp
  from this [of v0] this [of v1] this [of v2] show ?thesis by (simp add: obsw_bdot_reset_def)
qed

theorem bdot_nan_latches_witness:
  "\<exists>s' out'. bdot_run ((0x461C4000, 0x7F800000, vec3_zero) # [(0x461C4000, 0x41700000, vec3_zero)]) 0x3DCCCCCD
      \<lparr>bd_config = \<lparr>bd_gain = 0x461C4000, bd_max_dipole = 0x41200000, bd_hpf_tau = 0x41700000\<rparr>,
        bd_b_prev = vec3_zero, bd_dbdt_raw_prev = vec3_zero, bd_dbdt_filt = vec3_zero, bd_initialised = True\<rparr>
      \<lparr>bo_m_cmd = vec3_zero, bo_dbdt = vec3_zero, bo_dbdt_filt = vec3_zero\<rparr> = (s', out')
    \<and> vec3_all f32_is_nan (bo_m_cmd out')"
proof -
  define c where "c = \<lparr>bd_gain = 0x461C4000, bd_max_dipole = 0x41200000, bd_hpf_tau = 0x41700000\<rparr>"
  define s where "s = \<lparr>bd_config = c, bd_b_prev = vec3_zero, bd_dbdt_raw_prev = vec3_zero,
    bd_dbdt_filt = vec3_zero, bd_initialised = True\<rparr>"
  define out where "out = \<lparr>bo_m_cmd = vec3_zero, bo_dbdt = vec3_zero, bo_dbdt_filt = vec3_zero\<rparr>"
  obtain s' out' where r: "bdot_run ((0x461C4000, 0x7F800000, vec3_zero) # [(0x461C4000, 0x41700000, vec3_zero)])
      0x3DCCCCCD s out = (s', out')" by (rule prod.exhaust)
  have "f32_lt 0 0x3DCCCCCD" "f32_lt 0 0x41700000" "f32_le 0 0x41200000"
    by (simp_all add: f32_lt_def f32_le_def f32_is_nan_def f32_key_def f32_neg_def f32_mag_def)
  then have "vec3_all f32_is_nan (bo_m_cmd out')"
    by (intro bdot_nan_latches [OF _ _ _ _ r, THEN conjunct1]) (simp_all add: s_def c_def)
  with r show ?thesis unfolding s_def c_def out_def by blast
qed

end
