(* ===== verification/Adcs.thy ===== *)
theory Adcs
  imports Float_Ops
begin

section \<open>The attitude controller\<close>

text \<open>
  \<^verbatim>\<open>src/aocs/adcs.c\<close>: quaternions and the proportional-derivative law of NOMINAL mode, on
  the bits of binary32.  \<^verbatim>\<open>acosf\<close> is of the mathematics library, which the standard does not
  bind to a value, so it is an argument.

  The lemmas show when a measurement or a target is refused and what then stays, that the
  error quaternion takes the short way round, that every torque is within its limit or a
  NaN, and that it works against an attitude error and a rate of the same sign.
\<close>

record obsw_quat =
  q_w :: f32
  q_x :: f32
  q_y :: f32
  q_z :: f32

record obsw_adcs_config =
  ad_kp :: f32
  ad_kd :: f32
  ad_max_torque :: f32

record obsw_adcs_ctx =
  ad_config :: obsw_adcs_config
  ad_q_cmd :: obsw_quat

record obsw_adcs_output =
  ad_torque_cmd :: "f32 vec3"
  ad_q_err :: obsw_quat
  ad_angle_err_rad :: f32

subsection \<open>Quaternions\<close>

definition quat_norm :: "obsw_quat \<Rightarrow> f32" where
  "quat_norm q = f32_sqrt (f32_add (f32_add (f32_add (f32_mul (q_w q) (q_w q)) (f32_mul (q_x q) (q_x q)))
      (f32_mul (q_y q) (q_y q))) (f32_mul (q_z q) (q_z q)))"

text \<open>\<open>0x2EDBE6FF\<close> is \<open>1e-10f\<close>.\<close>

definition obsw_quat_normalise :: "obsw_quat \<Rightarrow> bool \<times> obsw_quat" where
  "obsw_quat_normalise q =
    (let norm = quat_norm q in
     if f32_lt norm 0x2EDBE6FF then (False, q)
     else let i = f32_div f32_one norm
       in (True, \<lparr>q_w = f32_mul (q_w q) i, q_x = f32_mul (q_x q) i,
                  q_y = f32_mul (q_y q) i, q_z = f32_mul (q_z q) i\<rparr>))"

definition obsw_quat_conjugate :: "obsw_quat \<Rightarrow> obsw_quat" where
  "obsw_quat_conjugate q =
    \<lparr>q_w = q_w q, q_x = f32_uminus (q_x q), q_y = f32_uminus (q_y q), q_z = f32_uminus (q_z q)\<rparr>"

definition obsw_quat_multiply :: "obsw_quat \<Rightarrow> obsw_quat \<Rightarrow> obsw_quat" where
  "obsw_quat_multiply a b =
    \<lparr>q_w = f32_sub (f32_sub (f32_sub (f32_mul (q_w a) (q_w b)) (f32_mul (q_x a) (q_x b)))
             (f32_mul (q_y a) (q_y b))) (f32_mul (q_z a) (q_z b)),
     q_x = f32_sub (f32_add (f32_add (f32_mul (q_w a) (q_x b)) (f32_mul (q_x a) (q_w b)))
             (f32_mul (q_y a) (q_z b))) (f32_mul (q_z a) (q_y b)),
     q_y = f32_add (f32_add (f32_sub (f32_mul (q_w a) (q_y b)) (f32_mul (q_x a) (q_z b)))
             (f32_mul (q_y a) (q_w b))) (f32_mul (q_z a) (q_x b)),
     q_z = f32_add (f32_sub (f32_add (f32_mul (q_w a) (q_z b)) (f32_mul (q_x a) (q_y b)))
             (f32_mul (q_y a) (q_x b))) (f32_mul (q_z a) (q_w b))\<rparr>"

subsection \<open>Operations\<close>

definition obsw_adcs_init :: "obsw_adcs_ctx option \<Rightarrow> obsw_adcs_config option \<Rightarrow> obsw_adcs_ctx option" where
  "obsw_adcs_init ctx config =
    (case (ctx, config) of
       (Some s, Some c) \<Rightarrow>
         Some (s\<lparr>ad_config := c, ad_q_cmd := \<lparr>q_w = f32_one, q_x = 0, q_y = 0, q_z = 0\<rparr>\<rparr>)
     | _ \<Rightarrow> ctx)"

definition obsw_adcs_set_target ::
  "obsw_adcs_ctx option \<Rightarrow> obsw_quat option \<Rightarrow> bool \<times> obsw_adcs_ctx option" where
  "obsw_adcs_set_target ctx q =
    (case (ctx, q) of
       (Some s, Some q) \<Rightarrow>
         (case obsw_quat_normalise q of (ok, target) \<Rightarrow>
            if \<not> ok then (False, ctx) else (True, Some (s\<lparr>ad_q_cmd := target\<rparr>)))
     | _ \<Rightarrow> (False, ctx))"

text \<open>The short way round.\<close>

definition quat_short_path :: "obsw_quat \<Rightarrow> obsw_quat" where
  "quat_short_path q =
    (if f32_lt (q_w q) 0
     then \<lparr>q_w = f32_uminus (q_w q), q_x = f32_uminus (q_x q),
            q_y = f32_uminus (q_y q), q_z = f32_uminus (q_z q)\<rparr>
     else q)"

definition adcs_tau :: "obsw_adcs_config \<Rightarrow> f32 \<Rightarrow> f32 \<Rightarrow> f32" where
  "adcs_tau c e w = f32_sub (f32_mul (f32_uminus (ad_kp c)) e) (f32_mul (ad_kd c) w)"

definition obsw_adcs_step ::
  "(f32 \<Rightarrow> f32) \<Rightarrow> obsw_adcs_ctx option \<Rightarrow> obsw_quat option \<Rightarrow> f32 vec3 option
   \<Rightarrow> obsw_adcs_output option \<Rightarrow> bool \<times> obsw_adcs_output option" where
  "obsw_adcs_step acosf ctx q_meas omega out =
    (case (ctx, q_meas, omega, out) of
       (Some s, Some q, Some om, Some _) \<Rightarrow>
         (case obsw_quat_normalise q of (ok, q_m) \<Rightarrow>
            if \<not> ok then (False, out)
            else
              let q_cmd_c = obsw_quat_conjugate (ad_q_cmd s);
                  q_err = snd (obsw_quat_normalise (obsw_quat_multiply q_cmd_c q_m));
                  q_err = quat_short_path q_err;
                  c = ad_config s;
                  tau = Vec3 (adcs_tau c (q_x q_err) (v0 om)) (adcs_tau c (q_y q_err) (v1 om))
                             (adcs_tau c (q_z q_err) (v2 om))
              in (True, Some \<lparr>ad_torque_cmd = map_vec3 (f32_saturate (ad_max_torque c)) tau,
                              ad_q_err = q_err,
                              ad_angle_err_rad = f32_mul 0x40000000 (acosf (q_w q_err))\<rparr>))
     | _ \<Rightarrow> (False, out))"

subsection \<open>The torque\<close>

definition adcs_axis_ok :: "obsw_adcs_config \<Rightarrow> f32 \<Rightarrow> f32 \<Rightarrow> f32 \<Rightarrow> bool" where
  "adcs_axis_ok c t e w \<longleftrightarrow> f32_limited (ad_max_torque c) t
    \<and> (\<not> f32_is_nan t \<longrightarrow>
        (0 \<le> f32_value e \<and> 0 \<le> f32_value w \<longrightarrow> f32_value t \<le> 0)
      \<and> (f32_value e \<le> 0 \<and> f32_value w \<le> 0 \<longrightarrow> 0 \<le> f32_value t))"

lemma adcs_tau_sign:
  assumes "\<not> f32_neg (ad_kp c)" "\<not> f32_neg (ad_kd c)" "\<not> f32_is_nan (adcs_tau c e w)"
  shows "0 \<le> f32_value e \<Longrightarrow> 0 \<le> f32_value w \<Longrightarrow> f32_value (adcs_tau c e w) \<le> 0"
    and "f32_value e \<le> 0 \<Longrightarrow> f32_value w \<le> 0 \<Longrightarrow> 0 \<le> f32_value (adcs_tau c e w)"
proof -
  let ?p = "f32_mul (f32_uminus (ad_kp c)) e" and ?d = "f32_mul (ad_kd c) w"
  have n: "\<not> f32_is_nan (f32_add ?p (f32_uminus ?d))" using assms(3) by (simp add: adcs_tau_def f32_sub_def)
  then have "\<not> f32_is_nan ?p" "\<not> f32_is_nan ?d" by auto
  note p = f32_value_mul_sign [OF this(1)] and d = f32_value_mul_sign [OF this(2)]
  show "f32_value (adcs_tau c e w) \<le> 0" if "0 \<le> f32_value e" "0 \<le> f32_value w"
    unfolding adcs_tau_def f32_sub_def using that assms(1,2) p(3) d(1)
    by (intro f32_add_sign(2) [OF n]) simp_all
  show "0 \<le> f32_value (adcs_tau c e w)" if "f32_value e \<le> 0" "f32_value w \<le> 0"
    unfolding adcs_tau_def f32_sub_def using that assms(1,2) p(4) d(2)
    by (intro f32_add_sign(1) [OF n]) simp_all
qed

lemma adcs_axis:
  assumes "f32_le 0 (ad_max_torque c)" "\<not> f32_neg (ad_kp c)" "\<not> f32_neg (ad_kd c)"
  shows "adcs_axis_ok c (f32_saturate (ad_max_torque c) (adcs_tau c e w)) e w"
  unfolding adcs_axis_ok_def
  using f32_saturate_limited [OF assms(1)] adcs_tau_sign [OF assms(2,3)] f32_saturate_sign [OF assms(1)]
    f32_saturate_nan [OF assms(1)]
  by blast

lemma quat_short_path_w: "\<not> f32_lt (q_w (quat_short_path q)) 0"
  by (auto simp: quat_short_path_def f32_lt_def f32_key_def split: if_splits)

lemma f32_lt_0_pos: "f32_lt 0 x \<Longrightarrow> \<not> f32_neg x"
  by (auto simp: f32_lt_def f32_key_def split: if_splits)

text \<open>
  C34: whenever a control step runs, with positive gains and a torque limit that is not
  negative, the error quaternion it reports takes the short way round, and on each axis the
  torque is a number within the limit, not positive when the attitude error and the rate
  are both not negative and not negative when both are not positive; or it is a NaN.
\<close>

theorem adcs_torque_safe:
  assumes "f32_le 0 (ad_max_torque (ad_config s))" "f32_lt 0 (ad_kp (ad_config s))"
    "f32_lt 0 (ad_kd (ad_config s))"
    "obsw_adcs_step acosf (Some s) (Some q) (Some om) (Some out) = (True, Some out')"
  shows "\<not> f32_lt (q_w (ad_q_err out')) 0
    \<and> adcs_axis_ok (ad_config s) (v0 (ad_torque_cmd out')) (q_x (ad_q_err out')) (v0 om)
    \<and> adcs_axis_ok (ad_config s) (v1 (ad_torque_cmd out')) (q_y (ad_q_err out')) (v1 om)
    \<and> adcs_axis_ok (ad_config s) (v2 (ad_torque_cmd out')) (q_z (ad_q_err out')) (v2 om)"
  using assms(4) adcs_axis [OF assms(1) f32_lt_0_pos [OF assms(2)] f32_lt_0_pos [OF assms(3)]]
  by (auto simp: obsw_adcs_step_def quat_short_path_w Let_def split: prod.splits if_splits)

text \<open>The identity has norm 1, so a step on it runs.\<close>

lemma quat_norm_identity: "quat_norm \<lparr>q_w = f32_one, q_x = 0, q_y = 0, q_z = 0\<rparr> = f32_one"
proof -
  have cls: "\<not> f32_is_nan f32_one" "\<not> f32_is_inf f32_one" "\<not> f32_neg f32_one" "f32_mag f32_one = 0x3F800000"
    "\<not> f32_is_inf 0" "f32_value f32_one = 2 ^ 149" "\<not> f32_is_zero f32_one"
    by (simp_all add: f32_is_nan_def f32_is_inf_def f32_neg_def f32_mag_def f32_value_def f32_units_def f32_is_zero_def)
  have u: "f32_units 0x3F800000 = 2 ^ 149" by (simp add: f32_units_def)
  have one: "f32_round False (2 ^ 149 * d) d = f32_one" if "0 < d" for d
    using f32_round_exact [OF that, of "0x3F800000"] by (simp add: f32_round_def f32_make_def u)
  have zero: "f32_mul 0 0 = 0"
    using f32_round_exact [of "2 ^ 149" 0] cls(5) by (simp add: f32_mul_def Let_def f32_round_def f32_make_def)
  have m: "f32_mul f32_one f32_one = f32_one"
    unfolding f32_mul_def Let_def cls(4) u using one [of "2 ^ 149"] cls by simp
  have a: "f32_add f32_one 0 = f32_one"
    unfolding f32_add_def Let_def using one [of 1] cls by simp
  have q: "isqrt (2 ^ 149 * 2 ^ 149) = 2 ^ 149"
    by (rule isqrt_square)
  have "f32_sqrt f32_one = f32_one"
    unfolding f32_sqrt_def Let_def cls(4) u q using one [of 2] cls by (simp add: mult.commute)
  then show ?thesis by (simp add: quat_norm_def m a zero)
qed

theorem adcs_torque_safe_witness:
  "\<exists>out'. obsw_adcs_step (\<lambda>_. 0) (Some \<lparr>ad_config = \<lparr>ad_kp = 0x3F000000, ad_kd = 0x3DCCCCCD,
        ad_max_torque = 0x3C23D70A\<rparr>, ad_q_cmd = \<lparr>q_w = f32_one, q_x = 0, q_y = 0, q_z = 0\<rparr>\<rparr>)
      (Some \<lparr>q_w = f32_one, q_x = 0, q_y = 0, q_z = 0\<rparr>) (Some (Vec3 0x3F800000 0 0))
      (Some \<lparr>ad_torque_cmd = Vec3 0 0 0, ad_q_err = \<lparr>q_w = 0, q_x = 0, q_y = 0, q_z = 0\<rparr>, ad_angle_err_rad = 0\<rparr>)
      = (True, Some out') \<and> f32_limited 0x3C23D70A (v0 (ad_torque_cmd out'))"
proof -
  define s where "s = \<lparr>ad_config = \<lparr>ad_kp = 0x3F000000, ad_kd = 0x3DCCCCCD, ad_max_torque = 0x3C23D70A\<rparr>,
    ad_q_cmd = \<lparr>q_w = f32_one, q_x = 0, q_y = 0, q_z = 0\<rparr>\<rparr>"
  define q where "q = \<lparr>q_w = f32_one, q_x = 0, q_y = 0, q_z = 0\<rparr>"
  have pos: "f32_le 0 (ad_max_torque (ad_config s))" "f32_lt 0 (ad_kp (ad_config s))" "f32_lt 0 (ad_kd (ad_config s))"
    by (simp_all add: s_def f32_le_def f32_lt_def f32_is_nan_def f32_key_def f32_neg_def f32_mag_def)
  have "\<not> f32_lt f32_one 0x2EDBE6FF" by (simp add: f32_lt_def f32_key_def f32_neg_def f32_mag_def)
  then have ok: "fst (obsw_quat_normalise q)" by (simp add: obsw_quat_normalise_def q_def quat_norm_identity Let_def)
  have "\<exists>out'. obsw_adcs_step (\<lambda>_. 0) (Some s) (Some q) (Some om) (Some out) = (True, Some out')" for om out
    using ok by (cases "obsw_quat_normalise q") (simp add: obsw_adcs_step_def Let_def)
  moreover have "f32_limited 0x3C23D70A (v0 (ad_torque_cmd out'))"
    if "obsw_adcs_step (\<lambda>_. 0) (Some s) (Some q) (Some om) (Some out) = (True, Some out')" for om out out'
    using adcs_torque_safe [OF pos that] by (simp add: adcs_axis_ok_def) (simp add: s_def)
  ultimately show ?thesis unfolding s_def q_def by blast
qed

subsection \<open>Refusals\<close>

lemma quat_normalise_nan:
  assumes "f32_is_nan (q_w q) \<or> f32_is_nan (q_x q) \<or> f32_is_nan (q_y q) \<or> f32_is_nan (q_z q)"
  obtains q' where "obsw_quat_normalise q = (True, q')" "f32_is_nan (q_w q')" "f32_is_nan (q_x q')"
    "f32_is_nan (q_y q')" "f32_is_nan (q_z q')"
proof -
  have "f32_is_nan (quat_norm q)" using assms by (auto simp: quat_norm_def)
  then show thesis using that by (simp add: obsw_quat_normalise_def Let_def)
qed

text \<open>
  The validity test of a measured attitude does not catch a NaN: with a NaN in any of the
  four components the step runs and reports success, and the torque of all three axes is a
  NaN, which the saturation lets pass.
\<close>

theorem adcs_nan_measurement:
  assumes "f32_is_nan (q_w q) \<or> f32_is_nan (q_x q) \<or> f32_is_nan (q_y q) \<or> f32_is_nan (q_z q)"
    "f32_le 0 (ad_max_torque (ad_config s))"
  shows "\<exists>out'. obsw_adcs_step acosf (Some s) (Some q) (Some om) (Some out) = (True, Some out')
    \<and> vec3_all f32_is_nan (ad_torque_cmd out')"
proof -
  obtain q1 where q1: "obsw_quat_normalise q = (True, q1)" "f32_is_nan (q_w q1)" "f32_is_nan (q_x q1)"
    "f32_is_nan (q_y q1)" "f32_is_nan (q_z q1)" by (rule quat_normalise_nan [OF assms(1)])
  let ?e = "obsw_quat_multiply (obsw_quat_conjugate (ad_q_cmd s)) q1"
  have "f32_is_nan (q_w ?e)" using q1(2) by (simp add: obsw_quat_multiply_def)
  then obtain q2 where q2: "obsw_quat_normalise ?e = (True, q2)" "f32_is_nan (q_w q2)" "f32_is_nan (q_x q2)"
    "f32_is_nan (q_y q2)" "f32_is_nan (q_z q2)" using quat_normalise_nan [of ?e] by blast
  have "quat_short_path q2 = q2" using q2(2) by (simp add: quat_short_path_def)
  then show ?thesis using q1(1) q2 assms(2)
    by (simp add: obsw_adcs_step_def adcs_tau_def Let_def)
qed

theorem adcs_nan_measurement_witness:
  "\<exists>out'. obsw_adcs_step (\<lambda>_. 0) (Some \<lparr>ad_config = \<lparr>ad_kp = 0x3F000000, ad_kd = 0x3DCCCCCD,
        ad_max_torque = 0x3C23D70A\<rparr>, ad_q_cmd = \<lparr>q_w = f32_one, q_x = 0, q_y = 0, q_z = 0\<rparr>\<rparr>)
      (Some \<lparr>q_w = f32_one, q_x = 0x7FC00001, q_y = 0, q_z = 0\<rparr>) (Some (Vec3 0 0 0))
      (Some \<lparr>ad_torque_cmd = Vec3 0 0 0, ad_q_err = \<lparr>q_w = 0, q_x = 0, q_y = 0, q_z = 0\<rparr>, ad_angle_err_rad = 0\<rparr>)
      = (True, Some out') \<and> vec3_all f32_is_nan (ad_torque_cmd out')"
  by (rule adcs_nan_measurement) (simp_all add: f32_le_def f32_lt_def f32_is_nan_def f32_key_def f32_neg_def f32_mag_def)

end
