(* ===== verification/Qmc5883l.thy ===== *)
theory Qmc5883l
  imports Float_Bounds
begin

section \<open>The magnetometer driver\<close>

text \<open>
  \<^verbatim>\<open>src/hal/stm32h7/qmc5883l.c\<close>: the set-up of the QMC5883L and the reading of a sample over
  I2C.  The bus is the peripheral with the device behind it, so a register write and a read
  of registers are arguments, functions on a bus state \<open>'i\<close>; a read that fails gives \<open>None\<close>.

  A sample is three signed 16-bit numbers, so every reading is a finite number of at most
  2.734375 gauss.
\<close>

type_synonym 'i i2c_write = "u8 \<Rightarrow> u8 \<Rightarrow> u8 \<Rightarrow> 'i \<Rightarrow> bool \<times> 'i"
type_synonym 'i i2c_read = "u8 \<Rightarrow> u8 \<Rightarrow> nat \<Rightarrow> 'i \<Rightarrow> u8 list option \<times> 'i"

abbreviation (input) QMC_ADDR :: u8 where "QMC_ADDR \<equiv> 0x0D"
abbreviation (input) QMC_REG_DATA :: u8 where "QMC_REG_DATA \<equiv> 0x00"
abbreviation (input) QMC_REG_STAT :: u8 where "QMC_REG_STAT \<equiv> 0x06"
abbreviation (input) QMC_REG_CTRL1 :: u8 where "QMC_REG_CTRL1 \<equiv> 0x09"
abbreviation (input) QMC_REG_CTRL2 :: u8 where "QMC_REG_CTRL2 \<equiv> 0x0A"
abbreviation (input) QMC_REG_SETRST :: u8 where "QMC_REG_SETRST \<equiv> 0x0B"
abbreviation (input) QMC_REG_ID :: u8 where "QMC_REG_ID \<equiv> 0x0D"

text \<open>1 / 12000\<close>

definition QMC_SCALE_GAUSS :: f32 where
  "QMC_SCALE_GAUSS = f32_div 0x3F800000 0x463B8000"

definition obsw_qmc5883l_init :: "'i i2c_write \<Rightarrow> 'i i2c_read \<Rightarrow> 'i \<Rightarrow> bool \<times> 'i" where
  "obsw_qmc5883l_init write_reg read_regs i =
    (case write_reg QMC_ADDR QMC_REG_CTRL2 0x80 i of (ok, i1) \<Rightarrow>
     if \<not> ok then (False, i1)
     else case read_regs QMC_ADDR QMC_REG_ID 1 i1 of (r, i2) \<Rightarrow>
     (case r of None \<Rightarrow> (False, i2)
      | Some bs \<Rightarrow>
     if bs ! 0 \<noteq> 0xFF then (False, i2)
     else case write_reg QMC_ADDR QMC_REG_SETRST 0x01 i2 of (ok, i3) \<Rightarrow>
     if \<not> ok then (False, i3)
     else case write_reg QMC_ADDR QMC_REG_CTRL2 0x00 i3 of (ok, i4) \<Rightarrow>
     if \<not> ok then (False, i4)
     else case write_reg QMC_ADDR QMC_REG_CTRL1 0x01 i4 of (ok, i5) \<Rightarrow> (ok, i5)))"

text \<open>\<open>(int16_t)((uint16_t)hi << 8 | lo)\<close> as a float, and the scaling of one axis.\<close>

definition qmc_axis :: "u8 \<Rightarrow> u8 \<Rightarrow> f32" where
  "qmc_axis hi lo = f32_mul (f32_of_i32 (scast (push_bit 8 (ucast hi) OR ucast lo :: u16))) QMC_SCALE_GAUSS"

definition obsw_qmc5883l_read :: "'i i2c_read \<Rightarrow> f32 vec3 \<Rightarrow> 'i \<Rightarrow> bool \<times> f32 vec3 \<times> 'i" where
  "obsw_qmc5883l_read read_regs b i =
    (case read_regs QMC_ADDR QMC_REG_STAT 1 i of (r, i1) \<Rightarrow>
     (case r of None \<Rightarrow> (False, b, i1)
      | Some st \<Rightarrow>
     if st ! 0 AND 1 = 0 then (False, b, i1)
     else case read_regs QMC_ADDR QMC_REG_DATA 6 i1 of (r, i2) \<Rightarrow>
     (case r of None \<Rightarrow> (False, b, i2)
      | Some raw \<Rightarrow>
          (True, Vec3 (qmc_axis (raw ! 1) (raw ! 0)) (qmc_axis (raw ! 3) (raw ! 2))
                      (qmc_axis (raw ! 5) (raw ! 4)), i2))))"

subsection \<open>Readings are bounded\<close>

abbreviation (input) QMC_MAX :: nat where "QMC_MAX \<equiv> 0x402F0000"

lemma f32_of_nat_small:
  assumes "n \<le> 32768"
  shows "f32_within 0x47000000 (f32_of_nat n)"
proof (cases "n = 0")
  case True then show ?thesis by (simp add: f32_of_nat_def)
next
  case False
  then have n: "0 < n" "n < 2 ^ 32" using assms by simp_all
  have "bit_length n \<le> bit_length (32768 :: nat)" by (rule bit_length_mono [OF assms])
  also have "\<dots> = 16" using bit_length_unique [of 15 32768] by simp
  finally have l: "bit_length n \<le> 16" .
  from f32_of_nat_spec(3) [OF n] l
  have "f32_units (f32_mag (f32_of_nat n)) = n * 2 ^ (24 - bit_length n) * 2 ^ (bit_length n + 125)"
    by auto
  also have "\<dots> = n * 2 ^ 149" using l by (simp add: mult.assoc flip: power_add)
  also have "\<dots> \<le> 32768 * 2 ^ 149" using assms by (rule mult_le_mono1)
  also have "\<dots> = f32_units 0x47000000" by (simp add: f32_units_def)
  finally have "f32_mag (f32_of_nat n) \<le> 0x47000000" using f32_units_less_iff [of "0x47000000" "f32_mag (f32_of_nat n)"]
    by linarith
  then show ?thesis by (simp add: f32_within_def)
qed

lemma f32_mag_set_sign: "f32_mag (0x80000000 OR x) = f32_mag x"
proof -
  have "(0x80000000 OR x) AND 0x7FFFFFFF = x AND 0x7FFFFFFF"
    by (simp add: bit.conj_disj_distrib2)
  then show ?thesis by (simp add: f32_mag_def)
qed

lemma f32_of_i16_within: "f32_within 0x47000000 (f32_of_i32 (scast (w :: u16)))"
proof -
  have b: "- (2 ^ 15) \<le> sint w" "sint w < 2 ^ 15" using sint_ge [of w] sint_lt [of w] by simp_all
  have s: "sint (scast w :: u32) = sint w"
    unfolding signed_scast_eq using b by (intro signed_take_bit_int_eq_self) simp_all
  from b have "nat (- sint w) \<le> 32768" "nat (sint w) \<le> 32768" by simp_all
  from this [THEN f32_of_nat_small] show ?thesis
    by (simp add: f32_of_i32_def s f32_within_def f32_mag_set_sign)
qed

lemma f32_mag_numeral [simp]: "f32_mag (numeral n) = unat ((numeral n :: u32) AND 0x7FFFFFFF)"
  by (simp add: f32_mag_def)

lemma qmc_scale_within: "f32_within 0x38AEC340 QMC_SCALE_GAUSS"
  unfolding QMC_SCALE_GAUSS_def
  by (rule f32_div_within [where j = "0x3F800000" and k = "0x463B8000"])
    (simp_all add: f32_within_def f32_finite_def f32_units_def)

lemma qmc_axis_within: "f32_within QMC_MAX (qmc_axis hi lo)"
  unfolding qmc_axis_def
  by (rule f32_mul_within [OF f32_of_i16_within qmc_scale_within]) (simp_all add: f32_units_def)

lemma qmc_read_within:
  assumes "obsw_qmc5883l_read read_regs b i = (ok, b', i')"
  shows "if ok then vec3_all (f32_within QMC_MAX) b' else b' = b"
  using assms by (auto simp: obsw_qmc5883l_read_def qmc_axis_within split: prod.splits option.splits if_splits)

end
