(* ===== verification/Aocs_Task.thy ===== *)
theory Aocs_Task
  imports Pus_Task Bdot Adcs Qmc5883l
begin

section \<open>The attitude control task\<close>

text \<open>
  \<^verbatim>\<open>src/task/aocs.c\<close>: the 10 Hz loop that selects the control law by mode.  Its static objects
  are the record \<open>aocs\<close>; the mode and the parameter table are read through the world of the
  PUS task at the time of a tick.  The model is the build with the magnetometer.  The outputs
  of the control laws are local objects without a value before the call, here zero; a step
  with the fixed time step writes all of them.

  What is proved is the state the housekeeping reports: the dipole command is always within
  its limit or a NaN, and with the time constant of the boot table and any gain up to
  \<open>10 ^ 30\<close> it is a number, whatever the magnetometer delivers and however the modes change.
\<close>

abbreviation (input) AOCS_DT_S :: f32 where "AOCS_DT_S \<equiv> 0x3DCCCCCD"
abbreviation (input) AOCS_MAX_DIPOLE :: f32 where "AOCS_MAX_DIPOLE \<equiv> 0x41200000"

record obsw_aocs_hk =
  hk_mag :: "f32 vec3"
  hk_m_cmd :: "f32 vec3"
  hk_mag_valid :: u8

record aocs =
  ao_bdot :: obsw_bdot_ctx
  ao_adcs :: obsw_adcs_ctx
  ao_hk :: obsw_aocs_hk
  ao_qmc_ok :: bool
  ao_last_mode :: obsw_fsm_mode

subsection \<open>Operations\<close>

definition bdot_out0 :: obsw_bdot_output where
  "bdot_out0 = \<lparr>bo_m_cmd = vec3_zero, bo_dbdt = vec3_zero, bo_dbdt_filt = vec3_zero\<rparr>"

definition adcs_out0 :: obsw_adcs_output where
  "adcs_out0 = \<lparr>ad_torque_cmd = vec3_zero, ad_q_err = \<lparr>q_w = 0, q_x = 0, q_y = 0, q_z = 0\<rparr>, ad_angle_err_rad = 0\<rparr>"

text \<open>The static objects are zero before; \<open>last_mode\<close> is read when the task starts.\<close>

definition obsw_aocs_task_init ::
  "'i i2c_write \<Rightarrow> 'i i2c_read \<Rightarrow> pus_world \<Rightarrow> 'i \<Rightarrow> aocs \<times> 'i" where
  "obsw_aocs_task_init write_reg read_regs w i =
    (let bdot0 = \<lparr>bd_config = \<lparr>bd_gain = 0, bd_max_dipole = 0, bd_hpf_tau = 0\<rparr>, bd_b_prev = vec3_zero,
                   bd_dbdt_raw_prev = vec3_zero, bd_dbdt_filt = vec3_zero, bd_initialised = False\<rparr>;
         bdot_cfg = \<lparr>bd_gain = 0x461C4000, bd_max_dipole = AOCS_MAX_DIPOLE, bd_hpf_tau = 0x41700000\<rparr>;
         adcs0 = \<lparr>ad_config = \<lparr>ad_kp = 0, ad_kd = 0, ad_max_torque = 0\<rparr>,
                   ad_q_cmd = \<lparr>q_w = 0, q_x = 0, q_y = 0, q_z = 0\<rparr>\<rparr>;
         adcs_cfg = \<lparr>ad_kp = 0x3F000000, ad_kd = 0x3DCCCCCD, ad_max_torque = 0x3C23D70A\<rparr>;
         (ok, i') = obsw_qmc5883l_init write_reg read_regs i
     in (\<lparr>ao_bdot = the (obsw_bdot_init (Some bdot0) (Some bdot_cfg)),
          ao_adcs = the (obsw_adcs_init (Some adcs0) (Some adcs_cfg)),
          ao_hk = \<lparr>hk_mag = vec3_zero, hk_m_cmd = vec3_zero, hk_mag_valid = 0\<rparr>,
          ao_qmc_ok = ok, ao_last_mode = obsw_fsm_mode (Some (md_fsm (pw_mode w)))\<rparr>, i'))"

definition aocs_mode_change :: "obsw_fsm_mode \<Rightarrow> aocs \<Rightarrow> aocs" where
  "aocs_mode_change mode a =
    (let a' = (if mode = OBSW_FSM_SAFE \<and> ao_last_mode a = OBSW_FSM_NOMINAL
               then a\<lparr>ao_bdot := the (obsw_bdot_reset (Some (ao_bdot a)))\<rparr> else a)
     in a'\<lparr>ao_last_mode := mode\<rparr>)"

definition aocs_sync_gains :: "srdb \<Rightarrow> pus_world \<Rightarrow> aocs \<Rightarrow> aocs" where
  "aocs_sync_gains db w a =
    a\<lparr>ao_bdot := (ao_bdot a)\<lparr>bd_config := (bd_config (ao_bdot a))
        \<lparr>bd_gain := obsw_pus_s20_get_float (srdb_param_bdot_gain db) 0x461C4000 w,
         bd_hpf_tau := obsw_pus_s20_get_float (srdb_param_bdot_hpf_tau db) 0x41700000 w\<rparr>\<rparr>,
      ao_adcs := (ao_adcs a)\<lparr>ad_config := (ad_config (ao_adcs a))
        \<lparr>ad_kp := obsw_pus_s20_get_float (srdb_param_adcs_kp db) 0x3F000000 w,
         ad_kd := obsw_pus_s20_get_float (srdb_param_adcs_kd db) 0x3DCCCCCD w\<rparr>\<rparr>\<rparr>"

text \<open>The control law on the sensor values of a tick.\<close>

definition aocs_control ::
  "(f32 \<Rightarrow> f32) \<Rightarrow> obsw_fsm_mode \<Rightarrow> bool \<Rightarrow> f32 vec3 \<Rightarrow> aocs \<Rightarrow> aocs" where
  "aocs_control acosf mode mag_valid b a =
    (let st_valid = False; gyro_valid = False;
         q_meas = \<lparr>q_w = f32_one, q_x = 0, q_y = 0, q_z = 0\<rparr>; omega = vec3_zero
     in if mode = OBSW_FSM_NOMINAL \<and> st_valid \<and> gyro_valid
        then let (ok, out) = obsw_adcs_step acosf (Some (ao_adcs a)) (Some q_meas) (Some omega) (Some adcs_out0)
          in a
        else if mode = OBSW_FSM_SAFE \<and> mag_valid
        then (case obsw_bdot_step (Some (ao_bdot a)) (Some b) AOCS_DT_S (Some bdot_out0) of
                (s', out) \<Rightarrow> a\<lparr>ao_bdot := the s', ao_hk := (ao_hk a)\<lparr>hk_m_cmd := bo_m_cmd (the out)\<rparr>\<rparr>)
        else a)"

definition aocs_tick ::
  "srdb \<Rightarrow> (f32 \<Rightarrow> f32) \<Rightarrow> 'i i2c_read \<Rightarrow> pus_world \<Rightarrow> aocs \<times> 'i \<Rightarrow> aocs \<times> 'i" where
  "aocs_tick db acosf read_regs w ai =
    (let (a, i) = ai;
         mode = obsw_fsm_mode (Some (md_fsm (pw_mode w)));
         a1 = aocs_mode_change mode a
     in if mode = OBSW_FSM_STANDBY then (a1, i)
        else
          let a2 = aocs_sync_gains db w a1;
              (mag_valid, b, i') = (if ao_qmc_ok a2 then obsw_qmc5883l_read read_regs vec3_zero i
                                    else (False, vec3_zero, i));
              a3 = a2\<lparr>ao_hk := (ao_hk a2)\<lparr>hk_mag := b, hk_mag_valid := (if mag_valid then 1 else 0)\<rparr>\<rparr>
          in (aocs_control acosf mode mag_valid b a3, i'))"

text \<open>Ticks, each with the world it reads.\<close>

definition aocs_run ::
  "srdb \<Rightarrow> (f32 \<Rightarrow> f32) \<Rightarrow> 'i i2c_read \<Rightarrow> pus_world list \<Rightarrow> aocs \<times> 'i \<Rightarrow> aocs \<times> 'i" where
  "aocs_run db acosf read_regs ws ai = fold (aocs_tick db acosf read_regs) ws ai"

subsection \<open>What a tick leaves\<close>

text \<open>
  An assertion \<open>I\<close> on the controller and \<open>J\<close> on the reported command, under a condition on the gain and
  the time constant in the parameter table: what reset, synchronisation and step keep, a run keeps.
\<close>

locale aocs_kept =
  fixes OK :: "f32 \<Rightarrow> f32 \<Rightarrow> bool" and I :: "obsw_bdot_ctx \<Rightarrow> bool" and J :: "f32 vec3 \<Rightarrow> bool"
  assumes reset: "I s \<Longrightarrow> I (the (obsw_bdot_reset (Some s)))"
    and sync: "I s \<Longrightarrow> OK k tau \<Longrightarrow> I (s\<lparr>bd_config := (bd_config s)\<lparr>bd_gain := k, bd_hpf_tau := tau\<rparr>\<rparr>)"
    and step: "I s \<Longrightarrow> vec3_all (f32_within QMC_MAX) b
      \<Longrightarrow> obsw_bdot_step (Some s) (Some b) AOCS_DT_S (Some bdot_out0) = (Some s', Some out)
      \<Longrightarrow> I s' \<and> J (bo_m_cmd out)"
begin

definition good :: "aocs \<Rightarrow> bool" where
  "good a \<longleftrightarrow> I (ao_bdot a) \<and> J (hk_m_cmd (ao_hk a))"

definition allowed :: "srdb \<Rightarrow> pus_world \<Rightarrow> bool" where
  "allowed db w \<longleftrightarrow> OK (obsw_pus_s20_get_float (srdb_param_bdot_gain db) 0x461C4000 w)
    (obsw_pus_s20_get_float (srdb_param_bdot_hpf_tau db) 0x41700000 w)"

lemma mode_change: "good a \<Longrightarrow> good (aocs_mode_change mode a)"
  by (simp add: good_def aocs_mode_change_def reset Let_def)

lemma sync_gains: "good a \<Longrightarrow> allowed db w \<Longrightarrow> good (aocs_sync_gains db w a)"
  by (simp add: good_def allowed_def aocs_sync_gains_def sync)

lemma control:
  assumes "good a" "mag_valid \<Longrightarrow> vec3_all (f32_within QMC_MAX) b"
  shows "good (aocs_control acosf mode mag_valid b a)"
proof (cases "mode = OBSW_FSM_SAFE \<and> mag_valid")
  case True
  obtain s' out where st: "obsw_bdot_step (Some (ao_bdot a)) (Some b) AOCS_DT_S (Some bdot_out0) = (Some s', Some out)"
    using bdot_step_total by blast
  with step [OF _ assms(2) st] True assms(1) show ?thesis
    by (simp add: aocs_control_def good_def Let_def)
qed (use assms(1) in \<open>auto simp: aocs_control_def Let_def\<close>)

lemma tick:
  assumes "good a" "allowed db w"
  shows "good (fst (aocs_tick db acosf read_regs w (a, i)))"
proof -
  let ?mode = "obsw_fsm_mode (Some (md_fsm (pw_mode w)))"
  define a2 where "a2 = aocs_sync_gains db w (aocs_mode_change ?mode a)"
  have a2: "good a2" unfolding a2_def using assms by (intro sync_gains mode_change)
  obtain mag b i' where m: "(if ao_qmc_ok a2 then obsw_qmc5883l_read read_regs vec3_zero i
      else (False, vec3_zero, i)) = (mag, b, i')" by (rule prod_cases3)
  then have "mag \<Longrightarrow> vec3_all (f32_within QMC_MAX) b" using qmc_read_within by (fastforce split: if_splits)
  moreover have "good (a2\<lparr>ao_hk := (ao_hk a2)\<lparr>hk_mag := b, hk_mag_valid := v\<rparr>\<rparr>)" for v
    using a2 by (simp add: good_def)
  ultimately show ?thesis
    using mode_change [OF assms(1)] control by (simp add: aocs_tick_def m [unfolded a2_def] a2_def Let_def)
qed

lemma run:
  assumes "good a" "\<forall>w \<in> set ws. allowed db w"
  shows "good (fst (aocs_run db acosf read_regs ws (a, i)))"
  using assms
proof (induction ws arbitrary: a i)
  case (Cons w ws)
  obtain a' i' where t: "aocs_tick db acosf read_regs w (a, i) = (a', i')" by fastforce
  then have "good a'" using tick [of a db w acosf read_regs i] Cons.prems by simp
  with Cons.IH Cons.prems(2) t show ?case by (simp add: aocs_run_def)
qed (simp add: aocs_run_def)

end

subsection \<open>The reported command\<close>

lemma aocs_init_bdot:
  assumes "obsw_aocs_task_init write_reg read_regs w i = (a, i')"
  shows "ao_bdot a = \<lparr>bd_config = \<lparr>bd_gain = 0x461C4000, bd_max_dipole = AOCS_MAX_DIPOLE, bd_hpf_tau = 0x41700000\<rparr>,
      bd_b_prev = vec3_zero, bd_dbdt_raw_prev = vec3_zero, bd_dbdt_filt = vec3_zero, bd_initialised = False\<rparr>"
    "hk_m_cmd (ao_hk a) = vec3_zero"
  using assms by (auto simp: obsw_aocs_task_init_def obsw_bdot_init_def Let_def split: prod.splits)

lemma dt_positive: "\<not> f32_le AOCS_DT_S 0"
  by (simp add: f32_le_def f32_lt_def f32_is_nan_def f32_key_def f32_neg_def f32_mag_def)

lemma max_dipole_positive: "f32_le 0 AOCS_MAX_DIPOLE"
  by (simp add: f32_le_def f32_lt_def f32_is_nan_def f32_key_def f32_neg_def f32_mag_def)

lemma limited_zero: "f32_limited AOCS_MAX_DIPOLE 0"
  by (simp add: f32_limited_def f32_le_def f32_lt_def f32_is_nan_def f32_key_def f32_neg_def f32_mag_def f32_uminus_def)

interpretation aocs_limit: aocs_kept "\<lambda>_ _. True" "\<lambda>s. bd_max_dipole (bd_config s) = AOCS_MAX_DIPOLE"
  "vec3_all (f32_limited AOCS_MAX_DIPOLE)"
proof unfold_locales
  fix s b s' out
  assume m: "bd_max_dipole (bd_config s) = AOCS_MAX_DIPOLE"
    and st: "obsw_bdot_step (Some s) (Some b) AOCS_DT_S (Some bdot_out0) = (Some s', Some out)"
  have "bd_config s' = bd_config s" using bdot_step_total [of s b AOCS_DT_S bdot_out0] st by auto
  moreover have "vec3_all (f32_limited AOCS_MAX_DIPOLE) (bo_m_cmd out)"
  proof (cases rule: bdot_step_cases [of AOCS_DT_S s b bdot_out0])
    case running
    have "f32_limited AOCS_MAX_DIPOLE (bdot_command (bd_config s) x)" for x
      using bdot_command_limited [of "bd_config s"] m max_dipole_positive by simp
    with running st show ?thesis by (auto simp: bdot_step_running Let_def split: prod.splits)
  qed (use st dt_positive limited_zero in auto)
  ultimately show "bd_max_dipole (bd_config s') = AOCS_MAX_DIPOLE \<and> vec3_all (f32_limited AOCS_MAX_DIPOLE) (bo_m_cmd out)"
    using m by simp
qed (simp_all add: obsw_bdot_reset_def)

text \<open>
  From the initialisation on, through any ticks, whatever modes and parameter tables they
  find, whatever the I2C bus delivers and whatever the arc cosine is, each dipole command that
  the housekeeping reports is a NaN or a number between -10 and 10.
\<close>

theorem aocs_command_limited:
  assumes "obsw_aocs_task_init write_reg read_regs w i = (a, i')"
  shows "vec3_all (f32_limited AOCS_MAX_DIPOLE)
    (hk_m_cmd (ao_hk (fst (aocs_run db acosf read_regs ws (a, i')))))"
proof -
  have "aocs_limit.good a"
    using aocs_init_bdot [OF assms] limited_zero by (simp add: aocs_limit.good_def)
  from aocs_limit.run [OF this, of ws db acosf read_regs i'] show ?thesis
    by (simp add: aocs_limit.good_def aocs_limit.allowed_def)
qed

theorem aocs_command_limited_witness:
  "\<exists>a i'. obsw_aocs_task_init (\<lambda>_ _ _ i. (True, i)) (\<lambda>_ _ n i. (Some (replicate n 0xFF), i)) w () = (a, i')
    \<and> vec3_all (f32_limited AOCS_MAX_DIPOLE)
        (hk_m_cmd (ao_hk (fst (aocs_run db id (\<lambda>_ _ n i. (Some (replicate n 0xFF), i)) [w, w, w] (a, i')))))"
proof -
  obtain a i' where r: "obsw_aocs_task_init (\<lambda>_ _ _ i. (True, i)) (\<lambda>_ _ n i. (Some (replicate n 0xFF), i)) w ()
    = (a, i')" by (rule prod.exhaust)
  from aocs_command_limited [OF r] r show ?thesis by blast
qed

subsection \<open>The command is a number\<close>

text \<open>A gain of at most \<open>10 ^ 30\<close> and the time constant of the boot table.\<close>

definition aocs_gains_ok :: "f32 \<Rightarrow> f32 \<Rightarrow> bool" where
  "aocs_gains_ok k tau \<longleftrightarrow> f32_within 0x7149F2CA k \<and> tau = 0x41700000"

text \<open>
  The filter is bounded by 32768 T/s when the readings are bounded by 2.734375 and the rates
  by 64: the coefficient is at most 0.9935, and \<open>0.9935 * (32768 + 64 + 64) < 32768\<close>.
\<close>

definition aocs_calm :: "obsw_bdot_ctx \<Rightarrow> bool" where
  "aocs_calm s \<longleftrightarrow> aocs_gains_ok (bd_gain (bd_config s)) (bd_hpf_tau (bd_config s))
    \<and> bd_max_dipole (bd_config s) = AOCS_MAX_DIPOLE \<and> vec3_all (f32_within QMC_MAX) (bd_b_prev s)
    \<and> vec3_all (f32_within 0x42800000) (bd_dbdt_raw_prev s)
    \<and> vec3_all (f32_within 0x47000000) (bd_dbdt_filt s)"

lemma aocs_rate_within:
  assumes "f32_within QMC_MAX x" "f32_within QMC_MAX y"
  shows "f32_within 0x42800000 (f32_div (f32_sub x y) AOCS_DT_S)"
proof (rule f32_div_within)
  show "f32_within 0x40AF0000 (f32_sub x y)"
    by (rule f32_sub_within [OF assms]) (simp_all add: f32_units_def)
  show "(0x3DCCCCCD :: nat) \<le> f32_mag AOCS_DT_S" by simp
qed (simp_all add: f32_units_def f32_finite_def)

lemma aocs_alpha_within: "f32_within 0x3F7E5604 (f32_div 0x41700000 (f32_add 0x41700000 AOCS_DT_S))"
proof (rule f32_div_within)
  show "f32_within 0x41700000 0x41700000" by (simp add: f32_within_def)
  show "0x41719931 \<le> f32_mag (f32_add 0x41700000 AOCS_DT_S)"
    by (rule f32_add_ge(1)) (simp_all add: f32_finite_def f32_neg_def f32_units_def)
  have "f32_within 0x42800000 (f32_add 0x41700000 AOCS_DT_S)"
    by (rule f32_add_within [where j = "0x41700000" and k = "0x3DCCCCCD"])
      (simp_all add: f32_within_def f32_units_def)
  then show "f32_finite (f32_add 0x41700000 AOCS_DT_S)" by (rule f32_within_class)
qed (simp_all add: f32_units_def)

lemma aocs_filter_within:
  assumes "f32_within 0x47000000 f" "f32_within 0x42800000 d" "f32_within 0x42800000 p"
  shows "f32_within 0x47000000 (f32_mul (f32_div 0x41700000 (f32_add 0x41700000 AOCS_DT_S))
    (f32_sub (f32_add f d) p))"
proof (rule f32_mul_within [OF aocs_alpha_within])
  have "f32_within 0x47004000 (f32_add f d)"
    by (rule f32_add_within [OF assms(1,2)]) (simp_all add: f32_units_def)
  then show "f32_within 0x47008000 (f32_sub (f32_add f d) p)"
    by (rule f32_sub_within [OF _ assms(3)]) (simp_all add: f32_units_def)
qed (simp_all add: f32_units_def)

lemma aocs_command_number_axis:
  assumes "f32_within 0x7149F2CA (bd_gain c)" "bd_max_dipole c = AOCS_MAX_DIPOLE" "f32_within 0x47000000 x"
  shows "f32_le (f32_uminus AOCS_MAX_DIPOLE) (bdot_command c x) \<and> f32_le (bdot_command c x) AOCS_MAX_DIPOLE"
proof -
  have "f32_within 0x7F000000 (f32_mul (f32_uminus (bd_gain c)) x)"
  proof (rule f32_mul_within [OF _ assms(3)])
    show "f32_within 0x7149F2CA (f32_uminus (bd_gain c))" using assms(1) by simp
  qed (simp_all add: f32_units_def)
  then have "\<not> f32_is_nan (bdot_command c x)"
    using f32_within_class(2) assms(2) max_dipole_positive by (simp add: bdot_command_def)
  then show ?thesis using bdot_command_limited [of c x] assms(2) max_dipole_positive
    by (simp add: f32_limited_def)
qed

definition aocs_number :: "f32 \<Rightarrow> bool" where
  "aocs_number m \<longleftrightarrow> f32_le (f32_uminus AOCS_MAX_DIPOLE) m \<and> f32_le m AOCS_MAX_DIPOLE"

lemma aocs_number_0: "aocs_number 0"
  by (simp add: aocs_number_def f32_le_def f32_lt_def f32_is_nan_def f32_key_def f32_neg_def f32_uminus_def)

interpretation aocs_num: aocs_kept aocs_gains_ok aocs_calm "vec3_all aocs_number"
proof unfold_locales
  fix s b s' out
  assume s: "aocs_calm s" and b: "vec3_all (f32_within QMC_MAX) b"
    and st: "obsw_bdot_step (Some s) (Some b) AOCS_DT_S (Some bdot_out0) = (Some s', Some out)"
  show "aocs_calm s' \<and> vec3_all aocs_number (bo_m_cmd out)"
  proof (cases rule: bdot_step_cases [of AOCS_DT_S s b bdot_out0])
    case running
    let ?d = "bdot_rate s b AOCS_DT_S"
    have d: "vec3_all (f32_within 0x42800000) ?d"
      using s b by (simp add: aocs_calm_def bdot_rate_def aocs_rate_within)
    have tau: "bd_hpf_tau (bd_config s) = 0x41700000" using s by (simp add: aocs_calm_def aocs_gains_ok_def)
    have pos: "f32_lt 0 0x41700000" by (simp add: f32_lt_def f32_is_nan_def f32_key_def f32_neg_def)
    obtain f s1 where f: "bdot_filter ?d AOCS_DT_S s = (f, s1)" by fastforce
    have f': "vec3_all (f32_within 0x47000000) f" "s1 = s\<lparr>bd_dbdt_filt := f, bd_dbdt_raw_prev := ?d\<rparr>"
      using f d s pos by (auto simp: bdot_filter_def tau aocs_calm_def aocs_filter_within Let_def)
    then have "vec3_all aocs_number (map_vec3 (bdot_command (bd_config s)) f)"
      using aocs_command_number_axis s by (simp add: aocs_number_def aocs_calm_def aocs_gains_ok_def)
    with f f' running st s b d show ?thesis by (auto simp: bdot_step_running aocs_calm_def)
  next
    case first
    with st s b aocs_number_0 show ?thesis by (auto simp: aocs_calm_def)
  qed (use dt_positive in simp)
qed (simp_all add: aocs_calm_def obsw_bdot_reset_def)

text \<open>
  C11: as long as the table holds a gain of at most \<open>10 ^ 30\<close> and the boot value of the filter's
  time constant, no magnetometer data and no change of modes can make the controller compute
  a NaN or an infinity: every dipole command is a number between -10 and 10, and the filter
  stays below 32768.
\<close>

theorem aocs_command_number:
  assumes "obsw_aocs_task_init write_reg read_regs w0 i = (a, i')"
    "\<forall>w \<in> set ws. aocs_gains_ok (obsw_pus_s20_get_float (srdb_param_bdot_gain db) 0x461C4000 w)
        (obsw_pus_s20_get_float (srdb_param_bdot_hpf_tau db) 0x41700000 w)"
    "fst (aocs_run db acosf read_regs ws (a, i')) = a'"
  shows "vec3_all (\<lambda>m. f32_le (f32_uminus AOCS_MAX_DIPOLE) m \<and> f32_le m AOCS_MAX_DIPOLE) (hk_m_cmd (ao_hk a'))
    \<and> vec3_all (f32_within 0x47000000) (bd_dbdt_filt (ao_bdot a'))"
proof -
  have "aocs_num.good a"
    using aocs_init_bdot [OF assms(1)] aocs_number_0
    by (simp add: aocs_num.good_def aocs_calm_def aocs_gains_ok_def f32_within_def)
  from aocs_num.run [OF this, of ws db acosf read_regs i'] assms(2,3)
  have "aocs_calm (ao_bdot a')" "vec3_all aocs_number (hk_m_cmd (ao_hk a'))"
    by (simp_all add: aocs_num.good_def aocs_num.allowed_def)
  then show ?thesis by (simp add: aocs_number_def aocs_calm_def)
qed

lemma aocs_boot_gains:
  assumes "pw_s20 w = pw_s20 (obsw_pus_task_init mode_example_srdb store s3 m ram mem)"
  shows "aocs_gains_ok (obsw_pus_s20_get_float (srdb_param_bdot_gain mode_example_srdb) 0x461C4000 w)
    (obsw_pus_s20_get_float (srdb_param_bdot_hpf_tau mode_example_srdb) 0x41700000 w)"
  by (simp add: assms obsw_pus_s20_get_float_def obsw_pus_task_init_def pus_s20_params_def mode_example_srdb_def
      aocs_gains_ok_def f32_within_def Let_def)

theorem aocs_command_number_witness:
  "\<forall>s3 m. \<exists>a a' i'. let w = obsw_pus_task_init mode_example_srdb None s3 m 0 (\<lambda>_. 0);
      i2c = (\<lambda>_ _ n i. (Some (replicate n 0xFF), i)) in
    obsw_aocs_task_init (\<lambda>_ _ _ i. (True, i)) i2c w () = (a, i')
    \<and> fst (aocs_run mode_example_srdb id i2c [w, w, w] (a, i')) = a'
    \<and> vec3_all (\<lambda>m. f32_le (f32_uminus AOCS_MAX_DIPOLE) m \<and> f32_le m AOCS_MAX_DIPOLE) (hk_m_cmd (ao_hk a'))"
proof (intro allI)
  fix s3 m
  define w where "w = obsw_pus_task_init mode_example_srdb None s3 m 0 (\<lambda>_. 0)"
  define i2c :: "unit i2c_read" where "i2c = (\<lambda>_ _ n i. (Some (replicate n 0xFF), i))"
  obtain a i' where r: "obsw_aocs_task_init (\<lambda>_ _ _ i. (True, i)) i2c w () = (a, i')" by (rule prod.exhaust)
  have ok: "\<forall>w' \<in> set [w, w, w]. aocs_gains_ok
      (obsw_pus_s20_get_float (srdb_param_bdot_gain mode_example_srdb) 0x461C4000 w')
      (obsw_pus_s20_get_float (srdb_param_bdot_hpf_tau mode_example_srdb) 0x41700000 w')"
    using aocs_boot_gains [of w] by (simp add: w_def)
  from aocs_command_number [OF r ok refl] r
  show "\<exists>a a' i'. let w = obsw_pus_task_init mode_example_srdb None s3 m 0 (\<lambda>_. 0);
      i2c = (\<lambda>_ _ n i. (Some (replicate n 0xFF), i)) in
    obsw_aocs_task_init (\<lambda>_ _ _ i. (True, i)) i2c w () = (a, i')
    \<and> fst (aocs_run mode_example_srdb id i2c [w, w, w] (a, i')) = a'
    \<and> vec3_all (\<lambda>m. f32_le (f32_uminus AOCS_MAX_DIPOLE) m \<and> f32_le m AOCS_MAX_DIPOLE) (hk_m_cmd (ao_hk a'))"
    unfolding w_def [symmetric] i2c_def [symmetric] Let_def by blast
qed

end
