(* ===== verification/Tm_Log.thy ===== *)
theory Tm_Log
  imports Tmtc_Task
begin

section \<open>The telemetry log on the display\<close>

text \<open>
  The part of \<^verbatim>\<open>src/task/fdir.c\<close> that drains the log which TMTC writes, and prints a line for each
  packet sent.  The lemmas show that the loop ends and which entries it prints.
\<close>

subsection \<open>The telemetry log\<close>

definition tm_log_line :: "obsw_tm_log_entry \<Rightarrow> u8 list" where
  "tm_log_line e =
    [0x54, 0x4D, 0x28] @ (if log_svc e \<ge> 10 then [0x30 + log_svc e div 10] else []) @ [0x30 + log_svc e mod 10]
    @ [0x2C] @ (if log_subsvc e \<ge> 10 then [0x30 + log_subsvc e div 10] else []) @ [0x30 + log_subsvc e mod 10]
    @ [0x29, 0x0A]"

text \<open>The lines printed, and the log after it; the two indices wrap at 256.\<close>

function drain_log :: "obsw_tm_log \<Rightarrow> u8 list list \<times> obsw_tm_log" where
  "drain_log l =
    (if log_read_idx l \<noteq> log_write_idx l
     then let e = log_buf l ! unat (log_read_idx l mod OBSW_TM_LOG_DEPTH);
              (ls, l') = drain_log (l\<lparr>log_read_idx := log_read_idx l + 1\<rparr>)
          in (tm_log_line e # ls, l')
     else ([], l))"
  by pat_completeness auto

lemma unat_diff_Suc:
  fixes r w :: u8
  assumes "r \<noteq> w"
  shows "unat (w - (r + 1)) < unat (w - r)"
proof -
  have "w - r \<noteq> 0" using assms by simp
  then have "unat (w - r - 1) < unat (w - r)" by (metis measure_unat)
  then show ?thesis by (simp add: diff_diff_eq)
qed

termination drain_log
  by (relation "measure (\<lambda>l. unat (log_write_idx l - log_read_idx l))") (auto simp: unat_diff_Suc)

declare drain_log.simps [simp del]

subsection \<open>The log on the display\<close>

text \<open>The entries between the two indices, oldest first.\<close>

definition log_pending :: "obsw_tm_log \<Rightarrow> obsw_tm_log_entry list" where
  "log_pending l = map (\<lambda>i. log_buf l ! unat ((log_read_idx l + of_nat i) mod OBSW_TM_LOG_DEPTH))
     [0..<unat (log_write_idx l - log_read_idx l)]"

lemma drain_log_pending:
  "drain_log l = (map tm_log_line (log_pending l), l\<lparr>log_read_idx := log_write_idx l\<rparr>)"
proof (induction l rule: drain_log.induct)
  case (1 l)
  show ?case
  proof (cases "log_read_idx l = log_write_idx l")
    case True
    then have "l\<lparr>log_read_idx := log_write_idx l\<rparr> = l" by (cases l) simp
    with True show ?thesis by (simp add: drain_log.simps [of l] log_pending_def)
  next
    case False
    let ?l = "l\<lparr>log_read_idx := log_read_idx l + 1\<rparr>"
    define n where "n = unat (log_write_idx ?l - log_read_idx ?l)"
    have "log_write_idx l - log_read_idx l \<noteq> 0" using False by simp
    then have "unat (log_write_idx l - log_read_idx l) = Suc n"
      unfolding n_def by (simp add: unat_minus_one unat_gt_0 flip: diff_diff_eq)
    then have "log_pending l = log_buf l ! unat (log_read_idx l mod OBSW_TM_LOG_DEPTH) # log_pending ?l"
      unfolding log_pending_def n_def [symmetric] by (simp add: map_upt_Suc add.assoc del: upt_Suc)
    then show ?thesis using 1(1) [OF False refl] False
      by (simp add: drain_log.simps [of l] Let_def)
  qed
qed

lemma log_slot: "unat ((r + of_nat i) mod (8 :: u8)) = (unat r + i) mod 8"
proof -
  have "unat (r + of_nat i :: u8) = (unat r + i) mod 256"
    by (simp add: unat_word_ariths unat_of_nat mod_add_right_eq)
  then have "unat ((r + of_nat i) mod (8 :: u8)) = (unat r + i) mod 256 mod 8" by (simp add: unat_mod)
  also have "\<dots> = (unat r + i) mod 8" by (rule mod_mod_cancel) simp
  finally show ?thesis .
qed

text \<open>An entry that is logged while fewer than eight are pending is pending after the others.\<close>

lemma log_pending_log_tm:
  assumes "length (log_buf l) = 8" "length (log_pending l) < 8"
  shows "log_pending (log_tm svc sub l) = log_pending l @ [\<lparr>log_svc = svc, log_subsvc = sub\<rparr>]"
proof -
  define n where "n = unat (log_write_idx l - log_read_idx l)"
  have n: "n < 8" using assms(2) by (simp add: log_pending_def n_def)
  have w: "log_write_idx l = log_read_idx l + of_nat n" by (simp add: n_def)
  have n1: "unat (log_write_idx l + 1 - log_read_idx l) = Suc n"
    using n by (simp add: w) (simp add: unat_word_ariths unat_of_nat)
  let ?e = "\<lparr>log_svc = svc, log_subsvc = sub\<rparr>" and ?r = "log_read_idx l"
  have old: "(log_buf l)[(unat ?r + n) mod 8 := ?e] ! ((unat ?r + i) mod 8) = log_buf l ! ((unat ?r + i) mod 8)"
    if "i < n" for i
  proof -
    have "\<not> 8 dvd (n - i)" using that n by (intro nat_dvd_not_less) simp_all
    then have "(unat ?r + n) mod 8 \<noteq> (unat ?r + i) mod 8"
      using that mod_eq_dvd_iff_nat [of "unat ?r + i" "unat ?r + n" 8] by auto
    then show ?thesis by simp
  qed
  have "(log_buf l)[(unat ?r + n) mod 8 := ?e] ! ((unat ?r + n) mod 8) = ?e" using assms(1) by simp
  with old have "map (\<lambda>i. (log_buf l)[(unat ?r + n) mod 8 := ?e] ! ((unat ?r + i) mod 8)) [0..<Suc n]
      = map (\<lambda>i. log_buf l ! ((unat ?r + i) mod 8)) [0..<n] @ [?e]" by simp
  moreover have "unat (log_write_idx l mod OBSW_TM_LOG_DEPTH) = (unat ?r + n) mod 8"
    unfolding w by (rule log_slot)
  moreover have "log_buf (log_tm svc sub l) = (log_buf l)[unat (log_write_idx l mod OBSW_TM_LOG_DEPTH) := ?e]"
    "log_read_idx (log_tm svc sub l) = ?r" "log_write_idx (log_tm svc sub l) = log_write_idx l + 1"
    by (simp_all add: log_tm_def)
  ultimately show ?thesis
    unfolding log_pending_def by (simp only: log_slot n1 n_def [symmetric])
qed

definition log_entries :: "obsw_tm_log_entry list \<Rightarrow> obsw_tm_log \<Rightarrow> obsw_tm_log" where
  "log_entries es l = fold (\<lambda>e. log_tm (log_svc e) (log_subsvc e)) es l"

lemma log_entries_frame [simp]:
  "log_read_idx (log_entries es l) = log_read_idx l" "length (log_buf (log_entries es l)) = length (log_buf l)"
  by (induction es arbitrary: l) (simp_all add: log_entries_def log_tm_def)

text \<open>
  What TMTC logs, FDIR shows.  Draining the log always ends.  If the log was drained before
  and at most eight packets were sent since, the lines printed are those of the packets in
  the order sent, and the log is drained again.
\<close>

theorem fdir_log_shown:
  assumes "log_read_idx l = log_write_idx l" "length (log_buf l) = 8" "length es \<le> 8"
  shows "\<exists>l'. drain_log (log_entries es l) = (map tm_log_line es, l')
    \<and> log_read_idx l' = log_write_idx l' \<and> log_write_idx l' = log_write_idx (log_entries es l)"
proof -
  have "log_pending (log_entries es l) = es" using assms(3)
  proof (induction es rule: rev_induct)
    case Nil
    then show ?case using assms(1) by (simp add: log_entries_def log_pending_def)
  next
    case (snoc e es)
    have "log_pending (log_tm (log_svc e) (log_subsvc e) (log_entries es l))
        = es @ [\<lparr>log_svc = log_svc e, log_subsvc = log_subsvc e\<rparr>]"
      using log_pending_log_tm [of "log_entries es l" "log_svc e" "log_subsvc e"] assms(2) snoc by simp
    moreover have "\<lparr>log_svc = log_svc e, log_subsvc = log_subsvc e\<rparr> = e" by (cases e) simp
    ultimately show ?case by (simp only: log_entries_def fold_append) simp
  qed
  then show ?thesis by (simp add: drain_log_pending)
qed

theorem fdir_log_shown_witness:
  "\<exists>l'. drain_log (log_entries [\<lparr>log_svc = 17, log_subsvc = 2\<rparr>, \<lparr>log_svc = 3, log_subsvc = 25\<rparr>]
      (tt_log (obsw_tmtc_task_init None () []))) =
    ([[0x54, 0x4D, 0x28, 0x31, 0x37, 0x2C, 0x32, 0x29, 0x0A], [0x54, 0x4D, 0x28, 0x33, 0x2C, 0x32, 0x35, 0x29, 0x0A]], l')"
  using fdir_log_shown [of "tt_log (obsw_tmtc_task_init None () [])"
      "[\<lparr>log_svc = 17, log_subsvc = 2\<rparr>, \<lparr>log_svc = 3, log_subsvc = 25\<rparr>]"]
  by (auto simp: obsw_tmtc_task_init_def tm_log_line_def word_le_nat_alt)

text \<open>With more than eight pending, the oldest lines are not those of the oldest packets.\<close>

lemma fdir_log_overrun:
  "fst (drain_log (log_entries (map (\<lambda>k. \<lparr>log_svc = k, log_subsvc = 1\<rparr>) [0, 1, 2, 3, 4, 5, 6, 7, 8])
      (tt_log (obsw_tmtc_task_init None () []))))
    = map (\<lambda>k. tm_log_line \<lparr>log_svc = k, log_subsvc = 1\<rparr>) [8, 1, 2, 3, 4, 5, 6, 7, 8]"
  by (simp add: drain_log_pending log_pending_def log_entries_def log_tm_def obsw_tmtc_task_init_def upt_rec)

end
