(* ===== verification/Fdir_Task.thy ===== *)
theory Fdir_Task
  imports Tm_Log Aocs_Task Pus_System
begin

section \<open>The FDIR task\<close>

text \<open>
  \<^verbatim>\<open>src/task/fdir.c\<close>: the task that proves the scheduler alive to the independent watchdog,
  advances the on-board time, runs the monitoring and the housekeeping, and shows the state on
  the display.  Its static and local objects are the record \<open>fdir\<close>; the objects it shares are
  the world of the PUS task, with the S3 context, the log that TMTC writes, and the live
  values of the attitude control task.  What it does to devices, in order, is the list
  \<open>fd_out\<close>.  The model is the build with a display.

  The housekeeping sets of the task point to variables of the application.  Their addresses
  are numbers: 1 to 3 for the counters of this task, 4 to 10 for the attitude control values.
\<close>

datatype fdir_out =
    Iwdg_key u32 | Iwdg_prescaler u32 | Iwdg_reload u32
  | Lcd_dispon | Lcd_dispon_fast | Dbg "u8 list" | Led_pin bool
  | Lcd_init | Lcd_colours u16 u16 | Lcd_puts "u8 list" | Lcd_status "u8 list" u16 u16

abbreviation (input) IWDG_KEY_REFRESH :: u32 where "IWDG_KEY_REFRESH \<equiv> 0xAAAA"
abbreviation (input) IWDG_KEY_UNLOCK :: u32 where "IWDG_KEY_UNLOCK \<equiv> 0x5555"
abbreviation (input) IWDG_KEY_START :: u32 where "IWDG_KEY_START \<equiv> 0xCCCC"

record fdir =
  fd_s5 :: "unit obsw_s5_ctx"
  fd_safe_mode_count :: u16
  fd_kick_count_hk :: u32
  fd_wdg_ticks_rem :: u32
  fd_boot_sent :: bool
  fd_lcd_first :: bool
  fd_kick_count :: u32
  fd_last_mode :: obsw_fsm_mode
  fd_sub_tick :: u8
  fd_led_high :: bool
  fd_out :: "fdir_out list"

definition emit :: "fdir_out list \<Rightarrow> fdir \<Rightarrow> fdir" where
  "emit os f = f\<lparr>fd_out := fd_out f @ os\<rparr>"

definition chars :: "string \<Rightarrow> u8 list" where
  "chars cs = map of_char cs"

subsection \<open>Devices\<close>

text \<open>Each initialisation is a sequence of register writes; the wait for the prescaler and the reload value between them ends in hardware.\<close>

definition iwdg_init :: "fdir \<Rightarrow> fdir" where
  "iwdg_init = emit [Iwdg_key IWDG_KEY_START, Iwdg_key IWDG_KEY_UNLOCK, Iwdg_prescaler 5,
     Iwdg_reload 1000, Iwdg_key IWDG_KEY_REFRESH]"

definition iwdg_kick :: "fdir \<Rightarrow> fdir" where
  "iwdg_kick = emit [Iwdg_key IWDG_KEY_REFRESH]"

definition led_init :: "fdir \<Rightarrow> fdir" where
  "led_init f = emit [Led_pin False] (f\<lparr>fd_led_high := False\<rparr>)"

definition led_toggle :: "fdir \<Rightarrow> fdir" where
  "led_toggle f =
    (if fd_led_high f then emit [Led_pin False] (f\<lparr>fd_led_high := False\<rparr>)
     else emit [Led_pin True] (f\<lparr>fd_led_high := True\<rparr>))"

subsection \<open>One iteration\<close>

text \<open>The boot event, once; the report reaches the mode state machine through the context.\<close>

definition fdir_boot_event :: "srdb \<Rightarrow> fdir \<times> pus_world \<Rightarrow> fdir \<times> pus_world" where
  "fdir_boot_event db fw =
    (let (f, w) = fw in
     if \<not> fd_boot_sent f
     then (case obsw_s5_report (Some (fd_s5 f)) OBSW_S5_INFO (srdb_event_boot_complete db) None 0
                  \<lparr>s5_store = env_store (pw_env w), s5_fsm = Some (md_fsm (pw_mode w)), s5_hooks = (),
                   s5_event_state = ()\<rparr> of
             (rc, s', e') \<Rightarrow>
               (f\<lparr>fd_s5 := the s', fd_boot_sent := True\<rparr>,
                w\<lparr>pw_env := (pw_env w)\<lparr>env_store := s5_store e'\<rparr>,
                  pw_mode := (pw_mode w)\<lparr>md_fsm := the (s5_fsm e')\<rparr>\<rparr>))
     else (f, w))"

text \<open>The variables the housekeeping sets point to.\<close>

definition fdir_vars :: "fdir \<Rightarrow> obsw_aocs_hk \<Rightarrow> nat \<Rightarrow> u32" where
  "fdir_vars f hk a =
    (if a = 1 then ucast (fd_safe_mode_count f) else if a = 2 then fd_kick_count_hk f
     else if a = 3 then fd_wdg_ticks_rem f
     else if a = 4 then v0 (hk_mag hk) else if a = 5 then v1 (hk_mag hk) else if a = 6 then v2 (hk_mag hk)
     else if a = 7 then v0 (hk_m_cmd hk) else if a = 8 then v1 (hk_m_cmd hk) else if a = 9 then v2 (hk_m_cmd hk)
     else if a = 10 then ucast (hk_mag_valid hk) else 0)"

definition fdir_s3_ctx :: "fdir \<Rightarrow> obsw_aocs_hk \<Rightarrow> pus_world \<Rightarrow> obsw_s3_ctx" where
  "fdir_s3_ctx f hk w = (fst s3_part w)\<lparr>s3_vars := fdir_vars f hk\<rparr>"

definition fdir_s3_tick :: "fdir \<Rightarrow> obsw_aocs_hk \<Rightarrow> pus_world \<Rightarrow> pus_world" where
  "fdir_s3_tick f hk w =
    (case obsw_s3_tick (Some (fdir_s3_ctx f hk w)) (pw_env w) of
       (s', e') \<Rightarrow> (snd s3_part (the s') w)\<lparr>pw_env := e'\<rparr>)"

definition fdir_track_mode :: "obsw_fsm_mode \<Rightarrow> fdir \<Rightarrow> fdir" where
  "fdir_track_mode cur f =
    (let f' = (if cur = OBSW_FSM_SAFE \<and> fd_last_mode f \<noteq> OBSW_FSM_SAFE
               then f\<lparr>fd_safe_mode_count := fd_safe_mode_count f + 1\<rparr> else f)
     in f'\<lparr>fd_last_mode := cur\<rparr>)"

text \<open>The eight decimal digits of the kick count, and the status bar.\<close>

definition fdir_digits :: "u32 \<Rightarrow> u8 list" where
  "fdir_digits k = map (\<lambda>i. 0x30 + of_nat (unat k div 10 ^ (7 - i) mod 10)) [0..<8]"

definition fdir_status :: "obsw_fsm_mode \<Rightarrow> u32 \<Rightarrow> fdir_out" where
  "fdir_status cur k =
    (let s = (case cur of OBSW_FSM_NOMINAL \<Rightarrow> chars ''FDIR:NOMINAL  WDG:''
               | OBSW_FSM_SAFE \<Rightarrow> chars ''FDIR:SAFE     WDG:''
               | OBSW_FSM_STANDBY \<Rightarrow> chars ''FDIR:STANDBY  WDG:'');
         fg = (if cur = OBSW_FSM_NOMINAL then 0x0000 else if cur = OBSW_FSM_SAFE then 0xFFFF else 0x0000);
         bg = (if cur = OBSW_FSM_NOMINAL then 0x07E0 else if cur = OBSW_FSM_SAFE then 0xF800 else 0xFFE0)
     in Lcd_status (s @ fdir_digits k) fg bg)"

text \<open>
  What a full tick does before the boot event and touches nothing but this task: the trace
  mark, the kick count and its housekeeping copy, the heartbeat LED, the header on the display.
\<close>

definition fdir_heartbeat :: "srdb \<Rightarrow> fdir \<Rightarrow> fdir" where
  "fdir_heartbeat db f =
    (let f = emit [Dbg (chars ''F'' @ [0x0D, 0x0A])] f;
         f = f\<lparr>fd_kick_count := fd_kick_count f + 1\<rparr>;
         f = f\<lparr>fd_kick_count_hk := fd_kick_count f\<rparr>;
         f = led_toggle f
     in emit [Lcd_init, Lcd_colours 0x0000 0x07E0,
          Lcd_puts (chars ''openobsw v'' @ chars (srdb_version db) @ [0x0A]),
          Lcd_puts (chars ''STM32H750 HSI 64MHz'' @ [0x0A]), Lcd_puts (chars ''FDIR alive'' @ [0x0A])] f)"

text \<open>The work of every fifth sub-tick.\<close>

definition fdir_full_tick ::
  "srdb \<Rightarrow> obsw_aocs_hk \<Rightarrow> fdir \<times> pus_world \<times> obsw_tm_log \<Rightarrow> fdir \<times> pus_world \<times> obsw_tm_log" where
  "fdir_full_tick db hk x =
    (let (f, w, l) = x;
         w = obsw_pus_s12_check (obsw_pus_obt_advance 1000 w);
         f = fdir_heartbeat db f;
         (f, w) = fdir_boot_event db (f, w);
         (lines, l) = drain_log l;
         f = emit (map Lcd_puts lines) f;
         cur = obsw_fsm_mode (Some (md_fsm (pw_mode w)));
         f = fdir_track_mode cur f;
         w = fdir_s3_tick f hk w;
         f = emit [fdir_status cur (fd_kick_count f)] f
     in (f, w, l))"

definition fdir_sub_tick ::
  "srdb \<Rightarrow> obsw_aocs_hk \<Rightarrow> fdir \<times> pus_world \<times> obsw_tm_log \<Rightarrow> fdir \<times> pus_world \<times> obsw_tm_log" where
  "fdir_sub_tick db hk x =
    (let (f, w, l) = x;
         f = iwdg_kick f;
         f = (if fd_lcd_first f then emit [Lcd_dispon, Dbg (chars ''B'')] (f\<lparr>fd_lcd_first := False\<rparr>)
              else emit [Lcd_dispon_fast, Dbg (chars ''k'')] f);
         f = f\<lparr>fd_sub_tick := fd_sub_tick f + 1\<rparr>
     in if fd_sub_tick f < 5 then (f, w, l)
        else fdir_full_tick db hk (f\<lparr>fd_sub_tick := 0\<rparr>, w, l))"

subsection \<open>Initialisation\<close>

definition fdir_hk_param :: "nat \<Rightarrow> obsw_s3_param" where
  "fdir_hk_param a = \<lparr>p_ptr = App_Var a, p_size = OBSW_S3_PARAM_U8\<rparr>"

text \<open>
  The two static sets; the widths of the first set's descriptors are not initialised before
  they are bound.  A set that cannot be bound reports nothing.
\<close>

definition fdir_bound_set :: "obsw_s3_set \<Rightarrow> u8 list \<Rightarrow> u8 \<Rightarrow> obsw_s3_set" where
  "fdir_bound_set x sizes n =
    (case obsw_s3_bind_sizes (Some x) (Some sizes) n of
       (ok, x') \<Rightarrow> if \<not> ok then (the x')\<lparr>set_param_count := 0\<rparr> else the x')"

definition fdir_hk_sets :: "srdb \<Rightarrow> obsw_s3_set list" where
  "fdir_hk_sets db =
    (let u32 = OBSW_S3_PARAM_U32;
         fdir_set = \<lparr>set_id = srdb_hk_fdir_hk db, set_params = Boot (map fdir_hk_param [1, 2, 3]),
           set_param_count = 3, set_interval = 60, set_countdown = 60, set_enabled = False\<rparr>;
         aocs_set = \<lparr>set_id = srdb_hk_aocs_bdot_hk db,
           set_params = Boot (map (\<lambda>a. (fdir_hk_param a)\<lparr>p_size := u32\<rparr>) [4, 5, 6, 7, 8, 9] @ [fdir_hk_param 10]),
           set_param_count = 7, set_interval = 10, set_countdown = 10, set_enabled = False\<rparr>;
         empty = \<lparr>set_id = 0, set_params = Boot [], set_param_count = 0, set_interval = 0,
           set_countdown = 0, set_enabled = False\<rparr>
     in [fdir_bound_set fdir_set (srdb_hk_fdir_hk_sizes db) 3,
         fdir_bound_set aocs_set (srdb_hk_aocs_bdot_hk_sizes db) 7] @ replicate 4 empty)"

definition obsw_fdir_task_init :: "srdb \<Rightarrow> mode_mgr \<Rightarrow> fdir \<times> obsw_s3_ctx" where
  "obsw_fdir_task_init db m =
    (let f = \<lparr>fd_s5 = \<lparr>s5_apid = srdb_apid_default db, s5_msg_counter = 0, s5_timestamp = 0,
                s5_safe_trigger_ids = [srdb_event_temperature_hard_limit db, srdb_event_power_fault_3v3 db,
                  srdb_event_power_fault_5v db] @ replicate 5 0,
                s5_safe_trigger_count = 3, s5_on_event = None\<rparr>,
              fd_safe_mode_count = 0, fd_kick_count_hk = 0, fd_wdg_ticks_rem = 4,
              fd_boot_sent = False, fd_lcd_first = True, fd_kick_count = 0,
              fd_last_mode = obsw_fsm_mode (Some (md_fsm m)), fd_sub_tick = 0,
              fd_led_high = False, fd_out = []\<rparr>;
         s3 = \<lparr>s3_apid = srdb_apid_default db, s3_msg_counter = 0, s3_timestamp = 0,
               s3_sets = fdir_hk_sets db, s3_set_count = 2, s3_set_capacity = 6,
               s3_param_pool = Some (replicate 32 (fdir_hk_param 0)), s3_pool_len = 32, s3_pool_used = 0,
               s3_param_table = [], s3_param_table_len = 0, s3_vars = (\<lambda>_. 0)\<rparr>
     in (led_init (iwdg_init f), s3))"

subsection \<open>What the task keeps to itself\<close>

lemma emit_frame [simp]:
  "fd_s5 (emit os f) = fd_s5 f" "fd_safe_mode_count (emit os f) = fd_safe_mode_count f"
  "fd_kick_count_hk (emit os f) = fd_kick_count_hk f" "fd_wdg_ticks_rem (emit os f) = fd_wdg_ticks_rem f"
  "fd_boot_sent (emit os f) = fd_boot_sent f" "fd_lcd_first (emit os f) = fd_lcd_first f"
  "fd_kick_count (emit os f) = fd_kick_count f" "fd_last_mode (emit os f) = fd_last_mode f"
  "fd_sub_tick (emit os f) = fd_sub_tick f" "fd_out (emit os f) = fd_out f @ os"
  by (simp_all add: emit_def)

lemma led_toggle_frame [simp]:
  "fd_s5 (led_toggle f) = fd_s5 f" "fd_safe_mode_count (led_toggle f) = fd_safe_mode_count f"
  "fd_kick_count_hk (led_toggle f) = fd_kick_count_hk f" "fd_wdg_ticks_rem (led_toggle f) = fd_wdg_ticks_rem f"
  "fd_boot_sent (led_toggle f) = fd_boot_sent f" "fd_lcd_first (led_toggle f) = fd_lcd_first f"
  "fd_kick_count (led_toggle f) = fd_kick_count f" "fd_last_mode (led_toggle f) = fd_last_mode f"
  "fd_sub_tick (led_toggle f) = fd_sub_tick f"
  by (simp_all add: led_toggle_def)

lemma fdir_track_mode_frame [simp]:
  "fd_s5 (fdir_track_mode m f) = fd_s5 f" "fd_kick_count_hk (fdir_track_mode m f) = fd_kick_count_hk f"
  "fd_wdg_ticks_rem (fdir_track_mode m f) = fd_wdg_ticks_rem f"
  "fd_boot_sent (fdir_track_mode m f) = fd_boot_sent f" "fd_kick_count (fdir_track_mode m f) = fd_kick_count f"
  "fd_sub_tick (fdir_track_mode m f) = fd_sub_tick f" "fd_out (fdir_track_mode m f) = fd_out f"
  "fd_last_mode (fdir_track_mode m f) = m"
  by (simp_all add: fdir_track_mode_def Let_def)

text \<open>The S5 context after the first full tick.\<close>

definition fdir_s5_after :: "fdir \<Rightarrow> unit obsw_s5_ctx" where
  "fdir_s5_after f = (if fd_boot_sent f then fd_s5 f
     else (fd_s5 f)\<lparr>s5_msg_counter := s5_msg_counter (fd_s5 f) + 1\<rparr>)"

lemma fdir_boot_event_frame [simp]:
  "fd_s5 (fst (fdir_boot_event db (f, w))) = fdir_s5_after f"
  "fd_boot_sent (fst (fdir_boot_event db (f, w)))"
  "fd_safe_mode_count (fst (fdir_boot_event db (f, w))) = fd_safe_mode_count f"
  "fd_kick_count_hk (fst (fdir_boot_event db (f, w))) = fd_kick_count_hk f"
  "fd_wdg_ticks_rem (fst (fdir_boot_event db (f, w))) = fd_wdg_ticks_rem f"
  "fd_kick_count (fst (fdir_boot_event db (f, w))) = fd_kick_count f"
  "fd_sub_tick (fst (fdir_boot_event db (f, w))) = fd_sub_tick f"
  "fd_last_mode (fst (fdir_boot_event db (f, w))) = fd_last_mode f"
  "fd_out (fst (fdir_boot_event db (f, w))) = fd_out f"
  by (simp_all add: fdir_boot_event_def fdir_s5_after_def obsw_s5_report_def Let_def split: prod.split)

definition iwdg_kicks :: "fdir \<Rightarrow> nat" where
  "iwdg_kicks f = count_list (fd_out f) (Iwdg_key IWDG_KEY_REFRESH)"

lemma count_list_Lcd_puts [simp]: "count_list (map Lcd_puts ls) (Iwdg_key k) = 0"
  by (induction ls) simp_all

lemma fdir_heartbeat_frame [simp]:
  "fd_s5 (fdir_heartbeat db f) = fd_s5 f" "fd_safe_mode_count (fdir_heartbeat db f) = fd_safe_mode_count f"
  "fd_kick_count_hk (fdir_heartbeat db f) = fd_kick_count f + 1"
  "fd_wdg_ticks_rem (fdir_heartbeat db f) = fd_wdg_ticks_rem f"
  "fd_boot_sent (fdir_heartbeat db f) = fd_boot_sent f" "fd_kick_count (fdir_heartbeat db f) = fd_kick_count f + 1"
  "fd_last_mode (fdir_heartbeat db f) = fd_last_mode f" "fd_sub_tick (fdir_heartbeat db f) = fd_sub_tick f"
  "count_list (fd_out (fdir_heartbeat db f)) (Iwdg_key k) = count_list (fd_out f) (Iwdg_key k)"
  by (simp_all add: fdir_heartbeat_def Let_def) (simp_all add: led_toggle_def emit_def)

lemma fdir_full_tick_own:
  defines "f' f w l db hk \<equiv> fst (fdir_full_tick db hk (f, w, l))"
  shows "fd_sub_tick (f' f w l db hk) = fd_sub_tick f" "fd_kick_count (f' f w l db hk) = fd_kick_count f + 1"
    "fd_kick_count_hk (f' f w l db hk) = fd_kick_count f + 1" "fd_boot_sent (f' f w l db hk)"
    "fd_s5 (f' f w l db hk) = fdir_s5_after f" "fd_wdg_ticks_rem (f' f w l db hk) = fd_wdg_ticks_rem f"
    "iwdg_kicks (f' f w l db hk) = iwdg_kicks f"
  by (simp_all add: f'_def fdir_full_tick_def case_prod_beta Let_def iwdg_kicks_def fdir_status_def fdir_s5_after_def)

subsection \<open>Runs\<close>

text \<open>Before each sub-tick the other tasks do something to the shared objects.\<close>

fun fdir_run ::
  "srdb \<Rightarrow> ((pus_world \<times> obsw_tm_log \<Rightarrow> pus_world \<times> obsw_tm_log) \<times> obsw_aocs_hk) list
   \<Rightarrow> fdir \<times> pus_world \<times> obsw_tm_log \<Rightarrow> fdir \<times> pus_world \<times> obsw_tm_log" where
  "fdir_run db [] x = x"
| "fdir_run db ((others, hk) # es) (f, w, l) = fdir_run db es (fdir_sub_tick db hk (f, others (w, l)))"

text \<open>After \<open>n\<close> sub-ticks.\<close>

definition fdir_at :: "nat \<Rightarrow> fdir \<Rightarrow> bool" where
  "fdir_at n f \<longleftrightarrow> unat (fd_sub_tick f) = n mod 5 \<and> fd_kick_count f = of_nat (n div 5)
    \<and> fd_kick_count_hk f = of_nat (n div 5) \<and> iwdg_kicks f = n + 1
    \<and> fd_boot_sent f = (5 \<le> n) \<and> s5_msg_counter (fd_s5 f) = (if 5 \<le> n then 1 else 0)"

lemma fdir_at_sub_tick:
  assumes "fdir_at n f"
  shows "fdir_at (Suc n) (fst (fdir_sub_tick db hk (f, w, l)))"
proof -
  define g where "g = (if fd_lcd_first (iwdg_kick f)
    then emit [Lcd_dispon, Dbg (chars ''B'')] ((iwdg_kick f)\<lparr>fd_lcd_first := False\<rparr>)
    else emit [Lcd_dispon_fast, Dbg (chars ''k'')] (iwdg_kick f))"
  have g: "fd_sub_tick g = fd_sub_tick f" "fd_kick_count g = fd_kick_count f"
    "fd_kick_count_hk g = fd_kick_count_hk f" "iwdg_kicks g = Suc (iwdg_kicks f)"
    "fd_boot_sent g = fd_boot_sent f" "fd_s5 g = fd_s5 f"
    by (simp_all add: g_def iwdg_kick_def iwdg_kicks_def emit_def)
  have t: "fdir_sub_tick db hk (f, w, l) = (if fd_sub_tick f + 1 < 5
      then (g\<lparr>fd_sub_tick := fd_sub_tick f + 1\<rparr>, w, l)
      else fdir_full_tick db hk (g\<lparr>fd_sub_tick := 0\<rparr>, w, l))"
    by (simp add: fdir_sub_tick_def Let_def g_def [symmetric] g(1))
  have u: "unat (fd_sub_tick f + 1) = Suc (n mod 5)"
    using assms by (subst unat_add_small) (auto simp: fdir_at_def)
  have k: "iwdg_kicks (f\<lparr>fd_sub_tick := c\<rparr>) = iwdg_kicks f" for f c by (simp add: iwdg_kicks_def)
  show ?thesis
  proof (cases "Suc (n mod 5) < 5")
    case True
    then have "fd_sub_tick f + 1 < 5" using u by (simp add: word_less_nat_alt)
    moreover have "Suc n mod 5 = Suc (n mod 5)" "Suc n div 5 = n div 5" "5 \<le> Suc n \<longleftrightarrow> 5 \<le> n"
      using True by (auto simp: mod_Suc div_Suc) presburger+
    ultimately show ?thesis using assms g u by (simp add: t fdir_at_def k)
  next
    case False
    then have "\<not> fd_sub_tick f + 1 < 5" using u by (simp add: word_less_nat_alt)
    moreover have "Suc n mod 5 = 0" "Suc n div 5 = Suc (n div 5)" "5 \<le> Suc n" using False by presburger+
    ultimately show ?thesis using assms g
      by (simp add: t fdir_at_def fdir_full_tick_own fdir_s5_after_def k)
  qed
qed

text \<open>
  C24: The watchdog and the second.  From the initialisation on, whatever the other tasks do to
  the shared objects, after \<open>n\<close> sub-ticks of 200 ms the independent watchdog has been reloaded
  \<open>n\<close> times beyond its start, exactly \<open>n div 5\<close> full ticks have been counted and are in the
  housekeeping copy, and the boot event has been reported once, in the first full tick.
\<close>

theorem fdir_watchdog_served:
  assumes "obsw_fdir_task_init db m = (f, s3)" "fdir_run db es (f, w, l) = (f', w', l')"
  shows "fdir_at (length es) f'"
proof -
  have "fdir_at (n + length es) f'" if "fdir_at n f" "fdir_run db es (f, w, l) = (f', w', l')" for n f w l
    using that
  proof (induction es arbitrary: n f w l)
    case (Cons e es)
    obtain others hk where e: "e = (others, hk)" by (cases e)
    obtain w1 l1 where o: "others (w, l) = (w1, l1)" by fastforce
    obtain f2 w2 l2 where t: "fdir_sub_tick db hk (f, w1, l1) = (f2, w2, l2)" by (rule prod_cases3)
    with fdir_at_sub_tick [OF Cons.prems(1), of db hk w1 l1] have "fdir_at (Suc n) f2" by simp
    from Cons.IH [OF this] Cons.prems(2) e o t show ?case by simp
  qed simp
  moreover have "fdir_at 0 f"
    using assms(1) by (auto simp: obsw_fdir_task_init_def fdir_at_def led_init_def iwdg_init_def iwdg_kicks_def Let_def)
  ultimately show ?thesis using assms(2) by fastforce
qed

theorem fdir_watchdog_served_witness:
  "\<forall>hk w l. \<exists>f s3 f' w' l'. obsw_fdir_task_init mode_example_srdb (obsw_mode_task_init mode_example_srdb) = (f, s3)
    \<and> fdir_run mode_example_srdb (replicate 12 (id, hk)) (f, w, l) = (f', w', l') \<and> fdir_at 12 f'"
proof (intro allI)
  fix hk w l
  obtain f s3 where i: "obsw_fdir_task_init mode_example_srdb (obsw_mode_task_init mode_example_srdb) = (f, s3)"
    by (rule prod.exhaust)
  obtain f' w' l' where r: "fdir_run mode_example_srdb (replicate 12 (id, hk)) (f, w, l) = (f', w', l')"
    by (rule prod_cases3)
  from fdir_watchdog_served [OF i r] i r
  show "\<exists>f s3 f' w' l'. obsw_fdir_task_init mode_example_srdb (obsw_mode_task_init mode_example_srdb) = (f, s3)
    \<and> fdir_run mode_example_srdb (replicate 12 (id, hk)) (f, w, l) = (f', w', l') \<and> fdir_at 12 f'"
    by (auto simp del: fdir_run.simps)
qed

subsection \<open>A full tick and the other tasks\<close>

lemma s12_check_frame [simp]:
  "pw_s3 (obsw_pus_s12_check w) = pw_s3 w" "pw_s20 (obsw_pus_s12_check w) = pw_s20 w"
  "pw_obt (obsw_pus_s12_check w) = pw_obt w" "pw_mode (obsw_pus_s12_check w) = pw_mode w"
  "pw_s3 (obsw_pus_obt_advance dt w) = pw_s3 w" "pw_s20 (obsw_pus_obt_advance dt w) = pw_s20 w"
  "pw_mode (obsw_pus_obt_advance dt w) = pw_mode w"
  by (simp_all add: obsw_pus_s12_check_def obsw_pus_obt_advance_def s12_part_def Let_def split: prod.split)

lemma fdir_s3_ctx_wf: "pus_wf db w \<Longrightarrow> s3_wf (fdir_s3_ctx f hk w)"
proof -
  assume "pus_wf db w"
  then have "s3_wf (fst s3_part w)" by (simp add: pus_wf_def)
  moreover have "fdir_s3_ctx f hk w = s3_observe (fdir_vars f hk, s20_table (pw_s20 w)) (fst s3_part w)"
    by (simp add: fdir_s3_ctx_def s3_observe_def s3_part_def)
  ultimately show ?thesis by simp
qed

lemma fdir_s3_tick_effect:
  fixes f :: fdir and hk :: obsw_aocs_hk
  assumes "pus_wf db w" "pus_hook_wf w"
  defines "s \<equiv> fdir_s3_ctx f hk w" and "w' \<equiv> fdir_s3_tick f hk w"
  shows "pus_wf db w'" "pus_hook_wf w'" "pw_obt w' = pw_obt w" "pw_mode w' = pw_mode w"
    "tm_offered (env_store (pw_env w)) (s3_packets s (s3_msg_counter s) (filter s3_due (s3_used s)))
      (env_store (pw_env w'))"
proof -
  have wf: "s3_wf s" unfolding s_def using assms(1) by (rule fdir_s3_ctx_wf)
  have ok: "tm_ok (env_store (pw_env w))" using assms(1) by (simp add: pus_wf_def)
  define t where "t = s3_after s (unat (s3_set_count s))"
  obtain e' where t: "obsw_s3_tick (Some s) (pw_env w) = (Some t, e')"
    "tm_offered (env_store (pw_env w)) (s3_packets s (s3_msg_counter s) (filter s3_due (s3_used s))) (env_store e')"
    using s3_tick_effect [OF wf ok] by (metis t_def)
  have w': "w' = (snd s3_part t w)\<lparr>pw_env := e'\<rparr>"
    using t(1) by (simp add: w'_def fdir_s3_tick_def s_def)
  have "s3_wf t" unfolding t_def by (rule s3_after_wf [OF wf])
  then show "pus_wf db w'"
    unfolding w' using assms(1) tm_offered_next [OF t(2)] by (intro p3.part_put [unfolded pus_set_env_def])
  show "pus_hook_wf w'" "pw_obt w' = pw_obt w" "pw_mode w' = pw_mode w"
    "tm_offered (env_store (pw_env w)) (s3_packets s (s3_msg_counter s) (filter s3_due (s3_used s)))
      (env_store (pw_env w'))"
    using assms(2) t(2) by (simp_all add: w' pus_hook_wf_def s3_part_def)
qed

text \<open>The packet of the boot event, where it is still to be sent.\<close>

definition fdir_boot_packets :: "srdb \<Rightarrow> fdir \<Rightarrow> u8 list list" where
  "fdir_boot_packets db f =
    (if fd_boot_sent f then [] else [s5_packet (fd_s5 f) OBSW_S5_INFO (srdb_event_boot_complete db) []])"

lemma fdir_boot_event_effect:
  fixes f :: fdir
  assumes "pus_wf db w" "pus_hook_wf w" "s5_on_event (fd_s5 f) = None"
  defines "w' \<equiv> snd (fdir_boot_event db (f, w))"
  shows "pus_wf db w'" "pus_hook_wf w'" "pw_obt w' = pw_obt w" "pw_mode w' = pw_mode w"
    "pw_s3 w' = pw_s3 w" "pw_s20 w' = pw_s20 w"
    "tm_offered (env_store (pw_env w)) (fdir_boot_packets db f) (env_store (pw_env w'))"
proof -
  have ok: "tm_ok (env_store (pw_env w))" using assms(1) by (simp add: pus_wf_def)
  have all: "pus_wf db w' \<and> pus_hook_wf w' \<and> pw_obt w' = pw_obt w \<and> pw_mode w' = pw_mode w
    \<and> pw_s3 w' = pw_s3 w \<and> pw_s20 w' = pw_s20 w
    \<and> tm_offered (env_store (pw_env w)) (fdir_boot_packets db f) (env_store (pw_env w'))"
  proof (cases "fd_boot_sent f")
    case True
    then show ?thesis using assms(1,2) ok
      by (simp add: w'_def fdir_boot_event_def fdir_boot_packets_def tm_offered_nil)
  next
    case False
    let ?e = "\<lparr>s5_store = env_store (pw_env w), s5_fsm = Some (md_fsm (pw_mode w)), s5_hooks = (),
      s5_event_state = ()\<rparr> :: (unit, unit) s5_env"
    let ?ev = "srdb_event_boot_complete db"
    obtain e' where r: "obsw_s5_report (Some (fd_s5 f)) OBSW_S5_INFO ?ev (Some []) 0 ?e
        = (tm_emit_rc (s5_store ?e), Some ((fd_s5 f)\<lparr>s5_msg_counter := s5_msg_counter (fd_s5 f) + 1\<rparr>), e')"
      "tm_ok (s5_store e')" "s5_store e' = None \<longleftrightarrow> s5_store ?e = None"
      "tm_queue (s5_store e') = tm_emit (s5_packet (fd_s5 f) OBSW_S5_INFO ?ev []) (s5_store ?e)"
      "s5_fsm e' = Some (md_fsm (pw_mode w))"
      by (rule s5_report_effect [of ?e 0 "[]" "fd_s5 f" OBSW_S5_INFO ?ev]) (use ok in simp_all)
    have w': "w' = w\<lparr>pw_env := (pw_env w)\<lparr>env_store := s5_store e'\<rparr>\<rparr>"
      using False r(1,5) by (simp add: w'_def fdir_boot_event_def s5_report_no_data)
    have "tm_offered (env_store (pw_env w)) (fdir_boot_packets db f) (s5_store e')"
      using r(2-4) False tm_queue_length [of "env_store (pw_env w)"]
      by (auto simp: tm_offered_def fdir_boot_packets_def tm_emit_def tm_emit_rc_def split: if_splits)
    then show ?thesis using pus_wf_env [OF assms(1)] r(2,3) assms(2) by (simp add: w' pus_hook_wf_def tm_next_def)
  qed
  then show "pus_wf db w'" "pus_hook_wf w'" "pw_obt w' = pw_obt w" "pw_mode w' = pw_mode w"
    "pw_s3 w' = pw_s3 w" "pw_s20 w' = pw_s20 w"
    "tm_offered (env_store (pw_env w)) (fdir_boot_packets db f) (env_store (pw_env w'))" by blast+
qed

lemma fdir_full_tick_world:
  assumes "pus_wf db w" "pus_hook_wf w" "s5_on_event (fd_s5 f) = None"
    "fdir_full_tick db hk (f, w, l) = (f', w', l')"
  shows "pus_wf db w'" "pus_hook_wf w'" "pw_mode w' = pw_mode w" "pw_s6 w' = pw_s6 w"
    "pw_obt w' = the (obsw_obt_advance (Some (pw_obt w)) 1000)"
    "let s = fdir_s3_ctx f' hk w in
      tm_offered (env_store (pw_env (obsw_pus_s12_check (obsw_pus_obt_advance 1000 w))))
        (fdir_boot_packets db f @ s3_packets s (s3_msg_counter s) (filter s3_due (s3_used s)))
        (env_store (pw_env w'))"
proof -
  define w1 where "w1 = obsw_pus_s12_check (obsw_pus_obt_advance 1000 w)"
  have ob: "pus_wf db (obsw_pus_obt_advance 1000 w)" "pus_hook_wf (obsw_pus_obt_advance 1000 w)"
    using assms(1,2) by (simp_all add: obsw_pus_obt_advance_def pus_wf_def pus_hook_wf_def part_defs)
  have w1: "pus_wf db w1" "pus_hook_wf w1" "pw_mode w1 = pw_mode w" "pw_s3 w1 = pw_s3 w" "pw_s20 w1 = pw_s20 w"
    "pw_obt w1 = the (obsw_obt_advance (Some (pw_obt w)) 1000)" "pw_s6 w1 = pw_s6 w"
    using pus_s12_check_effect(1,2,4) [OF ob] by (simp_all add: w1_def) (simp_all add: obsw_pus_obt_advance_def)
  define g where "g = fdir_heartbeat db f"
  have g: "fd_s5 g = fd_s5 f" "fd_boot_sent g = fd_boot_sent f" by (simp_all add: g_def)
  define w2 where "w2 = snd (fdir_boot_event db (g, w1))"
  note b = fdir_boot_event_effect [OF w1(1,2), of g, folded w2_def]
  have b5: "s5_on_event (fd_s5 g) = None" using assms(3) g by simp
  define h where "h = fdir_track_mode (obsw_fsm_mode (Some (md_fsm (pw_mode w2))))
    (emit (map Lcd_puts (fst (drain_log l))) (fst (fdir_boot_event db (g, w1))))"
  have r: "f' = emit [fdir_status (obsw_fsm_mode (Some (md_fsm (pw_mode w2)))) (fd_kick_count h)] h"
    "w' = fdir_s3_tick h hk w2"
    using assms(4) by (auto simp: fdir_full_tick_def Let_def case_prod_beta w1_def h_def w2_def g_def)
  note s = fdir_s3_tick_effect [OF b(1,2) [OF b5], of h hk, folded r(2)]
  have ctx: "fdir_s3_ctx h hk w2 = fdir_s3_ctx f' hk w"
  proof -
    have "fdir_vars f' hk = fdir_vars h hk" by (rule ext) (simp add: fdir_vars_def r(1))
    then show ?thesis using b(5,6) [OF b5] w1(4,5) by (simp add: fdir_s3_ctx_def s3_part_def)
  qed
  have p: "fdir_boot_packets db g = fdir_boot_packets db f" by (simp add: fdir_boot_packets_def g)
  have "pw_s6 w2 = pw_s6 w1" by (simp add: w2_def fdir_boot_event_def split: prod.split)
  then show "pw_s6 w' = pw_s6 w"
    using w1(7) by (simp add: r(2) fdir_s3_tick_def s3_part_def split: prod.split)
  show "pus_wf db w'" "pus_hook_wf w'" "pw_mode w' = pw_mode w"
    "pw_obt w' = the (obsw_obt_advance (Some (pw_obt w)) 1000)"
    "let s = fdir_s3_ctx f' hk w in
      tm_offered (env_store (pw_env (obsw_pus_s12_check (obsw_pus_obt_advance 1000 w))))
        (fdir_boot_packets db f @ s3_packets s (s3_msg_counter s) (filter s3_due (s3_used s)))
        (env_store (pw_env w'))"
    using s b(3,4,7) [OF b5] w1 tm_offered_append [OF b(7) [OF b5] s(5)]
    by (simp_all add: Let_def ctx p w1_def [symmetric])
qed

text \<open>
  C10: A full tick of FDIR.  On a world in order it advances the on-board time by one second, keeps
  the world in order and the mode, counts the tick, and offers to the store, after what the
  monitoring raised, the boot event if it was not sent, and then a housekeeping report for
  each enabled set that is due, in table order, with the values the variables have now: the
  counters as this tick has left them and the attitude control values.
\<close>

theorem fdir_full_tick_reports:
  assumes "pus_wf db w" "pus_hook_wf w" "s5_on_event (fd_s5 f) = None"
    "fdir_full_tick db hk (f, w, l) = (f', w', l')"
  shows "pus_wf db w' \<and> pus_hook_wf w' \<and> pw_mode w' = pw_mode w
    \<and> pw_obt w' = the (obsw_obt_advance (Some (pw_obt w)) 1000)
    \<and> fd_kick_count f' = fd_kick_count f + 1 \<and> fd_kick_count_hk f' = fd_kick_count f' \<and> fd_boot_sent f'
    \<and> (let s = fdir_s3_ctx f' hk w in
        tm_offered (env_store (pw_env (obsw_pus_s12_check (obsw_pus_obt_advance 1000 w))))
          (fdir_boot_packets db f @ s3_packets s (s3_msg_counter s) (filter s3_due (s3_used s)))
          (env_store (pw_env w')))"
  using fdir_full_tick_world [OF assms] fdir_full_tick_own [of db hk f w l, unfolded assms(4) fst_conv]
  by simp

theorem fdir_full_tick_reports_witness:
  "\<forall>hk l. \<exists>f w' l' f'. fdir_full_tick mode_example_srdb hk (f, pus_example, l) = (f', w', l')
    \<and> pus_wf mode_example_srdb w' \<and> fd_boot_sent f'
    \<and> pw_obt w' = the (obsw_obt_advance (Some (pw_obt pus_example)) 1000)"
proof (intro allI)
  fix hk l
  define f where "f = fst (obsw_fdir_task_init mode_example_srdb (obsw_mode_task_init mode_example_srdb))"
  have s5: "s5_on_event (fd_s5 f) = None"
    by (simp add: f_def obsw_fdir_task_init_def led_init_def iwdg_init_def Let_def)
  obtain f' w' l' where r: "fdir_full_tick mode_example_srdb hk (f, pus_example, l) = (f', w', l')"
    by (rule prod_cases3)
  from fdir_full_tick_reports [OF pus_example_wf s5 r] r
  show "\<exists>f w' l' f'. fdir_full_tick mode_example_srdb hk (f, pus_example, l) = (f', w', l')
    \<and> pus_wf mode_example_srdb w' \<and> fd_boot_sent f'
    \<and> pw_obt w' = the (obsw_obt_advance (Some (pw_obt pus_example)) 1000)" by blast
qed

subsection \<open>The layout of the housekeeping reports\<close>

text \<open>
  With the widths of the reference database, the two static sets are bound and report their
  variables big-endian in the order of the database: the safe-mode count in two bytes, the
  kick count and the constant of the watchdog in four each; and the field, the dipole
  commands as the bits of their floats, and the validity flag in one byte.
\<close>

theorem fdir_hk_layout:
  assumes "srdb_hk_fdir_hk_sizes db = [2, 4, 4]" "srdb_hk_aocs_bdot_hk_sizes db = [4, 4, 4, 4, 4, 4, 1]"
  shows "let s = fdir_s3_ctx f hk w; x = fdir_hk_sets db ! 0; y = fdir_hk_sets db ! 1 in
    s3_data s (s3_descr s x) =
      be_bytes16 (fd_safe_mode_count f) @ be_bytes32 (fd_kick_count_hk f) @ be_bytes32 (fd_wdg_ticks_rem f)
    \<and> s3_data s (s3_descr s y) =
      be_bytes32 (v0 (hk_mag hk)) @ be_bytes32 (v1 (hk_mag hk)) @ be_bytes32 (v2 (hk_mag hk))
      @ be_bytes32 (v0 (hk_m_cmd hk)) @ be_bytes32 (v1 (hk_m_cmd hk)) @ be_bytes32 (v2 (hk_m_cmd hk))
      @ [hk_mag_valid hk]"
proof -
  have upto: "[0..<3] = [0, 1, 2 :: nat]" "[0..<7 :: nat] = [0, 1, 2, 3, 4, 5, 6]"
    by (simp_all add: upt_rec)
  have uc16: "ucast (ucast h :: u32) = h" for h :: u16 by (rule bit_word_eqI) (simp add: bit_simps)
  have uc8: "ucast (ucast h :: u32) = h" for h :: u8 by (rule bit_word_eqI) (simp add: bit_simps)
  have two: "fdir_hk_sets db ! 0 = \<lparr>set_id = srdb_hk_fdir_hk db, set_params = Boot
        [\<lparr>p_ptr = App_Var 1, p_size = OBSW_S3_PARAM_U16\<rparr>, \<lparr>p_ptr = App_Var 2, p_size = OBSW_S3_PARAM_U32\<rparr>,
         \<lparr>p_ptr = App_Var 3, p_size = OBSW_S3_PARAM_U32\<rparr>],
      set_param_count = 3, set_interval = 60, set_countdown = 60, set_enabled = False\<rparr>"
    "fdir_hk_sets db ! 1 = \<lparr>set_id = srdb_hk_aocs_bdot_hk db, set_params = Boot
        (map (\<lambda>a. \<lparr>p_ptr = App_Var a, p_size = OBSW_S3_PARAM_U32\<rparr>) [4, 5, 6, 7, 8, 9]
         @ [\<lparr>p_ptr = App_Var 10, p_size = OBSW_S3_PARAM_U8\<rparr>]),
      set_param_count = 7, set_interval = 10, set_countdown = 10, set_enabled = False\<rparr>"
    by (simp_all add: fdir_hk_sets_def fdir_bound_set_def obsw_s3_bind_sizes_def assms s3_size_of_def
        fdir_hk_param_def upto Let_def)
  show ?thesis
    by (simp add: two two(2) [unfolded One_nat_def] Let_def s3_descr_def s3_set_param_def s3_data_def
        s3_load_def fdir_s3_ctx_def fdir_vars_def put_be_bytes upto uc16 uc8)
qed

theorem fdir_hk_layout_witness:
  "s3_data (fdir_s3_ctx f hk w) (s3_descr (fdir_s3_ctx f hk w) (fdir_hk_sets mode_example_srdb ! 0)) =
    be_bytes16 (fd_safe_mode_count f) @ be_bytes32 (fd_kick_count_hk f) @ be_bytes32 (fd_wdg_ticks_rem f)"
  using fdir_hk_layout [of mode_example_srdb f hk w] by (simp add: mode_example_srdb_def Let_def)

end
