(* ===== verification/Svf_Protocol.thy ===== *)
theory Svf_Protocol
  imports Float32
begin

section \<open>The pipe protocol of the simulator\<close>

text \<open>
  \<^verbatim>\<open>contrib/svf_protocol/obsw_svf_protocol.c\<close>, the reference implementation of the type-prefixed
  frames that the flight software and the simulation exchange, with its Linux platform
  \<^verbatim>\<open>platform/linux_stdio.c\<close>, and \<^verbatim>\<open>sim/sensor_inject.c\<close>, the reader the host simulator has of
  its own.  The two structures that cross the pipe are packed and little-endian; on the
  supported hosts a \<open>memcpy\<close> is their layout.

  What the protocol asks of a platform is the locale \<open>svf_platform\<close>; the lemmas show that a
  frame written by one side is read by the other, and that a stream of frames has one
  reading.
\<close>

abbreviation (input) SVF_FRAME_TC :: u8 where "SVF_FRAME_TC \<equiv> 0x01"
abbreviation (input) SVF_FRAME_SENSOR :: u8 where "SVF_FRAME_SENSOR \<equiv> 0x02"
abbreviation (input) SVF_FRAME_ACTUATOR :: u8 where "SVF_FRAME_ACTUATOR \<equiv> 0x03"
abbreviation (input) SVF_FRAME_TM :: u8 where "SVF_FRAME_TM \<equiv> 0x04"
abbreviation (input) SVF_SYNC_BYTE :: u8 where "SVF_SYNC_BYTE \<equiv> 0xFF"

subsection \<open>Platform\<close>

text \<open>\<open>fread\<close> of single bytes: fewer than asked for only at the end of the input.\<close>

definition fread :: "nat \<Rightarrow> u8 list \<Rightarrow> u8 list \<times> u8 list" where
  "fread n inp = (take n inp, drop n inp)"

text \<open>A read returns its result code and the bytes it stored.\<close>

record 's svf_io =
  svf_io_read :: "u16 \<Rightarrow> 's \<Rightarrow> int \<times> u8 list \<times> 's"
  svf_io_write :: "u8 list \<Rightarrow> u16 \<Rightarrow> 's \<Rightarrow> int \<times> 's"
  svf_io_flush :: "'s \<Rightarrow> 's"

record stdio =
  std_in :: "u8 list"
  std_out :: "u8 list"

definition linux_io_read :: "u16 \<Rightarrow> stdio \<Rightarrow> int \<times> u8 list \<times> stdio" where
  "linux_io_read len s =
    (case fread (unat len) (std_in s) of (b, r) \<Rightarrow>
       (if length b = unat len then 0 else -1, b, s\<lparr>std_in := r\<rparr>))"

definition linux_io_write :: "u8 list \<Rightarrow> u16 \<Rightarrow> stdio \<Rightarrow> int \<times> stdio" where
  "linux_io_write buf len s = (0, s\<lparr>std_out := std_out s @ take (unat len) buf\<rparr>)"

definition linux_stdio :: "stdio svf_io" where
  "linux_stdio = \<lparr>svf_io_read = linux_io_read, svf_io_write = linux_io_write, svf_io_flush = (\<lambda>s. s)\<rparr>"

subsection \<open>Frames\<close>

definition write_u16_be :: "'s svf_io \<Rightarrow> u16 \<Rightarrow> 's \<Rightarrow> 's" where
  "write_u16_be io v s = snd (svf_io_write io [ucast (drop_bit 8 v), ucast (v AND 0xFF)] 2 s)"

definition write_frame :: "'s svf_io \<Rightarrow> u8 \<Rightarrow> u8 list \<Rightarrow> u16 \<Rightarrow> 's \<Rightarrow> 's" where
  "write_frame io ty data len s =
    snd (svf_io_write io data len (write_u16_be io len (snd (svf_io_write io [ty] 1 s))))"

text \<open>The frame type, the buffer, \<open>*out_len\<close> and the platform afterwards.\<close>

definition svf_read_frame ::
  "'s svf_io \<Rightarrow> u8 list \<Rightarrow> u16 \<Rightarrow> u16 \<Rightarrow> 's \<Rightarrow> u8 \<times> u8 list \<times> u16 \<times> 's" where
  "svf_read_frame io buf bufsize out_len s =
    (case svf_io_read io 1 s of (rc, t, s1) \<Rightarrow>
       if rc \<noteq> 0 then (0, buf, out_len, s1) else
     case svf_io_read io 2 s1 of (rc, l, s2) \<Rightarrow>
       if rc \<noteq> 0 then (0, buf, out_len, s2) else
     let len = obsw_be16 l in
       if len > bufsize then (0, buf, out_len, s2) else
       if len > 0
       then (case svf_io_read io len s2 of (rc, b, s3) \<Rightarrow>
               if rc \<noteq> 0 then (0, memcpy_at buf 0 b (length b), out_len, s3)
               else (t ! 0, memcpy_at buf 0 b (length b), len, s3))
       else (t ! 0, buf, len, s2))"

definition svf_write_tm :: "'s svf_io \<Rightarrow> u8 list \<Rightarrow> u16 \<Rightarrow> 's \<Rightarrow> 's" where
  "svf_write_tm io pkt len s = svf_io_flush io (write_frame io SVF_FRAME_TM pkt len s)"

definition svf_write_sync :: "'s svf_io \<Rightarrow> 's \<Rightarrow> 's" where
  "svf_write_sync io s = svf_io_flush io (snd (svf_io_write io [SVF_SYNC_BYTE] 1 s))"

subsection \<open>The structures\<close>

definition le_bytes32 :: "u32 \<Rightarrow> u8 list" where
  "le_bytes32 x = rev (be_bytes32 x)"

definition obsw_le32 :: "u8 list \<Rightarrow> u32" where
  "obsw_le32 p = obsw_be32 (rev (take 4 p))"

lemma length_le_bytes32 [simp, layout]: "length (le_bytes32 x) = 4"
  by (simp add: le_bytes32_def)

lemma le32_le_bytes32 [simp]: "obsw_le32 (le_bytes32 x @ r) = x"
  using be32_be_bytes32 [of x "[]"] by (simp add: obsw_le32_def le_bytes32_def be_bytes32_def)

lemma drop_le_bytes32 [simp]: "drop (numeral n) (le_bytes32 x @ r) = drop (numeral n - 4) r"
  if "(4::nat) \<le> numeral n"
  using that by simp

record svf_actuator_frame =
  mtq_dipole_x :: f32
  mtq_dipole_y :: f32
  mtq_dipole_z :: f32
  rw_torque_x :: f32
  rw_torque_y :: f32
  rw_torque_z :: f32
  act_controller :: u8
  act_sim_time :: f32

abbreviation (input) SVF_ACTUATOR_FRAME_LEN :: u16 where "SVF_ACTUATOR_FRAME_LEN \<equiv> 29"

definition actuator_bytes :: "svf_actuator_frame \<Rightarrow> u8 list" where
  "actuator_bytes a =
    le_bytes32 (mtq_dipole_x a) @ le_bytes32 (mtq_dipole_y a) @ le_bytes32 (mtq_dipole_z a)
    @ le_bytes32 (rw_torque_x a) @ le_bytes32 (rw_torque_y a) @ le_bytes32 (rw_torque_z a)
    @ [act_controller a] @ le_bytes32 (act_sim_time a)"

lemma length_actuator_bytes [simp, layout]: "length (actuator_bytes a) = 29"
  by (simp add: actuator_bytes_def)

definition svf_write_actuator :: "'s svf_io \<Rightarrow> svf_actuator_frame \<Rightarrow> 's \<Rightarrow> 's" where
  "svf_write_actuator io act s =
    svf_io_flush io (write_frame io SVF_FRAME_ACTUATOR (actuator_bytes act) SVF_ACTUATOR_FRAME_LEN s)"

record obsw_sensor_frame =
  sn_mag_x :: f32
  sn_mag_y :: f32
  sn_mag_z :: f32
  sn_mag_valid :: u8
  sn_st_q_w :: f32
  sn_st_q_x :: f32
  sn_st_q_y :: f32
  sn_st_q_z :: f32
  sn_st_valid :: u8
  sn_gyro_x :: f32
  sn_gyro_y :: f32
  sn_gyro_z :: f32
  sn_gyro_valid :: u8
  sn_sim_time :: f32

abbreviation (input) OBSW_SENSOR_FRAME_LEN :: u16 where "OBSW_SENSOR_FRAME_LEN \<equiv> 47"

definition sensor_of_bytes :: "u8 list \<Rightarrow> obsw_sensor_frame" where
  "sensor_of_bytes b =
    \<lparr>sn_mag_x = obsw_le32 b, sn_mag_y = obsw_le32 (drop 4 b), sn_mag_z = obsw_le32 (drop 8 b),
     sn_mag_valid = b ! 12,
     sn_st_q_w = obsw_le32 (drop 13 b), sn_st_q_x = obsw_le32 (drop 17 b),
     sn_st_q_y = obsw_le32 (drop 21 b), sn_st_q_z = obsw_le32 (drop 25 b),
     sn_st_valid = b ! 29,
     sn_gyro_x = obsw_le32 (drop 30 b), sn_gyro_y = obsw_le32 (drop 34 b), sn_gyro_z = obsw_le32 (drop 38 b),
     sn_gyro_valid = b ! 42,
     sn_sim_time = obsw_le32 (drop 43 b)\<rparr>"

text \<open>The layout, the other way round.\<close>

definition sensor_bytes :: "obsw_sensor_frame \<Rightarrow> u8 list" where
  "sensor_bytes s =
    le_bytes32 (sn_mag_x s) @ le_bytes32 (sn_mag_y s) @ le_bytes32 (sn_mag_z s) @ [sn_mag_valid s]
    @ le_bytes32 (sn_st_q_w s) @ le_bytes32 (sn_st_q_x s) @ le_bytes32 (sn_st_q_y s) @ le_bytes32 (sn_st_q_z s)
    @ [sn_st_valid s]
    @ le_bytes32 (sn_gyro_x s) @ le_bytes32 (sn_gyro_y s) @ le_bytes32 (sn_gyro_z s) @ [sn_gyro_valid s]
    @ le_bytes32 (sn_sim_time s)"

lemma length_sensor_bytes [simp, layout]: "length (sensor_bytes s) = 47"
  by (simp add: sensor_bytes_def)

lemma sensor_of_bytes_bytes: "sensor_of_bytes (sensor_bytes s @ r) = s"
  by (cases s) (simp add: sensor_of_bytes_def sensor_bytes_def nth_append)

lemma sensor_of_bytes_take: "sensor_of_bytes (take n p) = sensor_of_bytes p" if "47 \<le> n"
proof -
  have le32: "obsw_le32 (drop k (take n p)) = obsw_le32 (drop k p)" if "k + 4 \<le> n" for k
    using that by (simp add: obsw_le32_def drop_take)
  have b: "take n p ! k = p ! k" if "k < n" for k
    using that by simp
  show ?thesis
    using that le32 le32 [of 0] b by (simp add: sensor_of_bytes_def)
qed

subsection \<open>The simulator's own reader and writers\<close>

definition obsw_sim_read_frame :: "u8 list \<Rightarrow> u16 \<Rightarrow> u8 list \<Rightarrow> u8 \<times> u8 list \<times> u16 \<times> u8 list" where
  "obsw_sim_read_frame buf buf_len inp =
    (case fread 1 inp of (t, i1) \<Rightarrow>
       if length t \<noteq> 1 then (0, buf, 0, i1) else
     case fread 2 i1 of (l, i2) \<Rightarrow>
       if length l \<noteq> 2 then (0, buf, 0, i2) else
     let len = obsw_be16 l in
       if len = 0 \<or> len > buf_len then (0, buf, 0, i2) else
     case fread (unat len) i2 of (b, i3) \<Rightarrow>
       if length b \<noteq> unat len then (0, memcpy_at buf 0 b (length b), 0, i3)
       else (t ! 0, memcpy_at buf 0 b (length b), len, i3))"

definition obsw_sim_parse_sensor ::
  "u8 list option \<Rightarrow> u16 \<Rightarrow> obsw_sensor_frame option \<Rightarrow> bool \<times> obsw_sensor_frame option" where
  "obsw_sim_parse_sensor buf len out =
    (case (buf, out) of
       (Some b, Some _) \<Rightarrow>
         if len < OBSW_SENSOR_FRAME_LEN then (False, out) else (True, Some (sensor_of_bytes b))
     | _ \<Rightarrow> (False, out))"

definition write_tm_packet :: "u8 list \<Rightarrow> u16 \<Rightarrow> u8 list \<Rightarrow> u8 list" where
  "write_tm_packet pkt len out =
    out @ [SVF_FRAME_TM, ucast (drop_bit 8 len), ucast (len AND 0xFF)] @ take (unat len) pkt"

definition write_sync_byte :: "u8 list \<Rightarrow> u8 list" where
  "write_sync_byte out = out @ [SVF_SYNC_BYTE]"

definition write_actuator_frame :: "svf_actuator_frame \<Rightarrow> u8 list \<Rightarrow> u8 list" where
  "write_actuator_frame act out =
    (let len = SVF_ACTUATOR_FRAME_LEN in
     out @ [SVF_FRAME_ACTUATOR, ucast (drop_bit 8 len), ucast (len AND 0xFF)]
       @ take (unat len) (actuator_bytes act))"

subsection \<open>The contract of a platform\<close>

definition frame_bytes :: "u8 \<Rightarrow> u8 list \<Rightarrow> u8 list" where
  "frame_bytes ty d = ty # be_bytes16 (of_nat (length d)) @ d"

lemma length_frame_bytes [simp, layout]: "length (frame_bytes ty d) = 3 + length d"
  by (simp add: frame_bytes_def)

locale svf_platform =
  fixes io :: "'s svf_io" and inp :: "'s \<Rightarrow> u8 list" and out :: "'s \<Rightarrow> u8 list"
  assumes read_enough: "unat n \<le> length (inp s) \<Longrightarrow>
      \<exists>s'. svf_io_read io n s = (0, take (unat n) (inp s), s') \<and> inp s' = drop (unat n) (inp s) \<and> out s' = out s"
    and read_short: "length (inp s) < unat n \<Longrightarrow> fst (svf_io_read io n s) \<noteq> 0"
    and write_out: "unat n \<le> length b \<Longrightarrow> out (snd (svf_io_write io b n s)) = out s @ take (unat n) b"
    and write_inp: "inp (snd (svf_io_write io b n s)) = inp s"
    and flush: "out (svf_io_flush io s) = out s" "inp (svf_io_flush io s) = inp s"
begin

lemma written:
  assumes "length d = unat len"
  shows "out (write_frame io ty d len s) = out s @ frame_bytes ty d"
    and "inp (write_frame io ty d len s) = inp s"
proof -
  have len: "of_nat (length d) = len" using assms by simp
  have "take 2 (be_bytes16 len) = be_bytes16 len" by simp
  moreover have "out (snd (svf_io_write io [ty] 1 s)) = out s @ [ty]" for s
    using write_out [of 1 "[ty]"] by simp
  moreover have "out (write_u16_be io len s) = out s @ be_bytes16 len" for s
    using write_out [of 2 "be_bytes16 len"] by (simp add: write_u16_be_def be_bytes16_def)
  ultimately show "out (write_frame io ty d len s) = out s @ frame_bytes ty d"
    using write_out [of len d] assms by (simp add: write_frame_def frame_bytes_def len)
  show "inp (write_frame io ty d len s) = inp s"
    by (simp add: write_frame_def write_u16_be_def write_inp)
qed

lemma read_back:
  assumes "inp s = frame_bytes ty d @ rest" "length d \<le> unat (n :: u16)"
  shows "\<exists>s'. svf_read_frame io buf n ol s
      = (ty, memcpy_at buf 0 d (length d), of_nat (length d), s') \<and> inp s' = rest \<and> out s' = out s"
proof -
  define len :: u16 where "len = of_nat (length d)"
  have small: "length d < 2 ^ LENGTH(16)" using assms(2) u16_less_65536 [of n] by simp
  have len: "unat len = length d" unfolding len_def by (rule unat_of_nat_small [OF small])
  obtain s1 where s1: "svf_io_read io 1 s = (0, [ty], s1)" "inp s1 = be_bytes16 len @ d @ rest" "out s1 = out s"
    using read_enough [of 1 s] assms(1) by (auto simp: frame_bytes_def len_def)
  obtain s2 where s2: "svf_io_read io 2 s1 = (0, be_bytes16 len, s2)" "inp s2 = d @ rest" "out s2 = out s"
    using read_enough [of 2 s1] s1(2,3) by auto
  have be: "obsw_be16 (be_bytes16 len) = len" using be16_be_bytes16 [of len "[]"] by simp
  have le: "\<not> len > n" using assms(2) len by (simp add: word_less_nat_alt)
  show ?thesis
  proof (cases "d = []")
    case True
    then have "len = 0" by (simp add: len_def)
    with True s1 s2 be show ?thesis by (simp add: svf_read_frame_def len_def)
  next
    case False
    then have gt: "len > 0" using len by (simp add: word_gt_0 unat_eq_zero flip: unat_eq_zero)
    obtain s3 where s3: "svf_io_read io len s2 = (0, d, s3)" "inp s3 = rest" "out s3 = out s"
      using read_enough [of len s2] s2(2,3) len by auto
    have "svf_read_frame io buf n ol s = (ty, memcpy_at buf 0 d (length d), len, s3)"
      using s1(1) s2(1) s3(1) be le gt by (simp add: svf_read_frame_def)
    with s3 show ?thesis by (simp add: len_def)
  qed
qed

text \<open>A frame that is longer than the buffer is refused after its header.\<close>

lemma read_too_long:
  assumes "inp s = frame_bytes ty d @ rest" "unat n < length d" "length d < 65536"
  shows "fst (svf_read_frame io buf n ol s) = 0"
proof -
  define len :: u16 where "len = of_nat (length d)"
  have len: "unat len = length d" unfolding len_def using assms(3) by (intro unat_of_nat_small) simp
  obtain s1 where s1: "svf_io_read io 1 s = (0, [ty], s1)" "inp s1 = be_bytes16 len @ d @ rest"
    using read_enough [of 1 s] assms(1) by (auto simp: frame_bytes_def len_def)
  obtain s2 where s2: "svf_io_read io 2 s1 = (0, be_bytes16 len, s2)"
    using read_enough [of 2 s1] s1(2) by auto
  have "obsw_be16 (be_bytes16 len) = len" using be16_be_bytes16 [of len "[]"] by simp
  moreover have "len > n" using assms(2) len by (simp add: word_less_nat_alt)
  ultimately show ?thesis using s1(1) s2 by (simp add: svf_read_frame_def Let_def)
qed

text \<open>Where the stream ends inside a frame, the reader reports the end.\<close>

lemma read_truncated:
  assumes "inp s = take k (frame_bytes ty d)" "k < 3 + length d" "length d < 65536"
  shows "fst (svf_read_frame io buf n ol s) = 0"
proof -
  define len :: u16 where "len = of_nat (length d)"
  have len: "unat len = length d" unfolding len_def using assms(3) by (intro unat_of_nat_small) simp
  have be: "obsw_be16 (be_bytes16 len) = len" using be16_be_bytes16 [of len "[]"] by simp
  have inp: "inp s = take k (ty # be_bytes16 len @ d)" using assms(1) by (simp add: frame_bytes_def len_def)
  show ?thesis
  proof (cases "k = 0")
    case True
    then show ?thesis using read_short [of s 1] inp by (auto simp: svf_read_frame_def split: prod.split)
  next
    case False
    then obtain j where j: "k = Suc j" by (cases k) auto
    obtain s1 where s1: "svf_io_read io 1 s = (0, [ty], s1)" "inp s1 = take j (be_bytes16 len @ d)"
      using read_enough [of 1 s] inp j by auto
    show ?thesis
    proof (cases "j < 2")
      case True
      then show ?thesis using read_short [of s1 2] s1 by (auto simp: svf_read_frame_def split: prod.split)
    next
      case False
      then obtain s2 where s2: "svf_io_read io 2 s1 = (0, be_bytes16 len, s2)" "inp s2 = take (j - 2) d"
        using read_enough [of 2 s1] s1(2) by (auto simp: min_def)
      have "length (inp s2) < unat len" using s2(2) len assms(2) j False by simp
      moreover from this have "0 < len" by (simp add: word_less_nat_alt)
      moreover note read_short [OF calculation(1)]
      ultimately show ?thesis
        using s1(1) s2(1) be by (auto simp: svf_read_frame_def Let_def split: prod.split)
    qed
  qed
qed

end

interpretation linux: svf_platform linux_stdio std_in std_out
  by unfold_locales (auto simp: linux_stdio_def linux_io_read_def linux_io_write_def fread_def min_def)

text \<open>
  The simulator's reader does the same on a frame with a body; a frame without one it takes
  for the end of the input.
\<close>

lemma sim_read_back:
  assumes "d \<noteq> []" "length d \<le> unat (n :: u16)"
  shows "obsw_sim_read_frame buf n (frame_bytes ty d @ rest)
    = (ty, memcpy_at buf 0 d (length d), of_nat (length d), rest)"
proof -
  define len :: u16 where "len = of_nat (length d)"
  have len: "unat len = length d"
    unfolding len_def using assms(2) u16_less_65536 [of n] by (intro unat_of_nat_small) simp
  have "frame_bytes ty d = ty # be_bytes16 len @ d" by (simp add: frame_bytes_def len_def)
  moreover have "obsw_be16 (be_bytes16 len) = len" using be16_be_bytes16 [of len "[]"] by simp
  moreover have "len \<noteq> 0" using assms(1) len by auto
  moreover have "\<not> len > n" using assms(2) len by (simp add: word_less_nat_alt)
  ultimately show ?thesis by (simp add: obsw_sim_read_frame_def fread_def len Let_def len_def [symmetric])
qed

lemma sim_read_empty: "fst (obsw_sim_read_frame buf n (frame_bytes ty [] @ rest)) = 0"
  using be16_be_bytes16 [of 0 "[]"] by (simp add: obsw_sim_read_frame_def fread_def frame_bytes_def)

lemma sim_read_too_long:
  assumes "unat n < length d" "length d < 65536"
  shows "fst (obsw_sim_read_frame buf n (frame_bytes ty d @ rest)) = 0"
proof -
  define len :: u16 where "len = of_nat (length d)"
  have "unat len = length d" unfolding len_def using assms(2) by (intro unat_of_nat_small) simp
  then have "len > n" using assms(1) by (simp add: word_less_nat_alt)
  moreover have "obsw_be16 (be_bytes16 len) = len" using be16_be_bytes16 [of len "[]"] by simp
  ultimately show ?thesis by (simp add: obsw_sim_read_frame_def fread_def frame_bytes_def len_def [symmetric] Let_def)
qed

text \<open>The reader takes bytes from the front of the input, at least four when it returns a frame.\<close>

lemma sim_read_consumes:
  assumes "obsw_sim_read_frame buf n inp = (ty, buf', len, rest)" "ty \<noteq> 0" "unat n \<le> length buf"
  shows "\<exists>d. inp = frame_bytes ty d @ rest \<and> length d = unat len \<and> 0 < len \<and> len \<le> n
    \<and> buf' = memcpy_at buf 0 d (length d) \<and> length buf' = length buf"
proof -
  have "3 \<le> length inp"
    using assms(1,2) by (auto simp: obsw_sim_read_frame_def fread_def split: if_splits)
  then obtain t l1 l2 r where inp: "inp = t # l1 # l2 # r"
    by (auto simp: numeral_3_eq_3 Suc_le_length_iff)
  define k where "k = obsw_be16 [l1, l2]"
  have r: "ty = t" "k \<noteq> 0" "k \<le> n" "unat k \<le> length r" "len = k" "rest = drop (unat k) r"
    "buf' = memcpy_at buf 0 (take (unat k) r) (unat k)"
    using assms(1,2) unfolding inp obsw_sim_read_frame_def fread_def
    by (auto simp: k_def [symmetric] Let_def min_def not_less split: if_splits)
  have "inp = frame_bytes ty (take (unat k) r) @ rest"
    using r(1,4,6) be_bytes16_be16 [of l1 l2 "[]"]
    by (simp add: inp frame_bytes_def min_def k_def)
  moreover have "length buf' = length buf"
    using r(3,4,7) assms(3) by (simp add: word_le_nat_alt)
  ultimately show ?thesis
    using r by (intro exI [of _ "take (unat k) r"]) (simp add: word_gt_0)
qed

subsection \<open>The stream of answers\<close>

text \<open>
  What the flight software sends, as the protocol's header describes it: messages, and how
  a receiver tells them apart.
\<close>

datatype svf_msg = Tm "u8 list" | Actuator "u8 list" | Sync

fun svf_msg_bytes :: "svf_msg \<Rightarrow> u8 list" where
  "svf_msg_bytes (Tm d) = frame_bytes SVF_FRAME_TM d"
| "svf_msg_bytes (Actuator d) = frame_bytes SVF_FRAME_ACTUATOR d"
| "svf_msg_bytes Sync = [SVF_SYNC_BYTE]"

fun svf_msg_ok :: "svf_msg \<Rightarrow> bool" where
  "svf_msg_ok (Tm d) = (length d < 65536)"
| "svf_msg_ok (Actuator d) = (length d < 65536)"
| "svf_msg_ok Sync = True"

function svf_decode :: "u8 list \<Rightarrow> svf_msg list option" where
  "svf_decode [] = Some []"
| "svf_decode (t # r) =
    (if t = SVF_SYNC_BYTE then map_option (Cons Sync) (svf_decode r)
     else if t \<noteq> SVF_FRAME_TM \<and> t \<noteq> SVF_FRAME_ACTUATOR \<or> length r < 2 then None
     else let n = unat (obsw_be16 r); d = take n (drop 2 r) in
       if length d < n then None
       else map_option (Cons (if t = SVF_FRAME_TM then Tm d else Actuator d)) (svf_decode (drop (2 + n) r)))"
  by pat_completeness auto
termination by (relation "measure length") auto

declare svf_decode.simps [simp del]

lemma svf_decode_msg:
  assumes "svf_msg_ok m"
  shows "svf_decode (svf_msg_bytes m @ r) = map_option (Cons m) (svf_decode r)"
proof -
  have frame: "svf_decode (frame_bytes t d @ r) = map_option (Cons (if t = SVF_FRAME_TM then Tm d else Actuator d))
      (svf_decode r)" if "t = SVF_FRAME_TM \<or> t = SVF_FRAME_ACTUATOR" "length d < 65536" for t d
  proof -
    have n: "unat (of_nat (length d) :: u16) = length d" using that(2) by (intro unat_of_nat_small) simp
    have b: "obsw_be16 (be_bytes16 (of_nat (length d)) @ d @ r) = of_nat (length d)"
      by (rule be16_be_bytes16)
    have "t \<noteq> SVF_SYNC_BYTE" using that(1) by auto
    then show ?thesis
      using that(1) unfolding frame_bytes_def append_Cons append_assoc svf_decode.simps b n Let_def by auto
  qed
  show ?thesis
  proof (cases m)
    case Sync
    then show ?thesis by (simp add: svf_decode.simps)
  qed (use frame assms in simp_all)
qed

lemma svf_decode_stream:
  "list_all svf_msg_ok ms \<Longrightarrow> svf_decode (concat (map svf_msg_bytes ms) @ r) = map_option (append ms) (svf_decode r)"
proof (induction ms)
  case Nil
  then show ?case by (simp add: option.map_ident)
next
  case (Cons m ms)
  then show ?case by (simp add: svf_decode_msg option.map_comp comp_def)
qed

text \<open>
  A program that answers a sequence of frames one after the other: \<open>step s f ms s'\<close> says that
  in the state \<open>s\<close> it answers the frame \<open>f\<close>, a type and a body, with the messages \<open>ms\<close> and is
  then in the state \<open>s'\<close>.
\<close>

inductive frames_served ::
  "('s \<Rightarrow> u8 \<times> u8 list \<Rightarrow> svf_msg list \<Rightarrow> 's \<Rightarrow> bool) \<Rightarrow> 's \<Rightarrow> (u8 \<times> u8 list) list \<Rightarrow> svf_msg list list \<Rightarrow> 's \<Rightarrow> bool"
  for step where
  served_none: "frames_served step s [] [] s"
| served_frame: "step s f ms s1 \<Longrightarrow> frames_served step s1 fs mss s' \<Longrightarrow> frames_served step s (f # fs) (ms # mss) s'"

inductive_simps frames_served_simps [simp]:
  "frames_served step s [] mss s'"
  "frames_served step s (f # fs) mss s'"

lemma frames_served_length: "frames_served step s fs mss s' \<Longrightarrow> length mss = length fs"
  by (induction rule: frames_served.induct) simp_all

lemma frames_served_keeps:
  assumes "frames_served step s fs mss s'" "I s" "\<And>s f ms s'. step s f ms s' \<Longrightarrow> I s \<Longrightarrow> I s'"
  shows "I s'"
  using assms by (induction rule: frames_served.induct) blast+

lemma sim_writes:
  "write_sync_byte out = out @ svf_msg_bytes Sync"
  "write_actuator_frame a out = out @ svf_msg_bytes (Actuator (actuator_bytes a))"
  "unat n = length d \<Longrightarrow> write_tm_packet d n out = out @ svf_msg_bytes (Tm d)"
proof -
  show "write_tm_packet d n out = out @ svf_msg_bytes (Tm d)" if "unat n = length d"
  proof -
    have "of_nat (length d) = n" unfolding that [symmetric] by simp
    with that show ?thesis by (simp add: write_tm_packet_def frame_bytes_def be_bytes16_def)
  qed
qed (simp_all add: write_sync_byte_def write_actuator_frame_def frame_bytes_def be_bytes16_def)

subsection \<open>Properties\<close>

text \<open>
  C27: What crosses the pipe.  The reference implementation writes a frame with \<open>write_frame\<close>
  on a Linux host.  If the body fits the size \<open>n\<close> the reader is given, and \<open>n\<close> the buffer
  behind it, the reference reader returns the frame with its type, its length and its bytes at
  the start of the buffer and leaves the rest of the stream; the simulator's own reader does
  the same for a frame that has a body, and takes a frame without one for the end of the input.
  Both readers report the end of the input for a frame longer than \<open>n\<close>, and the reference
  reader for a stream that breaks off inside a frame, rather than part of a frame.
\<close>

theorem svf_frame_roundtrip:
  assumes "length d = unat len" "unat n \<le> length buf"
    and "bytes = std_out (write_frame linux_stdio ty d len \<lparr>std_in = [], std_out = []\<rparr>)"
  shows "(if len \<le> n
      then svf_read_frame linux_stdio buf n ol \<lparr>std_in = bytes @ rest, std_out = o'\<rparr>
          = (ty, d @ drop (length d) buf, len, \<lparr>std_in = rest, std_out = o'\<rparr>)
        \<and> (if d = [] then fst (obsw_sim_read_frame buf n (bytes @ rest)) = 0
           else obsw_sim_read_frame buf n (bytes @ rest) = (ty, d @ drop (length d) buf, len, rest))
      else fst (svf_read_frame linux_stdio buf n ol \<lparr>std_in = bytes @ rest, std_out = o'\<rparr>) = 0
        \<and> fst (obsw_sim_read_frame buf n (bytes @ rest)) = 0)
    \<and> (\<forall>k < length bytes. fst (svf_read_frame linux_stdio buf n ol \<lparr>std_in = take k bytes, std_out = o'\<rparr>) = 0)"
proof -
  let ?s = "\<lparr>std_in = bytes @ rest, std_out = o'\<rparr>"
  have b: "bytes = frame_bytes ty d" using linux.written(1) [OF assms(1)] assms(3) by simp
  have len: "of_nat (length d) = len" "length d < 65536" using assms(1) u16_less_65536 [of len] by simp_all
  have m: "memcpy_at buf 0 d (length d) = d @ drop (length d) buf" by (simp add: memcpy_at_def)
  have fits: "svf_read_frame linux_stdio buf n ol ?s = (ty, d @ drop (length d) buf, len, \<lparr>std_in = rest, std_out = o'\<rparr>)"
    if l: "length d \<le> unat n"
  proof -
    obtain s' where s': "svf_read_frame linux_stdio buf n ol ?s = (ty, d @ drop (length d) buf, len, s')"
        "std_in s' = rest" "std_out s' = o'"
      using linux.read_back [of ?s ty d rest n buf ol] l by (auto simp: b m len(1))
    then have "s' = \<lparr>std_in = rest, std_out = o'\<rparr>" by (cases s') simp
    with s'(1) show ?thesis by simp
  qed
  have "len \<le> n \<longleftrightarrow> length d \<le> unat n" by (simp add: assms(1) word_le_nat_alt)
  then show ?thesis
    using fits sim_read_back [of d n buf ty rest] sim_read_empty [of buf n ty rest] sim_read_too_long [of n d buf ty rest]
      linux.read_too_long [of ?s ty d rest n buf ol] linux.read_truncated [where ty = ty and d = d] len(2)
    by (auto simp: b m len(1))
qed

lemma svf_frame_roundtrip_witness:
  "\<exists>bytes. bytes = std_out (write_frame linux_stdio 1 [0xAB, 0xCD] 2 \<lparr>std_in = [], std_out = []\<rparr>)
    \<and> obsw_sim_read_frame [0, 0, 0] 3 (bytes @ [0xFF]) = (1, [0xAB, 0xCD, 0], 2, [0xFF])"
proof -
  have "length [0xAB, 0xCD :: u8] = unat (2 :: u16)" "unat (3 :: u16) \<le> length [0, 0, 0 :: u8]" by simp_all
  from svf_frame_roundtrip [OF this refl, where ty = 1 and rest = "[0xFF]"] show ?thesis by simp
qed

end
