(* ===== verification/Sim_World.thy ===== *)
theory Sim_World
  imports Srdb Tc_Host Watchdog Pus_S6 Pus_S9 Pus_S17
begin

section \<open>The simulator's services\<close>

text \<open>
  \<^verbatim>\<open>sim/main.c\<close>, the static part: the contexts of the services of the host simulator, its
  housekeeping sets, S8 functions, parameter table and routing table, the hooks of the mode
  state machine and the watchdog, and what \<open>main\<close> does before its loop.

  The contexts are the record \<open>sim_world\<close>; unlike in the tasks of the target, one S5 context
  serves the monitoring and the watchdog, it is coupled to the mode state machine, and the S8
  functions change the mode at once.  The hook of SAFE counts the entries in a variable of
  its own.  The lemmas show that every route verifies its commands and that the initial
  world is in order.
\<close>

text \<open>The constants of the reference database that only the simulator uses.\<close>

record sim_srdb = srdb +
  srdb_hk_nominal_hk :: u8
  srdb_hk_dhs_obc_hk :: u8
  srdb_hk_aocs_hk :: u8
  srdb_hk_aocs_state_hk :: u8
  srdb_hk_nominal_hk_sizes :: "u8 list"
  srdb_hk_dhs_obc_hk_sizes :: "u8 list"
  srdb_hk_aocs_hk_sizes :: "u8 list"
  srdb_hk_aocs_state_hk_sizes :: "u8 list"
  srdb_safe_trigger_count :: u8
  srdb_safe_trigger_ids :: "u16 list"
  srdb_event_watchdog_expiry :: u16
  srdb_param_obc_temperature :: u16
  srdb_param_obc_voltage_3v3 :: u16
  srdb_param_obc_voltage_5v :: u16
  srdb_param_watchdog_ticks_remaining :: u16
  srdb_param_orbit_altitude_km :: u16
  srdb_param_orbit_inclination_deg :: u16
  srdb_param_sc_inertia_xx :: u16
  srdb_param_sc_inertia_yy :: u16
  srdb_param_sc_inertia_zz :: u16
  srdb_param_mtq_max_dipole :: u16
  srdb_param_sc_omega_x0 :: u16
  srdb_param_sc_omega_y0 :: u16
  srdb_param_sc_omega_z0 :: u16
  srdb_enum_obc_mode_standby :: u8
  srdb_enum_obc_mode_safe :: u8
  srdb_enum_obc_mode_nominal :: u8
  srdb_enum_obc_watchdog_status_nominal :: u8
  srdb_enum_aocs_controller_off :: u8
  srdb_enum_aocs_controller_bdot :: u8
  srdb_enum_aocs_controller_pd :: u8

type_synonym sim_modes = "u16 obsw_fsm_ctx \<times> u16"

record sim_world =
  sw_env :: tm_env
  sw_s17 :: obsw_s17_ctx
  sw_s20 :: obsw_s20_ctx
  sw_s8 :: "sim_modes obsw_s8_ctx"
  sw_obt :: obsw_obt
  sw_s6 :: obsw_s6_ctx
  sw_s12 :: obsw_s12_ctx
  sw_s5 :: "obsw_s19_ctx option obsw_s5_ctx"
  sw_s19 :: obsw_s19_ctx
  sw_s11 :: obsw_s11_ctx
  sw_s3 :: obsw_s3_ctx
  sw_fsm :: "u16 obsw_fsm_ctx"
  param_safe_entry_count :: u16

subsection \<open>Parts\<close>

type_synonym 'c sim_part = "(sim_world \<Rightarrow> 'c) \<times> ('c \<Rightarrow> sim_world \<Rightarrow> sim_world)"

definition sim_s17 :: "obsw_s17_ctx sim_part" where
  "sim_s17 = (sw_s17, \<lambda>c w. w\<lparr>sw_s17 := c\<rparr>)"
definition sim_s20 :: "obsw_s20_ctx sim_part" where
  "sim_s20 = (sw_s20, \<lambda>c w. w\<lparr>sw_s20 := c\<rparr>)"
definition sim_s8 :: "(sim_modes obsw_s8_ctx \<times> sim_modes) sim_part" where
  "sim_s8 = (\<lambda>w. (sw_s8 w, sw_fsm w, param_safe_entry_count w),
    \<lambda>c w. w\<lparr>sw_s8 := fst c, sw_fsm := fst (snd c), param_safe_entry_count := snd (snd c)\<rparr>)"
definition sim_s9 :: "obsw_s9_ctx sim_part" where
  "sim_s9 = (\<lambda>w. \<lparr>s9_obt = Some (sw_obt w)\<rparr>,
    \<lambda>c w. case s9_obt c of Some t \<Rightarrow> w\<lparr>sw_obt := t\<rparr> | None \<Rightarrow> w)"
definition sim_s6 :: "obsw_s6_ctx sim_part" where
  "sim_s6 = (sw_s6, \<lambda>c w. w\<lparr>sw_s6 := c\<rparr>)"
definition sim_s12 :: "obsw_s12_ctx sim_part" where
  "sim_s12 = (\<lambda>w. (sw_s12 w)\<lparr>s12_params := Some (s20_table (sw_s20 w))\<rparr>,
    \<lambda>c w. w\<lparr>sw_s12 := c\<lparr>s12_params := s12_params (sw_s12 w)\<rparr>\<rparr>)"
definition sim_s19 :: "obsw_s19_ctx sim_part" where
  "sim_s19 = (sw_s19, \<lambda>c w. w\<lparr>sw_s19 := c\<rparr>)"
definition sim_s11 :: "obsw_s11_ctx sim_part" where
  "sim_s11 = (sw_s11, \<lambda>c w. w\<lparr>sw_s11 := c\<rparr>)"
definition sim_s3 :: "obsw_s3_ctx sim_part" where
  "sim_s3 = (\<lambda>w. (sw_s3 w)\<lparr>s3_param_table := s20_table (sw_s20 w)\<rparr>,
    \<lambda>c w. w\<lparr>sw_s3 := c\<lparr>s3_param_table := s3_param_table (sw_s3 w)\<rparr>\<rparr>)"

lemmas sim_part_defs = sim_s17_def sim_s20_def sim_s8_def sim_s9_def sim_s6_def sim_s12_def
  sim_s19_def sim_s11_def sim_s3_def

definition sim_set_env :: "tm_env \<Rightarrow> sim_world \<Rightarrow> sim_world" where
  "sim_set_env e w = w\<lparr>sw_env := e\<rparr>"

definition sim_handler ::
  "'c sim_part \<Rightarrow> (obsw_tc option \<Rightarrow> 'c option \<Rightarrow> tm_env \<Rightarrow> int \<times> 'c option \<times> tm_env)
   \<Rightarrow> sim_world tc_handler" where
  "sim_handler = host_handler sw_env sim_set_env"

lemmas sim_handler_defs = sim_handler_def host_handler_def sim_set_env_def

subsection \<open>Hooks and S8 functions\<close>

definition on_enter_safe_hook :: "u16 \<Rightarrow> u16" where
  "on_enter_safe_hook n = n + 1"

definition sim_fn_recover_nominal ::
  "u8 list option \<Rightarrow> u8 \<Rightarrow> sim_modes \<times> tm_env \<Rightarrow> int \<times> sim_modes \<times> tm_env" where
  "sim_fn_recover_nominal args args_len me =
    (case obsw_fsm_to_nominal (Some (fst (fst me))) (snd (fst me)) of (f, h) \<Rightarrow> (0, (the f, h), snd me))"

definition sim_fn_request_safe ::
  "u8 list option \<Rightarrow> u8 \<Rightarrow> sim_modes \<times> tm_env \<Rightarrow> int \<times> sim_modes \<times> tm_env" where
  "sim_fn_request_safe args args_len me =
    (case obsw_fsm_to_safe (Some (fst (fst me))) (snd (fst me)) of (f, h) \<Rightarrow> (0, (the f, h), snd me))"

definition sim_fn_request_standby ::
  "u8 list option \<Rightarrow> u8 \<Rightarrow> sim_modes \<times> tm_env \<Rightarrow> int \<times> sim_modes \<times> tm_env" where
  "sim_fn_request_standby args args_len me =
    (0, (the (obsw_fsm_to_standby (Some (fst (fst me)))), snd (fst me)), snd me)"

definition sim_s8_table :: "sim_modes obsw_s8_entry list" where
  "sim_s8_table =
    [\<lparr>s8_function_id = 1, s8_fn = sim_fn_recover_nominal\<rparr>,
     \<lparr>s8_function_id = 2, s8_fn = sim_fn_request_safe\<rparr>,
     \<lparr>s8_function_id = 3, s8_fn = sim_fn_request_standby\<rparr>]"

definition sim_s8_ctx :: "sim_modes obsw_s8_ctx" where
  "sim_s8_ctx = \<lparr>s8_table = sim_s8_table, s8_table_len = of_nat (length sim_s8_table)\<rparr>"

text \<open>What an event report through the simulator's S5 context reaches, and where its results go.\<close>

definition sim_s5_env :: "sim_world \<Rightarrow> (u16, obsw_s19_ctx option) s5_env" where
  "sim_s5_env w = \<lparr>s5_store = env_store (sw_env w), s5_fsm = Some (sw_fsm w),
     s5_hooks = param_safe_entry_count w, s5_event_state = Some (sw_s19 w)\<rparr>"

definition sim_s5_put ::
  "obsw_s19_ctx option obsw_s5_ctx option \<Rightarrow> (u16, obsw_s19_ctx option) s5_env \<Rightarrow> sim_world \<Rightarrow> sim_world" where
  "sim_s5_put s e w = w\<lparr>sw_s5 := the s, sw_env := (sw_env w)\<lparr>env_store := s5_store e\<rparr>,
     sw_fsm := the (s5_fsm e), param_safe_entry_count := s5_hooks e, sw_s19 := the (s5_event_state e)\<rparr>"

definition on_watchdog_expiry :: "'a sim_srdb_scheme \<Rightarrow> sim_world \<Rightarrow> sim_world" where
  "on_watchdog_expiry db w =
    (case obsw_s5_report (Some (sw_s5 w)) OBSW_S5_HIGH (srdb_event_watchdog_expiry db) None 0 (sim_s5_env w) of
       (rc, s', e') \<Rightarrow> sim_s5_put s' e' w)"

subsection \<open>Routes\<close>

definition sim_route :: "u8 \<Rightarrow> u8 \<Rightarrow> sim_world tc_handler \<Rightarrow> sim_world obsw_tc_route" where
  "sim_route svc subsvc h =
    \<lparr>rt_apid = 0xFFFF, rt_service = svc, rt_subservice = subsvc, rt_handler = h\<rparr>"

definition sim_routes :: "'a sim_srdb_scheme \<Rightarrow> sim_world obsw_tc_route list" where
  "sim_routes db =
    [sim_route 17 1 (sim_handler sim_s17 obsw_s17_ping),
     sim_route 8 1 (sim_handler sim_s8 obsw_s8_perform),
     sim_route 3 1 (sim_handler sim_s3 obsw_s3_define),
     sim_route 3 3 (sim_handler sim_s3 obsw_s3_delete),
     sim_route 3 5 (sim_handler sim_s3 obsw_s3_enable),
     sim_route 3 6 (sim_handler sim_s3 obsw_s3_disable),
     sim_route 20 1 (sim_handler sim_s20 obsw_s20_set),
     sim_route 20 3 (sim_handler sim_s20 obsw_s20_get),
     sim_route (srdb_tc_set_obt_svc db) (srdb_tc_set_obt_subsvc db) (sim_handler sim_s9 obsw_s9_set_obt),
     sim_route 6 2 (sim_handler sim_s6 obsw_s6_load),
     sim_route 6 5 (sim_handler sim_s6 obsw_s6_check),
     sim_route 6 9 (sim_handler sim_s6 obsw_s6_dump),
     sim_route 12 1 (sim_handler sim_s12 obsw_s12_enable),
     sim_route 12 2 (sim_handler sim_s12 obsw_s12_disable),
     sim_route 12 3 (sim_handler sim_s12 obsw_s12_add),
     sim_route 12 4 (sim_handler sim_s12 obsw_s12_delete),
     sim_route 12 5 (sim_handler sim_s12 obsw_s12_delete_all),
     sim_route 11 4 (sim_handler sim_s11 obsw_s11_insert),
     sim_route 11 5 (sim_handler sim_s11 obsw_s11_delete),
     sim_route 11 6 (sim_handler sim_s11 obsw_s11_delete_all),
     sim_route 11 17 (sim_handler sim_s11 obsw_s11_enable),
     sim_route 11 18 (sim_handler sim_s11 obsw_s11_disable),
     sim_route 19 1 (sim_handler sim_s19 obsw_s19_add),
     sim_route 19 2 (sim_handler sim_s19 obsw_s19_delete),
     sim_route 19 3 (sim_handler sim_s19 obsw_s19_delete_all),
     sim_route 19 4 (sim_handler sim_s19 obsw_s19_enable),
     sim_route 19 5 (sim_handler sim_s19 obsw_s19_disable)]"

definition sim_responder :: "sim_world tc_responder" where
  "sim_responder = host_responder sw_env sim_set_env"

definition sim_gate :: "sim_world tc_gate" where
  "sim_gate tc w = obsw_fsm_tc_gate (Some tc) (Some (sw_fsm w))"

definition sim_dispatcher :: "'a sim_srdb_scheme \<Rightarrow> sim_world obsw_tc_dispatcher" where
  "sim_dispatcher db =
    (let d0 = \<lparr>d_table = [], d_table_len = 0, d_responder = (\<lambda>_ _ w. w), d_gate = None\<rparr>;
         d1 = snd (obsw_tc_dispatcher_init (Some d0) (Some (sim_routes db))
                (of_nat (length (sim_routes db))) (Some sim_responder))
     in the (snd (obsw_tc_dispatcher_set_gate d1 (Some sim_gate))))"

subsection \<open>Parameters\<close>

text \<open>
  The initial values of type \<^verbatim>\<open>float\<close> are the bits of 1e4, 15, 0.5, 0.1, 550, 97.4, 2e-3,
  2.5e-3, 1.5e-3, 10 and 0.5.
\<close>

definition sim_s20_params :: "'a sim_srdb_scheme \<Rightarrow> obsw_s20_param list" where
  "sim_s20_params db = map (\<lambda>(i, v, t). \<lparr>s20_param_id = i, s20_value = v, s20_type = t\<rparr>)
    [(srdb_param_obc_temperature db, 0, OBSW_S20_U32),
     (srdb_param_obc_voltage_3v3 db, 3300, OBSW_S20_U32),
     (srdb_param_obc_voltage_5v db, 5000, OBSW_S20_U32),
     (srdb_param_obc_uptime db, 0, OBSW_S20_U32),
     (srdb_param_safe_mode_entry_count db, 0, OBSW_S20_U32),
     (srdb_param_watchdog_kick_count db, 0, OBSW_S20_U32),
     (srdb_param_watchdog_ticks_remaining db, 30, OBSW_S20_U32),
     (srdb_param_bdot_gain db, 0x461C4000, OBSW_S20_F32),
     (srdb_param_bdot_hpf_tau db, 0x41700000, OBSW_S20_F32),
     (srdb_param_adcs_kp db, 0x3F000000, OBSW_S20_F32),
     (srdb_param_adcs_kd db, 0x3DCCCCCD, OBSW_S20_F32),
     (srdb_param_orbit_altitude_km db, 0x44098000, OBSW_S20_F32),
     (srdb_param_orbit_inclination_deg db, 0x42C2CCCD, OBSW_S20_F32),
     (srdb_param_sc_inertia_xx db, 0x3B03126F, OBSW_S20_F32),
     (srdb_param_sc_inertia_yy db, 0x3B23D70A, OBSW_S20_F32),
     (srdb_param_sc_inertia_zz db, 0x3AC49BA6, OBSW_S20_F32),
     (srdb_param_mtq_max_dipole db, 0x41200000, OBSW_S20_F32),
     (srdb_param_sc_omega_x0 db, 0x3F000000, OBSW_S20_F32),
     (srdb_param_sc_omega_y0 db, 0x3F000000, OBSW_S20_F32),
     (srdb_param_sc_omega_z0 db, 0x3F000000, OBSW_S20_F32)]"

definition s20_get_f32 :: "u16 \<Rightarrow> f32 \<Rightarrow> sim_world \<Rightarrow> f32" where
  "s20_get_f32 param_id default_val w =
    (case find_index (\<lambda>p. s20_param_id p = param_id) (s20_table (sw_s20 w)) of
       Some i \<Rightarrow> s20_value (s20_table (sw_s20 w) ! i) | None \<Rightarrow> default_val)"

subsection \<open>Housekeeping\<close>

text \<open>The variables the boot-time sets point to; a signed one is its bits.\<close>

record sim_hk =
  hk_obc_temperature :: u16
  hk_obc_v3v3 :: u16
  hk_obc_v5v :: u16
  hk_obc_uptime :: u32
  param_wd_kick_count :: u32
  hk_wd_ticks_remaining :: u32
  param_obc_mode :: u8
  param_obc_obt :: u32
  param_obc_wd_status :: u8
  param_obc_mem_pct :: u8
  param_obc_health :: u8
  param_obc_reset_count :: u16
  param_obc_cpu_load :: u8
  hk_bdot_gain :: f32
  hk_adcs_kp :: f32
  hk_adcs_kd :: f32
  hk_aocs_err :: f32
  hk_aocs_omega :: f32
  hk_aocs_ctrl :: u8

definition sim_hk0 :: sim_hk where
  "sim_hk0 = \<lparr>hk_obc_temperature = 0, hk_obc_v3v3 = 0, hk_obc_v5v = 0, hk_obc_uptime = 0,
     param_wd_kick_count = 0, hk_wd_ticks_remaining = 0, param_obc_mode = 0, param_obc_obt = 0,
     param_obc_wd_status = 0, param_obc_mem_pct = 0, param_obc_health = 0, param_obc_reset_count = 0,
     param_obc_cpu_load = 0, hk_bdot_gain = 0, hk_adcs_kp = 0, hk_adcs_kd = 0, hk_aocs_err = 0,
     hk_aocs_omega = 0, hk_aocs_ctrl = 0\<rparr>"

text \<open>Their addresses are their numbers in the order of the sets.\<close>

definition sim_vars :: "sim_hk \<Rightarrow> u16 \<Rightarrow> nat \<Rightarrow> u32" where
  "sim_vars hk safe_entries a =
    (let vs = [ucast (hk_obc_temperature hk), ucast (hk_obc_v3v3 hk), ucast (hk_obc_v5v hk), hk_obc_uptime hk,
               ucast safe_entries, param_wd_kick_count hk, hk_wd_ticks_remaining hk,
               ucast (param_obc_mode hk), param_obc_obt hk, ucast (param_obc_wd_status hk),
               ucast (param_obc_mem_pct hk), ucast (param_obc_health hk), ucast (param_obc_reset_count hk),
               ucast (param_obc_cpu_load hk),
               hk_bdot_gain hk, hk_adcs_kp hk, hk_adcs_kd hk,
               hk_aocs_err hk, hk_aocs_omega hk, ucast (hk_aocs_ctrl hk)]
     in if a < length vs then vs ! a else 0)"

text \<open>A set whose descriptors are the variables from \<open>k\<close> on, before their widths are bound.\<close>

definition sim_hk_set :: "u8 \<Rightarrow> nat \<Rightarrow> nat \<Rightarrow> u32 \<Rightarrow> obsw_s3_set" where
  "sim_hk_set sid k n interval =
    \<lparr>set_id = sid,
     set_params = Boot (map (\<lambda>a. \<lparr>p_ptr = App_Var a, p_size = OBSW_S3_PARAM_U8\<rparr>) [k..<k + n]),
     set_param_count = of_nat n, set_interval = interval, set_countdown = interval, set_enabled = True\<rparr>"

definition sim_hk_sets :: "'a sim_srdb_scheme \<Rightarrow> obsw_s3_set list" where
  "sim_hk_sets db =
    [sim_hk_set (srdb_hk_nominal_hk db) 0 4 10, sim_hk_set (srdb_hk_fdir_hk db) 4 3 60,
     sim_hk_set (srdb_hk_dhs_obc_hk db) 7 7 10, sim_hk_set (srdb_hk_aocs_hk db) 14 3 5,
     sim_hk_set (srdb_hk_aocs_state_hk db) 17 3 5]
    @ replicate 4 \<lparr>set_id = 0, set_params = Boot [], set_param_count = 0, set_interval = 0,
                    set_countdown = 0, set_enabled = False\<rparr>"

definition sim_hk_sizes :: "'a sim_srdb_scheme \<Rightarrow> u8 list list" where
  "sim_hk_sizes db = [srdb_hk_nominal_hk_sizes db, srdb_hk_fdir_hk_sizes db, srdb_hk_dhs_obc_hk_sizes db,
     srdb_hk_aocs_hk_sizes db, srdb_hk_aocs_state_hk_sizes db]"

text \<open>The loop that binds the widths; \<open>None\<close> where \<open>main\<close> returns 1.\<close>

fun sim_bind :: "u8 list list \<Rightarrow> obsw_s3_set list \<Rightarrow> obsw_s3_set list option" where
  "sim_bind [] xs = Some xs"
| "sim_bind (sz # szs) [] = None"
| "sim_bind (sz # szs) (x # xs) =
    (case obsw_s3_bind_sizes (Some x) (Some sz) (set_param_count x) of
       (ok, y) \<Rightarrow> if \<not> ok then None else map_option (Cons (the y)) (sim_bind szs xs))"

subsection \<open>Initialisation\<close>

definition sim_fsm_config :: "'a sim_srdb_scheme \<Rightarrow> u16 obsw_fsm_config" where
  "sim_fsm_config db =
    \<lparr>on_enter_safe = Some on_enter_safe_hook, on_exit_safe = None,
     safe_tc_whitelist = Some (srdb_safe_tc_whitelist db), whitelist_len = srdb_safe_tc_count db\<rparr>"

definition sim_s6_regions :: "nat \<Rightarrow> obsw_s6_region list" where
  "sim_s6_regions patch_ram =
    [\<lparr>rg_start = 0, rg_size = 4096, rg_base = patch_ram,
      rg_access = OBSW_S6_ACCESS_READ OR OBSW_S6_ACCESS_WRITE\<rparr>]"

text \<open>
  The mode state machine starts in STANDBY and is put into SAFE at once, which counts as an
  entry.  \<open>patch_ram\<close> is the address of the patch memory, \<open>mem\<close> the memory; the static objects
  are zero.
\<close>

definition sim_main_init :: "'a sim_srdb_scheme \<Rightarrow> nat \<Rightarrow> (nat \<Rightarrow> u8) \<Rightarrow> sim_world option" where
  "sim_main_init db patch_ram mem =
    (let apid = srdb_apid_default db; params = sim_s20_params db;
         store = snd (obsw_tm_store_init (Some tm_store_bss));
         fsm0 = \<lparr>fsm_mode = OBSW_FSM_NOMINAL, fsm_config = \<lparr>on_enter_safe = None, on_exit_safe = None,
                   safe_tc_whitelist = None, whitelist_len = 0\<rparr>, safe_entry_count = 0\<rparr>;
         (fsm, entries) = obsw_fsm_to_safe (snd (obsw_fsm_init (Some fsm0) (Some (sim_fsm_config db)))) 0;
         act0 = \<lparr>act_request_id = 0, act_coarse = 0, act_fine = 0, act_tc_len = 0, act_tc = replicate 64 0\<rparr>;
         mon0 = \<lparr>mon_param_id = 0, mon_low = 0, mon_high = 0, mon_event_low = 0, mon_event_high = 0,
                 mon_severity = 0, mon_in_low = False, mon_in_high = False\<rparr>;
         def0 = \<lparr>def_event_id = 0, def_action_len = 0, def_action = replicate 64 0\<rparr>
     in case sim_bind (sim_hk_sizes db) (sim_hk_sets db) of
       None \<Rightarrow> None
     | Some sets \<Rightarrow> Some
        \<lparr>sw_env = \<lparr>env_s1 = Some \<lparr>s1_apid = apid, s1_msg_counter = 0, s1_timestamp = 0\<rparr>, env_store = store\<rparr>,
         sw_s17 = \<lparr>s17_apid = apid, s17_msg_counter = 0, s17_timestamp = 0\<rparr>,
         sw_s20 = \<lparr>s20_apid = apid, s20_msg_counter = 0, s20_timestamp = 0, s20_table = params,
                   s20_table_len = of_nat (length params)\<rparr>,
         sw_s8 = sim_s8_ctx,
         sw_obt = \<lparr>obt_coarse = 0, obt_fine = 0, obt_rem = 0\<rparr>,
         sw_s6 = \<lparr>s6_apid = apid, s6_msg_counter = 0, s6_timestamp = 0,
                  s6_regions = Some (sim_s6_regions patch_ram),
                  s6_region_count = of_nat (length (sim_s6_regions patch_ram)), s6_mem = mem\<rparr>,
         sw_s12 = the (obsw_s12_init (Some \<lparr>s12_params = None, s12_param_count = 0, s12_defs = [],
                    s12_capacity = 0, s12_count = 0, s12_enabled = False\<rparr>) (Some params)
                    (of_nat (length params)) (Some (replicate 16 mon0)) 16),
         sw_s5 = \<lparr>s5_apid = apid, s5_msg_counter = 0, s5_timestamp = 0,
                  s5_safe_trigger_ids = foldl (\<lambda>t i. t[i := srdb_safe_trigger_ids db ! i]) (replicate 8 0)
                    [0..<unat (srdb_safe_trigger_count db)],
                  s5_safe_trigger_count = srdb_safe_trigger_count db,
                  s5_on_event = Some obsw_s19_on_event\<rparr>,
         sw_s19 = the (obsw_s19_init (Some \<lparr>s19_defs = [], s19_capacity = 0, s19_count = 0,
                    s19_enabled = False, s19_queue = replicate 4 0, s19_queued = 0, s19_dropped = 0\<rparr>)
                    (Some (replicate 8 def0)) 8),
         sw_s11 = the (obsw_s11_init (Some \<lparr>s11_acts = [], s11_capacity = 0, s11_count = 0,
                    s11_next_id = 0, s11_enabled = False\<rparr>) (Some (replicate 8 act0)) 8),
         sw_s3 = \<lparr>s3_apid = apid, s3_msg_counter = 0, s3_timestamp = 0, s3_sets = sets, s3_set_count = 5,
                  s3_set_capacity = 9,
                  s3_param_pool = Some (replicate 32 \<lparr>p_ptr = App_Var 0, p_size = OBSW_S3_PARAM_U8\<rparr>),
                  s3_pool_len = 32, s3_pool_used = 0, s3_param_table = params,
                  s3_param_table_len = of_nat (length params), s3_vars = (\<lambda>_. 0)\<rparr>,
         sw_fsm = the fsm,
         param_safe_entry_count = entries\<rparr>)"

subsection \<open>The invariant of the world\<close>

text \<open>
  What keeps the state machine's shape is part of it: its configuration never changes, so
  the hook and the whitelist stay those of \<open>main\<close>.
\<close>

definition sim_fsm_ok :: "'a sim_srdb_scheme \<Rightarrow> u16 obsw_fsm_ctx \<Rightarrow> bool" where
  "sim_fsm_ok db f \<longleftrightarrow> fsm_config f = sim_fsm_config db"

definition sim_s8_ok :: "'a sim_srdb_scheme \<Rightarrow> sim_modes obsw_s8_ctx \<times> sim_modes \<Rightarrow> bool" where
  "sim_s8_ok db s \<longleftrightarrow> fst s = sim_s8_ctx \<and> sim_fsm_ok db (fst (snd s))"

definition sim_wf :: "'a sim_srdb_scheme \<Rightarrow> sim_world \<Rightarrow> bool" where
  "sim_wf db w \<longleftrightarrow> tm_ok (env_store (sw_env w)) \<and> env_store (sw_env w) \<noteq> None
    \<and> s20_table_ids (map s20_param_id (sim_s20_params db)) 20 (sw_s20 w)
    \<and> sw_s8 w = sim_s8_ctx \<and> sim_fsm_ok db (sw_fsm w)
    \<and> s5_on_event (sw_s5 w) = Some obsw_s19_on_event
    \<and> s12_wf (fst sim_s12 w) \<and> s19_wf (sw_s19 w) \<and> s11_wf (sw_s11 w) \<and> s3_wf (fst sim_s3 w)"

lemmas sim_part_simps = sim_wf_def sim_part_defs sim_set_env_def tm_next_def

interpretation sim: host_world sw_env sim_set_env "sim_wf db" for db
  by unfold_locales (simp_all add: sim_part_simps)

interpretation sp17: host_part sw_env sim_set_env "sim_wf db" sim_s17 "\<lambda>_. True" for db
  by unfold_locales (simp_all add: sim_part_simps)
interpretation sp9: host_part sw_env sim_set_env "sim_wf db" sim_s9 "\<lambda>_. True" for db
  by unfold_locales (simp_all add: sim_part_simps split: option.split)
interpretation sp6: host_part sw_env sim_set_env "sim_wf db" sim_s6 "\<lambda>_. True" for db
  by unfold_locales (simp_all add: sim_part_simps)
interpretation sp19: host_part sw_env sim_set_env "sim_wf db" sim_s19 s19_wf for db
  by unfold_locales (simp_all add: sim_part_simps)
interpretation sp11: host_part sw_env sim_set_env "sim_wf db" sim_s11 s11_wf for db
  by unfold_locales (simp_all add: sim_part_simps)
interpretation sp3: host_part sw_env sim_set_env "sim_wf db" sim_s3 s3_wf for db
  by unfold_locales (simp_all add: sim_part_simps)

lemmas sim_fn_defs = sim_fn_recover_nominal_def sim_fn_request_safe_def sim_fn_request_standby_def
  obsw_fsm_to_nominal_def obsw_fsm_to_safe_def obsw_fsm_to_standby_def

text \<open>Each S8 function, on any machine: the mode it asks for, and nothing of the configuration.\<close>

lemma sim_fn_effect:
  "sim_fn_recover_nominal a n ((f, h), e) = (0, (f\<lparr>fsm_mode := OBSW_FSM_NOMINAL\<rparr>,
     if fsm_mode f = OBSW_FSM_SAFE then run_hook (on_exit_safe (fsm_config f)) h else h), e)"
  "sim_fn_request_safe a n ((f, h), e) = (0, (if fsm_mode f = OBSW_FSM_SAFE then (f, h) else
     (f\<lparr>fsm_mode := OBSW_FSM_SAFE, safe_entry_count := safe_entry_count f + 1\<rparr>,
      run_hook (on_enter_safe (fsm_config f)) h)), e)"
  "sim_fn_request_standby a n ((f, h), e) = (0, (f\<lparr>fsm_mode := OBSW_FSM_STANDBY\<rparr>, h), e)"
  by (cases f; simp add: sim_fn_defs)+

lemma sim_s8_inv: "s8_inv (\<lambda>m. sim_fsm_ok db (fst m)) (sim_s8_ctx, m) \<longleftrightarrow> sim_fsm_ok db (fst m)"
proof -
  have ok: "s8_fn_ok (\<lambda>m. sim_fsm_ok db (fst m)) en" if "en \<in> set sim_s8_table" for en
    using that
    by (auto simp: sim_s8_table_def s8_fn_ok_def sim_fn_effect sim_fsm_ok_def intro!: exI [of _ "[]"] env_does_nil)
  then show ?thesis by (auto simp: s8_inv_def sim_s8_ctx_def list_all_iff)
qed

lemma sim_s8_ok_eq: "sim_s8_ok db = (\<lambda>s. s8_inv (\<lambda>m. sim_fsm_ok db (fst m)) s \<and> fst s = sim_s8_ctx)"
proof
  fix s :: "sim_modes obsw_s8_ctx \<times> sim_modes"
  show "sim_s8_ok db s = (s8_inv (\<lambda>m. sim_fsm_ok db (fst m)) s \<and> fst s = sim_s8_ctx)"
    using sim_s8_inv [of db "snd s"] by (cases s) (auto simp: sim_s8_ok_def)
qed

interpretation sp8: host_part sw_env sim_set_env "sim_wf db" sim_s8 "sim_s8_ok db" for db
  by unfold_locales (simp_all add: sim_part_simps sim_s8_ok_def)

interpretation sp12: host_part sw_env sim_set_env "sim_wf db" sim_s12
  "\<lambda>s. s12_wf s \<and> s12_param_ids s = Some (map s20_param_id (sim_s20_params db))" for db
proof unfold_locales
  fix w c and e :: tm_env
  let ?ids = "map s20_param_id (sim_s20_params db)"
  assume w: "sim_wf db w" and c: "s12_wf c \<and> s12_param_ids c = Some ?ids" and e: "tm_next (env_store (sw_env w)) (env_store e)"
  then obtain t where t: "s12_params c = Some t" "map s20_param_id t = ?ids" by (auto simp: s12_param_ids_def)
  have "s12_wf (c\<lparr>s12_params := Some (s20_table (sw_s20 w))\<rparr>) = s12_wf (c\<lparr>s12_params := Some t\<rparr>)"
    using w t(2) by (intro s12_wf_ids) (simp add: sim_wf_def s20_table_ids_def)
  moreover have "c\<lparr>s12_params := Some t\<rparr> = c" using t(1) by (cases c) simp
  ultimately show "sim_wf db (sim_set_env e (snd sim_s12 c w))"
    using w c e by (simp add: sim_part_simps)
qed (simp_all add: sim_part_simps s12_param_ids_def s20_table_ids_def)

interpretation sp20: host_part sw_env sim_set_env "sim_wf db" sim_s20
  "s20_table_ids (map s20_param_id (sim_s20_params db)) 20" for db
proof unfold_locales
  fix w c and e :: tm_env
  let ?ids = "map s20_param_id (sim_s20_params db)"
  assume "sim_wf db w" "s20_table_ids ?ids 20 c" "tm_next (env_store (sw_env w)) (env_store e)"
  moreover from this have "s12_wf ((sw_s12 w)\<lparr>s12_params := Some (s20_table c)\<rparr>)"
    using s12_wf_ids [of "s20_table c" "s20_table (sw_s20 w)" "sw_s12 w"]
    by (simp add: sim_wf_def s20_table_ids_def sim_s12_def)
  ultimately show "sim_wf db (sim_set_env e (snd sim_s20 c w))"
    by (simp add: sim_part_simps)
qed (simp_all add: sim_part_simps)

subsection \<open>Every route is verified\<close>

lemmas sim_services =
  sp3.hosted [OF s3_enable.s1_service_axioms] sp3.hosted [OF s3_disable.s1_service_axioms]
  sp3.hosted [OF s3_define.s1_service_axioms] sp3.hosted [OF s3_delete.s1_service_axioms]
  sp8.hosted [OF s8_framed [where I = "\<lambda>m. sim_fsm_ok db (fst m)" and k = sim_s8_ctx for db, folded sim_s8_ok_eq]]
  sp17.hosted [OF s17.s1_service_axioms]
  sp20.hosted [OF s20_set_ids.s1_service_axioms] sp20.hosted [OF s20_get_ids.s1_service_axioms]
  sp9.hosted [OF s9.s1_service_axioms]
  s12_framed [THEN sp12.hosted]
  sp11.hosted [OF s11_insert.s1_service_axioms] sp11.hosted [OF s11_delete.s1_service_axioms]
  sp11.hosted [OF s11_delete_all.s1_service_axioms] sp11.hosted [OF s11_enable.s1_service_axioms]
  sp11.hosted [OF s11_disable.s1_service_axioms]
  sp19.hosted [OF s19_add.s1_service_axioms] sp19.hosted [OF s19_delete.s1_service_axioms]
  sp19.hosted [OF s19_delete_all.s1_service_axioms] sp19.hosted [OF s19_enable.s1_service_axioms]
  sp19.hosted [OF s19_disable.s1_service_axioms]
  sp6.hosted [OF s6_load.s1_service_axioms] sp6.hosted [OF s6_check.s1_service_axioms]
  sp6.hosted [OF s6_dump.s1_service_axioms]

lemma sim_routes_handled:
  assumes "sim_wf db w" "tc_wf tc" "r \<in> set (sim_routes db)"
  shows "host_handled sw_env sim_set_env (sim_wf db) tc w (rt_handler r tc respond w)"
  using assms(3) sim_services [OF assms(1,2)] by (auto simp: sim_routes_def sim_route_def sim_handler_def)

lemma length_sim_routes [simp]: "length (sim_routes db) = 27"
  by (simp add: sim_routes_def)

lemma sim_dispatcher_simps [simp]:
  "d_table (sim_dispatcher db) = sim_routes db" "d_table_len (sim_dispatcher db) = 27"
  "d_responder (sim_dispatcher db) = sim_responder" "d_gate (sim_dispatcher db) = Some sim_gate"
  by (simp_all add: sim_dispatcher_def obsw_tc_dispatcher_init_def obsw_tc_dispatcher_set_gate_def
      sim_routes_def Let_def)

interpretation sim_disp: host_dispatcher sw_env sim_set_env "sim_wf db" "sim_dispatcher db" sim_gate for db
  by unfold_locales (use sim_routes_handled in \<open>simp_all add: sim_responder_def [symmetric]\<close>)

interpretation sim_sched: schedule_host "sim_dispatcher db" "sim_wf db" sim_s11 for db
  by unfold_locales (simp_all add: sim_part_simps)

interpretation sim_act: action_host "sim_dispatcher db" "sim_wf db" "fst sim_s19" "snd sim_s19" for db
  by unfold_locales (simp_all add: sim_part_simps)

end
