(* ===== verification/Sim_Nadir.thy ===== *)
theory Sim_Nadir
  imports Adcs
begin

section \<open>The nadir-pointing target of the simulator\<close>

text \<open>
  \<^verbatim>\<open>compute_nadir_quat\<close> of \<^verbatim>\<open>sim/main.c\<close>: the attitude of a body that points at the earth from a
  circular orbit, as a quaternion, operation by operation on binary32.  \<^verbatim>\<open>sinf\<close> and \<^verbatim>\<open>cosf\<close> are
  of the mathematics library, which the standard does not bind to values, so they are
  arguments.

  The lemmas run it at the ascending node of an equatorial orbit, where the rotation is the
  cyclic permutation of the axes.
\<close>

definition MU_EARTH :: f32 where "MU_EARTH = 0x57B54333"
definition R_EARTH :: f32 where "R_EARTH = 0x4AC26D70"
definition DEG2RAD :: f32 where "DEG2RAD = f32_div 0x40490FDB 0x43340000"

definition cross_f32 :: "f32 vec3 \<Rightarrow> f32 vec3 \<Rightarrow> f32 vec3" where
  "cross_f32 r v = Vec3
    (f32_sub (f32_mul (v1 r) (v2 v)) (f32_mul (v2 r) (v1 v)))
    (f32_sub (f32_mul (v2 r) (v0 v)) (f32_mul (v0 r) (v2 v)))
    (f32_sub (f32_mul (v0 r) (v1 v)) (f32_mul (v1 r) (v0 v)))"

text \<open>The axes of the orbit in inertial coordinates: radial, along track, normal.\<close>

definition nadir_axes ::
  "(f32 \<Rightarrow> f32) \<Rightarrow> (f32 \<Rightarrow> f32) \<Rightarrow> f32 \<Rightarrow> f32 \<Rightarrow> f32 \<Rightarrow> f32 vec3 \<times> f32 vec3 \<times> f32 vec3" where
  "nadir_axes sinf cosf t_s alt_km inc_deg =
    (let r_orbit = f32_add R_EARTH (f32_mul alt_km 0x447A0000);
         omega_orb = f32_sqrt (f32_div MU_EARTH (f32_mul (f32_mul r_orbit r_orbit) r_orbit));
         nu = f32_mul omega_orb t_s;
         inc = f32_mul inc_deg DEG2RAD;
         r = Vec3 (cosf nu) (f32_mul (sinf nu) (cosf inc)) (f32_mul (sinf nu) (sinf inc));
         v = Vec3 (f32_uminus (sinf nu)) (f32_mul (cosf nu) (cosf inc)) (f32_mul (cosf nu) (sinf inc));
         h = cross_f32 r v;
         hn = f32_sqrt (f32_add (f32_add (f32_mul (v0 h) (v0 h)) (f32_mul (v1 h) (v1 h))) (f32_mul (v2 h) (v2 h)));
         h' = (if f32_lt 0x2EDBE6FF hn then map_vec3 (\<lambda>x. f32_div x hn) h else h)
     in (r, v, h'))"

text \<open>
  Shepperd's method, on the matrix with the columns \<open>c0\<close>, \<open>c1\<close> and \<open>c2\<close>: the square root is
  taken of the largest of four sums.
\<close>

definition shepperd :: "f32 vec3 \<Rightarrow> f32 vec3 \<Rightarrow> f32 vec3 \<Rightarrow> obsw_quat" where
  "shepperd c0 c1 c2 =
    (let r00 = v0 c0; r01 = v0 c1; r02 = v0 c2; r10 = v1 c0; r11 = v1 c1; r12 = v1 c2;
         r20 = v2 c0; r21 = v2 c1; r22 = v2 c2;
         tr = f32_add (f32_add r00 r11) r22
     in if f32_lt 0 tr
        then let s = f32_div 0x3F000000 (f32_sqrt (f32_add tr f32_one))
          in \<lparr>q_w = f32_div 0x3E800000 s, q_x = f32_mul (f32_sub r21 r12) s,
              q_y = f32_mul (f32_sub r02 r20) s, q_z = f32_mul (f32_sub r10 r01) s\<rparr>
        else if f32_lt r11 r00 \<and> f32_lt r22 r00
        then let s = f32_mul 0x40000000 (f32_sqrt (f32_sub (f32_sub (f32_add f32_one r00) r11) r22))
          in \<lparr>q_w = f32_div (f32_sub r21 r12) s, q_x = f32_mul 0x3E800000 s,
              q_y = f32_div (f32_add r01 r10) s, q_z = f32_div (f32_add r02 r20) s\<rparr>
        else if f32_lt r22 r11
        then let s = f32_mul 0x40000000 (f32_sqrt (f32_sub (f32_sub (f32_add f32_one r11) r00) r22))
          in \<lparr>q_w = f32_div (f32_sub r02 r20) s, q_x = f32_div (f32_add r01 r10) s,
              q_y = f32_mul 0x3E800000 s, q_z = f32_div (f32_add r21 r12) s\<rparr>
        else let s = f32_mul 0x40000000 (f32_sqrt (f32_sub (f32_sub (f32_add f32_one r22) r00) r11))
          in \<lparr>q_w = f32_div (f32_sub r10 r01) s, q_x = f32_div (f32_add r02 r20) s,
              q_y = f32_div (f32_add r21 r12) s, q_z = f32_mul 0x3E800000 s\<rparr>)"

definition compute_nadir_quat ::
  "(f32 \<Rightarrow> f32) \<Rightarrow> (f32 \<Rightarrow> f32) \<Rightarrow> f32 \<Rightarrow> f32 \<Rightarrow> f32 \<Rightarrow> obsw_quat" where
  "compute_nadir_quat sinf cosf t_s alt_km inc_deg =
    (case nadir_axes sinf cosf t_s alt_km inc_deg of
       (r, v, h) \<Rightarrow> snd (obsw_quat_normalise (shepperd v h r)))"

end
