(* ===== verification/Tm_Drain.thy ===== *)
theory Tm_Drain
  imports Pus_S1
begin

section \<open>Draining the TM store\<close>

text \<open>
  The loop with which every main program sends its telemetry:
  \<^verbatim>\<open>while (obsw_tm_store_dequeue(&store, pkt, sizeof(pkt), &plen) == OBSW_TM_OK) write(pkt, plen);\<close>
  The buffer's size and the way a packet is written differ between the programs.  The fuel is
  the number of slots; a store in order, whose packets fit the buffer, is empty before it is
  used up.
\<close>

fun tm_drain_loop ::
  "(u8 list \<Rightarrow> u16 \<Rightarrow> 'o \<Rightarrow> 'o) \<Rightarrow> u64 \<Rightarrow> nat \<Rightarrow> u8 list \<Rightarrow> u16 \<Rightarrow> obsw_tm_store option \<times> 'o \<Rightarrow> obsw_tm_store option \<times> 'o" where
  "tm_drain_loop wr cap 0 pkt plen so = so"
| "tm_drain_loop wr cap (Suc n) pkt plen so =
    (case obsw_tm_store_dequeue (fst so) (Some pkt) cap (Some plen) of
       (rc, store, pkt', plen') \<Rightarrow>
         if rc = OBSW_TM_OK
         then tm_drain_loop wr cap n (the pkt') (the plen') (store, wr (the pkt') (the plen') (snd so))
         else (store, snd so))"

text \<open>The loop on a fresh buffer.\<close>

definition tm_drain ::
  "(u8 list \<Rightarrow> u16 \<Rightarrow> 'o \<Rightarrow> 'o) \<Rightarrow> u64 \<Rightarrow> obsw_tm_store option \<times> 'o \<Rightarrow> obsw_tm_store option \<times> 'o" where
  "tm_drain wr cap so = tm_drain_loop wr cap 32 (replicate (unat cap) 0) 0 so"

lemma tm_queue_packet_length: "tm_ok s \<Longrightarrow> x \<in> set (tm_queue s) \<Longrightarrow> length x \<le> 1024"
  by (cases s) (auto dest: store_packets_length_le)

lemma dequeue_empty: "tm_ok s \<Longrightarrow> tm_queue s = [] \<Longrightarrow>
  \<exists>rc. obsw_tm_store_dequeue s (Some b) n (Some l) = (rc, s, Some b, Some l) \<and> rc \<noteq> OBSW_TM_OK"
proof (cases s)
  case (Some st)
  assume "tm_ok s" "tm_queue s = []"
  then have "ts_head st = ts_tail st"
    using Some store_empty_iff [of st] length_store_packets [of st] by simp
  then show ?thesis by (simp add: Some obsw_tm_store_dequeue_def)
qed (simp add: obsw_tm_store_dequeue_def)

text \<open>A writer that sends the bytes \<open>msg d\<close> for a packet \<open>d\<close>.\<close>

definition tm_writer :: "(u8 list \<Rightarrow> u16 \<Rightarrow> u8 list \<Rightarrow> u8 list) \<Rightarrow> (u8 list \<Rightarrow> u8 list) \<Rightarrow> bool" where
  "tm_writer wr msg \<longleftrightarrow> (\<forall>p l out. unat l \<le> length p \<longrightarrow> wr p l out = out @ msg (take (unat l) p))"

lemma tm_drain_loop_all:
  assumes "tm_writer wr msg"
    and "tm_ok store" "length pkt = unat cap" "\<forall>x \<in> set (tm_queue store). length x \<le> unat cap"
    and "length (tm_queue store) < n"
  shows "\<exists>store'. tm_drain_loop wr cap n pkt plen (store, out) = (store', out @ concat (map msg (tm_queue store)))
    \<and> tm_ok store' \<and> tm_queue store' = [] \<and> (store' = None \<longleftrightarrow> store = None)"
  using assms(2-)
proof (induction n arbitrary: store pkt plen out)
  case (Suc n)
  show ?case
  proof (cases "tm_queue store")
    case Nil
    with dequeue_empty [OF Suc.prems(1) Nil, of pkt cap plen] Suc.prems(1) show ?thesis by auto
  next
    case (Cons x xs)
    then obtain st where st: "store = Some st" by (cases store) auto
    have x: "length x \<le> unat cap" using Suc.prems(3) Cons by simp
    obtain st' where d: "obsw_tm_store_dequeue (Some st) (Some pkt) cap (Some plen)
        = (OBSW_TM_OK, Some st', Some (memcpy_at pkt 0 x (length x)), Some (of_nat (length x)))"
      and st': "store_wf st'" "store_packets st' = xs"
      using store_dequeue_spec [of st x xs cap pkt plen] Suc.prems(1,2) Cons st x by auto
    let ?p = "memcpy_at pkt 0 x (length x)"
    have len: "length ?p = unat cap" using x Suc.prems(2) by simp
    have l: "unat (of_nat (length x) :: u16) = length x"
      using tm_queue_packet_length [OF Suc.prems(1), of x] Cons by (intro unat_of_nat_small) simp
    have "take (length x) ?p = x" using take_memcpy_at_0 [of "length x" x pkt] by simp
    then have w: "wr ?p (of_nat (length x)) out = out @ msg x"
      using assms(1) l len x by (simp add: tm_writer_def)
    have "length (tm_queue (Some st')) < n" using st' Suc.prems(4) Cons by simp
    from Suc.IH [OF _ len _ this, of "of_nat (length x)" "out @ msg x"] st' Suc.prems(3) Cons
    show ?thesis using d st w by auto
  qed
qed simp

lemma tm_drain_all:
  assumes "tm_writer wr msg" "tm_ok store" "\<forall>x \<in> set (tm_queue store). length x \<le> unat cap"
  obtains store' where "tm_drain wr cap (store, out) = (store', out @ concat (map msg (tm_queue store)))"
    "tm_ok store'" "tm_queue store' = []" "store' = None \<longleftrightarrow> store = None"
proof -
  have "length (tm_queue store) < 32" using tm_queue_length [of store] by simp
  from tm_drain_loop_all [OF assms(1,2) _ assms(3) this, of "replicate (unat cap) 0" 0 out] that
  show thesis by (auto simp: tm_drain_def)
qed

text \<open>A packet longer than the buffer stops the loop and stays at the head, as does all behind it.\<close>

lemma tm_drain_stuck:
  assumes "tm_ok store" "tm_queue store = x # xs" "unat cap < length x"
  shows "tm_drain wr cap (store, out) = (store, out)"
proof -
  obtain st where st: "store = Some st" using assms(2) by (cases store) auto
  have "obsw_tm_store_dequeue (Some st) (Some (replicate (unat cap) 0)) cap (Some 0)
      = (OBSW_TM_ERR_TOO_LARGE, Some st, Some (replicate (unat cap) 0), Some 0)"
    using assms st by (intro store_dequeue_refused(2) [of st x xs]) auto
  moreover have "(32 :: nat) = Suc 31" by simp
  ultimately show ?thesis
    unfolding tm_drain_def st by (simp only: tm_drain_loop.simps) simp
qed

end
