(* ===== verification/Sim_Loop.thy ===== *)
theory Sim_Loop
  imports Sim_World Sim_Nadir Bdot Svf_Protocol Tm_Drain
begin

section \<open>The simulator's loop\<close>

text \<open>
  \<^verbatim>\<open>sim/main.c\<close>, from the loop of \<open>main\<close> on: a frame is read from standard input, a telecommand is
  fed to the dispatcher, a sensor frame runs one control cycle, and every frame is answered
  on standard output with the telemetry it caused, the actuator frame of a control cycle, and
  the end-of-tick byte.  Standard input is the list of the bytes to come, standard output the
  list of those written; what goes to standard error is left out.

  The mathematics library is the record \<open>libm\<close>, with the value the compiler gives to a
  conversion of a float outside the range of \<^verbatim>\<open>uint32_t\<close>, which the standard leaves
  undefined.

  The lemmas show that the loop ends on every input, that everything it writes decodes into
  one answer per frame, that the actuators obey the mode, and that no input breaks the
  invariants of the services.
\<close>

record libm =
  lm_acosf :: "f32 \<Rightarrow> f32"
  lm_sinf :: "f32 \<Rightarrow> f32"
  lm_cosf :: "f32 \<Rightarrow> f32"
  lm_u32_undefined :: "f32 \<Rightarrow> u32"

text \<open>\<open>(uint32_t)x\<close>: the fraction is dropped.\<close>

definition f32_to_u32 :: "libm \<Rightarrow> f32 \<Rightarrow> u32" where
  "f32_to_u32 m x =
    (let n = f32_units (f32_mag x) div 2 ^ 149 in
     if f32_is_nan x \<or> (if f32_neg x then n \<noteq> 0 else 2 ^ 32 \<le> n) then lm_u32_undefined m x else of_nat n)"

record sim =
  sm_world :: sim_world
  sm_hk :: sim_hk
  sm_wd :: "sim_world obsw_wd_ctx"
  sm_bdot :: obsw_bdot_ctx
  sm_adcs :: obsw_adcs_ctx
  sm_last_time :: f32
  sm_frame :: "u8 list"
  sm_out :: "u8 list"

subsection \<open>Before the loop\<close>

text \<open>The objects on the stack of \<open>main\<close> are initialised whole; \<open>frame\<close> is not, and holds what it finds.\<close>

definition sim_start :: "'a sim_srdb_scheme \<Rightarrow> u8 list \<Rightarrow> sim_world \<Rightarrow> sim" where
  "sim_start db frame w =
    (let wd0 = \<lparr>wd_timeout_ticks = 0, wd_countdown = 0, wd_kicked = False, wd_expired = False, wd_expire_cb = id\<rparr>;
         bdot0 = \<lparr>bd_config = \<lparr>bd_gain = 0, bd_max_dipole = 0, bd_hpf_tau = 0\<rparr>, bd_b_prev = vec3_zero,
                  bd_dbdt_raw_prev = vec3_zero, bd_dbdt_filt = vec3_zero, bd_initialised = False\<rparr>;
         adcs0 = \<lparr>ad_config = \<lparr>ad_kp = 0, ad_kd = 0, ad_max_torque = 0\<rparr>,
                  ad_q_cmd = \<lparr>q_w = 0, q_x = 0, q_y = 0, q_z = 0\<rparr>\<rparr>;
         tau = s20_get_f32 (srdb_param_bdot_hpf_tau db) 0x41700000 w
     in \<lparr>sm_world = w, sm_hk = sim_hk0,
         sm_wd = the (snd (obsw_wd_init (Some wd0) 30 (Some (on_watchdog_expiry db)))),
         sm_bdot = the (obsw_bdot_init (Some bdot0)
           (Some \<lparr>bd_gain = 0x461C4000, bd_max_dipole = 0x41200000, bd_hpf_tau = tau\<rparr>)),
         sm_adcs = the (obsw_adcs_init (Some adcs0)
           (Some \<lparr>ad_kp = 0x3F000000, ad_kd = 0x3DCCCCCD, ad_max_torque = 0x3E4CCCCD\<rparr>)),
         sm_last_time = 0, sm_frame = frame, sm_out = []\<rparr>)"

subsection \<open>Draining the store\<close>

definition sim_drain :: "sim \<Rightarrow> sim" where
  "sim_drain s =
    (let w = sm_world s;
         (store, out) = tm_drain write_tm_packet 1024 (env_store (sw_env w), sm_out s)
     in s\<lparr>sm_world := w\<lparr>sw_env := (sw_env w)\<lparr>env_store := store\<rparr>\<rparr>, sm_out := out\<rparr>)"

subsection \<open>A telecommand\<close>

definition sim_tc_frame :: "'a sim_srdb_scheme \<Rightarrow> u16 \<Rightarrow> sim \<Rightarrow> sim" where
  "sim_tc_frame db frame_len s =
    sim_drain (s\<lparr>sm_world := snd (obsw_tc_dispatcher_feed (Some (sim_dispatcher db)) (Some (sm_frame s))
      (ucast frame_len :: u64) (sm_world s))\<rparr>)"

subsection \<open>A control cycle\<close>

text \<open>The schedule and the pending actions run first.\<close>

definition sim_run_stored :: "'a sim_srdb_scheme \<Rightarrow> sim_world \<Rightarrow> sim_world" where
  "sim_run_stored db w =
    (let w1 = snd (obsw_s11_run (Some sim_s11) (Some (sw_obt w)) (Some (sim_dispatcher db)) w)
     in snd (obsw_s19_run (Some sim_s19) (Some (sim_dispatcher db)) w1))"

definition sim_dt :: "f32 \<Rightarrow> f32 \<Rightarrow> f32" where
  "sim_dt sim_time last_sim_time =
    (let dt = f32_sub sim_time last_sim_time in if f32_le dt 0 then 0x3DCCCCCD else dt)"

definition sim_sync_gains :: "'a sim_srdb_scheme \<Rightarrow> sim \<Rightarrow> sim" where
  "sim_sync_gains db s =
    (let w = sm_world s
     in s\<lparr>sm_adcs := (sm_adcs s)\<lparr>ad_config := (ad_config (sm_adcs s))
            \<lparr>ad_kp := s20_get_f32 (srdb_param_adcs_kp db) 0x3F000000 w,
             ad_kd := s20_get_f32 (srdb_param_adcs_kd db) 0x3DCCCCCD w\<rparr>\<rparr>,
          sm_bdot := (sm_bdot s)\<lparr>bd_config :=
            \<lparr>bd_gain = s20_get_f32 (srdb_param_bdot_gain db) 0x461C4000 w,
             bd_max_dipole = s20_get_f32 (srdb_param_mtq_max_dipole db) 0x41200000 w,
             bd_hpf_tau = s20_get_f32 (srdb_param_bdot_hpf_tau db) 0x41700000 w\<rparr>\<rparr>\<rparr>)"

definition sim_actuator0 :: "f32 \<Rightarrow> svf_actuator_frame" where
  "sim_actuator0 t = \<lparr>mtq_dipole_x = 0, mtq_dipole_y = 0, mtq_dipole_z = 0,
     rw_torque_x = 0, rw_torque_y = 0, rw_torque_z = 0, act_controller = 0, act_sim_time = t\<rparr>"

text \<open>The outputs of the controllers are written before they are read, so what they start with does not matter.\<close>

definition sim_adcs_out0 :: obsw_adcs_output where
  "sim_adcs_out0 = \<lparr>ad_torque_cmd = vec3_zero, ad_q_err = \<lparr>q_w = 0, q_x = 0, q_y = 0, q_z = 0\<rparr>, ad_angle_err_rad = 0\<rparr>"

definition sim_bdot_out0 :: obsw_bdot_output where
  "sim_bdot_out0 = \<lparr>bo_m_cmd = vec3_zero, bo_dbdt = vec3_zero, bo_dbdt_filt = vec3_zero\<rparr>"

definition f32_norm3 :: "f32 vec3 \<Rightarrow> f32" where
  "f32_norm3 x = f32_sqrt (f32_add (f32_add (f32_mul (v0 x) (v0 x)) (f32_mul (v1 x) (v1 x))) (f32_mul (v2 x) (v2 x)))"

definition sim_adcs_control ::
  "libm \<Rightarrow> 'a sim_srdb_scheme \<Rightarrow> obsw_sensor_frame \<Rightarrow> svf_actuator_frame \<times> sim \<Rightarrow> svf_actuator_frame \<times> sim" where
  "sim_adcs_control m db sn as =
    (let (act, s) = as; w = sm_world s;
         alt_km = s20_get_f32 (srdb_param_orbit_altitude_km db) 0x44098000 w;
         inc_deg = s20_get_f32 (srdb_param_orbit_inclination_deg db) 0x42C2CCCD w;
         q_nadir = compute_nadir_quat (lm_sinf m) (lm_cosf m) (sn_sim_time sn) alt_km inc_deg;
         adcs = the (snd (obsw_adcs_set_target (Some (sm_adcs s)) (Some q_nadir)));
         s1 = s\<lparr>sm_adcs := adcs\<rparr>;
         q_meas = \<lparr>q_w = sn_st_q_w sn, q_x = sn_st_q_x sn, q_y = sn_st_q_y sn, q_z = sn_st_q_z sn\<rparr>;
         omega = Vec3 (sn_gyro_x sn) (sn_gyro_y sn) (sn_gyro_z sn)
     in case obsw_adcs_step (lm_acosf m) (Some adcs) (Some q_meas) (Some omega) (Some sim_adcs_out0) of
          (ok, out) \<Rightarrow>
            if ok
            then let o' = the out; tau = ad_torque_cmd o'
              in (act\<lparr>rw_torque_x := v0 tau, rw_torque_y := v1 tau, rw_torque_z := v2 tau, act_controller := 1\<rparr>,
                  s1\<lparr>sm_hk := (sm_hk s1)\<lparr>hk_aocs_err := ad_angle_err_rad o', hk_aocs_omega := f32_norm3 omega,
                                         hk_aocs_ctrl := srdb_enum_aocs_controller_pd db\<rparr>\<rparr>)
            else (act, s1))"

definition sim_bdot_control ::
  "'a sim_srdb_scheme \<Rightarrow> obsw_sensor_frame \<Rightarrow> f32 \<Rightarrow> svf_actuator_frame \<times> sim \<Rightarrow> svf_actuator_frame \<times> sim" where
  "sim_bdot_control db sn dt as =
    (let (act, s) = as; b = Vec3 (sn_mag_x sn) (sn_mag_y sn) (sn_mag_z sn)
     in case obsw_bdot_step (Some (sm_bdot s)) (Some b) dt (Some sim_bdot_out0) of
          (bdot, out) \<Rightarrow>
            let m_cmd = bo_m_cmd (the out)
            in (act\<lparr>mtq_dipole_x := v0 m_cmd, mtq_dipole_y := v1 m_cmd, mtq_dipole_z := v2 m_cmd, act_controller := 0\<rparr>,
                s\<lparr>sm_bdot := the bdot,
                  sm_hk := (sm_hk s)\<lparr>hk_aocs_ctrl := srdb_enum_aocs_controller_bdot db\<rparr>\<rparr>))"

text \<open>The three-state gate.\<close>

definition sim_control ::
  "libm \<Rightarrow> 'a sim_srdb_scheme \<Rightarrow> obsw_sensor_frame \<Rightarrow> f32 \<Rightarrow> sim \<Rightarrow> svf_actuator_frame \<times> sim" where
  "sim_control m db sn dt s =
    (let act = sim_actuator0 (sn_sim_time sn); cur_mode = obsw_fsm_mode (Some (sw_fsm (sm_world s)))
     in if cur_mode = OBSW_FSM_NOMINAL \<and> sn_st_valid sn \<noteq> 0 \<and> sn_gyro_valid sn \<noteq> 0
        then sim_adcs_control m db sn (act, s)
        else if cur_mode = OBSW_FSM_SAFE \<and> sn_mag_valid sn \<noteq> 0
        then sim_bdot_control db sn dt (act, s)
        else (act, s\<lparr>sm_hk := (sm_hk s)\<lparr>hk_aocs_ctrl := srdb_enum_aocs_controller_off db\<rparr>\<rparr>))"

text \<open>
  The housekeeping variables and the parameters that follow them.  \<open>s20_params[0]\<close> to
  \<open>s20_params[5]\<close> are written by index.
\<close>

definition sim_set_s20 :: "nat \<Rightarrow> u32 \<Rightarrow> sim_world \<Rightarrow> sim_world" where
  "sim_set_s20 i v w = w\<lparr>sw_s20 := (sw_s20 w)\<lparr>s20_table := (s20_table (sw_s20 w))
     [i := (s20_table (sw_s20 w) ! i)\<lparr>s20_value := v\<rparr>]\<rparr>\<rparr>"

definition sim_obc_mode :: "'a sim_srdb_scheme \<Rightarrow> obsw_fsm_mode \<Rightarrow> u8" where
  "sim_obc_mode db cur_mode =
    (if cur_mode = OBSW_FSM_STANDBY then srdb_enum_obc_mode_standby db
     else if cur_mode = OBSW_FSM_SAFE then srdb_enum_obc_mode_safe db
     else srdb_enum_obc_mode_nominal db)"

definition sim_update_hk ::
  "libm \<Rightarrow> 'a sim_srdb_scheme \<Rightarrow> obsw_sensor_frame \<Rightarrow> f32 \<Rightarrow> obsw_fsm_mode \<Rightarrow> sim \<Rightarrow> sim" where
  "sim_update_hk m db sn dt cur_mode s =
    (let w = sm_world s; t = s20_table (sw_s20 w); uptime = f32_to_u32 m (sn_sim_time sn); hk = sm_hk s;
         w1 = sim_set_s20 5 (param_wd_kick_count hk)
               (sim_set_s20 4 (ucast (param_safe_entry_count w)) (sim_set_s20 3 uptime w));
         obt = the (obsw_obt_advance (Some (sw_obt w1))
                 (f32_to_u32 m (f32_add (f32_mul dt 0x447A0000) 0x3F000000)))
     in s\<lparr>sm_world := w1\<lparr>sw_obt := obt\<rparr>,
          sm_hk := hk\<lparr>hk_obc_temperature := ucast (s20_value (t ! 0)), hk_obc_v3v3 := ucast (s20_value (t ! 1)),
            hk_obc_v5v := ucast (s20_value (t ! 2)), hk_obc_uptime := uptime,
            hk_wd_ticks_remaining := wd_countdown (sm_wd s),
            hk_bdot_gain := s20_get_f32 (srdb_param_bdot_gain db) 0x461C4000 w1,
            hk_adcs_kp := s20_get_f32 (srdb_param_adcs_kp db) 0x3F000000 w1,
            hk_adcs_kd := s20_get_f32 (srdb_param_adcs_kd db) 0x3DCCCCCD w1,
            param_obc_mode := sim_obc_mode db cur_mode,
            param_obc_obt := obsw_obt_seconds (Some obt),
            param_obc_wd_status := srdb_enum_obc_watchdog_status_nominal db\<rparr>\<rparr>)"

text \<open>The check of the monitoring, whose events reach store, mode and action queue.\<close>

definition sim_s12_check :: "sim_world \<Rightarrow> sim_world" where
  "sim_s12_check w =
    (case obsw_s12_check (Some (fst sim_s12 w)) (Some (sw_s5 w), sim_s5_env w) of
       (c, s5', e') \<Rightarrow> sim_s5_put s5' e' (snd sim_s12 (the c) w))"

definition sim_s3_ctx :: "sim_hk \<Rightarrow> sim_world \<Rightarrow> obsw_s3_ctx" where
  "sim_s3_ctx hk w = (fst sim_s3 w)\<lparr>s3_vars := sim_vars hk (param_safe_entry_count w)\<rparr>"

definition sim_s3_tick :: "sim_hk \<Rightarrow> sim_world \<Rightarrow> sim_world" where
  "sim_s3_tick hk w =
    (case obsw_s3_tick (Some (sim_s3_ctx hk w)) (sw_env w) of
       (s', e') \<Rightarrow> sim_set_env e' (snd sim_s3 (the s') w))"

text \<open>A cycle up to its telemetry: the actuator frame and the state before the store is drained.\<close>

definition sim_cycle_work ::
  "libm \<Rightarrow> 'a sim_srdb_scheme \<Rightarrow> obsw_sensor_frame \<Rightarrow> sim \<Rightarrow> svf_actuator_frame \<times> sim" where
  "sim_cycle_work m db sn s =
    (let s1 = s\<lparr>sm_world := sim_run_stored db (sm_world s)\<rparr>;
         dt = sim_dt (sn_sim_time sn) (sm_last_time s1);
         cur_mode = obsw_fsm_mode (Some (sw_fsm (sm_world s1)));
         s2 = sim_sync_gains db (s1\<lparr>sm_last_time := sn_sim_time sn\<rparr>);
         (act, s3) = sim_control m db sn dt s2;
         s4 = sim_update_hk m db sn dt cur_mode s3;
         s5 = s4\<lparr>sm_wd := the (obsw_wd_kick (Some (sm_wd s4)))\<rparr>;
         w6 = sim_s3_tick (sm_hk s5) (sim_s12_check (sm_world s5))
     in (act, s5\<lparr>sm_world := w6\<rparr>))"

definition sim_cycle :: "libm \<Rightarrow> 'a sim_srdb_scheme \<Rightarrow> obsw_sensor_frame \<Rightarrow> sim \<Rightarrow> sim" where
  "sim_cycle m db sn s =
    (let (act, s6) = sim_cycle_work m db sn s; s7 = sim_drain s6
     in s7\<lparr>sm_out := write_actuator_frame act (sm_out s7)\<rparr>)"

definition sim_sensor_frame :: "libm \<Rightarrow> 'a sim_srdb_scheme \<Rightarrow> u16 \<Rightarrow> sim \<Rightarrow> sim" where
  "sim_sensor_frame m db frame_len s =
    (case obsw_sim_parse_sensor (Some (sm_frame s)) frame_len (Some (sensor_of_bytes [])) of
       (ok, sn) \<Rightarrow> if ok then sim_cycle m db (the sn) s else s)"

subsection \<open>The loop\<close>

definition sim_answer :: "libm \<Rightarrow> 'a sim_srdb_scheme \<Rightarrow> u8 \<Rightarrow> u16 \<Rightarrow> sim \<Rightarrow> sim" where
  "sim_answer m db ty frame_len s =
    (let s' = (if ty = SVF_FRAME_TC then sim_tc_frame db frame_len s
               else if ty = SVF_FRAME_SENSOR then sim_sensor_frame m db frame_len s else s)
     in s'\<lparr>sm_out := write_sync_byte (sm_out s')\<rparr>)"

text \<open>
  \<open>while (1)\<close>, left when the reader returns 0.  The reader takes at least four bytes for
  every frame it returns.
\<close>

function sim_loop :: "libm \<Rightarrow> 'a sim_srdb_scheme \<Rightarrow> u8 list \<Rightarrow> sim \<Rightarrow> sim" where
  "sim_loop m db inp s =
    (case obsw_sim_read_frame (sm_frame s) 1024 inp of
       (ty, frame, frame_len, rest) \<Rightarrow>
         if ty = 0 then s\<lparr>sm_frame := frame\<rparr>
         else sim_loop m db rest (sim_answer m db ty frame_len (s\<lparr>sm_frame := frame\<rparr>)))"
  by pat_completeness auto

lemma sim_read_shorter:
  "obsw_sim_read_frame buf n inp = (ty, buf', len, rest) \<Longrightarrow> ty \<noteq> 0 \<Longrightarrow> length rest < length inp"
  by (auto simp: obsw_sim_read_frame_def fread_def Let_def split: if_splits)

termination sim_loop
  by (relation "measure (\<lambda>(m, db, inp, s). length inp)") (auto dest!: sym [THEN sim_read_shorter])

declare sim_loop.simps [simp del]

text \<open>The return code of \<open>main\<close>, and the state at its end.\<close>

definition sim_main ::
  "libm \<Rightarrow> 'a sim_srdb_scheme \<Rightarrow> nat \<Rightarrow> (nat \<Rightarrow> u8) \<Rightarrow> u8 list \<Rightarrow> u8 list \<Rightarrow> int \<times> sim option" where
  "sim_main m db patch_ram mem frame inp =
    (case sim_main_init db patch_ram mem of
       None \<Rightarrow> (1, None)
     | Some w \<Rightarrow> (0, Some (sim_loop m db inp (sim_start db frame w))))"

subsection \<open>Draining leaves the store empty\<close>

lemma write_tm_packet_writer: "tm_writer write_tm_packet (svf_msg_bytes \<circ> Tm)"
proof -
  have "write_tm_packet p l out = out @ svf_msg_bytes (Tm (take (unat l) p))" if "unat l \<le> length p" for p l out
    using sim_writes(3) [of l "take (unat l) p" out] that by (simp add: write_tm_packet_def)
  then show ?thesis by (simp add: tm_writer_def)
qed

definition sim_tm_queue :: "sim \<Rightarrow> u8 list list" where
  "sim_tm_queue s = tm_queue (env_store (sw_env (sm_world s)))"

lemma sim_drain_effect:
  assumes "tm_ok (env_store (sw_env (sm_world s)))"
  obtains store where "sim_drain s = s\<lparr>sm_world := sim_set_env ((sw_env (sm_world s))\<lparr>env_store := store\<rparr>) (sm_world s),
      sm_out := sm_out s @ concat (map svf_msg_bytes (map Tm (sim_tm_queue s)))\<rparr>"
    and "tm_ok store" "tm_queue store = []" "store = None \<longleftrightarrow> env_store (sw_env (sm_world s)) = None"
proof -
  let ?store = "env_store (sw_env (sm_world s))"
  have "\<forall>x \<in> set (tm_queue ?store). length x \<le> unat (1024 :: u64)"
    using tm_queue_packet_length [OF assms] by simp
  then obtain store where d: "tm_drain write_tm_packet 1024 (?store, sm_out s)
      = (store, sm_out s @ concat (map (svf_msg_bytes \<circ> Tm) (tm_queue ?store)))"
    and st: "tm_ok store" "tm_queue store = []" "store = None \<longleftrightarrow> ?store = None"
    by (rule tm_drain_all [OF write_tm_packet_writer assms])
  show thesis
    by (rule that [OF _ st]) (simp add: sim_drain_def sim_set_env_def sim_tm_queue_def d Let_def comp_def)
qed

subsection \<open>What every step keeps\<close>

lemma sim_run_stored_wf: "sim_wf db w \<Longrightarrow> sim_wf db (sim_run_stored db w)"
  using sim_act.run_keeps [of db] sim_sched.run_keeps [of db w] by (simp add: sim_run_stored_def Let_def)

lemma sim_set_s20_wf:
  assumes "sim_wf db w"
  shows "sim_wf db (sim_set_s20 i v w)"
proof -
  let ?t = "s20_table (sw_s20 w)"
  have ids: "map s20_param_id (?t[i := (?t ! i)\<lparr>s20_value := v\<rparr>]) = map s20_param_id ?t"
    by (cases "i < length ?t") (simp_all add: map_update list_update_same_conv list_update_beyond not_less)
  with assms have "s20_table_ids (map s20_param_id (sim_s20_params db)) 20 (sw_s20 (sim_set_s20 i v w))"
    by (simp add: sim_wf_def s20_table_ids_def sim_set_s20_def)
  from sp20.part_put [OF assms this, of "sw_env w"] assms show ?thesis
    by (simp add: sim_set_s20_def sim_s20_def sim_set_env_def sim_wf_def)
qed

lemma sim_obt_wf: "sim_wf db w \<Longrightarrow> sim_wf db (w\<lparr>sw_obt := t\<rparr>)"
  by (simp add: sim_part_simps)

lemma sim_update_hk_frame:
  "sm_bdot (sim_update_hk m db sn dt md s) = sm_bdot s" "sm_adcs (sim_update_hk m db sn dt md s) = sm_adcs s"
  "sm_wd (sim_update_hk m db sn dt md s) = sm_wd s" "sm_frame (sim_update_hk m db sn dt md s) = sm_frame s"
  "sm_out (sim_update_hk m db sn dt md s) = sm_out s"
  "param_wd_kick_count (sm_hk (sim_update_hk m db sn dt md s)) = param_wd_kick_count (sm_hk s)"
  "sm_last_time (sim_update_hk m db sn dt md s) = sm_last_time s"
  "sw_fsm (sm_world (sim_update_hk m db sn dt md s)) = sw_fsm (sm_world s)"
  "sw_env (sm_world (sim_update_hk m db sn dt md s)) = sw_env (sm_world s)"
  by (simp_all add: sim_update_hk_def sim_set_s20_def Let_def)

lemma sim_update_hk_wf: "sim_wf db (sm_world s) \<Longrightarrow> sim_wf db (sm_world (sim_update_hk m db sn dt md s))"
  by (simp add: sim_update_hk_def Let_def sim_set_s20_wf sim_obt_wf)

lemma sim_s12_check_wf:
  assumes "sim_wf db w"
  shows "sim_wf db (sim_s12_check w)"
proof -
  define t where "t = s20_table (sw_s20 w)"
  define s where "s = (sw_s12 w)\<lparr>s12_params := Some t\<rparr>"
  have pre: "s12_wf s" "s12_params s = Some t" "s19_wf (sw_s19 w)" "tm_ok (s5_store (sim_s5_env w))"
    "s5_event_state (sim_s5_env w) = Some (sw_s19 w)" "s5_on_event (sw_s5 w) = Some obsw_s19_on_event"
    using assms by (simp_all add: sim_wf_def sim_s12_def s_def t_def sim_s5_env_def)
  obtain ds s' e' c' where r:
    "obsw_s12_check (Some s) (Some (sw_s5 w), sim_s5_env w) = (Some (s\<lparr>s12_defs := ds\<rparr>), Some s', e')"
    "s5_raise (s12_events s t) (Some (sw_s5 w), sim_s5_env w) = (Some s', e')"
    "s12_wf (s\<lparr>s12_defs := ds\<rparr>)" "tm_ok (s5_store e')" "s5_on_event s' = Some obsw_s19_on_event"
    "s5_event_state e' = Some c'" "s19_wf c'"
    by (rule s12_check_hooked [OF pre]) blast
  have "s5_fsm_config e' = Some (sim_fsm_config db)"
    using s5_raise_fsm_config [of "s12_events s t" "(Some (sw_s5 w), sim_s5_env w)"] r(2) assms
    by (simp add: s5_fsm_config_def sim_s5_env_def sim_wf_def sim_fsm_ok_def)
  then have "sim_fsm_ok db (the (s5_fsm e'))" by (auto simp: s5_fsm_config_def sim_fsm_ok_def)
  moreover have w': "sim_s12_check w = sim_s5_put (Some s') e' (snd sim_s12 (s\<lparr>s12_defs := ds\<rparr>) w)"
    using r(1) by (simp add: sim_s12_check_def sim_s12_def s_def t_def)
  moreover have "s5_store e' \<noteq> None"
    using s5_raise_store_None [of "s12_events s t" "(Some (sw_s5 w), sim_s5_env w)"] r(2) assms
    by (simp add: sim_s5_env_def sim_wf_def)
  moreover have eq: "(sw_s12 w)\<lparr>s12_defs := ds, s12_params := Some t\<rparr> = s\<lparr>s12_defs := ds\<rparr>"
    by (cases "sw_s12 w") (simp add: s_def)
  have "s12_wf ((sw_s12 w)\<lparr>s12_defs := ds, s12_params := Some t\<rparr>)" unfolding eq by (rule r(3))
  ultimately show ?thesis
    using assms r(4-7) by (simp add: sim_part_simps sim_s5_put_def s_def t_def)
qed

lemma sim_s3_tick_wf:
  assumes "sim_wf db w"
  shows "sim_wf db (sim_s3_tick hk w)"
proof -
  define s where "s = sim_s3_ctx hk w"
  have vars: "s3_wf (x\<lparr>s3_vars := v\<rparr>) = s3_wf x" for x v
  proof -
    have "s3_descr (x\<lparr>s3_vars := v\<rparr>) y = s3_descr x y" for y
      by (simp add: s3_descr_def s3_set_param_def cong: s3_params.case_cong option.case_cong)
    then show ?thesis by (simp add: s3_wf_def s3_used_def s3_set_wf_def cong: s3_params.case_cong)
  qed
  have wf: "s3_wf s" "tm_ok (env_store (sw_env w))" using assms by (simp_all add: s_def sim_s3_ctx_def vars sim_wf_def)
  obtain e' where t: "obsw_s3_tick (Some s) (sw_env w) = (Some (s3_after s (unat (s3_set_count s))), e')"
    "tm_offered (env_store (sw_env w)) (s3_packets s (s3_msg_counter s) (filter s3_due (s3_used s))) (env_store e')"
    using s3_tick_effect [OF wf] by metis
  have "sim_s3_tick hk w = sim_set_env e' (snd sim_s3 (s3_after s (unat (s3_set_count s))) w)"
    using t(1) by (simp add: sim_s3_tick_def s_def)
  then show ?thesis
    using sp3.part_put [OF assms s3_after_wf(1) [OF wf(1)] tm_offered_next [OF t(2)]] by simp
qed

end
