(* ===== verification/Sim_System.thy ===== *)
theory Sim_System
  imports Sim_Loop
begin

section \<open>The simulator as a whole\<close>

text \<open>
  What holds of \<^verbatim>\<open>sim/main.c\<close> from the first byte of standard input to the last of standard
  output: the state between two frames is in order, every frame is answered by one decodable
  group of messages, a telecommand is verified in its own answer, and the actuator commands
  obey the mode.
\<close>

subsection \<open>Between two frames\<close>

text \<open>
  The store is empty, the torque limit is the one set before the loop, and the watchdog stands
  where it was initialised: the loop kicks it and never ticks it.
\<close>

definition sim_idle :: "sim \<Rightarrow> bool" where
  "sim_idle s \<longleftrightarrow> wd_countdown (sm_wd s) = 30 \<and> \<not> wd_expired (sm_wd s) \<and> param_wd_kick_count (sm_hk s) = 0"

definition sim_ok :: "'a sim_srdb_scheme \<Rightarrow> sim \<Rightarrow> bool" where
  "sim_ok db s \<longleftrightarrow> sim_wf db (sm_world s) \<and> sim_tm_queue s = [] \<and> length (sm_frame s) = 1024
    \<and> ad_max_torque (ad_config (sm_adcs s)) = 0x3E4CCCCD \<and> sim_idle s"

text \<open>A step from \<open>s\<close> to \<open>s'\<close> that answers with the messages \<open>ms\<close>.\<close>

definition sim_answers :: "'a sim_srdb_scheme \<Rightarrow> sim \<Rightarrow> svf_msg list \<Rightarrow> sim \<Rightarrow> bool" where
  "sim_answers db s ms s' \<longleftrightarrow> sim_ok db s' \<and> sm_out s' = sm_out s @ concat (map svf_msg_bytes ms) \<and> list_all svf_msg_ok ms"

lemma sim_answers_snoc:
  "sim_answers db s ms s' \<Longrightarrow> svf_msg_ok x \<Longrightarrow> out = sm_out s' @ svf_msg_bytes x
    \<Longrightarrow> sim_answers db s (ms @ [x]) (s'\<lparr>sm_out := out\<rparr>)"
  by (simp add: sim_answers_def sim_ok_def sim_tm_queue_def sim_idle_def)

lemma sim_drain_answers:
  assumes "sim_wf db (sm_world s)" "length (sm_frame s) = 1024"
    "ad_max_torque (ad_config (sm_adcs s)) = 0x3E4CCCCD" "sim_idle s"
  shows "sim_answers db s (map Tm (sim_tm_queue s)) (sim_drain s)"
proof -
  let ?w = "sm_world s"
  have ok: "tm_ok (env_store (sw_env ?w))" using assms(1) by (simp add: sim_wf_def)
  obtain store where d: "sim_drain s = s\<lparr>sm_world := sim_set_env ((sw_env ?w)\<lparr>env_store := store\<rparr>) ?w,
      sm_out := sm_out s @ concat (map svf_msg_bytes (map Tm (sim_tm_queue s)))\<rparr>"
    and st: "tm_ok store" "tm_queue store = []" "store = None \<longleftrightarrow> env_store (sw_env ?w) = None"
    by (rule sim_drain_effect [OF ok])
  have "sim_wf db (sim_set_env ((sw_env ?w)\<lparr>env_store := store\<rparr>) ?w)"
    using st by (intro sim.env_wf [OF assms(1)]) (simp add: tm_next_def)
  moreover have "list_all svf_msg_ok (map Tm (sim_tm_queue s))"
    using tm_queue_packet_length [OF ok] by (force simp: list_all_iff sim_tm_queue_def)
  ultimately show ?thesis
    using assms(2-4) st by (simp add: sim_answers_def sim_ok_def d sim_tm_queue_def sim_set_env_def sim_idle_def)
qed

subsection \<open>Control\<close>

text \<open>A control step changes nothing of the services and keeps the torque limit.\<close>

lemma sim_sync_gains_frame [simp]:
  "sm_world (sim_sync_gains db s) = sm_world s" "sm_hk (sim_sync_gains db s) = sm_hk s"
  "sm_wd (sim_sync_gains db s) = sm_wd s" "sm_frame (sim_sync_gains db s) = sm_frame s"
  "sm_out (sim_sync_gains db s) = sm_out s"
  "ad_max_torque (ad_config (sm_adcs (sim_sync_gains db s))) = ad_max_torque (ad_config (sm_adcs s))"
  "bd_max_dipole (bd_config (sm_bdot (sim_sync_gains db s)))
    = s20_get_f32 (srdb_param_mtq_max_dipole db) 0x41200000 (sm_world s)"
  by (simp_all add: sim_sync_gains_def Let_def)

lemma adcs_set_target_config: "ad_config (the (snd (obsw_adcs_set_target (Some s) (Some q)))) = ad_config s"
  by (simp add: obsw_adcs_set_target_def split: prod.split)

lemma sim_control_frame:
  assumes "sim_control m db sn dt s = (act, s')"
  shows "sm_world s' = sm_world s" "sm_wd s' = sm_wd s" "sm_frame s' = sm_frame s" "sm_out s' = sm_out s"
    "param_wd_kick_count (sm_hk s') = param_wd_kick_count (sm_hk s)"
    "ad_max_torque (ad_config (sm_adcs s')) = ad_max_torque (ad_config (sm_adcs s))"
  using assms
  by (auto simp: sim_control_def sim_adcs_control_def sim_bdot_control_def Let_def adcs_set_target_config
      split: prod.splits if_splits)

text \<open>What an actuator frame may hold, by the mode of the cycle and the validity of its sensors.\<close>

definition sim_actuator_ok :: "obsw_fsm_mode \<Rightarrow> f32 \<Rightarrow> obsw_sensor_frame \<Rightarrow> svf_actuator_frame \<Rightarrow> bool" where
  "sim_actuator_ok md max_dipole sn a \<longleftrightarrow> act_sim_time a = sn_sim_time sn
    \<and> (if md = OBSW_FSM_SAFE \<and> sn_mag_valid sn \<noteq> 0
       then f32_le 0 max_dipole \<longrightarrow> f32_limited max_dipole (mtq_dipole_x a) \<and> f32_limited max_dipole (mtq_dipole_y a)
         \<and> f32_limited max_dipole (mtq_dipole_z a)
       else mtq_dipole_x a = 0 \<and> mtq_dipole_y a = 0 \<and> mtq_dipole_z a = 0)
    \<and> (if md = OBSW_FSM_NOMINAL \<and> sn_st_valid sn \<noteq> 0 \<and> sn_gyro_valid sn \<noteq> 0
       then f32_limited 0x3E4CCCCD (rw_torque_x a) \<and> f32_limited 0x3E4CCCCD (rw_torque_y a)
         \<and> f32_limited 0x3E4CCCCD (rw_torque_z a)
       else rw_torque_x a = 0 \<and> rw_torque_y a = 0 \<and> rw_torque_z a = 0 \<and> act_controller a = 0)"

lemma f32_limited_zero:
  assumes "f32_le 0 l"
  shows "f32_limited l 0"
  using f32_saturate_limited [OF assms, of 0] f32_le_zero [OF assms] assms
  by (simp add: f32_limited_def f32_le_def f32_lt_value)

lemma sim_max_torque_le: "f32_le 0 0x3E4CCCCD"
  by (simp add: f32_le_def f32_lt_def f32_is_nan_def f32_key_def f32_neg_def f32_mag_def)

lemma adcs_step_limited:
  assumes "obsw_adcs_step acosf (Some s) (Some q) (Some om) (Some out) = (True, out')"
    "f32_le 0 (ad_max_torque (ad_config s))"
  shows "vec3_all (f32_limited (ad_max_torque (ad_config s))) (ad_torque_cmd (the out'))"
  using assms by (auto simp: obsw_adcs_step_def Let_def f32_saturate_limited split: prod.splits if_splits)

lemma bdot_step_limited:
  assumes "obsw_bdot_step (Some s) (Some b) dt (Some sim_bdot_out0) = (s', out')"
    "f32_le 0 (bd_max_dipole (bd_config s))"
  shows "vec3_all (f32_limited (bd_max_dipole (bd_config s))) (bo_m_cmd (the out'))"
proof (cases rule: bdot_step_cases [of dt s b sim_bdot_out0])
  case running
  show ?thesis
    using assms bdot_command_limited [OF assms(2)] unfolding bdot_step_running [OF running]
    by (auto simp: Let_def split: prod.splits)
qed (use assms f32_limited_zero in \<open>auto simp: sim_bdot_out0_def\<close>)

lemma sim_control_safe:
  assumes "sim_control m db sn dt s = (act, s')" "ad_max_torque (ad_config (sm_adcs s)) = 0x3E4CCCCD"
  shows "sim_actuator_ok (fsm_mode (sw_fsm (sm_world s))) (bd_max_dipole (bd_config (sm_bdot s))) sn act"
proof -
  let ?md = "fsm_mode (sw_fsm (sm_world s))"
  consider (pd) "?md = OBSW_FSM_NOMINAL" "sn_st_valid sn \<noteq> 0" "sn_gyro_valid sn \<noteq> 0"
    | (bdot) "?md = OBSW_FSM_SAFE" "sn_mag_valid sn \<noteq> 0"
    | (off) "\<not> (?md = OBSW_FSM_NOMINAL \<and> sn_st_valid sn \<noteq> 0 \<and> sn_gyro_valid sn \<noteq> 0)"
      "\<not> (?md = OBSW_FSM_SAFE \<and> sn_mag_valid sn \<noteq> 0)" by blast
  then show ?thesis
  proof cases
    case pd
    let ?q = "compute_nadir_quat (lm_sinf m) (lm_cosf m) (sn_sim_time sn)
      (s20_get_f32 (srdb_param_orbit_altitude_km db) 0x44098000 (sm_world s))
      (s20_get_f32 (srdb_param_orbit_inclination_deg db) 0x42C2CCCD (sm_world s))"
    let ?a = "the (snd (obsw_adcs_set_target (Some (sm_adcs s)) (Some ?q)))"
    let ?meas = "\<lparr>q_w = sn_st_q_w sn, q_x = sn_st_q_x sn, q_y = sn_st_q_y sn, q_z = sn_st_q_z sn\<rparr>"
    let ?om = "Vec3 (sn_gyro_x sn) (sn_gyro_y sn) (sn_gyro_z sn)"
    obtain ok out where st: "obsw_adcs_step (lm_acosf m) (Some ?a) (Some ?meas) (Some ?om) (Some sim_adcs_out0) = (ok, out)"
      by fastforce
    have c: "ad_max_torque (ad_config ?a) = 0x3E4CCCCD" using assms(2) by (simp add: adcs_set_target_config)
    have "vec3_all (f32_limited 0x3E4CCCCD) (ad_torque_cmd (the out))" if ok
      using adcs_step_limited [of "lm_acosf m" ?a ?meas ?om sim_adcs_out0 out] st c that sim_max_torque_le by simp
    with pd assms(1) st f32_limited_zero [OF sim_max_torque_le] show ?thesis
      by (cases ok; cases "ad_torque_cmd (the out)")
        (auto simp: sim_control_def sim_adcs_control_def obsw_fsm_mode_def sim_actuator_ok_def sim_actuator0_def Let_def)
  next
    case bdot
    obtain bd out where st: "obsw_bdot_step (Some (sm_bdot s))
        (Some (Vec3 (sn_mag_x sn) (sn_mag_y sn) (sn_mag_z sn))) dt (Some sim_bdot_out0) = (bd, out)" by fastforce
    from bdot_step_limited [OF st] bdot assms(1) st show ?thesis
      by (cases "bo_m_cmd (the out)")
        (auto simp: sim_control_def sim_bdot_control_def obsw_fsm_mode_def sim_actuator_ok_def sim_actuator0_def Let_def)
  next
    case off
    then show ?thesis using assms(1)
      by (auto simp: sim_control_def obsw_fsm_mode_def sim_actuator_ok_def sim_actuator0_def Let_def split: if_splits)
  qed
qed

subsection \<open>One frame\<close>

text \<open>The mode in which a control cycle acts: the one the stored commands leave.\<close>

definition sim_cycle_mode :: "'a sim_srdb_scheme \<Rightarrow> sim \<Rightarrow> obsw_fsm_mode" where
  "sim_cycle_mode db s = fsm_mode (sw_fsm (sim_run_stored db (sm_world s)))"

definition sim_cycle_dipole :: "'a sim_srdb_scheme \<Rightarrow> sim \<Rightarrow> f32" where
  "sim_cycle_dipole db s = s20_get_f32 (srdb_param_mtq_max_dipole db) 0x41200000 (sim_run_stored db (sm_world s))"

lemma sim_cycle_work_ok:
  assumes "sim_ok db s" "sim_cycle_work m db sn s = (act, s')"
  shows "sim_wf db (sm_world s')" "sm_frame s' = sm_frame s" "ad_max_torque (ad_config (sm_adcs s')) = 0x3E4CCCCD"
    "sim_idle s'" "sm_out s' = sm_out s"
    and "sim_actuator_ok (sim_cycle_mode db s) (sim_cycle_dipole db s) sn act"
proof -
  define s1 where "s1 = s\<lparr>sm_world := sim_run_stored db (sm_world s)\<rparr>"
  define dt where "dt = sim_dt (sn_sim_time sn) (sm_last_time s1)"
  define s2 where "s2 = sim_sync_gains db (s1\<lparr>sm_last_time := sn_sim_time sn\<rparr>)"
  obtain act' s3 where c: "sim_control m db sn dt s2 = (act', s3)" by fastforce
  define s4 where "s4 = sim_update_hk m db sn dt (obsw_fsm_mode (Some (sw_fsm (sm_world s1)))) s3"
  define s5 where "s5 = s4\<lparr>sm_wd := the (obsw_wd_kick (Some (sm_wd s4)))\<rparr>"
  have work: "act = act'" "s' = s5\<lparr>sm_world := sim_s3_tick (sm_hk s5) (sim_s12_check (sm_world s5))\<rparr>"
    using assms(2) c by (simp_all add: sim_cycle_work_def Let_def s1_def s2_def dt_def s4_def s5_def)
  note f = sim_control_frame [OF c]
  have ok: "sim_wf db (sm_world s)" "ad_max_torque (ad_config (sm_adcs s)) = 0x3E4CCCCD" "sim_idle s"
    using assms(1) by (simp_all add: sim_ok_def)
  have w2: "sm_world s2 = sim_run_stored db (sm_world s)" "ad_max_torque (ad_config (sm_adcs s2)) = 0x3E4CCCCD"
    "bd_max_dipole (bd_config (sm_bdot s2)) = sim_cycle_dipole db s"
    using ok(2) by (simp_all add: s2_def s1_def sim_cycle_dipole_def)
  have "sim_wf db (sm_world s3)" using sim_run_stored_wf [OF ok(1)] by (simp add: f(1) w2(1))
  then show "sim_wf db (sm_world s')"
    by (simp add: work s5_def s4_def sim_s3_tick_wf sim_s12_check_wf sim_update_hk_wf)
  show "sm_frame s' = sm_frame s" "ad_max_torque (ad_config (sm_adcs s')) = 0x3E4CCCCD" "sim_idle s'" "sm_out s' = sm_out s"
    using ok(3) f w2(2)
    by (simp_all add: work s5_def s4_def sim_update_hk_frame sim_idle_def obsw_wd_kick_def s2_def s1_def)
  show "sim_actuator_ok (sim_cycle_mode db s) (sim_cycle_dipole db s) sn act"
    using sim_control_safe [OF c w2(2)] by (simp add: work w2(1,3) sim_cycle_mode_def)
qed

text \<open>The world \<open>w'\<close> is \<open>w\<close> with its telemetry taken out of the store.\<close>

definition sim_drained :: "sim_world \<Rightarrow> sim_world \<Rightarrow> bool" where
  "sim_drained w w' \<longleftrightarrow> (\<exists>store. tm_queue store = [] \<and> w' = sim_set_env ((sw_env w)\<lparr>env_store := store\<rparr>) w)"

lemma sim_drain_drained:
  assumes "sim_wf db (sm_world s)"
  obtains w' where "sim_drained (sm_world s) w'" "sim_drain s = s\<lparr>sm_world := w',
      sm_out := sm_out s @ concat (map svf_msg_bytes (map Tm (sim_tm_queue s)))\<rparr>"
proof -
  have "tm_ok (env_store (sw_env (sm_world s)))" using assms by (simp add: sim_wf_def)
  from sim_drain_effect [OF this] show thesis using that unfolding sim_drained_def by metis
qed

lemma sim_cycle_answers:
  assumes "sim_ok db s" "sim_cycle_work m db sn s = (act, s1)"
  obtains w' where "sim_drained (sm_world s1) w'"
    "sim_cycle m db sn s = s1\<lparr>sm_world := w',
       sm_out := sm_out s @ concat (map svf_msg_bytes (map Tm (sim_tm_queue s1) @ [Actuator (actuator_bytes act)]))\<rparr>"
    "sim_answers db s (map Tm (sim_tm_queue s1) @ [Actuator (actuator_bytes act)]) (sim_cycle m db sn s)"
proof -
  note work = sim_cycle_work_ok [OF assms]
  have frame: "length (sm_frame s1) = 1024" using assms(1) by (simp add: work(2) sim_ok_def)
  obtain w' where w': "sim_drained (sm_world s1) w'" "sim_drain s1 = s1\<lparr>sm_world := w',
      sm_out := sm_out s1 @ concat (map svf_msg_bytes (map Tm (sim_tm_queue s1)))\<rparr>"
    by (rule sim_drain_drained [OF work(1)])
  have "sim_answers db s (map Tm (sim_tm_queue s1)) (sim_drain s1)"
    using sim_drain_answers [OF work(1) frame work(3,4)] by (simp add: sim_answers_def work(5))
  from sim_answers_snoc [OF this, of "Actuator (actuator_bytes act)"]
  have "sim_answers db s (map Tm (sim_tm_queue s1) @ [Actuator (actuator_bytes act)]) (sim_cycle m db sn s)"
    by (simp add: sim_cycle_def assms(2) Let_def sim_writes)
  moreover have "sim_cycle m db sn s = s1\<lparr>sm_world := w',
       sm_out := sm_out s @ concat (map svf_msg_bytes (map Tm (sim_tm_queue s1) @ [Actuator (actuator_bytes act)]))\<rparr>"
    by (simp add: sim_cycle_def assms(2) Let_def sim_writes w'(2) work(5))
  ultimately show thesis using w'(1) that by blast
qed

lemma sim_tc_answers:
  assumes "sim_ok db s" "unat n \<le> 1024"
    and "w = snd (obsw_tc_dispatcher_feed (Some (sim_dispatcher db)) (Some (sm_frame s)) (ucast n :: u64) (sm_world s))"
  shows "sim_wf db w" "sim_answers db s (map Tm (tm_queue (env_store (sw_env w)))) (sim_tc_frame db n s)"
    and "\<exists>w'. sim_drained w w' \<and> sim_tc_frame db n s = s\<lparr>sm_world := w',
      sm_out := sm_out s @ concat (map svf_msg_bytes (map Tm (tm_queue (env_store (sw_env w)))))\<rparr>"
proof -
  have "unat (ucast n :: u64) \<le> length (sm_frame s)"
    using assms(1,2) by (simp add: sim_ok_def unat_ucast_u16)
  then show wf: "sim_wf db w"
    using assms(1) sim_disp.feed_keeps [of "ucast n :: u64" "sm_frame s" db "sm_world s"]
    by (simp add: assms(3) sim_ok_def)
  have k: "length (sm_frame (s\<lparr>sm_world := w\<rparr>)) = 1024"
    "ad_max_torque (ad_config (sm_adcs (s\<lparr>sm_world := w\<rparr>))) = 0x3E4CCCCD" "sim_idle (s\<lparr>sm_world := w\<rparr>)"
    using assms(1) by (simp_all add: sim_ok_def sim_idle_def)
  show "sim_answers db s (map Tm (tm_queue (env_store (sw_env w)))) (sim_tc_frame db n s)"
    using sim_drain_answers [of db "s\<lparr>sm_world := w\<rparr>"] wf k
    by (simp add: sim_tc_frame_def assms(3) sim_answers_def sim_tm_queue_def)
  have "sim_wf db (sm_world (s\<lparr>sm_world := w\<rparr>))" using wf by simp
  from sim_drain_drained [OF this] obtain w' where "sim_drained w w'" "sim_drain (s\<lparr>sm_world := w\<rparr>)
      = s\<lparr>sm_world := w', sm_out := sm_out s @ concat (map svf_msg_bytes (map Tm (tm_queue (env_store (sw_env w)))))\<rparr>"
    by (auto simp: sim_tm_queue_def)
  then show "\<exists>w'. sim_drained w w' \<and> sim_tc_frame db n s = s\<lparr>sm_world := w',
      sm_out := sm_out s @ concat (map svf_msg_bytes (map Tm (tm_queue (env_store (sw_env w)))))\<rparr>"
    unfolding sim_tc_frame_def assms(3) [symmetric] by blast
qed

text \<open>What one command makes of the world and of the store it found empty.\<close>

definition sim_commanded :: "'a sim_srdb_scheme \<Rightarrow> u8 list \<Rightarrow> u64 \<Rightarrow> obsw_tc \<Rightarrow> sim_world \<Rightarrow> tm_item list \<Rightarrow> sim_world \<Rightarrow> bool" where
  "sim_commanded db b n tc w xs w' \<longleftrightarrow>
    (\<exists>rc. obsw_tc_dispatcher_feed (Some (sim_dispatcher db)) (Some b) n w = (rc, w')
      \<and> verified (if rc = OBSW_TC_OK then 0 else -1) xs
      \<and> (\<not> sim_gate tc w \<longrightarrow> rc = OBSW_TC_ERR_GATED \<and> xs = [S1 (Refused OBSW_S1_FAIL_MODE_GATED)]))
    \<and> env_does tc (sw_env w) xs (sw_env w')
    \<and> tm_queue (env_store (sw_env w')) = take 31 (item_packets (env_s1 (sw_env w)) tc xs)"

lemma sim_tc_commanded:
  fixes n :: u16
  assumes "sim_ok db s" "unat n \<le> 1024" "feed_tc (sm_frame s) (ucast n :: u64) = Some tc"
  obtains xs w where "sim_commanded db (sm_frame s) (ucast n) tc (sm_world s) xs w"
    "w = snd (obsw_tc_dispatcher_feed (Some (sim_dispatcher db)) (Some (sm_frame s)) (ucast n :: u64) (sm_world s))"
proof -
  let ?w = "sm_world s"
  have wf: "sim_wf db ?w" "unat (ucast n :: u64) \<le> length (sm_frame s)"
    using assms(1,2) by (simp_all add: sim_ok_def unat_ucast_u16)
  have "17 \<le> LENGTH(64)" by simp
  from sim_disp.command_verified [OF this wf assms(3)]
  obtain rc w' xs where f: "obsw_tc_dispatcher_feed (Some (sim_dispatcher db)) (Some (sm_frame s)) (ucast n :: u64) ?w = (rc, w')"
    "env_does tc (sw_env ?w) xs (sw_env w')" "verified (if rc = OBSW_TC_OK then 0 else -1) xs"
    "\<not> sim_gate tc ?w \<longrightarrow> rc = OBSW_TC_ERR_GATED \<and> xs = [S1 (Refused OBSW_S1_FAIL_MODE_GATED)]" by blast
  have "tm_queue (env_store (sw_env w')) = take 31 (item_packets (env_s1 (sw_env ?w)) tc xs)"
    using f(2) assms(1) by (simp add: env_does_def tm_offered_def sim_ok_def sim_tm_queue_def sim_wf_def)
  then have "sim_commanded db (sm_frame s) (ucast n) tc ?w xs w'"
    unfolding sim_commanded_def using f by blast
  then show thesis by (rule that) (simp add: f(1))
qed

subsection \<open>What an answer is\<close>

text \<open>
  How the state \<open>s\<close> answers the frame of type and body, with which messages, and what becomes
  of the state.  The buffer \<open>b\<close> has the body at its start and behind it what earlier frames
  left there; the user data of a command is a pointer into it.

  A command is dispatched in the world as it stands; its reports are those of its verification
  and of the service that ran it, with the message counter of S1 where the previous frame left
  it, and the store, empty before, takes the first 31.  A complete sensor frame runs a control
  cycle on its own bytes: the telemetry is what the stored commands, the monitoring and the
  housekeeping of that cycle left in the store, and the actuators obey the mode.  The sync byte
  ends every answer.
\<close>

inductive sim_served ::
  "libm \<Rightarrow> 'a sim_srdb_scheme \<Rightarrow> sim \<Rightarrow> u8 \<times> u8 list \<Rightarrow> svf_msg list \<Rightarrow> sim \<Rightarrow> bool" for m db where
  sim_served_command: "b = d @ drop (length d) (sm_frame s) \<Longrightarrow> feed_tc b (of_nat (length d) :: u64) = Some tc
    \<Longrightarrow> sim_commanded db b (of_nat (length d)) tc (sm_world s) xs w \<Longrightarrow> sim_drained w w'
    \<Longrightarrow> ms = map Tm (take 31 (item_packets (env_s1 (sw_env (sm_world s))) tc xs)) @ [Sync]
    \<Longrightarrow> sim_served m db s (SVF_FRAME_TC, d) ms
      (s\<lparr>sm_world := w', sm_frame := b, sm_out := sm_out s @ concat (map svf_msg_bytes ms)\<rparr>)"
| sim_served_no_command: "b = d @ drop (length d) (sm_frame s) \<Longrightarrow> feed_tc b (of_nat (length d) :: u64) = None
    \<Longrightarrow> sim_drained (sm_world s) w'
    \<Longrightarrow> sim_served m db s (SVF_FRAME_TC, d) [Sync]
      (s\<lparr>sm_world := w', sm_frame := b, sm_out := sm_out s @ svf_msg_bytes Sync\<rparr>)"
| sim_served_cycle: "b = d @ drop (length d) (sm_frame s) \<Longrightarrow> 47 \<le> length d
    \<Longrightarrow> sim_cycle_work m db (sensor_of_bytes d) (s\<lparr>sm_frame := b\<rparr>) = (act, s1) \<Longrightarrow> sim_drained (sm_world s1) w'
    \<Longrightarrow> sim_actuator_ok (sim_cycle_mode db s) (sim_cycle_dipole db s) (sensor_of_bytes d) act
    \<Longrightarrow> ms = map Tm (sim_tm_queue s1) @ [Actuator (actuator_bytes act), Sync]
    \<Longrightarrow> sim_served m db s (SVF_FRAME_SENSOR, d) ms
      (s1\<lparr>sm_world := w', sm_out := sm_out s @ concat (map svf_msg_bytes ms)\<rparr>)"
| sim_served_other: "b = d @ drop (length d) (sm_frame s) \<Longrightarrow> ty \<noteq> SVF_FRAME_TC \<Longrightarrow> ty = SVF_FRAME_SENSOR \<longrightarrow> length d < 47
    \<Longrightarrow> sim_served m db s (ty, d) [Sync] (s\<lparr>sm_frame := b, sm_out := sm_out s @ svf_msg_bytes Sync\<rparr>)"

inductive_cases sim_served_tcE: "sim_served m db s (SVF_FRAME_TC, d) ms s'"

lemma sim_out_frame_last:
  "s\<lparr>sm_frame := b, sm_out := out\<rparr> = s\<lparr>sm_out := out, sm_frame := b\<rparr>"
  "s\<lparr>sm_world := w, sm_frame := b, sm_out := out\<rparr> = s\<lparr>sm_frame := b, sm_world := w, sm_out := out\<rparr>"
  by simp_all

lemma sim_answers_sync:
  "sim_answers db s ms s' \<Longrightarrow> sim_answers db s (ms @ [Sync]) (s'\<lparr>sm_out := write_sync_byte (sm_out s')\<rparr>)"
  using sim_answers_snoc [of db s ms s' Sync] by (simp add: sim_writes)

lemma sim_answer_served:
  assumes "sim_ok db s1" "s1 = s\<lparr>sm_frame := b\<rparr>" "length d = unat n" "length d \<le> 1024" "b = d @ drop (length d) (sm_frame s)"
  obtains ms where "sim_answers db s1 ms (sim_answer m db ty n s1)" "sim_served m db s (ty, d) ms (sim_answer m db ty n s1)"
proof -
  have n: "(of_nat (length d) :: u64) = ucast n" by (simp add: assms(3))
  have same: "sm_world s1 = sm_world s" "sm_frame s1 = b" "sm_out s1 = sm_out s" by (simp_all add: assms(2))
  have mode: "sim_cycle_mode db s1 = sim_cycle_mode db s" "sim_cycle_dipole db s1 = sim_cycle_dipole db s"
    by (simp_all add: sim_cycle_mode_def sim_cycle_dipole_def same)
  have lt: "n < OBSW_SENSOR_FRAME_LEN \<longleftrightarrow> length d < 47" by (simp add: less_literal assms(3))
  have n1024: "unat n \<le> 1024" using assms(3,4) by simp
  consider (tc) "ty = SVF_FRAME_TC" | (cycle) "ty = SVF_FRAME_SENSOR" "47 \<le> length d"
    | (none) "ty \<noteq> SVF_FRAME_TC" "ty = SVF_FRAME_SENSOR \<longrightarrow> length d < 47" by fastforce
  then show thesis
  proof cases
    case tc
    define w where "w = snd (obsw_tc_dispatcher_feed (Some (sim_dispatcher db)) (Some (sm_frame s1)) (ucast n :: u64) (sm_world s1))"
    define ms where "ms = map Tm (tm_queue (env_store (sw_env w))) @ [Sync]"
    note ans = sim_tc_answers [OF assms(1) n1024 w_def]
    obtain w' where w': "sim_drained w w'" "sim_tc_frame db n s1 = s1\<lparr>sm_world := w',
        sm_out := sm_out s1 @ concat (map svf_msg_bytes (map Tm (tm_queue (env_store (sw_env w)))))\<rparr>"
      using ans(3) by blast
    have a: "sim_answer m db ty n s1 = s\<lparr>sm_world := w', sm_frame := b, sm_out := sm_out s @ concat (map svf_msg_bytes ms)\<rparr>"
      by (simp add: sim_answer_def tc Let_def w'(2) sim_writes ms_def same) (simp add: assms(2))
    have "sim_answers db s1 ms (sim_answer m db ty n s1)"
      using sim_answers_sync [OF ans(2)] by (simp add: sim_answer_def tc Let_def ms_def)
    moreover have "sim_served m db s (ty, d) ms (sim_answer m db ty n s1)"
    proof (cases "feed_tc b (ucast n :: u64)")
      case None
      then have "w = sm_world s" by (simp add: w_def feed_eq same)
      moreover have "tm_queue (env_store (sw_env (sm_world s))) = []"
        using assms(1) by (simp add: sim_ok_def sim_tm_queue_def same)
      ultimately show ?thesis
        unfolding a unfolding tc using sim_served_no_command [OF assms(5), of w' m db] None w'(1) by (simp add: n ms_def)
    next
      case (Some t)
      obtain xs v where v: "sim_commanded db b (ucast n) t (sm_world s) xs v" "v = w"
        using sim_tc_commanded [OF assms(1) n1024, of t] Some by (metis same(1,2) w_def)
      then have "ms = map Tm (take 31 (item_packets (env_s1 (sw_env (sm_world s))) t xs)) @ [Sync]"
        by (simp add: ms_def sim_commanded_def)
      then show ?thesis
        unfolding a unfolding tc using Some v w'(1) assms(5) by (intro sim_served_command) (simp_all add: n)
    qed
    ultimately show thesis by (rule that)
  next
    case cycle
    obtain act s2 where work: "sim_cycle_work m db (sensor_of_bytes d) s1 = (act, s2)" by fastforce
    have sn: "sensor_of_bytes (sm_frame s1) = sensor_of_bytes d"
      using sensor_of_bytes_take [OF cycle(2), of b] by (simp add: same assms(5))
    define ms where "ms = map Tm (sim_tm_queue s2) @ [Actuator (actuator_bytes act), Sync]"
    obtain w' where c: "sim_drained (sm_world s2) w'" "sim_cycle m db (sensor_of_bytes d) s1 = s2\<lparr>sm_world := w',
         sm_out := sm_out s1 @ concat (map svf_msg_bytes (map Tm (sim_tm_queue s2) @ [Actuator (actuator_bytes act)]))\<rparr>"
      "sim_answers db s1 (map Tm (sim_tm_queue s2) @ [Actuator (actuator_bytes act)]) (sim_cycle m db (sensor_of_bytes d) s1)"
      by (rule sim_cycle_answers [OF assms(1) work])
    have cyc: "sim_sensor_frame m db n s1 = sim_cycle m db (sensor_of_bytes d) s1"
      using cycle lt sn by (simp add: sim_sensor_frame_def obsw_sim_parse_sensor_def)
    have "sim_answers db s1 ms (sim_answer m db ty n s1)"
      using sim_answers_sync [OF c(3)] by (simp add: sim_answer_def cycle Let_def cyc ms_def)
    moreover have a: "sim_answer m db ty n s1 = s2\<lparr>sm_world := w', sm_out := sm_out s @ concat (map svf_msg_bytes ms)\<rparr>"
      by (simp add: sim_answer_def cycle Let_def cyc c(2) sim_writes ms_def same)
    have "sim_served m db s (ty, d) ms (sim_answer m db ty n s1)"
      unfolding a unfolding cycle(1)
      by (rule sim_served_cycle [OF assms(5) cycle(2) work [unfolded assms(2)] c(1)])
        (use sim_cycle_work_ok(6) [OF assms(1) work] in \<open>simp_all add: mode ms_def\<close>)
    ultimately show thesis by (rule that)
  next
    case none
    then have a: "sim_answer m db ty n s1 = s1\<lparr>sm_out := write_sync_byte (sm_out s1)\<rparr>"
      using lt by (auto simp: sim_answer_def sim_sensor_frame_def obsw_sim_parse_sensor_def)
    have "sim_answers db s1 ([] @ [Sync]) (sim_answer m db ty n s1)"
      unfolding a by (rule sim_answers_sync) (simp add: sim_answers_def assms(1))
    moreover have "sim_served m db s (ty, d) [Sync] (sim_answer m db ty n s1)"
      unfolding a using sim_served_other [OF assms(5) none, of m db] by (simp add: sim_writes assms(2))
    ultimately show thesis using that by simp
  qed
qed

subsection \<open>All frames\<close>

text \<open>The frames of an input, up to its end or to a length the reader refuses.\<close>

function sim_input :: "u8 list \<Rightarrow> (u8 \<times> u8 list) list" where
  "sim_input inp =
    (case obsw_sim_read_frame (replicate 1024 0) 1024 inp of
       (ty, buf, len, rest) \<Rightarrow> if ty = 0 then [] else (ty, take (unat len) buf) # sim_input rest)"
  by pat_completeness auto
termination by (relation "measure length") (auto dest!: sym [THEN sim_read_shorter])

declare sim_input.simps [simp del]

lemma sim_read_length:
  assumes "obsw_sim_read_frame buf n inp = (ty, buf', len, rest)" "unat n \<le> length buf"
  shows "length buf' = length buf"
  using assms
  by (auto simp: obsw_sim_read_frame_def fread_def Let_def not_less word_le_nat_alt min_def split: if_splits)

lemma sim_read_cases:
  assumes "length buf = 1024"
  obtains (eof) buf' len rest where "obsw_sim_read_frame buf 1024 inp = (0, buf', len, rest)" "length buf' = 1024"
      "sim_input inp = []"
  | (frame) ty d rest where "obsw_sim_read_frame buf 1024 inp = (ty, memcpy_at buf 0 d (length d), of_nat (length d), rest)"
      "ty \<noteq> 0" "length d \<le> 1024" "sim_input inp = (ty, d) # sim_input rest"
proof -
  have shape: "\<exists>d. d \<noteq> [] \<and> length d \<le> 1024 \<and> inp = frame_bytes ty d @ rest"
    if "obsw_sim_read_frame b 1024 inp = (ty, b', len, rest)" "ty \<noteq> 0" "length b = 1024" for b ty b' len rest
  proof -
    have n: "unat (1024 :: u16) \<le> length b" using that(3) by simp
    note c = sim_read_consumes [OF that(1,2) n]
    obtain d where d: "inp = frame_bytes ty d @ rest" "length d = unat len" "0 < len" "len \<le> 1024"
      using c by blast
    then have "d \<noteq> []" by (auto simp: word_gt_0 unat_eq_0 dest: sym)
    moreover have "length d \<le> 1024" using d(2,4) by (simp add: word_le_nat_alt)
    ultimately show ?thesis using d(1) by blast
  qed
  obtain ty buf' len rest where r: "obsw_sim_read_frame buf 1024 inp = (ty, buf', len, rest)"
    by (metis prod_cases4)
  show thesis
  proof (cases "ty = 0")
    case False
    obtain d where d: "d \<noteq> []" "length d \<le> 1024" "inp = frame_bytes ty d @ rest"
      using shape [OF r False assms] by blast
    have again: "obsw_sim_read_frame b 1024 inp = (ty, memcpy_at b 0 d (length d), of_nat (length d), rest)" for b
      unfolding d(3) using d(1,2) by (intro sim_read_back) simp_all
    have "unat (of_nat (length d) :: u16) = length d" using d(2) by (intro unat_of_nat_small) simp
    then have "sim_input inp = (ty, d) # sim_input rest"
      using False by (simp add: sim_input.simps [of inp] again memcpy_at_def)
    with again False d(2) show thesis by (intro frame) simp_all
  next
    case True
    have "sim_input inp = []"
    proof (rule ccontr)
      assume "sim_input inp \<noteq> []"
      then obtain ty2 b2 len2 rest2 where r2: "obsw_sim_read_frame (replicate 1024 0) 1024 inp = (ty2, b2, len2, rest2)"
        "ty2 \<noteq> 0" by (auto simp: sim_input.simps [of inp] split: prod.splits if_splits)
      obtain d where d: "d \<noteq> []" "length d \<le> 1024" "inp = frame_bytes ty2 d @ rest2"
        using shape [OF r2] by auto
      then have "fst (obsw_sim_read_frame buf 1024 inp) = ty2" by (simp add: sim_read_back)
      with r True r2(2) show False by simp
    qed
    with r True sim_read_length [OF r] assms show thesis by (intro eof) simp_all
  qed
qed

lemma sim_loop_answers:
  assumes "sim_ok db s"
  shows "\<exists>answers s1 b. sim_answers db s (concat answers) (sim_loop m db inp s)
    \<and> frames_served (sim_served m db) s (sim_input inp) answers s1 \<and> sim_loop m db inp s = s1\<lparr>sm_frame := b\<rparr>"
  using assms
proof (induction "length inp" arbitrary: inp s rule: less_induct)
  case less
  have len: "length (sm_frame s) = 1024" using less.prems by (simp add: sim_ok_def)
  show ?case
  proof (cases rule: sim_read_cases [OF len, of inp])
    case eof: (1 buf' len rest)
    then have "sim_loop m db inp s = s\<lparr>sm_frame := buf'\<rparr>" by (simp add: sim_loop.simps [of m db inp])
    moreover have "sim_answers db s [] (s\<lparr>sm_frame := buf'\<rparr>)"
      using less.prems eof(2) by (simp add: sim_answers_def sim_ok_def sim_tm_queue_def sim_idle_def)
    ultimately show ?thesis using eof(3) by (intro exI [of _ "[]"] exI [of _ s] exI [of _ buf']) simp
  next
    case frame: (2 ty d rest)
    define b where "b = memcpy_at (sm_frame s) 0 d (length d)"
    define s1 where "s1 = s\<lparr>sm_frame := b\<rparr>"
    define s2 where "s2 = sim_answer m db ty (of_nat (length d)) s1"
    have s1: "sim_ok db s1" "sm_out s1 = sm_out s"
      using less.prems frame(3) by (simp_all add: s1_def b_def sim_ok_def sim_tm_queue_def sim_idle_def)
    have n: "length d = unat (of_nat (length d) :: u16)"
      using frame(3) by (intro unat_of_nat_small [symmetric]) simp
    have b: "b = d @ drop (length d) (sm_frame s)" by (simp add: b_def memcpy_at_def)
    obtain ms where ms: "sim_answers db s1 ms s2" "sim_served m db s (ty, d) ms s2"
      unfolding s2_def by (rule sim_answer_served [OF s1(1) s1_def n frame(3) b])
    have "length rest < length inp" using frame(1,2) sim_read_shorter by blast
    moreover have "sim_ok db s2" using ms(1) by (simp add: sim_answers_def)
    ultimately obtain answers s3 b3 where
      a: "sim_answers db s2 (concat answers) (sim_loop m db rest s2)"
        "frames_served (sim_served m db) s2 (sim_input rest) answers s3" "sim_loop m db rest s2 = s3\<lparr>sm_frame := b3\<rparr>"
      using less.hyps by blast
    have loop: "sim_loop m db inp s = sim_loop m db rest s2"
      using frame(1,2) by (simp add: sim_loop.simps [of m db inp] s1_def s2_def b_def)
    then have "sim_answers db s (concat (ms # answers)) (sim_loop m db inp s)"
      using ms(1) a(1) s1(2) by (simp add: sim_answers_def)
    moreover have "frames_served (sim_served m db) s (sim_input inp) (ms # answers) s3"
      using ms(2) a(2) by (auto simp: frame(4))
    ultimately show ?thesis using a(3) loop by (intro exI [of _ "ms # answers"] exI [of _ s3] exI [of _ b3]) simp
  qed
qed

subsection \<open>The initial state\<close>

text \<open>What \<open>sim_bind\<close> leaves of a boot-time set.\<close>

definition s3_boot_shape :: "obsw_s3_set \<Rightarrow> u8 \<times> u8 \<times> nat option" where
  "s3_boot_shape x = (set_id x, set_param_count x, case set_params x of Boot ps \<Rightarrow> Some (length ps) | Pool _ \<Rightarrow> None)"

lemma sim_bind_shape:
  "sim_bind szs xs = Some ys \<Longrightarrow> map s3_boot_shape ys = map s3_boot_shape xs"
proof (induction szs xs arbitrary: ys rule: sim_bind.induct)
  case (3 sz szs x xs)
  obtain ok y where b: "obsw_s3_bind_sizes (Some x) (Some sz) (set_param_count x) = (ok, y)" by fastforce
  then have ok: ok using "3.prems" by (auto split: if_splits)
  with "3.prems" b obtain zs where z: "sim_bind szs xs = Some zs" "ys = the y # zs" by auto
  obtain ps where ps: "set_params x = Boot ps"
    using b ok by (cases "set_params x") (auto simp: obsw_s3_bind_sizes_def)
  have bt: "obsw_s3_bind_sizes (Some x) (Some sz) (set_param_count x) = (True, y)" using b ok by simp
  obtain ps' where "y = Some (x\<lparr>set_params := Boot ps'\<rparr>)" "length ps' = length ps"
    by (rule bind_sizes_Boot [OF bt ps])
  then have "s3_boot_shape (the y) = s3_boot_shape x" using ps by (simp add: s3_boot_shape_def)
  moreover have "map s3_boot_shape zs = map s3_boot_shape xs" using "3.IH" b ok z(1) by auto
  ultimately show ?case by (simp add: z(2))
qed auto

text \<open>The identifiers of the five sets have to differ, as they do in a reference database.\<close>

definition sim_db_ok :: "'a sim_srdb_scheme \<Rightarrow> bool" where
  "sim_db_ok db \<longleftrightarrow> distinct [srdb_hk_nominal_hk db, srdb_hk_fdir_hk db, srdb_hk_dhs_obc_hk db,
     srdb_hk_aocs_hk db, srdb_hk_aocs_state_hk db]"

lemma sim_s3_init_wf:
  assumes "sim_db_ok db" "sim_bind (sim_hk_sizes db) (sim_hk_sets db) = Some sets"
    and "s3_sets s = sets" "s3_set_count s = 5" "s3_set_capacity s = 9" "s3_pool_len s = 32" "s3_pool_used s = 0"
    and "\<And>p. s3_param_pool s = Some p \<Longrightarrow> length p = 32"
  shows "s3_wf s"
proof -
  note sh = sim_bind_shape [OF assms(2)]
  have len: "length sets = 9" using map_eq_imp_length_eq [OF sh] by (simp add: sim_hk_sets_def)
  have shapes: "map s3_boot_shape (s3_used s) = [(srdb_hk_nominal_hk db, 4, Some 4), (srdb_hk_fdir_hk db, 3, Some 3),
      (srdb_hk_dhs_obc_hk db, 7, Some 7), (srdb_hk_aocs_hk db, 3, Some 3), (srdb_hk_aocs_state_hk db, 3, Some 3)]"
    using sh by (simp add: s3_used_def assms(3,4) take_map [symmetric] sim_hk_sets_def sim_hk_set_def s3_boot_shape_def)
  have id: "set_id = fst \<circ> s3_boot_shape" by (auto simp: s3_boot_shape_def)
  have ids: "distinct (map set_id (s3_used s))"
    using assms(1) unfolding id by (simp only: map_map [symmetric] shapes) (simp add: sim_db_ok_def)
  have sets: "\<exists>ps. set_params x = Boot ps \<and> unat (set_param_count x) = length ps \<and> length ps \<le> 7" if "x \<in> set (s3_used s)" for x
  proof -
    have "s3_boot_shape x \<in> set (map s3_boot_shape (s3_used s))" using that by simp
    then show ?thesis unfolding shapes by (auto simp: s3_boot_shape_def split: s3_params.splits)
  qed
  have "s3_packed k (filter (\<lambda>_. True) xs) k" if "\<forall>x \<in> set xs. \<exists>ps. set_params x = Boot ps" for xs k
    using that by (induction xs) auto
  from this [of "s3_used s" 0] sets have packed: "s3_packed 0 (s3_used s) 0" by auto
  have "s3_set_wf s x" if "x \<in> set (s3_used s)" for x
    using sets [OF that] s3_boot_descr_size [of s x] by (auto simp: s3_set_wf_def)
  with ids packed len assms(3-8) show ?thesis by (simp add: s3_wf_def)
qed

lemma sim_init_wf:
  assumes "sim_db_ok db" "sim_main_init db patch_ram mem = Some w"
  shows "sim_wf db w" "tm_queue (env_store (sw_env w)) = []" "fsm_mode (sw_fsm w) = OBSW_FSM_SAFE"
proof -
  obtain sets where b: "sim_bind (sim_hk_sizes db) (sim_hk_sets db) = Some sets"
    using assms(2) by (auto simp: sim_main_init_def Let_def split: option.splits prod.splits)
  note i = assms(2) [unfolded sim_main_init_def Let_def b option.case, simplified case_prod_beta option.inject]
  have store: "store_packets (tm_store_bss\<lparr>ts_head := 0, ts_tail := 0\<rparr>) = []" "store_wf (tm_store_bss\<lparr>ts_head := 0, ts_tail := 0\<rparr>)"
    by (simp_all add: store_packets_def store_fill_def tm_store_bss_def store_wf_def slot_wf_def list_all_iff)
  have "s3_wf (fst sim_s3 w)"
    unfolding i [symmetric] by (rule sim_s3_init_wf [OF assms(1) b]) (simp_all add: sim_s3_def)
  moreover have "sim_fsm_ok db (sw_fsm w)" "fsm_mode (sw_fsm w) = OBSW_FSM_SAFE"
    unfolding i [symmetric] by (simp_all add: sim_fsm_ok_def obsw_fsm_init_def obsw_fsm_to_safe_def)
  ultimately show "sim_wf db w" "tm_queue (env_store (sw_env w)) = []" "fsm_mode (sw_fsm w) = OBSW_FSM_SAFE"
    using store unfolding i [symmetric]
    by (simp_all add: sim_wf_def sim_s12_def s20_table_ids_def sim_s20_params_def
        obsw_s12_init_def s12_wf_def s12_used_def obsw_s19_init_def s19_wf_def s19_used_def
        obsw_s11_init_def s11_wf_def s11_used_def obsw_tm_store_init_def)
qed

lemma sim_start_ok:
  assumes "sim_db_ok db" "sim_main_init db patch_ram mem = Some w" "length frame = 1024"
  shows "sim_ok db (sim_start db frame w)" "sm_out (sim_start db frame w) = []"
  using sim_init_wf [OF assms(1,2)] assms(3)
  by (simp_all add: sim_ok_def sim_start_def Let_def sim_tm_queue_def sim_idle_def sim_hk0_def obsw_wd_init_def
      obsw_adcs_init_def)

text \<open>
  The loop kicks the watchdog and never ticks it, and no statement counts the kicks: the
  countdown that is reported stays at its initial value, the kick count at zero, and the
  watchdog cannot expire.
\<close>

lemma sim_watchdog_idle:
  assumes "sim_db_ok db" "length frame = 1024" "sim_main m db patch_ram mem frame inp = (0, Some s')"
  shows "wd_countdown (sm_wd s') = 30 \<and> \<not> wd_expired (sm_wd s') \<and> param_wd_kick_count (sm_hk s') = 0"
proof -
  obtain w where w: "sim_main_init db patch_ram mem = Some w" "s' = sim_loop m db inp (sim_start db frame w)"
    using assms(3) by (auto simp: sim_main_def split: option.splits)
  then show ?thesis
    using sim_loop_answers [OF sim_start_ok(1) [OF assms(1) w(1) assms(2)], of m inp]
    by (auto simp: sim_answers_def sim_ok_def sim_idle_def)
qed

subsection \<open>A database and an input for the examples\<close>

definition sim_example_srdb :: sim_srdb where
  "sim_example_srdb = \<lparr>srdb_version = ''1.0'', srdb_apid_default = 0x10, srdb_safe_tc_whitelist = [], srdb_safe_tc_count = 0,
     srdb_event_boot_complete = 1, srdb_event_safe_mode_entry = 2, srdb_event_nominal_entry = 3,
     srdb_event_standby_entry = 4, srdb_event_temperature_hard_limit = 5, srdb_event_power_fault_3v3 = 6,
     srdb_event_power_fault_5v = 7, srdb_hk_fdir_hk = 2, srdb_hk_aocs_bdot_hk = 7,
     srdb_hk_fdir_hk_sizes = [2, 4, 4], srdb_hk_aocs_bdot_hk_sizes = [4, 4, 4, 4, 4, 4, 1],
     srdb_tc_set_obt_svc = 9, srdb_tc_set_obt_subsvc = 128, srdb_param_obc_uptime = 1,
     srdb_param_safe_mode_entry_count = 2, srdb_param_watchdog_kick_count = 3, srdb_param_bdot_gain = 4,
     srdb_param_bdot_hpf_tau = 5, srdb_param_adcs_kp = 6, srdb_param_adcs_kd = 7,
     srdb_hk_nominal_hk = 1, srdb_hk_dhs_obc_hk = 3, srdb_hk_aocs_hk = 4, srdb_hk_aocs_state_hk = 6,
     srdb_hk_nominal_hk_sizes = [2, 2, 2, 4], srdb_hk_dhs_obc_hk_sizes = [1, 4, 1, 1, 1, 2, 1],
     srdb_hk_aocs_hk_sizes = [4, 4, 4], srdb_hk_aocs_state_hk_sizes = [4, 4, 1],
     srdb_safe_trigger_count = 0, srdb_safe_trigger_ids = [], srdb_event_watchdog_expiry = 8,
     srdb_param_obc_temperature = 8, srdb_param_obc_voltage_3v3 = 9, srdb_param_obc_voltage_5v = 10,
     srdb_param_watchdog_ticks_remaining = 11, srdb_param_orbit_altitude_km = 12,
     srdb_param_orbit_inclination_deg = 13, srdb_param_sc_inertia_xx = 14, srdb_param_sc_inertia_yy = 15,
     srdb_param_sc_inertia_zz = 16, srdb_param_mtq_max_dipole = 17, srdb_param_sc_omega_x0 = 18,
     srdb_param_sc_omega_y0 = 19, srdb_param_sc_omega_z0 = 20,
     srdb_enum_obc_mode_standby = 1, srdb_enum_obc_mode_safe = 2, srdb_enum_obc_mode_nominal = 3,
     srdb_enum_obc_watchdog_status_nominal = 1, srdb_enum_aocs_controller_off = 0,
     srdb_enum_aocs_controller_bdot = 1, srdb_enum_aocs_controller_pd = 2\<rparr>"

definition sim_example_libm :: libm where
  "sim_example_libm = \<lparr>lm_acosf = (\<lambda>_. 0), lm_sinf = (\<lambda>_. 0), lm_cosf = (\<lambda>_. f32_one), lm_u32_undefined = (\<lambda>_. 0)\<rparr>"

lemma sim_example_init:
  obtains w where "sim_main_init sim_example_srdb 0 (\<lambda>_. 0) = Some w" "sim_db_ok sim_example_srdb"
proof -
  have sizes: "\<exists>y. obsw_s3_bind_sizes (Some (sim_hk_set sid k n iv)) (Some sz) (of_nat n) = (True, y)"
    if "unat (of_nat n :: u8) = length sz" "\<forall>z \<in> set sz. z = 1 \<or> z = 2 \<or> z = 4" for sid k n iv sz
    using that by (auto simp: obsw_s3_bind_sizes_def sim_hk_set_def s3_size_of_def list_all_iff)
  have "\<exists>ys. sim_bind (sim_hk_sizes sim_example_srdb) (sim_hk_sets sim_example_srdb) = Some ys"
    using sizes [of 4 "[2, 2, 2, 4]" 1 0 10] sizes [of 3 "[2, 4, 4]" 2 4 60]
      sizes [of 7 "[1, 4, 1, 1, 1, 2, 1]" 3 7 10] sizes [of 3 "[4, 4, 4]" 4 14 5] sizes [of 3 "[4, 4, 1]" 6 17 5]
    by (auto simp: sim_hk_sizes_def sim_hk_sets_def sim_example_srdb_def sim_hk_set_def)
  then show thesis
    using that by (auto simp: sim_main_init_def Let_def sim_db_ok_def sim_example_srdb_def case_prod_beta)
qed

text \<open>A ping, TC(17,1), which this database does not admit in SAFE, the mode after the start.\<close>

definition sim_example_ping :: "u8 list" where
  "sim_example_ping = [0x18, 0x10, 0xC0, 0, 0, 4, 0x20, 17, 1, 0, 0]"

definition sim_example_tc :: obsw_tc where
  "sim_example_tc = \<lparr>tc_apid = 0x10, tc_service = 17, tc_subservice = 1,
     tc_seq_count = 0, tc_user_data = None, tc_user_data_len = 0\<rparr>"

lemma sim_example_ping_simps [simp]: "length sim_example_ping = 11" "sim_example_ping \<noteq> []"
  by (simp_all add: sim_example_ping_def)

lemma sim_example_feed:
  "feed_tc (sim_example_ping @ r) (11 :: u64) = Some sim_example_tc"
  "feed_tc (sim_example_ping @ r) (11 :: u32) = Some sim_example_tc"
  by (simp_all add: sim_example_ping_def sim_example_tc_def feed_tc_def obsw_sp_parse_def obsw_sp_decode_primary_def
      obsw_sp_total_len_def sp_header_fields_def tc_of_packet_def sp_payload_bytes_def Let_def)

lemma sim_example_gated:
  assumes "sim_main_init sim_example_srdb 0 (\<lambda>_. 0) = Some w"
  obtains c where "env_s1 (sw_env w) = Some c" "\<not> sim_gate sim_example_tc w"
proof -
  have "sim_db_ok sim_example_srdb" by (simp add: sim_db_ok_def sim_example_srdb_def)
  from sim_init_wf [OF this assms] have "\<not> sim_gate sim_example_tc w"
    by (simp add: sim_wf_def sim_gate_def obsw_fsm_tc_gate_def obsw_fsm_tc_allowed_def sim_fsm_ok_def sim_fsm_config_def
        sim_example_srdb_def sim_example_tc_def)
  moreover obtain c where "env_s1 (sw_env w) = Some c"
    using assms by (auto simp: sim_main_init_def Let_def case_prod_beta split: option.splits)
  ultimately show thesis using that by blast
qed

subsection \<open>Properties\<close>

text \<open>
  C3: The simulator answers every frame.  Whatever arrives on standard input, \<open>main\<close> returns
  after reading it, and what it wrote to standard output decodes, by the frame lengths alone,
  into one answer per frame read, each given from the state the answer before it left:  a
  command is dispatched and answered by the reports of its own verification and execution, up
  to the 31 packets of the store, a command the mode does not admit by the refusal as gated
  alone; a complete sensor frame runs a control cycle, and is answered by all the telemetry of
  that cycle and the one actuator frame it computed, which obeys the mode; anything else
  changes nothing and is answered by the end-of-tick byte alone, which ends every answer.  At
  the end no telemetry is left behind, and all services of the on-board software are in order.
\<close>

theorem sim_answers_every_frame:
  assumes "sim_db_ok db" "length frame = 1024" "sim_main m db patch_ram mem frame inp = (0, Some s')"
  shows "\<exists>w answers s1 b. sim_main_init db patch_ram mem = Some w
    \<and> frames_served (sim_served m db) (sim_start db frame w) (sim_input inp) answers s1 \<and> s' = s1\<lparr>sm_frame := b\<rparr>
    \<and> svf_decode (sm_out s') = Some (concat answers)
    \<and> sim_wf db (sm_world s') \<and> sim_tm_queue s' = []"
proof -
  obtain w where w: "sim_main_init db patch_ram mem = Some w" "s' = sim_loop m db inp (sim_start db frame w)"
    using assms(3) by (auto simp: sim_main_def split: option.splits)
  note st = sim_start_ok [OF assms(1) w(1) assms(2)]
  obtain answers s1 b where a: "sim_answers db (sim_start db frame w) (concat answers) s'"
    "frames_served (sim_served m db) (sim_start db frame w) (sim_input inp) answers s1" "s' = s1\<lparr>sm_frame := b\<rparr>"
    using sim_loop_answers [OF st(1), of m inp] w(2) by blast
  then have "svf_decode (sm_out s') = Some (concat answers)"
    using svf_decode_stream [of "concat answers" "[]"] st(2) by (simp add: sim_answers_def svf_decode.simps)
  with a w(1) show ?thesis
    by (intro exI [of _ w] exI [of _ answers] exI [of _ s1] exI [of _ b]) (simp add: sim_answers_def sim_ok_def)
qed

lemma sim_answers_every_frame_witness:
  "\<exists>s' c. sim_main sim_example_libm sim_example_srdb 0 (\<lambda>_. 0) (replicate 1024 0)
        (frame_bytes SVF_FRAME_TC sim_example_ping @ [1, 0]) = (0, Some s')
    \<and> svf_decode (sm_out s') = Some [Tm (s1_packet c sim_example_tc (Refused OBSW_S1_FAIL_MODE_GATED)), Sync]"
proof -
  define inp :: "u8 list" where "inp = frame_bytes SVF_FRAME_TC sim_example_ping @ [1, 0]"
  obtain w where w: "sim_main_init sim_example_srdb 0 (\<lambda>_. 0) = Some w" "sim_db_ok sim_example_srdb"
    by (rule sim_example_init)
  then obtain s' where s': "sim_main sim_example_libm sim_example_srdb 0 (\<lambda>_. 0) (replicate 1024 0) inp = (0, Some s')"
    by (simp add: sim_main_def)
  obtain c where c: "env_s1 (sw_env w) = Some c" "\<not> sim_gate sim_example_tc w" by (rule sim_example_gated [OF w(1)])
  have "sim_input [1, 0] = []" by (simp add: sim_input.simps [of "[1, 0]"] obsw_sim_read_frame_def fread_def)
  then have i: "sim_input inp = [(SVF_FRAME_TC, sim_example_ping)]"
    using sim_read_back [of sim_example_ping 1024 "replicate 1024 0" SVF_FRAME_TC "[1, 0]"]
    by (simp add: inp_def sim_input.simps [of "frame_bytes SVF_FRAME_TC sim_example_ping @ [1, 0]"] memcpy_at_def)
  have l: "length (replicate 1024 (0 :: u8)) = 1024" by simp
  obtain answers s1 where a: "svf_decode (sm_out s') = Some (concat answers)"
    "frames_served (sim_served sim_example_libm sim_example_srdb) (sim_start sim_example_srdb (replicate 1024 0) w)
      (sim_input inp) answers s1"
    using sim_answers_every_frame [OF w(2) l s'] w(1) by auto
  then obtain ms where ms: "answers = [ms]" "sim_served sim_example_libm sim_example_srdb
      (sim_start sim_example_srdb (replicate 1024 0) w) (SVF_FRAME_TC, sim_example_ping) ms s1"
    unfolding i by auto
  have world: "sm_world (sim_start sim_example_srdb (replicate 1024 0) w) = w" by (simp add: sim_start_def Let_def)
  have feed: "feed_tc b (11 :: u64) = Some sim_example_tc"
    if "b = sim_example_ping @ r" for b r
    using sim_example_feed(1) that by simp
  from ms(2) have "ms = [Tm (s1_packet c sim_example_tc (Refused OBSW_S1_FAIL_MODE_GATED)), Sync]"
    by (cases rule: sim_served_tcE) (auto simp: feed world c sim_commanded_def)
  then show ?thesis using a(1) ms(1) s' unfolding inp_def by auto
qed

text \<open>
  C25: The actuators obey the mode.  A complete sensor frame is answered by an actuator frame
  with its time stamp in which, for the mode the stored commands of the cycle leave: in
  NOMINAL with valid attitude and rate, each wheel torque is within 0.2 Nm or a NaN and the
  dipoles are zero; in SAFE with a valid field, each dipole is within the commanded limit, if
  that is neither negative nor a NaN, or is itself a NaN, and the torques are zero; in every
  other case both are zero.
\<close>

theorem sim_actuators_obey_mode:
  assumes "sim_ok db s" "take 47 (sm_frame s) = sensor_bytes sn" "47 \<le> unat n"
  shows "\<exists>tms act. sm_out (sim_answer m db SVF_FRAME_SENSOR n s)
      = sm_out s @ concat (map svf_msg_bytes (map Tm tms @ [Actuator (actuator_bytes act), Sync]))
    \<and> sim_actuator_ok (sim_cycle_mode db s) (sim_cycle_dipole db s) sn act"
proof -
  have "sm_frame s = sensor_bytes sn @ drop 47 (sm_frame s)"
    unfolding assms(2) [symmetric] by simp
  then have sn: "sensor_of_bytes (sm_frame s) = sn" by (metis sensor_of_bytes_bytes)
  obtain act s1 where work: "sim_cycle_work m db sn s = (act, s1)" by fastforce
  have r: "sim_answers db s (map Tm (sim_tm_queue s1) @ [Actuator (actuator_bytes act)]) (sim_cycle m db sn s)"
    using sim_cycle_answers [OF assms(1) work] by metis
  have "\<not> n < OBSW_SENSOR_FRAME_LEN" using assms(3) by (simp add: less_literal)
  then have "sim_sensor_frame m db n s = sim_cycle m db sn s"
    by (simp add: sim_sensor_frame_def obsw_sim_parse_sensor_def sn)
  with r sim_cycle_work_ok(6) [OF assms(1) work] show ?thesis
    by (intro exI [of _ "sim_tm_queue s1"] exI [of _ act]) (simp add: sim_answer_def Let_def sim_writes sim_answers_def)
qed

lemma sim_actuators_obey_mode_witness:
  "\<exists>s act tms. sim_cycle_mode sim_example_srdb s = OBSW_FSM_SAFE
    \<and> sm_out (sim_answer sim_example_libm sim_example_srdb SVF_FRAME_SENSOR 47 s)
      = concat (map svf_msg_bytes (map Tm tms @ [Actuator (actuator_bytes act), Sync]))
    \<and> rw_torque_x act = 0"
proof -
  obtain w where w: "sim_main_init sim_example_srdb 0 (\<lambda>_. 0) = Some w" "sim_db_ok sim_example_srdb"
    by (rule sim_example_init)
  define sn where "sn = sensor_of_bytes (replicate 47 0)"
  define s where "s = sim_start sim_example_srdb (sensor_bytes sn @ replicate 977 0) w"
  have ok: "sim_ok sim_example_srdb s" "sm_out s = []"
    using sim_start_ok [OF w(2,1), of "sensor_bytes sn @ replicate 977 0"] by (simp_all add: s_def)
  have fr: "take 47 (sm_frame s) = sensor_bytes sn" "sm_world s = w"
    by (simp_all add: s_def sim_start_def Let_def)
  have idle: "s11_count (sw_s11 w) = 0" "s19_queued (sw_s19 w) = 0"
    using w(1) by (auto simp: sim_main_init_def Let_def obsw_s11_init_def obsw_s19_init_def case_prod_beta split: option.splits)
  have "sim_run_stored sim_example_srdb w = w\<lparr>sw_s19 := (sw_s19 w)\<lparr>s19_queued := 0\<rparr>\<rparr> \<or> sim_run_stored sim_example_srdb w = w"
    using idle by (auto simp: sim_run_stored_def obsw_s11_run_def obsw_s19_run_def sim_s11_def sim_s19_def Let_def)
  then have md: "sim_cycle_mode sim_example_srdb s = OBSW_FSM_SAFE"
    using sim_init_wf(3) [OF w(2,1)] fr(2) by (auto simp: sim_cycle_mode_def)
  have "(47::nat) \<le> unat (47 :: u16)" by simp
  from sim_actuators_obey_mode [OF ok(1) fr(1) this, of sim_example_libm] md ok(2) show ?thesis
    by (force simp: sim_actuator_ok_def)
qed

text \<open>
  C26: A telecommand is verified in its own answer.  A frame that carries a command is answered
  by the reports of its execution in the order they were made and the end-of-tick byte: one
  TM(1,2), or TM(1,1) and a closing TM(1,7) or TM(1,8) with what the service sent between
  them, cut only by the 31 packets the store holds; and a command the mode does not admit by
  the refusal as gated alone.
\<close>

theorem sim_tc_answered:
  assumes "sim_ok db s" "unat n \<le> 1024" "feed_tc (sm_frame s) (ucast n :: u64) = Some tc"
  shows "\<exists>rc xs. sm_out (sim_answer m db SVF_FRAME_TC n s)
      = sm_out s @ concat (map svf_msg_bytes (map Tm (take 31 (item_packets (env_s1 (sw_env (sm_world s))) tc xs)) @ [Sync]))
    \<and> verified rc xs
    \<and> (\<not> sim_gate tc (sm_world s) \<longrightarrow> xs = [S1 (Refused OBSW_S1_FAIL_MODE_GATED)])"
proof -
  obtain xs w where c: "sim_commanded db (sm_frame s) (ucast n) tc (sm_world s) xs w"
    "w = snd (obsw_tc_dispatcher_feed (Some (sim_dispatcher db)) (Some (sm_frame s)) (ucast n :: u64) (sm_world s))"
    by (rule sim_tc_commanded [OF assms])
  then obtain rc where "verified rc xs" "\<not> sim_gate tc (sm_world s) \<longrightarrow> xs = [S1 (Refused OBSW_S1_FAIL_MODE_GATED)]"
    "tm_queue (env_store (sw_env w)) = take 31 (item_packets (env_s1 (sw_env (sm_world s))) tc xs)"
    unfolding sim_commanded_def by blast
  then show ?thesis
    using sim_tc_answers(2) [OF assms(1,2) c(2)]
    by (intro exI [of _ rc] exI [of _ xs])
      (simp add: sim_answer_def Let_def sim_writes sim_answers_def)
qed

lemma sim_tc_answered_witness:
  "\<exists>s c. sm_out (sim_answer sim_example_libm sim_example_srdb SVF_FRAME_TC 11 s)
    = concat (map svf_msg_bytes ([Tm (s1_packet c \<lparr>tc_apid = 0x10, tc_service = 17, tc_subservice = 1,
        tc_seq_count = 0, tc_user_data = None, tc_user_data_len = 0\<rparr> (Refused OBSW_S1_FAIL_MODE_GATED)), Sync]))"
proof -
  obtain w where w: "sim_main_init sim_example_srdb 0 (\<lambda>_. 0) = Some w" "sim_db_ok sim_example_srdb"
    by (rule sim_example_init)
  obtain c where c: "env_s1 (sw_env w) = Some c" "\<not> sim_gate sim_example_tc w" by (rule sim_example_gated [OF w(1)])
  define s where "s = sim_start sim_example_srdb (sim_example_ping @ replicate 1013 0) w"
  have ok: "sim_ok sim_example_srdb s" "sm_out s = []"
    using sim_start_ok [OF w(2,1), of "sim_example_ping @ replicate 1013 0"] by (simp_all add: s_def)
  have s: "sm_world s = w" "sm_frame s = sim_example_ping @ replicate 1013 0" by (simp_all add: s_def sim_start_def Let_def)
  have f: "feed_tc (sm_frame s) (ucast (11 :: u16) :: u64) = Some sim_example_tc"
    using sim_example_feed by (simp add: s)
  have n: "unat (11 :: u16) \<le> 1024" by simp
  from sim_tc_answered [OF ok(1) n f, of sim_example_libm] c ok(2) show ?thesis
    by (auto simp: s sim_example_tc_def [symmetric])
qed

end
