(* ===== verification/Lcd.thy ===== *)
theory Lcd
  imports Obsw_Prelude
begin

section \<open>The LCD driver of the STM32H7 board\<close>

text \<open>
  \<^verbatim>\<open>src/hal/stm32h7/lcd.c\<close>.  Every function of the driver is the list of what it does to the
  pins and to the SPI controller, in order: the chip select and data/command lines that
  \<open>CS_LOW\<close>, \<open>CS_HIGH\<close>, \<open>DC_CMD\<close> and \<open>DC_DATA\<close> drive, the backlight, a call of
  \<open>obsw_spi4_write\<close> with its bytes, a changed configuration register, and the waits.  The two
  operations on the interrupt mask are those of the callers of the driver.

  To state what the driver achieves, the second part decodes such a list as the display
  controller of the panel is documented to: a byte sent with the data/command line low is
  a command, the bytes sent with it high are its parameters, column and row address set
  select a window, and memory write fills the window row by row with 16-bit pixels.
\<close>

datatype lcd_op =
    CS_LOW | CS_HIGH | DC_CMD | DC_DATA | BL_ON | BL_OFF
  | Spi4_write "u8 list"
  | Change_reg u32 u32 u32
  | Spin_ms u32
  | Task_delay_ms u32
  | Enter_critical | Exit_critical

abbreviation (input) ST_SWRESET :: u8 where "ST_SWRESET \<equiv> 0x01"
abbreviation (input) ST_SLPOUT :: u8 where "ST_SLPOUT \<equiv> 0x11"
abbreviation (input) ST_NORON :: u8 where "ST_NORON \<equiv> 0x13"
abbreviation (input) ST_INVON :: u8 where "ST_INVON \<equiv> 0x21"
abbreviation (input) ST_DISPON :: u8 where "ST_DISPON \<equiv> 0x29"
abbreviation (input) ST_CASET :: u8 where "ST_CASET \<equiv> 0x2A"
abbreviation (input) ST_RASET :: u8 where "ST_RASET \<equiv> 0x2B"
abbreviation (input) ST_RAMWR :: u8 where "ST_RAMWR \<equiv> 0x2C"
abbreviation (input) ST_MADCTL :: u8 where "ST_MADCTL \<equiv> 0x36"
abbreviation (input) ST_COLMOD :: u8 where "ST_COLMOD \<equiv> 0x3A"
abbreviation (input) ST_FRMCTR1 :: u8 where "ST_FRMCTR1 \<equiv> 0xB1"
abbreviation (input) ST_FRMCTR2 :: u8 where "ST_FRMCTR2 \<equiv> 0xB2"
abbreviation (input) ST_FRMCTR3 :: u8 where "ST_FRMCTR3 \<equiv> 0xB3"
abbreviation (input) ST_INVCTR :: u8 where "ST_INVCTR \<equiv> 0xB4"
abbreviation (input) ST_PWCTR1 :: u8 where "ST_PWCTR1 \<equiv> 0xC0"
abbreviation (input) ST_PWCTR2 :: u8 where "ST_PWCTR2 \<equiv> 0xC1"
abbreviation (input) ST_PWCTR3 :: u8 where "ST_PWCTR3 \<equiv> 0xC2"
abbreviation (input) ST_PWCTR4 :: u8 where "ST_PWCTR4 \<equiv> 0xC3"
abbreviation (input) ST_PWCTR5 :: u8 where "ST_PWCTR5 \<equiv> 0xC4"
abbreviation (input) ST_VMCTR1 :: u8 where "ST_VMCTR1 \<equiv> 0xC5"
abbreviation (input) ST_GMCTRP1 :: u8 where "ST_GMCTRP1 \<equiv> 0xE0"
abbreviation (input) ST_GMCTRN1 :: u8 where "ST_GMCTRN1 \<equiv> 0xE1"

abbreviation (input) LCD_W :: u16 where "LCD_W \<equiv> 160"
abbreviation (input) LCD_H :: u16 where "LCD_H \<equiv> 80"
abbreviation (input) LCD_CHAR_W :: u16 where "LCD_CHAR_W \<equiv> 6"
abbreviation (input) LCD_CHAR_H :: u16 where "LCD_CHAR_H \<equiv> 8"
abbreviation (input) LCD_BLACK :: u16 where "LCD_BLACK \<equiv> 0x0000"
abbreviation (input) LCD_GREEN :: u16 where "LCD_GREEN \<equiv> 0x07E0"

definition font5x7 :: "u8 list list" where
  "font5x7 =
    [[0x00, 0x00, 0x00, 0x00, 0x00], [0x00, 0x00, 0x5F, 0x00, 0x00], [0x00, 0x07, 0x00, 0x07, 0x00],
     [0x14, 0x7F, 0x14, 0x7F, 0x14], [0x24, 0x2A, 0x7F, 0x2A, 0x12], [0x23, 0x13, 0x08, 0x64, 0x62],
     [0x36, 0x49, 0x55, 0x22, 0x50], [0x00, 0x05, 0x03, 0x00, 0x00], [0x00, 0x1C, 0x22, 0x41, 0x00],
     [0x00, 0x41, 0x22, 0x1C, 0x00], [0x14, 0x08, 0x3E, 0x08, 0x14], [0x08, 0x08, 0x3E, 0x08, 0x08],
     [0x00, 0x50, 0x30, 0x00, 0x00], [0x08, 0x08, 0x08, 0x08, 0x08], [0x00, 0x60, 0x60, 0x00, 0x00],
     [0x20, 0x10, 0x08, 0x04, 0x02], [0x3E, 0x51, 0x49, 0x45, 0x3E], [0x00, 0x42, 0x7F, 0x40, 0x00],
     [0x42, 0x61, 0x51, 0x49, 0x46], [0x21, 0x41, 0x45, 0x4B, 0x31], [0x18, 0x14, 0x12, 0x7F, 0x10],
     [0x27, 0x45, 0x45, 0x45, 0x39], [0x3C, 0x4A, 0x49, 0x49, 0x30], [0x01, 0x71, 0x09, 0x05, 0x03],
     [0x36, 0x49, 0x49, 0x49, 0x36], [0x06, 0x49, 0x49, 0x29, 0x1E], [0x00, 0x36, 0x36, 0x00, 0x00],
     [0x00, 0x56, 0x36, 0x00, 0x00], [0x08, 0x14, 0x22, 0x41, 0x00], [0x14, 0x14, 0x14, 0x14, 0x14],
     [0x00, 0x41, 0x22, 0x14, 0x08], [0x02, 0x01, 0x51, 0x09, 0x06], [0x32, 0x49, 0x79, 0x41, 0x3E],
     [0x7E, 0x11, 0x11, 0x11, 0x7E], [0x7F, 0x49, 0x49, 0x49, 0x36], [0x3E, 0x41, 0x41, 0x41, 0x22],
     [0x7F, 0x41, 0x41, 0x22, 0x1C], [0x7F, 0x49, 0x49, 0x49, 0x41], [0x7F, 0x09, 0x09, 0x09, 0x01],
     [0x3E, 0x41, 0x49, 0x49, 0x7A], [0x7F, 0x08, 0x08, 0x08, 0x7F], [0x00, 0x41, 0x7F, 0x41, 0x00],
     [0x20, 0x40, 0x41, 0x3F, 0x01], [0x7F, 0x08, 0x14, 0x22, 0x41], [0x7F, 0x40, 0x40, 0x40, 0x40],
     [0x7F, 0x02, 0x0C, 0x02, 0x7F], [0x7F, 0x04, 0x08, 0x10, 0x7F], [0x3E, 0x41, 0x41, 0x41, 0x3E],
     [0x7F, 0x09, 0x09, 0x09, 0x06], [0x3E, 0x41, 0x51, 0x21, 0x5E], [0x7F, 0x09, 0x19, 0x29, 0x46],
     [0x46, 0x49, 0x49, 0x49, 0x31], [0x01, 0x01, 0x7F, 0x01, 0x01], [0x3F, 0x40, 0x40, 0x40, 0x3F],
     [0x1F, 0x20, 0x40, 0x20, 0x1F], [0x3F, 0x40, 0x38, 0x40, 0x3F], [0x63, 0x14, 0x08, 0x14, 0x63],
     [0x07, 0x08, 0x70, 0x08, 0x07], [0x61, 0x51, 0x49, 0x45, 0x43], [0x00, 0x7F, 0x41, 0x41, 0x00],
     [0x02, 0x04, 0x08, 0x10, 0x20], [0x00, 0x41, 0x41, 0x7F, 0x00], [0x04, 0x02, 0x01, 0x02, 0x04],
     [0x40, 0x40, 0x40, 0x40, 0x40], [0x00, 0x01, 0x02, 0x04, 0x00], [0x20, 0x54, 0x54, 0x54, 0x78],
     [0x7F, 0x48, 0x44, 0x44, 0x38], [0x38, 0x44, 0x44, 0x44, 0x20], [0x38, 0x44, 0x44, 0x48, 0x7F],
     [0x38, 0x54, 0x54, 0x54, 0x18], [0x08, 0x7E, 0x09, 0x01, 0x02], [0x0C, 0x52, 0x52, 0x52, 0x3E],
     [0x7F, 0x08, 0x04, 0x04, 0x78], [0x00, 0x44, 0x7D, 0x40, 0x00], [0x20, 0x40, 0x44, 0x3D, 0x00],
     [0x7F, 0x10, 0x28, 0x44, 0x00], [0x00, 0x41, 0x7F, 0x40, 0x00], [0x7C, 0x04, 0x18, 0x04, 0x7C],
     [0x7C, 0x08, 0x04, 0x04, 0x78], [0x38, 0x44, 0x44, 0x44, 0x38], [0x7C, 0x14, 0x14, 0x14, 0x08],
     [0x08, 0x14, 0x14, 0x18, 0x7C], [0x7C, 0x08, 0x04, 0x04, 0x08], [0x48, 0x54, 0x54, 0x54, 0x20],
     [0x04, 0x3F, 0x44, 0x40, 0x20], [0x3C, 0x40, 0x40, 0x20, 0x7C], [0x1C, 0x20, 0x40, 0x20, 0x1C],
     [0x3C, 0x40, 0x30, 0x40, 0x3C], [0x44, 0x28, 0x10, 0x28, 0x44], [0x0C, 0x50, 0x50, 0x50, 0x3C],
     [0x44, 0x64, 0x54, 0x4C, 0x44], [0x00, 0x08, 0x36, 0x41, 0x00], [0x00, 0x00, 0x7F, 0x00, 0x00],
     [0x00, 0x41, 0x36, 0x08, 0x00], [0x10, 0x08, 0x08, 0x10, 0x08]]"

subsection \<open>Commands and their parameters\<close>

text \<open>\<open>obsw_spi4_write\<close> does nothing for no bytes.\<close>

definition spi4_tx :: "u8 list \<Rightarrow> u16 \<Rightarrow> lcd_op list" where
  "spi4_tx buf len = (if len = 0 then [] else [Spi4_write (take (unat len) buf)])"

definition lcd_cmd :: "u8 \<Rightarrow> lcd_op list" where
  "lcd_cmd cmd = [CS_LOW, DC_CMD] @ spi4_tx [cmd] 1 @ [CS_HIGH]"

definition lcd_data :: "u8 list \<Rightarrow> u16 \<Rightarrow> lcd_op list" where
  "lcd_data buf len = [CS_LOW, DC_DATA] @ spi4_tx buf len @ [CS_HIGH]"

definition lcd_data1 :: "u8 \<Rightarrow> lcd_op list" where
  "lcd_data1 b = lcd_data [b] 1"

definition lcd_set_window :: "u16 \<Rightarrow> u16 \<Rightarrow> u16 \<Rightarrow> u16 \<Rightarrow> lcd_op list" where
  "lcd_set_window x0 y0 x1 y1 =
    (let x0 = x0 + 1; x1 = x1 + 1; y0 = y0 + 26; y1 = y1 + 26
     in lcd_cmd ST_CASET @ lcd_data (be_bytes16 x0 @ be_bytes16 x1) 4
        @ lcd_cmd ST_RASET @ lcd_data (be_bytes16 y0 @ be_bytes16 y1) 4)"

subsection \<open>Initialisation\<close>

abbreviation (input) GPIOE_MODER :: u32 where "GPIOE_MODER \<equiv> 0x58021000"
abbreviation (input) GPIOE_OSPEEDR :: u32 where "GPIOE_OSPEEDR \<equiv> 0x58021008"

text \<open>\<open>Change_reg r c s\<close> clears the bits of \<open>c\<close> in the register \<open>r\<close>, then sets those of \<open>s\<close>.\<close>

definition lcd_gpio_init :: "lcd_op list" where
  "lcd_gpio_init =
    [Change_reg GPIOE_MODER (push_bit 20 3 OR push_bit 22 3 OR push_bit 26 3) 0,
     Change_reg GPIOE_MODER 0 (push_bit 20 1 OR push_bit 22 1 OR push_bit 26 1),
     Change_reg GPIOE_OSPEEDR 0 (push_bit 20 3 OR push_bit 22 3 OR push_bit 26 3),
     CS_HIGH, DC_DATA]"

definition lcd_init :: "lcd_op list" where
  "lcd_init = lcd_gpio_init @ [Spin_ms 120]
    @ lcd_cmd ST_SWRESET @ [Spin_ms 120] @ lcd_cmd ST_SWRESET @ [Spin_ms 120]
    @ lcd_cmd ST_SLPOUT @ [Spin_ms 120]
    @ lcd_cmd ST_FRMCTR1 @ lcd_data1 0x01 @ lcd_data1 0x2C @ lcd_data1 0x2D
    @ lcd_cmd ST_FRMCTR2 @ lcd_data1 0x01 @ lcd_data1 0x2C @ lcd_data1 0x2D
    @ lcd_cmd ST_FRMCTR3 @ lcd_data1 0x01 @ lcd_data1 0x2C @ lcd_data1 0x2D
    @ lcd_data1 0x01 @ lcd_data1 0x2C @ lcd_data1 0x2D
    @ lcd_cmd ST_INVCTR @ lcd_data1 0x07
    @ lcd_cmd ST_PWCTR1 @ lcd_data1 0xA2 @ lcd_data1 0x02 @ lcd_data1 0x84
    @ lcd_cmd ST_PWCTR2 @ lcd_data1 0xC5
    @ lcd_cmd ST_PWCTR3 @ lcd_data1 0x0A @ lcd_data1 0x00
    @ lcd_cmd ST_PWCTR4 @ lcd_data1 0x8A @ lcd_data1 0x2A
    @ lcd_cmd ST_PWCTR5 @ lcd_data1 0x8A @ lcd_data1 0xEE
    @ lcd_cmd ST_VMCTR1 @ lcd_data1 0x0E
    @ lcd_cmd ST_INVON
    @ lcd_cmd ST_COLMOD @ lcd_data1 0x05
    @ lcd_cmd ST_MADCTL @ lcd_data1 0x78
    @ lcd_cmd ST_GMCTRP1 @ lcd_data [0x02, 0x1C, 0x07, 0x12, 0x37, 0x32, 0x29, 0x2D,
        0x29, 0x25, 0x2B, 0x39, 0x00, 0x01, 0x03, 0x10] 16
    @ lcd_cmd ST_GMCTRN1 @ lcd_data [0x03, 0x1D, 0x07, 0x06, 0x2E, 0x2C, 0x29, 0x2D,
        0x2E, 0x2E, 0x37, 0x3F, 0x00, 0x00, 0x02, 0x10] 16
    @ lcd_cmd ST_NORON @ [Spin_ms 10]
    @ lcd_cmd ST_DISPON @ [Spin_ms 100]"

definition lcd_backlight_on :: "lcd_op list" where
  "lcd_backlight_on = [Change_reg GPIOE_MODER (push_bit 20 3) (push_bit 20 1), BL_ON]"

definition lcd_backlight_off :: "lcd_op list" where
  "lcd_backlight_off = [BL_OFF]"

text \<open>Three variants of the initialisation without a reset, which differ in how and how long they wait.\<close>

definition lcd_slpout_dispon :: "lcd_op list" where
  "lcd_slpout_dispon = lcd_cmd ST_SLPOUT @ [Spin_ms 120]
    @ lcd_cmd ST_FRMCTR1 @ lcd_data1 0x01 @ lcd_data1 0x2C @ lcd_data1 0x2D
    @ lcd_cmd ST_FRMCTR2 @ lcd_data1 0x01 @ lcd_data1 0x2C @ lcd_data1 0x2D
    @ lcd_cmd ST_FRMCTR3 @ lcd_data1 0x01 @ lcd_data1 0x2C @ lcd_data1 0x2D
    @ lcd_data1 0x01 @ lcd_data1 0x2C @ lcd_data1 0x2D
    @ lcd_cmd ST_INVCTR @ lcd_data1 0x07
    @ lcd_cmd ST_PWCTR1 @ lcd_data1 0xA2 @ lcd_data1 0x02 @ lcd_data1 0x84
    @ lcd_cmd ST_PWCTR2 @ lcd_data1 0xC5
    @ lcd_cmd ST_PWCTR3 @ lcd_data1 0x0A @ lcd_data1 0x00
    @ lcd_cmd ST_PWCTR4 @ lcd_data1 0x8A @ lcd_data1 0x2A
    @ lcd_cmd ST_PWCTR5 @ lcd_data1 0x8A @ lcd_data1 0xEE
    @ lcd_cmd ST_VMCTR1 @ lcd_data1 0x0E
    @ lcd_cmd ST_COLMOD @ lcd_data1 0x05
    @ lcd_cmd ST_MADCTL @ lcd_data1 0x78
    @ lcd_cmd ST_INVON
    @ lcd_cmd ST_GMCTRP1 @ lcd_data [0x02, 0x1C, 0x07, 0x12, 0x37, 0x32, 0x29, 0x2D,
        0x29, 0x25, 0x2B, 0x39, 0x00, 0x01, 0x03, 0x10] 16
    @ lcd_cmd ST_GMCTRN1 @ lcd_data [0x03, 0x1D, 0x07, 0x06, 0x2E, 0x2C, 0x29, 0x2D,
        0x2E, 0x2E, 0x37, 0x3F, 0x00, 0x00, 0x02, 0x10] 16
    @ lcd_cmd ST_NORON @ [Spin_ms 10] @ lcd_cmd ST_DISPON @ [Spin_ms 100]"

definition lcd_slpout_dispon_yield :: "lcd_op list" where
  "lcd_slpout_dispon_yield = lcd_cmd ST_SLPOUT @ [Task_delay_ms 120]
    @ lcd_cmd ST_FRMCTR1 @ lcd_data1 0x01 @ lcd_data1 0x2C @ lcd_data1 0x2D
    @ lcd_cmd ST_FRMCTR2 @ lcd_data1 0x01 @ lcd_data1 0x2C @ lcd_data1 0x2D
    @ lcd_cmd ST_FRMCTR3 @ lcd_data1 0x01 @ lcd_data1 0x2C @ lcd_data1 0x2D
    @ lcd_data1 0x01 @ lcd_data1 0x2C @ lcd_data1 0x2D
    @ lcd_cmd ST_INVCTR @ lcd_data1 0x07
    @ lcd_cmd ST_PWCTR1 @ lcd_data1 0xA2 @ lcd_data1 0x02 @ lcd_data1 0x84
    @ lcd_cmd ST_PWCTR2 @ lcd_data1 0xC5
    @ lcd_cmd ST_PWCTR3 @ lcd_data1 0x0A @ lcd_data1 0x00
    @ lcd_cmd ST_PWCTR4 @ lcd_data1 0x8A @ lcd_data1 0x2A
    @ lcd_cmd ST_PWCTR5 @ lcd_data1 0x8A @ lcd_data1 0xEE
    @ lcd_cmd ST_VMCTR1 @ lcd_data1 0x0E
    @ lcd_cmd ST_COLMOD @ lcd_data1 0x05
    @ lcd_cmd ST_MADCTL @ lcd_data1 0x78
    @ lcd_cmd ST_INVON
    @ lcd_cmd ST_GMCTRP1 @ lcd_data [0x02, 0x1C, 0x07, 0x12, 0x37, 0x32, 0x29, 0x2D,
        0x29, 0x25, 0x2B, 0x39, 0x00, 0x01, 0x03, 0x10] 16
    @ lcd_cmd ST_GMCTRN1 @ lcd_data [0x03, 0x1D, 0x07, 0x06, 0x2E, 0x2C, 0x29, 0x2D,
        0x2E, 0x2E, 0x37, 0x3F, 0x00, 0x00, 0x02, 0x10] 16
    @ lcd_cmd ST_NORON @ [Task_delay_ms 10] @ lcd_cmd ST_DISPON @ [Task_delay_ms 100]"

definition lcd_slpout_dispon_fast :: "lcd_op list" where
  "lcd_slpout_dispon_fast = lcd_cmd ST_SLPOUT @ [Task_delay_ms 10]
    @ lcd_cmd ST_FRMCTR1 @ lcd_data1 0x01 @ lcd_data1 0x2C @ lcd_data1 0x2D
    @ lcd_cmd ST_FRMCTR2 @ lcd_data1 0x01 @ lcd_data1 0x2C @ lcd_data1 0x2D
    @ lcd_cmd ST_FRMCTR3 @ lcd_data1 0x01 @ lcd_data1 0x2C @ lcd_data1 0x2D
    @ lcd_data1 0x01 @ lcd_data1 0x2C @ lcd_data1 0x2D
    @ lcd_cmd ST_INVCTR @ lcd_data1 0x07
    @ lcd_cmd ST_PWCTR1 @ lcd_data1 0xA2 @ lcd_data1 0x02 @ lcd_data1 0x84
    @ lcd_cmd ST_PWCTR2 @ lcd_data1 0xC5
    @ lcd_cmd ST_PWCTR3 @ lcd_data1 0x0A @ lcd_data1 0x00
    @ lcd_cmd ST_PWCTR4 @ lcd_data1 0x8A @ lcd_data1 0x2A
    @ lcd_cmd ST_PWCTR5 @ lcd_data1 0x8A @ lcd_data1 0xEE
    @ lcd_cmd ST_VMCTR1 @ lcd_data1 0x0E
    @ lcd_cmd ST_COLMOD @ lcd_data1 0x05
    @ lcd_cmd ST_MADCTL @ lcd_data1 0x78
    @ lcd_cmd ST_INVON
    @ lcd_cmd ST_GMCTRP1 @ lcd_data [0x02, 0x1C, 0x07, 0x12, 0x37, 0x32, 0x29, 0x2D,
        0x29, 0x25, 0x2B, 0x39, 0x00, 0x01, 0x03, 0x10] 16
    @ lcd_cmd ST_GMCTRN1 @ lcd_data [0x03, 0x1D, 0x07, 0x06, 0x2E, 0x2C, 0x29, 0x2D,
        0x2E, 0x2E, 0x37, 0x3F, 0x00, 0x00, 0x02, 0x10] 16
    @ lcd_cmd ST_NORON @ lcd_cmd ST_DISPON"

subsection \<open>Drawing\<close>

text \<open>The 16 pixels of a chunk are written as often as they fit, the rest at last.\<close>

definition lcd_chunk :: "u16 \<Rightarrow> u8 list" where
  "lcd_chunk colour = concat (replicate 16 [ucast (drop_bit 8 colour), ucast (colour AND 0xFF)])"

function lcd_fill :: "u8 list \<Rightarrow> u32 \<Rightarrow> lcd_op list" where
  "lcd_fill chunk n =
    (if 32 \<le> n then spi4_tx chunk 32 @ lcd_fill chunk (n - 32)
     else if n \<noteq> 0 then spi4_tx chunk (ucast n) else [])"
  by pat_completeness auto

termination lcd_fill
  by (relation "measure (\<lambda>(_, n). unat n)") (auto simp: unat_sub word_le_nat_alt)

declare lcd_fill.simps [simp del]

definition lcd_fill_rect :: "u16 \<Rightarrow> u16 \<Rightarrow> u16 \<Rightarrow> u16 \<Rightarrow> u16 \<Rightarrow> lcd_op list" where
  "lcd_fill_rect x y w h colour =
    (if w = 0 \<or> h = 0 then []
     else lcd_set_window x y (x + w - 1) (y + h - 1) @ lcd_cmd ST_RAMWR
       @ [CS_LOW, DC_DATA] @ lcd_fill (lcd_chunk colour) (ucast w * ucast h * 2) @ [CS_HIGH])"

definition lcd_clear :: "u16 \<Rightarrow> lcd_op list" where
  "lcd_clear colour = lcd_fill_rect 0 0 LCD_W LCD_H colour"

definition lcd_fill_gram_raw :: "u16 \<Rightarrow> lcd_op list" where
  "lcd_fill_gram_raw colour =
    lcd_cmd ST_CASET @ lcd_data [0, 0, 0, 161] 4 @ lcd_cmd ST_RASET @ lcd_data [0, 0, 0, 131] 4
    @ lcd_cmd ST_RAMWR
    @ [CS_LOW, DC_DATA] @ lcd_fill (lcd_chunk colour) (162 * 132 * 2) @ [CS_HIGH]"

definition lcd_glyph :: "u8 \<Rightarrow> u8 list" where
  "lcd_glyph ch = font5x7 ! unat ((if ch < 0x20 \<or> 0x7E < ch then 0x3F else ch) - 0x20)"

definition lcd_cell_pixel :: "u8 \<Rightarrow> u16 \<Rightarrow> u16 \<Rightarrow> nat \<Rightarrow> nat \<Rightarrow> u16" where
  "lcd_cell_pixel ch fg bg col row =
    (if col < 5 \<and> row < 7 \<and> bit (lcd_glyph ch ! col) row then fg else bg)"

definition lcd_cell_bytes :: "u8 \<Rightarrow> u16 \<Rightarrow> u16 \<Rightarrow> u8 list" where
  "lcd_cell_bytes ch fg bg =
    concat (map (\<lambda>row. concat (map (\<lambda>col. be_bytes16 (lcd_cell_pixel ch fg bg col row)) [0..<6])) [0..<8])"

definition lcd_draw_char :: "u16 \<Rightarrow> u16 \<Rightarrow> u8 \<Rightarrow> u16 \<Rightarrow> u16 \<Rightarrow> lcd_op list" where
  "lcd_draw_char x y ch fg bg =
    lcd_set_window x y (x + LCD_CHAR_W - 1) (y + LCD_CHAR_H - 1) @ lcd_cmd ST_RAMWR
    @ [CS_LOW, DC_DATA] @ spi4_tx (lcd_cell_bytes ch fg bg) 96 @ [CS_HIGH]"

text \<open>
  A string ends at its NUL or with the list.  The sums are of type \<open>unsigned int\<close> and do
  not wrap; the coordinates do.
\<close>

fun lcd_draw_string :: "u16 \<Rightarrow> u16 \<Rightarrow> u8 list \<Rightarrow> u16 \<Rightarrow> u16 \<Rightarrow> lcd_op list" where
  "lcd_draw_string x y [] fg bg = []"
| "lcd_draw_string x y (ch # s) fg bg =
    (if ch = 0 then []
     else let (x', y') = (if 160 < (ucast x :: u32) + 6 then (0, y + LCD_CHAR_H) else (x, y))
       in if 80 < (ucast y' :: u32) + 8 then []
          else lcd_draw_char x' y' ch fg bg @ lcd_draw_string (x' + LCD_CHAR_W) y' s fg bg)"

section \<open>What the driver shows\<close>

subsection \<open>Decoding the bus\<close>

text \<open>
  The bus as the controller sees it: whether it is selected, the level of the data/command
  line, and the commands with their parameters so far, the latest first.
\<close>

record lcd_bus =
  bus_selected :: bool
  bus_data :: bool
  bus_log :: "(u8 \<times> u8 list) list"

fun bus_param :: "u8 list \<Rightarrow> (u8 \<times> u8 list) list \<Rightarrow> (u8 \<times> u8 list) list" where
  "bus_param bs [] = []"
| "bus_param bs ((c, d) # l) = (c, d @ bs) # l"

fun bus_step :: "lcd_op \<Rightarrow> lcd_bus \<Rightarrow> lcd_bus" where
  "bus_step CS_LOW b = b\<lparr>bus_selected := True\<rparr>"
| "bus_step CS_HIGH b = b\<lparr>bus_selected := False\<rparr>"
| "bus_step DC_CMD b = b\<lparr>bus_data := False\<rparr>"
| "bus_step DC_DATA b = b\<lparr>bus_data := True\<rparr>"
| "bus_step (Spi4_write bs) b =
    (if bus_selected b
     then b\<lparr>bus_log := (if bus_data b then bus_param bs (bus_log b)
                        else rev (map (\<lambda>c. (c, [])) bs) @ bus_log b)\<rparr>
     else b)"
| "bus_step _ b = b"

definition bus_run :: "lcd_op list \<Rightarrow> lcd_bus \<Rightarrow> lcd_bus" where
  "bus_run ops = fold bus_step ops"

text \<open>\<open>lcd_sends ops ts\<close>: from a deselected bus the operations send exactly the commands \<open>ts\<close>.\<close>

definition lcd_sends :: "lcd_op list \<Rightarrow> (u8 \<times> u8 list) list \<Rightarrow> bool" where
  "lcd_sends ops ts \<longleftrightarrow>
    (\<forall>b. \<not> bus_selected b \<longrightarrow>
      (\<exists>dc. bus_run ops b = b\<lparr>bus_data := dc, bus_log := rev ts @ bus_log b\<rparr>))"

definition lcd_commands :: "lcd_op list \<Rightarrow> (u8 \<times> u8 list) list" where
  "lcd_commands ops = rev (bus_log (bus_run ops \<lparr>bus_selected = False, bus_data = False, bus_log = []\<rparr>))"

lemma bus_run_simps [simp]:
  "bus_run [] b = b" "bus_run (x # xs) b = bus_run xs (bus_step x b)"
  "bus_run (xs @ ys) b = bus_run ys (bus_run xs b)"
  by (simp_all add: bus_run_def)

lemma lcd_commands_eq: "lcd_sends ops ts \<Longrightarrow> lcd_commands ops = ts"
  by (auto simp: lcd_sends_def lcd_commands_def
      dest!: spec [of _ "\<lparr>bus_selected = False, bus_data = False, bus_log = []\<rparr>"])

lemma lcd_sendsI:
  "(\<And>b. \<not> bus_selected b \<Longrightarrow> \<exists>dc. bus_run ops b = b\<lparr>bus_data := dc, bus_log := rev ts @ bus_log b\<rparr>)
   \<Longrightarrow> lcd_sends ops ts"
  by (simp add: lcd_sends_def)

lemma lcd_sendsD:
  assumes "lcd_sends ops ts" "\<not> bus_selected b"
  obtains dc where "bus_run ops b = b\<lparr>bus_data := dc, bus_log := rev ts @ bus_log b\<rparr>"
  using assms by (auto simp: lcd_sends_def)

lemma lcd_sends_append:
  assumes "lcd_sends a s" "lcd_sends b t"
  shows "lcd_sends (a @ b) (s @ t)"
proof (rule lcd_sendsI)
  fix u :: lcd_bus assume u: "\<not> bus_selected u"
  obtain d where a: "bus_run a u = u\<lparr>bus_data := d, bus_log := rev s @ bus_log u\<rparr>"
    using assms(1) u by (rule lcd_sendsD)
  have "\<not> bus_selected (bus_run a u)"
    by (simp add: a u)
  then obtain d' where "bus_run b (bus_run a u) = (bus_run a u)\<lparr>bus_data := d', bus_log := rev t @ bus_log (bus_run a u)\<rparr>"
    using assms(2) by (blast elim: lcd_sendsD)
  then show "\<exists>dc. bus_run (a @ b) u = u\<lparr>bus_data := dc, bus_log := rev (s @ t) @ bus_log u\<rparr>"
    by (auto simp: a)
qed

lemma lcd_sends_Nil: "lcd_sends [] []"
proof (rule lcd_sendsI)
  show "\<exists>dc. bus_run [] b = b\<lparr>bus_data := dc, bus_log := rev [] @ bus_log b\<rparr>" for b
    by (rule exI [of _ "bus_data b"]) simp
qed

text \<open>The bus after one command, and after more of its parameters.\<close>

lemma bus_cmd:
  "bus_run (lcd_cmd c) b = b\<lparr>bus_selected := False, bus_data := False, bus_log := (c, []) # bus_log b\<rparr>"
  by (simp add: lcd_cmd_def spi4_tx_def)

lemma bus_param_Nil [simp]: "bus_param [] l = l"
  by (cases l) auto

lemma bus_param_append [simp]: "bus_param bs (bus_param as l) = bus_param (as @ bs) l"
  by (cases l) auto

lemma bus_tx:
  "bus_run (spi4_tx buf n) b =
    (if bus_selected b \<and> n \<noteq> 0
     then b\<lparr>bus_log := (if bus_data b then bus_param (take (unat n) buf) (bus_log b)
                        else rev (map (\<lambda>c. (c, [])) (take (unat n) buf)) @ bus_log b)\<rparr> else b)"
  by (simp add: spi4_tx_def)

lemma bus_data_bytes:
  "bus_run (lcd_data buf n) b
    = b\<lparr>bus_selected := False, bus_data := True, bus_log := bus_param (take (unat n) buf) (bus_log b)\<rparr>"
  by (cases "n = 0") (simp_all add: lcd_data_def bus_tx)

lemma bus_data1:
  "bus_run (lcd_data1 x) b = b\<lparr>bus_selected := False, bus_data := True, bus_log := bus_param [x] (bus_log b)\<rparr>"
  by (simp add: lcd_data1_def bus_data_bytes)

lemmas bus_simps = bus_cmd bus_data_bytes bus_data1 bus_tx

subsection \<open>The panel\<close>

text \<open>
  Its memory of pixels by column and row, the window, the parameters last given to each
  configuration command, and whether it is awake, on and inverted.
\<close>

record panel =
  pn_gram :: "nat \<times> nat \<Rightarrow> u16"
  pn_cols :: "nat \<times> nat"
  pn_rows :: "nat \<times> nat"
  pn_regs :: "u8 \<Rightarrow> u8 list option"
  pn_awake :: bool
  pn_on :: bool
  pn_inverted :: bool

definition panel_paint ::
  "nat \<times> nat \<Rightarrow> nat \<times> nat \<Rightarrow> u8 list \<Rightarrow> (nat \<times> nat \<Rightarrow> u16) \<Rightarrow> nat \<times> nat \<Rightarrow> u16" where
  "panel_paint cols rows bs g = (\<lambda>(x, y).
    let k = (y - fst rows) * (snd cols - fst cols + 1) + (x - fst cols)
    in if fst cols \<le> x \<and> x \<le> snd cols \<and> fst rows \<le> y \<and> y \<le> snd rows \<and> 2 * k + 1 < length bs
       then obsw_be16 (drop (2 * k) bs) else g (x, y))"

definition panel_range :: "u8 list \<Rightarrow> nat \<times> nat" where
  "panel_range d = (unat (obsw_be16 d), unat (obsw_be16 (drop 2 d)))"

definition panel_step :: "u8 \<times> u8 list \<Rightarrow> panel \<Rightarrow> panel" where
  "panel_step t p =
    (case t of (c, d) \<Rightarrow>
      if c = ST_CASET then p\<lparr>pn_cols := panel_range d\<rparr>
      else if c = ST_RASET then p\<lparr>pn_rows := panel_range d\<rparr>
      else if c = ST_RAMWR then p\<lparr>pn_gram := panel_paint (pn_cols p) (pn_rows p) d (pn_gram p)\<rparr>
      else if c = ST_SWRESET then p\<lparr>pn_regs := Map.empty, pn_awake := False, pn_on := False, pn_inverted := False\<rparr>
      else if c = ST_SLPOUT then p\<lparr>pn_awake := True\<rparr>
      else if c = ST_DISPON then p\<lparr>pn_on := True\<rparr>
      else if c = ST_INVON then p\<lparr>pn_inverted := True\<rparr>
      else p\<lparr>pn_regs := (pn_regs p)(c \<mapsto> d)\<rparr>)"

definition panel_after :: "lcd_op list \<Rightarrow> panel \<Rightarrow> panel" where
  "panel_after ops p = fold panel_step (lcd_commands ops) p"

lemma panel_after_sends: "lcd_sends ops ts \<Longrightarrow> panel_after ops p = fold panel_step ts p"
  by (simp add: panel_after_def lcd_commands_eq)

lemma panel_after_append:
  "lcd_sends a s \<Longrightarrow> lcd_sends b t \<Longrightarrow> panel_after (a @ b) p = panel_after b (panel_after a p)"
  by (simp add: panel_after_sends [OF lcd_sends_append] panel_after_sends)

text \<open>The pixels a run of 16-bit values stands for.\<close>

lemma drop_be_words: "k \<le> length xs \<Longrightarrow> drop (2 * k) (concat (map be_bytes16 xs)) = concat (map be_bytes16 (drop k xs))"
proof (induction k arbitrary: xs)
  case (Suc k)
  then show ?case
    by (cases xs) (simp_all add: drop_append be_bytes16_def)
qed simp

lemma length_be_words [simp]: "length (concat (map be_bytes16 xs)) = 2 * length xs"
  by (induction xs) auto

lemma be16_words: "k < length xs \<Longrightarrow> obsw_be16 (drop (2 * k) (concat (map be_bytes16 xs))) = xs ! k"
  unfolding drop_be_words [OF less_imp_le] by (subst Cons_nth_drop_Suc [symmetric]) (simp_all add: be16_be_bytes16)

text \<open>A window of the whole rectangle filled row by row.\<close>

lemma panel_paint_rect:
  assumes "length px = w * h" "0 < w" "0 < h"
  shows "panel_paint (x, x + w - 1) (y, y + h - 1) (concat (map be_bytes16 px)) g =
    (\<lambda>(i, j). if x \<le> i \<and> i < x + w \<and> y \<le> j \<and> j < y + h then px ! ((j - y) * w + (i - x)) else g (i, j))"
proof (rule ext, clarify)
  fix i j
  have "(j - y) * w + (i - x) < w * h" if "x \<le> i" "i < x + w" "y \<le> j" "j < y + h"
  proof -
    have "(j - y) * w + (i - x) < (j - y) * w + w"
      using that by simp
    also have "\<dots> = Suc (j - y) * w"
      by simp
    also have "\<dots> \<le> h * w"
      using that by (intro mult_right_mono) auto
    finally show ?thesis
      by (simp add: mult.commute)
  qed
  then show "panel_paint (x, x + w - 1) (y, y + h - 1) (concat (map be_bytes16 px)) g (i, j)
      = (if x \<le> i \<and> i < x + w \<and> y \<le> j \<and> j < y + h then px ! ((j - y) * w + (i - x)) else g (i, j))"
    using assms by (auto simp: panel_paint_def Let_def be16_words)
qed


subsection \<open>What the drawing functions send and show\<close>

lemma lcd_set_window_sends:
  "lcd_sends (lcd_set_window x0 y0 x1 y1)
    [(ST_CASET, be_bytes16 (x0 + 1) @ be_bytes16 (x1 + 1)), (ST_RASET, be_bytes16 (y0 + 26) @ be_bytes16 (y1 + 26))]"
  by (rule lcd_sendsI) (auto simp: lcd_set_window_def Let_def bus_simps intro: exI [of _ True])

text \<open>A body that, selected for data, sends the bytes \<open>bs\<close>.\<close>

definition bus_sends_data :: "lcd_op list \<Rightarrow> u8 list \<Rightarrow> bool" where
  "bus_sends_data body bs \<longleftrightarrow>
    (\<forall>b. bus_selected b \<longrightarrow> bus_data b \<longrightarrow> bus_run body b = b\<lparr>bus_log := bus_param bs (bus_log b)\<rparr>)"

lemma lcd_write_sends:
  assumes "bus_sends_data body bs"
  shows "lcd_sends (lcd_cmd ST_RAMWR @ [CS_LOW, DC_DATA] @ body @ [CS_HIGH]) [(ST_RAMWR, bs)]"
  using assms by (intro lcd_sendsI exI [of _ True]) (simp add: bus_simps bus_sends_data_def)

lemma panel_range_be [simp]: "panel_range (be_bytes16 a @ be_bytes16 b) = (unat a, unat b)"
  using be16_be_bytes16 [of b "[]"] by (simp add: panel_range_def be16_be_bytes16 drop_append be_bytes16_def)

lemma unat_add16: "unat (a :: u16) + b < 65536 \<Longrightarrow> b < 65536 \<Longrightarrow> unat (a + of_nat b) = unat a + b"
  by (simp add: unat_word_ariths unat_of_nat)

definition panel_rect ::
  "nat \<Rightarrow> nat \<Rightarrow> nat \<Rightarrow> nat \<Rightarrow> (nat \<Rightarrow> nat \<Rightarrow> u16) \<Rightarrow> (nat \<times> nat \<Rightarrow> u16) \<Rightarrow> nat \<times> nat \<Rightarrow> u16" where
  "panel_rect x y w h f g = (\<lambda>(i, j).
    if x + 1 \<le> i \<and> i < x + 1 + w \<and> y + 26 \<le> j \<and> j < y + 26 + h then f (i - (x + 1)) (j - (y + 26)) else g (i, j))"

lemma panel_write_window:
  assumes body: "bus_sends_data body (concat (map be_bytes16 px))"
    and px: "length px = w * h" "0 < w" "0 < h" and f: "\<And>a c. a < w \<Longrightarrow> c < h \<Longrightarrow> px ! (c * w + a) = f a c"
    and x: "unat x0 + w < 65536" "unat x1 = unat x0 + w - 1"
    and y: "unat y0 + h + 25 < 65536" "unat y1 = unat y0 + h - 1"
  shows "lcd_sends (lcd_set_window x0 y0 x1 y1 @ lcd_cmd ST_RAMWR @ [CS_LOW, DC_DATA] @ body @ [CS_HIGH])
      [(ST_CASET, be_bytes16 (x0 + 1) @ be_bytes16 (x1 + 1)), (ST_RASET, be_bytes16 (y0 + 26) @ be_bytes16 (y1 + 26)),
       (ST_RAMWR, concat (map be_bytes16 px))]" (is ?sends)
    and "panel_after (lcd_set_window x0 y0 x1 y1 @ lcd_cmd ST_RAMWR @ [CS_LOW, DC_DATA] @ body @ [CS_HIGH]) p =
      p\<lparr>pn_cols := (unat x0 + 1, unat x0 + w), pn_rows := (unat y0 + 26, unat y0 + h + 25),
        pn_gram := panel_rect (unat x0) (unat y0) w h f (pn_gram p)\<rparr>"
proof -
  show sends: ?sends
    using lcd_sends_append [OF lcd_set_window_sends lcd_write_sends [OF body]] by simp
  have u: "unat (x0 + 1) = unat x0 + 1" "unat (x1 + 1) = unat x0 + 1 + w - 1"
      "unat (y0 + 26) = unat y0 + 26" "unat (y1 + 26) = unat y0 + 26 + h - 1"
    using x y px unat_add16 [of x0 1] unat_add16 [of x1 1] unat_add16 [of y0 26] unat_add16 [of y1 26] by simp_all
  have "panel_paint (unat x0 + 1, unat x0 + 1 + w - 1) (unat y0 + 26, unat y0 + 26 + h - 1)
      (concat (map be_bytes16 px)) (pn_gram p) = panel_rect (unat x0) (unat y0) w h f (pn_gram p)"
    unfolding panel_paint_rect [OF px] panel_rect_def
    by (intro ext) (auto simp only: split_beta f less_diff_conv2 add.assoc [symmetric] add.commute [of _ w] add.commute [of _ h]
        split: if_splits)
  then show "panel_after (lcd_set_window x0 y0 x1 y1 @ lcd_cmd ST_RAMWR @ [CS_LOW, DC_DATA] @ body @ [CS_HIGH]) p =
      p\<lparr>pn_cols := (unat x0 + 1, unat x0 + w), pn_rows := (unat y0 + 26, unat y0 + h + 25),
        pn_gram := panel_rect (unat x0) (unat y0) w h f (pn_gram p)\<rparr>"
    unfolding panel_after_sends [OF sends] using px by (simp add: panel_step_def u)
qed

subsection \<open>A character\<close>

lemma concat_rows:
  "0 < m \<Longrightarrow> concat (map (\<lambda>r. concat (map (f r) [0..<m])) [0..<n]) = concat (map (\<lambda>k. f (k div m) (k mod m)) [0..<n * m])"
proof (induction n)
  case (Suc n)
  have "[0..<Suc n * m] = [0..<n * m] @ map (\<lambda>i. i + n * m) [0..<m]"
    using upt_add_eq_append [of 0 "n * m" m] map_add_upt [of "n * m" m] by (simp add: add.commute)
  moreover have "map (\<lambda>k. f (k div m) (k mod m)) (map (\<lambda>i. i + n * m) [0..<m]) = map (f n) [0..<m]"
    using Suc(2) by simp
  ultimately show ?case
    using Suc by (simp del: mult_Suc map_map)
qed simp

lemma lcd_cell_words:
  "lcd_cell_bytes ch fg bg
    = concat (map be_bytes16 (map (\<lambda>k. lcd_cell_pixel ch fg bg (k mod 6) (k div 6)) [0..<8 * 6]))"
  unfolding lcd_cell_bytes_def map_map o_def by (rule concat_rows) simp

lemma length_cell_bytes [simp, layout]: "length (lcd_cell_bytes ch fg bg) = 96"
  unfolding lcd_cell_words length_be_words by simp

lemma lcd_cell_sends: "bus_sends_data (spi4_tx (lcd_cell_bytes ch fg bg) 96) (lcd_cell_bytes ch fg bg)"
  by (simp add: bus_sends_data_def bus_tx)

lemma unat_minus_one16: "0 < w \<Longrightarrow> unat x + w < 65536 \<Longrightarrow> unat ((x :: u16) + of_nat w - 1) = unat x + w - 1"
  using unat_add16 [of x "w - 1"] by (cases w) (simp_all add: algebra_simps)

lemma lcd_draw_char_shows:
  assumes "unat x + 6 \<le> 160" "unat y + 8 \<le> 80"
  shows "\<exists>ts. lcd_sends (lcd_draw_char x y ch fg bg) ts"
    and "panel_after (lcd_draw_char x y ch fg bg) p =
      p\<lparr>pn_cols := (unat x + 1, unat x + 6), pn_rows := (unat y + 26, unat y + 8 + 25),
        pn_gram := panel_rect (unat x) (unat y) 6 8 (lcd_cell_pixel ch fg bg) (pn_gram p)\<rparr>"
proof -
  define px where "px = map (\<lambda>k. lcd_cell_pixel ch fg bg (k mod 6) (k div 6)) [0..<8 * 6]"
  have u: "unat (x + 6 - 1) = unat x + 6 - 1" "unat (y + 8 - 1) = unat y + 8 - 1"
    using assms unat_minus_one16 [of 6 x] unat_minus_one16 [of 8 y] by simp_all
  have px: "length px = 6 * 8" "(0::nat) < 6" "(0::nat) < 8"
    "\<And>a c. a < 6 \<Longrightarrow> c < 8 \<Longrightarrow> px ! (c * 6 + a) = lcd_cell_pixel ch fg bg a c"
    by (auto simp: px_def)
  have b: "unat x + 6 < 65536" "unat y + 8 + 25 < 65536"
    using assms by simp_all
  note w = panel_write_window [OF lcd_cell_sends [of ch fg bg, unfolded lcd_cell_words, folded px_def] px b(1) u(1) b(2) u(2)]
  show "\<exists>ts. lcd_sends (lcd_draw_char x y ch fg bg) ts"
    using w(1) unfolding lcd_draw_char_def lcd_cell_words px_def [symmetric] by blast
  show "panel_after (lcd_draw_char x y ch fg bg) p =
      p\<lparr>pn_cols := (unat x + 1, unat x + 6), pn_rows := (unat y + 26, unat y + 8 + 25),
        pn_gram := panel_rect (unat x) (unat y) 6 8 (lcd_cell_pixel ch fg bg) (pn_gram p)\<rparr>"
    using w(2) unfolding lcd_draw_char_def lcd_cell_words px_def [symmetric] by blast
qed

subsection \<open>A filled rectangle\<close>

lemma lcd_chunk_words: "lcd_chunk c = concat (map be_bytes16 (replicate 16 c))"
  by (simp add: lcd_chunk_def be_bytes16_def map_replicate_const)

lemma be_words_take: "take (2 * k) (concat (map be_bytes16 xs)) = concat (map be_bytes16 (take k xs))"
proof (induction k arbitrary: xs)
  case (Suc k)
  then show ?case
    by (cases xs) (simp_all add: be_bytes16_def)
qed simp

lemma lcd_fill_sends:
  "unat n = 2 * k \<Longrightarrow> bus_sends_data (lcd_fill (lcd_chunk c) n) (concat (map be_bytes16 (replicate k c)))"
proof (induction "lcd_chunk c" n arbitrary: k rule: lcd_fill.induct)
  case (1 n)
  show ?case
  proof (cases "32 \<le> n")
    case True
    then have "unat (n - 32) = 2 * (k - 16)" "16 \<le> k"
      using 1 by (auto simp: unat_sub word_le_nat_alt)
    then have "bus_sends_data (lcd_fill (lcd_chunk c) (n - 32)) (concat (map be_bytes16 (replicate (k - 16) c)))"
      using 1 True by blast
    moreover have "replicate k c = replicate 16 c @ replicate (k - 16) c"
      using \<open>16 \<le> k\<close> by (simp flip: replicate_add)
    moreover have "take 32 (lcd_chunk c) = concat (map be_bytes16 (replicate 16 c))"
      using be_words_take [of 16 "replicate 16 c"] by (simp add: lcd_chunk_words)
    ultimately show ?thesis
      using True by (subst lcd_fill.simps) (simp add: bus_sends_data_def bus_tx)
  next
    case False
    then have k: "k \<le> 15" "unat (ucast n :: u16) = 2 * k"
      using 1(2) by (auto simp: word_le_nat_alt unat_ucast_small)
    then have "take (2 * k) (lcd_chunk c) = concat (map be_bytes16 (replicate k c))"
      unfolding lcd_chunk_words be_words_take using k(1) by (simp add: min_def)
    then show ?thesis
      using False k 1(2) by (subst lcd_fill.simps) (auto simp: bus_sends_data_def bus_tx unat_eq_0)
  qed
qed


lemma lcd_fill_rect_shows:
  assumes "0 < w" "0 < h" "unat x + unat w \<le> 160" "unat y + unat h \<le> 80"
  shows "\<exists>ts. lcd_sends (lcd_fill_rect x y w h c) ts"
    and "panel_after (lcd_fill_rect x y w h c) p =
      p\<lparr>pn_cols := (unat x + 1, unat x + unat w), pn_rows := (unat y + 26, unat y + unat h + 25),
        pn_gram := panel_rect (unat x) (unat y) (unat w) (unat h) (\<lambda>_ _. c) (pn_gram p)\<rparr>"
proof -
  have nz: "0 < unat w" "0 < unat h" "w \<noteq> 0" "h \<noteq> 0"
    using assms by (auto simp: word_less_nat_alt)
  define n where "n = unat w * unat h"
  have "n \<le> 160 * 80"
    unfolding n_def using assms by (intro mult_mono) auto
  then have "unat (ucast w * ucast h * 2 :: u32) = 2 * (unat w * unat h)"
    by (simp add: unat_word_ariths unat_ucast_u16 flip: n_def)
  note body = lcd_fill_sends [OF this, of c]
  have u: "unat (x + w - 1) = unat x + unat w - 1" "unat (y + h - 1) = unat y + unat h - 1"
    using assms nz unat_minus_one16 [of "unat w" x] unat_minus_one16 [of "unat h" y] by simp_all
  have px: "length (replicate (unat w * unat h) c) = unat w * unat h"
    "\<And>a b. a < unat w \<Longrightarrow> b < unat h \<Longrightarrow> replicate (unat w * unat h) c ! (b * unat w + a) = c"
  proof -
    fix a b assume "a < unat w" "b < unat h"
    then have "b * unat w + a < Suc b * unat w"
      by simp
    moreover have "Suc b * unat w \<le> unat h * unat w"
      using \<open>b < unat h\<close> by (intro mult_right_mono) auto
    ultimately have "b * unat w + a < unat h * unat w"
      by linarith
    then show "replicate (unat w * unat h) c ! (b * unat w + a) = c"
      by (simp add: mult.commute)
  qed simp
  have b: "unat x + unat w < 65536" "unat y + unat h + 25 < 65536"
    using assms by simp_all
  note w = panel_write_window [OF body px(1) nz(1,2) px(2) b(1) u(1) b(2) u(2)]
  show "\<exists>ts. lcd_sends (lcd_fill_rect x y w h c) ts"
    using w(1) nz unfolding lcd_fill_rect_def by auto
  show "panel_after (lcd_fill_rect x y w h c) p =
      p\<lparr>pn_cols := (unat x + 1, unat x + unat w), pn_rows := (unat y + 26, unat y + unat h + 25),
        pn_gram := panel_rect (unat x) (unat y) (unat w) (unat h) (\<lambda>_ _. c) (pn_gram p)\<rparr>"
    using w(2) nz unfolding lcd_fill_rect_def by simp
qed

subsection \<open>A string stays on the visible part\<close>

definition panel_visible :: "nat \<times> nat \<Rightarrow> bool" where
  "panel_visible = (\<lambda>(i, j). 1 \<le> i \<and> i \<le> 160 \<and> 26 \<le> j \<and> j \<le> 105)"

lemma panel_rect_hidden:
  "x + w \<le> 160 \<Longrightarrow> y + h \<le> 80 \<Longrightarrow> \<not> panel_visible ij \<Longrightarrow> panel_rect x y w h f g ij = g ij"
  by (cases ij) (auto simp: panel_rect_def panel_visible_def)

lemma lcd_draw_string_visible:
  "(\<exists>ts. lcd_sends (lcd_draw_string x y s fg bg) ts)
   \<and> (\<forall>p ij. \<not> panel_visible ij \<longrightarrow> pn_gram (panel_after (lcd_draw_string x y s fg bg) p) ij = pn_gram p ij)"
proof (induction x y s fg bg rule: lcd_draw_string.induct)
  case (1 x y fg bg)
  then show ?case
    using lcd_sends_Nil by (auto simp: panel_after_sends [OF lcd_sends_Nil])
next
  case (2 x y ch s fg bg)
  show ?case
  proof (cases "ch = 0")
    case True
    then show ?thesis
      using lcd_sends_Nil by (auto simp: panel_after_sends [OF lcd_sends_Nil])
  next
    case False
    obtain x' y' where xy: "(if 160 < (ucast x :: u32) + 6 then (0, y + LCD_CHAR_H) else (x, y)) = (x', y')"
      by (cases "if 160 < (ucast x :: u32) + 6 then (0, y + LCD_CHAR_H) else (x, y)") auto
    have ux: "unat ((ucast z :: u32) + c) = unat z + unat c" if "unat c \<le> 10" for z :: u16 and c :: u32
      using that u16_less_65536 [of z] by (simp add: unat_word_ariths unat_ucast_u16)
    show ?thesis
    proof (cases "80 < (ucast y' :: u32) + 8")
      case True
      then show ?thesis
        using False xy lcd_sends_Nil by (auto simp: panel_after_sends [OF lcd_sends_Nil])
    next
      case inside: False
      then have y: "unat y' + 8 \<le> 80"
        by (simp add: word_le_nat_alt not_less ux)
      have x: "unat x' + 6 \<le> 160"
        using xy by (auto simp: word_le_nat_alt word_less_nat_alt not_less ux split: if_splits)
      obtain ts us where ts: "lcd_sends (lcd_draw_char x' y' ch fg bg) ts"
          "lcd_sends (lcd_draw_string (x' + LCD_CHAR_W) y' s fg bg) us"
        using lcd_draw_char_shows(1) [OF x y] 2 [OF False xy [symmetric] refl] inside by blast
      have ops: "lcd_draw_string x y (ch # s) fg bg
          = lcd_draw_char x' y' ch fg bg @ lcd_draw_string (x' + LCD_CHAR_W) y' s fg bg"
        using False inside xy by auto
      show ?thesis
        using 2 [OF False xy [symmetric] refl] inside lcd_sends_append [OF ts] x y
        by (auto simp: ops panel_after_append [OF ts] lcd_draw_char_shows(2) [OF x y] panel_rect_hidden
            simp del: lcd_draw_string.simps)
    qed
  qed
qed

subsection \<open>The configuration\<close>

definition panel_config :: "panel \<Rightarrow> (u8 \<Rightarrow> u8 list option) \<times> bool \<times> bool \<times> bool" where
  "panel_config p = (pn_regs p, pn_awake p, pn_on p, pn_inverted p)"

lemmas lcd_reinit_defs = lcd_slpout_dispon_def lcd_slpout_dispon_yield_def lcd_slpout_dispon_fast_def

definition lcd_config :: "(u8 \<times> u8 list) list" where
  "lcd_config =
    [(ST_FRMCTR1, [0x01, 0x2C, 0x2D]), (ST_FRMCTR2, [0x01, 0x2C, 0x2D]),
     (ST_FRMCTR3, [0x01, 0x2C, 0x2D, 0x01, 0x2C, 0x2D]), (ST_INVCTR, [0x07]),
     (ST_PWCTR1, [0xA2, 0x02, 0x84]), (ST_PWCTR2, [0xC5]), (ST_PWCTR3, [0x0A, 0x00]), (ST_PWCTR4, [0x8A, 0x2A]),
     (ST_PWCTR5, [0x8A, 0xEE]), (ST_VMCTR1, [0x0E]), (ST_COLMOD, [0x05]), (ST_MADCTL, [0x78]),
     (ST_GMCTRP1, [0x02, 0x1C, 0x07, 0x12, 0x37, 0x32, 0x29, 0x2D, 0x29, 0x25, 0x2B, 0x39, 0x00, 0x01, 0x03, 0x10]),
     (ST_GMCTRN1, [0x03, 0x1D, 0x07, 0x06, 0x2E, 0x2C, 0x29, 0x2D, 0x2E, 0x2E, 0x37, 0x3F, 0x00, 0x00, 0x02, 0x10]),
     (ST_NORON, [])]"

lemma lcd_init_sends:
  "lcd_sends lcd_init
    ([(ST_SWRESET, []), (ST_SWRESET, []), (ST_SLPOUT, [])] @ take 10 lcd_config @ [(ST_INVON, [])]
     @ drop 10 lcd_config @ [(ST_DISPON, [])])"
  by (intro lcd_sendsI exI [of _ False]) (simp add: lcd_init_def lcd_gpio_init_def lcd_config_def bus_simps)

lemma lcd_reinit_sends:
  assumes "v \<in> {lcd_slpout_dispon, lcd_slpout_dispon_yield, lcd_slpout_dispon_fast}"
  shows "lcd_sends v ([(ST_SLPOUT, [])] @ take 12 lcd_config @ [(ST_INVON, [])] @ drop 12 lcd_config @ [(ST_DISPON, [])])"
  using assms by (intro lcd_sendsI exI [of _ False]) (auto simp: lcd_reinit_defs lcd_config_def bus_simps)


lemma map_of_subsumed:
  assumes "dom m \<subseteq> fst ` set l"
  shows "m ++ map_of l = map_of l"
proof (rule ext)
  fix c
  have "m c = None" if "map_of l c = None"
    using assms that by (auto simp: map_of_eq_None_iff)
  then show "(m ++ map_of l) c = map_of l c"
    by (cases "map_of l c") (simp_all add: map_add_def)
qed

lemma lcd_init_config:
  "panel_config (panel_after lcd_init p) = (map_of lcd_config, True, True, True)"
  "pn_gram (panel_after lcd_init p) = pn_gram p"
  by (simp_all add: panel_after_sends [OF lcd_init_sends] panel_config_def lcd_config_def panel_step_def fun_eq_iff)

lemma lcd_reinit_config:
  assumes "v \<in> {lcd_slpout_dispon, lcd_slpout_dispon_yield, lcd_slpout_dispon_fast}"
  shows "panel_config (panel_after v p) = (pn_regs p ++ map_of lcd_config, True, True, True)"
    and "pn_gram (panel_after v p) = pn_gram p"
  by (simp_all add: panel_after_sends [OF lcd_reinit_sends [OF assms]] panel_config_def lcd_config_def panel_step_def
      fun_eq_iff map_add_def)

text \<open>
  The three re-initialisations do what the boot initialisation does.  On a panel that holds
  no other configuration than the boot initialisation gives, a reset one in particular, each
  variant leaves the same configuration registers, the panel awake, on and inverted, and the
  pixels as they were; and none of them sends the reset command, whose current surge they
  are there to avoid.
\<close>

theorem lcd_reinit_equivalent:
  assumes "v \<in> {lcd_slpout_dispon, lcd_slpout_dispon_yield, lcd_slpout_dispon_fast}"
    and "dom (pn_regs p) \<subseteq> dom (pn_regs (panel_after lcd_init q))"
  shows "panel_config (panel_after v p) = panel_config (panel_after lcd_init q)
    \<and> pn_gram (panel_after v p) = pn_gram p \<and> ST_SWRESET \<notin> fst ` set (lcd_commands v)"
proof (intro conjI)
  have "pn_regs (panel_after lcd_init q) = map_of lcd_config"
    using lcd_init_config(1) [of q] by (simp add: panel_config_def)
  then have "pn_regs p ++ map_of lcd_config = map_of lcd_config"
    using assms(2) by (intro map_of_subsumed) (simp add: dom_map_of_conv_image_fst)
  then show "panel_config (panel_after v p) = panel_config (panel_after lcd_init q)"
    by (simp add: lcd_reinit_config [OF assms(1)] lcd_init_config)
  show "pn_gram (panel_after v p) = pn_gram p"
    by (rule lcd_reinit_config [OF assms(1)])
  show "ST_SWRESET \<notin> fst ` set (lcd_commands v)"
    by (simp add: lcd_commands_eq [OF lcd_reinit_sends [OF assms(1)]] lcd_config_def)
qed

definition panel_reset :: panel where
  "panel_reset = \<lparr>pn_gram = (\<lambda>_. 0), pn_cols = (0, 0), pn_rows = (0, 0), pn_regs = Map.empty,
     pn_awake = False, pn_on = False, pn_inverted = False\<rparr>"

lemma lcd_reinit_equivalent_witness:
  "panel_config (panel_after lcd_slpout_dispon_fast panel_reset) = panel_config (panel_after lcd_init panel_reset)
    \<and> pn_gram (panel_after lcd_slpout_dispon_fast panel_reset) = pn_gram panel_reset
    \<and> ST_SWRESET \<notin> fst ` set (lcd_commands lcd_slpout_dispon_fast)"
  by (rule lcd_reinit_equivalent) (simp_all add: panel_reset_def)

text \<open>The diagnostic fill covers the memory of the controller, 162 columns by 132 rows.\<close>

lemma lcd_fill_gram_raw_shows:
  "pn_gram (panel_after (lcd_fill_gram_raw c) p) (i, j) = (if i < 162 \<and> j < 132 then c else pn_gram p (i, j))"
proof -
  have body: "bus_sends_data (lcd_fill (lcd_chunk c) (162 * 132 * 2)) (concat (map be_bytes16 (replicate (162 * 132) c)))"
    by (rule lcd_fill_sends) simp
  have "lcd_sends (lcd_cmd ST_CASET @ lcd_data [0, 0, 0, 161] 4 @ lcd_cmd ST_RASET @ lcd_data [0, 0, 0, 131] 4)
      [(ST_CASET, [0, 0, 0, 161]), (ST_RASET, [0, 0, 0, 131])]"
    by (rule lcd_sendsI) (auto simp: bus_simps intro: exI [of _ True])
  from lcd_sends_append [OF this lcd_write_sends [OF body]]
  have "lcd_sends (lcd_fill_gram_raw c) [(ST_CASET, [0, 0, 0, 161]), (ST_RASET, [0, 0, 0, 131]),
      (ST_RAMWR, concat (map be_bytes16 (replicate (162 * 132) c)))]"
    by (simp only: lcd_fill_gram_raw_def append.assoc append_Cons append_Nil)
  moreover have "panel_range [0, 0, 0, 161] = (0, 0 + 162 - 1)" "panel_range [0, 0, 0, 131] = (0, 0 + 132 - 1)"
    by (simp_all add: panel_range_def obsw_be16_def)
  moreover have "panel_paint (0, 0 + 162 - 1) (0, 0 + 132 - 1) (concat (map be_bytes16 (replicate (162 * 132) c))) (pn_gram p)
      = (\<lambda>(i, j). if 0 \<le> i \<and> i < 0 + 162 \<and> 0 \<le> j \<and> j < 0 + 132
          then replicate (162 * 132) c ! ((j - 0) * 162 + (i - 0)) else pn_gram p (i, j))"
    by (rule panel_paint_rect) simp_all
  ultimately show ?thesis
    by (simp add: panel_after_sends panel_step_def)
qed

end
