(* ===== verification/Lcd_Console.thy ===== *)
theory Lcd_Console
  imports Lcd
begin

section \<open>The scrolling console\<close>

text \<open>
  \<^verbatim>\<open>src/hal/stm32h7/lcd_console.c\<close>, in the build with FreeRTOS: the lock is a critical section.
  The static variables are the fields of \<open>console\<close>, which also keeps what was done to the
  display so far.  A store outside of \<open>g_buf\<close> is undefined in C; here it is \<open>None\<close>.
\<close>

record console =
  con_buf :: "u8 list list"
  con_row :: u8
  con_col :: u8
  con_fg :: u16
  con_bg :: u16
  con_ops :: "lcd_op list"

abbreviation (input) con_rows :: u8 where "con_rows \<equiv> 9"
abbreviation (input) con_cols :: u8 where "con_cols \<equiv> 26"
abbreviation (input) blank :: u8 where "blank \<equiv> 0x20"

definition con_store :: "u8 \<Rightarrow> u8 \<Rightarrow> u8 \<Rightarrow> console \<Rightarrow> console option" where
  "con_store row col ch s =
    (if row < con_rows \<and> col < con_cols
     then Some (s\<lparr>con_buf := (con_buf s)[unat row := (con_buf s ! unat row)[unat col := ch]]\<rparr>)
     else None)"

definition con_draw :: "u8 \<Rightarrow> u8 \<Rightarrow> u8 \<Rightarrow> u16 \<Rightarrow> u16 \<Rightarrow> console \<Rightarrow> console" where
  "con_draw col row ch fg bg s = s\<lparr>con_ops := con_ops s @ [Enter_critical]
     @ lcd_draw_char (ucast (ucast col * 6 :: u32)) (ucast (ucast row * 8 :: u32)) ch fg bg @ [Exit_critical]\<rparr>"

definition draw_char_locked :: "u8 \<Rightarrow> u8 \<Rightarrow> u8 \<Rightarrow> console \<Rightarrow> console" where
  "draw_char_locked col row ch s = con_draw col row ch (con_fg s) (con_bg s) s"

definition console_scroll :: "console \<Rightarrow> console" where
  "console_scroll s =
    (let buf = take 8 (drop 1 (con_buf s)) @ [replicate 26 blank];
         s1 = fold (\<lambda>r. fold (\<lambda>c. draw_char_locked (of_nat c) (of_nat r) (buf ! r ! c)) [0..<26]) [0..<9]
                (s\<lparr>con_buf := buf\<rparr>)
     in s1\<lparr>con_row := con_rows - 1, con_col := 0\<rparr>)"

text \<open>The start of the next row: \<open>g_col = 0; g_row++; if (g_row >= LCD_CONSOLE_ROWS) console_scroll();\<close>\<close>

definition con_next_row :: "console \<Rightarrow> console" where
  "con_next_row s =
    (let s1 = s\<lparr>con_col := 0, con_row := con_row s + 1\<rparr>
     in if con_rows \<le> con_row s1 then console_scroll s1 else s1)"

text \<open>A character at the cursor, and the padding of a row by blanks.\<close>

definition con_put :: "u8 \<Rightarrow> console \<Rightarrow> console option" where
  "con_put ch s =
    (case con_store (con_row s) (con_col s) ch s of
       None \<Rightarrow> None
     | Some s1 \<Rightarrow> Some ((draw_char_locked (con_col s1) (con_row s1) ch s1)\<lparr>con_col := con_col s1 + 1\<rparr>))"

lemma con_put_col: "con_put ch s = Some s' \<Longrightarrow> con_col s' = con_col s + 1 \<and> con_col s < con_cols"
  by (auto simp: con_put_def con_store_def draw_char_locked_def con_draw_def split: if_splits option.splits)

lemma col_step: "col < con_cols \<Longrightarrow> unat (col + 1) = unat col + 1"
  by (simp add: word_less_nat_alt unat_word_ariths)

function con_pad :: "console \<Rightarrow> console option" where
  "con_pad s =
    (if con_col s < con_cols
     then case con_put blank s of None \<Rightarrow> None | Some s1 \<Rightarrow> con_pad s1
     else Some s)"
  by pat_completeness auto

termination con_pad
  by (relation "measure (\<lambda>s. 26 - unat (con_col s))") (auto dest!: con_put_col simp: col_step word_less_nat_alt)

declare con_pad.simps [simp del]

definition console_putchar :: "u8 \<Rightarrow> console \<Rightarrow> console option" where
  "console_putchar ch s =
    (if ch = 0x0D then Some (s\<lparr>con_col := 0\<rparr>)
     else if ch = 0x0A
     then case con_pad s of None \<Rightarrow> None | Some s1 \<Rightarrow> Some (con_next_row s1)
     else con_put ch (if con_cols \<le> con_col s then con_next_row s else s))"

subsection \<open>The interface\<close>

fun con_status :: "u8 list \<Rightarrow> u16 \<Rightarrow> u16 \<Rightarrow> nat list \<Rightarrow> console \<Rightarrow> console" where
  "con_status str fg bg [] s = s"
| "con_status str fg bg (c # cs) s =
    (case str of
       [] \<Rightarrow> con_status [] fg bg cs (con_draw (of_nat c) 9 blank fg bg s)
     | ch # str' \<Rightarrow>
         if ch = 0 then con_status str fg bg cs (con_draw (of_nat c) 9 blank fg bg s)
         else con_status str' fg bg cs (con_draw (of_nat c) 9 ch fg bg s))"

definition lcd_console_set_status :: "u8 list \<Rightarrow> u16 \<Rightarrow> u16 \<Rightarrow> console \<Rightarrow> console" where
  "lcd_console_set_status str fg bg s = con_status str fg bg [0..<26] s"

definition lcd_console_init :: "console \<Rightarrow> console" where
  "lcd_console_init s = s\<lparr>con_fg := LCD_GREEN, con_bg := LCD_BLACK, con_row := 0, con_col := 0,
     con_buf := replicate 9 (replicate 26 blank)\<rparr>"

definition lcd_console_clear :: "console \<Rightarrow> console" where
  "lcd_console_clear s = s\<lparr>con_row := 0, con_col := 0, con_buf := replicate 9 (replicate 26 blank),
     con_ops := con_ops s @ [Enter_critical] @ lcd_clear (con_bg s) @ [Exit_critical]\<rparr>"

definition lcd_console_set_colours :: "u16 \<Rightarrow> u16 \<Rightarrow> console \<Rightarrow> console" where
  "lcd_console_set_colours fg bg s = s\<lparr>con_fg := fg, con_bg := bg\<rparr>"

fun lcd_console_puts :: "u8 list \<Rightarrow> console \<Rightarrow> console option" where
  "lcd_console_puts [] s = Some s"
| "lcd_console_puts (ch # str) s =
    (if ch = 0 then Some s
     else case console_putchar ch s of None \<Rightarrow> None | Some s1 \<Rightarrow> lcd_console_puts str s1)"

text \<open>What the rest of the software calls.\<close>

datatype console_call = Puts "u8 list" | Set_status "u8 list" u16 u16 | Set_colours u16 u16 | Clear

fun con_call :: "console_call \<Rightarrow> console \<Rightarrow> console option" where
  "con_call (Puts str) s = lcd_console_puts str s"
| "con_call (Set_status str fg bg) s = Some (lcd_console_set_status str fg bg s)"
| "con_call (Set_colours fg bg) s = Some (lcd_console_set_colours fg bg s)"
| "con_call Clear s = Some (lcd_console_clear s)"

fun con_calls :: "console_call list \<Rightarrow> console \<Rightarrow> console option" where
  "con_calls [] s = Some s"
| "con_calls (c # cs) s = (case con_call c s of None \<Rightarrow> None | Some s1 \<Rightarrow> con_calls cs s1)"

section \<open>The buffer is never left, and the screen shows it\<close>

definition con_wf :: "console \<Rightarrow> bool" where
  "con_wf s \<longleftrightarrow> length (con_buf s) = 9 \<and> (\<forall>r < 9. length (con_buf s ! r) = 26) \<and> con_row s < con_rows \<and> con_col s \<le> con_cols"

subsection \<open>Critical sections\<close>

text \<open>
  The operations of the driver only run between \<open>Enter_critical\<close> and \<open>Exit_critical\<close>, and
  these alternate; the result is whether the lock is held at the end.
\<close>

fun lock_run :: "lcd_op list \<Rightarrow> bool \<Rightarrow> bool option" where
  "lock_run [] held = Some held"
| "lock_run (Enter_critical # ops) held = (if held then None else lock_run ops True)"
| "lock_run (Exit_critical # ops) held = (if held then lock_run ops False else None)"
| "lock_run (_ # ops) held = (if held then lock_run ops held else None)"

definition lock_free :: "lcd_op list \<Rightarrow> bool" where
  "lock_free ops \<longleftrightarrow> Enter_critical \<notin> set ops \<and> Exit_critical \<notin> set ops"

lemma lock_run_append: "lock_run (a @ b) h = (case lock_run a h of None \<Rightarrow> None | Some h' \<Rightarrow> lock_run b h')"
  by (induction a h rule: lock_run.induct) auto

lemma lock_run_free: "lock_free ops \<Longrightarrow> lock_run (ops @ b) True = lock_run b True"
proof (induction ops)
  case (Cons x ops)
  then show ?case
    by (cases x) (auto simp: lock_free_def)
qed simp

lemma lock_free_simps [simp]:
  "lock_free []" "lock_free (a @ b) \<longleftrightarrow> lock_free a \<and> lock_free b"
  "lock_free (x # a) \<longleftrightarrow> x \<noteq> Enter_critical \<and> x \<noteq> Exit_critical \<and> lock_free a"
  by (auto simp: lock_free_def)

lemma lock_free_tx [simp]: "lock_free (spi4_tx bs n)"
  by (simp add: spi4_tx_def)

lemma lock_free_lcd [simp]:
  "lock_free (lcd_cmd c)" "lock_free (lcd_data bs n)" "lock_free (lcd_set_window x0 y0 x1 y1)"
  "lock_free (lcd_draw_char x y ch fg bg)"
  by (simp_all add: lcd_cmd_def lcd_data_def lcd_set_window_def lcd_draw_char_def Let_def)

lemma lock_free_fill [simp]: "lock_free (lcd_fill chunk n)"
  by (induction chunk n rule: lcd_fill.induct) (subst lcd_fill.simps, simp)

lemma lock_free_clear [simp]: "lock_free (lcd_clear c)"
  by (simp add: lcd_clear_def lcd_fill_rect_def)

subsection \<open>The cells of the screen\<close>

text \<open>The blank has no dots.\<close>

lemma blank_pixel [simp]: "lcd_cell_pixel blank fg bg i j = bg"
proof -
  have "lcd_glyph blank = [0, 0, 0, 0, 0]" by (simp add: lcd_glyph_def font5x7_def)
  also have "\<dots> = replicate 5 0" by (simp add: numeral_eq_Suc)
  finally show ?thesis by (auto simp: lcd_cell_pixel_def)
qed

text \<open>
  A cell shows a character if its pixels are those of its glyph in a foreground and a
  background of the pairs \<open>K\<close>.
\<close>

definition cell_shows :: "(u16 \<times> u16) set \<Rightarrow> panel \<Rightarrow> nat \<Rightarrow> nat \<Rightarrow> u8 \<Rightarrow> bool" where
  "cell_shows K p r c ch \<longleftrightarrow>
    (\<exists>fg bg. (fg, bg) \<in> K \<and> (\<forall>i < 6. \<forall>j < 8. pn_gram p (6 * c + 1 + i, 8 * r + 26 + j) = lcd_cell_pixel ch fg bg i j))"

definition screen_shows :: "(u16 \<times> u16) set \<Rightarrow> panel \<Rightarrow> (nat \<Rightarrow> nat \<Rightarrow> u8) \<Rightarrow> bool" where
  "screen_shows K p T \<longleftrightarrow> (\<forall>r < 10. \<forall>c < 26. cell_shows K p r c (T r c))"

text \<open>
  Where no pair has the same colour twice, a cell shows one glyph only: its lower right pixel
  has the background, and the dots of the glyph are the pixels of another colour.
\<close>

definition glyph_dots :: "u8 \<Rightarrow> (nat \<times> nat) set" where
  "glyph_dots ch = {(i, j). i < 5 \<and> j < 7 \<and> bit (lcd_glyph ch ! i) j}"

definition cell_reads :: "(u16 \<times> u16) set \<Rightarrow> panel \<Rightarrow> nat \<Rightarrow> nat \<Rightarrow> u8 \<Rightarrow> bool" where
  "cell_reads K p r c ch \<longleftrightarrow> cell_shows K p r c ch \<and> (\<forall>ch'. cell_shows K p r c ch' \<longrightarrow> glyph_dots ch' = glyph_dots ch)"

lemma cell_shows_dots:
  assumes "cell_shows K p r c ch" "\<forall>x \<in> K. fst x \<noteq> snd x"
  shows "glyph_dots ch = {(i, j). i < 5 \<and> j < 7 \<and> pn_gram p (6 * c + 1 + i, 8 * r + 26 + j) \<noteq> pn_gram p (6 * c + 6, 8 * r + 33)}"
proof -
  obtain fg bg where k: "(fg, bg) \<in> K" "\<forall>i < 6. \<forall>j < 8. pn_gram p (6 * c + 1 + i, 8 * r + 26 + j) = lcd_cell_pixel ch fg bg i j"
    using assms(1) by (auto simp: cell_shows_def)
  have "pn_gram p (6 * c + 6, 8 * r + 33) = bg"
    using k(2) [rule_format, of 5 7] by (simp add: lcd_cell_pixel_def add.commute)
  moreover have "fg \<noteq> bg" using assms(2) k(1) by fastforce
  moreover have "pn_gram p (6 * c + 1 + i, 8 * r + 26 + j) \<noteq> bg \<longleftrightarrow> bit (lcd_glyph ch ! i) j" if "i < 5" "j < 7" for i j
    using k(2) [rule_format, of i j] that \<open>fg \<noteq> bg\<close> by (simp add: lcd_cell_pixel_def)
  ultimately show ?thesis by (auto simp: glyph_dots_def)
qed

lemma cell_shows_reads: "cell_shows K p r c ch \<Longrightarrow> \<forall>x \<in> K. fst x \<noteq> snd x \<Longrightarrow> cell_reads K p r c ch"
  using cell_shows_dots by (auto simp: cell_reads_def)

lemma cell_redrawn:
  assumes "(fg, bg) \<in> K" "pn_gram p' = panel_rect (6 * c) (8 * r) 6 8 (lcd_cell_pixel ch fg bg) (pn_gram p)"
  shows "cell_shows K p' r c ch"
    and "(r', c') \<noteq> (r, c) \<Longrightarrow> cell_shows K p r' c' ch' \<Longrightarrow> cell_shows K p' r' c' ch'"
proof -
  show "cell_shows K p' r c ch"
    unfolding cell_shows_def assms(2) panel_rect_def using assms(1) by (intro exI [of _ fg] exI [of _ bg]) auto
  assume n: "(r', c') \<noteq> (r, c)" and "cell_shows K p r' c' ch'"
  then obtain fg' bg' where s: "(fg', bg') \<in> K" "\<forall>i < 6. \<forall>j < 8. pn_gram p (6 * c' + 1 + i, 8 * r' + 26 + j) = lcd_cell_pixel ch' fg' bg' i j"
    by (auto simp: cell_shows_def)
  have "pn_gram p' (6 * c' + 1 + i, 8 * r' + 26 + j) = pn_gram p (6 * c' + 1 + i, 8 * r' + 26 + j)" if "i < 6" "j < 8" for i j
    using n that unfolding assms(2) panel_rect_def by (cases "c' = c"; cases "r' = r") auto
  with s show "cell_shows K p' r' c' ch'"
    unfolding cell_shows_def by (intro exI [of _ fg'] exI [of _ bg']) simp
qed


subsection \<open>One character\<close>

text \<open>
  The console in order on a panel that was \<open>p\<close> when its log began, with text \<open>T\<close> on the
  screen: the log decodes, holds the lock where it has to, and shows \<open>T\<close> in the colours of
  \<open>K\<close>, which has the current ones.
\<close>

definition con_log_ok :: "console \<Rightarrow> bool" where
  "con_log_ok s \<longleftrightarrow> (\<exists>ts. lcd_sends (con_ops s) ts) \<and> lock_run (con_ops s) False = Some False"

definition con_screen :: "(u16 \<times> u16) set \<Rightarrow> panel \<Rightarrow> console \<Rightarrow> (nat \<Rightarrow> nat \<Rightarrow> u8) \<Rightarrow> bool" where
  "con_screen K p s T \<longleftrightarrow> con_log_ok s \<and> (con_fg s, con_bg s) \<in> K \<and> screen_shows K (panel_after (con_ops s) p) T"

lemma lock_op_sends: "lcd_sends [Enter_critical] []" "lcd_sends [Exit_critical] []"
proof -
  show "lcd_sends [Enter_critical] []" "lcd_sends [Exit_critical] []"
    by (rule lcd_sendsI, rule exI, rule trans, simp, rule lcd_bus.equality, simp_all)+
qed

lemma locked_append:
  assumes "con_log_ok s" "lcd_sends ops ts" "lock_free ops"
  shows "con_log_ok (s\<lparr>con_ops := con_ops s @ [Enter_critical] @ ops @ [Exit_critical]\<rparr>)"
    and "panel_after (con_ops s @ [Enter_critical] @ ops @ [Exit_critical]) p = panel_after ops (panel_after (con_ops s) p)"
proof -
  have l: "lcd_sends ([Enter_critical] @ ops @ [Exit_critical]) ts"
    using lcd_sends_append [OF lock_op_sends(1) lcd_sends_append [OF assms(2) lock_op_sends(2)]] by simp
  then show "con_log_ok (s\<lparr>con_ops := con_ops s @ [Enter_critical] @ ops @ [Exit_critical]\<rparr>)"
    using assms lcd_sends_append [OF _ l] lock_run_free [OF assms(3), of "[]"] by (auto simp: con_log_ok_def lock_run_append)
  show "panel_after (con_ops s @ [Enter_critical] @ ops @ [Exit_critical]) p = panel_after ops (panel_after (con_ops s) p)"
    using assms panel_after_append [OF _ l] panel_after_sends [OF l] panel_after_sends [OF assms(2)]
    by (auto simp: con_log_ok_def)
qed

lemma con_draw_frame [simp]:
  "con_buf (con_draw c r ch fg bg s) = con_buf s" "con_row (con_draw c r ch fg bg s) = con_row s"
  "con_col (con_draw c r ch fg bg s) = con_col s" "con_fg (con_draw c r ch fg bg s) = con_fg s"
  "con_bg (con_draw c r ch fg bg s) = con_bg s"
  by (simp_all add: con_draw_def)

lemma draw_char_locked_frame [simp]:
  "con_buf (draw_char_locked c r ch s) = con_buf s" "con_row (draw_char_locked c r ch s) = con_row s"
  "con_col (draw_char_locked c r ch s) = con_col s" "con_fg (draw_char_locked c r ch s) = con_fg s"
  "con_bg (draw_char_locked c r ch s) = con_bg s"
  by (simp_all add: draw_char_locked_def)

lemma con_draw_screen:
  assumes "con_log_ok s" "unat c < 26" "unat r < 10"
  shows "con_log_ok (con_draw c r ch fg bg s)"
    and "(fg, bg) \<in> K \<Longrightarrow> cell_shows K (panel_after (con_ops (con_draw c r ch fg bg s)) p) (unat r) (unat c) ch"
    and "(fg, bg) \<in> K \<Longrightarrow> (r', c') \<noteq> (unat r, unat c) \<Longrightarrow> cell_shows K (panel_after (con_ops s) p) r' c' ch'
      \<Longrightarrow> cell_shows K (panel_after (con_ops (con_draw c r ch fg bg s)) p) r' c' ch'"
proof -
  let ?x = "ucast (ucast c * 6 :: u32) :: u16" and ?y = "ucast (ucast r * 8 :: u32) :: u16"
  have xy: "unat ?x = 6 * unat c" "unat ?y = 8 * unat r"
    using assms by (simp_all add: unat_ucast_small unat_word_ariths unat_ucast_u8)
  then have b: "unat ?x + 6 \<le> 160" "unat ?y + 8 \<le> 80"
    using assms by simp_all
  obtain ts where ts: "lcd_sends (lcd_draw_char ?x ?y ch fg bg) ts"
    using lcd_draw_char_shows(1) [OF b] by blast
  note l = locked_append [OF assms(1) ts]
  show "con_log_ok (con_draw c r ch fg bg s)"
    using l(1) by (simp add: con_draw_def)
  have "pn_gram (panel_after (con_ops (con_draw c r ch fg bg s)) p)
      = panel_rect (6 * unat c) (8 * unat r) 6 8 (lcd_cell_pixel ch fg bg) (pn_gram (panel_after (con_ops s) p))"
    unfolding con_draw_def using l(2) [of p] lcd_draw_char_shows(2) [OF b] by (simp add: xy)
  note cell = cell_redrawn [OF _ this]
  show "(fg, bg) \<in> K \<Longrightarrow> cell_shows K (panel_after (con_ops (con_draw c r ch fg bg s)) p) (unat r) (unat c) ch"
    by (rule cell(1))
  show "(fg, bg) \<in> K \<Longrightarrow> (r', c') \<noteq> (unat r, unat c) \<Longrightarrow> cell_shows K (panel_after (con_ops s) p) r' c' ch'
      \<Longrightarrow> cell_shows K (panel_after (con_ops (con_draw c r ch fg bg s)) p) r' c' ch'"
    by (rule cell(2))
qed

lemma con_draw_text:
  assumes "con_screen K p s T" "unat c < 26" "unat r < 10" "(fg, bg) \<in> K"
  shows "con_screen K p (con_draw c r ch fg bg s) (T(unat r := (T (unat r))(unat c := ch)))"
proof -
  have "con_log_ok s"
    using assms by (simp add: con_screen_def)
  note d = con_draw_screen [OF this assms(2,3), where ch = ch and fg = fg and bg = bg]
  show ?thesis
    unfolding con_screen_def screen_shows_def
    using d(1) d(2) [OF assms(4), of p] d(3) [OF assms(4), of _ _ p] assms(1) by (auto simp: con_screen_def screen_shows_def)
qed


subsection \<open>The text of the buffer on the screen\<close>

text \<open>The rows of the buffer, and the status row \<open>st\<close> below them.\<close>

definition con_text :: "u8 list list \<Rightarrow> (nat \<Rightarrow> u8) \<Rightarrow> nat \<Rightarrow> nat \<Rightarrow> u8" where
  "con_text buf st r c = (if r < 9 then buf ! r ! c else st c)"

definition con_mirrors :: "(u16 \<times> u16) set \<Rightarrow> panel \<Rightarrow> (nat \<Rightarrow> u8) \<Rightarrow> console \<Rightarrow> bool" where
  "con_mirrors K p st s \<longleftrightarrow> con_screen K p s (con_text (con_buf s) st)"

lemma con_screen_cong:
  assumes "\<And>r c. r < 10 \<Longrightarrow> c < 26 \<Longrightarrow> T r c = T' r c" "con_ops s = con_ops s'" "con_fg s = con_fg s'" "con_bg s = con_bg s'"
  shows "con_screen K p s T = con_screen K p s' T'"
  using assms by (simp add: con_screen_def screen_shows_def con_log_ok_def)

lemma con_screenI:
  "con_screen K p s T \<Longrightarrow> con_ops s' = con_ops s \<Longrightarrow> con_fg s' = con_fg s \<Longrightarrow> con_bg s' = con_bg s
    \<Longrightarrow> (\<And>r c. r < 10 \<Longrightarrow> c < 26 \<Longrightarrow> T' r c = T r c) \<Longrightarrow> con_screen K p s' T'"
  using con_screen_cong by metis

lemma con_mirrors_other:
  "con_mirrors K p st s \<Longrightarrow> con_buf s' = con_buf s \<Longrightarrow> con_ops s' = con_ops s \<Longrightarrow> con_fg s' = con_fg s
    \<Longrightarrow> con_bg s' = con_bg s \<Longrightarrow> con_mirrors K p st s'"
  by (simp add: con_mirrors_def con_screen_def con_log_ok_def)

lemma con_mirrors_colours: "con_mirrors K p st s \<Longrightarrow> (con_fg s, con_bg s) \<in> K"
  by (simp add: con_mirrors_def con_screen_def)

lemma draw_char_locked_text:
  assumes "con_screen K p s T" "unat c < 26" "unat r < 10"
  shows "con_screen K p (draw_char_locked c r ch s) (T(unat r := (T (unat r))(unat c := ch)))"
proof -
  have "(con_fg s, con_bg s) \<in> K" using assms(1) by (simp add: con_screen_def)
  from con_draw_text [OF assms this] show ?thesis by (simp add: draw_char_locked_def)
qed

text \<open>Redrawing every cell of the buffer shows the buffer, whatever was shown before.\<close>

lemma redraw_row:
  assumes "con_screen K p s T" "r < 9" "n \<le> 26"
  shows "con_screen K p (fold (\<lambda>c. draw_char_locked (of_nat c) (of_nat r) (buf ! r ! c)) [0..<n] s)
    (\<lambda>r' c. if r' = r \<and> c < n then buf ! r ! c else T r' c)"
  using assms(3)
proof (induction n)
  case 0
  then show ?case
    using assms by simp
next
  case (Suc n)
  let ?s = "fold (\<lambda>c. draw_char_locked (of_nat c) (of_nat r) (buf ! r ! c)) [0..<n] s"
  have "unat (of_nat n :: u8) = n" "unat (of_nat r :: u8) = r"
    using Suc assms by (simp_all add: unat_of_nat_small)
  then show ?case
    using draw_char_locked_text [OF Suc.IH, of "of_nat n" "of_nat r" "buf ! r ! n"] Suc.prems assms(2)
    by (auto elim!: con_screenI)
qed

lemma redraw_rows:
  assumes "con_screen K p s T" "n \<le> 9"
  shows "con_screen K p
    (fold (\<lambda>r. fold (\<lambda>c. draw_char_locked (of_nat c) (of_nat r) (buf ! r ! c)) [0..<26]) [0..<n] s)
    (\<lambda>r c. if r < n \<and> c < 26 then buf ! r ! c else T r c)"
  using assms(2)
proof (induction n)
  case 0
  then show ?case
    using assms by simp
next
  case (Suc n)
  then have "con_screen K p
    (fold (\<lambda>r. fold (\<lambda>c. draw_char_locked (of_nat c) (of_nat r) (buf ! r ! c)) [0..<26]) [0..<n] s)
    (\<lambda>r c. if r < n \<and> c < 26 then buf ! r ! c else T r c)"
    by simp
  from redraw_row [OF this, of n 26 buf] Suc.prems
  show ?case
    by (auto elim!: con_screenI)
qed

lemma fold_draw_frame:
  "con_buf (fold (\<lambda>r. fold (\<lambda>c. draw_char_locked (of_nat c) (of_nat r) (buf ! r ! c)) xs) rs s) = con_buf s"
  "con_fg (fold (\<lambda>r. fold (\<lambda>c. draw_char_locked (of_nat c) (of_nat r) (buf ! r ! c)) xs) rs s) = con_fg s"
  "con_bg (fold (\<lambda>r. fold (\<lambda>c. draw_char_locked (of_nat c) (of_nat r) (buf ! r ! c)) xs) rs s) = con_bg s"
proof -
  let ?row = "\<lambda>r. fold (\<lambda>c. draw_char_locked (of_nat c) (of_nat r) (buf ! r ! c)) xs"
  have "con_buf (?row r s) = con_buf s" "con_fg (?row r s) = con_fg s" "con_bg (?row r s) = con_bg s" for r s
    by (induction xs arbitrary: s) simp_all
  then show "con_buf (fold ?row rs s) = con_buf s" "con_fg (fold ?row rs s) = con_fg s" "con_bg (fold ?row rs s) = con_bg s"
    by (induction rs arbitrary: s) simp_all
qed

definition con_scrolled :: "u8 list list \<Rightarrow> u8 list list" where
  "con_scrolled buf = take 8 (drop 1 buf) @ [replicate 26 blank]"

lemma console_scroll_buf:
  "con_buf (console_scroll s) = con_scrolled (con_buf s)" "con_row (console_scroll s) = 8" "con_col (console_scroll s) = 0"
  "con_fg (console_scroll s) = con_fg s" "con_bg (console_scroll s) = con_bg s"
  by (simp_all add: console_scroll_def Let_def fold_draw_frame con_scrolled_def)

lemma console_scroll_mirrors:
  assumes "con_mirrors K p st s"
  shows "con_mirrors K p st (console_scroll s)"
proof -
  define s1 where "s1 = fold (\<lambda>r. fold (\<lambda>c. draw_char_locked (of_nat c) (of_nat r) (con_scrolled (con_buf s) ! r ! c)) [0..<26]) [0..<9]
      (s\<lparr>con_buf := con_scrolled (con_buf s)\<rparr>)"
  have "con_screen K p (s\<lparr>con_buf := con_scrolled (con_buf s)\<rparr>) (con_text (con_buf s) st)"
    using assms by (simp add: con_mirrors_def con_screen_def con_log_ok_def)
  from redraw_rows [OF this, of 9 "con_scrolled (con_buf s)"]
  have "con_screen K p s1 (con_text (con_scrolled (con_buf s)) st)"
    unfolding s1_def by (auto elim!: con_screenI simp: con_text_def)
  moreover have "con_ops (console_scroll s) = con_ops s1"
    by (simp add: console_scroll_def Let_def s1_def con_scrolled_def)
  ultimately show ?thesis
    using con_mirrors_colours [OF assms] by (simp add: con_mirrors_def console_scroll_buf con_screen_def con_log_ok_def)
qed

lemma con_next_row_mirrors: "con_mirrors K p st s \<Longrightarrow> con_mirrors K p st (con_next_row s)"
  unfolding con_next_row_def Let_def
  by (auto intro!: console_scroll_mirrors elim: con_mirrors_other)

lemma con_put_mirrors:
  assumes "con_mirrors K p st s" "con_wf s" "con_put ch s = Some s'"
  shows "con_mirrors K p st s'"
proof -
  obtain rc: "con_row s < con_rows" "con_col s < con_cols"
    using assms(3) by (auto simp: con_put_def con_store_def split: if_splits)
  define s1 where "s1 = s\<lparr>con_buf := (con_buf s)[unat (con_row s) := (con_buf s ! unat (con_row s))[unat (con_col s) := ch]]\<rparr>"
  have s': "s' = (draw_char_locked (con_col s1) (con_row s1) ch s1)\<lparr>con_col := con_col s1 + 1\<rparr>"
    using assms(3) rc by (auto simp: con_put_def con_store_def s1_def)
  have "con_screen K p s1 (con_text (con_buf s) st)"
    using assms(1) by (simp add: con_mirrors_def con_screen_def con_log_ok_def s1_def)
  from draw_char_locked_text [OF this, of "con_col s" "con_row s" ch]
  have "con_screen K p (draw_char_locked (con_col s) (con_row s) ch s1)
      ((con_text (con_buf s) st)(unat (con_row s) := (con_text (con_buf s) st (unat (con_row s)))(unat (con_col s) := ch)))"
    using rc by (simp add: word_less_nat_alt)
  then show ?thesis
    unfolding con_mirrors_def
    by (rule con_screenI)
      (use rc assms(2) in \<open>auto simp: s' s1_def con_text_def con_wf_def nth_list_update word_less_nat_alt\<close>)
qed


subsection \<open>Every call is defined and keeps the screen in step\<close>

text \<open>The console in order, with or without a screen that mirrors it.\<close>

lemma scrolled_wf:
  assumes "con_wf s"
  shows "length (con_scrolled (con_buf s)) = 9" "r < 9 \<Longrightarrow> length (con_scrolled (con_buf s) ! r) = 26"
  using assms by (auto simp: con_wf_def con_scrolled_def nth_append)

lemma con_next_row_wf:
  assumes "con_wf s"
  shows "con_wf (con_next_row s)" "con_col (con_next_row s) = 0"
proof -
  have "con_row s + 1 < con_rows \<or> con_rows \<le> con_row s + 1"
    by auto
  then show "con_wf (con_next_row s)" "con_col (con_next_row s) = 0"
    using assms scrolled_wf [of "s\<lparr>con_col := 0, con_row := con_row s + 1\<rparr>"] scrolled_wf [OF assms]
    by (auto simp: con_next_row_def Let_def con_wf_def console_scroll_buf)
qed

lemma con_put_defined:
  assumes "con_wf s" "con_col s < con_cols"
  obtains s' where "con_put ch s = Some s'" "con_wf s'"
    "con_buf s' = (con_buf s)[unat (con_row s) := (con_buf s ! unat (con_row s))[unat (con_col s) := ch]]"
    "con_row s' = con_row s" "con_col s' = con_col s + 1"
proof -
  define s1 where "s1 = s\<lparr>con_buf := (con_buf s)[unat (con_row s) := (con_buf s ! unat (con_row s))[unat (con_col s) := ch]]\<rparr>"
  define s' where "s' = (draw_char_locked (con_col s1) (con_row s1) ch s1)\<lparr>con_col := con_col s1 + 1\<rparr>"
  have "con_put ch s = Some s'"
    using assms by (simp add: con_put_def con_store_def con_wf_def s'_def s1_def)
  moreover have "con_buf s' = (con_buf s)[unat (con_row s) := (con_buf s ! unat (con_row s))[unat (con_col s) := ch]]"
      "con_row s' = con_row s" "con_col s' = con_col s + 1"
    by (simp_all add: s'_def s1_def)
  moreover have "con_wf s'"
    using assms col_step [OF assms(2)] calculation
    by (auto simp: con_wf_def nth_list_update word_less_nat_alt word_le_nat_alt)
  ultimately show thesis
    using that by blast
qed

text \<open>The padding writes blanks from the cursor to the end of the row.\<close>

definition pad_from :: "nat \<Rightarrow> u8 list \<Rightarrow> u8 list" where
  "pad_from n row = take n row @ replicate (26 - n) blank"

lemma pad_from_step: "n < 26 \<Longrightarrow> length row = 26 \<Longrightarrow> pad_from (Suc n) (row[n := blank]) = pad_from n row"
  by (simp add: pad_from_def take_Suc_conv_app_nth Suc_diff_Suc flip: replicate_Suc)

lemma con_pad_defined:
  assumes "con_wf s"
  shows "\<exists>s'. con_pad s = Some s' \<and> con_wf s' \<and> con_row s' = con_row s
    \<and> con_buf s' = (con_buf s)[unat (con_row s) := pad_from (unat (con_col s)) (con_buf s ! unat (con_row s))]
    \<and> (\<forall>K p st. con_mirrors K p st s \<longrightarrow> con_mirrors K p st s')"
  using assms
proof (induction s rule: con_pad.induct)
  case (1 s)
  let ?r = "unat (con_row s)" and ?c = "unat (con_col s)"
  have r: "?r < 9" "length (con_buf s) = 9" "length (con_buf s ! ?r) = 26"
    using 1 by (auto simp: con_wf_def word_less_nat_alt)
  show ?case
  proof (cases "con_col s < con_cols")
    case True
    then have c: "?c < 26"
      by (simp add: word_less_nat_alt)
    obtain s1 where s1: "con_put blank s = Some s1" "con_wf s1"
        "con_buf s1 = (con_buf s)[?r := (con_buf s ! ?r)[?c := blank]]" "con_row s1 = con_row s" "con_col s1 = con_col s + 1"
      by (rule con_put_defined [OF 1(2) True])
    have "pad_from (unat (con_col s1)) (con_buf s1 ! ?r) = pad_from ?c (con_buf s ! ?r)"
      using r c by (simp add: s1 col_step [OF True] pad_from_step)
    moreover have "con_pad s = con_pad s1"
      using True s1(1) by (subst con_pad.simps) simp
    ultimately show ?thesis
      using 1(1) [OF True s1(1,2)] con_put_mirrors [OF _ 1(2) s1(1)] r
      by (auto simp: s1 list_update_overwrite)
  next
    case False
    then have "?c = 26"
      using 1(2) by (simp add: con_wf_def word_le_nat_alt word_less_nat_alt)
    then show ?thesis
      using False 1(2) r by (subst con_pad.simps) (simp add: pad_from_def)
  qed
qed

lemma console_putchar_defined:
  assumes "con_wf s"
  shows "\<exists>s'. console_putchar ch s = Some s' \<and> con_wf s' \<and> (\<forall>K p st. con_mirrors K p st s \<longrightarrow> con_mirrors K p st s')"
proof -
  consider (cr) "ch = 0x0D" | (nl) "ch = 0x0A" | (other) "ch \<noteq> 0x0D" "ch \<noteq> 0x0A"
    by auto
  then show ?thesis
  proof cases
    case cr
    then show ?thesis
      using assms by (auto simp: console_putchar_def con_wf_def elim: con_mirrors_other)
  next
    case nl
    obtain s1 where "con_pad s = Some s1" "con_wf s1" "\<And>K p st. con_mirrors K p st s \<Longrightarrow> con_mirrors K p st s1"
      using con_pad_defined [OF assms] by blast
    then show ?thesis
      using con_next_row_wf con_next_row_mirrors nl by (auto simp: console_putchar_def)
  next
    case other
    define s1 where "s1 = (if con_cols \<le> con_col s then con_next_row s else s)"
    have s1: "con_wf s1" "con_col s1 < con_cols" "\<And>K p st. con_mirrors K p st s \<Longrightarrow> con_mirrors K p st s1"
      using con_next_row_wf [OF assms] con_next_row_mirrors assms by (auto simp: s1_def)
    obtain s' where "con_put ch s1 = Some s'" "con_wf s'"
      by (rule con_put_defined [OF s1(1,2)])
    then show ?thesis
      using con_put_mirrors [OF s1(3) s1(1)] other by (auto simp: console_putchar_def s1_def [symmetric])
  qed
qed

lemma lcd_console_puts_defined:
  assumes "con_wf s"
  shows "\<exists>s'. lcd_console_puts str s = Some s' \<and> con_wf s' \<and> (\<forall>K p st. con_mirrors K p st s \<longrightarrow> con_mirrors K p st s')"
  using assms
proof (induction str arbitrary: s)
  case (Cons ch str)
  then show ?case
    using console_putchar_defined [OF Cons.prems, of ch] by (cases "ch = 0") fastforce+
qed simp

text \<open>The status row shows the string up to its end, then blanks.\<close>

definition con_status_text :: "u8 list \<Rightarrow> nat \<Rightarrow> u8" where
  "con_status_text str c = (let t = takeWhile (\<lambda>ch. ch \<noteq> 0) str in if c < length t then t ! c else blank)"

lemma con_status_text_simps:
  "con_status_text [] c = blank" "con_status_text (0 # str) c = blank"
  "ch \<noteq> 0 \<Longrightarrow> con_status_text (ch # str) 0 = ch"
  "ch \<noteq> 0 \<Longrightarrow> con_status_text (ch # str) (Suc c) = con_status_text str c"
  by (simp_all add: con_status_text_def Let_def)

lemma con_status_frame:
  "con_buf (con_status str fg bg cs s) = con_buf s" "con_row (con_status str fg bg cs s) = con_row s"
  "con_col (con_status str fg bg cs s) = con_col s"
  by (induction str fg bg cs s rule: con_status.induct) (simp_all split: list.splits)

lemma con_status_mirrors:
  assumes "con_mirrors K p st s" "n \<le> 26" "(fg, bg) \<in> K"
  shows "con_mirrors K p (\<lambda>c. if n \<le> c \<and> c < 26 then con_status_text str (c - n) else st c)
    (con_status str fg bg [n..<26] s)"
  using assms
proof (induction "26 - n" arbitrary: n str st s)
  case 0
  then have "n = 26"
    by simp
  moreover have "(\<lambda>c. if 26 \<le> c \<and> c < 26 then con_status_text str (c - n) else st c) = st"
    by (intro ext) auto
  ultimately show ?case
    using 0 by simp
next
  case (Suc k)
  have n: "n < 26" "[n..<26] = n # [Suc n..<26]"
    using Suc by (auto simp: upt_conv_Cons)
  define ch str' where "ch = con_status_text str 0" and "str' = (if str = [] \<or> hd str = 0 then str else tl str)"
  define s1 where "s1 = con_draw (of_nat n) 9 ch fg bg s"
  have st: "con_status_text str (Suc c) = con_status_text str' c" for c
    by (cases str) (auto simp: str'_def con_status_text_simps)
  have step: "con_status str fg bg [n..<26] s = con_status str' fg bg [Suc n..<26] s1"
    by (cases str) (auto simp: n(2) str'_def s1_def ch_def con_status_text_simps)
  have "unat (of_nat n :: u8) = n"
    using n by (simp add: unat_of_nat_small)
  then have "con_mirrors K p (st(n := ch)) s1"
    unfolding con_mirrors_def s1_def
    using con_draw_text [OF Suc.prems(1) [unfolded con_mirrors_def], of "of_nat n" 9 fg bg ch] n Suc.prems(3)
    by (auto elim!: con_screenI simp: con_text_def)
  from Suc.hyps(1) [OF _ this, of "Suc n" str']
  have "con_mirrors K p (\<lambda>c. if Suc n \<le> c \<and> c < 26 then con_status_text str' (c - Suc n) else (st(n := ch)) c)
      (con_status str' fg bg [Suc n..<26] s1)"
    using Suc.hyps(2) Suc.prems(3) n by simp
  moreover have "(if Suc n \<le> c \<and> c < 26 then con_status_text str' (c - Suc n) else (st(n := ch)) c)
      = (if n \<le> c \<and> c < 26 then con_status_text str (c - n) else st c)" for c
  proof (cases "Suc n \<le> c \<and> c < 26")
    case True
    then have "c - n = Suc (c - Suc n)"
      by arith
    then show ?thesis
      using True st by simp
  qed (use n in \<open>auto simp: ch_def\<close>)
  ultimately show ?case
    by (simp only: step)
qed

text \<open>Clearing the screen shows an empty buffer, whatever the screen showed.\<close>

lemma lcd_console_clear_wf: "con_wf (lcd_console_clear s)"
  by (simp add: con_wf_def lcd_console_clear_def)

lemma lcd_console_clear_mirrors:
  assumes "con_log_ok s" "(con_fg s, con_bg s) \<in> K"
  shows "con_mirrors K p (\<lambda>_. blank) (lcd_console_clear s)"
proof -
  obtain ts where ts: "lcd_sends (lcd_clear (con_bg s)) ts"
    using lcd_fill_rect_shows(1) [of LCD_W LCD_H 0 0 "con_bg s"] by (auto simp: lcd_clear_def)
  note l = locked_append [OF assms(1) ts lock_free_clear]
  have g: "pn_gram (panel_after (con_ops (lcd_console_clear s)) p)
      = panel_rect 0 0 160 80 (\<lambda>_ _. con_bg s) (pn_gram (panel_after (con_ops s) p))"
    using l(2) [of p] lcd_fill_rect_shows(2) [of LCD_W LCD_H 0 0 "con_bg s"]
    by (simp add: lcd_console_clear_def lcd_clear_def)
  have "cell_shows K (panel_after (con_ops (lcd_console_clear s)) p) r c blank" if "r < 10" "c < 26" for r c
    unfolding cell_shows_def g using that assms(2)
    by - (rule exI [of _ "con_fg s"], rule exI [of _ "con_bg s"], auto simp: panel_rect_def)
  moreover have "con_text (con_buf (lcd_console_clear s)) (\<lambda>_. blank) r c = blank" if "r < 10" "c < 26" for r c
    using that by (auto simp: con_text_def lcd_console_clear_def)
  ultimately show ?thesis
    using l(1) assms(2) by (auto simp: con_mirrors_def con_screen_def screen_shows_def con_log_ok_def lcd_console_clear_def)
qed


subsection \<open>Any sequence of calls\<close>

text \<open>What the status row shows after the calls, if it showed \<open>st\<close> before them.\<close>

fun con_status_after :: "console_call list \<Rightarrow> (nat \<Rightarrow> u8) \<Rightarrow> nat \<Rightarrow> u8" where
  "con_status_after [] st = st"
| "con_status_after (Set_status str fg bg # cs) st =
    con_status_after cs (\<lambda>c. if c < 26 then con_status_text str c else st c)"
| "con_status_after (Clear # cs) st = con_status_after cs (\<lambda>_. blank)"
| "con_status_after (_ # cs) st = con_status_after cs st"

text \<open>The colours the calls ask for.\<close>

fun con_colours :: "console_call list \<Rightarrow> (u16 \<times> u16) set" where
  "con_colours [] = {}"
| "con_colours (Set_status str fg bg # cs) = insert (fg, bg) (con_colours cs)"
| "con_colours (Set_colours fg bg # cs) = insert (fg, bg) (con_colours cs)"
| "con_colours (_ # cs) = con_colours cs"

lemma con_colours_append: "con_colours (as @ bs) = con_colours as \<union> con_colours bs"
  by (induction as rule: con_colours.induct) auto

lemma con_calls_defined:
  assumes "con_wf s"
  shows "\<exists>s'. con_calls cs s = Some s' \<and> con_wf s'
    \<and> (\<forall>K p st. con_mirrors K p st s \<longrightarrow> con_colours cs \<subseteq> K \<longrightarrow> con_mirrors K p (con_status_after cs st) s')"
  using assms
proof (induction cs arbitrary: s)
  case (Cons c cs)
  have log: "con_log_ok s" if "con_mirrors K p st s" for K p st
    using that by (simp add: con_mirrors_def con_screen_def)
  show ?case
  proof (cases c)
    case (Puts str)
    then show ?thesis
      using lcd_console_puts_defined [OF Cons.prems, of str] Cons.IH by fastforce
  next
    case (Set_status str fg bg)
    have "con_wf (lcd_console_set_status str fg bg s)"
      using Cons.prems by (simp add: lcd_console_set_status_def con_wf_def con_status_frame)
    then show ?thesis
      using Cons.IH [of "lcd_console_set_status str fg bg s"] con_status_mirrors [of _ _ _ s 0 fg bg str, unfolded minus_nat.diff_0] Set_status
      by (auto simp: lcd_console_set_status_def)
  next
    case (Set_colours fg bg)
    have "con_wf (lcd_console_set_colours fg bg s)"
      using Cons.prems by (simp add: lcd_console_set_colours_def con_wf_def)
    moreover have "con_mirrors K p st (lcd_console_set_colours fg bg s)" if "con_mirrors K p st s" "(fg, bg) \<in> K" for K p st
      using that by (simp add: lcd_console_set_colours_def con_mirrors_def con_screen_def con_log_ok_def)
    ultimately show ?thesis
      using Cons.IH [of "lcd_console_set_colours fg bg s"] Set_colours by auto
  next
    case Clear
    then show ?thesis
      using Cons.IH [OF lcd_console_clear_wf, of s] lcd_console_clear_mirrors [OF log con_mirrors_colours] by auto
  qed
qed auto

lemma con_calls_append:
  "con_calls (as @ bs) s = (case con_calls as s of None \<Rightarrow> None | Some t \<Rightarrow> con_calls bs t)"
  by (induction as arbitrary: s) (simp_all split: option.splits)

lemma con_status_after_clear: "con_status_after (as @ Clear # bs) st = con_status_after bs (\<lambda>_. blank)"
  by (induction as st rule: con_status_after.induct) simp_all

lemma lcd_console_init_wf: "con_wf (lcd_console_init s)"
  by (auto simp: lcd_console_init_def con_wf_def)

lemma lcd_console_init_mirrors:
  assumes "con_ops s = []" "screen_shows K p (\<lambda>_ _. blank)" "(LCD_GREEN, LCD_BLACK) \<in> K"
  shows "con_mirrors K p (\<lambda>_. blank) (lcd_console_init s)"
  using assms lcd_sends_Nil panel_after_sends [OF lcd_sends_Nil, of p]
  by (auto simp: con_mirrors_def con_screen_def con_log_ok_def screen_shows_def con_text_def lcd_console_init_def)

text \<open>The colours of the console: those it starts with and those it was told to use.\<close>

definition console_colours :: "console_call list \<Rightarrow> (u16 \<times> u16) set" where
  "console_colours cs = insert (LCD_GREEN, LCD_BLACK) (con_colours cs)"

text \<open>Any log that the calls leave is in order: it is the one of a console on a blank screen.\<close>

lemma con_calls_log:
  assumes "con_ops s = []" "con_calls cs (lcd_console_init s) = Some t"
  shows "con_log_ok t" "(con_fg t, con_bg t) \<in> console_colours cs"
proof -
  have "cell_shows (console_colours cs) panel_reset r c blank" for r c
    unfolding cell_shows_def by (rule exI [of _ LCD_GREEN], rule exI [of _ LCD_BLACK])
      (simp add: panel_reset_def console_colours_def)
  then have "screen_shows (console_colours cs) panel_reset (\<lambda>_ _. blank)"
    by (simp add: screen_shows_def)
  from lcd_console_init_mirrors [OF assms(1) this] have "con_mirrors (console_colours cs) panel_reset (\<lambda>_. blank) (lcd_console_init s)"
    by (simp add: console_colours_def)
  moreover have "con_colours cs \<subseteq> console_colours cs" by (auto simp: console_colours_def)
  ultimately have "con_mirrors (console_colours cs) panel_reset (con_status_after cs (\<lambda>_. blank)) t"
    using con_calls_defined [OF lcd_console_init_wf, of cs s] assms(2) by auto
  then show "con_log_ok t" "(con_fg t, con_bg t) \<in> console_colours cs"
    by (simp_all add: con_mirrors_def con_screen_def)
qed

lemma con_calls_mirrors:
  assumes "con_ops s = []" "screen_shows (console_colours cs) p (\<lambda>_ _. blank) \<or> Clear \<in> set cs"
    and "con_calls cs (lcd_console_init s) = Some t"
  shows "con_mirrors (console_colours cs) p (con_status_after cs (\<lambda>_. blank)) t"
proof (cases "Clear \<in> set cs")
  case True
  then obtain as bs where cs: "cs = as @ Clear # bs"
    by (meson split_list)
  then obtain u where u: "con_calls as (lcd_console_init s) = Some u" "con_calls bs (lcd_console_clear u) = Some t"
    using assms(3) by (auto simp: con_calls_append split: option.splits)
  have K: "con_colours bs \<subseteq> console_colours cs" "console_colours as \<subseteq> console_colours cs"
    by (auto simp: cs console_colours_def con_colours_append)
  then have "con_mirrors (console_colours cs) p (\<lambda>_. blank) (lcd_console_clear u)"
    using con_calls_log [OF assms(1) u(1)] by (intro lcd_console_clear_mirrors) auto
  then show ?thesis
    using con_calls_defined [OF lcd_console_clear_wf, of bs u] u(2) K(1)
    by (auto simp: cs con_status_after_clear)
next
  case False
  moreover have "con_colours cs \<subseteq> console_colours cs" "(LCD_GREEN, LCD_BLACK) \<in> console_colours cs"
    by (auto simp: console_colours_def)
  ultimately show ?thesis
    using con_calls_defined [OF lcd_console_init_wf, of cs s] lcd_console_init_mirrors [OF assms(1)] assms(2,3) by auto
qed

text \<open>
  C13: The console never writes outside its buffer and never leaves its lock held.  After its
  initialisation any sequence of calls, with any strings and colours, returns: the buffer keeps
  its nine rows of 26 characters, the cursor row stays inside it and the column at most one past
  its end; and whatever the calls did to the display they did inside critical sections, of which
  none was entered twice, left twice or left open.
\<close>

theorem lcd_console_memory_safe:
  assumes "con_ops s = []"
  shows "\<exists>t. con_calls cs (lcd_console_init s) = Some t
    \<and> length (con_buf t) = 9 \<and> (\<forall>r < 9. length (con_buf t ! r) = 26) \<and> con_row t < con_rows \<and> con_col t \<le> con_cols
    \<and> lock_run (con_ops t) False = Some False"
proof -
  obtain t where t: "con_calls cs (lcd_console_init s) = Some t" "con_wf t"
    using con_calls_defined [OF lcd_console_init_wf] by blast
  from con_calls_log(1) [OF assms t(1)] t show ?thesis by (auto simp: con_wf_def con_log_ok_def)
qed

text \<open>
  C12: The screen mirrors the buffer.  Suppose that no call asks for a foreground that is its
  background, and that the screen was blank in one of the console's colours when the console was
  initialised or has been cleared since.  Then after any sequence of calls each of the 26
  columns of the nine rows reads as the character the buffer holds for it, and the row below as
  the last status set since: its pixels are those of the glyph of that character, in one of the
  pairs of colours the console was told to use, and of no other glyph.
\<close>

theorem lcd_console_mirrors_buffer:
  assumes "con_ops s = []" "\<forall>x \<in> con_colours cs. fst x \<noteq> snd x"
    and "screen_shows (console_colours cs) p (\<lambda>_ _. blank) \<or> Clear \<in> set cs"
    and "con_calls cs (lcd_console_init s) = Some t"
  shows "(\<forall>r < 9. \<forall>c < 26. cell_reads (console_colours cs) (panel_after (con_ops t) p) r c (con_buf t ! r ! c))
    \<and> (\<forall>c < 26. cell_reads (console_colours cs) (panel_after (con_ops t) p) 9 c (con_status_after cs (\<lambda>_. blank) c))"
proof -
  have "\<forall>x \<in> console_colours cs. fst x \<noteq> snd x" using assms(2) by (simp add: console_colours_def)
  note reads = cell_shows_reads [OF _ this]
  have "screen_shows (console_colours cs) (panel_after (con_ops t) p) (con_text (con_buf t) (con_status_after cs (\<lambda>_. blank)))"
    using con_calls_mirrors [OF assms(1,3,4)] by (simp add: con_mirrors_def con_screen_def)
  then show ?thesis
    by (auto simp: screen_shows_def con_text_def intro!: reads dest: spec [of _ "9::nat"] split: if_splits)
qed

definition console_off :: console where
  "console_off = \<lparr>con_buf = replicate 9 (replicate 26 0), con_row = 0, con_col = 0, con_fg = 0, con_bg = 0, con_ops = []\<rparr>"

lemma lcd_console_memory_safe_witness:
  "\<exists>t. con_calls [Puts (replicate 300 0x41)] (lcd_console_init console_off) = Some t \<and> con_row t < con_rows
    \<and> lock_run (con_ops t) False = Some False"
proof -
  have "con_ops console_off = []" by (simp add: console_off_def)
  from lcd_console_memory_safe [OF this] show ?thesis by blast
qed

lemma lcd_console_mirrors_buffer_witness:
  "\<exists>t K. con_calls [Clear, Puts [0x48, 0x49, 0x0A], Set_status [0x4F, 0x4B] LCD_BLACK LCD_GREEN]
        (lcd_console_init console_off) = Some t
    \<and> (\<forall>r < 9. \<forall>c < 26. cell_reads K (panel_after (con_ops t) panel_reset) r c (con_buf t ! r ! c))
    \<and> cell_reads K (panel_after (con_ops t) panel_reset) 9 0 0x4F \<and> cell_reads K (panel_after (con_ops t) panel_reset) 9 1 0x4B"
proof -
  define cs where "cs = [Clear, Puts [0x48, 0x49, 0x0A], Set_status [0x4F, 0x4B] LCD_BLACK LCD_GREEN]"
  obtain t where t: "con_calls cs (lcd_console_init console_off) = Some t"
    using con_calls_defined [OF lcd_console_init_wf] by blast
  have "con_ops console_off = []" "\<forall>x \<in> con_colours cs. fst x \<noteq> snd x"
    "screen_shows (console_colours cs) panel_reset (\<lambda>_ _. blank) \<or> Clear \<in> set cs"
    by (simp_all add: console_off_def cs_def)
  from lcd_console_mirrors_buffer [OF this t]
  have r: "\<forall>r < 9. \<forall>c < 26. cell_reads (console_colours cs) (panel_after (con_ops t) panel_reset) r c (con_buf t ! r ! c)"
    "\<forall>c < 26. cell_reads (console_colours cs) (panel_after (con_ops t) panel_reset) 9 c (con_status_after cs (\<lambda>_. blank) c)"
    by blast+
  have "con_status_after cs (\<lambda>_. blank) 0 = 0x4F" "con_status_after cs (\<lambda>_. blank) 1 = 0x4B"
    by (simp_all add: cs_def con_status_text_def Let_def)
  with r t show ?thesis
    unfolding cs_def [symmetric] by (intro exI [of _ t] exI [of _ "console_colours cs"]) (metis one_less_numeral_iff semiring_norm(76) zero_less_numeral)
qed

subsection \<open>Lines\<close>

text \<open>A line of printable characters that fits a row, and how it is shown.\<close>

definition con_line :: "u8 list \<Rightarrow> bool" where
  "con_line l \<longleftrightarrow> length l \<le> 26 \<and> set l \<inter> {0, 0x0A, 0x0D} = {}"

definition con_line_row :: "u8 list \<Rightarrow> u8 list" where
  "con_line_row l = l @ replicate (26 - length l) blank"

lemma puts_printable:
  assumes "con_wf s" "unat (con_col s) + length l \<le> 26" "set l \<inter> {0, 0x0A, 0x0D} = {}"
  shows "\<exists>s'. lcd_console_puts (l @ rest) s = lcd_console_puts rest s' \<and> con_wf s' \<and> con_row s' = con_row s
    \<and> unat (con_col s') = unat (con_col s) + length l
    \<and> con_buf s' = (con_buf s)[unat (con_row s) :=
        (let row = con_buf s ! unat (con_row s) in take (unat (con_col s)) row @ l @ drop (unat (con_col s) + length l) row)]"
  using assms
proof (induction l arbitrary: s)
  case (Cons ch l)
  let ?r = "unat (con_row s)" and ?c = "unat (con_col s)"
  have r: "?r < 9" "length (con_buf s) = 9" "length (con_buf s ! ?r) = 26" and c: "?c < 26" "con_col s < con_cols"
    using Cons.prems by (auto simp: con_wf_def word_less_nat_alt)
  obtain s1 where s1: "con_put ch s = Some s1" "con_wf s1"
      "con_buf s1 = (con_buf s)[?r := (con_buf s ! ?r)[?c := ch]]" "con_row s1 = con_row s" "con_col s1 = con_col s + 1"
    by (rule con_put_defined [OF Cons.prems(1) c(2)])
  have "lcd_console_puts ((ch # l) @ rest) s = lcd_console_puts (l @ rest) s1"
    using Cons.prems(3) c(2) s1(1) by (auto simp: console_putchar_def dest: leD)
  moreover have "take (Suc ?c) ((con_buf s ! ?r)[?c := ch]) = take ?c (con_buf s ! ?r) @ [ch]"
    using r c by (simp add: take_Suc_conv_app_nth)
  ultimately show ?case
    using Cons.IH [OF s1(2)] Cons.prems r c
    by (fastforce simp: s1 col_step [OF c(2)] Let_def list_update_overwrite)
qed (auto simp: con_wf_def Let_def word_less_nat_alt)

lemma puts_line:
  assumes "con_wf s" "con_col s = 0" "con_line l"
  shows "\<exists>s'. lcd_console_puts (l @ [0x0A]) s = Some s' \<and> con_wf s' \<and> con_col s' = 0
    \<and> (let buf = (con_buf s)[unat (con_row s) := con_line_row l]
       in if con_row s = 8 then con_row s' = 8 \<and> con_buf s' = con_scrolled buf
          else con_row s' = con_row s + 1 \<and> con_buf s' = buf)"
proof -
  let ?r = "unat (con_row s)"
  have r: "?r < 9" "length (con_buf s) = 9" "length (con_buf s ! ?r) = 26"
    using assms by (auto simp: con_wf_def word_less_nat_alt)
  obtain s1 where s1: "lcd_console_puts (l @ [0x0A]) s = lcd_console_puts [0x0A] s1" "con_wf s1" "con_row s1 = con_row s"
      "unat (con_col s1) = length l" "con_buf s1 = (con_buf s)[?r := l @ drop (length l) (con_buf s ! ?r)]"
    using puts_printable [OF assms(1), of l "[0x0A]"] assms by (auto simp: con_line_def Let_def)
  obtain s2 where s2: "con_pad s1 = Some s2" "con_wf s2" "con_row s2 = con_row s"
      "con_buf s2 = (con_buf s1)[?r := pad_from (length l) (con_buf s1 ! ?r)]"
    using con_pad_defined [OF s1(2)] s1(3,4) by auto
  have buf: "con_buf s2 = (con_buf s)[?r := con_line_row l]"
    using r by (simp add: s2(4) s1(5) pad_from_def con_line_row_def)
  have "lcd_console_puts (l @ [0x0A]) s = Some (con_next_row s2)"
    by (simp add: s1(1) console_putchar_def s2(1))
  moreover have "con_rows \<le> con_row s + 1 \<longleftrightarrow> con_row s = 8"
    using r by (auto simp: word_le_nat_alt word_unat_eq_iff unat_word_ariths)
  ultimately show ?thesis
    using con_next_row_wf [OF s2(2)]
    by (auto simp: con_next_row_def Let_def s2(3) buf console_scroll_buf)
qed

text \<open>The rows after a sequence of lines on an empty buffer: the last eight of them.\<close>

definition con_last_lines :: "u8 list list \<Rightarrow> u8 list list" where
  "con_last_lines ls = map con_line_row (drop (length ls - 8) ls) @ replicate (9 - min 8 (length ls)) (replicate 26 blank)"

lemma con_last_lines_snoc:
  "length ls < 8 \<Longrightarrow> con_last_lines (ls @ [l]) = (con_last_lines ls)[length ls := con_line_row l]"
  "8 \<le> length ls \<Longrightarrow> con_last_lines (ls @ [l]) = con_scrolled ((con_last_lines ls)[8 := con_line_row l])"
proof -
  assume "length ls < 8"
  then have "replicate (9 - length ls) (replicate 26 blank) = replicate 26 blank # replicate (8 - length ls) (replicate 26 blank)"
    by (simp add: Suc_diff_le less_imp_le flip: replicate_Suc)
  then show "con_last_lines (ls @ [l]) = (con_last_lines ls)[length ls := con_line_row l]"
    using \<open>length ls < 8\<close> by (simp add: con_last_lines_def list_update_append)
next
  assume l: "8 \<le> length ls"
  define k where "k = map con_line_row (drop (length ls - 8) ls)"
  have "length k = 8"
    using l by (simp add: k_def)
  then have "con_scrolled ((con_last_lines ls)[8 := con_line_row l]) = drop 1 k @ [con_line_row l] @ [replicate 26 blank]"
    using l by (simp add: con_scrolled_def con_last_lines_def k_def [symmetric] list_update_append)
  moreover have "drop 1 k = map con_line_row (drop (length ls - 7) ls)"
    using l Suc_diff_le [of 8 "length ls"] by (simp add: k_def drop_map)
  ultimately show "con_last_lines (ls @ [l]) = con_scrolled ((con_last_lines ls)[8 := con_line_row l])"
    using l by (simp add: con_last_lines_def Suc_diff_le)
qed

lemma puts_lines:
  assumes "con_wf s" "con_col s = 0" "con_row s = 0" "con_buf s = con_last_lines []" "\<forall>l \<in> set ls. con_line l"
  shows "\<exists>t. con_calls (map (\<lambda>l. Puts (l @ [0x0A])) ls) s = Some t \<and> con_wf t \<and> con_col t = 0
    \<and> unat (con_row t) = min 8 (length ls) \<and> con_buf t = con_last_lines ls"
  using assms(5)
proof (induction ls rule: rev_induct)
  case Nil
  then show ?case
    using assms by simp
next
  case (snoc l ls)
  then obtain t where t: "con_calls (map (\<lambda>l. Puts (l @ [0x0A])) ls) s = Some t" "con_wf t" "con_col t = 0"
      "unat (con_row t) = min 8 (length ls)" "con_buf t = con_last_lines ls"
    by auto
  obtain u where u: "lcd_console_puts (l @ [0x0A]) t = Some u" "con_wf u" "con_col u = 0"
      "if con_row t = 8 then con_row u = 8 \<and> con_buf u = con_scrolled ((con_buf t)[unat (con_row t) := con_line_row l])
       else con_row u = con_row t + 1 \<and> con_buf u = (con_buf t)[unat (con_row t) := con_line_row l]"
    using puts_line [OF t(2,3), of l] snoc.prems by (auto simp: Let_def)
  have "con_row t = 8 \<longleftrightarrow> 8 \<le> length ls"
    using t(4) by (auto simp: word_unat_eq_iff)
  then show ?case
    using t u con_last_lines_snoc [of ls l]
    by (cases "8 \<le> length ls") (auto simp: con_calls_append unat_word_ariths min_def)
qed

text \<open>
  The screen shows the last lines.  After lines of printable characters that fit a row were
  put on an empty console, however many, the screen shows the last eight of them from the top,
  each padded with blanks, and nothing but blanks in the rows below.
\<close>

theorem lcd_console_last_lines:
  assumes "con_ops s = []" "\<forall>l \<in> set ls. con_line l"
  shows "\<exists>t. con_calls (Clear # map (\<lambda>l. Puts (l @ [0x0A])) ls) (lcd_console_init s) = Some t
    \<and> (\<forall>r < 9. \<forall>c < 26. cell_reads {(LCD_GREEN, LCD_BLACK)} (panel_after (con_ops t) p) r c (con_last_lines ls ! r ! c))"
proof -
  let ?cs = "Clear # map (\<lambda>l. Puts (l @ [0x0A])) ls"
  define s1 where "s1 = lcd_console_clear (lcd_console_init s)"
  have "con_wf s1" "con_col s1 = 0" "con_row s1 = 0" "con_buf s1 = con_last_lines []"
    using lcd_console_clear_wf by (simp_all add: s1_def lcd_console_clear_def con_last_lines_def)
  from puts_lines [OF this assms(2)]
  obtain t where t: "con_calls (map (\<lambda>l. Puts (l @ [0x0A])) ls) s1 = Some t" "con_buf t = con_last_lines ls"
    by blast
  then have c: "con_calls ?cs (lcd_console_init s) = Some t"
    by (simp add: s1_def)
  have "con_colours ?cs = {}" by (induction ls) simp_all
  then have K: "console_colours ?cs = {(LCD_GREEN, LCD_BLACK)}" by (simp add: console_colours_def)
  have "con_mirrors {(LCD_GREEN, LCD_BLACK)} p (con_status_after ?cs (\<lambda>_. blank)) t"
    using con_calls_mirrors [OF assms(1) _ c, of p] unfolding K by simp
  then have "\<forall>r < 9. \<forall>c < 26. cell_shows {(LCD_GREEN, LCD_BLACK)} (panel_after (con_ops t) p) r c (con_last_lines ls ! r ! c)"
    using t(2) by (auto simp: con_mirrors_def con_screen_def screen_shows_def con_text_def split: if_splits)
  then show ?thesis using c cell_shows_reads [of "{(LCD_GREEN, LCD_BLACK)}"] by auto
qed

lemma lcd_console_last_lines_witness:
  "\<exists>t. con_calls (Clear # map (\<lambda>l. Puts (l @ [0x0A])) (replicate 12 [0x48, 0x49])) (lcd_console_init console_off) = Some t
    \<and> (\<forall>r < 9. \<forall>c < 26. cell_reads {(LCD_GREEN, LCD_BLACK)} (panel_after (con_ops t) panel_reset) r c
        (con_last_lines (replicate 12 [0x48, 0x49]) ! r ! c))"
  by (rule lcd_console_last_lines) (auto simp: console_off_def con_line_def)

end
