(* ===== verification/Zynqmp.thy ===== *)
theory Zynqmp
  imports Sim_Loop
begin

section \<open>The main program of the ZynqMP target\<close>

text \<open>
  \<^verbatim>\<open>src/platform/zynqmp/main.c\<close>: the dispatcher with the ping and the function management
  service, the mode machine, the two controllers and the loop over the UART.

  The UART is the stream of the bytes that arrive, and the bytes sent.  A blocking read from
  an exhausted stream never returns: there the model stops, in the state in which the program
  waits.
\<close>

subsection \<open>UART helpers\<close>

definition zynq_putc :: "u8 \<Rightarrow> u8 list \<Rightarrow> u8 list" where
  "zynq_putc c out = out @ [c]"

definition zynq_write_u16_be :: "u16 \<Rightarrow> u8 list \<Rightarrow> u8 list" where
  "zynq_write_u16_be v out = zynq_putc (ucast (v AND 0xFF)) (zynq_putc (ucast (drop_bit 8 v)) out)"

definition zynq_write_frame :: "u8 \<Rightarrow> u8 list \<Rightarrow> u16 \<Rightarrow> u8 list \<Rightarrow> u8 list" where
  "zynq_write_frame ty data len out = zynq_write_u16_be len (zynq_putc ty out) @ take (unat len) data"

definition zynq_write_sync :: "u8 list \<Rightarrow> u8 list" where
  "zynq_write_sync out = zynq_putc 0xFF out"

text \<open>
  A frame, or \<open>None\<close> while bytes of it are missing.  The results are the type, the buffer, the
  length, which is only set for a frame that was read, and the rest of the stream.
\<close>

definition zynq_read_frame :: "u8 list \<Rightarrow> u16 \<Rightarrow> u16 \<Rightarrow> u8 list \<Rightarrow> (u8 \<times> u8 list \<times> u16 \<times> u8 list) option" where
  "zynq_read_frame buf bufsize out_len inp =
    (case inp of
       ty # hi # lo # rest \<Rightarrow>
         let len = push_bit 8 (ucast hi) OR ucast lo in
         if bufsize < len then Some (0, buf, out_len, rest)
         else if length rest < unat len then None
         else Some (ty, take (unat len) rest @ drop (unat len) buf, len, drop (unat len) rest)
     | _ \<Rightarrow> None)"

subsection \<open>The target attitude\<close>

text \<open>The same computation as in \<open>sim/main.c\<close>, written out once more.\<close>

definition zynq_compute_nadir_quat ::
  "(f32 \<Rightarrow> f32) \<Rightarrow> (f32 \<Rightarrow> f32) \<Rightarrow> f32 \<Rightarrow> f32 \<Rightarrow> f32 \<Rightarrow> obsw_quat" where
  "zynq_compute_nadir_quat sinf cosf t_s alt_km inc_deg =
    (let r_orbit = f32_add 0x4AC26D70 (f32_mul alt_km 0x447A0000);
         omega_orb = f32_sqrt (f32_div 0x57B54333 (f32_mul (f32_mul r_orbit r_orbit) r_orbit));
         nu = f32_mul omega_orb t_s;
         inc = f32_mul inc_deg (f32_div 0x40490FDB 0x43340000);
         r0 = cosf nu; r1 = f32_mul (sinf nu) (cosf inc); r2 = f32_mul (sinf nu) (sinf inc);
         w0 = f32_uminus (sinf nu); w1 = f32_mul (cosf nu) (cosf inc); w2 = f32_mul (cosf nu) (sinf inc);
         h0 = f32_sub (f32_mul r1 w2) (f32_mul r2 w1);
         h1 = f32_sub (f32_mul r2 w0) (f32_mul r0 w2);
         h2 = f32_sub (f32_mul r0 w1) (f32_mul r1 w0);
         hn = f32_sqrt (f32_add (f32_add (f32_mul h0 h0) (f32_mul h1 h1)) (f32_mul h2 h2));
         (h0, h1, h2) = (if f32_lt 0x2EDBE6FF hn then (f32_div h0 hn, f32_div h1 hn, f32_div h2 hn) else (h0, h1, h2));
         r00 = w0; r01 = h0; r02 = r0; r10 = w1; r11 = h1; r12 = r1; r20 = w2; r21 = h2; r22 = r2;
         tr = f32_add (f32_add r00 r11) r22;
         q = (if f32_lt 0 tr
              then let s = f32_div 0x3F000000 (f32_sqrt (f32_add tr f32_one))
                in \<lparr>q_w = f32_div 0x3E800000 s, q_x = f32_mul (f32_sub r21 r12) s,
                    q_y = f32_mul (f32_sub r02 r20) s, q_z = f32_mul (f32_sub r10 r01) s\<rparr>
              else if f32_lt r11 r00 \<and> f32_lt r22 r00
              then let s = f32_mul 0x40000000 (f32_sqrt (f32_sub (f32_sub (f32_add f32_one r00) r11) r22))
                in \<lparr>q_w = f32_div (f32_sub r21 r12) s, q_x = f32_mul 0x3E800000 s,
                    q_y = f32_div (f32_add r01 r10) s, q_z = f32_div (f32_add r02 r20) s\<rparr>
              else if f32_lt r22 r11
              then let s = f32_mul 0x40000000 (f32_sqrt (f32_sub (f32_sub (f32_add f32_one r11) r00) r22))
                in \<lparr>q_w = f32_div (f32_sub r02 r20) s, q_x = f32_div (f32_add r01 r10) s,
                    q_y = f32_mul 0x3E800000 s, q_z = f32_div (f32_add r21 r12) s\<rparr>
              else let s = f32_mul 0x40000000 (f32_sqrt (f32_sub (f32_sub (f32_add f32_one r22) r00) r11))
                in \<lparr>q_w = f32_div (f32_sub r10 r01) s, q_x = f32_div (f32_add r02 r20) s,
                    q_y = f32_div (f32_add r21 r12) s, q_z = f32_mul 0x3E800000 s\<rparr>)
     in snd (obsw_quat_normalise q))"

text \<open>The comment \<open>mirrors compute_nadir_quat in sim/main.c\<close> holds.\<close>

lemma zynq_shepperd:
  "(let r00 = w0; r01 = h0; r02 = r0; r10 = w1; r11 = h1; r12 = r1; r20 = w2; r21 = h2; r22 = r2;
         tr = f32_add (f32_add r00 r11) r22;
         q = (if f32_lt 0 tr
              then let s = f32_div 0x3F000000 (f32_sqrt (f32_add tr f32_one))
                in \<lparr>q_w = f32_div 0x3E800000 s, q_x = f32_mul (f32_sub r21 r12) s,
                    q_y = f32_mul (f32_sub r02 r20) s, q_z = f32_mul (f32_sub r10 r01) s\<rparr>
              else if f32_lt r11 r00 \<and> f32_lt r22 r00
              then let s = f32_mul 0x40000000 (f32_sqrt (f32_sub (f32_sub (f32_add f32_one r00) r11) r22))
                in \<lparr>q_w = f32_div (f32_sub r21 r12) s, q_x = f32_mul 0x3E800000 s,
                    q_y = f32_div (f32_add r01 r10) s, q_z = f32_div (f32_add r02 r20) s\<rparr>
              else if f32_lt r22 r11
              then let s = f32_mul 0x40000000 (f32_sqrt (f32_sub (f32_sub (f32_add f32_one r11) r00) r22))
                in \<lparr>q_w = f32_div (f32_sub r02 r20) s, q_x = f32_div (f32_add r01 r10) s,
                    q_y = f32_mul 0x3E800000 s, q_z = f32_div (f32_add r21 r12) s\<rparr>
              else let s = f32_mul 0x40000000 (f32_sqrt (f32_sub (f32_sub (f32_add f32_one r22) r00) r11))
                in \<lparr>q_w = f32_div (f32_sub r10 r01) s, q_x = f32_div (f32_add r02 r20) s,
                    q_y = f32_div (f32_add r21 r12) s, q_z = f32_mul 0x3E800000 s\<rparr>)
     in snd (obsw_quat_normalise q))
   = snd (obsw_quat_normalise (shepperd (Vec3 w0 w1 w2) (Vec3 h0 h1 h2) (Vec3 r0 r1 r2)))"
  unfolding shepperd_def Let_def by simp

lemma zynq_normal:
  "(case (if c then (f32_div x n, f32_div y n, f32_div z n) else (x, y, z)) of (a, b, d) \<Rightarrow> snd (obsw_quat_normalise (shepperd u (Vec3 a b d) v)))
    = snd (obsw_quat_normalise (shepperd u (if c then map_vec3 (\<lambda>x. f32_div x n) (Vec3 x y z) else Vec3 x y z) v))"
  by simp

lemma zynq_nadir_mirrors: "zynq_compute_nadir_quat = compute_nadir_quat"
  unfolding fun_eq_iff zynq_compute_nadir_quat_def zynq_shepperd compute_nadir_quat_def nadir_axes_def cross_f32_def
    MU_EARTH_def R_EARTH_def DEG2RAD_def
  unfolding Let_def vec3.sel prod.case zynq_normal
  by (intro allI) (rule refl)

subsection \<open>The world of the services\<close>

text \<open>No hooks are registered, so the state machine works on the unit type.\<close>

type_synonym zynq_modes = "unit obsw_fsm_ctx \<times> unit"

record zynq_world =
  zw_env :: tm_env
  zw_s17 :: obsw_s17_ctx
  zw_s8 :: "zynq_modes obsw_s8_ctx"
  zw_fsm :: "unit obsw_fsm_ctx"

definition zynq_set_env :: "tm_env \<Rightarrow> zynq_world \<Rightarrow> zynq_world" where
  "zynq_set_env e w = w\<lparr>zw_env := e\<rparr>"

definition zynq_fn_recover_nominal ::
  "u8 list option \<Rightarrow> u8 \<Rightarrow> zynq_modes \<times> tm_env \<Rightarrow> int \<times> zynq_modes \<times> tm_env" where
  "zynq_fn_recover_nominal a l me =
    (case obsw_fsm_to_nominal (Some (fst (fst me))) (snd (fst me)) of (f, h) \<Rightarrow> (0, (the f, h), snd me))"

definition zynq_fn_request_safe ::
  "u8 list option \<Rightarrow> u8 \<Rightarrow> zynq_modes \<times> tm_env \<Rightarrow> int \<times> zynq_modes \<times> tm_env" where
  "zynq_fn_request_safe a l me =
    (case obsw_fsm_to_safe (Some (fst (fst me))) (snd (fst me)) of (f, h) \<Rightarrow> (0, (the f, h), snd me))"

definition zynq_fn_request_standby ::
  "u8 list option \<Rightarrow> u8 \<Rightarrow> zynq_modes \<times> tm_env \<Rightarrow> int \<times> zynq_modes \<times> tm_env" where
  "zynq_fn_request_standby a l me = (0, (the (obsw_fsm_to_standby (Some (fst (fst me)))), snd (fst me)), snd me)"

definition zynq_s8_ctx :: "zynq_modes obsw_s8_ctx" where
  "zynq_s8_ctx = \<lparr>s8_table =
      [\<lparr>s8_function_id = 1, s8_fn = zynq_fn_recover_nominal\<rparr>,
       \<lparr>s8_function_id = 2, s8_fn = zynq_fn_request_safe\<rparr>,
       \<lparr>s8_function_id = 3, s8_fn = zynq_fn_request_standby\<rparr>], s8_table_len = 3\<rparr>"

definition zynq_s17 :: "(zynq_world \<Rightarrow> obsw_s17_ctx) \<times> (obsw_s17_ctx \<Rightarrow> zynq_world \<Rightarrow> zynq_world)" where
  "zynq_s17 = (zw_s17, \<lambda>c w. w\<lparr>zw_s17 := c\<rparr>)"

definition zynq_s8 ::
  "(zynq_world \<Rightarrow> zynq_modes obsw_s8_ctx \<times> zynq_modes)
    \<times> (zynq_modes obsw_s8_ctx \<times> zynq_modes \<Rightarrow> zynq_world \<Rightarrow> zynq_world)" where
  "zynq_s8 = (\<lambda>w. (zw_s8 w, zw_fsm w, ()), \<lambda>c w. w\<lparr>zw_s8 := fst c, zw_fsm := fst (snd c)\<rparr>)"

definition zynq_routes :: "zynq_world obsw_tc_route list" where
  "zynq_routes =
    [\<lparr>rt_apid = 0xFFFF, rt_service = 17, rt_subservice = 1, rt_handler = host_handler zw_env zynq_set_env zynq_s17 obsw_s17_ping\<rparr>,
     \<lparr>rt_apid = 0xFFFF, rt_service = 8, rt_subservice = 1, rt_handler = host_handler zw_env zynq_set_env zynq_s8 obsw_s8_perform\<rparr>]"

definition zynq_gate :: "zynq_world tc_gate" where
  "zynq_gate tc w = obsw_fsm_tc_gate (Some tc) (Some (zw_fsm w))"

definition zynq_dispatcher :: "zynq_world obsw_tc_dispatcher" where
  "zynq_dispatcher =
    (let d0 = \<lparr>d_table = [], d_table_len = 0, d_responder = (\<lambda>_ _ w. w), d_gate = None\<rparr>;
         d1 = snd (obsw_tc_dispatcher_init (Some d0) (Some zynq_routes) (of_nat (length zynq_routes))
                (Some (host_responder zw_env zynq_set_env)))
     in the (snd (obsw_tc_dispatcher_set_gate d1 (Some zynq_gate))))"

subsection \<open>Start\<close>

definition zynq_fsm_config :: "'a srdb_scheme \<Rightarrow> unit obsw_fsm_config" where
  "zynq_fsm_config db = \<lparr>on_enter_safe = None, on_exit_safe = None,
     safe_tc_whitelist = Some (srdb_safe_tc_whitelist db), whitelist_len = srdb_safe_tc_count db\<rparr>"

text \<open>The variables of \<open>main\<close>; \<open>frame\<close> and \<open>frame_len\<close> start with what is on the stack.\<close>

record zynq =
  zy_world :: zynq_world
  zy_bdot :: obsw_bdot_ctx
  zy_adcs :: obsw_adcs_ctx
  zy_last_time :: f32
  zy_frame :: "u8 list"
  zy_frame_len :: u16
  zy_out :: "u8 list"

definition zynq_banner :: "'a srdb_scheme \<Rightarrow> u8 list" where
  "zynq_banner db = map of_char ''[OBSW] ZynqMP started (type-frame protocol v2).'' @ [13, 10]
     @ map of_char (''[OBSW] SRDB version: '' @ srdb_version db) @ [13, 10]"

definition zynq_start :: "'a srdb_scheme \<Rightarrow> u8 list \<Rightarrow> u16 \<Rightarrow> zynq" where
  "zynq_start db frame frame_len =
    (let apid = srdb_apid_default db;
         store = snd (obsw_tm_store_init (Some tm_store_bss));
         fsm0 = \<lparr>fsm_mode = OBSW_FSM_NOMINAL, fsm_config = \<lparr>on_enter_safe = None, on_exit_safe = None,
                   safe_tc_whitelist = None, whitelist_len = 0\<rparr>, safe_entry_count = 0\<rparr>;
         bdot0 = \<lparr>bd_config = \<lparr>bd_gain = 0, bd_max_dipole = 0, bd_hpf_tau = 0\<rparr>, bd_b_prev = vec3_zero,
                  bd_dbdt_raw_prev = vec3_zero, bd_dbdt_filt = vec3_zero, bd_initialised = False\<rparr>;
         adcs0 = \<lparr>ad_config = \<lparr>ad_kp = 0, ad_kd = 0, ad_max_torque = 0\<rparr>,
                  ad_q_cmd = \<lparr>q_w = 0, q_x = 0, q_y = 0, q_z = 0\<rparr>\<rparr>
     in \<lparr>zy_world = \<lparr>zw_env = \<lparr>env_s1 = Some \<lparr>s1_apid = apid, s1_msg_counter = 0, s1_timestamp = 0\<rparr>, env_store = store\<rparr>,
           zw_s17 = \<lparr>s17_apid = apid, s17_msg_counter = 0, s17_timestamp = 0\<rparr>,
           zw_s8 = zynq_s8_ctx,
           zw_fsm = the (snd (obsw_fsm_init (Some fsm0) (Some (zynq_fsm_config db))))\<rparr>,
         zy_bdot = the (obsw_bdot_init (Some bdot0)
           (Some \<lparr>bd_gain = 0x461C4000, bd_max_dipole = 0x41200000, bd_hpf_tau = 0\<rparr>)),
         zy_adcs = the (obsw_adcs_init (Some adcs0)
           (Some \<lparr>ad_kp = 0x3F000000, ad_kd = 0x3DCCCCCD, ad_max_torque = 0x3C23D70A\<rparr>)),
         zy_last_time = 0, zy_frame = frame, zy_frame_len = frame_len, zy_out = zynq_banner db\<rparr>)"

subsection \<open>A sensor frame\<close>

text \<open>The fields are copied from the start of the buffer, whatever the length of the frame.\<close>

definition zynq_sensor :: "u8 list \<Rightarrow> obsw_sensor_frame" where
  "zynq_sensor p = sensor_of_bytes p"

definition zynq_dt :: "f32 \<Rightarrow> f32 \<Rightarrow> f32" where
  "zynq_dt sim_time last_sim_time =
    (let dt = f32_sub sim_time last_sim_time in if f32_le dt 0 then 0x3DCCCCCD else dt)"

definition zynq_nominal :: "libm \<Rightarrow> obsw_sensor_frame \<Rightarrow> f32 list \<times> zynq \<Rightarrow> f32 list \<times> zynq" where
  "zynq_nominal m sn as =
    (let (act, s) = as;
         q_nadir = zynq_compute_nadir_quat (lm_sinf m) (lm_cosf m) (sn_sim_time sn) 0x44098000 0x42C2CCCD;
         adcs = the (snd (obsw_adcs_set_target (Some (zy_adcs s)) (Some q_nadir)));
         s1 = s\<lparr>zy_adcs := adcs\<rparr>;
         q = \<lparr>q_w = sn_st_q_w sn, q_x = sn_st_q_x sn, q_y = sn_st_q_y sn, q_z = sn_st_q_z sn\<rparr>;
         omega = Vec3 (sn_gyro_x sn) (sn_gyro_y sn) (sn_gyro_z sn)
     in case obsw_adcs_step (lm_acosf m) (Some adcs) (Some q) (Some omega) (Some sim_adcs_out0) of
          (ok, out) \<Rightarrow>
            if ok
            then let tau = ad_torque_cmd (the out)
              in (act[3 := v0 tau, 4 := v1 tau, 5 := v2 tau, 6 := f32_one], s1)
            else (act, s1))"

definition zynq_safe :: "obsw_sensor_frame \<Rightarrow> f32 \<Rightarrow> f32 list \<times> zynq \<Rightarrow> f32 list \<times> zynq" where
  "zynq_safe sn dt as =
    (let (act, s) = as; b = Vec3 (sn_mag_x sn) (sn_mag_y sn) (sn_mag_z sn)
     in case obsw_bdot_step (Some (zy_bdot s)) (Some b) dt (Some sim_bdot_out0) of
          (bdot, out) \<Rightarrow>
            let m_cmd = bo_m_cmd (the out)
            in (act[0 := v0 m_cmd, 1 := v1 m_cmd, 2 := v2 m_cmd, 6 := 0], s\<lparr>zy_bdot := the bdot\<rparr>))"

definition zynq_control :: "libm \<Rightarrow> obsw_sensor_frame \<Rightarrow> f32 \<Rightarrow> zynq \<Rightarrow> f32 list \<times> zynq" where
  "zynq_control m sn dt s =
    (let act = (replicate 8 0)[7 := sn_sim_time sn]; cur_mode = obsw_fsm_mode (Some (zw_fsm (zy_world s)))
     in if cur_mode = OBSW_FSM_NOMINAL \<and> sn_st_valid sn \<noteq> 0 \<and> sn_gyro_valid sn \<noteq> 0 then zynq_nominal m sn (act, s)
        else if cur_mode = OBSW_FSM_SAFE \<and> sn_mag_valid sn \<noteq> 0 then zynq_safe sn dt (act, s)
        else (act, s))"

text \<open>Six floats, a byte and the time; the conversion of \<open>act[6]\<close> drops the fraction.\<close>

definition zynq_act_buf :: "libm \<Rightarrow> f32 list \<Rightarrow> u8 list" where
  "zynq_act_buf m act =
    concat (map (\<lambda>i. le_bytes32 (act ! i)) [0..<6]) @ [ucast (f32_to_u32 m (act ! 6))] @ le_bytes32 (act ! 7)"

definition zynq_sensor_frame :: "libm \<Rightarrow> zynq \<Rightarrow> zynq" where
  "zynq_sensor_frame m s =
    (let sn = zynq_sensor (zy_frame s);
         dt = zynq_dt (sn_sim_time sn) (zy_last_time s);
         (act, s1) = zynq_control m sn dt (s\<lparr>zy_last_time := sn_sim_time sn\<rparr>)
     in s1\<lparr>zy_out := zynq_write_frame SVF_FRAME_ACTUATOR (zynq_act_buf m act) 29 (zy_out s1)\<rparr>)"

subsection \<open>The loop\<close>

definition zynq_tc_frame :: "zynq \<Rightarrow> zynq" where
  "zynq_tc_frame s = s\<lparr>zy_world := snd (obsw_tc_dispatcher_feed (Some zynq_dispatcher) (Some (zy_frame s))
     (ucast (zy_frame_len s) :: u64) (zy_world s))\<rparr>"

definition zynq_drain :: "zynq \<Rightarrow> zynq" where
  "zynq_drain s =
    (let w = zy_world s;
         (store, out) = tm_drain (zynq_write_frame SVF_FRAME_TM) 128 (env_store (zw_env w), zy_out s)
     in s\<lparr>zy_world := w\<lparr>zw_env := (zw_env w)\<lparr>env_store := store\<rparr>\<rparr>, zy_out := out\<rparr>)"

definition zynq_answer :: "libm \<Rightarrow> u8 \<Rightarrow> zynq \<Rightarrow> zynq" where
  "zynq_answer m ty s =
    (let s1 = (if ty = SVF_FRAME_TC then zynq_tc_frame s
               else if ty = SVF_FRAME_SENSOR then zynq_sensor_frame m s else s);
         s2 = zynq_drain s1
     in s2\<lparr>zy_out := zynq_write_sync (zy_out s2)\<rparr>)"

lemma zynq_read_shorter:
  "zynq_read_frame buf n l inp = Some (ty, buf', len, rest) \<Longrightarrow> length rest < length inp"
  by (auto simp: zynq_read_frame_def Let_def split: list.splits if_splits)

function zynq_loop :: "libm \<Rightarrow> u8 list \<Rightarrow> zynq \<Rightarrow> zynq" where
  "zynq_loop m inp s =
    (case zynq_read_frame (zy_frame s) 256 (zy_frame_len s) inp of
       None \<Rightarrow> s
     | Some (ty, frame, frame_len, rest) \<Rightarrow>
         let s1 = s\<lparr>zy_frame := frame, zy_frame_len := frame_len\<rparr>
         in if ty = 0 then zynq_loop m rest s1 else zynq_loop m rest (zynq_answer m ty s1))"
  by pat_completeness auto

termination zynq_loop
  by (relation "measure (\<lambda>(m, inp, s). length inp)") (auto dest: zynq_read_shorter)

declare zynq_loop.simps [simp del]

definition zynq_main :: "libm \<Rightarrow> 'a srdb_scheme \<Rightarrow> u8 list \<Rightarrow> u16 \<Rightarrow> u8 list \<Rightarrow> zynq" where
  "zynq_main m db frame frame_len inp = zynq_loop m inp (zynq_start db frame frame_len)"

end
