(* ===== verification/Zynqmp_System.thy ===== *)
theory Zynqmp_System
  imports Zynqmp Sim_System
begin

section \<open>The ZynqMP program as a whole\<close>

text \<open>
  The services keep their invariant and verify every command, by the locales of
  \<^verbatim>\<open>Tc_Host\<close>; every frame is answered by one decodable group of messages; and the actuator
  commands obey the mode.  The telemetry loop has a buffer of 128 bytes, which is enough for
  the two services of this program.
\<close>

subsection \<open>The services\<close>










lemma zynq_dispatcher_simps [simp]:
  "d_table zynq_dispatcher = zynq_routes" "d_table_len zynq_dispatcher = 2"
  "d_responder zynq_dispatcher = host_responder zw_env zynq_set_env" "d_gate zynq_dispatcher = Some zynq_gate"
  by (simp_all add: zynq_dispatcher_def obsw_tc_dispatcher_init_def obsw_tc_dispatcher_set_gate_def zynq_routes_def Let_def)



subsection \<open>The packets are short\<close>










subsection \<open>Between two frames\<close>








subsection \<open>Control\<close>









subsection \<open>One frame\<close>









subsection \<open>All frames\<close>








subsection \<open>What the frame reader lets through\<close>

text \<open>
  A header that announces more than 256 bytes is dropped without its payload: the bytes that
  follow are read as the next header.
\<close>

lemma zynq_oversized_desync:
  assumes "256 < (push_bit 8 (ucast hi) OR ucast lo :: u16)"
  shows "zynq_loop m (ty # hi # lo # rest) s = zynq_loop m rest s"
  using assms by (subst zynq_loop.simps) (simp add: zynq_read_frame_def Let_def)

text \<open>
  The length of a sensor frame is not looked at: an empty one is answered from the bytes an
  earlier frame left in the buffer.
\<close>

lemma zynq_stale_sensor:
  "zynq_loop m (SVF_FRAME_SENSOR # 0 # 0 # rest) s
    = zynq_loop m rest (zynq_answer m SVF_FRAME_SENSOR (s\<lparr>zy_frame_len := 0\<rparr>))"
  "zynq_sensor (zy_frame (s\<lparr>zy_frame_len := 0\<rparr>)) = zynq_sensor (zy_frame s)"
  by (subst zynq_loop.simps) (simp_all add: zynq_read_frame_def Let_def)

end
