(* ===== verification/Mmio.thy ===== *)
theory Mmio
  imports Obsw_Prelude
begin

section \<open>Memory-mapped devices\<close>

text \<open>
  The drivers under \<^verbatim>\<open>src/hal/\<close> touch the hardware only through \<open>volatile\<close> registers.  The
  hardware is an argument of every driver function: \<open>mm_read\<close> and \<open>mm_write\<close> of a register on
  a device state \<open>'h\<close> of which nothing is assumed, so a read may change it and may return
  anything.  A loop that polls a register until it shows something is \<open>poll_until\<close>; it may
  run forever, so its result is an option.

  \<open>logged hw\<close> is the same hardware that also keeps the accesses, in order: what a driver does
  on the bus is stated on it.
\<close>

record 'h mmio =
  mm_read :: "u32 \<Rightarrow> 'h \<Rightarrow> u32 \<times> 'h"
  mm_write :: "u32 \<Rightarrow> u32 \<Rightarrow> 'h \<Rightarrow> 'h"

text \<open>\<open>REG |= v\<close>, \<open>REG &= v\<close> and \<open>while (!p(REG));\<close>\<close>

definition reg_or :: "'h mmio \<Rightarrow> u32 \<Rightarrow> u32 \<Rightarrow> 'h \<Rightarrow> 'h" where
  "reg_or hw a v h = (case mm_read hw a h of (x, h1) \<Rightarrow> mm_write hw a (x OR v) h1)"

definition reg_and :: "'h mmio \<Rightarrow> u32 \<Rightarrow> u32 \<Rightarrow> 'h \<Rightarrow> 'h" where
  "reg_and hw a v h = (case mm_read hw a h of (x, h1) \<Rightarrow> mm_write hw a (x AND v) h1)"

partial_function (option) poll_until :: "'h mmio \<Rightarrow> u32 \<Rightarrow> (u32 \<Rightarrow> bool) \<Rightarrow> 'h \<Rightarrow> 'h option" where
  "poll_until hw a p h = (case mm_read hw a h of (x, h1) \<Rightarrow> if p x then Some h1 else poll_until hw a p h1)"

text \<open>Bytes written one by one, each as soon as a status register allows it.\<close>

fun send_bytes :: "'h mmio \<Rightarrow> u32 \<Rightarrow> (u32 \<Rightarrow> bool) \<Rightarrow> u32 \<Rightarrow> u8 list \<Rightarrow> 'h \<Rightarrow> 'h option" where
  "send_bytes hw stat ready tx [] h = Some h"
| "send_bytes hw stat ready tx (b # bs) h =
    (case poll_until hw stat ready h of None \<Rightarrow> None
     | Some h1 \<Rightarrow> send_bytes hw stat ready tx bs (mm_write hw tx (ucast b) h1))"

text \<open>Bytes read one by one into a buffer, each as soon as a status register allows it.\<close>

primrec receive_bytes :: "'h mmio \<Rightarrow> u32 \<Rightarrow> (u32 \<Rightarrow> bool) \<Rightarrow> u32 \<Rightarrow> nat \<Rightarrow> nat \<Rightarrow> u8 list \<Rightarrow> 'h \<Rightarrow> (u8 list \<times> 'h) option" where
  "receive_bytes hw stat ready rx 0 i buf h = Some (buf, h)"
| "receive_bytes hw stat ready rx (Suc n) i buf h =
    (case poll_until hw stat ready h of None \<Rightarrow> None
     | Some h1 \<Rightarrow> (case mm_read hw rx h1 of (x, h2) \<Rightarrow>
         receive_bytes hw stat ready rx n (i + 1) (buf[i := ucast (x AND 0xFF)]) h2))"

subsection \<open>The accesses\<close>

datatype access = Rd u32 u32 | Wr u32 u32

definition logged :: "'h mmio \<Rightarrow> ('h \<times> access list) mmio" where
  "logged hw =
    \<lparr>mm_read = \<lambda>a (h, l). (case mm_read hw a h of (x, h') \<Rightarrow> (x, (h', l @ [Rd a x]))),
     mm_write = \<lambda>a v (h, l). (mm_write hw a v h, l @ [Wr a v])\<rparr>"

lemma logged_simps [simp]:
  "mm_read (logged hw) a (h, l) = (fst (mm_read hw a h), (snd (mm_read hw a h), l @ [Rd a (fst (mm_read hw a h))]))"
  "mm_write (logged hw) a v (h, l) = (mm_write hw a v h, l @ [Wr a v])"
  by (simp_all add: logged_def case_prod_beta)

fun writes :: "access list \<Rightarrow> (u32 \<times> u32) list" where
  "writes [] = []"
| "writes (Wr a v # l) = (a, v) # writes l"
| "writes (Rd a v # l) = writes l"

lemma writes_append [simp]: "writes (l @ l') = writes l @ writes l'"
  by (induction l rule: writes.induct) simp_all

lemma writes_reads [simp]: "writes (map (Rd a) xs) = []"
  by (induction xs) simp_all

text \<open>The values read from a register.\<close>

fun reads_of :: "u32 \<Rightarrow> access list \<Rightarrow> u32 list" where
  "reads_of a [] = []"
| "reads_of a (Rd r v # l) = (if r = a then v # reads_of a l else reads_of a l)"
| "reads_of a (Wr r v # l) = reads_of a l"

lemma reads_of_append [simp]: "reads_of a (l @ l') = reads_of a l @ reads_of a l'"
  by (induction l rule: writes.induct) simp_all

lemma reads_of_reads [simp]: "reads_of a (map (Rd r) xs) = (if r = a then xs else [])"
  by (induction xs) auto

text \<open>
  \<open>paced stat ready tx l\<close>: every write to the register \<open>tx\<close> directly follows a read of \<open>stat\<close>
  that shows it ready.
\<close>

fun paced :: "u32 \<Rightarrow> (u32 \<Rightarrow> bool) \<Rightarrow> u32 \<Rightarrow> bool \<Rightarrow> access list \<Rightarrow> bool" where
  "paced stat ready tx r [] \<longleftrightarrow> True"
| "paced stat ready tx r (Rd a v # l) \<longleftrightarrow> paced stat ready tx (a = stat \<and> ready v) l"
| "paced stat ready tx r (Wr a v # l) \<longleftrightarrow> (a = tx \<longrightarrow> r) \<and> paced stat ready tx False l"

lemma paced_reads: "paced stat ready tx r (map (Rd a) xs @ l) \<longleftrightarrow>
    paced stat ready tx (if xs = [] then r else a = stat \<and> ready (last xs)) l"
  by (induction xs arbitrary: r) auto

subsection \<open>Polling ends\<close>

text \<open>From the state \<open>h\<close> the register \<open>a\<close> shows \<open>p\<close> after finitely many reads.\<close>

inductive polls :: "'h mmio \<Rightarrow> u32 \<Rightarrow> (u32 \<Rightarrow> bool) \<Rightarrow> 'h \<Rightarrow> bool" for hw a p where
  polls_now: "p (fst (mm_read hw a h)) \<Longrightarrow> polls hw a p h"
| polls_later: "polls hw a p (snd (mm_read hw a h)) \<Longrightarrow> polls hw a p h"

lemma poll_logged:
  assumes "polls hw a p h"
  obtains h' xs x where "poll_until (logged hw) a p (h, l) = Some (h', l @ map (Rd a) (xs @ [x]))" "p x" "\<forall>y \<in> set xs. \<not> p y"
  using assms
proof (induction arbitrary: l thesis rule: polls.induct)
  case (polls_now h)
  from polls_now(1) show ?case
    by (intro polls_now(2) [of "snd (mm_read hw a h)" "[]" "fst (mm_read hw a h)"]) (simp_all add: poll_until.simps [of "logged hw"])
next
  case (polls_later h)
  note unfold = poll_until.simps [of "logged hw" a p "(h, l)"]
  let ?x = "fst (mm_read hw a h)"
  show ?case
  proof (cases "p ?x")
    case True
    then show ?thesis by (intro polls_later(3) [of "snd (mm_read hw a h)" "[]" ?x]) (simp_all add: unfold)
  next
    case False
    obtain h' xs x where "poll_until (logged hw) a p (snd (mm_read hw a h), l @ [Rd a ?x])
        = Some (h', (l @ [Rd a ?x]) @ map (Rd a) (xs @ [x]))" "p x" "\<forall>y \<in> set xs. \<not> p y"
      by (rule polls_later(2))
    with False show ?thesis by (intro polls_later(3) [of h' "?x # xs" x]) (simp_all add: unfold)
  qed
qed

lemma send_bytes_logged:
  assumes "\<And>h. polls hw stat ready h"
  obtains h' l' where "send_bytes (logged hw) stat ready tx bs (h, l) = Some (h', l @ l')"
    "writes l' = map (\<lambda>b. (tx, ucast b)) bs" "\<forall>r. paced stat ready tx r l'" "\<forall>a. a \<noteq> stat \<longrightarrow> reads_of a l' = []"
proof (induction bs arbitrary: h l thesis)
  case Nil
  then show ?case by force
next
  case (Cons b bs)
  obtain h1 xs x where p: "poll_until (logged hw) stat ready (h, l) = Some (h1, l @ map (Rd stat) (xs @ [x]))" "ready x"
    by (rule poll_logged [OF assms])
  obtain h' l' where s: "send_bytes (logged hw) stat ready tx bs
        (mm_write hw tx (ucast b) h1, l @ map (Rd stat) (xs @ [x]) @ [Wr tx (ucast b)])
      = Some (h', (l @ map (Rd stat) (xs @ [x]) @ [Wr tx (ucast b)]) @ l')"
    "writes l' = map (\<lambda>b. (tx, ucast b)) bs" "\<forall>r. paced stat ready tx r l'" "\<forall>a. a \<noteq> stat \<longrightarrow> reads_of a l' = []"
    by (rule Cons.IH [where h = "mm_write hw tx (ucast b) h1" and l = "l @ map (Rd stat) (xs @ [x]) @ [Wr tx (ucast b)]"])
  show ?case
  proof (rule Cons.prems)
    show "send_bytes (logged hw) stat ready tx (b # bs) (h, l)
        = Some (h', l @ (map (Rd stat) (xs @ [x]) @ [Wr tx (ucast b)] @ l'))"
      using p(1) s(1) by simp
    show "writes (map (Rd stat) (xs @ [x]) @ [Wr tx (ucast b)] @ l') = map (\<lambda>b. (tx, ucast b)) (b # bs)"
      using s(2) by simp
    show "\<forall>r. paced stat ready tx r (map (Rd stat) (xs @ [x]) @ [Wr tx (ucast b)] @ l')"
      using s(3) p(2) by (simp add: paced_reads del: map_append)
    show "\<forall>a. a \<noteq> stat \<longrightarrow> reads_of a (map (Rd stat) (xs @ [x]) @ [Wr tx (ucast b)] @ l') = []"
      using s(4) by (simp del: map_append)
  qed
qed

text \<open>The received bytes are the low bytes of the receive register, in order.\<close>

lemma receive_bytes_logged:
  assumes "\<And>h. polls hw stat ready h" "stat \<noteq> rx" "i + n \<le> length buf"
  shows "\<exists>h' l'. receive_bytes (logged hw) stat ready rx n i buf (h, l)
      = Some (take i buf @ map (\<lambda>x. ucast (x AND 0xFF)) (reads_of rx l') @ drop (i + n) buf, (h', l @ l'))
    \<and> length (reads_of rx l') = n \<and> writes l' = []"
  using assms(3)
proof (induction n arbitrary: i buf h l)
  case 0
  then show ?case by (intro exI [of _ h] exI [of _ "[]"]) simp
next
  case (Suc n)
  obtain h1 xs x where p: "poll_until (logged hw) stat ready (h, l) = Some (h1, l @ map (Rd stat) (xs @ [x]))"
    by (rule poll_logged [OF assms(1)])
  define v where "v = fst (mm_read hw rx h1)"
  let ?buf = "buf[i := ucast (v AND 0xFF)]" and ?l = "map (Rd stat) (xs @ [x]) @ [Rd rx v]"
  have len: "i + 1 + n \<le> length ?buf" using Suc.prems by simp
  obtain h' l' where r: "receive_bytes (logged hw) stat ready rx n (i + 1) ?buf (snd (mm_read hw rx h1), l @ ?l)
      = Some (take (i + 1) ?buf @ map (\<lambda>x. ucast (x AND 0xFF)) (reads_of rx l') @ drop (i + 1 + n) ?buf, (h', (l @ ?l) @ l'))"
    "length (reads_of rx l') = n" "writes l' = []"
    using Suc.IH [OF len] by metis
  have t: "take (i + 1) ?buf = take i buf @ [ucast (v AND 0xFF)]"
    using Suc.prems by (simp add: take_Suc_conv_app_nth)
  have "receive_bytes (logged hw) stat ready rx (Suc n) i buf (h, l)
      = receive_bytes (logged hw) stat ready rx n (i + 1) ?buf (snd (mm_read hw rx h1), l @ ?l)"
    using p by (simp add: v_def)
  then show ?case using r t assms(2) by (intro exI [of _ h'] exI [of _ "?l @ l'"]) simp
qed

end
