(* ===== verification/I2c.thy ===== *)
theory I2c
  imports Mmio
begin

section \<open>The I2C driver of the STM32H7 board\<close>

text \<open>
  \<^verbatim>\<open>src/hal/stm32h7/i2c.c\<close>: the set-up of the bus and the two transactions of a polling
  master, the write of one device register and the read of several.  Every wait is bounded
  by \<open>I2C_TIMEOUT\<close> reads of the status register, so the functions are total whatever the
  hardware does; a failed transaction is \<open>False\<close> or \<open>None\<close>.
\<close>

text \<open>The register map.\<close>

definition RCC_AHB4ENR :: u32 where "RCC_AHB4ENR = 0x58024400 + 0x0E0"
definition RCC_APB1LENR :: u32 where "RCC_APB1LENR = 0x58024400 + 0x0E8"
definition GPIOB_MODER :: u32 where "GPIOB_MODER = 0x58020400 + 0x00"
definition GPIOB_OTYPER :: u32 where "GPIOB_OTYPER = 0x58020400 + 0x04"
definition GPIOB_OSPEEDR :: u32 where "GPIOB_OSPEEDR = 0x58020400 + 0x08"
definition GPIOB_PUPDR :: u32 where "GPIOB_PUPDR = 0x58020400 + 0x0C"
definition GPIOB_AFRH :: u32 where "GPIOB_AFRH = 0x58020400 + 0x24"
definition I2C1_CR1 :: u32 where "I2C1_CR1 = 0x40005400 + 0x00"
definition I2C1_CR2 :: u32 where "I2C1_CR2 = 0x40005400 + 0x04"
definition I2C1_TIMINGR :: u32 where "I2C1_TIMINGR = 0x40005400 + 0x10"
definition I2C1_ISR :: u32 where "I2C1_ISR = 0x40005400 + 0x18"
definition I2C1_ICR :: u32 where "I2C1_ICR = 0x40005400 + 0x1C"
definition I2C1_RXDR :: u32 where "I2C1_RXDR = 0x40005400 + 0x24"
definition I2C1_TXDR :: u32 where "I2C1_TXDR = 0x40005400 + 0x28"

definition I2C_ISR_TXIS :: u32 where "I2C_ISR_TXIS = push_bit 1 1"
definition I2C_ISR_RXNE :: u32 where "I2C_ISR_RXNE = push_bit 2 1"
definition I2C_ISR_NACKF :: u32 where "I2C_ISR_NACKF = push_bit 4 1"
definition I2C_ISR_STOPF :: u32 where "I2C_ISR_STOPF = push_bit 5 1"
definition I2C_ISR_TC :: u32 where "I2C_ISR_TC = push_bit 6 1"
definition I2C_ISR_BUSY :: u32 where "I2C_ISR_BUSY = push_bit 15 1"
definition I2C_ICR_NACKCF :: u32 where "I2C_ICR_NACKCF = push_bit 4 1"
definition I2C_ICR_STOPCF :: u32 where "I2C_ICR_STOPCF = push_bit 5 1"

definition I2C_CR2_SADD :: "u8 \<Rightarrow> u32" where "I2C_CR2_SADD a = push_bit 1 (ucast a)"
definition I2C_CR2_NBYTES :: "u8 \<Rightarrow> u32" where "I2C_CR2_NBYTES n = push_bit 16 (ucast n)"
definition I2C_CR2_RD :: u32 where "I2C_CR2_RD = push_bit 10 1"
definition I2C_CR2_START :: u32 where "I2C_CR2_START = push_bit 13 1"
definition I2C_CR2_AUTOEND :: u32 where "I2C_CR2_AUTOEND = push_bit 25 1"

definition I2C_TIMEOUT :: nat where "I2C_TIMEOUT = 100000"

lemmas i2c_regs = I2C1_CR1_def I2C1_CR2_def I2C1_TIMINGR_def I2C1_ISR_def I2C1_ICR_def I2C1_RXDR_def I2C1_TXDR_def

subsection \<open>Initialisation\<close>

definition obsw_i2c1_init :: "'h mmio \<Rightarrow> 'h \<Rightarrow> 'h" where
  "obsw_i2c1_init hw h =
    (let h = reg_or hw RCC_AHB4ENR (push_bit 1 1) h;
         h = reg_or hw RCC_APB1LENR (push_bit 21 1) h;
         h = reg_and hw GPIOB_MODER (NOT (push_bit 16 3 OR push_bit 18 3)) h;
         h = reg_or hw GPIOB_MODER (push_bit 16 2 OR push_bit 18 2) h;
         h = reg_or hw GPIOB_OTYPER (push_bit 8 1 OR push_bit 9 1) h;
         h = reg_and hw GPIOB_OSPEEDR (NOT (push_bit 16 3 OR push_bit 18 3)) h;
         h = reg_or hw GPIOB_OSPEEDR (push_bit 16 1 OR push_bit 18 1) h;
         h = reg_and hw GPIOB_PUPDR (NOT (push_bit 16 3 OR push_bit 18 3)) h;
         h = reg_or hw GPIOB_PUPDR (push_bit 16 1 OR push_bit 18 1) h;
         h = reg_and hw GPIOB_AFRH (NOT 0xFF) h;
         h = reg_or hw GPIOB_AFRH (4 OR push_bit 4 4) h;
         h = mm_write hw I2C1_CR1 0 h;
         h = mm_write hw I2C1_TIMINGR 0x30323F5F h
     in mm_write hw I2C1_CR1 (push_bit 0 1) h)"

subsection \<open>Bounded waits\<close>

text \<open>The loops count up to \<open>I2C_TIMEOUT\<close>; here the argument counts what is left.\<close>

primrec wait_flag_from :: "'h mmio \<Rightarrow> u32 \<Rightarrow> nat \<Rightarrow> 'h \<Rightarrow> bool \<times> 'h" where
  "wait_flag_from hw flag 0 h = (False, h)"
| "wait_flag_from hw flag (Suc t) h =
    (case mm_read hw I2C1_ISR h of (isr, h1) \<Rightarrow>
       if isr AND I2C_ISR_NACKF \<noteq> 0 then (False, mm_write hw I2C1_ICR (I2C_ICR_NACKCF OR I2C_ICR_STOPCF) h1)
       else if isr AND flag \<noteq> 0 then (True, h1)
       else wait_flag_from hw flag t h1)"

definition wait_flag :: "'h mmio \<Rightarrow> u32 \<Rightarrow> 'h \<Rightarrow> bool \<times> 'h" where
  "wait_flag hw flag h = wait_flag_from hw flag I2C_TIMEOUT h"

primrec wait_free :: "'h mmio \<Rightarrow> nat \<Rightarrow> 'h \<Rightarrow> 'h" where
  "wait_free hw 0 h = h"
| "wait_free hw (Suc t) h =
    (case mm_read hw I2C1_ISR h of (isr, h1) \<Rightarrow>
       if isr AND I2C_ISR_BUSY = 0 then h1 else wait_free hw t h1)"

subsection \<open>Transactions\<close>

definition obsw_i2c1_write_reg :: "'h mmio \<Rightarrow> u8 \<Rightarrow> u8 \<Rightarrow> u8 \<Rightarrow> 'h \<Rightarrow> bool \<times> 'h" where
  "obsw_i2c1_write_reg hw addr7 reg val h =
    (let h = wait_free hw I2C_TIMEOUT h;
         h = mm_write hw I2C1_ICR (I2C_ICR_NACKCF OR I2C_ICR_STOPCF) h;
         h = mm_write hw I2C1_CR2 (I2C_CR2_SADD addr7 OR I2C_CR2_NBYTES 2 OR I2C_CR2_AUTOEND OR I2C_CR2_START) h
     in case wait_flag hw I2C_ISR_TXIS h of (ok, h) \<Rightarrow>
        if \<not> ok then (False, h)
        else case wait_flag hw I2C_ISR_TXIS (mm_write hw I2C1_TXDR (ucast reg) h) of (ok, h) \<Rightarrow>
        if \<not> ok then (False, h)
        else case wait_flag hw I2C_ISR_STOPF (mm_write hw I2C1_TXDR (ucast val) h) of (ok, h) \<Rightarrow>
        if \<not> ok then (False, h)
        else (True, mm_write hw I2C1_ICR I2C_ICR_STOPCF h))"

text \<open>The bytes go into the buffer one by one, so a transaction that fails may have changed it.\<close>

primrec i2c_read_bytes :: "'h mmio \<Rightarrow> nat \<Rightarrow> nat \<Rightarrow> u8 list \<Rightarrow> 'h \<Rightarrow> bool \<times> u8 list \<times> 'h" where
  "i2c_read_bytes hw 0 i buf h = (True, buf, h)"
| "i2c_read_bytes hw (Suc n) i buf h =
    (case wait_flag hw I2C_ISR_RXNE h of (ok, h1) \<Rightarrow>
       if \<not> ok then (False, buf, h1)
       else case mm_read hw I2C1_RXDR h1 of (x, h2) \<Rightarrow> i2c_read_bytes hw n (i + 1) (buf[i := ucast x]) h2)"

definition obsw_i2c1_read_regs ::
  "'h mmio \<Rightarrow> u8 \<Rightarrow> u8 \<Rightarrow> u8 list option \<Rightarrow> u8 \<Rightarrow> 'h \<Rightarrow> bool \<times> u8 list option \<times> 'h" where
  "obsw_i2c1_read_regs hw addr7 reg buf len h =
    (case buf of None \<Rightarrow> (False, buf, h)
     | Some b \<Rightarrow>
     if len = 0 then (False, buf, h)
     else
       let h = wait_free hw I2C_TIMEOUT h;
           h = mm_write hw I2C1_ICR (I2C_ICR_NACKCF OR I2C_ICR_STOPCF) h;
           h = mm_write hw I2C1_CR2 (I2C_CR2_SADD addr7 OR I2C_CR2_NBYTES 1 OR I2C_CR2_START) h
       in case wait_flag hw I2C_ISR_TXIS h of (ok, h) \<Rightarrow>
          if \<not> ok then (False, buf, h)
          else case wait_flag hw I2C_ISR_TC (mm_write hw I2C1_TXDR (ucast reg) h) of (ok, h) \<Rightarrow>
          if \<not> ok then (False, buf, h)
          else case i2c_read_bytes hw (unat len) 0 b (mm_write hw I2C1_CR2
                  (I2C_CR2_SADD addr7 OR I2C_CR2_NBYTES len OR I2C_CR2_RD OR I2C_CR2_AUTOEND OR I2C_CR2_START) h) of (ok, b, h) \<Rightarrow>
          if \<not> ok then (False, Some b, h)
          else case wait_flag hw I2C_ISR_STOPF h of (ok, h) \<Rightarrow>
          if \<not> ok then (False, Some b, h)
          else (True, Some b, mm_write hw I2C1_ICR I2C_ICR_STOPCF h))"

section \<open>What a transaction does on the bus\<close>

text \<open>
  A wait reads the status at most \<open>I2C_TIMEOUT\<close> times.  It succeeds on the awaited flag
  without a refusal by the device; on a refusal it clears the flags and gives up.
\<close>

definition waited_in :: "nat \<Rightarrow> u32 \<Rightarrow> bool \<Rightarrow> access list \<Rightarrow> bool" where
  "waited_in t flag ok l \<longleftrightarrow> (\<exists>xs. length xs \<le> t
    \<and> (if ok then l = map (Rd I2C1_ISR) xs \<and> xs \<noteq> [] \<and> last xs AND flag \<noteq> 0 \<and> last xs AND I2C_ISR_NACKF = 0
       else l = map (Rd I2C1_ISR) xs \<or> l = map (Rd I2C1_ISR) xs @ [Wr I2C1_ICR (I2C_ICR_NACKCF OR I2C_ICR_STOPCF)]))"

abbreviation waited :: "u32 \<Rightarrow> bool \<Rightarrow> access list \<Rightarrow> bool" where
  "waited \<equiv> waited_in I2C_TIMEOUT"

lemma waited_first:
  "x AND I2C_ISR_NACKF \<noteq> 0 \<Longrightarrow> waited_in (Suc t) flag False [Rd I2C1_ISR x, Wr I2C1_ICR (I2C_ICR_NACKCF OR I2C_ICR_STOPCF)]"
  "x AND I2C_ISR_NACKF = 0 \<Longrightarrow> x AND flag \<noteq> 0 \<Longrightarrow> waited_in (Suc t) flag True [Rd I2C1_ISR x]"
  by (auto simp: waited_in_def intro: exI [of _ "[x]"])

lemma waited_again: "waited_in t flag ok l \<Longrightarrow> waited_in (Suc t) flag ok (Rd I2C1_ISR x # l)"
  unfolding waited_in_def by (auto intro!: exI [of _ "x # _"] split: if_splits)

lemma wait_flag_from_logged:
  assumes "wait_flag_from (logged hw) flag t (h, l) = (ok, (h', l'))"
  shows "\<exists>seg. l' = l @ seg \<and> waited_in t flag ok seg"
  using assms
proof (induction t arbitrary: h l)
  case 0
  then show ?case by (simp add: waited_in_def)
next
  case (Suc t)
  let ?x = "fst (mm_read hw I2C1_ISR h)"
  consider (nack) "?x AND I2C_ISR_NACKF \<noteq> 0" | (seen) "?x AND I2C_ISR_NACKF = 0" "?x AND flag \<noteq> 0"
    | (again) "?x AND I2C_ISR_NACKF = 0" "?x AND flag = 0" by blast
  then show ?case
  proof cases
    case nack
    then show ?thesis using Suc.prems waited_first(1) [OF nack, of t flag] by auto
  next
    case seen
    then show ?thesis using Suc.prems waited_first(2) [OF seen, of t] by auto
  next
    case again
    with Suc.prems have "wait_flag_from (logged hw) flag t (snd (mm_read hw I2C1_ISR h), l @ [Rd I2C1_ISR ?x]) = (ok, (h', l'))"
      by simp
    from Suc.IH [OF this] waited_again show ?thesis by fastforce
  qed
qed

lemma wait_flag_logged:
  assumes "wait_flag (logged hw) flag (h, l) = (ok, (h', l'))"
  obtains seg where "l' = l @ seg" "waited flag ok seg"
  using wait_flag_from_logged [OF assms [unfolded wait_flag_def]] by blast

lemma wait_free_logged:
  obtains xs h' where "wait_free (logged hw) t (h, l) = (h', l @ map (Rd I2C1_ISR) xs)" "length xs \<le> t"
proof (induction t arbitrary: h l thesis)
  case 0
  then show ?case by force
next
  case (Suc t)
  let ?x = "fst (mm_read hw I2C1_ISR h)" and ?h = "snd (mm_read hw I2C1_ISR h)"
  obtain xs h' where "wait_free (logged hw) t (?h, l @ [Rd I2C1_ISR ?x]) = (h', (l @ [Rd I2C1_ISR ?x]) @ map (Rd I2C1_ISR) xs)" "length xs \<le> t"
    by (rule Suc.IH)
  then show ?case using Suc.prems [of ?h "[?x]"] Suc.prems [of h' "?x # xs"]
    by (cases "?x AND I2C_ISR_BUSY = 0") simp_all
qed

lemma isr_not_rxdr [simp]: "I2C1_ISR \<noteq> I2C1_RXDR" "I2C1_RXDR \<noteq> I2C1_ISR"
  by (simp_all add: i2c_regs)

lemma waited_length: "waited flag ok l \<Longrightarrow> length l \<le> I2C_TIMEOUT + 1"
  by (auto simp: waited_in_def split: if_splits)

lemma waited_ok: "waited flag True l \<Longrightarrow> writes l = [] \<and> reads_of I2C1_RXDR l = [] \<and> length l \<le> I2C_TIMEOUT"
  by (auto simp: waited_in_def)

text \<open>The writes of a complete transaction.\<close>

definition i2c_write_writes :: "u8 \<Rightarrow> u8 \<Rightarrow> u8 \<Rightarrow> (u32 \<times> u32) list" where
  "i2c_write_writes addr7 reg val =
    [(I2C1_ICR, I2C_ICR_NACKCF OR I2C_ICR_STOPCF),
     (I2C1_CR2, I2C_CR2_SADD addr7 OR I2C_CR2_NBYTES 2 OR I2C_CR2_AUTOEND OR I2C_CR2_START),
     (I2C1_TXDR, ucast reg), (I2C1_TXDR, ucast val), (I2C1_ICR, I2C_ICR_STOPCF)]"

definition i2c_read_writes :: "u8 \<Rightarrow> u8 \<Rightarrow> u8 \<Rightarrow> (u32 \<times> u32) list" where
  "i2c_read_writes addr7 reg len =
    [(I2C1_ICR, I2C_ICR_NACKCF OR I2C_ICR_STOPCF),
     (I2C1_CR2, I2C_CR2_SADD addr7 OR I2C_CR2_NBYTES 1 OR I2C_CR2_START), (I2C1_TXDR, ucast reg),
     (I2C1_CR2, I2C_CR2_SADD addr7 OR I2C_CR2_NBYTES len OR I2C_CR2_RD OR I2C_CR2_AUTOEND OR I2C_CR2_START),
     (I2C1_ICR, I2C_ICR_STOPCF)]"

text \<open>
  A transaction that succeeds has made exactly these writes; one that fails has broken off: it
  has made a beginning of them, and at most the clearing of the flags after it.
\<close>

definition i2c_cleared :: "(u32 \<times> u32) list" where
  "i2c_cleared = [(I2C1_ICR, I2C_ICR_NACKCF OR I2C_ICR_STOPCF)]"

definition broken_off :: "(u32 \<times> u32) list \<Rightarrow> (u32 \<times> u32) list \<Rightarrow> bool" where
  "broken_off w ws \<longleftrightarrow> (\<exists>k < length w. ws = take k w \<or> ws = take k w @ i2c_cleared)"

lemma broken_off_later: "broken_off w ws \<Longrightarrow> broken_off (w @ w') ws"
  unfolding broken_off_def by (metis (no_types, lifting) length_append less_imp_le trans_less_add1 take_append append_Nil2 diff_is_0_eq take_0)

lemma broken_off_earlier: "broken_off w ws \<Longrightarrow> broken_off (w' @ w) (w' @ ws)"
proof -
  assume "broken_off w ws"
  then obtain k where "k < length w" "ws = take k w \<or> ws = take k w @ i2c_cleared" by (auto simp: broken_off_def)
  then show ?thesis unfolding broken_off_def by (intro exI [of _ "length w' + k"]) auto
qed

lemma broken_off_now: "w' \<noteq> [] \<Longrightarrow> broken_off (w @ w') w"
  unfolding broken_off_def by (intro exI [of _ "length w"]) simp

lemma waited_writes: "waited flag ok s \<Longrightarrow> writes s = [] \<or> writes s = i2c_cleared"
  by (auto simp: waited_in_def i2c_cleared_def split: if_splits)

lemma waited_failed:
  assumes "writes s = [] \<or> writes s = i2c_cleared" "writes l = take k w" "k < length w"
  shows "broken_off w (writes (l @ s))"
  using assms by (auto simp: broken_off_def)

lemma wait_flag_runs:
  obtains ok h' seg where "wait_flag (logged hw) flag (h, l) = (ok, (h', l @ seg))" "waited flag ok seg"
proof -
  obtain ok h' l' where w: "wait_flag (logged hw) flag (h, l) = (ok, (h', l'))" by (metis prod.exhaust)
  show thesis using w by (rule wait_flag_logged) (use w that in blast)
qed

lemma i2c_write_logged:
  assumes "obsw_i2c1_write_reg (logged hw) addr7 reg val (h, l) = (ok, (h', l'))"
  obtains seg where "l' = l @ seg" "length seg \<le> 4 * I2C_TIMEOUT + 6"
    "if ok then writes seg = i2c_write_writes addr7 reg val \<and> reads_of I2C1_RXDR seg = []
     else broken_off (i2c_write_writes addr7 reg val) (writes seg)"
proof -
  let ?w = "i2c_write_writes addr7 reg val"
  obtain xs h1 where f: "wait_free (logged hw) I2C_TIMEOUT (h, l) = (h1, l @ map (Rd I2C1_ISR) xs)" "length xs \<le> I2C_TIMEOUT"
    by (rule wait_free_logged)
  define p1 where "p1 = map (Rd I2C1_ISR) xs @ [Wr I2C1_ICR (I2C_ICR_NACKCF OR I2C_ICR_STOPCF),
     Wr I2C1_CR2 (I2C_CR2_SADD addr7 OR I2C_CR2_NBYTES 2 OR I2C_CR2_AUTOEND OR I2C_CR2_START)]"
  define h1' where "h1' = mm_write hw I2C1_CR2 (I2C_CR2_SADD addr7 OR I2C_CR2_NBYTES 2 OR I2C_CR2_AUTOEND OR I2C_CR2_START)
        (mm_write hw I2C1_ICR (I2C_ICR_NACKCF OR I2C_ICR_STOPCF) h1)"
  obtain ok1 h2 s1 where w1: "wait_flag (logged hw) I2C_ISR_TXIS (h1', l @ p1) = (ok1, (h2, (l @ p1) @ s1))" "waited I2C_ISR_TXIS ok1 s1"
    by (rule wait_flag_runs)
  define p2 where "p2 = p1 @ s1 @ [Wr I2C1_TXDR (ucast reg)]"
  define h2' where "h2' = mm_write hw I2C1_TXDR (ucast reg) h2"
  obtain ok2 h3 s2 where w2: "wait_flag (logged hw) I2C_ISR_TXIS (h2', l @ p2) = (ok2, (h3, (l @ p2) @ s2))" "waited I2C_ISR_TXIS ok2 s2"
    by (rule wait_flag_runs)
  define p3 where "p3 = p2 @ s2 @ [Wr I2C1_TXDR (ucast val)]"
  define h3' where "h3' = mm_write hw I2C1_TXDR (ucast val) h3"
  obtain ok3 h4 s3 where w3: "wait_flag (logged hw) I2C_ISR_STOPF (h3', l @ p3) = (ok3, (h4, (l @ p3) @ s3))" "waited I2C_ISR_STOPF ok3 s3"
    by (rule wait_flag_runs)
  have run: "obsw_i2c1_write_reg (logged hw) addr7 reg val (h, l) =
      (if \<not> ok1 then (False, (h2, l @ p1 @ s1)) else if \<not> ok2 then (False, (h3, l @ p2 @ s2))
       else if \<not> ok3 then (False, (h4, l @ p3 @ s3)) else (True, (mm_write hw I2C1_ICR I2C_ICR_STOPCF h4, l @ p3 @ s3 @ [Wr I2C1_ICR I2C_ICR_STOPCF])))"
    using w1(1) w2(1) w3(1) unfolding obsw_i2c1_write_reg_def Let_def f(1) p1_def p2_def p3_def h1'_def h2'_def h3'_def
    by simp
  have p1: "writes p1 = take 2 ?w" "length p1 \<le> I2C_TIMEOUT + 2" "reads_of I2C1_RXDR p1 = []"
    using f(2) by (simp_all add: p1_def i2c_write_writes_def)
  have p2: "writes p2 = take 3 ?w" "length p2 \<le> 2 * I2C_TIMEOUT + 3" "reads_of I2C1_RXDR p2 = []" if ok1
    using p1 waited_ok [of I2C_ISR_TXIS s1] w1(2) that by (simp_all add: p2_def i2c_write_writes_def)
  have p3: "writes p3 = take 4 ?w" "length p3 \<le> 3 * I2C_TIMEOUT + 4" "reads_of I2C1_RXDR p3 = []" if ok1 ok2
    using p2 waited_ok [of I2C_ISR_TXIS s2] w2(2) that by (simp_all add: p3_def i2c_write_writes_def)
  note len = waited_length [OF w1(2)] waited_length [OF w2(2)] waited_length [OF w3(2)]
  consider "\<not> ok1" | "ok1" "\<not> ok2" | "ok1" "ok2" "\<not> ok3" | "ok1" "ok2" "ok3" by blast
  then show thesis
  proof cases
    case 1
    then show thesis using run assms that [of "p1 @ s1"] waited_failed [OF waited_writes [OF w1(2)], of p1 2 ?w] p1 len
      by (simp add: i2c_write_writes_def)
  next
    case 2
    then show thesis using run assms that [of "p2 @ s2"] waited_failed [OF waited_writes [OF w2(2)], of p2 3 ?w] p2 len
      by (simp add: i2c_write_writes_def)
  next
    case 3
    then show thesis using run assms that [of "p3 @ s3"] waited_failed [OF waited_writes [OF w3(2)], of p3 4 ?w] p3 len
      by (simp add: i2c_write_writes_def)
  next
    case 4
    have "writes (p3 @ s3 @ [Wr I2C1_ICR I2C_ICR_STOPCF]) = ?w" "reads_of I2C1_RXDR (p3 @ s3 @ [Wr I2C1_ICR I2C_ICR_STOPCF]) = []"
      using 4 p3 waited_ok [of I2C_ISR_STOPF s3] w3(2) by (simp_all add: i2c_write_writes_def)
    then show thesis using 4 run assms that [of "p3 @ s3 @ [Wr I2C1_ICR I2C_ICR_STOPCF]"] p3 len by simp
  qed
qed

text \<open>
  A read that succeeds has made the writes of a complete transaction, and its bytes are the
  values read from the receive register, in order, at the start of the buffer.
\<close>

lemma i2c_read_bytes_logged:
  assumes "i2c_read_bytes (logged hw) n i buf (h, l) = (ok, buf', (h', l'))" "i + n \<le> length buf"
  shows "\<exists>seg. l' = l @ seg \<and> length seg \<le> n * (I2C_TIMEOUT + 2) \<and> length buf' = length buf
    \<and> (writes seg = [] \<or> writes seg = i2c_cleared) \<and> (ok \<longrightarrow> writes seg = [] \<and> length (reads_of I2C1_RXDR seg) = n
      \<and> buf' = take i buf @ map ucast (reads_of I2C1_RXDR seg) @ drop (i + n) buf)"
  using assms
proof (induction n arbitrary: i buf h l)
  case 0
  then show ?case by simp
next
  case (Suc n)
  obtain ok1 h1 s1 where w: "wait_flag (logged hw) I2C_ISR_RXNE (h, l) = (ok1, (h1, l @ s1))" "waited I2C_ISR_RXNE ok1 s1"
    by (rule wait_flag_runs)
  show ?case
  proof (cases ok1)
    case False
    then have "l' = l @ s1" "buf' = buf" "ok = False" using w(1) Suc.prems(1) by simp_all
    then show ?thesis using waited_length [OF w(2)] waited_writes [OF w(2)] by (intro exI [of _ s1]) simp
  next
    case True
    define x :: u32 where "x = fst (mm_read hw I2C1_RXDR h1)"
    have run: "i2c_read_bytes (logged hw) n (i + 1) (buf[i := ucast x]) (snd (mm_read hw I2C1_RXDR h1), l @ s1 @ [Rd I2C1_RXDR x]) = (ok, buf', (h', l'))"
      using w(1) True Suc.prems(1) by (simp add: x_def)
    have "i + 1 + n \<le> length (buf[i := ucast x])" using Suc.prems(2) by simp
    from Suc.IH [OF run this] obtain seg where seg: "l' = (l @ s1 @ [Rd I2C1_RXDR x]) @ seg"
      "length seg \<le> n * (I2C_TIMEOUT + 2)" "length buf' = length (buf[i := ucast x])" "writes seg = [] \<or> writes seg = i2c_cleared"
      "ok \<Longrightarrow> writes seg = [] \<and> length (reads_of I2C1_RXDR seg) = n
        \<and> buf' = take (i + 1) (buf[i := ucast x]) @ map ucast (reads_of I2C1_RXDR seg) @ drop (i + 1 + n) (buf[i := ucast x])"
      by blast
    have s1: "writes s1 = []" "reads_of I2C1_RXDR s1 = []" "length s1 \<le> I2C_TIMEOUT"
      using waited_ok [of I2C_ISR_RXNE s1] w(2) True by simp_all
    have t: "take (i + 1) (buf[i := ucast x]) = take i buf @ [ucast x]"
      using Suc.prems(2) by (simp add: take_Suc_conv_app_nth)
    have "length (s1 @ [Rd I2C1_RXDR x] @ seg) \<le> Suc n * (I2C_TIMEOUT + 2)" using s1(3) seg(2) by simp
    moreover have "writes (s1 @ [Rd I2C1_RXDR x] @ seg) = [] \<and> length (reads_of I2C1_RXDR (s1 @ [Rd I2C1_RXDR x] @ seg)) = Suc n
        \<and> buf' = take i buf @ map ucast (reads_of I2C1_RXDR (s1 @ [Rd I2C1_RXDR x] @ seg)) @ drop (i + Suc n) buf" if ok
      using seg(5) [OF that] s1 t by simp
    moreover have "writes (s1 @ [Rd I2C1_RXDR x] @ seg) = [] \<or> writes (s1 @ [Rd I2C1_RXDR x] @ seg) = i2c_cleared"
      using seg(4) s1 by simp
    ultimately show ?thesis using seg(1,3) by (intro exI [of _ "s1 @ [Rd I2C1_RXDR x] @ seg"]) (simp del: length_append)
  qed
qed

lemma i2c_read_logged:
  assumes "obsw_i2c1_read_regs (logged hw) addr7 reg (Some buf) len (h, l) = (ok, buf', (h', l'))" "unat len \<le> length buf"
  obtains seg b where "l' = l @ seg" "length seg \<le> (unat len + 4) * (I2C_TIMEOUT + 2)" "buf' = Some b" "length b = length buf"
    "ok \<Longrightarrow> writes seg = i2c_read_writes addr7 reg len \<and> length (reads_of I2C1_RXDR seg) = unat len
      \<and> b = map ucast (reads_of I2C1_RXDR seg) @ drop (unat len) buf"
    "\<not> ok \<Longrightarrow> broken_off (i2c_read_writes addr7 reg len) (writes seg)"
proof (cases "len = 0")
  case True
  have "broken_off (i2c_read_writes addr7 reg len) []"
    using broken_off_now [of "i2c_read_writes addr7 reg len" "[]"] by (simp add: i2c_read_writes_def)
  with True show thesis using assms(1) that [of "[]" buf] by (simp add: obsw_i2c1_read_regs_def)
next
  case False
  obtain xs h1 where f: "wait_free (logged hw) I2C_TIMEOUT (h, l) = (h1, l @ map (Rd I2C1_ISR) xs)" "length xs \<le> I2C_TIMEOUT"
    by (rule wait_free_logged)
  let ?cr2 = "I2C_CR2_SADD addr7 OR I2C_CR2_NBYTES 1 OR I2C_CR2_START"
  let ?cr2' = "I2C_CR2_SADD addr7 OR I2C_CR2_NBYTES len OR I2C_CR2_RD OR I2C_CR2_AUTOEND OR I2C_CR2_START"
  define p1 where "p1 = map (Rd I2C1_ISR) xs @ [Wr I2C1_ICR (I2C_ICR_NACKCF OR I2C_ICR_STOPCF), Wr I2C1_CR2 ?cr2]"
  define h1' where "h1' = mm_write hw I2C1_CR2 ?cr2 (mm_write hw I2C1_ICR (I2C_ICR_NACKCF OR I2C_ICR_STOPCF) h1)"
  obtain ok1 h2 s1 where w1: "wait_flag (logged hw) I2C_ISR_TXIS (h1', l @ p1) = (ok1, (h2, (l @ p1) @ s1))" "waited I2C_ISR_TXIS ok1 s1"
    by (rule wait_flag_runs)
  define p2 where "p2 = p1 @ s1 @ [Wr I2C1_TXDR (ucast reg)]"
  define h2' where "h2' = mm_write hw I2C1_TXDR (ucast reg) h2"
  obtain ok2 h3 s2 where w2: "wait_flag (logged hw) I2C_ISR_TC (h2', l @ p2) = (ok2, (h3, (l @ p2) @ s2))" "waited I2C_ISR_TC ok2 s2"
    by (rule wait_flag_runs)
  define p3 where "p3 = p2 @ s2 @ [Wr I2C1_CR2 ?cr2']"
  define h3' where "h3' = mm_write hw I2C1_CR2 ?cr2' h3"
  obtain ok3 b h4 l4 where r0: "i2c_read_bytes (logged hw) (unat len) 0 buf (h3', l @ p3) = (ok3, b, (h4, l4))"
    by (metis prod.exhaust)
  have "0 + unat len \<le> length buf" using assms(2) by simp
  from i2c_read_bytes_logged [OF r0 this] obtain s3 where s3: "l4 = (l @ p3) @ s3"
    "length s3 \<le> unat len * (I2C_TIMEOUT + 2)" "length b = length buf"
    "writes s3 = [] \<or> writes s3 = i2c_cleared"
    "ok3 \<longrightarrow> writes s3 = [] \<and> length (reads_of I2C1_RXDR s3) = unat len
      \<and> b = take 0 buf @ map ucast (reads_of I2C1_RXDR s3) @ drop (0 + unat len) buf" by blast
  note r = r0 [unfolded s3(1)] s3(2-3) mp [OF s3(5)]
  obtain ok4 h5 s4 where w4: "wait_flag (logged hw) I2C_ISR_STOPF (h4, l @ p3 @ s3) = (ok4, (h5, (l @ p3 @ s3) @ s4))" "waited I2C_ISR_STOPF ok4 s4"
    by (rule wait_flag_runs)
  have run: "obsw_i2c1_read_regs (logged hw) addr7 reg (Some buf) len (h, l) =
      (if \<not> ok1 then (False, Some buf, (h2, l @ p1 @ s1)) else if \<not> ok2 then (False, Some buf, (h3, l @ p2 @ s2))
       else if \<not> ok3 then (False, Some b, (h4, l @ p3 @ s3)) else if \<not> ok4 then (False, Some b, (h5, l @ p3 @ s3 @ s4))
       else (True, Some b, (mm_write hw I2C1_ICR I2C_ICR_STOPCF h5, l @ p3 @ s3 @ s4 @ [Wr I2C1_ICR I2C_ICR_STOPCF])))"
    using False w1(1) w2(1) r(1) w4(1)
    unfolding obsw_i2c1_read_regs_def Let_def f(1) p1_def p2_def p3_def h1'_def h2'_def h3'_def by simp
  note len = waited_length [OF w1(2)] waited_length [OF w2(2)] waited_length [OF w4(2)]
  have p1: "writes p1 = take 2 (i2c_read_writes addr7 reg len)" "reads_of I2C1_RXDR p1 = []" "length p1 \<le> I2C_TIMEOUT + 2"
    using f(2) by (simp_all add: p1_def i2c_read_writes_def)
  have p2: "writes p2 = take 3 (i2c_read_writes addr7 reg len)" "reads_of I2C1_RXDR p2 = []" "length p2 \<le> 2 * I2C_TIMEOUT + 3" if ok1
    using p1 waited_ok [of I2C_ISR_TXIS s1] w1(2) that by (simp_all add: p2_def i2c_read_writes_def)
  have p3: "writes p3 = take 4 (i2c_read_writes addr7 reg len)" "reads_of I2C1_RXDR p3 = []" "length p3 \<le> 3 * I2C_TIMEOUT + 4" if ok1 ok2
    using p2 waited_ok [of I2C_ISR_TC s2] w2(2) that by (simp_all add: p3_def i2c_read_writes_def)
  define N where "N = (unat len + 4) * (I2C_TIMEOUT + 2)"
  have N: "n \<le> N" if "n \<le> 4 * I2C_TIMEOUT + 8 + length s3" for n
    using that r(2) by (simp add: N_def algebra_simps)
  let ?W = "i2c_read_writes addr7 reg len"
  have W: "length ?W = 5" by (simp add: i2c_read_writes_def)
  consider "\<not> ok1" | "ok1" "\<not> ok2" | "ok1" "ok2" "\<not> ok3" | "ok1" "ok2" "ok3" "\<not> ok4" | "ok1" "ok2" "ok3" "ok4" by blast
  then show thesis
  proof cases
    case 1
    have "length (p1 @ s1) \<le> N" by (rule N) (use p1(3) len in simp)
    moreover have "broken_off ?W (writes (p1 @ s1))" using waited_failed [OF waited_writes [OF w1(2)], of p1 2 ?W] p1 W by simp
    ultimately show thesis using 1 assms(1) unfolding run by (intro that [of "p1 @ s1" buf]) (simp_all add: N_def)
  next
    case 2
    have "length (p2 @ s2) \<le> N" by (rule N) (use p2(3) 2 len in simp)
    moreover have "broken_off ?W (writes (p2 @ s2))" using waited_failed [OF waited_writes [OF w2(2)], of p2 3 ?W] p2 2 W by simp
    ultimately show thesis using 2 assms(1) unfolding run by (intro that [of "p2 @ s2" buf]) (simp_all add: N_def)
  next
    case 3
    have "length (p3 @ s3) \<le> N" by (rule N) (use p3(3) 3 in simp)
    moreover have "broken_off ?W (writes (p3 @ s3))" using waited_failed [OF s3(4), of p3 4 ?W] p3 3 W by simp
    ultimately show thesis using 3 assms(1) r(3) unfolding run by (intro that [of "p3 @ s3" b]) (simp_all add: N_def)
  next
    case 4
    have "length (p3 @ s3 @ s4) \<le> N" by (rule N) (use p3(3) 4 len in simp)
    moreover have "writes (p3 @ s3) = take 4 ?W" using p3 4 r(4) by simp
    then have "broken_off ?W (writes (p3 @ s3 @ s4))" using waited_failed [OF waited_writes [OF w4(2)], of "p3 @ s3" 4 ?W] W by simp
    ultimately show thesis using 4 assms(1) r(3) unfolding run by (intro that [of "p3 @ s3 @ s4" b]) (simp_all add: N_def)
  next
    case 5
    let ?seg = "p3 @ s3 @ s4 @ [Wr I2C1_ICR I2C_ICR_STOPCF]"
    have "waited I2C_ISR_STOPF True s4" using w4(2) 5 by simp
    note s4 = waited_ok [OF this]
    have "length ?seg \<le> N" by (rule N) (use p3(3) 5 s4 in simp)
    moreover have "writes ?seg = i2c_read_writes addr7 reg len" "reads_of I2C1_RXDR ?seg = reads_of I2C1_RXDR s3"
      using 5 p3(1,2) r(4) s4 by (simp_all add: i2c_read_writes_def)
    moreover have "ok = True" "buf' = Some b" "l' = l @ ?seg"
      using 5 assms(1) unfolding run by simp_all
    ultimately show thesis
      using 5 r(3,4) by (intro that [of ?seg b]) (simp_all add: N_def)
  qed
qed

end
