(* ===== verification/Mag_Bus.thy ===== *)
theory Mag_Bus
  imports I2c Qmc5883l
begin

section \<open>The magnetometer on its bus\<close>

text \<open>
  The magnetometer driver takes the two bus transactions as arguments; on the STM32H7 board
  they are those of the I2C driver.  The buffers are local variables whose first contents
  no result depends on.
\<close>

definition bus_write_reg :: "'h mmio \<Rightarrow> 'h i2c_write" where
  "bus_write_reg hw = obsw_i2c1_write_reg hw"

definition bus_read_regs :: "'h mmio \<Rightarrow> 'h i2c_read" where
  "bus_read_regs hw addr reg n i =
    (case obsw_i2c1_read_regs hw addr reg (Some (replicate n 0)) (of_nat n) i of
       (ok, b, i1) \<Rightarrow> (if ok then b else None, i1))"

lemma bus_read_logged:
  assumes "bus_read_regs (logged hw) addr reg n (h, l) = (r, (h', l'))" "n < 256"
  obtains seg where "l' = l @ seg" "length seg \<le> (n + 4) * (I2C_TIMEOUT + 2)"
    "\<And>bs. r = Some bs \<Longrightarrow> writes seg = i2c_read_writes addr reg (of_nat n) \<and> bs = map ucast (reads_of I2C1_RXDR seg) \<and> length bs = n"
    "r = None \<Longrightarrow> broken_off (i2c_read_writes addr reg (of_nat n)) (writes seg)"
proof -
  obtain ok b where r: "obsw_i2c1_read_regs (logged hw) addr reg (Some (replicate n 0)) (of_nat n) (h, l) = (ok, b, (h', l'))"
      "r = (if ok then b else None)"
    using assms(1) by (auto simp: bus_read_regs_def split: prod.splits)
  have n: "unat (of_nat n :: u8) = n" using assms(2) by (simp add: unat_of_nat)
  have "unat (of_nat n :: u8) \<le> length (replicate n (0 :: u8))" using n by simp
  from i2c_read_logged [OF r(1) this] obtain seg b' where seg: "l' = l @ seg" "length seg \<le> (n + 4) * (I2C_TIMEOUT + 2)" "b = Some b'"
      "ok \<Longrightarrow> writes seg = i2c_read_writes addr reg (of_nat n) \<and> length (reads_of I2C1_RXDR seg) = n
        \<and> b' = map ucast (reads_of I2C1_RXDR seg) @ drop n (replicate n 0)"
      "\<not> ok \<Longrightarrow> broken_off (i2c_read_writes addr reg (of_nat n)) (writes seg)"
    unfolding n by blast
  show thesis using seg r(2) by (intro that [of seg]) (auto split: if_splits)
qed

text \<open>
  C29: A magnetometer sample is what the device sent.  Whatever the bus does, reading a sample
  ends after at most 1500030 accesses to the I2C controller; a sample that is reported was
  read by exactly two complete bus transactions, one for the status register, whose ready bit
  was set, and one for the six data registers, and consists of the bytes received in them;
  otherwise the field is left as it was.
\<close>

theorem mag_sample_from_bus:
  assumes "obsw_qmc5883l_read (bus_read_regs (logged hw)) b (h, []) = (ok, b', (h', l))"
  shows "length l \<le> 1500030 \<and> (if ok then
      writes l = i2c_read_writes 0x0D 0x06 1 @ i2c_read_writes 0x0D 0x00 6
      \<and> (\<exists>st x0 x1 y0 y1 z0 z1. map ucast (reads_of I2C1_RXDR l) = [st, x0, x1, y0, y1, z0, z1]
          \<and> st AND 1 \<noteq> 0 \<and> b' = Vec3 (qmc_axis x1 x0) (qmc_axis y1 y0) (qmc_axis z1 z0))
    else b' = b)"
proof -
  obtain r1 h1 l1 where t1: "bus_read_regs (logged hw) QMC_ADDR QMC_REG_STAT 1 (h, []) = (r1, (h1, l1))" by (metis prod.exhaust)
  obtain s1 where s1: "l1 = [] @ s1" "length s1 \<le> (1 + 4) * (I2C_TIMEOUT + 2)"
      "\<And>bs. r1 = Some bs \<Longrightarrow> writes s1 = i2c_read_writes QMC_ADDR QMC_REG_STAT (of_nat 1) \<and> bs = map ucast (reads_of I2C1_RXDR s1) \<and> length bs = 1"
    by (rule bus_read_logged [OF t1]) simp_all
  obtain r2 h2 l2 where t2: "bus_read_regs (logged hw) QMC_ADDR QMC_REG_DATA 6 (h1, l1) = (r2, (h2, l2))" by (metis prod.exhaust)
  obtain s2 where s2: "l2 = l1 @ s2" "length s2 \<le> (6 + 4) * (I2C_TIMEOUT + 2)"
      "\<And>bs. r2 = Some bs \<Longrightarrow> writes s2 = i2c_read_writes QMC_ADDR QMC_REG_DATA (of_nat 6) \<and> bs = map ucast (reads_of I2C1_RXDR s2) \<and> length bs = 6"
    by (rule bus_read_logged [OF t2]) simp_all
  note run = assms [unfolded obsw_qmc5883l_read_def t1 prod.case t2]
  consider (st) "r1 = None \<or> (\<exists>st. r1 = Some st \<and> st ! 0 AND 1 = 0)"
    | (data) st where "r1 = Some st" "st ! 0 AND 1 \<noteq> 0" "r2 = None"
    | (full) st raw where "r1 = Some st" "st ! 0 AND 1 \<noteq> 0" "r2 = Some raw"
    by (metis option.exhaust)
  then show ?thesis
  proof cases
    case st
    then have "ok = False" "b' = b" "l = l1" using run by (auto split: option.splits)
    then show ?thesis using s1(1,2) by (simp add: I2C_TIMEOUT_def)
  next
    case data
    then have "ok = False" "b' = b" "l = l2" using run by simp_all
    then show ?thesis using s1(1,2) s2(1,2) by (simp add: I2C_TIMEOUT_def)
  next
    case full
    then have r: "ok" "l = l2" "b' = Vec3 (qmc_axis (raw ! 1) (raw ! 0)) (qmc_axis (raw ! 3) (raw ! 2)) (qmc_axis (raw ! 5) (raw ! 4))"
      using run by simp_all
    note f1 = s1(3) [OF full(1)] and f2 = s2(3) [OF full(3)]
    have "length st = 1" "length raw = 6" using f1 f2 by blast+
    then obtain s a0 a1 a2 a3 a4 a5 where bytes: "st = [s]" "raw = [a0, a1, a2, a3, a4, a5]"
      by (auto simp: length_Suc_conv numeral_eq_Suc)
    have "map ucast (reads_of I2C1_RXDR s1) = [s]" "map ucast (reads_of I2C1_RXDR s2) = [a0, a1, a2, a3, a4, a5]"
      using f1 f2 unfolding bytes by simp_all
    then have "map ucast (reads_of I2C1_RXDR l) = [s, a0, a1, a2, a3, a4, a5]"
      unfolding r(2) s1(1) s2(1) by simp
    moreover have "s AND 1 \<noteq> 0" "b' = Vec3 (qmc_axis a1 a0) (qmc_axis a3 a2) (qmc_axis a5 a4)"
      using r(3) full(2) unfolding bytes by simp_all
    moreover have "writes l = i2c_read_writes 0x0D 0x06 1 @ i2c_read_writes 0x0D 0x00 6"
      using f1 f2 unfolding r(2) s1(1) s2(1) by simp
    moreover have "length l \<le> 1500030" using s1(2) s2(2) unfolding r(2) s1(1) s2(1) by (simp add: I2C_TIMEOUT_def)
    ultimately show ?thesis using r(1) by (simp only: if_True) blast
  qed
qed

text \<open>A device that is always ready and sends ones.\<close>

definition mag_ready :: "unit mmio" where
  "mag_ready = \<lparr>mm_read = \<lambda>a h. (if a = I2C1_ISR then 0x66 else 1, h), mm_write = \<lambda>a v h. h\<rparr>"

lemma mag_ready_simps:
  "mm_read mag_ready I2C1_ISR h = (0x66, h)" "mm_read mag_ready I2C1_RXDR h = (1, h)" "mm_write mag_ready a v h = h"
  by (simp_all add: mag_ready_def)

lemma mag_ready_waits:
  assumes "flag \<in> {I2C_ISR_TXIS, I2C_ISR_RXNE, I2C_ISR_STOPF, I2C_ISR_TC}"
  shows "wait_flag (logged mag_ready) flag (h, l) = (True, (h, l @ [Rd I2C1_ISR 0x66]))"
proof -
  obtain t where t: "I2C_TIMEOUT = Suc t" by (cases I2C_TIMEOUT) (simp_all add: I2C_TIMEOUT_def)
  show ?thesis
    using assms unfolding wait_flag_def t by (auto simp: mag_ready_simps I2C_ISR_TXIS_def I2C_ISR_RXNE_def I2C_ISR_STOPF_def
        I2C_ISR_TC_def I2C_ISR_NACKF_def)
qed

lemma mag_ready_free: "wait_free (logged mag_ready) I2C_TIMEOUT (h, l) = (h, l @ [Rd I2C1_ISR 0x66])"
proof -
  obtain t where t: "I2C_TIMEOUT = Suc t" by (cases I2C_TIMEOUT) (simp_all add: I2C_TIMEOUT_def)
  show ?thesis unfolding t by (simp add: mag_ready_simps I2C_ISR_BUSY_def)
qed

lemma i2c_read_bytes_numeral:
  "i2c_read_bytes hw (numeral k) i buf h =
    (case wait_flag hw I2C_ISR_RXNE h of (ok, h1) \<Rightarrow>
       if \<not> ok then (False, buf, h1)
       else case mm_read hw I2C1_RXDR h1 of (x, h2) \<Rightarrow> i2c_read_bytes hw (pred_numeral k) (i + 1) (buf[i := ucast x]) h2)"
  by (simp add: numeral_eq_Suc)

lemma mag_sample_from_bus_witness:
  "\<exists>h l. obsw_qmc5883l_read (bus_read_regs (logged mag_ready)) (Vec3 0 0 0) ((), [])
      = (True, Vec3 (qmc_axis 1 1) (qmc_axis 1 1) (qmc_axis 1 1), (h, l))
    \<and> length l \<le> 1500030 \<and> writes l = i2c_read_writes 0x0D 0x06 1 @ i2c_read_writes 0x0D 0x00 6"
proof -
  have six: "replicate 6 (0 :: u8) = [0, 0, 0, 0, 0, 0]"
    by (simp add: numeral_eq_Suc)
  obtain h l where r: "obsw_qmc5883l_read (bus_read_regs (logged mag_ready)) (Vec3 0 0 0) ((), [])
      = (True, Vec3 (qmc_axis 1 1) (qmc_axis 1 1) (qmc_axis 1 1), (h, l))"
    by (simp add: obsw_qmc5883l_read_def bus_read_regs_def obsw_i2c1_read_regs_def Let_def mag_ready_waits mag_ready_free
        mag_ready_simps six i2c_read_bytes_numeral)
  from mag_sample_from_bus [OF r] r show ?thesis by auto
qed

subsection \<open>The set-up\<close>

text \<open>What a transaction with that outcome has done.\<close>

definition bus_wrote :: "u8 \<Rightarrow> u8 \<Rightarrow> u8 \<Rightarrow> bool \<Rightarrow> access list \<Rightarrow> bool" where
  "bus_wrote addr reg v ok seg \<longleftrightarrow>
    (if ok then writes seg = i2c_write_writes addr reg v \<and> reads_of I2C1_RXDR seg = []
     else broken_off (i2c_write_writes addr reg v) (writes seg))"

definition bus_got :: "u8 \<Rightarrow> u8 \<Rightarrow> nat \<Rightarrow> u8 list option \<Rightarrow> access list \<Rightarrow> bool" where
  "bus_got addr reg n r seg \<longleftrightarrow>
    (case r of None \<Rightarrow> broken_off (i2c_read_writes addr reg (of_nat n)) (writes seg)
     | Some bs \<Rightarrow> writes seg = i2c_read_writes addr reg (of_nat n) \<and> bs = map ucast (reads_of I2C1_RXDR seg) \<and> length bs = n)"

lemma bus_write_runs:
  obtains ok h' seg where "bus_write_reg (logged hw) addr reg v (h, l) = (ok, (h', l @ seg))" "length seg \<le> 4 * I2C_TIMEOUT + 6"
    "bus_wrote addr reg v ok seg"
proof -
  obtain ok h' l' where w: "bus_write_reg (logged hw) addr reg v (h, l) = (ok, (h', l'))" by (metis prod.exhaust)
  from i2c_write_logged [OF w [unfolded bus_write_reg_def]] w that show thesis unfolding bus_wrote_def by metis
qed

lemma bus_read_runs:
  assumes "n < 256"
  obtains r h' seg where "bus_read_regs (logged hw) addr reg n (h, l) = (r, (h', l @ seg))" "length seg \<le> (n + 4) * (I2C_TIMEOUT + 2)"
    "bus_got addr reg n r seg"
proof -
  obtain r h' l' where w: "bus_read_regs (logged hw) addr reg n (h, l) = (r, (h', l'))" by (metis prod.exhaust)
  obtain seg where seg: "l' = l @ seg" "length seg \<le> (n + 4) * (I2C_TIMEOUT + 2)"
    "\<And>bs. r = Some bs \<Longrightarrow> writes seg = i2c_read_writes addr reg (of_nat n) \<and> bs = map ucast (reads_of I2C1_RXDR seg) \<and> length bs = n"
    "r = None \<Longrightarrow> broken_off (i2c_read_writes addr reg (of_nat n)) (writes seg)"
    using w assms by (rule bus_read_logged) blast
  show thesis using seg by (intro that [of r h' seg] w [unfolded seg(1)]) (auto simp: bus_got_def split: option.split)
qed

text \<open>The writes of a complete set-up: reset, chip identity, set/reset period, normal operation, continuous mode.\<close>

definition mag_init_writes :: "(u32 \<times> u32) list" where
  "mag_init_writes = i2c_write_writes 0x0D 0x0A 0x80 @ i2c_read_writes 0x0D 0x0D 1 @ i2c_write_writes 0x0D 0x0B 0x01
     @ i2c_write_writes 0x0D 0x0A 0x00 @ i2c_write_writes 0x0D 0x09 0x01"

lemma bus_got_one: "bus_got addr reg 1 (Some bs) seg \<Longrightarrow> map ucast (reads_of I2C1_RXDR seg) = [bs ! 0]"
  by (auto simp: bus_got_def length_Suc_conv)

lemma mag_init_wrong_id:
  "broken_off mag_init_writes (i2c_write_writes 0x0D 0x0A 0x80 @ i2c_read_writes 0x0D 0x0D 1)"
  using broken_off_now [of "i2c_write_writes 0x0D 0x0B 0x01 @ i2c_write_writes 0x0D 0x0A 0x00 @ i2c_write_writes 0x0D 0x09 0x01"
      "i2c_write_writes 0x0D 0x0A 0x80 @ i2c_read_writes 0x0D 0x0D 1"]
  by (simp add: mag_init_writes_def i2c_write_writes_def)

text \<open>A set-up as the five transactions it may get to, on consecutive parts of the log.\<close>

lemma mag_init_parts:
  assumes "obsw_qmc5883l_init (bus_write_reg (logged hw)) (bus_read_regs (logged hw)) (h, []) = (ok, (h', l))"
  obtains ok1 s1 r s2 ok3 s3 ok4 s4 ok5 s5 where
    "(ok, l) = (if \<not> ok1 then (False, s1) else case r of None \<Rightarrow> (False, s1 @ s2)
      | Some bs \<Rightarrow> if bs ! 0 \<noteq> 0xFF then (False, s1 @ s2) else if \<not> ok3 then (False, s1 @ s2 @ s3)
        else if \<not> ok4 then (False, s1 @ s2 @ s3 @ s4) else (ok5, s1 @ s2 @ s3 @ s4 @ s5))"
    and "length (s1 @ s2 @ s3 @ s4 @ s5) \<le> 2100034"
    and "bus_wrote QMC_ADDR QMC_REG_CTRL2 0x80 ok1 s1"
    and "bus_got QMC_ADDR QMC_REG_ID 1 r s2"
    and "bus_wrote QMC_ADDR QMC_REG_SETRST 0x01 ok3 s3"
    and "bus_wrote QMC_ADDR QMC_REG_CTRL2 0x00 ok4 s4"
    and "bus_wrote QMC_ADDR QMC_REG_CTRL1 0x01 ok5 s5"
proof -
  obtain ok1 h1 s1 where w1: "bus_write_reg (logged hw) QMC_ADDR QMC_REG_CTRL2 0x80 (h, []) = (ok1, (h1, [] @ s1))" "length s1 \<le> 4 * I2C_TIMEOUT + 6"
    "bus_wrote QMC_ADDR QMC_REG_CTRL2 0x80 ok1 s1"
    by (rule bus_write_runs)
  obtain r h2 s2 where w2: "bus_read_regs (logged hw) QMC_ADDR QMC_REG_ID 1 (h1, [] @ s1) = (r, (h2, ([] @ s1) @ s2))" "length s2 \<le> (1 + 4) * (I2C_TIMEOUT + 2)"
    "bus_got QMC_ADDR QMC_REG_ID 1 r s2"
    by (rule bus_read_runs [of 1]) simp
  obtain ok3 h3 s3 where w3: "bus_write_reg (logged hw) QMC_ADDR QMC_REG_SETRST 0x01 (h2, (([] @ s1) @ s2)) = (ok3, (h3, (([] @ s1) @ s2) @ s3))" "length s3 \<le> 4 * I2C_TIMEOUT + 6"
    "bus_wrote QMC_ADDR QMC_REG_SETRST 0x01 ok3 s3"
    by (rule bus_write_runs)
  obtain ok4 h4 s4 where w4: "bus_write_reg (logged hw) QMC_ADDR QMC_REG_CTRL2 0x00 (h3, ((([] @ s1) @ s2) @ s3)) = (ok4, (h4, ((([] @ s1) @ s2) @ s3) @ s4))" "length s4 \<le> 4 * I2C_TIMEOUT + 6"
    "bus_wrote QMC_ADDR QMC_REG_CTRL2 0x00 ok4 s4"
    by (rule bus_write_runs)
  obtain ok5 h5 s5 where w5: "bus_write_reg (logged hw) QMC_ADDR QMC_REG_CTRL1 0x01 (h4, (((([] @ s1) @ s2) @ s3) @ s4)) = (ok5, (h5, (((([] @ s1) @ s2) @ s3) @ s4) @ s5))" "length s5 \<le> 4 * I2C_TIMEOUT + 6"
    "bus_wrote QMC_ADDR QMC_REG_CTRL1 0x01 ok5 s5"
    by (rule bus_write_runs)
  note run = assms [unfolded obsw_qmc5883l_init_def w1(1) w2(1) w3(1) w4(1) w5(1) prod.case]
  have e: "(ok, l) = (if \<not> ok1 then (False, s1) else case r of None \<Rightarrow> (False, s1 @ s2)
      | Some bs \<Rightarrow> if bs ! 0 \<noteq> 0xFF then (False, s1 @ s2) else if \<not> ok3 then (False, s1 @ s2 @ s3)
        else if \<not> ok4 then (False, s1 @ s2 @ s3 @ s4) else (ok5, s1 @ s2 @ s3 @ s4 @ s5))"
    using run by (auto split: option.split)
  have len: "length (s1 @ s2 @ s3 @ s4 @ s5) \<le> 2100034"
    using w1(2) w2(2) w3(2) w4(2) w5(2) by (simp add: I2C_TIMEOUT_def)
  show thesis
    by (rule that) (fact e len w1(3) w2(3) w3(3) w4(3) w5(3))+
qed

text \<open>
  C28: The set-up of the magnetometer tells whether it worked.  Whatever the bus does, it ends
  after at most 2100034 accesses to the I2C controller.  If it reports success, the accesses
  wrote exactly the five complete transactions of the set-up, and the identity received was
  that of the chip; if it reports failure, it broke off at the first transaction that failed:
  a beginning of those writes, and nothing after it but the clearing of the flags.
\<close>

theorem mag_init_outcome:
  assumes "obsw_qmc5883l_init (bus_write_reg (logged hw)) (bus_read_regs (logged hw)) (h, []) = (ok, (h', l))"
  shows "length l \<le> 2100034 \<and> (if ok then writes l = mag_init_writes \<and> map ucast (reads_of I2C1_RXDR l) = [0xFF :: u8]
    else broken_off mag_init_writes (writes l))"
proof -
  obtain ok1 s1 r s2 ok3 s3 ok4 s4 ok5 s5 where run: "(ok, l) = (if \<not> ok1 then (False, s1)
      else case r of None \<Rightarrow> (False, s1 @ s2)
      | Some bs \<Rightarrow> if bs ! 0 \<noteq> 0xFF then (False, s1 @ s2) else if \<not> ok3 then (False, s1 @ s2 @ s3)
        else if \<not> ok4 then (False, s1 @ s2 @ s3 @ s4) else (ok5, s1 @ s2 @ s3 @ s4 @ s5))"
    and len: "length (s1 @ s2 @ s3 @ s4 @ s5) \<le> 2100034"
    and w: "bus_wrote QMC_ADDR QMC_REG_CTRL2 0x80 ok1 s1"
    "bus_got QMC_ADDR QMC_REG_ID 1 r s2"
    "bus_wrote QMC_ADDR QMC_REG_SETRST 0x01 ok3 s3"
    "bus_wrote QMC_ADDR QMC_REG_CTRL2 0x00 ok4 s4"
    "bus_wrote QMC_ADDR QMC_REG_CTRL1 0x01 ok5 s5"
    by (rule mag_init_parts [OF assms])
  note got = w(2) and w = w [unfolded bus_wrote_def bus_got_def]
  let ?w1 = "i2c_write_writes 0x0D 0x0A 0x80" and ?w2 = "i2c_read_writes 0x0D 0x0D 1" and ?w3 = "i2c_write_writes 0x0D 0x0B 0x01"
    and ?w4 = "i2c_write_writes 0x0D 0x0A 0x00"
  have bo: "broken_off mag_init_writes (w @ ws)" if "broken_off v ws" "mag_init_writes = w @ v @ w'" for v w w' ws
    unfolding that(2) by (intro broken_off_earlier broken_off_later that(1))
  consider (a) "\<not> ok1" | (b) "ok1" "r = None" | (id) bs where "ok1" "r = Some bs" "bs ! 0 \<noteq> 0xFF"
    | (c) bs where "ok1" "r = Some bs" "bs ! 0 = 0xFF" "\<not> ok3" | (d) bs where "ok1" "r = Some bs" "bs ! 0 = 0xFF" "ok3" "\<not> ok4"
    | (e) bs where "ok1" "r = Some bs" "bs ! 0 = 0xFF" "ok3" "ok4" "\<not> ok5"
    | (f) bs where "ok1" "r = Some bs" "bs ! 0 = 0xFF" "ok3" "ok4" "ok5" by (cases r) blast+
  then show ?thesis
  proof cases
    case a
    then show ?thesis using run w(1) bo [of ?w1 _ "[]"] len by (simp add: mag_init_writes_def)
  next
    case b
    then show ?thesis using run w(1) w(2) bo [of ?w2 _ ?w1] len by (simp add: mag_init_writes_def)
  next
    case id
    then show ?thesis using run w(1) w(2) mag_init_wrong_id len by simp
  next
    case c
    then show ?thesis using run w(1) w(2) w(3) bo [of ?w3 _ "?w1 @ ?w2"] len by (simp add: mag_init_writes_def)
  next
    case d
    then show ?thesis using run w(1) w(2) w(3) w(4) bo [of ?w4 _ "?w1 @ ?w2 @ ?w3"] len
      by (simp add: mag_init_writes_def)
  next
    case e
    then show ?thesis using run w(1) w(2) w(3) w(4) w(5) bo [of "i2c_write_writes 0x0D 0x09 0x01" _ "?w1 @ ?w2 @ ?w3 @ ?w4" "[]"] len
      by (simp add: mag_init_writes_def)
  next
    case f
    then have "map ucast (reads_of I2C1_RXDR s2) = [0xFF :: u8]" using got bus_got_one by metis
    then show ?thesis using f run w(1) w(2) w(3) w(4) w(5) len by (simp add: mag_init_writes_def)
  qed
qed

text \<open>On a bus that answers with ones the chip is not found.\<close>

lemma mag_init_outcome_witness:
  "\<exists>h l. obsw_qmc5883l_init (bus_write_reg (logged mag_ready)) (bus_read_regs (logged mag_ready)) ((), []) = (False, (h, l))
    \<and> length l \<le> 2100034 \<and> broken_off mag_init_writes (writes l)"
proof -
  have one: "replicate 1 (0 :: u8) = [0]" "unat (1 :: u8) = 1" "i2c_read_bytes hw 1 = i2c_read_bytes hw (Suc 0)" for hw :: "(unit \<times> access list) mmio"
    by simp_all
  obtain h l where r: "obsw_qmc5883l_init (bus_write_reg (logged mag_ready)) (bus_read_regs (logged mag_ready)) ((), []) = (False, (h, l))"
    by (simp add: obsw_qmc5883l_init_def bus_write_reg_def bus_read_regs_def obsw_i2c1_write_reg_def obsw_i2c1_read_regs_def Let_def
        mag_ready_waits mag_ready_free mag_ready_simps one)
  from mag_init_outcome [OF r] r show ?thesis by auto
qed

end
