(* ===== verification/Uart.thy ===== *)
theory Uart
  imports Mmio
begin

section \<open>The UART and SPI drivers of the boards\<close>

text \<open>
  \<^verbatim>\<open>src/hal/stm32h7/uart.c\<close>, \<^verbatim>\<open>src/hal/zynqmp/uart.c\<close> and \<^verbatim>\<open>src/hal/stm32h7/spi.c\<close>: the
  set-up of the three peripherals and the transfers, all of them polling loops.  The loops
  that wait for the hardware have no time-out, so their results are options; the read of the
  ZynqMP board takes what has arrived and is total.

  The lemmas show that a transfer ends when the hardware gets ready after finitely many polls
  each time, and that the bytes go to the data register in order, each only once the status
  register allowed it.
\<close>

subsection \<open>USART3 of the STM32H7 board\<close>

definition stm_RCC_AHB4ENR :: u32 where "stm_RCC_AHB4ENR = 0x58024400 + 0x0E0"
definition stm_RCC_APB1LENR :: u32 where "stm_RCC_APB1LENR = 0x58024400 + 0x0E8"
definition GPIOD_MODER :: u32 where "GPIOD_MODER = 0x58020C00 + 0x00"
definition GPIOD_OSPEEDR :: u32 where "GPIOD_OSPEEDR = 0x58020C00 + 0x08"
definition GPIOD_PUPDR :: u32 where "GPIOD_PUPDR = 0x58020C00 + 0x0C"
definition GPIOD_AFRH :: u32 where "GPIOD_AFRH = 0x58020C00 + 0x24"
definition USART3_CR1 :: u32 where "USART3_CR1 = 0x40004800 + 0x00"
definition USART3_CR2 :: u32 where "USART3_CR2 = 0x40004800 + 0x04"
definition USART3_CR3 :: u32 where "USART3_CR3 = 0x40004800 + 0x08"
definition USART3_BRR :: u32 where "USART3_BRR = 0x40004800 + 0x0C"
definition USART3_ISR :: u32 where "USART3_ISR = 0x40004800 + 0x1C"
definition USART3_RDR :: u32 where "USART3_RDR = 0x40004800 + 0x24"
definition USART3_TDR :: u32 where "USART3_TDR = 0x40004800 + 0x28"

definition usart_txe :: "u32 \<Rightarrow> bool" where "usart_txe isr \<longleftrightarrow> isr AND push_bit 7 1 \<noteq> 0"
definition usart_tc :: "u32 \<Rightarrow> bool" where "usart_tc isr \<longleftrightarrow> isr AND push_bit 6 1 \<noteq> 0"
definition usart_rxne :: "u32 \<Rightarrow> bool" where "usart_rxne isr \<longleftrightarrow> isr AND push_bit 5 1 \<noteq> 0"

definition stm_uart_init :: "'h mmio \<Rightarrow> 'h \<Rightarrow> 'h" where
  "stm_uart_init hw h =
    (let h = reg_or hw stm_RCC_AHB4ENR (push_bit 3 1) h;
         h = reg_or hw stm_RCC_APB1LENR (push_bit 18 1) h;
         h = reg_and hw GPIOD_MODER (NOT (push_bit 16 3 OR push_bit 18 3)) h;
         h = reg_or hw GPIOD_MODER (push_bit 16 2 OR push_bit 18 2) h;
         h = reg_or hw GPIOD_OSPEEDR (push_bit 16 3 OR push_bit 18 3) h;
         h = (case mm_read hw GPIOD_PUPDR h of (x, h1) \<Rightarrow>
                mm_write hw GPIOD_PUPDR ((x AND NOT (push_bit 18 3)) OR push_bit 18 1) h1);
         h = reg_and hw GPIOD_AFRH (NOT 0xFF) h;
         h = reg_or hw GPIOD_AFRH (push_bit 0 7 OR push_bit 4 7) h;
         h = mm_write hw USART3_CR1 0 h;
         h = mm_write hw USART3_CR2 0 h;
         h = mm_write hw USART3_CR3 0 h;
         h = mm_write hw USART3_BRR 556 h;
         h = mm_write hw USART3_CR1 (push_bit 29 1) h
     in reg_or hw USART3_CR1 (push_bit 3 1 OR push_bit 2 1 OR push_bit 0 1) h)"

definition stm_uart_write :: "'h mmio \<Rightarrow> u8 list \<Rightarrow> u16 \<Rightarrow> 'h \<Rightarrow> (int \<times> 'h) option" where
  "stm_uart_write hw buf len h =
    (case send_bytes hw USART3_ISR usart_txe USART3_TDR (take (unat len) buf) h of None \<Rightarrow> None
     | Some h1 \<Rightarrow> (case poll_until hw USART3_ISR usart_tc h1 of None \<Rightarrow> None
     | Some h2 \<Rightarrow> Some (uint len, h2)))"

definition stm_uart_read :: "'h mmio \<Rightarrow> u8 list \<Rightarrow> u16 \<Rightarrow> 'h \<Rightarrow> (int \<times> u8 list \<times> 'h) option" where
  "stm_uart_read hw buf len h =
    map_option (\<lambda>(buf, h). (uint len, buf, h)) 
      (receive_bytes hw USART3_ISR usart_rxne USART3_RDR (unat len) 0 buf h)"

subsection \<open>The Cadence UART of the ZynqMP board\<close>

abbreviation (input) ZYNQMP_UART_BASE :: u32 where "ZYNQMP_UART_BASE \<equiv> 0xFF000000"

definition XUARTPS_CR_OFFSET :: u32 where "XUARTPS_CR_OFFSET = 0x00"
definition XUARTPS_BAUDGEN_OFFSET :: u32 where "XUARTPS_BAUDGEN_OFFSET = 0x18"
definition XUARTPS_SR_OFFSET :: u32 where "XUARTPS_SR_OFFSET = 0x2C"
definition XUARTPS_FIFO_OFFSET :: u32 where "XUARTPS_FIFO_OFFSET = 0x30"
definition XUARTPS_BAUDDIV_OFFSET :: u32 where "XUARTPS_BAUDDIV_OFFSET = 0x34"

definition xuart_tx_free :: "u32 \<Rightarrow> bool" where "xuart_tx_free sr \<longleftrightarrow> sr AND 0x10 = 0"
definition xuart_rx_empty :: "u32 \<Rightarrow> bool" where "xuart_rx_empty sr \<longleftrightarrow> sr AND 0x02 \<noteq> 0"

definition uart_read_reg :: "'h mmio \<Rightarrow> u32 \<Rightarrow> 'h \<Rightarrow> u32 \<times> 'h" where
  "uart_read_reg hw off h = mm_read hw (ZYNQMP_UART_BASE + off) h"

definition uart_write_reg :: "'h mmio \<Rightarrow> u32 \<Rightarrow> u32 \<Rightarrow> 'h \<Rightarrow> 'h" where
  "uart_write_reg hw off val h = mm_write hw (ZYNQMP_UART_BASE + off) val h"

text \<open>In the build of the target, which defines \<open>ZYNQMP_UART_BAUD_INIT\<close>.\<close>

definition zynq_uart_init :: "'h mmio \<Rightarrow> 'h \<Rightarrow> 'h" where
  "zynq_uart_init hw h =
    (let h = uart_write_reg hw XUARTPS_CR_OFFSET (0x02 OR 0x01) h;
         h = uart_write_reg hw XUARTPS_CR_OFFSET (0x10 OR 0x04) h;
         h = uart_write_reg hw XUARTPS_BAUDDIV_OFFSET 6 h
     in uart_write_reg hw XUARTPS_BAUDGEN_OFFSET 62 h)"

definition uart_write_fn :: "'h mmio \<Rightarrow> u8 list \<Rightarrow> u16 \<Rightarrow> 'h \<Rightarrow> (int \<times> 'h) option" where
  "uart_write_fn hw buf len h =
    map_option (\<lambda>h. (uint len, h))
      (send_bytes hw (ZYNQMP_UART_BASE + XUARTPS_SR_OFFSET) xuart_tx_free (ZYNQMP_UART_BASE + XUARTPS_FIFO_OFFSET)
        (take (unat len) buf) h)"

primrec xuart_receive :: "'h mmio \<Rightarrow> nat \<Rightarrow> nat \<Rightarrow> u8 list \<Rightarrow> 'h \<Rightarrow> nat \<times> u8 list \<times> 'h" where
  "xuart_receive hw 0 n buf h = (n, buf, h)"
| "xuart_receive hw (Suc k) n buf h =
    (case uart_read_reg hw XUARTPS_SR_OFFSET h of (sr, h1) \<Rightarrow>
       if xuart_rx_empty sr then (n, buf, h1)
       else case uart_read_reg hw XUARTPS_FIFO_OFFSET h1 of (x, h2) \<Rightarrow>
         xuart_receive hw k (n + 1) (buf[n := ucast (x AND 0xFF)]) h2)"

definition uart_read_fn :: "'h mmio \<Rightarrow> u8 list \<Rightarrow> u16 \<Rightarrow> 'h \<Rightarrow> int \<times> u8 list \<times> 'h" where
  "uart_read_fn hw buf len h =
    (case xuart_receive hw (unat len) 0 buf h of (n, buf, h) \<Rightarrow> (int n, buf, h))"

text \<open>
  The reference implementation of the pipe protocol has its own driver for the same UART,
  \<^verbatim>\<open>contrib/svf_protocol/platform/zynqmp_uart.c\<close>.  Its read waits for every byte.
\<close>

definition svf_zynq_read :: "'h mmio \<Rightarrow> u8 list \<Rightarrow> u16 \<Rightarrow> 'h \<Rightarrow> (int \<times> u8 list \<times> 'h) option" where
  "svf_zynq_read hw buf len h =
    map_option (\<lambda>(buf, h). (0, buf, h))
      (receive_bytes hw (ZYNQMP_UART_BASE + XUARTPS_SR_OFFSET) (\<lambda>sr. \<not> xuart_rx_empty sr) (ZYNQMP_UART_BASE + XUARTPS_FIFO_OFFSET)
        (unat len) 0 buf h)"

definition svf_zynq_write :: "'h mmio \<Rightarrow> u8 list \<Rightarrow> u16 \<Rightarrow> 'h \<Rightarrow> (int \<times> 'h) option" where
  "svf_zynq_write hw buf len h =
    map_option (\<lambda>h. (0, h))
      (send_bytes hw (ZYNQMP_UART_BASE + XUARTPS_SR_OFFSET) xuart_tx_free (ZYNQMP_UART_BASE + XUARTPS_FIFO_OFFSET)
        (take (unat len) buf) h)"

definition svf_zynq_flush :: "'h \<Rightarrow> 'h" where
  "svf_zynq_flush h = h"

subsection \<open>SPI4 of the STM32H7 board\<close>

definition spi_RCC_APB2ENR :: u32 where "spi_RCC_APB2ENR = 0x58024400 + 0x0F0"
definition spi_RCC_APB2RSTR :: u32 where "spi_RCC_APB2RSTR = 0x58024400 + 0x098"
definition spi_GPIOE_MODER :: u32 where "spi_GPIOE_MODER = 0x58021000 + 0x00"
definition spi_GPIOE_OSPEEDR :: u32 where "spi_GPIOE_OSPEEDR = 0x58021000 + 0x08"
definition spi_GPIOE_AFRH :: u32 where "spi_GPIOE_AFRH = 0x58021000 + 0x24"
definition SPI4_CR1 :: u32 where "SPI4_CR1 = 0x40013400 + 0x00"
definition SPI4_CR2 :: u32 where "SPI4_CR2 = 0x40013400 + 0x04"
definition SPI4_CFG1 :: u32 where "SPI4_CFG1 = 0x40013400 + 0x08"
definition SPI4_CFG2 :: u32 where "SPI4_CFG2 = 0x40013400 + 0x0C"
definition SPI4_SR :: u32 where "SPI4_SR = 0x40013400 + 0x14"
definition SPI4_IFCR :: u32 where "SPI4_IFCR = 0x40013400 + 0x18"
definition SPI4_TXDR8 :: u32 where "SPI4_TXDR8 = 0x40013400 + 0x20"

definition spi_txp :: "u32 \<Rightarrow> bool" where "spi_txp sr \<longleftrightarrow> sr AND push_bit 1 1 \<noteq> 0"
definition spi_eot :: "u32 \<Rightarrow> bool" where "spi_eot sr \<longleftrightarrow> sr AND push_bit 3 1 \<noteq> 0"

definition SPI_IFCR_ALL :: u32 where "SPI_IFCR_ALL = 0x0FF8"
definition SPI_CR1_SPE :: u32 where "SPI_CR1_SPE = push_bit 0 1"
definition SPI_CR1_CSTART :: u32 where "SPI_CR1_CSTART = push_bit 9 1"
definition SPI_CR1_SSI :: u32 where "SPI_CR1_SSI = push_bit 12 1"

definition obsw_spi4_init :: "'h mmio \<Rightarrow> 'h \<Rightarrow> 'h" where
  "obsw_spi4_init hw h =
    (let h = reg_or hw stm_RCC_AHB4ENR (push_bit 4 1) h;
         h = reg_or hw spi_RCC_APB2ENR (push_bit 13 1) h;
         h = reg_or hw spi_RCC_APB2RSTR (push_bit 13 1) h;
         h = reg_and hw spi_RCC_APB2RSTR (NOT (push_bit 13 1)) h;
         h = reg_and hw spi_GPIOE_MODER (NOT (push_bit 24 3 OR push_bit 28 3)) h;
         h = reg_or hw spi_GPIOE_MODER (push_bit 24 2 OR push_bit 28 2) h;
         h = reg_or hw spi_GPIOE_OSPEEDR (push_bit 24 3 OR push_bit 28 3) h;
         h = reg_and hw spi_GPIOE_AFRH (NOT (push_bit 16 0xF OR push_bit 24 0xF)) h;
         h = reg_or hw spi_GPIOE_AFRH (push_bit 16 5 OR push_bit 24 5) h;
         h = mm_write hw SPI4_CFG1 (push_bit 0 7 OR push_bit 28 2) h;
         h = mm_write hw SPI4_CR1 SPI_CR1_SSI h;
         h = mm_write hw SPI4_CFG2 (push_bit 22 1 OR push_bit 26 1) h
     in mm_write hw SPI4_IFCR SPI_IFCR_ALL h)"

definition obsw_spi4_write :: "'h mmio \<Rightarrow> u8 list \<Rightarrow> u16 \<Rightarrow> 'h \<Rightarrow> 'h option" where
  "obsw_spi4_write hw buf len h =
    (if len = 0 then Some h
     else
       let h = mm_write hw SPI4_CR1 SPI_CR1_SSI h;
           h = mm_write hw SPI4_IFCR SPI_IFCR_ALL h;
           h = mm_write hw SPI4_CR2 (ucast len) h;
           h = reg_or hw SPI4_CR1 SPI_CR1_SPE h;
           h = mm_write hw SPI4_TXDR8 (ucast (buf ! 0)) h;
           h = reg_or hw SPI4_CR1 SPI_CR1_CSTART h
       in case send_bytes hw SPI4_SR spi_txp SPI4_TXDR8 (drop 1 (take (unat len) buf)) h of None \<Rightarrow> None
          | Some h \<Rightarrow> (case poll_until hw SPI4_SR spi_eot h of None \<Rightarrow> None
          | Some h \<Rightarrow> Some (mm_write hw SPI4_CR1 SPI_CR1_SSI (mm_write hw SPI4_IFCR SPI_IFCR_ALL h))))"

definition obsw_spi4_write_byte :: "'h mmio \<Rightarrow> u8 \<Rightarrow> 'h \<Rightarrow> 'h option" where
  "obsw_spi4_write_byte hw byte h = obsw_spi4_write hw [byte] 1 h"

section \<open>The transfers\<close>

text \<open>The values written to a register.\<close>

definition written :: "u32 \<Rightarrow> access list \<Rightarrow> u32 list" where
  "written a l = map snd (filter (\<lambda>w. fst w = a) (writes l))"

text \<open>The bytes of a UART write reach the data register in order and at the right moment.\<close>

lemma stm_uart_write_sends:
  assumes "\<And>h. polls hw USART3_ISR usart_txe h" "\<And>h. polls hw USART3_ISR usart_tc h"
  obtains h' l' where "stm_uart_write (logged hw) buf len (h, l) = Some (uint len, (h', l @ l'))"
    "writes l' = map (\<lambda>b. (USART3_TDR, ucast b)) (take (unat len) buf)"
    "paced USART3_ISR usart_txe USART3_TDR False l'" "reads_of USART3_RDR l' = []"
proof -
  obtain h1 l1 where s: "send_bytes (logged hw) USART3_ISR usart_txe USART3_TDR (take (unat len) buf) (h, l) = Some (h1, l @ l1)"
    "writes l1 = map (\<lambda>b. (USART3_TDR, ucast b)) (take (unat len) buf)" "\<forall>r. paced USART3_ISR usart_txe USART3_TDR r l1"
    "\<forall>a. a \<noteq> USART3_ISR \<longrightarrow> reads_of a l1 = []"
    by (rule send_bytes_logged [OF assms(1)])
  obtain h2 xs x where p: "poll_until (logged hw) USART3_ISR usart_tc (h1, l @ l1) = Some (h2, (l @ l1) @ map (Rd USART3_ISR) (xs @ [x]))"
    by (rule poll_logged [OF assms(2)])
  have "paced st rdy tx r (l1 @ map (Rd a) ys) \<longleftrightarrow> paced st rdy tx r l1" for st rdy tx r a ys
  proof (induction l1 arbitrary: r rule: writes.induct)
    case 1
    then show ?case using paced_reads [of st rdy tx r a ys "[]"] by simp
  qed simp_all
  moreover have "USART3_RDR \<noteq> USART3_ISR" by (simp add: USART3_ISR_def USART3_RDR_def)
  ultimately show thesis
    using s p by (intro that [of h2 "l1 @ map (Rd USART3_ISR) (xs @ [x])"])
      (simp_all add: stm_uart_write_def del: map_append)
qed

lemma zynq_uart_write_sends:
  assumes "\<And>h. polls hw (ZYNQMP_UART_BASE + XUARTPS_SR_OFFSET) xuart_tx_free h"
  obtains h' l' where "uart_write_fn (logged hw) buf len (h, l) = Some (uint len, (h', l @ l'))"
    "writes l' = map (\<lambda>b. (ZYNQMP_UART_BASE + XUARTPS_FIFO_OFFSET, ucast b)) (take (unat len) buf)"
    "paced (ZYNQMP_UART_BASE + XUARTPS_SR_OFFSET) xuart_tx_free (ZYNQMP_UART_BASE + XUARTPS_FIFO_OFFSET) False l'"
proof -
  obtain h1 l1 where s: "send_bytes (logged hw) (ZYNQMP_UART_BASE + XUARTPS_SR_OFFSET) xuart_tx_free
      (ZYNQMP_UART_BASE + XUARTPS_FIFO_OFFSET) (take (unat len) buf) (h, l) = Some (h1, l @ l1)"
    "writes l1 = map (\<lambda>b. (ZYNQMP_UART_BASE + XUARTPS_FIFO_OFFSET, ucast b)) (take (unat len) buf)"
    "\<forall>r. paced (ZYNQMP_UART_BASE + XUARTPS_SR_OFFSET) xuart_tx_free (ZYNQMP_UART_BASE + XUARTPS_FIFO_OFFSET) r l1"
    by (rule send_bytes_logged [OF assms])
  then show thesis by (intro that [of h1 l1]) (simp_all add: uart_write_fn_def)
qed

text \<open>
  C30: The serial link of the STM32H7 board carries bytes faithfully.  When the controller gets
  ready after finitely many polls each time, a write returns and has put exactly the bytes of
  the buffer into the transmit register, in order, each one directly after a status that
  showed the register empty; and a read returns and fills the buffer with the low bytes of
  the values taken from the receive register, in order.
\<close>

theorem stm_uart_transfers:
  assumes "\<And>h. polls hw USART3_ISR usart_txe h" "\<And>h. polls hw USART3_ISR usart_tc h"
    "\<And>h. polls hw USART3_ISR usart_rxne h" "length buf = unat len"
  shows "(\<exists>h' l. stm_uart_write (logged hw) buf len (h, []) = Some (uint len, (h', l))
      \<and> writes l = map (\<lambda>b. (USART3_TDR, ucast b)) buf \<and> paced USART3_ISR usart_txe USART3_TDR False l)
    \<and> (\<exists>h' l. stm_uart_read (logged hw) buf len (h, [])
        = Some (uint len, map (\<lambda>x. ucast (x AND 0xFF)) (reads_of USART3_RDR l), (h', l))
      \<and> length (reads_of USART3_RDR l) = unat len \<and> writes l = [])"
proof
  show "\<exists>h' l. stm_uart_write (logged hw) buf len (h, []) = Some (uint len, (h', l))
      \<and> writes l = map (\<lambda>b. (USART3_TDR, ucast b)) buf \<and> paced USART3_ISR usart_txe USART3_TDR False l"
    using stm_uart_write_sends [OF assms(1,2), of buf len h "[]"] assms(4) by (metis append_Nil order_refl take_all)
  have "0 + unat len \<le> length buf" using assms(4) by simp
  moreover have "USART3_ISR \<noteq> USART3_RDR" by (simp add: USART3_ISR_def USART3_RDR_def)
  ultimately
  show "\<exists>h' l. stm_uart_read (logged hw) buf len (h, [])
        = Some (uint len, map (\<lambda>x. ucast (x AND 0xFF)) (reads_of USART3_RDR l), (h', l))
      \<and> length (reads_of USART3_RDR l) = unat len \<and> writes l = []"
    using assms(4) receive_bytes_logged [OF assms(3), of USART3_RDR 0 "unat len" buf h "[]"]
    by (auto simp: stm_uart_read_def)
qed

text \<open>A controller that needs one poll to get ready, and receives the letter A.\<close>

definition usart_slow :: "bool mmio" where
  "usart_slow = \<lparr>mm_read = \<lambda>a h. if a = USART3_ISR then (if h then 0xE0 else 0, \<not> h) else (0x141, h),
    mm_write = \<lambda>a v h. h\<rparr>"

lemma usart_slow_polls:
  assumes "p 0xE0"
  shows "polls usart_slow USART3_ISR p h"
proof (cases h)
  case True
  with assms have "p (fst (mm_read usart_slow USART3_ISR h))" by (simp add: usart_slow_def)
  then show ?thesis by (rule polls_now)
next
  case False
  with assms have "p (fst (mm_read usart_slow USART3_ISR (snd (mm_read usart_slow USART3_ISR h))))" by (simp add: usart_slow_def)
  then show ?thesis by (rule polls_later [OF polls_now])
qed

lemma stm_uart_transfers_witness:
  "(\<exists>h' l. stm_uart_write (logged usart_slow) [1, 2] 2 (False, []) = Some (2, (h', l))
      \<and> writes l = [(USART3_TDR, 1), (USART3_TDR, 2)])
    \<and> (\<exists>h' l bs. stm_uart_read (logged usart_slow) [1, 2] 2 (False, []) = Some (2, bs, (h', l)) \<and> length bs = 2)"
proof -
  have "polls usart_slow USART3_ISR usart_txe h" "polls usart_slow USART3_ISR usart_tc h" "polls usart_slow USART3_ISR usart_rxne h" for h
    by (intro usart_slow_polls; simp add: usart_txe_def usart_tc_def usart_rxne_def)+
  from stm_uart_transfers [OF this, of "[1, 2]" 2 False] show ?thesis by fastforce
qed

lemma xuart_receive_logged:
  assumes "i + n \<le> length buf"
  shows "\<exists>m h' l'. xuart_receive (logged hw) n i buf (h, l)
      = (i + m, take i buf @ map (\<lambda>x. ucast (x AND 0xFF)) (reads_of (ZYNQMP_UART_BASE + XUARTPS_FIFO_OFFSET) l')
          @ drop (i + m) buf, (h', l @ l'))
    \<and> length (reads_of (ZYNQMP_UART_BASE + XUARTPS_FIFO_OFFSET) l') = m \<and> m \<le> n \<and> writes l' = []
    \<and> (m < n \<longrightarrow> (\<exists>sr. l' \<noteq> [] \<and> last l' = Rd (ZYNQMP_UART_BASE + XUARTPS_SR_OFFSET) sr \<and> xuart_rx_empty sr))"
  using assms
proof (induction n arbitrary: i buf h l)
  case 0
  then show ?case by (intro exI [of _ 0] exI [of _ h] exI [of _ "[]"]) simp
next
  case (Suc n)
  let ?SR = "ZYNQMP_UART_BASE + XUARTPS_SR_OFFSET" and ?FIFO = "ZYNQMP_UART_BASE + XUARTPS_FIFO_OFFSET"
  define sr where "sr = fst (mm_read hw ?SR h)"
  define h1 where "h1 = snd (mm_read hw ?SR h)"
  have n: "?SR \<noteq> ?FIFO" by (simp add: XUARTPS_SR_OFFSET_def XUARTPS_FIFO_OFFSET_def)
  show ?case
  proof (cases "xuart_rx_empty sr")
    case True
    then have "xuart_receive (logged hw) (Suc n) i buf (h, l) = (i, buf, (h1, l @ [Rd ?SR sr]))"
      by (simp add: uart_read_reg_def sr_def h1_def)
    then show ?thesis using True n
      by (intro exI [of _ 0] exI [of _ h1] exI [of _ "[Rd ?SR sr]"]) simp
  next
    case False
    define v where "v = fst (mm_read hw ?FIFO h1)"
    define h2 where "h2 = snd (mm_read hw ?FIFO h1)"
    let ?buf = "buf[i := ucast (v AND 0xFF)]" and ?l = "[Rd ?SR sr, Rd ?FIFO v]"
    have "i + 1 + n \<le> length ?buf" using Suc.prems by simp
    from Suc.IH [OF this, of h2 "l @ ?l"] obtain m h' l' where
      r: "xuart_receive (logged hw) n (i + 1) ?buf (h2, l @ ?l)
        = (i + 1 + m, take (i + 1) ?buf @ map (\<lambda>x. ucast (x AND 0xFF)) (reads_of ?FIFO l') @ drop (i + 1 + m) ?buf, (h', (l @ ?l) @ l'))"
      "length (reads_of ?FIFO l') = m" "m \<le> n" "writes l' = []"
      "m < n \<longrightarrow> (\<exists>sr. l' \<noteq> [] \<and> last l' = Rd ?SR sr \<and> xuart_rx_empty sr)" by blast
    have t: "take (i + 1) ?buf = take i buf @ [ucast (v AND 0xFF)]"
      using Suc.prems by (simp add: take_Suc_conv_app_nth)
    have "xuart_receive (logged hw) (Suc n) i buf (h, l) = xuart_receive (logged hw) n (i + 1) ?buf (h2, l @ ?l)"
      using False by (simp add: uart_read_reg_def v_def sr_def h1_def h2_def)
    then have "xuart_receive (logged hw) (Suc n) i buf (h, l)
        = (i + Suc m, take i buf @ map (\<lambda>x. ucast (x AND 0xFF)) (reads_of ?FIFO (?l @ l')) @ drop (i + Suc m) buf, (h', l @ ?l @ l'))"
      using r(1) t n by simp
    then show ?thesis using r(2-5) n
      by (intro exI [of _ "Suc m"] exI [of _ h'] exI [of _ "?l @ l'"]) auto
  qed
qed

text \<open>The driver of the pipe protocol waits for as many bytes as it was asked for.\<close>

lemma svf_zynq_read_fills:
  assumes "\<And>h. polls hw (ZYNQMP_UART_BASE + XUARTPS_SR_OFFSET) (\<lambda>sr. \<not> xuart_rx_empty sr) h" "length buf = unat len"
  obtains h' l' where "svf_zynq_read (logged hw) buf len (h, l)
      = Some (0, map (\<lambda>x. ucast (x AND 0xFF)) (reads_of (ZYNQMP_UART_BASE + XUARTPS_FIFO_OFFSET) l'), (h', l @ l'))"
    "length (reads_of (ZYNQMP_UART_BASE + XUARTPS_FIFO_OFFSET) l') = unat len" "writes l' = []"
proof -
  have "ZYNQMP_UART_BASE + XUARTPS_SR_OFFSET \<noteq> ZYNQMP_UART_BASE + XUARTPS_FIFO_OFFSET"
    by (simp add: XUARTPS_SR_OFFSET_def XUARTPS_FIFO_OFFSET_def)
  from receive_bytes_logged [OF assms(1) this, of 0 "unat len" buf h l] that assms(2) show thesis
    by (auto simp: svf_zynq_read_def)
qed

text \<open>
  An SPI transfer to the display sends its buffer.  When the controller gets ready after
  finitely many polls each time, the transfer of a non-empty buffer returns; the transfer
  size is set before the controller is enabled, the data register receives exactly the bytes
  of the buffer, in order, and the last writes clear the flags and disable the controller.
\<close>

theorem spi_transfer_exact:
  assumes "\<And>h. polls hw SPI4_SR spi_txp h" "\<And>h. polls hw SPI4_SR spi_eot h" "length buf = unat len" "len \<noteq> 0"
  shows "\<exists>h' l cr1 cr1'. obsw_spi4_write (logged hw) buf len (h, []) = Some (h', l)
    \<and> writes l = [(SPI4_CR1, SPI_CR1_SSI), (SPI4_IFCR, SPI_IFCR_ALL), (SPI4_CR2, ucast len), (SPI4_CR1, cr1 OR SPI_CR1_SPE),
        (SPI4_TXDR8, ucast (hd buf)), (SPI4_CR1, cr1' OR SPI_CR1_CSTART)]
      @ map (\<lambda>b. (SPI4_TXDR8, ucast b)) (tl buf) @ [(SPI4_IFCR, SPI_IFCR_ALL), (SPI4_CR1, SPI_CR1_SSI)]
    \<and> written SPI4_TXDR8 l = map ucast buf"
proof -
  have ne: "buf \<noteq> []" using assms(3,4) by (auto simp: unat_eq_zero)
  define h3 where "h3 = mm_write hw SPI4_CR2 (ucast len) (mm_write hw SPI4_IFCR SPI_IFCR_ALL (mm_write hw SPI4_CR1 SPI_CR1_SSI h))"
  define c where "c = fst (mm_read hw SPI4_CR1 h3)"
  define h4 where "h4 = mm_write hw SPI4_TXDR8 (ucast (buf ! 0)) (mm_write hw SPI4_CR1 (c OR SPI_CR1_SPE) (snd (mm_read hw SPI4_CR1 h3)))"
  define c' where "c' = fst (mm_read hw SPI4_CR1 h4)"
  define h5 where "h5 = mm_write hw SPI4_CR1 (c' OR SPI_CR1_CSTART) (snd (mm_read hw SPI4_CR1 h4))"
  define l5 where "l5 = [Wr SPI4_CR1 SPI_CR1_SSI, Wr SPI4_IFCR SPI_IFCR_ALL, Wr SPI4_CR2 (ucast len), Rd SPI4_CR1 c,
    Wr SPI4_CR1 (c OR SPI_CR1_SPE), Wr SPI4_TXDR8 (ucast (buf ! 0)), Rd SPI4_CR1 c', Wr SPI4_CR1 (c' OR SPI_CR1_CSTART)]"
  obtain h6 l6 where s: "send_bytes (logged hw) SPI4_SR spi_txp SPI4_TXDR8 (tl buf) (h5, l5) = Some (h6, l5 @ l6)"
    "writes l6 = map (\<lambda>b. (SPI4_TXDR8, ucast b)) (tl buf)"
    by (rule send_bytes_logged [OF assms(1)])
  obtain h7 xs x where p: "poll_until (logged hw) SPI4_SR spi_eot (h6, l5 @ l6) = Some (h7, (l5 @ l6) @ map (Rd SPI4_SR) (xs @ [x]))"
    by (rule poll_logged [OF assms(2)])
  define l8 where "l8 = (l5 @ l6) @ map (Rd SPI4_SR) (xs @ [x]) @ [Wr SPI4_IFCR SPI_IFCR_ALL, Wr SPI4_CR1 SPI_CR1_SSI]"
  have run: "obsw_spi4_write (logged hw) buf len (h, []) = Some (mm_write hw SPI4_CR1 SPI_CR1_SSI (mm_write hw SPI4_IFCR SPI_IFCR_ALL h7), l8)"
    using s(1) p assms(3,4)
    by (simp add: obsw_spi4_write_def Let_def reg_or_def h3_def h4_def h5_def c_def c'_def l5_def l8_def drop_Suc)
  have regs: "SPI4_CR1 \<noteq> SPI4_TXDR8" "SPI4_IFCR \<noteq> SPI4_TXDR8" "SPI4_CR2 \<noteq> SPI4_TXDR8"
    by (simp_all add: SPI4_CR1_def SPI4_IFCR_def SPI4_CR2_def SPI4_TXDR8_def)
  have w: "writes l8 = [(SPI4_CR1, SPI_CR1_SSI), (SPI4_IFCR, SPI_IFCR_ALL), (SPI4_CR2, ucast len), (SPI4_CR1, c OR SPI_CR1_SPE),
        (SPI4_TXDR8, ucast (hd buf)), (SPI4_CR1, c' OR SPI_CR1_CSTART)]
      @ map (\<lambda>b. (SPI4_TXDR8, ucast b)) (tl buf) @ [(SPI4_IFCR, SPI_IFCR_ALL), (SPI4_CR1, SPI_CR1_SSI)]"
    using ne s(2) by (simp add: l8_def l5_def hd_conv_nth)
  have "(map ucast buf :: u32 list) = ucast (hd buf) # map ucast (tl buf)" using ne by (cases buf) simp_all
  then have "written SPI4_TXDR8 l8 = map ucast buf"
    using regs by (simp add: written_def w filter_map comp_def)
  with run w show ?thesis by blast
qed

text \<open>A controller that is always ready.\<close>

definition spi_ready :: "unit mmio" where
  "spi_ready = \<lparr>mm_read = \<lambda>a h. (0xA, h), mm_write = \<lambda>a v h. h\<rparr>"

lemma spi_transfer_exact_witness:
  "\<exists>h l. obsw_spi4_write (logged spi_ready) [0xF8, 0, 7] 3 ((), []) = Some (h, l) \<and> written SPI4_TXDR8 l = [0xF8, 0, 7]"
proof -
  have "polls spi_ready SPI4_SR spi_txp h" "polls spi_ready SPI4_SR spi_eot h" for h
    by (intro polls_now; simp add: spi_ready_def spi_txp_def spi_eot_def)+
  from spi_transfer_exact [OF this, of "[0xF8, 0, 7]" 3 "()"] show ?thesis by fastforce
qed

end
