(* ===== verification/Msp_Uart.thy ===== *)
theory Msp_Uart
  imports Mmio Tm_Store
begin

section \<open>The UART driver of the MSP430 board\<close>

text \<open>
  \<^verbatim>\<open>src/hal/msp430/uart.c\<close> in both of its builds.  On the hardware the driver polls the
  controller; in the emulator an interrupt puts each byte into a ring of 64 and the reader
  takes it from there.  The addresses and flags of the hardware build come from a header of
  the vendor, so the registers are an argument, and \<open>renode_uart\<close> is the set of them that the
  source spells out.

  The ring keeps the contract \<open>bounded_fifo\<close>.  The interrupt may strike between any two
  statements of the reader; the relation \<open>rx_step\<close> has these interleavings, and the property
  is that no accepted byte is lost, doubled or reordered in them.
\<close>

subsection \<open>The driver\<close>

record msp_uart =
  mu_rxbuf :: u32
  mu_txbuf :: u32
  mu_ie :: u32
  mu_ifg :: u32
  mu_txifg :: u32
  mu_rxifg :: u32

definition renode_uart :: msp_uart where
  "renode_uart = \<lparr>mu_rxbuf = 0x05C6, mu_txbuf = 0x05C7, mu_ie = 0x05D8, mu_ifg = 0x05DA, mu_txifg = 0x02, mu_rxifg = 0x01\<rparr>"

record rx_ring =
  rx_buf :: "u8 list"
  rx_head :: u16
  rx_tail :: u16

definition rx_next :: "u16 \<Rightarrow> u16" where
  "rx_next i = (i + 1) mod 64"

definition rx_push :: "u8 \<Rightarrow> rx_ring \<Rightarrow> rx_ring" where
  "rx_push b r =
    (if rx_next (rx_head r) \<noteq> rx_tail r
     then r\<lparr>rx_buf := (rx_buf r)[unat (rx_head r) := b], rx_head := rx_next (rx_head r)\<rparr> else r)"

definition rx_pop :: "rx_ring \<Rightarrow> (u8 \<times> rx_ring) option" where
  "rx_pop r =
    (if rx_tail r = rx_head r then None
     else Some (rx_buf r ! unat (rx_tail r), r\<lparr>rx_tail := rx_next (rx_tail r)\<rparr>))"

text \<open>The interrupt handler, and the two set-ups.\<close>

definition usci_a0_isr :: "'h mmio \<Rightarrow> 'h \<times> rx_ring \<Rightarrow> 'h \<times> rx_ring" where
  "usci_a0_isr hw = (\<lambda>(h, r). case mm_read hw (mu_ifg renode_uart) h of (ifg, h1) \<Rightarrow>
     if ifg AND mu_rxifg renode_uart \<noteq> 0
     then case mm_read hw (mu_rxbuf renode_uart) h1 of (x, h2) \<Rightarrow> (h2, rx_push (ucast x) r)
     else (h1, r))"

definition msp_uart_init_renode :: "'h mmio \<Rightarrow> 'h \<Rightarrow> 'h" where
  "msp_uart_init_renode hw h = reg_or hw (mu_ie renode_uart) (mu_rxifg renode_uart) h"

definition msp_uart_write :: "msp_uart \<Rightarrow> 'h mmio \<Rightarrow> u8 list \<Rightarrow> u16 \<Rightarrow> 'h \<Rightarrow> (int \<times> 'h) option" where
  "msp_uart_write u hw buf len h =
    map_option (\<lambda>h. (uint len, h))
      (send_bytes hw (mu_ifg u) (\<lambda>x. x AND mu_txifg u \<noteq> 0) (mu_txbuf u) (take (unat len) buf) h)"

text \<open>The two reads: as many bytes as have arrived, at most as many as asked for.\<close>

primrec msp_poll_bytes :: "msp_uart \<Rightarrow> 'h mmio \<Rightarrow> nat \<Rightarrow> nat \<Rightarrow> u8 list \<Rightarrow> 'h \<Rightarrow> nat \<times> u8 list \<times> 'h" where
  "msp_poll_bytes u hw 0 n buf h = (n, buf, h)"
| "msp_poll_bytes u hw (Suc k) n buf h =
    (case mm_read hw (mu_ifg u) h of (ifg, h1) \<Rightarrow>
       if ifg AND mu_rxifg u \<noteq> 0
       then case mm_read hw (mu_rxbuf u) h1 of (x, h2) \<Rightarrow> msp_poll_bytes u hw k (n + 1) (buf[n := ucast x]) h2
       else (n, buf, h1))"

definition msp_uart_read_polled :: "msp_uart \<Rightarrow> 'h mmio \<Rightarrow> u8 list \<Rightarrow> u16 \<Rightarrow> 'h \<Rightarrow> int \<times> u8 list \<times> 'h" where
  "msp_uart_read_polled u hw buf len h =
    (case msp_poll_bytes u hw (unat len) 0 buf h of (n, buf, h) \<Rightarrow> (int n, buf, h))"

primrec msp_pop_bytes :: "nat \<Rightarrow> nat \<Rightarrow> u8 list \<Rightarrow> rx_ring \<Rightarrow> nat \<times> u8 list \<times> rx_ring" where
  "msp_pop_bytes 0 n buf r = (n, buf, r)"
| "msp_pop_bytes (Suc k) n buf r =
    (case rx_pop r of None \<Rightarrow> (n, buf, r) | Some (b, r1) \<Rightarrow> msp_pop_bytes k (n + 1) (buf[n := b]) r1)"

definition msp_uart_read_ring :: "u8 list \<Rightarrow> u16 \<Rightarrow> rx_ring \<Rightarrow> int \<times> u8 list \<times> rx_ring" where
  "msp_uart_read_ring buf len r =
    (case msp_pop_bytes (unat len) 0 buf r of (n, buf, r) \<Rightarrow> (int n, buf, r))"

section \<open>The ring is a queue of 63 bytes\<close>

text \<open>The elements of a ring of any size from \<open>t\<close> up to \<open>h\<close>.\<close>

definition ring_list :: "'a list \<Rightarrow> nat \<Rightarrow> nat \<Rightarrow> 'a list" where
  "ring_list xs t h = map (\<lambda>i. xs ! ((t + i) mod length xs)) [0..<(h + length xs - t) mod length xs]"

lemma ring_fill: "h < n \<Longrightarrow> t < n \<Longrightarrow> (h + n - t) mod n = (if t \<le> h then h - t else h + n - t)" for n :: nat
  by (auto simp: le_mod_geq)

lemma length_ring_list: "length (ring_list xs t h) = (h + length xs - t) mod length xs"
  by (simp add: ring_list_def)

lemma ring_next: "h < n \<Longrightarrow> Suc h mod n = (if Suc h = n then 0 else Suc h)" for n :: nat
  by auto

lemma ring_list_empty: "h < length xs \<Longrightarrow> t < length xs \<Longrightarrow> ring_list xs t h = [] \<longleftrightarrow> t = h"
  by (auto simp: ring_list_def ring_fill)

lemma ring_list_full:
  "h < length xs \<Longrightarrow> t < length xs \<Longrightarrow> Suc h mod length xs = t \<longleftrightarrow> length (ring_list xs t h) = length xs - 1"
  by (auto simp: length_ring_list ring_fill ring_next)

lemma ring_count_push:
  fixes n :: nat
  assumes "h < n" "t < n" "Suc h mod n \<noteq> t"
  shows "(Suc h mod n + n - t) mod n = Suc ((h + n - t) mod n)"
proof (cases "Suc h = n")
  case True
  then have m: "Suc h mod n = 0" "0 < n" by simp_all
  show ?thesis unfolding m(1) ring_fill [OF assms(1,2)] ring_fill [OF m(2) assms(2)] using assms m(1) True by auto
next
  case False
  then have m: "Suc h mod n = Suc h" "Suc h < n" using assms(1) by simp_all
  then show ?thesis unfolding m(1) ring_fill [OF assms(1,2)] ring_fill [OF m(2) assms(2)] using assms(2,3) by auto
qed

lemma ring_count_pop:
  fixes n :: nat
  assumes "h < n" "t < n" "t \<noteq> h"
  shows "(h + n - t) mod n = Suc ((h + n - Suc t mod n) mod n)"
proof (cases "Suc t = n")
  case True
  then have m: "Suc t mod n = 0" "0 < n" by simp_all
  show ?thesis unfolding m(1) ring_fill [OF assms(1,2)] ring_fill [OF assms(1) m(2)] using assms True by auto
next
  case False
  then have m: "Suc t mod n = Suc t" "Suc t < n" using assms(2) by simp_all
  then show ?thesis unfolding m(1) ring_fill [OF assms(1,2)] ring_fill [OF assms(1) m(2)] using assms by auto
qed

lemma ring_list_push:
  assumes "h < length xs" "t < length xs" "Suc h mod length xs \<noteq> t"
  shows "ring_list (xs[h := x]) t (Suc h mod length xs) = ring_list xs t h @ [x]"
proof -
  let ?n = "length xs" and ?k = "(h + length xs - t) mod length xs"
  note k = ring_count_push [OF assms]
  have kk: "?k = (if t \<le> h then h - t else h + ?n - t)" by (rule ring_fill [OF assms(1,2)])
  have h: "(t + ?k) mod ?n = h"
    unfolding kk using assms(1,2) by (cases "t \<le> h") simp_all
  have ne: "(t + i) mod ?n \<noteq> h" if "i < ?k" for i
  proof (cases "t + i < ?n")
    case True
    then show ?thesis using that assms(1,2) unfolding kk by (auto split: if_splits)
  next
    case False
    then have "t + i - ?n < h" using that assms(1,2) unfolding kk by (auto split: if_splits)
    moreover from this have "(t + i) mod ?n = t + i - ?n"
      using False assms(1) by (simp add: le_mod_geq)
    ultimately show ?thesis by simp
  qed
  have "map (\<lambda>i. (xs[h := x]) ! ((t + i) mod ?n)) [0..<?k] = map (\<lambda>i. xs ! ((t + i) mod ?n)) [0..<?k]"
    by (rule map_cong) (use ne in \<open>simp_all add: nth_list_update_neq [OF not_sym]\<close>)
  then show ?thesis unfolding ring_list_def length_list_update k by (simp add: h assms(1))
qed

lemma ring_list_pop:
  assumes "h < length xs" "t < length xs" "t \<noteq> h"
  shows "ring_list xs t h = xs ! t # ring_list xs (Suc t mod length xs) h"
proof -
  let ?n = "length xs"
  note k = ring_count_pop [OF assms]
  have "(Suc t mod ?n + i) mod ?n = (t + Suc i) mod ?n" for i by (simp add: mod_add_left_eq)
  then show ?thesis using assms(2) unfolding ring_list_def k
    by (simp add: upt_conv_Cons map_Suc_upt [symmetric] comp_def del: upt_Suc)
qed

definition rx_wf :: "rx_ring \<Rightarrow> bool" where
  "rx_wf r \<longleftrightarrow> length (rx_buf r) = 64 \<and> unat (rx_head r) < 64 \<and> unat (rx_tail r) < 64"

definition rx_bytes :: "rx_ring \<Rightarrow> u8 list" where
  "rx_bytes r = ring_list (rx_buf r) (unat (rx_tail r)) (unat (rx_head r))"

lemma unat_rx_next: "unat i < 64 \<Longrightarrow> unat (rx_next i) = Suc (unat i) mod 64"
  by (simp add: rx_next_def unat_mod unat_word_ariths)

lemma rx_full_iff: "rx_wf r \<Longrightarrow> rx_next (rx_head r) = rx_tail r \<longleftrightarrow> length (rx_bytes r) = 63"
  using ring_list_full [of "unat (rx_head r)" "rx_buf r" "unat (rx_tail r)"]
  by (simp add: rx_wf_def rx_bytes_def word_unat_eq_iff unat_rx_next)

lemma rx_bytes_less: "rx_wf r \<Longrightarrow> length (rx_bytes r) < 64"
  by (simp add: rx_bytes_def length_ring_list rx_wf_def)

lemma rx_push_bytes:
  assumes "rx_wf r"
  shows "rx_wf (rx_push b r)" "rx_bytes (rx_push b r) = (if length (rx_bytes r) = 63 then rx_bytes r else rx_bytes r @ [b])"
proof -
  show "rx_wf (rx_push b r)" using assms by (simp add: rx_push_def rx_wf_def unat_rx_next)
  show "rx_bytes (rx_push b r) = (if length (rx_bytes r) = 63 then rx_bytes r else rx_bytes r @ [b])"
  proof (cases "rx_next (rx_head r) = rx_tail r")
    case True
    then show ?thesis using rx_full_iff [OF assms] by (simp add: rx_push_def)
  next
    case False
    then have "Suc (unat (rx_head r)) mod length (rx_buf r) \<noteq> unat (rx_tail r)"
      using assms by (simp add: rx_wf_def word_unat_eq_iff unat_rx_next)
    from ring_list_push [OF _ _ this] False rx_full_iff [OF assms] assms show ?thesis
      by (simp add: rx_push_def rx_bytes_def rx_wf_def unat_rx_next)
  qed
qed

lemma rx_taken:
  assumes "rx_wf r" "rx_tail r \<noteq> rx_head r"
  shows "rx_wf (r\<lparr>rx_tail := rx_next (rx_tail r)\<rparr>)"
    "rx_bytes r = rx_buf r ! unat (rx_tail r) # rx_bytes (r\<lparr>rx_tail := rx_next (rx_tail r)\<rparr>)"
  using assms ring_list_pop [of "unat (rx_head r)" "rx_buf r" "unat (rx_tail r)"]
  by (simp_all add: rx_wf_def rx_bytes_def unat_rx_next word_unat_eq_iff)

lemma rx_bytes_empty: "rx_wf r \<Longrightarrow> rx_bytes r = [] \<longleftrightarrow> rx_tail r = rx_head r"
  using ring_list_empty [of "unat (rx_head r)" "rx_buf r" "unat (rx_tail r)"]
  by (simp add: rx_wf_def rx_bytes_def word_unat_eq_iff)

definition rx_enq :: "rx_ring \<Rightarrow> u8 \<Rightarrow> rx_ring option" where
  "rx_enq r b = (if rx_next (rx_head r) = rx_tail r then None else Some (rx_push b r))"

interpretation rx_fifo: bounded_fifo rx_enq rx_pop rx_bytes rx_wf 63 "\<lambda>_. True"
proof unfold_locales
  fix s :: rx_ring and x
  assume s: "rx_wf s" and l: "length (rx_bytes s) < 63"
  then show "\<exists>s'. rx_enq s x = Some s' \<and> rx_wf s' \<and> rx_bytes s' = rx_bytes s @ [x]"
    using rx_push_bytes [OF s] rx_full_iff [OF s] by (simp add: rx_enq_def)
next
  fix s :: rx_ring and x
  assume s: "rx_wf s" and l: "\<not> (True \<and> length (rx_bytes s) < 63)"
  then show "rx_enq s x = None"
    using rx_full_iff [OF s] rx_bytes_less [OF s] by (simp add: rx_enq_def)
next
  fix s :: rx_ring
  assume "rx_wf s" "rx_bytes s = []"
  then show "rx_pop s = None" using rx_bytes_empty by (simp add: rx_pop_def)
next
  fix s :: rx_ring and x xs
  assume s: "rx_wf s" "rx_bytes s = x # xs"
  then have "rx_tail s \<noteq> rx_head s" using rx_bytes_empty [OF s(1)] by auto
  from rx_taken [OF s(1) this] this s(2)
  show "\<exists>s'. rx_pop s = Some (x, s') \<and> rx_wf s' \<and> rx_bytes s' = xs" by (simp add: rx_pop_def)
qed

text \<open>A read from the ring takes the oldest bytes, as many as there are up to the number asked for.\<close>

lemma msp_pop_bytes_spec:
  assumes "rx_wf r" "n + k \<le> length buf"
  shows "\<exists>r'. msp_pop_bytes k n buf r
      = (n + min k (length (rx_bytes r)), take n buf @ take k (rx_bytes r) @ drop (n + min k (length (rx_bytes r))) buf, r')
    \<and> rx_wf r' \<and> rx_bytes r' = drop k (rx_bytes r)"
  using assms
proof (induction k arbitrary: n buf r)
  case (Suc k)
  show ?case
  proof (cases "rx_bytes r")
    case Nil
    then show ?thesis using Suc.prems rx_fifo.deq_empty by simp
  next
    case (Cons b bs)
    with Suc.prems obtain r1 where r1: "rx_pop r = Some (b, r1)" "rx_wf r1" "rx_bytes r1 = bs"
      using rx_fifo.deq_ok by blast
    have "n + 1 + k \<le> length (buf[n := b])" using Suc.prems(2) by simp
    from Suc.IH [OF r1(2) this] obtain r' where
      r': "msp_pop_bytes k (n + 1) (buf[n := b]) r1
        = (n + 1 + min k (length bs), take (n + 1) (buf[n := b]) @ take k bs @ drop (n + 1 + min k (length bs)) (buf[n := b]), r')"
      "rx_wf r'" "rx_bytes r' = drop k bs" unfolding r1(3) by blast
    have "take (n + 1) (buf[n := b]) = take n buf @ [b]" using Suc.prems(2) by (simp add: take_Suc_conv_app_nth)
    then show ?thesis using r1(1) r' Cons by simp
  qed
qed simp

subsection \<open>The interrupt strikes anywhere\<close>

text \<open>Where the reader is in \<open>rx_pop\<close>; the bytes accepted by the interrupt and handed to the reader so far.\<close>

datatype rx_pc = Rx_idle | Rx_load | Rx_advance u8

record rx_run =
  rr_ring :: rx_ring
  rr_pc :: rx_pc
  rr_in :: "u8 list"
  rr_out :: "u8 list"

inductive rx_step :: "rx_run \<Rightarrow> rx_run \<Rightarrow> bool" where
  rx_interrupt: "rx_step s (s\<lparr>rr_ring := rx_push b (rr_ring s),
      rr_in := rr_in s @ (if rx_next (rx_head (rr_ring s)) = rx_tail (rr_ring s) then [] else [b])\<rparr>)"
| rx_check: "rr_pc s = Rx_idle \<Longrightarrow> rx_tail (rr_ring s) \<noteq> rx_head (rr_ring s) \<Longrightarrow> rx_step s (s\<lparr>rr_pc := Rx_load\<rparr>)"
| rx_load: "rr_pc s = Rx_load
    \<Longrightarrow> rx_step s (s\<lparr>rr_pc := Rx_advance (rx_buf (rr_ring s) ! unat (rx_tail (rr_ring s)))\<rparr>)"
| rx_advance: "rr_pc s = Rx_advance b
    \<Longrightarrow> rx_step s (s\<lparr>rr_ring := (rr_ring s)\<lparr>rx_tail := rx_next (rx_tail (rr_ring s))\<rparr>, rr_pc := Rx_idle, rr_out := rr_out s @ [b]\<rparr>)"

definition rx_inv :: "rx_run \<Rightarrow> bool" where
  "rx_inv s \<longleftrightarrow> rx_wf (rr_ring s) \<and> rr_in s = rr_out s @ rx_bytes (rr_ring s)
    \<and> (case rr_pc s of Rx_idle \<Rightarrow> True | Rx_load \<Rightarrow> rx_bytes (rr_ring s) \<noteq> []
       | Rx_advance b \<Rightarrow> rx_bytes (rr_ring s) \<noteq> [] \<and> b = hd (rx_bytes (rr_ring s)))"

lemma rx_inv_step:
  assumes "rx_step s s'" "rx_inv s"
  shows "rx_inv s'"
proof -
  have wf: "rx_wf (rr_ring s)" and io: "rr_in s = rr_out s @ rx_bytes (rr_ring s)"
    using assms(2) by (simp_all add: rx_inv_def)
  show ?thesis
    using assms(1)
  proof cases
    case (rx_interrupt b)
    then show ?thesis using assms(2) rx_push_bytes [OF wf] rx_full_iff [OF wf]
      by (auto simp: rx_inv_def hd_append split: rx_pc.splits)
  next
    case rx_check
    then show ?thesis using wf io rx_bytes_empty [OF wf] by (simp add: rx_inv_def)
  next
    case rx_load
    then have ne: "rx_bytes (rr_ring s) \<noteq> []" using assms(2) by (simp add: rx_inv_def)
    then show ?thesis using rx_load wf io rx_taken(2) [OF wf] rx_bytes_empty [OF wf]
      by (simp add: rx_inv_def)
  next
    case (rx_advance b)
    then have b: "rx_bytes (rr_ring s) \<noteq> []" "b = hd (rx_bytes (rr_ring s))" using assms(2) by (simp_all add: rx_inv_def)
    then have "rx_tail (rr_ring s) \<noteq> rx_head (rr_ring s)" using rx_bytes_empty [OF wf] by simp
    note t = rx_taken [OF wf this]
    then have "rx_bytes (rr_ring s) = b # rx_bytes ((rr_ring s)\<lparr>rx_tail := rx_next (rx_tail (rr_ring s))\<rparr>)"
      using b(2) by simp
    then show ?thesis using rx_advance t(1) io by (simp add: rx_inv_def)
  qed
qed

lemma rx_inv_reachable: "rx_step\<^sup>*\<^sup>* s s' \<Longrightarrow> rx_inv s \<Longrightarrow> rx_inv s'"
  by (induction rule: rtranclp_induct) (auto intro: rx_inv_step)

definition rx_bss :: rx_ring where
  "rx_bss = \<lparr>rx_buf = replicate 64 0, rx_head = 0, rx_tail = 0\<rparr>"

definition rx_start :: rx_run where
  "rx_start = \<lparr>rr_ring = rx_bss, rr_pc = Rx_idle, rr_in = [], rr_out = []\<rparr>"

lemma rx_start_inv: "rx_inv rx_start"
  by (simp add: rx_inv_def rx_start_def rx_bss_def rx_wf_def rx_bytes_def ring_list_def)

text \<open>
  C31: The receive buffer of the MSP430 is safe against its interrupt.  However the interrupts
  fall between the statements of the reader, the bytes handed to the reader and those that
  still wait, in order, are exactly the bytes the interrupt accepted, and it drops a byte
  only while 63 wait.
\<close>

theorem rx_ring_lossless:
  assumes "rx_step\<^sup>*\<^sup>* rx_start s"
  shows "rr_in s = rr_out s @ rx_bytes (rr_ring s)
    \<and> (rx_next (rx_head (rr_ring s)) = rx_tail (rr_ring s) \<longleftrightarrow> length (rx_bytes (rr_ring s)) = 63)"
  using rx_inv_reachable [OF assms rx_start_inv] rx_full_iff [of "rr_ring s"] by (simp add: rx_inv_def)

lemma rx_ring_lossless_witness:
  "\<exists>s. rx_step\<^sup>*\<^sup>* rx_start s \<and> rr_in s = [7, 8] \<and> rr_out s @ rx_bytes (rr_ring s) = [7, 8] \<and> rr_pc s = Rx_load"
proof -
  let ?push = "\<lambda>b s. s\<lparr>rr_ring := rx_push b (rr_ring s),
      rr_in := rr_in s @ (if rx_next (rx_head (rr_ring s)) = rx_tail (rr_ring s) then [] else [b])\<rparr>"
  define s1 where "s1 = ?push 7 rx_start"
  define s2 where "s2 = s1\<lparr>rr_pc := Rx_load\<rparr>"
  define s3 where "s3 = ?push 8 s2"
  note defs = s1_def s2_def s3_def rx_start_def rx_bss_def rx_push_def rx_next_def
  have "rx_step rx_start s1" unfolding s1_def by (rule rx_interrupt)
  moreover have "rx_step s1 s2" unfolding s2_def by (rule rx_check) (simp_all add: defs)
  moreover have "rx_step s2 s3" unfolding s3_def by (rule rx_interrupt)
  ultimately have r: "rx_step\<^sup>*\<^sup>* rx_start s3" by (meson r_into_rtranclp rtranclp_trans)
  have "rr_in s3 = [7, 8]" "rr_pc s3 = Rx_load" by (simp_all add: defs)
  with rx_ring_lossless [OF r] r show ?thesis by auto
qed

end
