(* ===== verification/Tm_Store_Steps.thy ===== *)
theory Tm_Store_Steps
  imports Tm_Store
begin

section \<open>The telemetry store between preemptive tasks\<close>

text \<open>
  \<^verbatim>\<open>include/obsw/tm/store.h\<close> calls the store a lock-free ring buffer; in the build with
  FreeRTOS several tasks share it, and the scheduler preempts a task between any two of its
  statements.  Here \<^verbatim>\<open>src/tm/store.c\<close> is therefore the relation of its single steps: the test
  of \<open>obsw_tm_store_enqueue\<close>, each byte that \<open>memcpy\<close> moves, the store of the length and the
  advance of \<open>head\<close>, and likewise for \<open>obsw_tm_store_dequeue\<close>.  A producer is a number, and
  how far it has come in its call is a value of \<open>enq_pc\<close>; there is one consumer.

  With one producer the store loses, duplicates and reorders nothing, however the two tasks
  are interleaved, nor with several of which one at a time is inside its call; where the calls
  of two producers overlap, a packet that was accepted can be lost.
\<close>

subsection \<open>The steps\<close>

text \<open>Where a task is in \<open>obsw_tm_store_enqueue\<close> and in \<open>obsw_tm_store_dequeue\<close>.\<close>

datatype enq_pc =
    Enq_idle
  | Enq_copy "u8 list" u16 nat
  | Enq_len "u8 list" u16
  | Enq_head "u8 list" u16

datatype deq_pc =
    Deq_idle
  | Deq_len
  | Deq_copy u16 "u8 list"
  | Deq_tail "u8 list"

text \<open>The store, the tasks, and the packets whose calls returned \<open>OBSW_TM_OK\<close>, in order.\<close>

record store_run =
  sr_store :: obsw_tm_store
  sr_prod :: "nat \<Rightarrow> enq_pc"
  sr_cons :: deq_pc
  sr_sent :: "u8 list list"
  sr_got :: "u8 list list"

definition slot_set :: "u64 \<Rightarrow> (obsw_tm_slot \<Rightarrow> obsw_tm_slot) \<Rightarrow> obsw_tm_store \<Rightarrow> obsw_tm_store" where
  "slot_set i f st = st\<lparr>ts_slots := (ts_slots st)[unat i := f (ts_slots st ! unat i)]\<rparr>"

definition slot_put :: "nat \<Rightarrow> u8 \<Rightarrow> obsw_tm_slot \<Rightarrow> obsw_tm_slot" where
  "slot_put k b sl = sl\<lparr>sl_data := (sl_data sl)[k := b]\<rparr>"

text \<open>
  The steps of the producers in \<open>P\<close> and of the consumer, which passes a buffer of \<open>n\<close> bytes.
  A call that is refused changes nothing; only where a task would otherwise stay in it is
  the refusal a step of its own.
\<close>

inductive store_step :: "nat set \<Rightarrow> u64 \<Rightarrow> store_run \<Rightarrow> store_run \<Rightarrow> bool" for P n where
  enq_check: "p \<in> P \<Longrightarrow> sr_prod s p = Enq_idle \<Longrightarrow> unat len \<le> length pkt \<Longrightarrow> \<not> len > 1024
    \<Longrightarrow> next_slot (ts_head (sr_store s)) \<noteq> ts_tail (sr_store s)
    \<Longrightarrow> store_step P n s (s\<lparr>sr_prod := (sr_prod s)(p := Enq_copy pkt len 0)\<rparr>)"
| enq_byte: "p \<in> P \<Longrightarrow> sr_prod s p = Enq_copy pkt len k \<Longrightarrow> k < unat len
    \<Longrightarrow> store_step P n s (s\<lparr>sr_store := slot_set (ts_head (sr_store s)) (slot_put k (pkt ! k)) (sr_store s),
          sr_prod := (sr_prod s)(p := Enq_copy pkt len (k + 1))\<rparr>)"
| enq_copied: "p \<in> P \<Longrightarrow> sr_prod s p = Enq_copy pkt len (unat len)
    \<Longrightarrow> store_step P n s (s\<lparr>sr_prod := (sr_prod s)(p := Enq_len pkt len)\<rparr>)"
| enq_len: "p \<in> P \<Longrightarrow> sr_prod s p = Enq_len pkt len
    \<Longrightarrow> store_step P n s (s\<lparr>sr_store := slot_set (ts_head (sr_store s)) (sl_len_update (\<lambda>_. len)) (sr_store s),
          sr_prod := (sr_prod s)(p := Enq_head pkt len)\<rparr>)"
| enq_head: "p \<in> P \<Longrightarrow> sr_prod s p = Enq_head pkt len
    \<Longrightarrow> store_step P n s (s\<lparr>sr_store := (sr_store s)\<lparr>ts_head := next_slot (ts_head (sr_store s))\<rparr>,
          sr_prod := (sr_prod s)(p := Enq_idle), sr_sent := sr_sent s @ [take (unat len) pkt]\<rparr>)"
| deq_check: "sr_cons s = Deq_idle \<Longrightarrow> ts_head (sr_store s) \<noteq> ts_tail (sr_store s)
    \<Longrightarrow> store_step P n s (s\<lparr>sr_cons := Deq_len\<rparr>)"
| deq_len: "sr_cons s = Deq_len \<Longrightarrow> len = sl_len (ts_slots (sr_store s) ! unat (ts_tail (sr_store s)))
    \<Longrightarrow> store_step P n s (s\<lparr>sr_cons := if n < ucast len then Deq_idle else Deq_copy len []\<rparr>)"
| deq_byte: "sr_cons s = Deq_copy len bs \<Longrightarrow> length bs < unat len
    \<Longrightarrow> store_step P n s (s\<lparr>sr_cons := Deq_copy len
          (bs @ [sl_data (ts_slots (sr_store s) ! unat (ts_tail (sr_store s))) ! length bs])\<rparr>)"
| deq_copied: "sr_cons s = Deq_copy len bs \<Longrightarrow> length bs = unat len
    \<Longrightarrow> store_step P n s (s\<lparr>sr_cons := Deq_tail bs\<rparr>)"
| deq_tail: "sr_cons s = Deq_tail bs
    \<Longrightarrow> store_step P n s (s\<lparr>sr_store := (sr_store s)\<lparr>ts_tail := next_slot (ts_tail (sr_store s))\<rparr>,
          sr_cons := Deq_idle, sr_got := sr_got s @ [bs]\<rparr>)"

definition store_run_start :: "obsw_tm_store \<Rightarrow> store_run" where
  "store_run_start st =
    \<lparr>sr_store = st, sr_prod = \<lambda>_. Enq_idle, sr_cons = Deq_idle, sr_sent = [], sr_got = []\<rparr>"

subsection \<open>The ring under the steps\<close>

text \<open>What is written into the slot at \<open>head\<close> is invisible until \<open>head\<close> advances.\<close>

lemma slot_set_simps [simp]:
  "ts_head (slot_set i f st) = ts_head st" "ts_tail (slot_set i f st) = ts_tail st"
  "length (ts_slots (slot_set i f st)) = length (ts_slots st)"
  "store_fill (slot_set i f st) = store_fill st"
  by (simp_all add: slot_set_def store_fill_def)

lemma slot_set_nth:
  "store_wf st \<Longrightarrow> ts_slots (slot_set (ts_head st) f st) ! unat (ts_head st) = f (ts_slots st ! unat (ts_head st))"
  by (simp add: slot_set_def store_wf_def)

lemma slot_set_other:
  assumes "store_wf st" "i < store_fill st"
  shows "ts_slots (slot_set (ts_head st) f st) ! ((unat (ts_tail st) + i) mod 32)
    = ts_slots st ! ((unat (ts_tail st) + i) mod 32)"
proof -
  have "(unat (ts_tail st) + i) mod 32 \<noteq> unat (ts_head st)"
    using ring_distinct [OF assms(2) store_fill_less] ring_head [OF assms(1)] assms(1) by (simp add: store_wf_def)
  then show ?thesis by (simp add: slot_set_def)
qed

lemma slot_set_packets: "store_wf st \<Longrightarrow> store_packets (slot_set (ts_head st) f st) = store_packets st"
  unfolding store_packets_def by (auto intro!: map_cong simp: slot_set_other)

lemma slot_set_tail:
  assumes "store_wf st" "store_fill st \<noteq> 0"
  shows "ts_slots (slot_set (ts_head st) f st) ! unat (ts_tail st) = ts_slots st ! unat (ts_tail st)"
  using slot_set_other [OF assms(1), of 0 f] assms by (simp add: store_wf_def)

lemma slot_set_wf:
  assumes "store_wf st" "slot_wf (f (ts_slots st ! unat (ts_head st)))"
  shows "store_wf (slot_set (ts_head st) f st)"
  using assms by (auto simp: store_wf_def slot_set_def list_all_iff dest!: subsetD [OF set_update_subset_insert])

lemma head_slot_wf: "store_wf st \<Longrightarrow> slot_wf (ts_slots st ! unat (ts_head st))"
  by (simp add: store_wf_def list_all_length)

lemma tail_slot_wf: "store_wf st \<Longrightarrow> slot_wf (ts_slots st ! unat (ts_tail st))"
  by (simp add: store_wf_def list_all_length)

lemma head_advanced:
  assumes "store_wf st" "store_fill st < 31"
  shows "store_wf (st\<lparr>ts_head := next_slot (ts_head st)\<rparr>)"
    "store_fill (st\<lparr>ts_head := next_slot (ts_head st)\<rparr>) = store_fill st + 1"
    "store_packets (st\<lparr>ts_head := next_slot (ts_head st)\<rparr>)
      = store_packets st @ [slot_packet (ts_slots st ! unat (ts_head st))]"
proof -
  show "store_wf (st\<lparr>ts_head := next_slot (ts_head st)\<rparr>)"
    using assms by (simp add: store_wf_def unat_next_slot)
  show fill: "store_fill (st\<lparr>ts_head := next_slot (ts_head st)\<rparr>) = store_fill st + 1"
    using enqueue_fill [OF assms, of "ts_slots st"] by simp
  show "store_packets (st\<lparr>ts_head := next_slot (ts_head st)\<rparr>)
      = store_packets st @ [slot_packet (ts_slots st ! unat (ts_head st))]"
    unfolding store_packets_def fill by (simp add: ring_head [OF assms(1), symmetric])
qed

lemma tail_advanced:
  assumes "store_wf st" "store_fill st \<noteq> 0"
  shows "store_wf (st\<lparr>ts_tail := next_slot (ts_tail st)\<rparr>)"
    "store_fill (st\<lparr>ts_tail := next_slot (ts_tail st)\<rparr>) < 31"
    "store_packets st = slot_packet (ts_slots st ! unat (ts_tail st))
      # store_packets (st\<lparr>ts_tail := next_slot (ts_tail st)\<rparr>)"
proof -
  let ?t = "unat (ts_tail st)"
  have t: "?t < 32" using assms by (simp add: store_wf_def)
  show "store_wf (st\<lparr>ts_tail := next_slot (ts_tail st)\<rparr>)"
    using assms by (simp add: store_wf_def unat_next_slot)
  show "store_fill (st\<lparr>ts_tail := next_slot (ts_tail st)\<rparr>) < 31"
    using dequeue_fill [OF assms] store_fill_less [of st] by linarith
  have upt: "[0..<store_fill st] = 0 # map Suc [0..<store_fill st - 1]"
    using assms(2) by (simp add: map_Suc_upt upt_conv_Cons)
  have "(?t + Suc i) mod 32 = (Suc ?t mod 32 + i) mod 32" for i
    by (simp add: mod_add_left_eq)
  then show "store_packets st = slot_packet (ts_slots st ! ?t)
      # store_packets (st\<lparr>ts_tail := next_slot (ts_tail st)\<rparr>)"
    unfolding store_packets_def dequeue_fill [OF assms] upt using t
    by (simp add: unat_next_slot comp_def)
qed

subsection \<open>One producer and one consumer\<close>

text \<open>What is known of the slot at \<open>head\<close> while the producer works on it.\<close>

fun enq_inv :: "obsw_tm_store \<Rightarrow> enq_pc \<Rightarrow> bool" where
  "enq_inv st Enq_idle \<longleftrightarrow> True"
| "enq_inv st (Enq_copy pkt len k) \<longleftrightarrow> store_fill st < 31 \<and> unat len \<le> length pkt \<and> unat len \<le> 1024 \<and> k \<le> unat len
    \<and> take k (sl_data (ts_slots st ! unat (ts_head st))) = take k pkt"
| "enq_inv st (Enq_len pkt len) \<longleftrightarrow> store_fill st < 31 \<and> unat len \<le> length pkt \<and> unat len \<le> 1024
    \<and> take (unat len) (sl_data (ts_slots st ! unat (ts_head st))) = take (unat len) pkt"
| "enq_inv st (Enq_head pkt len) \<longleftrightarrow> store_fill st < 31
    \<and> slot_packet (ts_slots st ! unat (ts_head st)) = take (unat len) pkt"

fun deq_inv :: "obsw_tm_store \<Rightarrow> deq_pc \<Rightarrow> bool" where
  "deq_inv st Deq_idle \<longleftrightarrow> True"
| "deq_inv st Deq_len \<longleftrightarrow> store_fill st \<noteq> 0"
| "deq_inv st (Deq_copy len bs) \<longleftrightarrow> store_fill st \<noteq> 0 \<and> length bs \<le> unat len
    \<and> len = sl_len (ts_slots st ! unat (ts_tail st))
    \<and> bs = take (length bs) (sl_data (ts_slots st ! unat (ts_tail st)))"
| "deq_inv st (Deq_tail bs) \<longleftrightarrow> store_fill st \<noteq> 0 \<and> bs = slot_packet (ts_slots st ! unat (ts_tail st))"

definition run_inv :: "nat \<Rightarrow> store_run \<Rightarrow> bool" where
  "run_inv p s \<longleftrightarrow> store_wf (sr_store s) \<and> sr_sent s = sr_got s @ store_packets (sr_store s)
    \<and> enq_inv (sr_store s) (sr_prod s p) \<and> deq_inv (sr_store s) (sr_cons s)"

lemma deq_inv_slot_set:
  "store_wf st \<Longrightarrow> deq_inv st c \<Longrightarrow> deq_inv (slot_set (ts_head st) f st) c"
  by (cases c) (simp_all add: slot_set_tail)

lemma deq_inv_head:
  "store_wf st \<Longrightarrow> store_fill st < 31 \<Longrightarrow> deq_inv st c \<Longrightarrow> deq_inv (st\<lparr>ts_head := next_slot (ts_head st)\<rparr>) c"
  by (cases c) (simp_all add: head_advanced)

lemma enq_inv_tail:
  "store_wf st \<Longrightarrow> store_fill st \<noteq> 0 \<Longrightarrow> enq_inv st c \<Longrightarrow> enq_inv (st\<lparr>ts_tail := next_slot (ts_tail st)\<rparr>) c"
  by (cases c) (simp_all add: tail_advanced)

lemma run_inv_step:
  assumes "store_step {p} n s s'" "run_inv p s"
  shows "run_inv p s'"
proof -
  let ?st = "sr_store s"
  have inv: "store_wf ?st" "sr_sent s = sr_got s @ store_packets ?st" "enq_inv ?st (sr_prod s p)" "deq_inv ?st (sr_cons s)"
    using assms(2) by (simp_all add: run_inv_def)
  note h = head_slot_wf [OF inv(1)] and t = tail_slot_wf [OF inv(1)]
  have full: "next_slot (ts_head ?st) \<noteq> ts_tail ?st \<Longrightarrow> store_fill ?st < 31"
    using store_full_iff [OF inv(1)] store_fill_less [of ?st] by auto
  show ?thesis
    using assms(1)
  proof cases
    case (enq_check q len pkt)
    then show ?thesis using inv full by (simp add: run_inv_def word_less_nat_alt)
  next
    case (enq_byte q pkt len k)
    let ?sl = "ts_slots ?st ! unat (ts_head ?st)"
    have e: "k < 1024" "k < length pkt" "take k (sl_data ?sl) = take k pkt" "store_fill ?st < 31"
        "unat len \<le> length pkt" "unat len \<le> 1024"
      using enq_byte inv(3) by simp_all
    have wf: "store_wf (slot_set (ts_head ?st) (slot_put k (pkt ! k)) ?st)"
      using h by (intro slot_set_wf [OF inv(1)]) (simp add: slot_wf_def slot_put_def)
    have "take (Suc k) (sl_data (slot_put k (pkt ! k) ?sl)) = take (Suc k) pkt"
      using e h by (simp add: slot_put_def slot_wf_def take_Suc_conv_app_nth)
    then show ?thesis
      using enq_byte inv wf e deq_inv_slot_set [OF inv(1,4)]
      by (simp add: run_inv_def slot_set_packets slot_set_nth)
  next
    case (enq_copied q pkt len)
    then show ?thesis using inv by (simp add: run_inv_def)
  next
    case (enq_len q pkt len)
    let ?f = "sl_len_update (\<lambda>_. len)"
    have e: "store_fill ?st < 31" "unat len \<le> 1024"
        "take (unat len) (sl_data (ts_slots ?st ! unat (ts_head ?st))) = take (unat len) pkt"
      using enq_len inv(3) by simp_all
    have wf: "store_wf (slot_set (ts_head ?st) ?f ?st)"
      using h e by (intro slot_set_wf [OF inv(1)]) (simp add: slot_wf_def)
    then show ?thesis
      using enq_len inv e deq_inv_slot_set [OF inv(1,4)]
      by (simp add: run_inv_def slot_set_packets slot_set_nth slot_packet_def)
  next
    case (enq_head q pkt len)
    then have e: "store_fill ?st < 31" "slot_packet (ts_slots ?st ! unat (ts_head ?st)) = take (unat len) pkt"
      using inv(3) by simp_all
    then show ?thesis
      using enq_head inv head_advanced [OF inv(1) e(1)] deq_inv_head [OF inv(1) e(1) inv(4)]
      by (simp add: run_inv_def)
  next
    case deq_check
    then show ?thesis using inv store_empty_iff [OF inv(1)] by (simp add: run_inv_def)
  next
    case (deq_len len)
    then show ?thesis using inv by (simp add: run_inv_def)
  next
    case (deq_byte len bs)
    let ?d = "sl_data (ts_slots ?st ! unat (ts_tail ?st))"
    have d: "length bs < unat len" "bs = take (length bs) ?d" "len = sl_len (ts_slots ?st ! unat (ts_tail ?st))"
        "store_fill ?st \<noteq> 0"
      using deq_byte inv(4) by simp_all
    then have "length bs < length ?d" using t by (simp add: slot_wf_def)
    then have "deq_inv ?st (Deq_copy len (bs @ [?d ! length bs]))"
      using d by (simp add: take_Suc_conv_app_nth)
    then show ?thesis using inv unfolding run_inv_def deq_byte(1) by (simp del: deq_inv.simps)
  next
    case (deq_copied len bs)
    then show ?thesis using inv by (simp add: run_inv_def slot_packet_def)
  next
    case (deq_tail bs)
    then have "store_fill ?st \<noteq> 0" "bs = slot_packet (ts_slots ?st ! unat (ts_tail ?st))"
      using inv(4) by simp_all
    then show ?thesis
      using deq_tail inv tail_advanced [OF inv(1)] enq_inv_tail [OF inv(1) _ inv(3)] by (simp add: run_inv_def)
  qed
qed

lemma run_inv_reachable: "(store_step {p} n)\<^sup>*\<^sup>* s s' \<Longrightarrow> run_inv p s \<Longrightarrow> run_inv p s'"
  by (induction rule: rtranclp_induct) (auto intro: run_inv_step)

text \<open>
  C18: The store is safe between one producer and one consumer.  From an empty store, in every
  interleaving of the single steps of one task that enqueues and one that dequeues, the
  packets taken out and those still in the store, in order, are exactly the packets whose
  enqueue was accepted: none is lost, doubled, torn or overtaken, and at most 31 wait.
\<close>

theorem store_spsc_lossless:
  assumes "store_wf st" "store_packets st = []" "(store_step {p} n)\<^sup>*\<^sup>* (store_run_start st) s"
  shows "sr_sent s = sr_got s @ store_packets (sr_store s) \<and> length (store_packets (sr_store s)) \<le> 31"
proof -
  have "run_inv p (store_run_start st)" using assms(1,2) by (simp add: run_inv_def store_run_start_def)
  then have "run_inv p s" by (rule run_inv_reachable [OF assms(3)])
  then show ?thesis using store_fill_less [of "sr_store s"] by (simp add: run_inv_def)
qed

lemma store_spsc_lossless_witness:
  "\<exists>s. (store_step {0} 1024)\<^sup>*\<^sup>* (store_run_start tm_store_bss) s \<and> sr_prod s 0 = Enq_copy [7] 1 1
    \<and> sr_sent s = sr_got s @ store_packets (sr_store s)"
proof -
  define s1 where "s1 = (store_run_start tm_store_bss)\<lparr>sr_prod := (\<lambda>_. Enq_idle)(0 := Enq_copy [7] 1 0)\<rparr>"
  define s2 where "s2 = s1\<lparr>sr_store := slot_set (ts_head (sr_store s1)) (slot_put 0 ([7] ! 0)) (sr_store s1),
          sr_prod := (sr_prod s1)(0 := Enq_copy [7] 1 (0 + 1))\<rparr>"
  have "store_step {0} 1024 (store_run_start tm_store_bss) s1"
    using store_step.enq_check [of 0 "{0}" "store_run_start tm_store_bss" 1 "[7]" 1024]
    by (simp add: s1_def store_run_start_def tm_store_bss_def next_slot_def)
  moreover have "store_step {0} 1024 s1 s2"
    unfolding s2_def by (rule store_step.enq_byte) (simp_all add: s1_def)
  ultimately have "(store_step {0} 1024)\<^sup>*\<^sup>* (store_run_start tm_store_bss) s2" by simp
  with store_spsc_lossless [OF tm_store_bss_wf this] show ?thesis by (auto simp: s2_def s1_def)
qed

subsection \<open>Several producers\<close>

text \<open>
  Nothing in the store keeps two tasks from enqueuing at once.  A task is preempted before it advances \<open>head\<close>, and the task that preempts it enqueues as
  well.  Both calls return \<open>OBSW_TM_OK\<close>, but the first packet is overwritten, and in its
  place the store holds what the slot behind contained before.
\<close>

lemma store_two_producers_lose:
  fixes st :: obsw_tm_store
  assumes "store_wf st" "store_packets st = []" "p \<in> P" "q \<in> P" "p \<noteq> q"
  obtains s where "(store_step P n)\<^sup>*\<^sup>* (store_run_start st) s"
    "sr_sent s = [[2], [b]]" "sr_got s = []" "sr_prod s = (\<lambda>_. Enq_idle)"
    "store_packets (sr_store s) = [[2], slot_packet (ts_slots st ! unat (next_slot (ts_head st)))]"
proof -
  let ?h = "ts_head st" and ?s0 = "store_run_start st"
  let ?put = "\<lambda>b st. slot_set (ts_head st) (sl_len_update (\<lambda>_. 1)) (slot_set (ts_head st) (slot_put 0 b) st)"
  have fill: "store_fill st = 0" using assms(2) length_store_packets [of st] by simp
  then have free: "next_slot ?h \<noteq> ts_tail st" using store_full_iff [OF assms(1)] by simp
  have writes: "(store_step P n)\<^sup>*\<^sup>* s (s\<lparr>sr_store := ?put b (sr_store s), sr_prod := (sr_prod s)(p := Enq_head [b] 1)\<rparr>)"
    if "p \<in> P" "sr_prod s p = Enq_idle" "next_slot (ts_head (sr_store s)) \<noteq> ts_tail (sr_store s)" for p b s
  proof -
    let ?s1 = "s\<lparr>sr_prod := (sr_prod s)(p := Enq_copy [b] 1 0)\<rparr>"
    let ?s2 = "?s1\<lparr>sr_store := slot_set (ts_head (sr_store ?s1)) (slot_put 0 ([b] ! 0)) (sr_store ?s1),
          sr_prod := (sr_prod ?s1)(p := Enq_copy [b] 1 (0 + 1))\<rparr>"
    let ?s3 = "?s2\<lparr>sr_prod := (sr_prod ?s2)(p := Enq_len [b] 1)\<rparr>"
    let ?s4 = "?s3\<lparr>sr_store := slot_set (ts_head (sr_store ?s3)) (sl_len_update (\<lambda>_. 1)) (sr_store ?s3),
          sr_prod := (sr_prod ?s3)(p := Enq_head [b] 1)\<rparr>"
    have "store_step P n s ?s1" using that by (intro store_step.enq_check) simp_all
    moreover have "store_step P n ?s1 ?s2" using that(1) by (rule store_step.enq_byte) simp_all
    moreover have "store_step P n ?s2 ?s3" using that(1) by (rule store_step.enq_copied) simp
    moreover have "store_step P n ?s3 ?s4" using that(1) by (rule store_step.enq_len) simp
    ultimately have "(store_step P n)\<^sup>*\<^sup>* s ?s4" by (meson r_into_rtranclp rtranclp_trans)
    then show ?thesis by simp
  qed
  define s1 where "s1 = ?s0\<lparr>sr_store := ?put b st, sr_prod := (\<lambda>_. Enq_idle)(p := Enq_head [b] 1)\<rparr>"
  have r1: "(store_step P n)\<^sup>*\<^sup>* ?s0 s1"
    using writes [of p ?s0 b] free assms(3) by (simp add: s1_def store_run_start_def)
  define s2 where "s2 = s1\<lparr>sr_store := ?put 2 (sr_store s1), sr_prod := (sr_prod s1)(q := Enq_head [2] 1)\<rparr>"
  have r2: "(store_step P n)\<^sup>*\<^sup>* s1 s2"
    unfolding s2_def using free assms(4,5) by (intro writes) (simp_all add: s1_def)
  define s3 where "s3 = s2\<lparr>sr_store := (sr_store s2)\<lparr>ts_head := next_slot (ts_head (sr_store s2))\<rparr>,
          sr_prod := (sr_prod s2)(q := Enq_idle), sr_sent := sr_sent s2 @ [take (unat (1 :: u16)) [2]]\<rparr>"
  have r3: "store_step P n s2 s3"
    unfolding s3_def using assms(4) by (rule store_step.enq_head) (simp add: s2_def)
  define s4 where "s4 = s3\<lparr>sr_store := (sr_store s3)\<lparr>ts_head := next_slot (ts_head (sr_store s3))\<rparr>,
          sr_prod := (sr_prod s3)(p := Enq_idle), sr_sent := sr_sent s3 @ [take (unat (1 :: u16)) [b]]\<rparr>"
  have r4: "store_step P n s3 s4"
    unfolding s4_def using assms(3) by (rule store_step.enq_head) (use assms(5) in \<open>simp add: s3_def s2_def s1_def\<close>)
  have put_wf: "store_wf (?put b t)" "store_packets (?put b t) = store_packets t" if "store_wf t" for b t
  proof -
    have 1: "store_wf (slot_set (ts_head t) (slot_put 0 b) t)"
      using head_slot_wf [OF that] by (intro slot_set_wf [OF that]) (simp add: slot_wf_def slot_put_def)
    from slot_set_wf [OF 1, of "sl_len_update (\<lambda>_. 1)"] head_slot_wf [OF 1] show "store_wf (?put b t)"
      by (simp add: slot_wf_def)
    show "store_packets (?put b t) = store_packets t"
      using slot_set_packets [OF 1, of "sl_len_update (\<lambda>_. 1)"] slot_set_packets [OF that, of "slot_put 0 b"] by simp
  qed
  let ?t = "?put 2 (?put b st)"
  have t: "store_wf ?t" "store_packets ?t = []" "store_fill ?t = 0" "ts_head ?t = ?h"
    using put_wf(1) [OF put_wf(1) [OF assms(1)]] put_wf(2) [OF put_wf(1) [OF assms(1)]] put_wf(2) [OF assms(1)] assms(2) fill
    by simp_all
  have "unat ?h < 32" using assms(1) by (simp add: store_wf_def)
  then have "unat (next_slot ?h) \<noteq> unat ?h" by (simp add: unat_next_slot ring_next_cases)
  moreover have "slot_wf (ts_slots st ! unat ?h)" "length (ts_slots st) = 32" using assms(1) head_slot_wf by (simp_all add: store_wf_def)
  ultimately have slots: "slot_packet (ts_slots ?t ! unat ?h) = [2]"
      "ts_slots ?t ! unat (next_slot ?h) = ts_slots st ! unat (next_slot ?h)"
    using \<open>unat ?h < 32\<close> by (simp_all add: slot_set_def slot_put_def slot_packet_def slot_wf_def take_Suc_conv_app_nth)
  have f: "store_fill ?t < 31" using t(3) by simp
  note a1 = head_advanced [OF t(1) f]
  have f1: "store_fill (?t\<lparr>ts_head := next_slot (ts_head ?t)\<rparr>) < 31" using a1(2) t(3) by simp
  note a2 = head_advanced [OF a1(1) f1]
  have st: "sr_store s4 = ?t\<lparr>ts_head := next_slot (ts_head ?t)\<rparr>\<lparr>ts_head := next_slot (next_slot (ts_head ?t))\<rparr>"
    by (simp add: s4_def s3_def s2_def s1_def)
  have "store_packets (sr_store s4) = [[2], slot_packet (ts_slots st ! unat (next_slot ?h))]"
    using a1(3) a2(3) t(2) slots unfolding st by simp
  moreover have "(store_step P n)\<^sup>*\<^sup>* ?s0 s4"
    using r1 r2 r3 r4 by (meson rtranclp_trans rtranclp.rtrancl_into_rtrancl)
  ultimately show thesis by (intro that [of s4]) (auto simp: s4_def s3_def s2_def s1_def store_run_start_def)
qed

text \<open>
  What a lock around the calls, or tasks that do not preempt each other while they enqueue,
  would give: of the producers at most one is inside a call.
\<close>

definition enq_exclusive :: "nat set \<Rightarrow> store_run \<Rightarrow> bool" where
  "enq_exclusive P s \<longleftrightarrow> (\<forall>p \<in> P. \<forall>q \<in> P. sr_prod s p \<noteq> Enq_idle \<longrightarrow> sr_prod s q \<noteq> Enq_idle \<longrightarrow> p = q)"

definition exclusive_step :: "nat set \<Rightarrow> u64 \<Rightarrow> store_run \<Rightarrow> store_run \<Rightarrow> bool" where
  "exclusive_step P n s s' \<longleftrightarrow> store_step P n s s' \<and> enq_exclusive P s'"

text \<open>A step is one of a single producer, which is inside its call before or after it, or of the consumer.\<close>

lemma store_step_single:
  assumes "store_step P n s s'"
  obtains (producer) p where "p \<in> P" "store_step {p} n s s'" "\<forall>q. q \<noteq> p \<longrightarrow> sr_prod s' q = sr_prod s q"
      "sr_prod s p \<noteq> Enq_idle \<or> sr_prod s' p \<noteq> Enq_idle"
  | (consumer) "\<forall>p. store_step {p} n s s'" "sr_prod s' = sr_prod s"
  using assms
proof cases
  case (enq_check p len pkt)
  then have "store_step {p} n s s'" by (simp only:) (rule store_step.enq_check; simp)
  then show ?thesis using enq_check producer [of p] by simp
next
  case (enq_byte p pkt len k)
  then have "store_step {p} n s s'" by (simp only:) (rule store_step.enq_byte; simp)
  then show ?thesis using enq_byte producer [of p] by simp
next
  case (enq_copied p pkt len)
  then have "store_step {p} n s s'" by (simp only:) (rule store_step.enq_copied; simp)
  then show ?thesis using enq_copied producer [of p] by simp
next
  case (enq_len p pkt len)
  then have "store_step {p} n s s'" by (simp only:) (rule store_step.enq_len; simp)
  then show ?thesis using enq_len producer [of p] by simp
next
  case (enq_head p pkt len)
  then have "store_step {p} n s s'" by (simp only:) (rule store_step.enq_head; simp)
  then show ?thesis using enq_head producer [of p] by simp
next
  case deq_check
  then have "store_step {p} n s s'" for p by (simp only:) (rule store_step.deq_check; simp)
  then show ?thesis using deq_check consumer by simp
next
  case (deq_len len)
  then have "store_step {p} n s s'" for p by (simp only:) (rule store_step.deq_len; simp)
  then show ?thesis using deq_len consumer by simp
next
  case (deq_byte len bs)
  then have "store_step {p} n s s'" for p by (simp only:) (rule store_step.deq_byte; simp)
  then show ?thesis using deq_byte consumer by simp
next
  case (deq_copied len bs)
  then have "store_step {p} n s s'" for p by (simp only:) (rule store_step.deq_copied; simp)
  then show ?thesis using deq_copied consumer by simp
next
  case (deq_tail bs)
  then have "store_step {p} n s s'" for p by (simp only:) (rule store_step.deq_tail; simp)
  then show ?thesis using deq_tail consumer by simp
qed

definition excl_inv :: "nat set \<Rightarrow> store_run \<Rightarrow> bool" where
  "excl_inv P s \<longleftrightarrow> (\<forall>p. run_inv p s) \<and> enq_exclusive P s \<and> (\<forall>p. p \<notin> P \<longrightarrow> sr_prod s p = Enq_idle)"

lemma excl_inv_step:
  assumes "exclusive_step P n s s'" "excl_inv P s"
  shows "excl_inv P s'"
proof -
  have inv: "\<forall>p. run_inv p s" "enq_exclusive P s" "\<forall>p. p \<notin> P \<longrightarrow> sr_prod s p = Enq_idle"
    using assms(2) by (simp_all add: excl_inv_def)
  have step: "store_step P n s s'" "enq_exclusive P s'" using assms(1) by (simp_all add: exclusive_step_def)
  from step(1) show ?thesis
  proof (cases rule: store_step_single)
    case (producer p)
    have run: "run_inv p s'" using run_inv_step [OF producer(2)] inv(1) by blast
    have out: "q \<notin> P \<Longrightarrow> sr_prod s' q = Enq_idle" for q using producer(1,3) inv(3) by metis
    have "sr_prod s' q = Enq_idle" if "q \<noteq> p" for q
    proof (cases "q \<in> P")
      case True
      then show ?thesis
        using producer(1,3,4) that inv(2) step(2) unfolding enq_exclusive_def by metis
    qed (rule out)
    then have "run_inv q s'" for q
      using run by (cases "q = p") (simp_all add: run_inv_def)
    then show ?thesis using step(2) out by (simp add: excl_inv_def)
  next
    case consumer
    then show ?thesis using run_inv_step inv step(2) by (simp add: excl_inv_def) blast
  qed
qed

lemma excl_inv_reachable: "(exclusive_step P n)\<^sup>*\<^sup>* s s' \<Longrightarrow> excl_inv P s \<Longrightarrow> excl_inv P s'"
  by (induction rule: rtranclp_induct) (auto intro: excl_inv_step)

text \<open>
  C2: Several tasks may share the store exactly as long as their enqueues do not overlap.  From
  an empty store and for any number of producers, in every interleaving of their single steps and
  those of the consumer in which at most one producer is inside its call at a time, the packets
  taken out and those still in the store, in order, are exactly the packets whose enqueue was
  accepted, and at most 31 wait.  Without that, any two producers can lose one: there is a run of
  them, with all calls finished and two packets accepted, after which the store holds something
  else.
\<close>

theorem store_exclusive_lossless:
  assumes "store_wf st" "store_packets st = []"
  shows "((exclusive_step P n)\<^sup>*\<^sup>* (store_run_start st) s \<longrightarrow>
      sr_sent s = sr_got s @ store_packets (sr_store s) \<and> length (store_packets (sr_store s)) \<le> 31)
    \<and> (p \<in> P \<and> q \<in> P \<and> p \<noteq> q \<longrightarrow>
      (\<exists>s. (store_step P n)\<^sup>*\<^sup>* (store_run_start st) s \<and> (\<forall>p. sr_prod s p = Enq_idle)
        \<and> length (sr_sent s) = 2 \<and> sr_got s = [] \<and> set (sr_sent s) \<noteq> set (store_packets (sr_store s))))"
proof (intro conjI impI)
  have "excl_inv P (store_run_start st)"
    using assms by (simp add: excl_inv_def run_inv_def store_run_start_def enq_exclusive_def)
  then have "run_inv 0 s" if "(exclusive_step P n)\<^sup>*\<^sup>* (store_run_start st) s"
    using excl_inv_reachable [OF that] by (simp add: excl_inv_def)
  then show "sr_sent s = sr_got s @ store_packets (sr_store s)" "length (store_packets (sr_store s)) \<le> 31"
    if "(exclusive_step P n)\<^sup>*\<^sup>* (store_run_start st) s"
    using that store_fill_less [of "sr_store s"] by (simp_all add: run_inv_def)
next
  assume pq: "p \<in> P \<and> q \<in> P \<and> p \<noteq> q"
  define old where "old = slot_packet (ts_slots st ! unat (next_slot (ts_head st)))"
  define b :: u8 where "b = (if old = [1] then 3 else 1)"
  have "p \<in> P" "q \<in> P" "p \<noteq> q" using pq by simp_all
  then obtain s where s: "(store_step P n)\<^sup>*\<^sup>* (store_run_start st) s" "sr_sent s = [[2], [b]]" "sr_got s = []"
      "sr_prod s = (\<lambda>_. Enq_idle)" "store_packets (sr_store s) = [[2], old]"
    unfolding old_def by (rule store_two_producers_lose [OF assms])
  moreover have "[b] \<noteq> old" "[b] \<noteq> [2]" by (auto simp: b_def)
  ultimately show "\<exists>s. (store_step P n)\<^sup>*\<^sup>* (store_run_start st) s \<and> (\<forall>p. sr_prod s p = Enq_idle)
        \<and> length (sr_sent s) = 2 \<and> sr_got s = [] \<and> set (sr_sent s) \<noteq> set (store_packets (sr_store s))"
    by (intro exI [of _ s]) auto
qed

lemma store_exclusive_lossless_witness:
  "\<exists>s. (exclusive_step {0, 1} 1024)\<^sup>*\<^sup>* (store_run_start tm_store_bss) s \<and> sr_prod s 1 = Enq_copy [7] 1 0
    \<and> sr_sent s = sr_got s @ store_packets (sr_store s)
    \<and> (\<exists>s. (store_step {0, 1} 1024)\<^sup>*\<^sup>* (store_run_start tm_store_bss) s \<and> length (sr_sent s) = 2 \<and> sr_got s = []
        \<and> set (sr_sent s) \<noteq> set (store_packets (sr_store s)))"
proof -
  define s1 where "s1 = (store_run_start tm_store_bss)\<lparr>sr_prod := (\<lambda>_. Enq_idle)(1 := Enq_copy [7] 1 0)\<rparr>"
  have "store_step {0, 1} 1024 (store_run_start tm_store_bss) s1"
    using store_step.enq_check [of 1 "{0, 1}" "store_run_start tm_store_bss" 1 "[7]" 1024]
    by (simp add: s1_def store_run_start_def tm_store_bss_def next_slot_def)
  then have "(exclusive_step {0, 1} 1024)\<^sup>*\<^sup>* (store_run_start tm_store_bss) s1"
    by (intro r_into_rtranclp) (simp add: exclusive_step_def enq_exclusive_def s1_def)
  moreover have "store_packets tm_store_bss = []" by (simp add: store_packets_def store_fill_def tm_store_bss_def)
  ultimately show ?thesis
    using store_exclusive_lossless [OF tm_store_bss_wf, of "{0, 1}" 1024 s1 0 1]
    by (intro exI [of _ s1]) (auto simp: s1_def)
qed

end
