(* ===== verification/Stm_Main.thy ===== *)
theory Stm_Main
  imports Sim_Loop
begin

section \<open>The main program of the STM32H7 target\<close>

text \<open>
  \<^verbatim>\<open>src/platform/stm32h7/main.c\<close> in the build without FreeRTOS: the dispatcher with the ping
  and the parameter service, without a gate, and the loop over the UART.  The build with
  FreeRTOS starts the tasks of \<^verbatim>\<open>src/task\<close> instead and hands over to the scheduler.

  As for the ZynqMP target the UART is the stream of the bytes that arrive and the bytes
  sent, and the model stops where the program waits forever for a byte.  The set-up of clock,
  debug unit and display touches only registers and is left out; the reset cause that the
  banner shows is an argument, \<open>None\<close> in the build for the emulator, which does not print it.
\<close>

subsection \<open>UART helpers\<close>

definition stm_uart_getc :: "u8 list \<Rightarrow> (u8 \<times> u8 list) option" where
  "stm_uart_getc inp = (case inp of [] \<Rightarrow> None | b # rest \<Rightarrow> Some (b, rest))"

definition stm_uart_write_buf :: "u8 list \<Rightarrow> u16 \<Rightarrow> u8 list \<Rightarrow> u8 list" where
  "stm_uart_write_buf buf len out = out @ take (unat len) buf"

definition stm_uart_putc :: "u8 \<Rightarrow> u8 list \<Rightarrow> u8 list" where
  "stm_uart_putc b out = out @ [b]"

definition stm_write_tm_packet :: "u8 list \<Rightarrow> u16 \<Rightarrow> u8 list \<Rightarrow> u8 list" where
  "stm_write_tm_packet pkt len out =
    (let hdr = [0x04, ucast (drop_bit 8 len), ucast (len AND 0xFF)]
     in stm_uart_write_buf pkt len (stm_uart_write_buf hdr 3 out))"

primrec stm_get_bytes :: "nat \<Rightarrow> u8 list \<Rightarrow> (u8 list \<times> u8 list) option" where
  "stm_get_bytes 0 inp = Some ([], inp)"
| "stm_get_bytes (Suc n) inp =
    (case stm_uart_getc inp of None \<Rightarrow> None
     | Some (b, inp1) \<Rightarrow> map_option (\<lambda>(bs, inp2). (b # bs, inp2)) (stm_get_bytes n inp1))"

subsection \<open>The services\<close>

record stm_world =
  stw_env :: tm_env
  stw_s17 :: obsw_s17_ctx
  stw_s20 :: obsw_s20_ctx

definition stm_set_env :: "tm_env \<Rightarrow> stm_world \<Rightarrow> stm_world" where
  "stm_set_env e w = w\<lparr>stw_env := e\<rparr>"

definition stm_s17 :: "(stm_world \<Rightarrow> obsw_s17_ctx) \<times> (obsw_s17_ctx \<Rightarrow> stm_world \<Rightarrow> stm_world)" where
  "stm_s17 = (stw_s17, \<lambda>c w. w\<lparr>stw_s17 := c\<rparr>)"

definition stm_s20 :: "(stm_world \<Rightarrow> obsw_s20_ctx) \<times> (obsw_s20_ctx \<Rightarrow> stm_world \<Rightarrow> stm_world)" where
  "stm_s20 = (stw_s20, \<lambda>c w. w\<lparr>stw_s20 := c\<rparr>)"

definition stm_s20_params :: "'a srdb_scheme \<Rightarrow> obsw_s20_param list" where
  "stm_s20_params db = map (\<lambda>i. \<lparr>s20_param_id = i, s20_value = 0, s20_type = OBSW_S20_U32\<rparr>)
     [srdb_param_obc_uptime db, srdb_param_safe_mode_entry_count db, srdb_param_watchdog_kick_count db]"

definition stm_routes :: "stm_world obsw_tc_route list" where
  "stm_routes =
    [\<lparr>rt_apid = 0xFFFF, rt_service = 17, rt_subservice = 1, rt_handler = host_handler stw_env stm_set_env stm_s17 obsw_s17_ping\<rparr>,
     \<lparr>rt_apid = 0xFFFF, rt_service = 20, rt_subservice = 1, rt_handler = host_handler stw_env stm_set_env stm_s20 obsw_s20_set\<rparr>,
     \<lparr>rt_apid = 0xFFFF, rt_service = 20, rt_subservice = 3, rt_handler = host_handler stw_env stm_set_env stm_s20 obsw_s20_get\<rparr>]"

definition stm_dispatcher :: "stm_world obsw_tc_dispatcher" where
  "stm_dispatcher =
    (let d0 = \<lparr>d_table = [], d_table_len = 0, d_responder = (\<lambda>_ _ w. w), d_gate = None\<rparr>
     in the (snd (obsw_tc_dispatcher_init (Some d0) (Some stm_routes) (of_nat (length stm_routes))
                (Some (host_responder stw_env stm_set_env)))))"

subsection \<open>Start\<close>

text \<open>The local buffer keeps its bytes from one turn of the loop to the next; its first are arbitrary.\<close>

record stm =
  st_world :: stm_world
  st_frame :: "u8 list"
  st_tick :: u32
  st_out :: "u8 list"

definition stm_reset_cause :: "u32 \<Rightarrow> string" where
  "stm_reset_cause rsr =
    (if bit rsr 24 then ''[OBSW] Reset: IWDG''
     else if bit rsr 22 then ''[OBSW] Reset: BOR (supply)''
     else if bit rsr 23 then ''[OBSW] Reset: Software''
     else if bit rsr 21 then ''[OBSW] Reset: NRST pin''
     else if bit rsr 20 then ''[OBSW] Reset: POR (power-on)''
     else ''[OBSW] Reset: unknown'')"

definition stm_banner :: "'a srdb_scheme \<Rightarrow> u32 option \<Rightarrow> u8 list" where
  "stm_banner db rsr =
    [13, 10] @ map of_char ''[OBSW] STM32H750 started (wire protocol v3).'' @ [13, 10]
    @ map of_char (''[OBSW] SRDB version: '' @ srdb_version db) @ [13, 10]
    @ (case rsr of None \<Rightarrow> [] | Some r \<Rightarrow> map of_char (stm_reset_cause r) @ [13, 10])"

definition stm_start :: "'a srdb_scheme \<Rightarrow> u32 option \<Rightarrow> u8 list \<Rightarrow> stm" where
  "stm_start db rsr frame =
    (let apid = srdb_apid_default db; store = snd (obsw_tm_store_init (Some tm_store_bss)); params = stm_s20_params db
     in \<lparr>st_world = \<lparr>stw_env = \<lparr>env_s1 = Some \<lparr>s1_apid = apid, s1_msg_counter = 0, s1_timestamp = 0\<rparr>, env_store = store\<rparr>,
           stw_s17 = \<lparr>s17_apid = apid, s17_msg_counter = 0, s17_timestamp = 0\<rparr>,
           stw_s20 = \<lparr>s20_apid = apid, s20_msg_counter = 0, s20_timestamp = 0, s20_table = params,
                      s20_table_len = of_nat (length params)\<rparr>\<rparr>,
         st_frame = frame, st_tick = 0, st_out = stm_banner db rsr\<rparr>)"

subsection \<open>The loop\<close>

definition stm_flush_tm_store :: "stm \<Rightarrow> stm" where
  "stm_flush_tm_store s =
    (let w = st_world s;
         (store, out) = tm_drain stm_write_tm_packet 1024 (env_store (stw_env w), st_out s)
     in s\<lparr>st_world := w\<lparr>stw_env := (stw_env w)\<lparr>env_store := store\<rparr>\<rparr>, st_out := out\<rparr>)"

definition stm_tc_frame :: "u16 \<Rightarrow> stm \<Rightarrow> stm" where
  "stm_tc_frame frame_len s = stm_flush_tm_store (s\<lparr>st_world := snd (obsw_tc_dispatcher_feed (Some stm_dispatcher)
     (Some (st_frame s)) (ucast frame_len :: u32) (st_world s))\<rparr>)"

definition stm_sensor_frame :: "libm \<Rightarrow> u16 \<Rightarrow> stm \<Rightarrow> stm" where
  "stm_sensor_frame m frame_len s =
    (let w = st_world s; c = stw_s20 w;
         w1 = (case obsw_sim_parse_sensor (Some (st_frame s)) frame_len (Some (sensor_of_bytes [])) of
                 (ok, sn) \<Rightarrow>
                   if ok then w\<lparr>stw_s20 := c\<lparr>s20_table := (s20_table c)
                     [0 := (s20_table c ! 0)\<lparr>s20_value := f32_to_u32 m (sn_sim_time (the sn))\<rparr>]\<rparr>\<rparr>
                   else w)
     in s\<lparr>st_world := w1, st_tick := st_tick s + 1\<rparr>)"

definition stm_answer :: "libm \<Rightarrow> u8 \<Rightarrow> u16 \<Rightarrow> stm \<Rightarrow> stm" where
  "stm_answer m ty frame_len s =
    (let s1 = (if ty = SVF_FRAME_TC then stm_tc_frame frame_len s
               else if ty = SVF_FRAME_SENSOR then stm_sensor_frame m frame_len s else s)
     in s1\<lparr>st_out := stm_uart_putc 0xFF (st_out s1)\<rparr>)"

text \<open>Three header bytes, and for an acceptable length the frame.\<close>

definition stm_read_header :: "u8 list \<Rightarrow> (u8 \<times> u16 \<times> u8 list) option" where
  "stm_read_header inp =
    (case stm_get_bytes 3 inp of None \<Rightarrow> None
     | Some (hdr, rest) \<Rightarrow> Some (hdr ! 0, push_bit 8 (ucast (hdr ! 1)) OR ucast (hdr ! 2), rest))"

lemma stm_get_bytes_take:
  "stm_get_bytes n inp = (if n \<le> length inp then Some (take n inp, drop n inp) else None)"
  by (induction n arbitrary: inp) (auto simp: stm_uart_getc_def split: list.split)

lemma stm_get_bytes_shorter: "stm_get_bytes n inp = Some (bs, rest) \<Longrightarrow> length rest = length inp - n \<and> n \<le> length inp"
  by (auto simp: stm_get_bytes_take split: if_splits)

lemma stm_read_header_shorter: "stm_read_header inp = Some (ty, n, rest) \<Longrightarrow> length rest < length inp"
  by (auto simp: stm_read_header_def dest!: stm_get_bytes_shorter split: option.splits)

function stm_loop :: "libm \<Rightarrow> u8 list \<Rightarrow> stm \<Rightarrow> stm" where
  "stm_loop m inp s =
    (case stm_read_header inp of None \<Rightarrow> s
     | Some (ty, frame_len, rest) \<Rightarrow>
         if frame_len = 0 \<or> 512 < frame_len then stm_loop m rest s
         else (case stm_get_bytes (unat frame_len) rest of None \<Rightarrow> s
           | Some (bs, rest1) \<Rightarrow>
               stm_loop m rest1 (stm_answer m ty frame_len (s\<lparr>st_frame := bs @ drop (unat frame_len) (st_frame s)\<rparr>))))"
  by pat_completeness auto

termination stm_loop
  by (relation "measure (\<lambda>(m, inp, s). length inp)")
    (auto dest!: stm_read_header_shorter stm_get_bytes_shorter)

declare stm_loop.simps [simp del]

definition stm_main :: "libm \<Rightarrow> 'a srdb_scheme \<Rightarrow> u32 option \<Rightarrow> u8 list \<Rightarrow> u8 list \<Rightarrow> stm" where
  "stm_main m db rsr frame inp = stm_loop m inp (stm_start db rsr frame)"

end
