(* ===== verification/Stm_System.thy ===== *)
theory Stm_System
  imports Stm_Main Sim_System
begin

section \<open>The STM32H7 program as a whole\<close>

text \<open>
  The two services keep their invariant and verify every command, by the locales of
  \<^verbatim>\<open>Tc_Host\<close>, and every frame on the link is answered by one group of messages.
\<close>

definition stm_param_ids :: "'a srdb_scheme \<Rightarrow> u16 list" where
  "stm_param_ids db = map s20_param_id (stm_s20_params db)"

definition stm_wf :: "'a srdb_scheme \<Rightarrow> stm_world \<Rightarrow> bool" where
  "stm_wf db w \<longleftrightarrow> tm_ok (env_store (stw_env w)) \<and> env_store (stw_env w) \<noteq> None
    \<and> s20_table_ids (stm_param_ids db) 3 (stw_s20 w)"

lemmas stm_part_simps = stm_wf_def stm_s17_def stm_s20_def stm_set_env_def tm_next_def

interpretation stm: host_world stw_env stm_set_env "stm_wf db" for db
  by unfold_locales (simp_all add: stm_part_simps)
interpretation stp17: host_part stw_env stm_set_env "stm_wf db" stm_s17 "\<lambda>_. True" for db
  by unfold_locales (simp_all add: stm_part_simps)
interpretation stp20: host_part stw_env stm_set_env "stm_wf db" stm_s20 "s20_table_ids (stm_param_ids db) 3" for db
  by unfold_locales (simp_all add: stm_part_simps)

lemma stm_dispatcher_simps [simp]:
  "d_table stm_dispatcher = stm_routes" "d_table_len stm_dispatcher = 3"
  "d_responder stm_dispatcher = host_responder stw_env stm_set_env" "d_gate stm_dispatcher = None"
  by (simp_all add: stm_dispatcher_def obsw_tc_dispatcher_init_def stm_routes_def Let_def)

lemma stm_routes_handled:
  assumes "stm_wf db w" "tc_wf tc" "r \<in> set stm_routes"
  shows "host_handled stw_env stm_set_env (stm_wf db) tc w (rt_handler r tc respond w)"
  using assms(3) stp17.hosted [OF s17.s1_service_axioms assms(1,2)]
    stp20.hosted [OF s20_set_ids.s1_service_axioms assms(1,2)] stp20.hosted [OF s20_get_ids.s1_service_axioms assms(1,2)]
  by (auto simp: stm_routes_def)

interpretation stm_disp: host_routes stw_env stm_set_env "stm_wf db" stm_dispatcher for db
  by unfold_locales (use stm_routes_handled in \<open>simp_all add: stm_routes_def\<close>)

subsection \<open>Between two frames\<close>

definition stm_ok :: "'a srdb_scheme \<Rightarrow> stm \<Rightarrow> bool" where
  "stm_ok db s \<longleftrightarrow> stm_wf db (st_world s) \<and> tm_queue (env_store (stw_env (st_world s))) = [] \<and> length (st_frame s) = 512"

definition stm_answers :: "'a srdb_scheme \<Rightarrow> stm \<Rightarrow> svf_msg list \<Rightarrow> stm \<Rightarrow> bool" where
  "stm_answers db s ms s' \<longleftrightarrow> stm_ok db s' \<and> st_out s' = st_out s @ concat (map svf_msg_bytes ms)"

lemma stm_writes_as_sim: "stm_write_tm_packet = write_tm_packet"
  by (simp add: fun_eq_iff stm_write_tm_packet_def stm_uart_write_buf_def write_tm_packet_def Let_def)

text \<open>The world \<open>w'\<close> is \<open>w\<close> with its telemetry taken out of the store.\<close>

definition stm_drained :: "stm_world \<Rightarrow> stm_world \<Rightarrow> bool" where
  "stm_drained w w' \<longleftrightarrow> (\<exists>store. tm_queue store = [] \<and> w' = stm_set_env ((stw_env w)\<lparr>env_store := store\<rparr>) w)"

lemma stm_flush_answers:
  assumes "stm_wf db (st_world s)" "length (st_frame s) = 512"
  obtains w' where "stm_drained (st_world s) w'" "stm_flush_tm_store s = s\<lparr>st_world := w',
      st_out := st_out s @ concat (map svf_msg_bytes (map Tm (tm_queue (env_store (stw_env (st_world s))))))\<rparr>"
    "stm_answers db s (map Tm (tm_queue (env_store (stw_env (st_world s))))) (stm_flush_tm_store s)"
proof -
  let ?w = "st_world s"
  let ?e = "stw_env ?w"
  have ok: "tm_ok (env_store ?e)" using assms(1) by (simp add: stm_wf_def)
  have "\<forall>x \<in> set (tm_queue (env_store ?e)). length x \<le> unat (1024 :: u64)"
    using tm_queue_packet_length [OF ok] by simp
  then obtain store where d: "tm_drain stm_write_tm_packet 1024 (env_store ?e, st_out s)
      = (store, st_out s @ concat (map (svf_msg_bytes \<circ> Tm) (tm_queue (env_store ?e))))"
    and st: "tm_ok store" "tm_queue store = []" "store = None \<longleftrightarrow> env_store ?e = None"
    unfolding stm_writes_as_sim by (rule tm_drain_all [OF write_tm_packet_writer ok])
  have wf: "stm_wf db (stm_set_env (?e\<lparr>env_store := store\<rparr>) ?w)"
    using st by (intro stm.env_wf [OF assms(1)]) (simp add: tm_next_def)
  show thesis
  proof (rule that)
    show "stm_drained ?w (stm_set_env (?e\<lparr>env_store := store\<rparr>) ?w)" using st by (auto simp: stm_drained_def)
    show "stm_flush_tm_store s = s\<lparr>st_world := stm_set_env (?e\<lparr>env_store := store\<rparr>) ?w,
        st_out := st_out s @ concat (map svf_msg_bytes (map Tm (tm_queue (env_store ?e))))\<rparr>"
      by (simp add: stm_flush_tm_store_def d Let_def comp_def stm_set_env_def)
    show "stm_answers db s (map Tm (tm_queue (env_store ?e))) (stm_flush_tm_store s)"
      using wf assms(2) st by (simp add: stm_answers_def stm_ok_def stm_flush_tm_store_def d Let_def comp_def stm_set_env_def)
  qed
qed

subsection \<open>What an answer is\<close>

text \<open>What one command makes of the world and of the store it found empty.\<close>

definition stm_commanded :: "u8 list \<Rightarrow> u32 \<Rightarrow> obsw_tc \<Rightarrow> stm_world \<Rightarrow> tm_item list \<Rightarrow> stm_world \<Rightarrow> bool" where
  "stm_commanded b n tc w xs w' \<longleftrightarrow>
    (\<exists>rc. obsw_tc_dispatcher_feed (Some stm_dispatcher) (Some b) n w = (rc, w')
      \<and> verified (if rc = OBSW_TC_OK then 0 else -1) xs)
    \<and> env_does tc (stw_env w) xs (stw_env w')
    \<and> tm_queue (env_store (stw_env w')) = take 31 (item_packets (env_s1 (stw_env w)) tc xs)"

lemma stm_tc_commanded:
  fixes n :: u32
  assumes "stm_ok db s" "unat n \<le> 512" "feed_tc (st_frame s) n = Some tc"
  obtains xs w where "stm_commanded (st_frame s) n tc (st_world s) xs w"
    "w = snd (obsw_tc_dispatcher_feed (Some stm_dispatcher) (Some (st_frame s)) n (st_world s))"
proof -
  let ?w = "st_world s"
  have wf: "stm_wf db ?w" "unat n \<le> length (st_frame s)"
    using assms(1,2) by (simp_all add: stm_ok_def)
  have "17 \<le> LENGTH(32)" by simp
  from stm_disp.routed_verified [OF this wf assms(3)]
  obtain rc w' xs where f: "obsw_tc_dispatcher_feed (Some stm_dispatcher) (Some (st_frame s)) n ?w = (rc, w')"
    "env_does tc (stw_env ?w) xs (stw_env w')" "verified (if rc = OBSW_TC_OK then 0 else -1) xs" by blast
  have "tm_queue (env_store (stw_env w')) = take 31 (item_packets (env_s1 (stw_env ?w)) tc xs)"
    using f(2) assms(1) by (auto simp: env_does_def tm_offered_def stm_ok_def stm_wf_def)
  then have "stm_commanded (st_frame s) n tc ?w xs w'"
    unfolding stm_commanded_def using f by blast
  then show thesis by (rule that) (simp add: f(1))
qed

text \<open>The world after a complete sensor frame: the parameter of the uptime follows its time.\<close>

definition stm_uptime :: "u32 \<Rightarrow> stm_world \<Rightarrow> stm_world" where
  "stm_uptime t w = w\<lparr>stw_s20 := (stw_s20 w)\<lparr>s20_table := (s20_table (stw_s20 w))
     [0 := (s20_table (stw_s20 w) ! 0)\<lparr>s20_value := t\<rparr>]\<rparr>\<rparr>"

text \<open>
  How the state \<open>s\<close> answers a frame, with which messages, and what becomes of the state.  The
  buffer \<open>b\<close> has the body at its start and behind it what earlier frames left there; the user
  data of a command is a pointer into it.

  A command is dispatched in the world as it stands; its reports are those of its verification
  and of the service that ran it, with the message counter of S1 where the previous frame left
  it, and the store, empty before, takes the first 31.  A sensor frame counts one tick.  The
  sync byte ends every answer.
\<close>

inductive stm_served :: "libm \<Rightarrow> stm \<Rightarrow> u8 \<times> u8 list \<Rightarrow> svf_msg list \<Rightarrow> stm \<Rightarrow> bool" for m where
  stm_served_command: "b = d @ drop (length d) (st_frame s) \<Longrightarrow> feed_tc b (of_nat (length d) :: u32) = Some tc
    \<Longrightarrow> stm_commanded b (of_nat (length d)) tc (st_world s) xs w \<Longrightarrow> stm_drained w w'
    \<Longrightarrow> ms = map Tm (take 31 (item_packets (env_s1 (stw_env (st_world s))) tc xs)) @ [Sync]
    \<Longrightarrow> stm_served m s (SVF_FRAME_TC, d) ms
      (s\<lparr>st_world := w', st_frame := b, st_out := st_out s @ concat (map svf_msg_bytes ms)\<rparr>)"
| stm_served_no_command: "b = d @ drop (length d) (st_frame s) \<Longrightarrow> feed_tc b (of_nat (length d) :: u32) = None
    \<Longrightarrow> stm_drained (st_world s) w'
    \<Longrightarrow> stm_served m s (SVF_FRAME_TC, d) [Sync]
      (s\<lparr>st_world := w', st_frame := b, st_out := st_out s @ svf_msg_bytes Sync\<rparr>)"
| stm_served_sensor: "b = d @ drop (length d) (st_frame s)
    \<Longrightarrow> w' = (if length d < 47 then st_world s else stm_uptime (f32_to_u32 m (sn_sim_time (sensor_of_bytes d))) (st_world s))
    \<Longrightarrow> stm_served m s (SVF_FRAME_SENSOR, d) [Sync]
      (s\<lparr>st_world := w', st_frame := b, st_tick := st_tick s + 1, st_out := st_out s @ svf_msg_bytes Sync\<rparr>)"
| stm_served_other: "b = d @ drop (length d) (st_frame s) \<Longrightarrow> ty \<noteq> SVF_FRAME_TC \<Longrightarrow> ty \<noteq> SVF_FRAME_SENSOR
    \<Longrightarrow> stm_served m s (ty, d) [Sync] (s\<lparr>st_frame := b, st_out := st_out s @ svf_msg_bytes Sync\<rparr>)"

inductive_cases stm_served_tcE: "stm_served m s (SVF_FRAME_TC, d) ms s'"

lemma stm_answers_sync:
  "stm_answers db s ms s' \<Longrightarrow> stm_answers db s (ms @ [Sync]) (s'\<lparr>st_out := stm_uart_putc 0xFF (st_out s')\<rparr>)"
  by (simp add: stm_answers_def stm_ok_def stm_uart_putc_def)

lemma stm_uptime_wf: "stm_wf db w \<Longrightarrow> stm_wf db (stm_uptime t w)"
proof -
  have "map s20_param_id (xs[0 := (xs ! 0)\<lparr>s20_value := v\<rparr>]) = map s20_param_id xs" for xs :: "obsw_s20_param list" and v
    by (cases xs) simp_all
  then show "stm_wf db w \<Longrightarrow> stm_wf db (stm_uptime t w)"
    by (simp add: stm_uptime_def stm_wf_def s20_table_ids_def)
qed

lemma stm_sensor_frame_uptime:
  "stm_sensor_frame m n s = s\<lparr>st_world := (if n < OBSW_SENSOR_FRAME_LEN then st_world s
      else stm_uptime (f32_to_u32 m (sn_sim_time (sensor_of_bytes (st_frame s)))) (st_world s)), st_tick := st_tick s + 1\<rparr>"
  by (simp add: stm_sensor_frame_def obsw_sim_parse_sensor_def stm_uptime_def Let_def)

lemma stm_answer_served:
  assumes "stm_ok db s1" "s1 = s\<lparr>st_frame := b\<rparr>" "length d = unat n" "length d \<le> 512" "b = d @ drop (length d) (st_frame s)"
  obtains ms where "stm_answers db s1 ms (stm_answer m ty n s1)" "stm_served m s (ty, d) ms (stm_answer m ty n s1)"
proof -
  have n: "(of_nat (length d) :: u32) = ucast n" by (simp add: assms(3))
  have n512: "unat (ucast n :: u32) \<le> 512" using assms(3,4) by (simp add: unat_ucast_u16)
  have same: "st_world s1 = st_world s" "st_frame s1 = b" "st_out s1 = st_out s" by (simp_all add: assms(2))
  have ok: "stm_wf db (st_world s)" "tm_queue (env_store (stw_env (st_world s))) = []" "length b = 512"
    using assms(1) by (simp_all add: stm_ok_def assms(2))
  have sync: "stm_uart_putc 0xFF out = out @ svf_msg_bytes Sync" for out by (simp add: stm_uart_putc_def)
  consider (tc) "ty = SVF_FRAME_TC" | (sensor) "ty = SVF_FRAME_SENSOR"
    | (other) "ty \<noteq> SVF_FRAME_TC" "ty \<noteq> SVF_FRAME_SENSOR" by blast
  then show thesis
  proof cases
    case tc
    define w where "w = snd (obsw_tc_dispatcher_feed (Some stm_dispatcher) (Some b) (ucast n :: u32) (st_world s))"
    let ?q = "map Tm (tm_queue (env_store (stw_env w)))"
    define s2 where "s2 = s1\<lparr>st_world := w\<rparr>"
    have "17 \<le> LENGTH(32)" "unat (ucast n :: u32) \<le> length b" using n512 ok(3) by simp_all
    from stm_disp.feed_keeps [OF this ok(1)] ok(3)
    have w: "stm_wf db (st_world s2)" "length (st_frame s2) = 512" "st_world s2 = w" by (simp_all add: s2_def w_def same)
    obtain w' where w': "stm_drained w w'" "stm_flush_tm_store s2 = s2\<lparr>st_world := w', st_out := st_out s2 @ concat (map svf_msg_bytes ?q)\<rparr>"
      "stm_answers db s2 ?q (stm_flush_tm_store s2)"
      using stm_flush_answers [OF w(1,2)] unfolding w(3) by blast
    have a: "stm_answer m ty n s1 = (stm_flush_tm_store s2)\<lparr>st_out := stm_uart_putc 0xFF (st_out (stm_flush_tm_store s2))\<rparr>"
      by (simp add: stm_answer_def tc stm_tc_frame_def s2_def w_def same Let_def)
    have ans: "stm_answers db s1 ?q (stm_flush_tm_store s2)"
      using w'(3) by (simp add: stm_answers_def s2_def)
    have e: "stm_answer m ty n s1 = s\<lparr>st_world := w', st_frame := b, st_out := st_out s @ concat (map svf_msg_bytes (?q @ [Sync]))\<rparr>"
      unfolding a unfolding w'(2) unfolding s2_def unfolding assms(2) by (simp add: sync)
    have "stm_served m s (ty, d) (?q @ [Sync]) (stm_answer m ty n s1)"
    proof (cases "feed_tc b (ucast n :: u32)")
      case None
      then have "w = st_world s" by (simp add: w_def feed_eq)
      then show ?thesis
        unfolding e unfolding tc using stm_served_no_command [OF assms(5), of w' m] None w'(1) ok(2) by (simp add: n)
    next
      case (Some t)
      obtain xs v where v: "stm_commanded b (ucast n) t (st_world s) xs v" "v = w"
        using stm_tc_commanded [OF assms(1) n512, of t] Some by (metis same(1,2) w_def)
      then have "?q = map Tm (take 31 (item_packets (env_s1 (stw_env (st_world s))) t xs))"
        by (simp add: stm_commanded_def)
      then show ?thesis
        unfolding e unfolding tc using Some v w'(1) assms(5) by (intro stm_served_command) (simp_all add: n)
    qed
    moreover have "stm_answers db s1 (?q @ [Sync]) (stm_answer m ty n s1)"
      unfolding a by (rule stm_answers_sync [OF ans])
    ultimately show thesis by (intro that)
  next
    case sensor
    define w' where "w' = (if length d < 47 then st_world s else stm_uptime (f32_to_u32 m (sn_sim_time (sensor_of_bytes d))) (st_world s))"
    have lt: "n < OBSW_SENSOR_FRAME_LEN \<longleftrightarrow> length d < 47" by (simp add: less_literal assms(3))
    have sn: "sensor_of_bytes b = sensor_of_bytes d" if "\<not> length d < 47"
      using sensor_of_bytes_take [of "length d" b] that by (simp add: assms(5))
    have "st_world (stm_sensor_frame m n s1) = w'" using lt sn by (simp add: stm_sensor_frame_uptime w'_def same)
    then have f: "stm_sensor_frame m n s1 = s1\<lparr>st_world := w', st_tick := st_tick s1 + 1\<rparr>"
      by (simp add: stm_sensor_frame_uptime)
    have a: "stm_answer m ty n s1 = (stm_sensor_frame m n s1)\<lparr>st_out := stm_uart_putc 0xFF (st_out (stm_sensor_frame m n s1))\<rparr>"
      by (simp add: stm_answer_def sensor Let_def)
    have "env_store (stw_env w') = env_store (stw_env (st_world s))" "stm_wf db w'"
      using ok(1) by (simp_all add: w'_def stm_uptime_wf) (simp add: stm_uptime_def)
    then have "stm_answers db s1 [] (stm_sensor_frame m n s1)"
      unfolding f using ok by (simp add: stm_answers_def stm_ok_def same)
    from stm_answers_sync [OF this] have "stm_answers db s1 [Sync] (stm_answer m ty n s1)" by (simp add: a)
    moreover have "stm_answer m ty n s1 = s\<lparr>st_world := w', st_frame := b, st_tick := st_tick s + 1, st_out := st_out s @ svf_msg_bytes Sync\<rparr>"
      unfolding a unfolding f unfolding assms(2) by (simp add: sync)
    then have "stm_served m s (ty, d) [Sync] (stm_answer m ty n s1)"
      unfolding sensor using stm_served_sensor [OF assms(5) w'_def] by simp
    ultimately show thesis by (rule that)
  next
    case other
    then have a: "stm_answer m ty n s1 = s1\<lparr>st_out := stm_uart_putc 0xFF (st_out s1)\<rparr>" by (simp add: stm_answer_def Let_def)
    have "stm_answers db s1 ([] @ [Sync]) (stm_answer m ty n s1)"
      unfolding a by (rule stm_answers_sync) (simp add: stm_answers_def assms(1))
    moreover have "stm_served m s (ty, d) [Sync] (stm_answer m ty n s1)"
      unfolding a using stm_served_other [OF assms(5) other, of m] by (simp add: sync assms(2))
    ultimately show thesis using that by simp
  qed
qed

subsection \<open>All frames\<close>

text \<open>
  The frames of a stream.  A header that announces no bytes or more than 512 is skipped and the
  bytes behind it are read as the next header.
\<close>

function stm_input :: "u8 list \<Rightarrow> (u8 \<times> u8 list) list" where
  "stm_input inp =
    (case stm_read_header inp of None \<Rightarrow> []
     | Some (ty, n, rest) \<Rightarrow>
         if n = 0 \<or> 512 < n then stm_input rest
         else if length rest < unat n then []
         else (ty, take (unat n) rest) # stm_input (drop (unat n) rest))"
  by pat_completeness auto
termination by (relation "measure length") (auto dest!: stm_read_header_shorter)

declare stm_input.simps [simp del]

lemma stm_loop_answers:
  assumes "stm_ok db s"
  shows "\<exists>answers. stm_answers db s (concat answers) (stm_loop m inp s)
    \<and> frames_served (stm_served m) s (stm_input inp) answers (stm_loop m inp s)"
  using assms
proof (induction "length inp" arbitrary: inp s rule: less_induct)
  case less
  note loop = stm_loop.simps [of m inp s] and input = stm_input.simps [of inp]
  have stop: ?case if "stm_loop m inp s = s" "stm_input inp = []"
    using that less.prems by (intro exI [of _ "[]"]) (simp add: stm_answers_def)
  show ?case
  proof (cases "stm_read_header inp")
    case None
    then show ?thesis using loop input by (intro stop) simp_all
  next
    case (Some h)
    obtain ty n rest where h: "stm_read_header inp = Some (ty, n, rest)" using Some by (cases h) auto
    note shorter = stm_read_header_shorter [OF h]
    show ?thesis
    proof (cases "n = 0 \<or> 512 < n")
      case True
      then show ?thesis using less.hyps [OF shorter less.prems] h loop input by simp
    next
      case False
      show ?thesis
      proof (cases "length rest < unat n")
        case True
        then show ?thesis using False h loop input by (intro stop) (simp_all add: stm_get_bytes_take)
      next
        case fits: False
        define d where "d = take (unat n) rest"
        define s1 where "s1 = s\<lparr>st_frame := d @ drop (unat n) (st_frame s)\<rparr>"
        define s2 where "s2 = stm_answer m ty n s1"
        have n: "unat n \<le> 512" using False by (simp add: word_le_nat_alt not_less)
        have d: "length d = unat n" using fits by (simp add: d_def)
        have s1: "stm_ok db s1" "st_out s1 = st_out s"
          using less.prems n d by (simp_all add: stm_ok_def s1_def)
        have l512: "length d \<le> 512" and pre: "d @ drop (unat n) (st_frame s) = d @ drop (length d) (st_frame s)" using n d by simp_all
        obtain ms where ms: "stm_answers db s1 ms s2" "stm_served m s (ty, d) ms s2"
          unfolding s2_def by (rule stm_answer_served [OF s1(1) s1_def d l512 pre])
        have "length (drop (unat n) rest) < length inp" using shorter by simp
        from less.hyps [OF this, of s2] ms(1) obtain answers where
          a: "stm_answers db s2 (concat answers) (stm_loop m (drop (unat n) rest) s2)"
            "frames_served (stm_served m) s2 (stm_input (drop (unat n) rest)) answers (stm_loop m (drop (unat n) rest) s2)"
          by (auto simp: stm_answers_def)
        have l: "stm_loop m inp s = stm_loop m (drop (unat n) rest) s2"
          using loop h False fits by (simp add: stm_get_bytes_take s1_def s2_def d_def)
        then have "stm_answers db s (concat (ms # answers)) (stm_loop m inp s)"
          using ms(1) a(1) s1(2) by (simp add: stm_answers_def)
        moreover have "stm_input inp = (ty, d) # stm_input (drop (unat n) rest)"
          using input h False fits by (simp add: d_def)
        ultimately show ?thesis using ms(2) a(2) l by (intro exI [of _ "ms # answers"]) auto
      qed
    qed
  qed
qed

lemma stm_start_ok:
  assumes "length frame = 512"
  shows "stm_ok db (stm_start db rsr frame)"
proof -
  have store: "store_packets (tm_store_bss\<lparr>ts_head := 0, ts_tail := 0\<rparr>) = []" "store_wf (tm_store_bss\<lparr>ts_head := 0, ts_tail := 0\<rparr>)"
    by (simp_all add: store_packets_def store_fill_def tm_store_bss_def store_wf_def slot_wf_def list_all_iff)
  have "length (stm_s20_params db) = 3" by (simp add: stm_s20_params_def)
  then show ?thesis
    using assms store by (simp add: stm_ok_def stm_start_def Let_def stm_wf_def s20_table_ids_def stm_param_ids_def
        obsw_tm_store_init_def)
qed

text \<open>
  C5: The superloop of the STM32H7 board answers every frame.  Whatever bytes reach its UART, it
  sends the banner and then one answer for each complete frame of the input, in order, each
  given from the state the answer before it left: a command is dispatched in that state and
  answered by the reports of its own verification and execution, in order and with the next
  message counters, cut only by the 31 places of the store; a sensor frame counts a tick and,
  complete, sets the uptime parameter; any other frame changes nothing.  A sync byte ends every
  answer.
\<close>

theorem stm_answers_every_frame:
  assumes "length frame = 512"
  shows "\<exists>answers. frames_served (stm_served m) (stm_start db rsr frame) (stm_input inp) answers (stm_main m db rsr frame inp)
    \<and> st_out (stm_main m db rsr frame inp) = stm_banner db rsr @ concat (map svf_msg_bytes (concat answers))
    \<and> tm_queue (env_store (stw_env (st_world (stm_main m db rsr frame inp)))) = []"
proof -
  obtain answers where "stm_answers db (stm_start db rsr frame) (concat answers) (stm_main m db rsr frame inp)"
      "frames_served (stm_served m) (stm_start db rsr frame) (stm_input inp) answers (stm_main m db rsr frame inp)"
    unfolding stm_main_def using stm_loop_answers [OF stm_start_ok [OF assms], of db rsr m inp] by blast
  moreover have "st_out (stm_start db rsr frame) = stm_banner db rsr" by (simp add: stm_start_def Let_def)
  ultimately show ?thesis unfolding stm_answers_def stm_ok_def by (intro exI [of _ answers]) simp
qed

lemma stm_answers_every_frame_witness:
  "\<exists>c rc xs. env_s1 (stw_env (st_world (stm_start sim_example_srdb None (replicate (Suc 511) 0)))) = Some c \<and> verified rc xs
    \<and> st_out (stm_main sim_example_libm sim_example_srdb None (replicate (Suc 511) 0) (frame_bytes SVF_FRAME_TC sim_example_ping))
      = stm_banner sim_example_srdb None
        @ concat (map svf_msg_bytes (map Tm (take 31 (item_packets (Some c) sim_example_tc xs)) @ [Sync]))"
proof -
  let ?db = sim_example_srdb
  define fr :: "u8 list" where "fr = replicate (Suc 511) 0"
  let ?s = "stm_start ?db None fr"
  have inp: "stm_input (frame_bytes SVF_FRAME_TC sim_example_ping) = [(SVF_FRAME_TC, sim_example_ping)]"
  proof -
    have bytes: "frame_bytes SVF_FRAME_TC sim_example_ping = [1, 0, 11, 0x18, 0x10, 0xC0, 0, 0, 4, 0x20, 17, 1, 0, 0]"
      by (simp add: frame_bytes_def be_bytes16_def sim_example_ping_def)
    show ?thesis unfolding bytes
      by (simp add: stm_input.simps [of "[1, 0, 11, 0x18, 0x10, 0xC0, 0, 0, 4, 0x20, 17, 1, 0, 0]"] stm_input.simps [of "[]"]
          stm_read_header_def stm_get_bytes_take numeral_3_eq_3 sim_example_ping_def)
  qed
  have feed: "feed_tc b (11 :: u32) = Some sim_example_tc" if "b = sim_example_ping @ r" for b r
    using sim_example_feed(2) that by simp
  obtain c where c: "env_s1 (stw_env (st_world ?s)) = Some c"
    by (simp add: stm_start_def Let_def)
  have "length fr = 512" by (simp add: fr_def)
  from stm_answers_every_frame [OF this, of sim_example_libm ?db None "frame_bytes SVF_FRAME_TC sim_example_ping"]
  obtain ms s1 where ms: "stm_served sim_example_libm ?s (SVF_FRAME_TC, sim_example_ping) ms s1"
    "st_out (stm_main sim_example_libm ?db None fr (frame_bytes SVF_FRAME_TC sim_example_ping))
      = stm_banner ?db None @ concat (map svf_msg_bytes ms)"
    unfolding inp by auto
  from ms(1) obtain rc xs where "verified rc xs" "ms = map Tm (take 31 (item_packets (Some c) sim_example_tc xs)) @ [Sync]"
    by (cases rule: stm_served_tcE) (auto simp: feed c stm_commanded_def)
  with ms(2) c show ?thesis unfolding fr_def by metis
qed

text \<open>
  A header that announces no bytes or more than 512 is dropped without its payload and without a
  sync byte: the bytes that follow are read as the next header.
\<close>

lemma stm_oversized_desync:
  assumes "(push_bit 8 (ucast hi) OR ucast lo :: u16) = 0 \<or> 512 < (push_bit 8 (ucast hi) OR ucast lo :: u16)"
  shows "stm_loop m (ty # hi # lo # rest) s = stm_loop m rest s"
  using assms by (subst stm_loop.simps) (auto simp: stm_read_header_def stm_get_bytes_take numeral_3_eq_3)

end
