(* ===== verification/Stm_Hardware.thy ===== *)
theory Stm_Hardware
  imports Stm_System Uart "HOL-Library.Monad_Syntax"
begin

section \<open>The STM32H7 program on its registers\<close>

text \<open>
  The superloop of \<^verbatim>\<open>src/platform/stm32h7/main.c\<close> once more, now on the driver of
  \<^verbatim>\<open>src/hal/stm32h7/uart.c\<close>: every byte is read from and written to the registers of USART3, on
  a device of which nothing is assumed but that it gets ready.  \<open>Stm_Main\<close> has the same loop on
  a stream of bytes; the loop on the registers refines it, with the bytes taken from the
  receive register as the stream and those put into the transmit register as the output.
  The output list of the record \<open>stm\<close> is not used here.
\<close>

subsection \<open>The loop\<close>

definition hw_getc :: "'h mmio \<Rightarrow> 'h \<Rightarrow> (u8 \<times> 'h) option" where
  "hw_getc hw h = map_option (\<lambda>(_, buf, h). (buf ! 0, h)) (stm_uart_read hw [0] 1 h)"

definition hw_write_buf :: "'h mmio \<Rightarrow> u8 list \<Rightarrow> u16 \<Rightarrow> 'h \<Rightarrow> 'h option" where
  "hw_write_buf hw buf len h = map_option snd (stm_uart_write hw buf len h)"

definition hw_putc :: "'h mmio \<Rightarrow> u8 \<Rightarrow> 'h \<Rightarrow> 'h option" where
  "hw_putc hw b h = hw_write_buf hw [b] 1 h"

definition hw_write_tm_packet :: "'h mmio \<Rightarrow> u8 list \<Rightarrow> u16 \<Rightarrow> 'h \<Rightarrow> 'h option" where
  "hw_write_tm_packet hw pkt len h = do {
     h \<leftarrow> hw_write_buf hw [0x04, ucast (drop_bit 8 len), ucast (len AND 0xFF)] 3 h;
     hw_write_buf hw pkt len h }"

primrec hw_get_bytes :: "'h mmio \<Rightarrow> nat \<Rightarrow> 'h \<Rightarrow> (u8 list \<times> 'h) option" where
  "hw_get_bytes hw 0 h = Some ([], h)"
| "hw_get_bytes hw (Suc n) h = do { (b, h) \<leftarrow> hw_getc hw h; (bs, h) \<leftarrow> hw_get_bytes hw n h; Some (b # bs, h) }"

definition hw_flush :: "'h mmio \<Rightarrow> stm \<Rightarrow> 'h \<Rightarrow> (stm \<times> 'h) option" where
  "hw_flush hw s h =
    (let w = st_world s;
         (store, h) = tm_drain (\<lambda>pkt len h. Option.bind h (hw_write_tm_packet hw pkt len)) 1024 (env_store (stw_env w), Some h)
     in map_option (\<lambda>h. (s\<lparr>st_world := w\<lparr>stw_env := (stw_env w)\<lparr>env_store := store\<rparr>\<rparr>\<rparr>, h)) h)"

definition hw_answer :: "libm \<Rightarrow> 'h mmio \<Rightarrow> u8 \<Rightarrow> u16 \<Rightarrow> stm \<Rightarrow> 'h \<Rightarrow> (stm \<times> 'h) option" where
  "hw_answer m hw ty frame_len s h = do {
     (s, h) \<leftarrow>
       (if ty = SVF_FRAME_TC
        then hw_flush hw (s\<lparr>st_world := snd (obsw_tc_dispatcher_feed (Some stm_dispatcher)
               (Some (st_frame s)) (ucast frame_len :: u32) (st_world s))\<rparr>) h
        else Some (if ty = SVF_FRAME_SENSOR then stm_sensor_frame m frame_len s else s, h));
     h \<leftarrow> hw_putc hw 0xFF h;
     Some (s, h) }"

text \<open>One turn of the loop, and \<open>n\<close> of them.\<close>

definition hw_turn :: "libm \<Rightarrow> 'h mmio \<Rightarrow> stm \<Rightarrow> 'h \<Rightarrow> (stm \<times> 'h) option" where
  "hw_turn m hw s h = do {
     (ty, h) \<leftarrow> hw_getc hw h;
     (hi, h) \<leftarrow> hw_getc hw h;
     (lo, h) \<leftarrow> hw_getc hw h;
     let frame_len = (push_bit 8 (ucast hi) OR ucast lo :: u16);
     (if frame_len = 0 \<or> 512 < frame_len then Some (s, h)
      else do {
       (bs, h) \<leftarrow> hw_get_bytes hw (unat frame_len) h;
       hw_answer m hw ty frame_len (s\<lparr>st_frame := bs @ drop (unat frame_len) (st_frame s)\<rparr>) h }) }"

primrec hw_turns :: "nat \<Rightarrow> libm \<Rightarrow> 'h mmio \<Rightarrow> stm \<Rightarrow> 'h \<Rightarrow> (stm \<times> 'h) option" where
  "hw_turns 0 m hw s h = Some (s, h)"
| "hw_turns (Suc n) m hw s h = do { (s, h) \<leftarrow> hw_turn m hw s h; hw_turns n m hw s h }"

definition hw_main :: "nat \<Rightarrow> libm \<Rightarrow> 'a srdb_scheme \<Rightarrow> 'h mmio \<Rightarrow> u32 option \<Rightarrow> u8 list \<Rightarrow> 'h \<Rightarrow> (stm \<times> 'h) option" where
  "hw_main n m db hw rsr frame h = do {
     h \<leftarrow> hw_write_buf hw (stm_banner db None) (of_nat (length (stm_banner db None))) h;
     h \<leftarrow> (case rsr of None \<Rightarrow> Some h
          | Some r \<Rightarrow> hw_write_buf hw (map of_char (stm_reset_cause r) @ [13, 10]) (of_nat (length (stm_reset_cause r) + 2)) h);
     hw_turns n m hw (stm_start db rsr frame) h }"

section \<open>The loop on the registers refines the loop on the stream\<close>

text \<open>The bytes a log took from the receive register and put into the transmit register.\<close>

definition link_in :: "access list \<Rightarrow> u8 list" where
  "link_in l = map (\<lambda>x. ucast (x AND 0xFF)) (reads_of USART3_RDR l)"

definition link_out :: "access list \<Rightarrow> u8 list" where
  "link_out l = map ucast (written USART3_TDR l)"

lemma link_append [simp]: "link_in (l @ l') = link_in l @ link_in l'" "link_out (l @ l') = link_out l @ link_out l'"
  by (simp_all add: link_in_def link_out_def written_def)

lemma link_Nil [simp]: "link_in [] = []" "link_out [] = []"
  by (simp_all add: link_in_def link_out_def written_def)

text \<open>A device that gets ready after finitely many polls, whatever its state.\<close>

definition usart_answers :: "'h mmio \<Rightarrow> bool" where
  "usart_answers hw \<longleftrightarrow> (\<forall>h. polls hw USART3_ISR usart_txe h \<and> polls hw USART3_ISR usart_tc h \<and> polls hw USART3_ISR usart_rxne h)"

lemma byte_through_word: "ucast (ucast b :: u32) = b" for b :: u8
  by (rule bit_word_eqI) (simp add: bit_simps)

lemma hw_write_runs:
  assumes "usart_answers hw"
  obtains h' l' where "hw_write_buf (logged hw) buf len (h, l) = Some (h', l @ l')" "link_in l' = []" "link_out l' = take (unat len) buf"
proof -
  have p: "\<And>h. polls hw USART3_ISR usart_txe h" "\<And>h. polls hw USART3_ISR usart_tc h"
    using assms by (simp_all add: usart_answers_def)
  obtain h' l' where w: "stm_uart_write (logged hw) buf len (h, l) = Some (uint len, (h', l @ l'))"
    "writes l' = map (\<lambda>b. (USART3_TDR, ucast b)) (take (unat len) buf)" "reads_of USART3_RDR l' = []"
    by (rule stm_uart_write_sends [OF p])
  have "link_out l' = take (unat len) buf"
    by (simp add: link_out_def written_def w(2) filter_map comp_def byte_through_word)
  with w show thesis by (intro that [of h' l']) (simp_all add: hw_write_buf_def link_in_def)
qed

lemma hw_getc_runs:
  assumes "usart_answers hw"
  obtains b h' l' where "hw_getc (logged hw) (h, l) = Some (b, (h', l @ l'))" "link_in l' = [b]" "link_out l' = []"
proof -
  have p: "\<And>h. polls hw USART3_ISR usart_rxne h" "USART3_ISR \<noteq> USART3_RDR"
    using assms by (simp_all add: usart_answers_def USART3_ISR_def USART3_RDR_def)
  have "(0 :: nat) + 1 \<le> length [0 :: u8]" by simp
  from receive_bytes_logged [OF p this, of h l] obtain h' l' where
    r: "receive_bytes (logged hw) USART3_ISR usart_rxne USART3_RDR 1 0 [0] (h, l) = Some (link_in l', (h', l @ l'))"
      "length (link_in l') = 1" "writes l' = []" by (auto simp: link_in_def)
  then obtain b where "link_in l' = [b]" by (auto simp: length_Suc_conv)
  with r show thesis by (intro that [of b h' l']) (simp_all add: hw_getc_def stm_uart_read_def link_out_def written_def)
qed

lemma hw_get_bytes_runs:
  assumes "usart_answers hw"
  obtains bs h' l' where "hw_get_bytes (logged hw) n (h, l) = Some (bs, (h', l @ l'))" "length bs = n" "link_in l' = bs" "link_out l' = []"
proof (induction n arbitrary: h l thesis)
  case 0
  show ?case by (rule "0.prems" [of "[]" h "[]"]) simp_all
next
  case (Suc n)
  obtain b h1 l1 where g: "hw_getc (logged hw) (h, l) = Some (b, (h1, l @ l1))" "link_in l1 = [b]" "link_out l1 = []"
    by (rule hw_getc_runs [OF assms])
  obtain bs h2 l2 where r: "hw_get_bytes (logged hw) n (h1, l @ l1) = Some (bs, (h2, (l @ l1) @ l2))" "length bs = n"
    "link_in l2 = bs" "link_out l2 = []" by (rule Suc.IH)
  show ?case using g r by (intro Suc.prems [of "b # bs" h2 "l1 @ l2"]) simp_all
qed

text \<open>Two writers that stay related leave related outputs.\<close>

lemma tm_drain_related:
  assumes "\<And>p n x y. R x y \<Longrightarrow> R (wr p n x) (wr' p n y)" "R x y"
  shows "fst (tm_drain wr cap (store, x)) = fst (tm_drain wr' cap (store, y)) \<and> R (snd (tm_drain wr cap (store, x))) (snd (tm_drain wr' cap (store, y)))"
proof -
  have "fst (tm_drain_loop wr cap k pkt plen (store, x)) = fst (tm_drain_loop wr' cap k pkt plen (store, y))
      \<and> R (snd (tm_drain_loop wr cap k pkt plen (store, x))) (snd (tm_drain_loop wr' cap k pkt plen (store, y)))" for k pkt plen
    using assms(2) by (induction k arbitrary: pkt plen store x y) (auto simp: assms(1) split: prod.split)
  then show ?thesis by (simp add: tm_drain_def)
qed

lemma hw_flush_runs:
  fixes hw :: "'h mmio"
  assumes "usart_answers hw"
  obtains s' h' l' where "hw_flush (logged hw) s (h, l) = Some (s', (h', l @ l'))" "link_in l' = []"
    "\<And>out. stm_flush_tm_store (s\<lparr>st_out := out\<rparr>) = s'\<lparr>st_out := out @ link_out l'\<rparr>"
proof -
  let ?e = "stw_env (st_world s)"
  let ?hw = "\<lambda>pkt len h. Option.bind h (hw_write_tm_packet (logged hw) pkt len)"
  define D where "D = tm_drain ?hw 1024 (env_store ?e, Some (h, l))"
  have sim: "fst D = fst (tm_drain stm_write_tm_packet 1024 (env_store ?e, out))
    \<and> (\<exists>h' l'. snd D = Some (h', l @ l') \<and> link_in l' = [] \<and> snd (tm_drain stm_write_tm_packet 1024 (env_store ?e, out)) = out @ link_out l')" for out
    unfolding D_def
  proof (rule tm_drain_related)
    fix p :: "u8 list" and n :: u16 and x :: "('h \<times> access list) option" and y :: "u8 list"
    assume "\<exists>h' l'. x = Some (h', l @ l') \<and> link_in l' = [] \<and> y = out @ link_out l'"
    then obtain h1 l1 where x: "x = Some (h1, l @ l1)" "link_in l1 = []" "y = out @ link_out l1" by blast
    let ?hdr = "[0x04, ucast (drop_bit 8 n), ucast (n AND 0xFF)] :: u8 list"
    obtain h2 l2 where w2: "hw_write_buf (logged hw) ?hdr 3 (h1, l @ l1) = Some (h2, (l @ l1) @ l2)" "link_in l2 = []" "link_out l2 = take (unat (3 :: u16)) ?hdr"
      by (rule hw_write_runs [OF assms])
    obtain h3 l3 where w3: "hw_write_buf (logged hw) p n (h2, (l @ l1) @ l2) = Some (h3, ((l @ l1) @ l2) @ l3)" "link_in l3 = []" "link_out l3 = take (unat n) p"
      by (rule hw_write_runs [OF assms])
    have "?hw p n x = Some (h3, l @ (l1 @ l2 @ l3))"
      unfolding x(1) hw_write_tm_packet_def using w2(1) w3(1) by simp
    moreover have "stm_write_tm_packet p n y = out @ link_out (l1 @ l2 @ l3)"
      unfolding x(3) stm_write_tm_packet_def stm_uart_write_buf_def Let_def by (simp add: w2(3) w3(3))
    ultimately show "\<exists>h' l'. ?hw p n x = Some (h', l @ l') \<and> link_in l' = [] \<and> stm_write_tm_packet p n y = out @ link_out l'"
      using x(2) w2(2) w3(2) by (metis link_append(1) append_Nil)
  qed (intro exI [of _ h] exI [of _ "[]"], simp)
  obtain h' l' where D: "snd D = Some (h', l @ l')" "link_in l' = []" using sim [of "[]"] by blast
  then obtain store where st: "D = (store, Some (h', l @ l'))" by (cases D) simp
  have s: "stm_flush_tm_store (s\<lparr>st_out := out\<rparr>)
      = (s\<lparr>st_world := (st_world s)\<lparr>stw_env := ?e\<lparr>env_store := fst D\<rparr>\<rparr>\<rparr>)\<lparr>st_out := out @ link_out l'\<rparr>" for out
    using sim [of out] D by (auto simp: stm_flush_tm_store_def Let_def split: prod.split)
  show thesis
  proof (rule that [OF _ D(2) s])
    show "hw_flush (logged hw) s (h, l)
        = Some (s\<lparr>st_world := (st_world s)\<lparr>stw_env := ?e\<lparr>env_store := fst D\<rparr>\<rparr>\<rparr>, (h', l @ l'))"
      unfolding hw_flush_def Let_def D_def [symmetric] st by simp
  qed
qed

text \<open>One answer, and one turn.\<close>

lemma stm_out_last:
  "s\<lparr>st_out := out, st_world := w\<rparr> = s\<lparr>st_world := w, st_out := out\<rparr>"
  "s\<lparr>st_out := out, st_frame := f\<rparr> = s\<lparr>st_frame := f, st_out := out\<rparr>" for s :: stm
  by (cases s; simp)+

lemma hw_answer_runs:
  fixes hw :: "'h mmio"
  assumes "usart_answers hw"
  obtains s' h' l' where "hw_answer m (logged hw) ty n s (h, l) = Some (s', (h', l @ l'))" "link_in l' = []"
    "\<And>out. stm_answer m ty n (s\<lparr>st_out := out\<rparr>) = s'\<lparr>st_out := out @ link_out l'\<rparr>"
proof -
  let ?s1 = "s\<lparr>st_world := snd (obsw_tc_dispatcher_feed (Some stm_dispatcher) (Some (st_frame s)) (ucast n :: u32) (st_world s))\<rparr>"
  obtain s2 h2 l2 where step: "(if ty = SVF_FRAME_TC then hw_flush (logged hw) ?s1 (h, l)
      else Some (if ty = SVF_FRAME_SENSOR then stm_sensor_frame m n s else s, (h, l))) = Some (s2, (h2, l @ l2))" "link_in l2 = []"
    "\<And>out. (if ty = SVF_FRAME_TC then stm_tc_frame n (s\<lparr>st_out := out\<rparr>)
      else if ty = SVF_FRAME_SENSOR then stm_sensor_frame m n (s\<lparr>st_out := out\<rparr>) else s\<lparr>st_out := out\<rparr>) = s2\<lparr>st_out := out @ link_out l2\<rparr>"
  proof (cases "ty = SVF_FRAME_TC")
    case True
    obtain s2 h2 l2 where f: "hw_flush (logged hw) ?s1 (h, l) = Some (s2, (h2, l @ l2))" "link_in l2 = []"
      "\<And>out. stm_flush_tm_store (?s1\<lparr>st_out := out\<rparr>) = s2\<lparr>st_out := out @ link_out l2\<rparr>"
      by (rule hw_flush_runs [OF assms]) blast
    have "stm_tc_frame n (s\<lparr>st_out := out\<rparr>) = s2\<lparr>st_out := out @ link_out l2\<rparr>" for out
      using f(3) [of out] by (simp add: stm_tc_frame_def stm_out_last)
    with True f(1,2) show thesis by (intro that [of s2 h2 l2]) simp_all
  next
    case False
    have "stm_sensor_frame m n (s\<lparr>st_out := out\<rparr>) = (stm_sensor_frame m n s)\<lparr>st_out := out\<rparr>" for out
      by (simp add: stm_sensor_frame_def Let_def)
    with False show thesis
      by (intro that [of "if ty = SVF_FRAME_SENSOR then stm_sensor_frame m n s else s" h "[]"]) simp_all
  qed
  obtain h3 l3 where p: "hw_write_buf (logged hw) [0xFF] 1 (h2, l @ l2) = Some (h3, (l @ l2) @ l3)" "link_in l3 = []" "link_out l3 = take (unat (1 :: u16)) [0xFF]"
    by (rule hw_write_runs [OF assms])
  have "hw_answer m (logged hw) ty n s (h, l) = Some (s2, (h3, l @ (l2 @ l3)))"
    unfolding hw_answer_def step(1) using p(1) by (simp add: hw_putc_def)
  moreover have "stm_answer m ty n (s\<lparr>st_out := out\<rparr>) = s2\<lparr>st_out := out @ link_out (l2 @ l3)\<rparr>" for out
    unfolding stm_answer_def Let_def step(3) using p(3) by (simp add: stm_uart_putc_def)
  ultimately show thesis using step(2) p(2) by (intro that [of s2 h3 "l2 @ l3"]) simp_all
qed

lemma stm_read_header_bytes: "stm_read_header (a # b # c # rest) = Some (a, push_bit 8 (ucast b) OR ucast c, rest)"
  by (simp add: stm_read_header_def stm_get_bytes_take numeral_3_eq_3)

lemma hw_turn_refines:
  fixes hw :: "'h mmio"
  assumes "usart_answers hw"
  obtains s' h' l' where "hw_turn m (logged hw) s (h, l) = Some (s', (h', l @ l'))"
    "\<And>rest out. stm_loop m (link_in l' @ rest) (s\<lparr>st_out := out\<rparr>) = stm_loop m rest (s'\<lparr>st_out := out @ link_out l'\<rparr>)"
proof -
  obtain a h1 l1 where a: "hw_getc (logged hw) (h, l) = Some (a, (h1, l @ l1))" "link_in l1 = [a]" "link_out l1 = []"
    by (rule hw_getc_runs [OF assms])
  obtain b h2 l2 where b: "hw_getc (logged hw) (h1, l @ l1) = Some (b, (h2, (l @ l1) @ l2))" "link_in l2 = [b]" "link_out l2 = []"
    by (rule hw_getc_runs [OF assms])
  obtain c h3 l3 where c: "hw_getc (logged hw) (h2, (l @ l1) @ l2) = Some (c, (h3, ((l @ l1) @ l2) @ l3))" "link_in l3 = [c]" "link_out l3 = []"
    by (rule hw_getc_runs [OF assms])
  define n :: u16 where "n = push_bit 8 (ucast b) OR ucast c"
  have turn: "hw_turn m (logged hw) s (h, l) = (if n = 0 \<or> 512 < n then Some (s, (h3, ((l @ l1) @ l2) @ l3))
      else do { (bs, h) \<leftarrow> hw_get_bytes (logged hw) (unat n) (h3, ((l @ l1) @ l2) @ l3);
        hw_answer m (logged hw) a n (s\<lparr>st_frame := bs @ drop (unat n) (st_frame s)\<rparr>) h })"
    unfolding hw_turn_def using a(1) b(1) c(1) by (simp add: n_def Let_def)
  have header: "stm_read_header (a # b # c # rest) = Some (a, n, rest)" for rest
    by (simp add: stm_read_header_bytes n_def)
  note bytes = a(2) b(2) c(2)
  have quiet: "link_out (l1 @ l2 @ l3) = []" by (simp add: a(3) b(3) c(3))
  show thesis
  proof (cases "n = 0 \<or> 512 < n")
    case True
    have "stm_loop m (link_in (l1 @ l2 @ l3) @ rest) t = stm_loop m rest t" for rest t
      using True by (subst stm_loop.simps) (simp add: bytes header)
    with True quiet show thesis using turn by (intro that [of s h3 "l1 @ l2 @ l3"]) simp_all
  next
    case False
    obtain bs h4 l4 where g: "hw_get_bytes (logged hw) (unat n) (h3, ((l @ l1) @ l2) @ l3) = Some (bs, (h4, (((l @ l1) @ l2) @ l3) @ l4))"
      "length bs = unat n" "link_in l4 = bs" "link_out l4 = []"
      by (rule hw_get_bytes_runs [OF assms])
    let ?s = "s\<lparr>st_frame := bs @ drop (unat n) (st_frame s)\<rparr>" and ?l = "l1 @ l2 @ l3 @ l4"
    obtain s' h5 l5 where w: "hw_answer m (logged hw) a n ?s (h4, (((l @ l1) @ l2) @ l3) @ l4) = Some (s', (h5, ((((l @ l1) @ l2) @ l3) @ l4) @ l5))"
      "link_in l5 = []" "\<And>out. stm_answer m a n (?s\<lparr>st_out := out\<rparr>) = s'\<lparr>st_out := out @ link_out l5\<rparr>"
      by (rule hw_answer_runs [OF assms]) blast
    have "stm_loop m (link_in (?l @ l5) @ rest) (s\<lparr>st_out := out\<rparr>) = stm_loop m rest (s'\<lparr>st_out := out @ link_out (?l @ l5)\<rparr>)" for rest out
    proof -
      have "stm_read_header (link_in (?l @ l5) @ rest) = Some (a, n, bs @ rest)"
        using header [of "bs @ rest"] by (simp add: bytes g(3) w(2))
      then have "stm_loop m (link_in (?l @ l5) @ rest) (s\<lparr>st_out := out\<rparr>) = stm_loop m rest (stm_answer m a n (?s\<lparr>st_out := out\<rparr>))"
        using False g(2) by (subst stm_loop.simps) (simp add: stm_get_bytes_take stm_out_last)
      then show ?thesis using quiet by (simp add: w(3) g(4))
    qed
    then show thesis using False turn g(1) w(1) by (intro that [of s' h5 "?l @ l5"]) simp_all
  qed
qed

lemma hw_turns_refine:
  fixes hw :: "'h mmio"
  assumes "usart_answers hw"
  obtains s' h' l' where "hw_turns n m (logged hw) s (h, l) = Some (s', (h', l @ l'))"
    "\<And>out. stm_loop m (link_in l') (s\<lparr>st_out := out\<rparr>) = s'\<lparr>st_out := out @ link_out l'\<rparr>"
proof (induction n arbitrary: s h l thesis)
  case 0
  have "stm_loop m [] t = t" for t by (simp add: stm_loop.simps stm_read_header_def stm_get_bytes_take)
  then show ?case by (intro "0.prems" [of s h "[]"]) simp_all
next
  case (Suc n)
  obtain s1 h1 l1 where t: "hw_turn m (logged hw) s (h, l) = Some (s1, (h1, l @ l1))"
    "\<And>rest out. stm_loop m (link_in l1 @ rest) (s\<lparr>st_out := out\<rparr>) = stm_loop m rest (s1\<lparr>st_out := out @ link_out l1\<rparr>)"
    by (rule hw_turn_refines [OF assms]) blast
  obtain s2 h2 l2 where r: "hw_turns n m (logged hw) s1 (h1, l @ l1) = Some (s2, (h2, (l @ l1) @ l2))"
    "\<And>out. stm_loop m (link_in l2) (s1\<lparr>st_out := out\<rparr>) = s2\<lparr>st_out := out @ link_out l2\<rparr>"
    by (rule Suc.IH) blast
  show ?case by (rule Suc.prems [of s2 h2 "l1 @ l2"]) (simp_all add: t r)
qed

lemma stm_banner_parts: "stm_banner db rsr = stm_banner db None
    @ (case rsr of None \<Rightarrow> [] | Some r \<Rightarrow> map of_char (stm_reset_cause r) @ [13, 10])"
  by (simp add: stm_banner_def)

lemma hw_banner_runs:
  fixes hw :: "'h mmio"
  assumes "usart_answers hw" "length (stm_banner db None) < 2 ^ 16"
  obtains h' l' where "hw_main n m db (logged hw) rsr frame (h, l) = hw_turns n m (logged hw) (stm_start db rsr frame) (h', l @ l')"
    "link_in l' = []" "link_out l' = stm_banner db rsr"
proof -
  let ?b = "stm_banner db None"
  obtain h1 l1 where b: "hw_write_buf (logged hw) ?b (of_nat (length ?b)) (h, l) = Some (h1, l @ l1)" "link_in l1 = []"
    "link_out l1 = take (unat (of_nat (length ?b) :: u16)) ?b"
    by (rule hw_write_runs [OF assms(1)])
  have n: "unat (of_nat (length ?b) :: u16) = length ?b" using assms(2) by (intro unat_of_nat_small) simp
  show thesis
  proof (cases rsr)
    case None
    then show thesis using b n by (intro that [of h1 l1]) (simp_all add: hw_main_def)
  next
    case (Some r)
    let ?c = "map of_char (stm_reset_cause r) @ [13, 10 :: u8]"
    obtain h2 l2 where c: "hw_write_buf (logged hw) ?c (of_nat (length (stm_reset_cause r) + 2)) (h1, l @ l1) = Some (h2, (l @ l1) @ l2)" "link_in l2 = []"
      "link_out l2 = take (unat (of_nat (length (stm_reset_cause r) + 2) :: u16)) ?c"
      by (rule hw_write_runs [OF assms(1)])
    have "length (stm_reset_cause r) < 60" by (simp add: stm_reset_cause_def)
    then have "unat (of_nat (length (stm_reset_cause r) + 2) :: u16) = length (stm_reset_cause r) + 2" by (intro unat_of_nat_small) simp
    then have "link_out l2 = ?c" using c(3) by simp
    then show thesis using b c(1,2) n Some by (intro that [of h2 "l1 @ l2"]) (simp_all add: hw_main_def stm_banner_parts [of db "Some r"])
  qed
qed

text \<open>
  C6: The STM32H7 program answers every frame on its registers.  On any device that gets ready
  after finitely many polls, any number of turns of the superloop returns.  The bytes put into
  the transmit register are the banner and then one answer for each complete frame among the
  bytes taken from the receive register, in order, each given from the state the answer before
  it left, as for the loop on the stream of bytes: for a command the reports of its own
  verification and execution, then and for every other frame the sync byte.
\<close>

theorem stm_on_registers:
  fixes hw :: "'h mmio"
  assumes "usart_answers hw" "length frame = 512" "length (stm_banner db None) < 2 ^ 16"
  shows "\<exists>s h' l answers. hw_main n m db (logged hw) rsr frame (h, []) = Some (s, (h', l))
    \<and> frames_served (stm_served m) (stm_start db rsr frame) (stm_input (link_in l)) answers (s\<lparr>st_out := link_out l\<rparr>)
    \<and> link_out l = stm_banner db rsr @ concat (map svf_msg_bytes (concat answers))"
proof -
  obtain h1 l1 where b: "hw_main n m db (logged hw) rsr frame (h, []) = hw_turns n m (logged hw) (stm_start db rsr frame) (h1, [] @ l1)"
    "link_in l1 = []" "link_out l1 = stm_banner db rsr"
    by (rule hw_banner_runs [OF assms(1,3)])
  obtain s h2 l2 where t: "hw_turns n m (logged hw) (stm_start db rsr frame) (h1, [] @ l1) = Some (s, (h2, ([] @ l1) @ l2))"
    "\<And>out. stm_loop m (link_in l2) ((stm_start db rsr frame)\<lparr>st_out := out\<rparr>) = s\<lparr>st_out := out @ link_out l2\<rparr>"
    by (rule hw_turns_refine [OF assms(1)]) blast
  have start: "st_out (stm_start db rsr frame) = stm_banner db rsr" by (simp add: stm_start_def Let_def)
  then have "(stm_start db rsr frame)\<lparr>st_out := stm_banner db rsr\<rparr> = stm_start db rsr frame"
    by (cases "stm_start db rsr frame") simp
  then have loop: "stm_loop m (link_in l2) (stm_start db rsr frame) = s\<lparr>st_out := stm_banner db rsr @ link_out l2\<rparr>"
    using t(2) [of "stm_banner db rsr"] by simp
  obtain answers where a: "stm_answers db (stm_start db rsr frame) (concat answers) (stm_loop m (link_in l2) (stm_start db rsr frame))"
    "frames_served (stm_served m) (stm_start db rsr frame) (stm_input (link_in l2)) answers
      (stm_loop m (link_in l2) (stm_start db rsr frame))"
    using stm_loop_answers [OF stm_start_ok [OF assms(2)], where m = m and inp = "link_in l2"] by blast
  then have "link_out l2 = concat (map svf_msg_bytes (concat answers))"
    unfolding loop by (simp add: stm_answers_def start)
  then show ?thesis using b t(1) a(2)
    by (intro exI [of _ s] exI [of _ h2] exI [of _ "l1 @ l2"] exI [of _ answers]) (simp add: loop)
qed

lemma stm_on_registers_witness:
  "\<exists>s h l answers. hw_main 1 sim_example_libm sim_example_srdb (logged usart_slow) None (replicate (Suc 511) 0) (False, []) = Some (s, (h, l))
    \<and> frames_served (stm_served sim_example_libm) (stm_start sim_example_srdb None (replicate (Suc 511) 0))
        (stm_input (link_in l)) answers (s\<lparr>st_out := link_out l\<rparr>)
    \<and> link_out l = stm_banner sim_example_srdb None @ concat (map svf_msg_bytes (concat answers))"
proof -
  have "usart_answers usart_slow"
    unfolding usart_answers_def by (intro allI conjI usart_slow_polls; simp add: usart_txe_def usart_tc_def usart_rxne_def)
  moreover have "length (replicate (Suc 511) (0 :: u8)) = 512" by simp
  moreover have "length (stm_banner sim_example_srdb None) < 2 ^ 16" by (simp add: stm_banner_def sim_example_srdb_def)
  ultimately show ?thesis by (rule stm_on_registers)
qed

end
