(* ===== verification/Flight_System.thy ===== *)
theory Flight_System
  imports Fdir_Task
begin

section \<open>The flight software\<close>

text \<open>
  The five tasks of the FreeRTOS build of \<^verbatim>\<open>src/platform/stm32h7/main.c\<close> on the objects they
  share.  The state \<open>flight\<close> is what the tasks own: the world of the PUS task, which holds the
  mode manager and, as its telemetry environment, the one TM store; the link, the queue of
  commands and the log of TMTC; the state of FDIR; that of the attitude control task and of
  the bus of its magnetometer.  TMTC reaches the store through a pointer, which here is the
  store read through the world when its turn begins and written back when it ends.

  A step is the arrival of bytes on the link or one turn of a task, that is one iteration of its
  loop; the steps come in any order.  A turn of TMTC that needs a byte the link does not have
  goes on when the byte is there: until then it has only read.  Turns are not cut by each
  other; what finer steps do to the store is in \<^verbatim>\<open>Tm_Store_Steps\<close>.

  The queue is one of FreeRTOS, the bus and \<open>acosf\<close> are devices and library: they are the
  parameters \<open>flight_board\<close>.
\<close>

record ('q, 'i) flight_board =
  fb_send :: "'q \<Rightarrow> obsw_tc_frame_item \<Rightarrow> 'q option"
  fb_receive :: "'q \<Rightarrow> (obsw_tc_frame_item \<times> 'q) option"
  fb_acosf :: "f32 \<Rightarrow> f32"
  fb_i2c_write :: "'i i2c_write"
  fb_i2c_read :: "'i i2c_read"

record ('q, 'i) flight =
  fl_world :: pus_world
  fl_tmtc :: "'q tmtc"
  fl_fdir :: fdir
  fl_aocs :: aocs
  fl_i2c :: 'i

definition fl_store :: "('q, 'i) flight \<Rightarrow> obsw_tm_store option" where
  "fl_store s = env_store (pw_env (fl_world s))"

definition pw_set_store :: "obsw_tm_store option \<Rightarrow> pus_world \<Rightarrow> pus_world" where
  "pw_set_store st w = w\<lparr>pw_env := (pw_env w)\<lparr>env_store := st\<rparr>\<rparr>"

definition fl_link :: "('q, 'i) flight \<Rightarrow> 'q tmtc" where
  "fl_link s = (fl_tmtc s)\<lparr>tt_store := fl_store s\<rparr>"

subsection \<open>Initialisation\<close>

text \<open>In the order of the program, each task with what those before it hand out.\<close>

definition flight_init ::
  "srdb \<Rightarrow> ('q, 'i) flight_board \<Rightarrow> 'q \<Rightarrow> nat \<Rightarrow> (nat \<Rightarrow> u8) \<Rightarrow> 'i \<Rightarrow> ('q, 'i) flight" where
  "flight_init db fb queue patch_ram mem i =
    (let store = snd (obsw_tm_store_init (Some tm_store_bss));
         t = obsw_tmtc_task_init store queue [];
         m = obsw_mode_task_init db;
         (f, s3) = obsw_fdir_task_init db m;
         w = obsw_pus_task_init db store s3 m patch_ram mem;
         (a, i') = obsw_aocs_task_init (fb_i2c_write fb) (fb_i2c_read fb) w i
     in \<lparr>fl_world = w, fl_tmtc = t, fl_fdir = f, fl_aocs = a, fl_i2c = i'\<rparr>)"

subsection \<open>Turns of the tasks\<close>

definition flight_tmtc :: "('q, 'i) flight_board \<Rightarrow> ('q, 'i) flight \<Rightarrow> ('q, 'i) flight" where
  "flight_tmtc fb s =
    (case tmtc_iter (fb_send fb) (fl_link s) of
       None \<Rightarrow> s
     | Some t \<Rightarrow> s\<lparr>fl_tmtc := t, fl_world := pw_set_store (tt_store t) (fl_world s)\<rparr>)"

definition flight_pus :: "srdb \<Rightarrow> ('q, 'i) flight_board \<Rightarrow> ('q, 'i) flight \<Rightarrow> ('q, 'i) flight" where
  "flight_pus db fb s =
    (case pus_iter db (fb_receive fb) (fl_world s, tt_queue (fl_tmtc s)) of
       (notified, w, q) \<Rightarrow> s\<lparr>fl_world := w, fl_tmtc := (fl_tmtc s)\<lparr>tt_queue := q\<rparr>\<rparr>)"

definition flight_mode :: "srdb \<Rightarrow> ('q, 'i) flight \<Rightarrow> ('q, 'i) flight" where
  "flight_mode db s =
    (case mode_tick db (pw_mode (fl_world s), fl_store s) of
       (m, st) \<Rightarrow> s\<lparr>fl_world := pw_set_store st ((fl_world s)\<lparr>pw_mode := m\<rparr>)\<rparr>)"

definition flight_fdir :: "srdb \<Rightarrow> ('q, 'i) flight \<Rightarrow> ('q, 'i) flight" where
  "flight_fdir db s =
    (case fdir_sub_tick db (ao_hk (fl_aocs s)) (fl_fdir s, fl_world s, tt_log (fl_tmtc s)) of
       (f, w, l) \<Rightarrow> s\<lparr>fl_fdir := f, fl_world := w, fl_tmtc := (fl_tmtc s)\<lparr>tt_log := l\<rparr>\<rparr>)"

definition flight_aocs :: "srdb \<Rightarrow> ('q, 'i) flight_board \<Rightarrow> ('q, 'i) flight \<Rightarrow> ('q, 'i) flight" where
  "flight_aocs db fb s =
    (case aocs_tick db (fb_acosf fb) (fb_i2c_read fb) (fl_world s) (fl_aocs s, fl_i2c s) of
       (a, i) \<Rightarrow> s\<lparr>fl_aocs := a, fl_i2c := i\<rparr>)"

datatype flight_event = Fl_rx "u8 list" | Fl_tmtc | Fl_pus | Fl_mode | Fl_fdir | Fl_aocs

definition flight_step ::
  "srdb \<Rightarrow> ('q, 'i) flight_board \<Rightarrow> flight_event \<Rightarrow> ('q, 'i) flight \<Rightarrow> ('q, 'i) flight" where
  "flight_step db fb ev s = (case ev of
     Fl_rx bs \<Rightarrow> s\<lparr>fl_tmtc := (fl_tmtc s)\<lparr>tt_rx := tt_rx (fl_tmtc s) @ bs\<rparr>\<rparr>
   | Fl_tmtc \<Rightarrow> flight_tmtc fb s
   | Fl_pus \<Rightarrow> flight_pus db fb s
   | Fl_mode \<Rightarrow> flight_mode db s
   | Fl_fdir \<Rightarrow> flight_fdir db s
   | Fl_aocs \<Rightarrow> flight_aocs db fb s)"

definition flight_run ::
  "srdb \<Rightarrow> ('q, 'i) flight_board \<Rightarrow> flight_event list \<Rightarrow> ('q, 'i) flight \<Rightarrow> ('q, 'i) flight" where
  "flight_run db fb evs s = fold (flight_step db fb) evs s"

lemma flight_run_simps [simp]:
  "flight_run db fb [] s = s"
  "flight_run db fb (ev # evs) s = flight_run db fb evs (flight_step db fb ev s)"
  "flight_run db fb (evs @ evs') s = flight_run db fb evs' (flight_run db fb evs s)"
  by (simp_all add: flight_run_def)

subsection \<open>A store that only grows\<close>

text \<open>What every task but TMTC does to the store: packets are added at its end.\<close>

definition tm_grows :: "obsw_tm_store option \<Rightarrow> obsw_tm_store option \<Rightarrow> bool" where
  "tm_grows s s' \<longleftrightarrow> tm_ok s' \<and> (s' = None \<longleftrightarrow> s = None) \<and> (\<exists>ps. tm_queue s' = tm_queue s @ ps)"

lemma tm_grows_refl: "tm_ok s \<Longrightarrow> tm_grows s s"
  by (simp add: tm_grows_def)

lemma tm_grows_trans: "tm_grows s t \<Longrightarrow> tm_grows t u \<Longrightarrow> tm_grows s u"
  by (auto simp: tm_grows_def)

lemma tm_offered_grows: "tm_offered s ps s' \<Longrightarrow> tm_grows s s'"
  by (cases "s = None") (auto simp: tm_offered_def tm_grows_def)

lemma env_does_grows: "env_does tc e xs e' \<Longrightarrow> tm_grows (env_store e) (env_store e')"
  by (auto simp: env_does_def intro: tm_offered_grows)

lemma s5_raise_grows:
  assumes "tm_ok (s5_store e)"
  shows "\<exists>s' e'. s5_raise evs (Some s, e) = (Some s', e') \<and> tm_grows (s5_store e) (s5_store e')"
  using assms
proof (induction evs arbitrary: s e)
  case Nil
  then show ?case by (simp add: s5_raise_def tm_grows_refl)
next
  case (Cons x evs)
  obtain sev ev v where x: "x = (sev, ev, v)" by (cases x)
  have four: "unat (4 :: u8) = length (be_bytes32 v)" by simp
  obtain e1 where r: "obsw_s5_report (Some s) sev ev (Some (be_bytes32 v)) 4 e
      = (tm_emit_rc (s5_store e), Some (s\<lparr>s5_msg_counter := s5_msg_counter s + 1\<rparr>), e1)"
    "tm_ok (s5_store e1)" "s5_store e1 = None \<longleftrightarrow> s5_store e = None"
    "tm_queue (s5_store e1) = tm_emit (s5_packet s sev ev (be_bytes32 v)) (s5_store e)"
    by (rule s5_report_effect [OF Cons.prems four, of s sev ev])
  have g: "tm_grows (s5_store e) (s5_store e1)" using r(2-4) by (simp add: tm_grows_def tm_emit_def)
  let ?s1 = "s\<lparr>s5_msg_counter := s5_msg_counter s + 1\<rparr>"
  have "s5_raise (x # evs) (Some s, e) = s5_raise evs (Some ?s1, e1)"
    by (simp add: s5_raise_def x r(1))
  with Cons.IH [OF r(2), of ?s1] tm_grows_trans [OF g] show ?case by auto
qed

lemma s12_check_grows:
  assumes "pus_wf db w" "pus_hook_wf w"
  shows "tm_grows (env_store (pw_env w)) (env_store (pw_env (obsw_pus_s12_check w)))"
proof -
  define t where "t = s20_table (pw_s20 w)"
  define s where "s = (pw_s12 w)\<lparr>s12_params := Some t\<rparr>"
  define e5 where "e5 = (\<lparr>s5_store = env_store (pw_env w), s5_fsm = None, s5_hooks = (),
    s5_event_state = Some (pw_s19 w)\<rparr> :: (unit, obsw_s19_ctx option) s5_env)"
  have pre: "s12_wf s" "s12_params s = Some t" "s19_wf (pw_s19 w)" "tm_ok (s5_store e5)"
    "s5_event_state e5 = Some (pw_s19 w)" "s5_on_event (pw_s12_s5 w) = Some obsw_s19_on_event"
    using assms by (simp_all add: pus_wf_def pus_hook_wf_def s12_part_def s_def t_def e5_def)
  obtain ds s' e' c' where r:
    "obsw_s12_check (Some s) (Some (pw_s12_s5 w), e5) = (Some (s\<lparr>s12_defs := ds\<rparr>), Some s', e')"
    "s5_raise (s12_events s t) (Some (pw_s12_s5 w), e5) = (Some s', e')" "s5_event_state e' = Some c'"
    by (rule s12_check_hooked [OF pre]) blast
  have "env_store (pw_env (obsw_pus_s12_check w)) = s5_store e'"
    using r(1) by (simp add: obsw_pus_s12_check_def s12_part_def s_def t_def e5_def)
  with s5_raise_grows [OF pre(4), of "s12_events s t" "pw_s12_s5 w"] r(2) show ?thesis
    by (simp add: e5_def)
qed

subsection \<open>What a turn of the PUS task keeps\<close>

text \<open>
  The invariants of the services, the mode and, while it is locked, the memory (\<open>pus_kept\<close>); the
  event context of the mode manager; and the packets of the store \<open>s0\<close>, still at its front.
\<close>

definition pus_serves ::
  "srdb \<Rightarrow> unit obsw_fsm_ctx \<Rightarrow> (nat \<Rightarrow> u8) \<Rightarrow> unit obsw_s5_ctx \<Rightarrow> obsw_tm_store option \<Rightarrow> pus_world \<Rightarrow> bool" where
  "pus_serves db f m c s0 w \<longleftrightarrow> pus_kept db f m w \<and> md_s5 (pw_mode w) = c
    \<and> tm_grows s0 (env_store (pw_env w))"

lemma pus_routes_s5:
  assumes "pus_wf db w" "tc_wf tc" "r \<in> set (pus_routes db)"
  shows "md_s5 (pw_mode (snd (rt_handler r tc respond w))) = md_s5 (pw_mode w)"
proof -
  let ?I = "\<lambda>m. md_s5 m = md_s5 (pw_mode w)"
  have inv: "s8_inv ?I (pus_s8_ctx, m) \<longleftrightarrow> ?I m" for m
    by (auto simp: s8_inv_def pus_s8_ctx_def pus_s8_table_def s8_fn_ok_def fn_recover_nominal_def
        fn_request_safe_def fn_request_standby_def obsw_mode_request_safe_def obsw_mode_request_nominal_def
        obsw_mode_request_standby_def intro!: exI [of _ "[]"] env_does_nil)
  have "tm_ok (env_store (pw_env w))" "pw_s8 w = pus_s8_ctx" using assms(1) by (simp_all add: pus_wf_def)
  moreover have "s8_inv ?I (pus_s8_ctx, pw_mode w)" by (simp add: inv)
  ultimately have "handled (s8_inv ?I) tc (pw_env w) (pus_s8_ctx, pw_mode w)
      (obsw_s8_perform (Some tc) (Some (pus_s8_ctx, pw_mode w)) (pw_env w))"
    by (intro s8.verifies assms(2))
  then obtain rc c m e' where
    "obsw_s8_perform (Some tc) (Some (pus_s8_ctx, pw_mode w)) (pw_env w) = (rc, Some (c, m), e')" "?I m"
    by (auto simp: handled_def s8_inv_def)
  then have "md_s5 (pw_mode (snd (pus_handler s8_part obsw_s8_perform tc respond w))) = md_s5 (pw_mode w)"
    using \<open>pw_s8 w = pus_s8_ctx\<close> by (simp add: pus_handler_defs part_defs)
  then show ?thesis
    using assms(3) by (auto simp: pus_routes_def pus_route_def)
      (auto simp: pus_handler_defs part_defs split: prod.split option.split)
qed

lemma pus_responder_grows:
  assumes "pus_wf db w"
  shows "tm_grows (env_store (pw_env w)) (env_store (pw_env (pus_responder flags tc w)))"
proof (cases "flags AND OBSW_TC_ACK_REJECT = 0")
  case True
  with assms show ?thesis
    by (simp add: pus_responder_eq obsw_s1_dispatch_responder_def pus_wf_def tm_grows_refl)
next
  case False
  then show ?thesis
    using pus.responder_does [OF assms, of flags tc, folded pus_responder_def] env_does_grows by metis
qed

interpretation serves_disp: dispatch_inv "pus_dispatcher db" "pus_serves db f m c s0" for db f m c s0
proof unfold_locales
  fix r :: "pus_world obsw_tc_route" and tc and w :: pus_world
  let ?w = "snd (rt_handler r tc (d_responder (pus_dispatcher db)) w)"
  assume r: "r \<in> set (d_table (pus_dispatcher db))" "route_match tc r"
    and w: "pus_serves db f m c s0 w" "tc_wf tc" and g: "\<forall>g. d_gate (pus_dispatcher db) = Some g \<longrightarrow> g tc w"
  have wf: "pus_wf db w" using w(1) by (simp add: pus_serves_def pus_kept_def)
  have "host_handled pw_env pus_set_env (pus_wf db) tc w (rt_handler r tc (d_responder (pus_dispatcher db)) w)"
    using pus_routes_handled [OF wf w(2)] r(1) by simp
  then have "tm_grows (env_store (pw_env w)) (env_store (pw_env ?w))"
    by (auto simp: host_handled_def intro: env_does_grows)
  moreover have "pus_kept db f m ?w"
    using kept_disp.handler_inv [OF r _ w(2) g] w(1) by (simp add: pus_serves_def)
  moreover have "md_s5 (pw_mode ?w) = c" using pus_routes_s5 [OF wf w(2)] r(1) w(1) by (simp add: pus_serves_def)
  ultimately show "pus_serves db f m c s0 ?w" using w(1) by (auto simp: pus_serves_def intro: tm_grows_trans)
next
  fix w :: pus_world and tc flags
  assume w: "pus_serves db f m c s0 w" "tc_wf tc"
  then have "pus_wf db w" by (simp add: pus_serves_def pus_kept_def)
  from pus_responder_grows [OF this] kept_disp.responder_inv [OF _ w(2)] w(1)
  show "pus_serves db f m c s0 (d_responder (pus_dispatcher db) flags tc w)"
    by (auto simp: pus_serves_def intro: tm_grows_trans)
qed

interpretation serves_sched: schedule_host "pus_dispatcher db" "pus_serves db f m c s0" s11_part for db f m c s0
  by unfold_locales (simp_all add: pus_serves_def pus_kept_def pus_wf_def part_defs pus_hook_wf_def)

interpretation serves_act: action_host "pus_dispatcher db" "pus_serves db f m c s0" "fst s19_part" "snd s19_part"
  for db f m c s0
  by unfold_locales (simp_all add: pus_serves_def pus_kept_def pus_wf_def part_defs pus_hook_wf_def)

lemma pus_obt_advance_store [simp]: "pw_env (obsw_pus_obt_advance dt w) = pw_env w"
  by (simp add: obsw_pus_obt_advance_def)

interpretation serves: pus_steps db "pus_serves db f m c s0" for db f m c s0
proof unfold_locales
  fix w d and n :: u32 and dt :: u32 and t :: obsw_obt
  assume w: "pus_serves db f m c s0 w"
  show "pus_serves db f m c s0 (snd (obsw_tc_dispatcher_feed (Some (pus_dispatcher db)) (Some d) n w))"
    if "unat n \<le> length d" using serves_disp.feed_keeps [OF _ that w] by simp
  show "pus_serves db f m c s0 (snd (obsw_s11_run (Some s11_part) (Some t) (Some (pus_dispatcher db)) w))"
    using w by (rule serves_sched.run_keeps)
  show "pus_serves db f m c s0 (snd (obsw_s19_run (Some s19_part) (Some (pus_dispatcher db)) w))"
    using serves_act.run_keeps [OF w] by simp
  show "pus_serves db f m c s0 (obsw_pus_obt_advance dt w)"
    using w kept.J_obt [of db f m w dt] by (simp add: pus_serves_def)
  show "pus_serves db f m c s0 (obsw_pus_s12_check w)"
    using w kept.J_s12 [of db f m w] s12_check_grows [of db w]
    by (auto simp: pus_serves_def pus_kept_def intro: tm_grows_trans)
qed

subsection \<open>What a turn of the TMTC task does\<close>

definition tmtc_same :: "'q tmtc \<Rightarrow> 'q tmtc \<Rightarrow> bool" where
  "tmtc_same t t' \<longleftrightarrow> tt_store t' = tt_store t \<and> tt_tm_pkt t' = tt_tm_pkt t \<and> tt_tx t' = tt_tx t
    \<and> tt_queue t' = tt_queue t"

lemma uart_get_bytes_SomeD:
  "uart_get_bytes n t = Some (d, t') \<Longrightarrow> length d = n \<and> tmtc_same t t'"
  by (induction n arbitrary: t d t') (auto simp: tmtc_same_def uart_getc_def split: option.splits list.splits)

text \<open>
  A turn that ends, whatever bytes it met, has sent what was pending and at most the end-of-tick
  byte; what it handed to the queue has the length it announces.
\<close>

lemma tmtc_end_of_tick_done:
  assumes "tmtc_ok t" "tmtc_end_of_tick t = Some t'"
  shows "tmtc_ok t'" "tm_queue (tt_store t') = []" "tt_queue t' = tt_queue t" "tt_rx t' = tt_rx t"
    "tt_tx t' = tt_tx t @ concat (map wire_frame (tm_queue (tt_store t))) @ [WIRE_EOT]"
proof -
  from flush_tm_all [OF assms(1)] assms(2)
  have "tmtc_ok t' \<and> tm_queue (tt_store t') = [] \<and> tt_queue t' = tt_queue t \<and> tt_rx t' = tt_rx t
    \<and> tt_tx t' = tt_tx t @ concat (map wire_frame (tm_queue (tt_store t))) @ [WIRE_EOT]"
    by (auto simp: tmtc_end_of_tick_def uart_write_def tmtc_ok_def)
  then show "tmtc_ok t'" "tm_queue (tt_store t') = []" "tt_queue t' = tt_queue t" "tt_rx t' = tt_rx t"
    "tt_tx t' = tt_tx t @ concat (map wire_frame (tm_queue (tt_store t))) @ [WIRE_EOT]" by blast+
qed

lemma tmtc_iter_done:
  assumes fifo: "bounded_fifo q_send q_recv q_items q_inv TC_QUEUE_DEPTH (\<lambda>_. True)"
    and q: "q_inv (tt_queue t)" "\<forall>i \<in> set (q_items (tt_queue t)). item_ok i"
    and t: "tmtc_ok t" "tmtc_iter q_send t = Some t'"
  shows "tmtc_ok t' \<and> tm_queue (tt_store t') = [] \<and> q_inv (tt_queue t')
    \<and> (\<forall>i \<in> set (q_items (tt_queue t')). item_ok i)
    \<and> (\<exists>e. set e \<subseteq> {WIRE_EOT} \<and> tt_tx t' = tt_tx t @ concat (map wire_frame (tm_queue (tt_store t))) @ e)"
proof -
  have ends: ?thesis
    if "tmtc_end_of_tick u = Some t'" "tmtc_ok u" "tt_store u = tt_store t" "tt_tx u = tt_tx t"
      "q_inv (tt_queue u)" "\<forall>i \<in> set (q_items (tt_queue u)). item_ok i" for u
    using tmtc_end_of_tick_done [OF that(2,1)] that(3-6) by (intro conjI exI [of _ "[WIRE_EOT]"]) simp_all
  show ?thesis
  proof (cases "tt_rx t = []")
    case True
    with t(2) have "flush_tm t = Some t'" by (simp add: tmtc_iter_def)
    with flush_tm_all [OF t(1)] q show ?thesis by (auto intro: exI [of _ "[]"])
  next
    case False
    then obtain ty hi lo r where rx: "tt_rx t = ty # hi # lo # r"
      using t(2) by (auto simp: tmtc_iter_def uart_getc_def neq_Nil_conv split: option.splits list.splits)
    let ?t3 = "t\<lparr>tt_rx := r\<rparr>"
    have it: "tmtc_iter q_send t = (let flen = push_bit 8 (ucast hi) OR ucast lo :: u16 in
         if flen = 0 \<or> flen > OBSW_TC_FRAME_MAX then tmtc_end_of_tick ?t3
         else
           (case uart_get_bytes (unat flen) ?t3 of None \<Rightarrow> None
            | Some (d, t4) \<Rightarrow>
                let t5 = (if ty = WIRE_TC
                          then (case q_send (tt_queue t4) \<lparr>item_data = d, item_len = flen\<rparr> of
                                  Some q \<Rightarrow> t4\<lparr>tt_queue := q\<rparr> | None \<Rightarrow> t4)
                          else t4)
                in tmtc_end_of_tick t5))"
      by (simp add: tmtc_iter_def uart_getc_def rx)
    obtain flen :: u16 where flen: "flen = push_bit 8 (ucast hi) OR ucast lo" by simp
    show ?thesis
    proof (cases "flen = 0 \<or> flen > OBSW_TC_FRAME_MAX")
      case True
      with it t(2) have "tmtc_end_of_tick ?t3 = Some t'" by (auto simp: flen)
      from ends [OF this] t(1) q show ?thesis by (auto simp: tmtc_ok_def)
    next
      case False
      with it t(2) obtain d t4 where d: "uart_get_bytes (unat flen) ?t3 = Some (d, t4)"
        by (auto simp: flen Let_def split: option.splits)
      let ?i = "\<lparr>item_data = d, item_len = flen\<rparr>"
      let ?t5 = "if ty = WIRE_TC then (case q_send (tt_queue t4) ?i of Some q \<Rightarrow> t4\<lparr>tt_queue := q\<rparr> | None \<Rightarrow> t4) else t4"
      have e: "tmtc_end_of_tick ?t5 = Some t'" using it t(2) d False by (auto simp: flen Let_def)
      have i: "item_ok ?i" and t4: "tmtc_same t t4"
        using uart_get_bytes_SomeD [OF d] by (auto simp: item_ok_def tmtc_same_def)
      have "q_inv (tt_queue ?t5) \<and> (\<forall>i \<in> set (q_items (tt_queue ?t5)). item_ok i)"
        using q i t4 bounded_fifo.enq_SomeD [OF fifo q(1), of ?i] by (auto simp: tmtc_same_def split: option.split)
      with ends [OF e] t4 t(1) show ?thesis by (auto simp: tmtc_ok_def tmtc_same_def split: option.splits)
    qed
  qed
qed

subsection \<open>The downlink\<close>

text \<open>Bytes that end with a frame of the link: what follows them is decoded on its own.\<close>

definition wire_closed :: "u8 list \<Rightarrow> bool" where
  "wire_closed out \<longleftrightarrow> (\<forall>rest. wire_decode (out @ rest) = wire_decode out @ wire_decode rest)"

lemma wire_closed_Nil [simp]: "wire_closed []"
  by (simp add: wire_closed_def)

lemma wire_closed_frames:
  assumes "wire_closed out" "\<forall>p \<in> set ps. length p < 65536" "set e \<subseteq> {WIRE_EOT}"
  shows "wire_decode (out @ concat (map wire_frame ps) @ e) = wire_decode out @ ps"
    and "wire_closed (out @ concat (map wire_frame ps) @ e)"
proof -
  have e: "wire_decode (e @ r) = wire_decode r" for r
    using assms(3) by (intro wire_decode_skip) auto
  have d: "wire_decode (out @ concat (map wire_frame ps) @ e @ r) = wire_decode out @ ps @ wire_decode r" for r
    using assms(1) by (simp add: wire_closed_def wire_decode_frames [OF assms(2)] e)
  from d [of "[]"] show "wire_decode (out @ concat (map wire_frame ps) @ e) = wire_decode out @ ps" by simp
  with d show "wire_closed (out @ concat (map wire_frame ps) @ e)" by (simp add: wire_closed_def)
qed

text \<open>
  What the ground has decoded (\<open>flight_sent\<close>) and what waits in the store (\<open>flight_pending\<close>).  A
  run progresses when it sends the first pending packets, adds new ones at the end, and does
  nothing else to either.
\<close>

definition flight_sent :: "('q, 'i) flight \<Rightarrow> u8 list list" where
  "flight_sent s = wire_decode (tt_tx (fl_tmtc s))"

definition flight_pending :: "('q, 'i) flight \<Rightarrow> u8 list list" where
  "flight_pending s = tm_queue (fl_store s)"

definition flight_progress :: "('q, 'i) flight \<Rightarrow> ('q, 'i) flight \<Rightarrow> bool" where
  "flight_progress s s' \<longleftrightarrow> (\<exists>sent new. flight_sent s' = flight_sent s @ sent
    \<and> flight_pending s @ new = sent @ flight_pending s')"

lemma flight_progress_refl: "flight_progress s s"
  by (auto simp: flight_progress_def)

lemma flight_progress_trans:
  assumes "flight_progress s t" "flight_progress t u"
  shows "flight_progress s u"
proof -
  from assms obtain a b c d where
    1: "flight_sent t = flight_sent s @ a" "flight_pending s @ b = a @ flight_pending t" and
    2: "flight_sent u = flight_sent t @ c" "flight_pending t @ d = c @ flight_pending u"
    by (auto simp: flight_progress_def)
  have "flight_pending s @ b @ d = a @ flight_pending t @ d"
    using arg_cong [OF 1(2), of "\<lambda>x. x @ d"] by simp
  with 1 2 show ?thesis unfolding flight_progress_def by (intro exI [of _ "a @ c"] exI [of _ "b @ d"]) simp
qed

subsection \<open>What every step keeps\<close>

definition flight_ok ::
  "srdb \<Rightarrow> ('q \<Rightarrow> obsw_tc_frame_item list) \<Rightarrow> ('q \<Rightarrow> bool) \<Rightarrow> ('q, 'i) flight \<Rightarrow> bool" where
  "flight_ok db q_items q_inv s \<longleftrightarrow> pus_wf db (fl_world s) \<and> pus_hook_wf (fl_world s)
    \<and> tmtc_ok (fl_link s) \<and> wire_closed (tt_tx (fl_tmtc s))
    \<and> q_inv (tt_queue (fl_tmtc s)) \<and> (\<forall>i \<in> set (q_items (tt_queue (fl_tmtc s))). item_ok i)
    \<and> s5_on_event (fd_s5 (fl_fdir s)) = None \<and> s5_on_event (md_s5 (pw_mode (fl_world s))) = None"

text \<open>The mode and the memory, and when a step may change them.\<close>

definition fl_fsm :: "('q, 'i) flight \<Rightarrow> unit obsw_fsm_ctx" where
  "fl_fsm s = md_fsm (pw_mode (fl_world s))"

definition fl_mem :: "('q, 'i) flight \<Rightarrow> nat \<Rightarrow> u8" where
  "fl_mem s = s6_mem (pw_s6 (fl_world s))"

definition flight_keeps :: "flight_event \<Rightarrow> ('q, 'i) flight \<Rightarrow> ('q, 'i) flight \<Rightarrow> bool" where
  "flight_keeps ev s s' \<longleftrightarrow> (ev = Fl_mode \<or> fl_fsm s' = fl_fsm s)
    \<and> (ev = Fl_pus \<and> \<not> mem_locked (fl_fsm s) \<or> fl_mem s' = fl_mem s)"

lemmas flight_frame = fl_store_def fl_link_def fl_fsm_def fl_mem_def pw_set_store_def tmtc_ok_def

text \<open>A turn that leaves the link alone and the store growing.\<close>

lemma flight_world_turn:
  assumes "flight_ok db q_items q_inv s"
    and "pus_wf db (fl_world s')" "pus_hook_wf (fl_world s')" "tm_grows (fl_store s) (fl_store s')"
    and "tt_tx (fl_tmtc s') = tt_tx (fl_tmtc s)" "tt_tm_pkt (fl_tmtc s') = tt_tm_pkt (fl_tmtc s)"
    and "q_inv (tt_queue (fl_tmtc s'))" "\<forall>i \<in> set (q_items (tt_queue (fl_tmtc s'))). item_ok i"
    and "s5_on_event (fd_s5 (fl_fdir s')) = None" "s5_on_event (md_s5 (pw_mode (fl_world s'))) = None"
  shows "flight_ok db q_items q_inv s' \<and> flight_progress s s'"
proof
  show "flight_ok db q_items q_inv s'"
    using assms by (auto simp: flight_ok_def tm_grows_def flight_frame)
  obtain ps where "flight_pending s' = flight_pending s @ ps"
    using assms(4) by (auto simp: tm_grows_def flight_pending_def)
  then show "flight_progress s s'"
    unfolding flight_progress_def using assms(5) by (intro exI [of _ "[]"] exI [of _ ps]) (simp add: flight_sent_def)
qed

lemma flight_tmtc_turn:
  assumes fifo: "bounded_fifo (fb_send fb) (fb_receive fb) q_items q_inv TC_QUEUE_DEPTH (\<lambda>_. True)"
    and ok: "flight_ok db q_items q_inv s"
  shows "flight_ok db q_items q_inv (flight_tmtc fb s) \<and> flight_progress s (flight_tmtc fb s)"
    and "tmtc_iter (fb_send fb) (fl_link s) \<noteq> None \<Longrightarrow>
      flight_sent (flight_tmtc fb s) = flight_sent s @ flight_pending s \<and> flight_pending (flight_tmtc fb s) = []"
proof -
  have all: "flight_ok db q_items q_inv (flight_tmtc fb s) \<and> flight_progress s (flight_tmtc fb s)
    \<and> flight_sent (flight_tmtc fb s) = flight_sent s @ flight_pending s \<and> flight_pending (flight_tmtc fb s) = []"
    if t: "tmtc_iter (fb_send fb) (fl_link s) = Some t" for t
  proof -
    have l: "tt_queue (fl_link s) = tt_queue (fl_tmtc s)" "tt_tx (fl_link s) = tt_tx (fl_tmtc s)"
      "tt_store (fl_link s) = fl_store s" "tmtc_ok (fl_link s)"
      using ok by (simp_all add: flight_ok_def fl_link_def)
    obtain e where d: "tmtc_ok t" "tm_queue (tt_store t) = []" "q_inv (tt_queue t)"
      "\<forall>i \<in> set (q_items (tt_queue t)). item_ok i" "set e \<subseteq> {WIRE_EOT}"
      "tt_tx t = tt_tx (fl_tmtc s) @ concat (map wire_frame (tm_queue (fl_store s))) @ e"
      using tmtc_iter_done [OF fifo _ _ l(4) t] ok unfolding l flight_ok_def by blast
    have small: "\<forall>p \<in> set (tm_queue (fl_store s)). length p < 65536"
      using ok tm_queue_small by (auto simp: flight_ok_def flight_frame)
    note w = wire_closed_frames [of "tt_tx (fl_tmtc s)", OF _ small d(5), folded d(6)]
    have c: "wire_closed (tt_tx (fl_tmtc s))" using ok by (simp add: flight_ok_def)
    have s': "flight_tmtc fb s = s\<lparr>fl_tmtc := t, fl_world := pw_set_store (tt_store t) (fl_world s)\<rparr>"
      using t by (simp add: flight_tmtc_def)
    have wf: "pus_wf db (pw_set_store (tt_store t) (fl_world s))"
      using ok d(1) by (auto simp: flight_ok_def flight_frame pus_wf_def part_defs)
    have sent: "flight_sent (flight_tmtc fb s) = flight_sent s @ flight_pending s" "flight_pending (flight_tmtc fb s) = []"
      using w(1) [OF c] d(2) by (simp_all add: s' flight_sent_def flight_pending_def flight_frame)
    moreover from this have "flight_progress s (flight_tmtc fb s)"
      unfolding flight_progress_def by (intro exI [of _ "flight_pending s"] exI [of _ "[]"]) simp
    moreover have "flight_ok db q_items q_inv (flight_tmtc fb s)"
      using ok wf d(1,3,4) w(2) [OF c] by (auto simp: s' flight_ok_def flight_frame pus_hook_wf_def)
    ultimately show ?thesis by blast
  qed
  have "tmtc_iter (fb_send fb) (fl_link s) = None \<Longrightarrow> flight_tmtc fb s = s" by (simp add: flight_tmtc_def)
  with all ok flight_progress_refl
  show "flight_ok db q_items q_inv (flight_tmtc fb s) \<and> flight_progress s (flight_tmtc fb s)" by (metis option.exhaust)
  show "tmtc_iter (fb_send fb) (fl_link s) \<noteq> None \<Longrightarrow>
      flight_sent (flight_tmtc fb s) = flight_sent s @ flight_pending s \<and> flight_pending (flight_tmtc fb s) = []"
    using all by blast
qed

lemma flight_pus_turn:
  assumes fifo: "bounded_fifo (fb_send fb) (fb_receive fb) q_items q_inv TC_QUEUE_DEPTH (\<lambda>_. True)"
    and ok: "flight_ok db q_items q_inv s"
  defines "s' \<equiv> flight_pus db fb s"
  shows "flight_ok db q_items q_inv s' \<and> flight_progress s s'" "flight_keeps Fl_pus s s'"
proof -
  define w where "w = fl_world s"
  define c where "c = md_s5 (pw_mode w)"
  define wq where "wq = pus_step db (fb_send fb) (fb_receive fb) Pus_iteration (w, tt_queue (fl_tmtc s))"
  have s': "s' = s\<lparr>fl_world := fst wq, fl_tmtc := (fl_tmtc s)\<lparr>tt_queue := snd wq\<rparr>\<rparr>"
    by (simp add: s'_def flight_pus_def wq_def pus_step_def w_def case_prod_beta)
  have "pus_serves db (fl_fsm s) (fl_mem s) c (fl_store s) (fst (w, tt_queue (fl_tmtc s)))"
    using ok by (auto simp: pus_serves_def pus_kept_def flight_ok_def flight_frame w_def c_def intro: tm_grows_refl)
  from serves.step_keeps [OF fifo this, of Pus_iteration, folded wq_def]
  have k: "pus_serves db (fl_fsm s) (fl_mem s) c (fl_store s) (fst wq)" "q_inv (snd wq)"
    "\<forall>i \<in> set (q_items (snd wq)). item_ok i"
    using ok by (simp_all add: flight_ok_def)
  then show "flight_ok db q_items q_inv s' \<and> flight_progress s s'"
    using ok by (intro flight_world_turn [OF ok])
      (simp_all add: s' pus_serves_def pus_kept_def flight_ok_def fl_store_def c_def w_def)
  show "flight_keeps Fl_pus s s'"
    using k(1) by (auto simp: s' pus_serves_def pus_kept_def flight_keeps_def fl_fsm_def fl_mem_def)
qed

lemma flight_mode_turn:
  assumes ok: "flight_ok db q_items q_inv s"
  defines "s' \<equiv> flight_mode db s"
  shows "flight_ok db q_items q_inv s' \<and> flight_progress s s'" "flight_keeps Fl_mode s s'"
proof -
  obtain m st where t: "mode_tick db (pw_mode (fl_world s), fl_store s) = (m, st)" by fastforce
  have s': "s' = s\<lparr>fl_world := pw_set_store st ((fl_world s)\<lparr>pw_mode := m\<rparr>)\<rparr>"
    by (simp add: s'_def flight_mode_def t)
  have tm: "tm_ok (fl_store s)" using ok by (simp add: flight_ok_def flight_frame)
  have m5: "s5_on_event (md_s5 (pw_mode (fl_world s))) = None" using ok by (simp add: flight_ok_def)
  note r = mode_tick_reports [OF tm m5 t]
  have g: "tm_grows (fl_store s) st"
    using r(2) tm by (auto intro: tm_grows_refl tm_offered_grows split: if_splits)
  then have "pus_wf db (fl_world s')"
    using ok by (simp add: s' flight_ok_def pw_set_store_def pus_wf_def part_defs tm_grows_def)
  with g r(1) ok show "flight_ok db q_items q_inv s' \<and> flight_progress s s'"
    by (intro flight_world_turn [OF ok]) (simp_all add: s' flight_ok_def pus_hook_wf_def pw_set_store_def fl_store_def)
  show "flight_keeps Fl_mode s s'" by (simp add: s' flight_keeps_def flight_frame)
qed

lemma fdir_sub_tick_world:
  assumes "pus_wf db w" "pus_hook_wf w" "s5_on_event (fd_s5 f) = None"
    "fdir_sub_tick db hk (f, w, l) = (f', w', l')"
  shows "pus_wf db w' \<and> pus_hook_wf w' \<and> pw_mode w' = pw_mode w \<and> pw_s6 w' = pw_s6 w
    \<and> tm_grows (env_store (pw_env w)) (env_store (pw_env w')) \<and> s5_on_event (fd_s5 f') = None"
proof -
  obtain g where g: "fd_s5 g = fd_s5 f"
    and t: "(f', w', l') = (g, w, l) \<or> (f', w', l') = fdir_full_tick db hk (g, w, l)"
    using assms(4) by (auto simp: fdir_sub_tick_def Let_def iwdg_kick_def split: if_splits)
      (metis emit_frame(1) fdir.select_convs(1) fdir.surjective fdir.update_convs(6,9))+
  from t show ?thesis
  proof
    assume "(f', w', l') = (g, w, l)"
    with assms g show ?thesis by (simp add: pus_wf_def tm_grows_refl)
  next
    assume e: "(f', w', l') = fdir_full_tick db hk (g, w, l)"
    define w1 where "w1 = obsw_pus_obt_advance 1000 w"
    have w1: "pus_wf db w1" "pus_hook_wf w1" "env_store (pw_env w1) = env_store (pw_env w)"
      using assms(1,2) by (simp_all add: w1_def obsw_pus_obt_advance_def pus_wf_def pus_hook_wf_def part_defs)
    have g5: "s5_on_event (fd_s5 g) = None" using assms(3) g by simp
    note r = fdir_full_tick_world [OF assms(1,2) g5 e [symmetric], folded w1_def]
    have "tm_grows (env_store (pw_env w)) (env_store (pw_env w'))"
      using s12_check_grows [OF w1(1,2)] r(6) tm_grows_trans tm_offered_grows
      unfolding w1(3) Let_def by blast
    moreover have "s5_on_event (fd_s5 f') = None"
      using fdir_full_tick_own(5) [of db hk g w l, folded e, unfolded fst_conv] g5 by (simp add: fdir_s5_after_def)
    ultimately show ?thesis using r by blast
  qed
qed

lemma flight_fdir_turn:
  assumes ok: "flight_ok db q_items q_inv s"
  defines "s' \<equiv> flight_fdir db s"
  shows "flight_ok db q_items q_inv s' \<and> flight_progress s s'" "flight_keeps Fl_fdir s s'"
proof -
  obtain f w l where t: "fdir_sub_tick db (ao_hk (fl_aocs s)) (fl_fdir s, fl_world s, tt_log (fl_tmtc s)) = (f, w, l)"
    by (rule prod_cases3)
  have s': "s' = s\<lparr>fl_fdir := f, fl_world := w, fl_tmtc := (fl_tmtc s)\<lparr>tt_log := l\<rparr>\<rparr>"
    by (simp add: s'_def flight_fdir_def t)
  have r: "pus_wf db w \<and> pus_hook_wf w \<and> pw_mode w = pw_mode (fl_world s) \<and> pw_s6 w = pw_s6 (fl_world s)
    \<and> tm_grows (fl_store s) (env_store (pw_env w)) \<and> s5_on_event (fd_s5 f) = None"
    unfolding fl_store_def using ok by (intro fdir_sub_tick_world [OF _ _ _ t]) (simp_all add: flight_ok_def)
  with ok show "flight_ok db q_items q_inv s' \<and> flight_progress s s'"
    by (intro flight_world_turn [OF ok]) (simp_all add: s' flight_ok_def fl_store_def)
  show "flight_keeps Fl_fdir s s'" using r by (simp add: s' flight_keeps_def fl_fsm_def fl_mem_def)
qed

lemma flight_step_keeps:
  fixes ev :: flight_event
  assumes fifo: "bounded_fifo (fb_send fb) (fb_receive fb) q_items q_inv TC_QUEUE_DEPTH (\<lambda>_. True)"
    and ok: "flight_ok db q_items q_inv s"
  defines "s' \<equiv> flight_step db fb ev s"
  shows "flight_ok db q_items q_inv s' \<and> flight_progress s s'" "flight_keeps ev s s'"
proof -
  have "(flight_ok db q_items q_inv s' \<and> flight_progress s s') \<and> flight_keeps ev s s'"
  proof (cases ev)
    case (Fl_rx bs)
    then have s': "s' = s\<lparr>fl_tmtc := (fl_tmtc s)\<lparr>tt_rx := tt_rx (fl_tmtc s) @ bs\<rparr>\<rparr>"
      by (simp add: s'_def flight_step_def)
    have "flight_ok db q_items q_inv s' \<and> flight_progress s s'" using ok
      by (intro flight_world_turn [OF ok])
        (simp_all add: s' flight_ok_def fl_store_def tm_grows_refl pus_wf_def)
    then show ?thesis by (simp add: s' flight_keeps_def fl_fsm_def fl_mem_def)
  next
    case Fl_tmtc
    have "flight_keeps Fl_tmtc s (flight_tmtc fb s)"
      by (simp add: flight_keeps_def flight_tmtc_def fl_fsm_def fl_mem_def pw_set_store_def split: option.split)
    with flight_tmtc_turn(1) [OF fifo ok] Fl_tmtc show ?thesis by (simp add: s'_def flight_step_def)
  next
    case Fl_pus
    with flight_pus_turn [OF fifo ok] show ?thesis by (simp add: s'_def flight_step_def)
  next
    case Fl_mode
    with flight_mode_turn [OF ok] show ?thesis by (simp add: s'_def flight_step_def)
  next
    case Fl_fdir
    with flight_fdir_turn [OF ok] show ?thesis by (simp add: s'_def flight_step_def)
  next
    case Fl_aocs
    have s': "s' = s\<lparr>fl_aocs := fl_aocs s', fl_i2c := fl_i2c s'\<rparr>"
      using Fl_aocs by (simp add: s'_def flight_step_def flight_aocs_def split: prod.split)
    have "flight_ok db q_items q_inv s' \<and> flight_progress s s'" using ok
      by (subst s', subst (2) s', intro flight_world_turn [OF ok])
        (simp_all add: flight_ok_def fl_store_def tm_grows_refl pus_wf_def)
    moreover have "flight_keeps ev s s'" by (subst s') (simp add: flight_keeps_def fl_fsm_def fl_mem_def)
    ultimately show ?thesis by blast
  qed
  then show "flight_ok db q_items q_inv s' \<and> flight_progress s s'" "flight_keeps ev s s'" by blast+
qed

lemma flight_run_keeps:
  assumes fifo: "bounded_fifo (fb_send fb) (fb_receive fb) q_items q_inv TC_QUEUE_DEPTH (\<lambda>_. True)"
    and "flight_ok db q_items q_inv s"
  shows "flight_ok db q_items q_inv (flight_run db fb evs s) \<and> flight_progress s (flight_run db fb evs s)"
  using assms(2)
proof (induction evs arbitrary: s)
  case (Cons ev evs)
  note st = flight_step_keeps(1) [OF fifo Cons.prems, of ev]
  with Cons.IH [of "flight_step db fb ev s"] show ?case by (auto intro: flight_progress_trans)
qed (simp add: flight_progress_refl)

subsection \<open>The initial state\<close>

text \<open>A static set after its widths were bound, or emptied because they could not be.\<close>

lemma fdir_bound_set_shape:
  assumes "set_params x = Boot ps" "unat (set_param_count x) = length ps"
  shows "set_id (fdir_bound_set x sz n) = set_id x"
    and "\<exists>ps'. set_params (fdir_bound_set x sz n) = Boot ps'
      \<and> unat (set_param_count (fdir_bound_set x sz n)) \<le> length ps' \<and> length ps' = length ps"
proof -
  obtain ok y where b: "obsw_s3_bind_sizes (Some x) (Some sz) n = (ok, y)" by fastforce
  have "set_id (fdir_bound_set x sz n) = set_id x
    \<and> (\<exists>ps'. set_params (fdir_bound_set x sz n) = Boot ps'
      \<and> unat (set_param_count (fdir_bound_set x sz n)) \<le> length ps' \<and> length ps' = length ps)"
  proof (cases ok)
    case True
    then have bt: "obsw_s3_bind_sizes (Some x) (Some sz) n = (True, y)" using b by simp
    obtain ps' where "y = Some (x\<lparr>set_params := Boot ps'\<rparr>)" "length ps' = length ps"
      by (rule bind_sizes_Boot [OF bt assms(1)])
    with bt assms(2) show ?thesis by (simp add: fdir_bound_set_def)
  next
    case False
    then have "y = Some x" using b by (auto simp: obsw_s3_bind_sizes_def split: s3_params.splits if_splits)
    with b False assms(1) show ?thesis by (simp add: fdir_bound_set_def)
  qed
  then show "set_id (fdir_bound_set x sz n) = set_id x"
    and "\<exists>ps'. set_params (fdir_bound_set x sz n) = Boot ps'
      \<and> unat (set_param_count (fdir_bound_set x sz n)) \<le> length ps' \<and> length ps' = length ps" by blast+
qed

lemma fdir_s3_init_wf:
  assumes "srdb_hk_fdir_hk db \<noteq> srdb_hk_aocs_bdot_hk db" "obsw_fdir_task_init db m = (f, s3)"
  shows "s3_wf s3"
proof -
  let ?ps = "map fdir_hk_param [1, 2, 3]"
  let ?qs = "map (\<lambda>a. (fdir_hk_param a)\<lparr>p_size := OBSW_S3_PARAM_U32\<rparr>) [4, 5, 6, 7, 8, 9] @ [fdir_hk_param 10]"
  define x0 where "x0 = \<lparr>set_id = srdb_hk_fdir_hk db, set_params = Boot ?ps, set_param_count = 3,
    set_interval = 60, set_countdown = 60, set_enabled = False\<rparr>"
  define y0 where "y0 = \<lparr>set_id = srdb_hk_aocs_bdot_hk db, set_params = Boot ?qs, set_param_count = 7,
    set_interval = 10, set_countdown = 10, set_enabled = False\<rparr>"
  define x where "x = fdir_bound_set x0 (srdb_hk_fdir_hk_sizes db) 3"
  define y where "y = fdir_bound_set y0 (srdb_hk_aocs_bdot_hk_sizes db) 7"
  have sets: "fdir_hk_sets db = [x, y] @ drop 2 (fdir_hk_sets db)"
    by (simp add: x_def y_def x0_def y0_def fdir_hk_sets_def Let_def)
  have p: "set_params x0 = Boot ?ps" "unat (set_param_count x0) = length ?ps"
    "set_params y0 = Boot ?qs" "unat (set_param_count y0) = length ?qs"
    by (simp_all add: x0_def y0_def)
  have l: "length ?ps = 3" "length ?qs = 7" by simp_all
  have ids: "set_id x = srdb_hk_fdir_hk db" "set_id y = srdb_hk_aocs_bdot_hk db"
    unfolding x_def y_def fdir_bound_set_shape(1) [OF p(1,2)] fdir_bound_set_shape(1) [OF p(3,4)]
    by (simp_all add: x0_def y0_def)
  have boot: "\<exists>ps. set_params x = Boot ps \<and> unat (set_param_count x) \<le> length ps \<and> length ps = 3"
    "\<exists>ps. set_params y = Boot ps \<and> unat (set_param_count y) \<le> length ps \<and> length ps = 7"
    using fdir_bound_set_shape(2) [OF p(1,2)] fdir_bound_set_shape(2) [OF p(3,4)]
    unfolding x_def y_def l by blast+
  have s: "s3_sets s3 = fdir_hk_sets db" "s3_set_count s3 = 2" "s3_set_capacity s3 = 6" "s3_pool_used s3 = 0"
    "s3_pool_len s3 = 32" "s3_param_pool s3 = Some (replicate 32 (fdir_hk_param 0))"
    using assms(2) by (auto simp: obsw_fdir_task_init_def Let_def)
  have u: "s3_used s3 = [x, y]" by (simp add: s3_used_def s, subst sets) simp
  have wf: "s3_set_wf s3 z" if "z \<in> {x, y}" for z
    using that boot s3_boot_descr_size [of s3 z] by (auto simp: s3_set_wf_def)
  have "length (fdir_hk_sets db) = 6" by (simp add: fdir_hk_sets_def Let_def)
  with wf boot ids assms(1) show ?thesis by (auto simp: s3_wf_def u s)
qed

lemma flight_init_ok:
  assumes "srdb_hk_fdir_hk db \<noteq> srdb_hk_aocs_bdot_hk db" "q_inv q" "q_items q = []"
  shows "flight_ok db q_items q_inv (flight_init db fb q patch_ram mem i)"
proof -
  let ?m = "obsw_mode_task_init db" and ?store = "snd (obsw_tm_store_init (Some tm_store_bss))"
  obtain f s3 where f: "obsw_fdir_task_init db ?m = (f, s3)" by (rule prod.exhaust)
  have s5: "s5_on_event (fd_s5 f) = None" "s5_on_event (md_s5 ?m) = None"
    using f by (auto simp: obsw_fdir_task_init_def obsw_mode_task_init_def led_init_def iwdg_init_def Let_def)
  obtain st where st: "?store = Some st" "store_wf st"
    using tm_store_bss_wf(1) by (auto simp: obsw_tm_store_init_def store_wf_def)
  define w where "w = obsw_pus_task_init db ?store s3 ?m patch_ram mem"
  have w: "pus_wf db w" "pus_hook_wf w"
    using pus_init_wf [OF _ fdir_s3_init_wf [OF assms(1) f], of ?store] st by (simp_all add: w_def)
  have w': "env_store (pw_env w) = ?store" "pw_mode w = ?m"
    by (simp_all add: w_def obsw_pus_task_init_def Let_def)
  have "obsw_pus_task_init db (Some st) s3 ?m patch_ram mem = w" by (simp add: w_def st(1))
  then show ?thesis
    using assms(2,3) w s5 st w'
    by (simp add: flight_init_def f Let_def flight_ok_def flight_frame obsw_tmtc_task_init_def
        split: prod.split)
qed

subsection \<open>Properties\<close>

text \<open>
  The way down, turn by turn.  From initialisation, whatever bytes arrive and in whatever order
  the five tasks take whole turns, the world of the services stays in order, and between any two
  moments what the ground has decoded has grown by the first packets of those that waited in the
  store, while new ones joined at its end.  This is no statement on turns that preempt each
  other: in the finer steps of \<^verbatim>\<open>Tm_Store_Steps\<close> TMTC may read the store at any moment without
  harm, but two tasks that enqueue at once can lose a packet, and nothing in the program keeps the
  tasks that send telemetry from doing so.
\<close>

theorem flight_downlink_turns:
  assumes "bounded_fifo (fb_send fb) (fb_receive fb) q_items q_inv TC_QUEUE_DEPTH (\<lambda>_. True)"
    and "srdb_hk_fdir_hk db \<noteq> srdb_hk_aocs_bdot_hk db" "q_inv q" "q_items q = []"
    and "s = flight_run db fb evs (flight_init db fb q patch_ram mem i)" "s' = flight_run db fb evs' s"
  shows "pus_wf db (fl_world s') \<and> (\<exists>sent new. flight_sent s' = flight_sent s @ sent
    \<and> flight_pending s @ new = sent @ flight_pending s')"
proof -
  have "flight_ok db q_items q_inv s"
    using flight_run_keeps [OF assms(1) flight_init_ok] assms(2-5) by blast
  from flight_run_keeps [OF assms(1) this, of evs'] show ?thesis
    using assms(6) by (simp add: flight_ok_def flight_progress_def)
qed

text \<open>A board for the examples: the list as queue, and a bus that answers every register with 255.\<close>

definition flight_example_board :: "(obsw_tc_frame_item list, unit) flight_board" where
  "flight_example_board = \<lparr>fb_send = tc_list_send, fb_receive = tc_list_recv, fb_acosf = id,
     fb_i2c_write = (\<lambda>_ _ _ i. (True, i)), fb_i2c_read = (\<lambda>_ _ n i. (Some (replicate n 0xFF), i))\<rparr>"

definition flight_example :: "(obsw_tc_frame_item list, unit) flight" where
  "flight_example = flight_init mode_example_srdb flight_example_board [] 0 (\<lambda>_. 0) ()"

lemma flight_example_fifo:
  "bounded_fifo (fb_send flight_example_board) (fb_receive flight_example_board) id (\<lambda>_. True) TC_QUEUE_DEPTH (\<lambda>_. True)"
  "srdb_hk_fdir_hk mode_example_srdb \<noteq> srdb_hk_aocs_bdot_hk mode_example_srdb"
  using tc_list_fifo by (simp_all add: flight_example_board_def mode_example_srdb_def)

lemma flight_downlink_turns_witness:
  "\<exists>s'. s' = flight_run mode_example_srdb flight_example_board
      ([Fl_rx [1, 0, 11], Fl_tmtc, Fl_fdir, Fl_rx ping_frame, Fl_tmtc, Fl_pus] @ [Fl_mode, Fl_aocs, Fl_tmtc, Fl_rx [7]]) flight_example
    \<and> pus_wf mode_example_srdb (fl_world s')"
  using flight_downlink_turns [where patch_ram = 0 and mem = "\<lambda>_. 0" and i = "()"
      and evs = "[Fl_rx [1, 0, 11], Fl_tmtc, Fl_fdir, Fl_rx ping_frame, Fl_tmtc, Fl_pus]"
      and evs' = "[Fl_mode, Fl_aocs, Fl_tmtc, Fl_rx [7]]",
      OF flight_example_fifo TrueI _ refl refl, of "[]"]
  by (simp add: flight_example_def)

text \<open>
  C8: The memory and the mode are guarded in the whole program.  At any moment a step changes
  the memory only if it is a turn of the PUS task in a mode that admits service 6, and the mode
  only if it is a turn of the mode manager; NOMINAL is entered only from SAFE, by a request for
  it and with no request for another mode pending.
\<close>

theorem flight_memory_guarded:
  assumes "bounded_fifo (fb_send fb) (fb_receive fb) q_items q_inv TC_QUEUE_DEPTH (\<lambda>_. True)"
    and "srdb_hk_fdir_hk db \<noteq> srdb_hk_aocs_bdot_hk db" "q_inv q" "q_items q = []"
    and "s = flight_run db fb evs (flight_init db fb q patch_ram mem i)" "s' = flight_step db fb ev s"
  shows "(fl_mem s' \<noteq> fl_mem s \<longrightarrow> ev = Fl_pus \<and> \<not> mem_locked (fl_fsm s))
    \<and> (fl_fsm s' \<noteq> fl_fsm s \<longrightarrow> ev = Fl_mode)
    \<and> (fsm_mode (fl_fsm s') = OBSW_FSM_NOMINAL \<and> fsm_mode (fl_fsm s) \<noteq> OBSW_FSM_NOMINAL \<longrightarrow>
        fsm_mode (fl_fsm s) = OBSW_FSM_SAFE \<and> md_req_nominal (pw_mode (fl_world s))
        \<and> \<not> md_req_safe (pw_mode (fl_world s)) \<and> \<not> md_req_standby (pw_mode (fl_world s)))"
proof -
  have "flight_ok db q_items q_inv s"
    using flight_run_keeps [OF assms(1) flight_init_ok] assms(2-5) by blast
  note k = flight_step_keeps(2) [OF assms(1) this, of ev, folded assms(6), unfolded flight_keeps_def]
  moreover have "fl_fsm (flight_mode db s) = md_fsm (fst (mode_tick db (pw_mode (fl_world s), fl_store s)))"
    by (simp add: flight_mode_def fl_fsm_def pw_set_store_def split: prod.split)
  ultimately show ?thesis
    using mode_tick_effect(1) [of db "pw_mode (fl_world s)" "fl_store s"] assms(6)
    by (auto simp: flight_step_def fl_fsm_def Let_def split: if_splits)
qed

text \<open>A load command on the link in STANDBY: the PUS task refuses it.\<close>

lemma flight_memory_guarded_witness:
  "let s = flight_run mode_example_srdb flight_example_board [Fl_rx (wire_tc (WIRE_TC, load_frame)), Fl_tmtc] flight_example
   in fl_mem (flight_step mode_example_srdb flight_example_board Fl_pus s) = fl_mem s"
proof -
  define s where "s = flight_run mode_example_srdb flight_example_board
    [Fl_rx (wire_tc (WIRE_TC, load_frame)), Fl_tmtc] flight_example"
  have "fl_fsm s = md_fsm (obsw_mode_task_init mode_example_srdb)"
    by (simp add: s_def flight_step_def flight_tmtc_def fl_fsm_def pw_set_store_def flight_example_def flight_init_def
        obsw_pus_task_init_def Let_def split: prod.split option.split)
  then have "mem_locked (fl_fsm s)"
    by (simp add: mem_locked_def obsw_fsm_tc_allowed_def Let_def obsw_mode_task_init_def obsw_fsm_init_def
        mode_fsm_config_def mode_example_srdb_def)
  moreover have s: "s = flight_run mode_example_srdb flight_example_board [Fl_rx (wire_tc (WIRE_TC, load_frame)), Fl_tmtc]
    (flight_init mode_example_srdb flight_example_board [] 0 (\<lambda>_. 0) ())" by (simp add: s_def flight_example_def)
  moreover have "id [] = ([] :: obsw_tc_frame_item list)" by simp
  ultimately show ?thesis
    using flight_memory_guarded [OF flight_example_fifo TrueI _ s refl, of Fl_pus]
    unfolding s_def [symmetric] Let_def by blast
qed

subsection \<open>From a command on the link to its reports on the link\<close>

text \<open>A turn of the PUS task on a waiting command and an empty store.\<close>

lemma flight_pus_command:
  assumes fifo: "bounded_fifo (fb_send fb) (fb_receive fb) q_items q_inv TC_QUEUE_DEPTH (\<lambda>_. True)"
    and ok: "flight_ok db q_items q_inv s" "flight_pending s = []"
    and item: "q_items (tt_queue (fl_tmtc s)) = i # is" "feed_tc (item_data i) (ucast (item_len i) :: u32) = Some tc"
  obtains rc xs more where "verified rc xs"
    and "\<not> pus_gate tc (fl_world s) \<longrightarrow> xs = [S1 (Refused OBSW_S1_FAIL_MODE_GATED)]"
    and "flight_pending (flight_pus db fb s)
      = take 31 (item_packets (env_s1 (pw_env (fl_world s))) tc xs) @ more"
proof -
  define w where "w = fl_world s"
  define d where "d = pus_dispatcher db"
  let ?n = "ucast (item_len i) :: u32"
  have wf: "pus_wf db w" "pus_hook_wf w" and q: "q_inv (tt_queue (fl_tmtc s))" "item_ok i"
    and st: "env_store (pw_env w) \<noteq> None" "tm_queue (env_store (pw_env w)) = []"
    using ok item(1) by (auto simp: flight_ok_def w_def flight_frame flight_pending_def)
  obtain q' where q': "fb_receive fb (tt_queue (fl_tmtc s)) = Some (i, q')"
    using bounded_fifo.deq_ok [OF fifo q(1) item(1)] by blast
  have n: "unat ?n \<le> length (item_data i)" using q(2) by (simp add: item_ok_def unat_ucast_u16)
  obtain rc w1 xs where f: "obsw_tc_dispatcher_feed (Some d) (Some (item_data i)) ?n w = (rc, w1)"
    "pus_wf db w1" "env_does tc (pw_env w) xs (pw_env w1)"
    "verified (if rc = OBSW_TC_OK then 0 else -1) xs"
    "\<not> pus_gate tc w \<longrightarrow> xs = [S1 (Refused OBSW_S1_FAIL_MODE_GATED)]"
    using pus_disp.command_verified [OF _ wf(1) n item(2)] by (auto simp: d_def)
  have one: "tm_queue (env_store (pw_env w1)) = take 31 (item_packets (env_s1 (pw_env w)) tc xs)"
    using f(3) st by (simp add: env_does_def tm_offered_def)
  define w3 where "w3 = snd (obsw_s19_run (Some s19_part) (Some d)
    (snd (obsw_s11_run (Some s11_part) (Some (pw_obt w1)) (Some d) w1)))"
  have "pus_kept db (md_fsm (pw_mode w)) (s6_mem (pw_s6 w1)) w1"
  proof -
    have "pus_kept db (md_fsm (pw_mode w)) (s6_mem (pw_s6 w)) w" using wf by (simp add: pus_kept_def)
    from kept.J_feed [OF this n] f(1) show ?thesis by (simp add: pus_kept_def d_def)
  qed
  then have "pus_serves db (md_fsm (pw_mode w)) (s6_mem (pw_s6 w1)) (md_s5 (pw_mode w1)) (env_store (pw_env w1)) w1"
    using f(2) by (simp add: pus_serves_def pus_wf_def tm_grows_refl)
  from serves.J_s19 [OF serves.J_s11 [OF this], folded d_def, of "pw_obt w1", folded w3_def]
  obtain more where "tm_queue (env_store (pw_env w3)) = tm_queue (env_store (pw_env w1)) @ more"
    by (auto simp: pus_serves_def tm_grows_def)
  moreover have "flight_pending (flight_pus db fb s) = tm_queue (env_store (pw_env w3))"
    by (simp add: flight_pus_def pus_iter_def q' w_def [symmetric] d_def [symmetric] f(1) case_prod_beta
        flight_pending_def fl_store_def w3_def)
  ultimately show thesis using that [OF f(4)] f(5) one by (simp add: w_def)
qed

text \<open>
  C1: A command is answered, from the link and back to it.  At any moment of any run at which the
  uplink holds one command frame and no earlier one waits, a turn of TMTC, one of the PUS
  task and one of TMTC again put on the downlink, after all the telemetry that was pending, the
  reports of a proper verification of exactly that command, up to the capacity of the
  store; a command the mode does not admit is reported as gated; what stored commands add
  comes after, and nothing stays behind.
\<close>

theorem flight_command_answered:
  assumes "bounded_fifo (fb_send fb) (fb_receive fb) q_items q_inv TC_QUEUE_DEPTH (\<lambda>_. True)"
    and "srdb_hk_fdir_hk db \<noteq> srdb_hk_aocs_bdot_hk db" "q_inv q" "q_items q = []"
    and "s = flight_run db fb evs (flight_init db fb q patch_ram mem i)"
    and "tt_rx (fl_tmtc s) = wire_tc (WIRE_TC, frame)" "q_items (tt_queue (fl_tmtc s)) = []"
    and "1 \<le> length frame" "length frame \<le> 512" "feed_tc frame (of_nat (length frame) :: u32) = Some tc"
    and "s' = flight_run db fb [Fl_tmtc, Fl_pus, Fl_tmtc] s"
  shows "\<exists>rc xs more. verified rc xs
    \<and> (\<not> pus_gate tc (fl_world s) \<longrightarrow> xs = [S1 (Refused OBSW_S1_FAIL_MODE_GATED)])
    \<and> flight_sent s' = flight_sent s @ flight_pending s
        @ take 31 (item_packets (env_s1 (pw_env (fl_world s))) tc xs) @ more
    \<and> flight_pending s' = []"
proof -
  have ok: "flight_ok db q_items q_inv s"
    using flight_run_keeps [OF assms(1) flight_init_ok] assms(2-5) by blast
  define s1 where "s1 = flight_tmtc fb s"
  define s2 where "s2 = flight_pus db fb s1"
  have s': "s' = flight_tmtc fb s2" by (simp add: assms(11) flight_step_def s1_def s2_def)
  have l: "tmtc_ok (fl_link s)" "q_inv (tt_queue (fl_link s))" "tt_rx (fl_link s) = wire_tc (WIRE_TC, frame) @ []"
    "q_items (tt_queue (fl_link s)) = []"
    using ok assms(6,7) by (simp_all add: flight_ok_def fl_link_def)
  obtain t where t: "tmtc_iter (fb_send fb) (fl_link s) = Some t" "tt_rx t = []"
    "q_items (tt_queue t) = [\<lparr>item_data = frame, item_len = of_nat (length frame)\<rparr>]"
    by (rule tmtc_iter_frame [OF assms(1) l(2,1,3) assms(8,9)]) (simp add: l(4) tc_items_def)
  have s1: "s1 = s\<lparr>fl_tmtc := t, fl_world := pw_set_store (tt_store t) (fl_world s)\<rparr>"
    by (simp add: s1_def flight_tmtc_def t(1))
  have ok1: "flight_ok db q_items q_inv s1" and sent1: "flight_sent s1 = flight_sent s @ flight_pending s"
    and none1: "flight_pending s1 = []"
    using flight_tmtc_turn [OF assms(1) ok] t(1) by (simp_all add: s1_def)
  have w1: "env_s1 (pw_env (fl_world s1)) = env_s1 (pw_env (fl_world s))" "pus_gate tc (fl_world s1) = pus_gate tc (fl_world s)"
    by (simp_all add: s1 pw_set_store_def pus_gate_def)
  have uc: "ucast (of_nat (length frame) :: u16) = (of_nat (length frame) :: u32)"
    using assms(9) by (simp add: word_unat_eq_iff unat_ucast_u16 unat_of_nat_small)
  have q1: "q_items (tt_queue (fl_tmtc s1)) = [\<lparr>item_data = frame, item_len = of_nat (length frame)\<rparr>]"
    by (simp add: s1 t(3))
  obtain rc xs more where v: "verified rc xs"
    "\<not> pus_gate tc (fl_world s) \<longrightarrow> xs = [S1 (Refused OBSW_S1_FAIL_MODE_GATED)]"
    "flight_pending s2 = take 31 (item_packets (env_s1 (pw_env (fl_world s))) tc xs) @ more"
    by (rule flight_pus_command [OF assms(1) ok1 none1 q1, of tc]) (use assms(10) in \<open>simp_all add: uc w1 s2_def\<close>)
  have ok2: "flight_ok db q_items q_inv s2" using flight_pus_turn(1) [OF assms(1) ok1] by (simp add: s2_def)
  have rx2: "tt_rx (fl_link s2) = []" "tt_tx (fl_tmtc s2) = tt_tx (fl_tmtc s1)"
    using t(2) by (simp_all add: s2_def s1 flight_pus_def fl_link_def split: prod.split)
  have "tmtc_ok (fl_link s2)" using ok2 by (simp add: flight_ok_def)
  then have "tmtc_iter (fb_send fb) (fl_link s2) \<noteq> None"
    using flush_tm_all rx2(1) by (fastforce simp: tmtc_iter_def)
  from flight_tmtc_turn(2) [OF assms(1) ok2 this]
  have "flight_sent s' = flight_sent s2 @ flight_pending s2" "flight_pending s' = []" by (simp_all add: s')
  then show ?thesis using v sent1 rx2(2) by (auto simp: flight_sent_def)
qed

text \<open>The first command after the start, a ping: the mode does not admit it.\<close>

lemma flight_command_answered_witness:
  "\<exists>s' more. s' = flight_run mode_example_srdb flight_example_board
      [Fl_rx (wire_tc (WIRE_TC, ping_frame)), Fl_tmtc, Fl_pus, Fl_tmtc] flight_example
    \<and> flight_sent s' = take 31 (item_packets (env_s1 (pw_env (fl_world flight_example))) ping_tc
        [S1 (Refused OBSW_S1_FAIL_MODE_GATED)]) @ more"
proof -
  let ?rx = "[Fl_rx (wire_tc (WIRE_TC, ping_frame))]"
  define s where "s = flight_run mode_example_srdb flight_example_board ?rx flight_example"
  have s: "s = flight_run mode_example_srdb flight_example_board ?rx
    (flight_init mode_example_srdb flight_example_board [] 0 (\<lambda>_. 0) ())" by (simp add: s_def flight_example_def)
  have e: "fl_tmtc flight_example = obsw_tmtc_task_init (Some (the (snd (obsw_tm_store_init (Some tm_store_bss))))) [] []"
    by (simp add: flight_example_def flight_init_def Let_def obsw_tm_store_init_def split: prod.split)
  have w: "fl_world s = fl_world flight_example" "tt_tx (fl_tmtc s) = []"
    "tt_rx (fl_tmtc s) = wire_tc (WIRE_TC, ping_frame)" "id (tt_queue (fl_tmtc s)) = []"
    by (simp_all add: s_def flight_step_def e obsw_tmtc_task_init_def)
  have p: "flight_pending s = []" using tm_store_bss_wf
    by (simp add: flight_pending_def fl_store_def w flight_example_def flight_init_def Let_def obsw_pus_task_init_def
        obsw_tm_store_init_def store_packets_def store_fill_def split: prod.split)
  have g: "\<not> pus_gate ping_tc (fl_world s)"
    by (simp add: w flight_example_def flight_init_def pus_gate_def obsw_fsm_tc_gate_def obsw_fsm_tc_allowed_def
        obsw_pus_task_init_def Let_def obsw_mode_task_init_def obsw_fsm_init_def mode_fsm_config_def
        mode_example_srdb_def ping_tc_def split: prod.split)
  have f: "1 \<le> length ping_frame" "length ping_frame \<le> 512" "feed_tc ping_frame (of_nat (length ping_frame) :: u32) = Some ping_tc"
    using ping_feed_tc by (simp_all add: ping_frame_def)
  from flight_command_answered [OF flight_example_fifo TrueI _ s w(3,4) f refl] g p w(1,2)
  show ?thesis by (auto simp: flight_sent_def s_def)
qed

end
