(* ===== verification/Fault_Report.thy ===== *)
theory Fault_Report
  imports Uart "HOL-Library.Monad_Syntax"
begin

section \<open>The crash reports of the STM32H7 board\<close>

text \<open>
  \<^verbatim>\<open>src/platform/stm32h7/freertos_hooks.c\<close>: the texts that the fault handler, the stack check
  and the assertion of the scheduler put on the UART before they stop for good; a result is
  the state in which a handler then loops.  The static memory of the idle and the timer task
  and the trampoline in assembler have no behaviour to model.

  A text is the list of its bytes.  A poll of the UART may never end, so results are options;
  where the code can write outside its buffer, there is one more option, and the outer \<open>None\<close>
  is that store.
\<close>

subsection \<open>Output\<close>

definition fault_putc :: "'h mmio \<Rightarrow> u8 \<Rightarrow> 'h \<Rightarrow> 'h option" where
  "fault_putc hw c h = do { h \<leftarrow> poll_until hw USART3_ISR usart_txe h; Some (mm_write hw USART3_TDR (ucast c) h) }"

primrec fault_puts :: "'h mmio \<Rightarrow> u8 list \<Rightarrow> 'h \<Rightarrow> 'h option" where
  "fault_puts hw [] h = Some h"
| "fault_puts hw (c # cs) h = do { h \<leftarrow> fault_putc hw c h; fault_puts hw cs h }"

definition hex_char :: "nat \<Rightarrow> u8" where
  "hex_char n = map of_char ''0123456789ABCDEF'' ! n"

text \<open>The loop from \<open>i = n - 1\<close> down to 0.\<close>

primrec fault_hex_from :: "'h mmio \<Rightarrow> u32 \<Rightarrow> nat \<Rightarrow> 'h \<Rightarrow> 'h option" where
  "fault_hex_from hw v 0 h = Some h"
| "fault_hex_from hw v (Suc i) h =
    do { h \<leftarrow> fault_putc hw (hex_char (unat (drop_bit (i * 4) v AND 0xF))) h; fault_hex_from hw v i h }"

definition fault_hex32 :: "'h mmio \<Rightarrow> u32 \<Rightarrow> 'h \<Rightarrow> 'h option" where
  "fault_hex32 hw v h = fault_hex_from hw v 8 h"

text \<open>
  The digits are stored from the end of a buffer of ten bytes; the buffer is a local variable,
  so its first bytes are an argument.
\<close>

function fault_digits :: "u32 \<Rightarrow> nat \<Rightarrow> u8 list \<Rightarrow> (nat \<times> u8 list) option" where
  "fault_digits v i buf =
    (if v = 0 then Some (i, buf)
     else if i = 0 then None
     else fault_digits (v div 10) (i - 1) (buf[i - 1 := 0x30 + ucast (v mod 10)]))"
  by pat_completeness auto

termination fault_digits
  by (relation "measure (\<lambda>(v, i, buf). i)") auto

declare fault_digits.simps [simp del]

definition fault_dec :: "u8 list \<Rightarrow> u32 \<Rightarrow> u8 list option" where
  "fault_dec buf v =
    (let buf = buf[9 := 0]
     in map_option (\<lambda>(i, buf). takeWhile (\<lambda>c. c \<noteq> 0) (drop i buf))
          (if v = 0 then Some (8, buf[8 := 0x30]) else fault_digits v 9 buf))"

definition fault_u32 :: "'h mmio \<Rightarrow> u8 list \<Rightarrow> u32 \<Rightarrow> 'h \<Rightarrow> 'h option option" where
  "fault_u32 hw buf v h = map_option (\<lambda>s. fault_puts hw s h) (fault_dec buf v)"

subsection \<open>The handlers\<close>

definition SCB_HFSR :: u32 where "SCB_HFSR = 0xE000ED2C"
definition SCB_CFSR :: u32 where "SCB_CFSR = 0xE000ED28"
definition SCB_MMAR :: u32 where "SCB_MMAR = 0xE000ED34"
definition SCB_BFAR :: u32 where "SCB_BFAR = 0xE000ED38"

abbreviation (input) crlf :: "u8 list" where "crlf \<equiv> [13, 10]"

definition hard_fault_handler_c :: "'h mmio \<Rightarrow> u32 list \<Rightarrow> 'h \<Rightarrow> 'h option" where
  "hard_fault_handler_c hw frame h = do {
     h \<leftarrow> fault_puts hw (crlf @ map of_char ''[HARDFAULT]'') h;
     h \<leftarrow> fault_puts hw (map of_char '' PC='') h; h \<leftarrow> fault_hex32 hw (frame ! 6) h;
     h \<leftarrow> fault_puts hw (map of_char '' LR='') h; h \<leftarrow> fault_hex32 hw (frame ! 5) h;
     h \<leftarrow> fault_puts hw (map of_char '' PSR='') h; h \<leftarrow> fault_hex32 hw (frame ! 7) h;
     h \<leftarrow> fault_puts hw crlf h;
     h \<leftarrow> fault_puts hw (map of_char '' HFSR='') h;
     let (v, h) = mm_read hw SCB_HFSR h;
     h \<leftarrow> fault_hex32 hw v h;
     h \<leftarrow> fault_puts hw (map of_char '' CFSR='') h;
     let (v, h) = mm_read hw SCB_CFSR h;
     h \<leftarrow> fault_hex32 hw v h;
     h \<leftarrow> fault_puts hw (map of_char '' MMAR='') h;
     let (v, h) = mm_read hw SCB_MMAR h;
     h \<leftarrow> fault_hex32 hw v h;
     h \<leftarrow> fault_puts hw (map of_char '' BFAR='') h;
     let (v, h) = mm_read hw SCB_BFAR h;
     h \<leftarrow> fault_hex32 hw v h;
     fault_puts hw crlf h }"

definition vApplicationStackOverflowHook :: "'h mmio \<Rightarrow> u8 list \<Rightarrow> 'h \<Rightarrow> 'h option" where
  "vApplicationStackOverflowHook hw pcTaskName h = do {
     h \<leftarrow> fault_puts hw (crlf @ map of_char ''[STACK OVERFLOW] task='') h;
     h \<leftarrow> fault_puts hw pcTaskName h;
     fault_puts hw crlf h }"

definition obsw_freertos_assert_fail :: "'h mmio \<Rightarrow> u8 list \<Rightarrow> u8 list \<Rightarrow> int \<Rightarrow> 'h \<Rightarrow> 'h option option" where
  "obsw_freertos_assert_fail hw buf file line h =
    (case fault_puts hw (crlf @ map of_char ''[ASSERT FAIL] line='') h of None \<Rightarrow> Some None
     | Some h \<Rightarrow> map_option (\<lambda>r. do {
         h \<leftarrow> r;
         h \<leftarrow> fault_puts hw (map of_char '' file='') h;
         h \<leftarrow> fault_puts hw file h;
         fault_puts hw crlf h }) (fault_u32 hw buf (word_of_int line) h))"

section \<open>What appears on the line\<close>

lemma fault_puts_send: "fault_puts hw s h = send_bytes hw USART3_ISR usart_txe USART3_TDR s h"
  by (induction s arbitrary: h) (simp_all add: fault_putc_def Option.bind_assoc split: option.split bind_split)

text \<open>Eight hexadecimal digits, the most significant first.\<close>

definition hex32 :: "u32 \<Rightarrow> u8 list" where
  "hex32 v = map (\<lambda>i. hex_char (unat (drop_bit ((7 - i) * 4) v AND 0xF))) [0..<8]"

lemma fault_hex32_puts: "fault_hex32 hw v h = fault_puts hw (hex32 v) h"
  by (simp add: fault_hex32_def hex32_def upt_rec numeral_eq_Suc)

text \<open>Texts sent one after the other are one text.\<close>

lemma fault_puts_append: "do { h \<leftarrow> fault_puts hw s h; fault_puts hw t h } = fault_puts hw (s @ t) h"
  by (induction s arbitrary: h) (simp_all add: Option.bind_assoc)

lemma fault_puts_append_do: "do { h \<leftarrow> fault_puts hw s h; h \<leftarrow> fault_puts hw t h; f h } = do { h \<leftarrow> fault_puts hw (s @ t) h; f h }"
  by (simp add: fault_puts_append [symmetric] Option.bind_assoc)

text \<open>The report of a fault and the values it shows.\<close>

definition crash_report :: "u32 list \<Rightarrow> u32 \<Rightarrow> u32 \<Rightarrow> u32 \<Rightarrow> u32 \<Rightarrow> u8 list" where
  "crash_report frame hfsr cfsr mmar bfar =
    crlf @ map of_char ''[HARDFAULT] PC='' @ hex32 (frame ! 6) @ map of_char '' LR='' @ hex32 (frame ! 5)
    @ map of_char '' PSR='' @ hex32 (frame ! 7) @ crlf @ map of_char '' HFSR='' @ hex32 hfsr
    @ map of_char '' CFSR='' @ hex32 cfsr @ map of_char '' MMAR='' @ hex32 mmar @ map of_char '' BFAR='' @ hex32 bfar @ crlf"

definition hex_digit :: "u8 \<Rightarrow> nat" where
  "hex_digit c = (if c < 0x3A then unat c - 0x30 else unat c - 0x37)"

definition hex_value :: "u8 list \<Rightarrow> nat" where
  "hex_value s = foldl (\<lambda>n c. n * 16 + hex_digit c) 0 s"

lemma hex_digit_char: "n < 16 \<Longrightarrow> hex_digit (hex_char n) = n"
proof -
  assume "n < 16"
  then have "n \<in> set [0..<16]" by simp
  then show ?thesis by (auto simp: upt_rec hex_char_def hex_digit_def of_char_def)
qed

lemma hex_value_hex32: "hex_value (hex32 v) = unat v"
proof -
  let ?u = "unat v"
  have nib: "unat (drop_bit k v AND 0xF) = ?u div 2 ^ k mod 16" for k
  proof -
    have "drop_bit k v AND 0xF = take_bit 4 (drop_bit k v)" by (simp add: take_bit_eq_mask mask_eq_exp_minus_1)
    then have "unat (drop_bit k v AND 0xF) = take_bit 4 (drop_bit k ?u)" by (simp only: unsigned_take_bit_eq unat_drop_bit_eq)
    then show ?thesis by (simp only: take_bit_eq_mod drop_bit_eq_div) simp
  qed
  have step: "?u div 2 ^ (k + 4) * 16 + ?u div 2 ^ k mod 16 = ?u div 2 ^ k" for k
    by (simp add: power_add div_mult2_eq)
  have "?u < 2 ^ 32" using unsigned_less [of v] by simp
  then have top: "?u div 2 ^ 28 mod 16 = ?u div 2 ^ 28" by simp
  have "hex_value (hex32 v) = (((((((?u div 2 ^ 28 mod 16) * 16 + ?u div 2 ^ 24 mod 16) * 16 + ?u div 2 ^ 20 mod 16) * 16
      + ?u div 2 ^ 16 mod 16) * 16 + ?u div 2 ^ 12 mod 16) * 16 + ?u div 2 ^ 8 mod 16) * 16 + ?u div 2 ^ 4 mod 16) * 16 + ?u div 2 ^ 0 mod 16"
    unfolding hex_value_def hex32_def nib by (simp add: upt_rec hex_digit_char)
  also have "\<dots> = ?u"
    using step [of 24] step [of 20] step [of 16] step [of 12] step [of 8] step [of 4] step [of 0]
    unfolding top by (simp only: numeral_plus_numeral add_num_simps arith_simps add_0) simp
  finally show ?thesis .
qed

text \<open>A text appears on the line as it is, and sending it reads nothing but the status.\<close>

lemma fault_puts_logged:
  assumes "\<And>h. polls hw USART3_ISR usart_txe h"
  obtains h' l' where "fault_puts (logged hw) s (h, l) = Some (h', l @ l')" "writes l' = map (\<lambda>b. (USART3_TDR, ucast b)) s"
    "\<forall>a. a \<noteq> USART3_ISR \<longrightarrow> reads_of a l' = []"
  unfolding fault_puts_send
  by (rule send_bytes_logged [where hw = hw and h = h and l = l and bs = s and tx = USART3_TDR, OF assms]) (use that in blast)

lemma fault_regs [simp]:
  "SCB_HFSR \<noteq> USART3_ISR" "SCB_CFSR \<noteq> USART3_ISR" "SCB_MMAR \<noteq> USART3_ISR" "SCB_BFAR \<noteq> USART3_ISR"
  "SCB_HFSR \<noteq> SCB_CFSR" "SCB_HFSR \<noteq> SCB_MMAR" "SCB_HFSR \<noteq> SCB_BFAR" "SCB_CFSR \<noteq> SCB_HFSR" "SCB_CFSR \<noteq> SCB_MMAR" "SCB_CFSR \<noteq> SCB_BFAR"
  "SCB_MMAR \<noteq> SCB_HFSR" "SCB_MMAR \<noteq> SCB_CFSR" "SCB_MMAR \<noteq> SCB_BFAR" "SCB_BFAR \<noteq> SCB_HFSR" "SCB_BFAR \<noteq> SCB_CFSR" "SCB_BFAR \<noteq> SCB_MMAR"
  by (simp_all add: SCB_HFSR_def SCB_CFSR_def SCB_MMAR_def SCB_BFAR_def USART3_ISR_def)

text \<open>The handler as five texts with the status registers read between them.\<close>

lemma hard_fault_texts: "hard_fault_handler_c hw frame h = do {
     h \<leftarrow> fault_puts hw (crlf @ map of_char ''[HARDFAULT] PC='' @ hex32 (frame ! 6) @ map of_char '' LR='' @ hex32 (frame ! 5)
       @ map of_char '' PSR='' @ hex32 (frame ! 7) @ crlf @ map of_char '' HFSR='') h;
     let (v, h) = mm_read hw SCB_HFSR h;
     h \<leftarrow> fault_puts hw (hex32 v @ map of_char '' CFSR='') h;
     let (v, h) = mm_read hw SCB_CFSR h;
     h \<leftarrow> fault_puts hw (hex32 v @ map of_char '' MMAR='') h;
     let (v, h) = mm_read hw SCB_MMAR h;
     h \<leftarrow> fault_puts hw (hex32 v @ map of_char '' BFAR='') h;
     let (v, h) = mm_read hw SCB_BFAR h;
     fault_puts hw (hex32 v @ crlf) h }"
  unfolding hard_fault_handler_c_def fault_hex32_puts fault_puts_append_do fault_puts_append by simp

text \<open>
  C32: The crash report tells the truth.  When the UART gets ready after finitely many polls
  each time, the fault handler finishes its report and has sent exactly the text of the report:
  the program counter, the return address and the status of the frame the processor pushed,
  and the four fault registers as they were read, in that order; and the eight hexadecimal
  digits of a value stand for it.
\<close>

theorem crash_report_exact:
  assumes "\<And>h. polls hw USART3_ISR usart_txe h"
  shows "\<exists>h' l hfsr cfsr mmar bfar. hard_fault_handler_c (logged hw) frame (h, []) = Some (h', l)
    \<and> writes l = map (\<lambda>c. (USART3_TDR, ucast c)) (crash_report frame hfsr cfsr mmar bfar)
    \<and> reads_of SCB_HFSR l = [hfsr] \<and> reads_of SCB_CFSR l = [cfsr] \<and> reads_of SCB_MMAR l = [mmar] \<and> reads_of SCB_BFAR l = [bfar]
    \<and> (\<forall>v. hex_value (hex32 v) = unat v)"
proof -
  note sent = fault_puts_logged [OF assms]
  let ?t1 = "crlf @ map of_char ''[HARDFAULT] PC='' @ hex32 (frame ! 6) @ map of_char '' LR='' @ hex32 (frame ! 5)
       @ map of_char '' PSR='' @ hex32 (frame ! 7) @ crlf @ map of_char '' HFSR=''"
  let ?ws = "\<lambda>s. map (\<lambda>c. (USART3_TDR, ucast c)) s" and ?quiet = "\<lambda>l. \<forall>a. a \<noteq> USART3_ISR \<longrightarrow> reads_of a l = []"
  obtain h1 l1 where s1: "fault_puts (logged hw) ?t1 (h, []) = Some (h1, [] @ l1)" "writes l1 = ?ws ?t1" "?quiet l1"
    by (rule sent)
  obtain v1 k1 where r1: "mm_read hw SCB_HFSR h1 = (v1, k1)" by fastforce
  obtain h2 l2 where s2: "fault_puts (logged hw) (hex32 v1 @ map of_char '' CFSR='') (k1, l1 @ [Rd SCB_HFSR v1]) = Some (h2, (l1 @ [Rd SCB_HFSR v1]) @ l2)"
    "writes l2 = ?ws (hex32 v1 @ map of_char '' CFSR='')" "?quiet l2"
    by (rule sent)
  obtain v2 k2 where r2: "mm_read hw SCB_CFSR h2 = (v2, k2)" by fastforce
  let ?l2 = "((l1 @ [Rd SCB_HFSR v1]) @ l2) @ [Rd SCB_CFSR v2]"
  obtain h3 l3 where s3: "fault_puts (logged hw) (hex32 v2 @ map of_char '' MMAR='') (k2, ?l2) = Some (h3, ?l2 @ l3)"
    "writes l3 = ?ws (hex32 v2 @ map of_char '' MMAR='')" "?quiet l3"
    by (rule sent)
  obtain v3 k3 where r3: "mm_read hw SCB_MMAR h3 = (v3, k3)" by fastforce
  let ?l3 = "(?l2 @ l3) @ [Rd SCB_MMAR v3]"
  obtain h4 l4 where s4: "fault_puts (logged hw) (hex32 v3 @ map of_char '' BFAR='') (k3, ?l3) = Some (h4, ?l3 @ l4)"
    "writes l4 = ?ws (hex32 v3 @ map of_char '' BFAR='')" "?quiet l4"
    by (rule sent)
  obtain v4 k4 where r4: "mm_read hw SCB_BFAR h4 = (v4, k4)" by fastforce
  let ?l4 = "(?l3 @ l4) @ [Rd SCB_BFAR v4]"
  obtain h5 l5 where s5: "fault_puts (logged hw) (hex32 v4 @ crlf) (k4, ?l4) = Some (h5, ?l4 @ l5)"
    "writes l5 = ?ws (hex32 v4 @ crlf)" "?quiet l5"
    by (rule sent)
  have "hard_fault_handler_c (logged hw) frame (h, []) = Some (h5, ?l4 @ l5)"
    unfolding hard_fault_texts s1(1) using r1 r2 r3 r4 s2(1) s3(1) s4(1) s5(1) by simp
  moreover have "writes (?l4 @ l5) = ?ws (crash_report frame v1 v2 v3 v4)"
    unfolding crash_report_def by (simp add: s1(2) s2(2) s3(2) s4(2) s5(2))
  moreover have "reads_of SCB_HFSR (?l4 @ l5) = [v1]" "reads_of SCB_CFSR (?l4 @ l5) = [v2]"
    "reads_of SCB_MMAR (?l4 @ l5) = [v3]" "reads_of SCB_BFAR (?l4 @ l5) = [v4]"
    using s1(3) s2(3) s3(3) s4(3) s5(3) by simp_all
  ultimately show ?thesis using hex_value_hex32 by blast
qed

lemma crash_report_exact_witness:
  "\<exists>h l hfsr cfsr mmar bfar. hard_fault_handler_c (logged usart_slow) [0, 0, 0, 0, 0, 0x08001234, 0x08005678, 0x21000000] (False, []) = Some (h, l)
    \<and> writes l = map (\<lambda>c. (USART3_TDR, ucast c)) (crash_report [0, 0, 0, 0, 0, 0x08001234, 0x08005678, 0x21000000] hfsr cfsr mmar bfar)"
proof -
  have "polls usart_slow USART3_ISR usart_txe h" for h
    by (intro usart_slow_polls) (simp add: usart_txe_def)
  from crash_report_exact [OF this, of "[0, 0, 0, 0, 0, 0x08001234, 0x08005678, 0x21000000]" False] show ?thesis by blast
qed

declare fault_puts.simps [simp del]

subsection \<open>Line numbers\<close>

text \<open>The decimal digits of a number, none for 0.\<close>

fun dec_digits :: "nat \<Rightarrow> u8 list" where
  "dec_digits n = (if n = 0 then [] else dec_digits (n div 10) @ [0x30 + of_nat (n mod 10)])"

declare dec_digits.simps [simp del]

lemma dec_digits_0 [simp]: "dec_digits 0 = []"
  by (simp add: dec_digits.simps)

definition dec_value :: "u8 list \<Rightarrow> nat" where
  "dec_value s = foldl (\<lambda>n c. n * 10 + (unat c - 0x30)) 0 s"

lemma dec_digit:
  assumes "d < 10"
  shows "unat (0x30 + of_nat d :: u8) = 0x30 + d" "(0x30 + of_nat d :: u8) \<noteq> 0"
proof -
  have "d \<in> set [0..<10]" using assms by simp
  then show "unat (0x30 + of_nat d :: u8) = 0x30 + d" "(0x30 + of_nat d :: u8) \<noteq> 0" by (auto simp: upt_rec)
qed

lemma dec_digits_facts:
  "dec_value (dec_digits n) = n" "\<forall>c \<in> set (dec_digits n). c \<noteq> 0" "length (dec_digits n) \<le> i \<longleftrightarrow> n < 10 ^ i"
  "dec_digits n = [] \<longleftrightarrow> n = 0"
proof (induction n arbitrary: i rule: dec_digits.induct)
  case (1 n)
  note [simp] = dec_digits.simps [of n] dec_digit [of "n mod 10"]
  { case 1 then show ?case using "1.IH"(1) by (cases "n = 0") (simp_all add: dec_value_def)
  next case 2 then show ?case using "1.IH"(2) by (cases "n = 0") simp_all
  next case 3 then show ?case using "1.IH"(3) [of "i - 1"] by (cases i) (auto simp: less_mult_imp_div_less div_less_iff_less_mult)
  next case 4 then show ?case by simp }
qed

lemma fault_digits_eq:
  assumes "i \<le> length buf"
  shows "fault_digits v i buf =
    (if unat v < 10 ^ i then Some (i - length (dec_digits (unat v)), take (i - length (dec_digits (unat v))) buf @ dec_digits (unat v) @ drop i buf)
     else None)"
  using assms
proof (induction v i buf rule: fault_digits.induct)
  case (1 v i buf)
  let ?n = "unat v"
  show ?case
  proof (cases "v = 0 \<or> i = 0")
    case True
    then show ?thesis by (auto simp: fault_digits.simps [of v i buf] unat_eq_zero)
  next
    case False
    define k where "k = i - 1"
    have i: "i = Suc k" using False by (simp add: k_def)
    have n: "?n \<noteq> 0" using False by (simp add: unat_eq_zero)
    let ?buf = "buf[k := 0x30 + ucast (v mod 10)]"
    have "unat (v mod 10) = ?n mod 10" by (simp add: unat_mod_distrib)
    then have "(of_nat (unat (v mod 10)) :: u8) = of_nat (?n mod 10)" by (rule arg_cong)
    then have d: "unat (v div 10) = ?n div 10" "(ucast (v mod 10) :: u8) = of_nat (?n mod 10)"
      by (simp_all add: unat_div_distrib)
    have "fault_digits v i buf = fault_digits (v div 10) k ?buf" using False by (subst fault_digits.simps) (simp add: i)
    also have "\<dots> = (if ?n div 10 < 10 ^ k then Some (k - length (dec_digits (?n div 10)),
        take (k - length (dec_digits (?n div 10))) ?buf @ dec_digits (?n div 10) @ drop k ?buf) else None)"
      using "1.IH" False "1.prems" by (simp add: d(1) i)
    also have "drop k ?buf = (0x30 + of_nat (?n mod 10)) # drop (Suc k) buf"
      using "1.prems" by (simp add: i d(2) drop_update_swap Cons_nth_drop_Suc [symmetric])
    finally show ?thesis
      using n by (simp add: i dec_digits.simps [of ?n] div_less_iff_less_mult mult.commute)
  qed
qed

lemma fault_dec_eq:
  assumes "length buf = 10"
  shows "fault_dec buf v = (if unat v < 10 ^ 9 then Some (if v = 0 then [0x30] else dec_digits (unat v)) else None)"
proof -
  obtain b0 b1 b2 b3 b4 b5 b6 b7 b8 b9 where buf: "buf = [b0, b1, b2, b3, b4, b5, b6, b7, b8, b9]"
    using assms by (auto simp: numeral_eq_Suc length_Suc_conv)
  let ?D = "dec_digits (unat v)"
  have "takeWhile (\<lambda>c. c \<noteq> 0) (?D @ [0]) = ?D" using dec_digits_facts(2) by (subst takeWhile_append2) auto
  moreover have "length ?D \<le> 9" if "unat v < 10 ^ 9" using that dec_digits_facts(3) by blast
  ultimately show ?thesis
    by (auto simp: fault_dec_def Let_def fault_digits_eq buf)
qed

text \<open>
  A failed assertion is reported with its line.  For a line number below a thousand million
  the report on the serial link is the text with the file and the line in decimal digits that
  stand for it; from a thousand million on, the ten digits do not fit and the first is stored
  before the start of the buffer.
\<close>

theorem assert_report_exact:
  assumes "\<And>h. polls hw USART3_ISR usart_txe h" "length buf = 10" "0 \<le> line" "line < 2 ^ 31"
  shows "if line < 10 ^ 9
    then \<exists>h' l digits. obsw_freertos_assert_fail (logged hw) buf file line (h, []) = Some (Some (h', l)) \<and> int (dec_value digits) = line
      \<and> writes l = map (\<lambda>c. (USART3_TDR, ucast c))
          (crlf @ map of_char ''[ASSERT FAIL] line='' @ digits @ map of_char '' file='' @ file @ crlf)
    else obsw_freertos_assert_fail (logged hw) buf file line (h, []) = None"
proof -
  note sent = fault_puts_logged [OF assms(1)]
  have line: "unat (word_of_int line :: u32) = nat line"
    using assms(3,4) by (simp add: unat_eq_nat_uint uint_word_of_int)
  let ?t1 = "crlf @ map of_char ''[ASSERT FAIL] line=''"
  obtain h1 l1 where s1: "fault_puts (logged hw) ?t1 (h, []) = Some (h1, [] @ l1)" "writes l1 = map (\<lambda>c. (USART3_TDR, ucast c)) ?t1"
    by (rule sent)
  show ?thesis
  proof (cases "line < 10 ^ 9")
    case True
    define digits where "digits = (if (word_of_int line :: u32) = 0 then [0x30 :: u8] else dec_digits (nat line))"
    have "fault_dec buf (word_of_int line) = Some digits"
      using True assms(2,3) by (simp add: fault_dec_eq line digits_def nat_less_iff)
    moreover obtain h2 l2 where s2: "fault_puts (logged hw) (digits @ map of_char '' file='' @ file @ crlf) (h1, l1) = Some (h2, l1 @ l2)"
      "writes l2 = map (\<lambda>c. (USART3_TDR, ucast c)) (digits @ map of_char '' file='' @ file @ crlf)"
      by (rule sent)
    ultimately have "obsw_freertos_assert_fail (logged hw) buf file line (h, []) = Some (Some (h2, l1 @ l2))"
      using s1(1) s2(1) by (simp add: obsw_freertos_assert_fail_def fault_u32_def fault_puts_append_do fault_puts_append)
    moreover have "dec_value digits = nat line"
    proof (cases "(word_of_int line :: u32) = 0")
      case True
      then show ?thesis using line by (simp add: digits_def dec_value_def)
    qed (simp add: digits_def dec_digits_facts(1))
    moreover have "writes (l1 @ l2) = map (\<lambda>c. (USART3_TDR, ucast c))
        (crlf @ map of_char ''[ASSERT FAIL] line='' @ digits @ map of_char '' file='' @ file @ crlf)"
      by (simp only: writes_append s1(2) s2(2) map_append append_assoc)
    ultimately show ?thesis using True assms(3) by (simp only: if_True) (metis int_nat_eq)
  next
    case False
    then have "fault_dec buf (word_of_int line) = None" using assms(2,3) by (simp add: fault_dec_eq line nat_less_iff)
    with False s1(1) show ?thesis by (simp add: obsw_freertos_assert_fail_def fault_u32_def)
  qed
qed

lemma assert_report_exact_witness:
  "\<exists>h l digits. obsw_freertos_assert_fail (logged usart_slow) (replicate 10 0) [0x61] 42 (False, []) = Some (Some (h, l))
    \<and> int (dec_value digits) = 42"
proof -
  have "polls usart_slow USART3_ISR usart_txe h" for h
    by (intro usart_slow_polls) (simp add: usart_txe_def)
  from assert_report_exact [OF this, of "replicate 10 0" 42 "[0x61]" False] show ?thesis by auto
qed

end
