(* ===== verification/Libc_Shim.thy ===== *)
theory Libc_Shim
  imports Obsw_Prelude
begin

section \<open>The C library of the ZynqMP target\<close>

text \<open>
  \<^verbatim>\<open>src/platform/zynqmp/libc_shim.c\<close> replaces three functions of the C library, as loops over
  the memory.  The memory is a function from addresses to bytes.  The other theories take the
  functions for what the C standard says of them; the lemmas show that these loops are that.
  The square roots are builtins of the compiler, and \<open>__errno\<close> is a variable nobody reads.
\<close>

type_synonym bytes_at = "nat \<Rightarrow> u8"

primrec shim_memcpy :: "nat \<Rightarrow> nat \<Rightarrow> nat \<Rightarrow> bytes_at \<Rightarrow> bytes_at" where
  "shim_memcpy d s 0 m = m"
| "shim_memcpy d s (Suc n) m = shim_memcpy (d + 1) (s + 1) n (m(d := m s))"

primrec shim_memset :: "nat \<Rightarrow> int \<Rightarrow> nat \<Rightarrow> bytes_at \<Rightarrow> bytes_at" where
  "shim_memset d c 0 m = m"
| "shim_memset d c (Suc n) m = shim_memset (d + 1) c n (m(d := word_of_int c))"

text \<open>A string that has no end gives no result.\<close>

partial_function (option) shim_strlen :: "nat \<Rightarrow> nat \<Rightarrow> bytes_at \<Rightarrow> nat option" where
  "shim_strlen s n m = (if m s = 0 then Some n else shim_strlen (s + 1) (n + 1) m)"

text \<open>The bytes of an area.\<close>

definition area :: "bytes_at \<Rightarrow> nat \<Rightarrow> nat \<Rightarrow> u8 list" where
  "area m a n = map m [a..<a + n]"

lemma shim_memcpy_at:
  "d + n \<le> s \<or> s + n \<le> d \<Longrightarrow> shim_memcpy d s n m x = (if d \<le> x \<and> x < d + n then m (s + (x - d)) else m x)"
proof (induction n arbitrary: d s m)
  case (Suc n)
  then have IH: "shim_memcpy (d + 1) (s + 1) n (m(d := m s)) x
    = (if d + 1 \<le> x \<and> x < d + 1 + n then (m(d := m s)) (s + 1 + (x - (d + 1))) else (m(d := m s)) x)" by auto
  consider "x < d" | "x = d" | "d + 1 \<le> x" "x < d + 1 + n" | "d + 1 + n \<le> x" by linarith
  then show ?case
  proof cases
    case 3
    then have "s + 1 + (x - (d + 1)) \<noteq> d" "s + 1 + (x - (d + 1)) = s + (x - d)" using Suc.prems by auto
    then show ?thesis using IH 3 by simp
  qed (use IH in simp_all)
qed auto

lemma shim_memcpy_copies:
  "d + n \<le> s \<or> s + n \<le> d \<Longrightarrow> area (shim_memcpy d s n m) d n = area m s n"
  by (rule nth_equalityI) (auto simp: area_def shim_memcpy_at)

lemma shim_memset_at: "shim_memset d c n m x = (if d \<le> x \<and> x < d + n then word_of_int c else m x)"
  by (induction n arbitrary: d m) auto

lemma shim_strlen_at: "m (s + k) = 0 \<Longrightarrow> \<forall>i < k. m (s + i) \<noteq> 0 \<Longrightarrow> shim_strlen s n m = Some (n + k)"
proof (induction k arbitrary: s n)
  case 0
  then show ?case by (simp add: shim_strlen.simps)
next
  case (Suc k)
  have "m s \<noteq> 0" "\<forall>i < k. m (s + 1 + i) \<noteq> 0" using Suc.prems(2) by force+
  with Suc.IH [of "s + 1" "n + 1"] Suc.prems(1) show ?case by (simp add: shim_strlen.simps [of s])
qed

text \<open>
  The memory functions of the ZynqMP target do what the C standard asks.  A copy between
  areas that do not overlap makes the destination equal to the source and changes nothing
  else, a fill sets exactly its area to the low byte, and the length of a string is the
  position of its first zero byte; for a string that has one the loop ends.
\<close>

lemma shim_as_standard:
  assumes "d + n \<le> s \<or> s + n \<le> d" "m (t + k) = 0" "\<forall>i < k. m (t + i) \<noteq> 0"
  shows "area (shim_memcpy d s n m) d n = area m s n \<and> (\<forall>x. x < d \<or> d + n \<le> x \<longrightarrow> shim_memcpy d s n m x = m x)
    \<and> area (shim_memset d c n m) d n = replicate n (word_of_int c) \<and> (\<forall>x. x < d \<or> d + n \<le> x \<longrightarrow> shim_memset d c n m x = m x)
    \<and> shim_strlen t 0 m = Some k"
proof -
  have "area (shim_memset d c n m) d n = replicate n (word_of_int c)"
    by (rule nth_equalityI) (auto simp: area_def shim_memset_at)
  then show ?thesis
    using shim_memcpy_copies [OF assms(1)] shim_strlen_at [OF assms(2,3), of 0]
    by (auto simp: shim_memcpy_at [OF assms(1)] shim_memset_at)
qed

end
