(* ===== verification/Tmtc_Irq.thy ===== *)
theory Tmtc_Irq
  imports Uart
begin

section \<open>The receive interrupt of the TMTC task\<close>

text \<open>
  The accesses of \<^verbatim>\<open>src/task/tmtc.c\<close> to the interrupt controller: the set-up at the start of the
  task, the arming of the interrupt before the task sleeps, and the handler, which disarms it
  and notifies the task.  The notification itself is a call of FreeRTOS and not modelled here.
\<close>

definition NVIC_ISER1 :: u32 where "NVIC_ISER1 = 0xE000E104"
definition NVIC_IPR9 :: u32 where "NVIC_IPR9 = 0xE000E424"

definition USART_RXNEIE :: u32 where "USART_RXNEIE = push_bit 5 1"

text \<open>\<^verbatim>\<open>FreeRTOSConfig.h\<close>\<close>

definition configMAX_SYSCALL_INTERRUPT_PRIORITY :: u32 where
  "configMAX_SYSCALL_INTERRUPT_PRIORITY = push_bit 4 5"

definition tmtc_nvic_init :: "'h mmio \<Rightarrow> 'h \<Rightarrow> 'h" where
  "tmtc_nvic_init hw h =
    (case mm_read hw NVIC_IPR9 h of (x, h) \<Rightarrow>
       reg_or hw NVIC_ISER1 (push_bit 7 1)
         (mm_write hw NVIC_IPR9 ((x AND NOT (push_bit 24 0xFF)) OR push_bit 24 configMAX_SYSCALL_INTERRUPT_PRIORITY) h))"

text \<open>What the task does about the interrupt when nothing has arrived; the result tells whether it goes to sleep.\<close>

definition tmtc_arm :: "'h mmio \<Rightarrow> 'h \<Rightarrow> bool \<times> 'h" where
  "tmtc_arm hw h =
    (case mm_read hw USART3_ISR h of (isr, h) \<Rightarrow>
       if \<not> usart_rxne isr then (True, reg_or hw USART3_CR1 USART_RXNEIE h) else (False, h))"

definition USART3_IRQHandler :: "'h mmio \<Rightarrow> 'h \<Rightarrow> 'h" where
  "USART3_IRQHandler hw h = reg_and hw USART3_CR1 (NOT USART_RXNEIE) h"

subsection \<open>Registers that hold what was written\<close>

definition plain_regs :: "(u32 \<Rightarrow> u32) mmio" where
  "plain_regs = \<lparr>mm_read = \<lambda>a m. (m a, m), mm_write = \<lambda>a v m. m(a := v)\<rparr>"

lemma plain_regs_simps [simp]:
  "mm_read plain_regs a m = (m a, m)" "mm_write plain_regs a v m = m(a := v)"
  by (simp_all add: plain_regs_def)

text \<open>
  Armed and handled, the interrupt is off again and no other bit has changed; the set-up
  enables interrupt 39 at a priority from which the scheduler may be called, and touches no
  other interrupt.
\<close>

lemma irq_masks_itself:
  assumes "\<not> usart_rxne (m USART3_ISR)"
  shows "tmtc_arm plain_regs m = (True, m(USART3_CR1 := m USART3_CR1 OR USART_RXNEIE))"
    "USART3_IRQHandler plain_regs (m(USART3_CR1 := m USART3_CR1 OR USART_RXNEIE))
      = m(USART3_CR1 := m USART3_CR1 AND NOT USART_RXNEIE)"
proof -
  show "tmtc_arm plain_regs m = (True, m(USART3_CR1 := m USART3_CR1 OR USART_RXNEIE))"
    using assms by (simp add: tmtc_arm_def reg_or_def)
  have "(x OR USART_RXNEIE) AND NOT USART_RXNEIE = x AND NOT USART_RXNEIE" for x
    by (rule bit_word_eqI) (auto simp: bit_simps)
  then show "USART3_IRQHandler plain_regs (m(USART3_CR1 := m USART3_CR1 OR USART_RXNEIE))
      = m(USART3_CR1 := m USART3_CR1 AND NOT USART_RXNEIE)"
    by (simp add: USART3_IRQHandler_def reg_and_def)
qed

lemma nvic_init_only_39:
  "bit (tmtc_nvic_init plain_regs m NVIC_ISER1) n \<longleftrightarrow> bit (m NVIC_ISER1) n \<or> n = 7"
  "n < 24 \<Longrightarrow> bit (tmtc_nvic_init plain_regs m NVIC_IPR9) n = bit (m NVIC_IPR9) n"
  "drop_bit 24 (tmtc_nvic_init plain_regs m NVIC_IPR9) = 0x50"
proof -
  have r: "tmtc_nvic_init plain_regs m NVIC_ISER1 = m NVIC_ISER1 OR push_bit 7 1"
    "tmtc_nvic_init plain_regs m NVIC_IPR9 = (m NVIC_IPR9 AND NOT (push_bit 24 0xFF)) OR 0x50000000"
    by (simp_all add: tmtc_nvic_init_def reg_or_def NVIC_ISER1_def NVIC_IPR9_def configMAX_SYSCALL_INTERRUPT_PRIORITY_def)
  show "bit (tmtc_nvic_init plain_regs m NVIC_ISER1) n \<longleftrightarrow> bit (m NVIC_ISER1) n \<or> n = 7"
    unfolding r by (simp only: bit_or_iff bit_push_bit_iff bit_1_iff) auto
  have low: "\<not> bit (0x50000000 :: u32) n \<and> \<not> bit (push_bit 24 0xFF :: u32) n" if "n < 24" for n
  proof -
    have "(0x50000000 :: u32) = push_bit 24 0x50" by simp
    then show ?thesis using that by (simp only: bit_push_bit_iff) simp
  qed
  then show "bit (tmtc_nvic_init plain_regs m NVIC_IPR9) n = bit (m NVIC_IPR9) n" if "n < 24"
    unfolding r using that low [OF that] by (simp only: bit_or_iff bit_and_iff bit_not_iff) simp
  have "drop_bit 24 (m NVIC_IPR9 AND NOT (push_bit 24 0xFF)) = 0"
  proof (rule bit_word_eqI)
    fix n assume "n < LENGTH(32)"
    have "(push_bit 24 0xFF :: u32) = push_bit 24 (mask 8)" by (simp add: mask_eq_exp_minus_1)
    then show "bit (drop_bit 24 (m NVIC_IPR9 AND NOT (push_bit 24 0xFF))) n = bit (0 :: u32) n"
      by (auto simp: bit_simps)
  qed
  then show "drop_bit 24 (tmtc_nvic_init plain_regs m NVIC_IPR9) = 0x50"
    unfolding r by (simp add: drop_bit_or)
qed

end
