(* ===== verification/Spec2Isabelle.thy ===== *)
theory Spec2Isabelle
  imports Space_Packet Tc_Frame Tm_Frame Tm_Store Pus_Tm Dispatcher Fsm Watchdog Obt
    Pus_S1 Pus_S5 Pus_S6 Pus_S8 Pus_S9 Pus_S17 Pus_S20
    Pus_S3 Pus_S11 Pus_S12 Pus_S19 Mode_Task Tmtc_Task Pus_Task Pus_System
    Float_Ops Float_Bounds Bdot Adcs Qmc5883l Aocs_Task Tm_Log Fdir_Task
    Svf_Protocol Tc_Host Sim_World Sim_Nadir Sim_Loop Sim_System
    Tm_Drain Lcd Lcd_Console Zynqmp Zynqmp_System
    Mmio I2c Mag_Bus Uart Msp_Uart Tm_Store_Steps
    Stm_Main Stm_System Stm_Hardware Flight_System Fault_Report Libc_Shim Tmtc_Irq
begin

text \<open>
  OpenOBSW is an on-board software stack in C11: a library of CCSDS and PUS-C components and the
  programs built on it.  A telecommand arrives as a space packet in a type-prefixed frame on a
  serial link (or a pipe), the dispatcher selects a service, the service changes the state of
  the spacecraft and puts its reports into the telemetry store, and a loop sends what the store
  holds.  Beside this path run the mode state machine with its gate on commands, the attitude
  controllers, the monitoring with event-triggered actions, the time schedule, housekeeping, and
  the watchdogs.  This development models the code in \<^verbatim>\<open>src/\<close>, \<^verbatim>\<open>include/obsw/\<close>, \<^verbatim>\<open>sim/\<close> and
  \<^verbatim>\<open>contrib/svf_protocol/\<close>, and states what makes it correct.

  \<^bold>\<open>How the code is modelled.\<close>  A structure is a record with the fields of the code, a fixed-width
  integer a word of its width, so that arithmetic wraps as in C; \<open>size_t\<close> is a word of any
  length from 16 bits.  A pointer compared with \<open>NULL\<close> is an option, a buffer the list of its bytes, a
  return code the integer of the code, so that every early return is a branch.  A context that
  several components share by pointer is passed explicitly, as a world with a reader and a
  writer for each part.  A float is its 32 bits, and arithmetic on it is that of IEC 60559.
  Registers are reads and writes on an arbitrary device.  A loop that may not end is a
  \<open>partial_function\<close> into an option, or it stops where the program would wait forever.

  \<^bold>\<open>Foundations.\<close>
  \<^item> \<open>Obsw_Prelude\<close>: the integer types, \<^verbatim>\<open>util/bytes.h\<close>, \<open>memcpy\<close> into arrays, tables whose used part
    is scanned and compacted (locale \<open>keyed_table\<close>), the collections \<open>layout\<close>, \<open>frame_simps\<close>, \<open>inv_intros\<close>.
  \<^item> \<open>Float32\<close>, \<open>Float_Ops\<close>, \<open>Float_Bounds\<close>: binary32, its operations, and bounds that survive rounding.
  \<^item> \<open>Srdb\<close>: the generated constants of the reference database, a record that is an argument.

  \<^bold>\<open>Links and packets.\<close>
  \<^item> \<open>Space_Packet\<close>, \<open>Tc_Frame\<close>, \<open>Tm_Frame\<close> (\<^verbatim>\<open>src/ccsds/\<close>): encoders, parsers and the CRC; round trips with the
    layout of the standard, which faults of a frame are detected, the idle fill.
  \<^item> \<open>Tm_Store\<close> (\<^verbatim>\<open>src/tm/store.c\<close>): the ring buffer, a \<open>bounded_fifo\<close> of 31 packets; \<open>Tm_Drain\<close>: the loop that
    empties it.  Its fuel is the 32 slots; a store in order holds at most 31 packets, so a loop
    whose buffer is large enough ends before the fuel does.  \<open>Tm_Store_Steps\<close>: the store between preemptive
    tasks, as a relation of single steps: lossless as long as the calls of its producers do not
    overlap, and lossy where they do.
  \<^item> \<open>Svf_Protocol\<close> (\<^verbatim>\<open>contrib/svf_protocol/\<close>, \<^verbatim>\<open>sim/sensor_inject.c\<close>): the frames between flight software and
    simulation, against the contract \<open>svf_platform\<close>.

  \<^bold>\<open>Commands and services.\<close>
  \<^item> \<open>Dispatcher\<close> (\<^verbatim>\<open>src/tc/\<close>): parsing, gate, routes; the locale \<open>dispatch_inv\<close> carries an invariant of all
    handlers over a fed command.  \<open>Pus_Tm\<close>: the builder of every report.
  \<^item> \<open>Pus_S1\<close> with the contract \<open>s1_service\<close> (a command is refused by one report or accepted by one
    and closed by one), and \<open>Pus_S3\<close>, \<open>Pus_S5\<close>, \<open>Pus_S6\<close>, \<open>Pus_S8\<close>, \<open>Pus_S9\<close>, \<open>Pus_S11\<close>, \<open>Pus_S12\<close>,
    \<open>Pus_S17\<close>, \<open>Pus_S19\<close>, \<open>Pus_S20\<close> (\<^verbatim>\<open>src/pus/\<close>), each handler an interpretation of it; \<open>Stored_Tc\<close>: what S11 and S19
    check of a command they store.  \<open>schedule_host\<close> and \<open>action_host\<close> are the contracts of the
    runs that feed stored commands back to the dispatcher.
  \<^item> \<open>Fsm\<close>, \<open>Watchdog\<close> (\<^verbatim>\<open>src/fdir/\<close>), \<open>Obt\<close> (\<^verbatim>\<open>src/time/\<close>).

  \<^bold>\<open>Control.\<close>  \<open>Bdot\<close>, \<open>Adcs\<close> (\<^verbatim>\<open>src/aocs/\<close>), \<open>Sim_Nadir\<close>; commands within their limits and against the rate they
  damp, and what a NaN does.

  \<^bold>\<open>Tasks of the STM32H7 target\<close> (\<^verbatim>\<open>src/task/\<close>).  \<open>Tmtc_Task\<close> (the link), \<open>Tmtc_Irq\<close> (its interrupt),
  \<open>Pus_Task\<close> (dispatcher and services), \<open>Mode_Task\<close>, \<open>Fdir_Task\<close> with \<open>Tm_Log\<close>, \<open>Aocs_Task\<close>.  An iteration of a task is a
  function; \<open>Pus_System\<close> has the invariants of all services, the verification of every command, and
  the lock on memory access over all sequences of what reaches the world of the PUS task.
  \<open>Flight_System\<close> puts the five tasks together on the objects they share, started in the order of
  \<^verbatim>\<open>src/platform/stm32h7/main.c\<close>: in whatever order they take their turns and whatever arrives on the
  link, a command on the uplink becomes its reports on the downlink, and memory and mode change
  only where they may.  There a turn is one step; turns that preempt each other inside a call of the
  store are the matter of \<open>Tm_Store_Steps\<close>.

  \<^bold>\<open>Whole programs.\<close>  \<open>Tc_Host\<close> holds once, as locales, what the programs share: services on parts
  of a world (\<open>host_world\<close>, \<open>host_part\<close>) behind a dispatcher without (\<open>host_routes\<close>) or with (\<open>host_dispatcher\<close>) a
  gate.  \<open>Sim_World\<close>, \<open>Sim_Loop\<close>, \<open>Sim_System\<close> (\<^verbatim>\<open>sim/main.c\<close>), \<open>Zynqmp\<close>, \<open>Zynqmp_System\<close>
  (\<^verbatim>\<open>src/platform/zynqmp/main.c\<close>) and \<open>Stm_Main\<close>, \<open>Stm_System\<close> (\<^verbatim>\<open>src/platform/stm32h7/main.c\<close>, the superloop) end in the same
  theorem: whatever bytes arrive, the program answers the frames of its input one after the other
  (\<open>frames_served\<close>), each in one step of a relation (\<open>sim_served\<close>, \<open>zynq_served\<close>, \<open>stm_served\<close>) that says
  from the state before which messages leave and which state remains.
  The loops recur on the input that is left, so they are total: they end where the program
  waits for a byte or reads the end of the input.

  \<^bold>\<open>Hardware.\<close>  \<open>Mmio\<close>: registers of an arbitrary device, the log of the accesses, polling.
  \<open>I2c\<close>, \<open>Mag_Bus\<close>, \<open>Qmc5883l\<close> (magnetometer over I2C; each wait is bounded by 100000 polls), \<open>Uart\<close> (USART3,
  Cadence UART, SPI4), \<open>Msp_Uart\<close> (with the ring its interrupt fills, as steps), \<open>Lcd\<close>, \<open>Lcd_Console\<close> (display),
  \<open>Fault_Report\<close> (crash reports), \<open>Libc_Shim\<close>.  \<open>Stm_Hardware\<close> puts the superloop of the STM32H7 program on
  the driver of its UART and proves that it refines the one on streams of bytes.

  \<^bold>\<open>Assumptions.\<close>  They stand in the statements.  The queue of FreeRTOS between the tasks is a parameter
  with the contract \<open>bounded_fifo\<close>; the functions of the mathematics library and the undefined conversion
  of a float to an integer are a parameter \<open>libm\<close> of which nothing is assumed; the database is
  any record, with lengths and counts in range where a program needs them; a device gets ready
  after finitely many polls (\<open>polls\<close>) where a wait without a time-out has to return.  Within a task
  an iteration is one step: except in \<open>Tm_Store_Steps\<close> and \<open>Msp_Uart\<close>, preemption inside an
  iteration is not modelled.

  \<^bold>\<open>Not modelled.\<close>
  \<^item> \<^verbatim>\<open>targets/msp430-fr5969/main.c\<close>: the target is built with a store of 4 slots of 64 bytes, frames of 128 bytes and
    a 16-bit \<open>int\<close>; the store, the builder and the services have the limits of the other targets here.
  \<^item> \<^verbatim>\<open>src/main.c\<close>, the trap tables: compiled by no target.  \<^verbatim>\<open>hal/io.h\<close>: a record of function pointers.
  \<^item> FreeRTOS itself, the notifications between its tasks, the static memory of its idle and timer
    tasks, \<^verbatim>\<open>FreeRTOSConfig.h\<close>.
  \<^item> Start-up code, linker scripts, clock and debug registers.
  \<^item> The OrbitFabric adapter, off by default and built on a header outside the repository.
  \<^item> What goes to standard error, tests, tools, and the generated database header.
\<close>

end
